(* ===== verification/Prelude.thy ===== *)
theory Prelude
  imports Main "HOL-Library.AList"
begin

text \<open>
  What every component shares: the fact collections of the development, the results of
  fallible code, association tables (the model of a Rust \<open>HashMap\<close> whose size matters and
  of a database table's key columns), and two interfaces several components provide:
  \<open>str_codec\<close>, a pair of a printer and a parser, and \<open>tracked_table\<close>, a table
  that is swept when it reaches its bound.
\<close>

named_theorems table_simps \<open>lookups in association tables after an update\<close>
named_theorems result_simps \<open>unfolding of the result combinators\<close>

lemma find_append: "find p (xs @ ys) = (case find p xs of None \<Rightarrow> find p ys | Some x \<Rightarrow> Some x)"
  by (induction xs) auto

section \<open>Results\<close>

text \<open>A \<open>Result\<close> is a sum, the error on the left. \<open>and_then\<close> is the \<open>?\<close> operator.\<close>

type_synonym ('e, 'a) result = "'e + 'a"

definition and_then :: "('e, 'a) result \<Rightarrow> ('a \<Rightarrow> ('e, 'b) result) \<Rightarrow> ('e, 'b) result" where
  "and_then r f = (case r of Inl e \<Rightarrow> Inl e | Inr a \<Rightarrow> f a)"

lemma and_then_simps [simp, result_simps]:
  "and_then (Inl e) f = Inl e"
  "and_then (Inr a) f = f a"
  by (simp_all add: and_then_def)

lemma and_then_eq_Inr: "and_then r f = Inr b \<longleftrightarrow> (\<exists>a. r = Inr a \<and> f a = Inr b)"
  by (cases r) auto

definition ok_or :: "'a option \<Rightarrow> 'e \<Rightarrow> ('e, 'a) result" where
  "ok_or x e = (case x of None \<Rightarrow> Inl e | Some a \<Rightarrow> Inr a)"

lemma ok_or_simps [simp, result_simps]:
  "ok_or None e = Inl e"
  "ok_or (Some a) e = Inr a"
  by (simp_all add: ok_or_def)

section \<open>Association tables\<close>

type_synonym ('k, 'v) table = "('k \<times> 'v) list"

definition table_ok :: "('k, 'v) table \<Rightarrow> bool" where
  "table_ok t \<longleftrightarrow> distinct (map fst t)"

text \<open>\<open>contains_key\<close>, \<open>insert\<close>, \<open>remove\<close> and \<open>retain\<close> of a hash map.\<close>

definition has_key :: "'k \<Rightarrow> ('k, 'v) table \<Rightarrow> bool" where
  "has_key k t \<longleftrightarrow> map_of t k \<noteq> None"

definition put :: "'k \<Rightarrow> 'v \<Rightarrow> ('k, 'v) table \<Rightarrow> ('k, 'v) table" where
  "put k v t = AList.update k v t"

definition drop_key :: "'k \<Rightarrow> ('k, 'v) table \<Rightarrow> ('k, 'v) table" where
  "drop_key k t = filter (\<lambda>e. fst e \<noteq> k) t"

definition retain :: "('v \<Rightarrow> bool) \<Rightarrow> ('k, 'v) table \<Rightarrow> ('k, 'v) table" where
  "retain p t = filter (\<lambda>e. p (snd e)) t"

lemma map_of_put [simp, table_simps]: "map_of (put k v t) = (map_of t)(k \<mapsto> v)"
  by (simp add: put_def update_conv' fun_eq_iff)

lemma map_of_drop_key [simp, table_simps]: "map_of (drop_key k t) = (map_of t)(k := None)"
  by (induction t) (auto simp: drop_key_def fun_eq_iff)

lemma table_ok_Nil [simp]: "table_ok []"
  by (simp add: table_ok_def)

lemma table_ok_put [simp, intro]: "table_ok t \<Longrightarrow> table_ok (put k v t)"
  by (simp add: table_ok_def put_def distinct_update)

lemma table_ok_filter: "table_ok t \<Longrightarrow> table_ok (filter p t)"
  by (induction t) (auto simp: table_ok_def)

lemma table_ok_drop_key [simp, intro]: "table_ok t \<Longrightarrow> table_ok (drop_key k t)"
  by (simp add: drop_key_def table_ok_filter)

lemma table_ok_retain [simp, intro]: "table_ok t \<Longrightarrow> table_ok (retain p t)"
  by (simp add: retain_def table_ok_filter)

lemma map_of_retain [table_simps]:
  "table_ok t \<Longrightarrow>
   map_of (retain p t) k = (case map_of t k of None \<Rightarrow> None | Some v \<Rightarrow> if p v then Some v else None)"
proof (induction t)
  case (Cons e t)
  have "k \<notin> fst ` set t \<Longrightarrow> map_of (retain p t) k = None"
    by (auto simp: retain_def map_of_eq_None_iff)
  with Cons show ?case
    by (cases e) (auto simp: table_ok_def retain_def map_of_eq_None_iff split: option.splits)
qed (simp add: retain_def)

lemma retain_Nil [simp]: "retain p [] = []"
  by (simp add: retain_def)

lemma length_put:
  "length (put k v t) = (if has_key k t then length t else Suc (length t))"
  by (induction t) (auto simp: put_def has_key_def)

lemma length_put_le: "length (put k v t) \<le> Suc (length t)"
  by (simp add: length_put)

lemma length_retain_le: "length (retain p t) \<le> length t"
  by (simp add: retain_def)

lemma length_drop_key_le: "length (drop_key k t) \<le> length t"
  by (simp add: drop_key_def)

lemma has_key_put [simp]: "has_key k (put j v t) \<longleftrightarrow> k = j \<or> has_key k t"
  by (auto simp: has_key_def)

lemma has_key_drop_key [simp]: "has_key k (drop_key j t) \<longleftrightarrow> k \<noteq> j \<and> has_key k t"
  by (auto simp: has_key_def)

section \<open>Printers and parsers\<close>

text \<open>
  An enumeration of the code with its stored spelling: \<open>as_str\<close> prints, \<open>parse\<close> reads
  back. The one law is that reading what was printed gives the value back.
\<close>

locale str_codec =
  fixes as_str :: "'a \<Rightarrow> string" and parse :: "string \<Rightarrow> 'a option"
  assumes parse_as_str: "parse (as_str x) = Some x"
begin

lemma as_str_inject: "as_str x = as_str y \<longleftrightarrow> x = y"
  by (metis parse_as_str option.inject)

lemma parse_onto: "\<exists>s. parse s = Some x"
  using parse_as_str by blast

lemma parse_map_as_str: "List.map_filter parse (map as_str xs) = xs"
  by (induction xs) (simp_all add: parse_as_str)

end

section \<open>Tables with a bound\<close>

text \<open>
  The tracking maps of \<open>src/rate_limit.rs\<close> share a shape: before a new key is inserted
  into a full table, stale entries are swept, and if the table is still full it is cleared.
\<close>

definition make_room :: "nat \<Rightarrow> (('k, 'v) table \<Rightarrow> ('k, 'v) table) \<Rightarrow> 'k \<Rightarrow> ('k, 'v) table \<Rightarrow> ('k, 'v) table" where
  "make_room bound sweep k t =
     (if \<not> has_key k t \<and> bound \<le> length t
      then (let t' = sweep t in if bound \<le> length t' then [] else t')
      else t)"

definition table_inv :: "nat \<Rightarrow> ('v \<Rightarrow> bool) \<Rightarrow> ('k, 'v) table \<Rightarrow> bool" where
  "table_inv bound P t \<longleftrightarrow> table_ok t \<and> length t \<le> bound \<and> (\<forall>k v. map_of t k = Some v \<longrightarrow> P v)"

lemma table_inv_Nil [simp]: "table_inv bound P []"
  by (simp add: table_inv_def)

lemma table_inv_lookup: "table_inv bound P t \<Longrightarrow> map_of t k = Some v \<Longrightarrow> P v"
  by (simp add: table_inv_def)

lemma table_inv_drop_key: "table_inv bound P t \<Longrightarrow> table_inv bound P (drop_key k t)"
  using length_drop_key_le [of k t] by (auto simp: table_inv_def split: if_splits)

definition or_insert :: "'v \<Rightarrow> 'v option \<Rightarrow> 'v" where
  "or_insert d x = (case x of None \<Rightarrow> d | Some v \<Rightarrow> v)"

lemma or_insert_simps [simp]: "or_insert d None = d" "or_insert d (Some v) = v"
  by (simp_all add: or_insert_def)

lemma or_insert_intro: "P d \<Longrightarrow> (\<And>v. x = Some v \<Longrightarrow> P v) \<Longrightarrow> P (or_insert d x)"
  by (cases x) auto

locale tracked_table =
  fixes bound :: nat and sweep :: "('k, 'v) table \<Rightarrow> ('k, 'v) table" and stale :: "'v \<Rightarrow> bool"
  assumes bound_pos: "0 < bound"
    and sweep_retain: "sweep t = retain (\<lambda>v. \<not> stale v) t"
begin

lemma make_room_ok: "table_ok t \<Longrightarrow> table_ok (make_room bound sweep k t)"
  by (auto simp: make_room_def Let_def sweep_retain)

lemma make_room_bound:
  assumes "length t \<le> bound"
  shows "length (put k v (make_room bound sweep k t)) \<le> bound"
  using assms bound_pos
  by (auto simp: make_room_def Let_def length_put not_le Suc_le_eq)

lemma make_room_keeps:
  assumes "table_ok t" "length t < bound \<or> has_key k t"
  shows "make_room bound sweep k t = t"
  using assms by (auto simp: make_room_def)

text \<open>Making room never invents or alters an entry: what is found was there before.\<close>

lemma make_room_lookup:
  assumes "table_ok t" "map_of (make_room bound sweep k t) j = Some v"
  shows "map_of t j = Some v"
  using assms
  by (auto simp: make_room_def Let_def sweep_retain map_of_retain split: if_splits option.splits)

text \<open>The entry of the key being served survives, so a full table cannot reset its owner.\<close>

lemma make_room_own_key:
  assumes "table_ok t" "map_of t k = Some v"
  shows "map_of (make_room bound sweep k t) k = Some v"
  using assms by (auto simp: make_room_def has_key_def)

lemma make_room_new_key:
  assumes "table_ok t" "map_of t k = None"
  shows "map_of (make_room bound sweep k t) k = None"
  using assms make_room_lookup by (metis not_Some_eq)

lemma make_room_same_key: "table_ok t \<Longrightarrow> map_of (make_room bound sweep k t) k = map_of t k"
  using make_room_own_key make_room_new_key by (cases "map_of t k") auto

text \<open>Storing a good value under a key keeps the invariant of the table, its bound included.\<close>

lemma make_room_inv:
  assumes "table_inv bound P t" "map_of (make_room bound sweep k t) j = Some v"
  shows "P v"
  using assms make_room_lookup table_inv_lookup by (metis table_inv_def)

lemma table_inv_put:
  assumes inv: "table_inv bound P t" and v: "P v"
  shows "table_inv bound P (put k v (make_room bound sweep k t))"
  unfolding table_inv_def
proof (intro conjI allI impI)
  have t: "table_ok t" "length t \<le> bound" using inv by (simp_all add: table_inv_def)
  show "table_ok (put k v (make_room bound sweep k t))"
    by (rule table_ok_put [OF make_room_ok [OF t(1)]])
  show "length (put k v (make_room bound sweep k t)) \<le> bound"
    by (rule make_room_bound [OF t(2)])
  fix j w
  assume j: "map_of (put k v (make_room bound sweep k t)) j = Some w"
  show "P w"
  proof (cases "j = k")
    case True
    with j v show ?thesis by simp
  next
    case False
    with j have "map_of (make_room bound sweep k t) j = Some w" by simp
    with inv show ?thesis by (rule make_room_inv)
  qed
qed

lemma make_room_good:
  assumes inv: "table_inv bound P t" and d: "P d"
  shows "P (or_insert d (map_of (make_room bound sweep k t) k))"
  by (rule or_insert_intro, rule d, rule make_room_inv [OF inv])

end

end
