(* ===== verification/Store.thy ===== *)
theory Store
  imports Prelude
begin

text \<open>
  A table of the SQLite database: its rows in the order of their ids and the largest id ever
  given (\<open>INTEGER PRIMARY KEY AUTOINCREMENT\<close> never reuses one). The statements the
  repositories issue are insert, select, update and delete with a predicate; a statement is
  atomic. The invariant of a table and what each statement does to it and to a lookup by id are
  proved once here, for every row type, and used by every repository.
\<close>

record 'r store =
  last_id :: int
  rows :: "'r list"

definition empty_store :: "'r store" where
  "empty_store = \<lparr>last_id = 0, rows = []\<rparr>"

definition insert_row :: "(int \<Rightarrow> 'r) \<Rightarrow> 'r store \<Rightarrow> int \<times> 'r store" where
  "insert_row mk s =
     (let i = last_id s + 1 in (i, \<lparr>last_id = i, rows = rows s @ [mk i]\<rparr>))"

definition select_rows :: "('r \<Rightarrow> bool) \<Rightarrow> 'r store \<Rightarrow> 'r list" where
  "select_rows p s = filter p (rows s)"

definition select_row :: "('r \<Rightarrow> bool) \<Rightarrow> 'r store \<Rightarrow> 'r option" where
  "select_row p s = find p (rows s)"

definition count_rows :: "('r \<Rightarrow> bool) \<Rightarrow> 'r store \<Rightarrow> nat" where
  "count_rows p s = length (select_rows p s)"

definition update_rows :: "('r \<Rightarrow> bool) \<Rightarrow> ('r \<Rightarrow> 'r) \<Rightarrow> 'r store \<Rightarrow> 'r store" where
  "update_rows p f s = s\<lparr>rows := map (\<lambda>r. if p r then f r else r) (rows s)\<rparr>"

definition delete_rows :: "('r \<Rightarrow> bool) \<Rightarrow> 'r store \<Rightarrow> 'r store" where
  "delete_rows p s = s\<lparr>rows := filter (\<lambda>r. \<not> p r) (rows s)\<rparr>"

text \<open>\<open>ORDER BY\<close> an integer key, newest first, with the id as the tie break; and \<open>LIMIT\<close>.\<close>

definition order_asc :: "('r \<Rightarrow> 'k :: linorder) \<Rightarrow> 'r list \<Rightarrow> 'r list" where
  "order_asc f rs = sort_key f rs"

definition limit :: "int \<Rightarrow> 'r list \<Rightarrow> 'r list" where
  "limit n rs = (if n < 0 then rs else take (nat n) rs)"

section \<open>The invariant of a table\<close>

definition store_ok :: "('r \<Rightarrow> int) \<Rightarrow> 'r store \<Rightarrow> bool" where
  "store_ok key s \<longleftrightarrow>
     0 \<le> last_id s \<and> sorted_wrt (<) (map key (rows s)) \<and> (\<forall>r \<in> set (rows s). 0 < key r \<and> key r \<le> last_id s)"

lemma store_ok_empty [simp]: "store_ok key empty_store"
  by (simp add: store_ok_def empty_store_def)

lemma store_ok_insert:
  assumes "store_ok key s" "\<And>i. key (mk i) = i"
  shows "store_ok key (snd (insert_row mk s))"
  using assms by (fastforce simp: store_ok_def insert_row_def Let_def sorted_wrt_append)

lemma store_ok_update:
  assumes "store_ok key s" "\<And>r. key (f r) = key r"
  shows "store_ok key (update_rows p f s)"
proof -
  have "map key (rows (update_rows p f s)) = map key (rows s)"
    using assms(2) by (simp add: update_rows_def)
  moreover have "key r \<in> key ` set (rows s)" if "r \<in> set (rows (update_rows p f s))" for r
    using that assms(2) by (auto simp: update_rows_def)
  moreover have "last_id (update_rows p f s) = last_id s" by (simp add: update_rows_def)
  ultimately show ?thesis
    using assms(1) unfolding store_ok_def by (metis imageE)
qed

lemma store_ok_delete: "store_ok key s \<Longrightarrow> store_ok key (delete_rows p s)"
  by (auto simp: store_ok_def delete_rows_def sorted_wrt_map intro: sorted_wrt_filter)

lemma store_ok_distinct: "store_ok key s \<Longrightarrow> distinct (map key (rows s))"
  by (simp add: store_ok_def strict_sorted_iff)

lemma store_ok_inj: "store_ok key s \<Longrightarrow> r \<in> set (rows s) \<Longrightarrow> q \<in> set (rows s) \<Longrightarrow> key r = key q \<Longrightarrow> r = q"
  using store_ok_distinct by (metis distinct_map inj_onD)

lemma store_ok_fresh: "store_ok key s \<Longrightarrow> r \<in> set (rows s) \<Longrightarrow> key r \<noteq> last_id s + 1"
  by (auto simp: store_ok_def)

lemma sorted_ids: "store_ok key s \<Longrightarrow> sorted (map key (rows s))"
  by (simp add: store_ok_def strict_sorted_iff)

section \<open>Order\<close>

text \<open>Sorting is stable, so the rows of a table come by the sort key with the id as the tie break.\<close>

lemma insort_ties:
  assumes "sorted_wrt (\<lambda>a b. f a < f b \<or> f a = f b \<and> key a < key b) xs" "\<And>y. y \<in> set xs \<Longrightarrow> key x < key y"
  shows "sorted_wrt (\<lambda>a b. f a < f b \<or> f a = f b \<and> key a < key b) (insort_key f x xs)"
  using assms by (induction xs) (auto simp: set_insort_key)

lemma order_asc_ties:
  "sorted_wrt (<) (map key rs) \<Longrightarrow> sorted_wrt (\<lambda>a b. f a < f b \<or> f a = f b \<and> (key a :: int) < key b) (order_asc f rs)"
  unfolding order_asc_def by (induction rs) (auto intro: insort_ties)

lemma set_order_asc [simp]: "set (order_asc f rs) = set rs" "length (order_asc f rs) = length rs"
  by (simp_all add: order_asc_def)

lemma sorted_select_rows: "store_ok key s \<Longrightarrow> sorted_wrt (<) (map key (select_rows p s))"
  by (auto simp: store_ok_def select_rows_def sorted_wrt_map intro: sorted_wrt_filter)

section \<open>Lookups\<close>

lemma select_row_Some: "select_row p s = Some r \<Longrightarrow> r \<in> set (rows s) \<and> p r"
  by (auto simp: select_row_def find_Some_iff)

lemma select_row_None: "select_row p s = None \<longleftrightarrow> (\<forall>r \<in> set (rows s). \<not> p r)"
  by (auto simp: select_row_def find_None_iff)

lemma select_row_unique:
  assumes "r \<in> set (rows s)" "p r" "\<And>q. q \<in> set (rows s) \<Longrightarrow> p q \<Longrightarrow> q = r"
  shows "select_row p s = Some r"
proof (cases "select_row p s")
  case None
  then show ?thesis using assms(1,2) by (simp add: select_row_None)
next
  case (Some q)
  then show ?thesis using select_row_Some [OF Some] assms(3) by simp
qed

lemma select_row_key:
  assumes "store_ok key s" "r \<in> set (rows s)"
  shows "select_row (\<lambda>q. key q = key r) s = Some r"
  by (rule select_row_unique) (use assms store_ok_inj [OF assms(1)] in auto)

lemma select_row_insert:
  assumes "store_ok key s"
  shows "select_row (\<lambda>q. key q = i) (snd (insert_row mk s)) =
    (case select_row (\<lambda>q. key q = i) s of
       Some r \<Rightarrow> Some r
     | None \<Rightarrow> if key (mk (last_id s + 1)) = i then Some (mk (last_id s + 1)) else None)"
proof -
  have "find p (xs @ [x]) = (case find p xs of Some r \<Rightarrow> Some r | None \<Rightarrow> if p x then Some x else None)"
    for p :: "'a \<Rightarrow> bool" and xs x by (induction xs) auto
  then show ?thesis by (simp add: select_row_def insert_row_def Let_def split: option.split)
qed

lemma select_row_update:
  assumes "\<And>r. key (f r) = key r"
  shows "select_row (\<lambda>q. key q = i) (update_rows p f s) =
    map_option (\<lambda>r. if p r then f r else r) (select_row (\<lambda>q. key q = i) s)"
proof -
  have "find (\<lambda>q. key q = i) (map (\<lambda>r. if p r then f r else r) xs) =
      map_option (\<lambda>r. if p r then f r else r) (find (\<lambda>q. key q = i) xs)" for xs
    using assms by (induction xs) auto
  then show ?thesis by (simp add: select_row_def update_rows_def)
qed

lemma select_row_delete:
  assumes "store_ok key s"
  shows "select_row (\<lambda>q. key q = i) (delete_rows p s) =
    (case select_row (\<lambda>q. key q = i) s of None \<Rightarrow> None | Some r \<Rightarrow> if p r then None else Some r)"
proof -
  have "distinct (map key xs) \<Longrightarrow> find (\<lambda>q. key q = i) (filter (\<lambda>r. \<not> p r) xs) =
      (case find (\<lambda>q. key q = i) xs of None \<Rightarrow> None | Some r \<Rightarrow> if p r then None else Some r)" for xs
  proof (induction xs)
    case (Cons x xs)
    have "find (\<lambda>q. key q = i) (filter (\<lambda>r. \<not> p r) xs) = None" if k: "key x = i"
    proof -
      have "key q \<noteq> i" if "q \<in> set xs" for q using that k Cons.prems by (auto simp: image_iff)
      then show ?thesis by (auto simp: find_None_iff)
    qed
    with Cons show ?case by (auto split: option.splits)
  qed simp
  with store_ok_distinct [OF assms] show ?thesis
    by (simp add: select_row_def delete_rows_def)
qed

lemma filter_single: "distinct xs \<Longrightarrow> x \<in> set xs \<Longrightarrow> filter (\<lambda>r. r = x) xs = [x]"
proof (induction xs)
  case (Cons a xs)
  then show ?case by (cases "a = x") (auto intro!: filter_False)
qed simp

section \<open>What a table holds\<close>

lemma rows_insert [simp]: "rows (snd (insert_row mk s)) = rows s @ [mk (last_id s + 1)]"
  by (simp add: insert_row_def Let_def)

lemma fst_insert [simp]: "fst (insert_row mk s) = last_id s + 1"
  by (simp add: insert_row_def Let_def)

lemma rows_update [simp]: "rows (update_rows p f s) = map (\<lambda>r. if p r then f r else r) (rows s)"
  by (simp add: update_rows_def)

lemma rows_delete [simp]: "rows (delete_rows p s) = filter (\<lambda>r. \<not> p r) (rows s)"
  by (simp add: delete_rows_def)

lemma update_rowsE:
  assumes "r \<in> set (rows (update_rows p f s))"
  obtains x where "x \<in> set (rows s)" "r = (if p x then f x else x)"
  using assms unfolding rows_update set_map by blast

lemma last_id_simps [simp]:
  "last_id (snd (insert_row mk s)) = last_id s + 1"
  "last_id (update_rows p f s) = last_id s"
  "last_id (delete_rows p s) = last_id s"
  by (simp_all add: insert_row_def update_rows_def delete_rows_def Let_def)

lemma update_rows_id: "(\<And>r. r \<in> set (rows s) \<Longrightarrow> \<not> p r) \<Longrightarrow> update_rows p f s = s"
  by (simp add: update_rows_def map_idI)

lemma delete_rows_id: "(\<And>r. r \<in> set (rows s) \<Longrightarrow> \<not> p r) \<Longrightarrow> delete_rows p s = s"
  by (simp add: delete_rows_def filter_True)

lemma count_rows_0: "count_rows p s = 0 \<longleftrightarrow> (\<forall>r \<in> set (rows s). \<not> p r)"
  by (simp add: count_rows_def select_rows_def filter_empty_conv)

lemma filter_update_rows:
  assumes "\<And>r. P (f r) \<longleftrightarrow> P r" "\<And>r. p r \<Longrightarrow> \<not> P r"
  shows "filter P (rows (update_rows p f s)) = filter P (rows s)"
proof -
  have "filter P (map (\<lambda>r. if p r then f r else r) xs) = filter P xs" for xs
    using assms by (induction xs) auto
  then show ?thesis by simp
qed

lemma filter_delete_rows:
  assumes "\<And>r. p r \<Longrightarrow> \<not> P r"
  shows "filter P (rows (delete_rows p s)) = filter P (rows s)"
  using assms by (auto simp: intro!: filter_cong)

end
