(* ===== verification/Rust_Text.thy ===== *)
theory Rust_Text
  imports Prelude
begin

text \<open>
  Rust strings and the standard-library operations the sources call on them. A \<open>String\<close> is
  its UTF-8 bytes, so a \<open>string\<close> here is a list of bytes and \<open>length\<close> is
  \<open>str::len\<close>. Predicates over \<open>chars()\<close> that hold of ASCII characters only are read
  byte by byte: every byte of a non-ASCII character is at least 128 and fails them.
\<close>

named_theorems text_simps \<open>evaluation of the text operations\<close>

section \<open>Bytes\<close>

definition code :: "char \<Rightarrow> nat" where
  "code c = of_char c"

definition is_digit :: "char \<Rightarrow> bool" where
  "is_digit c \<longleftrightarrow> 48 \<le> code c \<and> code c \<le> 57"

definition is_lower :: "char \<Rightarrow> bool" where
  "is_lower c \<longleftrightarrow> 97 \<le> code c \<and> code c \<le> 122"

definition is_upper :: "char \<Rightarrow> bool" where
  "is_upper c \<longleftrightarrow> 65 \<le> code c \<and> code c \<le> 90"

definition is_alpha :: "char \<Rightarrow> bool" where
  "is_alpha c \<longleftrightarrow> is_lower c \<or> is_upper c"

definition is_alnum :: "char \<Rightarrow> bool" where
  "is_alnum c \<longleftrightarrow> is_alpha c \<or> is_digit c"

definition to_lower :: "char \<Rightarrow> char" where
  "to_lower c = (if is_upper c then char_of (code c + 32) else c)"

definition lowercase :: "string \<Rightarrow> string" where
  "lowercase s = map to_lower s"

definition eq_ignore_case :: "string \<Rightarrow> string \<Rightarrow> bool" where
  "eq_ignore_case s t \<longleftrightarrow> lowercase s = lowercase t"

lemma code_less [simp]: "code c < 256"
  by (simp add: code_def)

lemma code_inject: "code c = code d \<longleftrightarrow> c = d"
  by (simp add: code_def)

lemma code_char_of [simp]: "n < 256 \<Longrightarrow> code (char_of n) = n"
  by (simp add: code_def)

lemma char_of_code [simp]: "char_of (code c) = c"
  by (simp add: code_def)

lemma to_lower_not_upper [simp]: "\<not> is_upper (to_lower c)"
  by (auto simp: to_lower_def is_upper_def)

lemma to_lower_idem [simp]: "to_lower (to_lower c) = to_lower c"
  by (simp add: to_lower_def [of "to_lower c"])

lemma lowercase_idem [simp]: "lowercase (lowercase s) = lowercase s"
  by (simp add: lowercase_def)

lemma length_lowercase [simp]: "length (lowercase s) = length s"
  by (simp add: lowercase_def)

lemma lowercase_append [simp]: "lowercase (s @ t) = lowercase s @ lowercase t"
  by (simp add: lowercase_def)

lemma lowercase_eq_Nil [simp]: "lowercase s = [] \<longleftrightarrow> s = []"
  by (simp add: lowercase_def)

lemma eq_ignore_case_refl [simp]: "eq_ignore_case s s"
  by (simp add: eq_ignore_case_def)

lemma eq_ignore_case_lowercase [simp]:
  "eq_ignore_case (lowercase s) t \<longleftrightarrow> eq_ignore_case s t"
  "eq_ignore_case s (lowercase t) \<longleftrightarrow> eq_ignore_case s t"
  by (simp_all add: eq_ignore_case_def)

lemma eq_ignore_case_sym: "eq_ignore_case s t \<Longrightarrow> eq_ignore_case t s"
  by (simp add: eq_ignore_case_def)

section \<open>Searching\<close>

definition starts_with :: "string \<Rightarrow> string \<Rightarrow> bool" where
  "starts_with p s \<longleftrightarrow> take (length p) s = p"

definition ends_with :: "string \<Rightarrow> string \<Rightarrow> bool" where
  "ends_with p s \<longleftrightarrow> starts_with (rev p) (rev s)"

text \<open>\<open>find\<close> returns the offset of the first occurrence.\<close>

fun find_str :: "string \<Rightarrow> string \<Rightarrow> nat option" where
  "find_str p [] = (if p = [] then Some 0 else None)"
| "find_str p (c # s) =
     (if starts_with p (c # s) then Some 0 else map_option Suc (find_str p s))"

definition contains_str :: "string \<Rightarrow> string \<Rightarrow> bool" where
  "contains_str p s \<longleftrightarrow> find_str p s \<noteq> None"

definition strip_prefix :: "string \<Rightarrow> string \<Rightarrow> string option" where
  "strip_prefix p s = (if starts_with p s then Some (drop (length p) s) else None)"

definition strip_suffix :: "string \<Rightarrow> string \<Rightarrow> string option" where
  "strip_suffix p s = (if ends_with p s then Some (take (length s - length p) s) else None)"

lemma starts_with_append [simp]: "starts_with p (p @ s)"
  by (simp add: starts_with_def)

lemma starts_with_iff: "starts_with p s \<longleftrightarrow> (\<exists>t. s = p @ t)"
  by (metis append_eq_conv_conj append_take_drop_id starts_with_def)

lemma starts_with_Nil [simp]: "starts_with [] s"
  by (simp add: starts_with_def)

lemma starts_with_Cons [simp]:
  "starts_with (a # p) (b # s) \<longleftrightarrow> a = b \<and> starts_with p s"
  "\<not> starts_with (a # p) []"
  by (auto simp: starts_with_def)

lemma ends_with_append [simp]: "ends_with p (s @ p)"
  by (simp add: ends_with_def)

lemma ends_with_iff: "ends_with p s \<longleftrightarrow> (\<exists>t. s = t @ p)"
  by (metis append_eq_conv_conj ends_with_append ends_with_def rev_append rev_rev_ident starts_with_iff)

lemma find_str_Some:
  "find_str p s = Some i \<Longrightarrow> i + length p \<le> length s \<and> take (length p) (drop i s) = p"
proof (induction s arbitrary: i)
  case (Cons c s)
  show ?case
  proof (cases "starts_with p (c # s)")
    case True
    then obtain t where t: "c # s = p @ t" by (auto simp: starts_with_iff)
    from Cons.prems True have "i = 0" by simp
    with t show ?thesis by (metis append_eq_conv_conj drop0 le_add1 length_append add_0)
  next
    case False
    with Cons.prems obtain j where "find_str p s = Some j" "i = Suc j" by auto
    with Cons.IH show ?thesis by auto
  qed
qed (auto split: if_splits)

text \<open>The offset found is the first one: the pattern starts at no smaller offset.\<close>

lemma find_str_first:
  "find_str p s = Some i \<Longrightarrow> j < i \<Longrightarrow> \<not> starts_with p (drop j s)"
proof (induction s arbitrary: i j)
  case (Cons c s)
  then show ?case
    by (cases j) (auto split: if_splits)
qed (auto split: if_splits)

lemma find_str_None: "find_str p s = None \<Longrightarrow> \<not> starts_with p (drop j s)"
proof (induction s arbitrary: j)
  case Nil
  then show ?case by (cases p) (auto split: if_splits)
next
  case (Cons c s)
  then show ?case by (cases j) (auto split: if_splits)
qed

lemma find_str_split:
  assumes "find_str p s = Some i"
  shows "s = take i s @ p @ drop (i + length p) s"
  using find_str_Some [OF assms]
  by (metis append_take_drop_id drop_drop add.commute)

lemma contains_str_iff: "contains_str p s \<longleftrightarrow> (\<exists>u v. s = u @ p @ v)"
proof
  assume "contains_str p s"
  then obtain i where "find_str p s = Some i" by (auto simp: contains_str_def)
  from find_str_split [OF this] show "\<exists>u v. s = u @ p @ v" by blast
next
  assume "\<exists>u v. s = u @ p @ v"
  then obtain u v where s: "s = u @ p @ v" by blast
  then have "starts_with p (drop (length u) s)" by simp
  then show "contains_str p s"
    unfolding contains_str_def using find_str_None by blast
qed

lemma contains_single [simp]: "contains_str [c] s \<longleftrightarrow> c \<in> set s"
  by (auto simp: contains_str_iff in_set_conv_decomp)

section \<open>Splitting and joining\<close>

text \<open>\<open>split(c)\<close>: the parts between the occurrences of \<open>c\<close>, at least one.\<close>

fun split_on :: "char \<Rightarrow> string \<Rightarrow> string list" where
  "split_on c [] = [[]]"
| "split_on c (x # s) =
     (if x = c then [] # split_on c s
      else (case split_on c s of [] \<Rightarrow> [[x]] | p # ps \<Rightarrow> (x # p) # ps))"

definition split_once :: "char \<Rightarrow> string \<Rightarrow> (string \<times> string) option" where
  "split_once c s =
     (if c \<in> set s then Some (takeWhile (\<lambda>x. x \<noteq> c) s, tl (dropWhile (\<lambda>x. x \<noteq> c) s)) else None)"

definition rsplit_once :: "char \<Rightarrow> string \<Rightarrow> (string \<times> string) option" where
  "rsplit_once c s =
     (case split_once c (rev s) of None \<Rightarrow> None | Some (r, l) \<Rightarrow> Some (rev l, rev r))"

fun join_with :: "string \<Rightarrow> string list \<Rightarrow> string" where
  "join_with d [] = []"
| "join_with d [p] = p"
| "join_with d (p # ps) = p @ d @ join_with d ps"

lemma split_on_nonempty [simp]: "split_on c s \<noteq> []"
  by (induction s) (auto split: list.splits)

lemma split_on_no_sep: "p \<in> set (split_on c s) \<Longrightarrow> c \<notin> set p"
  by (induction s arbitrary: p) (auto split: list.splits if_splits)

lemma join_split_on: "join_with [c] (split_on c s) = s"
proof (induction s)
  case (Cons x s)
  obtain p ps where "split_on c s = p # ps" by (cases "split_on c s") auto
  with Cons show ?case by (cases ps) auto
qed simp

lemma split_on_fresh: "c \<notin> set s \<Longrightarrow> split_on c s = [s]"
  by (induction s) auto

lemma split_on_append_sep:
  "c \<notin> set p \<Longrightarrow> split_on c (p @ c # s) = p # split_on c s"
  by (induction p) auto

lemma split_on_join_with:
  "ps \<noteq> [] \<Longrightarrow> \<forall>p \<in> set ps. c \<notin> set p \<Longrightarrow> split_on c (join_with [c] ps) = ps"
proof (induction ps rule: induct_list012)
  case (3 p q ps)
  then show ?case by (simp add: split_on_append_sep)
qed (simp_all add: split_on_fresh)

lemma split_once_append: "c \<notin> set p \<Longrightarrow> split_once c (p @ c # s) = Some (p, s)"
  by (induction p) (auto simp: split_once_def)

lemma split_once_Some: "split_once c s = Some (p, q) \<Longrightarrow> s = p @ c # q \<and> c \<notin> set p"
proof -
  assume a: "split_once c s = Some (p, q)"
  then have c: "c \<in> set s" and p: "p = takeWhile (\<lambda>x. x \<noteq> c) s"
    and q: "q = tl (dropWhile (\<lambda>x. x \<noteq> c) s)"
    by (auto simp: split_once_def split: if_splits)
  from c have "dropWhile (\<lambda>x. x \<noteq> c) s \<noteq> []" by (auto simp: dropWhile_eq_Nil_conv)
  moreover from this have "hd (dropWhile (\<lambda>x. x \<noteq> c) s) = c"
    using hd_dropWhile by blast
  ultimately have "dropWhile (\<lambda>x. x \<noteq> c) s = c # q"
    using q by (metis list.collapse)
  then show ?thesis
    using p by (metis (mono_tags, lifting) set_takeWhileD takeWhile_dropWhile_id)
qed

lemma split_once_None: "split_once c s = None \<longleftrightarrow> c \<notin> set s"
  by (simp add: split_once_def)

lemma rsplit_once_append: "c \<notin> set q \<Longrightarrow> rsplit_once c (p @ c # q) = Some (p, q)"
  by (simp add: rsplit_once_def split_once_append)

lemma rsplit_once_None: "rsplit_once c s = None \<longleftrightarrow> c \<notin> set s"
  using split_once_None [of c "rev s"] by (auto simp: rsplit_once_def split: option.splits)

section \<open>Whitespace\<close>

text \<open>
  \<open>char::is_whitespace\<close>: the Unicode property \<open>White_Space\<close>, as the UTF-8 encodings of
  its code points. \<open>ws_len\<close> is the length of the whitespace character a text starts with,
  0 where it starts with another one.
\<close>

definition white_space :: "string list" where
  "white_space =
     [[CHR 0x09], [CHR 0x0A], [CHR 0x0B], [CHR 0x0C], [CHR 0x0D], [CHR 0x20],
      [CHR 0xC2, CHR 0x85], [CHR 0xC2, CHR 0xA0], [CHR 0xE1, CHR 0x9A, CHR 0x80],
      [CHR 0xE2, CHR 0x80, CHR 0x80], [CHR 0xE2, CHR 0x80, CHR 0x81],
      [CHR 0xE2, CHR 0x80, CHR 0x82], [CHR 0xE2, CHR 0x80, CHR 0x83],
      [CHR 0xE2, CHR 0x80, CHR 0x84], [CHR 0xE2, CHR 0x80, CHR 0x85],
      [CHR 0xE2, CHR 0x80, CHR 0x86], [CHR 0xE2, CHR 0x80, CHR 0x87],
      [CHR 0xE2, CHR 0x80, CHR 0x88], [CHR 0xE2, CHR 0x80, CHR 0x89],
      [CHR 0xE2, CHR 0x80, CHR 0x8A], [CHR 0xE2, CHR 0x80, CHR 0xA8],
      [CHR 0xE2, CHR 0x80, CHR 0xA9], [CHR 0xE2, CHR 0x80, CHR 0xAF],
      [CHR 0xE2, CHR 0x81, CHR 0x9F], [CHR 0xE3, CHR 0x80, CHR 0x80]]"

definition head_len :: "string list \<Rightarrow> string \<Rightarrow> nat" where
  "head_len ws s = (case find (\<lambda>w. starts_with w s) ws of None \<Rightarrow> 0 | Some w \<Rightarrow> length w)"

definition ws_len :: "string \<Rightarrow> nat" where
  "ws_len s = head_len white_space s"

definition ws_len_rev :: "string \<Rightarrow> nat" where
  "ws_len_rev s = head_len (map rev white_space) s"

function trim_start_by :: "(string \<Rightarrow> nat) \<Rightarrow> string \<Rightarrow> string" where
  "trim_start_by f s = (if f s = 0 \<or> s = [] then s else trim_start_by f (drop (f s) s))"
  by pat_completeness auto
termination
  by (relation "measure (\<lambda>(f, s). length s)") auto

declare trim_start_by.simps [simp del]

definition trim_start :: "string \<Rightarrow> string" where
  "trim_start s = trim_start_by ws_len s"

definition trim_end :: "string \<Rightarrow> string" where
  "trim_end s = rev (trim_start_by ws_len_rev (rev s))"

definition trim :: "string \<Rightarrow> string" where
  "trim s = trim_end (trim_start s)"

text \<open>\<open>split_whitespace\<close>: the maximal non-empty runs of non-whitespace characters.\<close>

function split_ws_acc :: "string \<Rightarrow> string \<Rightarrow> string list" where
  "split_ws_acc acc s =
     (case s of
        [] \<Rightarrow> (if acc = [] then [] else [rev acc])
      | c # s' \<Rightarrow>
          (if ws_len s = 0 then split_ws_acc (c # acc) s'
           else (if acc = [] then [] else [rev acc]) @ split_ws_acc [] (drop (ws_len s - 1) s')))"
  by pat_completeness auto
termination
  by (relation "measure (\<lambda>(acc, s). length s)") auto

declare split_ws_acc.simps [simp del]

definition split_whitespace :: "string \<Rightarrow> string list" where
  "split_whitespace s = split_ws_acc [] s"

lemma trim_start_by_Nil [simp]: "trim_start_by f [] = []"
  by (simp add: trim_start_by.simps)

lemma trim_start_by_stop: "f (trim_start_by f s) = 0 \<or> trim_start_by f s = []"
proof (induction f s rule: trim_start_by.induct)
  case (1 f s)
  then show ?case
    by (cases "f s = 0 \<or> s = []") (auto simp: trim_start_by.simps [of f s])
qed

lemma trim_start_by_id: "f s = 0 \<Longrightarrow> trim_start_by f s = s"
  by (simp add: trim_start_by.simps)

lemma trim_start_by_idem [simp]: "trim_start_by f (trim_start_by f s) = trim_start_by f s"
  using trim_start_by_stop [of f s] by (auto simp: trim_start_by_id)

lemma trim_start_by_suffix: "\<exists>u. s = u @ trim_start_by f s"
proof (induction f s rule: trim_start_by.induct)
  case (1 f s)
  show ?case
  proof (cases "f s = 0 \<or> s = []")
    case True
    then show ?thesis by (simp add: trim_start_by.simps)
  next
    case False
    with 1 obtain u where "drop (f s) s = u @ trim_start_by f (drop (f s) s)" by blast
    then have "s = (take (f s) s @ u) @ trim_start_by f (drop (f s) s)"
      by (metis append_assoc append_take_drop_id)
    with False show ?thesis by (metis trim_start_by.simps)
  qed
qed

lemma trim_decomp: "\<exists>u v. s = u @ trim s @ v"
proof -
  obtain u where u: "s = u @ trim_start s"
    using trim_start_by_suffix unfolding trim_start_def by blast
  obtain v where "rev (trim_start s) = v @ trim_start_by ws_len_rev (rev (trim_start s))"
    using trim_start_by_suffix by blast
  then have "trim_start s = trim s @ rev v"
    unfolding trim_def trim_end_def by (metis rev_append rev_rev_ident)
  with u show ?thesis by metis
qed

lemma set_trim_subset: "set (trim s) \<subseteq> set s"
proof -
  obtain u v where "s = u @ trim s @ v" using trim_decomp by blast
  then have "set s = set u \<union> set (trim s) \<union> set v" by (metis set_append sup_assoc)
  then show ?thesis by blast
qed

lemma length_trim_le: "length (trim s) \<le> length s"
proof -
  obtain u v where "s = u @ trim s @ v" using trim_decomp by blast
  then have "length s = length u + length (trim s) + length v"
    by (metis add.assoc length_append)
  then show ?thesis by simp
qed

text \<open>A text whose first and last bytes are printable ASCII is left alone by \<open>trim\<close>.\<close>

definition graphic :: "char \<Rightarrow> bool" where
  "graphic c \<longleftrightarrow> 32 < code c \<and> code c < 127"

lemma head_len_graphic:
  assumes "list_all (\<lambda>w. w \<noteq> [] \<and> \<not> graphic (hd w)) ws" "graphic c"
  shows "head_len ws (c # s) = 0"
proof -
  have "\<not> starts_with w (c # s)" if w: "w \<in> set ws" for w
  proof -
    from w assms(1) have "w \<noteq> []" "\<not> graphic (hd w)" by (auto simp: list_all_iff)
    with assms(2) show ?thesis by (cases w) auto
  qed
  then have "find (\<lambda>w. starts_with w (c # s)) ws = None"
    by (auto simp: find_None_iff)
  then show ?thesis by (simp add: head_len_def)
qed

lemma graphic_not_ws: "graphic c \<Longrightarrow> ws_len (c # s) = 0"
  unfolding ws_len_def
  by (rule head_len_graphic) (simp_all add: white_space_def graphic_def code_def)

lemma graphic_not_ws_rev: "graphic c \<Longrightarrow> ws_len_rev (c # s) = 0"
  unfolding ws_len_rev_def
  by (rule head_len_graphic) (simp_all add: white_space_def graphic_def code_def)

lemma trim_graphic:
  assumes "s \<noteq> [] \<Longrightarrow> graphic (hd s)" "s \<noteq> [] \<Longrightarrow> graphic (last s)"
  shows "trim s = s"
proof (cases "s = []")
  case False
  then obtain c t where s: "s = c # t" by (cases s) auto
  from False obtain d u where r: "rev s = d # u" and d: "d = last s"
    by (metis last_rev list.exhaust_sel rev_is_Nil_conv rev_rev_ident hd_rev)
  have "trim_start s = s"
    using assms(1) False s by (simp add: trim_start_def trim_start_by_id graphic_not_ws)
  moreover have "trim_start_by ws_len_rev (rev s) = rev s"
    using assms(2) False unfolding r d by (simp add: trim_start_by_id graphic_not_ws_rev)
  ultimately show ?thesis by (simp add: trim_def trim_end_def)
qed (simp add: trim_def trim_end_def trim_start_def)

section \<open>Numbers\<close>

definition digit_char :: "nat \<Rightarrow> char" where
  "digit_char d = char_of (48 + d)"

definition digit_val :: "char \<Rightarrow> nat" where
  "digit_val c = code c - 48"

fun show_nat :: "nat \<Rightarrow> string" where
  "show_nat n = (if n < 10 then [digit_char n] else show_nat (n div 10) @ [digit_char (n mod 10)])"

declare show_nat.simps [simp del]

definition show_int :: "int \<Rightarrow> string" where
  "show_int i = (if i < 0 then CHR ''-'' # show_nat (nat (- i)) else show_nat (nat i))"

text \<open>\<open>{n:0w}\<close>: zero padding that counts the sign.\<close>

definition pad_nat :: "nat \<Rightarrow> nat \<Rightarrow> string" where
  "pad_nat w n = replicate (w - length (show_nat n)) (CHR ''0'') @ show_nat n"

definition pad_int :: "nat \<Rightarrow> int \<Rightarrow> string" where
  "pad_int w i = (if i < 0 then CHR ''-'' # pad_nat (w - 1) (nat (- i)) else pad_nat w (nat i))"

definition digits_val :: "string \<Rightarrow> nat" where
  "digits_val s = foldl (\<lambda>n c. 10 * n + digit_val c) 0 s"

text \<open>
  \<open>str::parse\<close> for integers: an optional sign (\<open>-\<close> only for signed types), then one or
  more ASCII digits, and a value in range.
\<close>

definition parse_unsigned :: "nat \<Rightarrow> string \<Rightarrow> nat option" where
  "parse_unsigned hi s =
     (let ds = (case s of c # t \<Rightarrow> if c = CHR ''+'' then t else s | [] \<Rightarrow> []) in
      if ds \<noteq> [] \<and> list_all is_digit ds \<and> digits_val ds \<le> hi then Some (digits_val ds) else None)"

definition parse_signed :: "nat \<Rightarrow> string \<Rightarrow> int option" where
  "parse_signed hi s =
     (case s of
        [] \<Rightarrow> None
      | c # t \<Rightarrow>
          if c = CHR ''-'' then
            (if t \<noteq> [] \<and> list_all is_digit t \<and> digits_val t \<le> hi + 1
             then Some (- int (digits_val t)) else None)
          else map_option int (parse_unsigned hi s))"

definition parse_i64 :: "string \<Rightarrow> int option" where
  "parse_i64 s = parse_signed (2 ^ 63 - 1) s"

definition parse_u32 :: "string \<Rightarrow> nat option" where
  "parse_u32 s = parse_unsigned (2 ^ 32 - 1) s"

definition parse_u8 :: "string \<Rightarrow> nat option" where
  "parse_u8 s = parse_unsigned 255 s"

lemma digit_val_char [simp]: "d < 10 \<Longrightarrow> digit_val (digit_char d) = d"
  by (simp add: digit_val_def digit_char_def)

lemma is_digit_char [simp]: "d < 10 \<Longrightarrow> is_digit (digit_char d)"
  by (simp add: is_digit_def digit_char_def)

lemma show_nat_digits [simp]: "list_all is_digit (show_nat n)"
proof (induction n rule: show_nat.induct)
  case (1 n)
  then show ?case by (subst show_nat.simps) auto
qed

lemma show_nat_nonempty [simp]: "show_nat n \<noteq> []"
  by (subst show_nat.simps) simp

lemma digits_val_append: "digits_val (s @ [c]) = 10 * digits_val s + digit_val c"
  by (simp add: digits_val_def)

lemma digits_val_show_nat [simp]: "digits_val (show_nat n) = n"
proof (induction n rule: show_nat.induct)
  case (1 n)
  show ?case
  proof (cases "n < 10")
    case True
    then show ?thesis by (subst show_nat.simps) (simp add: digits_val_def)
  next
    case False
    with 1 show ?thesis by (subst show_nat.simps) (simp add: digits_val_append)
  qed
qed

lemma digits_val_zeros: "digits_val (replicate k (CHR ''0'') @ s) = digits_val s"
proof (induction k)
  case (Suc k)
  have "digit_val (CHR ''0'') = 0" by (simp add: digit_val_def code_def)
  with Suc show ?case by (simp add: digits_val_def)
qed simp

lemma digits_val_pad_nat [simp]: "digits_val (pad_nat w n) = n"
  by (simp add: pad_nat_def digits_val_zeros)

lemma pad_nat_digits [simp]: "list_all is_digit (pad_nat w n)"
  by (auto simp: pad_nat_def list_all_iff is_digit_def code_def dest: bspec [OF show_nat_digits [unfolded list_all_iff]])

lemma pad_nat_nonempty [simp]: "pad_nat w n \<noteq> []"
  by (simp add: pad_nat_def)

lemma digit_not_sign: "is_digit c \<Longrightarrow> c \<noteq> CHR ''+'' \<and> c \<noteq> CHR ''-''"
  by (auto simp: is_digit_def code_def)

lemma parse_unsigned_digits:
  assumes "list_all is_digit s" "s \<noteq> []" "digits_val s \<le> hi"
  shows "parse_unsigned hi s = Some (digits_val s)"
  using assms digit_not_sign by (cases s) (auto simp: parse_unsigned_def)

lemma parse_unsigned_bound: "parse_unsigned hi s = Some n \<Longrightarrow> n \<le> hi"
  by (auto simp: parse_unsigned_def Let_def split: if_splits)

lemma parse_signed_digits:
  assumes "list_all is_digit s" "s \<noteq> []" "digits_val s \<le> hi"
  shows "parse_signed hi s = Some (int (digits_val s))"
  using assms digit_not_sign by (cases s) (auto simp: parse_signed_def parse_unsigned_digits)

lemma parse_signed_bounds:
  "parse_signed hi s = Some i \<Longrightarrow> - int hi - 1 \<le> i \<and> i \<le> int hi"
  using parse_unsigned_bound [of hi s]
  by (auto simp: parse_signed_def split: list.splits if_splits)

lemma parse_i64_pad [simp]: "n < 2 ^ 63 \<Longrightarrow> parse_i64 (pad_nat w n) = Some (int n)"
  by (simp add: parse_i64_def parse_signed_digits)

lemma parse_u32_pad [simp]: "n < 2 ^ 32 \<Longrightarrow> parse_u32 (pad_nat w n) = Some n"
  by (simp add: parse_u32_def parse_unsigned_digits)

lemma parse_i64_show_int:
  "- (2 ^ 63) \<le> i \<Longrightarrow> i < 2 ^ 63 \<Longrightarrow> parse_i64 (show_int i) = Some i"
proof (cases "i < 0")
  assume "- (2 ^ 63) \<le> i" and "i < 0"
  then show ?thesis by (simp add: parse_i64_def show_int_def parse_signed_def)
next
  assume "i < 2 ^ 63" and "\<not> i < 0"
  then have "digits_val (show_nat (nat i)) \<le> 2 ^ 63 - 1" by simp
  with \<open>\<not> i < 0\<close> show ?thesis
    using parse_signed_digits [OF show_nat_digits show_nat_nonempty, of "nat i" "2 ^ 63 - 1"]
    by (simp add: parse_i64_def show_int_def)
qed

lemma show_nat_inject: "show_nat m = show_nat n \<longleftrightarrow> m = n"
  by (metis digits_val_show_nat)

lemma digits_fresh: "list_all is_digit s \<Longrightarrow> \<not> is_digit c \<Longrightarrow> c \<notin> set s"
  by (auto simp: list_all_iff)

end
