(* ===== verification/Calendar.thy ===== *)
theory Calendar
  imports Rust_Text
begin

text \<open>
  The civil calendar of \<open>src/src/util.rs\<close>: \<open>civil_from_days\<close>, \<open>days_from_civil\<close>
  and \<open>days_in_month\<close>, with the proof that the two conversions are inverse to each other on
  every day and on every valid Gregorian date. Rust's \<open>div_euclid\<close> and \<open>rem_euclid\<close>
  by a positive divisor are \<open>div\<close> and \<open>mod\<close> on \<open>int\<close>; the plain divisions of
  the source only ever divide non-negative values, but for the era of a negative year, which is
  written out.
\<close>

section \<open>The conversions\<close>

definition year_of_era :: "int \<Rightarrow> int" where
  "year_of_era doe = (doe - doe div 1460 + doe div 36524 - doe div 146096) div 365"

definition civil_from_days :: "int \<Rightarrow> int \<times> nat \<times> nat" where
  "civil_from_days days =
     (let z = days + 719468;
          era = z div 146097;
          doe = z mod 146097;
          yoe = year_of_era doe;
          year = yoe + era * 400;
          doy = doe - (365 * yoe + yoe div 4 - yoe div 100);
          mp = (5 * doy + 2) div 153;
          day = nat (doy - (153 * mp + 2) div 5 + 1);
          month = (if mp < 10 then nat (mp + 3) else nat (mp - 9))
      in (if month \<le> 2 then year + 1 else year, month, day))"

definition days_from_civil :: "int \<Rightarrow> nat \<Rightarrow> nat \<Rightarrow> int" where
  "days_from_civil year0 month day =
     (let year = (if month \<le> 2 then year0 - 1 else year0);
          era = (if year \<ge> 0 then year div 400 else - ((399 - year) div 400));
          yoe = year - era * 400;
          mp = (month + 9) mod 12;
          doy = (153 * int mp + 2) div 5 + int day - 1;
          doe = yoe * 365 + yoe div 4 - yoe div 100 + doy
      in era * 146097 + doe - 719468)"

definition leap_year :: "int \<Rightarrow> bool" where
  "leap_year year \<longleftrightarrow> (year mod 4 = 0 \<and> year mod 100 \<noteq> 0) \<or> year mod 400 = 0"

definition days_in_month :: "int \<Rightarrow> nat \<Rightarrow> nat" where
  "days_in_month year month =
     (if month \<in> {1, 3, 5, 7, 8, 10, 12} then 31
      else if month \<in> {4, 6, 9, 11} then 30
      else if month = 2 then (if leap_year year then 1 else 0) + 28
      else 0)"

definition valid_date :: "int \<Rightarrow> nat \<Rightarrow> nat \<Rightarrow> bool" where
  "valid_date y m d \<longleftrightarrow> 1 \<le> m \<and> m \<le> 12 \<and> 1 \<le> d \<and> d \<le> days_in_month y m"

section \<open>Years inside an era\<close>

text \<open>
  \<open>year_start y\<close> is the number of days before the first of March of year \<open>y\<close>, counted from
  year 0. \<open>days_less_leaps\<close> is the numerator of \<open>year_of_era\<close>: it is monotone, and it takes
  the value \<open>365 * y\<close> on the first day of year \<open>y\<close>, which is why one division finds the year.
\<close>

definition year_start :: "int \<Rightarrow> int" where
  "year_start y = 365 * y + y div 4 - y div 100 + y div 400"

definition days_less_leaps :: "int \<Rightarrow> int" where
  "days_less_leaps n = n - n div 1460 + n div 36524 - n div 146096"

lemma div_step: "0 < (k::int) \<Longrightarrow> (n + 1) div k = n div k + (if (n + 1) mod k = 0 then 1 else 0)"
proof -
  assume k: "0 < k"
  show ?thesis
  proof (cases "(n + 1) mod k = 0")
    case True
    then obtain q where q: "n + 1 = k * q" by (auto simp: mod_eq_0_iff_dvd)
    then have n: "n = k * (q - 1) + (k - 1)" by (simp add: algebra_simps)
    have "n div k = q - 1" unfolding n using k by (simp add: div_pos_pos_trivial)
    with q k True show ?thesis by simp
  next
    case False
    have "n div k = (n + 1) div k"
    proof -
      have "(n + 1) = k * ((n + 1) div k) + (n + 1) mod k" by simp
      then have n: "n = k * ((n + 1) div k) + ((n + 1) mod k - 1)" by linarith
      have "0 \<le> (n + 1) mod k - 1" "(n + 1) mod k - 1 < k"
        using False k pos_mod_bound [of k "n + 1"] pos_mod_sign [of k "n + 1"] by linarith+
      then show ?thesis using k by (subst n) (simp add: div_pos_pos_trivial)
    qed
    with False show ?thesis by simp
  qed
qed

definition div_jump :: "int \<Rightarrow> int \<Rightarrow> int" where
  "div_jump k n = (if n mod k = 0 then 1 else 0)"

lemma div_jump_bounds: "0 \<le> div_jump k n" "div_jump k n \<le> 1"
  by (simp_all add: div_jump_def)

lemma div_jump_pos: "n mod k \<noteq> 0 \<Longrightarrow> div_jump k n = 0"
  by (simp add: div_jump_def)

lemma div_jump_dvd: "k dvd l \<Longrightarrow> div_jump l n \<le> div_jump k n"
  using dvd_trans [of k l n] by (simp add: div_jump_def mod_eq_0_iff_dvd)

lemma days_less_leaps_Suc:
  "days_less_leaps (n + 1) =
   days_less_leaps n + 1 - div_jump 1460 (n + 1) + div_jump 36524 (n + 1) - div_jump 146096 (n + 1)"
  by (simp only: days_less_leaps_def div_step [of 1460 n] div_step [of 36524 n] div_step [of 146096 n]
      div_jump_def zero_less_numeral if_True)

lemma jump_36524: "div_jump 146096 n \<le> div_jump 36524 n"
  by (rule div_jump_dvd) simp

lemma days_less_leaps_step: "days_less_leaps n \<le> days_less_leaps (n + 1)"
  using days_less_leaps_Suc [of n] div_jump_bounds [of 1460 "n + 1"] jump_36524 [of "n + 1"]
  by linarith

lemma days_less_leaps_mono: "m \<le> n \<Longrightarrow> days_less_leaps m \<le> days_less_leaps n"
  by (induction n rule: int_ge_induct) (auto intro: order_trans days_less_leaps_step)


lemma year_start_split:
  assumes "0 \<le> c" "c < 4" "0 \<le> q" "q < 25" "0 \<le> r" "r < 4"
  shows "year_start (100 * c + 4 * q + r) = 36524 * c + 1460 * q + 365 * r + q"
proof -
  have "(100 * c + 4 * q + r) div 4 = 25 * c + q"
    by (rule int_div_pos_eq [of _ _ _ r]) (use assms in auto)
  moreover have "(100 * c + 4 * q + r) div 100 = c"
    by (rule int_div_pos_eq [of _ _ _ "4 * q + r"]) (use assms in auto)
  moreover have "(100 * c + 4 * q + r) div 400 = 0"
    by (rule div_pos_pos_trivial) (use assms in auto)
  ultimately show ?thesis by (simp add: year_start_def)
qed

lemma year_split:
  assumes "0 \<le> y" "y < (400::int)"
  obtains c q r where "y = 100 * c + 4 * q + r" "0 \<le> c" "c < 4" "0 \<le> q" "q < 25" "0 \<le> r" "r < 4"
proof
  show "y = 100 * (y div 100) + 4 * (y mod 100 div 4) + y mod 100 mod 4"
    using mult_div_mod_eq [of 100 y] mult_div_mod_eq [of 4 "y mod 100"] by linarith
  have "y div 100 \<le> 399 div 100" "y mod 100 div 4 \<le> 99 div 4"
    by (rule zdiv_mono1; use assms pos_mod_bound [of 100 y] in linarith)+
  then show "y div 100 < 4" "y mod 100 div 4 < 25" by simp_all
qed (use assms in \<open>simp_all add: pos_imp_zdiv_nonneg_iff\<close>)

lemma days_less_leaps_start:
  assumes "0 \<le> c" "c < 4" "0 \<le> q" "q < 25" "0 \<le> r" "r < 4"
  shows "days_less_leaps (36524 * c + 1460 * q + 365 * r + q) = 365 * (100 * c + 4 * q + r)"
proof -
  let ?n = "36524 * c + 1460 * q + 365 * r + q"
  have "?n div 1460 = 25 * c + q"
    by (rule int_div_pos_eq [of _ _ _ "24 * c + 365 * r + q"]) (use assms in auto)
  moreover have "?n div 36524 = c"
    by (rule int_div_pos_eq [of _ _ _ "1460 * q + 365 * r + q"]) (use assms in auto)
  moreover have "?n div 146096 = 0"
    by (rule div_pos_pos_trivial) (use assms in auto)
  ultimately show ?thesis by (simp add: days_less_leaps_def)
qed

lemma days_less_leaps_year_start: "0 \<le> y \<Longrightarrow> y < 400 \<Longrightarrow> days_less_leaps (year_start y) = 365 * y"
  by (erule (1) year_split) (simp only: year_start_split days_less_leaps_start)

lemma days_less_leaps_year_end:
  assumes "0 \<le> y" "y < 400"
  shows "days_less_leaps (year_start (y + 1) - 1) < 365 * (y + 1)"
proof (cases "y = 399")
  case True
  then show ?thesis by (simp add: year_start_def days_less_leaps_def)
next
  case False
  with assms have y: "0 \<le> y + 1" "y + 1 < 400" by auto
  then obtain c q r where s: "y + 1 = 100 * c + 4 * q + r"
    and b: "0 \<le> c" "c < 4" "0 \<le> q" "q < 25" "0 \<le> r" "r < 4"
    by (rule year_split)
  let ?n = "year_start (y + 1)"
  have n: "?n = 36524 * c + 1460 * q + 365 * r + q"
    unfolding s by (rule year_start_split) (use b in auto)
  have "?n mod 1460 = 24 * c + 365 * r + q"
    unfolding n by (rule int_mod_pos_eq [of _ _ "25 * c + q"]) (use b in auto)
  then have "div_jump 1460 ?n = 0" using b s assms by (intro div_jump_pos) linarith
  moreover have "days_less_leaps ?n = 365 * (y + 1)"
    using days_less_leaps_year_start y by blast
  ultimately show ?thesis
    using days_less_leaps_Suc [of "?n - 1"] jump_36524 [of ?n] by simp
qed

lemma year_of_era_eq:
  assumes "0 \<le> y" "y < 400" "year_start y \<le> n" "n < year_start (y + 1)"
  shows "year_of_era n = y"
proof -
  have "365 * y \<le> days_less_leaps n"
    using days_less_leaps_mono [OF assms(3)] days_less_leaps_year_start assms by simp
  moreover have "days_less_leaps n < 365 * (y + 1)"
    using days_less_leaps_mono [of n "year_start (y + 1) - 1"] days_less_leaps_year_end [OF assms(1,2)] assms(4)
    by linarith
  ultimately have "days_less_leaps n div 365 = y"
    by (intro int_div_pos_eq [of _ _ _ "days_less_leaps n - 365 * y"]) auto
  then show ?thesis by (simp add: year_of_era_def days_less_leaps_def)
qed

lemma year_of_era_exists:
  assumes "0 \<le> n" "n < 146097"
  shows "\<exists>y. 0 \<le> y \<and> y < 400 \<and> year_start y \<le> n \<and> n < year_start (y + 1)"
proof -
  have "\<exists>y. 0 \<le> y \<and> y < int k \<and> year_start y \<le> n \<and> n < year_start (y + 1)"
    if "n < year_start (int k)" for k
    using that
  proof (induction k)
    case 0
    with assms show ?case by (simp add: year_start_def)
  next
    case (Suc k)
    show ?case
    proof (cases "n < year_start (int k)")
      case True
      with Suc.IH show ?thesis by force
    next
      case False
      with Suc.prems show ?thesis by (intro exI [of _ "int k"]) (auto simp: add.commute)
    qed
  qed
  from this [of 400] assms show ?thesis by (simp add: year_start_def)
qed

lemma year_of_era_bounds:
  assumes "0 \<le> n" "n < 146097"
  shows "0 \<le> year_of_era n" "year_of_era n < 400"
    "year_start (year_of_era n) \<le> n" "n < year_start (year_of_era n + 1)"
  using year_of_era_exists [OF assms] year_of_era_eq by metis+

lemma year_start_less: "0 \<le> y \<Longrightarrow> y < 400 \<Longrightarrow>
  year_start y = 365 * y + y div 4 - y div 100"
  by (simp add: year_start_def)

lemma year_length: "year_start (y + 1) - year_start y = (if leap_year (y + 1) then 366 else 365)"
proof -
  have "year_start (y + 1) - year_start y =
      365 + div_jump 4 (y + 1) - div_jump 100 (y + 1) + div_jump 400 (y + 1)"
    by (simp only: year_start_def div_step [of 4 y] div_step [of 100 y] div_step [of 400 y]
        div_jump_def zero_less_numeral if_True) simp
  moreover have "(y + 1) mod 100 = 0" if "(y + 1) mod 400 = 0"
    using that dvd_trans [of 100 400 "y + 1"] by (simp add: mod_eq_0_iff_dvd)
  moreover have "(y + 1) mod 4 = 0" if "(y + 1) mod 100 = 0"
    using that dvd_trans [of 4 100 "y + 1"] by (simp add: mod_eq_0_iff_dvd)
  ultimately show ?thesis
    unfolding leap_year_def div_jump_def
    by (cases "(y + 1) mod 400 = 0"; cases "(y + 1) mod 100 = 0"; cases "(y + 1) mod 4 = 0") simp_all
qed

lemma floor_div_400: "(if y \<ge> 0 then y div 400 else - ((399 - y) div 400)) = (y div 400 :: int)"
proof -
  have "y = 400 * (y div 400) + y mod 400" by simp
  then have "399 - y = 400 * (- (y div 400)) + (399 - y mod 400)" by linarith
  moreover have "0 \<le> 399 - y mod 400" "399 - y mod 400 < 400"
    using pos_mod_bound [of 400 y] pos_mod_sign [of 400 y] by linarith+
  ultimately have "(399 - y) div 400 = - (y div 400)"
    by (intro int_div_pos_eq)
  then show ?thesis by simp
qed

text \<open>Day and month of a day of the year that starts on the first of March.\<close>

definition month_prime :: "int \<Rightarrow> int" where
  "month_prime doy = (5 * doy + 2) div 153"

lemma month_prime_bounds:
  assumes "0 \<le> doy" "doy \<le> 365"
  shows "0 \<le> month_prime doy" "month_prime doy \<le> 11"
    "(153 * month_prime doy + 2) div 5 \<le> doy"
proof -
  show "0 \<le> month_prime doy"
    using assms by (simp add: month_prime_def pos_imp_zdiv_nonneg_iff)
  have "(5 * doy + 2) div 153 \<le> 1827 div 153"
    by (rule zdiv_mono1) (use assms in auto)
  then show "month_prime doy \<le> 11" by (simp add: month_prime_def)
  have "153 * month_prime doy \<le> 5 * doy + 2"
    using pos_mod_sign [of 153 "5 * doy + 2"] mult_div_mod_eq [of 153 "5 * doy + 2"]
    unfolding month_prime_def by linarith
  then have "(153 * month_prime doy + 2) div 5 \<le> (5 * doy + 4) div 5"
    by (intro zdiv_mono1) auto
  also have "(5 * doy + 4) div 5 = doy"
    by (rule int_div_pos_eq [of _ _ _ 4]) auto
  finally show "(153 * month_prime doy + 2) div 5 \<le> doy" .
qed

text \<open>The civil date of a day of an era, and its inverse, with the era factored out.\<close>

definition civil_of_doy :: "int \<Rightarrow> int \<Rightarrow> int \<times> nat \<times> nat" where
  "civil_of_doy y doy =
     (let mp = month_prime doy;
          month = (if mp < 10 then nat (mp + 3) else nat (mp - 9))
      in (if month \<le> 2 then y + 1 else y, month, nat (doy - (153 * mp + 2) div 5 + 1)))"

definition doy_of_civil :: "nat \<Rightarrow> nat \<Rightarrow> int" where
  "doy_of_civil month day = (153 * int ((month + 9) mod 12) + 2) div 5 + int day - 1"

definition day_of_era_year :: "int \<Rightarrow> int" where
  "day_of_era_year doe = doe - year_start (year_of_era doe)"

lemma day_of_era_year_bounds:
  assumes "0 \<le> n" "n < 146097"
  shows "0 \<le> day_of_era_year n" "day_of_era_year n \<le> 365"
  using year_of_era_bounds [OF assms] year_length [of "year_of_era n"]
  unfolding day_of_era_year_def by (auto split: if_splits)

lemma civil_from_days_alt:
  "civil_from_days days =
     civil_of_doy (year_of_era ((days + 719468) mod 146097) + (days + 719468) div 146097 * 400)
       (day_of_era_year ((days + 719468) mod 146097))"
proof -
  define z where "z = days + 719468"
  have "0 \<le> z mod 146097" "z mod 146097 < 146097" by simp_all
  from year_of_era_bounds(1,2) [OF this] show ?thesis
    unfolding civil_from_days_def z_def [symmetric] Let_def civil_of_doy_def day_of_era_year_def
      month_prime_def
    by (simp only: year_start_less)
qed

lemma days_from_civil_alt:
  "days_from_civil y0 m d =
     (let y = (if m \<le> 2 then y0 - 1 else y0)
      in y div 400 * 146097 + year_start (y mod 400) + doy_of_civil m d - 719468)"
proof -
  have "y - y div 400 * 400 = y mod 400" for y :: int by (simp add: minus_div_mult_eq_mod)
  moreover have "year_start (y mod 400) = y mod 400 * 365 + y mod 400 div 4 - y mod 400 div 100" for y
    by (simp add: year_start_less)
  ultimately show ?thesis
    unfolding days_from_civil_def Let_def floor_div_400 doy_of_civil_def by simp
qed

lemma civil_of_doy_bounds:
  assumes "0 \<le> doy" "doy \<le> 365" "civil_of_doy y doy = (y', m, d)"
  shows "1 \<le> m" "m \<le> 12" "1 \<le> d"
  using month_prime_bounds [OF assms(1,2)] assms(3)
  by (auto simp: civil_of_doy_def Let_def split: if_splits)

lemma doy_civil_doy:
  assumes "0 \<le> doy" "doy \<le> 365" "civil_of_doy y doy = (y', m, d)"
  shows "doy_of_civil m d = doy" "(if m \<le> 2 then y' - 1 else y') = y"
proof -
  define mp where "mp = month_prime doy"
  note b = month_prime_bounds [OF assms(1,2), folded mp_def]
  have m: "m = (if mp < 10 then nat (mp + 3) else nat (mp - 9))"
    and d: "d = nat (doy - (153 * mp + 2) div 5 + 1)"
    and y': "y' = (if m \<le> 2 then y + 1 else y)"
    using assms(3) by (auto simp: civil_of_doy_def Let_def mp_def)
  have "int ((m + 9) mod 12) = mp"
    using b(1,2) by (auto simp: m zmod_int)
  then show "doy_of_civil m d = doy"
    using b(3) unfolding doy_of_civil_def d by simp
  show "(if m \<le> 2 then y' - 1 else y') = y" by (simp add: y')
qed

lemma civil_month_bounds:
  assumes "civil_from_days days = (y, m, d)"
  shows "1 \<le> m" "m \<le> 12" "1 \<le> d"
proof -
  have "0 \<le> (days + 719468) mod 146097" "(days + 719468) mod 146097 < 146097" by simp_all
  note b = day_of_era_year_bounds [OF this]
  from civil_of_doy_bounds [OF b] assms show "1 \<le> m" "m \<le> 12" "1 \<le> d"
    unfolding civil_from_days_alt by metis+
qed

lemma days_civil_days:
  assumes "civil_from_days days = (y, m, d)"
  shows "days_from_civil y m d = days"
proof -
  define doe where "doe = (days + 719468) mod 146097"
  define era where "era = (days + 719468) div 146097"
  have doe: "0 \<le> doe" "doe < 146097" by (simp_all add: doe_def)
  have days: "days = era * 146097 + doe - 719468" by (simp add: era_def doe_def)
  from assms have c: "civil_of_doy (year_of_era doe + era * 400) (day_of_era_year doe) = (y, m, d)"
    unfolding civil_from_days_alt doe_def era_def .
  note inv = doy_civil_doy [OF day_of_era_year_bounds [OF doe] c]
  have "(year_of_era doe + era * 400) div 400 = era" "(year_of_era doe + era * 400) mod 400 = year_of_era doe"
    using year_of_era_bounds(1,2) [OF doe] by simp_all
  then show ?thesis
    unfolding days_from_civil_alt Let_def inv days by (simp add: day_of_era_year_def)
qed

text \<open>The other direction: every valid date is the date of its day count.\<close>

lemma month_cases:
  assumes "1 \<le> m" "m \<le> (12::nat)"
  obtains "m = 1" | "m = 2" | "m = 3" | "m = 4" | "m = 5" | "m = 6" | "m = 7" | "m = 8"
    | "m = 9" | "m = 10" | "m = 11" | "m = 12"
proof -
  from assms have "m \<in> {1..12}" by simp
  then have "m \<in> {1, 2, 3, 4, 5, 6, 7, 8, 9, 10, 11, 12}"
    by (simp add: atLeastAtMost_insertL [symmetric] eval_nat_numeral atLeastAtMostSuc_conv)
  with that show thesis by auto
qed

lemma doy_of_civil_month_prime:
  assumes "valid_date y m d"
  shows "month_prime (doy_of_civil m d) = int ((m + 9) mod 12)"
    and "0 \<le> doy_of_civil m d"
    and "doy_of_civil m d < (if m \<le> 2 then (if leap_year y then 366 else 365) else 306)"
proof -
  have m: "1 \<le> m" "m \<le> 12" and d: "1 \<le> d" "d \<le> days_in_month y m"
    using assms by (auto simp: valid_date_def)
  have "month_prime (doy_of_civil m d) = int ((m + 9) mod 12) \<and> 0 \<le> doy_of_civil m d \<and>
     doy_of_civil m d < (if m \<le> 2 then (if leap_year y then 366 else 365) else 306)"
    by (rule month_cases [OF m])
       (use d in \<open>auto simp: month_prime_def doy_of_civil_def days_in_month_def
          intro!: int_div_pos_eq [of _ _ _ "5 * (int d) + k" for k] split: if_splits\<close>)
  then show "month_prime (doy_of_civil m d) = int ((m + 9) mod 12)"
    and "0 \<le> doy_of_civil m d"
    and "doy_of_civil m d < (if m \<le> 2 then (if leap_year y then 366 else 365) else 306)" by auto
qed


lemma civil_of_doy_of_civil:
  assumes "valid_date y m d"
  shows "civil_of_doy (if m \<le> 2 then y - 1 else y) (doy_of_civil m d) = (y, m, d)"
proof -
  note mp = doy_of_civil_month_prime(1) [OF assms]
  have m: "1 \<le> m" "m \<le> 12" and d: "1 \<le> d" using assms by (auto simp: valid_date_def)
  have "(if int ((m + 9) mod 12) < 10 then nat (int ((m + 9) mod 12) + 3) else nat (int ((m + 9) mod 12) - 9)) = m"
    by (rule month_cases [OF m]) simp_all
  then show ?thesis
    using d unfolding civil_of_doy_def Let_def mp by (simp add: doy_of_civil_def)
qed

lemma year_start_mono: "y \<le> z \<Longrightarrow> year_start y \<le> year_start z"
proof (induction z rule: int_ge_induct)
  case (step z)
  with year_length [of z] show ?case by (auto split: if_splits)
qed simp

lemma leap_year_mod_400: "leap_year (y mod 400 + 1) = leap_year (y + 1)"
proof -
  have "(y mod 400 + 1) mod k = (y + 1) mod k" if "k dvd 400" for k
    using that by (metis mod_add_left_eq mod_mod_cancel)
  then show ?thesis by (simp add: leap_year_def)
qed

lemma civil_days_civil:
  assumes "valid_date y m d"
  shows "civil_from_days (days_from_civil y m d) = (y, m, d)"
proof -
  define y1 where "y1 = (if m \<le> 2 then y - 1 else y)"
  define yoe where "yoe = y1 mod 400"
  define doy where "doy = doy_of_civil m d"
  have yoe: "0 \<le> yoe" "yoe < 400" by (simp_all add: yoe_def)
  have "year_start (yoe + 1) - year_start yoe = (if leap_year (y1 + 1) then 366 else 365)"
    unfolding year_length yoe_def leap_year_mod_400 ..
  with doy_of_civil_month_prime(2,3) [OF assms]
  have doy: "0 \<le> doy" "year_start yoe + doy < year_start (yoe + 1)"
    unfolding doy_def y1_def by (auto split: if_splits)
  have start: "0 \<le> year_start yoe" "year_start (yoe + 1) \<le> 146097"
    using year_start_mono [of 0 yoe] year_start_mono [of "yoe + 1" 400] yoe
    by (simp_all add: year_start_def [of 0] year_start_def [of 400])
  have era: "year_of_era (year_start yoe + doy) = yoe"
    using year_of_era_eq [OF yoe] doy by simp
  have z: "days_from_civil y m d + 719468 = y1 div 400 * 146097 + (year_start yoe + doy)"
    unfolding days_from_civil_alt Let_def y1_def [symmetric] yoe_def [symmetric] doy_def [symmetric]
    by simp
  have "(days_from_civil y m d + 719468) mod 146097 = year_start yoe + doy"
    "(days_from_civil y m d + 719468) div 146097 = y1 div 400"
    unfolding z using doy start by simp_all
  then have "civil_from_days (days_from_civil y m d) = civil_of_doy (yoe + y1 div 400 * 400) doy"
    unfolding civil_from_days_alt by (simp add: era day_of_era_year_def)
  also have "yoe + y1 div 400 * 400 = y1" by (simp add: yoe_def)
  finally show ?thesis
    using civil_of_doy_of_civil [OF assms] unfolding y1_def doy_def by simp
qed

lemma year_start_400: "year_start (y + 400 * k) = year_start y + 146097 * k"
proof -
  have "(y + 400 * k) div 4 = y div 4 + 100 * k" "(y + 400 * k) div 100 = y div 100 + 4 * k"
    "(y + 400 * k) div 400 = y div 400 + k"
    using div_mult_self2 [of 4 y "100 * k"] div_mult_self2 [of 100 y "4 * k"] by simp_all
  then show ?thesis by (simp add: year_start_def)
qed

lemma days_from_civil_year_start:
  "days_from_civil y m d = year_start (if m \<le> 2 then y - 1 else y) + doy_of_civil m d - 719468"
proof -
  have "year_start y1 = y1 div 400 * 146097 + year_start (y1 mod 400)" for y1
    using year_start_400 [of "y1 mod 400" "y1 div 400"] by simp
  from this [of "if m \<le> 2 then y - 1 else y"] show ?thesis
    unfolding days_from_civil_alt Let_def by linarith
qed

lemma civil_of_doy_valid:
  assumes "0 \<le> doy" "doy < (if leap_year (y + 1) then 366 else 365)" "civil_of_doy y doy = (y', m, d)"
  shows "valid_date y' m d"
proof -
  define mp where "mp = month_prime doy"
  have doy: "doy \<le> 365" using assms(2) by (auto split: if_splits)
  note b = month_prime_bounds [OF assms(1) doy, folded mp_def]
  have "5 * doy + 2 < 153 * mp + 153"
    using pos_mod_bound [of 153 "5 * doy + 2"] mult_div_mod_eq [of 153 "5 * doy + 2"]
    unfolding mp_def month_prime_def by linarith
  then have "5 * doy div 5 \<le> (153 * mp + 150) div 5" by (intro zdiv_mono1) auto
  then have ub: "doy \<le> (153 * mp + 150) div 5" by simp
  have m: "m = (if mp < 10 then nat (mp + 3) else nat (mp - 9))"
    and d: "d = nat (doy - (153 * mp + 2) div 5 + 1)"
    and y': "y' = (if m \<le> 2 then y + 1 else y)"
    using assms(3) by (auto simp: civil_of_doy_def Let_def mp_def)
  have "mp = 0 \<or> mp = 1 \<or> mp = 2 \<or> mp = 3 \<or> mp = 4 \<or> mp = 5 \<or> mp = 6 \<or> mp = 7 \<or> mp = 8 \<or>
        mp = 9 \<or> mp = 10 \<or> mp = 11"
    using b(1,2) by presburger
  then show ?thesis
    by (elim disjE)
       (use ub b(3) assms(1,2) in \<open>simp_all add: valid_date_def days_in_month_def m d y' nat_le_iff Suc_le_eq split: if_splits\<close>)
qed

lemma civil_from_days_valid:
  assumes "civil_from_days days = (y, m, d)"
  shows "valid_date y m d"
proof -
  define doe where "doe = (days + 719468) mod 146097"
  define yoe where "yoe = year_of_era doe"
  have doe: "0 \<le> doe" "doe < 146097" by (simp_all add: doe_def)
  let ?y = "yoe + (days + 719468) div 146097 * 400"
  have "leap_year (?y + 1) = leap_year (?y mod 400 + 1)" by (simp only: leap_year_mod_400)
  also have "?y mod 400 = yoe" using year_of_era_bounds(1,2) [OF doe] by (simp add: yoe_def)
  finally have "day_of_era_year doe < (if leap_year (?y + 1) then 366 else 365)"
    using year_of_era_bounds(4) [OF doe] year_length [of yoe]
    by (auto simp: day_of_era_year_def yoe_def split: if_splits)
  moreover have "civil_of_doy ?y (day_of_era_year doe) = (y, m, d)"
    using assms unfolding civil_from_days_alt doe_def yoe_def .
  ultimately show ?thesis
    using civil_of_doy_valid day_of_era_year_bounds(1) [OF doe] by blast
qed

lemma doy_of_civil_jan_feb: "m = 1 \<or> m = 2 \<Longrightarrow> 1 \<le> d \<Longrightarrow> 306 \<le> doy_of_civil m d"
  by (auto simp: doy_of_civil_def)

lemma days_from_civil_lower:
  assumes "valid_date y m d" "k \<le> y"
  shows "year_start (k - 1) + 306 - 719468 \<le> days_from_civil y m d"
proof (cases "m \<le> 2")
  case True
  then have "306 \<le> doy_of_civil m d"
    using assms(1) by (intro doy_of_civil_jan_feb) (auto simp: valid_date_def)
  then show ?thesis
    using True year_start_mono [of "k - 1" "y - 1"] assms(2) by (simp add: days_from_civil_year_start)
next
  case False
  then show ?thesis
    using year_start_mono [of k y] year_length [of "k - 1"] assms(2)
      doy_of_civil_month_prime(2) [OF assms(1)]
    by (auto simp: days_from_civil_year_start split: if_splits)
qed

lemma days_from_civil_upper:
  assumes "valid_date y m d" "y < k"
  shows "days_from_civil y m d < year_start (k - 1) + 306 - 719468"
proof (cases "m \<le> 2")
  case True
  then show ?thesis
    using year_start_mono [of y "k - 1"] year_length [of "y - 1"] assms(2)
      doy_of_civil_month_prime(3) [OF assms(1)]
    by (auto simp: days_from_civil_year_start split: if_splits)
next
  case False
  then show ?thesis
    using year_start_mono [of y "k - 1"] assms(2) doy_of_civil_month_prime(3) [OF assms(1)]
    by (auto simp: days_from_civil_year_start split: if_splits)
qed

lemma year_1970: "year_start 1969 + 306 - 719468 = 0"
  by (simp add: year_start_def)

lemma year_10000: "year_start 9999 + 306 - 719468 = 2932897"
  by (simp add: year_start_def)

lemma civil_year_range:
  assumes "0 \<le> days" "days < 2932897" "civil_from_days days = (y, m, d)"
  shows "1970 \<le> y" "y \<le> 9999"
proof -
  note v = civil_from_days_valid [OF assms(3)] and e = days_civil_days [OF assms(3)]
  show "1970 \<le> y"
    using days_from_civil_upper [OF v, of 1970] year_1970 e assms(1) by fastforce
  show "y \<le> 9999"
    using days_from_civil_lower [OF v, of 10000] year_10000 e assms(2) by fastforce
qed

lemma days_range_of_year:
  assumes "valid_date y m d" "1970 \<le> y" "y \<le> 9999"
  shows "0 \<le> days_from_civil y m d" "days_from_civil y m d < 2932897"
  using days_from_civil_lower [OF assms(1,2)] days_from_civil_upper [OF assms(1), of 10000]
    year_1970 year_10000 assms(3) by simp_all

section \<open>The two conversions are inverse\<close>

text \<open>\<open>civil_from_days\<close> and \<open>days_from_civil\<close> are inverse to each other: a day count has
  exactly one civil date, that date is valid in the Gregorian calendar, and a valid date is the
  date of exactly its own day count. This holds for every integer day, before and after 1970.\<close>

theorem civil_days_bijection:
  "civil_from_days days = (y, m, d) \<longleftrightarrow> valid_date y m d \<and> days_from_civil y m d = days"
  using civil_from_days_valid days_civil_days civil_days_civil by blast

end
