(* ===== verification/Util.thy ===== *)
theory Util
  imports Calendar
begin

text \<open>
  \<open>src/src/util.rs\<close>: slugs, the date printers and the \<open>datetime-local\<close> parser of the CMS
  forms (over the conversions of \<open>Calendar\<close>), the schedule normalisation and the query-string
  encoder.
\<close>

section \<open>Slugs\<close>

definition slug_char :: "char \<Rightarrow> bool" where
  "slug_char c \<longleftrightarrow> is_lower c \<or> is_digit c \<or> c = CHR ''-''"

definition valid_slug :: "string \<Rightarrow> bool" where
  "valid_slug s \<longleftrightarrow>
     1 \<le> length s \<and> length s \<le> 64 \<and> \<not> starts_with ''-'' s \<and> \<not> ends_with ''-'' s \<and>
     \<not> contains_str ''--'' s \<and> list_all slug_char s"

section \<open>Printers\<close>

definition fmt_date :: "int \<times> nat \<times> nat \<Rightarrow> string" where
  "fmt_date ymd = (case ymd of (y, m, d) \<Rightarrow> pad_int 4 y @ ''-'' @ pad_nat 2 m @ ''-'' @ pad_nat 2 d)"

definition hour_of :: "int \<Rightarrow> nat" where
  "hour_of tod = nat (tod div 3600)"

definition minute_of :: "int \<Rightarrow> nat" where
  "minute_of tod = nat ((tod mod 3600) div 60)"

definition second_of :: "int \<Rightarrow> nat" where
  "second_of tod = nat (tod mod 60)"

definition format_timestamp :: "int \<Rightarrow> string" where
  "format_timestamp seconds =
     (let days = seconds div 86400; tod = seconds mod 86400
      in fmt_date (civil_from_days days) @ '' '' @ pad_nat 2 (hour_of tod) @ '':'' @ pad_nat 2 (minute_of tod))"

definition iso_date :: "int \<Rightarrow> string" where
  "iso_date seconds = fmt_date (civil_from_days (seconds div 86400))"

definition iso_datetime :: "int \<Rightarrow> string" where
  "iso_datetime seconds =
     (let days = seconds div 86400; tod = seconds mod 86400
      in fmt_date (civil_from_days days) @ ''T'' @ pad_nat 2 (hour_of tod) @ '':'' @
         pad_nat 2 (minute_of tod) @ '':'' @ pad_nat 2 (second_of tod) @ ''Z'')"

definition weekdays :: "string list" where
  "weekdays = [''Sun'', ''Mon'', ''Tue'', ''Wed'', ''Thu'', ''Fri'', ''Sat'']"

definition months :: "string list" where
  "months = [''Jan'', ''Feb'', ''Mar'', ''Apr'', ''May'', ''Jun'',
             ''Jul'', ''Aug'', ''Sep'', ''Oct'', ''Nov'', ''Dec'']"

text \<open>An index out of range panics in Rust: \<open>None\<close> here.\<close>

definition index :: "'a list \<Rightarrow> nat \<Rightarrow> 'a option" where
  "index xs i = (if i < length xs then Some (xs ! i) else None)"

definition rfc2822_date :: "int \<Rightarrow> string option" where
  "rfc2822_date seconds =
     (let days = seconds div 86400; tod = seconds mod 86400 in
      case civil_from_days days of (year, month, day) \<Rightarrow>
      (case index weekdays (nat ((days + 4) mod 7)) of
         None \<Rightarrow> None
       | Some weekday \<Rightarrow>
           (case (if month = 0 then None else index months (month - 1)) of
              None \<Rightarrow> None
            | Some mon \<Rightarrow>
                Some (weekday @ '', '' @ pad_nat 2 day @ '' '' @ mon @ '' '' @ pad_int 4 year @ '' '' @
                  pad_nat 2 (hour_of tod) @ '':'' @ pad_nat 2 (minute_of tod) @ '':'' @
                  pad_nat 2 (second_of tod) @ '' +0000''))))"

definition format_datetime_local :: "int \<Rightarrow> string" where
  "format_datetime_local seconds =
     (let days = seconds div 86400; tod = seconds mod 86400
      in fmt_date (civil_from_days days) @ ''T'' @ pad_nat 2 (hour_of tod) @ '':'' @ pad_nat 2 (minute_of tod))"

section \<open>The \<open>datetime-local\<close> parser\<close>

definition parse_date :: "string \<Rightarrow> (int \<times> nat \<times> nat) option" where
  "parse_date date =
     (case split_on (CHR ''-'') date of
        [ys, ms, ds] \<Rightarrow>
          (case (parse_i64 ys, parse_u32 ms, parse_u32 ds) of
             (Some y, Some m, Some d) \<Rightarrow> Some (y, m, d)
           | _ \<Rightarrow> None)
      | _ \<Rightarrow> None)"

definition parse_time :: "string \<Rightarrow> (int \<times> int \<times> int) option" where
  "parse_time time =
     (case split_on (CHR '':'') time of
        [hs, ms] \<Rightarrow>
          (case (parse_i64 hs, parse_i64 ms) of
             (Some h, Some m) \<Rightarrow> Some (h, m, 0)
           | _ \<Rightarrow> None)
      | [hs, ms, ss] \<Rightarrow>
          (case (parse_i64 hs, parse_i64 ms, parse_i64 ss) of
             (Some h, Some m, Some s) \<Rightarrow> Some (h, m, s)
           | _ \<Rightarrow> None)
      | _ \<Rightarrow> None)"

definition parse_datetime_local :: "string \<Rightarrow> int option" where
  "parse_datetime_local raw =
     (case split_once (CHR ''T'') raw of
        None \<Rightarrow> None
      | Some (date, time) \<Rightarrow>
          (case parse_date date of
             None \<Rightarrow> None
           | Some (year, month, day) \<Rightarrow>
               (case parse_time time of
                  None \<Rightarrow> None
                | Some (hour, minute, second) \<Rightarrow>
                    if \<not> (1970 \<le> year \<and> year \<le> 9999) then None
                    else if \<not> (1 \<le> month \<and> month \<le> 12) then None
                    else if day < 1 \<or> days_in_month year month < day then None
                    else if \<not> (0 \<le> hour \<and> hour < 24) then None
                    else if \<not> (0 \<le> minute \<and> minute < 60) then None
                    else if \<not> (0 \<le> second \<and> second < 60) then None
                    else Some (days_from_civil year month day * 86400 + hour * 3600 + minute * 60 + second))))"

section \<open>Schedules and query strings\<close>

definition normalize_schedule :: "bool \<Rightarrow> int option \<Rightarrow> int \<Rightarrow> int option" where
  "normalize_schedule is_published publish_at now =
     (case (is_published, publish_at) of
        (False, Some at) \<Rightarrow> if at > now then Some at else None
      | _ \<Rightarrow> None)"

definition hex_upper :: string where
  "hex_upper = ''0123456789ABCDEF''"

definition unreserved :: "char \<Rightarrow> bool" where
  "unreserved c \<longleftrightarrow> is_alnum c \<or>
     c \<in> {CHR ''-'', CHR ''_'', CHR ''.'', CHR ''!'', CHR ''~'', CHR ''*'', CHR 0x27, CHR ''('', CHR '')''}"

fun encode_uri_component :: "string \<Rightarrow> string" where
  "encode_uri_component [] = []"
| "encode_uri_component (c # s) =
     (if unreserved c then [c]
      else [CHR ''%'', hex_upper ! (code c div 16), hex_upper ! (code c mod 16)])
     @ encode_uri_component s"

text \<open>The reading of a percent-encoded value, for the round trip.\<close>

definition hex_digit_val :: "char \<Rightarrow> nat" where
  "hex_digit_val c = (if is_digit c then code c - 48 else code c - 55)"

fun percent_decode :: "string \<Rightarrow> string" where
  "percent_decode (c # h # l # s) =
     (if c = CHR ''%'' then char_of (16 * hex_digit_val h + hex_digit_val l) # percent_decode s
      else c # percent_decode (h # l # s))"
| "percent_decode s = s"

section \<open>Printing and reading back\<close>

lemma fmt_date_nat:
  "0 \<le> y \<Longrightarrow> fmt_date (y, m, d) = join_with ''-'' [pad_nat 4 (nat y), pad_nat 2 m, pad_nat 2 d]"
  by (simp add: fmt_date_def pad_int_def)

lemma digits_no_dash: "CHR ''-'' \<notin> set (pad_nat w n)"
  by (rule digits_fresh [OF pad_nat_digits]) (simp add: is_digit_def code_def)

lemma digits_no_T: "CHR ''T'' \<notin> set (pad_nat w n)"
  by (rule digits_fresh [OF pad_nat_digits]) (simp add: is_digit_def code_def)

lemma digits_no_colon: "CHR '':'' \<notin> set (pad_nat w n)"
  by (rule digits_fresh [OF pad_nat_digits]) (simp add: is_digit_def code_def)

lemma parse_date_fmt_date:
  assumes "0 \<le> y" "y < 2 ^ 63" "m < 2 ^ 32" "d < 2 ^ 32"
  shows "parse_date (fmt_date (y, m, d)) = Some (y, m, d)"
proof -
  have "split_on (CHR ''-'') (fmt_date (y, m, d)) = [pad_nat 4 (nat y), pad_nat 2 m, pad_nat 2 d]"
    unfolding fmt_date_nat [OF assms(1)] by (rule split_on_join_with) (auto simp: digits_no_dash)
  then show ?thesis using assms by (simp add: parse_date_def)
qed

lemma parse_time_fmt:
  assumes "h < 2 ^ 63" "m < 2 ^ 63"
  shows "parse_time (pad_nat 2 h @ '':'' @ pad_nat 2 m) = Some (int h, int m, 0)"
proof -
  have "pad_nat 2 h @ '':'' @ pad_nat 2 m = join_with '':'' [pad_nat 2 h, pad_nat 2 m]" by simp
  then have "split_on (CHR '':'') (pad_nat 2 h @ '':'' @ pad_nat 2 m) = [pad_nat 2 h, pad_nat 2 m]"
    by (simp only:) (rule split_on_join_with, auto simp: digits_no_colon)
  then show ?thesis using assms by (simp add: parse_time_def)
qed

lemma days_in_month_le: "days_in_month y m \<le> 31"
  by (simp add: days_in_month_def)

lemma parse_format_datetime_local:
  assumes "0 \<le> s" "s < 253402300800"
  shows "parse_datetime_local (format_datetime_local s) = Some (s - s mod 60)"
proof -
  define days where "days = s div 86400"
  define tod where "tod = s mod 86400"
  obtain y m d where c: "civil_from_days days = (y, m, d)" by (metis prod_cases3)
  have days: "0 \<le> days" "days < 2932897" using assms by (simp_all add: days_def)
  note y = civil_year_range [OF days c] and v = civil_from_days_valid [OF c]
  have md: "m < 2 ^ 32" "d < 2 ^ 32" "1 \<le> m" "m \<le> 12" "1 \<le> d" "d \<le> days_in_month y m"
    using v days_in_month_le [of y m] by (auto simp: valid_date_def)
  have tod: "0 \<le> tod" "tod < 86400" by (simp_all add: tod_def)
  have hm: "hour_of tod < 24" "minute_of tod < 60"
    using tod by (auto simp: hour_of_def minute_of_def nat_less_iff)
  let ?t = "pad_nat 2 (hour_of tod) @ '':'' @ pad_nat 2 (minute_of tod)"
  have f: "format_datetime_local s = fmt_date (y, m, d) @ CHR ''T'' # ?t"
    unfolding format_datetime_local_def Let_def days_def [symmetric] tod_def [symmetric] c by simp
  have "CHR ''T'' \<notin> set (fmt_date (y, m, d))"
    using y by (simp add: fmt_date_nat digits_no_T)
  then have sp: "split_once (CHR ''T'') (format_datetime_local s) = Some (fmt_date (y, m, d), ?t)"
    unfolding f by (rule split_once_append)
  have pd: "parse_date (fmt_date (y, m, d)) = Some (y, m, d)"
    using y md by (intro parse_date_fmt_date) auto
  have pt: "parse_time ?t = Some (int (hour_of tod), int (minute_of tod), 0)"
    using hm by (intro parse_time_fmt) auto
  have "days * 86400 + int (hour_of tod) * 3600 + int (minute_of tod) * 60 = s - s mod 60"
  proof -
    have "tod div 3600 * 3600 + (tod mod 3600) div 60 * 60 = tod - tod mod 60"
    proof -
      have "tod mod 3600 mod 60 = tod mod 60" by (rule mod_mod_cancel) simp
      then show ?thesis
        using mult_div_mod_eq [of 3600 tod] mult_div_mod_eq [of 60 "tod mod 3600"] by linarith
    qed
    moreover have "s = days * 86400 + tod" by (simp add: days_def tod_def)
    moreover have "tod mod 60 = s mod 60" unfolding tod_def by (simp add: mod_mod_cancel)
    moreover have "int (hour_of tod) = tod div 3600" "int (minute_of tod) = (tod mod 3600) div 60"
      using tod by (simp_all add: hour_of_def minute_of_def pos_imp_zdiv_nonneg_iff)
    ultimately show ?thesis by linarith
  qed
  then show ?thesis
    using sp pd pt y md hm days_civil_days [OF c] by (simp add: parse_datetime_local_def)
qed

lemma parse_datetime_local_range:
  assumes "parse_datetime_local raw = Some t"
  shows "0 \<le> t" "t < 253402300800"
proof -
  from assms obtain y m d h mi s where t: "t = days_from_civil y m d * 86400 + h * 3600 + mi * 60 + s"
    and v: "valid_date y m d" "1970 \<le> y" "y \<le> 9999"
    and b: "0 \<le> h" "h < 24" "0 \<le> mi" "mi < 60" "0 \<le> s" "s < 60"
    by (auto simp: parse_datetime_local_def valid_date_def split: option.splits prod.splits if_splits)
  from days_range_of_year [OF v] b show "0 \<le> t" "t < 253402300800" unfolding t by linarith+
qed

lemma rfc2822_date_defined: "rfc2822_date s \<noteq> None"
proof -
  obtain y m d where c: "civil_from_days (s div 86400) = (y, m, d)" by (metis prod_cases3)
  have "nat ((s div 86400 + 4) mod 7) < 7" by (simp add: nat_less_iff)
  with civil_month_bounds [OF c] show ?thesis
    by (simp add: rfc2822_date_def c index_def weekdays_def months_def Let_def)
qed

lemma unreserved_not_percent: "unreserved c \<Longrightarrow> c \<noteq> CHR ''%''"
  by (auto simp: unreserved_def is_alnum_def is_alpha_def is_lower_def is_upper_def is_digit_def code_def)

lemma hex_digit_val_upper: "n < 16 \<Longrightarrow> hex_digit_val (hex_upper ! n) = n"
proof -
  have "list_all (\<lambda>n. hex_digit_val (hex_upper ! n) = n) [0..<16]" by code_simp
  then show "n < 16 \<Longrightarrow> hex_digit_val (hex_upper ! n) = n" by (auto simp: list_all_iff)
qed

lemma percent_decode_plain: "c \<noteq> CHR ''%'' \<Longrightarrow> percent_decode (c # s) = c # percent_decode s"
  by (cases s rule: remdups_adj.cases) auto

lemma percent_decode_encode_id: "percent_decode (encode_uri_component s) = s"
proof (induction s)
  case (Cons c s)
  show ?case
  proof (cases "unreserved c")
    case True
    with Cons show ?thesis by (simp add: percent_decode_plain unreserved_not_percent)
  next
    case False
    have "code c div 16 < 16" using code_less [of c] by linarith
    with False Cons show ?thesis by (simp add: hex_digit_val_upper)
  qed
qed simp

definition query_safe :: "char \<Rightarrow> bool" where
  "query_safe c \<longleftrightarrow> unreserved c \<or> c = CHR ''%''"

lemma encode_uri_component_safe: "list_all query_safe (encode_uri_component s)"
proof (induction s)
  case (Cons c s)
  have "list_all (\<lambda>n. query_safe (hex_upper ! n)) [0..<16]" by code_simp
  then have h: "n < 16 \<Longrightarrow> query_safe (hex_upper ! n)" for n by (auto simp: list_all_iff)
  have "code c div 16 < 16" using code_less [of c] by linarith
  with Cons h show ?case by (auto simp: query_safe_def [of c] query_safe_def [of "CHR ''%''"])
qed simp

lemma normalize_schedule_idem:
  "normalize_schedule p (normalize_schedule p at now) now = normalize_schedule p at now"
  by (auto simp: normalize_schedule_def split: option.splits bool.splits)


section \<open>Properties\<close>

text \<open>A schedule typed into the admin form survives the form: whatever
  \<open>parse_datetime_local\<close> accepts is a moment of the years 1970 to 9999, and printing it back
  with \<open>format_datetime_local\<close> and parsing again gives the same minute.\<close>

theorem datetime_local_round_trip:
  assumes "parse_datetime_local raw = Some t"
  shows "0 \<le> t \<and> t < 253402300800 \<and>
    parse_datetime_local (format_datetime_local t) = Some (t - t mod 60)"
  using parse_datetime_local_range [OF assms] parse_format_datetime_local by blast

lemma parse_datetime_local_example: "parse_datetime_local ''2024-02-29T23:59:07'' = Some 1709251147"
  by (simp add: parse_datetime_local_def parse_date_def parse_time_def split_once_def parse_i64_def
      parse_signed_def parse_u32_def parse_unsigned_def is_digit_def digits_val_def digit_val_def
      code_def days_in_month_def leap_year_def days_from_civil_def)

theorem datetime_local_round_trip_witness:
  "parse_datetime_local (format_datetime_local 1709251147) = Some (1709251147 - 1709251147 mod 60)"
  using datetime_local_round_trip [OF parse_datetime_local_example] by simp

text \<open>\<open>encode_uri_component\<close> is lossless and safe to splice: its output holds unreserved
  characters and percent signs only, and percent-decoding it gives the original bytes back.\<close>

theorem encode_uri_component_round_trip:
  "percent_decode (encode_uri_component s) = s \<and> list_all query_safe (encode_uri_component s)"
  by (simp add: percent_decode_encode_id encode_uri_component_safe)

end
