(* ===== verification/Vhosts.thy ===== *)
theory Vhosts
  imports Util "HOL-Library.Word"
begin

text \<open>
  \<open>src/src/vhosts.rs\<close>: which organization's tree serves a request. A request is given by the
  host of its URI authority, if it has one, and by its \<open>Host\<close> headers in order, each as what
  \<open>HeaderValue::to_str\<close> makes of it (None where the value is not visible ASCII).
\<close>

type_synonym header_value = "string option"

definition main_organization_key :: string where
  "main_organization_key = ''main''"

definition cms_organization_key :: string where
  "cms_organization_key = ''cms''"

record host_binding =
  hb_hostname :: string
  hb_organization :: string
  hb_document_root :: string

datatype host_class = Cms | Main | Tenant host_binding

definition class_organization :: "host_class \<Rightarrow> string option" where
  "class_organization c = (case c of Tenant b \<Rightarrow> Some (hb_organization b) | _ \<Rightarrow> None)"

definition host_name :: "string \<Rightarrow> string" where
  "host_name raw0 =
     (let raw = trim raw0 in
      case find_str '']'' raw of
        Some i \<Rightarrow> take (Suc i) raw
      | None \<Rightarrow> (case rsplit_once (CHR '':'') raw of Some (name, _) \<Rightarrow> name | None \<Rightarrow> raw))"

definition request_host :: "string option \<Rightarrow> header_value list \<Rightarrow> string option" where
  "request_host authority hosts =
     (case authority of
        Some host \<Rightarrow> Some host
      | None \<Rightarrow> (case hosts of [value] \<Rightarrow> value | _ \<Rightarrow> None))"

definition class_of :: "host_binding \<Rightarrow> host_class" where
  "class_of b =
     (if hb_organization b = cms_organization_key then Cms
      else if hb_organization b = main_organization_key then Main
      else Tenant b)"

definition classify :: "string option \<Rightarrow> header_value list \<Rightarrow> host_binding list \<Rightarrow> host_class" where
  "classify authority hosts bindings =
     (case request_host authority hosts of
        None \<Rightarrow> Main
      | Some host \<Rightarrow>
          (case find (\<lambda>b. eq_ignore_case (hb_hostname b) (host_name host)) bindings of
             None \<Rightarrow> Main
           | Some b \<Rightarrow> class_of b))"

definition organization_key :: "string option \<Rightarrow> header_value list \<Rightarrow> host_binding list \<Rightarrow> string" where
  "organization_key authority hosts bindings =
     (case class_organization (classify authority hosts bindings) of
        Some key \<Rightarrow> key
      | None \<Rightarrow> cms_organization_key)"

definition cms_origin :: "string option \<Rightarrow> string list \<Rightarrow> bool \<Rightarrow> 16 word \<Rightarrow> string" where
  "cms_origin site_url cms_hosts tls_enabled port =
     (case cms_hosts of
        [] \<Rightarrow> []
      | host # _ \<Rightarrow>
          (case site_url of
             Some url \<Rightarrow> url
           | None \<Rightarrow>
               (let scheme = (if tls_enabled then ''https'' else ''http'');
                    default_port = (if tls_enabled then 443 else 80)
                in if port \<noteq> 0 \<and> port \<noteq> default_port
                   then scheme @ ''://'' @ host @ '':'' @ show_nat (unat port)
                   else scheme @ ''://'' @ host)))"

section \<open>Host names\<close>

text \<open>A host as DNS writes it: printable, no port, no bracket.\<close>

definition plain_host :: "string \<Rightarrow> bool" where
  "plain_host s \<longleftrightarrow> s \<noteq> [] \<and> list_all graphic s \<and> CHR '':'' \<notin> set s \<and> CHR '']'' \<notin> set s"

lemma trim_all_graphic: "list_all graphic s \<Longrightarrow> trim s = s"
  by (rule trim_graphic) (auto simp: list_all_iff)

lemma find_str_fresh: "c \<notin> set s \<Longrightarrow> find_str [c] s = None"
  using contains_single [of c s] by (auto simp: contains_str_def)

lemma host_name_plain: "plain_host s \<Longrightarrow> host_name s = s"
  by (simp add: host_name_def plain_host_def trim_all_graphic find_str_fresh rsplit_once_None [THEN iffD2])

lemma digits_graphic: "list_all is_digit s \<Longrightarrow> list_all graphic s"
  by (auto simp: list_all_iff is_digit_def graphic_def)

lemma host_name_port:
  assumes "plain_host s" "list_all is_digit p"
  shows "host_name (s @ '':'' @ p) = s"
proof -
  have p: "CHR '':'' \<notin> set p" "CHR '']'' \<notin> set p"
    using assms(2) by (auto dest!: digits_fresh simp: is_digit_def code_def)
  have "list_all graphic (s @ '':'' @ p)"
    using assms digits_graphic by (simp add: plain_host_def graphic_def code_def)
  from trim_all_graphic [OF this] show ?thesis
    using assms(1) p
    by (simp add: host_name_def plain_host_def find_str_fresh rsplit_once_append)
qed

lemma graphic_to_lower: "graphic (to_lower c) \<longleftrightarrow> graphic c"
  by (auto simp: to_lower_def graphic_def is_upper_def)

lemma to_lower_eq:
  assumes "\<not> is_alpha d"
  shows "to_lower c = d \<longleftrightarrow> c = d"
  using assms by (auto simp: to_lower_def is_alpha_def is_upper_def is_lower_def)

lemma plain_host_lowercase:
  assumes "lowercase s = lowercase t" "plain_host s"
  shows "plain_host t"
proof -
  have m: "map to_lower s = map to_lower t" using assms(1) by (simp add: lowercase_def)
  have "list_all graphic (map to_lower u) \<longleftrightarrow> list_all graphic u" for u
    by (simp add: list_all_iff graphic_to_lower)
  moreover have "d \<in> set (map to_lower u) \<longleftrightarrow> d \<in> set u" if "\<not> is_alpha d" for d u
    using to_lower_eq [OF that] by (metis image_iff list.set_map)
  then have "d \<in> set s \<longleftrightarrow> d \<in> set t" if "\<not> is_alpha d" for d using m that by metis
  moreover have "\<not> is_alpha (CHR '':'')" "\<not> is_alpha (CHR '']'')"
    by (simp_all add: is_alpha_def is_upper_def is_lower_def code_def)
  ultimately show ?thesis using assms(2) m
    by (metis (no_types) list.map_disc_iff plain_host_def)
qed

section \<open>Properties\<close>

text \<open>
  The host decides, and only the host: a name that differs in letter case, that carries a
  port, or that arrives in the URI authority with any \<open>Host\<close> headers beside it, is
  classified as the bare name in a single \<open>Host\<close> header is.
\<close>

theorem host_matching:
  assumes "plain_host name" "lowercase name' = lowercase name" "list_all is_digit port"
  shows "classify None [Some (name' @ '':'' @ port)] bindings = classify None [Some name] bindings \<and>
    classify (Some name') hosts bindings = classify None [Some name] bindings"
proof -
  have "plain_host name'" using assms(1,2) plain_host_lowercase by metis
  then have "host_name (name' @ '':'' @ port) = name'" "host_name name' = name'" "host_name name = name"
    using assms(1,3) host_name_port host_name_plain by blast+
  moreover have "eq_ignore_case s name' \<longleftrightarrow> eq_ignore_case s name" for s
    using assms(2) by (simp add: eq_ignore_case_def)
  ultimately show ?thesis
    by (simp_all add: classify_def request_host_def)
qed

lemma host_matching_witness:
  "classify None [Some (''CMS.Example'' @ '':'' @ ''8080'')] [] = classify None [Some ''cms.example''] [] \<and>
   classify (Some ''CMS.Example'') [] [] = classify None [Some ''cms.example''] []"
  by (rule host_matching)
    (simp_all add: plain_host_def graphic_def code_def lowercase_def to_lower_def is_upper_def char_of_def bit_0
      is_digit_def)

text \<open>
  A request reaches a tenant's content scope only through the table: it names exactly one
  host, some row of the table maps that host, up to letter case, to the organization of the
  scope, and no earlier row maps it elsewhere. Everything else, a missing, unreadable,
  duplicated or unknown host included, is scoped to the CMS organization.
\<close>

theorem tenant_scope_by_mapping:
  assumes "organization_key authority hosts bindings = org" "org \<noteq> cms_organization_key"
  shows "\<exists>host before b after.
    bindings = before @ b # after \<and> hb_organization b = org \<and>
    (authority = Some host \<or> authority = None \<and> hosts = [Some host]) \<and>
    lowercase (hb_hostname b) = lowercase (host_name host) \<and>
    (\<forall>e \<in> set before. lowercase (hb_hostname e) \<noteq> lowercase (host_name host)) \<and>
    org \<noteq> main_organization_key"
proof -
  let ?p = "\<lambda>host b. eq_ignore_case (hb_hostname b) (host_name host)"
  from assms obtain host b where h: "request_host authority hosts = Some host"
      and f: "find (?p host) bindings = Some b" and c: "class_of b = Tenant b" and o: "hb_organization b = org"
    by (auto simp: organization_key_def classify_def class_organization_def class_of_def
        split: option.splits host_class.splits if_splits)
  from f obtain i where i: "i < length bindings" "?p host (bindings ! i)" "b = bindings ! i"
      "\<forall>j<i. \<not> ?p host (bindings ! j)"
    by (auto simp: find_Some_iff)
  have "bindings = take i bindings @ b # drop (Suc i) bindings"
    using i(1,3) by (simp add: id_take_nth_drop)
  moreover have "\<forall>e \<in> set (take i bindings). \<not> ?p host e"
    using i(1,4) by (auto simp: in_set_conv_nth)
  moreover have "authority = Some host \<or> authority = None \<and> hosts = [Some host]"
    using h by (auto simp: request_host_def split: option.splits list.splits)
  moreover have "org \<noteq> main_organization_key"
    using c o by (auto simp: class_of_def split: if_splits)
  ultimately show ?thesis
    using o i(2,3)
    by (intro exI [of _ host] exI [of _ "take i bindings"] exI [of _ b] exI [of _ "drop (Suc i) bindings"])
      (simp add: eq_ignore_case_def)
qed

lemma tenant_scope_by_mapping_witness:
  "\<exists>host before b after.
    [\<lparr>hb_hostname = ''shop'', hb_organization = ''acme'', hb_document_root = ''/s''\<rparr>] = before @ b # after \<and>
    hb_organization b = ''acme'' \<and>
    ((None :: string option) = Some host \<or> (None :: string option) = None \<and> [Some ''SHOP''] = [Some host]) \<and>
    lowercase (hb_hostname b) = lowercase (host_name host) \<and>
    (\<forall>e \<in> set before. lowercase (hb_hostname e) \<noteq> lowercase (host_name host)) \<and>
    ''acme'' \<noteq> main_organization_key"
proof (rule tenant_scope_by_mapping)
  have "host_name ''SHOP'' = ''SHOP''"
    by (rule host_name_plain) (simp add: plain_host_def graphic_def code_def)
  then show "organization_key None [Some ''SHOP'']
      [\<lparr>hb_hostname = ''shop'', hb_organization = ''acme'', hb_document_root = ''/s''\<rparr>] = ''acme''"
    by (simp add: organization_key_def classify_def request_host_def class_of_def class_organization_def
        eq_ignore_case_def lowercase_def to_lower_def is_upper_def code_def char_of_def bit_0
        cms_organization_key_def main_organization_key_def)
qed (simp add: cms_organization_key_def)

end
