(* ===== verification/Schema.thy ===== *)
theory Schema
  imports Store Rust_Text Vhosts
begin

text \<open>
  The SQLite schema of \<open>src/migrations/*.sql\<close> as \<open>src/src/db.rs\<close> uses it: one record per
  row, one \<open>store\<close> per table, and the database as the record of its tables. A text column
  that holds an enumeration is kept as text and decoded when it is read, as the code does it. The
  full-text index is not part of the state. Constraint failures are the only storage errors of
  the model: \<open>Duplicate\<close> for a uniqueness violation, \<open>Internal\<close> for every other one.
\<close>

section \<open>Errors\<close>

datatype repository_error = Duplicate | Internal string

type_synonym 'a repo = "(repository_error, 'a) result"

definition collect_results :: "('e, 'a) result list \<Rightarrow> ('e, 'a list) result" where
  "collect_results rs = foldr (\<lambda>r acc. and_then r (\<lambda>a. and_then acc (\<lambda>as. Inr (a # as)))) rs (Inr [])"

lemma collect_results_Inr [simp]: "collect_results (map Inr xs) = Inr xs"
  by (induction xs) (simp_all add: collect_results_def)

section \<open>Enumerations\<close>

datatype user_role = Admin | Editor | User

definition role_as_str :: "user_role \<Rightarrow> string" where
  "role_as_str r = (case r of Admin \<Rightarrow> ''admin'' | Editor \<Rightarrow> ''editor'' | User \<Rightarrow> ''user'')"

definition role_parse :: "string \<Rightarrow> user_role option" where
  "role_parse s =
     (if s = ''admin'' then Some Admin
      else if s = ''editor'' then Some Editor
      else if s = ''user'' then Some User
      else None)"

definition is_editor :: "user_role \<Rightarrow> bool" where
  "is_editor r = (case r of Admin \<Rightarrow> True | Editor \<Rightarrow> True | User \<Rightarrow> False)"

datatype body_format = Jhs | Markdown

definition body_format_parse :: "string \<Rightarrow> body_format option" where
  "body_format_parse raw =
     (let s = trim raw in
      if s = ''jhs'' then Some Jhs
      else if s = ''markdown'' then Some Markdown
      else None)"

definition body_format_as_str :: "body_format \<Rightarrow> string" where
  "body_format_as_str f = (case f of Jhs \<Rightarrow> ''jhs'' | Markdown \<Rightarrow> ''markdown'')"

interpretation role_codec: str_codec role_as_str role_parse
proof
  show "role_parse (role_as_str r) = Some r" for r
    by (cases r) (simp_all add: role_parse_def role_as_str_def)
qed

interpretation body_format_codec: str_codec body_format_as_str body_format_parse
proof
  show "body_format_parse (body_format_as_str f) = Some f" for f
  proof -
    have "trim (body_format_as_str f) = body_format_as_str f"
      by (rule trim_graphic) (cases f; simp add: body_format_as_str_def graphic_def code_def)+
    then show ?thesis by (cases f) (simp_all add: body_format_parse_def body_format_as_str_def)
  qed
qed

section \<open>Rows\<close>

record user_row =
  ur_id :: int
  ur_username :: string
  ur_password_hash :: string
  ur_role :: string
  ur_created_at :: int
  ur_last_login_at :: "int option"

record refresh_token_record =
  rt_id :: int
  rt_family :: int
  rt_user :: int
  rt_hash :: string
  rt_expires_at :: int
  rt_created_at :: int
  rt_created_ip :: "string option"
  rt_user_agent :: "string option"
  rt_rotated_at :: "int option"
  rt_revoked_at :: "int option"

record organization_record =
  o_id :: int
  o_key :: string
  o_name :: string
  o_document_root :: string
  o_created_at :: int

record domain_row =
  d_id :: int
  d_hostname :: string
  d_organization :: int
  d_source :: string
  d_created_at :: int

record membership_row =
  m_user :: int
  m_organization :: int
  m_role :: string
  m_created_at :: int

record page_row =
  p_id :: int
  p_organization :: int
  p_slug :: string
  p_title :: string
  p_content :: string
  p_body_format :: string
  p_is_published :: bool
  p_publish_at :: "int option"
  p_created_by :: "int option"
  p_created_at :: int
  p_updated_at :: int
  p_parent :: "int option"
  p_position :: int
  p_meta_title :: "string option"
  p_meta_description :: "string option"
  p_og_image :: "string option"

record revision_row =
  rv_id :: int
  rv_page :: int
  rv_revision :: int
  rv_slug :: string
  rv_title :: string
  rv_content :: string
  rv_body_format :: string
  rv_parent :: "int option"
  rv_position :: int
  rv_meta_title :: "string option"
  rv_meta_description :: "string option"
  rv_og_image :: "string option"
  rv_is_published :: bool
  rv_publish_at :: "int option"
  rv_edited_by :: "int option"
  rv_note :: "string option"
  rv_created_at :: int

record menu_row =
  mn_id :: int
  mn_organization :: int
  mn_name :: string
  mn_title :: string
  mn_created_at :: int
  mn_updated_at :: int

record menu_item_record =
  mi_id :: int
  mi_menu :: int
  mi_position :: int
  mi_label :: "string option"
  mi_page :: "int option"
  mi_url :: "string option"

record media_row =
  md_id :: int
  md_organization :: int
  md_stored_name :: string
  md_thumb_name :: string
  md_original_name :: string
  md_mime_type :: string
  md_bytes :: int
  md_width :: int
  md_height :: int
  md_alt_text :: string
  md_created_at :: int
  md_created_by :: "int option"

record db =
  db_users :: "user_row store"
  db_tokens :: "refresh_token_record store"
  db_organizations :: "organization_record store"
  db_domains :: "domain_row store"
  db_memberships :: "membership_row list"
  db_pages :: "page_row store"
  db_revisions :: "revision_row store"
  db_menus :: "menu_row store"
  db_items :: "menu_item_record store"
  db_media :: "media_row store"

definition empty_db :: db where
  "empty_db = \<lparr>db_users = empty_store, db_tokens = empty_store, db_organizations = empty_store,
     db_domains = empty_store, db_memberships = [], db_pages = empty_store, db_revisions = empty_store,
     db_menus = empty_store, db_items = empty_store, db_media = empty_store\<rparr>"

text \<open>The subselect every content query carries: the id of the organization with a key.\<close>

definition org_id :: "db \<Rightarrow> string \<Rightarrow> int option" where
  "org_id db key = map_option o_id (select_row (\<lambda>r. o_key r = key) (db_organizations db))"

text \<open>\<open>WHERE organization_id = (SELECT id ...)\<close>: false for every row where there is no such
  organization.\<close>

definition org_scope :: "db \<Rightarrow> string \<Rightarrow> int \<Rightarrow> bool" where
  "org_scope db key i \<longleftrightarrow> org_id db key = Some i"

definition user_exists :: "db \<Rightarrow> int \<Rightarrow> bool" where
  "user_exists db i \<longleftrightarrow> select_row (\<lambda>r. ur_id r = i) (db_users db) \<noteq> None"

definition page_exists :: "db \<Rightarrow> int \<Rightarrow> bool" where
  "page_exists db i \<longleftrightarrow> select_row (\<lambda>r. p_id r = i) (db_pages db) \<noteq> None"

definition menu_exists :: "db \<Rightarrow> int \<Rightarrow> bool" where
  "menu_exists db i \<longleftrightarrow> select_row (\<lambda>r. mn_id r = i) (db_menus db) \<noteq> None"

text \<open>A nullable foreign key: null, or an existing row.\<close>

definition refers :: "(int \<Rightarrow> bool) \<Rightarrow> int option \<Rightarrow> bool" where
  "refers ok x = (case x of None \<Rightarrow> True | Some i \<Rightarrow> ok i)"

lemma user_exists_iff: "user_exists db i \<longleftrightarrow> i \<in> ur_id ` set (rows (db_users db))"
  by (auto simp: user_exists_def select_row_None image_iff)

lemma page_exists_iff: "page_exists db i \<longleftrightarrow> i \<in> p_id ` set (rows (db_pages db))"
  by (auto simp: page_exists_def select_row_None image_iff)

lemma menu_exists_iff: "menu_exists db i \<longleftrightarrow> i \<in> mn_id ` set (rows (db_menus db))"
  by (auto simp: menu_exists_def select_row_None image_iff)

end
