(* ===== verification/Users.thy ===== *)
theory Users
  imports Schema
begin

text \<open>
  The user repository of \<open>src/src/db.rs\<close>: accounts, the mirror of their role in the CMS
  organization's memberships, and the refresh tokens. Every operation takes the database and, where
  the code reads it, the clock, and answers as the code does together with the database it leaves.
\<close>

record user =
  u_id :: int
  u_username :: string
  u_password_hash :: string
  u_role :: user_role
  u_created_at :: int
  u_last_login_at :: "int option"

record public_user =
  pu_id :: int
  pu_username :: string
  pu_role :: user_role
  pu_created_at :: int
  pu_last_login_at :: "int option"

definition public :: "user \<Rightarrow> public_user" where
  "public u = \<lparr>pu_id = u_id u, pu_username = u_username u, pu_role = u_role u,
     pu_created_at = u_created_at u, pu_last_login_at = u_last_login_at u\<rparr>"

text \<open>Decoding a row fails on an unknown role.\<close>

definition user_of_row :: "user_row \<Rightarrow> user repo" where
  "user_of_row r =
     (case role_parse (ur_role r) of
        None \<Rightarrow> Inl (Internal (''unknown role value '' @ ur_role r))
      | Some role \<Rightarrow>
          Inr \<lparr>u_id = ur_id r, u_username = ur_username r, u_password_hash = ur_password_hash r,
               u_role = role, u_created_at = ur_created_at r, u_last_login_at = ur_last_login_at r\<rparr>)"

definition user_of_optional :: "user_row option \<Rightarrow> user option repo" where
  "user_of_optional x =
     (case x of None \<Rightarrow> Inr None | Some r \<Rightarrow> and_then (user_of_row r) (\<lambda>u. Inr (Some u)))"

section \<open>Memberships\<close>

definition is_membership :: "int \<Rightarrow> int \<Rightarrow> membership_row \<Rightarrow> bool" where
  "is_membership user_id organization_id m \<longleftrightarrow> m_user m = user_id \<and> m_organization m = organization_id"

text \<open>
  \<open>INSERT ... ON CONFLICT (user_id, organization_id) DO UPDATE SET role = excluded.role\<close>,
  behind the \<open>CHECK\<close> on the role.
\<close>

definition upsert_membership ::
  "int \<Rightarrow> int \<Rightarrow> string \<Rightarrow> int \<Rightarrow> membership_row list \<Rightarrow> membership_row list repo" where
  "upsert_membership user_id organization_id role now ms =
     (if role \<notin> {''admin'', ''editor''} then Inl (Internal ''CHECK constraint failed'')
      else if \<exists>m \<in> set ms. is_membership user_id organization_id m
      then Inr (map (\<lambda>m. if is_membership user_id organization_id m then m\<lparr>m_role := role\<rparr> else m) ms)
      else Inr (ms @ [\<lparr>m_user = user_id, m_organization = organization_id, m_role = role, m_created_at = now\<rparr>]))"

definition sync_membership :: "db \<Rightarrow> int \<Rightarrow> int \<Rightarrow> user_role \<Rightarrow> unit repo \<times> db" where
  "sync_membership db now user_id role =
     (case org_id db cms_organization_key of
        None \<Rightarrow> (Inr (), db)
      | Some cms \<Rightarrow>
          if is_editor role
          then (case upsert_membership user_id cms (role_as_str role) now (db_memberships db) of
                  Inl e \<Rightarrow> (Inl e, db)
                | Inr ms \<Rightarrow> (Inr (), db\<lparr>db_memberships := ms\<rparr>))
          else (Inr (), db\<lparr>db_memberships := filter (\<lambda>m. \<not> is_membership user_id cms m) (db_memberships db)\<rparr>))"

section \<open>Accounts\<close>

definition create_user :: "db \<Rightarrow> int \<Rightarrow> string \<Rightarrow> string \<Rightarrow> user_role \<Rightarrow> user repo \<times> db" where
  "create_user db now username password_hash role =
     (if \<exists>r \<in> set (rows (db_users db)). eq_ignore_case (ur_username r) username then (Inl Duplicate, db)
      else
        (case insert_row (\<lambda>i. \<lparr>ur_id = i, ur_username = username, ur_password_hash = password_hash,
                ur_role = role_as_str role, ur_created_at = now, ur_last_login_at = None\<rparr>) (db_users db) of
           (i, users) \<Rightarrow>
             (case sync_membership (db\<lparr>db_users := users\<rparr>) now i role of
                (Inl e, db') \<Rightarrow> (Inl e, db')
              | (Inr _, db') \<Rightarrow>
                  (Inr \<lparr>u_id = i, u_username = username, u_password_hash = password_hash, u_role = role,
                       u_created_at = now, u_last_login_at = None\<rparr>, db'))))"

definition find_user_by_id :: "db \<Rightarrow> int \<Rightarrow> user option repo" where
  "find_user_by_id db i = user_of_optional (select_row (\<lambda>r. ur_id r = i) (db_users db))"

text \<open>The column's collation is \<open>NOCASE\<close>.\<close>

definition find_user_by_username :: "db \<Rightarrow> string \<Rightarrow> user option repo" where
  "find_user_by_username db username =
     user_of_optional (select_row (\<lambda>r. eq_ignore_case (ur_username r) username) (db_users db))"

definition count_users :: "db \<Rightarrow> int repo" where
  "count_users db = Inr (int (length (rows (db_users db))))"

definition count_with_role :: "db \<Rightarrow> user_role \<Rightarrow> int repo" where
  "count_with_role db role = Inr (int (count_rows (\<lambda>r. ur_role r = role_as_str role) (db_users db)))"

definition membership_role :: "db \<Rightarrow> int \<Rightarrow> string \<Rightarrow> user_role option repo" where
  "membership_role db user_id key =
     Inr (case org_id db key of
            None \<Rightarrow> None
          | Some org \<Rightarrow>
              Option.bind (find (is_membership user_id org) (db_memberships db)) (\<lambda>m. role_parse (m_role m)))"

definition list_users :: "db \<Rightarrow> int \<Rightarrow> user list repo" where
  "list_users db n = collect_results (map user_of_row (limit n (rev (rows (db_users db)))))"

definition update_password :: "db \<Rightarrow> int \<Rightarrow> string \<Rightarrow> unit repo \<times> db" where
  "update_password db i password_hash =
     (Inr (), db\<lparr>db_users := update_rows (\<lambda>r. ur_id r = i) (\<lambda>r. r\<lparr>ur_password_hash := password_hash\<rparr>) (db_users db)\<rparr>)"

definition update_role :: "db \<Rightarrow> int \<Rightarrow> int \<Rightarrow> user_role \<Rightarrow> unit repo \<times> db" where
  "update_role db now i role =
     (let db' = db\<lparr>db_users := update_rows (\<lambda>r. ur_id r = i) (\<lambda>r. r\<lparr>ur_role := role_as_str role\<rparr>) (db_users db)\<rparr>
      in if count_rows (\<lambda>r. ur_id r = i) (db_users db) = 1 then sync_membership db' now i role
         else (Inr (), db'))"

text \<open>
  The deletion of the \<open>users\<close> row takes the refresh tokens with it and nulls the audit links
  of pages and revisions (the schema's \<open>ON DELETE\<close> actions).
\<close>

definition cascade_user :: "db \<Rightarrow> int \<Rightarrow> db" where
  "cascade_user db i =
     db\<lparr>db_users := delete_rows (\<lambda>r. ur_id r = i) (db_users db),
        db_tokens := delete_rows (\<lambda>t. rt_user t = i) (db_tokens db),
        db_pages := update_rows (\<lambda>p. p_created_by p = Some i) (\<lambda>p. p\<lparr>p_created_by := None\<rparr>) (db_pages db),
        db_revisions := update_rows (\<lambda>v. rv_edited_by v = Some i) (\<lambda>v. v\<lparr>rv_edited_by := None\<rparr>) (db_revisions db)\<rparr>"

definition delete_user :: "db \<Rightarrow> int \<Rightarrow> unit repo \<times> db" where
  "delete_user db i =
     (Inr (), cascade_user (db\<lparr>db_memberships := filter (\<lambda>m. m_user m \<noteq> i) (db_memberships db)\<rparr>) i)"

definition record_login :: "db \<Rightarrow> int \<Rightarrow> int \<Rightarrow> unit repo \<times> db" where
  "record_login db now i =
     (Inr (), db\<lparr>db_users := update_rows (\<lambda>r. ur_id r = i) (\<lambda>r. r\<lparr>ur_last_login_at := Some now\<rparr>) (db_users db)\<rparr>)"

section \<open>Refresh tokens\<close>

record new_refresh_token =
  nt_user :: int
  nt_family :: "int option"
  nt_hash :: string
  nt_expires_at :: int
  nt_created_at :: int
  nt_created_ip :: "string option"
  nt_user_agent :: "string option"

definition token_row :: "new_refresh_token \<Rightarrow> int \<Rightarrow> int \<Rightarrow> refresh_token_record" where
  "token_row t family i =
     \<lparr>rt_id = i, rt_family = family, rt_user = nt_user t, rt_hash = nt_hash t, rt_expires_at = nt_expires_at t,
      rt_created_at = nt_created_at t, rt_created_ip = nt_created_ip t, rt_user_agent = nt_user_agent t,
      rt_rotated_at = None, rt_revoked_at = None\<rparr>"

text \<open>The first statement of \<open>save_refresh_token\<close>: 0 stands for a family not yet known.\<close>

definition insert_refresh_token :: "db \<Rightarrow> new_refresh_token \<Rightarrow> int repo \<times> db" where
  "insert_refresh_token db t =
     (if \<exists>r \<in> set (rows (db_tokens db)). rt_hash r = nt_hash t then (Inl Duplicate, db)
      else if \<not> user_exists db (nt_user t) then (Inl (Internal ''FOREIGN KEY constraint failed''), db)
      else (case insert_row (token_row t (case nt_family t of Some f \<Rightarrow> f | None \<Rightarrow> 0)) (db_tokens db) of
              (i, tokens) \<Rightarrow> (Inr i, db\<lparr>db_tokens := tokens\<rparr>)))"

text \<open>The second one, for a new family only.\<close>

definition set_token_family :: "db \<Rightarrow> int \<Rightarrow> db" where
  "set_token_family db i =
     db\<lparr>db_tokens := update_rows (\<lambda>r. rt_id r = i) (\<lambda>r. r\<lparr>rt_family := i\<rparr>) (db_tokens db)\<rparr>"

definition save_refresh_token :: "db \<Rightarrow> new_refresh_token \<Rightarrow> refresh_token_record repo \<times> db" where
  "save_refresh_token db t =
     (case insert_refresh_token db t of
        (Inl e, db') \<Rightarrow> (Inl e, db')
      | (Inr i, db') \<Rightarrow>
          (case nt_family t of
             Some family \<Rightarrow> (Inr (token_row t family i), db')
           | None \<Rightarrow> (Inr (token_row t i i), set_token_family db' i)))"

definition find_refresh_token_by_hash :: "db \<Rightarrow> string \<Rightarrow> refresh_token_record option repo" where
  "find_refresh_token_by_hash db token_hash = Inr (select_row (\<lambda>r. rt_hash r = token_hash) (db_tokens db))"

definition redeemable :: "int \<Rightarrow> refresh_token_record \<Rightarrow> bool" where
  "redeemable i r \<longleftrightarrow> rt_id r = i \<and> rt_rotated_at r = None \<and> rt_revoked_at r = None"

definition rotate_refresh_token :: "db \<Rightarrow> int \<Rightarrow> int \<Rightarrow> bool repo \<times> db" where
  "rotate_refresh_token db i now =
     (Inr (count_rows (redeemable i) (db_tokens db) = 1),
      db\<lparr>db_tokens := update_rows (redeemable i) (\<lambda>r. r\<lparr>rt_rotated_at := Some now\<rparr>) (db_tokens db)\<rparr>)"

definition revoke_where :: "(refresh_token_record \<Rightarrow> bool) \<Rightarrow> int \<Rightarrow> db \<Rightarrow> db" where
  "revoke_where p now db =
     db\<lparr>db_tokens := update_rows (\<lambda>r. p r \<and> rt_revoked_at r = None) (\<lambda>r. r\<lparr>rt_revoked_at := Some now\<rparr>) (db_tokens db)\<rparr>"

definition revoke_refresh_token_family :: "db \<Rightarrow> int \<Rightarrow> int \<Rightarrow> unit repo \<times> db" where
  "revoke_refresh_token_family db family_id now = (Inr (), revoke_where (\<lambda>r. rt_family r = family_id) now db)"

definition revoke_all_refresh_tokens :: "db \<Rightarrow> int \<Rightarrow> int \<Rightarrow> unit repo \<times> db" where
  "revoke_all_refresh_tokens db user_id now = (Inr (), revoke_where (\<lambda>r. rt_user r = user_id) now db)"

definition purgeable :: "int \<Rightarrow> refresh_token_record \<Rightarrow> bool" where
  "purgeable now r \<longleftrightarrow> rt_expires_at r < now \<and> rt_revoked_at r \<noteq> None"

definition delete_expired_refresh_tokens :: "db \<Rightarrow> int \<Rightarrow> int repo \<times> db" where
  "delete_expired_refresh_tokens db now =
     (Inr (int (count_rows (purgeable now) (db_tokens db))),
      db\<lparr>db_tokens := delete_rows (purgeable now) (db_tokens db)\<rparr>)"

section \<open>The invariant of the account tables\<close>

definition tokens_ok :: "db \<Rightarrow> bool" where
  "tokens_ok db \<longleftrightarrow>
     store_ok rt_id (db_tokens db) \<and> distinct (map rt_hash (rows (db_tokens db))) \<and>
     (\<forall>t \<in> set (rows (db_tokens db)). user_exists db (rt_user t))"

definition users_ok :: "db \<Rightarrow> bool" where
  "users_ok db \<longleftrightarrow>
     store_ok ur_id (db_users db) \<and> distinct (map (\<lambda>r. lowercase (ur_username r)) (rows (db_users db))) \<and>
     (\<forall>r \<in> set (rows (db_users db)). role_parse (ur_role r) \<noteq> None)"

definition membership_key :: "membership_row \<Rightarrow> int \<times> int" where
  "membership_key m = (m_user m, m_organization m)"

definition memberships_ok :: "db \<Rightarrow> bool" where
  "memberships_ok db \<longleftrightarrow>
     distinct (map membership_key (db_memberships db)) \<and>
     (\<forall>m \<in> set (db_memberships db). m_role m \<in> {''admin'', ''editor''})"

definition accounts_ok :: "db \<Rightarrow> bool" where
  "accounts_ok db \<longleftrightarrow> users_ok db \<and> tokens_ok db \<and> memberships_ok db \<and> store_ok o_id (db_organizations db)"

lemmas accounts_ok_defs = accounts_ok_def users_ok_def tokens_ok_def memberships_ok_def

lemma accounts_ok_empty: "accounts_ok empty_db"
  by (simp add: accounts_ok_defs empty_db_def) (simp add: empty_store_def)

lemma distinct_map_upd:
  assumes "\<And>x. g (if p x then f x else x) = g x"
  shows "distinct (map g (map (\<lambda>x. if p x then f x else x) xs)) \<longleftrightarrow> distinct (map g xs)"
proof -
  have "map g (map (\<lambda>x. if p x then f x else x) xs) = map g xs" using assms by simp
  then show ?thesis by (simp only:)
qed

subsection \<open>Memberships\<close>

lemma is_membership_key: "is_membership u k m \<longleftrightarrow> membership_key m = (u, k)"
  by (simp add: is_membership_def membership_key_def)

lemma upsert_membership_keys:
  assumes "upsert_membership u k role now ms = Inr ms'"
  shows "distinct (map membership_key ms) \<Longrightarrow> distinct (map membership_key ms')"
    and "(\<forall>m \<in> set ms. m_role m \<in> {''admin'', ''editor''}) \<Longrightarrow> (\<forall>m \<in> set ms'. m_role m \<in> {''admin'', ''editor''})"
proof -
  let ?f = "\<lambda>m. if is_membership u k m then m\<lparr>m_role := role\<rparr> else m"
  have role: "role \<in> {''admin'', ''editor''}" using assms by (auto simp: upsert_membership_def split: if_splits)
  consider (old) "ms' = map ?f ms"
    | (new) "\<not> (\<exists>m \<in> set ms. is_membership u k m)"
      "ms' = ms @ [\<lparr>m_user = u, m_organization = k, m_role = role, m_created_at = now\<rparr>]"
    using assms by (auto simp: upsert_membership_def split: if_splits)
  note cases = this
  have "map membership_key (map ?f ms) = map membership_key ms"
    by (simp add: membership_key_def)
  then show "distinct (map membership_key ms')" if "distinct (map membership_key ms)"
    using that by (cases rule: cases) (simp_all only:, auto simp: is_membership_key membership_key_def)
  show "\<forall>m \<in> set ms'. m_role m \<in> {''admin'', ''editor''}" if "\<forall>m \<in> set ms. m_role m \<in> {''admin'', ''editor''}"
    using that role by (cases rule: cases) auto
qed

lemma find_upsert_membership:
  assumes "upsert_membership u k role now ms = Inr ms'"
  shows "map_option m_role (find (is_membership v j) ms') =
    (if v = u \<and> j = k then Some role else map_option m_role (find (is_membership v j) ms))"
proof (cases "\<exists>m \<in> set ms. is_membership u k m")
  case True
  then have ms': "ms' = map (\<lambda>m. if is_membership u k m then m\<lparr>m_role := role\<rparr> else m) ms"
    using assms by (simp add: upsert_membership_def split: if_splits)
  have key: "is_membership v j (if is_membership u k m then m\<lparr>m_role := role\<rparr> else m) \<longleftrightarrow> is_membership v j m" for m
    by (simp add: is_membership_def)
  have f: "find (is_membership v j) (map (\<lambda>m. if is_membership u k m then m\<lparr>m_role := role\<rparr> else m) xs) =
      map_option (\<lambda>m. if is_membership u k m then m\<lparr>m_role := role\<rparr> else m) (find (is_membership v j) xs)" for xs
    by (induction xs) (simp_all add: key)
  show ?thesis
  proof (cases "find (is_membership v j) ms")
    case None
    then have "\<not> (v = u \<and> j = k)" using True by (auto simp: find_None_iff)
    with None show ?thesis by (simp add: ms' f)
  next
    case (Some m)
    then have "is_membership v j m" by (auto simp: find_Some_iff)
    then have "is_membership u k m \<longleftrightarrow> v = u \<and> j = k" by (auto simp: is_membership_def)
    with Some show ?thesis by (simp add: ms' f)
  qed
next
  case False
  then have ms': "ms' = ms @ [\<lparr>m_user = u, m_organization = k, m_role = role, m_created_at = now\<rparr>]"
    using assms by (simp add: upsert_membership_def split: if_splits)
  have "find p (xs @ [x]) = (case find p xs of Some r \<Rightarrow> Some r | None \<Rightarrow> if p x then Some x else None)"
    for p :: "membership_row \<Rightarrow> bool" and xs x by (induction xs) auto
  moreover have "find (is_membership u k) ms = None" using False by (auto simp: find_None_iff)
  ultimately show ?thesis by (auto simp: ms' is_membership_def [of v j] split: option.split)
qed

lemma find_filter_membership:
  "find (is_membership v j) (filter (\<lambda>m. \<not> is_membership u k m) ms) =
    (if v = u \<and> j = k then None else find (is_membership v j) ms)"
proof (cases "v = u \<and> j = k")
  case False
  then have "\<not> is_membership u k m" if "is_membership v j m" for m
    using that by (auto simp: is_membership_def)
  then have "find (is_membership v j) (filter (\<lambda>m. \<not> is_membership u k m) ms) = find (is_membership v j) ms"
    by (induction ms) auto
  with False show ?thesis by (simp only: if_False)
qed (auto simp: find_None_iff)

lemma is_editor_as_str: "is_editor role \<Longrightarrow> role_as_str role \<in> {''admin'', ''editor''}"
  by (cases role) (simp_all add: is_editor_def role_as_str_def)

text \<open>The mirror never fails, and touches nothing but the membership it mirrors.\<close>

lemma sync_membership_cases:
  obtains (absent) "org_id db cms_organization_key = None" "sync_membership db now u role = (Inr (), db)"
  | (grant) cms ms where "org_id db cms_organization_key = Some cms" "is_editor role"
      "upsert_membership u cms (role_as_str role) now (db_memberships db) = Inr ms"
      "sync_membership db now u role = (Inr (), db\<lparr>db_memberships := ms\<rparr>)"
  | (withdraw) cms where "org_id db cms_organization_key = Some cms" "\<not> is_editor role"
      "sync_membership db now u role =
        (Inr (), db\<lparr>db_memberships := filter (\<lambda>m. \<not> is_membership u cms m) (db_memberships db)\<rparr>)"
proof (cases "org_id db cms_organization_key")
  case None
  then show thesis by (intro absent) (simp_all add: sync_membership_def)
next
  case (Some cms)
  show thesis
  proof (cases "is_editor role")
    case True
    have "\<exists>ms. upsert_membership u cms (role_as_str role) now (db_memberships db) = Inr ms"
      using is_editor_as_str [OF True] unfolding upsert_membership_def by (simp split: if_split)
    then obtain ms where "upsert_membership u cms (role_as_str role) now (db_memberships db) = Inr ms" by blast
    with Some True show thesis by (intro grant) (simp_all add: sync_membership_def)
  next
    case False
    with Some show thesis by (intro withdraw) (simp_all add: sync_membership_def)
  qed
qed

lemma sync_membership_total: "fst (sync_membership db now u role) = Inr ()"
  by (rule sync_membership_cases [of db now u role]) simp_all

lemma sync_membership_keeps [simp]:
  "db_users (snd (sync_membership db now u role)) = db_users db"
  "db_tokens (snd (sync_membership db now u role)) = db_tokens db"
  "db_organizations (snd (sync_membership db now u role)) = db_organizations db"
  by (rule sync_membership_cases [of db now u role]; simp)+

lemma sync_membership_ok:
  assumes "memberships_ok db"
  shows "memberships_ok (snd (sync_membership db now u role))"
proof (rule sync_membership_cases [of db now u role])
  fix cms ms
  assume g: "upsert_membership u cms (role_as_str role) now (db_memberships db) = Inr ms"
    "sync_membership db now u role = (Inr (), db\<lparr>db_memberships := ms\<rparr>)"
  from upsert_membership_keys [OF g(1)] assms g(2) show ?thesis
    by (auto simp: memberships_ok_def)
next
  fix cms
  assume "sync_membership db now u role =
    (Inr (), db\<lparr>db_memberships := filter (\<lambda>m. \<not> is_membership u cms m) (db_memberships db)\<rparr>)"
  with assms show ?thesis by (auto simp: memberships_ok_def distinct_map_filter)
qed (use assms in simp)

subsection \<open>Accounts\<close>

lemma keys_update:
  assumes "\<And>r. g (f r) = g r"
  shows "map g (rows (update_rows p f s)) = map g (rows s)"
  using assms by simp

lemma user_exists_update:
  assumes "\<And>r. ur_id (f r) = ur_id r"
  shows "user_exists (db\<lparr>db_users := update_rows p f (db_users db)\<rparr>) i \<longleftrightarrow> user_exists db i"
proof -
  have "ur_id ` set (rows (update_rows p f (db_users db))) = ur_id ` set (rows (db_users db))"
    using keys_update [of ur_id f p, OF assms] by (metis list.set_map)
  then show ?thesis by (simp add: user_exists_iff del: rows_update)
qed

lemma users_ok_update:
  assumes "users_ok db" "\<And>r. ur_id (f r) = ur_id r" "\<And>r. ur_username (f r) = ur_username r"
    "\<And>r. role_parse (ur_role r) \<noteq> None \<Longrightarrow> role_parse (ur_role (f r)) \<noteq> None"
  shows "users_ok (db\<lparr>db_users := update_rows p f (db_users db)\<rparr>)"
proof -
  have "map (\<lambda>r. lowercase (ur_username r)) (rows (update_rows p f (db_users db))) =
      map (\<lambda>r. lowercase (ur_username r)) (rows (db_users db))"
    by (rule keys_update) (simp add: assms(3))
  with assms(1,4) store_ok_update [of ur_id "db_users db" f p, OF _ assms(2)] show ?thesis
    by (auto simp: users_ok_def simp del: rows_update) auto
qed

lemma accounts_ok_users_update:
  assumes "accounts_ok db" "\<And>r. ur_id (f r) = ur_id r" "\<And>r. ur_username (f r) = ur_username r"
    "\<And>r. role_parse (ur_role r) \<noteq> None \<Longrightarrow> role_parse (ur_role (f r)) \<noteq> None"
  shows "accounts_ok (db\<lparr>db_users := update_rows p f (db_users db)\<rparr>)"
  using users_ok_update [of db f p] assms user_exists_update [of f p db]
  by (simp add: accounts_ok_def tokens_ok_def memberships_ok_def)

lemma accounts_ok_sync:
  assumes "accounts_ok db"
  shows "accounts_ok (snd (sync_membership db now u role))"
  using assms sync_membership_ok [of db now u role]
  by (simp add: accounts_ok_def users_ok_def tokens_ok_def user_exists_def)

lemma role_parse_as_str [simp]: "role_parse (role_as_str r) = Some r"
  by (rule role_codec.parse_as_str)

lemma create_user_ok:
  assumes "accounts_ok db"
  shows "accounts_ok (snd (create_user db now name hash role))"
proof (cases "\<exists>r \<in> set (rows (db_users db)). eq_ignore_case (ur_username r) name")
  case True
  with assms show ?thesis by (simp add: create_user_def)
next
  case False
  let ?mk = "\<lambda>i. \<lparr>ur_id = i, ur_username = name, ur_password_hash = hash,
    ur_role = role_as_str role, ur_created_at = now, ur_last_login_at = None\<rparr>"
  let ?db = "db\<lparr>db_users := snd (insert_row ?mk (db_users db))\<rparr>"
  have "users_ok ?db"
    using assms False store_ok_insert [of ur_id "db_users db" ?mk]
    by (auto simp: accounts_ok_def users_ok_def eq_ignore_case_def)
  moreover have "tokens_ok ?db"
    using assms by (auto simp: accounts_ok_def tokens_ok_def user_exists_iff)
  ultimately have "accounts_ok ?db"
    using assms by (simp add: accounts_ok_def memberships_ok_def)
  from accounts_ok_sync [OF this] False show ?thesis
    by (simp add: create_user_def split_beta split: sum.split)
qed

lemma update_password_ok: "accounts_ok db \<Longrightarrow> accounts_ok (snd (update_password db i hash))"
  unfolding update_password_def snd_conv by (rule accounts_ok_users_update) simp_all

lemma record_login_ok: "accounts_ok db \<Longrightarrow> accounts_ok (snd (record_login db now i))"
  unfolding record_login_def snd_conv by (rule accounts_ok_users_update) simp_all

lemma update_role_ok: "accounts_ok db \<Longrightarrow> accounts_ok (snd (update_role db now i role))"
proof -
  assume ok: "accounts_ok db"
  have "accounts_ok (db\<lparr>db_users := update_rows (\<lambda>r. ur_id r = i) (\<lambda>r. r\<lparr>ur_role := role_as_str role\<rparr>) (db_users db)\<rparr>)"
    using ok by (rule accounts_ok_users_update) simp_all
  then show ?thesis using accounts_ok_sync by (simp add: update_role_def Let_def)
qed

lemma distinct_map_delete: "distinct (map g (rows s)) \<Longrightarrow> distinct (map g (rows (delete_rows p s)))"
  by (simp add: distinct_map_filter)

lemma delete_user_ok:
  assumes "accounts_ok db"
  shows "accounts_ok (snd (delete_user db i))"
proof -
  let ?db = "snd (delete_user db i)"
  have "users_ok ?db"
    using assms store_ok_delete [of ur_id "db_users db"] distinct_map_delete [of _ "db_users db"]
    by (auto simp: accounts_ok_def users_ok_def delete_user_def cascade_user_def)
  moreover have "tokens_ok ?db"
    using assms store_ok_delete [of rt_id "db_tokens db"] distinct_map_delete [of _ "db_tokens db"]
    by (auto simp: accounts_ok_def tokens_ok_def delete_user_def cascade_user_def user_exists_iff)
  moreover have "memberships_ok ?db"
    using assms by (auto simp: accounts_ok_def memberships_ok_def delete_user_def cascade_user_def distinct_map_filter)
  ultimately show ?thesis
    using assms by (simp add: accounts_ok_def delete_user_def cascade_user_def)
qed

subsection \<open>Tokens\<close>

lemma tokens_ok_update:
  assumes "accounts_ok db" "\<And>r. rt_id (f r) = rt_id r" "\<And>r. rt_hash (f r) = rt_hash r" "\<And>r. rt_user (f r) = rt_user r"
  shows "accounts_ok (db\<lparr>db_tokens := update_rows p f (db_tokens db)\<rparr>)"
proof -
  have "map rt_hash (rows (update_rows p f (db_tokens db))) = map rt_hash (rows (db_tokens db))"
    using assms(3) by (rule keys_update)
  then show ?thesis
    using assms(1,4) store_ok_update [of rt_id "db_tokens db" f p, OF _ assms(2)]
    by (auto simp: accounts_ok_def users_ok_def tokens_ok_def memberships_ok_def user_exists_def simp del: rows_update) auto
qed

lemma insert_refresh_token_ok: "accounts_ok db \<Longrightarrow> accounts_ok (snd (insert_refresh_token db t))"
  using store_ok_insert [of rt_id "db_tokens db" "token_row t (case nt_family t of Some f \<Rightarrow> f | None \<Rightarrow> 0)"]
  by (auto simp: insert_refresh_token_def accounts_ok_def users_ok_def tokens_ok_def memberships_ok_def
      user_exists_def token_row_def split_beta)

lemma save_refresh_token_ok: "accounts_ok db \<Longrightarrow> accounts_ok (snd (save_refresh_token db t))"
  using insert_refresh_token_ok [of db t]
  by (auto simp: save_refresh_token_def set_token_family_def intro!: tokens_ok_update
      split: prod.splits sum.splits option.splits)

lemma rotate_refresh_token_ok: "accounts_ok db \<Longrightarrow> accounts_ok (snd (rotate_refresh_token db i now))"
  unfolding rotate_refresh_token_def snd_conv by (rule tokens_ok_update) simp_all

lemma revoke_where_ok: "accounts_ok db \<Longrightarrow> accounts_ok (revoke_where p now db)"
  unfolding revoke_where_def by (rule tokens_ok_update) simp_all

lemma delete_expired_ok: "accounts_ok db \<Longrightarrow> accounts_ok (snd (delete_expired_refresh_tokens db now))"
  using store_ok_delete [of rt_id "db_tokens db" "purgeable now"] distinct_map_delete [of rt_hash "db_tokens db" "purgeable now"]
  by (auto simp: delete_expired_refresh_tokens_def accounts_ok_def users_ok_def tokens_ok_def memberships_ok_def user_exists_def)

section \<open>The interface to the refresh tokens\<close>

text \<open>
  What the session protocol relies on: a rotation succeeds exactly on a token that was neither
  rotated nor revoked, and then that token is rotated; revoking spends every token it covers; no
  operation brings a spent token back, and a new token has an id never issued before.
\<close>

definition unspent :: "refresh_token_record \<Rightarrow> bool" where
  "unspent t \<longleftrightarrow> rt_rotated_at t = None \<and> rt_revoked_at t = None"

locale refresh_store =
  fixes inv :: "'s \<Rightarrow> bool"
    and token :: "'s \<Rightarrow> int \<Rightarrow> refresh_token_record option"
    and issued :: "'s \<Rightarrow> int \<Rightarrow> bool"
    and rotate :: "'s \<Rightarrow> int \<Rightarrow> int \<Rightarrow> bool \<times> 's"
    and revoke :: "(refresh_token_record \<Rightarrow> bool) \<Rightarrow> int \<Rightarrow> 's \<Rightarrow> 's"
    and issue :: "'s \<Rightarrow> new_refresh_token \<Rightarrow> 's"
  assumes token_issued: "inv s \<Longrightarrow> token s i = Some t \<Longrightarrow> issued s i"
    and rotate_wins: "inv s \<Longrightarrow> fst (rotate s i now) \<longleftrightarrow> (\<exists>t. token s i = Some t \<and> unspent t)"
    and rotate_token: "inv s \<Longrightarrow> token (snd (rotate s i now)) j =
      map_option (\<lambda>t. if j = i \<and> unspent t then t\<lparr>rt_rotated_at := Some now\<rparr> else t) (token s j)"
    and revoke_token: "token (revoke p now s) j =
      map_option (\<lambda>t. if p t \<and> rt_revoked_at t = None then t\<lparr>rt_revoked_at := Some now\<rparr> else t) (token s j)"
    and issue_old: "inv s \<Longrightarrow> issued s j \<Longrightarrow> token (issue s new) j = token s j"
    and issued_mono: "issued s j \<Longrightarrow> issued (snd (rotate s i now)) j"
      "issued s j \<Longrightarrow> issued (revoke p now s) j" "issued s j \<Longrightarrow> issued (issue s new) j"
begin

text \<open>An issued token is spent when it is gone or no longer redeemable.\<close>

definition spent :: "'s \<Rightarrow> int \<Rightarrow> bool" where
  "spent s i \<longleftrightarrow> issued s i \<and> (\<forall>t. token s i = Some t \<longrightarrow> \<not> unspent t)"

definition advances :: "'s \<Rightarrow> 's \<Rightarrow> bool" where
  "advances s s' \<longleftrightarrow> (\<forall>j. issued s j \<longrightarrow> issued s' j \<and>
     (\<forall>t'. token s' j = Some t' \<longrightarrow> (\<exists>t. token s j = Some t \<and> (unspent t' \<longrightarrow> unspent t))))"

lemma spent_advance: "advances s s' \<Longrightarrow> spent s i \<Longrightarrow> spent s' i"
  by (fastforce simp: advances_def spent_def)

lemma rotate_spends: "inv s \<Longrightarrow> fst (rotate s i now) \<Longrightarrow> spent (snd (rotate s i now)) i"
proof -
  assume i: "inv s" and w: "fst (rotate s i now)"
  then obtain t where t: "token s i = Some t" "unspent t" by (auto simp: rotate_wins)
  have "issued (snd (rotate s i now)) i" by (rule issued_mono(1) [OF token_issued [OF i t(1)]])
  with i t show ?thesis by (simp add: spent_def rotate_token unspent_def)
qed

lemma spent_not_rotated: "inv s \<Longrightarrow> spent s i \<Longrightarrow> \<not> fst (rotate s i now)"
  by (auto simp: rotate_wins spent_def)

lemma spent_rotate: "inv s \<Longrightarrow> spent s i \<Longrightarrow> spent (snd (rotate s j now)) i"
  using issued_mono(1) by (auto simp: spent_def rotate_token unspent_def)

lemma spent_revoke: "spent s i \<Longrightarrow> spent (revoke p now s) i"
  using issued_mono(2) by (auto simp: spent_def revoke_token unspent_def)

lemma spent_issue: "inv s \<Longrightarrow> spent s i \<Longrightarrow> spent (issue s new) i"
  using issued_mono(3) by (auto simp: spent_def issue_old)

lemma revoke_spends:
  assumes "inv s" "token s i = Some t" "p t"
  shows "spent (revoke p now s) i"
  using assms issued_mono(2) token_issued by (auto simp: spent_def revoke_token unspent_def)

end

definition token_of :: "db \<Rightarrow> int \<Rightarrow> refresh_token_record option" where
  "token_of db i = select_row (\<lambda>r. rt_id r = i) (db_tokens db)"

definition token_issued :: "db \<Rightarrow> int \<Rightarrow> bool" where
  "token_issued db i \<longleftrightarrow> i \<le> last_id (db_tokens db)"

definition ok_value :: "'a repo \<Rightarrow> 'a \<Rightarrow> bool" where
  "ok_value r x \<longleftrightarrow> r = Inr x"

lemma count_redeemable:
  assumes "store_ok rt_id s"
  shows "count_rows (redeemable i) s = 1 \<longleftrightarrow> (\<exists>t. select_row (\<lambda>r. rt_id r = i) s = Some t \<and> unspent t)"
proof (cases "select_row (\<lambda>r. rt_id r = i) s")
  case None
  then have "count_rows (redeemable i) s = 0"
    by (auto simp: count_rows_0 select_row_None redeemable_def)
  with None show ?thesis by simp
next
  case (Some t)
  from select_row_Some [OF Some] have t: "t \<in> set (rows s)" "rt_id t = i" by simp_all
  have "filter (redeemable i) (rows s) = (if unspent t then [t] else [])"
  proof -
    have "redeemable i r \<longleftrightarrow> r = t \<and> unspent t" if "r \<in> set (rows s)" for r
      using store_ok_inj [OF assms that t(1)] t(2) by (auto simp: redeemable_def unspent_def)
    then have "filter (redeemable i) (rows s) = filter (\<lambda>r. r = t \<and> unspent t) (rows s)"
      by (intro filter_cong) simp_all
    moreover have "filter (\<lambda>r. r = t) (rows s) = [t]"
      using t(1) store_ok_distinct [OF assms] by (intro filter_single) (simp_all add: distinct_map)
    ultimately show ?thesis by auto
  qed
  with Some show ?thesis by (simp add: count_rows_def select_rows_def)
qed

definition rotate_token_of :: "db \<Rightarrow> int \<Rightarrow> int \<Rightarrow> bool \<times> db" where
  "rotate_token_of db i now = (fst (rotate_refresh_token db i now) = Inr True, snd (rotate_refresh_token db i now))"

definition issue_token :: "db \<Rightarrow> new_refresh_token \<Rightarrow> db" where
  "issue_token db t = snd (insert_refresh_token db t)"

lemma token_of_update:
  "(\<And>r. rt_id (f r) = rt_id r) \<Longrightarrow>
   token_of (db\<lparr>db_tokens := update_rows p f (db_tokens db)\<rparr>) i = map_option (\<lambda>r. if p r then f r else r) (token_of db i)"
  by (simp add: token_of_def select_row_update)

lemma token_of_id: "token_of db i = Some t \<Longrightarrow> rt_id t = i"
  using select_row_Some unfolding token_of_def by fastforce

interpretation tokens: refresh_store "\<lambda>db :: db. store_ok rt_id (db_tokens db)" token_of token_issued rotate_token_of revoke_where issue_token
proof unfold_locales
  fix db :: db and i t
  assume "store_ok rt_id (db_tokens db)" "token_of db i = Some t"
  then show "token_issued db i"
    using select_row_Some by (fastforce simp: token_of_def token_issued_def store_ok_def)
next
  fix db :: db and i now :: int
  assume "store_ok rt_id (db_tokens db)"
  from count_redeemable [OF this]
  show "fst (rotate_token_of db i now) \<longleftrightarrow> (\<exists>t. token_of db i = Some t \<and> unspent t)"
    by (simp add: rotate_token_of_def rotate_refresh_token_def token_of_def)
next
  fix db :: db and i now j :: int
  show "token_of (snd (rotate_token_of db i now)) j =
    map_option (\<lambda>t. if j = i \<and> unspent t then t\<lparr>rt_rotated_at := Some now\<rparr> else t) (token_of db j)"
    using token_of_id [of db j]
    by (cases "token_of db j") (auto simp: rotate_token_of_def rotate_refresh_token_def token_of_update redeemable_def unspent_def)
next
  fix p now j and db :: db
  show "token_of (revoke_where p now db) j =
    map_option (\<lambda>t. if p t \<and> rt_revoked_at t = None then t\<lparr>rt_revoked_at := Some now\<rparr> else t) (token_of db j)"
    by (simp add: revoke_where_def token_of_update)
next
  fix db :: db and j new
  assume ok: "store_ok rt_id (db_tokens db)" and i: "token_issued db j"
  let ?mk = "token_row new (case nt_family new of Some f \<Rightarrow> f | None \<Rightarrow> 0)"
  have "select_row (\<lambda>r. rt_id r = j) (snd (insert_row ?mk (db_tokens db))) = select_row (\<lambda>r. rt_id r = j) (db_tokens db)"
    using i by (simp add: select_row_insert [OF ok] token_row_def token_issued_def split: option.split)
  then show "token_of (issue_token db new) j = token_of db j"
    by (simp add: issue_token_def insert_refresh_token_def token_of_def split_beta)
qed (auto simp: token_issued_def rotate_token_of_def rotate_refresh_token_def revoke_where_def issue_token_def
    insert_refresh_token_def split_beta)

section \<open>Any interleaving of statements\<close>

text \<open>The statements on the token table that requests, in any number and order, may issue.\<close>

datatype token_statement =
    Rotate int int
  | Revoke_Family int int
  | Revoke_User int int
  | Purge int
  | Insert new_refresh_token
  | Set_Family int
  | Drop_User int

fun token_statement_step :: "db \<Rightarrow> token_statement \<Rightarrow> db" where
  "token_statement_step db (Rotate i now) = snd (rotate_refresh_token db i now)"
| "token_statement_step db (Revoke_Family f now) = snd (revoke_refresh_token_family db f now)"
| "token_statement_step db (Revoke_User u now) = snd (revoke_all_refresh_tokens db u now)"
| "token_statement_step db (Purge now) = snd (delete_expired_refresh_tokens db now)"
| "token_statement_step db (Insert t) = snd (insert_refresh_token db t)"
| "token_statement_step db (Set_Family i) = set_token_family db i"
| "token_statement_step db (Drop_User u) = snd (delete_user db u)"

text \<open>How many of the rotations of one token answered \<open>true\<close> along a sequence of statements.\<close>

fun rotations_won :: "int \<Rightarrow> db \<Rightarrow> token_statement list \<Rightarrow> nat" where
  "rotations_won i db [] = 0"
| "rotations_won i db (e # es) =
     (case e of Rotate j now \<Rightarrow> if j = i \<and> fst (rotate_refresh_token db j now) = Inr True then 1 else 0 | _ \<Rightarrow> 0)
     + rotations_won i (token_statement_step db e) es"

lemma token_of_delete:
  assumes "store_ok rt_id (db_tokens db)" "db_tokens db' = delete_rows p (db_tokens db)"
  shows "token_of db' i = (case token_of db i of None \<Rightarrow> None | Some t \<Rightarrow> if p t then None else Some t)"
  using select_row_delete [OF assms(1)] assms(2) by (simp add: token_of_def)

lemma advances_delete:
  assumes "store_ok rt_id (db_tokens db)" "db_tokens db' = delete_rows p (db_tokens db)"
  shows "tokens.advances db db'"
  using token_of_delete [OF assms] assms(2)
  by (auto simp: tokens.advances_def token_issued_def split: option.splits if_splits)

lemma advances_set_family: "tokens.advances db (set_token_family db i)"
  by (auto simp: tokens.advances_def set_token_family_def token_issued_def token_of_update unspent_def)

lemma token_statement_ok:
  assumes "accounts_ok db"
  shows "accounts_ok (token_statement_step db e)"
proof (cases e)
  case (Set_Family i)
  have "accounts_ok (set_token_family db i)"
    unfolding set_token_family_def using assms by (rule tokens_ok_update) simp_all
  with Set_Family show ?thesis by simp
qed (use assms in \<open>simp_all add: rotate_refresh_token_ok revoke_where_ok revoke_refresh_token_family_def
      revoke_all_refresh_tokens_def delete_expired_ok insert_refresh_token_ok delete_user_ok\<close>)

lemma spent_step:
  assumes "accounts_ok db" "tokens.spent db i"
  shows "tokens.spent (token_statement_step db e) i"
proof -
  have ok: "store_ok rt_id (db_tokens db)" using assms(1) by (simp add: accounts_ok_def tokens_ok_def)
  show ?thesis
  proof (cases e)
    case (Rotate j now)
    with tokens.spent_rotate [OF ok assms(2), of j now] show ?thesis by (simp add: rotate_token_of_def)
  next
    case (Insert t)
    with tokens.spent_issue [OF ok assms(2), of t] show ?thesis by (simp add: issue_token_def)
  next
    case (Purge now)
    have "tokens.advances db (token_statement_step db e)" unfolding Purge
      using ok by (rule advances_delete [where p = "purgeable now"]) (simp add: delete_expired_refresh_tokens_def)
    then show ?thesis using assms(2) by (rule tokens.spent_advance)
  next
    case (Drop_User u)
    have "tokens.advances db (token_statement_step db e)" unfolding Drop_User
      using ok by (rule advances_delete [where p = "\<lambda>t. rt_user t = u"]) (simp add: delete_user_def cascade_user_def)
    then show ?thesis using assms(2) by (rule tokens.spent_advance)
  next
    case (Set_Family j)
    with tokens.spent_advance [OF advances_set_family assms(2), of j] show ?thesis by simp
  qed (use tokens.spent_revoke [OF assms(2)] in
      \<open>simp_all add: revoke_refresh_token_family_def revoke_all_refresh_tokens_def\<close>)
qed

lemma spent_no_rotation:
  assumes "accounts_ok db" "tokens.spent db i"
  shows "rotations_won i db es = 0"
  using assms
proof (induction es arbitrary: db)
  case (Cons e es)
  have ok: "store_ok rt_id (db_tokens db)" using Cons.prems(1) by (simp add: accounts_ok_def tokens_ok_def)
  have "fst (rotate_refresh_token db i now) \<noteq> Inr True" for now
    using tokens.spent_not_rotated [OF ok Cons.prems(2), of now] by (simp add: rotate_token_of_def)
  with Cons.IH [OF token_statement_ok [OF Cons.prems(1)] spent_step [OF Cons.prems]]
  show ?case by (auto split: token_statement.split)
qed simp

section \<open>The mirror of the CMS memberships\<close>

text \<open>The membership the role of a row calls for.\<close>

definition mirrored_role :: "string \<Rightarrow> string option" where
  "mirrored_role role = (if role \<in> {''admin'', ''editor''} then Some role else None)"

definition stored_membership :: "db \<Rightarrow> int \<Rightarrow> int \<Rightarrow> string option" where
  "stored_membership db u org = map_option m_role (find (is_membership u org) (db_memberships db))"

definition cms_mirror :: "db \<Rightarrow> bool" where
  "cms_mirror db \<longleftrightarrow>
     (\<forall>cms. org_id db cms_organization_key = Some cms \<longrightarrow>
       (\<forall>r \<in> set (rows (db_users db)). stored_membership db (ur_id r) cms = mirrored_role (ur_role r)))"

lemma mirrored_role_as_str: "mirrored_role (role_as_str r) = (if is_editor r then Some (role_as_str r) else None)"
  by (cases r) (simp_all add: mirrored_role_def role_as_str_def is_editor_def)

lemma org_id_sync [simp]: "org_id (snd (sync_membership db now u role)) key = org_id db key"
  by (simp add: org_id_def)

lemma org_id_users_update [simp]: "org_id (db\<lparr>db_users := us\<rparr>) key = org_id db key"
  by (simp add: org_id_def)

lemma org_id_delete [simp]: "org_id (snd (delete_user db i)) key = org_id db key"
  by (simp add: org_id_def delete_user_def cascade_user_def)

lemma sync_membership_stored:
  assumes "org_id db cms_organization_key = Some cms"
  shows "stored_membership (snd (sync_membership db now u role)) v cms =
    (if v = u then mirrored_role (role_as_str role) else stored_membership db v cms)"
proof (rule sync_membership_cases [of db now u role])
  assume "org_id db cms_organization_key = None"
  with assms show ?thesis by simp
next
  fix k ms
  assume g: "org_id db cms_organization_key = Some k" "is_editor role"
    "upsert_membership u k (role_as_str role) now (db_memberships db) = Inr ms"
    "sync_membership db now u role = (Inr (), db\<lparr>db_memberships := ms\<rparr>)"
  from find_upsert_membership [OF g(3), of v cms] g assms show ?thesis
    by (simp add: stored_membership_def mirrored_role_as_str)
next
  fix k
  assume g: "org_id db cms_organization_key = Some k" "\<not> is_editor role"
    "sync_membership db now u role =
      (Inr (), db\<lparr>db_memberships := filter (\<lambda>m. \<not> is_membership u k m) (db_memberships db)\<rparr>)"
  with assms show ?thesis
    by (simp add: stored_membership_def find_filter_membership mirrored_role_as_str)
qed

lemma mirror_sync:
  assumes "\<And>r. r \<in> set (rows (db_users db)) \<Longrightarrow> ur_id r = u \<Longrightarrow> ur_role r = role_as_str role"
    "\<And>cms r. org_id db cms_organization_key = Some cms \<Longrightarrow> r \<in> set (rows (db_users db)) \<Longrightarrow> ur_id r \<noteq> u \<Longrightarrow>
      stored_membership db (ur_id r) cms = mirrored_role (ur_role r)"
  shows "cms_mirror (snd (sync_membership db now u role))"
  unfolding cms_mirror_def
proof (intro allI impI ballI)
  fix cms r
  assume c: "org_id (snd (sync_membership db now u role)) cms_organization_key = Some cms"
    and r: "r \<in> set (rows (db_users (snd (sync_membership db now u role))))"
  from c have c': "org_id db cms_organization_key = Some cms" by (simp only: org_id_sync)
  from r have r': "r \<in> set (rows (db_users db))" by (simp only: sync_membership_keeps)
  show "stored_membership (snd (sync_membership db now u role)) (ur_id r) cms = mirrored_role (ur_role r)"
    unfolding sync_membership_stored [OF c'] using assms(1) [OF r'] assms(2) [OF c' r'] by simp
qed

lemma mirror_users_update:
  assumes "cms_mirror db" "\<And>r. ur_id (f r) = ur_id r" "\<And>r. ur_role (f r) = ur_role r"
  shows "cms_mirror (db\<lparr>db_users := update_rows p f (db_users db)\<rparr>)"
  using assms by (auto simp: cms_mirror_def stored_membership_def)

lemma mirror_create:
  assumes "accounts_ok db" "cms_mirror db"
  shows "cms_mirror (snd (create_user db now name hash role))"
proof (cases "\<exists>r \<in> set (rows (db_users db)). eq_ignore_case (ur_username r) name")
  case True
  with assms show ?thesis by (simp add: create_user_def)
next
  case False
  let ?mk = "\<lambda>i. \<lparr>ur_id = i, ur_username = name, ur_password_hash = hash,
    ur_role = role_as_str role, ur_created_at = now, ur_last_login_at = None\<rparr>"
  let ?i = "last_id (db_users db) + 1"
  let ?db = "db\<lparr>db_users := snd (insert_row ?mk (db_users db))\<rparr>"
  have new: "ur_id r \<noteq> ?i" if "r \<in> set (rows (db_users db))" for r
    using assms(1) that store_ok_fresh [of ur_id "db_users db" r] by (simp add: accounts_ok_def users_ok_def)
  have "snd (create_user db now name hash role) = snd (sync_membership ?db now ?i role)"
    using False by (simp add: create_user_def split_beta split: sum.split)
  moreover have "cms_mirror (snd (sync_membership ?db now ?i role))"
    using new assms(2) by (intro mirror_sync) (auto simp: cms_mirror_def stored_membership_def)
  ultimately show ?thesis by simp
qed

lemma mirror_update_role:
  assumes "accounts_ok db" "cms_mirror db"
  shows "cms_mirror (snd (update_role db now i role))"
proof -
  let ?db = "db\<lparr>db_users := update_rows (\<lambda>r. ur_id r = i) (\<lambda>r. r\<lparr>ur_role := role_as_str role\<rparr>) (db_users db)\<rparr>"
  have one: "count_rows (\<lambda>r. ur_id r = i) (db_users db) = 1" if "r \<in> set (rows (db_users db))" "ur_id r = i" for r
  proof -
    have ok: "store_ok ur_id (db_users db)" using assms(1) by (simp add: accounts_ok_def users_ok_def)
    have "filter (\<lambda>q. ur_id q = i) (rows (db_users db)) = filter (\<lambda>q. q = r) (rows (db_users db))"
      using that store_ok_inj [OF ok] by (intro filter_cong) auto
    also have "\<dots> = [r]"
      using that(1) store_ok_distinct [OF ok] by (intro filter_single) (simp_all add: distinct_map)
    finally show ?thesis by (simp add: count_rows_def select_rows_def)
  qed
  show ?thesis
  proof (cases "\<exists>r \<in> set (rows (db_users db)). ur_id r = i")
    case False
    then have "?db = db" by (simp add: update_rows_id)
    moreover have "count_rows (\<lambda>r. ur_id r = i) (db_users db) = 0" using False by (auto simp: count_rows_0)
    ultimately show ?thesis using assms(2) by (simp add: update_role_def)
  next
    case True
    with one have "count_rows (\<lambda>r. ur_id r = i) (db_users db) = 1" by blast
    then have "snd (update_role db now i role) = snd (sync_membership ?db now i role)"
      unfolding update_role_def Let_def by (simp only: if_True simp_thms)
    moreover have "cms_mirror (snd (sync_membership ?db now i role))"
    proof (rule mirror_sync)
      fix r
      assume r: "r \<in> set (rows (db_users ?db))" "ur_id r = i"
      from r(1) have "r \<in> set (rows (update_rows (\<lambda>r. ur_id r = i) (\<lambda>r. r\<lparr>ur_role := role_as_str role\<rparr>) (db_users db)))"
        by simp
      then obtain x where "r = (if ur_id x = i then x\<lparr>ur_role := role_as_str role\<rparr> else x)"
        by (rule update_rowsE)
      with r(2) show "ur_role r = role_as_str role" by (cases "ur_id x = i") simp_all
    next
      fix cms r
      assume c: "org_id ?db cms_organization_key = Some cms" and r: "r \<in> set (rows (db_users ?db))" "ur_id r \<noteq> i"
      from r(1) have "r \<in> set (rows (update_rows (\<lambda>r. ur_id r = i) (\<lambda>r. r\<lparr>ur_role := role_as_str role\<rparr>) (db_users db)))"
        by simp
      then obtain x where x: "x \<in> set (rows (db_users db))"
          "r = (if ur_id x = i then x\<lparr>ur_role := role_as_str role\<rparr> else x)" by (rule update_rowsE)
      with r(2) have "r = x" by (cases "ur_id x = i") simp_all
      with x(1) c assms(2) have "stored_membership db (ur_id r) cms = mirrored_role (ur_role r)"
        by (simp add: cms_mirror_def)
      then show "stored_membership ?db (ur_id r) cms = mirrored_role (ur_role r)"
        by (simp add: stored_membership_def)
    qed
    ultimately show ?thesis by simp
  qed
qed

lemma find_filter_keep:
  "(\<And>x. q x \<Longrightarrow> p x) \<Longrightarrow> find q (filter p xs) = find q xs"
  by (induction xs) auto

lemma mirror_delete:
  assumes "cms_mirror db"
  shows "cms_mirror (snd (delete_user db i))"
proof -
  have "stored_membership (snd (delete_user db i)) v cms = stored_membership db v cms" if "v \<noteq> i" for v cms
  proof -
    have "find (is_membership v cms) (filter (\<lambda>m. m_user m \<noteq> i) (db_memberships db)) =
        find (is_membership v cms) (db_memberships db)"
      using that by (intro find_filter_keep) (auto simp: is_membership_def)
    then show ?thesis by (simp add: stored_membership_def delete_user_def cascade_user_def)
  qed
  moreover have "rows (db_users (snd (delete_user db i))) = filter (\<lambda>r. ur_id r \<noteq> i) (rows (db_users db))"
    by (simp add: delete_user_def cascade_user_def)
  ultimately show ?thesis using assms by (auto simp: cms_mirror_def)
qed

section \<open>Properties\<close>

text \<open>
  A refresh token is single use. However many requests present it, and however their
  statements interleave with each other, with revocations, purges, new tokens and deleted accounts,
  at most one rotation of it ever succeeds.
\<close>

theorem rotation_single_use:
  assumes "accounts_ok db" "token_issued db i"
  shows "rotations_won i db statements \<le> 1"
  using assms
proof (induction statements arbitrary: db)
  case (Cons e es)
  let ?db = "token_statement_step db e"
  have ok: "store_ok rt_id (db_tokens db)" "accounts_ok ?db"
    using Cons.prems(1) token_statement_ok by (auto simp: accounts_ok_def tokens_ok_def)
  show ?case
  proof (cases "\<exists>now. e = Rotate i now \<and> fst (rotate_refresh_token db i now) = Inr True")
    case True
    then obtain now where e: "e = Rotate i now" and w: "fst (rotate_token_of db i now)"
      by (auto simp: rotate_token_of_def)
    have "tokens.spent ?db i"
      using tokens.rotate_spends [OF ok(1) w] e by (simp add: rotate_token_of_def)
    from spent_no_rotation [OF ok(2) this] e show ?thesis by simp
  next
    case False
    have "token_issued ?db i"
      using Cons.prems(2)
      by (cases e) (auto simp: token_issued_def rotate_refresh_token_def revoke_refresh_token_family_def
          revoke_all_refresh_tokens_def revoke_where_def delete_expired_refresh_tokens_def insert_refresh_token_def
          set_token_family_def delete_user_def cascade_user_def split_beta)
    from Cons.IH [OF ok(2) this] False show ?thesis by (auto split: token_statement.split)
  qed
qed simp

definition sample_token :: new_refresh_token where
  "sample_token = \<lparr>nt_user = 1, nt_family = None, nt_hash = ''h'', nt_expires_at = 100, nt_created_at = 0,
     nt_created_ip = None, nt_user_agent = None\<rparr>"

definition sample_db :: db where
  "sample_db = snd (save_refresh_token (snd (create_user empty_db 0 ''ann'' ''hash'' Admin)) sample_token)"

lemma sample_db_ok: "accounts_ok sample_db"
  unfolding sample_db_def by (intro save_refresh_token_ok create_user_ok accounts_ok_empty)

lemma sample_db_tokens: "db_tokens sample_db = \<lparr>last_id = 1, rows = [token_row sample_token 1 1]\<rparr>"
  by (simp add: sample_db_def sample_token_def save_refresh_token_def insert_refresh_token_def create_user_def
      empty_db_def empty_store_def insert_row_def sync_membership_def org_id_def select_row_def user_exists_def
      token_row_def set_token_family_def update_rows_def)

lemma rotation_single_use_witness:
  "rotations_won 1 sample_db [Rotate 1 5, Purge 6, Rotate 1 7, Revoke_Family 1 8, Rotate 1 9] \<le> 1"
  by (rule rotation_single_use [OF sample_db_ok]) (simp add: token_issued_def sample_db_tokens)

text \<open>
  Revocation is final: once the family of a token, or every token of its owner, has been
  revoked, no sequence of statements makes a rotation of that token succeed again.
\<close>

theorem revocation_final:
  assumes "accounts_ok db" "token_of db i = Some t" "e = Revoke_Family (rt_family t) now \<or> e = Revoke_User (rt_user t) now"
  shows "rotations_won i (token_statement_step db e) statements = 0"
proof (rule spent_no_rotation)
  have ok: "store_ok rt_id (db_tokens db)" using assms(1) by (simp add: accounts_ok_def tokens_ok_def)
  show "tokens.spent (token_statement_step db e) i"
    using assms(3) tokens.revoke_spends [OF ok assms(2), of "\<lambda>r. rt_family r = rt_family t" now]
      tokens.revoke_spends [OF ok assms(2), of "\<lambda>r. rt_user r = rt_user t" now]
    by (auto simp: revoke_refresh_token_family_def revoke_all_refresh_tokens_def)
qed (rule token_statement_ok [OF assms(1)])

lemma revocation_final_witness:
  "rotations_won 1 (token_statement_step sample_db (Revoke_Family 1 5)) [Rotate 1 6, Purge 200, Rotate 1 201] = 0"
  by (rule revocation_final [OF sample_db_ok, of 1 "token_row sample_token 1 1"])
    (simp_all add: token_of_def sample_db_tokens select_row_def token_row_def)

datatype account_op =
    Create int string string user_role
  | Set_Password int string
  | Set_Role int int user_role
  | Delete int
  | Login int int
  | Save new_refresh_token
  | Token_Op token_statement

fun account_step :: "db \<Rightarrow> account_op \<Rightarrow> db" where
  "account_step db (Create now name hash role) = snd (create_user db now name hash role)"
| "account_step db (Set_Password i hash) = snd (update_password db i hash)"
| "account_step db (Set_Role now i role) = snd (update_role db now i role)"
| "account_step db (Delete i) = snd (delete_user db i)"
| "account_step db (Login now i) = snd (record_login db now i)"
| "account_step db (Save t) = snd (save_refresh_token db t)"
| "account_step db (Token_Op e) = token_statement_step db e"

lemma mirror_tokens: "cms_mirror (db\<lparr>db_tokens := ts\<rparr>) \<longleftrightarrow> cms_mirror db"
  by (simp add: cms_mirror_def stored_membership_def org_id_def)

lemma account_step_ok: "accounts_ok db \<Longrightarrow> accounts_ok (account_step db op)"
  by (cases op) (simp_all add: create_user_ok update_password_ok update_role_ok delete_user_ok record_login_ok
      save_refresh_token_ok token_statement_ok)

lemma account_step_mirror:
  assumes "accounts_ok db" "cms_mirror db"
  shows "cms_mirror (account_step db op)"
proof (cases op)
  case (Save t)
  have "\<exists>ts. snd (save_refresh_token db t) = db\<lparr>db_tokens := ts\<rparr>"
    by (auto simp: save_refresh_token_def insert_refresh_token_def set_token_family_def split_beta
        intro: exI [of _ "db_tokens db"] split: option.split)
  with Save assms(2) mirror_tokens show ?thesis by auto
next
  case (Token_Op e)
  show ?thesis
  proof (cases "\<exists>u. e = Drop_User u")
    case True
    with Token_Op mirror_delete [OF assms(2)] show ?thesis by auto
  next
    case False
    have "\<exists>ts. token_statement_step db e = db\<lparr>db_tokens := ts\<rparr>"
      using False
      by (cases e) (auto simp: rotate_refresh_token_def revoke_refresh_token_family_def revoke_all_refresh_tokens_def
          revoke_where_def delete_expired_refresh_tokens_def insert_refresh_token_def set_token_family_def split_beta
          intro: exI [of _ "db_tokens db"])
    with Token_Op assms(2) mirror_tokens show ?thesis by auto
  qed
qed (use assms in \<open>simp_all add: mirror_create mirror_update_role mirror_delete update_password_def record_login_def
    mirror_users_update\<close>)

text \<open>
  The operations on the account tables keep their invariant: ids are unique and never
  reused, no two accounts share a username up to letter case, every stored role decodes, token
  hashes are unique and every token has an owner, and memberships are unique with a role of the
  membership vocabulary. They also keep the mirror: while the CMS organization exists, exactly the
  accounts with an editing role are its members, with that role.
\<close>

theorem account_tables_invariant:
  assumes "accounts_ok db" "cms_mirror db"
  shows "accounts_ok (foldl account_step db ops) \<and> cms_mirror (foldl account_step db ops)"
  using assms by (induction ops arbitrary: db) (simp_all add: account_step_ok account_step_mirror)

lemma account_tables_invariant_witness:
  "accounts_ok (foldl account_step empty_db [Create 0 ''ann'' ''h'' Admin, Create 1 ''ANN'' ''g'' User, Set_Role 2 1 Editor, Delete 1]) \<and>
   cms_mirror (foldl account_step empty_db [Create 0 ''ann'' ''h'' Admin, Create 1 ''ANN'' ''g'' User, Set_Role 2 1 Editor, Delete 1])"
  by (rule account_tables_invariant [OF accounts_ok_empty])
    (simp add: cms_mirror_def empty_db_def empty_store_def)

lemma user_of_row_as_str:
  "user_of_row \<lparr>ur_id = i, ur_username = n, ur_password_hash = h, ur_role = role_as_str r, ur_created_at = c, ur_last_login_at = l\<rparr>
    = Inr \<lparr>u_id = i, u_username = n, u_password_hash = h, u_role = r, u_created_at = c, u_last_login_at = l\<rparr>"
  by (simp add: user_of_row_def)

lemma user_of_optional_None: 
  assumes "role_parse (ur_role r) \<noteq> None"
  shows "user_of_optional (Some r) \<noteq> Inr None"
  using assms by (auto simp: user_of_optional_def user_of_row_def)

lemma create_user_success:
  assumes "create_user db now name hash role = (Inr u, db')"
  shows "\<not> (\<exists>r \<in> set (rows (db_users db)). eq_ignore_case (ur_username r) name)"
    and "u = \<lparr>u_id = last_id (db_users db) + 1, u_username = name, u_password_hash = hash, u_role = role,
      u_created_at = now, u_last_login_at = None\<rparr>"
    and "db_users db' = snd (insert_row (\<lambda>i. \<lparr>ur_id = i, ur_username = name, ur_password_hash = hash,
      ur_role = role_as_str role, ur_created_at = now, ur_last_login_at = None\<rparr>) (db_users db))"
proof -
  let ?mk = "\<lambda>i. \<lparr>ur_id = i, ur_username = name, ur_password_hash = hash,
      ur_role = role_as_str role, ur_created_at = now, ur_last_login_at = None\<rparr>"
  show n: "\<not> (\<exists>r \<in> set (rows (db_users db)). eq_ignore_case (ur_username r) name)"
    using assms by (auto simp: create_user_def split: if_splits)
  let ?s = "sync_membership (db\<lparr>db_users := snd (insert_row ?mk (db_users db))\<rparr>) now (last_id (db_users db) + 1) role"
  have c: "create_user db now name hash role = (Inr \<lparr>u_id = last_id (db_users db) + 1, u_username = name,
      u_password_hash = hash, u_role = role, u_created_at = now, u_last_login_at = None\<rparr>, snd ?s)"
    using n by (simp add: create_user_def split_beta sync_membership_total)
  then show "u = \<lparr>u_id = last_id (db_users db) + 1, u_username = name, u_password_hash = hash, u_role = role,
      u_created_at = now, u_last_login_at = None\<rparr>"
    "db_users db' = snd (insert_row ?mk (db_users db))"
    using assms by simp_all
qed

lemma find_username_None:
  assumes "users_ok db"
  shows "find_user_by_username db name = Inr None \<longleftrightarrow>
    \<not> (\<exists>r \<in> set (rows (db_users db)). eq_ignore_case (ur_username r) name)"
proof (cases "select_row (\<lambda>r. eq_ignore_case (ur_username r) name) (db_users db)")
  case None
  moreover from None have "\<not> (\<exists>r \<in> set (rows (db_users db)). eq_ignore_case (ur_username r) name)"
    by (simp add: select_row_None)
  ultimately show ?thesis by (simp add: find_user_by_username_def user_of_optional_def)
next
  case (Some r)
  from select_row_Some [OF Some] assms user_of_optional_None [of r] Some show ?thesis
    by (auto simp: find_user_by_username_def users_ok_def)
qed

lemma created_user_row:
  assumes "create_user db now name hash role = (Inr u, db')"
  shows "rows (db_users db') = rows (db_users db) @ [\<lparr>ur_id = u_id u, ur_username = name, ur_password_hash = hash,
      ur_role = role_as_str role, ur_created_at = now, ur_last_login_at = None\<rparr>]"
    and "user_of_row \<lparr>ur_id = u_id u, ur_username = name, ur_password_hash = hash,
      ur_role = role_as_str role, ur_created_at = now, ur_last_login_at = None\<rparr> = Inr u"
  using create_user_success [OF assms] by (simp_all add: user_of_row_as_str)

lemma created_user_found:
  assumes "create_user db now name hash role = (Inr u, db')" "lowercase m = lowercase name"
  shows "find_user_by_username db' m = Inr (Some u)"
proof -
  have "find (\<lambda>r. eq_ignore_case (ur_username r) m) (rows (db_users db)) = None"
    using create_user_success(1) [OF assms(1)] assms(2) by (auto simp: find_None_iff eq_ignore_case_def)
  then show ?thesis using assms(2) created_user_row [OF assms(1)]
    by (simp add: find_user_by_username_def select_row_def find_append user_of_optional_def eq_ignore_case_def)
qed

text \<open>
  Registration and lookup agree on what a username is: creating an account is refused as a
  duplicate exactly when some account already answers to the name in some spelling; when it
  succeeds the new account is found by its id and under every spelling of its name, and every
  other lookup by id answers as before.
\<close>

theorem create_then_find:
  assumes "accounts_ok db"
  shows "case create_user db now name hash role of
      (Inl e, db') \<Rightarrow> e = Duplicate \<and> db' = db \<and> find_user_by_username db name \<noteq> Inr None
    | (Inr u, db') \<Rightarrow> find_user_by_username db name = Inr None \<and> u_username u = name \<and> u_role u = role \<and>
        (\<forall>m. lowercase m = lowercase name \<longrightarrow> find_user_by_username db' m = Inr (Some u)) \<and>
        (\<forall>i. find_user_by_id db' i = (if i = u_id u then Inr (Some u) else find_user_by_id db i))"
proof -
  have ok: "users_ok db" "store_ok ur_id (db_users db)" using assms by (simp_all add: accounts_ok_def users_ok_def)
  obtain r db' where c: "create_user db now name hash role = (r, db')" by force
  show ?thesis
  proof (cases r)
    case (Inl e)
    with c have "\<exists>r \<in> set (rows (db_users db)). eq_ignore_case (ur_username r) name"
      by (auto simp: create_user_def split_beta sync_membership_total split: if_splits)
    with c Inl find_username_None [OF ok(1)] show ?thesis by (auto simp: create_user_def)
  next
    case (Inr u)
    note s = create_user_success [OF c [unfolded Inr]]
    note row = created_user_row [OF c [unfolded Inr]]
    have "find_user_by_username db' m = Inr (Some u)" if "lowercase m = lowercase name" for m
      using c Inr that by (intro created_user_found) simp_all
    moreover have "find_user_by_id db' i = (if i = u_id u then Inr (Some u) else find_user_by_id db i)" for i
    proof (cases "i = u_id u")
      case True
      have "find (\<lambda>r. ur_id r = i) (rows (db_users db)) = None"
        using store_ok_fresh [OF ok(2)] s(2) True by (auto simp: find_None_iff)
      with True row show ?thesis by (simp add: find_user_by_id_def select_row_def find_append user_of_optional_def)
    next
      case False
      with row(1) show ?thesis by (auto simp: find_user_by_id_def select_row_def find_append split: option.split)
    qed
    ultimately show ?thesis using s(1,2) find_username_None [OF ok(1)] c Inr by simp
  qed
qed

lemma create_then_find_witness:
  "case create_user empty_db 0 ''ann'' ''h'' Admin of
      (Inl e, db') \<Rightarrow> e = Duplicate \<and> db' = empty_db \<and> find_user_by_username empty_db ''ann'' \<noteq> Inr None
    | (Inr u, db') \<Rightarrow> find_user_by_username empty_db ''ann'' = Inr None \<and> u_username u = ''ann'' \<and> u_role u = Admin \<and>
        (\<forall>m. lowercase m = lowercase ''ann'' \<longrightarrow> find_user_by_username db' m = Inr (Some u)) \<and>
        (\<forall>i. find_user_by_id db' i = (if i = u_id u then Inr (Some u) else find_user_by_id empty_db i))"
  by (rule create_then_find [OF accounts_ok_empty])

end
