(* ===== verification/Session.thy ===== *)
theory Session
  imports Vhosts
begin

text \<open>
  \<open>src/src/session.rs\<close>: the \<open>wallermax_session\<close> cookie, a mirror of the access token.
  The \<open>Cookie\<close> headers of a request are, in order, what \<open>HeaderValue::to_str\<close> makes of
  them.
\<close>

definition cookie_name :: string where
  "cookie_name = ''wallermax_session''"

definition secure_part :: "bool \<Rightarrow> string" where
  "secure_part secure = (if secure then ''; Secure'' else [])"

definition domain_part :: "string option \<Rightarrow> string" where
  "domain_part domain =
     (case domain of
        Some d \<Rightarrow> if d = [] then [] else ''; Domain='' @ d
      | None \<Rightarrow> [])"

definition set_cookie_value :: "string \<Rightarrow> nat \<Rightarrow> bool \<Rightarrow> string option \<Rightarrow> string" where
  "set_cookie_value token ttl_secs secure domain =
     cookie_name @ ''='' @ token @ ''; Path=/; Max-Age='' @ show_nat ttl_secs @
     ''; HttpOnly; SameSite=Strict'' @ secure_part secure @ domain_part domain"

definition clear_cookie_value :: "bool \<Rightarrow> string option \<Rightarrow> string" where
  "clear_cookie_value secure domain =
     cookie_name @ ''=; Path=/; Max-Age=0; HttpOnly; SameSite=Strict'' @ secure_part secure @ domain_part domain"

definition pair_token :: "string \<Rightarrow> string option" where
  "pair_token pair =
     (case split_once (CHR ''='') (trim pair) of
        Some (name, token) \<Rightarrow> if name = cookie_name \<and> token \<noteq> [] then Some token else None
      | None \<Rightarrow> None)"

fun first_some :: "('a \<Rightarrow> 'b option) \<Rightarrow> 'a list \<Rightarrow> 'b option" where
  "first_some f [] = None"
| "first_some f (x # xs) = (case f x of Some y \<Rightarrow> Some y | None \<Rightarrow> first_some f xs)"

definition header_token :: "header_value \<Rightarrow> string option" where
  "header_token value =
     (case value of None \<Rightarrow> None | Some raw \<Rightarrow> first_some pair_token (split_on (CHR '';'') raw))"

definition session_token :: "header_value list \<Rightarrow> string option" where
  "session_token cookies = first_some header_token cookies"

section \<open>Lemmas\<close>

lemma first_some_None: "first_some f xs = None \<longleftrightarrow> (\<forall>x \<in> set xs. f x = None)"
  by (induction xs) (auto split: option.splits)

lemma first_some_append:
  "first_some f (xs @ ys) = (case first_some f xs of Some y \<Rightarrow> Some y | None \<Rightarrow> first_some f ys)"
  by (induction xs) (auto split: option.splits)

lemma ws_len_space: "ws_len (CHR '' '' # s) = 1"
  by (simp add: ws_len_def head_len_def white_space_def)

lemma trim_space: "trim (CHR '' '' # s) = trim s"
proof -
  have "trim_start_by ws_len (CHR '' '' # s) = trim_start_by ws_len s"
    by (subst trim_start_by.simps) (simp add: ws_len_space)
  then show ?thesis by (simp add: trim_def trim_start_def)
qed

lemma trim_spaces: "trim (replicate n (CHR '' '') @ s) = trim s"
  by (induction n) (simp_all add: trim_space)

text \<open>What an access token looks like: printable, no semicolon.\<close>

definition cookie_safe :: "string \<Rightarrow> bool" where
  "cookie_safe t \<longleftrightarrow> t \<noteq> [] \<and> list_all (\<lambda>c. graphic c \<and> c \<noteq> CHR '';'') t"

lemma cookie_name_chars: "list_all (\<lambda>c. graphic c \<and> c \<noteq> CHR '';'' \<and> c \<noteq> CHR ''='') cookie_name"
  by (simp add: cookie_name_def graphic_def code_def)

lemma session_pair_safe: "cookie_safe t \<Longrightarrow> cookie_safe (cookie_name @ ''='' @ t)"
  using cookie_name_chars by (auto simp: cookie_safe_def list_all_iff graphic_def code_def)

lemma trim_safe: "cookie_safe t \<Longrightarrow> trim t = t"
  by (rule trim_graphic) (auto simp: cookie_safe_def list_all_iff)

lemma pair_token_session:
  assumes "cookie_safe t"
  shows "pair_token (replicate n (CHR '' '') @ cookie_name @ ''='' @ t) = Some t"
proof -
  have "CHR ''='' \<notin> set cookie_name" using cookie_name_chars by (auto simp: list_all_iff)
  from split_once_append [OF this, of t] show ?thesis
    using trim_safe [OF session_pair_safe [OF assms]] assms
    by (simp add: pair_token_def trim_spaces cookie_safe_def)
qed

lemma set_cookie_first:
  assumes "cookie_safe t"
  shows "hd (split_on (CHR '';'') (set_cookie_value t ttl secure domain)) = cookie_name @ ''='' @ t"
proof -
  have "CHR '';'' \<notin> set (cookie_name @ ''='' @ t)"
    using session_pair_safe [OF assms] by (auto simp: cookie_safe_def list_all_iff)
  from split_on_append_sep [OF this] show ?thesis
    by (simp add: set_cookie_value_def)
qed

section \<open>Properties\<close>

text \<open>
  The session survives the browser: a browser keeps the \<open>name=value\<close> pair before the
  first semicolon of the \<open>Set-Cookie\<close> value and sends it back among its other cookies; if
  none of those sent before it is a session cookie, the token the server reads is the one it set,
  whatever lifetime and attributes the cookie had.
\<close>

theorem session_cookie_round_trip:
  assumes "cookie_safe token"
    "\<forall>c \<in> set (earlier @ later). CHR '';'' \<notin> set c"
    "\<forall>c \<in> set earlier. pair_token c = None"
    "\<forall>h \<in> set headers. header_token h = None"
    "pair = hd (split_on (CHR '';'') (set_cookie_value token ttl secure domain))"
  shows "session_token (headers @
      Some (join_with '';'' (earlier @ (replicate spaces (CHR '' '') @ pair) # later)) # rest) = Some token"
proof -
  let ?p = "replicate spaces (CHR '' '') @ pair"
  have p: "pair = cookie_name @ ''='' @ token" using assms(1,5) set_cookie_first by simp
  have "CHR '';'' \<notin> set ?p"
    using session_pair_safe [OF assms(1)] unfolding p by (auto simp: cookie_safe_def list_all_iff)
  then have "split_on (CHR '';'') (join_with '';'' (earlier @ ?p # later)) = earlier @ ?p # later"
    using assms(2) by (intro split_on_join_with) auto
  then have "header_token (Some (join_with '';'' (earlier @ ?p # later))) = Some token"
    using assms(3) pair_token_session [OF assms(1), of spaces] p first_some_None [of pair_token earlier]
    by (simp add: header_token_def first_some_append)
  then show ?thesis
    using assms(4) first_some_None [of header_token headers]
    by (simp add: session_token_def first_some_append)
qed

lemma session_cookie_round_trip_witness:
  "session_token ([] @ Some (join_with '';'' ([''theme=dark''] @
      (replicate 1 (CHR '' '') @ hd (split_on (CHR '';'') (set_cookie_value ''a.b'' 900 True None))) # [])) # []) =
    Some ''a.b''"
proof (rule session_cookie_round_trip)
  have "trim ''theme=dark'' = ''theme=dark''"
    by (rule trim_graphic) (simp_all add: graphic_def code_def)
  then show "\<forall>c \<in> set [''theme=dark'']. pair_token c = None"
    using split_once_append [of "CHR ''=''" "''theme''" "''dark''"]
    by (simp add: pair_token_def cookie_name_def)
qed (simp_all add: cookie_safe_def graphic_def code_def)

text \<open>
  Signing out clears the browser's copy: the pair of the clearing cookie carries no token,
  and its attributes address the same cookie, letter for letter, as the ones it was set with.
\<close>

theorem clear_cookie_matches:
  assumes "cookie_safe token"
  shows "pair_token (hd (split_on (CHR '';'') (clear_cookie_value secure domain))) = None \<and>
    (\<exists>attributes. set_cookie_value token ttl secure domain =
        cookie_name @ ''='' @ token @ ''; Path=/; Max-Age='' @ show_nat ttl @ attributes \<and>
      clear_cookie_value secure domain = cookie_name @ ''=; Path=/; Max-Age=0'' @ attributes)"
proof -
  have f: "CHR '';'' \<notin> set (cookie_name @ ''='')" "CHR ''='' \<notin> set cookie_name"
    using cookie_name_chars by (auto simp: list_all_iff)
  have "trim (cookie_name @ ''='') = cookie_name @ ''=''"
    by (rule trim_graphic) (simp_all add: cookie_name_def graphic_def code_def)
  then have "pair_token (cookie_name @ ''='') = None"
    using split_once_append [OF f(2), of "[]"] by (simp add: pair_token_def)
  moreover have "hd (split_on (CHR '';'') (clear_cookie_value secure domain)) = cookie_name @ ''=''"
    using split_on_append_sep [OF f(1)] by (simp add: clear_cookie_value_def)
  ultimately show ?thesis
    by (simp add: set_cookie_value_def clear_cookie_value_def)
qed

lemma clear_cookie_matches_witness:
  "pair_token (hd (split_on (CHR '';'') (clear_cookie_value True None))) = None \<and>
    (\<exists>attributes. set_cookie_value ''a.b'' 900 True None =
        cookie_name @ ''='' @ ''a.b'' @ ''; Path=/; Max-Age='' @ show_nat 900 @ attributes \<and>
      clear_cookie_value True None = cookie_name @ ''=; Path=/; Max-Age=0'' @ attributes)"
  by (rule clear_cookie_matches) (simp add: cookie_safe_def graphic_def code_def)

end
