(* ===== verification/Auth.thy ===== *)
theory Auth
  imports Users Session
begin

text \<open>
  \<open>src/src/error.rs\<close> (the errors and their HTTP shape), \<open>src/src/auth.rs\<close> (the
  credential rules and the token service) and \<open>src/src/extractors.rs\<close> (the identity of a
  request). What third-party crates compute is a parameter, the record \<open>crypto\<close>: Argon2,
  SHA-256, base64 and the JWT codec; random bytes are arguments.
\<close>

section \<open>Errors\<close>

datatype app_error =
    NotFound string
  | BadRequest string
  | RateLimited string nat
  | PayloadTooLarge string
  | RequestTimeout string
  | MethodNotAllowed string
  | Unauthorized string
  | Forbidden string
  | Conflict string
  | InternalError string
  | BadGateway string

definition not_found :: "string \<Rightarrow> string \<Rightarrow> app_error" where
  "not_found meth path = NotFound (''No route matches '' @ meth @ '' '' @ path)"

definition rate_limited :: "nat \<Rightarrow> app_error" where
  "rate_limited s = RateLimited (''Rate limit exceeded; retry after '' @ show_nat s @ '' second(s)'') s"

definition payload_too_large :: "nat \<Rightarrow> nat \<Rightarrow> app_error" where
  "payload_too_large body_size lim =
     PayloadTooLarge (''Request body of '' @ show_nat body_size @ '' bytes exceeds the '' @ show_nat lim @ '' byte limit'')"

definition status_code :: "app_error \<Rightarrow> nat" where
  "status_code e =
     (case e of
        NotFound _ \<Rightarrow> 404
      | BadRequest _ \<Rightarrow> 400
      | RateLimited _ _ \<Rightarrow> 429
      | PayloadTooLarge _ \<Rightarrow> 413
      | RequestTimeout _ \<Rightarrow> 408
      | MethodNotAllowed _ \<Rightarrow> 405
      | Unauthorized _ \<Rightarrow> 401
      | Forbidden _ \<Rightarrow> 403
      | Conflict _ \<Rightarrow> 409
      | InternalError _ \<Rightarrow> 500
      | BadGateway _ \<Rightarrow> 502)"

definition error_message :: "app_error \<Rightarrow> string" where
  "error_message e =
     (case e of
        NotFound m \<Rightarrow> m
      | BadRequest m \<Rightarrow> m
      | RateLimited m _ \<Rightarrow> m
      | PayloadTooLarge m \<Rightarrow> m
      | RequestTimeout m \<Rightarrow> m
      | MethodNotAllowed m \<Rightarrow> m
      | Unauthorized m \<Rightarrow> m
      | Forbidden m \<Rightarrow> m
      | Conflict m \<Rightarrow> m
      | InternalError m \<Rightarrow> m
      | BadGateway m \<Rightarrow> m)"

definition error_code :: "app_error \<Rightarrow> string" where
  "error_code e =
     (case e of
        NotFound _ \<Rightarrow> ''NOT_FOUND''
      | BadRequest _ \<Rightarrow> ''BAD_REQUEST''
      | RateLimited _ _ \<Rightarrow> ''RATE_LIMITED''
      | PayloadTooLarge _ \<Rightarrow> ''PAYLOAD_TOO_LARGE''
      | RequestTimeout _ \<Rightarrow> ''REQUEST_TIMEOUT''
      | MethodNotAllowed _ \<Rightarrow> ''METHOD_NOT_ALLOWED''
      | Unauthorized _ \<Rightarrow> ''UNAUTHORIZED''
      | Forbidden _ \<Rightarrow> ''FORBIDDEN''
      | Conflict _ \<Rightarrow> ''CONFLICT''
      | InternalError _ \<Rightarrow> ''INTERNAL_ERROR''
      | BadGateway _ \<Rightarrow> ''BAD_GATEWAY'')"

definition app_error_of :: "repository_error \<Rightarrow> app_error" where
  "app_error_of e =
     (case e of
        Duplicate \<Rightarrow> Conflict ''resource already exists''
      | Internal _ \<Rightarrow> InternalError ''storage failure'')"

text \<open>\<open>map_err(AppError::from)?\<close>\<close>

definition try_repo :: "'a repo \<Rightarrow> (app_error, 'a) result" where
  "try_repo r = (case r of Inl e \<Rightarrow> Inl (app_error_of e) | Inr x \<Rightarrow> Inr x)"

lemma try_repo_simps [simp]: "try_repo (Inr x) = Inr x" "try_repo (Inl e) = Inl (app_error_of e)"
  by (simp_all add: try_repo_def)

section \<open>Credentials\<close>

definition min_jwt_secret_len :: nat where
  "min_jwt_secret_len = 32"

definition shipped_dev_jwt_secret :: string where
  "shipped_dev_jwt_secret = ''dev-only-secret-replace-via-WALLERMAX_AUTH__JWT_SECRET''"

definition max_password_len :: nat where
  "max_password_len = 128"

definition min_username_len :: nat where
  "min_username_len = 3"

definition max_username_len :: nat where
  "max_username_len = 32"

definition token_leeway_secs :: nat where
  "token_leeway_secs = 30"

definition refresh_token_bytes :: nat where
  "refresh_token_bytes = 32"

definition max_refresh_token_len :: nat where
  "max_refresh_token_len = 512"

text \<open>The characters of a valid name are ASCII, so its bytes are its characters.\<close>

definition username_char :: "char \<Rightarrow> bool" where
  "username_char c \<longleftrightarrow> is_alnum c \<or> c = CHR ''_'' \<or> c = CHR ''-''"

definition validate_username :: "string \<Rightarrow> (string, unit) result" where
  "validate_username username =
     (if \<not> (min_username_len \<le> length username \<and> length username \<le> max_username_len)
      then Inl (''username must be between '' @ show_nat min_username_len @ '' and '' @
                show_nat max_username_len @ '' characters'')
      else if \<not> list_all username_char username
      then Inl ''username may only contain letters, digits, `_` and `-`''
      else Inr ())"

definition validate_password :: "string \<Rightarrow> nat \<Rightarrow> (string, unit) result" where
  "validate_password password min_len =
     (if length password > max_password_len
      then Inl (''password must be at most '' @ show_nat max_password_len @ '' characters'')
      else if length password < min_len
      then Inl (''password must be at least '' @ show_nat min_len @ '' characters'')
      else Inr ())"

section \<open>Tokens\<close>

record claims =
  cl_sub :: string
  cl_username :: string
  cl_role :: string
  cl_iat :: nat
  cl_exp :: nat
  cl_iss :: string

record validation =
  va_issuers :: "string list"
  va_leeway :: nat

record crypto =
  argon2_hash :: "string \<Rightarrow> string \<Rightarrow> string option"
  argon2_verify :: "string \<Rightarrow> string \<Rightarrow> bool option"
  sha256 :: "string \<Rightarrow> string"
  base64url :: "string \<Rightarrow> string"
  jwt_encode :: "string \<Rightarrow> claims \<Rightarrow> string option"
  jwt_decode :: "string \<Rightarrow> validation \<Rightarrow> nat \<Rightarrow> string \<Rightarrow> claims option"

text \<open>\<open>hash_password\<close>, its salt given; \<open>verify_password\<close>, false on a malformed hash.\<close>

definition hash_password :: "crypto \<Rightarrow> string \<Rightarrow> string \<Rightarrow> string option" where
  "hash_password cr salt password = argon2_hash cr salt password"

definition verify_password :: "crypto \<Rightarrow> string \<Rightarrow> string \<Rightarrow> bool" where
  "verify_password cr password stored_hash =
     (case argon2_verify cr password stored_hash of None \<Rightarrow> False | Some b \<Rightarrow> b)"

definition hex_lower :: string where
  "hex_lower = ''0123456789abcdef''"

definition hex :: "string \<Rightarrow> string" where
  "hex bytes = concat (map (\<lambda>c. [hex_lower ! (code c div 16), hex_lower ! (code c mod 16)]) bytes)"

definition generate_refresh_token :: "crypto \<Rightarrow> string \<Rightarrow> string" where
  "generate_refresh_token cr bytes = base64url cr bytes"

definition hash_refresh_token :: "crypto \<Rightarrow> string \<Rightarrow> string" where
  "hash_refresh_token cr token = hex (sha256 cr token)"

definition ephemeral_secret :: "string \<Rightarrow> string" where
  "ephemeral_secret bytes = hex bytes"

record jwt_service =
  jwt_secret :: string
  jwt_validation :: validation
  jwt_issuer :: string
  jwt_ttl_secs :: nat

definition new_jwt :: "string \<Rightarrow> string \<Rightarrow> nat \<Rightarrow> jwt_service" where
  "new_jwt secret issuer ttl =
     \<lparr>jwt_secret = secret, jwt_validation = \<lparr>va_issuers = [issuer], va_leeway = token_leeway_secs\<rparr>,
      jwt_issuer = issuer, jwt_ttl_secs = ttl\<rparr>"

definition new_guarded :: "string \<Rightarrow> string \<Rightarrow> string \<Rightarrow> nat \<Rightarrow> jwt_service" where
  "new_guarded bytes secret issuer ttl =
     (if secret = shipped_dev_jwt_secret then new_jwt (ephemeral_secret bytes) issuer ttl
      else new_jwt secret issuer ttl)"

text \<open>\<open>now + ttl\<close> on 64 bits, wrapping as a release build does.\<close>

definition token_claims :: "jwt_service \<Rightarrow> user \<Rightarrow> nat \<Rightarrow> claims" where
  "token_claims j u now =
     \<lparr>cl_sub = show_int (u_id u), cl_username = u_username u, cl_role = role_as_str (u_role u),
      cl_iat = now, cl_exp = (now + jwt_ttl_secs j) mod 2 ^ 64, cl_iss = jwt_issuer j\<rparr>"

definition issue_token_at :: "crypto \<Rightarrow> jwt_service \<Rightarrow> user \<Rightarrow> nat \<Rightarrow> string option" where
  "issue_token_at cr j u now = jwt_encode cr (jwt_secret j) (token_claims j u now)"

definition verify_token :: "crypto \<Rightarrow> jwt_service \<Rightarrow> nat \<Rightarrow> string \<Rightarrow> claims option" where
  "verify_token cr j now token = jwt_decode cr (jwt_secret j) (jwt_validation j) now token"

section \<open>The identity of a request\<close>

record auth_user =
  au_user_id :: int
  au_username :: string
  au_role :: user_role

definition from_claims :: "claims \<Rightarrow> (app_error, auth_user) result" where
  "from_claims c =
     (case parse_i64 (cl_sub c) of
        None \<Rightarrow> Inl (Unauthorized ''invalid token subject'')
      | Some i \<Rightarrow>
          (case role_parse (cl_role c) of
             None \<Rightarrow> Inl (Unauthorized ''invalid token role'')
           | Some role \<Rightarrow> Inr \<lparr>au_user_id = i, au_username = cl_username c, au_role = role\<rparr>))"

text \<open>The first \<open>Authorization\<close> header and the \<open>Cookie\<close> headers of the request.\<close>

definition bearer_token :: "header_value option \<Rightarrow> string option" where
  "bearer_token authorization =
     (case authorization of Some (Some v) \<Rightarrow> strip_prefix ''Bearer '' v | _ \<Rightarrow> None)"

definition request_token :: "header_value option \<Rightarrow> header_value list \<Rightarrow> string option" where
  "request_token authorization cookies =
     (case bearer_token authorization of Some t \<Rightarrow> Some t | None \<Rightarrow> session_token cookies)"

text \<open>\<open>AuthUser\<close> and \<open>AdminUser\<close>; no service where authentication is not enabled.\<close>

definition auth_user_of ::
  "crypto \<Rightarrow> jwt_service option \<Rightarrow> nat \<Rightarrow> header_value option \<Rightarrow> header_value list \<Rightarrow> (app_error, auth_user) result" where
  "auth_user_of cr service now authorization cookies =
     (case service of
        None \<Rightarrow> Inl (Unauthorized ''authentication is not enabled'')
      | Some j \<Rightarrow>
          (case request_token authorization cookies of
             None \<Rightarrow> Inl (Unauthorized ''missing `Authorization: Bearer <token>` header or session cookie'')
           | Some token \<Rightarrow>
               (case verify_token cr j now token of
                  None \<Rightarrow> Inl (Unauthorized ''invalid or expired token'')
                | Some c \<Rightarrow> from_claims c)))"

definition admin_user_of ::
  "crypto \<Rightarrow> jwt_service option \<Rightarrow> nat \<Rightarrow> header_value option \<Rightarrow> header_value list \<Rightarrow> (app_error, auth_user) result" where
  "admin_user_of cr service now authorization cookies =
     and_then (auth_user_of cr service now authorization cookies)
       (\<lambda>u. if au_role u \<noteq> Admin then Inl (Forbidden ''this endpoint requires the admin role'') else Inr u)"

section \<open>What is relied on\<close>

text \<open>
  What the JWT crate documents: decoding what was encoded under the same secret yields its claims
  while the validation accepts them, and whatever decodes is accepted by the validation: the
  issuer is one of the given ones and the expiry, plus the leeway, is not past.
\<close>

definition accepts :: "validation \<Rightarrow> nat \<Rightarrow> claims \<Rightarrow> bool" where
  "accepts v now c \<longleftrightarrow> cl_iss c \<in> set (va_issuers v) \<and> now \<le> cl_exp c + va_leeway v"

definition jwt_crate :: "crypto \<Rightarrow> bool" where
  "jwt_crate cr \<longleftrightarrow>
     (\<forall>secret c token v now. jwt_encode cr secret c = Some token \<longrightarrow>
        jwt_decode cr secret v now token = (if accepts v now c then Some c else None)) \<and>
     (\<forall>secret v now token c. jwt_decode cr secret v now token = Some c \<longrightarrow> accepts v now c)"

text \<open>A concrete codec with that behaviour, to show it can be had: the claims in plain fields.\<close>

definition field_ok :: "string \<Rightarrow> bool" where
  "field_ok s \<longleftrightarrow> CHR '';'' \<notin> set s"

definition plain_encode :: "string \<Rightarrow> claims \<Rightarrow> string option" where
  "plain_encode secret c =
     (if list_all field_ok [secret, cl_sub c, cl_username c, cl_role c, cl_iss c]
      then Some (join_with '';'' [secret, cl_sub c, cl_username c, cl_role c, cl_iss c, show_nat (cl_iat c), show_nat (cl_exp c)])
      else None)"

definition plain_decode :: "string \<Rightarrow> validation \<Rightarrow> nat \<Rightarrow> string \<Rightarrow> claims option" where
  "plain_decode secret v now token =
     (case split_on (CHR '';'') token of
        [s, sub, username, role, iss, iat, exp] \<Rightarrow>
          (let c = \<lparr>cl_sub = sub, cl_username = username, cl_role = role, cl_iat = digits_val iat,
                    cl_exp = digits_val exp, cl_iss = iss\<rparr>
           in if s = secret \<and> accepts v now c then Some c else None)
      | _ \<Rightarrow> None)"

definition plain_crypto :: crypto where
  "plain_crypto = \<lparr>argon2_hash = (\<lambda>salt p. Some (salt @ '':'' @ p)), argon2_verify = (\<lambda>p h. Some (ends_with ('':'' @ p) h)),
     sha256 = (\<lambda>s. s), base64url = (\<lambda>s. s), jwt_encode = plain_encode, jwt_decode = plain_decode\<rparr>"

lemma plain_jwt_crate: "jwt_crate plain_crypto"
  unfolding jwt_crate_def
proof (intro conjI allI impI)
  fix secret c token v now
  assume "jwt_encode plain_crypto secret c = Some token"
  then have ok: "list_all field_ok [secret, cl_sub c, cl_username c, cl_role c, cl_iss c]"
    and t: "token = join_with '';'' [secret, cl_sub c, cl_username c, cl_role c, cl_iss c, show_nat (cl_iat c), show_nat (cl_exp c)]"
    by (auto simp: plain_crypto_def plain_encode_def split: if_splits)
  have "\<not> is_digit (CHR '';'')" by (simp add: is_digit_def code_def)
  then have "CHR '';'' \<notin> set (show_nat n)" for n using digits_fresh show_nat_digits by blast
  then have "split_on (CHR '';'') token = [secret, cl_sub c, cl_username c, cl_role c, cl_iss c, show_nat (cl_iat c), show_nat (cl_exp c)]"
    unfolding t using ok by (intro split_on_join_with) (auto simp: field_ok_def)
  then show "jwt_decode plain_crypto secret v now token = (if accepts v now c then Some c else None)"
    by (cases c) (simp add: plain_crypto_def plain_decode_def Let_def)
next
  fix secret v now token c
  assume "jwt_decode plain_crypto secret v now token = Some c"
  then show "accepts v now c"
    by (auto simp: plain_crypto_def plain_decode_def Let_def split: list.splits if_splits)
qed

section \<open>Properties\<close>

text \<open>
  C4: An access token says who the user is, for as long as it should: presented as a Bearer
  token or, without one, as the session cookie, it yields the id, name and role of the user it was
  issued for until thirty seconds past its lifetime, and is refused afterwards.
\<close>

theorem access_token_identifies:
  assumes "jwt_crate cr" "j = new_guarded bytes secret issuer ttl" "issue_token_at cr j u issued_at = Some token"
    "- (2 ^ 63) \<le> u_id u" "u_id u < 2 ^ 63" "issued_at + ttl < 2 ^ 64"
    "authorization = Some (Some (''Bearer '' @ token)) \<or>
     bearer_token authorization = None \<and> session_token cookies = Some token"
  shows "auth_user_of cr (Some j) now authorization cookies =
    (if now \<le> issued_at + ttl + 30
     then Inr \<lparr>au_user_id = u_id u, au_username = u_username u, au_role = u_role u\<rparr>
     else Inl (Unauthorized ''invalid or expired token''))"
proof -
  have j: "jwt_validation j = \<lparr>va_issuers = [issuer], va_leeway = 30\<rparr>" "jwt_issuer j = issuer" "jwt_ttl_secs j = ttl"
    using assms(2) by (simp_all add: new_guarded_def new_jwt_def token_leeway_secs_def)
  have t: "request_token authorization cookies = Some token"
    using assms(7) by (auto simp: request_token_def bearer_token_def strip_prefix_def)
  have e: "jwt_encode cr (jwt_secret j) (token_claims j u issued_at) = Some token"
    using assms(3) by (simp add: issue_token_at_def)
  have "accepts (jwt_validation j) now (token_claims j u issued_at) \<longleftrightarrow> now \<le> issued_at + ttl + 30"
    using assms(6) j by (simp add: accepts_def token_claims_def)
  with assms(1) e have v: "verify_token cr j now token =
      (if now \<le> issued_at + ttl + 30 then Some (token_claims j u issued_at) else None)"
    by (simp add: verify_token_def jwt_crate_def)
  have "from_claims (token_claims j u issued_at) =
      Inr \<lparr>au_user_id = u_id u, au_username = u_username u, au_role = u_role u\<rparr>"
    using parse_i64_show_int [OF assms(4,5)] by (simp add: from_claims_def token_claims_def)
  then show ?thesis by (simp add: auth_user_of_def t v)
qed

definition sample_user :: user where
  "sample_user = \<lparr>u_id = 7, u_username = ''ann'', u_password_hash = [], u_role = Editor, u_created_at = 0, u_last_login_at = None\<rparr>"

lemma sample_user_token:
  "issue_token_at plain_crypto (new_guarded bytes ''k'' ''iss'' 60) sample_user 100 = Some ''k;7;ann;editor;iss;100;160''"
  by (simp add: issue_token_at_def new_guarded_def new_jwt_def shipped_dev_jwt_secret_def token_claims_def
      plain_crypto_def plain_encode_def sample_user_def field_ok_def role_as_str_def show_int_def show_nat.simps
      digit_char_def char_of_def bit_0)

lemma access_token_identifies_witness:
  "auth_user_of plain_crypto (Some (new_guarded [] ''k'' ''iss'' 60)) 150
      (Some (Some (''Bearer '' @ ''k;7;ann;editor;iss;100;160''))) [] =
    (if 150 \<le> 100 + 60 + (30::nat)
     then Inr \<lparr>au_user_id = u_id sample_user, au_username = u_username sample_user, au_role = u_role sample_user\<rparr>
     else Inl (Unauthorized ''invalid or expired token''))"
  by (rule access_token_identifies [OF plain_jwt_crate refl sample_user_token]) (simp_all add: sample_user_def)

lemma hex_chars: "c \<in> set (hex bytes) \<Longrightarrow> c \<in> set hex_lower"
proof -
  have "hex_lower ! n \<in> set hex_lower" if "n < 16" for n
    using that by (simp add: hex_lower_def nth_mem del: set_simps)
  then show "c \<in> set (hex bytes) \<Longrightarrow> c \<in> set hex_lower"
    using code_less by (auto simp: hex_def less_mult_imp_div_less)
qed

text \<open>
  The public development secret never signs: whatever the configuration says, the service
  built at startup signs with another key, and with the configured one whenever that is not the
  placeholder.
\<close>

theorem placeholder_never_signs:
  "jwt_secret (new_guarded bytes secret issuer ttl) \<noteq> shipped_dev_jwt_secret \<and>
   (secret = shipped_dev_jwt_secret \<or> jwt_secret (new_guarded bytes secret issuer ttl) = secret)"
proof -
  have "CHR ''-'' \<notin> set hex_lower" by (simp add: hex_lower_def)
  moreover have "CHR ''-'' \<in> set shipped_dev_jwt_secret" by (simp add: shipped_dev_jwt_secret_def)
  ultimately have "hex bytes \<noteq> shipped_dev_jwt_secret" using hex_chars by metis
  then show ?thesis by (simp add: new_guarded_def new_jwt_def ephemeral_secret_def)
qed

end
