(* ===== verification/Proxy.thy ===== *)
theory Proxy
  imports Rust_Text "HOL-Library.Word"
begin

unbundle bit_operations_syntax

text \<open>
  \<open>src/src/proxy.rs\<close>: IP networks and the resolution of the client address behind trusted
  proxies. Addresses are words of their width. The address parser is the standard library's
  \<open>IpAddr::from_str\<close> (decimal octets without leading zeros; hexadecimal groups, one
  \<open>::\<close>, an IPv4 tail).
\<close>

section \<open>Addresses and their text\<close>

datatype ip_addr = V4 "32 word" | V6 "128 word"

definition hex_val :: "char \<Rightarrow> nat option" where
  "hex_val c =
     (if is_digit c then Some (code c - 48)
      else if 97 \<le> code c \<and> code c \<le> 102 then Some (code c - 87)
      else if 65 \<le> code c \<and> code c \<le> 70 then Some (code c - 55)
      else None)"

definition to_digit :: "nat \<Rightarrow> char \<Rightarrow> nat option" where
  "to_digit radix c = (case hex_val c of None \<Rightarrow> None | Some d \<Rightarrow> if d < radix then Some d else None)"

definition read_number :: "nat \<Rightarrow> nat \<Rightarrow> nat \<Rightarrow> bool \<Rightarrow> string \<Rightarrow> (nat \<times> string) option" where
  "read_number radix max_digits bound allow_zero_prefix s =
     (let ds = takeWhile (\<lambda>c. to_digit radix c \<noteq> None) s;
          rest = dropWhile (\<lambda>c. to_digit radix c \<noteq> None) s;
          n = foldl (\<lambda>n c. radix * n + (case to_digit radix c of None \<Rightarrow> 0 | Some d \<Rightarrow> d)) 0 ds
      in if ds = [] \<or> max_digits < length ds \<or>
            (\<not> allow_zero_prefix \<and> hd ds = CHR ''0'' \<and> 1 < length ds) \<or> bound < n
         then None else Some (n, rest))"

definition read_sep :: "char \<Rightarrow> nat \<Rightarrow> (string \<Rightarrow> ('a \<times> string) option) \<Rightarrow> string \<Rightarrow> ('a \<times> string) option" where
  "read_sep sep i inner s =
     (if i = 0 then inner s
      else (case s of c # t \<Rightarrow> if c = sep then inner t else None | [] \<Rightarrow> None))"

fun read_octets :: "nat \<Rightarrow> nat \<Rightarrow> string \<Rightarrow> (nat list \<times> string) option" where
  "read_octets 0 i s = Some ([], s)"
| "read_octets (Suc k) i s =
     (case read_sep (CHR ''.'') i (read_number 10 3 255 False) s of
        None \<Rightarrow> None
      | Some (o1, r) \<Rightarrow>
          (case read_octets k (Suc i) r of None \<Rightarrow> None | Some (os, r') \<Rightarrow> Some (o1 # os, r')))"

lemma read_octets_numeral [text_simps]:
  "read_octets (numeral k) i s =
     (case read_sep (CHR ''.'') i (read_number 10 3 255 False) s of
        None \<Rightarrow> None
      | Some (o1, r) \<Rightarrow>
          (case read_octets (pred_numeral k) (Suc i) r of
             None \<Rightarrow> None | Some (os, r') \<Rightarrow> Some (o1 # os, r')))"
  by (simp add: numeral_eq_Suc)

definition be_val :: "nat \<Rightarrow> nat list \<Rightarrow> nat" where
  "be_val base ds = foldl (\<lambda>n d. base * n + d) 0 ds"

definition read_ipv4_addr :: "string \<Rightarrow> (nat \<times> string) option" where
  "read_ipv4_addr s = map_option (\<lambda>(os, r). (be_val 256 os, r)) (read_octets 4 0 s)"

function read_groups :: "nat \<Rightarrow> nat \<Rightarrow> string \<Rightarrow> nat list \<times> bool \<times> string" where
  "read_groups limit i s =
     (if limit \<le> i then ([], False, s)
      else
        (case (if i < limit - 1 then read_sep (CHR '':'') i read_ipv4_addr s else None) of
           Some (v4, r) \<Rightarrow> ([v4 div 65536, v4 mod 65536], True, r)
         | None \<Rightarrow>
             (case read_sep (CHR '':'') i (read_number 16 4 65535 True) s of
                None \<Rightarrow> ([], False, s)
              | Some (g, r) \<Rightarrow> (case read_groups limit (Suc i) r of (gs, b, r') \<Rightarrow> (g # gs, b, r')))))"
  by pat_completeness auto
termination
  by (relation "measure (\<lambda>(limit, i, s). limit - i)") auto

declare read_groups.simps [simp del]

definition read_ipv6_addr :: "string \<Rightarrow> (nat \<times> string) option" where
  "read_ipv6_addr s =
     (case read_groups 8 0 s of (head, head_v4, r) \<Rightarrow>
        if length head = 8 then Some (be_val 65536 head, r)
        else if head_v4 then None
        else (case strip_prefix ''::'' r of
                None \<Rightarrow> None
              | Some r1 \<Rightarrow>
                  (case read_groups (8 - (length head + 1)) 0 r1 of (tail, _, r2) \<Rightarrow>
                     Some (be_val 65536 (head @ replicate (8 - length head - length tail) 0 @ tail), r2))))"

definition parse_ip :: "string \<Rightarrow> ip_addr option" where
  "parse_ip s =
     (case read_ipv4_addr s of
        Some (n, r) \<Rightarrow> if r = [] then Some (V4 (of_nat n)) else None
      | None \<Rightarrow>
          (case read_ipv6_addr s of
             Some (n, r) \<Rightarrow> if r = [] then Some (V6 (of_nat n)) else None
           | None \<Rightarrow> None))"

section \<open>Networks\<close>

record cidr =
  network :: ip_addr
  cidr_prefix :: nat

definition max_prefix :: "ip_addr \<Rightarrow> nat" where
  "max_prefix a = (case a of V4 _ \<Rightarrow> 32 | V6 _ \<Rightarrow> 128)"

definition mask4 :: "nat \<Rightarrow> 32 word" where
  "mask4 p = (if p = 0 then 0 else push_bit (32 - p) (- 1))"

definition mask6 :: "nat \<Rightarrow> 128 word" where
  "mask6 p = (if p = 0 then 0 else push_bit (128 - p) (- 1))"

definition masked :: "cidr \<Rightarrow> ip_addr \<Rightarrow> ip_addr" where
  "masked c address =
     (case (network c, address) of
        (V4 _, V4 a) \<Rightarrow> V4 (a AND mask4 (cidr_prefix c))
      | (V6 _, V6 a) \<Rightarrow> V6 (a AND mask6 (cidr_prefix c))
      | _ \<Rightarrow> address)"

definition network_is_normalized :: "cidr \<Rightarrow> bool" where
  "network_is_normalized c \<longleftrightarrow> masked c (network c) = network c"

definition cidr_contains :: "cidr \<Rightarrow> ip_addr \<Rightarrow> bool" where
  "cidr_contains c address =
     (case (network c, address) of
        (V4 _, V6 _) \<Rightarrow> False
      | (V6 _, V4 _) \<Rightarrow> False
      | _ \<Rightarrow> masked c address = network c)"

definition parse_cidr :: "string \<Rightarrow> cidr option" where
  "parse_cidr value =
     (case (case split_once (CHR ''/'') value of
              Some (address, prefix) \<Rightarrow>
                (case parse_u8 prefix of
                   None \<Rightarrow> None
                 | Some p \<Rightarrow>
                     (case parse_ip address of
                        None \<Rightarrow> None
                      | Some a \<Rightarrow> if max_prefix a < p then None else Some (a, p)))
            | None \<Rightarrow>
                (case parse_ip value of None \<Rightarrow> None | Some a \<Rightarrow> Some (a, max_prefix a))) of
        None \<Rightarrow> None
      | Some (a, p) \<Rightarrow>
          (let c = \<lparr>network = a, cidr_prefix = p\<rparr> in
           if network_is_normalized c then Some c else None))"

definition parse_all :: "string list \<Rightarrow> cidr list" where
  "parse_all values = List.map_filter parse_cidr values"

section \<open>The client behind the proxies\<close>

definition is_trusted :: "cidr list \<Rightarrow> ip_addr \<Rightarrow> bool" where
  "is_trusted trusted ip \<longleftrightarrow> list_ex (\<lambda>c. cidr_contains c ip) trusted"

definition xff_parts :: "string \<Rightarrow> ip_addr list" where
  "xff_parts value = List.map_filter (\<lambda>part. parse_ip (trim part)) (split_on (CHR '','') value)"

definition xff_candidates :: "string list \<Rightarrow> ip_addr list" where
  "xff_candidates xff_values = concat (map xff_parts xff_values)"

definition resolve_client_ip :: "ip_addr \<Rightarrow> string list \<Rightarrow> cidr list \<Rightarrow> ip_addr" where
  "resolve_client_ip peer xff_values trusted =
     (if \<not> is_trusted trusted peer then peer
      else (case xff_candidates xff_values of
              [] \<Rightarrow> peer
            | first # rest \<Rightarrow>
                (case find (\<lambda>ip. \<not> is_trusted trusted ip) (rev (first # rest)) of
                   Some ip \<Rightarrow> ip
                 | None \<Rightarrow> first)))"

section \<open>Networks are ranges of addresses\<close>

text \<open>Two addresses have the same network part when they agree above the host bits.\<close>

definition same_network :: "nat \<Rightarrow> ip_addr \<Rightarrow> ip_addr \<Rightarrow> bool" where
  "same_network p a b =
     (case (a, b) of
        (V4 x, V4 y) \<Rightarrow> unat x div 2 ^ (32 - p) = unat y div 2 ^ (32 - p)
      | (V6 x, V6 y) \<Rightarrow> unat x div 2 ^ (128 - p) = unat y div 2 ^ (128 - p)
      | _ \<Rightarrow> False)"

lemma and_high_mask:
  fixes a b :: "'a::len word"
  assumes "n \<le> LENGTH('a)" "b AND push_bit n (- 1) = b"
  shows "a AND push_bit n (- 1) = b \<longleftrightarrow> unat a div 2 ^ n = unat b div 2 ^ n"
proof -
  have bits: "c AND push_bit n (- 1) = push_bit n (drop_bit n c)" for c :: "'a word"
    by (rule bit_word_eqI) (auto simp: bit_simps)
  have "unat c div 2 ^ n = unat (drop_bit n c)" for c :: "'a word"
    by (simp only: unat_drop_bit_eq drop_bit_eq_div [where 'a = nat])
  moreover have "push_bit n (drop_bit n a) = push_bit n (drop_bit n b) \<longleftrightarrow> drop_bit n a = drop_bit n b"
  proof
    assume eq: "push_bit n (drop_bit n a) = push_bit n (drop_bit n b)"
    show "drop_bit n a = drop_bit n b"
    proof (rule bit_word_eqI)
      fix k assume "k < LENGTH('a)"
      from eq have "bit (push_bit n (drop_bit n a)) (n + k) = bit (push_bit n (drop_bit n b)) (n + k)"
        by simp
      then show "bit (drop_bit n a) k = bit (drop_bit n b) k"
        by (auto simp: bit_simps dest: bit_imp_le_length)
    qed
  qed simp
  ultimately show ?thesis
    using assms(2) unfolding bits by (metis word_unat_eq_iff)
qed

lemma mask4_push: "p \<le> 32 \<Longrightarrow> mask4 p = push_bit (32 - p) (- 1)"
  by (rule bit_word_eqI) (auto simp: mask4_def bit_simps)

lemma mask6_push: "p \<le> 128 \<Longrightarrow> mask6 p = push_bit (128 - p) (- 1)"
  by (rule bit_word_eqI) (auto simp: mask6_def bit_simps)

definition cidr_ok :: "cidr \<Rightarrow> bool" where
  "cidr_ok c \<longleftrightarrow> cidr_prefix c \<le> max_prefix (network c) \<and> network_is_normalized c"

lemma parse_cidr_ok: "parse_cidr s = Some c \<Longrightarrow> cidr_ok c"
  by (auto simp: parse_cidr_def cidr_ok_def Let_def split: option.splits prod.splits if_splits)

lemma cidr_contains_same_network:
  assumes "cidr_ok c"
  shows "cidr_contains c a \<longleftrightarrow> same_network (cidr_prefix c) (network c) a"
proof (cases "network c")
  case (V4 x)
  with assms have p: "cidr_prefix c \<le> 32" and n: "x AND mask4 (cidr_prefix c) = x"
    by (simp_all add: cidr_ok_def max_prefix_def network_is_normalized_def masked_def)
  from and_high_mask [of "32 - cidr_prefix c" x] n
  have "y AND mask4 (cidr_prefix c) = x \<longleftrightarrow>
      unat y div 2 ^ (32 - cidr_prefix c) = unat x div 2 ^ (32 - cidr_prefix c)" for y :: "32 word"
    unfolding mask4_push [OF p] by simp
  then show ?thesis
    by (cases a) (simp_all add: V4 cidr_contains_def masked_def same_network_def eq_commute)
next
  case (V6 x)
  with assms have p: "cidr_prefix c \<le> 128" and n: "x AND mask6 (cidr_prefix c) = x"
    by (simp_all add: cidr_ok_def max_prefix_def network_is_normalized_def masked_def)
  from and_high_mask [of "128 - cidr_prefix c" x] n
  have "y AND mask6 (cidr_prefix c) = x \<longleftrightarrow>
      unat y div 2 ^ (128 - cidr_prefix c) = unat x div 2 ^ (128 - cidr_prefix c)" for y :: "128 word"
    unfolding mask6_push [OF p] by simp
  then show ?thesis
    by (cases a) (simp_all add: V6 cidr_contains_def masked_def same_network_def eq_commute)
qed

section \<open>The header cannot be spoofed past an untrusted hop\<close>

lemma map_filter_append: "List.map_filter f (xs @ ys) = List.map_filter f xs @ List.map_filter f ys"
  by (simp add: List.map_filter_def)

lemma split_on_append: "split_on c (s @ c # t) = split_on c s @ split_on c t"
proof (induction s)
  case (Cons x s)
  then show ?case
    using split_on_nonempty [of c s] by (auto split: list.splits)
qed simp

lemma xff_parts_append: "xff_parts (s @ CHR '','' # t) = xff_parts s @ xff_parts t"
  by (simp add: xff_parts_def split_on_append map_filter_append)

lemma xff_candidates_append: "xff_candidates (xs @ ys) = xff_candidates xs @ xff_candidates ys"
  by (simp add: xff_candidates_def)

lemma resolve_last_untrusted:
  assumes "is_trusted trusted peer" "xff_candidates vs = pre @ ip # post"
    "\<not> is_trusted trusted ip" "list_all (is_trusted trusted) post"
  shows "resolve_client_ip peer vs trusted = ip"
proof -
  have "find (\<lambda>ip. \<not> is_trusted trusted ip) (rev post) = None"
    using assms(4) by (auto simp: find_None_iff list_all_iff)
  then have f: "find (\<lambda>ip. \<not> is_trusted trusted ip) (rev (pre @ ip # post)) = Some ip"
    using assms(3) by (simp add: find_append)
  obtain first rest where fr: "pre @ ip # post = first # rest" by (cases pre) auto
  show ?thesis
    using assms(1,2) f unfolding fr by (simp add: resolve_client_ip_def)
qed

lemma resolve_all_trusted:
  assumes "is_trusted trusted peer" "xff_candidates vs = first # rest"
    "list_all (is_trusted trusted) (first # rest)"
  shows "resolve_client_ip peer vs trusted = first"
proof -
  have "find (\<lambda>ip. \<not> is_trusted trusted ip) (rev (first # rest)) = None"
    using assms(3) by (auto simp: find_None_iff list_all_iff)
  then show ?thesis using assms(1,2) by (simp add: resolve_client_ip_def)
qed

lemma xff_parts_single: "CHR '','' \<notin> set s \<Longrightarrow> parse_ip (trim s) = Some ip \<Longrightarrow> xff_parts s = [ip]"
  by (simp add: xff_parts_def split_on_fresh List.map_filter_simps)

section \<open>Properties\<close>

text \<open>A parsed network contains exactly the addresses of its own family that agree with its
  base address above the host bits: the mask-and-compare of \<open>contains\<close> is division by the block
  size, for IPv4 and IPv6, prefix 0 and full-length prefixes included.\<close>

theorem cidr_contains_iff:
  assumes "parse_cidr text = Some c"
  shows "cidr_contains c a \<longleftrightarrow> same_network (cidr_prefix c) (network c) a"
  using cidr_contains_same_network parse_cidr_ok assms by blast

lemma parse_cidr_example: "parse_cidr ''10.0.0.0/8'' = Some \<lparr>network = V4 0x0A000000, cidr_prefix = 8\<rparr>"
  by (simp add: parse_cidr_def split_once_def parse_u8_def parse_unsigned_def is_digit_def
      digits_val_def digit_val_def code_def parse_ip_def read_ipv4_addr_def read_sep_def
      read_number_def to_digit_def hex_val_def be_val_def max_prefix_def network_is_normalized_def
      masked_def mask4_def mask_eq_exp_minus_1 text_simps)

theorem cidr_contains_iff_witness:
  "cidr_contains \<lparr>network = V4 0x0A000000, cidr_prefix = 8\<rparr> (V4 0x0AFF0001) \<and>
   \<not> cidr_contains \<lparr>network = V4 0x0A000000, cidr_prefix = 8\<rparr> (V4 0x0B000001)"
  using cidr_contains_iff [OF parse_cidr_example] by (simp add: same_network_def)

text \<open>C6: A client cannot choose its own address. Behind a trusted proxy that appends the address
  it saw, the resolved client is that address whatever text the client itself sent in the header
  before it; and a client that is not behind a trusted proxy is its TCP peer whatever the header
  says.\<close>

theorem client_ip_not_spoofable:
  assumes "CHR '','' \<notin> set seen" "parse_ip (trim seen) = Some ip" "\<not> is_trusted trusted ip"
  shows "resolve_client_ip peer (earlier @ [evil @ CHR '','' # seen]) trusted =
    (if is_trusted trusted peer then ip else peer)"
proof (cases "is_trusted trusted peer")
  case True
  have "xff_candidates (earlier @ [evil @ CHR '','' # seen]) =
      (xff_candidates earlier @ xff_parts evil) @ ip # []"
    by (simp add: xff_candidates_def xff_parts_append xff_parts_single [OF assms(1,2)])
  from resolve_last_untrusted [OF True this assms(3)] True show ?thesis by simp
next
  case False
  then show ?thesis by (simp add: resolve_client_ip_def)
qed

lemma parse_ip_example: "parse_ip (trim '' 203.0.113.9'') = Some (V4 0xCB007109)"
proof -
  have "trim '' 203.0.113.9'' = ''203.0.113.9''"
    by (simp add: trim_def trim_start_def trim_end_def trim_start_by.simps ws_len_def ws_len_rev_def
        head_len_def white_space_def)
  then show ?thesis
    by (simp add: parse_ip_def read_ipv4_addr_def read_sep_def read_number_def to_digit_def
        hex_val_def be_val_def is_digit_def code_def text_simps)
qed

theorem client_ip_not_spoofable_witness:
  "resolve_client_ip (V4 0x0A000001) [''127.0.0.1, 10.9.9.9'' @ CHR '','' # '' 203.0.113.9'']
     [\<lparr>network = V4 0x0A000000, cidr_prefix = 8\<rparr>] = V4 0xCB007109"
proof -
  let ?t = "[\<lparr>network = V4 0x0A000000, cidr_prefix = 8\<rparr>]"
  have t: "\<not> is_trusted ?t (V4 0xCB007109)" "is_trusted ?t (V4 0x0A000001)"
    by (simp_all add: is_trusted_def cidr_contains_def masked_def mask4_def mask_eq_exp_minus_1)
  have c: "CHR '','' \<notin> set '' 203.0.113.9''" by simp
  show ?thesis
    using client_ip_not_spoofable [OF c parse_ip_example t(1), of "V4 0x0A000001" "[]" "''127.0.0.1, 10.9.9.9''"]
      t(2) by simp
qed

end
