(* ===== verification/Rate_Limit.thy ===== *)
theory Rate_Limit
  imports Complex_Main Proxy
begin

text \<open>
  \<open>src/src/rate_limit.rs\<close>: the token-bucket limiter and the failed-login throttle. An
  \<open>Instant\<close> or a \<open>Duration\<close> is a number of nanoseconds, so the saturating
  difference of two instants is subtraction on \<open>nat\<close>. The bucket's \<open>f64\<close> levels are read
  as real numbers: rounding is not modelled. The hash maps are association tables with distinct
  keys, because their number of entries decides when they are swept.
\<close>

section \<open>The token bucket\<close>

definition secs :: "nat \<Rightarrow> nat" where
  "secs n = n * 1000000000"

definition as_secs :: "nat \<Rightarrow> nat" where
  "as_secs d = d div 1000000000"

definition as_secs_f64 :: "nat \<Rightarrow> real" where
  "as_secs_f64 d = real d / 1000000000"

definition u64_max :: nat where
  "u64_max = 2 ^ 64 - 1"

definition max_tracked_ips :: nat where
  "max_tracked_ips = 10000"

datatype decision = Allowed real | Rejected nat

record bucket =
  tokens :: real
  last_refill :: nat

record rate_limiter =
  rl_capacity :: real
  refill_per_second :: real
  buckets :: "(ip_addr, bucket) table"

definition new_limiter :: "nat \<Rightarrow> real \<Rightarrow> rate_limiter" where
  "new_limiter capacity refill = \<lparr>rl_capacity = real capacity, refill_per_second = refill, buckets = []\<rparr>"

text \<open>\<open>elapsed * refill\<close> on top of the current level, at most the capacity.\<close>

definition refilled :: "bucket \<Rightarrow> nat \<Rightarrow> real \<Rightarrow> real \<Rightarrow> real" where
  "refilled b now capacity refill = min (tokens b + as_secs_f64 (now - last_refill b) * refill) capacity"

text \<open>
  \<open>seconds_until_token.ceil().max(1.0) as u64\<close>: the cast saturates, and a zero refill rate
  divides to infinity.
\<close>

definition retry_secs :: "real \<Rightarrow> real \<Rightarrow> nat" where
  "retry_secs level refill =
     (if refill = 0 then u64_max
      else min u64_max (nat (max 1 \<lceil>(1 - level) / refill\<rceil>)))"

definition bucket_try_acquire :: "bucket \<Rightarrow> nat \<Rightarrow> real \<Rightarrow> real \<Rightarrow> decision \<times> bucket" where
  "bucket_try_acquire b now capacity refill =
     (let level = refilled b now capacity refill in
      if level \<ge> 1
      then (Allowed (level - 1), b\<lparr>tokens := level - 1, last_refill := now\<rparr>)
      else (Rejected (retry_secs level refill), b\<lparr>tokens := level, last_refill := now\<rparr>))"

definition bucket_stale :: "nat \<Rightarrow> real \<Rightarrow> real \<Rightarrow> bucket \<Rightarrow> bool" where
  "bucket_stale wall capacity refill b \<longleftrightarrow>
     \<not> (tokens b + as_secs_f64 (wall - last_refill b) * refill < capacity)"

text \<open>\<open>wall\<close> is the sweep's own reading of the clock.\<close>

definition sweep_stale :: "nat \<Rightarrow> real \<Rightarrow> real \<Rightarrow> (ip_addr, bucket) table \<Rightarrow> (ip_addr, bucket) table" where
  "sweep_stale wall capacity refill t = retain (\<lambda>b. \<not> bucket_stale wall capacity refill b) t"

definition try_acquire_at :: "rate_limiter \<Rightarrow> ip_addr \<Rightarrow> nat \<Rightarrow> nat \<Rightarrow> decision \<times> rate_limiter" where
  "try_acquire_at rl ip now wall =
     (let t = make_room max_tracked_ips (sweep_stale wall (rl_capacity rl) (refill_per_second rl)) ip (buckets rl);
          b = or_insert \<lparr>tokens = rl_capacity rl, last_refill = now\<rparr> (map_of t ip)
      in case bucket_try_acquire b now (rl_capacity rl) (refill_per_second rl) of
           (d, b') \<Rightarrow> (d, rl\<lparr>buckets := put ip b' t\<rparr>))"

definition tracked_ips :: "rate_limiter \<Rightarrow> nat" where
  "tracked_ips rl = length (buckets rl)"

section \<open>The login throttle\<close>

definition login_max_failures :: nat where
  "login_max_failures = 5"

definition login_lockout_base :: nat where
  "login_lockout_base = secs 30"

definition login_lockout_max :: nat where
  "login_lockout_max = secs (15 * 60)"

definition login_spray_failures :: nat where
  "login_spray_failures = 20"

definition login_spray_window :: nat where
  "login_spray_window = secs (5 * 60)"

definition login_spray_lockout :: nat where
  "login_spray_lockout = secs (5 * 60)"

definition login_idle_horizon :: nat where
  "login_idle_horizon = secs (15 * 60)"

definition max_tracked_login_keys :: nat where
  "max_tracked_login_keys = 10000"

record pair_entry =
  failures :: nat
  lockouts :: nat
  pair_locked_until :: "nat option"
  last_seen :: nat

record spray_entry =
  recent :: "nat list"
  spray_locked_until :: "nat option"

record login_throttle =
  pairs :: "(ip_addr \<times> string, pair_entry) table"
  sprays :: "(ip_addr, spray_entry) table"

definition new_throttle :: login_throttle where
  "new_throttle = \<lparr>pairs = [], sprays = []\<rparr>"

definition locked_at :: "nat option \<Rightarrow> nat \<Rightarrow> bool" where
  "locked_at lock now \<longleftrightarrow> (case lock of None \<Rightarrow> False | Some until \<Rightarrow> until > now)"

definition seconds_until :: "nat \<Rightarrow> nat \<Rightarrow> nat" where
  "seconds_until until now = max (as_secs (until - now)) 1"

text \<open>
  \<open>1_u64.checked_shl(n - 1, at most 6)\<close> never overflows 64 bits, so the \<open>unwrap_or\<close> is
  not reached.
\<close>

definition lockout_for :: "nat \<Rightarrow> nat" where
  "lockout_for consecutive =
     min (login_lockout_base * push_bit (min (consecutive - 1) 6) 1) login_lockout_max"

definition check_pair :: "login_throttle \<Rightarrow> ip_addr \<Rightarrow> string \<Rightarrow> nat \<Rightarrow> decision" where
  "check_pair th ip username now =
     (case map_of (pairs th) (ip, username) of
        Some entry \<Rightarrow>
          (case pair_locked_until entry of
             Some until \<Rightarrow>
               if until > now then Rejected (seconds_until until now)
               else Allowed (real (login_max_failures - failures entry))
           | None \<Rightarrow> Allowed (real (login_max_failures - failures entry)))
      | None \<Rightarrow> Allowed (real login_max_failures))"

definition check_at :: "login_throttle \<Rightarrow> ip_addr \<Rightarrow> string \<Rightarrow> nat \<Rightarrow> decision" where
  "check_at th ip username now =
     (case Option.bind (map_of (sprays th) ip) spray_locked_until of
        Some until \<Rightarrow>
          if until > now then Rejected (seconds_until until now)
          else check_pair th ip (lowercase username) now
      | None \<Rightarrow> check_pair th ip (lowercase username) now)"

definition pair_stale :: "nat \<Rightarrow> pair_entry \<Rightarrow> bool" where
  "pair_stale now e \<longleftrightarrow>
     \<not> (locked_at (pair_locked_until e) now \<or> now - last_seen e < login_idle_horizon)"

definition sweep_stale_pairs :: "nat \<Rightarrow> (ip_addr \<times> string, pair_entry) table \<Rightarrow> (ip_addr \<times> string, pair_entry) table" where
  "sweep_stale_pairs now t = retain (\<lambda>e. \<not> pair_stale now e) t"

definition spray_stale :: "nat \<Rightarrow> spray_entry \<Rightarrow> bool" where
  "spray_stale now e \<longleftrightarrow>
     \<not> (locked_at (spray_locked_until e) now \<or>
        (recent e \<noteq> [] \<and> now - last (recent e) < login_spray_window))"

definition sweep_stale_sprays :: "nat \<Rightarrow> (ip_addr, spray_entry) table \<Rightarrow> (ip_addr, spray_entry) table" where
  "sweep_stale_sprays now t = retain (\<lambda>e. \<not> spray_stale now e) t"

text \<open>
  The pair half of \<open>record_failure_at\<close>. The flag says whether the function goes on to the
  spray counter: a failure that arrives while the pair is locked returns early.
\<close>

definition fail_pair :: "pair_entry \<Rightarrow> nat \<Rightarrow> bool \<times> pair_entry" where
  "fail_pair entry now =
     (let e = entry\<lparr>last_seen := now\<rparr> in
      if locked_at (pair_locked_until e) now then (False, e)
      else if Suc (failures e) \<ge> login_max_failures
      then (True, e\<lparr>failures := 0, lockouts := Suc (lockouts e),
                    pair_locked_until := Some (now + lockout_for (Suc (lockouts e)))\<rparr>)
      else (True, e\<lparr>failures := Suc (failures e)\<rparr>))"

text \<open>\<open>push_back\<close>, then the loop that pops the stamps that left the window.\<close>

definition slide :: "nat list \<Rightarrow> nat \<Rightarrow> nat list" where
  "slide stamps now = dropWhile (\<lambda>stamp. now - stamp > login_spray_window) (stamps @ [now])"

definition fail_spray :: "spray_entry \<Rightarrow> nat \<Rightarrow> spray_entry" where
  "fail_spray e now =
     (if locked_at (spray_locked_until e) now then e
      else (let stamps = slide (recent e) now in
            if length stamps \<ge> login_spray_failures
            then e\<lparr>recent := [], spray_locked_until := Some (now + login_spray_lockout)\<rparr>
            else e\<lparr>recent := stamps\<rparr>))"

definition fresh_pair :: "nat \<Rightarrow> pair_entry" where
  "fresh_pair now = \<lparr>failures = 0, lockouts = 0, pair_locked_until = None, last_seen = now\<rparr>"

definition fresh_spray :: spray_entry where
  "fresh_spray = \<lparr>recent = [], spray_locked_until = None\<rparr>"

definition record_failure_at :: "login_throttle \<Rightarrow> ip_addr \<Rightarrow> string \<Rightarrow> nat \<Rightarrow> login_throttle" where
  "record_failure_at th ip username0 now =
     (let username = lowercase username0;
          pt = make_room max_tracked_login_keys (sweep_stale_pairs now) (ip, username) (pairs th)
      in case fail_pair (or_insert (fresh_pair now) (map_of pt (ip, username))) now of
           (go_on, e) \<Rightarrow>
             (let th1 = th\<lparr>pairs := put (ip, username) e pt\<rparr> in
              if \<not> go_on then th1
              else (let st = make_room max_tracked_login_keys (sweep_stale_sprays now) ip (sprays th1)
                    in th1\<lparr>sprays := put ip (fail_spray (or_insert fresh_spray (map_of st ip)) now) st\<rparr>)))"

definition record_success :: "login_throttle \<Rightarrow> ip_addr \<Rightarrow> string \<Rightarrow> login_throttle" where
  "record_success th ip username = th\<lparr>pairs := drop_key (ip, lowercase username) (pairs th)\<rparr>"

definition tracked_keys :: "login_throttle \<Rightarrow> nat" where
  "tracked_keys th = length (pairs th) + length (sprays th)"

section \<open>The three tracked tables\<close>

interpretation ips: tracked_table max_tracked_ips "sweep_stale wall capacity refill" "bucket_stale wall capacity refill"
  for wall capacity refill
  by unfold_locales (simp_all add: max_tracked_ips_def sweep_stale_def)

interpretation login_pairs: tracked_table max_tracked_login_keys "sweep_stale_pairs now" "pair_stale now" for now
  by unfold_locales (simp_all add: max_tracked_login_keys_def sweep_stale_pairs_def)

interpretation login_sprays: tracked_table max_tracked_login_keys "sweep_stale_sprays now" "spray_stale now" for now
  by unfold_locales (simp_all add: max_tracked_login_keys_def sweep_stale_sprays_def)

section \<open>Lemmas on the bucket\<close>

lemma as_secs_f64_nonneg [simp]: "0 \<le> as_secs_f64 d"
  by (simp add: as_secs_f64_def)

definition bucket_ok :: "real \<Rightarrow> bucket \<Rightarrow> bool" where
  "bucket_ok capacity b \<longleftrightarrow> 0 \<le> tokens b \<and> tokens b \<le> capacity"

lemma refilled_bounds:
  assumes "0 \<le> tokens b" "0 \<le> refill" "0 \<le> capacity"
  shows "0 \<le> refilled b now capacity refill" "refilled b now capacity refill \<le> capacity"
  using assms by (simp_all add: refilled_def)

lemma bucket_try_acquire_ok:
  assumes "0 \<le> tokens b" "0 \<le> refill" "0 \<le> capacity"
  shows "bucket_ok capacity (snd (bucket_try_acquire b now capacity refill))"
  using refilled_bounds [OF assms, of now]
  by (auto simp: bucket_try_acquire_def bucket_ok_def Let_def)

fun bucket_run :: "bucket \<Rightarrow> nat list \<Rightarrow> real \<Rightarrow> real \<Rightarrow> decision list \<times> bucket" where
  "bucket_run b [] capacity refill = ([], b)"
| "bucket_run b (now # ts) capacity refill =
     (case bucket_try_acquire b now capacity refill of
        (d, b') \<Rightarrow> (case bucket_run b' ts capacity refill of (ds, b'') \<Rightarrow> (d # ds, b'')))"

definition is_allowed :: "decision \<Rightarrow> bool" where
  "is_allowed d = (case d of Allowed _ \<Rightarrow> True | Rejected _ \<Rightarrow> False)"

definition allowed_count :: "decision list \<Rightarrow> nat" where
  "allowed_count ds = length (filter is_allowed ds)"

lemma bucket_step_budget:
  assumes "last_refill b \<le> now" "bucket_try_acquire b now capacity refill = (d, b')"
  shows "tokens b' + (if is_allowed d then 1 else 0)
       \<le> tokens b + as_secs_f64 (now - last_refill b) * refill"
    and "last_refill b' = now"
  using assms by (auto simp: bucket_try_acquire_def Let_def refilled_def is_allowed_def split: if_splits)

lemma as_secs_f64_add: "a \<le> b \<Longrightarrow> b \<le> c \<Longrightarrow> as_secs_f64 (b - a) + as_secs_f64 (c - b) = as_secs_f64 (c - a)"
  by (simp add: as_secs_f64_def of_nat_diff add_divide_distrib [symmetric])

text \<open>Tokens spent plus tokens left never exceed the tokens there were plus those that accrued.\<close>

lemma bucket_run_budget:
  assumes "sorted (last_refill b # ts)" "bucket_run b ts capacity refill = (ds, b')"
  shows "tokens b' + real (allowed_count ds)
       \<le> tokens b + as_secs_f64 (last (last_refill b # ts) - last_refill b) * refill"
  using assms
proof (induction ts arbitrary: b ds)
  case Nil
  then show ?case by (simp add: allowed_count_def as_secs_f64_def)
next
  case (Cons now ts)
  obtain d b1 where s: "bucket_try_acquire b now capacity refill = (d, b1)" by force
  obtain ds' where r: "bucket_run b1 ts capacity refill = (ds', b')" "ds = d # ds'"
    using Cons.prems(2) s by (auto split: prod.splits)
  have le: "last_refill b \<le> now" using Cons.prems(1) by simp
  note step = bucket_step_budget [OF le s]
  have "tokens b' + real (allowed_count ds')
      \<le> tokens b1 + as_secs_f64 (last (now # ts) - now) * refill"
    using Cons.IH [of b1 ds'] Cons.prems(1) r step(2) by simp
  moreover have "now \<le> last (now # ts)"
    using Cons.prems(1) by (cases ts rule: rev_cases) (auto simp: sorted_append)
  then have "as_secs_f64 (now - last_refill b) + as_secs_f64 (last (now # ts) - now)
      = as_secs_f64 (last (now # ts) - last_refill b)"
    using le by (rule as_secs_f64_add [rotated])
  then have "as_secs_f64 (now - last_refill b) * refill + as_secs_f64 (last (now # ts) - now) * refill
      = as_secs_f64 (last (now # ts) - last_refill b) * refill"
    by (metis distrib_right)
  ultimately show ?case
    using step(1) r(2) by (auto simp: allowed_count_def split: if_splits)
qed

text \<open>A swept bucket would have been full: a fresh one answers the same.\<close>

lemma stale_bucket_refilled:
  assumes "bucket_stale wall capacity refill b" "wall \<le> now" "0 \<le> refill"
  shows "refilled b now capacity refill = capacity"
proof -
  have "as_secs_f64 (wall - last_refill b) * refill \<le> as_secs_f64 (now - last_refill b) * refill"
    using assms(2,3) by (intro mult_right_mono) (auto simp: as_secs_f64_def divide_right_mono)
  with assms(1) show ?thesis by (simp add: bucket_stale_def refilled_def)
qed

lemma fresh_bucket_refilled:
  "refilled \<lparr>tokens = capacity, last_refill = now\<rparr> now capacity refill = capacity"
  by (simp add: refilled_def as_secs_f64_def)

lemma stale_bucket_like_fresh:
  assumes "bucket_stale wall capacity refill b" "wall \<le> now" "0 \<le> refill"
  shows "bucket_try_acquire b now capacity refill =
    bucket_try_acquire \<lparr>tokens = capacity, last_refill = now\<rparr> now capacity refill"
  using stale_bucket_refilled [OF assms] fresh_bucket_refilled [of capacity now refill]
  by (cases b) (simp add: bucket_try_acquire_def)

section \<open>Lemmas on the limiter\<close>

definition limiter_ok :: "rate_limiter \<Rightarrow> bool" where
  "limiter_ok rl \<longleftrightarrow>
     0 \<le> rl_capacity rl \<and> 0 \<le> refill_per_second rl \<and>
     table_inv max_tracked_ips (bucket_ok (rl_capacity rl)) (buckets rl)"

lemma try_acquire_at_ok:
  assumes "limiter_ok rl"
  shows "limiter_ok (snd (try_acquire_at rl ip now wall))"
proof -
  let ?c = "rl_capacity rl" and ?r = "refill_per_second rl"
  let ?t = "make_room max_tracked_ips (sweep_stale wall ?c ?r) ip (buckets rl)"
  let ?b = "or_insert \<lparr>tokens = ?c, last_refill = now\<rparr> (map_of ?t ip)"
  have inv: "table_inv max_tracked_ips (bucket_ok ?c) (buckets rl)" and pos: "0 \<le> ?c" "0 \<le> ?r"
    using assms by (simp_all add: limiter_ok_def)
  have "bucket_ok ?c ?b"
    by (rule ips.make_room_good [OF inv]) (simp add: bucket_ok_def pos)
  then have "bucket_ok ?c (snd (bucket_try_acquire ?b now ?c ?r))"
    using pos by (intro bucket_try_acquire_ok) (simp_all add: bucket_ok_def)
  from ips.table_inv_put [OF inv this, of ip wall ?c ?r] pos show ?thesis
    by (simp add: limiter_ok_def try_acquire_at_def Let_def split_beta)
qed

lemma limiter_ok_new: "0 \<le> refill \<Longrightarrow> limiter_ok (new_limiter capacity refill)"
  by (simp add: limiter_ok_def new_limiter_def)

definition limiter_bucket :: "rate_limiter \<Rightarrow> ip_addr \<Rightarrow> nat \<Rightarrow> bucket" where
  "limiter_bucket rl ip now =
     or_insert \<lparr>tokens = rl_capacity rl, last_refill = now\<rparr> (map_of (buckets rl) ip)"

text \<open>A run of requests, each with its clock reading and the sweep's own one.\<close>

fun limiter_run :: "rate_limiter \<Rightarrow> (ip_addr \<times> nat \<times> nat) list \<Rightarrow> (ip_addr \<times> decision) list \<times> rate_limiter" where
  "limiter_run rl [] = ([], rl)"
| "limiter_run rl ((ip, now, wall) # reqs) =
     (case try_acquire_at rl ip now wall of
        (d, rl') \<Rightarrow> (case limiter_run rl' reqs of (out, rl'') \<Rightarrow> ((ip, d) # out, rl'')))"

lemma limiter_run_ok: "limiter_ok rl \<Longrightarrow> limiter_ok (snd (limiter_run rl reqs))"
proof (induction rl reqs rule: limiter_run.induct)
  case (2 rl ip now wall reqs)
  then show ?case
    using try_acquire_at_ok [of rl ip now wall] by (auto split: prod.splits)
qed simp

definition times_of :: "ip_addr \<Rightarrow> (ip_addr \<times> nat \<times> nat) list \<Rightarrow> nat list" where
  "times_of ip reqs = map (\<lambda>r. fst (snd r)) (filter (\<lambda>r. fst r = ip) reqs)"

definition decisions_of :: "ip_addr \<Rightarrow> (ip_addr \<times> decision) list \<Rightarrow> decision list" where
  "decisions_of ip out = map snd (filter (\<lambda>r. fst r = ip) out)"

definition room_for :: "rate_limiter \<Rightarrow> (ip_addr \<times> nat \<times> nat) list \<Rightarrow> bool" where
  "room_for rl reqs \<longleftrightarrow> card (fst ` set (buckets rl) \<union> fst ` set reqs) \<le> max_tracked_ips"

lemma has_key_iff: "has_key k t \<longleftrightarrow> k \<in> fst ` set t"
  by (auto simp: has_key_def map_of_eq_None_iff)

lemma room_for_make_room:
  assumes "table_ok (buckets rl)" "room_for rl ((ip, now, wall) # reqs)"
  shows "make_room max_tracked_ips sweep ip (buckets rl) = buckets rl"
proof (cases "has_key ip (buckets rl)")
  case False
  let ?K = "fst ` set (buckets rl)"
  have "card ?K = length (buckets rl)"
    using assms(1) by (simp add: table_ok_def distinct_card flip: set_map)
  moreover have "card (insert ip ?K) \<le> card (?K \<union> fst ` set ((ip, now, wall) # reqs))"
    by (intro card_mono) auto
  moreover have "card (insert ip ?K) = Suc (card ?K)"
    using False by (simp add: has_key_iff)
  ultimately show ?thesis
    using assms(2) by (simp add: make_room_def room_for_def)
qed (simp add: make_room_def)

lemma fst_put: "fst ` set (put k v t) = insert k (fst ` set t)"
  by (induction t) (auto simp: put_def)

lemma try_acquire_at_room:
  assumes "limiter_ok rl" "room_for rl ((ip, now, wall) # reqs)"
  shows "try_acquire_at rl ip now wall =
    (case bucket_try_acquire (limiter_bucket rl ip now) now (rl_capacity rl) (refill_per_second rl) of
       (d, b) \<Rightarrow> (d, rl\<lparr>buckets := put ip b (buckets rl)\<rparr>))"
proof -
  have "table_ok (buckets rl)" using assms(1) by (simp add: limiter_ok_def table_inv_def)
  from room_for_make_room [OF this assms(2)] show ?thesis
    by (simp add: try_acquire_at_def limiter_bucket_def or_insert_def Let_def split: prod.splits option.splits)
qed

text \<open>A fresh bucket is full: the moment it was created does not matter.\<close>

lemma limiter_bucket_fresh_time:
  assumes "0 \<le> refill_per_second rl"
  shows "bucket_try_acquire (limiter_bucket rl ip t) now (rl_capacity rl) (refill_per_second rl)
       = bucket_try_acquire (limiter_bucket rl ip now) now (rl_capacity rl) (refill_per_second rl)"
proof (cases "map_of (buckets rl) ip")
  case None
  have full: "refilled \<lparr>tokens = rl_capacity rl, last_refill = x\<rparr> now (rl_capacity rl) (refill_per_second rl)
      = rl_capacity rl" for x
    using assms by (simp add: refilled_def min_absorb2)
  show ?thesis
    by (simp add: None limiter_bucket_def or_insert_def bucket_try_acquire_def full Let_def)
qed (simp add: limiter_bucket_def or_insert_def)

lemma limiter_run_projects:
  assumes "limiter_ok rl" "room_for rl reqs"
  shows "decisions_of ip (fst (limiter_run rl reqs)) =
    fst (bucket_run (limiter_bucket rl ip t) (times_of ip reqs) (rl_capacity rl) (refill_per_second rl))"
  using assms
proof (induction rl reqs arbitrary: t rule: limiter_run.induct)
  case (1 rl)
  then show ?case by (simp add: decisions_of_def times_of_def)
next
  case (2 rl j now wall reqs)
  let ?c = "rl_capacity rl" and ?r = "refill_per_second rl"
  obtain d b where s: "bucket_try_acquire (limiter_bucket rl j now) now ?c ?r = (d, b)" by force
  let ?rl = "rl\<lparr>buckets := put j b (buckets rl)\<rparr>"
  have step: "try_acquire_at rl j now wall = (d, ?rl)"
    using try_acquire_at_room [OF 2(2,3)] s by simp
  have ok: "limiter_ok ?rl" using try_acquire_at_ok [OF 2(2), of j now wall] step by simp
  have room: "room_for ?rl reqs"
    using 2(3) by (simp add: room_for_def fst_put)
  obtain out rl2 where r: "limiter_run ?rl reqs = (out, rl2)" by force
  note IH = 2(1) [OF step [symmetric] ok room]
  show ?case
  proof (cases "j = ip")
    case True
    have "limiter_bucket ?rl ip t' = b" for t' using True by (simp add: limiter_bucket_def or_insert_def)
    moreover have "bucket_try_acquire (limiter_bucket rl ip t) now ?c ?r = (d, b)"
      using limiter_bucket_fresh_time [of rl ip t now] 2(2) s True by (simp add: limiter_ok_def)
    ultimately show ?thesis
      using IH [of t] True step r by (simp add: decisions_of_def times_of_def split: prod.splits)
  next
    case False
    then have "limiter_bucket ?rl ip t = limiter_bucket rl ip t" by (simp add: limiter_bucket_def)
    then show ?thesis
      using IH [of t] False step r by (simp add: decisions_of_def times_of_def)
  qed
qed

section \<open>Lemmas on the throttle\<close>

definition throttle_ok :: "login_throttle \<Rightarrow> bool" where
  "throttle_ok th \<longleftrightarrow>
     table_inv max_tracked_login_keys (\<lambda>e. failures e < login_max_failures) (pairs th) \<and>
     table_inv max_tracked_login_keys (\<lambda>e. length (recent e) < login_spray_failures) (sprays th)"

lemma throttle_ok_tables: "throttle_ok th \<Longrightarrow> table_ok (pairs th)" "throttle_ok th \<Longrightarrow> table_ok (sprays th)"
  by (simp_all add: throttle_ok_def table_inv_def)

lemma fail_pair_failures:
  "failures e < login_max_failures \<Longrightarrow> failures (snd (fail_pair e now)) < login_max_failures"
  by (auto simp: fail_pair_def Let_def login_max_failures_def)

lemma fail_spray_recent:
  "length (recent e) < login_spray_failures \<Longrightarrow> length (recent (fail_spray e now)) < login_spray_failures"
  by (auto simp: fail_spray_def Let_def login_spray_failures_def)

lemma record_failure_at_ok:
  assumes "throttle_ok th"
  shows "throttle_ok (record_failure_at th ip u now)"
proof -
  let ?k = "(ip, lowercase u)"
  let ?pt = "make_room max_tracked_login_keys (sweep_stale_pairs now) ?k (pairs th)"
  let ?st = "make_room max_tracked_login_keys (sweep_stale_sprays now) ip (sprays th)"
  let ?e = "snd (fail_pair (or_insert (fresh_pair now) (map_of ?pt ?k)) now)"
  let ?f = "fail_spray (or_insert fresh_spray (map_of ?st ip)) now"
  note inv = assms [unfolded throttle_ok_def, THEN conjunct1] assms [unfolded throttle_ok_def, THEN conjunct2]
  have "failures ?e < login_max_failures"
    by (rule fail_pair_failures, rule login_pairs.make_room_good [OF inv(1)])
       (simp add: fresh_pair_def login_max_failures_def)
  note p = login_pairs.table_inv_put [OF inv(1) this, of ?k now]
  have "length (recent ?f) < login_spray_failures"
    by (rule fail_spray_recent, rule login_sprays.make_room_good [OF inv(2)])
       (simp add: fresh_spray_def login_spray_failures_def)
  note q = login_sprays.table_inv_put [OF inv(2) this, of ip now]
  show ?thesis using p q inv
    by (simp add: throttle_ok_def record_failure_at_def Let_def split_beta)
qed

lemma record_success_ok: "throttle_ok th \<Longrightarrow> throttle_ok (record_success th ip u)"
  by (simp add: throttle_ok_def record_success_def table_inv_drop_key)

lemma throttle_ok_new: "throttle_ok new_throttle"
  by (simp add: throttle_ok_def new_throttle_def)

definition pair_of :: "login_throttle \<Rightarrow> ip_addr \<Rightarrow> string \<Rightarrow> pair_entry option" where
  "pair_of th ip u = map_of (pairs th) (ip, lowercase u)"

lemma pair_of_record_failure:
  assumes "throttle_ok th"
  shows "pair_of (record_failure_at th ip u now) ip u =
    Some (snd (fail_pair (or_insert (fresh_pair now) (pair_of th ip u)) now))"
  by (simp add: pair_of_def record_failure_at_def Let_def throttle_ok_tables [OF assms]
      login_pairs.make_room_same_key split: prod.splits)

lemma check_at_pair_locked:
  assumes "pair_of th ip u = Some e" "locked_at (pair_locked_until e) now"
  shows "\<not> is_allowed (check_at th ip u now)"
  using assms
  by (auto simp: check_at_def check_pair_def pair_of_def locked_at_def is_allowed_def split: option.splits)

lemma check_at_spray_locked:
  assumes "map_of (sprays th) ip = Some e" "locked_at (spray_locked_until e) now"
  shows "\<not> is_allowed (check_at th ip u now)"
  using assms
  by (auto simp: check_at_def locked_at_def is_allowed_def split: option.splits)

definition record_failures :: "login_throttle \<Rightarrow> ip_addr \<Rightarrow> (string \<times> nat) list \<Rightarrow> login_throttle" where
  "record_failures th ip fs = foldl (\<lambda>th (u, now). record_failure_at th ip u now) th fs"

lemma record_failures_simps [simp]:
  "record_failures th ip [] = th"
  "record_failures th ip ((u, now) # fs) = record_failures (record_failure_at th ip u now) ip fs"
  by (simp_all add: record_failures_def)

lemma record_failures_snoc:
  "record_failures th ip (fs @ [(u, now)]) = record_failure_at (record_failures th ip fs) ip u now"
  by (simp add: record_failures_def)

lemma record_failures_ok: "throttle_ok th \<Longrightarrow> throttle_ok (record_failures th ip fs)"
  by (induction fs arbitrary: th) (auto simp: record_failure_at_ok)

lemma lockout_for_first: "lockout_for (Suc 0) = secs 30"
  by (simp add: lockout_for_def login_lockout_base_def login_lockout_max_def secs_def)

lemma record_failure_at_case:
  "lowercase v = lowercase u \<Longrightarrow> record_failure_at th ip v now = record_failure_at th ip u now"
  by (simp add: record_failure_at_def)

lemma check_at_case: "lowercase v = lowercase u \<Longrightarrow> check_at th ip v now = check_at th ip u now"
  by (simp add: check_at_def split: option.split)

text \<open>Fewer than five failures in a row only count; the fifth locks.\<close>

lemma failures_count:
  assumes "throttle_ok th" "pair_of th ip u = None" "fs \<noteq> []" "length fs < login_max_failures"
    "\<forall>f \<in> set fs. lowercase (fst f) = lowercase u"
  shows "\<exists>e. pair_of (record_failures th ip fs) ip u = Some e \<and>
    failures e = length fs \<and> lockouts e = 0 \<and> pair_locked_until e = None"
  using assms(3-5)
proof (induction fs rule: rev_induct)
  case (snoc f fs)
  obtain v t where f: "f = (v, t)" by force
  let ?th = "record_failures th ip fs"
  have ok: "throttle_ok ?th" using assms(1) by (rule record_failures_ok)
  obtain e where e: "or_insert (fresh_pair t) (pair_of ?th ip u) = e"
      "failures e = length fs" "lockouts e = 0" "pair_locked_until e = None"
    using snoc assms(2) by (cases "fs = []") (auto simp: fresh_pair_def)
  have same: "record_failure_at ?th ip v t = record_failure_at ?th ip u t"
    using snoc.prems(3) f by (intro record_failure_at_case) simp
  have "Suc (length fs) < login_max_failures" using snoc.prems by simp
  then show ?case
    using f e
    by (simp add: record_failures_snoc same pair_of_record_failure [OF ok] fail_pair_def Let_def locked_at_def)
qed simp

lemma fifth_failure:
  assumes "throttle_ok th" "pair_of th ip u = None" "length fs = 4"
    "\<forall>f \<in> set fs. lowercase (fst f) = lowercase u" "lowercase v = lowercase u"
  shows "\<exists>e. pair_of (record_failures th ip (fs @ [(v, t)])) ip u = Some e \<and>
    pair_locked_until e = Some (t + secs 30)"
proof -
  let ?th = "record_failures th ip fs"
  have ok: "throttle_ok ?th" using assms(1) by (rule record_failures_ok)
  have "fs \<noteq> []" "length fs < login_max_failures"
    using assms(3) by (auto simp: login_max_failures_def)
  from failures_count [OF assms(1,2) this assms(4)] obtain e where
    e: "pair_of ?th ip u = Some e" "failures e = 4" "lockouts e = 0" "pair_locked_until e = None"
    using assms(3) by auto
  show ?thesis
    using e
    by (simp add: record_failures_snoc record_failure_at_case [OF assms(5)] pair_of_record_failure [OF ok]
        fail_pair_def Let_def locked_at_def login_max_failures_def lockout_for_first)
qed

section \<open>Spraying\<close>

lemma slide_window:
  assumes "\<forall>s \<in> set stamps. now \<le> s + login_spray_window"
  shows "slide stamps now = stamps @ [now]"
proof -
  have "\<not> now - s > login_spray_window" if "s \<in> set (stamps @ [now])" for s
    using that assms by auto
  then show ?thesis unfolding slide_def
    by (cases "stamps @ [now]") auto
qed

lemma fail_pair_goes_on: "\<not> locked_at (pair_locked_until e) now \<Longrightarrow> fst (fail_pair e now)"
  by (simp add: fail_pair_def Let_def)

lemma spray_record_failure:
  assumes "throttle_ok th" "pair_of th ip u = None"
  shows "map_of (sprays (record_failure_at th ip u now)) ip =
    Some (fail_spray (or_insert fresh_spray (map_of (sprays th) ip)) now)"
proof -
  have "fst (fail_pair (fresh_pair now) now)"
    by (rule fail_pair_goes_on) (simp add: fresh_pair_def locked_at_def)
  then obtain e where "fail_pair (fresh_pair now) now = (True, e)"
    by (metis (full_types) prod.exhaust_sel)
  with assms(2) show ?thesis
    by (simp add: record_failure_at_def Let_def throttle_ok_tables [OF assms(1)] pair_of_def
        login_pairs.make_room_same_key login_sprays.make_room_same_key)
qed

lemma pair_of_other:
  assumes "throttle_ok th" "lowercase v \<noteq> lowercase u" "pair_of th ip v = None"
  shows "pair_of (record_failure_at th ip u now) ip v = None"
proof -
  let ?pt = "make_room max_tracked_login_keys (sweep_stale_pairs now) (ip, lowercase u) (pairs th)"
  have "table_ok (pairs th)" using assms(1) by (rule throttle_ok_tables)
  then have "map_of ?pt (ip, lowercase v) = None"
    using login_pairs.make_room_lookup assms(3) by (metis not_Some_eq pair_of_def)
  with assms(2) show ?thesis
    by (auto simp: pair_of_def record_failure_at_def Let_def split: prod.splits)
qed

lemma sprayed_stamps:
  assumes "throttle_ok th" "map_of (sprays th) ip = None"
    "distinct (map (\<lambda>f. lowercase (fst f)) fs)"
    "\<forall>f \<in> set fs. pair_of th ip (fst f) = None"
    "sorted (map snd fs)" "\<forall>f \<in> set fs. \<forall>g \<in> set fs. snd f \<le> snd g + login_spray_window"
    "fs \<noteq> []" "length fs < login_spray_failures"
  shows "map_of (sprays (record_failures th ip fs)) ip =
      Some \<lparr>recent = map snd fs, spray_locked_until = None\<rparr> \<and>
    (\<forall>u. lowercase u \<notin> (\<lambda>f. lowercase (fst f)) ` set fs \<longrightarrow> pair_of th ip u = None \<longrightarrow>
      pair_of (record_failures th ip fs) ip u = None)"
  using assms(3-8)
proof (induction fs rule: rev_induct)
  case (snoc f fs)
  obtain v t where f: "f = (v, t)" by force
  let ?th = "record_failures th ip fs"
  have ok: "throttle_ok ?th" using assms(1) by (rule record_failures_ok)
  have IH: "map_of (sprays ?th) ip = Some \<lparr>recent = map snd fs, spray_locked_until = None\<rparr> \<and>
      (\<forall>u. lowercase u \<notin> (\<lambda>f. lowercase (fst f)) ` set fs \<longrightarrow> pair_of th ip u = None \<longrightarrow>
        pair_of ?th ip u = None)" if "fs \<noteq> []"
    using snoc that by (auto simp: sorted_append)
  have keep: "pair_of ?th ip u = None"
    if "lowercase u \<notin> (\<lambda>f. lowercase (fst f)) ` set fs" "pair_of th ip u = None" for u
    using that IH by (cases "fs = []") auto
  have v: "pair_of ?th ip v = None"
    using snoc.prems f by (intro keep) auto
  have s: "or_insert fresh_spray (map_of (sprays ?th) ip) = \<lparr>recent = map snd fs, spray_locked_until = None\<rparr>"
    using IH assms(2) by (cases "fs = []") (simp_all add: or_insert_def fresh_spray_def)
  have "slide (map snd fs) t = map snd fs @ [t]"
    using snoc.prems f by (intro slide_window) auto
  then have "map_of (sprays (record_failures th ip (fs @ [f]))) ip =
      Some \<lparr>recent = map snd (fs @ [f]), spray_locked_until = None\<rparr>"
    using snoc.prems f
    by (simp add: record_failures_snoc spray_record_failure [OF ok v] s fail_spray_def locked_at_def)
  moreover have "pair_of (record_failures th ip (fs @ [f])) ip u = None"
    if "lowercase u \<notin> (\<lambda>f. lowercase (fst f)) ` set (fs @ [f])" "pair_of th ip u = None" for u
    using that f keep by (simp add: record_failures_snoc pair_of_other [OF ok])
  ultimately show ?case by blast
qed simp

lemma twentieth_spray:
  assumes "throttle_ok th" "map_of (sprays th) ip = None"
    "distinct (map (\<lambda>f. lowercase (fst f)) (fs @ [(v, t)]))"
    "\<forall>f \<in> set (fs @ [(v, t)]). pair_of th ip (fst f) = None"
    "sorted (map snd (fs @ [(v, t)]))"
    "\<forall>f \<in> set (fs @ [(v, t)]). \<forall>g \<in> set (fs @ [(v, t)]). snd f \<le> snd g + login_spray_window"
    "length fs = 19"
  shows "map_of (sprays (record_failures th ip (fs @ [(v, t)]))) ip =
    Some \<lparr>recent = [], spray_locked_until = Some (t + login_spray_lockout)\<rparr>"
proof -
  let ?th = "record_failures th ip fs"
  have ok: "throttle_ok ?th" using assms(1) by (rule record_failures_ok)
  have d: "distinct (map (\<lambda>f. lowercase (fst f)) fs)" using assms(3) by simp
  have n: "\<forall>f \<in> set fs. pair_of th ip (fst f) = None" using assms(4) by simp
  have so: "sorted (map snd fs)" using assms(5) by (simp add: sorted_append)
  have w: "\<forall>f \<in> set fs. \<forall>g \<in> set fs. snd f \<le> snd g + login_spray_window" using assms(6) by simp
  have ne: "fs \<noteq> []" "length fs < login_spray_failures" using assms(7) by (auto simp: login_spray_failures_def)
  note st = sprayed_stamps [OF assms(1,2) d n so w ne]
  have v: "pair_of ?th ip v = None" using st assms(3,4) by simp
  have "slide (map snd fs) t = map snd fs @ [t]" using assms(6) by (intro slide_window) auto
  then show ?thesis
    using st assms(7)
    by (simp add: record_failures_snoc spray_record_failure [OF ok v] fail_spray_def locked_at_def
        login_spray_failures_def)
qed

section \<open>Properties of the limiter\<close>

lemma bucket_run_ok:
  assumes "bucket_ok capacity b" "0 \<le> refill"
  shows "bucket_ok capacity (snd (bucket_run b ts capacity refill))"
  using assms
proof (induction ts arbitrary: b)
  case (Cons t ts)
  have "bucket_ok capacity (snd (bucket_try_acquire b t capacity refill))"
    using Cons.prems by (intro bucket_try_acquire_ok) (auto simp: bucket_ok_def)
  from Cons.IH [OF this Cons.prems(2)] show ?case by (simp add: split_beta)
qed simp

text \<open>
  Whatever requests arrive, in whatever order and with whatever clock readings, the limiter
  never tracks more than 10,000 addresses, never stores an address twice, and no bucket holds
  less than nothing or more than the burst capacity.
\<close>

theorem limiter_state_bounded:
  assumes "0 \<le> refill"
  shows "limiter_ok (snd (limiter_run (new_limiter capacity refill) reqs))"
  using assms by (intro limiter_run_ok limiter_ok_new)

lemma limiter_state_bounded_witness:
  "limiter_ok (snd (limiter_run (new_limiter 2 1) [(V4 1, 0, 0), (V4 1, 5, 5), (V4 2, 3, 3)]))"
  by (rule limiter_state_bounded) simp

text \<open>
  How often the table was full when a new address came, which may lose the bucket of every other
  address; and the time that went by as the readings of one address show it, which need not be in order.
\<close>

fun overflows :: "rate_limiter \<Rightarrow> (ip_addr \<times> nat \<times> nat) list \<Rightarrow> nat" where
  "overflows rl [] = 0"
| "overflows rl ((ip, now, wall) # reqs) =
     (if \<not> has_key ip (buckets rl) \<and> max_tracked_ips \<le> length (buckets rl) then 1 else 0) +
     overflows (snd (try_acquire_at rl ip now wall)) reqs"

fun elapsed :: "nat list \<Rightarrow> nat" where
  "elapsed (t # t' # ts) = (t' - t) + elapsed (t' # ts)"
| "elapsed ts = 0"

lemma elapsed_sorted: "sorted (t # ts) \<Longrightarrow> elapsed (t # ts) = last (t # ts) - t"
proof (induction ts arbitrary: t)
  case (Cons u ts)
  then have "t \<le> u" "u \<le> last (u # ts)" "elapsed (u # ts) = last (u # ts) - u"
    by (auto simp del: last.simps elapsed.simps) (metis last_in_set list.discI set_ConsD order_refl)
  then show ?case by simp
qed simp

lemma no_overflow:
  assumes "limiter_ok rl" "room_for rl reqs"
  shows "overflows rl reqs = 0"
  using assms
proof (induction rl reqs rule: overflows.induct)
  case (2 rl ip now wall reqs)
  let ?K = "fst ` set (buckets rl)"
  have ok: "table_ok (buckets rl)" using 2(2) by (simp add: limiter_ok_def table_inv_def)
  have "\<not> (\<not> has_key ip (buckets rl) \<and> max_tracked_ips \<le> length (buckets rl))"
  proof
    assume full: "\<not> has_key ip (buckets rl) \<and> max_tracked_ips \<le> length (buckets rl)"
    have "card (insert ip ?K) \<le> card (?K \<union> fst ` set ((ip, now, wall) # reqs))" by (intro card_mono) auto
    moreover have "card (insert ip ?K) = Suc (length (buckets rl))"
      using full ok by (simp add: has_key_iff table_ok_def distinct_card flip: set_map)
    ultimately show False using full 2(3) by (simp add: room_for_def)
  qed
  moreover obtain d b where s: "bucket_try_acquire (limiter_bucket rl ip now) now (rl_capacity rl) (refill_per_second rl) = (d, b)" by force
  have "snd (try_acquire_at rl ip now wall) = rl\<lparr>buckets := put ip b (buckets rl)\<rparr>"
    using try_acquire_at_room [OF 2(2,3)] s by simp
  moreover from this have "room_for (snd (try_acquire_at rl ip now wall)) reqs" using 2(3) by (simp add: room_for_def fst_put)
  ultimately show ?case using 2(1) [OF try_acquire_at_ok [OF 2(2)]] by simp
qed simp

text \<open>What an address may still spend at once.\<close>

definition credit :: "rate_limiter \<Rightarrow> ip_addr \<Rightarrow> real" where
  "credit rl ip = (case map_of (buckets rl) ip of Some b \<Rightarrow> tokens b | None \<Rightarrow> rl_capacity rl)"

lemma credit_bounds: "limiter_ok rl \<Longrightarrow> 0 \<le> credit rl ip \<and> credit rl ip \<le> rl_capacity rl"
  by (auto simp: credit_def limiter_ok_def table_inv_def bucket_ok_def split: option.splits)

lemma make_room_bucket:
  assumes "limiter_ok rl"
  shows "map_of (make_room max_tracked_ips (sweep_stale wall c r) j (buckets rl)) ip \<in> {None, map_of (buckets rl) ip}"
    "has_key j (buckets rl) \<or> length (buckets rl) < max_tracked_ips \<Longrightarrow>
      make_room max_tracked_ips (sweep_stale wall c r) j (buckets rl) = buckets rl"
proof -
  have ok: "table_ok (buckets rl)" using assms by (simp add: limiter_ok_def table_inv_def)
  have "map_of (sweep_stale wall c r (buckets rl)) ip \<in> {None, map_of (buckets rl) ip}"
    using map_of_retain [OF ok] by (auto simp: sweep_stale_def split: option.splits)
  then show "map_of (make_room max_tracked_ips (sweep_stale wall c r) j (buckets rl)) ip \<in> {None, map_of (buckets rl) ip}"
    by (auto simp: make_room_def Let_def)
qed (auto simp: make_room_def)

lemma credit_spent:
  assumes "limiter_ok rl" "\<forall>b. map_of (buckets rl) ip = Some b \<longrightarrow> last_refill b = prev"
    "limiter_run rl reqs = (out, rl')"
  shows "credit rl' ip + real (allowed_count (decisions_of ip out))
    \<le> credit rl ip + rl_capacity rl * real (overflows rl reqs) + as_secs_f64 (elapsed (prev # times_of ip reqs)) * refill_per_second rl"
  using assms
proof (induction rl reqs arbitrary: prev out rule: limiter_run.induct)
  case (1 rl)
  then show ?case by (simp add: decisions_of_def times_of_def allowed_count_def as_secs_f64_def)
next
  case (2 rl j now wall reqs)
  let ?c = "rl_capacity rl" and ?r = "refill_per_second rl"
  let ?full = "if \<not> has_key j (buckets rl) \<and> max_tracked_ips \<le> length (buckets rl) then 1 else 0 :: nat"
  let ?t = "make_room max_tracked_ips (sweep_stale wall ?c ?r) j (buckets rl)"
  let ?b = "or_insert \<lparr>tokens = ?c, last_refill = now\<rparr> (map_of ?t j)"
  obtain d b where s: "bucket_try_acquire ?b now ?c ?r = (d, b)" by force
  define rl1 where "rl1 = rl\<lparr>buckets := put j b ?t\<rparr>"
  have step: "try_acquire_at rl j now wall = (d, rl1)" using s by (simp add: try_acquire_at_def rl1_def)
  obtain out' where r: "limiter_run rl1 reqs = (out', rl')" "out = (j, d) # out'"
    using 2(4) step by (auto split: prod.splits)
  have ok1: "limiter_ok rl1" using try_acquire_at_ok [OF 2(2), of j now wall] step by simp
  have pos: "0 \<le> ?c" "0 \<le> ?r" using 2(2) by (simp_all add: limiter_ok_def)
  have same: "rl_capacity rl1 = ?c" "refill_per_second rl1 = ?r" by (simp_all add: rl1_def)
  have at: "last_refill b = now" using s by (auto simp: bucket_try_acquire_def Let_def split: if_splits)
  show ?case
  proof (cases "j = ip")
    case True
    have "tokens b + (if is_allowed d then 1 else 0) \<le> credit rl ip + as_secs_f64 (now - prev) * ?r"
    proof (cases "map_of (buckets rl) ip")
      case (Some b0)
      then have "?t = buckets rl" using make_room_bucket(2) [OF 2(2), of j] True by (simp add: has_key_def)
      then have "?b = b0" using Some True by (simp add: or_insert_def)
      then show ?thesis using s 2(3) Some
        by (auto simp: bucket_try_acquire_def Let_def refilled_def is_allowed_def credit_def split: if_splits)
    next
      case None
      then have "map_of ?t j = None" using make_room_bucket(1) [OF 2(2), of wall ?c ?r j ip] True by auto
      then have "tokens b + (if is_allowed d then 1 else 0) \<le> ?c"
        using s by (auto simp: bucket_try_acquire_def Let_def refilled_def is_allowed_def or_insert_def as_secs_f64_def split: if_splits)
      moreover have "0 \<le> as_secs_f64 (now - prev) * ?r" using pos by simp
      ultimately show ?thesis using None by (simp add: credit_def)
    qed
    moreover have "credit rl1 ip = tokens b" using True by (simp add: credit_def rl1_def)
    moreover have "\<forall>b. map_of (buckets rl1) ip = Some b \<longrightarrow> last_refill b = now" using True at by (simp add: rl1_def)
    from 2(1) [OF step [symmetric] ok1 this r(1)]
    have "credit rl' ip + real (allowed_count (decisions_of ip out'))
      \<le> credit rl1 ip + ?c * real (overflows rl1 reqs) + as_secs_f64 (elapsed (now # times_of ip reqs)) * ?r" unfolding same .
    moreover have "as_secs_f64 (elapsed (prev # times_of ip ((j, now, wall) # reqs))) * ?r =
        as_secs_f64 (now - prev) * ?r + as_secs_f64 (elapsed (now # times_of ip reqs)) * ?r"
      using True by (simp add: times_of_def as_secs_f64_def add_divide_distrib distrib_right)
    moreover have "real (allowed_count (decisions_of ip out)) = (if is_allowed d then 1 else 0) + real (allowed_count (decisions_of ip out'))"
      using True r(2) by (simp add: decisions_of_def allowed_count_def)
    moreover have "overflows rl ((j, now, wall) # reqs) = ?full + overflows rl1 reqs" using step by simp
    moreover have "0 \<le> ?c * real ?full" using pos by simp
    ultimately show ?thesis by (simp only: of_nat_add distrib_left)
  next
    case False
    have lost: "credit rl1 ip \<le> credit rl ip + ?c * real ?full"
    proof (cases "?full = 0")
      case True
      then have "?t = buckets rl" using make_room_bucket(2) [OF 2(2)] by (auto split: if_splits)
      with False True show ?thesis by (simp add: credit_def rl1_def split: option.split)
    next
      case lost: False
      have "credit rl1 ip \<le> ?c" using credit_bounds [OF ok1] same by simp
      with credit_bounds [OF 2(2), of ip] lost show ?thesis by (simp split: if_splits)
    qed
    have "\<forall>b. map_of (buckets rl1) ip = Some b \<longrightarrow> last_refill b = prev"
      using 2(3) False make_room_bucket(1) [OF 2(2), of wall ?c ?r j ip] by (auto simp: rl1_def)
    from 2(1) [OF step [symmetric] ok1 this r(1)]
    have "credit rl' ip + real (allowed_count (decisions_of ip out'))
      \<le> credit rl1 ip + ?c * real (overflows rl1 reqs) + as_secs_f64 (elapsed (prev # times_of ip reqs)) * ?r" unfolding same .
    moreover have "times_of ip ((j, now, wall) # reqs) = times_of ip reqs" "decisions_of ip out = decisions_of ip out'"
      using False r(2) by (simp_all add: times_of_def decisions_of_def)
    moreover have "overflows rl ((j, now, wall) # reqs) = ?full + overflows rl1 reqs" using step by simp
    ultimately show ?thesis using lost by (simp only: of_nat_add distrib_left)
  qed
qed



text \<open>
  The \<open>Retry-After\<close> of a refusal is honest: a client that waits that many seconds and
  sends nothing in between is let through, whatever other clients did to the sweep's clock.
\<close>

theorem retry_after_honest:
  assumes "limiter_ok rl" "1 \<le> rl_capacity rl" "0 < refill_per_second rl"
    "try_acquire_at rl ip now wall = (Rejected r, rl')" "r < u64_max" "now + secs r \<le> later"
  shows "is_allowed (fst (try_acquire_at rl' ip later wall'))"
proof -
  let ?c = "rl_capacity rl" and ?r = "refill_per_second rl"
  let ?t = "make_room max_tracked_ips (sweep_stale wall ?c ?r) ip (buckets rl)"
  let ?b = "or_insert \<lparr>tokens = ?c, last_refill = now\<rparr> (map_of ?t ip)"
  let ?l = "refilled ?b now ?c ?r"
  have l: "?l < 1" and r: "r = retry_secs ?l ?r"
    and rl': "rl' = rl\<lparr>buckets := put ip (?b\<lparr>tokens := ?l, last_refill := now\<rparr>) ?t\<rparr>"
    using assms(4) by (auto simp: try_acquire_at_def bucket_try_acquire_def Let_def split: if_splits)
  have "(1 - ?l) / ?r \<le> real r"
    using r assms(3,5) by (auto simp: retry_secs_def min_def ceiling_le_iff split: if_splits) linarith
  then have need: "1 - ?l \<le> real r * ?r" using assms(3) by (simp add: pos_divide_le_eq)
  have "real r \<le> as_secs_f64 (later - now)"
    using assms(6) by (simp add: as_secs_f64_def secs_def of_nat_diff le_divide_eq)
  then have "real r * ?r \<le> as_secs_f64 (later - now) * ?r" using assms(3) by simp
  with need assms(2) have "1 \<le> refilled (?b\<lparr>tokens := ?l, last_refill := now\<rparr>) later ?c ?r"
    by (simp add: refilled_def [of "?b\<lparr>tokens := ?l, last_refill := now\<rparr>"])
  moreover have "has_key ip (buckets rl')" using rl' by simp
  then have "make_room max_tracked_ips f ip (buckets rl') = buckets rl'" for f
    by (simp add: make_room_def)
  ultimately show ?thesis using rl'
    by (simp add: try_acquire_at_def bucket_try_acquire_def is_allowed_def Let_def)
qed

lemma retry_after_honest_witness:
  "is_allowed (fst (try_acquire_at (snd (try_acquire_at
     ((new_limiter 1 1)\<lparr>buckets := [(V4 1, \<lparr>tokens = 0, last_refill = 0\<rparr>)]\<rparr>) (V4 1) 0 0)) (V4 1) (secs 1) 0))"
  by (rule retry_after_honest
      [where rl = "(new_limiter 1 1)\<lparr>buckets := [(V4 1, \<lparr>tokens = 0, last_refill = 0\<rparr>)]\<rparr>" and now = 0 and r = 1 and wall = 0])
    (simp_all add: new_limiter_def limiter_ok_def table_inv_def table_ok_def max_tracked_ips_def bucket_ok_def
      try_acquire_at_def make_room_def has_key_def bucket_try_acquire_def refilled_def as_secs_f64_def Let_def
      retry_secs_def u64_max_def put_def)

section \<open>Properties of the throttle\<close>

text \<open>
  The escalation of the lockouts, as the module documents it: the n-th consecutive lockout
  lasts thirty seconds doubled n - 1 times, never more than fifteen minutes. The clamp of the
  shift at six never shortens one.
\<close>

theorem lockout_escalation: "lockout_for (Suc n) = min (secs (30 * 2 ^ n)) (secs (15 * 60))"
proof (cases "n \<le> 6")
  case False
  then have "(2::nat) ^ 6 \<le> 2 ^ n" by (intro power_increasing) auto
  with False show ?thesis
    by (simp add: lockout_for_def login_lockout_base_def login_lockout_max_def secs_def push_bit_eq_mult min_def)
qed (simp add: lockout_for_def login_lockout_base_def login_lockout_max_def secs_def push_bit_eq_mult min_def)

text \<open>
  Brute force against one account is stopped: five failures from one address for a username
  it had no record of, however the username's case varies, refuse every further attempt for it
  from that address until thirty seconds after the fifth.
\<close>

theorem five_failures_lock:
  assumes "throttle_ok th" "pair_of th ip u = None" "length fs = 4"
    "\<forall>f \<in> set fs. lowercase (fst f) = lowercase u" "lowercase v = lowercase u" "lowercase w = lowercase u"
    "now < t + secs 30"
  shows "\<not> is_allowed (check_at (record_failures th ip (fs @ [(v, t)])) ip w now)"
proof -
  obtain e where "pair_of (record_failures th ip (fs @ [(v, t)])) ip u = Some e"
      "pair_locked_until e = Some (t + secs 30)"
    using fifth_failure [OF assms(1-5)] by blast
  then have "\<not> is_allowed (check_at (record_failures th ip (fs @ [(v, t)])) ip u now)"
    using assms(7) by (intro check_at_pair_locked) (auto simp: locked_at_def)
  then show ?thesis by (simp only: check_at_case [OF assms(6)] not_False_eq_True)
qed

lemma five_failures_lock_witness:
  "\<not> is_allowed (check_at (record_failures new_throttle (V4 1)
     ([(''Ann'', 1), (''ann'', 2), (''ANN'', 3), (''ann'', 4)] @ [(''ann'', 5)])) (V4 1) ''aNN'' 6)"
  by (rule five_failures_lock [where u = "''ann''"])
    (simp_all add: throttle_ok_def pair_of_def new_throttle_def secs_def lowercase_def to_lower_def is_upper_def
      code_def char_of_def bit_0)

text \<open>
  Password spraying is stopped: twenty failures from one address inside five minutes, each
  against another username that had no record, refuse every further attempt from that address,
  for any username at all, until five minutes after the twentieth.
\<close>

theorem twenty_sprays_lock:
  assumes "throttle_ok th" "map_of (sprays th) ip = None" "length fs = 19"
    "distinct (map (\<lambda>f. lowercase (fst f)) (fs @ [(v, t)]))"
    "\<forall>f \<in> set (fs @ [(v, t)]). pair_of th ip (fst f) = None"
    "sorted (map snd (fs @ [(v, t)]))"
    "\<forall>f \<in> set (fs @ [(v, t)]). \<forall>g \<in> set (fs @ [(v, t)]). snd f \<le> snd g + secs 300"
    "now < t + secs 300"
  shows "\<not> is_allowed (check_at (record_failures th ip (fs @ [(v, t)])) ip u now)"
proof -
  have "login_spray_window = secs 300" "login_spray_lockout = secs 300"
    by (simp_all add: login_spray_window_def login_spray_lockout_def)
  then show ?thesis
    using twentieth_spray [OF assms(1,2,4,5,6) _ assms(3)] assms(7,8)
    by (intro check_at_spray_locked) (auto simp: locked_at_def)
qed

lemma twenty_sprays_lock_witness:
  "\<not> is_allowed (check_at (record_failures new_throttle (V4 1)
     (map (\<lambda>n. (replicate n CHR ''x'', n)) [0..<19] @ [(replicate 19 CHR ''x'', 19)])) (V4 1) ''root'' 20)"
  by (rule twenty_sprays_lock)
    (simp_all add: throttle_ok_def pair_of_def new_throttle_def secs_def lowercase_def to_lower_def
      is_upper_def code_def comp_def distinct_map inj_on_def image_iff sorted_append)

datatype throttle_event = Failed ip_addr string nat | Succeeded ip_addr string

definition throttle_step :: "login_throttle \<Rightarrow> throttle_event \<Rightarrow> login_throttle" where
  "throttle_step th e = (case e of Failed ip u now \<Rightarrow> record_failure_at th ip u now
                                 | Succeeded ip u \<Rightarrow> record_success th ip u)"

text \<open>
  The throttle's own state stays bounded whatever is reported to it: at most 10,000 pairs and
  10,000 addresses, no pair at five counted failures or more, no address with twenty stamps.
\<close>

theorem throttle_state_bounded: "throttle_ok (foldl throttle_step new_throttle events)"
proof -
  have "throttle_ok th \<Longrightarrow> throttle_ok (foldl throttle_step th events)" for th
    by (induction events arbitrary: th)
      (auto simp: throttle_step_def record_failure_at_ok record_success_ok split: throttle_event.split)
  then show ?thesis by (simp add: throttle_ok_new)
qed

end
