(* ===== verification/Auth_Routes.thy ===== *)
theory Auth_Routes
  imports Auth Rate_Limit
begin

text \<open>
  \<open>src/src/routes/auth.rs\<close>: registration, login, the refresh of a session, logout and the
  profile. A handler takes what the server was configured with, the facts of the request and the
  server's state, and answers with a response and the state it leaves. The clock is read once per
  request; the bytes drawn at random are facts of the request. The body arrives decoded (serde), a
  decoding failure included. The refresh is given as a machine whose steps issue one statement
  each, so that several of them can interleave.
\<close>

section \<open>Configuration, request and response\<close>

datatype secure_cookie_mode = Auto | Always | Never

definition resolve_secure :: "secure_cookie_mode \<Rightarrow> bool \<Rightarrow> bool" where
  "resolve_secure m tls_enabled = (case m of Auto \<Rightarrow> tls_enabled | Always \<Rightarrow> True | Never \<Rightarrow> False)"

record auth_context =
  ax_jwt :: jwt_service
  ax_registration_enabled :: bool
  ax_min_password_len :: nat
  ax_refresh_tokens_enabled :: bool
  ax_refresh_token_ttl_secs :: nat

record server =
  sv_crypto :: crypto
  sv_auth :: "auth_context option"
  sv_token_ttl_secs :: nat
  sv_secure_cookies :: secure_cookie_mode
  sv_tls_enabled :: bool
  sv_cookie_domain :: string
  sv_trusted_proxies :: "cidr list"
  sv_bindings :: "host_binding list"
  sv_url_parse :: "string \<Rightarrow> (string \<times> string option) option"

record request =
  rq_peer :: ip_addr
  rq_forwarded_for :: "string list"
  rq_authority :: "string option"
  rq_hosts :: "header_value list"
  rq_content_type :: "header_value option"
  rq_authorization :: "header_value option"
  rq_cookies :: "header_value list"
  rq_user_agent :: "header_value option"
  rq_id :: "string option"
  rq_now :: int
  rq_instant :: nat
  rq_entropy :: string
  rq_salt :: string

record state =
  st_db :: db
  st_throttle :: login_throttle
  st_rate_limited :: nat

record login_success =
  ls_access_token :: string
  ls_user :: public_user
  ls_refresh_token :: "string option"
  ls_refresh_expires_in :: "nat option"

datatype body =
    No_Body
  | Error_Body string string "string option"
  | User_Body public_user
  | Login_Body login_success nat

record response =
  rs_status :: nat
  rs_location :: "string option"
  rs_set_cookie :: "string option"
  rs_retry_after :: "nat option"
  rs_body :: body

definition error_response :: "app_error \<Rightarrow> string option \<Rightarrow> response" where
  "error_response e request_id =
     \<lparr>rs_status = status_code e, rs_location = None, rs_set_cookie = None,
      rs_retry_after = (case e of RateLimited _ s \<Rightarrow> Some s | _ \<Rightarrow> None),
      rs_body = Error_Body (error_code e) (error_message e) request_id\<rparr>"

text \<open>
  What \<open>HeaderValue\<close> takes: any byte but the controls, the tab excepted. A redirect whose
  header does not fit makes the response builder's \<open>expect\<close> panic: the connection ends
  without a response, which is the status 0 here.
\<close>

definition header_ok :: "string \<Rightarrow> bool" where
  "header_ok v \<longleftrightarrow> list_all (\<lambda>c. (32 \<le> code c \<and> code c \<noteq> 127) \<or> code c = 9) v"

definition aborted :: response where
  "aborted = \<lparr>rs_status = 0, rs_location = None, rs_set_cookie = None, rs_retry_after = None, rs_body = No_Body\<rparr>"

definition redirect_response :: "string \<Rightarrow> string option \<Rightarrow> response" where
  "redirect_response location cookie =
     (if header_ok location \<and> (case cookie of Some c \<Rightarrow> header_ok c | None \<Rightarrow> True)
      then \<lparr>rs_status = 303, rs_location = Some location, rs_set_cookie = cookie, rs_retry_after = None, rs_body = No_Body\<rparr>
      else aborted)"

definition secure_cookies :: "server \<Rightarrow> bool" where
  "secure_cookies sv = resolve_secure (sv_secure_cookies sv) (sv_tls_enabled sv)"

definition cookie_domain :: "server \<Rightarrow> string option" where
  "cookie_domain sv = (if sv_cookie_domain sv = [] then None else Some (sv_cookie_domain sv))"

definition cleared_session_response :: "server \<Rightarrow> response" where
  "cleared_session_response sv =
     \<lparr>rs_status = 204, rs_location = None,
      rs_set_cookie = Some (clear_cookie_value (secure_cookies sv) (cookie_domain sv)),
      rs_retry_after = None, rs_body = No_Body\<rparr>"

definition client_ip_of :: "server \<Rightarrow> request \<Rightarrow> ip_addr" where
  "client_ip_of sv rq = resolve_client_ip (rq_peer rq) (rq_forwarded_for rq) (sv_trusted_proxies sv)"

text \<open>A header value that decodes is visible ASCII, so its first 200 characters are bytes.\<close>

definition user_agent_of :: "request \<Rightarrow> string option" where
  "user_agent_of rq = (case rq_user_agent rq of Some (Some v) \<Rightarrow> Some (take 200 v) | _ \<Rightarrow> None)"

definition content_type_is_form :: "request \<Rightarrow> bool" where
  "content_type_is_form rq =
     (case rq_content_type rq of
        Some (Some v) \<Rightarrow> starts_with ''application/x-www-form-urlencoded'' v
      | _ \<Rightarrow> False)"

definition auth_context_of :: "server \<Rightarrow> (app_error, auth_context) result" where
  "auth_context_of sv = ok_or (sv_auth sv) (InternalError ''authentication is not initialized'')"

section \<open>Addresses as text\<close>

definition show_hex :: "nat \<Rightarrow> string" where
  "show_hex n =
     (let ds = map (\<lambda>k. hex_lower ! (n div 16 ^ k mod 16)) [3, 2, 1, 0] in
      case dropWhile (\<lambda>c. c = CHR ''0'') ds of [] \<Rightarrow> ''0'' | ds' \<Rightarrow> ds')"

definition show_ipv4 :: "32 word \<Rightarrow> string" where
  "show_ipv4 w = join_with ''.'' (map (\<lambda>k. show_nat (unat w div 256 ^ k mod 256)) [3, 2, 1, 0])"

definition segments6 :: "128 word \<Rightarrow> nat list" where
  "segments6 w = map (\<lambda>k. unat w div 65536 ^ k mod 65536) [7, 6, 5, 4, 3, 2, 1, 0]"

text \<open>The first longest run of zero segments, as its start and length.\<close>

fun zero_run :: "nat \<Rightarrow> nat list \<Rightarrow> nat \<times> nat \<Rightarrow> nat \<times> nat" where
  "zero_run k [] best = best"
| "zero_run k (s # ss) best =
     (let n = length (takeWhile (\<lambda>x. x = 0) (s # ss))
      in zero_run (Suc k) ss (if n > snd best then (k, n) else best))"

definition show_ipv6 :: "128 word \<Rightarrow> string" where
  "show_ipv6 w =
     (let ss = segments6 w in
      if take 5 ss = [0, 0, 0, 0, 0] \<and> ss ! 5 = 65535
      then ''::ffff:'' @ show_ipv4 (word_of_nat (unat w mod 2 ^ 32))
      else (case zero_run 0 ss (0, 0) of
              (start, n) \<Rightarrow>
                if n > 1
                then join_with '':'' (map show_hex (take start ss)) @ ''::'' @ join_with '':'' (map show_hex (drop (start + n) ss))
                else join_with '':'' (map show_hex ss)))"

definition show_ip :: "ip_addr \<Rightarrow> string" where
  "show_ip ip = (case ip of V4 w \<Rightarrow> show_ipv4 w | V6 w \<Rightarrow> show_ipv6 w)"

section \<open>Redirects\<close>

text \<open>\<open>char::is_control\<close> on UTF-8: the C0 controls, DEL, and U+0080 to U+009F.\<close>

fun has_control :: "string \<Rightarrow> bool" where
  "has_control [] = False"
| "has_control (c # s) =
     (code c < 32 \<or> code c = 127 \<or>
      (code c = 0xC2 \<and> s \<noteq> [] \<and> code (hd s) \<le> 0x9F) \<or> has_control s)"

definition is_local_redirect :: "string \<Rightarrow> bool" where
  "is_local_redirect path \<longleftrightarrow>
     starts_with ''/'' path \<and> \<not> starts_with ''//'' path \<and> CHR 0x5C \<notin> set path \<and> \<not> has_control path"

definition own_url_allowed ::
  "(string \<Rightarrow> (string \<times> string option) option) \<Rightarrow> string \<Rightarrow> string option \<Rightarrow> string \<Rightarrow> host_binding list \<Rightarrow> bool" where
  "own_url_allowed url_parse target own_host domain bindings =
     (case url_parse target of
        Some (scheme, Some host0) \<Rightarrow>
          (if scheme \<noteq> ''http'' \<and> scheme \<noteq> ''https'' then False
           else
             (let host = lowercase host0 in
              if domain \<noteq> [] \<and> (host = domain \<or> ends_with (''.'' @ domain) host) then True
              else (case own_host of Some own \<Rightarrow> host = lowercase own | None \<Rightarrow> False)
                   \<or> list_ex (\<lambda>b. eq_ignore_case (hb_hostname b) host) bindings))
      | _ \<Rightarrow> False)"

definition is_own_url :: "server \<Rightarrow> request \<Rightarrow> string \<Rightarrow> bool" where
  "is_own_url sv rq target =
     own_url_allowed (sv_url_parse sv) target (map_option host_name (request_host (rq_authority rq) (rq_hosts rq)))
       (sv_cookie_domain sv) (sv_bindings sv)"

definition safe_redirect :: "server \<Rightarrow> request \<Rightarrow> string option \<Rightarrow> string" where
  "safe_redirect sv rq target =
     (case target of
        Some t \<Rightarrow> if is_local_redirect t \<or> is_own_url sv rq t then t else ''/''
      | None \<Rightarrow> ''/'')"

definition redirect_with_error :: "string \<Rightarrow> string \<Rightarrow> string \<Rightarrow> string \<Rightarrow> string" where
  "redirect_with_error redirect param err_code fragment =
     redirect @ (if CHR ''?'' \<in> set redirect then ''&'' else ''?'') @ param @ ''='' @ err_code @ fragment"

section \<open>Login\<close>

record credentials =
  cr_username :: string
  cr_password :: string

record form_credentials =
  fc_credentials :: credentials
  fc_redirect :: "string option"

text \<open>Minting a refresh token for a user, in a family or starting one.\<close>

definition new_token :: "server \<Rightarrow> auth_context \<Rightarrow> request \<Rightarrow> user \<Rightarrow> int option \<Rightarrow> string \<Rightarrow> new_refresh_token" where
  "new_token sv auth rq u family value =
     \<lparr>nt_user = u_id u, nt_family = family, nt_hash = hash_refresh_token (sv_crypto sv) value,
      nt_expires_at = rq_now rq + int (ax_refresh_token_ttl_secs auth), nt_created_at = rq_now rq,
      nt_created_ip = Some (show_ip (client_ip_of sv rq)), nt_user_agent = user_agent_of rq\<rparr>"

definition issue_refresh_token ::
  "server \<Rightarrow> auth_context \<Rightarrow> request \<Rightarrow> db \<Rightarrow> user \<Rightarrow> int option \<Rightarrow> (app_error, string \<times> refresh_token_record) result \<times> db" where
  "issue_refresh_token sv auth rq db u family =
     (let value = generate_refresh_token (sv_crypto sv) (rq_entropy rq) in
      case save_refresh_token db (new_token sv auth rq u family value) of
        (Inl _, db') \<Rightarrow> (Inl (InternalError ''storage failure''), db')
      | (Inr record, db') \<Rightarrow> (Inr (value, record), db'))"

text \<open>The verification against a throwaway hash for an unknown name only spends time.\<close>

definition issue_login :: "server \<Rightarrow> request \<Rightarrow> credentials \<Rightarrow> db \<Rightarrow> (app_error, login_success) result \<times> db" where
  "issue_login sv rq c db =
     (case auth_context_of sv of
        Inl e \<Rightarrow> (Inl e, db)
      | Inr auth \<Rightarrow>
     (case try_repo (find_user_by_username db (cr_username c)) of
        Inl e \<Rightarrow> (Inl e, db)
      | Inr None \<Rightarrow> (Inl (Unauthorized ''invalid username or password''), db)
      | Inr (Some u) \<Rightarrow>
          if \<not> verify_password (sv_crypto sv) (cr_password c) (u_password_hash u)
          then (Inl (Unauthorized ''invalid username or password''), db)
          else
     (case issue_token_at (sv_crypto sv) (ax_jwt auth) u (nat (rq_now rq)) of
        None \<Rightarrow> (Inl (InternalError ''token signing failed''), db)
      | Some access \<Rightarrow>
          (let db1 = snd (record_login db (rq_now rq) (u_id u)) in
           if ax_refresh_tokens_enabled auth
           then (case issue_refresh_token sv auth rq db1 u None of
                   (Inl e, db2) \<Rightarrow> (Inl e, db2)
                 | (Inr (value, _), db2) \<Rightarrow>
                     (Inr \<lparr>ls_access_token = access, ls_user = public u, ls_refresh_token = Some value,
                           ls_refresh_expires_in = Some (ax_refresh_token_ttl_secs auth)\<rparr>, db2))
           else (Inr \<lparr>ls_access_token = access, ls_user = public u, ls_refresh_token = None,
                      ls_refresh_expires_in = None\<rparr>, db1)))))"

definition session_cookie :: "server \<Rightarrow> string \<Rightarrow> string" where
  "session_cookie sv access = set_cookie_value access (sv_token_ttl_secs sv) (secure_cookies sv) (cookie_domain sv)"

definition clear_cookie :: "server \<Rightarrow> string" where
  "clear_cookie sv = clear_cookie_value (secure_cookies sv) (cookie_domain sv)"

definition login_response :: "server \<Rightarrow> login_success \<Rightarrow> response" where
  "login_response sv s =
     \<lparr>rs_status = 200, rs_location = None, rs_set_cookie = Some (session_cookie sv (ls_access_token s)),
      rs_retry_after = None, rs_body = Login_Body s (sv_token_ttl_secs sv)\<rparr>"

definition respond_login :: "server \<Rightarrow> login_success \<Rightarrow> bool \<Rightarrow> string \<Rightarrow> response" where
  "respond_login sv s is_form redirect =
     (if is_form then redirect_response redirect (Some (session_cookie sv (ls_access_token s)))
      else login_response sv s)"

text \<open>The two input shapes: a form with its redirect target, or a JSON body.\<close>

datatype login_input = Form "(string, form_credentials) result" | Json "(app_error, credentials) result"

definition read_credentials :: "server \<Rightarrow> request \<Rightarrow> login_input \<Rightarrow> (app_error, credentials \<times> string) result" where
  "read_credentials sv rq input =
     (case input of
        Form (Inl message) \<Rightarrow> Inl (BadRequest message)
      | Form (Inr f) \<Rightarrow> Inr (fc_credentials f, safe_redirect sv rq (fc_redirect f))
      | Json (Inl e) \<Rightarrow> Inl e
      | Json (Inr c) \<Rightarrow> Inr (c, []))"

definition is_form_input :: "login_input \<Rightarrow> bool" where
  "is_form_input input = (case input of Form _ \<Rightarrow> True | Json _ \<Rightarrow> False)"

definition invalid_login_redirect :: "server \<Rightarrow> string \<Rightarrow> response" where
  "invalid_login_redirect sv redirect =
     redirect_response (redirect_with_error redirect ''login_error'' ''invalid'' ''#login'') (Some (clear_cookie sv))"

definition login :: "server \<Rightarrow> request \<Rightarrow> login_input \<Rightarrow> state \<Rightarrow> response \<times> state" where
  "login sv rq input st =
     (case read_credentials sv rq input of
        Inl e \<Rightarrow> (error_response e (case input of Json _ \<Rightarrow> rq_id rq | Form _ \<Rightarrow> None), st)
      | Inr (c, redirect) \<Rightarrow>
     (let is_form = is_form_input input; ip = client_ip_of sv rq in
      case check_at (st_throttle st) ip (cr_username c) (rq_instant rq) of
        Rejected retry_after \<Rightarrow>
          (if is_form then invalid_login_redirect sv redirect
           else error_response (rate_limited retry_after) (rq_id rq),
           st\<lparr>st_rate_limited := Suc (st_rate_limited st)\<rparr>)
      | Allowed _ \<Rightarrow>
     (case issue_login sv rq c (st_db st) of
        (Inr s, db') \<Rightarrow>
          (respond_login sv s is_form redirect,
           st\<lparr>st_db := db', st_throttle := record_success (st_throttle st) ip (cr_username c)\<rparr>)
      | (Inl e, db') \<Rightarrow>
          (if is_form \<and> status_code e = 401 then invalid_login_redirect sv redirect
           else error_response e (rq_id rq),
           st\<lparr>st_db := db',
              st_throttle := (if status_code e = 401
                              then record_failure_at (st_throttle st) ip (cr_username c) (rq_instant rq)
                              else st_throttle st)\<rparr>))))"

section \<open>Registration\<close>

definition register_code :: "app_error \<Rightarrow> string" where
  "register_code e =
     (if status_code e = 409 then ''taken''
      else if status_code e = 403 then ''closed''
      else if status_code e = 400
      then (if contains_str ''username'' (error_message e) then ''username'' else ''password'')
      else ''error'')"

definition register_failure :: "server \<Rightarrow> request \<Rightarrow> app_error \<Rightarrow> bool \<Rightarrow> string \<Rightarrow> response" where
  "register_failure sv rq e is_form redirect =
     (if \<not> is_form then error_response e (rq_id rq)
      else redirect_response (redirect_with_error redirect ''register_error'' (register_code e) ''#register'')
             (Some (clear_cookie sv)))"

definition created_response :: "user \<Rightarrow> response" where
  "created_response u =
     \<lparr>rs_status = 201, rs_location = None, rs_set_cookie = None, rs_retry_after = None, rs_body = User_Body (public u)\<rparr>"

text \<open>The checks before anything is stored, then the account.\<close>

definition register_check :: "server \<Rightarrow> credentials \<Rightarrow> (app_error, auth_context) result" where
  "register_check sv c =
     and_then (auth_context_of sv) (\<lambda>auth.
       if \<not> ax_registration_enabled auth then Inl (Forbidden ''registration is disabled on this server'')
       else (case validate_username (cr_username c) of
               Inl m \<Rightarrow> Inl (BadRequest m)
             | Inr _ \<Rightarrow>
                 (case validate_password (cr_password c) (ax_min_password_len auth) of
                    Inl m \<Rightarrow> Inl (BadRequest m)
                  | Inr _ \<Rightarrow> Inr auth)))"

definition first_role :: "int \<Rightarrow> user_role" where
  "first_role n = (if n = 0 then Admin else User)"

definition create_account :: "server \<Rightarrow> request \<Rightarrow> credentials \<Rightarrow> user_role \<Rightarrow> db \<Rightarrow> (app_error, user) result \<times> db" where
  "create_account sv rq c role db =
     (case hash_password (sv_crypto sv) (rq_salt rq) (cr_password c) of
        None \<Rightarrow> (Inl (InternalError ''password hashing failed''), db)
      | Some password_hash \<Rightarrow>
          (case create_user db (rq_now rq) (cr_username c) password_hash role of
             (Inl Duplicate, db') \<Rightarrow> (Inl (Conflict ''username is already taken''), db')
           | (Inl (Internal _), db') \<Rightarrow> (Inl (InternalError ''storage failure''), db')
           | (Inr u, db') \<Rightarrow> (Inr u, db')))"

definition register_account :: "server \<Rightarrow> request \<Rightarrow> credentials \<Rightarrow> db \<Rightarrow> (app_error, user) result \<times> db" where
  "register_account sv rq c db =
     (case register_check sv c of
        Inl e \<Rightarrow> (Inl e, db)
      | Inr _ \<Rightarrow>
          (case try_repo (count_users db) of
             Inl e \<Rightarrow> (Inl e, db)
           | Inr n \<Rightarrow> create_account sv rq c (first_role n) db))"

definition register :: "server \<Rightarrow> request \<Rightarrow> login_input \<Rightarrow> db \<Rightarrow> response \<times> db" where
  "register sv rq input db =
     (case read_credentials sv rq input of
        Inl e \<Rightarrow> (error_response e (case input of Json _ \<Rightarrow> rq_id rq | Form _ \<Rightarrow> None), db)
      | Inr (c, redirect) \<Rightarrow>
     (let is_form = is_form_input input in
      case register_account sv rq c db of
        (Inl e, db') \<Rightarrow> (register_failure sv rq e is_form redirect, db')
      | (Inr u, db') \<Rightarrow>
          if \<not> is_form then (created_response u, db')
          else (case issue_login sv rq c db' of
                  (Inr s, db2) \<Rightarrow> (respond_login sv s True redirect, db2)
                | (Inl _, db2) \<Rightarrow>
                    (redirect_response (redirect_with_error ''/login'' ''login_error'' ''post_register'' []) None, db2))))"

section \<open>Refresh\<close>

definition sanitize_refresh_token :: "string \<Rightarrow> (app_error, string) result" where
  "sanitize_refresh_token value =
     (if length value > max_refresh_token_len
      then Inl (BadRequest (''`refresh_token` must be at most '' @ show_nat max_refresh_token_len @ '' characters''))
      else Inr value)"

definition sanitize_refresh_token_opt :: "string \<Rightarrow> string option" where
  "sanitize_refresh_token_opt value =
     (if value = [] \<or> length value > max_refresh_token_len then None else Some value)"

text \<open>
  Where a refresh is: each constructor but the last names the statement it issues next. The last
  one holds the answer; the id of the token the refresh rotated, if it rotated one, is kept along
  from the rotation on.
\<close>

datatype refresh_pc =
    R_Purge string
  | R_Find string
  | R_Rotate refresh_token_record
  | R_User refresh_token_record
  | R_Issue refresh_token_record user string
  | R_Revoke int "int option"
  | R_Done "(app_error, login_success) result" "int option"

definition invalid_refresh :: app_error where
  "invalid_refresh = Unauthorized ''invalid refresh token''"

definition judge_record :: "int \<Rightarrow> refresh_token_record \<Rightarrow> refresh_pc" where
  "judge_record now r =
     (if rt_revoked_at r \<noteq> None then R_Done (Inl invalid_refresh) None
      else if rt_rotated_at r \<noteq> None then R_Revoke (rt_family r) None
      else if rt_expires_at r \<le> now then R_Done (Inl invalid_refresh) None
      else R_Rotate r)"

fun refresh_step :: "server \<Rightarrow> auth_context \<Rightarrow> request \<Rightarrow> db \<Rightarrow> refresh_pc \<Rightarrow> refresh_pc \<times> db" where
  "refresh_step sv auth rq db (R_Purge value) =
     ((case sanitize_refresh_token value of
         Inl e \<Rightarrow> R_Done (Inl e) None
       | Inr v \<Rightarrow> R_Find (hash_refresh_token (sv_crypto sv) v)),
      snd (delete_expired_refresh_tokens db (rq_now rq)))"
| "refresh_step sv auth rq db (R_Find token_hash) =
     ((case try_repo (find_refresh_token_by_hash db token_hash) of
         Inl e \<Rightarrow> R_Done (Inl e) None
       | Inr None \<Rightarrow> R_Done (Inl invalid_refresh) None
       | Inr (Some r) \<Rightarrow> judge_record (rq_now rq) r),
      db)"
| "refresh_step sv auth rq db (R_Rotate r) =
     (case rotate_refresh_token db (rt_id r) (rq_now rq) of
        (Inl e, db') \<Rightarrow> (R_Done (Inl (app_error_of e)) None, db')
      | (Inr True, db') \<Rightarrow> (R_User r, db')
      | (Inr False, db') \<Rightarrow> (R_Revoke (rt_family r) None, db'))"
| "refresh_step sv auth rq db (R_User r) =
     ((case try_repo (find_user_by_id db (rt_user r)) of
         Inl e \<Rightarrow> R_Done (Inl e) (Some (rt_id r))
       | Inr None \<Rightarrow> R_Revoke (rt_family r) (Some (rt_id r))
       | Inr (Some u) \<Rightarrow>
           (case issue_token_at (sv_crypto sv) (ax_jwt auth) u (nat (rq_now rq)) of
              None \<Rightarrow> R_Done (Inl (InternalError ''token signing failed'')) (Some (rt_id r))
            | Some access \<Rightarrow> R_Issue r u access)),
      db)"
| "refresh_step sv auth rq db (R_Issue r u access) =
     (case issue_refresh_token sv auth rq db u (Some (rt_family r)) of
        (Inl e, db') \<Rightarrow> (R_Done (Inl e) (Some (rt_id r)), db')
      | (Inr (value, _), db') \<Rightarrow>
          (R_Done (Inr \<lparr>ls_access_token = access, ls_user = public u, ls_refresh_token = Some value,
                        ls_refresh_expires_in = Some (ax_refresh_token_ttl_secs auth)\<rparr>) (Some (rt_id r)), db'))"
| "refresh_step sv auth rq db (R_Revoke family won) =
     (R_Done (Inl invalid_refresh) won, snd (revoke_refresh_token_family db family (rq_now rq)))"
| "refresh_step sv auth rq db (R_Done outcome won) = (R_Done outcome won, db)"

fun refresh_run :: "nat \<Rightarrow> server \<Rightarrow> auth_context \<Rightarrow> request \<Rightarrow> db \<Rightarrow> refresh_pc \<Rightarrow> refresh_pc \<times> db" where
  "refresh_run 0 sv auth rq db pc = (pc, db)"
| "refresh_run (Suc n) sv auth rq db pc =
     (case refresh_step sv auth rq db pc of (pc', db') \<Rightarrow> refresh_run n sv auth rq db' pc')"

text \<open>Six statements are enough: \<open>refresh_answers\<close> below.\<close>

definition refresh :: "server \<Rightarrow> request \<Rightarrow> (app_error, string) result \<Rightarrow> db \<Rightarrow> response \<times> db" where
  "refresh sv rq input db =
     (case input of
        Inl e \<Rightarrow> (error_response e (rq_id rq), db)
      | Inr value \<Rightarrow>
     (case auth_context_of sv of
        Inl e \<Rightarrow> (error_response e None, db)
      | Inr auth \<Rightarrow>
          (case refresh_run 6 sv auth rq db (R_Purge value) of
             (R_Done (Inl e) _, db') \<Rightarrow> (error_response e None, db')
           | (R_Done (Inr s) _, db') \<Rightarrow> (login_response sv s, db')
           | (_, db') \<Rightarrow> (aborted, db'))))"

section \<open>Logout and profile\<close>

definition revoke_logout_family ::
  "server \<Rightarrow> request \<Rightarrow> auth_user \<Rightarrow> string option \<Rightarrow> db \<Rightarrow> (app_error, unit) result \<times> db" where
  "revoke_logout_family sv rq u refresh_token db =
     (case auth_context_of sv of
        Inl e \<Rightarrow> (Inl e, db)
      | Inr _ \<Rightarrow>
          (case Option.bind refresh_token sanitize_refresh_token_opt of
             None \<Rightarrow> (Inr (), db)
           | Some value \<Rightarrow>
               (case find_refresh_token_by_hash db (hash_refresh_token (sv_crypto sv) value) of
                  Inr (Some r) \<Rightarrow>
                    if rt_user r = au_user_id u
                    then (case revoke_refresh_token_family db (rt_family r) (rq_now rq) of
                            (Inl _, db') \<Rightarrow> (Inl (InternalError ''storage failure''), db')
                          | (Inr _, db') \<Rightarrow> (Inr (), db'))
                    else (Inr (), db)
                | _ \<Rightarrow> (Inr (), db))))"

definition jwt_of :: "server \<Rightarrow> jwt_service option" where
  "jwt_of sv = map_option ax_jwt (sv_auth sv)"

definition request_user :: "server \<Rightarrow> request \<Rightarrow> (app_error, auth_user) result" where
  "request_user sv rq = auth_user_of (sv_crypto sv) (jwt_of sv) (nat (rq_now rq)) (rq_authorization rq) (rq_cookies rq)"

record form_logout =
  fl_refresh_token :: "string option"
  fl_redirect :: "string option"

datatype logout_input = Logout_Form "(string, form_logout) result" | Logout_Json "(app_error, string) result"

definition logout :: "server \<Rightarrow> request \<Rightarrow> logout_input \<Rightarrow> db \<Rightarrow> response \<times> db" where
  "logout sv rq input db =
     (case input of
        Logout_Form (Inl message) \<Rightarrow> (error_response (BadRequest message) None, db)
      | Logout_Form (Inr f) \<Rightarrow>
          (let db' = (case request_user sv rq of
                        Inr u \<Rightarrow> snd (revoke_logout_family sv rq u (fl_refresh_token f) db)
                      | Inl _ \<Rightarrow> db)
           in (redirect_response (safe_redirect sv rq (fl_redirect f)) (Some (clear_cookie sv)), db'))
      | Logout_Json body \<Rightarrow>
          (case request_user sv rq of
             Inl e \<Rightarrow> (error_response e (rq_id rq), db)
           | Inr u \<Rightarrow>
               (case body of
                  Inl e \<Rightarrow> (error_response e (rq_id rq), db)
                | Inr token \<Rightarrow>
                    (case revoke_logout_family sv rq u (Some token) db of
                       (Inr _, db') \<Rightarrow> (cleared_session_response sv, db')
                     | (Inl e, db') \<Rightarrow> (error_response e None, db')))))"

definition logout_all :: "server \<Rightarrow> request \<Rightarrow> db \<Rightarrow> response \<times> db" where
  "logout_all sv rq db =
     (case request_user sv rq of
        Inl e \<Rightarrow> (error_response e (rq_id rq), db)
      | Inr u \<Rightarrow>
          (case auth_context_of sv of
             Inl e \<Rightarrow> (error_response e None, db)
           | Inr _ \<Rightarrow>
               (case revoke_all_refresh_tokens db (au_user_id u) (rq_now rq) of
                  (Inl _, db') \<Rightarrow> (error_response (InternalError ''storage failure'') None, db')
                | (Inr _, db') \<Rightarrow> (cleared_session_response sv, db'))))"

definition me :: "server \<Rightarrow> request \<Rightarrow> db \<Rightarrow> response" where
  "me sv rq db =
     (case request_user sv rq of
        Inl e \<Rightarrow> error_response e (rq_id rq)
      | Inr u \<Rightarrow>
          (case and_then (auth_context_of sv) (\<lambda>_. try_repo (find_user_by_id db (au_user_id u))) of
             Inl e \<Rightarrow> error_response e None
           | Inr None \<Rightarrow> error_response (Unauthorized ''user no longer exists'') None
           | Inr (Some v) \<Rightarrow>
               \<lparr>rs_status = 200, rs_location = None, rs_set_cookie = None, rs_retry_after = None,
                rs_body = User_Body (public v)\<rparr>))"

end
