(* ===== verification/Auth_Protocol.thy ===== *)
theory Auth_Protocol
  imports Auth_Routes
begin

text \<open>
  What the handlers of \<open>Auth_Routes\<close> guarantee: one refresh run by itself, any number of
  refreshes whose statements interleave with each other and with every other statement on the token
  table, and the login, registration, redirect and logout rules.
\<close>

section \<open>One refresh\<close>

definition refresh_rank :: "refresh_pc \<Rightarrow> nat" where
  "refresh_rank pc =
     (case pc of R_Purge _ \<Rightarrow> 5 | R_Find _ \<Rightarrow> 4 | R_Rotate _ \<Rightarrow> 3 | R_User _ \<Rightarrow> 2
       | R_Issue _ _ _ \<Rightarrow> 1 | R_Revoke _ _ \<Rightarrow> 1 | R_Done _ _ \<Rightarrow> 0)"

lemma refresh_rank_step:
  "refresh_rank (fst (refresh_step sv auth rq db pc)) \<le> refresh_rank pc - 1"
  by (cases pc)
    (auto simp: refresh_rank_def judge_record_def rotate_refresh_token_def issue_refresh_token_def split_beta
      split: sum.split option.split bool.split)

lemma refresh_rank_0: "refresh_rank pc = 0 \<longleftrightarrow> (\<exists>outcome won. pc = R_Done outcome won)"
  by (cases pc) (simp_all add: refresh_rank_def)

lemma refresh_run_rank: "refresh_rank (fst (refresh_run n sv auth rq db pc)) \<le> refresh_rank pc - n"
proof (induction n arbitrary: db pc)
  case (Suc n)
  obtain pc' db' where s: "refresh_step sv auth rq db pc = (pc', db')" by force
  have "refresh_rank pc' \<le> refresh_rank pc - 1" using refresh_rank_step [of sv auth rq db pc] s by simp
  with Suc.IH [of db' pc'] s show ?case by simp
qed simp

section \<open>Interleaved refreshes\<close>

text \<open>
  A system is the database and the refreshes under way, each with its request. A step is one
  statement of one of them, or one statement of any other request.
\<close>

type_synonym refresh_system = "db \<times> (request \<times> refresh_pc) list"

inductive system_step :: "server \<Rightarrow> auth_context \<Rightarrow> refresh_system \<Rightarrow> refresh_system \<Rightarrow> bool"
  for sv :: server and auth :: auth_context where
  worker: "i < length ws \<Longrightarrow> ws ! i = (rq, pc) \<Longrightarrow> refresh_step sv auth rq db pc = (pc', db') \<Longrightarrow>
    system_step sv auth (db, ws) (db', ws[i := (rq, pc')])"
| other: "system_step sv auth (db, ws) (token_statement_step db e, ws)"

inductive_cases system_stepE: "system_step sv auth s s'"

definition reachable_system :: "server \<Rightarrow> auth_context \<Rightarrow> refresh_system \<Rightarrow> refresh_system \<Rightarrow> bool" where
  "reachable_system sv auth = (system_step sv auth)\<^sup>*\<^sup>*"

text \<open>The token a refresh has rotated.\<close>

definition ticket :: "refresh_pc \<Rightarrow> int option" where
  "ticket pc =
     (case pc of
        R_User r \<Rightarrow> Some (rt_id r)
      | R_Issue r _ _ \<Rightarrow> Some (rt_id r)
      | R_Revoke _ won \<Rightarrow> won
      | R_Done _ won \<Rightarrow> won
      | _ \<Rightarrow> None)"

lemma refresh_step_db:
  "snd (refresh_step sv auth rq db pc) = db \<or> (\<exists>e. snd (refresh_step sv auth rq db pc) = token_statement_step db e)"
proof (cases pc)
  case (R_Purge v)
  then have "snd (refresh_step sv auth rq db pc) = token_statement_step db (Purge (rq_now rq))" by simp
  then show ?thesis by blast
next
  case (R_Rotate r)
  then have "snd (refresh_step sv auth rq db pc) = token_statement_step db (Rotate (rt_id r) (rq_now rq))"
    by (simp add: rotate_refresh_token_def split: bool.split)
  then show ?thesis by blast
next
  case (R_Issue r u access)
  let ?t = "new_token sv auth rq u (Some (rt_family r)) (generate_refresh_token (sv_crypto sv) (rq_entropy rq))"
  have "nt_family ?t = Some (rt_family r)" by (simp add: new_token_def)
  then have "snd (save_refresh_token db ?t) = snd (insert_refresh_token db ?t)"
    by (simp add: save_refresh_token_def split_beta split: sum.split)
  with R_Issue have "snd (refresh_step sv auth rq db pc) = token_statement_step db (Insert ?t)"
    by (simp add: issue_refresh_token_def Let_def split_beta split: sum.split)
  then show ?thesis by blast
next
  case (R_Revoke f w)
  then have "snd (refresh_step sv auth rq db pc) = token_statement_step db (Revoke_Family f (rq_now rq))" by simp
  then show ?thesis by blast
qed simp_all

lemma refresh_step_ok: "accounts_ok db \<Longrightarrow> accounts_ok (snd (refresh_step sv auth rq db pc))"
  using refresh_step_db token_statement_ok by metis

lemma refresh_step_spent: "accounts_ok db \<Longrightarrow> tokens.spent db i \<Longrightarrow> tokens.spent (snd (refresh_step sv auth rq db pc)) i"
  using refresh_step_db spent_step by metis

text \<open>A refresh takes a ticket only by a rotation, which spends the token.\<close>

lemma refresh_step_ticket:
  assumes "accounts_ok db" "refresh_step sv auth rq db pc = (pc', db')"
  shows "ticket pc' = ticket pc \<or>
    (\<exists>i. ticket pc = None \<and> ticket pc' = Some i \<and> \<not> tokens.spent db i \<and> tokens.spent db' i)"
proof (cases pc)
  case (R_Rotate r)
  have ok: "store_ok rt_id (db_tokens db)" using assms(1) by (simp add: accounts_ok_def tokens_ok_def)
  show ?thesis
  proof (cases "fst (rotate_token_of db (rt_id r) (rq_now rq))")
    case True
    then have "pc' = R_User r" "db' = snd (rotate_token_of db (rt_id r) (rq_now rq))"
      using assms(2) R_Rotate by (simp_all add: rotate_token_of_def rotate_refresh_token_def)
    with True R_Rotate tokens.rotate_spends [OF ok True] tokens.spent_not_rotated [OF ok] show ?thesis
      by (auto simp: ticket_def)
  next
    case False
    then show ?thesis using assms(2) R_Rotate
      by (auto simp: ticket_def rotate_token_of_def rotate_refresh_token_def split: bool.splits)
  qed
qed (use assms(2) in \<open>auto simp: ticket_def judge_record_def issue_refresh_token_def Let_def split_beta
      split: sum.splits option.splits if_splits\<close>)

definition system_inv :: "refresh_system \<Rightarrow> bool" where
  "system_inv s \<longleftrightarrow>
     accounts_ok (fst s) \<and>
     (\<forall>i < length (snd s). \<forall>k. ticket (snd (snd s ! i)) = Some k \<longrightarrow> tokens.spent (fst s) k) \<and>
     (\<forall>i < length (snd s). \<forall>j < length (snd s). \<forall>k.
        ticket (snd (snd s ! i)) = Some k \<longrightarrow> ticket (snd (snd s ! j)) = Some k \<longrightarrow> i = j) \<and>
     (\<forall>i < length (snd s). \<forall>x. snd (snd s ! i) \<noteq> R_Done (Inr x) None)"

lemma refresh_step_done:
  "refresh_step sv auth rq db pc = (R_Done (Inr x) None, db') \<Longrightarrow> pc = R_Done (Inr x) None"
  by (cases pc) (auto simp: judge_record_def rotate_refresh_token_def issue_refresh_token_def Let_def split_beta
      split: sum.splits option.splits if_splits bool.splits)

lemma system_inv_worker:
  assumes inv: "system_inv (db, ws)" and i: "i < length ws" "ws ! i = (rq, pc)"
    and s: "refresh_step sv auth rq db pc = (pc', db')"
  shows "system_inv (db', ws[i := (rq, pc')])"
proof -
  let ?ws = "ws[i := (rq, pc')]"
  have ok: "accounts_ok db" using inv by (simp add: system_inv_def)
  have spent: "tokens.spent db' k" if "tokens.spent db k" for k
    using refresh_step_spent [OF ok that, of sv auth rq pc] s by simp
  have at: "?ws ! j = (if j = i then (rq, pc') else ws ! j)" if "j < length ws" for j
    using that i(1) by simp
  have old: "tokens.spent db k" if "j < length ws" "ticket (snd (ws ! j)) = Some k" for j k
    using inv that by (simp add: system_inv_def)
  have uniq: "j = l" if "j < length ws" "l < length ws" "ticket (snd (ws ! j)) = Some k" "ticket (snd (ws ! l)) = Some k" for j l k
    using inv that by (simp add: system_inv_def)
  note t = refresh_step_ticket [OF ok s]
  have new: "tokens.spent db' k" if "ticket pc' = Some k" for k
    using t that old [OF i(1)] i(2) spent by auto
  have other: "\<not> (ticket pc' = Some k \<and> ticket (snd (ws ! j)) = Some k)" if "j < length ws" "j \<noteq> i" for j k
  proof
    assume a: "ticket pc' = Some k \<and> ticket (snd (ws ! j)) = Some k"
    from t show False
    proof
      assume "ticket pc' = ticket pc"
      with a i(2) uniq [OF i(1) that(1), of k] that(2) show False by simp
    next
      assume "\<exists>i. ticket pc = None \<and> ticket pc' = Some i \<and> \<not> tokens.spent db i \<and> tokens.spent db' i"
      with a old [OF that(1)] show False by auto
    qed
  qed
  have "pc \<noteq> R_Done (Inr x) None" for x using inv i by (auto simp: system_inv_def)
  then have fin: "pc' \<noteq> R_Done (Inr x) None" for x using refresh_step_done s by metis
  have "accounts_ok db'" using refresh_step_ok [OF ok, of sv auth rq pc] s by simp
  moreover have tk: "ticket (snd (?ws ! j)) = (if j = i then ticket pc' else ticket (snd (ws ! j)))" if "j < length ws" for j
    using at [OF that] by simp
  have "tokens.spent db' k" if "j < length ws" "ticket (snd (?ws ! j)) = Some k" for j k
  proof (cases "j = i")
    case True
    with that tk show ?thesis by (simp add: new)
  next
    case False
    with that tk have "ticket (snd (ws ! j)) = Some k" by simp
    with that(1) show ?thesis by (intro spent old)
  qed
  moreover have "j = l"
    if jl: "j < length ws" "l < length ws" and k: "ticket (snd (?ws ! j)) = Some k" "ticket (snd (?ws ! l)) = Some k" for j l k
  proof (rule ccontr)
    assume "j \<noteq> l"
    then consider "j = i" "l \<noteq> i" | "l = i" "j \<noteq> i" | "j \<noteq> i" "l \<noteq> i" by blast
    then show False
    proof cases
      case 1
      with k tk [OF jl(1)] tk [OF jl(2)] other [OF jl(2), of k] show False by simp
    next
      case 2
      with k tk [OF jl(1)] tk [OF jl(2)] other [OF jl(1), of k] show False by simp
    next
      case 3
      with k tk [OF jl(1)] tk [OF jl(2)] uniq [OF jl, of k] \<open>j \<noteq> l\<close> show False by simp
    qed
  qed
  moreover have "snd (?ws ! j) \<noteq> R_Done (Inr x) None" if "j < length ws" for j x
    using that fin at inv by (auto simp: system_inv_def)
  ultimately show ?thesis unfolding system_inv_def by simp
qed

lemma system_inv_step: "system_step sv auth s s' \<Longrightarrow> system_inv s \<Longrightarrow> system_inv s'"
proof (induction rule: system_step.induct)
  case (worker i ws rq pc db pc' db')
  then show ?case using system_inv_worker by blast
next
  case (other db ws e)
  then show ?case using token_statement_ok spent_step by (simp add: system_inv_def)
qed

lemma system_inv_reachable: "reachable_system sv auth s s' \<Longrightarrow> system_inv s \<Longrightarrow> system_inv s'"
  unfolding reachable_system_def by (induction rule: rtranclp_induct) (auto intro: system_inv_step)

section \<open>What the statements find\<close>

lemma find_by_hash:
  assumes "accounts_ok db" "t \<in> set (rows (db_tokens db))"
  shows "find_refresh_token_by_hash db (rt_hash t) = Inr (Some t)"
proof -
  have "inj_on rt_hash (set (rows (db_tokens db)))"
    using assms(1) by (simp add: accounts_ok_def tokens_ok_def distinct_map)
  then have "select_row (\<lambda>r. rt_hash r = rt_hash t) (db_tokens db) = Some t"
    using assms(2) by (intro select_row_unique) (auto dest: inj_onD)
  then show ?thesis by (simp add: find_refresh_token_by_hash_def)
qed

lemma purge_keeps:
  "t \<in> set (rows (db_tokens db)) \<Longrightarrow> rt_revoked_at t = None \<Longrightarrow>
   t \<in> set (rows (db_tokens (snd (delete_expired_refresh_tokens db now))))"
  by (simp add: delete_expired_refresh_tokens_def purgeable_def)

lemma purge_users [simp]: "db_users (snd (delete_expired_refresh_tokens db now)) = db_users db"
  by (simp add: delete_expired_refresh_tokens_def)

lemma family_dead:
  "r \<in> set (rows (db_tokens (snd (revoke_refresh_token_family db f now)))) \<Longrightarrow> rt_family r = f \<Longrightarrow> \<not> unspent r"
proof -
  assume r: "r \<in> set (rows (db_tokens (snd (revoke_refresh_token_family db f now))))" "rt_family r = f"
  from r(1) have "r \<in> set (rows (update_rows (\<lambda>r. rt_family r = f \<and> rt_revoked_at r = None)
      (\<lambda>r. r\<lparr>rt_revoked_at := Some now\<rparr>) (db_tokens db)))"
    by (simp add: revoke_refresh_token_family_def revoke_where_def)
  then obtain x where "r = (if rt_family x = f \<and> rt_revoked_at x = None then x\<lparr>rt_revoked_at := Some now\<rparr> else x)"
    by (rule update_rowsE)
  with r(2) show "\<not> unspent r" by (auto simp: unspent_def split: if_splits)
qed

lemma refresh_run_Suc:
  "refresh_step sv auth rq db pc = (pc', db') \<Longrightarrow> refresh_run (Suc n) sv auth rq db pc = refresh_run n sv auth rq db' pc'"
  by simp

lemma refresh_run_done [simp]: "refresh_run n sv auth rq db (R_Done outcome won) = (R_Done outcome won, db)"
  by (induction n) simp_all

text \<open>The first two statements: the purge, and the lookup of a token that was not revoked.\<close>

lemma refresh_run_found:
  assumes "accounts_ok db" "t \<in> set (rows (db_tokens db))" "rt_revoked_at t = None"
    "hash_refresh_token (sv_crypto sv) value = rt_hash t" "length value \<le> max_refresh_token_len"
  shows "refresh_run (Suc (Suc n)) sv auth rq db (R_Purge value) =
    refresh_run n sv auth rq (snd (delete_expired_refresh_tokens db (rq_now rq))) (judge_record (rq_now rq) t)"
proof -
  let ?db = "snd (delete_expired_refresh_tokens db (rq_now rq))"
  have "find_refresh_token_by_hash ?db (rt_hash t) = Inr (Some t)"
    using delete_expired_ok [OF assms(1)] purge_keeps [OF assms(2,3)] by (intro find_by_hash)
  then show ?thesis using assms(4,5) by (simp add: sanitize_refresh_token_def)
qed

text \<open>The conditions under which a refresh goes through: all of them facts before it starts.\<close>

definition new_hash :: "server \<Rightarrow> request \<Rightarrow> string" where
  "new_hash sv rq = hash_refresh_token (sv_crypto sv) (generate_refresh_token (sv_crypto sv) (rq_entropy rq))"

definition can_refresh ::
  "server \<Rightarrow> auth_context \<Rightarrow> request \<Rightarrow> db \<Rightarrow> string \<Rightarrow> refresh_token_record \<Rightarrow> user \<Rightarrow> string \<Rightarrow> bool" where
  "can_refresh sv auth rq db value t u access \<longleftrightarrow>
     t \<in> set (rows (db_tokens db)) \<and> rt_hash t = hash_refresh_token (sv_crypto sv) value \<and>
     length value \<le> max_refresh_token_len \<and> unspent t \<and> rq_now rq < rt_expires_at t \<and>
     find_user_by_id db (rt_user t) = Inr (Some u) \<and>
     issue_token_at (sv_crypto sv) (ax_jwt auth) u (nat (rq_now rq)) = Some access \<and>
     (\<forall>r \<in> set (rows (db_tokens db)). rt_hash r \<noteq> new_hash sv rq)"

definition refreshed :: "server \<Rightarrow> auth_context \<Rightarrow> request \<Rightarrow> user \<Rightarrow> string \<Rightarrow> login_success" where
  "refreshed sv auth rq u access =
     \<lparr>ls_access_token = access, ls_user = public u,
      ls_refresh_token = Some (generate_refresh_token (sv_crypto sv) (rq_entropy rq)),
      ls_refresh_expires_in = Some (ax_refresh_token_ttl_secs auth)\<rparr>"

text \<open>The token a refresh of \<open>t\<close> leaves to its user.\<close>

definition is_successor :: "server \<Rightarrow> auth_context \<Rightarrow> request \<Rightarrow> refresh_token_record \<Rightarrow> refresh_token_record \<Rightarrow> bool" where
  "is_successor sv auth rq t n \<longleftrightarrow>
     rt_hash n = new_hash sv rq \<and> rt_family n = rt_family t \<and> rt_user n = rt_user t \<and> unspent n \<and>
     rt_expires_at n = rq_now rq + int (ax_refresh_token_ttl_secs auth)"

lemma found_user_id: "find_user_by_id db i = Inr (Some u) \<Longrightarrow> u_id u = i \<and> user_exists db i"
  using select_row_Some
  by (fastforce simp: find_user_by_id_def user_of_optional_def user_of_row_def user_exists_def
      split: option.splits dest: select_row_Some)

lemma find_user_tokens [simp]: "find_user_by_id (db\<lparr>db_tokens := ts\<rparr>) i = find_user_by_id db i"
  by (simp add: find_user_by_id_def)

lemma step_rotate:
  assumes "accounts_ok db" "t \<in> set (rows (db_tokens db))" "unspent t"
  shows "refresh_step sv auth rq db (R_Rotate t) = (R_User t, snd (rotate_refresh_token db (rt_id t) (rq_now rq)))"
proof -
  have ok: "store_ok rt_id (db_tokens db)" using assms(1) by (simp add: accounts_ok_def tokens_ok_def)
  have "select_row (\<lambda>r. rt_id r = rt_id t) (db_tokens db) = Some t" by (rule select_row_key [OF ok assms(2)])
  then have "count_rows (redeemable (rt_id t)) (db_tokens db) = 1"
    using count_redeemable [OF ok] assms(3) by blast
  then show ?thesis by (simp add: rotate_refresh_token_def)
qed

lemma step_user:
  assumes "find_user_by_id db (rt_user t) = Inr (Some u)"
    "issue_token_at (sv_crypto sv) (ax_jwt auth) u (nat (rq_now rq)) = Some access"
  shows "refresh_step sv auth rq db (R_User t) = (R_Issue t u access, db)"
  using assms by simp

lemma step_issue:
  assumes "user_exists db (rt_user t)" "u_id u = rt_user t" "\<forall>r \<in> set (rows (db_tokens db)). rt_hash r \<noteq> new_hash sv rq"
  shows "\<exists>db' n. refresh_step sv auth rq db (R_Issue t u access) = (R_Done (Inr (refreshed sv auth rq u access)) (Some (rt_id t)), db') \<and>
    rows (db_tokens db') = rows (db_tokens db) @ [n] \<and> is_successor sv auth rq t n"
proof -
  let ?v = "generate_refresh_token (sv_crypto sv) (rq_entropy rq)"
  let ?t = "new_token sv auth rq u (Some (rt_family t)) ?v"
  let ?n = "token_row ?t (rt_family t) (last_id (db_tokens db) + 1)"
  have f: "nt_hash ?t = new_hash sv rq" "nt_user ?t = rt_user t" "nt_family ?t = Some (rt_family t)"
    using assms(2) by (simp_all add: new_token_def new_hash_def)
  have "insert_refresh_token db ?t =
      (Inr (last_id (db_tokens db) + 1), db\<lparr>db_tokens := snd (insert_row (token_row ?t (rt_family t)) (db_tokens db))\<rparr>)"
    using assms(1,3) f by (simp add: insert_refresh_token_def split_beta)
  then have "save_refresh_token db ?t =
      (Inr ?n, db\<lparr>db_tokens := snd (insert_row (token_row ?t (rt_family t)) (db_tokens db))\<rparr>)"
    using f by (simp add: save_refresh_token_def)
  moreover have "is_successor sv auth rq t ?n"
    using f by (simp add: is_successor_def token_row_def unspent_def new_token_def)
  ultimately show ?thesis
    by (simp add: issue_refresh_token_def Let_def refreshed_def)
qed

lemma rotate_rows:
  "x \<in> set (rows (db_tokens (snd (rotate_refresh_token db i now)))) \<longleftrightarrow>
   (\<exists>r \<in> set (rows (db_tokens db)). x = (if redeemable i r then r\<lparr>rt_rotated_at := Some now\<rparr> else r))"
  by (auto simp: rotate_refresh_token_def update_rows_def)

lemma rotate_users [simp]: "find_user_by_id (snd (rotate_refresh_token db i now)) j = find_user_by_id db j"
  by (simp add: rotate_refresh_token_def)

lemma rotate_hashes:
  "rt_hash ` set (rows (db_tokens (snd (rotate_refresh_token db i now)))) \<subseteq> rt_hash ` set (rows (db_tokens db))"
  by (auto simp: rotate_rows)

lemma refresh_run_success:
  assumes ok: "accounts_ok db" and can: "can_refresh sv auth rq db value t u access"
  shows "\<exists>db' n. refresh_run 6 sv auth rq db (R_Purge value) =
      (R_Done (Inr (refreshed sv auth rq u access)) (Some (rt_id t)), db') \<and>
    is_successor sv auth rq t n \<and>
    rows (db_tokens db') = rows (db_tokens (snd (rotate_refresh_token (snd (delete_expired_refresh_tokens db (rq_now rq)))
      (rt_id t) (rq_now rq)))) @ [n] \<and> accounts_ok db' \<and> db_users db' = db_users db"
proof -
  let ?p = "snd (delete_expired_refresh_tokens db (rq_now rq))"
  let ?r = "snd (rotate_refresh_token ?p (rt_id t) (rq_now rq))"
  from can have c: "t \<in> set (rows (db_tokens db))" "hash_refresh_token (sv_crypto sv) value = rt_hash t"
      "length value \<le> max_refresh_token_len" "unspent t" "rq_now rq < rt_expires_at t"
      "find_user_by_id db (rt_user t) = Inr (Some u)"
      "issue_token_at (sv_crypto sv) (ax_jwt auth) u (nat (rq_now rq)) = Some access"
      "\<forall>r \<in> set (rows (db_tokens db)). rt_hash r \<noteq> new_hash sv rq"
    by (auto simp: can_refresh_def)
  have live: "rt_revoked_at t = None" "rt_rotated_at t = None" using c(4) by (simp_all add: unspent_def)
  have okp: "accounts_ok ?p" by (rule delete_expired_ok [OF ok])
  have tp: "t \<in> set (rows (db_tokens ?p))" by (rule purge_keeps [OF c(1) live(1)])
  have user: "find_user_by_id ?p i = find_user_by_id db i" for i by (simp add: find_user_by_id_def)
  have fresh: "\<forall>r \<in> set (rows (db_tokens ?r)). rt_hash r \<noteq> new_hash sv rq"
  proof -
    have "set (rows (db_tokens ?p)) \<subseteq> set (rows (db_tokens db))" by (auto simp: delete_expired_refresh_tokens_def)
    then have "rt_hash ` set (rows (db_tokens ?r)) \<subseteq> rt_hash ` set (rows (db_tokens db))"
      using rotate_hashes [of ?p "rt_id t" "rq_now rq"] by blast
    with c(8) show ?thesis by (simp add: image_subset_iff) (metis imageE)
  qed
  have "find_user_by_id ?r (rt_user t) = Inr (Some u)" using c(6) user by simp
  then have u: "u_id u = rt_user t" "user_exists ?r (rt_user t)" using found_user_id by metis+
  obtain db' n where i: "refresh_step sv auth rq ?r (R_Issue t u access) =
      (R_Done (Inr (refreshed sv auth rq u access)) (Some (rt_id t)), db')"
    "rows (db_tokens db') = rows (db_tokens ?r) @ [n]" "is_successor sv auth rq t n"
    using step_issue [where access = access, OF u(2,1) fresh] by blast
  have j: "judge_record (rq_now rq) t = R_Rotate t" using live c(5) by (simp add: judge_record_def)
  have usr: "refresh_step sv auth rq ?r (R_User t) = (R_Issue t u access, ?r)"
    using c(6,7) user by (intro step_user) simp_all
  have six: "(6::nat) = Suc (Suc (Suc (Suc (Suc (Suc 0)))))" by simp
  have "refresh_run 6 sv auth rq db (R_Purge value) = (R_Done (Inr (refreshed sv auth rq u access)) (Some (rt_id t)), db')"
    unfolding six refresh_run_found [OF ok c(1) live(1) c(2,3)] j
      refresh_run_Suc [OF step_rotate [OF okp tp c(4)]] refresh_run_Suc [OF usr] refresh_run_Suc [OF i(1)] by simp
  moreover have "accounts_ok ?r" using refresh_step_ok [OF okp, of sv auth rq "R_Rotate t"] step_rotate [OF okp tp c(4)] by simp
  then have "accounts_ok db'" using refresh_step_ok [of ?r sv auth rq "R_Issue t u access"] i(1) by simp
  moreover have "db_users db' = db_users db"
  proof -
    have "db_users db' = db_users ?r" using i(1)
      by (auto simp: issue_refresh_token_def Let_def save_refresh_token_def insert_refresh_token_def set_token_family_def
          split_beta split: sum.splits option.splits if_splits)
    then show ?thesis by (simp add: rotate_refresh_token_def)
  qed
  ultimately show ?thesis using i(2,3) by blast
qed

definition sample_auth :: auth_context where
  "sample_auth = \<lparr>ax_jwt = new_jwt ''k'' ''iss'' 60, ax_registration_enabled = True, ax_min_password_len = 8,
     ax_refresh_tokens_enabled = True, ax_refresh_token_ttl_secs = 500\<rparr>"

definition sample_server :: server where
  "sample_server = \<lparr>sv_crypto = plain_crypto, sv_auth = Some sample_auth, sv_token_ttl_secs = 60,
     sv_secure_cookies = Auto, sv_tls_enabled = False, sv_cookie_domain = [], sv_trusted_proxies = [],
     sv_bindings = [], sv_url_parse = (\<lambda>s. None)\<rparr>"

definition sample_request :: "string \<Rightarrow> int \<Rightarrow> request" where
  "sample_request entropy now = \<lparr>rq_peer = V4 0, rq_forwarded_for = [], rq_authority = None, rq_hosts = [],
     rq_content_type = None, rq_authorization = None, rq_cookies = [], rq_user_agent = None, rq_id = None,
     rq_now = now, rq_instant = 0, rq_entropy = entropy, rq_salt = []\<rparr>"

text \<open>Two sessions of one account, each the first token of its family.\<close>

definition sample_session :: "string \<Rightarrow> new_refresh_token" where
  "sample_session value = \<lparr>nt_user = 1, nt_family = None, nt_hash = hash_refresh_token plain_crypto value,
     nt_expires_at = 100, nt_created_at = 0, nt_created_ip = None, nt_user_agent = None\<rparr>"

definition two_sessions :: db where
  "two_sessions = snd (save_refresh_token (snd (save_refresh_token (snd (create_user empty_db 0 ''ann'' ''hash'' Admin))
     (sample_session ''a''))) (sample_session ''b''))"

lemma two_sessions_ok: "accounts_ok two_sessions"
  unfolding two_sessions_def by (intro save_refresh_token_ok create_user_ok accounts_ok_empty)

definition ann :: user where
  "ann = \<lparr>u_id = 1, u_username = ''ann'', u_password_hash = ''hash'', u_role = Admin, u_created_at = 0, u_last_login_at = None\<rparr>"

lemma sample_hashes:
  "hash_refresh_token plain_crypto ''a'' = ''61''" "hash_refresh_token plain_crypto ''b'' = ''62''"
  by (simp_all add: hash_refresh_token_def plain_crypto_def hex_def hex_lower_def code_def)

lemma two_sessions_rows:
  "rows (db_tokens two_sessions) = [token_row (sample_session ''a'') 1 1, token_row (sample_session ''b'') 2 2]"
  by (simp add: two_sessions_def sample_session_def sample_hashes save_refresh_token_def insert_refresh_token_def create_user_def
      empty_db_def empty_store_def insert_row_def sync_membership_def org_id_def select_row_def user_exists_def
      token_row_def set_token_family_def update_rows_def is_editor_def)

lemma two_sessions_user: "find_user_by_id two_sessions 1 = Inr (Some ann)"
  by (simp add: two_sessions_def sample_session_def sample_hashes save_refresh_token_def insert_refresh_token_def create_user_def
      empty_db_def empty_store_def insert_row_def sync_membership_def org_id_def select_row_def user_exists_def
      token_row_def set_token_family_def update_rows_def is_editor_def find_user_by_id_def user_of_optional_def user_of_row_def ann_def)

lemma sample_new_hash: "new_hash sample_server (sample_request ''c'' 9) = ''63''"
  by (simp add: new_hash_def sample_server_def sample_request_def generate_refresh_token_def hash_refresh_token_def plain_crypto_def hex_def hex_lower_def code_def
    refresh_token_bytes_def)

lemma sample_server_crypto: "sv_crypto sample_server = plain_crypto" "sv_auth sample_server = Some sample_auth"
  by (simp_all add: sample_server_def)

lemma sample_request_now: "rq_now (sample_request e now) = now"
  by (simp add: sample_request_def)

lemma sample_access: "issue_token_at plain_crypto (ax_jwt sample_auth) ann 9 = Some ''k;1;ann;admin;iss;9;69''"
  by (simp add: issue_token_at_def sample_auth_def new_jwt_def token_claims_def
      plain_crypto_def plain_encode_def ann_def field_ok_def role_as_str_def show_int_def show_nat.simps
      digit_char_def char_of_def bit_0)

lemma two_sessions_can_refresh:
  "can_refresh sample_server sample_auth (sample_request ''c'' 9) two_sessions ''a''
     (token_row (sample_session ''a'') 1 1) ann ''k;1;ann;admin;iss;9;69''"
  by (simp add: can_refresh_def two_sessions_rows two_sessions_user sample_new_hash sample_hashes token_row_def
    sample_session_def sample_server_crypto sample_request_now max_refresh_token_len_def unspent_def
    sample_access)

lemma reach_worker:
  "reachable_system sv auth s (db, ws) \<Longrightarrow> i < length ws \<Longrightarrow> ws ! i = (rq, pc) \<Longrightarrow>
   refresh_step sv auth rq db pc = (pc', db') \<Longrightarrow> reachable_system sv auth s (db', ws[i := (rq, pc')])"
  unfolding reachable_system_def by (rule rtranclp.rtrancl_into_rtrancl) (auto intro: system_step.worker)

lemma reach_run:
  "reachable_system sv auth s (db, ws) \<Longrightarrow> i < length ws \<Longrightarrow> ws ! i = (rq, pc) \<Longrightarrow>
   refresh_run n sv auth rq db pc = (pc', db') \<Longrightarrow> reachable_system sv auth s (db', ws[i := (rq, pc')])"
proof (induction n arbitrary: db ws pc)
  case 0
  then have "ws[i := (rq, pc')] = ws" "db' = db" using list_update_id [of ws i] by auto
  with "0.prems"(1) show ?case by simp
next
  case (Suc n)
  obtain p d where s: "refresh_step sv auth rq db pc = (p, d)" by force
  have "reachable_system sv auth s (db', (ws[i := (rq, p)])[i := (rq, pc')])"
    using Suc.prems s by (intro Suc.IH [of d "ws[i := (rq, p)]" p] reach_worker [OF Suc.prems(1,2,3) s]) simp_all
  then show ?case by simp
qed

lemma rotate_again:
  "accounts_ok db \<Longrightarrow> refresh_step sv auth rq (snd (rotate_refresh_token db (rt_id t) now)) (R_Rotate t) =
    (R_Revoke (rt_family t) None, snd (rotate_refresh_token db (rt_id t) now))"
proof -
  assume "accounts_ok db"
  have no: "\<not> redeemable (rt_id t) r" if "r \<in> set (rows (db_tokens (snd (rotate_refresh_token db (rt_id t) now))))" for r
  proof -
    from that obtain x where "r = (if redeemable (rt_id t) x then x\<lparr>rt_rotated_at := Some now\<rparr> else x)"
      unfolding rotate_rows by blast
    then show ?thesis by (cases "redeemable (rt_id t) x") (auto simp: redeemable_def)
  qed
  let ?db = "snd (rotate_refresh_token db (rt_id t) now)"
  have "count_rows (redeemable (rt_id t)) (db_tokens ?db) = 0" "update_rows (redeemable (rt_id t)) f (db_tokens ?db) = db_tokens ?db" for f
    using no by (simp_all add: count_rows_0 update_rows_id)
  then show ?thesis by (simp add: rotate_refresh_token_def [of ?db])
qed

lemma revoke_hashes:
  "rt_hash ` set (rows (db_tokens (snd (revoke_refresh_token_family db f now)))) \<subseteq> rt_hash ` set (rows (db_tokens db))"
  by (auto simp: revoke_refresh_token_family_def revoke_where_def)

lemma purge_subset: "set (rows (db_tokens (snd (delete_expired_refresh_tokens db now)))) \<subseteq> set (rows (db_tokens db))"
  by (auto simp: delete_expired_refresh_tokens_def)

section \<open>Properties of the refresh\<close>

text \<open>
  A refresh always comes to an answer: whatever the database holds, six statements bring it to
  its end, so the handler never falls through.
\<close>

theorem refresh_answers:
  "\<exists>outcome won db'. refresh_run 6 sv auth rq db (R_Purge value) = (R_Done outcome won, db')"
proof -
  have "refresh_rank (fst (refresh_run 6 sv auth rq db (R_Purge value))) = 0"
    using refresh_run_rank [of 6 sv auth rq db "R_Purge value"] by (simp add: refresh_rank_def)
  then show ?thesis unfolding refresh_rank_0 by (metis prod.collapse)
qed

text \<open>
  C1: However the statements of any number of refreshes interleave with each other and with the
  rest of the server, two refreshes that both succeed have rotated different tokens: one refresh
  token is never exchanged for two successors.
\<close>

theorem single_winner:
  assumes "accounts_ok db" "\<forall>w \<in> set ws. \<exists>value. snd w = R_Purge value"
    "reachable_system sv auth (db, ws) (db', ws')" "i < length ws'" "j < length ws'" "i \<noteq> j"
    "snd (ws' ! i) = R_Done (Inr x) a" "snd (ws' ! j) = R_Done (Inr y) b"
  shows "a \<noteq> None \<and> b \<noteq> None \<and> a \<noteq> b"
proof -
  have start: "\<exists>v. snd (ws ! k) = R_Purge v" if "k < length ws" for k
    using assms(2) that by simp
  have "ticket (snd (ws ! k)) = None" "snd (ws ! k) \<noteq> R_Done (Inr z) None" if k: "k < length ws" for k z
  proof -
    obtain v where "snd (ws ! k) = R_Purge v" using start [OF k] ..
    then show "ticket (snd (ws ! k)) = None" "snd (ws ! k) \<noteq> R_Done (Inr z) None" by (simp_all add: ticket_def)
  qed
  then have "system_inv (db, ws)" using assms(1) by (simp add: system_inv_def)
  with assms(3) have inv: "system_inv (db', ws')" by (rule system_inv_reachable)
  then have "snd (ws' ! k) \<noteq> R_Done (Inr z) None" if "k < length ws'" for k z
    using that by (simp add: system_inv_def)
  then have "a \<noteq> None" "b \<noteq> None" using assms(4,5,7,8) by metis+
  moreover have "a \<noteq> b"
  proof
    assume "a = b"
    with \<open>a \<noteq> None\<close> obtain k where "ticket (snd (ws' ! i)) = Some k" "ticket (snd (ws' ! j)) = Some k"
      using assms(7,8) by (auto simp: ticket_def)
    with inv assms(4,5,6) show False by (simp add: system_inv_def)
  qed
  ultimately show ?thesis by blast
qed

lemma revoked_is_refused:
  assumes "accounts_ok db" "t \<in> set (rows (db_tokens db))" "rt_revoked_at t \<noteq> None"
    "hash_refresh_token (sv_crypto sv) value = rt_hash t" "length value \<le> max_refresh_token_len"
  shows "refresh_run (Suc (Suc n)) sv auth rq db (R_Purge value) =
    (R_Done (Inl invalid_refresh) None, snd (delete_expired_refresh_tokens db (rq_now rq)))"
proof -
  let ?db = "snd (delete_expired_refresh_tokens db (rq_now rq))"
  have "find_refresh_token_by_hash ?db (rt_hash t) = Inr None \<or> find_refresh_token_by_hash ?db (rt_hash t) = Inr (Some t)"
  proof (cases "t \<in> set (rows (db_tokens ?db))")
    case True
    then show ?thesis using find_by_hash [OF delete_expired_ok [OF assms(1)]] by blast
  next
    case False
    have "inj_on rt_hash (set (rows (db_tokens db)))" using assms(1) by (simp add: accounts_ok_def tokens_ok_def distinct_map)
    then have "select_row (\<lambda>r. rt_hash r = rt_hash t) (db_tokens ?db) = None"
      using False assms(2) by (auto simp: select_row_None delete_expired_refresh_tokens_def dest: inj_onD)
    then show ?thesis by (simp add: find_refresh_token_by_hash_def)
  qed
  then show ?thesis
    using assms(3,4,5) by (auto simp: sanitize_refresh_token_def judge_record_def)
qed

text \<open>
  C3: Reuse detection: presenting a token that was already exchanged is refused with the generic
  401. When the token was not revoked by then, no token of its family can be redeemed afterwards; when
  it was, nothing is revoked and only the purge has removed rows, all of them expired and revoked.
\<close>

theorem refresh_replay_kills_family:
  assumes "accounts_ok db" "sv_auth sv = Some auth" "length value \<le> max_refresh_token_len"
    "t \<in> set (rows (db_tokens db))" "rt_hash t = hash_refresh_token (sv_crypto sv) value"
    "rt_rotated_at t \<noteq> None" "refresh sv rq (Inr value) db = (resp, db')"
  shows "resp = error_response invalid_refresh None \<and>
    (rt_revoked_at t = None \<longrightarrow> (\<forall>r \<in> set (rows (db_tokens db')). rt_family r = rt_family t \<longrightarrow> \<not> unspent r)) \<and>
    (rt_revoked_at t \<noteq> None \<longrightarrow> (\<exists>kept. db' = db\<lparr>db_tokens := kept\<rparr> \<and> set (rows kept) \<subseteq> set (rows (db_tokens db)) \<and>
      (\<forall>r \<in> set (rows (db_tokens db)) - set (rows kept). rt_expires_at r < rq_now rq \<and> rt_revoked_at r \<noteq> None)))"
proof (cases "rt_revoked_at t")
  case None
  let ?db = "snd (delete_expired_refresh_tokens db (rq_now rq))"
  have n: "(6::nat) = Suc (Suc (Suc 3))" by simp
  have "refresh_run 6 sv auth rq db (R_Purge value) =
      (R_Done (Inl invalid_refresh) None, snd (revoke_refresh_token_family ?db (rt_family t) (rq_now rq)))"
    unfolding n
    using assms(6) refresh_run_found [OF assms(1,4) None assms(5) [symmetric] assms(3), of "Suc 3" auth rq] None
    by (simp add: judge_record_def numeral_eq_Suc)
  then show ?thesis
    using assms(2,7) family_dead None by (auto simp: refresh_def auth_context_of_def)
next
  case (Some at)
  let ?db = "snd (delete_expired_refresh_tokens db (rq_now rq))"
  have n: "(6::nat) = Suc (Suc 4)" by simp
  have "fst (refresh_run 6 sv auth rq db (R_Purge value)) = R_Done (Inl invalid_refresh) None \<and>
      snd (refresh_run 6 sv auth rq db (R_Purge value)) = ?db"
    unfolding n using revoked_is_refused [OF assms(1,4) _ assms(5) [symmetric] assms(3), of 4 auth rq] Some by simp
  then have r: "refresh_run 6 sv auth rq db (R_Purge value) = (R_Done (Inl invalid_refresh) None, ?db)"
    by (simp add: prod_eq_iff)
  have kept: "db' = ?db" "resp = error_response invalid_refresh None"
    using r assms(2,7) by (auto simp: refresh_def auth_context_of_def)
  have "db' = db\<lparr>db_tokens := delete_rows (purgeable (rq_now rq)) (db_tokens db)\<rparr>"
    unfolding kept by (simp add: delete_expired_refresh_tokens_def)
  then show ?thesis using kept(2) Some
    by (intro conjI impI exI [of _ "delete_rows (purgeable (rq_now rq)) (db_tokens db)"]) (auto simp: purgeable_def)
qed

lemma refresh_replay_kills_family_witness:
  "\<exists>resp db. refresh sample_server (sample_request ''d'' 20) (Inr ''a'') (snd (rotate_refresh_token two_sessions 1 9)) = (resp, db) \<and>
     resp = error_response invalid_refresh None \<and> (\<forall>r \<in> set (rows (db_tokens db)). rt_family r = 1 \<longrightarrow> \<not> unspent r)"
proof -
  let ?db = "snd (rotate_refresh_token two_sessions 1 9)"
  let ?t = "(token_row (sample_session ''a'') 1 1)\<lparr>rt_rotated_at := Some 9\<rparr>"
  obtain resp db where r: "refresh sample_server (sample_request ''d'' 20) (Inr ''a'') ?db = (resp, db)" by force
  have t: "?t \<in> set (rows (db_tokens ?db))" "rt_family ?t = 1"
    by (simp_all add: rotate_rows two_sessions_rows redeemable_def token_row_def)
  have h: "rt_hash ?t = hash_refresh_token (sv_crypto sample_server) ''a''" "rt_rotated_at ?t \<noteq> None" "rt_revoked_at ?t = None"
      "length ''a'' \<le> max_refresh_token_len"
    by (simp_all add: max_refresh_token_len_def token_row_def sample_session_def sample_server_crypto)
  from refresh_replay_kills_family [OF rotate_refresh_token_ok [OF two_sessions_ok] sample_server_crypto(2) h(4) t(1) h(1,2) r]
  show ?thesis using r t(2) h(3) by auto
qed

text \<open>
  C2: A refresh goes through: a token that was neither rotated nor revoked nor has expired, of an
  account that still exists, is exchanged for an access token of its user and a successor in the
  same family with a full lifetime. Afterwards the presented token cannot be redeemed. Every other token
  stays as it was, unless it was both revoked and past its expiry, and the successor is the only new one.
\<close>

theorem refresh_rotates:
  assumes "accounts_ok db" "sv_auth sv = Some auth" "can_refresh sv auth rq db value t u access"
  shows "\<exists>db' n. refresh sv rq (Inr value) db = (login_response sv (refreshed sv auth rq u access), db') \<and>
    n \<in> set (rows (db_tokens db')) \<and> is_successor sv auth rq t n \<and> accounts_ok db' \<and>
    (\<forall>r \<in> set (rows (db_tokens db')). rt_id r = rt_id t \<longrightarrow> \<not> unspent r) \<and>
    (\<forall>r \<in> set (rows (db_tokens db)). rt_id r \<noteq> rt_id t \<longrightarrow> r \<in> set (rows (db_tokens db')) \<or> rt_expires_at r < rq_now rq \<and> rt_revoked_at r \<noteq> None) \<and>
    (\<forall>r \<in> set (rows (db_tokens db')). rt_id r \<noteq> rt_id t \<longrightarrow> r = n \<or> r \<in> set (rows (db_tokens db)))"
proof -
  let ?p = "snd (delete_expired_refresh_tokens db (rq_now rq))"
  let ?r = "snd (rotate_refresh_token ?p (rt_id t) (rq_now rq))"
  obtain db' n where r: "refresh_run 6 sv auth rq db (R_Purge value) =
      (R_Done (Inr (refreshed sv auth rq u access)) (Some (rt_id t)), db')" "is_successor sv auth rq t n"
    "rows (db_tokens db') = rows (db_tokens ?r) @ [n]" "accounts_ok db'"
    using refresh_run_success [OF assms(1,3)] by blast
  have "refresh sv rq (Inr value) db = (login_response sv (refreshed sv auth rq u access), db')"
    using r(1) assms(2) by (simp add: refresh_def auth_context_of_def)
  moreover have "\<not> unspent x" if "x \<in> set (rows (db_tokens db'))" "rt_id x = rt_id t" for x
  proof -
    have dist: "distinct (map rt_id (rows (db_tokens db')))"
      using r(4) store_ok_distinct by (auto simp: accounts_ok_def tokens_ok_def)
    have "t \<in> set (rows (db_tokens ?p))" using assms(3) by (auto intro: purge_keeps simp: can_refresh_def unspent_def)
    then have "(if redeemable (rt_id t) t then t\<lparr>rt_rotated_at := Some (rq_now rq)\<rparr> else t) \<in> set (rows (db_tokens ?r))"
      unfolding rotate_rows by blast
    moreover have "rt_id (if redeemable (rt_id t) t then t\<lparr>rt_rotated_at := Some (rq_now rq)\<rparr> else t) = rt_id t" by simp
    ultimately obtain y where y: "y \<in> set (rows (db_tokens ?r))" "rt_id y = rt_id t" by blast
    from imageI [OF y(1), of rt_id] have "rt_id t \<in> rt_id ` set (rows (db_tokens ?r))" unfolding y(2) .
    with dist have "x \<noteq> n" using that(2) r(3) by auto
    with that(1) have "x \<in> set (rows (db_tokens ?r))" using r(3) by auto
    then obtain z where "x = (if redeemable (rt_id t) z then z\<lparr>rt_rotated_at := Some (rq_now rq)\<rparr> else z)"
      unfolding rotate_rows by blast
    with that(2) show ?thesis by (cases "redeemable (rt_id t) z") (auto simp: redeemable_def unspent_def)
  qed
  moreover have "x = n \<or> x \<in> set (rows (db_tokens db))" if x: "x \<in> set (rows (db_tokens db'))" "rt_id x \<noteq> rt_id t" for x
  proof (cases "x = n")
    case False
    with x(1) have "x \<in> set (rows (db_tokens ?r))" using r(3) by auto
    then obtain z where z: "z \<in> set (rows (db_tokens ?p))" "x = (if redeemable (rt_id t) z then z\<lparr>rt_rotated_at := Some (rq_now rq)\<rparr> else z)"
      unfolding rotate_rows by blast
    with x(2) have "x = z" by (auto simp: redeemable_def split: if_splits)
    with z(1) show ?thesis by (simp add: delete_expired_refresh_tokens_def)
  qed simp
  moreover have "x \<in> set (rows (db_tokens db')) \<or> rt_expires_at x < rq_now rq \<and> rt_revoked_at x \<noteq> None"
    if "x \<in> set (rows (db_tokens db))" "rt_id x \<noteq> rt_id t" for x
  proof (cases "purgeable (rq_now rq) x")
    case False
    then have "x \<in> set (rows (db_tokens ?p))" using that(1) by (simp add: delete_expired_refresh_tokens_def)
    with that(2) have "x \<in> set (rows (db_tokens ?r))" unfolding rotate_rows by (auto simp: redeemable_def intro!: bexI [of _ x])
    with r(3) show ?thesis by simp
  qed (simp add: purgeable_def)
  ultimately show ?thesis using r(2,3,4) by (intro exI [of _ db'] exI [of _ n]) simp
qed

lemma refresh_rotates_witness:
  "\<exists>db' n. refresh sample_server (sample_request ''c'' 9) (Inr ''a'') two_sessions =
      (login_response sample_server (refreshed sample_server sample_auth (sample_request ''c'' 9) ann ''k;1;ann;admin;iss;9;69''), db') \<and>
    n \<in> set (rows (db_tokens db')) \<and>
    is_successor sample_server sample_auth (sample_request ''c'' 9) (token_row (sample_session ''a'') 1 1) n \<and> accounts_ok db' \<and>
    (\<forall>r \<in> set (rows (db_tokens db')). rt_id r = rt_id (token_row (sample_session ''a'') 1 1) \<longrightarrow> \<not> unspent r) \<and>
    (\<forall>r \<in> set (rows (db_tokens two_sessions)). rt_id r \<noteq> rt_id (token_row (sample_session ''a'') 1 1) \<longrightarrow>
      r \<in> set (rows (db_tokens db')) \<or> rt_expires_at r < rq_now (sample_request ''c'' 9) \<and> rt_revoked_at r \<noteq> None) \<and>
    (\<forall>r \<in> set (rows (db_tokens db')). rt_id r \<noteq> rt_id (token_row (sample_session ''a'') 1 1) \<longrightarrow>
      r = n \<or> r \<in> set (rows (db_tokens two_sessions)))"
  by (rule refresh_rotates [OF two_sessions_ok sample_server_crypto(2) two_sessions_can_refresh])

text \<open>Both sessions of the sample refresh, one after the other.\<close>

lemma second_can_refresh:
  assumes "refresh_run 6 sample_server sample_auth (sample_request ''c'' 9) two_sessions (R_Purge ''a'') = (pc, db)"
  shows "can_refresh sample_server sample_auth (sample_request ''d'' 9) db ''b'' (token_row (sample_session ''b'') 2 2) ann ''k;1;ann;admin;iss;9;69''"
    and "accounts_ok db"
    and "pc = R_Done (Inr (refreshed sample_server sample_auth (sample_request ''c'' 9) ann ''k;1;ann;admin;iss;9;69'')) (Some 1)"
proof -
  obtain n where r: "pc = R_Done (Inr (refreshed sample_server sample_auth (sample_request ''c'' 9) ann ''k;1;ann;admin;iss;9;69'')) (Some 1)"
      "is_successor sample_server sample_auth (sample_request ''c'' 9) (token_row (sample_session ''a'') 1 1) n"
      "rows (db_tokens db) = rows (db_tokens (snd (rotate_refresh_token (snd (delete_expired_refresh_tokens two_sessions 9)) 1 9))) @ [n]"
      "accounts_ok db" "db_users db = db_users two_sessions"
    using refresh_run_success [OF two_sessions_ok two_sessions_can_refresh] assms
    by (auto simp: sample_request_now token_row_def)
  then show "accounts_ok db" "pc = R_Done (Inr (refreshed sample_server sample_auth (sample_request ''c'' 9) ann ''k;1;ann;admin;iss;9;69'')) (Some 1)"
    by simp_all
  let ?t = "token_row (sample_session ''b'') 2 2"
  have p: "rows (db_tokens (snd (delete_expired_refresh_tokens two_sessions 9))) = [token_row (sample_session ''a'') 1 1, ?t]"
    by (simp add: delete_expired_refresh_tokens_def two_sessions_rows purgeable_def token_row_def sample_session_def)
  have rot: "rows (db_tokens (snd (rotate_refresh_token (snd (delete_expired_refresh_tokens two_sessions 9)) 1 9))) =
      [(token_row (sample_session ''a'') 1 1)\<lparr>rt_rotated_at := Some 9\<rparr>, ?t]"
    by (simp add: rotate_refresh_token_def p redeemable_def token_row_def)
  have "find_user_by_id db 1 = Inr (Some ann)"
    using two_sessions_user r(5) by (simp add: find_user_by_id_def)
  moreover have "new_hash sample_server (sample_request ''d'' 9) = ''64''"
    by (simp add: new_hash_def sample_server_def sample_request_def generate_refresh_token_def hash_refresh_token_def
        plain_crypto_def hex_def hex_lower_def code_def refresh_token_bytes_def)
  ultimately show "can_refresh sample_server sample_auth (sample_request ''d'' 9) db ''b'' ?t ann ''k;1;ann;admin;iss;9;69''"
    using r(2) by (simp add: can_refresh_def r(3) rot sample_new_hash sample_hashes is_successor_def token_row_def
      sample_session_def sample_server_crypto sample_request_now max_refresh_token_len_def unspent_def sample_access)
qed

lemma single_winner_witness:
  "\<exists>x y a b ws db. reachable_system sample_server sample_auth
      (two_sessions, [(sample_request ''c'' 9, R_Purge ''a''), (sample_request ''d'' 9, R_Purge ''b'')]) (db, ws) \<and>
    snd (ws ! 0) = R_Done (Inr x) a \<and> snd (ws ! 1) = R_Done (Inr y) b \<and> a \<noteq> None \<and> b \<noteq> None \<and> a \<noteq> b"
proof -
  let ?s = "(two_sessions, [(sample_request ''c'' 9, R_Purge ''a''), (sample_request ''d'' 9, R_Purge ''b'')])"
  obtain pc db1 where r1: "refresh_run 6 sample_server sample_auth (sample_request ''c'' 9) two_sessions (R_Purge ''a'') = (pc, db1)" by force
  note c = second_can_refresh [OF r1]
  obtain db2 where r2: "refresh_run 6 sample_server sample_auth (sample_request ''d'' 9) db1 (R_Purge ''b'') =
      (R_Done (Inr (refreshed sample_server sample_auth (sample_request ''d'' 9) ann ''k;1;ann;admin;iss;9;69'')) (Some 2), db2)"
    using refresh_run_success [OF c(2,1)] by (auto simp: token_row_def)
  have "reachable_system sample_server sample_auth ?s ?s" by (simp add: reachable_system_def)
  from reach_run [OF this _ _ r1, of 0]
  have s1: "reachable_system sample_server sample_auth ?s (db1, [(sample_request ''c'' 9, pc), (sample_request ''d'' 9, R_Purge ''b'')])" by simp
  from reach_run [OF s1 _ _ r2, of 1]
  have s2: "reachable_system sample_server sample_auth ?s (db2, [(sample_request ''c'' 9, pc), (sample_request ''d'' 9,
      R_Done (Inr (refreshed sample_server sample_auth (sample_request ''d'' 9) ann ''k;1;ann;admin;iss;9;69'')) (Some 2))])" by simp
  have "Some (1::int) \<noteq> None \<and> Some (2::int) \<noteq> None \<and> Some 1 \<noteq> Some (2::int)"
    by (rule single_winner [OF two_sessions_ok _ s2, of 0 1]) (simp_all add: c(3))
  with s2 show ?thesis unfolding c(3) by fastforce
qed
text \<open>
  What two simultaneous presentations of one token can come to: the loser is refused and has
  revoked the family, but the winner inserts its successor after that revocation, so a live token
  of the family survives the theft response. The rotation and the insertion are two statements, and
  the revocation reaches only the rows that exist when it runs.
\<close>

theorem revocation_misses_successor:
  assumes "accounts_ok db" "can_refresh sv auth rq db value t u access" "rq_now rq' < rt_expires_at t"
  shows "\<exists>db' n. reachable_system sv auth (db, [(rq, R_Purge value), (rq', R_Purge value)])
      (db', [(rq, R_Done (Inr (refreshed sv auth rq u access)) (Some (rt_id t))), (rq', R_Done (Inl invalid_refresh) None)]) \<and>
    n \<in> set (rows (db_tokens db')) \<and> is_successor sv auth rq t n"
proof -
  from assms(2) have c: "t \<in> set (rows (db_tokens db))" "hash_refresh_token (sv_crypto sv) value = rt_hash t"
      "length value \<le> max_refresh_token_len" "unspent t" "rq_now rq < rt_expires_at t"
      "find_user_by_id db (rt_user t) = Inr (Some u)"
      "issue_token_at (sv_crypto sv) (ax_jwt auth) u (nat (rq_now rq)) = Some access"
      "\<forall>r \<in> set (rows (db_tokens db)). rt_hash r \<noteq> new_hash sv rq"
    by (auto simp: can_refresh_def)
  have live: "rt_revoked_at t = None" "rt_rotated_at t = None" using c(4) by (simp_all add: unspent_def)
  let ?s = "(db, [(rq, R_Purge value), (rq', R_Purge value)])"
  define d1 where "d1 = snd (delete_expired_refresh_tokens db (rq_now rq))"
  define d2 where "d2 = snd (delete_expired_refresh_tokens d1 (rq_now rq'))"
  define d3 where "d3 = snd (rotate_refresh_token d2 (rt_id t) (rq_now rq))"
  define d4 where "d4 = snd (revoke_refresh_token_family d3 (rt_family t) (rq_now rq'))"
  have ok1: "accounts_ok d1" and ok2: "accounts_ok d2" using assms(1) delete_expired_ok by (simp_all add: d1_def d2_def)
  have t1: "t \<in> set (rows (db_tokens d1))" unfolding d1_def by (rule purge_keeps [OF c(1) live(1)])
  have t2: "t \<in> set (rows (db_tokens d2))" unfolding d2_def by (rule purge_keeps [OF t1 live(1)])
  have "db_users d4 = db_users db"
    by (simp add: d4_def d3_def d2_def d1_def revoke_refresh_token_family_def revoke_where_def rotate_refresh_token_def)
  then have user: "find_user_by_id d4 i = find_user_by_id db i" "find_user_by_id d3 i = find_user_by_id db i" for i
    by (simp_all add: find_user_by_id_def d4_def d3_def d2_def d1_def revoke_refresh_token_family_def revoke_where_def rotate_refresh_token_def)
  with c(6) found_user_id have u: "u_id u = rt_user t" "user_exists d4 (rt_user t)" by metis+
  have "rt_hash ` set (rows (db_tokens d4)) \<subseteq> rt_hash ` set (rows (db_tokens db))"
    unfolding d4_def d3_def d2_def d1_def
    using revoke_hashes rotate_hashes purge_subset by (meson image_mono order_trans)
  then have "\<forall>r \<in> set (rows (db_tokens d4)). rt_hash r \<noteq> new_hash sv rq"
    using c(8) by (simp add: image_subset_iff) (metis imageE)
  then obtain d5 n where i: "refresh_step sv auth rq d4 (R_Issue t u access) =
      (R_Done (Inr (refreshed sv auth rq u access)) (Some (rt_id t)), d5)"
    "rows (db_tokens d5) = rows (db_tokens d4) @ [n]" "is_successor sv auth rq t n"
    using step_issue [where access = access, OF u(2,1)] by blast
  have j: "judge_record (rq_now rq) t = R_Rotate t" "judge_record (rq_now rq') t = R_Rotate t"
    using live c(5) assms(3) by (simp_all add: judge_record_def)
  have run1: "refresh_run (Suc (Suc 0)) sv auth rq db (R_Purge value) = (R_Rotate t, d1)"
    unfolding refresh_run_found [OF assms(1) c(1) live(1) c(2,3)] j by (simp add: d1_def)
  have run2: "refresh_run (Suc (Suc 0)) sv auth rq' d1 (R_Purge value) = (R_Rotate t, d2)"
    unfolding refresh_run_found [OF ok1 t1 live(1) c(2,3)] j by (simp add: d2_def)
  have "reachable_system sv auth ?s ?s" by (simp add: reachable_system_def)
  from reach_run [OF this _ _ run1, of 0]
  have s1: "reachable_system sv auth ?s (d1, [(rq, R_Rotate t), (rq', R_Purge value)])" by simp
  note rotate = step_rotate [OF ok2 t2 c(4), of sv auth rq, folded d3_def]
  have user_step: "refresh_step sv auth rq d3 (R_User t) = (R_Issue t u access, d3)"
    using user c(6,7) by (intro step_user) simp_all
  note lose = rotate_again [OF ok2, of sv auth rq' t "rq_now rq", folded d3_def]
  have revoke: "refresh_step sv auth rq' d3 (R_Revoke (rt_family t) None) = (R_Done (Inl invalid_refresh) None, d4)"
    by (simp add: d4_def)
  from reach_run [OF s1 _ _ run2, of 1]
  have s2: "reachable_system sv auth ?s (d2, [(rq, R_Rotate t), (rq', R_Rotate t)])" by simp
  from reach_worker [OF s2 _ _ rotate, of 0]
  have s3: "reachable_system sv auth ?s (d3, [(rq, R_User t), (rq', R_Rotate t)])" by simp
  from reach_worker [OF s3 _ _ user_step, of 0]
  have s4: "reachable_system sv auth ?s (d3, [(rq, R_Issue t u access), (rq', R_Rotate t)])" by simp
  from reach_worker [OF s4 _ _ lose, of 1]
  have s5: "reachable_system sv auth ?s (d3, [(rq, R_Issue t u access), (rq', R_Revoke (rt_family t) None)])" by simp
  from reach_worker [OF s5 _ _ revoke, of 1]
  have s6: "reachable_system sv auth ?s (d4, [(rq, R_Issue t u access), (rq', R_Done (Inl invalid_refresh) None)])" by simp
  from reach_worker [OF s6 _ _ i(1), of 0]
  have "reachable_system sv auth ?s
      (d5, [(rq, R_Done (Inr (refreshed sv auth rq u access)) (Some (rt_id t))), (rq', R_Done (Inl invalid_refresh) None)])" by simp
  with i(2,3) show ?thesis by (intro exI [of _ d5] exI [of _ n]) simp
qed

lemma revocation_misses_successor_witness:
  "\<exists>db' n. reachable_system sample_server sample_auth
      (two_sessions, [(sample_request ''c'' 9, R_Purge ''a''), (sample_request ''d'' 10, R_Purge ''a'')])
      (db', [(sample_request ''c'' 9, R_Done (Inr (refreshed sample_server sample_auth (sample_request ''c'' 9) ann ''k;1;ann;admin;iss;9;69''))
                (Some (rt_id (token_row (sample_session ''a'') 1 1)))),
             (sample_request ''d'' 10, R_Done (Inl invalid_refresh) None)]) \<and>
    n \<in> set (rows (db_tokens db')) \<and>
    is_successor sample_server sample_auth (sample_request ''c'' 9) (token_row (sample_session ''a'') 1 1) n"
  by (rule revocation_misses_successor [OF two_sessions_ok two_sessions_can_refresh])
    (simp add: sample_request_now token_row_def sample_session_def)

end
