(* ===== verification/Login_Rules.thy ===== *)
theory Login_Rules
  imports Auth_Protocol
begin

text \<open>
  What the handlers of \<open>Auth_Routes\<close> guarantee besides the refresh: a refused login says
  nothing about why, a lockout cannot be beaten with the right password, a registered account can
  log in, a redirect stays on the server, and a logout ends only the caller's own sessions.
\<close>

section \<open>Refused logins\<close>

definition bad_credentials :: "server \<Rightarrow> credentials \<Rightarrow> db \<Rightarrow> bool" where
  "bad_credentials sv c db =
     (case find_user_by_username db (cr_username c) of
        Inr None \<Rightarrow> True
      | Inr (Some u) \<Rightarrow> \<not> verify_password (sv_crypto sv) (cr_password c) (u_password_hash u)
      | Inl _ \<Rightarrow> False)"

lemma issue_login_bad:
  "sv_auth sv = Some auth \<Longrightarrow> bad_credentials sv c db \<Longrightarrow>
   issue_login sv rq c db = (Inl (Unauthorized ''invalid username or password''), db)"
  by (auto simp: issue_login_def auth_context_of_def bad_credentials_def split: sum.splits option.splits)

lemma login_bad:
  assumes "sv_auth sv = Some auth" "read_credentials sv rq input = Inr (c, redirect)" "bad_credentials sv c (st_db st)"
  shows "login sv rq input st =
    (case check_at (st_throttle st) (client_ip_of sv rq) (cr_username c) (rq_instant rq) of
       Rejected n \<Rightarrow>
         (if is_form_input input then invalid_login_redirect sv redirect else error_response (rate_limited n) (rq_id rq),
          st\<lparr>st_rate_limited := Suc (st_rate_limited st)\<rparr>)
     | Allowed _ \<Rightarrow>
         (if is_form_input input then invalid_login_redirect sv redirect
          else error_response (Unauthorized ''invalid username or password'') (rq_id rq),
          st\<lparr>st_throttle := record_failure_at (st_throttle st) (client_ip_of sv rq) (cr_username c) (rq_instant rq)\<rparr>))"
  using assms(2) issue_login_bad [OF assms(1,3), of rq]
  by (simp add: login_def status_code_def split: decision.split)

text \<open>
  C9: A refused login does not say why: for a name nobody has and for a wrong password the answer,
  the state of the throttle and the counters are the same, no account data changes, and the
  response opens no session.
\<close>

theorem login_refusal_uniform:
  assumes "sv_auth sv = Some auth" "read_credentials sv rq input = Inr (c, redirect)"
    "bad_credentials sv c (st_db st)" "bad_credentials sv c other"
  shows "\<exists>resp st'. login sv rq input st = (resp, st') \<and> login sv rq input (st\<lparr>st_db := other\<rparr>) = (resp, st'\<lparr>st_db := other\<rparr>) \<and>
    st_db st' = st_db st \<and> rs_set_cookie resp \<in> {None, Some (clear_cookie sv)} \<and> rs_status resp \<notin> {200, 201} \<and>
    (rs_status resp = 401 \<longrightarrow> resp = error_response (Unauthorized ''invalid username or password'') (rq_id rq))"
proof -
  have "bad_credentials sv c (st_db (st\<lparr>st_db := other\<rparr>))" using assms(4) by simp
  from login_bad [OF assms(1-3)] login_bad [OF assms(1,2) this] show ?thesis
    by (simp add: invalid_login_redirect_def redirect_response_def aborted_def error_response_def rate_limited_def
        status_code_def split: decision.split)
qed

text \<open>A server with one account, and two wrong logins: an unknown name and a wrong password.\<close>

definition guest :: credentials where
  "guest = \<lparr>cr_username = ''bob'', cr_password = ''12345678''\<rparr>"

definition bob :: user where
  "bob = \<lparr>u_id = 1, u_username = ''bob'', u_password_hash = ''s:other'', u_role = User, u_created_at = 0, u_last_login_at = None\<rparr>"

definition bob_db :: db where
  "bob_db = snd (create_user empty_db 0 ''bob'' ''s:other'' User)"

definition fresh_state :: "db \<Rightarrow> state" where
  "fresh_state db = \<lparr>st_db = db, st_throttle = new_throttle, st_rate_limited = 0\<rparr>"

lemma bob_created: "create_user empty_db 0 ''bob'' ''s:other'' User = (Inr bob, bob_db)"
  by (simp add: prod_eq_iff bob_db_def)
    (simp add: bob_def create_user_def empty_db_def empty_store_def insert_row_def sync_membership_def org_id_def select_row_def)

lemma bob_found: "find_user_by_username bob_db ''bob'' = Inr (Some bob)"
  by (rule created_user_found [OF bob_created refl])

lemma nobody_found: "find_user_by_username empty_db name = Inr None"
  by (simp add: find_user_by_username_def empty_db_def empty_store_def select_row_def user_of_optional_def)

lemma guest_bad: "bad_credentials sample_server guest bob_db" "bad_credentials sample_server guest empty_db"
  unfolding bad_credentials_def guest_def credentials.simps bob_found nobody_found
  by (simp_all add: verify_password_def sample_server_crypto plain_crypto_def ends_with_def starts_with_def bob_def)

lemma login_refusal_uniform_witness:
  "\<exists>resp st'. login sample_server (sample_request [] 0) (Json (Inr guest)) (fresh_state bob_db) = (resp, st') \<and>
    login sample_server (sample_request [] 0) (Json (Inr guest)) ((fresh_state bob_db)\<lparr>st_db := empty_db\<rparr>) = (resp, st'\<lparr>st_db := empty_db\<rparr>) \<and>
    st_db st' = st_db (fresh_state bob_db) \<and> rs_set_cookie resp \<in> {None, Some (clear_cookie sample_server)} \<and> rs_status resp \<notin> {200, 201} \<and>
    (rs_status resp = 401 \<longrightarrow> resp = error_response (Unauthorized ''invalid username or password'') (rq_id (sample_request [] 0)))"
  by (rule login_refusal_uniform [OF sample_server_crypto(2), where c = guest and redirect = "[]"])
    (simp_all add: read_credentials_def fresh_state_def guest_bad [simplified])

text \<open>
  A lockout cannot be beaten: while the throttle refuses a name from an address, the answer does
  not depend on the password or on the accounts, and nothing but the counter of refusals changes.
\<close>

theorem login_locked_out:
  assumes "read_credentials sv rq input = Inr (c, redirect)" "read_credentials sv rq input' = Inr (c', redirect)"
    "is_form_input input' = is_form_input input" "cr_username c' = cr_username c"
    "\<not> is_allowed (check_at (st_throttle st) (client_ip_of sv rq) (cr_username c) (rq_instant rq))"
  shows "login sv rq input st =
      (fst (login sv rq input' (st\<lparr>st_db := other\<rparr>)), st\<lparr>st_rate_limited := Suc (st_rate_limited st)\<rparr>) \<and>
    rs_status (fst (login sv rq input st)) = (if is_form_input input then rs_status (invalid_login_redirect sv redirect) else 429)"
  using assms by (cases "check_at (st_throttle st) (client_ip_of sv rq) (cr_username c) (rq_instant rq)")
    (simp_all add: is_allowed_def login_def error_response_def rate_limited_def status_code_def)

lemma sample_client_ip: "client_ip_of sample_server (sample_request e now) = V4 0"
  by (simp add: client_ip_of_def sample_server_def sample_request_def resolve_client_ip_def is_trusted_def)

lemma sample_instant: "rq_instant (sample_request e now) = 0"
  by (simp add: sample_request_def)

definition locked_state :: state where
  "locked_state = (fresh_state bob_db)\<lparr>st_throttle :=
     record_failures new_throttle (V4 0) ([(''bob'', 0), (''bob'', 0), (''Bob'', 0), (''bob'', 0)] @ [(''bob'', 0)])\<rparr>"

lemma bob_locked: "\<not> is_allowed (check_at (st_throttle locked_state) (V4 0) ''bob'' 0)"
proof -
  let ?fs = "[(''bob'', 0), (''bob'', 0), (''Bob'', 0), (''bob'', 0)] :: (string \<times> nat) list"
  have "pair_of new_throttle (V4 0) ''bob'' = None" by (simp add: pair_of_def new_throttle_def)
  moreover have "\<forall>f \<in> set ?fs. lowercase (fst f) = lowercase ''bob''"
    by (simp add: lowercase_def to_lower_def is_upper_def code_def char_of_def bit_0)
  ultimately obtain e where "pair_of (record_failures new_throttle (V4 0) (?fs @ [(''bob'', 0)])) (V4 0) ''bob'' = Some e"
      "pair_locked_until e = Some (0 + secs 30)"
    using fifth_failure [OF throttle_ok_new, of "V4 0" "''bob''" ?fs "''bob''" 0] by auto
  moreover have "st_throttle locked_state = record_failures new_throttle (V4 0) (?fs @ [(''bob'', 0)])"
    by (simp add: locked_state_def)
  ultimately show ?thesis by (intro check_at_pair_locked) (auto simp: locked_at_def secs_def)
qed

lemma login_locked_out_witness:
  "login sample_server (sample_request [] 0) (Json (Inr guest)) locked_state =
      (fst (login sample_server (sample_request [] 0) (Json (Inr \<lparr>cr_username = ''bob'', cr_password = ''other''\<rparr>)) (locked_state\<lparr>st_db := empty_db\<rparr>)),
       locked_state\<lparr>st_rate_limited := Suc (st_rate_limited locked_state)\<rparr>) \<and>
    rs_status (fst (login sample_server (sample_request [] 0) (Json (Inr guest)) locked_state)) =
      (if is_form_input (Json (Inr guest)) then rs_status (invalid_login_redirect sample_server []) else 429)"
  by (rule login_locked_out [where c = guest and redirect = "[]" and c' = "\<lparr>cr_username = ''bob'', cr_password = ''other''\<rparr>"])
    (simp_all add: read_credentials_def is_form_input_def guest_def sample_client_ip bob_locked sample_instant)

section \<open>Registration\<close>

text \<open>Argon2's contract: a password verifies against its own hash.\<close>

definition argon2_crate :: "crypto \<Rightarrow> bool" where
  "argon2_crate cr \<longleftrightarrow> (\<forall>salt p h. argon2_hash cr salt p = Some h \<longrightarrow> argon2_verify cr p h = Some True)"

lemma plain_argon2_crate: "argon2_crate plain_crypto"
  by (auto simp: argon2_crate_def plain_crypto_def ends_with_iff intro: exI [of _ "_ @ _"])

lemma count_users_empty: "count_users db = Inr 0 \<longleftrightarrow> rows (db_users db) = []"
  by (simp add: count_users_def)

lemma create_account_Inr:
  "create_account sv rq c role db = (Inr u, db') \<Longrightarrow>
   \<exists>h. create_user db (rq_now rq) (cr_username c) h role = (Inr u, db')"
  by (auto simp: create_account_def split: sum.splits option.splits prod.splits repository_error.splits)

lemma register_account_Inr:
  "register_account sv rq c db = (Inr u, db') \<Longrightarrow>
   \<exists>h. hash_password (sv_crypto sv) (rq_salt rq) (cr_password c) = Some h \<and>
     create_user db (rq_now rq) (cr_username c) h (first_role (int (length (rows (db_users db))))) = (Inr u, db')"
  by (auto simp: register_account_def create_account_def count_users_def split: sum.splits option.splits prod.splits
      repository_error.splits)

lemma recorded_user_stays:
  "create_user db now name h role = (Inr u, db') \<Longrightarrow> user_exists (snd (record_login db' now' (u_id u))) (u_id u)"
  using created_user_row(1) by (fastforce simp: record_login_def user_exists_iff)

lemma issue_fresh_token:
  assumes "user_exists (snd (record_login db now (u_id u))) (u_id u)" "\<forall>r \<in> set (rows (db_tokens db)). rt_hash r \<noteq> new_hash sv rq"
  shows "\<exists>value n db2. issue_refresh_token sv auth rq (snd (record_login db now (u_id u))) u None = (Inr (value, n), db2)"
  using assms
  by (simp add: issue_refresh_token_def Let_def save_refresh_token_def insert_refresh_token_def new_token_def new_hash_def
      record_login_def split_beta)

text \<open>
  Registration ends in an account that works: a JSON registration that answers 201 created an
  administrator if there was no account before and a plain user otherwise, and afterwards a login
  with the same name, in any letter case, and the same password, from an address the throttle does
  not refuse, answers 200 with the same user.
\<close>

theorem register_then_login:
  assumes "argon2_crate (sv_crypto sv)" "sv_auth sv = Some auth" "\<forall>r \<in> set (rows (db_tokens db')). rt_hash r \<noteq> new_hash sv rq'"
    "register sv rq (Json (Inr c)) db = (resp, db')" "rs_status resp = 201"
    "st_db st = db'" "lowercase name = lowercase (cr_username c)"
    "is_allowed (check_at (st_throttle st) (client_ip_of sv rq') name (rq_instant rq'))"
    "\<forall>u. rs_body resp = User_Body (public u) \<longrightarrow> issue_token_at (sv_crypto sv) (ax_jwt auth) u (nat (rq_now rq')) \<noteq> None"
  shows "\<exists>u s. rs_body resp = User_Body (public u) \<and> u_username u = cr_username c \<and>
    u_role u = (if rows (db_users db) = [] then Admin else User) \<and>
    fst (login sv rq' (Json (Inr \<lparr>cr_username = name, cr_password = cr_password c\<rparr>)) st) = login_response sv s \<and>
    ls_user s = public u"
proof -
  obtain u where u: "register_account sv rq c db = (Inr u, db')" "resp = created_response u"
    using assms(4,5)
    by (auto simp: register_def read_credentials_def is_form_input_def Let_def register_failure_def error_response_def
        created_response_def status_code_def split: prod.splits sum.splits app_error.splits)
  obtain h where h: "hash_password (sv_crypto sv) (rq_salt rq) (cr_password c) = Some h"
    "create_user db (rq_now rq) (cr_username c) h (first_role (int (length (rows (db_users db))))) = (Inr u, db')"
    using register_account_Inr [OF u(1)] by blast
  note f = created_user_found [OF h(2) assms(7)] create_user_success(2) [OF h(2)]
  have v: "verify_password (sv_crypto sv) (cr_password c) (u_password_hash u)"
    using assms(1) h(1) f(2) by (simp add: argon2_crate_def hash_password_def verify_password_def)
  obtain access where a: "issue_token_at (sv_crypto sv) (ax_jwt auth) u (nat (rq_now rq')) = Some access"
    using assms(9) u(2) by (auto simp: created_response_def)
  obtain v0 n db2 where t: "issue_refresh_token sv auth rq' (snd (record_login db' (rq_now rq') (u_id u))) u None = (Inr (v0, n), db2)"
    using issue_fresh_token [OF recorded_user_stays [OF h(2)], of sv rq' auth "rq_now rq'"] assms(3) by blast
  define s where "s = \<lparr>ls_access_token = access, ls_user = public u,
    ls_refresh_token = (if ax_refresh_tokens_enabled auth then Some v0 else None),
    ls_refresh_expires_in = (if ax_refresh_tokens_enabled auth then Some (ax_refresh_token_ttl_secs auth) else None)\<rparr>"
  have "fst (issue_login sv rq' \<lparr>cr_username = name, cr_password = cr_password c\<rparr> db') = Inr s"
    using f(1) v a assms(2) t by (simp add: issue_login_def auth_context_of_def s_def Let_def)
  then have "fst (login sv rq' (Json (Inr \<lparr>cr_username = name, cr_password = cr_password c\<rparr>)) st) = login_response sv s"
    using assms(6,8)
    by (cases "issue_login sv rq' \<lparr>cr_username = name, cr_password = cr_password c\<rparr> db'")
      (auto simp: login_def read_credentials_def is_form_input_def is_allowed_def respond_login_def Let_def split: decision.splits)
  moreover have "rs_body resp = User_Body (public u)" "ls_user s = public u"
    by (simp_all add: u(2) created_response_def s_def)
  moreover have "u_role u = (if rows (db_users db) = [] then Admin else User)" "u_username u = cr_username c"
    using f(2) by (simp_all add: first_role_def)
  ultimately show ?thesis by blast
qed

definition carol :: credentials where
  "carol = \<lparr>cr_username = ''carol'', cr_password = ''12345678''\<rparr>"

lemma sample_salt: "rq_salt (sample_request e now) = []"
  by (simp add: sample_request_def)

lemma carol_registers:
  "register sample_server (sample_request [] 0) (Json (Inr carol)) empty_db =
    (created_response \<lparr>u_id = 1, u_username = ''carol'', u_password_hash = '':12345678'', u_role = Admin,
      u_created_at = 0, u_last_login_at = None\<rparr>, snd (create_user empty_db 0 ''carol'' '':12345678'' Admin))"
proof -
  have "register_check sample_server carol = Inr sample_auth"
    by (simp add: register_check_def auth_context_of_def sample_server_crypto sample_auth_def carol_def validate_username_def
        validate_password_def min_username_len_def max_username_len_def max_password_len_def username_char_def is_alnum_def
        is_alpha_def is_upper_def is_lower_def is_digit_def code_def)
  moreover have "count_users empty_db = Inr 0" by (simp add: count_users_def empty_db_def empty_store_def)
  moreover have "hash_password plain_crypto [] ''12345678'' = Some '':12345678''" by (simp add: hash_password_def plain_crypto_def)
  moreover have "fst (create_user empty_db 0 ''carol'' '':12345678'' Admin) = Inr \<lparr>u_id = 1, u_username = ''carol'',
      u_password_hash = '':12345678'', u_role = Admin, u_created_at = 0, u_last_login_at = None\<rparr>"
    by (simp add: create_user_def empty_db_def empty_store_def insert_row_def sync_membership_def org_id_def select_row_def)
  ultimately show ?thesis
    by (simp add: register_def read_credentials_def is_form_input_def register_account_def create_account_def first_role_def
        sample_server_crypto sample_request_now sample_salt carol_def split_beta)
qed

lemma register_then_login_witness:
  "\<exists>u s. rs_body (created_response \<lparr>u_id = 1, u_username = ''carol'', u_password_hash = '':12345678'', u_role = Admin,
      u_created_at = 0, u_last_login_at = None\<rparr>) = User_Body (public u) \<and> u_username u = cr_username carol \<and>
    u_role u = (if rows (db_users empty_db) = [] then Admin else User) \<and>
    fst (login sample_server (sample_request ''e'' 5) (Json (Inr \<lparr>cr_username = ''carol'', cr_password = cr_password carol\<rparr>))
      (fresh_state (snd (create_user empty_db 0 ''carol'' '':12345678'' Admin)))) = login_response sample_server s \<and>
    ls_user s = public u"
proof (rule register_then_login [OF plain_argon2_crate [folded sample_server_crypto(1)] sample_server_crypto(2) _ carol_registers])
  show "\<forall>r \<in> set (rows (db_tokens (snd (create_user empty_db 0 ''carol'' '':12345678'' Admin)))).
      rt_hash r \<noteq> new_hash sample_server (sample_request ''e'' 5)"
    by (simp add: create_user_def empty_db_def empty_store_def insert_row_def sync_membership_def org_id_def select_row_def)
  show "is_allowed (check_at (st_throttle (fresh_state (snd (create_user empty_db 0 ''carol'' '':12345678'' Admin))))
      (client_ip_of sample_server (sample_request ''e'' 5)) ''carol'' (rq_instant (sample_request ''e'' 5)))"
    by (simp add: fresh_state_def check_at_def check_pair_def new_throttle_def is_allowed_def)
  show "\<forall>u. rs_body (created_response \<lparr>u_id = 1, u_username = ''carol'', u_password_hash = '':12345678'', u_role = Admin,
      u_created_at = 0, u_last_login_at = None\<rparr>) = User_Body (public u) \<longrightarrow>
    issue_token_at (sv_crypto sample_server) (ax_jwt sample_auth) u (nat (rq_now (sample_request ''e'' 5))) \<noteq> None"
    by (auto simp: created_response_def public_def sample_server_crypto issue_token_at_def sample_auth_def new_jwt_def
        token_claims_def plain_crypto_def plain_encode_def field_ok_def role_as_str_def show_int_def show_nat.simps
        digit_char_def char_of_def bit_0 dest!: sym [of _ "u_username _"] sym [of _ "u_id _"] sym [of _ "u_role _"])
qed (simp_all add: created_response_def fresh_state_def carol_def)

text \<open>
  The role is decided by a count taken before the account is stored: two first registrations that
  both count before either stores become two administrators.
\<close>

lemma two_first_registrations:
  assumes "count_users db = Inr n" "n = 0"
    "create_account sv rq c (first_role n) db = (Inr u, db1)" "create_account sv rq' c' (first_role n) db1 = (Inr u', db2)"
  shows "u_role u = Admin \<and> u_role u' = Admin \<and> u_id u \<noteq> u_id u'"
proof -
  obtain h h' where c: "create_user db (rq_now rq) (cr_username c) h (first_role n) = (Inr u, db1)"
    "create_user db1 (rq_now rq') (cr_username c') h' (first_role n) = (Inr u', db2)"
    using assms(3,4) create_account_Inr by blast
  show ?thesis using create_user_success(2,3) [OF c(1)] create_user_success(2) [OF c(2)] assms(2)
    by (simp add: first_role_def)
qed

section \<open>Redirects\<close>

lemma no_control_header_ok: "\<not> has_control s \<Longrightarrow> header_ok s"
  by (induction s) (auto simp: header_ok_def)

lemma own_url_allowed_iff:
  "own_url_allowed url_parse target own_host domain bindings \<longleftrightarrow>
    (\<exists>scheme host. url_parse target = Some (scheme, Some host) \<and> scheme \<in> {''http'', ''https''} \<and>
      (domain \<noteq> [] \<and> (lowercase host = domain \<or> ends_with (''.'' @ domain) (lowercase host)) \<or>
       map_option lowercase own_host = Some (lowercase host) \<or>
       (\<exists>b \<in> set bindings. lowercase (hb_hostname b) = lowercase host)))"
  by (auto simp: own_url_allowed_def Let_def list_ex_iff eq_ignore_case_def split: option.splits prod.splits)

lemma under_domain: "lowercase host = domain \<or> ends_with (''.'' @ domain) (lowercase host) \<Longrightarrow>
    ends_with (''.'' @ domain) (''.'' @ lowercase host)"
  by (auto simp: ends_with_iff Cons_eq_append_conv)

text \<open>
  How a browser reads a location before it resolves it (the URL standard, for http and https): controls
  and blanks at both ends go, tabs and line breaks anywhere go, a backslash is a slash. What then begins
  with exactly one slash is a path of the origin that sent it.
\<close>

definition browser_reads :: "string \<Rightarrow> string" where
  "browser_reads location =
     (let edge = (\<lambda>c. code c \<le> 32);
          trimmed = rev (dropWhile edge (rev (dropWhile edge location)))
      in map (\<lambda>c. if c = CHR 0x5C then CHR ''/'' else c) (filter (\<lambda>c. c \<notin> {CHR 0x09, CHR 0x0A, CHR 0x0D}) trimmed))"

definition stays_on_origin :: "string \<Rightarrow> bool" where
  "stays_on_origin location \<longleftrightarrow>
     starts_with ''/'' (browser_reads location) \<and> \<not> starts_with ''//'' (browser_reads location)"

lemma no_control_all: "\<not> has_control s \<Longrightarrow> list_all (\<lambda>c. 32 \<le> code c \<and> code c \<noteq> 127) s"
  by (induction s) auto

lemma local_redirect_stays:
  assumes "is_local_redirect path"
  shows "stays_on_origin path"
proof -
  let ?edge = "\<lambda>c. code c \<le> 32"
  let ?t = "rev (dropWhile ?edge (rev path))"
  obtain rest where path: "path = CHR ''/'' # rest" using assms by (auto simp: is_local_redirect_def starts_with_iff)
  have all: "list_all (\<lambda>c. 32 \<le> code c \<and> code c \<noteq> 127) path" and slash: "CHR 0x5C \<notin> set path" and one: "\<not> starts_with ''//'' path"
    using assms no_control_all by (auto simp: is_local_redirect_def)
  have keep: "dropWhile ?edge path = path" by (simp add: path code_def)
  have sub: "set ?t \<subseteq> set path" using set_dropWhileD by fastforce
  have "browser_reads path = map (\<lambda>c. if c = CHR 0x5C then CHR ''/'' else c) (filter (\<lambda>c. c \<notin> {CHR 0x09, CHR 0x0A, CHR 0x0D}) ?t)"
    unfolding browser_reads_def Let_def keep ..
  also have "filter (\<lambda>c. c \<notin> {CHR 0x09, CHR 0x0A, CHR 0x0D}) ?t = ?t"
    using all sub code_char_of by (intro filter_True) (fastforce simp: list_all_iff code_def)
  also have "map (\<lambda>c. if c = CHR 0x5C then CHR ''/'' else c) ?t = ?t"
    using slash sub by (intro map_idI) auto
  finally have reads: "browser_reads path = ?t" .
  have split: "path = ?t @ rev (takeWhile ?edge (rev path))"
    by (metis rev_append rev_rev_ident takeWhile_dropWhile_id)
  have "?t \<noteq> []"
  proof
    assume "?t = []"
    then have "\<forall>c \<in> set path. ?edge c" by (auto simp: dropWhile_eq_Nil_conv)
    then show False by (simp add: path code_def)
  qed
  then obtain u where "?t = CHR ''/'' # u" using split path by (cases ?t) auto
  moreover have "\<not> starts_with ''//'' ?t"
  proof
    assume "starts_with ''//'' ?t"
    then obtain v where "?t = ''//'' @ v" unfolding starts_with_iff by blast
    with split have "path = ''//'' @ v @ rev (takeWhile ?edge (rev path))" by simp
    with one show False by (metis starts_with_append)
  qed
  ultimately show ?thesis unfolding stays_on_origin_def reads by simp
qed

text \<open>
  C10: A form's redirect target keeps the browser on the server: it is a path that a browser reads as
  one of the origin it is on, free of control characters, which always fits the header of the 303, or an
  absolute http(s) URL whose host is the request's own, one of the mapped hosts, or under the cookie
  domain. Everything else becomes the root.
\<close>

theorem redirect_stays_here:
  "(stays_on_origin (safe_redirect sv rq target) \<and>
      list_all (\<lambda>c. 32 \<le> code c \<and> code c \<noteq> 127) (safe_redirect sv rq target) \<and>
      rs_status (redirect_response (safe_redirect sv rq target) None) = 303 \<and>
      rs_location (redirect_response (safe_redirect sv rq target) None) = Some (safe_redirect sv rq target)) \<or>
   (\<exists>scheme host. sv_url_parse sv (safe_redirect sv rq target) = Some (scheme, Some host) \<and> scheme \<in> {''http'', ''https''} \<and>
      (map_option (\<lambda>h. lowercase (host_name h)) (request_host (rq_authority rq) (rq_hosts rq)) = Some (lowercase host) \<or>
       (\<exists>b \<in> set (sv_bindings sv). lowercase (hb_hostname b) = lowercase host) \<or>
       sv_cookie_domain sv \<noteq> [] \<and> ends_with (''.'' @ sv_cookie_domain sv) (''.'' @ lowercase host)))"
proof (cases "\<exists>t. target = Some t \<and> is_own_url sv rq t \<and> \<not> is_local_redirect t")
  case True
  then obtain t where t: "target = Some t" "is_own_url sv rq t" by blast
  then have "safe_redirect sv rq target = t" by (simp add: safe_redirect_def)
  with t(2) show ?thesis
    unfolding is_own_url_def own_url_allowed_iff option.map_comp comp_def using under_domain by (intro disjI2) metis
next
  case False
  then have l: "is_local_redirect (safe_redirect sv rq target)"
    by (auto simp: safe_redirect_def is_local_redirect_def code_def split: option.split)
  then have "\<not> has_control (safe_redirect sv rq target)" by (simp add: is_local_redirect_def)
  with local_redirect_stays [OF l] no_control_all show ?thesis
    by (intro disjI1) (simp add: redirect_response_def no_control_header_ok)
qed

text \<open>
  An absolute URL that the \<open>url\<close> crate accepts after dropping a line break from it passes the
  check above and then does not fit the header: the handler panics.
\<close>

lemma own_url_with_newline_aborts:
  assumes "sv_url_parse sv t = Some (''http'', Some host)" "map_option host_name (request_host (rq_authority rq) (rq_hosts rq)) = Some host"
    "CHR 10 \<in> set t"
  shows "redirect_response (safe_redirect sv rq (Some t)) cookie = aborted"
proof -
  have "is_own_url sv rq t" unfolding is_own_url_def own_url_allowed_iff using assms(1,2) by auto
  moreover have "\<not> header_ok t" using assms(3) by (induction t) (auto simp: header_ok_def code_def)
  ultimately show ?thesis by (simp add: safe_redirect_def redirect_response_def)
qed

section \<open>Logout\<close>

text \<open>The families of the refresh tokens: each belongs to one user and was started by some token.\<close>

definition families_ok :: "db \<Rightarrow> bool" where
  "families_ok db \<longleftrightarrow>
     (\<forall>r \<in> set (rows (db_tokens db)). rt_family r \<le> last_id (db_tokens db)) \<and>
     (\<forall>r \<in> set (rows (db_tokens db)). \<forall>q \<in> set (rows (db_tokens db)). rt_family r = rt_family q \<longrightarrow> rt_user r = rt_user q)"

lemma families_ok_cong:
  "families_ok db \<Longrightarrow> last_id (db_tokens db') = last_id (db_tokens db) \<Longrightarrow>
   (\<And>r'. r' \<in> set (rows (db_tokens db')) \<Longrightarrow>
     \<exists>r \<in> set (rows (db_tokens db)). rt_family r' = rt_family r \<and> rt_user r' = rt_user r) \<Longrightarrow> families_ok db'"
  unfolding families_ok_def by metis

lemma families_ok_tokens: "families_ok db \<Longrightarrow> db_tokens db' = db_tokens db \<Longrightarrow> families_ok db'"
  by (simp only: families_ok_def)

lemma families_revoke_where: "families_ok db \<Longrightarrow> families_ok (revoke_where p now db)"
  by (rule families_ok_cong) (auto simp: revoke_where_def)

lemma revoke_where_keeps:
  "r \<in> set (rows (db_tokens db)) \<Longrightarrow> \<not> p r \<Longrightarrow> r \<in> set (rows (db_tokens (revoke_where p now db)))"
  by (auto simp: revoke_where_def intro!: image_eqI [of _ _ r])

lemma save_refresh_token_rows:
  assumes "accounts_ok db" "save_refresh_token db t = (Inr n, db')"
  shows "rows (db_tokens db') = rows (db_tokens db) @ [n]" "last_id (db_tokens db') = last_id (db_tokens db) + 1"
    "n = token_row t (case nt_family t of Some f \<Rightarrow> f | None \<Rightarrow> last_id (db_tokens db) + 1) (last_id (db_tokens db) + 1)"
proof -
  have st: "store_ok rt_id (db_tokens db)" using assms(1) by (simp add: accounts_ok_def tokens_ok_def)
  have "rt_id r \<noteq> last_id (db_tokens db) + 1" if "r \<in> set (rows (db_tokens db))" for r
    using store_ok_fresh [OF st that] .
  then have "map (\<lambda>r. if rt_id r = last_id (db_tokens db) + 1 then r\<lparr>rt_family := last_id (db_tokens db) + 1\<rparr> else r) (rows (db_tokens db)) =
      rows (db_tokens db)" by (simp add: map_idI)
  then show "rows (db_tokens db') = rows (db_tokens db) @ [n]" "last_id (db_tokens db') = last_id (db_tokens db) + 1"
    "n = token_row t (case nt_family t of Some f \<Rightarrow> f | None \<Rightarrow> last_id (db_tokens db) + 1) (last_id (db_tokens db) + 1)"
    using assms(2)
    by (auto simp: save_refresh_token_def insert_refresh_token_def set_token_family_def split_beta token_row_def
        split: if_splits option.splits)
qed

lemma families_okI:
  assumes "set (rows (db_tokens db)) = insert new old"
    "rt_family new \<le> last_id (db_tokens db)" "\<And>q. q \<in> old \<Longrightarrow> rt_family q \<le> last_id (db_tokens db)"
    "\<And>q. q \<in> old \<Longrightarrow> rt_family q = rt_family new \<Longrightarrow> rt_user new = rt_user q"
    "\<And>q q'. q \<in> old \<Longrightarrow> q' \<in> old \<Longrightarrow> rt_family q = rt_family q' \<Longrightarrow> rt_user q = rt_user q'"
  shows "families_ok db"
  unfolding families_ok_def assms(1)
proof (intro conjI ballI impI)
  fix q assume "q \<in> insert new old"
  with assms(2,3) show "rt_family q \<le> last_id (db_tokens db)" by blast
next
  fix r q assume r: "r \<in> insert new old" and q: "q \<in> insert new old" and e: "rt_family r = rt_family q"
  show "rt_user r = rt_user q"
  proof (cases "r = new")
    case True
    with q e assms(4) [of q] show ?thesis by (cases "q = new") simp_all
  next
    case False
    with r have r': "r \<in> old" by simp
    show ?thesis
    proof (cases "q = new")
      case True
      with e assms(4) [OF r'] show ?thesis by simp
    next
      case False
      with q assms(5) [OF r' _ e] show ?thesis by simp
    qed
  qed
qed

text \<open>A token continues a family only on behalf of its owner.\<close>

lemma families_save:
  assumes "accounts_ok db" "families_ok db"
    "\<And>f. nt_family t = Some f \<Longrightarrow> \<exists>q \<in> set (rows (db_tokens db)). rt_family q = f \<and> rt_user q = nt_user t"
  shows "families_ok (snd (save_refresh_token db t))"
proof (cases "save_refresh_token db t")
  case (Pair r db')
  show ?thesis
  proof (cases r)
    case (Inl e)
    with Pair have "db' = db" by (auto simp: save_refresh_token_def insert_refresh_token_def split_beta split: if_splits option.splits)
    with Pair assms(2) show ?thesis by simp
  next
    case (Inr n)
    note s = save_refresh_token_rows [OF assms(1) Pair [unfolded Inr]]
    have b: "rt_family q \<le> last_id (db_tokens db)" if "q \<in> set (rows (db_tokens db))" for q
      using that assms(2) by (simp add: families_ok_def)
    have "rt_family n \<le> last_id (db_tokens db')"
    proof (cases "nt_family t")
      case (Some f)
      with assms(3) obtain q where "q \<in> set (rows (db_tokens db))" "rt_family q = f" by blast
      with b [of q] Some s(2,3) show ?thesis by (simp add: token_row_def)
    qed (simp add: s(2,3) token_row_def)
    moreover have "rt_user n = rt_user q" if q: "q \<in> set (rows (db_tokens db))" "rt_family q = rt_family n" for q
    proof (cases "nt_family t")
      case None
      with s(3) b [OF q(1)] q(2) show ?thesis by (simp add: token_row_def)
    next
      case (Some f)
      with assms(3) obtain q' where "q' \<in> set (rows (db_tokens db))" "rt_family q' = f" "rt_user q' = nt_user t" by blast
      moreover have "rt_family n = f" "rt_user n = nt_user t" using Some s(3) by (simp_all add: token_row_def)
      ultimately show ?thesis using q assms(2) unfolding families_ok_def by metis
    qed
    moreover have "rt_family q \<le> last_id (db_tokens db')" if "q \<in> set (rows (db_tokens db))" for q
      using b [OF that] s(2) by simp
    moreover have "rt_user q = rt_user q'"
      if "q \<in> set (rows (db_tokens db))" "q' \<in> set (rows (db_tokens db))" "rt_family q = rt_family q'" for q q'
      using that assms(2) unfolding families_ok_def by blast
    moreover have "set (rows (db_tokens db')) = insert n (set (rows (db_tokens db)))" by (simp add: s(1))
    ultimately show ?thesis unfolding Pair snd_conv by (intro families_okI) assumption+
  qed
qed

text \<open>A login writes the time of the login and then inserts a token, or less.\<close>

lemma issue_login_db:
  obtains (refused) "snd (issue_login sv rq c db) = db"
  | (stamped) i where "snd (issue_login sv rq c db) = snd (record_login db (rq_now rq) i)"
  | (token) auth i u where
      "snd (issue_login sv rq c db) = snd (issue_refresh_token sv auth rq (snd (record_login db (rq_now rq) i)) u None)"
proof (cases "auth_context_of sv")
  case (Inl e)
  then show ?thesis by (intro refused) (simp add: issue_login_def)
next
  case auth: (Inr auth)
  show ?thesis
  proof (cases "try_repo (find_user_by_username db (cr_username c))")
    case (Inl e)
    with auth show ?thesis by (intro refused) (simp add: issue_login_def)
  next
    case u: (Inr found)
    show ?thesis
    proof (cases "\<exists>u access. found = Some u \<and> verify_password (sv_crypto sv) (cr_password c) (u_password_hash u) \<and>
        issue_token_at (sv_crypto sv) (ax_jwt auth) u (nat (rq_now rq)) = Some access")
      case False
      with auth u have "snd (issue_login sv rq c db) = db"
        by (cases found) (auto simp: issue_login_def split: option.split)
      then show ?thesis by (rule refused)
    next
      case True
      then obtain v access where v: "found = Some v" "verify_password (sv_crypto sv) (cr_password c) (u_password_hash v)"
        "issue_token_at (sv_crypto sv) (ax_jwt auth) v (nat (rq_now rq)) = Some access" by blast
      let ?d = "snd (record_login db (rq_now rq) (u_id v))"
      have "snd (issue_login sv rq c db) =
          (if ax_refresh_tokens_enabled auth then snd (issue_refresh_token sv auth rq ?d v None) else ?d)"
        using auth u v by (simp add: issue_login_def Let_def split_beta split: sum.split)
      then show ?thesis using stamped token by (cases "ax_refresh_tokens_enabled auth") simp_all
    qed
  qed
qed

lemma families_login:
  assumes "accounts_ok db" "families_ok db"
  shows "families_ok (snd (issue_login sv rq c db))"
proof -
  have fam: "families_ok (snd (record_login db (rq_now rq) i))" for i
    by (rule families_ok_tokens [OF assms(2)]) (simp add: record_login_def)
  have "families_ok (snd (save_refresh_token (snd (record_login db (rq_now rq) i)) (new_token sv auth rq u None v)))" for i auth u v
    by (rule families_save [OF record_login_ok [OF assms(1)] fam]) (simp add: new_token_def)
  then have "families_ok (snd (issue_refresh_token sv auth rq (snd (record_login db (rq_now rq) i)) u None))" for i auth u
    by (simp add: issue_refresh_token_def Let_def split_beta split: sum.split)
  note tok = this
  show ?thesis by (cases rule: issue_login_db [of sv rq c db]) (simp_all add: fam tok assms(2))
qed

text \<open>The user a request speaks for, if any.\<close>

definition speaks_for :: "server \<Rightarrow> request \<Rightarrow> int \<Rightarrow> bool" where
  "speaks_for sv rq i \<longleftrightarrow> (\<exists>u. request_user sv rq = Inr u \<and> au_user_id u = i)"

lemma revoke_logout_spares:
  assumes "families_ok db" "r \<in> set (rows (db_tokens db))" "rt_user r \<noteq> au_user_id u"
  shows "r \<in> set (rows (db_tokens (snd (revoke_logout_family sv rq u token db))))"
proof -
  have "r \<in> set (rows (db_tokens (revoke_where (\<lambda>x. rt_family x = rt_family q) (rq_now rq) db)))"
    if "q \<in> set (rows (db_tokens db))" "rt_user q = au_user_id u" for q
  proof (rule revoke_where_keeps [OF assms(2)])
    show "rt_family r \<noteq> rt_family q" using assms that unfolding families_ok_def by metis
  qed
  then have "r \<in> set (rows (db_tokens (snd (revoke_refresh_token_family db (rt_family q) (rq_now rq)))))"
    if "find_refresh_token_by_hash db h = Inr (Some q)" "rt_user q = au_user_id u" for q h
    using that select_row_Some [of _ "db_tokens db" q]
    by (auto simp: revoke_refresh_token_family_def find_refresh_token_by_hash_def)
  with assms(2) show ?thesis
    by (simp add: revoke_logout_family_def split_beta split: sum.split option.split)
qed

text \<open>
  Signing out ends only one's own sessions: whatever refresh token is sent along, a logout or a
  logout of all sessions leaves every token of other users as it is, and without a valid access
  token it leaves every token as it is.
\<close>

theorem logout_spares_others:
  assumes "families_ok db" "r \<in> set (rows (db_tokens db))" "\<not> speaks_for sv rq (rt_user r)"
  shows "r \<in> set (rows (db_tokens (snd (logout sv rq input db)))) \<and> r \<in> set (rows (db_tokens (snd (logout_all sv rq db)))) \<and>
    families_ok (snd (logout sv rq input db)) \<and> families_ok (snd (logout_all sv rq db))"
proof -
  have fam: "families_ok (snd (revoke_logout_family sv rq u token db))" for u token
    using assms(1) families_revoke_where
    by (simp add: revoke_logout_family_def revoke_refresh_token_family_def split_beta split: sum.split option.split)
  show ?thesis
  proof (cases "request_user sv rq")
    case (Inl e)
    with assms show ?thesis
      by (simp add: logout_def logout_all_def split_beta Let_def split: logout_input.split sum.split)
  next
    case (Inr u)
    then have "rt_user r \<noteq> au_user_id u" using assms(3) by (auto simp: speaks_for_def)
    then have "r \<in> set (rows (db_tokens (snd (revoke_logout_family sv rq u token db))))"
      "r \<in> set (rows (db_tokens (revoke_where (\<lambda>x. rt_user x = au_user_id u) (rq_now rq) db)))" for token
      using assms(1,2) by (simp_all add: revoke_logout_spares revoke_where_keeps)
    with Inr fam assms(1,2) families_revoke_where [OF assms(1)] show ?thesis
      by (simp add: logout_def logout_all_def revoke_all_refresh_tokens_def split_beta Let_def split: logout_input.split sum.split)
  qed
qed
lemma logout_spares_others_witness:
  "token_row (sample_session ''b'') 2 2 \<in> set (rows (db_tokens (snd (logout sample_server (sample_request [] 9)
      (Logout_Form (Inr \<lparr>fl_refresh_token = Some ''b'', fl_redirect = None\<rparr>)) two_sessions)))) \<and>
    token_row (sample_session ''b'') 2 2 \<in> set (rows (db_tokens (snd (logout_all sample_server (sample_request [] 9) two_sessions)))) \<and>
    families_ok (snd (logout sample_server (sample_request [] 9)
      (Logout_Form (Inr \<lparr>fl_refresh_token = Some ''b'', fl_redirect = None\<rparr>)) two_sessions)) \<and>
    families_ok (snd (logout_all sample_server (sample_request [] 9) two_sessions))"
proof (rule logout_spares_others)
  have "families_ok (snd (create_user empty_db 0 ''ann'' ''hash'' Admin))"
    by (simp add: families_ok_def create_user_def empty_db_def empty_store_def insert_row_def sync_membership_def org_id_def select_row_def)
  then show "families_ok two_sessions" unfolding two_sessions_def
    by (intro families_save save_refresh_token_ok create_user_ok accounts_ok_empty) (simp_all add: sample_session_def)
  show "token_row (sample_session ''b'') 2 2 \<in> set (rows (db_tokens two_sessions))" by (simp add: two_sessions_rows)
  show "\<not> speaks_for sample_server (sample_request [] 9) (rt_user (token_row (sample_session ''b'') 2 2))"
    by (simp add: speaks_for_def request_user_def auth_user_of_def request_token_def bearer_token_def session_token_def
        jwt_of_def sample_server_crypto sample_request_def)
qed

end
