(* ===== verification/Markdown.thy ===== *)
theory Markdown
  imports Rust_Text
begin

text \<open>
  \<open>src/src/markdown.rs\<close>: the filter between the Markdown parser and the HTML writer. Both are
  the library's (pulldown-cmark) and parameters here; of its events the filter looks into the tags
  that carry a destination and the two raw HTML events, and passes the others.
\<close>

section \<open>Events\<close>

datatype ('i, 't) tag =
    Link 'i string string string
  | Image 'i string string string
  | Other_Tag 't

datatype ('i, 't, 'e) event =
    Start "('i, 't) tag"
  | Text string
  | Html string
  | Inline_Html string
  | Other_Event 'e

section \<open>Destinations\<close>

definition allowed_schemes :: "string list" where
  "allowed_schemes = [''http'', ''https'', ''mailto'', ''ftp'']"

definition scheme_char :: "char \<Rightarrow> bool" where
  "scheme_char c \<longleftrightarrow> is_alnum c \<or> c = CHR ''+'' \<or> c = CHR ''-'' \<or> c = CHR ''.''"

definition valid_scheme :: "string \<Rightarrow> bool" where
  "valid_scheme s \<longleftrightarrow> s \<noteq> [] \<and> is_alpha (hd s) \<and> list_all scheme_char s"

text \<open>The loop over the characters of the trimmed destination; \<open>before\<close> is what it has passed.\<close>

fun scheme_from :: "string \<Rightarrow> string \<Rightarrow> string option" where
  "scheme_from before [] = None"
| "scheme_from before (c # rest) =
     (if c \<in> {CHR ''/'', CHR ''?'', CHR ''#''} then None
      else if c = CHR '':'' then (if valid_scheme before then Some before else None)
      else scheme_from (before @ [c]) rest)"

definition destination_scheme :: "string \<Rightarrow> string option" where
  "destination_scheme dest = scheme_from [] (trim dest)"

definition destination_is_safe :: "string \<Rightarrow> bool" where
  "destination_is_safe dest =
     (case destination_scheme dest of Some scheme \<Rightarrow> lowercase scheme \<in> set allowed_schemes | None \<Rightarrow> True)"

definition sanitize_dest :: "string \<Rightarrow> string" where
  "sanitize_dest dest = (if destination_is_safe dest then dest else ''#'')"

section \<open>The filter\<close>

definition sanitize_tag :: "('i, 't) tag \<Rightarrow> ('i, 't) tag" where
  "sanitize_tag t =
     (case t of
        Link link_type dest title i \<Rightarrow> Link link_type (sanitize_dest dest) title i
      | Image link_type dest title i \<Rightarrow> Image link_type (sanitize_dest dest) title i
      | Other_Tag x \<Rightarrow> Other_Tag x)"

definition sanitize_event :: "('i, 't, 'e) event \<Rightarrow> ('i, 't, 'e) event" where
  "sanitize_event ev =
     (case ev of
        Start t \<Rightarrow> Start (sanitize_tag t)
      | Html _ \<Rightarrow> Text []
      | Inline_Html _ \<Rightarrow> Text []
      | other \<Rightarrow> other)"

text \<open>The library: the parser with tables and strikethrough enabled, and the writer.\<close>

record ('i, 't, 'e) cmark =
  cm_parse :: "string \<Rightarrow> ('i, 't, 'e) event list"
  cm_html :: "('i, 't, 'e) event list \<Rightarrow> string"

definition render_markdown :: "('i, 't, 'e) cmark \<Rightarrow> string \<Rightarrow> string" where
  "render_markdown cm markdown = cm_html cm (map sanitize_event (cm_parse cm markdown))"

section \<open>What reaches the writer\<close>

text \<open>
  The scheme of a URI as RFC 3986 has it: what stands before the first colon, when no slash, question
  mark or hash comes first, and it is a letter followed by letters, digits, plus, minus and dots.
\<close>

definition has_scheme :: "string \<Rightarrow> string \<Rightarrow> bool" where
  "has_scheme dest scheme \<longleftrightarrow> valid_scheme scheme \<and> (\<exists>rest. dest = scheme @ CHR '':'' # rest)"

lemma valid_scheme_no_delimiter:
  "valid_scheme s \<Longrightarrow> CHR ''/'' \<notin> set s \<and> CHR ''?'' \<notin> set s \<and> CHR ''#'' \<notin> set s \<and> CHR '':'' \<notin> set s"
  by (auto simp: valid_scheme_def list_all_iff scheme_char_def is_alnum_def is_alpha_def is_digit_def is_lower_def is_upper_def code_def)

lemma scheme_from_Some: "scheme_from before d = Some s \<Longrightarrow> valid_scheme s \<and> (\<exists>rest. before @ d = s @ CHR '':'' # rest)"
proof (induction before d rule: scheme_from.induct)
  case (2 before c rest)
  then show ?case by (cases "c \<in> {CHR ''/'', CHR ''?'', CHR ''#''}"; cases "c = CHR '':''") (auto split: if_splits)
qed simp

lemma scheme_from_passes:
  "CHR ''/'' \<notin> set a \<Longrightarrow> CHR ''?'' \<notin> set a \<Longrightarrow> CHR ''#'' \<notin> set a \<Longrightarrow> CHR '':'' \<notin> set a \<Longrightarrow>
    scheme_from before (a @ d) = scheme_from (before @ a) d"
  by (induction a arbitrary: before) auto

lemma scheme_from_iff: "scheme_from [] d = Some s \<longleftrightarrow> has_scheme d s"
proof
  show "scheme_from [] d = Some s \<Longrightarrow> has_scheme d s"
    using scheme_from_Some [of "[]" d s] by (simp add: has_scheme_def)
  assume "has_scheme d s"
  then obtain rest where "valid_scheme s" "d = s @ CHR '':'' # rest" by (auto simp: has_scheme_def)
  with valid_scheme_no_delimiter [of s] scheme_from_passes [of s "[]"] show "scheme_from [] d = Some s" by simp
qed

fun event_dests :: "('i, 't, 'e) event \<Rightarrow> string list" where
  "event_dests (Start (Link _ d _ _)) = [d]"
| "event_dests (Start (Image _ d _ _)) = [d]"
| "event_dests _ = []"

definition destinations :: "('i, 't, 'e) event list \<Rightarrow> string list" where
  "destinations evs = concat (map event_dests evs)"

definition raw_html :: "('i, 't, 'e) event \<Rightarrow> bool" where
  "raw_html ev \<longleftrightarrow> (case ev of Html _ \<Rightarrow> True | Inline_Html _ \<Rightarrow> True | _ \<Rightarrow> False)"

lemma event_dests_sanitized: "event_dests (sanitize_event ev) = map sanitize_dest (event_dests ev)"
  by (cases ev rule: event_dests.cases) (simp_all add: sanitize_event_def sanitize_tag_def)

lemma destinations_sanitized: "destinations (map sanitize_event evs) = map sanitize_dest (destinations evs)"
  by (induction evs) (simp_all add: destinations_def event_dests_sanitized)

lemma raw_html_sanitized: "\<not> raw_html (sanitize_event ev)"
  by (simp add: raw_html_def sanitize_event_def split: event.split)

lemma sanitize_event_id: "\<not> raw_html ev \<Longrightarrow> list_all destination_is_safe (event_dests ev) \<Longrightarrow> sanitize_event ev = ev"
  by (cases ev rule: event_dests.cases) (simp_all add: sanitize_event_def sanitize_tag_def sanitize_dest_def raw_html_def)

lemma trim_hash: "trim ''#'' = ''#''"
  by (rule trim_graphic) (simp_all add: graphic_def code_def)

text \<open>
  C14: No script gets through Markdown: what the writer is given holds no raw HTML, and every link
  and image destination in it, once the white space around it is dropped, either has no scheme at
  all in the sense of RFC 3986 or one of http, https, mailto and ftp. The text, the other tags and
  destinations that were already of that kind are passed as the parser gave them.
\<close>

theorem markdown_is_inert:
  "list_all (\<lambda>ev. \<not> raw_html ev) (map sanitize_event (cm_parse cm markdown)) \<and>
   (\<forall>d \<in> set (destinations (map sanitize_event (cm_parse cm markdown))).
      \<forall>scheme. has_scheme (trim d) scheme \<longrightarrow> lowercase scheme \<in> {''http'', ''https'', ''mailto'', ''ftp''}) \<and>
   (list_all destination_is_safe (destinations (cm_parse cm markdown)) \<and> list_all (\<lambda>ev. \<not> raw_html ev) (cm_parse cm markdown) \<longrightarrow>
    render_markdown cm markdown = cm_html cm (cm_parse cm markdown))"
proof -
  have "lowercase scheme \<in> {''http'', ''https'', ''mailto'', ''ftp''}"
    if "has_scheme (trim (sanitize_dest e)) scheme" for e scheme
  proof -
    have "destination_is_safe (sanitize_dest e)"
      by (simp add: sanitize_dest_def) (simp add: destination_is_safe_def destination_scheme_def trim_hash)
    with that show ?thesis
      by (simp add: destination_is_safe_def destination_scheme_def scheme_from_iff [symmetric] allowed_schemes_def)
  qed
  moreover have "map sanitize_event evs = evs"
    if "list_all destination_is_safe (destinations evs)" "list_all (\<lambda>ev. \<not> raw_html ev) evs" for evs :: "('a, 'b, 'c) event list"
    using that by (induction evs) (simp_all add: destinations_def sanitize_event_id)
  ultimately show ?thesis
    by (auto simp: list_all_iff raw_html_sanitized destinations_sanitized render_markdown_def)
qed

text \<open>A parser that gives three events, so that the last part is seen to apply.\<close>

definition tiny_cmark :: "(unit, unit, unit) cmark" where
  "tiny_cmark = \<lparr>cm_parse = (\<lambda>s. [Start (Link () s [] []), Text s, Other_Event ()]), cm_html = (\<lambda>evs. concat (destinations evs))\<rparr>"

lemma markdown_is_inert_witness: "render_markdown tiny_cmark ''/a'' = ''/a''"
proof -
  have "trim ''/a'' = ''/a''" by (rule trim_graphic) (simp_all add: graphic_def code_def)
  then have "destination_is_safe ''/a''" by (simp add: destination_is_safe_def destination_scheme_def)
  then have "render_markdown tiny_cmark ''/a'' = cm_html tiny_cmark (cm_parse tiny_cmark ''/a'')"
    using markdown_is_inert [of tiny_cmark "''/a''"] by (simp add: tiny_cmark_def destinations_def raw_html_def)
  then show ?thesis by (simp add: tiny_cmark_def destinations_def)
qed

end
