(* ===== verification/Tenancy.thy ===== *)
theory Tenancy
  imports Schema
begin

text \<open>
  The interface between the content repositories and the organizations: a write carries the key of
  the organization it acts for, and touches no content of any other one. What follows for sequences
  of writes is proved here once; the pages, the menus and the media library each provide it.
\<close>

locale scoped_writes =
  fixes run :: "'op \<Rightarrow> db \<Rightarrow> db"
    and key :: "'op \<Rightarrow> string"
    and content :: "db \<Rightarrow> int \<Rightarrow> 'c"
    and consistent :: "db \<Rightarrow> bool"
  assumes foreign_write: "consistent db \<Longrightarrow> org_id db (key op) \<noteq> Some tenant \<Longrightarrow> content (run op db) tenant = content db tenant"
    and keeps_organizations: "org_id (run op db) k = org_id db k"
    and keeps_consistent: "consistent db \<Longrightarrow> consistent (run op db)"
begin

definition run_all :: "'op list \<Rightarrow> db \<Rightarrow> db" where
  "run_all ops db = foldl (\<lambda>d op. run op d) db ops"

lemma run_all_organizations: "org_id (run_all ops db) k = org_id db k"
  unfolding run_all_def by (induction ops arbitrary: db) (simp_all add: keeps_organizations)

lemma run_all_consistent: "consistent db \<Longrightarrow> consistent (run_all ops db)"
  unfolding run_all_def by (induction ops arbitrary: db) (simp_all add: keeps_consistent)

lemma foreign_writes:
  "consistent db \<Longrightarrow> (\<And>op. op \<in> set ops \<Longrightarrow> org_id db (key op) \<noteq> Some tenant) \<Longrightarrow> content (run_all ops db) tenant = content db tenant"
  unfolding run_all_def
proof (induction ops arbitrary: db)
  case (Cons op ops)
  have "content (foldl (\<lambda>d op. run op d) (run op db) ops) tenant = content (run op db) tenant"
    using Cons.prems keeps_organizations keeps_consistent by (intro Cons.IH) simp_all
  also have "\<dots> = content db tenant" using Cons.prems by (intro foreign_write) simp_all
  finally show ?case by simp
qed simp

text \<open>A key no organization has writes nothing at all.\<close>

lemma unknown_key: "consistent db \<Longrightarrow> org_id db (key op) = None \<Longrightarrow> content (run op db) tenant = content db tenant"
  by (simp add: foreign_write)

end

end
