(* ===== verification/Pages.thy ===== *)
theory Pages
  imports Users Tenancy
begin

text \<open>
  \<open>src/src/db.rs\<close>, \<open>SqlitePageRepository\<close>: the pages of an organization and the history
  of every page. A method is one step: what it writes, it writes in one transaction, and an error
  leaves the database as it was. The full-text index is the library's, so its matching, its ranking
  and its snippets are parameters of the search.
\<close>

section \<open>Data\<close>

record new_page =
  np_slug :: string
  np_title :: string
  np_content :: string
  np_body_format :: body_format
  np_is_published :: bool
  np_created_by :: "int option"
  np_parent :: "int option"
  np_position :: int
  np_meta_title :: "string option"
  np_meta_description :: "string option"
  np_og_image :: "string option"
  np_publish_at :: "int option"
  np_revision_note :: "string option"

record page_update =
  up_slug :: "string option"
  up_title :: string
  up_content :: string
  up_body_format :: body_format
  up_is_published :: bool
  up_parent :: "int option"
  up_position :: int
  up_meta_title :: "string option"
  up_meta_description :: "string option"
  up_og_image :: "string option"
  up_publish_at :: "int option"
  up_edited_by :: "int option"
  up_revision_note :: "string option"

record page_record =
  pr_id :: int
  pr_slug :: string
  pr_title :: string
  pr_content :: string
  pr_body_format :: body_format
  pr_is_published :: bool
  pr_publish_at :: "int option"
  pr_created_by :: "int option"
  pr_created_at :: int
  pr_updated_at :: int
  pr_parent :: "int option"
  pr_position :: int
  pr_meta_title :: "string option"
  pr_meta_description :: "string option"
  pr_og_image :: "string option"

record page_summary =
  ps_id :: int
  ps_slug :: string
  ps_title :: string
  ps_is_published :: bool
  ps_publish_at :: "int option"
  ps_updated_at :: int
  ps_parent :: "int option"
  ps_position :: int

record search_hit =
  sh_id :: int
  sh_slug :: string
  sh_title :: string
  sh_is_published :: bool
  sh_publish_at :: "int option"
  sh_updated_at :: int
  sh_fragment :: string

record feed_entry =
  fe_id :: int
  fe_slug :: string
  fe_title :: string
  fe_updated_at :: int
  fe_meta_description :: "string option"

record revision_summary =
  rs_page :: int
  rs_revision :: int
  rs_slug :: string
  rs_title :: string
  rs_is_published :: bool
  rs_publish_at :: "int option"
  rs_note :: "string option"
  rs_created_at :: int
  rs_edited_by_name :: "string option"

record recent_revision =
  rr_page :: int
  rr_title :: string
  rr_slug :: string
  rr_revision :: int
  rr_note :: "string option"
  rr_created_at :: int
  rr_edited_by_name :: "string option"

record page_revision =
  vr_page :: int
  vr_revision :: int
  vr_slug :: string
  vr_title :: string
  vr_content :: string
  vr_body_format :: body_format
  vr_parent :: "int option"
  vr_position :: int
  vr_meta_title :: "string option"
  vr_meta_description :: "string option"
  vr_og_image :: "string option"
  vr_is_published :: bool
  vr_publish_at :: "int option"
  vr_note :: "string option"
  vr_created_at :: int
  vr_edited_by_name :: "string option"

text \<open>What a save records: the editable state, and the editor's note.\<close>

record revision_snapshot =
  sn_slug :: string
  sn_title :: string
  sn_content :: string
  sn_body_format :: body_format
  sn_parent :: "int option"
  sn_position :: int
  sn_meta_title :: "string option"
  sn_meta_description :: "string option"
  sn_og_image :: "string option"
  sn_is_published :: bool
  sn_publish_at :: "int option"
  sn_note :: "string option"

section \<open>Rows to records\<close>

definition stored_format :: "string \<Rightarrow> body_format" where
  "stored_format raw = (case body_format_parse raw of Some f \<Rightarrow> f | None \<Rightarrow> Jhs)"

definition page_of_row :: "page_row \<Rightarrow> page_record" where
  "page_of_row r =
     \<lparr>pr_id = p_id r, pr_slug = p_slug r, pr_title = p_title r, pr_content = p_content r,
      pr_body_format = stored_format (p_body_format r), pr_is_published = p_is_published r,
      pr_publish_at = p_publish_at r, pr_created_by = p_created_by r, pr_created_at = p_created_at r,
      pr_updated_at = p_updated_at r, pr_parent = p_parent r, pr_position = p_position r,
      pr_meta_title = p_meta_title r, pr_meta_description = p_meta_description r, pr_og_image = p_og_image r\<rparr>"

definition summary_of_row :: "page_row \<Rightarrow> page_summary" where
  "summary_of_row r =
     \<lparr>ps_id = p_id r, ps_slug = p_slug r, ps_title = p_title r, ps_is_published = p_is_published r,
      ps_publish_at = p_publish_at r, ps_updated_at = p_updated_at r, ps_parent = p_parent r, ps_position = p_position r\<rparr>"

definition page_summary_of :: "page_record \<Rightarrow> page_summary" where
  "page_summary_of p =
     \<lparr>ps_id = pr_id p, ps_slug = pr_slug p, ps_title = pr_title p, ps_is_published = pr_is_published p,
      ps_publish_at = pr_publish_at p, ps_updated_at = pr_updated_at p, ps_parent = pr_parent p, ps_position = pr_position p\<rparr>"

definition editor_name :: "db \<Rightarrow> int option \<Rightarrow> string option" where
  "editor_name db e = Option.bind e (\<lambda>i. map_option ur_username (select_row (\<lambda>u. ur_id u = i) (db_users db)))"

definition revision_of_row :: "db \<Rightarrow> revision_row \<Rightarrow> page_revision" where
  "revision_of_row db r =
     \<lparr>vr_page = rv_page r, vr_revision = rv_revision r, vr_slug = rv_slug r, vr_title = rv_title r,
      vr_content = rv_content r, vr_body_format = stored_format (rv_body_format r), vr_parent = rv_parent r,
      vr_position = rv_position r, vr_meta_title = rv_meta_title r, vr_meta_description = rv_meta_description r,
      vr_og_image = rv_og_image r, vr_is_published = rv_is_published r, vr_publish_at = rv_publish_at r,
      vr_note = rv_note r, vr_created_at = rv_created_at r, vr_edited_by_name = editor_name db (rv_edited_by r)\<rparr>"

definition revision_summary_of_row :: "db \<Rightarrow> revision_row \<Rightarrow> revision_summary" where
  "revision_summary_of_row db r =
     \<lparr>rs_page = rv_page r, rs_revision = rv_revision r, rs_slug = rv_slug r, rs_title = rv_title r,
      rs_is_published = rv_is_published r, rs_publish_at = rv_publish_at r, rs_note = rv_note r,
      rs_created_at = rv_created_at r, rs_edited_by_name = editor_name db (rv_edited_by r)\<rparr>"

definition recent_revision_of_row :: "db \<Rightarrow> revision_row \<Rightarrow> recent_revision" where
  "recent_revision_of_row db r =
     \<lparr>rr_page = rv_page r, rr_title = rv_title r, rr_slug = rv_slug r, rr_revision = rv_revision r,
      rr_note = rv_note r, rr_created_at = rv_created_at r, rr_edited_by_name = editor_name db (rv_edited_by r)\<rparr>"

lemma stored_format_as_str [simp]: "stored_format (body_format_as_str f) = f"
  by (simp add: stored_format_def body_format_codec.parse_as_str)

section \<open>Scope, visibility and order\<close>

definition max_listed_revisions :: int where
  "max_listed_revisions = 500"

definition max_ancestor_hops :: nat where
  "max_ancestor_hops = 128"

definition in_scope :: "db \<Rightarrow> string \<Rightarrow> page_row \<Rightarrow> bool" where
  "in_scope db organization r \<longleftrightarrow> org_scope db organization (p_organization r)"

text \<open>\<open>PUBLIC_VISIBLE\<close>, at the clock SQLite reads when it evaluates the query.\<close>

definition public_visible :: "int \<Rightarrow> page_row \<Rightarrow> bool" where
  "public_visible now r \<longleftrightarrow> p_is_published r \<or> (case p_publish_at r of Some t \<Rightarrow> t \<le> now | None \<Rightarrow> False)"

definition pending :: "int \<Rightarrow> page_row \<Rightarrow> bool" where
  "pending now r \<longleftrightarrow> \<not> p_is_published r \<and> (case p_publish_at r of Some t \<Rightarrow> t > now | None \<Rightarrow> False)"

text \<open>\<open>ORDER BY updated_at DESC, id DESC\<close> over rows that come in the order of their ids, and
  \<open>LIMIT .. OFFSET\<close>.\<close>

definition newest_first :: "page_row list \<Rightarrow> page_row list" where
  "newest_first rs = rev (order_asc p_updated_at rs)"

definition paged :: "int \<Rightarrow> int \<Rightarrow> 'r list \<Rightarrow> 'r list" where
  "paged n offset rs = limit n (drop (nat offset) rs)"

definition listed_pages :: "db \<Rightarrow> int \<Rightarrow> string \<Rightarrow> bool \<Rightarrow> page_row list" where
  "listed_pages db now organization include_drafts =
     newest_first (select_rows (\<lambda>r. in_scope db organization r \<and> (include_drafts \<or> public_visible now r)) (db_pages db))"

section \<open>Reading\<close>

definition find_page_by_id :: "db \<Rightarrow> string \<Rightarrow> int \<Rightarrow> page_record option repo" where
  "find_page_by_id db organization i =
     Inr (map_option page_of_row (select_row (\<lambda>r. p_id r = i \<and> in_scope db organization r) (db_pages db)))"

definition find_page_by_slug :: "db \<Rightarrow> string \<Rightarrow> string \<Rightarrow> page_record option repo" where
  "find_page_by_slug db organization slug =
     Inr (map_option page_of_row (select_row (\<lambda>r. p_slug r = slug \<and> in_scope db organization r) (db_pages db)))"

definition list_pages :: "db \<Rightarrow> int \<Rightarrow> string \<Rightarrow> bool \<Rightarrow> int \<Rightarrow> page_summary list repo" where
  "list_pages db now organization include_drafts n =
     Inr (map summary_of_row (limit n (listed_pages db now organization include_drafts)))"

definition list_pages_paged :: "db \<Rightarrow> int \<Rightarrow> string \<Rightarrow> bool \<Rightarrow> int \<Rightarrow> int \<Rightarrow> page_summary list repo" where
  "list_pages_paged db now organization include_drafts n offset =
     Inr (map summary_of_row (paged n offset (listed_pages db now organization include_drafts)))"

definition feed_entries :: "db \<Rightarrow> int \<Rightarrow> string \<Rightarrow> int \<Rightarrow> feed_entry list repo" where
  "feed_entries db now organization n =
     Inr (map (\<lambda>r. \<lparr>fe_id = p_id r, fe_slug = p_slug r, fe_title = p_title r, fe_updated_at = p_updated_at r,
            fe_meta_description = p_meta_description r\<rparr>)
       (limit n (listed_pages db now organization False)))"

definition count_pages :: "db \<Rightarrow> string \<Rightarrow> int repo" where
  "count_pages db organization = Inr (int (count_rows (in_scope db organization) (db_pages db)))"

definition count_published :: "db \<Rightarrow> int \<Rightarrow> string \<Rightarrow> int repo" where
  "count_published db now organization =
     Inr (int (count_rows (\<lambda>r. in_scope db organization r \<and> public_visible now r) (db_pages db)))"

definition page_children :: "db \<Rightarrow> int \<Rightarrow> string \<Rightarrow> int option \<Rightarrow> bool \<Rightarrow> page_summary list repo" where
  "page_children db now organization parent include_drafts =
     Inr (map summary_of_row (order_asc p_position
       (select_rows (\<lambda>r. p_parent r = parent \<and> (public_visible now r \<or> include_drafts) \<and> in_scope db organization r) (db_pages db))))"

definition scheduled_pending :: "db \<Rightarrow> int \<Rightarrow> string \<Rightarrow> int \<Rightarrow> page_summary list repo" where
  "scheduled_pending db now organization n =
     Inr (map summary_of_row (limit n (order_asc (\<lambda>r. the (p_publish_at r))
       (select_rows (\<lambda>r. in_scope db organization r \<and> pending now r) (db_pages db)))))"

definition count_scheduled :: "db \<Rightarrow> int \<Rightarrow> string \<Rightarrow> int repo" where
  "count_scheduled db now organization =
     Inr (int (count_rows (\<lambda>r. in_scope db organization r \<and> pending now r) (db_pages db)))"

text \<open>The walk from a page up to the root, a query per hop.\<close>

fun ancestors_walk :: "nat \<Rightarrow> db \<Rightarrow> string \<Rightarrow> int \<Rightarrow> int \<Rightarrow> page_summary list \<Rightarrow> page_summary list" where
  "ancestors_walk 0 db organization i current chain = chain"
| "ancestors_walk (Suc hops) db organization i current chain =
     (case select_row (\<lambda>r. p_id r = current \<and> in_scope db organization r) (db_pages db) of
        None \<Rightarrow> chain
      | Some r \<Rightarrow>
          (let chain' = (if p_id r \<noteq> i then summary_of_row r # chain else chain) in
           case p_parent r of
             Some parent \<Rightarrow> if parent \<noteq> p_id r then ancestors_walk hops db organization i parent chain' else chain'
           | None \<Rightarrow> chain'))"

definition ancestors :: "db \<Rightarrow> string \<Rightarrow> int \<Rightarrow> page_summary list repo" where
  "ancestors db organization i = Inr (ancestors_walk max_ancestor_hops db organization i i [])"

section \<open>Search\<close>

definition quoted :: "string \<Rightarrow> string" where
  "quoted token = ''\"'' @ filter (\<lambda>c. c \<noteq> CHR 0x22) token @ ''\"''"

definition fts_match_query :: "string \<Rightarrow> string option" where
  "fts_match_query terms =
     (let phrases = filter (\<lambda>p. p \<noteq> ''\"\"'') (map quoted (split_whitespace terms)) in
      if phrases = [] then None else Some (join_with '' '' phrases))"

text \<open>The full-text index over titles and bodies: which rows a query matches, the rank of a row for a query
  (\<open>bm25\<close>, which weighs it against all the rows of the index, the drafts and the pages of every
  organization among them), and the marked fragment of a row's body.\<close>

record 'k fts =
  fts_matches :: "string \<Rightarrow> page_row \<Rightarrow> bool"
  fts_rank :: "string \<Rightarrow> page_row list \<Rightarrow> page_row \<Rightarrow> 'k"
  fts_snippet :: "string \<Rightarrow> page_row \<Rightarrow> string"

definition found_pages :: "'k fts \<Rightarrow> db \<Rightarrow> int \<Rightarrow> string \<Rightarrow> string \<Rightarrow> bool \<Rightarrow> page_row list" where
  "found_pages ix db now organization match_query include_drafts =
     select_rows (\<lambda>r. fts_matches ix match_query r \<and> (public_visible now r \<or> include_drafts) \<and> in_scope db organization r)
       (db_pages db)"

definition search_pages :: "'k :: linorder fts \<Rightarrow> db \<Rightarrow> int \<Rightarrow> string \<Rightarrow> string \<Rightarrow> bool \<Rightarrow> int \<Rightarrow> int \<Rightarrow> search_hit list repo" where
  "search_pages ix db now organization terms include_drafts n offset =
     (case fts_match_query terms of
        None \<Rightarrow> Inr []
      | Some q \<Rightarrow>
          Inr (map (\<lambda>r. \<lparr>sh_id = p_id r, sh_slug = p_slug r, sh_title = p_title r,
              sh_is_published = p_is_published r, sh_publish_at = p_publish_at r, sh_updated_at = p_updated_at r, sh_fragment = fts_snippet ix q r\<rparr>)
            (paged n offset (order_asc (fts_rank ix q (rows (db_pages db))) (found_pages ix db now organization q include_drafts)))))"

definition search_count :: "'k fts \<Rightarrow> db \<Rightarrow> int \<Rightarrow> string \<Rightarrow> string \<Rightarrow> bool \<Rightarrow> int repo" where
  "search_count ix db now organization terms include_drafts =
     (case fts_match_query terms of
        None \<Rightarrow> Inr 0
      | Some q \<Rightarrow> Inr (int (length (found_pages ix db now organization q include_drafts))))"

section \<open>History\<close>

definition page_history :: "db \<Rightarrow> int \<Rightarrow> revision_row list" where
  "page_history db page = select_rows (\<lambda>v. rv_page v = page) (db_revisions db)"

definition next_revision :: "db \<Rightarrow> int \<Rightarrow> int" where
  "next_revision db page =
     (case map rv_revision (page_history db page) of [] \<Rightarrow> 0 | v # vs \<Rightarrow> foldl max v vs) + 1"

definition snapshot_row :: "int \<Rightarrow> int \<Rightarrow> revision_snapshot \<Rightarrow> int option \<Rightarrow> int \<Rightarrow> int \<Rightarrow> revision_row" where
  "snapshot_row page revision s edited_by now i =
     \<lparr>rv_id = i, rv_page = page, rv_revision = revision, rv_slug = sn_slug s, rv_title = sn_title s,
      rv_content = sn_content s, rv_body_format = body_format_as_str (sn_body_format s), rv_parent = sn_parent s,
      rv_position = sn_position s, rv_meta_title = sn_meta_title s, rv_meta_description = sn_meta_description s,
      rv_og_image = sn_og_image s, rv_is_published = sn_is_published s, rv_publish_at = sn_publish_at s,
      rv_edited_by = edited_by, rv_note = sn_note s, rv_created_at = now\<rparr>"

definition record_revision :: "db \<Rightarrow> int \<Rightarrow> int \<Rightarrow> revision_snapshot \<Rightarrow> int option \<Rightarrow> int repo \<times> db" where
  "record_revision db now page s edited_by =
     (let revision = next_revision db page in
      if \<not> page_exists db page \<or> \<not> refers (user_exists db) edited_by
      then (Inl (Internal ''FOREIGN KEY constraint failed''), db)
      else (Inr revision, db\<lparr>db_revisions := snd (insert_row (snapshot_row page revision s edited_by now) (db_revisions db))\<rparr>))"

definition prune_revisions :: "nat \<Rightarrow> db \<Rightarrow> int \<Rightarrow> int \<Rightarrow> db" where
  "prune_revisions max_revisions db page revision =
     (if max_revisions = 0 then db
      else (let floor = revision - int max_revisions in
            if floor > 0
            then db\<lparr>db_revisions := delete_rows (\<lambda>v. rv_page v = page \<and> rv_revision v \<le> floor) (db_revisions db)\<rparr>
            else db))"

text \<open>A save's revision and the pruning, rolled back as a whole to \<open>old\<close> on an error.\<close>

definition record_save :: "nat \<Rightarrow> db \<Rightarrow> db \<Rightarrow> int \<Rightarrow> int \<Rightarrow> revision_snapshot \<Rightarrow> int option \<Rightarrow> unit repo \<times> db" where
  "record_save max_revisions old db now page s edited_by =
     (case record_revision db now page s edited_by of
        (Inl e, _) \<Rightarrow> (Inl e, old)
      | (Inr revision, db') \<Rightarrow> (Inr (), prune_revisions max_revisions db' page revision))"

definition page_revisions :: "db \<Rightarrow> int \<Rightarrow> revision_summary list repo" where
  "page_revisions db page =
     Inr (map (revision_summary_of_row db) (limit max_listed_revisions (rev (order_asc rv_revision (page_history db page)))))"

definition find_revision :: "db \<Rightarrow> int \<Rightarrow> int \<Rightarrow> page_revision option repo" where
  "find_revision db page revision =
     Inr (map_option (revision_of_row db) (select_row (\<lambda>v. rv_page v = page \<and> rv_revision v = revision) (db_revisions db)))"

definition recent_revisions :: "db \<Rightarrow> string \<Rightarrow> int \<Rightarrow> recent_revision list repo" where
  "recent_revisions db organization n =
     Inr (map (recent_revision_of_row db) (limit n (rev
       (select_rows (\<lambda>v. \<exists>p \<in> set (rows (db_pages db)). p_id p = rv_page v \<and> in_scope db organization p) (db_revisions db)))))"

section \<open>Writing\<close>

definition slug_taken :: "db \<Rightarrow> int \<Rightarrow> string \<Rightarrow> (int \<Rightarrow> bool) \<Rightarrow> bool" where
  "slug_taken db organization_id slug other \<longleftrightarrow>
     (\<exists>r \<in> set (rows (db_pages db)). p_organization r = organization_id \<and> p_slug r = slug \<and> other (p_id r))"

definition new_page_row :: "new_page \<Rightarrow> int \<Rightarrow> int \<Rightarrow> int \<Rightarrow> page_row" where
  "new_page_row np organization_id now i =
     \<lparr>p_id = i, p_organization = organization_id, p_slug = np_slug np, p_title = np_title np,
      p_content = np_content np, p_body_format = body_format_as_str (np_body_format np),
      p_is_published = np_is_published np, p_publish_at = np_publish_at np, p_created_by = np_created_by np,
      p_created_at = now, p_updated_at = now, p_parent = np_parent np, p_position = np_position np,
      p_meta_title = np_meta_title np, p_meta_description = np_meta_description np, p_og_image = np_og_image np\<rparr>"

definition new_page_snapshot :: "new_page \<Rightarrow> revision_snapshot" where
  "new_page_snapshot np =
     \<lparr>sn_slug = np_slug np, sn_title = np_title np, sn_content = np_content np, sn_body_format = np_body_format np,
      sn_parent = np_parent np, sn_position = np_position np, sn_meta_title = np_meta_title np,
      sn_meta_description = np_meta_description np, sn_og_image = np_og_image np,
      sn_is_published = np_is_published np, sn_publish_at = np_publish_at np, sn_note = np_revision_note np\<rparr>"

definition create_page :: "nat \<Rightarrow> db \<Rightarrow> int \<Rightarrow> string \<Rightarrow> new_page \<Rightarrow> page_record repo \<times> db" where
  "create_page max_revisions db now organization np =
     (case org_id db organization of
        None \<Rightarrow> (Inl (Internal ''NOT NULL constraint failed: pages.organization_id''), db)
      | Some owner \<Rightarrow>
          if slug_taken db owner (np_slug np) (\<lambda>_. True) then (Inl Duplicate, db)
          else
            (case insert_row (new_page_row np owner now) (db_pages db) of
               (i, pages) \<Rightarrow>
                 (let db1 = db\<lparr>db_pages := pages\<rparr> in
                  if \<not> refers (user_exists db1) (np_created_by np) \<or> \<not> refers (page_exists db1) (np_parent np)
                  then (Inl (Internal ''FOREIGN KEY constraint failed''), db)
                  else (case record_save max_revisions db db1 now i (new_page_snapshot np) (np_created_by np) of
                          (Inl e, db') \<Rightarrow> (Inl e, db')
                        | (Inr _, db') \<Rightarrow>
                            (Inr \<lparr>pr_id = i, pr_slug = np_slug np, pr_title = np_title np, pr_content = np_content np,
                               pr_body_format = np_body_format np, pr_is_published = np_is_published np,
                               pr_publish_at = np_publish_at np, pr_created_by = np_created_by np, pr_created_at = now,
                               pr_updated_at = now, pr_parent = np_parent np, pr_position = np_position np,
                               pr_meta_title = np_meta_title np, pr_meta_description = np_meta_description np,
                               pr_og_image = np_og_image np\<rparr>, db')))))"

definition updated_row :: "page_update \<Rightarrow> int \<Rightarrow> page_row \<Rightarrow> page_row" where
  "updated_row u now r =
     r\<lparr>p_slug := (case up_slug u of Some s \<Rightarrow> s | None \<Rightarrow> p_slug r), p_title := up_title u, p_content := up_content u,
       p_is_published := up_is_published u, p_updated_at := now, p_parent := up_parent u, p_position := up_position u,
       p_meta_title := up_meta_title u, p_meta_description := up_meta_description u, p_og_image := up_og_image u,
       p_body_format := body_format_as_str (up_body_format u), p_publish_at := up_publish_at u\<rparr>"

definition update_snapshot :: "page_update \<Rightarrow> string \<Rightarrow> revision_snapshot" where
  "update_snapshot u current_slug =
     \<lparr>sn_slug = (case up_slug u of Some s \<Rightarrow> s | None \<Rightarrow> current_slug), sn_title = up_title u, sn_content = up_content u,
      sn_body_format = up_body_format u, sn_parent = up_parent u, sn_position = up_position u,
      sn_meta_title = up_meta_title u, sn_meta_description = up_meta_description u, sn_og_image = up_og_image u,
      sn_is_published = up_is_published u, sn_publish_at = up_publish_at u, sn_note = up_revision_note u\<rparr>"

definition update_page :: "nat \<Rightarrow> db \<Rightarrow> int \<Rightarrow> string \<Rightarrow> int \<Rightarrow> page_update \<Rightarrow> page_record option repo \<times> db" where
  "update_page max_revisions db now organization i u =
     (case find_page_by_id db organization i of
        Inl e \<Rightarrow> (Inl e, db)
      | Inr None \<Rightarrow> (Inr None, db)
      | Inr (Some current) \<Rightarrow>
          (let target = (\<lambda>r. p_id r = i \<and> in_scope db organization r);
               db1 = db\<lparr>db_pages := update_rows target (updated_row u now) (db_pages db)\<rparr> in
           if \<exists>r \<in> set (rows (db_pages db)). target r \<and> slug_taken db (p_organization r) (p_slug (updated_row u now r)) (\<lambda>j. j \<noteq> i)
           then (Inl Duplicate, db)
           else if \<not> refers (page_exists db1) (up_parent u) then (Inl (Internal ''FOREIGN KEY constraint failed''), db)
           else if count_rows target (db_pages db) = 0 then (Inr None, db)
           else (case record_save max_revisions db db1 now i (update_snapshot u (pr_slug current)) (up_edited_by u) of
                   (Inl e, db') \<Rightarrow> (Inl e, db')
                 | (Inr _, db') \<Rightarrow> (find_page_by_id db' organization i, db'))))"

text \<open>What the foreign keys take along with a deleted page: its revisions, the menu items that
  link it, and the link to it from its children.\<close>

definition cascade_page :: "db \<Rightarrow> int \<Rightarrow> db" where
  "cascade_page db i =
     db\<lparr>db_pages := update_rows (\<lambda>r. p_parent r = Some i) (\<lambda>r. r\<lparr>p_parent := None\<rparr>) (db_pages db),
        db_revisions := delete_rows (\<lambda>v. rv_page v = i) (db_revisions db),
        db_items := delete_rows (\<lambda>m. mi_page m = Some i) (db_items db)\<rparr>"

definition delete_page :: "db \<Rightarrow> string \<Rightarrow> int \<Rightarrow> bool repo \<times> db" where
  "delete_page db organization i =
     (let target = (\<lambda>r. p_id r = i \<and> in_scope db organization r) in
      if count_rows target (db_pages db) = 0 then (Inr False, db)
      else (Inr True, cascade_page (db\<lparr>db_pages := delete_rows target (db_pages db)\<rparr>) i))"

section \<open>The invariant of the pages\<close>

definition pages_ok :: "db \<Rightarrow> bool" where
  "pages_ok db \<longleftrightarrow>
     store_ok p_id (db_pages db) \<and> distinct (map (\<lambda>r. (p_organization r, p_slug r)) (rows (db_pages db))) \<and>
     (\<forall>r \<in> set (rows (db_pages db)). refers (page_exists db) (p_parent r) \<and> refers (user_exists db) (p_created_by r))"

text \<open>
  A revision holds the state of a page, as far as a restore puts it back. The parent it names may have
  been deleted since, which takes the link from the page; \<open>ex\<close> tells the pages that exist.
\<close>

definition live_parent :: "(int \<Rightarrow> bool) \<Rightarrow> int option \<Rightarrow> int option" where
  "live_parent ex x = (case x of Some j \<Rightarrow> if ex j then Some j else None | None \<Rightarrow> None)"

definition saved_state :: "(int \<Rightarrow> bool) \<Rightarrow> page_row \<Rightarrow> revision_row \<Rightarrow> bool" where
  "saved_state ex p v \<longleftrightarrow>
     p_parent p = live_parent ex (rv_parent v) \<and>
     rv_slug v = p_slug p \<and> rv_title v = p_title p \<and> rv_content v = p_content p \<and> rv_body_format v = p_body_format p \<and>
     rv_position v = p_position p \<and> rv_meta_title v = p_meta_title p \<and> rv_meta_description v = p_meta_description p \<and>
     rv_og_image v = p_og_image p \<and> rv_is_published v = p_is_published p \<and> rv_publish_at v = p_publish_at p"

text \<open>The numbers of a history that is complete from some revision on and within the cap.\<close>

definition numbered :: "nat \<Rightarrow> int \<Rightarrow> int \<Rightarrow> revision_row list \<Rightarrow> bool" where
  "numbered cap first n vs \<longleftrightarrow>
     map rv_revision vs = [first..n] \<and> 1 \<le> first \<and> first \<le> n + 1 \<and> (cap = 0 \<or> n - first < int cap)"

definition history_of :: "(int \<Rightarrow> bool) \<Rightarrow> nat \<Rightarrow> page_row \<Rightarrow> revision_row list \<Rightarrow> bool" where
  "history_of ex cap p vs \<longleftrightarrow> vs \<noteq> [] \<and> saved_state ex p (last vs) \<and> (\<exists>first n. numbered cap first n vs)"

text \<open>The parents that revisions name are or were pages: their ids are not given out again.\<close>

definition parent_known :: "db \<Rightarrow> int option \<Rightarrow> bool" where
  "parent_known db x \<longleftrightarrow> (\<forall>j. x = Some j \<longrightarrow> j \<le> last_id (db_pages db))"

definition history_ok :: "nat \<Rightarrow> db \<Rightarrow> bool" where
  "history_ok cap db \<longleftrightarrow>
     store_ok rv_id (db_revisions db) \<and>
     (\<forall>v \<in> set (rows (db_revisions db)). page_exists db (rv_page v) \<and> parent_known db (rv_parent v)) \<and>
     (\<forall>p \<in> set (rows (db_pages db)). history_of (page_exists db) cap p (page_history db (p_id p)))"

lemma foldl_max_upto: "a \<le> b \<Longrightarrow> foldl max m [a..b] = max m (b :: int)"
proof (induction "nat (b - a)" arbitrary: a m)
  case 0
  then show ?case by simp
next
  case (Suc k)
  then have "[a..b] = a # [a + 1..b]" by (simp add: upto_rec1)
  moreover have "foldl max (max m a) [a + 1..b] = max (max m a) b" using Suc.hyps(2) by (intro Suc.hyps(1)) simp_all
  ultimately show ?case using Suc.prems by simp
qed

lemma next_revision_numbered: "numbered cap first n (page_history db i) \<Longrightarrow> page_history db i \<noteq> [] \<Longrightarrow> next_revision db i = n + 1"
proof -
  assume a: "numbered cap first n (page_history db i)" "page_history db i \<noteq> []"
  then have m: "map rv_revision (page_history db i) = [first..n]" by (simp add: numbered_def)
  with a(2) have "[first..n] \<noteq> []" by (metis map_is_Nil_conv)
  then have "first \<le> n" by simp
  then have "[first..n] = first # [first + 1..n]" by (simp add: upto_rec1)
  moreover have "foldl max first [first + 1..n] = n"
    using \<open>first \<le> n\<close> foldl_max_upto [of "first + 1" n first] by (cases "first = n") simp_all
  ultimately show ?thesis using m by (simp add: next_revision_def)
qed

lemma next_revision_empty: "page_history db i = [] \<Longrightarrow> next_revision db i = 1"
  by (simp add: next_revision_def)

lemma filter_upto: "filter (\<lambda>x. \<not> x \<le> f) [a..b :: int] = [max a (f + 1)..b]"
proof (induction "nat (b - a + 1)" arbitrary: a)
  case (Suc k)
  then have "[a..b] = a # [a + 1..b]" by (simp add: upto_rec1)
  moreover have "filter (\<lambda>x. \<not> x \<le> f) [a + 1..b] = [max (a + 1) (f + 1)..b]" using Suc.hyps(2) by (intro Suc.hyps(1)) simp
  moreover have "max a (f + 1) = a" if "\<not> a \<le> f" using that by simp
  moreover have "max (a + 1) (f + 1) = a + 1" if "\<not> a \<le> f" using that by simp
  ultimately show ?case using Suc.hyps(2) by (cases "a \<le> f") (simp_all add: upto_rec1 max_def)
qed simp

lemma map_filter_key: "map f (filter (\<lambda>x. P (f x)) xs) = filter P (map f xs)"
  by (induction xs) simp_all

lemma page_history_insert:
  "page_history (db\<lparr>db_revisions := snd (insert_row mk (db_revisions db))\<rparr>) i =
    page_history db i @ (if rv_page (mk (last_id (db_revisions db) + 1)) = i then [mk (last_id (db_revisions db) + 1)] else [])"
  by (simp add: page_history_def select_rows_def)

lemma page_history_delete:
  "page_history (db\<lparr>db_revisions := delete_rows p (db_revisions db)\<rparr>) i = filter (\<lambda>v. \<not> p v) (page_history db i)"
  by (simp add: page_history_def select_rows_def conj_commute)

lemma prune_history_other: "j \<noteq> i \<Longrightarrow> page_history (prune_revisions cap db i n) j = page_history db j"
  by (auto simp: prune_revisions_def Let_def page_history_def select_rows_def intro!: filter_cong)

text \<open>A save extends the history of its page by the state saved, and leaves the others alone.\<close>

lemma record_save_history:
  assumes "record_save cap old db now i s e = (Inr (), db')"
    "page_history db i = [] \<and> n = 0 \<or> page_history db i \<noteq> [] \<and> numbered cap first n (page_history db i)"
  shows "\<exists>vs first' k. page_history db' i = vs @ [snapshot_row i (n + 1) s e now k] \<and> numbered cap first' (n + 1) (page_history db' i)"
proof -
  have nxt: "next_revision db i = n + 1"
    using assms(2) next_revision_numbered next_revision_empty by auto
  let ?k = "last_id (db_revisions db) + 1"
  let ?v = "snapshot_row i (n + 1) s e now ?k"
  let ?db1 = "db\<lparr>db_revisions := snd (insert_row (snapshot_row i (n + 1) s e now) (db_revisions db))\<rparr>"
  have db': "db' = prune_revisions cap ?db1 i (n + 1)"
    using assms(1) nxt by (auto simp: record_save_def record_revision_def Let_def split: if_splits)
  have h1: "page_history ?db1 i = page_history db i @ [?v]"
    unfolding page_history_insert by (simp add: snapshot_row_def)
  obtain f where f: "map rv_revision (page_history ?db1 i) = [f..n + 1]" "1 \<le> f" "f \<le> n + 1"
  proof (cases "page_history db i = []")
    case True
    with assms(2) h1 show ?thesis by (intro that [of 1]) (simp_all add: snapshot_row_def)
  next
    case False
    with assms(2) have "numbered cap first n (page_history db i)" by blast
    with h1 show ?thesis by (intro that [of first]) (simp_all add: numbered_def upto_rec2 snapshot_row_def)
  qed
  let ?floor = "n + 1 - int cap"
  have "page_history db' i = filter (\<lambda>v. cap = 0 \<or> \<not> rv_revision v \<le> ?floor) (page_history ?db1 i)"
  proof (cases "cap = 0 \<or> ?floor \<le> 0")
    case True
    have "1 \<le> rv_revision v" if "v \<in> set (page_history ?db1 i)" for v
    proof -
      have "rv_revision v \<in> set [f..n + 1]" unfolding f(1) [symmetric] using that by simp
      with f(2) show ?thesis by simp
    qed
    note one = this
    have "cap = 0 \<or> \<not> rv_revision v \<le> ?floor" if "v \<in> set (page_history ?db1 i)" for v
      using True one [OF that] by linarith
    then have "filter (\<lambda>v. cap = 0 \<or> \<not> rv_revision v \<le> ?floor) (page_history ?db1 i) = page_history ?db1 i"
      by (intro filter_True) blast
    with True show ?thesis by (auto simp: db' prune_revisions_def Let_def)
  next
    case False
    have "page_history db' i = filter (\<lambda>v. \<not> (rv_page v = i \<and> rv_revision v \<le> ?floor)) (page_history ?db1 i)"
      using False by (simp add: db' prune_revisions_def Let_def page_history_def select_rows_def conj_commute)
    also have "\<dots> = filter (\<lambda>v. cap = 0 \<or> \<not> rv_revision v \<le> ?floor) (page_history ?db1 i)"
      using False by (intro filter_cong) (auto simp: page_history_def select_rows_def snapshot_row_def)
    finally show ?thesis .
  qed
  note h = this
  have "page_history db' i = filter (\<lambda>v. cap = 0 \<or> \<not> rv_revision v \<le> ?floor) (page_history db i) @ [?v]"
    unfolding h h1 by (cases cap) (simp_all add: snapshot_row_def)
  moreover have "map rv_revision (page_history db' i) = (if cap = 0 then [f..n + 1] else [max f (?floor + 1)..n + 1])"
    unfolding h by (simp add: map_filter_key [where P = "\<lambda>x. \<not> x \<le> ?floor"] f(1) filter_upto)
  then have "numbered cap (if cap = 0 then f else max f (?floor + 1)) (n + 1) (page_history db' i)"
    using f(2,3) by (auto simp: numbered_def)
  ultimately show "\<exists>vs first' k. page_history db' i = vs @ [snapshot_row i (n + 1) s e now k] \<and> numbered cap first' (n + 1) (page_history db' i)"
    by blast
qed

section \<open>Operations keep the invariant\<close>

datatype page_op =
    Create_Page int string new_page
  | Update_Page int string int page_update
  | Delete_Page string int
  | Drop_Editor int

fun page_step :: "nat \<Rightarrow> db \<Rightarrow> page_op \<Rightarrow> db" where
  "page_step cap db (Create_Page now organization np) = snd (create_page cap db now organization np)"
| "page_step cap db (Update_Page now organization i u) = snd (update_page cap db now organization i u)"
| "page_step cap db (Delete_Page organization i) = snd (delete_page db organization i)"
| "page_step cap db (Drop_Editor i) = snd (delete_user db i)"

lemma page_history_cong: "db_revisions db' = db_revisions db \<Longrightarrow> page_history db' i = page_history db i"
  by (simp add: page_history_def)

lemma page_exists_pages: "db_pages db' = db_pages db \<Longrightarrow> page_exists db' i = page_exists db i"
  by (simp add: page_exists_def)

lemma user_exists_users: "db_users db' = db_users db \<Longrightarrow> user_exists db' i = user_exists db i"
  by (simp add: user_exists_def)

lemma refers_mono: "refers p x \<Longrightarrow> (\<And>i. p i \<Longrightarrow> q i) \<Longrightarrow> refers q x"
  by (auto simp: refers_def split: option.splits)

text \<open>What a successful creation and a successful update did.\<close>

lemma create_page_cases:
  assumes "create_page cap db now organization np = (r, db')"
  obtains (refused) "db' = db" "\<exists>e. r = Inl e"
  | (created) owner db1 where "org_id db organization = Some owner" "\<not> slug_taken db owner (np_slug np) (\<lambda>_. True)"
      "db1 = db\<lparr>db_pages := snd (insert_row (new_page_row np owner now) (db_pages db))\<rparr>"
      "refers (user_exists db1) (np_created_by np)" "refers (page_exists db1) (np_parent np)"
      "record_save cap db db1 now (last_id (db_pages db) + 1) (new_page_snapshot np) (np_created_by np) = (Inr (), db')"
      "r = Inr (page_of_row (new_page_row np owner now (last_id (db_pages db) + 1)))"
proof (cases "org_id db organization")
  case None
  with assms show ?thesis by (intro refused) (auto simp: create_page_def)
next
  case (Some owner)
  define db1 where "db1 = db\<lparr>db_pages := snd (insert_row (new_page_row np owner now) (db_pages db))\<rparr>"
  let ?i = "last_id (db_pages db) + 1"
  show ?thesis
  proof (cases "\<not> slug_taken db owner (np_slug np) (\<lambda>_. True) \<and> refers (user_exists db1) (np_created_by np) \<and> refers (page_exists db1) (np_parent np)")
    case False
    with assms Some show ?thesis by (intro refused) (auto simp: create_page_def split_beta db1_def Let_def split: if_splits)
  next
    case True
    obtain q d where q: "record_save cap db db1 now ?i (new_page_snapshot np) (np_created_by np) = (q, d)" by force
    have e: "(r, db') = (case q of Inl e \<Rightarrow> (Inl e, d) | Inr _ \<Rightarrow> (Inr (page_of_row (new_page_row np owner now ?i)), d))"
      using assms Some True q
      by (simp add: create_page_def split_beta Let_def db1_def page_of_row_def new_page_row_def split: sum.splits)
    show ?thesis
    proof (cases q)
      case (Inl x)
      with q have "d = db" by (auto simp: record_save_def split: prod.splits sum.splits)
      with e Inl show ?thesis by (intro refused) auto
    next
      case (Inr x)
      with e q True Some show ?thesis by (intro created [OF Some _ db1_def]) auto
    qed
  qed
qed

lemma update_page_cases:
  assumes "update_page cap db now organization i u = (r, db')"
  obtains (refused) "db' = db" "\<forall>q. r \<noteq> Inr (Some q)"
  | (updated) p db1 where "select_row (\<lambda>r. p_id r = i \<and> in_scope db organization r) (db_pages db) = Some p"
      "\<not> slug_taken db (p_organization p) (p_slug (updated_row u now p)) (\<lambda>j. j \<noteq> i)"
      "db1 = db\<lparr>db_pages := update_rows (\<lambda>r. p_id r = i \<and> in_scope db organization r) (updated_row u now) (db_pages db)\<rparr>"
      "refers (page_exists db1) (up_parent u)"
      "record_save cap db db1 now i (update_snapshot u (p_slug p)) (up_edited_by u) = (Inr (), db')"
      "r = find_page_by_id db' organization i"
proof (cases "select_row (\<lambda>r. p_id r = i \<and> in_scope db organization r) (db_pages db)")
  case None
  with assms show ?thesis by (intro refused) (auto simp: update_page_def find_page_by_id_def)
next
  case (Some p)
  note p = select_row_Some [OF Some]
  define db1 where "db1 = db\<lparr>db_pages := update_rows (\<lambda>r. p_id r = i \<and> in_scope db organization r) (updated_row u now) (db_pages db)\<rparr>"
  have n: "count_rows (\<lambda>r. p_id r = i \<and> in_scope db organization r) (db_pages db) \<noteq> 0"
    using p by (auto simp: count_rows_0)
  show ?thesis
  proof (cases "(\<exists>r \<in> set (rows (db_pages db)). (p_id r = i \<and> in_scope db organization r) \<and>
      slug_taken db (p_organization r) (p_slug (updated_row u now r)) (\<lambda>j. j \<noteq> i)) \<or> \<not> refers (page_exists db1) (up_parent u)")
    case True
    with assms Some show ?thesis
      by (intro refused) (auto simp: update_page_def find_page_by_id_def db1_def Let_def split: if_splits)
  next
    case False
    obtain q d where q: "record_save cap db db1 now i (update_snapshot u (p_slug p)) (up_edited_by u) = (q, d)" by force
    have clash: "\<not> (\<exists>r \<in> set (rows (db_pages db)). (p_id r = i \<and> in_scope db organization r) \<and>
        slug_taken db (p_organization r) (p_slug (updated_row u now r)) (\<lambda>j. j \<noteq> i))"
      and parent: "refers (page_exists db1) (up_parent u)" using False by blast+
    have f: "find_page_by_id db organization i = Inr (Some (page_of_row p))" using Some by (simp add: find_page_by_id_def)
    have slug: "pr_slug (page_of_row p) = p_slug p" by (simp add: page_of_row_def)
    have e: "(r, db') = (case q of Inl e \<Rightarrow> (Inl e, d) | Inr _ \<Rightarrow> (find_page_by_id d organization i, d))"
      unfolding assms [symmetric] update_page_def Let_def f sum.case option.case db1_def [symmetric]
      by (simp only: clash parent n slug q if_False if_True not_True_eq_False prod.case)
    show ?thesis
    proof (cases q)
      case (Inl x)
      with q have "d = db" by (auto simp: record_save_def split: prod.splits sum.splits)
      with e Inl show ?thesis by (intro refused) auto
    next
      case (Inr x)
      with e q False Some p show ?thesis by (intro updated [OF Some _ db1_def]) auto
    qed
  qed
qed

lemma history_of_state:
  "history_of ex cap p vs \<Longrightarrow> (\<And>v. v \<in> set vs \<Longrightarrow> saved_state ex p v \<Longrightarrow> saved_state ex' p' v) \<Longrightarrow> history_of ex' cap p' vs"
  by (auto simp: history_of_def)

lemma set_page_history: "v \<in> set (page_history db i) \<Longrightarrow> v \<in> set (rows (db_revisions db))"
  by (auto simp: page_history_def select_rows_def)

lemma history_okI:
  assumes "history_ok cap db" "store_ok rv_id (db_revisions db')"
    "\<And>v. v \<in> set (rows (db_revisions db')) \<Longrightarrow> page_exists db' (rv_page v) \<and> parent_known db' (rv_parent v)"
    "\<And>p'. p' \<in> set (rows (db_pages db')) \<Longrightarrow> p_id p' \<noteq> i \<Longrightarrow>
      page_history db' (p_id p') = page_history db (p_id p') \<and>
      (\<exists>p \<in> set (rows (db_pages db)). p_id p = p_id p' \<and>
        (\<forall>v. parent_known db (rv_parent v) \<longrightarrow> saved_state (page_exists db) p v \<longrightarrow> saved_state (page_exists db') p' v))"
    "\<And>p'. p' \<in> set (rows (db_pages db')) \<Longrightarrow> p_id p' = i \<Longrightarrow> history_of (page_exists db') cap p' (page_history db' i)"
  shows "history_ok cap db'"
  unfolding history_ok_def
proof (intro conjI ballI)
  fix p' assume p': "p' \<in> set (rows (db_pages db'))"
  show "history_of (page_exists db') cap p' (page_history db' (p_id p'))"
  proof (cases "p_id p' = i")
    case True
    with p' assms(5) show ?thesis by simp
  next
    case False
    from assms(4) [OF p' False] obtain p where p: "page_history db' (p_id p') = page_history db (p_id p')"
      "p \<in> set (rows (db_pages db))" "p_id p = p_id p'"
      "\<forall>v. parent_known db (rv_parent v) \<longrightarrow> saved_state (page_exists db) p v \<longrightarrow> saved_state (page_exists db') p' v"
      by blast
    have "history_of (page_exists db) cap p (page_history db (p_id p))" using assms(1) p(2) by (simp add: history_ok_def)
    then show ?thesis unfolding p(1,3)
      by (rule history_of_state) (use p(4) assms(1) set_page_history in \<open>auto simp: history_ok_def\<close>)
  qed
qed (use assms(2,3) in simp_all)

text \<open>The history of the page just saved.\<close>

lemma saved_history:
  assumes "record_save cap old db now i s e = (Inr (), db')"
    "page_history db i = [] \<or> history_of ex cap p (page_history db i)" "\<And>n k. saved_state ex' p' (snapshot_row i n s e now k)"
  shows "history_of ex' cap p' (page_history db' i)"
proof -
  obtain n first where "page_history db i = [] \<and> n = 0 \<or> page_history db i \<noteq> [] \<and> numbered cap first n (page_history db i)"
    using assms(2) by (cases "page_history db i = []") (auto simp: history_of_def)
  from record_save_history [OF assms(1) this] obtain vs first' k where
    "page_history db' i = vs @ [snapshot_row i (n + 1) s e now k]" "numbered cap first' (n + 1) (page_history db' i)" by blast
  with assms(3) show ?thesis unfolding history_of_def by auto
qed

lemma record_save_frame:
  assumes "record_save cap old db now i s e = (Inr (), db')"
  shows "j \<noteq> i \<Longrightarrow> page_history db' j = page_history db j"
    and "db' = db\<lparr>db_revisions := db_revisions db'\<rparr>"
    and "store_ok rv_id (db_revisions db) \<Longrightarrow> store_ok rv_id (db_revisions db')"
    and "v \<in> set (rows (db_revisions db')) \<Longrightarrow> v \<in> set (rows (db_revisions db)) \<or> rv_page v = i \<and> rv_parent v = sn_parent s"
    and "page_exists db i"
proof -
  let ?n = "next_revision db i"
  have db': "page_exists db i \<and> db' = prune_revisions cap
      (db\<lparr>db_revisions := snd (insert_row (snapshot_row i ?n s e now) (db_revisions db))\<rparr>) i ?n"
    using assms by (auto simp: record_save_def record_revision_def Let_def split: if_splits)
  then show "page_exists db i" by blast
  show "j \<noteq> i \<Longrightarrow> page_history db' j = page_history db j"
    using db' by (simp add: prune_history_other page_history_insert snapshot_row_def)
  show "db' = db\<lparr>db_revisions := db_revisions db'\<rparr>" by (simp add: db' prune_revisions_def Let_def)
  show "store_ok rv_id (db_revisions db) \<Longrightarrow> store_ok rv_id (db_revisions db')"
    by (simp add: db' prune_revisions_def Let_def store_ok_insert store_ok_delete snapshot_row_def)
  show "v \<in> set (rows (db_revisions db')) \<Longrightarrow> v \<in> set (rows (db_revisions db)) \<or> rv_page v = i \<and> rv_parent v = sn_parent s"
    by (auto simp: db' prune_revisions_def Let_def snapshot_row_def split: if_splits)
qed

lemma exists_update [simp]:
  "page_exists (db\<lparr>db_revisions := vs\<rparr>) = page_exists db" "user_exists (db\<lparr>db_revisions := vs\<rparr>) = user_exists db"
  "user_exists (db\<lparr>db_pages := ps\<rparr>) = user_exists db"
  by (simp_all add: page_exists_def user_exists_def fun_eq_iff)

lemma pages_ok_revisions: "pages_ok (db\<lparr>db_revisions := vs\<rparr>) \<longleftrightarrow> pages_ok db"
  by (simp add: pages_ok_def)

lemma create_page_ok:
  assumes "pages_ok db" "history_ok cap db"
  shows "pages_ok (snd (create_page cap db now organization np)) \<and> history_ok cap (snd (create_page cap db now organization np))"
proof -
  obtain r db' where c: "create_page cap db now organization np = (r, db')" by force
  from c show ?thesis
  proof (cases rule: create_page_cases)
    case refused
    with c assms show ?thesis by simp
  next
    case (created owner db1)
    let ?i = "last_id (db_pages db) + 1"
    let ?p = "new_page_row np owner now ?i"
    note frame = record_save_frame [OF created(6)]
    have st: "store_ok p_id (db_pages db)" using assms(1) by (simp add: pages_ok_def)
    have rows1: "rows (db_pages db1) = rows (db_pages db) @ [?p]" by (simp add: created(3))
    have ex1: "page_exists db1 j \<longleftrightarrow> page_exists db j \<or> j = ?i" for j
      by (auto simp: page_exists_iff rows1 new_page_row_def)
    have mono: "refers (page_exists db) x \<Longrightarrow> refers (page_exists db1) x" for x
      by (erule refers_mono) (simp add: ex1)
    have "store_ok p_id (db_pages db1)" "user_exists db1 = user_exists db"
      using st by (simp_all add: created(3) store_ok_insert new_page_row_def)
    then have "pages_ok db1"
      using assms(1) created(2,4,5) mono by (auto simp: pages_ok_def rows1 new_page_row_def slug_taken_def)
    then have "pages_ok db'" using frame(2) pages_ok_revisions by metis
    moreover have pages': "db_pages db' = db_pages db1" using frame(2) by (metis db.select_convs(6) db.surjective db.update_convs(7))
    have nohist: "page_history db ?i = []"
      using assms(2) store_ok_fresh [OF st]
      by (auto simp: history_ok_def page_history_def select_rows_def filter_empty_conv page_exists_iff)
    have last1: "last_id (db_pages db1) = ?i" by (simp add: created(3))
    have known: "j \<le> ?i" if "np_parent np = Some j" for j
      using created(5) that ex1 st by (auto simp: refers_def page_exists_iff store_ok_def)
    have revs: "db_revisions db1 = db_revisions db" by (simp add: created(3))
    have "history_ok cap db'"
    proof (rule history_okI [OF assms(2), where i = ?i])
      show "store_ok rv_id (db_revisions db')" using assms(2) frame(3) revs by (simp add: history_ok_def)
      show "page_exists db' (rv_page v) \<and> parent_known db' (rv_parent v)" if "v \<in> set (rows (db_revisions db'))" for v
        using frame(4) [OF that] frame(5) assms(2) ex1 revs page_exists_pages [OF pages'] known
        by (auto simp: history_ok_def parent_known_def pages' last1 new_page_snapshot_def)
      show "history_of (page_exists db') cap p' (page_history db' ?i)" if "p' \<in> set (rows (db_pages db'))" "p_id p' = ?i" for p'
      proof -
        have "p' = ?p" using that store_ok_fresh [OF st] by (auto simp: pages' rows1 new_page_row_def)
        then show ?thesis using nohist page_history_cong [OF revs]
          using page_exists_pages [OF pages'] created(5)
          by (intro saved_history [OF created(6), where ex = "page_exists db"])
            (auto simp: saved_state_def snapshot_row_def new_page_snapshot_def new_page_row_def live_parent_def refers_def split: option.splits)
      qed
      show "page_history db' (p_id p') = page_history db (p_id p') \<and>
          (\<exists>p \<in> set (rows (db_pages db)). p_id p = p_id p' \<and>
            (\<forall>v. parent_known db (rv_parent v) \<longrightarrow> saved_state (page_exists db) p v \<longrightarrow> saved_state (page_exists db') p' v))"
        if "p' \<in> set (rows (db_pages db'))" "p_id p' \<noteq> ?i" for p'
      proof (intro conjI bexI [of _ p'])
        show "page_history db' (p_id p') = page_history db (p_id p')" using that frame(1) page_history_cong [OF revs] by simp
        show "p' \<in> set (rows (db_pages db))" using that by (auto simp: pages' rows1 new_page_row_def)
        have "live_parent (page_exists db') x = live_parent (page_exists db) x" if "parent_known db x" for x
          using that ex1 page_exists_pages [OF pages'] by (auto simp: live_parent_def parent_known_def split: option.split)
        then show "\<forall>v. parent_known db (rv_parent v) \<longrightarrow> saved_state (page_exists db) p' v \<longrightarrow> saved_state (page_exists db') p' v"
          by (simp add: saved_state_def)
      qed simp
    qed
    ultimately show ?thesis using c by simp
  qed
qed

lemma select_in_scope:
  "store_ok p_id (db_pages db) \<Longrightarrow> select_row (\<lambda>r. p_id r = i \<and> in_scope db organization r) (db_pages db) = Some p \<Longrightarrow>
   r \<in> set (rows (db_pages db)) \<Longrightarrow> (p_id r = i \<and> in_scope db organization r) = (r = p)"
proof
  assume st: "store_ok p_id (db_pages db)" and s: "select_row (\<lambda>r. p_id r = i \<and> in_scope db organization r) (db_pages db) = Some p"
    and r: "r \<in> set (rows (db_pages db))"
  note p = select_row_Some [OF s]
  show "r = p" if "p_id r = i \<and> in_scope db organization r" using that p store_ok_inj [OF st r] by simp
  show "p_id r = i \<and> in_scope db organization r" if "r = p" using that p by simp
qed

lemma distinct_map_replace:
  assumes "distinct (map f xs)" "\<And>r. r \<in> set xs \<Longrightarrow> r \<noteq> p \<Longrightarrow> f r \<noteq> f p'"
  shows "distinct (map f (map (\<lambda>r. if r = p then p' else r) xs))"
  using assms
proof (induction xs)
  case (Cons x xs)
  have IH: "distinct (map f (map (\<lambda>r. if r = p then p' else r) xs))" using Cons.prems by (intro Cons.IH) auto
  have "f (if x = p then p' else x) \<noteq> f (if r = p then p' else r)" if "r \<in> set xs" for r
    using that Cons.prems(1) Cons.prems(2) [of x] Cons.prems(2) [of r] by (auto dest: sym)
  with IH show ?case by (auto simp: image_iff)
qed simp

lemma update_page_ok:
  assumes "pages_ok db" "history_ok cap db"
  shows "pages_ok (snd (update_page cap db now organization i u)) \<and> history_ok cap (snd (update_page cap db now organization i u))"
proof -
  obtain r db' where c: "update_page cap db now organization i u = (r, db')" by force
  from c show ?thesis
  proof (cases rule: update_page_cases)
    case refused
    with c assms show ?thesis by simp
  next
    case (updated p db1)
    note frame = record_save_frame [OF updated(5)]
    have st: "store_ok p_id (db_pages db)" using assms(1) by (simp add: pages_ok_def)
    have p: "p \<in> set (rows (db_pages db))" "p_id p = i" using select_row_Some [OF updated(1)] by auto
    have rows1: "rows (db_pages db1) = map (\<lambda>r. if r = p then updated_row u now p else r) (rows (db_pages db))"
      using select_in_scope [OF st updated(1)] by (auto simp: updated(3))
    have ids: "p_id (updated_row u now q) = p_id q" "p_organization (updated_row u now q) = p_organization q"
      "p_created_by (updated_row u now q) = p_created_by q" "p_parent (updated_row u now q) = up_parent u" for q
      by (simp_all add: updated_row_def)
    have st1: "store_ok p_id (db_pages db1)" and us1: "user_exists db1 = user_exists db"
      using st by (simp_all add: updated(3) store_ok_update ids)
    have "map p_id (rows (db_pages db1)) = map p_id (rows (db_pages db))" by (simp add: rows1 ids)
    then have ex1: "page_exists db1 = page_exists db"
      unfolding fun_eq_iff page_exists_iff set_map [symmetric] by simp
    have slugs: "distinct (map (\<lambda>r. (p_organization r, p_slug r)) (rows (db_pages db1)))"
      unfolding rows1
    proof (rule distinct_map_replace)
      show "distinct (map (\<lambda>r. (p_organization r, p_slug r)) (rows (db_pages db)))" using assms(1) by (simp add: pages_ok_def)
      show "(p_organization r, p_slug r) \<noteq> (p_organization (updated_row u now p), p_slug (updated_row u now p))"
        if "r \<in> set (rows (db_pages db))" "r \<noteq> p" for r
        using that updated(2) store_ok_inj [OF st that(1) p(1)] p(2) by (auto simp: slug_taken_def ids)
    qed
    have "refers (page_exists db1) (p_parent r) \<and> refers (user_exists db1) (p_created_by r)" if "r \<in> set (rows (db_pages db1))" for r
      using that assms(1) updated(4) p(1) by (auto simp: rows1 ids ex1 us1 pages_ok_def split: if_splits)
    with st1 slugs have "pages_ok db1" by (simp add: pages_ok_def)
    then have "pages_ok db'" using frame(2) pages_ok_revisions by metis
    moreover have pages': "db_pages db' = db_pages db1" using frame(2) by (metis db.select_convs(6) db.surjective db.update_convs(7))
    have last1: "last_id (db_pages db1) = last_id (db_pages db)" by (simp add: updated(3))
    have known: "j \<le> last_id (db_pages db)" if "up_parent u = Some j" for j
      using updated(4) that ex1 st by (auto simp: refers_def page_exists_iff store_ok_def)
    have ex': "page_exists db' = page_exists db" using page_exists_pages [OF pages'] ex1 by (simp add: fun_eq_iff)
    have revs: "db_revisions db1 = db_revisions db" by (simp add: updated(3))
    have "history_ok cap db'"
    proof (rule history_okI [OF assms(2), where i = i])
      show "store_ok rv_id (db_revisions db')" using assms(2) frame(3) revs by (simp add: history_ok_def)
      show "page_exists db' (rv_page v) \<and> parent_known db' (rv_parent v)" if "v \<in> set (rows (db_revisions db'))" for v
        using frame(4) [OF that] frame(5) assms(2) ex1 revs page_exists_pages [OF pages'] known
        by (auto simp: history_ok_def parent_known_def pages' last1 update_snapshot_def)
      show "history_of (page_exists db') cap p' (page_history db' i)" if "p' \<in> set (rows (db_pages db'))" "p_id p' = i" for p'
      proof -
        have "p' = updated_row u now p" using that store_ok_inj [OF st _ p(1)] p(2) by (auto simp: pages' rows1 split: if_splits)
        moreover have "history_of (page_exists db) cap p (page_history db1 i)"
          using assms(2) p page_history_cong [OF revs] by (auto simp: history_ok_def)
        moreover have "live_parent (page_exists db') (up_parent u) = up_parent u"
          using updated(4) page_exists_pages [OF pages'] by (auto simp: live_parent_def refers_def split: option.splits)
        ultimately show ?thesis
          by (intro saved_history [OF updated(5), where ex = "page_exists db"])
            (auto simp: saved_state_def snapshot_row_def update_snapshot_def updated_row_def split: option.split)
      qed
      show "page_history db' (p_id p') = page_history db (p_id p') \<and>
          (\<exists>q \<in> set (rows (db_pages db)). p_id q = p_id p' \<and>
            (\<forall>v. parent_known db (rv_parent v) \<longrightarrow> saved_state (page_exists db) q v \<longrightarrow> saved_state (page_exists db') p' v))"
        if "p' \<in> set (rows (db_pages db'))" "p_id p' \<noteq> i" for p'
        using that frame(1) page_history_cong [OF revs] p(2) ex' by (auto simp: pages' rows1 ids split: if_splits)
    qed
    ultimately show ?thesis using c by simp
  qed
qed

definition without_page :: "db \<Rightarrow> int \<Rightarrow> db" where
  "without_page db i = cascade_page (db\<lparr>db_pages := delete_rows (\<lambda>r. p_id r = i) (db_pages db)\<rparr>) i"

lemma without_page_rows:
  "r' \<in> set (rows (db_pages (without_page db i))) \<longleftrightarrow>
   (\<exists>r \<in> set (rows (db_pages db)). p_id r \<noteq> i \<and> r' = (if p_parent r = Some i then r\<lparr>p_parent := None\<rparr> else r))"
proof -
  have "rows (db_pages (without_page db i)) =
      map (\<lambda>r. if p_parent r = Some i then r\<lparr>p_parent := None\<rparr> else r) (filter (\<lambda>r. p_id r \<noteq> i) (rows (db_pages db)))"
    by (simp add: without_page_def cascade_page_def)
  then show ?thesis by (simp only: set_map set_filter) blast
qed

lemma delete_page_ok:
  assumes "pages_ok db" "history_ok cap db"
  shows "pages_ok (snd (delete_page db organization i)) \<and> history_ok cap (snd (delete_page db organization i))"
proof (cases "select_row (\<lambda>r. p_id r = i \<and> in_scope db organization r) (db_pages db)")
  case None
  with assms show ?thesis by (simp add: delete_page_def count_rows_0 select_row_None)
next
  case (Some p)
  let ?d = "without_page db i"
  have ex: "page_exists ?d j \<longleftrightarrow> page_exists db j \<and> j \<noteq> i" for j
  proof -
    have "map p_id (rows (db_pages ?d)) = filter (\<lambda>j. j \<noteq> i) (map p_id (rows (db_pages db)))"
      by (simp add: without_page_def cascade_page_def filter_map comp_def if_distrib [of p_id])
    then show ?thesis unfolding page_exists_iff set_map [symmetric] by simp
  qed
  have us: "user_exists ?d = user_exists db" by (simp add: without_page_def cascade_page_def user_exists_def fun_eq_iff)
  have "map (\<lambda>r. (p_organization r, p_slug r)) (rows (db_pages ?d)) =
      map (\<lambda>r. (p_organization r, p_slug r)) (filter (\<lambda>r. p_id r \<noteq> i) (rows (db_pages db)))"
    by (simp add: without_page_def cascade_page_def)
  then have slugs: "distinct (map (\<lambda>r. (p_organization r, p_slug r)) (rows (db_pages ?d)))"
    using assms(1) by (simp only: pages_ok_def) (simp add: distinct_map_filter)
  have "store_ok p_id (db_pages ?d)"
    using assms(1) by (simp add: without_page_def cascade_page_def pages_ok_def store_ok_update store_ok_delete)
  moreover have "refers (page_exists ?d) (p_parent r) \<and> refers (user_exists ?d) (p_created_by r)"
    if "r \<in> set (rows (db_pages ?d))" for r
  proof -
    from that obtain q where q: "q \<in> set (rows (db_pages db))" "r = (if p_parent q = Some i then q\<lparr>p_parent := None\<rparr> else q)"
      unfolding without_page_rows by blast
    with assms(1) have "refers (page_exists db) (p_parent q)" "refers (user_exists db) (p_created_by q)"
      by (simp_all add: pages_ok_def)
    with q(2) ex us show ?thesis
      by (cases "p_parent q = Some i") (auto simp: refers_def split: option.splits)
  qed
  ultimately have "pages_ok ?d" using slugs by (simp add: pages_ok_def)
  moreover have "history_ok cap ?d"
  proof (rule history_okI [OF assms(2), where i = i])
    show "store_ok rv_id (db_revisions ?d)" using assms(2) by (simp add: history_ok_def without_page_def cascade_page_def store_ok_delete)
    show "page_exists ?d (rv_page v) \<and> parent_known ?d (rv_parent v)" if "v \<in> set (rows (db_revisions ?d))" for v
      using that assms(2) ex by (auto simp: history_ok_def parent_known_def without_page_def cascade_page_def)
    show "history_of (page_exists ?d) cap p' (page_history ?d i)" if "p' \<in> set (rows (db_pages ?d))" "p_id p' = i" for p'
      using that unfolding without_page_rows by (auto split: if_splits)
    show "page_history ?d (p_id p') = page_history db (p_id p') \<and>
        (\<exists>p \<in> set (rows (db_pages db)). p_id p = p_id p' \<and>
          (\<forall>v. parent_known db (rv_parent v) \<longrightarrow> saved_state (page_exists db) p v \<longrightarrow> saved_state (page_exists ?d) p' v))"
      if "p' \<in> set (rows (db_pages ?d))" "p_id p' \<noteq> i" for p'
    proof
      show "page_history ?d (p_id p') = page_history db (p_id p')"
        using that(2) by (auto simp: page_history_def select_rows_def without_page_def cascade_page_def intro!: filter_cong)
      from that(1) obtain r where "r \<in> set (rows (db_pages db))" "p' = (if p_parent r = Some i then r\<lparr>p_parent := None\<rparr> else r)"
        unfolding without_page_rows by blast
      then show "\<exists>p \<in> set (rows (db_pages db)). p_id p = p_id p' \<and>
          (\<forall>v. parent_known db (rv_parent v) \<longrightarrow> saved_state (page_exists db) p v \<longrightarrow> saved_state (page_exists ?d) p' v)"
        by (intro bexI [of _ r]) (auto simp: saved_state_def live_parent_def ex split: option.splits if_splits)
    qed
  qed
  moreover have st: "store_ok p_id (db_pages db)" using assms(1) by (simp add: pages_ok_def)
  have "filter (\<lambda>r. \<not> (p_id r = i \<and> in_scope db organization r)) (rows (db_pages db)) = filter (\<lambda>r. p_id r \<noteq> i) (rows (db_pages db))"
    using select_row_Some [OF Some] store_ok_inj [OF st] by (intro filter_cong) auto
  then have "delete_rows (\<lambda>r. p_id r = i \<and> in_scope db organization r) (db_pages db) = delete_rows (\<lambda>r. p_id r = i) (db_pages db)"
    by (simp only: delete_rows_def)
  moreover have "count_rows (\<lambda>r. p_id r = i \<and> in_scope db organization r) (db_pages db) \<noteq> 0"
    using select_row_Some [OF Some] by (auto simp: count_rows_0)
  ultimately show ?thesis by (simp add: delete_page_def without_page_def)
qed

lemma delete_user_pages:
  "db_pages (snd (delete_user db i)) = update_rows (\<lambda>p. p_created_by p = Some i) (\<lambda>p. p\<lparr>p_created_by := None\<rparr>) (db_pages db)"
  "db_revisions (snd (delete_user db i)) = update_rows (\<lambda>v. rv_edited_by v = Some i) (\<lambda>v. v\<lparr>rv_edited_by := None\<rparr>) (db_revisions db)"
  by (simp_all add: delete_user_def cascade_user_def)

lemma saved_state_editor: "saved_state ex p (v\<lparr>rv_edited_by := x\<rparr>) = saved_state ex p v"
  by (simp add: saved_state_def)

lemma delete_user_history:
  "page_history (snd (delete_user db i)) j =
    map (\<lambda>v. if rv_edited_by v = Some i then v\<lparr>rv_edited_by := None\<rparr> else v) (page_history db j)"
  unfolding page_history_def select_rows_def delete_user_pages rows_update
  by (induction "rows (db_revisions db)" arbitrary: db) (auto simp: filter_map comp_def intro!: map_cong)

lemma history_of_map:
  assumes "history_of ex cap p vs" "\<And>v. rv_revision (f v) = rv_revision v" "\<And>v. saved_state ex p v \<Longrightarrow> saved_state ex p' (f v)"
  shows "history_of ex cap p' (map f vs)"
  using assms by (auto simp: history_of_def numbered_def last_map comp_def)

lemma delete_user_pages_ok:
  assumes "pages_ok db" "history_ok cap db"
  shows "pages_ok (snd (delete_user db i)) \<and> history_ok cap (snd (delete_user db i))"
proof -
  let ?d = "snd (delete_user db i)"
  have ids: "map p_id (rows (db_pages ?d)) = map p_id (rows (db_pages db))" by (simp add: delete_user_pages)
  then have ex: "page_exists ?d = page_exists db"
    unfolding fun_eq_iff page_exists_iff set_map [symmetric] by simp
  have us: "user_exists ?d j \<longleftrightarrow> user_exists db j \<and> j \<noteq> i" for j
    by (auto simp: delete_user_def cascade_user_def user_exists_iff image_iff)
  have slugs: "distinct (map (\<lambda>r. (p_organization r, p_slug r)) (rows (db_pages ?d)))"
  proof -
    have "map (\<lambda>r. (p_organization r, p_slug r)) (rows (db_pages ?d)) = map (\<lambda>r. (p_organization r, p_slug r)) (rows (db_pages db))"
      by (simp add: delete_user_pages)
    then show ?thesis using assms(1) by (simp only: pages_ok_def)
  qed
  have "refers (page_exists ?d) (p_parent r) \<and> refers (user_exists ?d) (p_created_by r)" if r: "r \<in> set (rows (db_pages ?d))" for r
  proof -
    from r obtain q where "q \<in> set (rows (db_pages db))" "r = (if p_created_by q = Some i then q\<lparr>p_created_by := None\<rparr> else q)"
      unfolding delete_user_pages by (rule update_rowsE)
    with assms(1) ex us show ?thesis by (auto simp: pages_ok_def refers_def split: option.splits)
  qed
  with assms(1) slugs have "pages_ok ?d" by (simp add: pages_ok_def delete_user_pages store_ok_update)
  moreover have "history_ok cap ?d"
    unfolding history_ok_def
  proof (intro conjI ballI)
    show "store_ok rv_id (db_revisions ?d)" using assms(2) by (simp add: history_ok_def delete_user_pages store_ok_update)
    show "page_exists ?d (rv_page v)" "parent_known ?d (rv_parent v)" if "v \<in> set (rows (db_revisions ?d))" for v
    proof -
      from that obtain w where "w \<in> set (rows (db_revisions db))" "v = (if rv_edited_by w = Some i then w\<lparr>rv_edited_by := None\<rparr> else w)"
        unfolding delete_user_pages by (rule update_rowsE)
      with assms(2) ex show "page_exists ?d (rv_page v)" "parent_known ?d (rv_parent v)"
        by (auto simp: history_ok_def parent_known_def delete_user_pages)
    qed
    show "history_of (page_exists ?d) cap p' (page_history ?d (p_id p'))" if "p' \<in> set (rows (db_pages ?d))" for p'
    proof -
      from that obtain p where p: "p \<in> set (rows (db_pages db))" "p' = (if p_created_by p = Some i then p\<lparr>p_created_by := None\<rparr> else p)"
        unfolding delete_user_pages by (rule update_rowsE)
      then have "p_id p' = p_id p" "\<And>v. saved_state (page_exists ?d) p v \<Longrightarrow> saved_state (page_exists ?d) p' v" by (auto simp: saved_state_def)
      moreover have "history_of (page_exists ?d) cap p (page_history db (p_id p))" using assms(2) p(1) ex by (simp add: history_ok_def)
      ultimately show ?thesis unfolding delete_user_history by (auto intro!: history_of_map simp: saved_state_editor)
    qed
  qed
  ultimately show ?thesis by simp
qed

lemma page_step_ok: "pages_ok db \<Longrightarrow> history_ok cap db \<Longrightarrow> pages_ok (page_step cap db op) \<and> history_ok cap (page_step cap db op)"
  by (cases op) (simp_all add: create_page_ok update_page_ok delete_page_ok delete_user_pages_ok)

section \<open>The order of a listing\<close>

definition newer :: "page_row \<Rightarrow> page_row \<Rightarrow> bool" where
  "newer a b \<longleftrightarrow> p_updated_at a > p_updated_at b \<or> p_updated_at a = p_updated_at b \<and> p_id a > p_id b"

lemma sorted_newest_first: "sorted_wrt (<) (map p_id xs) \<Longrightarrow> sorted_wrt newer (newest_first xs)"
  using order_asc_ties [of p_id xs p_updated_at]
  by (auto simp: newest_first_def newer_def sorted_wrt_rev elim: sorted_wrt_mono_rel [rotated])

lemma set_newest_first [simp]: "set (newest_first xs) = set xs" "length (newest_first xs) = length xs"
  by (simp_all add: newest_first_def order_asc_def)

lemma sorted_listed_pages: "store_ok p_id (db_pages db) \<Longrightarrow> sorted_wrt newer (listed_pages db now organization drafts)"
  unfolding listed_pages_def by (intro sorted_newest_first sorted_select_rows)

lemma set_limit_subset: "set (limit n xs) \<subseteq> set xs"
  by (auto simp: limit_def dest: in_set_takeD)

lemma concat_pages: "concat (map (\<lambda>k. take n (drop (k * n) xs)) [0..<m]) = take (m * n) xs"
proof (induction m)
  case (Suc m)
  have "take (Suc m * n) xs = take (m * n) xs @ take n (drop (m * n) xs)"
    using take_add [of "m * n" n xs] by (simp add: add.commute)
  with Suc show ?case by simp
qed simp

lemma limit_int [simp]: "limit (int k) xs = take k xs"
  by (simp add: limit_def)

section \<open>Properties\<close>

text \<open>
  C7: A page and its history never come apart: after any sequence of creations, edits and deletions
  of pages and deletions of their editors, slugs are unique in their organization, every parent and
  author exists, every revision belongs to a page, and every page has a history whose numbers are
  consecutive, which is no longer than the configured cap, and whose newest entry is the page as it
  stands: every field a restore puts back, its parent too unless that page was deleted, which took the
  link from the page.
\<close>

theorem page_history_invariant:
  assumes "pages_ok db" "history_ok cap db"
  shows "pages_ok (foldl (page_step cap) db ops) \<and> history_ok cap (foldl (page_step cap) db ops)"
  using assms by (induction ops arbitrary: db) (simp_all add: page_step_ok)

text \<open>
  Paging a listing misses nothing and shows nothing twice: the first pages of any size, one
  after the other, are the listing itself up to that length, and the listing comes strictly newest
  first, ties broken by the id, so that no page occurs twice in it.
\<close>

theorem listing_by_pages:
  assumes "store_ok p_id (db_pages db)"
  shows "concat (map (\<lambda>k. projr (list_pages_paged db now organization drafts (int n) (int (k * n)))) [0..<m]) =
      projr (list_pages db now organization drafts (int (m * n))) \<and>
    sorted_wrt (\<lambda>a b. ps_updated_at a > ps_updated_at b \<or> ps_updated_at a = ps_updated_at b \<and> ps_id a > ps_id b)
      (projr (list_pages db now organization drafts (int (m * n))))"
proof
  let ?l = "listed_pages db now organization drafts"
  show "concat (map (\<lambda>k. projr (list_pages_paged db now organization drafts (int n) (int (k * n)))) [0..<m]) =
      projr (list_pages db now organization drafts (int (m * n)))"
    using arg_cong [OF concat_pages [of n ?l m], of "map summary_of_row"]
    by (simp add: list_pages_paged_def list_pages_def paged_def map_concat comp_def del: of_nat_mult)
  have "sorted_wrt newer (limit (int (m * n)) ?l)"
    using sorted_listed_pages [OF assms] by (simp add: sorted_wrt_take del: of_nat_mult)
  then show "sorted_wrt (\<lambda>a b. ps_updated_at a > ps_updated_at b \<or> ps_updated_at a = ps_updated_at b \<and> ps_id a > ps_id b)
      (projr (list_pages db now organization drafts (int (m * n))))"
    by (simp add: list_pages_def sorted_wrt_map newer_def [abs_def] summary_of_row_def del: of_nat_mult)
qed

text \<open>What a visitor of an organization may see at a moment.\<close>

definition public_page :: "db \<Rightarrow> int \<Rightarrow> string \<Rightarrow> int \<Rightarrow> bool" where
  "public_page db now organization i \<longleftrightarrow>
     (\<exists>r \<in> set (rows (db_pages db)). p_id r = i \<and> org_id db organization = Some (p_organization r) \<and>
        (p_is_published r \<or> (\<exists>t \<le> now. p_publish_at r = Some t)))"

lemma public_pageI:
  "r \<in> set (rows (db_pages db)) \<Longrightarrow> in_scope db organization r \<Longrightarrow> public_visible now r \<Longrightarrow> public_page db now organization (p_id r)"
  by (auto simp: public_page_def in_scope_def org_scope_def public_visible_def split: option.splits)

text \<open>
  C8: Drafts and other tenants stay private: every page that the public listing, the feeds, the
  children listing and the search return for an organization is a page of that organization which
  is published or whose schedule has passed, and the public listing without a limit has exactly as
  many entries as the published count says.
\<close>

theorem public_reads_are_public:
  "(\<forall>p \<in> set (projr (list_pages db now organization False n)). public_page db now organization (ps_id p)) \<and>
   (\<forall>f \<in> set (projr (feed_entries db now organization n)). public_page db now organization (fe_id f)) \<and>
   (\<forall>p \<in> set (projr (page_children db now organization parent False)). public_page db now organization (ps_id p)) \<and>
   (\<forall>h \<in> set (projr (search_pages ix db now organization terms False n offset)). public_page db now organization (sh_id h)) \<and>
   count_published db now organization = Inr (int (length (projr (list_pages db now organization False (- 1)))))"
proof (intro conjI ballI)
  have l: "public_page db now organization (p_id r)" if "r \<in> set (listed_pages db now organization False)" for r
    using that by (auto simp: listed_pages_def select_rows_def intro: public_pageI)
  show "public_page db now organization (ps_id p)" if "p \<in> set (projr (list_pages db now organization False n))" for p
    using that l set_limit_subset by (fastforce simp: list_pages_def summary_of_row_def)
  show "public_page db now organization (fe_id f)" if "f \<in> set (projr (feed_entries db now organization n))" for f
    using that l set_limit_subset by (fastforce simp: feed_entries_def)
  show "public_page db now organization (ps_id p)" if "p \<in> set (projr (page_children db now organization parent False))" for p
    using that by (auto simp: page_children_def order_asc_def select_rows_def summary_of_row_def intro: public_pageI)
  show "public_page db now organization (sh_id h)" if "h \<in> set (projr (search_pages ix db now organization terms False n offset))" for h
    using that set_limit_subset
    by (fastforce simp: search_pages_def paged_def order_asc_def found_pages_def select_rows_def
        split: option.splits dest: in_set_dropD intro: public_pageI)
  show "count_published db now organization = Inr (int (length (projr (list_pages db now organization False (- 1)))))"
    by (simp add: count_published_def list_pages_def limit_def listed_pages_def count_rows_def)
qed

section \<open>Ancestors\<close>

definition scoped_page :: "db \<Rightarrow> string \<Rightarrow> int \<Rightarrow> page_row option" where
  "scoped_page db organization i = select_row (\<lambda>r. p_id r = i \<and> in_scope db organization r) (db_pages db)"

text \<open>The pages above a page, nearest first: the specification of the walk.\<close>

inductive upward :: "db \<Rightarrow> string \<Rightarrow> int \<Rightarrow> page_row list \<Rightarrow> bool" for db organization where
  root: "scoped_page db organization i = Some p \<Longrightarrow> p_parent p = None \<Longrightarrow> upward db organization i []"
| up: "scoped_page db organization i = Some p \<Longrightarrow> p_parent p = Some j \<Longrightarrow> scoped_page db organization j = Some q \<Longrightarrow>
    upward db organization j qs \<Longrightarrow> upward db organization i (q # qs)"

lemma ancestors_walk_length: "length (ancestors_walk hops db organization i current chain) \<le> length chain + hops"
proof (induction hops arbitrary: current chain)
  case (Suc hops)
  have "length (ancestors_walk hops db organization i c (s # chain)) \<le> Suc (length chain + hops)"
    "length (ancestors_walk hops db organization i c chain) \<le> length chain + hops" for c s
    using Suc [of c "s # chain"] Suc [of c chain] by simp_all
  then show ?case by (auto simp: Let_def split: option.split intro: le_SucI)
qed simp

lemma scoped_page_id: "scoped_page db organization i = Some p \<Longrightarrow> p_id p = i"
  unfolding scoped_page_def by (drule select_row_Some) simp

lemma ancestors_walk_step:
  "scoped_page db organization current = Some p \<Longrightarrow>
   ancestors_walk (Suc hops) db organization i current chain =
     (let chain' = (if current \<noteq> i then summary_of_row p # chain else chain) in
      case p_parent p of
        Some j \<Rightarrow> if j \<noteq> current then ancestors_walk hops db organization i j chain' else chain'
      | None \<Rightarrow> chain')"
proof -
  assume s: "scoped_page db organization current = Some p"
  then have "p_id p = current" by (rule scoped_page_id)
  with s show ?thesis by (simp add: scoped_page_def Let_def split: option.split)
qed

lemma ancestors_walk_upward:
  assumes "upward db organization current qs" "\<forall>q \<in> set qs. p_id q \<noteq> i" "scoped_page db organization current = Some p"
    "current \<noteq> i" "length qs < hops" "distinct (current # map p_id qs)"
  shows "ancestors_walk hops db organization i current chain = rev (map summary_of_row qs) @ summary_of_row p # chain"
  using assms
proof (induction arbitrary: hops p chain rule: upward.induct)
  case (root i' p')
  then obtain n where "hops = Suc n" by (cases hops) simp_all
  with root show ?case by (simp add: ancestors_walk_step del: ancestors_walk.simps)
next
  case (up i' p' j q qs)
  then obtain n where n: "hops = Suc n" by (cases hops) simp_all
  have q: "p_id q = j" by (rule scoped_page_id [OF up.hyps(3)])
  have "ancestors_walk n db organization i j (summary_of_row p # chain) =
      rev (map summary_of_row qs) @ summary_of_row q # summary_of_row p # chain"
    using up.prems up.hyps(3) q n by (intro up.IH) auto
  with up n q show ?case by (auto simp add: ancestors_walk_step simp del: ancestors_walk.simps)
qed

lemma upward_unique: "upward db organization i qs \<Longrightarrow> upward db organization i qs' \<Longrightarrow> qs = qs'"
proof (induction arbitrary: qs' rule: upward.induct)
  case (root i p)
  from root.prems show ?case by (rule upward.cases) (use root.hyps in simp_all)
next
  case (up i p j q qs)
  from up.prems obtain p' j' q' rs where u: "qs' = q' # rs" "p_parent p' = Some j'" "scoped_page db organization i = Some p'"
      "scoped_page db organization j' = Some q'" "upward db organization j' rs"
    by (rule upward.cases) (use up.hyps in simp_all)
  with up.hyps have "j' = j" "q' = q" by simp_all
  with u up.IH [of rs] show ?case by simp
qed

lemma upward_tail: "upward db organization i (q # qs) \<Longrightarrow> upward db organization (p_id q) qs"
  by (erule upward.cases) (auto dest: scoped_page_id)

lemma upward_suffix: "upward db organization i (xs @ q # ys) \<Longrightarrow> upward db organization (p_id q) ys"
proof (induction xs arbitrary: i)
  case (Cons x xs)
  have "upward db organization (p_id x) (xs @ q # ys)" using Cons.prems by (intro upward_tail) simp
  then show ?case by (rule Cons.IH)
qed (simp add: upward_tail)

lemma upward_fresh: "upward db organization i qs \<Longrightarrow> i \<notin> set (map p_id qs)"
proof
  assume u: "upward db organization i qs" and "i \<in> set (map p_id qs)"
  then obtain xs q ys where "qs = xs @ q # ys" "p_id q = i" by (auto simp: in_set_conv_decomp)
  with u upward_suffix [of db organization i xs q ys] have "upward db organization i ys" by simp
  from upward_unique [OF u this] \<open>qs = xs @ q # ys\<close> have "length (xs @ q # ys) = length ys" by simp
  then show False by simp
qed

lemma upward_distinct: "upward db organization i qs \<Longrightarrow> distinct (i # map p_id qs)"
proof (induction qs arbitrary: i)
  case (Cons q qs)
  from Cons.IH [OF upward_tail [OF Cons.prems]] upward_fresh [OF Cons.prems] show ?case by simp
qed simp

lemma ancestors_step:
  assumes "scoped_page db organization i = Some p"
  shows "ancestors db organization i =
      Inr (case p_parent p of Some j \<Rightarrow> if j \<noteq> i then ancestors_walk 127 db organization i j [] else [] | None \<Rightarrow> [])"
proof -
  have hops: "max_ancestor_hops = Suc 127" by (simp add: max_ancestor_hops_def)
  show ?thesis unfolding ancestors_def hops ancestors_walk_step [OF assms] by simp
qed

lemma ancestors_upward:
  assumes "upward db organization i qs" "length qs < 128"
  shows "ancestors db organization i = Inr (rev (map summary_of_row qs))"
  using assms(1)
proof cases
  case (root p)
  then show ?thesis by (simp add: ancestors_step)
next
  case (up p j q qs')
  note d = upward_distinct [OF assms(1)]
  have q: "p_id q = j" by (rule scoped_page_id [OF up(4)])
  have "ancestors_walk 127 db organization i j [] = rev (map summary_of_row qs') @ [summary_of_row q]"
    using assms(2) d up(1,4,5) q by (intro ancestors_walk_upward) auto
  with up d q show ?thesis by (auto simp: ancestors_step)
qed

text \<open>
  The breadcrumbs of a page are its ancestors: if the chain of parents inside the organization
  ends and has fewer than 128 entries, the walk returns exactly it, outermost first. It always
  returns, with at most 127 entries, whatever the table holds.
\<close>

theorem ancestors_are_the_parents:
  "length (projr (ancestors db organization i)) \<le> 127 \<and>
   (upward db organization i qs \<longrightarrow> length qs < 128 \<longrightarrow> ancestors db organization i = Inr (rev (map summary_of_row qs)))"
proof (cases "scoped_page db organization i")
  case None
  then have "ancestors db organization i = Inr []"
    by (simp add: ancestors_def max_ancestor_hops_def scoped_page_def numeral_eq_Suc)
  moreover have "\<not> upward db organization i qs" using None by (auto elim: upward.cases)
  ultimately show ?thesis by simp
next
  case (Some p)
  have "length (ancestors_walk 127 db organization i j []) \<le> 127" for j
    using ancestors_walk_length [of 127 db organization i j "[]"] by simp
  then have "length (projr (ancestors db organization i)) \<le> 127" by (simp add: ancestors_step [OF Some] split: option.split)
  with ancestors_upward show ?thesis by blast
qed

section \<open>Tenants\<close>

text \<open>A write on the pages, with the organization it acts for; and what it may touch of another
  organization: nothing but the link to a parent that was deleted. (The handlers let no page have a parent of
  another organization; what follows from that is in \<open>Panel_Tenancy\<close>.)\<close>

datatype page_write = Write_Create int string new_page | Write_Update int string int page_update | Write_Delete string int

fun page_write_run :: "nat \<Rightarrow> page_write \<Rightarrow> db \<Rightarrow> db" where
  "page_write_run cap (Write_Create now organization np) db = snd (create_page cap db now organization np)"
| "page_write_run cap (Write_Update now organization i u) db = snd (update_page cap db now organization i u)"
| "page_write_run cap (Write_Delete organization i) db = snd (delete_page db organization i)"

fun page_write_key :: "page_write \<Rightarrow> string" where
  "page_write_key (Write_Create now organization np) = organization"
| "page_write_key (Write_Update now organization i u) = organization"
| "page_write_key (Write_Delete organization i) = organization"

definition owned_pages :: "db \<Rightarrow> int \<Rightarrow> page_row list" where
  "owned_pages db t = filter (\<lambda>r. p_organization r = t) (rows (db_pages db))"

definition tenant_pages :: "db \<Rightarrow> int \<Rightarrow> page_row list" where
  "tenant_pages db t = map (\<lambda>r. r\<lparr>p_parent := None\<rparr>) (owned_pages db t)"

lemma record_save_pages: "record_save cap old db1 now i s e = (Inr (), db') \<Longrightarrow> db_pages db' = db_pages db1"
  using record_save_frame(2) by (metis db.select_convs(6) db.surjective db.update_convs(7))

lemma record_save_organizations: "record_save cap old db1 now i s e = (Inr (), db') \<Longrightarrow> org_id db' k = org_id db1 k"
  by (subst record_save_frame(2), assumption) (simp add: org_id_def)

lemma page_write_organizations: "org_id (page_write_run cap op db) k = org_id db k"
proof (cases op)
  case (Write_Create now organization np)
  obtain r db' where c: "create_page cap db now organization np = (r, db')" by force
  from c have "org_id db' k = org_id db k"
  proof (cases rule: create_page_cases)
    case (created owner db1)
    from record_save_organizations [OF created(6), of k] show ?thesis by (simp add: created(3) org_id_def)
  qed simp
  with c Write_Create show ?thesis by simp
next
  case (Write_Update now organization i u)
  obtain r db' where c: "update_page cap db now organization i u = (r, db')" by force
  from c have "org_id db' k = org_id db k"
  proof (cases rule: update_page_cases)
    case (updated p db1)
    from record_save_organizations [OF updated(5), of k] show ?thesis by (simp add: updated(3) org_id_def)
  qed simp
  with c Write_Update show ?thesis by simp
next
  case (Write_Delete organization i)
  then show ?thesis by (simp add: delete_page_def Let_def cascade_page_def org_id_def)
qed

lemma create_page_owned:
  assumes "org_id db organization \<noteq> Some t"
  shows "owned_pages (snd (create_page cap db now organization np)) t = owned_pages db t"
proof -
  obtain r db' where c: "create_page cap db now organization np = (r, db')" by force
  from c show ?thesis
  proof (cases rule: create_page_cases)
    case (created owner db1)
    from record_save_pages [OF created(6)] assms created(1) show ?thesis
      by (auto simp: c owned_pages_def created(3) new_page_row_def)
  qed (simp add: c)
qed

lemma update_page_owned:
  assumes "org_id db organization \<noteq> Some t"
  shows "owned_pages (snd (update_page cap db now organization i u)) t = owned_pages db t"
proof -
  obtain r db' where c: "update_page cap db now organization i u = (r, db')" by force
  from c show ?thesis
  proof (cases rule: update_page_cases)
    case (updated p db1)
    have "filter (\<lambda>r. p_organization r = t) (map (\<lambda>r. if p_id r = i \<and> in_scope db organization r then updated_row u now r else r) rs) =
        filter (\<lambda>r. p_organization r = t) rs" for rs
      using assms by (induction rs) (auto simp: in_scope_def org_scope_def updated_row_def)
    with record_save_pages [OF updated(5)] show ?thesis
      by (simp add: c owned_pages_def updated(3))
  qed (simp add: c)
qed

lemma delete_page_foreign:
  assumes "org_id db organization \<noteq> Some t"
  shows "tenant_pages (snd (delete_page db organization i)) t = tenant_pages db t"
proof -
  let ?g = "\<lambda>r :: page_row. if p_parent r = Some i then r\<lparr>p_parent := None\<rparr> else r"
  have "tenant_pages (cascade_page d i) t = tenant_pages d t" for d
  proof -
    have "filter (\<lambda>r. p_organization r = t) (map ?g rs) = map ?g (filter (\<lambda>r. p_organization r = t) rs)"
      for rs :: "page_row list" by (induction rs) auto
    moreover have "(?g r)\<lparr>p_parent := None\<rparr> = r\<lparr>p_parent := None\<rparr>" for r by simp
    ultimately show ?thesis by (simp add: tenant_pages_def owned_pages_def cascade_page_def comp_def cong: if_cong)
  qed
  moreover have "tenant_pages (db\<lparr>db_pages := delete_rows (\<lambda>r. p_id r = i \<and> in_scope db organization r) (db_pages db)\<rparr>) t = tenant_pages db t"
    using assms by (auto simp: tenant_pages_def owned_pages_def in_scope_def org_scope_def intro!: arg_cong [of _ _ "map _"] filter_cong)
  ultimately show ?thesis by (simp add: delete_page_def Let_def)
qed

text \<open>The links too stay, where the deleted page has no child of the other organization.\<close>

lemma delete_page_owned:
  assumes "org_id db organization \<noteq> Some t"
    "\<And>r p. r \<in> set (rows (db_pages db)) \<Longrightarrow> p_organization r = t \<Longrightarrow> p_parent r = Some i \<Longrightarrow>
      p \<in> set (rows (db_pages db)) \<Longrightarrow> p_id p = i \<Longrightarrow> p_organization p = t"
  shows "owned_pages (snd (delete_page db organization i)) t = owned_pages db t"
proof (cases "count_rows (\<lambda>r. p_id r = i \<and> in_scope db organization r) (db_pages db) = 0")
  case False
  let ?g = "\<lambda>r :: page_row. if p_parent r = Some i then r\<lparr>p_parent := None\<rparr> else r"
  from False obtain p where p: "p \<in> set (rows (db_pages db))" "p_id p = i" "in_scope db organization p" by (auto simp: count_rows_0)
  then have "p_organization p \<noteq> t" using assms(1) by (auto simp: in_scope_def org_scope_def)
  then have "\<forall>r \<in> set (rows (db_pages db)). p_organization r = t \<longrightarrow> p_parent r \<noteq> Some i" using assms(2) p(1,2) by blast
  moreover have "filter (\<lambda>r. p_organization r = t) (map ?g rs) = map ?g (filter (\<lambda>r. p_organization r = t) rs)" for rs
    by (induction rs) auto
  moreover have "filter (\<lambda>r. p_organization r = t) (filter (\<lambda>r. \<not> (p_id r = i \<and> in_scope db organization r)) rs) =
      filter (\<lambda>r. p_organization r = t) rs" for rs
    using assms(1) by (auto simp: in_scope_def org_scope_def intro!: filter_cong)
  moreover have "map ?g (filter (\<lambda>r. p_organization r = t) (rows (db_pages db))) = filter (\<lambda>r. p_organization r = t) (rows (db_pages db))"
    using calculation(1) by (intro map_idI) simp
  ultimately show ?thesis using False by (simp only: owned_pages_def delete_page_def Let_def cascade_page_def) simp
qed (simp add: delete_page_def Let_def)

lemma page_write_foreign:
  "org_id db (page_write_key w) \<noteq> Some t \<Longrightarrow> tenant_pages (page_write_run cap w db) t = tenant_pages db t"
  by (cases w) (simp_all add: create_page_owned update_page_owned tenant_pages_def, simp add: delete_page_foreign flip: tenant_pages_def)

interpretation page_tenancy: scoped_writes "page_write_run cap" page_write_key tenant_pages "\<lambda>_. True"
  by unfold_locales (simp_all add: page_write_foreign page_write_organizations)

section \<open>The search expression\<close>

lemma quoted_empty: "quoted w = ''\"\"'' \<longleftrightarrow> filter (\<lambda>c. c \<noteq> CHR 0x22) w = []"
  by (auto simp: quoted_def)

text \<open>
  What a visitor types can only be searched for: the expression handed to the index is a
  sequence of quoted phrases, none empty and none with a quote inside, so that no operator of the
  index's query language gets through; where nothing quotable remains there is no query at all.
\<close>

theorem search_expression_inert:
  "case fts_match_query terms of
     Some q \<Rightarrow> (\<exists>ws. ws \<noteq> [] \<and> q = join_with '' '' (map (\<lambda>w. ''\"'' @ w @ ''\"'') ws) \<and>
       list_all (\<lambda>w. w \<noteq> [] \<and> CHR 0x22 \<notin> set w) ws)
   | None \<Rightarrow> search_pages ix db now organization terms drafts n offset = Inr [] \<and>
       search_count ix db now organization terms drafts = Inr 0"
proof (cases "fts_match_query terms")
  case (Some q)
  let ?ws = "filter (\<lambda>w. w \<noteq> []) (map (filter (\<lambda>c. c \<noteq> CHR 0x22)) (split_whitespace terms))"
  have "filter (\<lambda>p. p \<noteq> ''\"\"'') (map quoted ts) = map (\<lambda>w. ''\"'' @ w @ ''\"'') (filter (\<lambda>w. w \<noteq> []) (map (filter (\<lambda>c. c \<noteq> CHR 0x22)) ts))" for ts
    by (induction ts) (auto simp: quoted_empty quoted_def)
  with Some have "?ws \<noteq> []" "q = join_with '' '' (map (\<lambda>w. ''\"'' @ w @ ''\"'') ?ws)"
    by (auto simp: fts_match_query_def Let_def split: if_splits)
  moreover have "list_all (\<lambda>w. w \<noteq> [] \<and> CHR 0x22 \<notin> set w) ?ws" by (auto simp: list_all_iff)
  ultimately have "\<exists>ws. ws \<noteq> [] \<and> q = join_with '' '' (map (\<lambda>w. ''\"'' @ w @ ''\"'') ws) \<and>
      list_all (\<lambda>w. w \<noteq> [] \<and> CHR 0x22 \<notin> set w) ws" by blast
  with Some show ?thesis by simp
qed (simp add: search_pages_def search_count_def)

section \<open>A site\<close>

text \<open>Two organizations, and a page with a child in the first one.\<close>

definition site :: db where
  "site = empty_db\<lparr>db_organizations := \<lparr>last_id = 2, rows =
     [\<lparr>o_id = 1, o_key = ''cms'', o_name = ''CMS'', o_document_root = [], o_created_at = 0\<rparr>,
      \<lparr>o_id = 2, o_key = ''acme'', o_name = ''Acme'', o_document_root = [], o_created_at = 0\<rparr>]\<rparr>\<rparr>"

definition plain_page :: "string \<Rightarrow> int option \<Rightarrow> new_page" where
  "plain_page slug parent = \<lparr>np_slug = slug, np_title = slug, np_content = [], np_body_format = Markdown, np_is_published = True,
     np_created_by = None, np_parent = parent, np_position = 0, np_meta_title = None, np_meta_description = None,
     np_og_image = None, np_publish_at = None, np_revision_note = None\<rparr>"

lemma empty_store_rows [simp]: "rows empty_store = []" "last_id empty_store = 0"
  by (simp_all add: empty_store_def)

lemma site_ok: "pages_ok site" "history_ok cap site"
  by (simp_all add: site_def pages_ok_def history_ok_def empty_db_def)

lemma site_orgs: "org_id site ''cms'' = Some 1" "org_id site ''acme'' = Some 2"
  by (simp_all add: site_def org_id_def select_row_def)

lemma page_history_invariant_witness:
  "pages_ok (foldl (page_step 2) site [Create_Page 5 ''cms'' (plain_page ''a'' None), Create_Page 6 ''acme'' (plain_page ''a'' None),
     Delete_Page ''cms'' 1]) \<and>
   history_ok 2 (foldl (page_step 2) site [Create_Page 5 ''cms'' (plain_page ''a'' None), Create_Page 6 ''acme'' (plain_page ''a'' None),
     Delete_Page ''cms'' 1])"
  by (rule page_history_invariant [OF site_ok])

definition two_pages :: db where
  "two_pages = site\<lparr>db_pages := \<lparr>last_id = 2, rows = [new_page_row (plain_page ''a'' None) 1 5 1, new_page_row (plain_page ''b'' (Some 1)) 1 6 2]\<rparr>\<rparr>"

lemma listing_by_pages_witness:
  "concat (map (\<lambda>k. projr (list_pages_paged two_pages 9 ''cms'' False (int 1) (int (k * 1)))) [0..<2]) =
      projr (list_pages two_pages 9 ''cms'' False (int (2 * 1))) \<and>
    sorted_wrt (\<lambda>a b. ps_updated_at a > ps_updated_at b \<or> ps_updated_at a = ps_updated_at b \<and> ps_id a > ps_id b)
      (projr (list_pages two_pages 9 ''cms'' False (int (2 * 1))))"
  by (rule listing_by_pages) (simp add: two_pages_def store_ok_def new_page_row_def)

lemma public_reads_are_public_witness:
  "list_all (\<lambda>p. public_page two_pages 9 ''cms'' (ps_id p)) (projr (list_pages two_pages 9 ''cms'' False 5))"
  using public_reads_are_public [of two_pages 9 "''cms''" 5, THEN conjunct1] by (simp add: list_all_iff)

lemma two_pages_scoped:
  "scoped_page two_pages ''cms'' 2 = Some (new_page_row (plain_page ''b'' (Some 1)) 1 6 2)"
  "scoped_page two_pages ''cms'' 1 = Some (new_page_row (plain_page ''a'' None) 1 5 1)"
proof -
  have "org_id two_pages ''cms'' = Some 1" using site_orgs(1) by (simp add: two_pages_def org_id_def)
  then show "scoped_page two_pages ''cms'' 2 = Some (new_page_row (plain_page ''b'' (Some 1)) 1 6 2)"
    "scoped_page two_pages ''cms'' 1 = Some (new_page_row (plain_page ''a'' None) 1 5 1)"
    by (simp_all add: scoped_page_def in_scope_def org_scope_def) (simp_all add: two_pages_def select_row_def new_page_row_def)
qed

lemma two_pages_upward: "upward two_pages ''cms'' 2 [new_page_row (plain_page ''a'' None) 1 5 1]"
  by (rule upward.up [OF two_pages_scoped(1) _ two_pages_scoped(2)])
    (auto intro: upward.root [OF two_pages_scoped(2)] simp: new_page_row_def plain_page_def)

lemma ancestors_are_the_parents_witness:
  "ancestors two_pages ''cms'' 2 = Inr [summary_of_row (new_page_row (plain_page ''a'' None) 1 5 1)]"
  using ancestors_are_the_parents [of two_pages "''cms''" 2 "[new_page_row (plain_page ''a'' None) 1 5 1]"] two_pages_upward
  by (simp add: new_page_row_def)

text \<open>
  A cycle of parents is answered, not reported: two pages that are each other's parent give the
  second one back sixty-four times.
\<close>

definition cyclic_pages :: db where
  "cyclic_pages = site\<lparr>db_pages := \<lparr>last_id = 2,
     rows = [new_page_row (plain_page ''a'' (Some 2)) 1 5 1, new_page_row (plain_page ''b'' (Some 1)) 1 6 2]\<rparr>\<rparr>"

lemma cycle_answered:
  "ancestors cyclic_pages ''cms'' 1 = Inr (replicate 64 (summary_of_row (new_page_row (plain_page ''b'' (Some 1)) 1 6 2)))"
proof -
  let ?b = "new_page_row (plain_page ''b'' (Some 1)) 1 6 2"
  have o: "org_id cyclic_pages ''cms'' = Some 1" using site_orgs(1) by (simp add: cyclic_pages_def org_id_def)
  have s: "scoped_page cyclic_pages ''cms'' 2 = Some ?b"
    "scoped_page cyclic_pages ''cms'' 1 = Some (new_page_row (plain_page ''a'' (Some 2)) 1 5 1)"
    by (simp_all add: scoped_page_def in_scope_def org_scope_def o) (simp_all add: cyclic_pages_def select_row_def new_page_row_def)
  have two: "ancestors_walk (Suc (Suc n)) cyclic_pages ''cms'' 1 1 chain = ancestors_walk n cyclic_pages ''cms'' 1 1 (summary_of_row ?b # chain)" for n chain
    by (simp add: ancestors_walk_step [OF s(1)] ancestors_walk_step [OF s(2)] new_page_row_def plain_page_def Let_def
        del: ancestors_walk.simps)
  have "ancestors_walk (2 * k) cyclic_pages ''cms'' 1 1 chain = replicate k (summary_of_row ?b) @ chain" for k chain
  proof (induction k arbitrary: chain)
    case (Suc k)
    then show ?case by (simp add: two replicate_app_Cons_same del: ancestors_walk.simps)
  qed simp
  from this [of 64 "[]"] show ?thesis by (simp add: ancestors_def max_ancestor_hops_def)
qed

end
