(* ===== verification/Panel.thy ===== *)
theory Panel
  imports Auth_Routes Pages
begin

text \<open>
  \<open>src/src/routes/cms.rs\<close>, what its handlers share: the guards of the panel, the values handed
  to a view, the page form with its validation, and the flattening of the page tree. A handler
  takes the configuration of the panel, the facts of the request, the editor the guard admitted and
  the decoded form (or the decoding error), and answers with a reply and the database it leaves. A
  view is named with the globals the handler adds; rendering it is the template engine's.
\<close>

section \<open>Replies\<close>

datatype json = J_Null | J_Bool bool | J_Int int | J_Str string | J_Arr "json list" | J_Obj "(string \<times> json) list"

datatype reply =
    See_Other string
  | View string "(string \<times> json) list" nat
  | Failed app_error
  | Document string string
  | Theme_Redirect string "string option"
  | Redirected string nat

definition j_opt :: "('a \<Rightarrow> json) \<Rightarrow> 'a option \<Rightarrow> json" where
  "j_opt f x = (case x of Some a \<Rightarrow> f a | None \<Rightarrow> J_Null)"

definition j_nat :: "nat \<Rightarrow> json" where
  "j_nat n = J_Int (int n)"

definition render_view :: "string \<Rightarrow> (string \<times> json) list \<Rightarrow> reply" where
  "render_view view globals = View view globals 200"

text \<open>The server with the CMS: its context carries the number of revisions a page keeps. The
  routes are mounted only while there is a context.\<close>

record panel =
  pn_server :: server
  pn_cms :: "nat option"
  pn_index_page_size :: nat
  pn_site_url :: "string option"
  pn_default_page :: "string option"
  pn_feed :: bool
  pn_sitemap :: bool

definition no_cms :: reply where
  "no_cms = Failed (InternalError ''the CMS is not initialized'')"

definition with_cms :: "panel \<Rightarrow> db \<Rightarrow> (nat \<Rightarrow> reply \<times> db) \<Rightarrow> reply \<times> db" where
  "with_cms pn db k = (case pn_cms pn of None \<Rightarrow> (no_cms, db) | Some max_revisions \<Rightarrow> k max_revisions)"

definition storage_failure :: reply where
  "storage_failure = Failed (InternalError ''storage failure'')"

section \<open>Guards\<close>

definition login_unreserved :: "char \<Rightarrow> bool" where
  "login_unreserved c \<longleftrightarrow> is_alnum c \<or> c \<in> {CHR ''-'', CHR ''_'', CHR ''.'', CHR ''~''}"

definition utf8_percent_encode :: "string \<Rightarrow> string" where
  "utf8_percent_encode value =
     concat (map (\<lambda>c. if login_unreserved c then [c]
                      else [CHR ''%'', hex_upper ! (code c div 16), hex_upper ! (code c mod 16)]) value)"

definition redirect_to_login :: "string \<Rightarrow> reply" where
  "redirect_to_login path = See_Other (''/login?redirect='' @ utf8_percent_encode path)"

definition request_organization :: "panel \<Rightarrow> request \<Rightarrow> string" where
  "request_organization pn rq = organization_key (rq_authority rq) (rq_hosts rq) (sv_bindings (pn_server pn))"

definition cms_membership :: "panel \<Rightarrow> string \<Rightarrow> auth_user \<Rightarrow> db \<Rightarrow> (app_error, user_role option) result" where
  "cms_membership pn organization u db =
     (case sv_auth (pn_server pn) of
        None \<Rightarrow> Inl (InternalError ''authentication is not initialized'')
      | Some _ \<Rightarrow>
          (case membership_role db (au_user_id u) organization of
             Inl _ \<Rightarrow> Inl (InternalError ''membership lookup failed'')
           | Inr role \<Rightarrow> Inr role))"

record member =
  mb_user :: auth_user
  mb_organization :: string

text \<open>The extractors \<open>CmsEditor\<close> and \<open>CmsAdmin\<close>, and a handler behind one of them.\<close>

definition panel_guard :: "(user_role option \<Rightarrow> bool) \<Rightarrow> string \<Rightarrow> panel \<Rightarrow> request \<Rightarrow> string \<Rightarrow> db \<Rightarrow> (reply, member) result" where
  "panel_guard allowed refusal pn rq path db =
     (case request_user (pn_server pn) rq of
        Inl e \<Rightarrow> Inl (if status_code e = 401 then redirect_to_login path else Failed e)
      | Inr u \<Rightarrow>
          (let organization = request_organization pn rq in
           case cms_membership pn organization u db of
             Inl e \<Rightarrow> Inl (Failed e)
           | Inr role \<Rightarrow>
               if allowed role then Inr \<lparr>mb_user = u, mb_organization = organization\<rparr>
               else Inl (Failed (Forbidden refusal))))"

definition em_dash :: string where
  "em_dash = [CHR 0xE2, CHR 0x80, CHR 0x94]"

definition cms_editor :: "panel \<Rightarrow> request \<Rightarrow> string \<Rightarrow> db \<Rightarrow> (reply, member) result" where
  "cms_editor = panel_guard (\<lambda>role. case role of Some r \<Rightarrow> is_editor r | None \<Rightarrow> False)
     (''CMS membership required '' @ em_dash @ '' this account is not part of the CMS organization.'')"

definition cms_admin :: "panel \<Rightarrow> request \<Rightarrow> string \<Rightarrow> db \<Rightarrow> (reply, member) result" where
  "cms_admin = panel_guard (\<lambda>role. role = Some Admin)
     (''Administrator membership required '' @ em_dash @
      '' only administrators of the CMS organization can manage its accounts.'')"

definition behind :: "(panel \<Rightarrow> request \<Rightarrow> string \<Rightarrow> db \<Rightarrow> (reply, member) result) \<Rightarrow>
    panel \<Rightarrow> request \<Rightarrow> string \<Rightarrow> (member \<Rightarrow> db \<Rightarrow> reply \<times> db) \<Rightarrow> db \<Rightarrow> reply \<times> db" where
  "behind guard pn rq path handler db =
     (case guard pn rq path db of Inl r \<Rightarrow> (r, db) | Inr m \<Rightarrow> handler m db)"

section \<open>The page form\<close>

definition max_listed :: int where "max_listed = 200"
definition max_page_content :: nat where "max_page_content = 600000"
definition max_title :: nat where "max_title = 200"
definition max_meta_description :: nat where "max_meta_description = 500"
definition max_url_field :: nat where "max_url_field = 500"
definition max_menu_label :: nat where "max_menu_label = 200"
definition max_position :: int where "max_position = 99999"
definition max_revision_note :: nat where "max_revision_note = 200"

record page_form =
  pf_slug :: string
  pf_title :: string
  pf_content :: string
  pf_body_format :: "string option"
  pf_is_published :: "string option"
  pf_parent_id :: "string option"
  pf_position :: "string option"
  pf_page_id :: "string option"
  pf_meta_title :: "string option"
  pf_meta_description :: "string option"
  pf_og_image :: "string option"
  pf_publish_at :: "string option"
  pf_revision_note :: "string option"

definition empty_form :: page_form where
  "empty_form = \<lparr>pf_slug = [], pf_title = [], pf_content = [], pf_body_format = None, pf_is_published = None,
     pf_parent_id = None, pf_position = None, pf_page_id = None, pf_meta_title = None, pf_meta_description = None,
     pf_og_image = None, pf_publish_at = None, pf_revision_note = None\<rparr>"

definition trimmed :: "string option \<Rightarrow> string option" where
  "trimmed field = (case map_option trim field of Some v \<Rightarrow> if v = [] then None else Some v | None \<Rightarrow> None)"

definition parse_position :: "string option \<Rightarrow> (string, int option) result" where
  "parse_position raw =
     (case trimmed raw of
        None \<Rightarrow> Inr None
      | Some s \<Rightarrow>
          (case parse_i64 s of
             Some v \<Rightarrow> if 0 \<le> v \<and> v \<le> max_position then Inr (Some v)
                       else Inl ''Position must be a number between 0 and 99,999.''
           | None \<Rightarrow> Inl ''Position must be a number between 0 and 99,999.''))"

definition position_or_zero :: "string option \<Rightarrow> int" where
  "position_or_zero raw = (case parse_position raw of Inr (Some v) \<Rightarrow> v | _ \<Rightarrow> 0)"

definition form_published :: "page_form \<Rightarrow> bool" where
  "form_published f \<longleftrightarrow> pf_is_published f \<in> {Some ''on'', Some ''true'', Some ''1''}"

definition form_body_format :: "page_form \<Rightarrow> body_format" where
  "form_body_format f = (case Option.bind (pf_body_format f) body_format_parse of Some b \<Rightarrow> b | None \<Rightarrow> Jhs)"

definition form_page_id :: "page_form \<Rightarrow> int option" where
  "form_page_id f = Option.bind (trimmed (pf_page_id f)) parse_i64"

definition form_parent :: "page_form \<Rightarrow> int option" where
  "form_parent f = Option.bind (trimmed (pf_parent_id f)) parse_i64"

definition form_position :: "page_form \<Rightarrow> int" where
  "form_position f = position_or_zero (pf_position f)"

definition form_schedule :: "page_form \<Rightarrow> int option" where
  "form_schedule f = Option.bind (trimmed (pf_publish_at f)) parse_datetime_local"

definition text_or_empty :: "string option \<Rightarrow> json" where
  "text_or_empty x = J_Str (case x of Some s \<Rightarrow> s | None \<Rightarrow> [])"

definition form_error :: "string option \<Rightarrow> json" where
  "form_error e = j_opt J_Str e"

definition form_data :: "page_form \<Rightarrow> int option \<Rightarrow> json list \<Rightarrow> string option \<Rightarrow> json \<times> json" where
  "form_data f i parents e =
     (J_Obj [(''id'', j_opt J_Int i), (''slug'', J_Str (pf_slug f)), (''title'', J_Str (pf_title f)),
        (''content'', J_Str (pf_content f)), (''body_format'', J_Str (body_format_as_str (form_body_format f))),
        (''is_published'', J_Bool (form_published f)), (''is_new'', J_Bool (i = None)),
        (''parent_id'', j_opt J_Int (form_parent f)), (''position'', J_Int (form_position f)),
        (''meta_title'', text_or_empty (trimmed (pf_meta_title f))),
        (''meta_description'', text_or_empty (trimmed (pf_meta_description f))),
        (''og_image'', text_or_empty (trimmed (pf_og_image f))),
        (''publish_at'', text_or_empty (trimmed (pf_publish_at f))),
        (''revision_note'', text_or_empty (trimmed (pf_revision_note f))), (''parents'', J_Arr parents)],
      form_error e)"

definition validate_slug :: "string \<Rightarrow> (string, unit) result" where
  "validate_slug s =
     (if valid_slug s then Inr ()
      else Inl ''The slug must be 1-64 characters: lowercase, digits and hyphens (not starting or ending with a hyphen).'')"

definition check :: "bool \<Rightarrow> string \<Rightarrow> (string, unit) result" where
  "check ok message = (if ok then Inr () else Inl message)"

definition short_field :: "nat \<Rightarrow> string option \<Rightarrow> bool" where
  "short_field n field \<longleftrightarrow> (case trimmed field of Some s \<Rightarrow> length s \<le> n | None \<Rightarrow> True)"

definition image_url :: "string \<Rightarrow> bool" where
  "image_url s \<longleftrightarrow> starts_with ''/'' s \<or> starts_with ''http://'' s \<or> starts_with ''https://'' s"

definition validate_page_form :: "page_form \<Rightarrow> (string, unit) result" where
  "validate_page_form f =
     and_then (check (trim (pf_title f) \<noteq> []) ''The title cannot be empty.'') (\<lambda>_.
     and_then (check (length (pf_title f) \<le> max_title) ''The title is too long (200 characters at most).'') (\<lambda>_.
     and_then (validate_slug (pf_slug f)) (\<lambda>_.
     and_then (check (length (pf_content f) \<le> max_page_content) ''The content is too long (600,000 characters at most).'') (\<lambda>_.
     and_then (check (case trimmed (pf_body_format f) of Some raw \<Rightarrow> body_format_parse raw \<noteq> None | None \<Rightarrow> True)
       ''The content format must be jhs or markdown.'') (\<lambda>_.
     and_then (parse_position (pf_position f)) (\<lambda>_.
     and_then (check (case trimmed (pf_parent_id f) of
         Some raw \<Rightarrow> (case parse_i64 raw of Some i \<Rightarrow> i > 0 | None \<Rightarrow> False) | None \<Rightarrow> True)
       ''The parent must be a page id (or empty for top level).'') (\<lambda>_.
     and_then (check (short_field max_title (pf_meta_title f)) ''The SEO title is too long (200 characters at most).'') (\<lambda>_.
     and_then (check (short_field max_meta_description (pf_meta_description f))
       ''The meta description is too long (500 characters at most).'') (\<lambda>_.
     and_then (check (short_field max_url_field (pf_og_image f)) ''The social image is too long (500 characters at most).'') (\<lambda>_.
     and_then (check (case trimmed (pf_og_image f) of Some s \<Rightarrow> image_url s | None \<Rightarrow> True)
       (''The social image must be a site path (/assets/'' @ [CHR 0xE2, CHR 0x80, CHR 0xA6] @ '') or an absolute URL.'')) (\<lambda>_.
     and_then (check (case trimmed (pf_publish_at f) of Some raw \<Rightarrow> parse_datetime_local raw \<noteq> None | None \<Rightarrow> True)
       ''The scheduled date is not valid: use the YYYY-MM-DDTHH:MM format (UTC).'') (\<lambda>_.
     check (short_field max_revision_note (pf_revision_note f))
       ''The revision note is too long (200 characters at most).''))))))))))))"

section \<open>The state of a page and the tree of pages\<close>

definition estado_badge :: "bool \<Rightarrow> int option \<Rightarrow> int \<Rightarrow> string" where
  "estado_badge is_published publish_at now =
     (if is_published \<or> (case publish_at of Some t \<Rightarrow> t \<le> now | None \<Rightarrow> False) then ''published''
      else if publish_at \<noteq> None then ''scheduled''
      else ''draft'')"

text \<open>\<open>sort_by_key(|page| (page.position, page.id))\<close> is stable: by id, then by position.\<close>

definition sort_siblings :: "page_summary list \<Rightarrow> page_summary list" where
  "sort_siblings ps = order_asc ps_position (order_asc ps_id ps)"

text \<open>The depth-first walk from a parent: every child the walk does not skip, with its depth, before
  its own subtree. The recursion is bounded by \<open>fuel\<close>; one more than the number of pages is
  enough.\<close>

fun tree_walk :: "nat \<Rightarrow> (page_summary \<Rightarrow> bool) \<Rightarrow> page_summary list \<Rightarrow> int option \<Rightarrow> nat \<Rightarrow> (page_summary \<times> nat) list" where
  "tree_walk 0 skip ps parent depth = []"
| "tree_walk (Suc fuel) skip ps parent depth =
     concat (map (\<lambda>p. if skip p then [] else (p, depth) # tree_walk fuel skip ps (Some (ps_id p)) (depth + 1))
       (filter (\<lambda>p. ps_parent p = parent) ps))"

definition tree_fuel :: "page_summary list \<Rightarrow> nat" where
  "tree_fuel ps = Suc (length ps)"

definition walk_page_tree :: "int \<Rightarrow> page_summary list \<Rightarrow> json list" where
  "walk_page_tree now ps =
     map (\<lambda>(p, depth). J_Obj [(''id'', J_Int (ps_id p)), (''slug'', J_Str (ps_slug p)), (''title'', J_Str (ps_title p)),
         (''is_published'', J_Bool (ps_is_published p)),
         (''estado'', J_Str (estado_badge (ps_is_published p) (ps_publish_at p) now)),
         (''publish_at_h'', j_opt (\<lambda>t. J_Str (format_timestamp t)) (ps_publish_at p)),
         (''updated_at_h'', J_Str (format_timestamp (ps_updated_at p))), (''depth'', j_nat depth)])
       (tree_walk (tree_fuel ps) (\<lambda>_. False) ps None 0)"

definition nbsp :: string where
  "nbsp = [CHR 0xC2, CHR 0xA0]"

definition walk_parent_options :: "page_summary list \<Rightarrow> int option \<Rightarrow> json list" where
  "walk_parent_options ps exclude =
     map (\<lambda>(p, depth). J_Obj [(''id'', J_Int (ps_id p)), (''label'', J_Str (concat (replicate (depth * 3) nbsp) @ ps_title p))])
       (tree_walk (tree_fuel ps) (\<lambda>p. Some (ps_id p) = exclude) ps None 0)"

definition parent_options :: "db \<Rightarrow> int \<Rightarrow> string \<Rightarrow> int option \<Rightarrow> json list" where
  "parent_options db now organization exclude =
     (case list_pages db now organization True max_listed of
        Inl _ \<Rightarrow> []
      | Inr pages \<Rightarrow> walk_parent_options (sort_siblings pages) exclude)"

section \<open>The walk lists the tree\<close>

inductive at_depth :: "page_summary list \<Rightarrow> nat \<Rightarrow> page_summary \<Rightarrow> bool" for ps where
  top: "p \<in> set ps \<Longrightarrow> ps_parent p = None \<Longrightarrow> at_depth ps 0 p"
| below: "at_depth ps d q \<Longrightarrow> p \<in> set ps \<Longrightarrow> ps_parent p = Some (ps_id q) \<Longrightarrow> at_depth ps (Suc d) p"

definition level :: "page_summary list \<Rightarrow> int option \<Rightarrow> nat \<Rightarrow> bool" where
  "level ps pa d \<longleftrightarrow> (case pa of None \<Rightarrow> d = 0 | Some i \<Rightarrow> \<exists>q e. at_depth ps e q \<and> ps_id q = i \<and> d = Suc e)"

lemma at_depth_page: "at_depth ps d p \<Longrightarrow> p \<in> set ps"
  by (induction rule: at_depth.induct)

lemma level_child: "level ps pa d \<Longrightarrow> p \<in> set ps \<Longrightarrow> ps_parent p = pa \<Longrightarrow> at_depth ps d p"
  by (auto simp: level_def intro: at_depth.intros split: option.splits)

lemma level_below: "level ps pa d \<Longrightarrow> p \<in> set ps \<Longrightarrow> ps_parent p = pa \<Longrightarrow> level ps (Some (ps_id p)) (Suc d)"
  using level_child by (fastforce simp: level_def)

lemma same_id: "distinct (map ps_id ps) \<Longrightarrow> p \<in> set ps \<Longrightarrow> q \<in> set ps \<Longrightarrow> ps_id p = ps_id q \<Longrightarrow> p = q"
  by (auto simp: distinct_map dest: inj_onD)

lemma at_depth_unique:
  assumes "distinct (map ps_id ps)" "at_depth ps d p" "at_depth ps e p"
  shows "d = e"
  using assms(2,3)
proof (induction arbitrary: e rule: at_depth.induct)
  case (top p)
  from top.prems top.hyps show ?case by (cases rule: at_depth.cases) auto
next
  case (below d q p)
  from below.prems below.hyps show ?case
  proof (cases rule: at_depth.cases)
    case (below d' q')
    with \<open>ps_parent p = Some (ps_id q)\<close> \<open>at_depth ps d q\<close> have "q' = q"
      using same_id [OF assms(1)] at_depth_page by (metis option.inject)
    with below \<open>\<And>e. at_depth ps e q \<Longrightarrow> d = e\<close> show ?thesis by simp
  qed simp
qed

lemma at_depth_bound:
  assumes "distinct (map ps_id ps)" "at_depth ps d p"
  shows "d < length ps"
proof -
  have "\<exists>qs. length qs = Suc d \<and> distinct qs \<and> (\<forall>q \<in> set qs. \<exists>e \<le> d. at_depth ps e q)"
    using assms(2)
  proof (induction rule: at_depth.induct)
    case (top p)
    then show ?case by (intro exI [of _ "[p]"]) (auto intro: at_depth.top)
  next
    case (below d q p)
    then obtain qs where qs: "length qs = Suc d" "distinct qs" "\<forall>q \<in> set qs. \<exists>e \<le> d. at_depth ps e q" by blast
    have p: "at_depth ps (Suc d) p" using below.hyps by (rule at_depth.below)
    with qs(3) have "p \<notin> set qs" using at_depth_unique [OF assms(1)] by fastforce
    with qs p show ?case by (intro exI [of _ "p # qs"]) (auto intro: le_SucI)
  qed
  then obtain qs where "length qs = Suc d" "distinct qs" "set qs \<subseteq> set ps" using at_depth_page by blast
  then show ?thesis by (metis Suc_le_eq card_length card_mono distinct_card finite_set order_trans)
qed

lemma tree_walk_enough:
  assumes "distinct (map ps_id ps)"
  shows "level ps pa d \<Longrightarrow> length ps < n + d \<Longrightarrow> tree_walk (Suc n) skip ps pa d = tree_walk n skip ps pa d"
proof (induction n arbitrary: pa d)
  case 0
  then show ?case using at_depth_bound [OF assms] by (fastforce simp: level_def split: option.splits)
next
  case (Suc n)
  have "tree_walk (Suc n) skip ps (Some (ps_id p)) (d + 1) = tree_walk n skip ps (Some (ps_id p)) (d + 1)"
    if "p \<in> set ps" "ps_parent p = pa" for p
    using Suc.prems that level_below by (intro Suc.IH) auto
  then show ?case unfolding tree_walk.simps(2) [of "Suc n"] tree_walk.simps(2) [of n]
    by (intro arg_cong [where f = concat] map_cong) auto
qed

lemma tree_walk_fuel:
  assumes "distinct (map ps_id ps)" "tree_fuel ps \<le> fuel"
  shows "tree_walk fuel skip ps None 0 = tree_walk (tree_fuel ps) skip ps None 0"
  using assms(2)
proof (induction rule: dec_induct)
  case (step n)
  then show ?case using tree_walk_enough [OF assms(1), of None 0 n] by (simp add: level_def tree_fuel_def del: tree_walk.simps)
qed simp

lemma tree_walk_sound:
  "level ps pa d \<Longrightarrow> (p, e) \<in> set (tree_walk n skip ps pa d) \<Longrightarrow> at_depth ps e p \<and> d \<le> e"
proof (induction n arbitrary: pa d)
  case (Suc n)
  from Suc.prems(2) obtain c where c: "c \<in> set ps" "ps_parent c = pa"
      "(p, e) = (c, d) \<or> (p, e) \<in> set (tree_walk n skip ps (Some (ps_id c)) (d + 1))"
    by (auto split: if_splits)
  show ?case
  proof (cases "(p, e) = (c, d)")
    case True
    then show ?thesis using level_child [OF Suc.prems(1) c(1,2)] by simp
  next
    case False
    then show ?thesis using Suc.IH [of "Some (ps_id c)" "d + 1"] level_below [OF Suc.prems(1) c(1,2)] c(3) by auto
  qed
qed simp

lemma tree_walk_grows:
  assumes "p \<in> set ps" "ps_parent p = Some (ps_id q)"
  shows "(q, e) \<in> set (tree_walk n (\<lambda>_. False) ps pa d) \<Longrightarrow> e < d + n \<Longrightarrow> e + 1 < d + n \<Longrightarrow>
    (p, Suc e) \<in> set (tree_walk n (\<lambda>_. False) ps pa d)"
proof (induction n arbitrary: pa d)
  case (Suc n)
  from Suc.prems(1) obtain c where c: "c \<in> set ps" "ps_parent c = pa"
      "(q, e) = (c, d) \<or> (q, e) \<in> set (tree_walk n (\<lambda>_. False) ps (Some (ps_id c)) (d + 1))" by auto
  have "(p, Suc e) \<in> set (tree_walk n (\<lambda>_. False) ps (Some (ps_id c)) (d + 1))"
  proof (cases "(q, e) = (c, d)")
    case True
    with Suc.prems(3) obtain m where "n = Suc m" by (cases n) auto
    with True assms show ?thesis by (auto intro!: bexI [of _ p])
  next
    case False
    with c(3) Suc.prems show ?thesis by (intro Suc.IH) auto
  qed
  with c(1,2) show ?case by (auto intro!: bexI [of _ c])
qed simp

lemma tree_walk_complete:
  assumes "distinct (map ps_id ps)" "at_depth ps d p"
  shows "(p, d) \<in> set (tree_walk (tree_fuel ps) (\<lambda>_. False) ps None 0)"
  using assms(2)
proof (induction rule: at_depth.induct)
  case (top p)
  then show ?case by (auto simp: tree_fuel_def intro!: bexI [of _ p])
next
  case (below d q p)
  have "Suc d < length ps" by (rule at_depth_bound [OF assms(1) at_depth.below [OF below.hyps]])
  with below show ?case by (intro tree_walk_grows) (simp_all add: tree_fuel_def)
qed

text \<open>The page from which the walk entered the level of \<open>pa\<close> is the ancestor so many steps up.\<close>

definition parent_link :: "page_summary list \<Rightarrow> int \<Rightarrow> int option" where
  "parent_link ps i = Option.bind (find (\<lambda>p. ps_id p = i) ps) ps_parent"

fun climb :: "page_summary list \<Rightarrow> nat \<Rightarrow> int \<Rightarrow> int option" where
  "climb ps 0 i = Some i"
| "climb ps (Suc k) i = Option.bind (climb ps k i) (parent_link ps)"

lemma parent_link_page:
  assumes "distinct (map ps_id ps)" "p \<in> set ps"
  shows "parent_link ps (ps_id p) = ps_parent p"
proof -
  have "find (\<lambda>q. ps_id q = ps_id p) ps = Some p"
  proof (cases "find (\<lambda>q. ps_id q = ps_id p) ps")
    case None
    with assms(2) show ?thesis by (auto simp: find_None_iff)
  next
    case (Some q)
    then have "q \<in> set ps" "ps_id q = ps_id p" by (auto simp: find_Some_iff)
    with Some same_id [OF assms(1) _ assms(2)] show ?thesis by simp
  qed
  then show ?thesis by (simp add: parent_link_def)
qed

lemma tree_walk_climb:
  assumes "distinct (map ps_id ps)"
  shows "(p, e) \<in> set (tree_walk n skip ps pa d) \<Longrightarrow> d \<le> e \<and> climb ps (Suc (e - d)) (ps_id p) = pa"
proof (induction n arbitrary: pa d)
  case (Suc n)
  then obtain c where c: "c \<in> set ps" "ps_parent c = pa"
      "(p, e) = (c, d) \<or> (p, e) \<in> set (tree_walk n skip ps (Some (ps_id c)) (d + 1))"
    by (auto split: if_splits)
  show ?case
  proof (cases "(p, e) = (c, d)")
    case True
    then show ?thesis using parent_link_page [OF assms c(1)] c(2) by simp
  next
    case False
    with c(3) Suc.IH have i: "d + 1 \<le> e" "climb ps (Suc (e - (d + 1))) (ps_id p) = Some (ps_id c)" by blast+
    then have "climb ps (e - d) (ps_id p) = Some (ps_id c)" by (metis Suc_diff_Suc Suc_eq_plus1 Suc_le_eq)
    with i(1) parent_link_page [OF assms c(1)] c(2) show ?thesis by simp
  qed
qed simp

lemma tree_walk_distinct:
  assumes "distinct (map ps_id ps)"
  shows "level ps pa d \<Longrightarrow> distinct (map fst (tree_walk n skip ps pa d))"
proof (induction n arbitrary: pa d)
  case (Suc n)
  let ?sub = "\<lambda>c. tree_walk n skip ps (Some (ps_id c)) (d + 1)"
  let ?part = "\<lambda>c. if skip c then [] else (c, d) # ?sub c"
  have below: "climb ps (Suc (e - (d + 1))) (ps_id p) = Some (ps_id c) \<and> d + 1 \<le> e \<and> at_depth ps e p"
    if "(p, e) \<in> set (?sub c)" "c \<in> set ps" "ps_parent c = pa" for p e c
    using tree_walk_climb [OF assms that(1)] tree_walk_sound [OF level_below [OF Suc.prems that(2,3)]] that(1) by simp
  have here: "at_depth ps d c" if "c \<in> set ps" "ps_parent c = pa" for c
    using level_child [OF Suc.prems that] .
  have part: "distinct (map fst (?part c))" if "c \<in> set ps" "ps_parent c = pa" for c
  proof -
    have "(c, e) \<notin> set (?sub c)" for e
      using below [OF _ that, of c e] at_depth_unique [OF assms here [OF that], of e] by auto
    then have "c \<notin> fst ` set (?sub c)" by auto
    with Suc.IH [OF level_below [OF Suc.prems that]] show ?thesis by simp
  qed
  have apart: "fst ` set (?part a) \<inter> fst ` set (?part b) = {}"
    if a: "a \<in> set ps" "ps_parent a = pa" and b: "b \<in> set ps" "ps_parent b = pa" and n: "a \<noteq> b" for a b
  proof -
    have False if x: "(p, e) \<in> set (?part a)" and y: "(p, f) \<in> set (?part b)" for p e f
    proof -
      have cases: "(q = c \<and> k = d) \<or> (d + 1 \<le> k \<and> climb ps (Suc (k - (d + 1))) (ps_id q) = Some (ps_id c))" "at_depth ps k q"
        if "(q, k) \<in> set (?part c)" "c \<in> set ps" "ps_parent c = pa" for q k c
        using that(1) below [OF _ that(2,3), of q k] here [OF that(2,3)] by (simp_all split: if_splits) blast+
      have "e = f" using at_depth_unique [OF assms cases(2) [OF x a] cases(2) [OF y b]] .
      with cases(1) [OF x a] cases(1) [OF y b] n same_id [OF assms a(1) b(1)] show False by auto
    qed
    then show ?thesis by fastforce
  qed
  have "distinct (map fst (concat (map ?part cs)))" if "distinct cs" "\<And>c. c \<in> set cs \<Longrightarrow> c \<in> set ps \<and> ps_parent c = pa" for cs
    using that
  proof (induction cs)
    case (Cons c cs)
    have "fst ` set (?part c) \<inter> fst ` set (?part x) = {}" if "x \<in> set cs" for x
      by (rule apart) (use that Cons.prems in auto)
    then have "fst ` set (?part c) \<inter> fst ` set (concat (map ?part cs)) = {}" unfolding set_concat set_map by blast
    moreover have "distinct (map fst (concat (map ?part cs)))" using Cons by simp
    ultimately show ?case using part [of c] Cons.prems(2) [of c] by (simp del: set_concat)
  qed simp
  moreover have "distinct (filter (\<lambda>p. ps_parent p = pa) ps)" using assms by (simp add: distinct_map)
  ultimately have "distinct (map fst (concat (map ?part (filter (\<lambda>p. ps_parent p = pa) ps))))" by fastforce
  then show ?case by simp
qed simp

section \<open>Properties\<close>

text \<open>
  C13: The page tree of the panel is complete and finite: its depth-first walk over a listing lists
  every page whose chain of parents reaches the top level inside the listing, exactly once and with
  the length of that chain as its depth, and no other page, a cycle of parents included; and the
  recursion ends, since more steps than the listing has pages change nothing.
\<close>

theorem page_tree_complete:
  assumes "distinct (map ps_id ps)"
  shows "set (tree_walk (tree_fuel ps) (\<lambda>_. False) ps None 0) = {(p, d). at_depth ps d p} \<and>
    distinct (map fst (tree_walk (tree_fuel ps) (\<lambda>_. False) ps None 0)) \<and>
    (\<forall>fuel \<ge> tree_fuel ps. tree_walk fuel skip ps None 0 = tree_walk (tree_fuel ps) skip ps None 0)"
proof (intro conjI allI impI)
  have top: "level ps None 0" by (simp add: level_def)
  show "set (tree_walk (tree_fuel ps) (\<lambda>_. False) ps None 0) = {(p, d). at_depth ps d p}"
    using tree_walk_sound [OF top] tree_walk_complete [OF assms] by fast
  show "distinct (map fst (tree_walk (tree_fuel ps) (\<lambda>_. False) ps None 0))" by (rule tree_walk_distinct [OF assms top])
  show "tree_walk fuel skip ps None 0 = tree_walk (tree_fuel ps) skip ps None 0" if "tree_fuel ps \<le> fuel" for fuel
    using tree_walk_fuel [OF assms that] .
qed

definition leaf :: "int \<Rightarrow> int option \<Rightarrow> page_summary" where
  "leaf i parent = \<lparr>ps_id = i, ps_slug = ''a'', ps_title = ''A'', ps_is_published = True, ps_publish_at = None,
     ps_updated_at = 0, ps_parent = parent, ps_position = 0\<rparr>"

definition small_tree :: "page_summary list" where
  "small_tree = [leaf 1 None, leaf 2 (Some 1), leaf 3 (Some 3)]"

lemma page_tree_complete_witness:
  "set (tree_walk (tree_fuel small_tree) (\<lambda>_. False) small_tree None 0) = {(p, d). at_depth small_tree d p} \<and>
   tree_walk (tree_fuel small_tree) (\<lambda>_. False) small_tree None 0 = [(leaf 1 None, 0), (leaf 2 (Some 1), 1)]"
proof -
  have "distinct (map ps_id small_tree)" by (simp add: small_tree_def leaf_def)
  from page_tree_complete [OF this] show ?thesis by (simp add: small_tree_def tree_fuel_def leaf_def)
qed

end
