(* ===== verification/Panel_Pages.thy ===== *)
theory Panel_Pages
  imports Panel
begin

text \<open>
  \<open>src/src/routes/cms.rs\<close>, the pages in the panel: the dashboard, the listing, the forms,
  creation, edit, preview and deletion, the history with its restore, and the import. Each handler
  is what runs behind the editor's guard.
\<close>

section \<open>Rendering a body\<close>

text \<open>What a body becomes: the Markdown renderer, and the template engine with the request's globals,
  which answers the HTML and a redirect if the template asked for one. \<open>None\<close> is a render
  task that failed.\<close>

record renderer =
  rd_markdown :: "string \<Rightarrow> string option"
  rd_templates :: "(string \<Rightarrow> (string, string \<times> (string \<times> nat) option) result option) option"

section \<open>Loading\<close>

definition load_page :: "db \<Rightarrow> string \<Rightarrow> int \<Rightarrow> page_record option" where
  "load_page db organization i = (case find_page_by_id db organization i of Inr p \<Rightarrow> p | Inl _ \<Rightarrow> None)"

definition load_revision :: "db \<Rightarrow> int \<Rightarrow> int \<Rightarrow> page_revision option" where
  "load_revision db page revision = (case find_revision db page revision of Inr v \<Rightarrow> v | Inl _ \<Rightarrow> None)"

definition render_page_form :: "db \<Rightarrow> int \<Rightarrow> string \<Rightarrow> int option \<Rightarrow> page_form \<Rightarrow> string option \<Rightarrow> json \<Rightarrow> reply" where
  "render_page_form db now organization i form e preview =
     (let (form_json, form_err) = form_data form i (parent_options db now organization i) e in
      render_view ''admin/page_form.jhs'' [(''form'', form_json), (''form_error'', form_err), (''preview_html'', preview)])"

definition render_form_with_error :: "db \<Rightarrow> int \<Rightarrow> string \<Rightarrow> int option \<Rightarrow> page_form \<Rightarrow> string \<Rightarrow> reply" where
  "render_form_with_error db now organization i form e = render_page_form db now organization i form (Some e) J_Null"

section \<open>Dashboard and listing\<close>

definition dashboard_activity_rows :: int where "dashboard_activity_rows = 8"
definition dashboard_scheduled_rows :: int where "dashboard_scheduled_rows = 5"

definition try_storage :: "'a repo \<Rightarrow> db \<Rightarrow> ('a \<Rightarrow> reply \<times> db) \<Rightarrow> reply \<times> db" where
  "try_storage r db k = (case r of Inl _ \<Rightarrow> (storage_failure, db) | Inr a \<Rightarrow> k a)"

text \<open>The counts of menus and media come from their repositories.\<close>

definition dashboard_route ::
  "(db \<Rightarrow> string \<Rightarrow> int repo) \<Rightarrow> (db \<Rightarrow> string \<Rightarrow> int repo) \<Rightarrow> panel \<Rightarrow> request \<Rightarrow> member \<Rightarrow> db \<Rightarrow> reply \<times> db" where
  "dashboard_route menu_count media_count pn rq m db = with_cms pn db (\<lambda>_.
     let organization = mb_organization m; now = rq_now rq in
     try_storage (count_pages db organization) db (\<lambda>total.
     try_storage (count_published db now organization) db (\<lambda>published.
     try_storage (case sv_auth (pn_server pn) of Some _ \<Rightarrow> count_users db | None \<Rightarrow> Inr 0) db (\<lambda>users.
     try_storage (menu_count db organization) db (\<lambda>menus.
     try_storage (media_count db organization) db (\<lambda>media.
     try_storage (count_scheduled db now organization) db (\<lambda>scheduled.
     try_storage (scheduled_pending db now organization dashboard_scheduled_rows) db (\<lambda>pending.
     try_storage (recent_revisions db organization dashboard_activity_rows) db (\<lambda>recent.
       (render_view ''admin/dashboard.jhs''
          [(''stats'', J_Obj [(''pages'', J_Int total), (''published'', J_Int published), (''drafts'', J_Int (total - published)),
              (''scheduled'', J_Int scheduled), (''menus'', J_Int menus), (''media'', J_Int media), (''users'', J_Int users)]),
           (''actividad'', J_Arr (map (\<lambda>r. J_Obj [(''page_id'', J_Int (rr_page r)), (''title'', J_Str (rr_title r)),
              (''slug'', J_Str (rr_slug r)), (''revision'', J_Int (rr_revision r)), (''note'', j_opt J_Str (rr_note r)),
              (''created_at_h'', J_Str (format_timestamp (rr_created_at r))), (''editor'', j_opt J_Str (rr_edited_by_name r))]) recent)),
           (''programadas'', J_Arr (map (\<lambda>p. J_Obj [(''id'', J_Int (ps_id p)), (''slug'', J_Str (ps_slug p)),
              (''title'', J_Str (ps_title p)), (''publish_at_h'', j_opt (\<lambda>t. J_Str (format_timestamp t)) (ps_publish_at p))]) pending))],
        db))))))))))"

text \<open>\<open>/admin/theme\<close>: the last \<open>to\<close> and \<open>back\<close> of the decoded query.\<close>

definition last_value :: "string \<Rightarrow> (string \<times> string) list \<Rightarrow> string" where
  "last_value key params = foldl (\<lambda>v (k, x). if k = key then x else v) [] params"

definition admin_theme_route :: "(string \<times> string) list \<Rightarrow> reply" where
  "admin_theme_route params =
     (let target = last_value ''to'' params; back = last_value ''back'' params;
          destination = (if starts_with ''/admin'' back \<and> \<not> contains_str ''..'' back \<and> list_all graphic back then back else ''/admin'')
      in Theme_Redirect destination
           (if target = ''dark'' \<or> target = ''light''
            then Some (''wm_theme='' @ target @ ''; Path=/; Max-Age=31536000; HttpOnly; SameSite=Lax'') else None))"

text \<open>The query of a listing: the search words, trimmed and cut to 200 characters, and the page. A
  character of UTF-8 begins at a byte that is not a continuation.\<close>

definition continuation :: "char \<Rightarrow> bool" where
  "continuation c \<longleftrightarrow> 0x80 \<le> code c \<and> code c < 0xC0"

fun take_chars :: "nat \<Rightarrow> string \<Rightarrow> string" where
  "take_chars n [] = []"
| "take_chars n (c # s) =
     (if continuation c then c # take_chars n s
      else (case n of 0 \<Rightarrow> [] | Suc k \<Rightarrow> c # take_chars k s))"

definition listing_query :: "(string \<times> string) list \<Rightarrow> string \<times> int" where
  "listing_query params =
     foldl (\<lambda>(query, page) (k, v).
         if k = ''q'' then (take_chars 200 (trim v), page)
         else if k = ''page'' then (query, case parse_i64 v of Some n \<Rightarrow> n | None \<Rightarrow> page)
         else (query, page)) ([], 1) params"

text \<open>\<open>routes/search.rs\<close>, \<open>fragment_segments\<close>: the markers are the characters U+27E6 and
  U+27E7, three bytes each.\<close>

definition open_mark :: string where "open_mark = [CHR 0xE2, CHR 0x9F, CHR 0xA6]"
definition close_mark :: string where "close_mark = [CHR 0xE2, CHR 0x9F, CHR 0xA7]"

definition flush :: "string \<Rightarrow> bool \<Rightarrow> (string \<times> bool) list" where
  "flush current in_hit = (if current = [] then [] else [(current, in_hit)])"

function segments_from :: "string \<Rightarrow> string \<Rightarrow> bool \<Rightarrow> (string \<times> bool) list" where
  "segments_from s current in_hit =
     (if s = [] then flush current in_hit
      else if starts_with open_mark s then flush current in_hit @ segments_from (drop 3 s) [] True
      else if starts_with close_mark s then flush current in_hit @ segments_from (drop 3 s) [] False
      else segments_from (tl s) (current @ [hd s]) in_hit)"
  by pat_completeness auto
termination
  by (relation "measure (\<lambda>(s, _, _). length s)") auto

declare segments_from.simps [simp del]

definition fragment_segments :: "string \<Rightarrow> json" where
  "fragment_segments fragment =
     J_Arr (map (\<lambda>(text, hit). J_Obj [(''texto'', J_Str text), (''hit'', J_Bool hit)]) (segments_from fragment [] False))"

definition list_pages_route :: "'k :: linorder fts \<Rightarrow> panel \<Rightarrow> request \<Rightarrow> (string \<times> string) list \<Rightarrow> member \<Rightarrow> db \<Rightarrow> reply \<times> db" where
  "list_pages_route ix pn rq params m db = with_cms pn db (\<lambda>_.
     let now = rq_now rq; filter_words = fst (listing_query params) in
     if filter_words \<noteq> [] then
       try_storage (search_pages ix db now (mb_organization m) filter_words True max_listed 0) db (\<lambda>hits.
         (render_view ''admin/pages.jhs''
            [(''admin_pages'', J_Arr []),
             (''admin_resultados'', J_Arr (map (\<lambda>h. J_Obj [(''id'', J_Int (sh_id h)), (''slug'', J_Str (sh_slug h)),
                (''title'', J_Str (sh_title h)), (''is_published'', J_Bool (sh_is_published h)),
                (''estado'', J_Str (estado_badge (sh_is_published h) (sh_publish_at h) now)),
                (''publish_at_h'', j_opt (\<lambda>t. J_Str (format_timestamp t)) (sh_publish_at h)),
                (''updated_at_h'', J_Str (format_timestamp (sh_updated_at h))), (''fragmento'', fragment_segments (sh_fragment h))]) hits)),
             (''filtro'', J_Str filter_words)], db))
     else
       try_storage (list_pages db now (mb_organization m) True max_listed) db (\<lambda>pages.
         (render_view ''admin/pages.jhs''
            [(''admin_pages'', J_Arr (walk_page_tree now (sort_siblings pages))), (''admin_resultados'', J_Null), (''filtro'', J_Str [])], db)))"

section \<open>Creating\<close>

definition new_page_form_route :: "panel \<Rightarrow> request \<Rightarrow> member \<Rightarrow> db \<Rightarrow> reply \<times> db" where
  "new_page_form_route pn rq m db = with_cms pn db (\<lambda>_.
     (render_page_form db (rq_now rq) (mb_organization m) None empty_form None J_Null, db))"

definition slug_exists_message :: string where
  "slug_exists_message = ''That slug already exists: pick another URL identifier.''"

definition internal_message :: string where
  "internal_message = ''Could not save (internal error).''"

definition new_page_of_form :: "page_form \<Rightarrow> int \<Rightarrow> int \<Rightarrow> new_page" where
  "new_page_of_form f author now =
     \<lparr>np_slug = pf_slug f, np_title = pf_title f, np_content = pf_content f, np_body_format = form_body_format f,
      np_is_published = form_published f, np_created_by = Some author, np_parent = form_parent f,
      np_position = form_position f, np_meta_title = trimmed (pf_meta_title f),
      np_meta_description = trimmed (pf_meta_description f), np_og_image = trimmed (pf_og_image f),
      np_publish_at = normalize_schedule (form_published f) (form_schedule f) now,
      np_revision_note = trimmed (pf_revision_note f)\<rparr>"

definition create_page_route :: "panel \<Rightarrow> request \<Rightarrow> (string, page_form) result \<Rightarrow> member \<Rightarrow> db \<Rightarrow> reply \<times> db" where
  "create_page_route pn rq input m db = with_cms pn db (\<lambda>max_revisions.
     let organization = mb_organization m; now = rq_now rq;
         reject = (\<lambda>d form message. (render_form_with_error d now organization None form message, d)) in
     case input of
       Inl message \<Rightarrow> reject db empty_form message
     | Inr form \<Rightarrow>
         (case validate_page_form form of
            Inl message \<Rightarrow> reject db form message
          | Inr _ \<Rightarrow>
              if (case form_parent form of Some p \<Rightarrow> load_page db organization p = None | None \<Rightarrow> False)
              then reject db form ''The parent page does not exist.''
              else (case create_page max_revisions db now organization (new_page_of_form form (au_user_id (mb_user m)) now) of
                      (Inr p, db') \<Rightarrow> (See_Other (''/admin/pages/'' @ show_int (pr_id p) @ ''/edit?ok=creada''), db')
                    | (Inl Duplicate, db') \<Rightarrow> reject db' form slug_exists_message
                    | (Inl (Internal _), db') \<Rightarrow> reject db' form internal_message)))"

section \<open>Editing\<close>

definition edit_form_of :: "page_record \<Rightarrow> int \<Rightarrow> page_form" where
  "edit_form_of p now =
     \<lparr>pf_slug = pr_slug p, pf_title = pr_title p, pf_content = pr_content p,
      pf_body_format = Some (body_format_as_str (pr_body_format p)),
      pf_is_published = (if pr_is_published p \<or> (case pr_publish_at p of Some t \<Rightarrow> t \<le> now | None \<Rightarrow> False) then Some ''on'' else None),
      pf_parent_id = map_option show_int (pr_parent p), pf_position = Some (show_int (pr_position p)),
      pf_page_id = Some (show_int (pr_id p)), pf_meta_title = pr_meta_title p, pf_meta_description = pr_meta_description p,
      pf_og_image = pr_og_image p, pf_publish_at = map_option format_datetime_local (pr_publish_at p), pf_revision_note = None\<rparr>"

definition edit_page_form_route :: "panel \<Rightarrow> request \<Rightarrow> int \<Rightarrow> member \<Rightarrow> db \<Rightarrow> reply \<times> db" where
  "edit_page_form_route pn rq i m db = with_cms pn db (\<lambda>_.
     case load_page db (mb_organization m) i of
       None \<Rightarrow> (See_Other ''/admin/pages'', db)
     | Some p \<Rightarrow> (render_page_form db (rq_now rq) (mb_organization m) (Some i) (edit_form_of p (rq_now rq)) None J_Null, db))"

text \<open>What an edit and a restore ask of the parent they would set.\<close>

datatype parent_verdict = Parent_Fine | Parent_Self | Parent_Missing | Parent_Cycle | Parent_Unknown

definition judge_parent :: "db \<Rightarrow> string \<Rightarrow> int \<Rightarrow> int option \<Rightarrow> parent_verdict" where
  "judge_parent db organization i parent =
     (case parent of
        None \<Rightarrow> Parent_Fine
      | Some p \<Rightarrow>
          if p = i then Parent_Self
          else if load_page db organization p = None then Parent_Missing
          else (case ancestors db organization p of
                  Inl _ \<Rightarrow> Parent_Unknown
                | Inr chain \<Rightarrow> if list_ex (\<lambda>a. ps_id a = i) chain then Parent_Cycle else Parent_Fine))"

definition page_update_of_form :: "page_form \<Rightarrow> int \<Rightarrow> int \<Rightarrow> page_update" where
  "page_update_of_form f editor now =
     \<lparr>up_slug = Some (pf_slug f), up_title = pf_title f, up_content = pf_content f, up_body_format = form_body_format f,
      up_is_published = form_published f, up_parent = form_parent f, up_position = form_position f,
      up_meta_title = trimmed (pf_meta_title f), up_meta_description = trimmed (pf_meta_description f),
      up_og_image = trimmed (pf_og_image f),
      up_publish_at = normalize_schedule (form_published f) (form_schedule f) now, up_edited_by = Some editor,
      up_revision_note = trimmed (pf_revision_note f)\<rparr>"

definition update_page_route :: "panel \<Rightarrow> request \<Rightarrow> int \<Rightarrow> (string, page_form) result \<Rightarrow> member \<Rightarrow> db \<Rightarrow> reply \<times> db" where
  "update_page_route pn rq i input m db = with_cms pn db (\<lambda>max_revisions.
     let organization = mb_organization m; now = rq_now rq;
         reject = (\<lambda>d form message. (render_form_with_error d now organization (Some i) form message, d)) in
     case input of
       Inl message \<Rightarrow> reject db empty_form message
     | Inr form \<Rightarrow>
         (case validate_page_form form of
            Inl message \<Rightarrow> reject db form message
          | Inr _ \<Rightarrow>
              (case judge_parent db organization i (form_parent form) of
                 Parent_Self \<Rightarrow> reject db form ''A page cannot be its own parent.''
               | Parent_Missing \<Rightarrow> reject db form ''The parent page does not exist.''
               | Parent_Unknown \<Rightarrow> (storage_failure, db)
               | Parent_Cycle \<Rightarrow> reject db form ''That parent would create a cycle: a page cannot hang from its own descendant.''
               | Parent_Fine \<Rightarrow>
                   (case update_page max_revisions db now organization i (page_update_of_form form (au_user_id (mb_user m)) now) of
                      (Inr (Some _), db') \<Rightarrow> (See_Other (''/admin/pages/'' @ show_int i @ ''/edit?ok=guardada''), db')
                    | (Inr None, db') \<Rightarrow> (See_Other ''/admin/pages'', db')
                    | (Inl Duplicate, db') \<Rightarrow> reject db' form slug_exists_message
                    | (Inl (Internal _), db') \<Rightarrow> reject db' form internal_message))))"

section \<open>Preview and deletion\<close>

definition preview_page_route :: "renderer \<Rightarrow> panel \<Rightarrow> request \<Rightarrow> (string, page_form) result \<Rightarrow> member \<Rightarrow> db \<Rightarrow> reply \<times> db" where
  "preview_page_route rd pn rq input m db = with_cms pn db (\<lambda>_.
     let organization = mb_organization m; now = rq_now rq;
         task_failed = Failed (InternalError ''preview rendering failed'') in
     case input of
       Inl message \<Rightarrow> (render_form_with_error db now organization None empty_form message, db)
     | Inr form \<Rightarrow>
         (case validate_page_form form of
            Inl message \<Rightarrow> (render_form_with_error db now organization (form_page_id form) form message, db)
          | Inr _ \<Rightarrow>
              (case form_body_format form of
                 Markdown \<Rightarrow>
                   (case rd_markdown rd (pf_content form) of
                      None \<Rightarrow> (task_failed, db)
                    | Some html \<Rightarrow> (render_page_form db now organization (form_page_id form) form None (J_Str html), db))
               | Jhs \<Rightarrow>
                   (case rd_templates rd of
                      None \<Rightarrow> (Failed (InternalError ''templates are not initialized''), db)
                    | Some engine \<Rightarrow>
                        (case engine (pf_content form) of
                           None \<Rightarrow> (task_failed, db)
                         | Some (Inl message) \<Rightarrow> (render_form_with_error db now organization (form_page_id form) form message, db)
                         | Some (Inr (html, _)) \<Rightarrow>
                             (render_page_form db now organization (form_page_id form) form None (J_Str html), db))))))"

definition delete_page_route :: "panel \<Rightarrow> int \<Rightarrow> member \<Rightarrow> db \<Rightarrow> reply \<times> db" where
  "delete_page_route pn i m db = with_cms pn db (\<lambda>_.
     case delete_page db (mb_organization m) i of
       (Inr _, db') \<Rightarrow> (See_Other ''/admin/pages?ok=eliminada'', db')
     | (Inl _, db') \<Rightarrow> (storage_failure, db'))"

section \<open>The history\<close>

definition page_head :: "page_record \<Rightarrow> json" where
  "page_head p = J_Obj [(''id'', J_Int (pr_id p)), (''title'', J_Str (pr_title p)), (''slug'', J_Str (pr_slug p))]"

definition page_history_route :: "panel \<Rightarrow> request \<Rightarrow> int \<Rightarrow> member \<Rightarrow> db \<Rightarrow> reply \<times> db" where
  "page_history_route pn rq i m db = with_cms pn db (\<lambda>_.
     case load_page db (mb_organization m) i of
       None \<Rightarrow> (See_Other ''/admin/pages'', db)
     | Some p \<Rightarrow> try_storage (page_revisions db i) db (\<lambda>revisions.
         let current_revision = (case revisions of [] \<Rightarrow> None | v # _ \<Rightarrow> Some (rs_revision v)) in
         (render_view ''admin/page_history.jhs''
            [(''page'', page_head p),
             (''revisiones'', J_Arr (map (\<lambda>v. J_Obj [(''revision'', J_Int (rs_revision v)), (''title'', J_Str (rs_title v)),
                (''slug'', J_Str (rs_slug v)), (''estado'', J_Str (estado_badge (rs_is_published v) (rs_publish_at v) (rq_now rq))),
                (''publish_at_h'', j_opt (\<lambda>t. J_Str (format_timestamp t)) (rs_publish_at v)), (''note'', text_or_empty (rs_note v)),
                (''edited_by_name'', text_or_empty (rs_edited_by_name v)), (''created_at_h'', J_Str (format_timestamp (rs_created_at v))),
                (''is_current'', J_Bool (Some (rs_revision v) = current_revision))]) revisions))], db)))"

definition render_revision_view :: "int \<Rightarrow> page_record \<Rightarrow> page_revision \<Rightarrow> string option \<Rightarrow> reply" where
  "render_revision_view now p v e =
     render_view ''admin/page_revision.jhs''
       [(''page'', page_head p),
        (''revision'', J_Obj [(''revision'', J_Int (vr_revision v)), (''slug'', J_Str (vr_slug v)), (''title'', J_Str (vr_title v)),
           (''content'', J_Str (vr_content v)), (''body_format'', J_Str (body_format_as_str (vr_body_format v))),
           (''parent_id'', j_opt J_Int (vr_parent v)), (''position'', J_Int (vr_position v)),
           (''meta_title'', text_or_empty (vr_meta_title v)), (''meta_description'', text_or_empty (vr_meta_description v)),
           (''og_image'', text_or_empty (vr_og_image v)),
           (''estado'', J_Str (estado_badge (vr_is_published v) (vr_publish_at v) now)),
           (''publish_at_h'', j_opt (\<lambda>t. J_Str (format_timestamp t)) (vr_publish_at v)), (''note'', text_or_empty (vr_note v)),
           (''edited_by_name'', text_or_empty (vr_edited_by_name v)), (''created_at_h'', J_Str (format_timestamp (vr_created_at v)))]),
        (''form_error'', form_error e)]"

definition page_revision_route :: "panel \<Rightarrow> request \<Rightarrow> int \<Rightarrow> int \<Rightarrow> member \<Rightarrow> db \<Rightarrow> reply \<times> db" where
  "page_revision_route pn rq i revision m db = with_cms pn db (\<lambda>_.
     case load_page db (mb_organization m) i of
       None \<Rightarrow> (See_Other ''/admin/pages'', db)
     | Some p \<Rightarrow>
         (case load_revision db i revision of
            None \<Rightarrow> (See_Other (''/admin/pages/'' @ show_int i @ ''/history''), db)
          | Some v \<Rightarrow> (render_revision_view (rq_now rq) p v None, db)))"

text \<open>The snapshot's content with the page's present state of publication.\<close>

definition restore_update :: "page_record \<Rightarrow> page_revision \<Rightarrow> int \<Rightarrow> int \<Rightarrow> page_update" where
  "restore_update p v editor revision =
     \<lparr>up_slug = Some (vr_slug v), up_title = vr_title v, up_content = vr_content v, up_body_format = vr_body_format v,
      up_is_published = pr_is_published p, up_parent = vr_parent v, up_position = vr_position v,
      up_meta_title = vr_meta_title v, up_meta_description = vr_meta_description v, up_og_image = vr_og_image v,
      up_publish_at = pr_publish_at p, up_edited_by = Some editor,
      up_revision_note = Some (''Restored from revision '' @ show_int revision @ ''.'')\<rparr>"

definition restore_revision_route :: "panel \<Rightarrow> request \<Rightarrow> int \<Rightarrow> int \<Rightarrow> member \<Rightarrow> db \<Rightarrow> reply \<times> db" where
  "restore_revision_route pn rq i revision m db = with_cms pn db (\<lambda>max_revisions.
     let organization = mb_organization m; now = rq_now rq in
     case load_page db organization i of
       None \<Rightarrow> (See_Other ''/admin/pages'', db)
     | Some p \<Rightarrow>
         (case load_revision db i revision of
            None \<Rightarrow> (See_Other (''/admin/pages/'' @ show_int i @ ''/history''), db)
          | Some v \<Rightarrow>
              let refuse = (\<lambda>d message. (render_revision_view now p v (Some message), d)) in
              (case judge_parent db organization i (vr_parent v) of
                 Parent_Self \<Rightarrow> refuse db ''The parent named by the revision is the page itself: move it to another level before restoring.''
               | Parent_Missing \<Rightarrow> refuse db ''The revision's parent page no longer exists: restore and pick a current parent in the editor.''
               | Parent_Unknown \<Rightarrow> (storage_failure, db)
               | Parent_Cycle \<Rightarrow> refuse db ''The revision's parent now hangs under this page: restoring would create a cycle.''
               | Parent_Fine \<Rightarrow>
                   (case update_page max_revisions db now organization i (restore_update p v (au_user_id (mb_user m)) revision) of
                      (Inr (Some _), db') \<Rightarrow> (See_Other (''/admin/pages/'' @ show_int i @ ''/edit?ok=restored''), db')
                    | (Inr None, db') \<Rightarrow> (See_Other ''/admin/pages'', db')
                    | (Inl Duplicate, db') \<Rightarrow> refuse db'
                        ''That slug already exists (another page has taken it since): rename it or hand-edit the revision you wanted back.''
                    | (Inl (Internal _), db') \<Rightarrow> refuse db' ''Could not restore (internal error).''))))"

section \<open>Importing a file\<close>

definition max_import_listed :: nat where "max_import_listed = 200"
definition max_import_bytes :: nat where "max_import_bytes = 600000"
definition max_import_depth :: nat where "max_import_depth = 3"

text \<open>The accented letters of Latin-1 in UTF-8: the byte C3 and a second one.\<close>

definition plain_letter :: "char \<Rightarrow> char option" where
  "plain_letter c =
     (if code c \<in> {0xA1, 0xA0, 0xA4} then Some (CHR ''a'')
      else if code c \<in> {0xA9, 0xA8, 0xAB} then Some (CHR ''e'')
      else if code c \<in> {0xAD, 0xAC, 0xAF} then Some (CHR ''i'')
      else if code c \<in> {0xB3, 0xB2, 0xB6} then Some (CHR ''o'')
      else if code c \<in> {0xBA, 0xB9, 0xBC} then Some (CHR ''u'')
      else if code c = 0xB1 then Some (CHR ''n'')
      else if code c = 0xA7 then Some (CHR ''c'')
      else None)"

fun transliterate :: "string \<Rightarrow> string" where
  "transliterate (a # b # s) =
     (if code a = 0xC3
      then (case plain_letter b of Some l \<Rightarrow> l # transliterate s | None \<Rightarrow> a # transliterate (b # s))
      else a # transliterate (b # s))"
| "transliterate s = s"

definition push_slug_char :: "string \<times> bool \<Rightarrow> char \<Rightarrow> string \<times> bool" where
  "push_slug_char acc c =
     (case acc of (slug, dash) \<Rightarrow>
        if is_lower c \<or> is_digit c then (slug @ [c], False)
        else if \<not> dash then (slug @ ''-'', True)
        else (slug, dash))"

definition trim_dashes :: "string \<Rightarrow> string" where
  "trim_dashes s = rev (dropWhile (\<lambda>c. c = CHR ''-'') (rev (dropWhile (\<lambda>c. c = CHR ''-'') s)))"

definition slug_from_file_name :: "string \<Rightarrow> string" where
  "slug_from_file_name name =
     (let base = (case strip_suffix ''.html'' name of
                    Some b \<Rightarrow> b
                  | None \<Rightarrow> (case strip_suffix ''.jhs'' name of Some b \<Rightarrow> b | None \<Rightarrow> name));
          raw = fst (foldl push_slug_char ([], False) (lowercase (transliterate base)));
          slug = take 64 (trim_dashes raw)
      in if slug = [] then ''importada'' else slug)"

text \<open>A document root as the file system shows it: a file with its size, a directory with its entries
  or unreadable.\<close>

datatype node = File_Node string nat | Dir_Node string "node list option"

fun node_name :: "node \<Rightarrow> string" where
  "node_name (File_Node name _) = name"
| "node_name (Dir_Node name _) = name"

definition importable_name :: "string \<Rightarrow> bool" where
  "importable_name name \<longleftrightarrow> ends_with ''.html'' name \<or> ends_with ''.jhs'' name"

fun collect_importable :: "string \<Rightarrow> nat \<Rightarrow> node list option \<Rightarrow> json list \<Rightarrow> json list"
and collect_entries :: "string \<Rightarrow> nat \<Rightarrow> node list \<Rightarrow> json list \<Rightarrow> json list" where
  "collect_importable prefix depth None files = files"
| "collect_importable prefix depth (Some entries) files =
     (if depth > max_import_depth \<or> length files \<ge> max_import_listed then files
      else collect_entries prefix depth entries files)"
| "collect_entries prefix depth [] files = files"
| "collect_entries prefix depth (File_Node name bytes # entries) files =
     (if starts_with ''.'' name \<or> \<not> importable_name name \<or> bytes > max_import_bytes
      then collect_entries prefix depth entries files
      else (let files' = files @ [J_Obj [(''path'', J_Str (prefix @ name)), (''bytes'', j_nat bytes),
                   (''kind'', J_Str (if ends_with ''.jhs'' name then ''jhs'' else ''html''))]]
            in if length files' \<ge> max_import_listed then files' else collect_entries prefix depth entries files'))"
| "collect_entries prefix depth (Dir_Node name sub # entries) files =
     (if starts_with ''.'' name then collect_entries prefix depth entries files
      else collect_entries prefix depth entries (collect_importable (prefix @ name @ ''/'') (depth + 1) sub files))"

text \<open>What the import needs of the file system: whether the static files are enabled, the document
  root's tree, and for a name: whether its canonical path exists below the root, its size, and its
  text.\<close>

record import_files =
  if_enabled :: bool
  if_root :: "node list option"
  if_inside :: "string \<Rightarrow> bool"
  if_size :: "string \<Rightarrow> nat option"
  if_text :: "string \<Rightarrow> string option"

definition list_importable_files :: "import_files \<Rightarrow> json list" where
  "list_importable_files fs = (if if_enabled fs then collect_importable [] 0 (if_root fs) [] else [])"

definition import_form_route :: "import_files \<Rightarrow> reply" where
  "import_form_route fs = render_view ''admin/import.jhs'' [(''files'', J_Arr (list_importable_files fs)), (''form_error'', J_Null)]"

definition render_import_error :: "import_files \<Rightarrow> string \<Rightarrow> reply" where
  "render_import_error fs message =
     render_view ''admin/import.jhs'' [(''files'', J_Arr (list_importable_files fs)), (''form_error'', J_Str message)]"

definition import_page_of :: "string \<Rightarrow> string \<Rightarrow> int \<Rightarrow> new_page" where
  "import_page_of file content author =
     (let file_name = (case rsplit_once (CHR ''/'') file of Some (_, n) \<Rightarrow> n | None \<Rightarrow> file) in
      \<lparr>np_slug = slug_from_file_name file_name, np_title = file_name, np_content = content, np_body_format = Jhs,
       np_is_published = False, np_created_by = Some author, np_parent = None, np_position = 0, np_meta_title = None,
       np_meta_description = None, np_og_image = None, np_publish_at = None,
       np_revision_note = Some (''Importada desde public/'' @ file)\<rparr>)"

definition import_page_route :: "import_files \<Rightarrow> panel \<Rightarrow> request \<Rightarrow> (string, string) result \<Rightarrow> member \<Rightarrow> db \<Rightarrow> reply \<times> db" where
  "import_page_route fs pn rq input m db = with_cms pn db (\<lambda>max_revisions.
     let refuse = (\<lambda>d message. (render_import_error fs message, d)) in
     case input of
       Inl message \<Rightarrow> refuse db message
     | Inr file \<Rightarrow>
         if \<not> if_enabled fs then refuse db ''Importing requires the static file server to be enabled.''
         else if \<not> (if_inside fs file \<and> importable_name file)
         then refuse db ''Ese archivo no existe o no es importable (solo .html/.jhs dentro de public/).''
         else
           (case if_size fs file of
              None \<Rightarrow> refuse db ''No se pudo leer el archivo.''
            | Some bytes \<Rightarrow>
                if bytes > max_import_bytes then refuse db ''The file exceeds the import limit (600 KB).''
                else
                  (case if_text fs file of
                     None \<Rightarrow> refuse db ''No se pudo leer el archivo.''
                   | Some content \<Rightarrow>
                       (let np = import_page_of file content (au_user_id (mb_user m)) in
                        case create_page max_revisions db (rq_now rq) (mb_organization m) np of
                          (Inr p, db') \<Rightarrow> (See_Other (''/admin/pages/'' @ show_int (pr_id p) @ ''/edit?ok=importada''), db')
                        | (Inl Duplicate, db') \<Rightarrow>
                            refuse db' (''The slug `'' @ np_slug np @ ''` already exists; rename the page before importing.'')
                        | (Inl (Internal _), db') \<Rightarrow> refuse db' ''No se pudo importar (error interno).''))))"

end
