(* ===== verification/Menus.thy ===== *)
theory Menus
  imports Pages "HOL-Library.Multiset" "HOL-Library.Product_Lexorder" "HOL-Library.List_Lexorder" "HOL-Library.Char_ord" "HOL-Library.Option_ord"
begin

text \<open>
  \<open>src/src/db.rs\<close>, \<open>SqliteMenuRepository\<close>: the named navigation menus of an organization and
  their items. An item belongs to the organization its menu belongs to; it links a page or a URL,
  and the public navigation resolves it only while the page is visible.
\<close>

section \<open>Data\<close>

record new_menu =
  nm_name :: string
  nm_title :: string

record menu_record =
  mr_id :: int
  mr_name :: string
  mr_title :: string
  mr_created_at :: int
  mr_updated_at :: int

record new_menu_item =
  ni_menu :: int
  ni_position :: int
  ni_label :: "string option"
  ni_page :: "int option"
  ni_url :: "string option"

record menu_page_projection =
  mp_id :: int
  mp_slug :: string
  mp_title :: string
  mp_is_published :: bool

record menu_item_with_page =
  ip_item :: menu_item_record
  ip_page :: "menu_page_projection option"

record resolved_menu_item =
  ri_position :: int
  ri_label :: string
  ri_url :: string

definition menu_of_row :: "menu_row \<Rightarrow> menu_record" where
  "menu_of_row r = \<lparr>mr_id = mn_id r, mr_name = mn_name r, mr_title = mn_title r,
     mr_created_at = mn_created_at r, mr_updated_at = mn_updated_at r\<rparr>"

definition new_menu_row :: "new_menu \<Rightarrow> int \<Rightarrow> int \<Rightarrow> int \<Rightarrow> menu_row" where
  "new_menu_row m owner now i = \<lparr>mn_id = i, mn_organization = owner, mn_name = nm_name m, mn_title = nm_title m,
     mn_created_at = now, mn_updated_at = now\<rparr>"

definition new_item_row :: "new_menu_item \<Rightarrow> int \<Rightarrow> menu_item_record" where
  "new_item_row n i = \<lparr>mi_id = i, mi_menu = ni_menu n, mi_position = ni_position n, mi_label = ni_label n,
     mi_page = ni_page n, mi_url = ni_url n\<rparr>"

section \<open>Scope\<close>

definition menu_in_scope :: "db \<Rightarrow> string \<Rightarrow> menu_row \<Rightarrow> bool" where
  "menu_in_scope db organization r \<longleftrightarrow> org_scope db organization (mn_organization r)"

definition item_org_scope :: "db \<Rightarrow> string \<Rightarrow> menu_item_record \<Rightarrow> bool" where
  "item_org_scope db organization i \<longleftrightarrow> mi_menu i \<in> set (map mn_id (select_rows (menu_in_scope db organization) (db_menus db)))"

section \<open>Menus\<close>

definition create_menu :: "db \<Rightarrow> int \<Rightarrow> string \<Rightarrow> new_menu \<Rightarrow> menu_record repo \<times> db" where
  "create_menu db now organization m =
     (case org_id db organization of
        None \<Rightarrow> (Inl (Internal ''NOT NULL constraint failed: menus.organization_id''), db)
      | Some owner \<Rightarrow>
          if \<exists>r \<in> set (rows (db_menus db)). mn_organization r = owner \<and> mn_name r = nm_name m then (Inl Duplicate, db)
          else (case insert_row (new_menu_row m owner now) (db_menus db) of
                  (i, menus) \<Rightarrow>
                    (Inr \<lparr>mr_id = i, mr_name = nm_name m, mr_title = nm_title m, mr_created_at = now, mr_updated_at = now\<rparr>,
                     db\<lparr>db_menus := menus\<rparr>)))"

definition find_menu :: "db \<Rightarrow> string \<Rightarrow> int \<Rightarrow> menu_record option repo" where
  "find_menu db organization i =
     Inr (map_option menu_of_row (select_row (\<lambda>r. mn_id r = i \<and> menu_in_scope db organization r) (db_menus db)))"

definition list_menus :: "db \<Rightarrow> string \<Rightarrow> menu_record list repo" where
  "list_menus db organization =
     Inr (map menu_of_row (order_asc mn_name (select_rows (menu_in_scope db organization) (db_menus db))))"

definition count_menus :: "db \<Rightarrow> string \<Rightarrow> int repo" where
  "count_menus db organization = Inr (int (count_rows (menu_in_scope db organization) (db_menus db)))"

definition count_items :: "db \<Rightarrow> int \<Rightarrow> int repo" where
  "count_items db menu = Inr (int (count_rows (\<lambda>i. mi_menu i = menu) (db_items db)))"

definition update_title :: "db \<Rightarrow> int \<Rightarrow> string \<Rightarrow> int \<Rightarrow> string \<Rightarrow> menu_record option repo \<times> db" where
  "update_title db now organization i title =
     (let target = (\<lambda>r. mn_id r = i \<and> menu_in_scope db organization r) in
      if count_rows target (db_menus db) = 0 then (Inr None, db)
      else (let db' = db\<lparr>db_menus := update_rows target (\<lambda>r. r\<lparr>mn_title := title, mn_updated_at := now\<rparr>) (db_menus db)\<rparr> in
            (find_menu db' organization i, db')))"

text \<open>The items go with the menu (\<open>ON DELETE CASCADE\<close>).\<close>

definition delete_menu :: "db \<Rightarrow> string \<Rightarrow> int \<Rightarrow> bool repo \<times> db" where
  "delete_menu db organization i =
     (let target = (\<lambda>r. mn_id r = i \<and> menu_in_scope db organization r) in
      if count_rows target (db_menus db) = 0 then (Inr False, db)
      else (Inr True, db\<lparr>db_menus := delete_rows target (db_menus db),
              db_items := delete_rows (\<lambda>m. mi_menu m = i) (db_items db)\<rparr>))"

section \<open>Items\<close>

definition linked_page :: "db \<Rightarrow> menu_item_record \<Rightarrow> page_row option" where
  "linked_page db i = Option.bind (mi_page i) (\<lambda>p. select_row (\<lambda>r. p_id r = p) (db_pages db))"

definition items_with_pages :: "db \<Rightarrow> int \<Rightarrow> menu_item_with_page list repo" where
  "items_with_pages db menu =
     Inr (map (\<lambda>i. \<lparr>ip_item = i,
            ip_page = map_option (\<lambda>p. \<lparr>mp_id = p_id p, mp_slug = p_slug p, mp_title = p_title p, mp_is_published = p_is_published p\<rparr>)
              (linked_page db i)\<rparr>)
       (order_asc mi_position (select_rows (\<lambda>i. mi_menu i = menu) (db_items db))))"

definition find_item :: "db \<Rightarrow> string \<Rightarrow> int \<Rightarrow> menu_item_record option repo" where
  "find_item db organization i = Inr (select_row (\<lambda>r. mi_id r = i \<and> item_org_scope db organization r) (db_items db))"

text \<open>What the schema demands of an item that is written.\<close>

definition item_constraints :: "db \<Rightarrow> new_menu_item \<Rightarrow> string option" where
  "item_constraints db n =
     (if (ni_page n = None) = (ni_url n = None) then Some ''CHECK constraint failed: (page_id IS NULL) <> (url IS NULL)''
      else if \<not> menu_exists db (ni_menu n) \<or> \<not> refers (page_exists db) (ni_page n) then Some ''FOREIGN KEY constraint failed''
      else None)"

definition add_item :: "db \<Rightarrow> new_menu_item \<Rightarrow> menu_item_record repo \<times> db" where
  "add_item db n =
     (case item_constraints db n of
        Some e \<Rightarrow> (Inl (Internal e), db)
      | None \<Rightarrow> (case insert_row (new_item_row n) (db_items db) of
                  (i, items) \<Rightarrow> (Inr (new_item_row n i), db\<lparr>db_items := items\<rparr>)))"

definition update_item :: "db \<Rightarrow> string \<Rightarrow> int \<Rightarrow> new_menu_item \<Rightarrow> menu_item_record option repo \<times> db" where
  "update_item db organization i n =
     (let target = (\<lambda>r. mi_id r = i \<and> item_org_scope db organization r) in
      if count_rows target (db_items db) = 0 then (Inr None, db)
      else (case item_constraints db n of
              Some e \<Rightarrow> (Inl (Internal e), db)
            | None \<Rightarrow> (let db' = db\<lparr>db_items := update_rows target
                                (\<lambda>r. r\<lparr>mi_menu := ni_menu n, mi_position := ni_position n, mi_label := ni_label n,
                                   mi_page := ni_page n, mi_url := ni_url n\<rparr>) (db_items db)\<rparr> in
                       (find_item db' organization i, db'))))"

definition delete_item :: "db \<Rightarrow> string \<Rightarrow> int \<Rightarrow> bool repo \<times> db" where
  "delete_item db organization i =
     (let target = (\<lambda>r. mi_id r = i \<and> item_org_scope db organization r) in
      (Inr (count_rows target (db_items db) > 0), db\<lparr>db_items := delete_rows target (db_items db)\<rparr>))"

section \<open>The public navigation\<close>

text \<open>A row of the join of menus, their items and the linked pages; a menu without items gives one
  row with no item. The rows come by menu name, then position, then item id.\<close>

type_synonym menu_join = "menu_row \<times> menu_item_record option \<times> page_row option"

definition item_rows :: "db \<Rightarrow> menu_row \<Rightarrow> menu_item_record list \<Rightarrow> menu_join list" where
  "item_rows db m items = (if items = [] then [(m, None, None)] else map (\<lambda>i. (m, Some i, linked_page db i)) items)"

definition joined_rows :: "db \<Rightarrow> menu_row \<Rightarrow> menu_join list" where
  "joined_rows db m = item_rows db m (select_rows (\<lambda>i. mi_menu i = mn_id m) (db_items db))"

definition join_key :: "menu_join \<Rightarrow> string \<times> int option \<times> int option" where
  "join_key j = (mn_name (fst j), map_option mi_position (fst (snd j)), map_option mi_id (fst (snd j)))"

definition menu_query :: "db \<Rightarrow> string \<Rightarrow> menu_join list" where
  "menu_query db organization =
     order_asc join_key (concat (map (joined_rows db) (select_rows (menu_in_scope db organization) (db_menus db))))"

text \<open>What an item becomes; \<open>now\<close> is the clock the loop reads.\<close>

definition resolve_item :: "int \<Rightarrow> menu_item_record \<Rightarrow> page_row option \<Rightarrow> resolved_menu_item option" where
  "resolve_item now i page =
     (case (mi_page i, page) of
        (Some _, Some p) \<Rightarrow>
          if p_is_published p \<or> (case p_publish_at p of Some t \<Rightarrow> t \<le> now | None \<Rightarrow> False)
          then Some \<lparr>ri_position = mi_position i, ri_label = (case mi_label i of Some l \<Rightarrow> l | None \<Rightarrow> p_title p),
                 ri_url = ''/p/'' @ p_slug p\<rparr>
          else None
      | (Some _, None) \<Rightarrow> None
      | (None, _) \<Rightarrow> Some \<lparr>ri_position = mi_position i, ri_label = (case mi_label i of Some l \<Rightarrow> l | None \<Rightarrow> []),
                 ri_url = (case mi_url i of Some u \<Rightarrow> u | None \<Rightarrow> [])\<rparr>)"

text \<open>A pass of the loop: find the menu's entry by its name or append one, then append the item.\<close>

definition entry_index :: "string \<Rightarrow> (menu_record \<times> resolved_menu_item list) list \<Rightarrow> nat" where
  "entry_index name ordered = length (takeWhile (\<lambda>e. mr_name (fst e) \<noteq> name) ordered)"

definition resolve_row :: "int \<Rightarrow> (menu_record \<times> resolved_menu_item list) list \<Rightarrow> menu_join \<Rightarrow> (menu_record \<times> resolved_menu_item list) list" where
  "resolve_row now ordered j =
     (let k = entry_index (mn_name (fst j)) ordered;
          ordered' = (if k < length ordered then ordered else ordered @ [(menu_of_row (fst j), [])]) in
      case fst (snd j) of
        None \<Rightarrow> ordered'
      | Some i \<Rightarrow>
          (case resolve_item now i (snd (snd j)) of
             None \<Rightarrow> ordered'
           | Some r \<Rightarrow> ordered'[k := (fst (ordered' ! k), snd (ordered' ! k) @ [r])]))"

definition resolved :: "db \<Rightarrow> int \<Rightarrow> string \<Rightarrow> (menu_record \<times> resolved_menu_item list) list repo" where
  "resolved db now organization = Inr (foldl (resolve_row now) [] (menu_query db organization))"

section \<open>The invariant of the menus\<close>

text \<open>A name is unique in its organization, an item has one destination, and its menu and its page
  exist.\<close>

definition item_ok :: "db \<Rightarrow> menu_item_record \<Rightarrow> bool" where
  "item_ok db i \<longleftrightarrow> (mi_page i = None) \<noteq> (mi_url i = None) \<and> menu_exists db (mi_menu i) \<and> refers (page_exists db) (mi_page i)"

definition menus_ok :: "db \<Rightarrow> bool" where
  "menus_ok db \<longleftrightarrow>
     store_ok mn_id (db_menus db) \<and> store_ok mi_id (db_items db) \<and>
     distinct (map (\<lambda>r. (mn_organization r, mn_name r)) (rows (db_menus db))) \<and>
     (\<forall>i \<in> set (rows (db_items db)). item_ok db i)"

section \<open>The navigation as one menu after the other\<close>

definition menu_items :: "db \<Rightarrow> menu_row \<Rightarrow> menu_item_record list" where
  "menu_items db m = order_asc mi_position (select_rows (\<lambda>i. mi_menu i = mn_id m) (db_items db))"

definition navigation_entry :: "db \<Rightarrow> int \<Rightarrow> menu_row \<Rightarrow> menu_record \<times> resolved_menu_item list" where
  "navigation_entry db now m = (menu_of_row m, List.map_filter (\<lambda>i. resolve_item now i (linked_page db i)) (menu_items db m))"

definition ordered_rows :: "db \<Rightarrow> menu_row \<Rightarrow> menu_join list" where
  "ordered_rows db m = item_rows db m (menu_items db m)"

lemma mset_order_asc [simp]: "mset (order_asc f rs) = mset rs"
  by (simp add: order_asc_def)

lemma mset_concat_map:
  assumes "mset xs = mset ys" "\<And>x. mset (f x) = mset (g x)"
  shows "mset (concat (map f xs)) = mset (concat (map g ys))"
  using arg_cong [OF assms(1), of "\<lambda>M. sum_mset (image_mset (\<lambda>x. mset (g x)) M)"] assms(2)
  by (simp add: mset_concat comp_def sum_mset_sum_list [symmetric] multiset.map_comp mset_map)

lemma order_asc_Nil [simp]: "order_asc f xs = [] \<longleftrightarrow> xs = []"
  by (metis length_0_conv set_order_asc(2))

lemma set_item_rows: "j \<in> set (item_rows db m items) \<Longrightarrow>
    fst j = m \<and> (case fst (snd j) of None \<Rightarrow> snd (snd j) = None | Some i \<Rightarrow> i \<in> set items \<and> snd (snd j) = linked_page db i)"
  by (auto simp: item_rows_def split: if_splits)

lemma mset_ordered_rows: "mset (joined_rows db m) = mset (ordered_rows db m)"
  by (simp add: joined_rows_def ordered_rows_def item_rows_def menu_items_def)

lemma sorted_ordered_rows:
  assumes "store_ok mi_id (db_items db)"
  shows "sorted (map join_key (ordered_rows db m))"
proof -
  have "sorted_wrt (\<lambda>a b. mi_position a < mi_position b \<or> mi_position a = mi_position b \<and> mi_id a < mi_id b) (menu_items db m)"
    unfolding menu_items_def by (intro order_asc_ties sorted_select_rows assms)
  then have "sorted (map join_key (map (\<lambda>i. (m, Some i, linked_page db i)) (menu_items db m)))"
    by (auto simp: sorted_wrt_map join_key_def less_eq_prod_def elim!: sorted_wrt_mono_rel [rotated])
  then show ?thesis by (simp add: ordered_rows_def item_rows_def)
qed

lemma sorted_menu_rows:
  assumes "sorted (map mn_name ms)" "distinct (map mn_name ms)" "store_ok mi_id (db_items db)"
  shows "sorted (map join_key (concat (map (ordered_rows db) ms)))"
  using assms(1,2)
proof (induction ms)
  case (Cons m ms)
  have "join_key a \<le> join_key b" if "a \<in> set (ordered_rows db m)" "b \<in> set (concat (map (ordered_rows db) ms))" for a b
  proof -
    from that have "fst a = m" "fst b \<in> set ms" using set_item_rows unfolding ordered_rows_def by fastforce+
    with Cons.prems have "mn_name (fst a) < mn_name (fst b)" by (auto simp: order.strict_iff_order)
    then show ?thesis by (simp add: join_key_def less_eq_prod_def)
  qed
  with Cons sorted_ordered_rows [OF assms(3)] show ?case by (simp add: sorted_append del: set_concat)
qed simp

lemma inj_join_key:
  assumes "distinct (map mn_name ms)" "store_ok mi_id (db_items db)"
  shows "inj_on join_key (set (concat (map (joined_rows db) ms)))"
proof (rule inj_onI)
  fix a b
  assume a: "a \<in> set (concat (map (joined_rows db) ms))" and b: "b \<in> set (concat (map (joined_rows db) ms))" and k: "join_key a = join_key b"
  have mem: "fst x \<in> set ms \<and> (case fst (snd x) of None \<Rightarrow> snd (snd x) = None | Some i \<Rightarrow> i \<in> set (rows (db_items db)) \<and> snd (snd x) = linked_page db i)"
    if x: "x \<in> set (concat (map (joined_rows db) ms))" for x
  proof -
    from x obtain m where "m \<in> set ms" "x \<in> set (joined_rows db m)" by auto
    with set_item_rows [of x db m "select_rows (\<lambda>i. mi_menu i = mn_id m) (db_items db)"] show ?thesis
      by (auto simp: joined_rows_def select_rows_def split: option.splits)
  qed
  have "fst a = fst b" using mem [OF a] mem [OF b] k assms(1) by (auto simp: join_key_def distinct_map dest: inj_onD)
  moreover have "fst (snd a) = fst (snd b)"
    using mem [OF a] mem [OF b] k store_ok_inj [OF assms(2)] by (auto simp: join_key_def split: option.splits)
  ultimately show "a = b" using mem [OF a] mem [OF b] by (auto simp: prod_eq_iff split: option.splits)
qed

lemma menu_query_ordered:
  assumes "distinct (map mn_name (select_rows (menu_in_scope db organization) (db_menus db)))" "store_ok mi_id (db_items db)"
  shows "menu_query db organization =
    concat (map (ordered_rows db) (order_asc mn_name (select_rows (menu_in_scope db organization) (db_menus db))))"
  unfolding menu_query_def order_asc_def [where f = join_key]
proof (rule sort_key_inj_key_eq)
  let ?ms = "select_rows (menu_in_scope db organization) (db_menus db)"
  show "mset (concat (map (joined_rows db) ?ms)) = mset (concat (map (ordered_rows db) (order_asc mn_name ?ms)))"
    by (intro mset_concat_map) (simp_all add: mset_ordered_rows)
  show "inj_on join_key (set (concat (map (joined_rows db) ?ms)))" by (rule inj_join_key [OF assms])
  show "sorted (map join_key (concat (map (ordered_rows db) (order_asc mn_name ?ms))))"
    using assms by (intro sorted_menu_rows) (simp_all add: order_asc_def distinct_map)
qed


lemma entry_index_append:
  assumes "name \<notin> mr_name ` fst ` set ordered"
  shows "entry_index name (ordered @ es) = length ordered + entry_index name es"
proof -
  have "takeWhile (\<lambda>e. mr_name (fst e) \<noteq> name) (ordered @ es) = ordered @ takeWhile (\<lambda>e. mr_name (fst e) \<noteq> name) es"
    using assms by (intro takeWhile_append2) auto
  then show ?thesis by (simp add: entry_index_def)
qed

lemma entry_index_new: "name \<notin> mr_name ` fst ` set ordered \<Longrightarrow> entry_index name ordered = length ordered"
  using entry_index_append [where es = "[]"] by (simp add: entry_index_def)

lemma entry_index_last: "mn_name m \<notin> mr_name ` fst ` set ordered \<Longrightarrow>
    entry_index (mn_name m) (ordered @ [(menu_of_row m, rs)]) = length ordered"
  by (simp add: entry_index_append) (simp add: entry_index_def menu_of_row_def)

lemma resolve_items:
  assumes "mn_name m \<notin> mr_name ` fst ` set ordered"
  shows "foldl (resolve_row now) (ordered @ [(menu_of_row m, rs)]) (map (\<lambda>i. (m, Some i, linked_page db i)) items) =
    ordered @ [(menu_of_row m, rs @ List.map_filter (\<lambda>i. resolve_item now i (linked_page db i)) items)]"
proof (induction items arbitrary: rs)
  case (Cons i items)
  have "resolve_row now (ordered @ [(menu_of_row m, rs)]) (m, Some i, linked_page db i) =
      ordered @ [(menu_of_row m, rs @ (case resolve_item now i (linked_page db i) of None \<Rightarrow> [] | Some r \<Rightarrow> [r]))]"
    by (simp add: resolve_row_def entry_index_last [OF assms] Let_def list_update_append split: option.split)
  with Cons.IH show ?case by (simp add: List.map_filter_def split: option.split)
qed (simp add: List.map_filter_def)

lemma resolve_menu:
  assumes "mn_name m \<notin> mr_name ` fst ` set ordered"
  shows "foldl (resolve_row now) ordered (ordered_rows db m) = ordered @ [navigation_entry db now m]"
proof (cases "menu_items db m")
  case Nil
  then show ?thesis
    by (simp add: ordered_rows_def item_rows_def resolve_row_def entry_index_new [OF assms] navigation_entry_def Let_def
        List.map_filter_def)
next
  case (Cons i items)
  have "resolve_row now ordered (m, Some i, linked_page db i) =
      ordered @ [(menu_of_row m, case resolve_item now i (linked_page db i) of None \<Rightarrow> [] | Some r \<Rightarrow> [r])]"
    by (simp add: resolve_row_def entry_index_new [OF assms] Let_def list_update_append nth_append split: option.split)
  with resolve_items [OF assms] Cons show ?thesis
    by (simp add: ordered_rows_def item_rows_def navigation_entry_def List.map_filter_def split: option.split)
qed

lemma resolve_menus:
  assumes "distinct (map mn_name ms)" "\<forall>m \<in> set ms. mn_name m \<notin> mr_name ` fst ` set ordered"
  shows "foldl (resolve_row now) ordered (concat (map (ordered_rows db) ms)) = ordered @ map (navigation_entry db now) ms"
  using assms
proof (induction ms arbitrary: ordered)
  case (Cons m ms)
  have "foldl (resolve_row now) (ordered @ [navigation_entry db now m]) (concat (map (ordered_rows db) ms)) =
      (ordered @ [navigation_entry db now m]) @ map (navigation_entry db now) ms"
    using Cons.prems by (intro Cons.IH) (auto simp: navigation_entry_def menu_of_row_def image_iff)
  with Cons.prems show ?case by (simp add: resolve_menu)
qed simp

lemma scoped_names_distinct:
  assumes "menus_ok db"
  shows "distinct (map mn_name (select_rows (menu_in_scope db organization) (db_menus db)))"
proof -
  have "distinct (map (\<lambda>r. (mn_organization r, mn_name r)) rs) \<Longrightarrow> distinct (map mn_name (filter (menu_in_scope db organization) rs))" for rs
    by (induction rs) (auto simp: menu_in_scope_def org_scope_def)
  with assms show ?thesis by (simp add: menus_ok_def select_rows_def)
qed

lemma resolve_item_visible:
  assumes "item_ok db i"
  shows "case resolve_item now i (linked_page db i) of
       None \<Rightarrow> \<exists>p \<in> set (rows (db_pages db)). mi_page i = Some (p_id p) \<and> \<not> public_visible now p
     | Some r \<Rightarrow> (\<exists>p \<in> set (rows (db_pages db)). mi_page i = Some (p_id p) \<and> public_visible now p \<and> ri_url r = ''/p/'' @ p_slug p \<and>
           ri_label r = (case mi_label i of Some l \<Rightarrow> l | None \<Rightarrow> p_title p)) \<or>
         mi_page i = None \<and> mi_url i = Some (ri_url r)"
proof (cases "mi_page i")
  case None
  with assms show ?thesis by (auto simp: item_ok_def resolve_item_def split: option.split)
next
  case (Some k)
  with assms obtain p where p: "select_row (\<lambda>r. p_id r = k) (db_pages db) = Some p"
    by (auto simp: item_ok_def refers_def page_exists_def)
  from select_row_Some [OF p] p Some show ?thesis
    by (auto simp: resolve_item_def linked_page_def public_visible_def intro!: bexI [of _ p] split: option.splits)
qed

text \<open>
  The public navigation of an organization is its menus by name, each with its items by position
  (the id decides between equal ones), and nothing else: an item that names a page appears exactly
  while the page is public, as a link to the page's path, under the item's label or else the page's
  title; an item that names a URL appears as it was written. The single pass over the joined rows
  with its table of names computes that, menus without items included.
\<close>

theorem navigation_by_menus:
  assumes "menus_ok db"
  shows "resolved db now organization = Inr (map (navigation_entry db now)
      (order_asc mn_name (select_rows (menu_in_scope db organization) (db_menus db)))) \<and>
    (\<forall>i \<in> set (rows (db_items db)). case resolve_item now i (linked_page db i) of
       None \<Rightarrow> \<exists>p \<in> set (rows (db_pages db)). mi_page i = Some (p_id p) \<and> \<not> public_visible now p
     | Some r \<Rightarrow> (\<exists>p \<in> set (rows (db_pages db)). mi_page i = Some (p_id p) \<and> public_visible now p \<and> ri_url r = ''/p/'' @ p_slug p \<and>
           ri_label r = (case mi_label i of Some l \<Rightarrow> l | None \<Rightarrow> p_title p)) \<or>
         mi_page i = None \<and> mi_url i = Some (ri_url r))"
proof
  let ?ms = "select_rows (menu_in_scope db organization) (db_menus db)"
  have "menu_query db organization = concat (map (ordered_rows db) (order_asc mn_name ?ms))"
    using assms scoped_names_distinct [OF assms] by (intro menu_query_ordered) (simp_all add: menus_ok_def)
  moreover have "distinct (map mn_name (order_asc mn_name ?ms))"
    using scoped_names_distinct [OF assms] by (simp add: distinct_map order_asc_def)
  ultimately show "resolved db now organization = Inr (map (navigation_entry db now) (order_asc mn_name ?ms))"
    by (simp add: resolved_def resolve_menus)
qed (use assms resolve_item_visible in \<open>auto simp: menus_ok_def\<close>)

section \<open>Every operation keeps the invariant\<close>

datatype menu_op =
    Create_Menu int string new_menu | Rename_Menu int string int string | Delete_Menu string int
  | Add_Item new_menu_item | Update_Item string int new_menu_item | Delete_Item string int | On_Pages page_op

fun menu_step :: "nat \<Rightarrow> db \<Rightarrow> menu_op \<Rightarrow> db" where
  "menu_step cap db (Create_Menu now organization m) = snd (create_menu db now organization m)"
| "menu_step cap db (Rename_Menu now organization i title) = snd (update_title db now organization i title)"
| "menu_step cap db (Delete_Menu organization i) = snd (delete_menu db organization i)"
| "menu_step cap db (Add_Item n) = snd (add_item db n)"
| "menu_step cap db (Update_Item organization i n) = snd (update_item db organization i n)"
| "menu_step cap db (Delete_Item organization i) = snd (delete_item db organization i)"
| "menu_step cap db (On_Pages op) = page_step cap db op"

lemma item_constraints_None: "item_constraints db n = None \<longleftrightarrow> item_ok db (new_item_row n i)"
  by (auto simp: item_constraints_def item_ok_def new_item_row_def)

lemma with_menus_exists [simp]:
  "menu_exists (db\<lparr>db_items := is\<rparr>) = menu_exists db" "page_exists (db\<lparr>db_items := is\<rparr>) = page_exists db"
  "page_exists (db\<lparr>db_menus := ms\<rparr>) = page_exists db"
  by (simp_all add: menu_exists_def page_exists_def fun_eq_iff)

lemma create_menu_ok:
  assumes "menus_ok db"
  shows "menus_ok (snd (create_menu db now organization m))"
proof (cases "org_id db organization")
  case (Some owner)
  have "store_ok mn_id (snd (insert_row (new_menu_row m owner now) (db_menus db)))"
    using assms by (intro store_ok_insert) (simp_all add: menus_ok_def new_menu_row_def)
  with assms Some show ?thesis
    by (auto simp: create_menu_def menus_ok_def item_ok_def menu_exists_iff new_menu_row_def split_beta)
qed (simp add: create_menu_def assms)

lemma update_title_ok: "menus_ok db \<Longrightarrow> menus_ok (snd (update_title db now organization i title))"
proof -
  assume ok: "menus_ok db"
  let ?f = "\<lambda>r :: menu_row. r\<lparr>mn_title := title, mn_updated_at := now\<rparr>"
  have k: "map g (rows (update_rows p ?f (db_menus db))) = map g (rows (db_menus db))" if "\<And>r. g (?f r) = g r" for g :: "menu_row \<Rightarrow> 'a" and p
    using that by simp
  show ?thesis
    using ok k [of mn_id] k [of "\<lambda>r. (mn_organization r, mn_name r)"]
    by (simp add: update_title_def Let_def menus_ok_def item_ok_def menu_exists_iff page_exists_def store_ok_update
        flip: set_map del: rows_update)
qed

lemma delete_menu_ok: "menus_ok db \<Longrightarrow> menus_ok (snd (delete_menu db organization i))"
  by (auto simp: delete_menu_def Let_def menus_ok_def item_ok_def menu_exists_iff page_exists_def store_ok_delete
      intro!: distinct_map_filter)

lemma item_ok_items [simp]: "item_ok (db\<lparr>db_items := s\<rparr>) = item_ok db"
  by (simp add: item_ok_def fun_eq_iff)

lemma add_item_ok: "menus_ok db \<Longrightarrow> menus_ok (snd (add_item db n))"
  using item_constraints_None [of db n "last_id (db_items db) + 1"]
  by (auto simp: add_item_def split_beta menus_ok_def new_item_row_def intro!: store_ok_insert split: option.split)

lemma update_item_ok: "menus_ok db \<Longrightarrow> menus_ok (snd (update_item db organization i n))"
proof -
  assume ok: "menus_ok db"
  let ?f = "\<lambda>r. r\<lparr>mi_menu := ni_menu n, mi_position := ni_position n, mi_label := ni_label n, mi_page := ni_page n, mi_url := ni_url n\<rparr>"
  have "item_ok db (?f r)" if "item_constraints db n = None" for r
    using item_constraints_None [of db n 0] that by (simp add: item_ok_def new_item_row_def)
  with ok show ?thesis
    by (auto simp: update_item_def Let_def menus_ok_def intro!: store_ok_update elim!: update_rowsE simp del: rows_update split: option.split)
qed

lemma delete_item_ok: "menus_ok db \<Longrightarrow> menus_ok (snd (delete_item db organization i))"
  by (simp add: delete_item_def Let_def menus_ok_def store_ok_delete)

text \<open>The pages beneath: a page that goes takes the items that link it along.\<close>

lemma menus_ok_pages:
  assumes "menus_ok db" "db_menus db' = db_menus db" "db_items db' = delete_rows p (db_items db)"
    "\<And>i k. i \<in> set (rows (db_items db)) \<Longrightarrow> \<not> p i \<Longrightarrow> mi_page i = Some k \<Longrightarrow> page_exists db k \<Longrightarrow> page_exists db' k"
  shows "menus_ok db'"
  using assms by (auto simp: menus_ok_def item_ok_def menu_exists_def refers_def store_ok_delete split: option.splits)

lemma delete_none [simp]: "delete_rows (\<lambda>_. False) s = s"
  by (simp add: delete_rows_id)

lemma page_exists_ids:
  "map p_id (rows (db_pages d)) = map p_id (rows (db_pages db)) \<Longrightarrow> page_exists d k \<longleftrightarrow> page_exists db k"
  unfolding page_exists_iff set_map [symmetric] by simp

lemma page_step_menus: "menus_ok db \<Longrightarrow> menus_ok (page_step cap db op)"
proof (cases op)
  case (Create_Page now organization np)
  assume ok: "menus_ok db"
  obtain r db' where c: "create_page cap db now organization np = (r, db')" by force
  from c have "menus_ok db'"
  proof (cases rule: create_page_cases)
    case (created owner db1)
    note f = record_save_frame(2) [OF created(6)] record_save_pages [OF created(6)]
    show ?thesis
    proof (rule menus_ok_pages [where p = "\<lambda>_. False", OF ok])
      show "db_menus db' = db_menus db" "db_items db' = delete_rows (\<lambda>_. False) (db_items db)"
        by (subst f(1), simp add: created(3))+
    qed (simp add: page_exists_iff f(2) created(3))
  qed (simp add: ok)
  with c Create_Page show ?thesis by simp
next
  case (Update_Page now organization i u)
  assume ok: "menus_ok db"
  obtain r db' where c: "update_page cap db now organization i u = (r, db')" by force
  from c have "menus_ok db'"
  proof (cases rule: update_page_cases)
    case (updated p db1)
    note f = record_save_frame(2) [OF updated(5)] record_save_pages [OF updated(5)]
    have "map p_id (rows (db_pages db')) = map p_id (rows (db_pages db))" by (simp add: f(2) updated(3) updated_row_def)
    then have ex: "page_exists db' k \<longleftrightarrow> page_exists db k" for k by (rule page_exists_ids)
    show ?thesis
    proof (rule menus_ok_pages [where p = "\<lambda>_. False", OF ok])
      show "db_menus db' = db_menus db" "db_items db' = delete_rows (\<lambda>_. False) (db_items db)"
        by (subst f(1), simp add: updated(3))+
    qed (simp add: ex)
  qed (simp add: ok)
  with c Update_Page show ?thesis by simp
next
  case (Delete_Page organization i)
  assume ok: "menus_ok db"
  have ids: "page_exists (cascade_page d i) k \<longleftrightarrow> page_exists d k" for d k
  proof -
    have "map p_id (rows (db_pages (cascade_page d i))) = map p_id (rows (db_pages d))" by (simp add: cascade_page_def)
    then show ?thesis by (rule page_exists_ids)
  qed
  show ?thesis
  proof (cases "count_rows (\<lambda>r. p_id r = i \<and> in_scope db organization r) (db_pages db) = 0")
    case False
    with Delete_Page show ?thesis
      by (intro menus_ok_pages [where p = "\<lambda>m. mi_page m = Some i", OF ok])
        (auto simp: delete_page_def Let_def ids, auto simp: cascade_page_def page_exists_iff)
  qed (use ok Delete_Page in \<open>simp add: delete_page_def Let_def\<close>)
next
  case (Drop_Editor i)
  assume ok: "menus_ok db"
  have "map p_id (rows (db_pages (snd (delete_user db i)))) = map p_id (rows (db_pages db))"
    by (simp add: delete_user_def cascade_user_def)
  then have "page_exists (snd (delete_user db i)) k \<longleftrightarrow> page_exists db k" for k by (rule page_exists_ids)
  with Drop_Editor show ?thesis
    by (intro menus_ok_pages [where p = "\<lambda>_. False", OF ok]) (simp_all add: delete_user_def cascade_user_def)
qed

lemma menu_step_ok: "menus_ok db \<Longrightarrow> menus_ok (menu_step cap db op)"
  by (cases op) (simp_all add: create_menu_ok update_title_ok delete_menu_ok add_item_ok update_item_ok delete_item_ok page_step_menus)

text \<open>
  The menus stay consistent: after any sequence of operations on menus, items, pages and accounts,
  whether they succeed or not, menu names are unique in their organization, every item has exactly one
  destination, and the menu it stands in and the page it links exist.
\<close>

theorem menus_invariant: "menus_ok db \<Longrightarrow> menus_ok (foldl (menu_step cap) db ops)"
  by (induction ops arbitrary: db) (simp_all add: menu_step_ok)

section \<open>A menu\<close>

definition menu_of :: "string \<Rightarrow> int \<Rightarrow> int \<Rightarrow> menu_row" where
  "menu_of name owner i = new_menu_row \<lparr>nm_name = name, nm_title = name\<rparr> owner 5 i"

definition page_item :: "int \<Rightarrow> int \<Rightarrow> new_menu_item" where
  "page_item menu page = \<lparr>ni_menu = menu, ni_position = 1, ni_label = None, ni_page = Some page, ni_url = None\<rparr>"

definition url_item :: "int \<Rightarrow> new_menu_item" where
  "url_item menu = \<lparr>ni_menu = menu, ni_position = 0, ni_label = Some ''Home'', ni_page = None, ni_url = Some ''/''\<rparr>"

text \<open>A menu of each organization; the first one's links a page and a URL.\<close>

definition menu_site :: db where
  "menu_site = two_pages\<lparr>db_menus := \<lparr>last_id = 2, rows = [menu_of ''main'' 1 1, menu_of ''main'' 2 2]\<rparr>,
     db_items := \<lparr>last_id = 2, rows = [new_item_row (page_item 1 1) 1, new_item_row (url_item 1) 2]\<rparr>\<rparr>"

lemmas menu_site_defs = menu_site_def two_pages_def site_def empty_db_def menu_of_def page_item_def url_item_def
  new_menu_row_def new_item_row_def new_page_row_def plain_page_def

lemma menu_site_ok: "menus_ok menu_site"
  by (simp add: menus_ok_def store_ok_def item_ok_def refers_def page_exists_iff menu_exists_iff menu_site_defs)

lemma navigation_by_menus_witness:
  "resolved menu_site 9 ''cms'' = Inr [(menu_of_row (menu_of ''main'' 1 1),
     [\<lparr>ri_position = 0, ri_label = ''Home'', ri_url = ''/''\<rparr>, \<lparr>ri_position = 1, ri_label = ''a'', ri_url = ''/p/a''\<rparr>])]"
  using navigation_by_menus [OF menu_site_ok, of 9 "''cms''"]
  by (simp add: order_asc_def select_rows_def menu_in_scope_def org_scope_def org_id_def select_row_def navigation_entry_def
      menu_items_def resolve_item_def linked_page_def List.map_filter_def menu_site_defs)

lemma menus_invariant_witness:
  "menus_ok (foldl (menu_step 2) menu_site [Add_Item (page_item 2 2), Delete_Menu ''acme'' 2, On_Pages (Delete_Page ''cms'' 1)])"
  by (rule menus_invariant [OF menu_site_ok])

end
