(* ===== verification/Panel_Menus.thy ===== *)
theory Panel_Menus
  imports Panel_Pages Menus Tenancy
begin

text \<open>
  \<open>src/src/routes/cms.rs\<close>, the menus in the panel: the listing, creation, the detail with the
  rename, and the items with their forms. Each handler is what runs behind the editor's guard.
\<close>

section \<open>Forms\<close>

record menu_form =
  mf_name :: string
  mf_title :: string

record item_form =
  if_label :: "string option"
  if_page_id :: "string option"
  if_url :: "string option"
  if_position :: "string option"

definition empty_item_form :: item_form where
  "empty_item_form = \<lparr>if_label = None, if_page_id = None, if_url = None, if_position = None\<rparr>"

definition item_form_page :: "item_form \<Rightarrow> int option" where
  "item_form_page f = Option.bind (trimmed (if_page_id f)) parse_i64"

definition item_form_url :: "item_form \<Rightarrow> string option" where
  "item_form_url f = trimmed (if_url f)"

definition item_form_label :: "item_form \<Rightarrow> string option" where
  "item_form_label f = trimmed (if_label f)"

definition item_form_position :: "item_form \<Rightarrow> int" where
  "item_form_position f = position_or_zero (if_position f)"

definition load_menu :: "db \<Rightarrow> string \<Rightarrow> int \<Rightarrow> menu_record option" where
  "load_menu db organization i = (case find_menu db organization i of Inr m \<Rightarrow> m | Inl _ \<Rightarrow> None)"

definition load_menu_item :: "db \<Rightarrow> string \<Rightarrow> int \<Rightarrow> int \<Rightarrow> menu_item_record option" where
  "load_menu_item db organization menu i =
     (case find_item db organization i of
        Inr (Some item) \<Rightarrow> if mi_menu item = menu then Some item else None
      | _ \<Rightarrow> None)"

definition item_url_ok :: "string \<Rightarrow> bool" where
  "item_url_ok u \<longleftrightarrow> starts_with ''/'' u \<or> starts_with ''http://'' u \<or> starts_with ''https://'' u \<or> starts_with ''#'' u"

definition validate_item_form :: "db \<Rightarrow> string \<Rightarrow> item_form \<Rightarrow> (string, unit) result" where
  "validate_item_form db organization f =
     and_then (parse_position (if_position f)) (\<lambda>_.
     and_then (check (case item_form_label f of Some l \<Rightarrow> length l \<le> max_menu_label | None \<Rightarrow> True)
       ''The label is too long (200 characters at most).'') (\<lambda>_.
     case (item_form_page f, item_form_url f) of
       (Some _, Some _) \<Rightarrow> Inl (''Pick a page or write a URL '' @ em_dash @ '' not both.'')
     | (None, None) \<Rightarrow> Inl ''The item needs a destination: a page or a URL.''
     | (Some i, None) \<Rightarrow> check (load_page db organization i \<noteq> None) ''The chosen page does not exist.''
     | (None, Some u) \<Rightarrow>
         and_then (check (length u \<le> max_url_field) ''The URL is too long (500 characters at most).'') (\<lambda>_.
         and_then (check (item_url_ok u) ''The URL must start with /, http://, https:// or #.'') (\<lambda>_.
         check (item_form_label f \<noteq> None) ''Custom links need a label.''))))"

section \<open>Views\<close>

definition render_menus_view :: "panel \<Rightarrow> db \<Rightarrow> string \<Rightarrow> string option \<Rightarrow> reply" where
  "render_menus_view pn db organization e =
     (if pn_cms pn = None then no_cms
      else (case list_menus db organization of
         Inl _ \<Rightarrow> storage_failure
       | Inr menus \<Rightarrow>
           render_view ''admin/menus.jhs''
             [(''admin_menus'', J_Arr (map (\<lambda>m. J_Obj [(''id'', J_Int (mr_id m)), (''name'', J_Str (mr_name m)),
                 (''title'', J_Str (mr_title m)),
                 (''items'', J_Int (case count_items db (mr_id m) of Inr n \<Rightarrow> n | Inl _ \<Rightarrow> 0)),
                 (''updated_at_h'', J_Str (format_timestamp (mr_updated_at m)))]) menus)),
              (''form_error'', form_error e)]))"

definition menu_json :: "menu_record \<Rightarrow> json" where
  "menu_json m = J_Obj [(''id'', J_Int (mr_id m)), (''name'', J_Str (mr_name m)), (''title'', J_Str (mr_title m))]"

definition item_href :: "menu_item_with_page \<Rightarrow> string" where
  "item_href e =
     (case (ip_page e, mi_url (ip_item e)) of
        (Some p, _) \<Rightarrow> ''/p/'' @ mp_slug p
      | (None, Some u) \<Rightarrow> u
      | (None, None) \<Rightarrow> [])"

definition item_json :: "menu_item_with_page \<Rightarrow> json" where
  "item_json e =
     J_Obj [(''id'', J_Int (mi_id (ip_item e))), (''position'', J_Int (mi_position (ip_item e))),
       (''label'', j_opt J_Str (mi_label (ip_item e))),
       (''page'', j_opt (\<lambda>p. J_Obj [(''slug'', J_Str (mp_slug p)), (''title'', J_Str (mp_title p)),
          (''is_published'', J_Bool (mp_is_published p))]) (ip_page e)),
       (''url'', j_opt J_Str (mi_url (ip_item e))), (''is_page'', J_Bool (mi_page (ip_item e) \<noteq> None)),
       (''href'', J_Str (item_href e))]"

definition render_menu_detail :: "panel \<Rightarrow> db \<Rightarrow> string \<Rightarrow> int \<Rightarrow> string option \<Rightarrow> reply" where
  "render_menu_detail pn db organization i e =
     (if pn_cms pn = None then no_cms
      else (case load_menu db organization i of
         None \<Rightarrow> See_Other ''/admin/menus''
       | Some m \<Rightarrow>
           (case items_with_pages db i of
              Inl _ \<Rightarrow> storage_failure
            | Inr items \<Rightarrow>
                render_view ''admin/menu_detail.jhs''
                  [(''menu'', menu_json m), (''items'', J_Arr (map item_json items)), (''form_error'', form_error e)])))"

definition render_item_form_view :: "panel \<Rightarrow> db \<Rightarrow> int \<Rightarrow> string \<Rightarrow> int \<Rightarrow> item_form \<Rightarrow> int option \<Rightarrow> string option \<Rightarrow> reply" where
  "render_item_form_view pn db now organization menu f i e =
     (if pn_cms pn = None then no_cms
      else (case load_menu db organization menu of
         None \<Rightarrow> See_Other ''/admin/menus''
       | Some m \<Rightarrow>
           render_view ''admin/menu_item_form.jhs''
             [(''menu'', menu_json m),
              (''form'', J_Obj [(''menu_id'', J_Int menu), (''item_id'', j_opt J_Int i), (''is_new'', J_Bool (i = None)),
                 (''label'', text_or_empty (if_label f)), (''page_id'', j_opt J_Int (item_form_page f)),
                 (''url'', text_or_empty (if_url f)), (''position'', J_Int (item_form_position f))]),
              (''page_options'', J_Arr (case list_pages db now organization True max_listed of
                 Inl _ \<Rightarrow> []
               | Inr pages \<Rightarrow> map (\<lambda>p. J_Obj [(''id'', J_Int (ps_id p)), (''title'', J_Str (ps_title p)),
                    (''is_published'', J_Bool (ps_is_published p))]) pages)),
              (''form_error'', form_error e)]))"

section \<open>Menus\<close>

definition list_menus_route :: "panel \<Rightarrow> member \<Rightarrow> db \<Rightarrow> reply \<times> db" where
  "list_menus_route pn m db = (render_menus_view pn db (mb_organization m) None, db)"

definition menu_title_check :: "string \<Rightarrow> (string, unit) result" where
  "menu_title_check title =
     and_then (check (trim title \<noteq> []) ''The menu title cannot be empty.'') (\<lambda>_.
     check (length title \<le> max_title) ''The menu title is too long (200 characters at most).'')"

definition create_menu_route :: "panel \<Rightarrow> request \<Rightarrow> (string, menu_form) result \<Rightarrow> member \<Rightarrow> db \<Rightarrow> reply \<times> db" where
  "create_menu_route pn rq input m db = with_cms pn db (\<lambda>_.
     let organization = mb_organization m;
         reject = (\<lambda>d message. (render_menus_view pn d organization (Some message), d)) in
     case input of
       Inl message \<Rightarrow> reject db message
     | Inr f \<Rightarrow>
         (case and_then (menu_title_check (mf_title f)) (\<lambda>_. check (valid_slug (mf_name f))
             ''The menu name must be 1-64 characters: lowercase, digits and hyphens (it is the key templates read: menus.<name>).'') of
            Inl message \<Rightarrow> reject db message
          | Inr _ \<Rightarrow>
              (case create_menu db (rq_now rq) organization \<lparr>nm_name = mf_name f, nm_title = trim (mf_title f)\<rparr> of
                 (Inr menu, d) \<Rightarrow> (See_Other (''/admin/menus/'' @ show_int (mr_id menu) @ ''?ok=created''), d)
               | (Inl Duplicate, d) \<Rightarrow> reject d ''That menu name already exists: it is the key the templates read (menus.<name>).''
               | (Inl (Internal _), d) \<Rightarrow> reject d internal_message)))"

definition menu_detail_route :: "panel \<Rightarrow> int \<Rightarrow> member \<Rightarrow> db \<Rightarrow> reply \<times> db" where
  "menu_detail_route pn i m db = (render_menu_detail pn db (mb_organization m) i None, db)"

definition rename_menu_route :: "panel \<Rightarrow> request \<Rightarrow> int \<Rightarrow> (string, string) result \<Rightarrow> member \<Rightarrow> db \<Rightarrow> reply \<times> db" where
  "rename_menu_route pn rq i input m db = with_cms pn db (\<lambda>_.
     let organization = mb_organization m;
         reject = (\<lambda>d message. (render_menu_detail pn d organization i (Some message), d)) in
     case input of
       Inl message \<Rightarrow> reject db message
     | Inr title \<Rightarrow>
         (case menu_title_check title of
            Inl message \<Rightarrow> reject db message
          | Inr _ \<Rightarrow>
              (case update_title db (rq_now rq) organization i (trim title) of
                 (Inr (Some _), d) \<Rightarrow> (See_Other (''/admin/menus/'' @ show_int i @ ''?ok=saved''), d)
               | (Inr None, d) \<Rightarrow> (See_Other ''/admin/menus'', d)
               | (Inl _, d) \<Rightarrow> reject d internal_message)))"

definition delete_menu_route :: "panel \<Rightarrow> int \<Rightarrow> member \<Rightarrow> db \<Rightarrow> reply \<times> db" where
  "delete_menu_route pn i m db = with_cms pn db (\<lambda>_.
     case delete_menu db (mb_organization m) i of
       (Inr _, d) \<Rightarrow> (See_Other ''/admin/menus?ok=deleted'', d)
     | (Inl _, d) \<Rightarrow> (storage_failure, d))"

section \<open>Items\<close>

definition item_of_form :: "int \<Rightarrow> item_form \<Rightarrow> new_menu_item" where
  "item_of_form menu f = \<lparr>ni_menu = menu, ni_position = item_form_position f, ni_label = item_form_label f,
     ni_page = item_form_page f, ni_url = item_form_url f\<rparr>"

definition menu_path :: "int \<Rightarrow> string \<Rightarrow> string" where
  "menu_path i suffix = ''/admin/menus/'' @ show_int i @ suffix"

definition new_item_form_route :: "panel \<Rightarrow> request \<Rightarrow> int \<Rightarrow> member \<Rightarrow> db \<Rightarrow> reply \<times> db" where
  "new_item_form_route pn rq menu m db =
     (render_item_form_view pn db (rq_now rq) (mb_organization m) menu empty_item_form None None, db)"

definition create_item_route :: "panel \<Rightarrow> request \<Rightarrow> int \<Rightarrow> (string, item_form) result \<Rightarrow> member \<Rightarrow> db \<Rightarrow> reply \<times> db" where
  "create_item_route pn rq menu input m db = with_cms pn db (\<lambda>_.
     let organization = mb_organization m;
         reject = (\<lambda>d f message. (render_item_form_view pn d (rq_now rq) organization menu f None (Some message), d)) in
     if load_menu db organization menu = None then (See_Other ''/admin/menus'', db)
     else (case input of
         Inl message \<Rightarrow> reject db empty_item_form message
       | Inr f \<Rightarrow>
           (case validate_item_form db organization f of
              Inl message \<Rightarrow> reject db f message
            | Inr _ \<Rightarrow>
                (case add_item db (item_of_form menu f) of
                   (Inr _, d) \<Rightarrow> (See_Other (menu_path menu ''?ok=item-created''), d)
                 | (Inl _, d) \<Rightarrow> reject d f internal_message))))"

definition edit_item_form_route :: "panel \<Rightarrow> request \<Rightarrow> int \<Rightarrow> int \<Rightarrow> member \<Rightarrow> db \<Rightarrow> reply \<times> db" where
  "edit_item_form_route pn rq menu i m db = with_cms pn db (\<lambda>_.
     case load_menu_item db (mb_organization m) menu i of
       None \<Rightarrow> (See_Other (menu_path menu []), db)
     | Some item \<Rightarrow>
         (render_item_form_view pn db (rq_now rq) (mb_organization m) menu
            \<lparr>if_label = mi_label item, if_page_id = map_option show_int (mi_page item), if_url = mi_url item,
             if_position = Some (show_int (mi_position item))\<rparr> (Some i) None, db))"

definition update_item_route :: "panel \<Rightarrow> request \<Rightarrow> int \<Rightarrow> int \<Rightarrow> (string, item_form) result \<Rightarrow> member \<Rightarrow> db \<Rightarrow> reply \<times> db" where
  "update_item_route pn rq menu i input m db = with_cms pn db (\<lambda>_.
     let organization = mb_organization m;
         reject = (\<lambda>d f message. (render_item_form_view pn d (rq_now rq) organization menu f (Some i) (Some message), d)) in
     case input of
       Inl message \<Rightarrow> reject db empty_item_form message
     | Inr f \<Rightarrow>
         if (case find_item db organization i of Inr item \<Rightarrow> item = None | Inl _ \<Rightarrow> True)
         then (See_Other (menu_path menu []), db)
         else (case validate_item_form db organization f of
            Inl message \<Rightarrow> reject db f message
          | Inr _ \<Rightarrow>
              (case update_item db organization i (item_of_form menu f) of
                 (Inr (Some _), d) \<Rightarrow> (See_Other (menu_path menu ''?ok=item-saved''), d)
               | (Inr None, d) \<Rightarrow> (See_Other (menu_path menu []), d)
               | (Inl _, d) \<Rightarrow> reject d f internal_message)))"

definition delete_item_route :: "panel \<Rightarrow> int \<Rightarrow> int \<Rightarrow> member \<Rightarrow> db \<Rightarrow> reply \<times> db" where
  "delete_item_route pn menu i m db = with_cms pn db (\<lambda>_.
     let done_reply = See_Other (menu_path menu ''?ok=item-deleted'') in
     case load_menu_item db (mb_organization m) menu i of
       None \<Rightarrow> (done_reply, db)
     | Some _ \<Rightarrow>
         (case delete_item db (mb_organization m) i of
            (Inr _, d) \<Rightarrow> (done_reply, d)
          | (Inl _, d) \<Rightarrow> (storage_failure, d)))"

end
