(* ===== verification/Page_Tree.thy ===== *)
theory Page_Tree
  imports Panel_Pages
begin

text \<open>
  What the panel's handlers for pages keep of the pages of an organization: the tree stays a tree,
  and a restore brings content back without publishing anything. Both are lemmas about the
  repository's update, carried to the handlers that call it.
\<close>

section \<open>Lookups after a write\<close>

lemma in_scope_organizations: "db_organizations d = db_organizations db \<Longrightarrow> in_scope d organization = in_scope db organization"
  by (simp add: in_scope_def org_scope_def org_id_def fun_eq_iff)

lemma scoped_page_cong:
  "db_organizations d = db_organizations db \<Longrightarrow> db_pages d = db_pages db \<Longrightarrow> scoped_page d organization i = scoped_page db organization i"
  using in_scope_organizations [of d db organization] by (simp add: scoped_page_def)

lemma find_map_same: "(\<And>x. P (f x) = P x) \<Longrightarrow> find P (map f xs) = map_option f (find P xs)"
  by (induction xs) auto

lemma find_map_other:
  "(\<And>r. P (f r) \<longleftrightarrow> P r) \<Longrightarrow> (\<And>r. P r \<Longrightarrow> \<not> t r) \<Longrightarrow> find P (map (\<lambda>r. if t r then f r else r) xs) = find P xs"
  by (induction xs) auto

lemma scoped_page_updated:
  assumes "db_organizations d = db_organizations db"
    "db_pages d = update_rows (\<lambda>r. p_id r = i \<and> in_scope db organization r) (updated_row u now) (db_pages db)"
  shows "scoped_page d organization j = map_option (\<lambda>r. if j = i then updated_row u now r else r) (scoped_page db organization j)"
proof -
  let ?f = "\<lambda>r. if p_id r = i \<and> in_scope db organization r then updated_row u now r else r"
  have "scoped_page d organization j = map_option ?f (scoped_page db organization j)"
    unfolding scoped_page_def select_row_def in_scope_organizations [OF assms(1)] assms(2) rows_update
    by (rule find_map_same) (simp add: updated_row_def in_scope_def)
  moreover have "map_option ?f (scoped_page db organization j) =
      map_option (\<lambda>r. if j = i then updated_row u now r else r) (scoped_page db organization j)"
    by (cases "scoped_page db organization j") (auto simp: scoped_page_def dest!: select_row_Some)
  ultimately show ?thesis by simp
qed

lemma record_save_same:
  assumes "record_save cap old db now i s e = (Inr (), d)"
  shows "db_pages d = db_pages db" "db_organizations d = db_organizations db"
  by (subst record_save_frame(2) [OF assms], simp)+

section \<open>The tree stays a tree\<close>

text \<open>Every page of the organization has its chain of parents, shorter than \<open>n\<close>.\<close>

definition tree_below :: "nat \<Rightarrow> db \<Rightarrow> string \<Rightarrow> bool" where
  "tree_below n db organization \<longleftrightarrow>
     (\<forall>j. scoped_page db organization j \<noteq> None \<longrightarrow> (\<exists>qs. upward db organization j qs \<and> length qs < n))"

definition rooted :: "db \<Rightarrow> string \<Rightarrow> bool" where
  "rooted db organization \<longleftrightarrow> (\<forall>j. scoped_page db organization j \<noteq> None \<longrightarrow> (\<exists>qs. upward db organization j qs))"

lemma tree_below_rooted: "tree_below n db organization \<Longrightarrow> rooted db organization"
  by (auto simp: tree_below_def rooted_def)

lemma upward_page: "upward db organization i qs \<Longrightarrow> \<exists>p. scoped_page db organization i = Some p"
  by (cases rule: upward.cases) auto

text \<open>A chain that avoids the changed page is kept.\<close>

lemma upward_kept:
  assumes "upward db organization j qs" "i \<notin> set (j # map p_id qs)"
    "\<And>k. k \<noteq> i \<Longrightarrow> scoped_page d organization k = scoped_page db organization k"
  shows "upward d organization j qs"
  using assms(1,2)
proof (induction rule: upward.induct)
  case (root j p)
  then show ?case using assms(3) [of j] by (intro upward.root [of d organization j p]) auto
next
  case (up j p k q qs)
  have "p_id q = k" by (rule scoped_page_id [OF up.hyps(3)])
  with up assms(3) [of j] assms(3) [of k] show ?case by (intro upward.up [of d organization j p k q]) auto
qed

lemma load_page_scoped: "load_page db organization i = map_option page_of_row (scoped_page db organization i)"
  by (simp add: load_page_def find_page_by_id_def scoped_page_def)

lemma fine_parent_chain:
  assumes "tree_below 128 db organization" "judge_parent db organization i (Some k) = Parent_Fine"
  obtains q qs where "scoped_page db organization k = Some q" "upward db organization k qs" "i \<notin> set (k # map p_id qs)"
proof -
  from assms(2) have k: "k \<noteq> i" "scoped_page db organization k \<noteq> None"
    by (auto simp: judge_parent_def load_page_scoped split: if_splits)
  with assms(1) obtain qs where qs: "upward db organization k qs" "length qs < 128" by (auto simp: tree_below_def)
  with assms(2) k have "i \<notin> set (map p_id qs)"
    by (auto simp: judge_parent_def load_page_scoped ancestors_upward list_ex_iff summary_of_row_def split: if_splits)
  with k qs that show ?thesis by auto
qed

text \<open>The page \<open>i\<close> with its new parent, and every other page as before.\<close>

lemma rooted_move:
  assumes "rooted db organization" "\<And>k. k \<noteq> i \<Longrightarrow> scoped_page d organization k = scoped_page db organization k"
    "\<And>p. scoped_page d organization i = Some p \<Longrightarrow> p_parent p = parent"
    "\<And>k. parent = Some k \<Longrightarrow> \<exists>q qs. scoped_page db organization k = Some q \<and> upward db organization k qs \<and> i \<notin> set (k # map p_id qs)"
    "scoped_page db organization i \<noteq> None \<Longrightarrow> scoped_page d organization i \<noteq> None"
  shows "rooted d organization"
  unfolding rooted_def
proof (intro allI impI)
  have here: "\<exists>qs. upward d organization i qs" if p: "scoped_page d organization i = Some p" for p
  proof (cases parent)
    case None
    with p assms(3) [OF p] show ?thesis by (auto intro: upward.root)
  next
    case (Some k)
    from assms(4) [OF Some] obtain q qs where q: "scoped_page db organization k = Some q" "upward db organization k qs" "i \<notin> set (k # map p_id qs)"
      by blast
    then have "upward d organization k qs" using assms(2) by (intro upward_kept [OF q(2,3)])
    moreover have "scoped_page d organization k = Some q" using q assms(2) by auto
    ultimately show ?thesis using p assms(3) [OF p] Some by (auto intro: upward.up)
  qed
  have "\<exists>rs. upward d organization j rs" if "upward db organization j qs" "scoped_page d organization j \<noteq> None" for j qs
    using that
  proof (induction rule: upward.induct)
    case (root j p)
    show ?case
    proof (cases "j = i")
      case False
      with root assms(2) [of j] have "upward d organization j []" by (intro upward.root [of d organization j p]) auto
      then show ?thesis by blast
    qed (use here root in auto)
  next
    case (up j p k q qs)
    show ?case
    proof (cases "j = i")
      case False
      have "scoped_page d organization k \<noteq> None \<Longrightarrow> ?thesis"
        using up.IH up.hyps False assms(2) [of j] upward.up [of d organization j p k] by auto
      moreover have "scoped_page d organization k \<noteq> None" using up.hyps(3) assms(2,5) by (cases "k = i") auto
      ultimately show ?thesis by blast
    qed (use here up in auto)
  qed
  moreover fix j assume j: "scoped_page d organization j \<noteq> None"
  moreover have "\<exists>qs. upward db organization j qs" if "j \<noteq> i"
    using assms(1,2) that j by (auto simp: rooted_def)
  ultimately show "\<exists>qs. upward d organization j qs" using here by blast
qed


lemma create_page_rooted:
  assumes "pages_ok db" "rooted db organization" "create_page cap db now organization np = (r, d)"
    "np_parent np = None \<or> (\<exists>k. np_parent np = Some k \<and> load_page db organization k \<noteq> None)"
  shows "rooted d organization"
  using assms(3)
proof (cases rule: create_page_cases)
  case (created owner db1)
  let ?i = "last_id (db_pages db) + 1"
  note same = record_save_same [OF created(6)]
  have fresh: "p_id q \<noteq> ?i" if "q \<in> set (rows (db_pages db))" for q
    using assms(1) that store_ok_fresh [of p_id "db_pages db" q] by (simp add: pages_ok_def)
  have org: "db_organizations d = db_organizations db" using same(2) created(3) by simp
  have scoped: "scoped_page d organization k =
      (case scoped_page db organization k of Some p \<Rightarrow> Some p | None \<Rightarrow> if k = ?i then Some (new_page_row np owner now ?i) else None)" for k
  proof -
    have "find P (xs @ [x]) = (case find P xs of Some y \<Rightarrow> Some y | None \<Rightarrow> if P x then Some x else None)"
      for P :: "page_row \<Rightarrow> bool" and xs x by (induction xs) auto
    moreover have "in_scope db organization (new_page_row np owner now ?i)"
      using created(1) by (simp add: in_scope_def org_scope_def new_page_row_def)
    ultimately show ?thesis
      unfolding scoped_page_def select_row_def in_scope_organizations [OF org] same(1)
      by (auto simp: created(3) new_page_row_def split: option.splits)
  qed
  have none: "scoped_page db organization ?i = None"
    unfolding scoped_page_def select_row_None using fresh by auto
  show ?thesis
  proof (rule rooted_move [OF assms(2), where i = ?i and parent = "np_parent np"])
    show "scoped_page d organization k = scoped_page db organization k" if "k \<noteq> ?i" for k
      using that by (simp add: scoped split: option.split)
    show "p_parent p = np_parent np" if "scoped_page d organization ?i = Some p" for p
      using that by (auto simp: scoped none new_page_row_def)
    show "\<exists>q qs. scoped_page db organization k = Some q \<and> upward db organization k qs \<and> ?i \<notin> set (k # map p_id qs)"
      if "np_parent np = Some k" for k
    proof -
      from assms(4) that obtain q where q: "scoped_page db organization k = Some q" by (auto simp: load_page_scoped)
      with assms(2) obtain qs where qs: "upward db organization k qs" by (auto simp: rooted_def)
      have "set qs \<subseteq> set (rows (db_pages db))"
        using qs by (induction rule: upward.induct) (auto simp: scoped_page_def dest: select_row_Some)
      moreover have "k \<noteq> ?i" using q none by auto
      ultimately have "?i \<notin> set (k # map p_id qs)" using fresh by (metis (no_types, lifting) imageE list.set_map set_ConsD subsetD)
      with q qs show ?thesis by blast
    qed
  qed (use none in simp)
qed (use assms(2) in simp)

lemma update_page_rooted:
  assumes "tree_below 128 db organization" "update_page cap db now organization i u = (r, d)"
    "judge_parent db organization i (up_parent u) = Parent_Fine"
  shows "rooted d organization"
  using assms(2)
proof (cases rule: update_page_cases)
  case (updated p db1)
  note same = record_save_same [OF updated(5)]
  have org: "db_organizations d = db_organizations db" using same(2) updated(3) by simp
  have pages: "db_pages d = update_rows (\<lambda>r. p_id r = i \<and> in_scope db organization r) (updated_row u now) (db_pages db)"
    using same(1) updated(3) by simp
  note scoped = scoped_page_updated [OF org pages]
  show ?thesis
  proof (rule rooted_move [OF tree_below_rooted [OF assms(1)], where i = i and parent = "up_parent u"])
    show "scoped_page d organization k = scoped_page db organization k" if "k \<noteq> i" for k
      using that by (simp add: scoped option.map_ident)
    show "p_parent q = up_parent u" if "scoped_page d organization i = Some q" for q
      using that by (auto simp: scoped updated_row_def)
    show "\<exists>q qs. scoped_page db organization k = Some q \<and> upward db organization k qs \<and> i \<notin> set (k # map p_id qs)"
      if "up_parent u = Some k" for k
      using fine_parent_chain [OF assms(1)] assms(3) that by metis
  qed (simp add: scoped)
qed (use tree_below_rooted [OF assms(1)] in simp)


lemma delete_page_rooted:
  assumes "rooted db organization"
  shows "rooted (snd (delete_page db organization i)) organization"
proof (cases "count_rows (\<lambda>r. p_id r = i \<and> in_scope db organization r) (db_pages db) = 0")
  case True
  with assms show ?thesis by (simp add: delete_page_def Let_def)
next
  case False
  let ?target = "\<lambda>r. p_id r = i \<and> in_scope db organization r"
  let ?d = "snd (delete_page db organization i)"
  let ?f = "\<lambda>r :: page_row. if p_parent r = Some i then r\<lparr>p_parent := None\<rparr> else r"
  have org: "db_organizations ?d = db_organizations db" using False by (simp add: delete_page_def cascade_page_def)
  have pages: "rows (db_pages ?d) = map ?f (filter (\<lambda>r. \<not> ?target r) (rows (db_pages db)))"
    using False by (simp add: delete_page_def cascade_page_def)
  have scoped: "scoped_page ?d organization j = (if j = i then None else map_option ?f (scoped_page db organization j))" for j
  proof -
    let ?P = "\<lambda>r. p_id r = j \<and> in_scope db organization r"
    have "find ?P (map ?f xs) = map_option ?f (find ?P xs)" for xs by (rule find_map_same) (simp add: in_scope_def)
    moreover have "find ?P (filter (\<lambda>r. \<not> ?target r) xs) = (if j = i then None else find ?P xs)" for xs
      by (induction xs) auto
    ultimately show ?thesis
      unfolding scoped_page_def select_row_def in_scope_organizations [OF org] pages by simp
  qed
  have "\<exists>rs. upward ?d organization j rs" if "upward db organization j qs" "j \<noteq> i" for j qs
    using that
  proof (induction rule: upward.induct)
    case (root j p)
    then have "upward ?d organization j []" by (intro upward.root [of _ _ _ "?f p"]) (simp_all add: scoped)
    then show ?case by blast
  next
    case (up j p k q qs)
    show ?case
    proof (cases "k = i")
      case True
      with up have "upward ?d organization j []" by (intro upward.root [of _ _ _ "?f p"]) (simp_all add: scoped)
      then show ?thesis by blast
    next
      case False
      then obtain rs where "upward ?d organization k rs" using up.IH by blast
      with up False have "upward ?d organization j (?f q # rs)"
        by (intro upward.up [of _ _ _ "?f p" k]) (simp_all add: scoped)
      then show ?thesis by blast
    qed
  qed
  with assms show ?thesis by (auto simp: rooted_def scoped split: if_splits)
qed

text \<open>What the handlers do to the database: nothing, or what the repository did.\<close>

lemma create_page_route_db:
  obtains "snd (create_page_route pn rq input m db) = db"
  | cap np where "snd (create_page_route pn rq input m db) = snd (create_page cap db (rq_now rq) (mb_organization m) np)"
      "np_parent np = None \<or> (\<exists>k. np_parent np = Some k \<and> load_page db (mb_organization m) k \<noteq> None)"
proof -
  let ?np = "\<lambda>form. new_page_of_form form (au_user_id (mb_user m)) (rq_now rq)"
  show thesis
  proof (cases "\<exists>cap form. pn_cms pn = Some cap \<and> input = Inr form \<and> validate_page_form form = Inr () \<and>
      (case form_parent form of Some p \<Rightarrow> load_page db (mb_organization m) p \<noteq> None | None \<Rightarrow> True)")
    case True
    then obtain cap form where c: "pn_cms pn = Some cap" "input = Inr form" "validate_page_form form = Inr ()"
      and parent: "case form_parent form of Some p \<Rightarrow> load_page db (mb_organization m) p \<noteq> None | None \<Rightarrow> True" by blast
    obtain r d where r: "create_page cap db (rq_now rq) (mb_organization m) (?np form) = (r, d)" by force
    have "snd (create_page_route pn rq input m db) = d"
      using c parent r by (auto simp: create_page_route_def with_cms_def Let_def split: sum.split option.splits repository_error.split)
    with r parent show thesis by (intro that(2) [of cap "?np form"]) (auto simp: new_page_of_form_def split: option.splits)
  next
    case False
    then have "snd (create_page_route pn rq input m db) = db"
      by (auto simp: create_page_route_def with_cms_def Let_def split: sum.split option.splits)
    then show thesis by (rule that(1))
  qed
qed

lemma update_page_route_db:
  obtains "snd (update_page_route pn rq i input m db) = db"
  | cap u where "snd (update_page_route pn rq i input m db) = snd (update_page cap db (rq_now rq) (mb_organization m) i u)"
      "judge_parent db (mb_organization m) i (up_parent u) = Parent_Fine"
proof -
  let ?u = "\<lambda>form. page_update_of_form form (au_user_id (mb_user m)) (rq_now rq)"
  show thesis
  proof (cases "\<exists>cap form. pn_cms pn = Some cap \<and> input = Inr form \<and> validate_page_form form = Inr () \<and>
      judge_parent db (mb_organization m) i (form_parent form) = Parent_Fine")
    case True
    then obtain cap form where c: "pn_cms pn = Some cap" "input = Inr form" "validate_page_form form = Inr ()"
      and parent: "judge_parent db (mb_organization m) i (form_parent form) = Parent_Fine" by blast
    obtain r d where r: "update_page cap db (rq_now rq) (mb_organization m) i (?u form) = (r, d)" by force
    have "snd (update_page_route pn rq i input m db) = d"
      using c parent r by (simp add: update_page_route_def with_cms_def Let_def split: sum.split option.split repository_error.split)
    with r parent show thesis by (intro that(2) [of cap "?u form"]) (auto simp: page_update_of_form_def)
  next
    case False
    then have "snd (update_page_route pn rq i input m db) = db"
      by (auto simp: update_page_route_def with_cms_def Let_def split: sum.split option.splits parent_verdict.split)
    then show thesis by (rule that(1))
  qed
qed

lemma revision_view_no_redirect [simp]: "render_revision_view now p v e \<noteq> See_Other location"
  by (simp add: render_revision_view_def render_view_def)

lemma restore_revision_route_db:
  obtains "snd (restore_revision_route pn rq i revision m db) = db"
      "fst (restore_revision_route pn rq i revision m db) \<noteq> See_Other (''/admin/pages/'' @ show_int i @ ''/edit?ok=restored'')"
  | cap p v r where "load_page db (mb_organization m) i = Some p" "load_revision db i revision = Some v" "pn_cms pn = Some cap"
      "update_page cap db (rq_now rq) (mb_organization m) i (restore_update p v (au_user_id (mb_user m)) revision) =
        (r, snd (restore_revision_route pn rq i revision m db))"
      "judge_parent db (mb_organization m) i (vr_parent v) = Parent_Fine"
      "fst (restore_revision_route pn rq i revision m db) = See_Other (''/admin/pages/'' @ show_int i @ ''/edit?ok=restored'') \<Longrightarrow>
        \<exists>q. r = Inr (Some q)"
proof (cases "\<exists>cap p v. pn_cms pn = Some cap \<and> load_page db (mb_organization m) i = Some p \<and> load_revision db i revision = Some v \<and>
    judge_parent db (mb_organization m) i (vr_parent v) = Parent_Fine")
  case True
  then obtain cap p v where c: "pn_cms pn = Some cap" "load_page db (mb_organization m) i = Some p" "load_revision db i revision = Some v"
      "judge_parent db (mb_organization m) i (vr_parent v) = Parent_Fine" by blast
  obtain r d where r: "update_page cap db (rq_now rq) (mb_organization m) i (restore_update p v (au_user_id (mb_user m)) revision) = (r, d)" by force
  have "snd (restore_revision_route pn rq i revision m db) = d"
    using c r by (simp add: restore_revision_route_def with_cms_def Let_def split: sum.split option.split repository_error.split)
  moreover have "fst (restore_revision_route pn rq i revision m db) = See_Other (''/admin/pages/'' @ show_int i @ ''/edit?ok=restored'') \<Longrightarrow>
      \<exists>q. r = Inr (Some q)"
    using c r by (simp add: restore_revision_route_def with_cms_def Let_def split: sum.splits option.splits repository_error.splits)
  ultimately show ?thesis using that(2) c r by simp
next
  case False
  then have "restore_revision_route pn rq i revision m db = (no_cms, db) \<or>
      restore_revision_route pn rq i revision m db = (See_Other ''/admin/pages'', db) \<or>
      restore_revision_route pn rq i revision m db = (See_Other (''/admin/pages/'' @ show_int i @ ''/history''), db) \<or>
      restore_revision_route pn rq i revision m db = (storage_failure, db) \<or>
      (\<exists>p v e. restore_revision_route pn rq i revision m db = (render_revision_view (rq_now rq) p v e, db))"
    by (auto simp: restore_revision_route_def with_cms_def Let_def split: option.splits parent_verdict.split)
  then show ?thesis by (elim disjE exE) (auto intro!: that(1) simp: no_cms_def storage_failure_def)
qed

section \<open>Properties\<close>

text \<open>
  C12: The pages of an organization stay a tree: from a state in which every page has a chain of
  fewer than 128 parents, a creation, an edit, a restore or a deletion through the panel, whatever the
  form says and whether or not it succeeds, leaves every page of the organization with a chain of
  parents that ends at the top level; no page ends up below itself.
\<close>

theorem moves_keep_the_tree:
  assumes "pages_ok db" "tree_below 128 db (mb_organization m)"
  shows "rooted (snd (create_page_route pn rq input m db)) (mb_organization m) \<and>
    rooted (snd (update_page_route pn rq i input m db)) (mb_organization m) \<and>
    rooted (snd (restore_revision_route pn rq i revision m db)) (mb_organization m) \<and>
    rooted (snd (delete_page_route pn i m db)) (mb_organization m)"
proof (intro conjI)
  note r = tree_below_rooted [OF assms(2)]
  show "rooted (snd (create_page_route pn rq input m db)) (mb_organization m)"
    by (rule create_page_route_db [of pn rq input m db]) (use r create_page_rooted [OF assms(1) r] in \<open>auto simp: prod_eq_iff\<close>)
  show "rooted (snd (update_page_route pn rq i input m db)) (mb_organization m)"
    by (rule update_page_route_db [of pn rq i input m db]) (use r update_page_rooted [OF assms(2)] in \<open>auto simp: prod_eq_iff\<close>)
  show "rooted (snd (restore_revision_route pn rq i revision m db)) (mb_organization m)"
    by (rule restore_revision_route_db [of pn rq i revision m db])
      (use r update_page_rooted [OF assms(2)] in \<open>auto simp: restore_update_def\<close>)
  show "rooted (snd (delete_page_route pn i m db)) (mb_organization m)"
    using r delete_page_rooted [OF r, of i]
    by (cases "delete_page db (mb_organization m) i") (auto simp: delete_page_route_def with_cms_def split: option.split sum.split)
qed

text \<open>
  A restore brings content back and nothing else: when it answers that it restored, the page has
  the slug, title, body, format, place in the tree and metadata of the revision, its publication flag,
  schedule, author and creation time are what they were before, and every other page of every
  organization is untouched.
\<close>

theorem restore_brings_content_back:
  assumes "restore_revision_route pn rq i revision m db = (See_Other (''/admin/pages/'' @ show_int i @ ''/edit?ok=restored''), d)"
  shows "\<exists>p v q. load_page db (mb_organization m) i = Some p \<and> load_revision db i revision = Some v \<and>
    load_page d (mb_organization m) i = Some q \<and>
    (pr_slug q, pr_title q, pr_content q, pr_body_format q) = (vr_slug v, vr_title v, vr_content v, vr_body_format v) \<and>
    (pr_parent q, pr_position q, pr_meta_title q, pr_meta_description q, pr_og_image q) =
      (vr_parent v, vr_position v, vr_meta_title v, vr_meta_description v, vr_og_image v) \<and>
    (pr_is_published q, pr_publish_at q, pr_created_by q, pr_created_at q) =
      (pr_is_published p, pr_publish_at p, pr_created_by p, pr_created_at p) \<and>
    (\<forall>organization j. j \<noteq> i \<longrightarrow> load_page d organization j = load_page db organization j)"
proof -
  let ?o = "mb_organization m"
  let ?u = "\<lambda>p v. restore_update p v (au_user_id (mb_user m)) revision"
  obtain cap p v r where c: "load_page db ?o i = Some p" "load_revision db i revision = Some v"
    and u: "update_page cap db (rq_now rq) ?o i (?u p v) = (r, d)" and r: "\<exists>q. r = Inr (Some q)"
    by (rule restore_revision_route_db [of pn rq i revision m db]) (use assms in auto)
  from u show ?thesis
  proof (cases rule: update_page_cases)
    case refused
    with r show ?thesis by blast
  next
    case (updated row db1)
    note same = record_save_same [OF updated(5)]
    have org: "db_organizations d = db_organizations db" using same(2) updated(3) by simp
    have pages: "db_pages d = update_rows (\<lambda>r. p_id r = i \<and> in_scope db ?o r) (updated_row (?u p v) (rq_now rq)) (db_pages db)"
      using same(1) updated(3) by simp
    note scoped = scoped_page_updated [OF org pages]
    have row: "scoped_page db ?o i = Some row" using updated(1) by (simp add: scoped_page_def)
    then have p: "p = page_of_row row" using c(1) by (simp add: load_page_scoped)
    have q: "load_page d ?o i = Some (page_of_row (updated_row (?u p v) (rq_now rq) row))" by (simp add: load_page_scoped scoped row)
    have "load_page d organization j = load_page db organization j" if "j \<noteq> i" for organization j
    proof -
      have "find (\<lambda>r. p_id r = j \<and> in_scope db organization r)
          (map (\<lambda>r. if p_id r = i \<and> in_scope db ?o r then updated_row (?u p v) (rq_now rq) r else r) (rows (db_pages db))) =
          find (\<lambda>r. p_id r = j \<and> in_scope db organization r) (rows (db_pages db))"
        by (rule find_map_other) (use that in \<open>auto simp: updated_row_def in_scope_def\<close>)
      then show ?thesis
        unfolding load_page_scoped scoped_page_def select_row_def in_scope_organizations [OF org] pages rows_update by simp
    qed
    with c q p show ?thesis by (intro exI [of _ p] exI [of _ v] exI [of _ "page_of_row (updated_row (?u p v) (rq_now rq) row)"])
        (simp add: page_of_row_def updated_row_def restore_update_def)
  qed
qed

section \<open>A panel\<close>

definition panel_of :: "server \<Rightarrow> panel" where
  "panel_of sv = \<lparr>pn_server = sv, pn_cms = Some 5, pn_index_page_size = 10, pn_site_url = None, pn_default_page = None,
     pn_feed = True, pn_sitemap = True\<rparr>"

definition member_of :: "string \<Rightarrow> member" where
  "member_of organization = \<lparr>mb_user = \<lparr>au_user_id = 7, au_username = ''eve'', au_role = Editor\<rparr>, mb_organization = organization\<rparr>"

lemma two_pages_ok: "pages_ok two_pages"
  by (simp add: pages_ok_def two_pages_def store_ok_def new_page_row_def plain_page_def refers_def page_exists_iff site_def empty_db_def)

lemma two_pages_tree: "tree_below 128 two_pages ''cms''"
  unfolding tree_below_def
proof (intro allI impI)
  fix j assume j: "scoped_page two_pages ''cms'' j \<noteq> None"
  then obtain p where "p \<in> set (rows (db_pages two_pages))" "p_id p = j"
    by (auto simp: scoped_page_def dest: select_row_Some)
  then have "j = 1 \<or> j = 2" by (auto simp: two_pages_def new_page_row_def)
  moreover have "upward two_pages ''cms'' 1 []"
    by (rule upward.root [OF two_pages_scoped(2)]) (simp add: new_page_row_def plain_page_def)
  ultimately show "\<exists>qs. upward two_pages ''cms'' j qs \<and> length qs < 128"
    using two_pages_upward by force
qed

lemma moves_keep_the_tree_witness:
  "\<forall>sv rq. rooted (snd (update_page_route (panel_of sv) rq 1 (Inr (empty_form\<lparr>pf_slug := ''a'', pf_title := ''A'', pf_parent_id := Some ''2''\<rparr>))
     (member_of ''cms'') two_pages)) ''cms''"
  using moves_keep_the_tree [of two_pages "member_of ''cms''" "panel_of sv" rq
      "Inr (empty_form\<lparr>pf_slug := ''a'', pf_title := ''A'', pf_parent_id := Some ''2''\<rparr>)" 1 for sv rq] two_pages_ok two_pages_tree
  by (simp add: member_of_def)

definition saved_page :: revision_row where
  "saved_page = \<lparr>rv_id = 1, rv_page = 1, rv_revision = 1, rv_slug = ''old'', rv_title = ''Old'', rv_content = ''was'', rv_body_format = ''markdown'',
     rv_parent = None, rv_position = 3, rv_meta_title = None, rv_meta_description = None, rv_og_image = None,
     rv_is_published = False, rv_publish_at = None, rv_edited_by = None, rv_note = None, rv_created_at = 5\<rparr>"

definition saved_db :: db where
  "saved_db = two_pages\<lparr>db_revisions := \<lparr>last_id = 1, rows = [saved_page]\<rparr>,
     db_users := \<lparr>last_id = 7, rows = [\<lparr>ur_id = 7, ur_username = ''eve'', ur_password_hash = ''hash'', ur_role = ''editor'',
       ur_created_at = 3, ur_last_login_at = None\<rparr>]\<rparr>\<rparr>"

lemma saved_restore: "fst (restore_revision_route (panel_of sv) rq 1 1 (member_of ''cms'') saved_db) = See_Other (''/admin/pages/'' @ show_int 1 @ ''/edit?ok=restored'')"
  by (simp add: restore_revision_route_def with_cms_def panel_of_def member_of_def saved_db_def two_pages_def saved_page_def
      load_page_def load_revision_def find_page_by_id_def find_revision_def select_row_def in_scope_def org_scope_def org_id_def site_def
      new_page_row_def plain_page_def judge_parent_def revision_of_row_def update_page_def restore_update_def updated_row_def
      page_of_row_def update_rows_def count_rows_def select_rows_def slug_taken_def refers_def record_save_def record_revision_def
      update_snapshot_def prune_revisions_def page_exists_def user_exists_def Let_def insert_row_def)

lemma restore_brings_content_back_witness:
  "\<forall>sv rq. \<exists>d q. restore_revision_route (panel_of sv) rq 1 1 (member_of ''cms'') saved_db = (See_Other (''/admin/pages/'' @ show_int 1 @ ''/edit?ok=restored''), d) \<and>
     load_page d ''cms'' 1 = Some q \<and> pr_title q = ''Old''"
proof (intro allI)
  fix sv :: server and rq :: request
  let ?d = "snd (restore_revision_route (panel_of sv) rq 1 1 (member_of ''cms'') saved_db)"
  have r: "restore_revision_route (panel_of sv) rq 1 1 (member_of ''cms'') saved_db = (See_Other (''/admin/pages/'' @ show_int 1 @ ''/edit?ok=restored''), ?d)"
    using saved_restore [of sv rq] by (simp add: prod_eq_iff)
  have "load_revision saved_db 1 1 = Some v \<Longrightarrow> vr_title v = ''Old''" for v
    by (auto simp: saved_db_def load_revision_def find_revision_def select_row_def saved_page_def revision_of_row_def)
  with restore_brings_content_back [OF r] r
  show "\<exists>d q. restore_revision_route (panel_of sv) rq 1 1 (member_of ''cms'') saved_db = (See_Other (''/admin/pages/'' @ show_int 1 @ ''/edit?ok=restored''), d) \<and>
     load_page d ''cms'' 1 = Some q \<and> pr_title q = ''Old''"
    by (auto simp: member_of_def)
qed

text \<open>
  The bound matters: in a chain of 130 pages the guard does not see from the last page up to the
  first, and lets the first be moved below the last.
\<close>

definition chain_page :: "int \<Rightarrow> page_row" where
  "chain_page k = new_page_row (plain_page (show_int k) (if k = 1 then None else Some (k - 1))) 1 5 k"

definition deep_pages :: db where
  "deep_pages = site\<lparr>db_pages := \<lparr>last_id = 130, rows = map chain_page [1..130]\<rparr>\<rparr>"

lemma deep_scoped: "1 \<le> k \<Longrightarrow> k \<le> 130 \<Longrightarrow> scoped_page deep_pages ''cms'' k = Some (chain_page k)"
  unfolding scoped_page_def
proof (rule select_row_unique)
  assume k: "1 \<le> k" "k \<le> 130"
  then show "chain_page k \<in> set (rows (db_pages deep_pages))" by (simp add: deep_pages_def)
  have "org_id deep_pages ''cms'' = Some 1" using site_orgs(1) by (simp add: deep_pages_def org_id_def)
  then show "p_id (chain_page k) = k \<and> in_scope deep_pages ''cms'' (chain_page k)"
    by (simp add: chain_page_def new_page_row_def in_scope_def org_scope_def)
qed (auto simp: deep_pages_def chain_page_def new_page_row_def)

lemma deep_walk:
  "int n < c \<Longrightarrow> c < 130 \<Longrightarrow> x \<in> set (ancestors_walk n deep_pages ''cms'' 130 c chain) \<Longrightarrow>
    x \<in> set chain \<or> c - int n < ps_id x"
proof (induction n arbitrary: c chain)
  case (Suc n)
  let ?s = "summary_of_row (chain_page c)"
  have "x \<in> set (ancestors_walk n deep_pages ''cms'' 130 (c - 1) (?s # chain))"
    using Suc.prems(3) Suc.prems(1,2) deep_scoped [of c]
    by (simp add: ancestors_walk_step chain_page_def new_page_row_def plain_page_def del: ancestors_walk.simps)
  with Suc.IH [of "c - 1" "?s # chain"] Suc.prems(1,2) show ?case
    by (auto simp: summary_of_row_def chain_page_def new_page_row_def)
qed simp

lemma move_guard_is_blind: "judge_parent deep_pages ''cms'' 1 (Some 130) = Parent_Fine"
proof -
  note s = deep_scoped [of 130, simplified]
  have "ancestors deep_pages ''cms'' 130 = Inr (ancestors_walk 127 deep_pages ''cms'' 130 129 [])"
    using ancestors_step [OF s] by (simp add: chain_page_def new_page_row_def plain_page_def)
  moreover have "ps_id x \<noteq> 1" if "x \<in> set (ancestors_walk 127 deep_pages ''cms'' 130 129 [])" for x
    using deep_walk [of 127 129 x "[]"] that by auto
  ultimately show ?thesis using s by (auto simp: judge_parent_def load_page_scoped list_ex_iff)
qed

end
