(* ===== verification/Media.thy ===== *)
theory Media
  imports Pages
begin

text \<open>
  \<open>src/src/db.rs\<close>, \<open>SqliteMediaRepository\<close>: the rows of the media library. The files lie on
  disk under the names of the row; the schema keeps those names flat.
\<close>

section \<open>Data\<close>

record new_media =
  nd_stored_name :: string
  nd_thumb_name :: string
  nd_original_name :: string
  nd_mime_type :: string
  nd_bytes :: int
  nd_width :: int
  nd_height :: int
  nd_alt_text :: string
  nd_created_by :: "int option"

record media_record =
  me_id :: int
  me_stored_name :: string
  me_thumb_name :: string
  me_original_name :: string
  me_mime_type :: string
  me_bytes :: int
  me_width :: int
  me_height :: int
  me_alt_text :: string
  me_created_at :: int
  me_created_by :: "int option"

definition media_of_row :: "media_row \<Rightarrow> media_record" where
  "media_of_row r =
     \<lparr>me_id = md_id r, me_stored_name = md_stored_name r, me_thumb_name = md_thumb_name r,
      me_original_name = md_original_name r, me_mime_type = md_mime_type r, me_bytes = md_bytes r,
      me_width = md_width r, me_height = md_height r, me_alt_text = md_alt_text r,
      me_created_at = md_created_at r, me_created_by = md_created_by r\<rparr>"

definition new_media_row :: "new_media \<Rightarrow> int \<Rightarrow> int \<Rightarrow> int \<Rightarrow> media_row" where
  "new_media_row m owner now i =
     \<lparr>md_id = i, md_organization = owner, md_stored_name = nd_stored_name m, md_thumb_name = nd_thumb_name m,
      md_original_name = nd_original_name m, md_mime_type = nd_mime_type m, md_bytes = nd_bytes m,
      md_width = nd_width m, md_height = nd_height m, md_alt_text = nd_alt_text m,
      md_created_at = now, md_created_by = nd_created_by m\<rparr>"

text \<open>The checks of the table: flat names, one of four types.\<close>

definition flat_name :: "string \<Rightarrow> bool" where
  "flat_name s \<longleftrightarrow> CHR ''/'' \<notin> set s \<and> CHR 0x5C \<notin> set s"

definition media_checks :: "new_media \<Rightarrow> bool" where
  "media_checks m \<longleftrightarrow> flat_name (nd_stored_name m) \<and> flat_name (nd_thumb_name m) \<and>
     nd_mime_type m \<in> set [''image/png'', ''image/jpeg'', ''image/gif'', ''image/webp'']"

section \<open>Operations\<close>

definition media_in_scope :: "db \<Rightarrow> string \<Rightarrow> media_row \<Rightarrow> bool" where
  "media_in_scope db organization r \<longleftrightarrow> org_scope db organization (md_organization r)"

definition create_media :: "db \<Rightarrow> int \<Rightarrow> string \<Rightarrow> new_media \<Rightarrow> media_record repo \<times> db" where
  "create_media db now organization m =
     (case org_id db organization of
        None \<Rightarrow> (Inl (Internal ''NOT NULL constraint failed: media.organization_id''), db)
      | Some owner \<Rightarrow>
          if \<not> media_checks m then (Inl (Internal ''CHECK constraint failed''), db)
          else if \<exists>r \<in> set (rows (db_media db)). md_stored_name r = nd_stored_name m then (Inl Duplicate, db)
          else (case insert_row (new_media_row m owner now) (db_media db) of
                  (i, media) \<Rightarrow> (Inr (media_of_row (new_media_row m owner now i)), db\<lparr>db_media := media\<rparr>)))"

definition find_media :: "db \<Rightarrow> string \<Rightarrow> int \<Rightarrow> media_record option repo" where
  "find_media db organization i =
     Inr (map_option media_of_row (select_row (\<lambda>r. md_id r = i \<and> media_in_scope db organization r) (db_media db)))"

definition list_media_paged :: "db \<Rightarrow> string \<Rightarrow> int \<Rightarrow> int \<Rightarrow> media_record list repo" where
  "list_media_paged db organization n offset =
     Inr (map media_of_row (paged n offset (rev (select_rows (media_in_scope db organization) (db_media db)))))"

definition count_media :: "db \<Rightarrow> string \<Rightarrow> int repo" where
  "count_media db organization = Inr (int (count_rows (media_in_scope db organization) (db_media db)))"

definition update_alt :: "db \<Rightarrow> string \<Rightarrow> int \<Rightarrow> string \<Rightarrow> media_record option repo \<times> db" where
  "update_alt db organization i alt_text =
     (let target = (\<lambda>r. md_id r = i \<and> media_in_scope db organization r) in
      if count_rows target (db_media db) = 0 then (Inr None, db)
      else (let db' = db\<lparr>db_media := update_rows target (\<lambda>r. r\<lparr>md_alt_text := alt_text\<rparr>) (db_media db)\<rparr> in
            (find_media db' organization i, db')))"

definition delete_media :: "db \<Rightarrow> string \<Rightarrow> int \<Rightarrow> bool repo \<times> db" where
  "delete_media db organization i =
     (let target = (\<lambda>r. md_id r = i \<and> media_in_scope db organization r) in
      (Inr (count_rows target (db_media db) > 0), db\<lparr>db_media := delete_rows target (db_media db)\<rparr>))"

section \<open>The library is consistent\<close>

definition media_ok :: "db \<Rightarrow> bool" where
  "media_ok db \<longleftrightarrow> store_ok md_id (db_media db) \<and> distinct (map md_stored_name (rows (db_media db))) \<and>
     (\<forall>r \<in> set (rows (db_media db)). flat_name (md_stored_name r) \<and> flat_name (md_thumb_name r))"

lemma create_media_ok: "media_ok db \<Longrightarrow> media_ok (snd (create_media db now organization m))"
  by (auto simp: create_media_def media_ok_def media_checks_def new_media_row_def split_beta intro!: store_ok_insert
      split: option.split)

lemma update_alt_ok:
  assumes "media_ok db"
  shows "media_ok (snd (update_alt db organization i alt))"
proof -
  let ?s = "update_rows (\<lambda>r. md_id r = i \<and> media_in_scope db organization r) (\<lambda>r. r\<lparr>md_alt_text := alt\<rparr>) (db_media db)"
  have "map g (rows ?s) = map g (rows (db_media db))" if "\<And>r. g (r\<lparr>md_alt_text := alt\<rparr>) = g r" for g :: "media_row \<Rightarrow> 'a"
    using that by simp
  from this [of md_stored_name] have "map md_stored_name (rows ?s) = map md_stored_name (rows (db_media db))" by simp
  moreover have "flat_name (md_stored_name r) \<and> flat_name (md_thumb_name r)" if "r \<in> set (rows ?s)" for r
  proof -
    from that obtain x where "x \<in> set (rows (db_media db))"
        "r = (if md_id x = i \<and> media_in_scope db organization x then x\<lparr>md_alt_text := alt\<rparr> else x)" by (rule update_rowsE)
    with assms show ?thesis by (simp add: media_ok_def)
  qed
  ultimately have "media_ok (db\<lparr>db_media := ?s\<rparr>)" using assms by (simp add: media_ok_def store_ok_update del: rows_update)
  with assms show ?thesis by (simp add: update_alt_def Let_def)
qed

lemma delete_media_ok: "media_ok db \<Longrightarrow> media_ok (snd (delete_media db organization i))"
  by (auto simp: delete_media_def Let_def media_ok_def store_ok_delete intro!: distinct_map_filter)

end
