(* ===== verification/Panel_Tenancy.thy ===== *)
theory Panel_Tenancy
  imports Panel_Menus Page_Tree Media
begin

text \<open>
  The content of an organization (pages, menus, items, media) is written only by the editors of the
  organization: the handlers of the panel as the interface of \<open>Tenancy\<close> asks, with the one
  handler that breaks it.
\<close>

section \<open>Owners\<close>

definition page_owner :: "db \<Rightarrow> int \<Rightarrow> int option" where
  "page_owner db = map_of (map (\<lambda>r. (p_id r, p_organization r)) (rows (db_pages db)))"

definition menu_owner :: "db \<Rightarrow> int \<Rightarrow> int option" where
  "menu_owner db = map_of (map (\<lambda>r. (mn_id r, mn_organization r)) (rows (db_menus db)))"

definition tenant_menus :: "db \<Rightarrow> int \<Rightarrow> menu_row list" where
  "tenant_menus db t = filter (\<lambda>r. mn_organization r = t) (rows (db_menus db))"

definition tenant_items :: "db \<Rightarrow> int \<Rightarrow> menu_item_record list" where
  "tenant_items db t = filter (\<lambda>i. menu_owner db (mi_menu i) = Some t) (rows (db_items db))"

definition tenant_media :: "db \<Rightarrow> int \<Rightarrow> media_row list" where
  "tenant_media db t = filter (\<lambda>r. md_organization r = t) (rows (db_media db))"

definition tenant_content :: "db \<Rightarrow> int \<Rightarrow> page_row list \<times> menu_row list \<times> menu_item_record list \<times> media_row list" where
  "tenant_content db t = (owned_pages db t, tenant_menus db t, tenant_items db t, tenant_media db t)"

text \<open>An item links a page of the organization its menu belongs to.\<close>

definition items_local :: "db \<Rightarrow> bool" where
  "items_local db \<longleftrightarrow> (\<forall>i \<in> set (rows (db_items db)). \<forall>k. mi_page i = Some k \<longrightarrow>
     page_owner db k \<noteq> None \<and> page_owner db k = menu_owner db (mi_menu i))"

text \<open>A page is below a page of its own organization.\<close>

definition parents_local :: "db \<Rightarrow> bool" where
  "parents_local db \<longleftrightarrow> (\<forall>r \<in> set (rows (db_pages db)). \<forall>k. p_parent r = Some k \<longrightarrow> page_owner db k = Some (p_organization r))"

definition tenants_ok :: "db \<Rightarrow> bool" where
  "tenants_ok db \<longleftrightarrow> store_ok p_id (db_pages db) \<and> store_ok mn_id (db_menus db) \<and> parents_local db \<and>
     (\<forall>i \<in> set (rows (db_items db)). menu_owner db (mi_menu i) \<noteq> None) \<and> items_local db"

lemma owner_row:
  assumes "store_ok key s" "r \<in> set (rows s)"
  shows "map_of (map (\<lambda>r. (key r, f r)) (rows s)) (key r) = Some (f r)"
proof -
  have "distinct (map fst (map (\<lambda>r. (key r, f r)) (rows s)))" using store_ok_distinct [OF assms(1)] by (simp add: comp_def)
  moreover have "(key r, f r) \<in> set (map (\<lambda>r. (key r, f r)) (rows s))" using assms(2) by auto
  ultimately show ?thesis by (simp only: map_of_eq_Some_iff)
qed

lemma owner_deleted:
  "k \<noteq> i \<Longrightarrow> (\<And>r. t r \<Longrightarrow> key r = i) \<Longrightarrow>
    map_of (map (\<lambda>r. (key r, f r)) (filter (\<lambda>r. \<not> t r) rs)) k = map_of (map (\<lambda>r. (key r, f r)) rs) k"
  by (induction rs) auto

lemma owner_appended:
  "map_of (map (\<lambda>r. (key r, f r)) rs) k \<noteq> None \<Longrightarrow>
    map_of (map (\<lambda>r. (key r, f r)) (rs @ [x])) k = map_of (map (\<lambda>r. (key r, f r)) rs) k"
  by (induction rs) auto

section \<open>Pages\<close>

lemma page_write_frame:
  "db_menus (page_write_run cap w db) = db_menus db" "db_media (page_write_run cap w db) = db_media db"
  "db_items (page_write_run cap w db) = (case w of
     Write_Delete organization i \<Rightarrow>
       if count_rows (\<lambda>r. p_id r = i \<and> in_scope db organization r) (db_pages db) = 0 then db_items db
       else delete_rows (\<lambda>m. mi_page m = Some i) (db_items db)
   | _ \<Rightarrow> db_items db)"
proof -
  have "db_menus (page_write_run cap w db) = db_menus db \<and> db_media (page_write_run cap w db) = db_media db \<and>
    db_items (page_write_run cap w db) = (case w of
     Write_Delete organization i \<Rightarrow>
       if count_rows (\<lambda>r. p_id r = i \<and> in_scope db organization r) (db_pages db) = 0 then db_items db
       else delete_rows (\<lambda>m. mi_page m = Some i) (db_items db)
   | _ \<Rightarrow> db_items db)"
  proof (cases w)
    case (Write_Create now organization np)
    obtain r d where c: "create_page cap db now organization np = (r, d)" by force
    from c have "db_menus d = db_menus db \<and> db_media d = db_media db \<and> db_items d = db_items db"
    proof (cases rule: create_page_cases)
      case (created owner db1)
      show ?thesis by (subst (1 2 3) record_save_frame(2) [OF created(6)]) (simp add: created(3))
    qed simp
    with c Write_Create show ?thesis by simp
  next
    case (Write_Update now organization i u)
    obtain r d where c: "update_page cap db now organization i u = (r, d)" by force
    from c have "db_menus d = db_menus db \<and> db_media d = db_media db \<and> db_items d = db_items db"
    proof (cases rule: update_page_cases)
      case (updated p db1)
      show ?thesis by (subst (1 2 3) record_save_frame(2) [OF updated(5)]) (simp add: updated(3))
    qed simp
    with c Write_Update show ?thesis by simp
  qed (simp add: delete_page_def Let_def cascade_page_def)
  then show "db_menus (page_write_run cap w db) = db_menus db" "db_media (page_write_run cap w db) = db_media db"
    "db_items (page_write_run cap w db) = (case w of
     Write_Delete organization i \<Rightarrow>
       if count_rows (\<lambda>r. p_id r = i \<and> in_scope db organization r) (db_pages db) = 0 then db_items db
       else delete_rows (\<lambda>m. mi_page m = Some i) (db_items db)
   | _ \<Rightarrow> db_items db)" by blast+
qed

text \<open>The pages that stay keep their owner.\<close>

lemma page_write_pages:
  assumes "store_ok p_id (db_pages db)" "d = page_write_run cap w db"
  shows "store_ok p_id (db_pages d)"
    "page_owner db k \<noteq> None \<Longrightarrow> (\<And>organization. w \<noteq> Write_Delete organization k) \<Longrightarrow> page_owner d k = page_owner db k"
proof -
  have "store_ok p_id (db_pages d) \<and>
    (page_owner db k \<noteq> None \<longrightarrow> (\<forall>organization. w \<noteq> Write_Delete organization k) \<longrightarrow> page_owner d k = page_owner db k)"
  proof (cases w)
    case (Write_Create now organization np)
    obtain r d' where c: "create_page cap db now organization np = (r, d')" by force
    with assms Write_Create have d: "d' = d" by simp
    from c show ?thesis
    proof (cases rule: create_page_cases)
      case (created owner db1)
      have pages: "db_pages d = db_pages db1" using record_save_pages [OF created(6)] d by simp
      have "store_ok p_id (snd (insert_row (new_page_row np owner now) (db_pages db)))"
        using assms(1) by (intro store_ok_insert) (simp_all add: new_page_row_def)
      then show ?thesis
        using owner_appended [of p_id p_organization "rows (db_pages db)" k "new_page_row np owner now (last_id (db_pages db) + 1)"]
        by (simp add: pages created(3) page_owner_def insert_row_def Let_def)
    qed (use assms d in simp)
  next
    case (Write_Update now organization i u)
    obtain r d' where c: "update_page cap db now organization i u = (r, d')" by force
    with assms Write_Update have d: "d' = d" by simp
    from c show ?thesis
    proof (cases rule: update_page_cases)
      case (updated p db1)
      have pages: "db_pages d = db_pages db1" using record_save_pages [OF updated(5)] d by simp
      have "map (\<lambda>r. (p_id r, p_organization r)) (rows (db_pages db1)) = map (\<lambda>r. (p_id r, p_organization r)) (rows (db_pages db))"
        by (simp add: updated(3) updated_row_def)
      with assms(1) show ?thesis
        by (simp add: pages page_owner_def) (simp add: updated(3) store_ok_update updated_row_def)
    qed (use assms d in simp)
  next
    case (Write_Delete organization i)
    let ?t = "\<lambda>r. p_id r = i \<and> in_scope db organization r"
    let ?d = "cascade_page (db\<lparr>db_pages := delete_rows ?t (db_pages db)\<rparr>) i"
    have "store_ok p_id (db_pages ?d)"
      using assms(1) by (simp add: cascade_page_def store_ok_update store_ok_delete)
    moreover have "page_owner ?d k = page_owner db k" if "k \<noteq> i"
    proof -
      have "map (\<lambda>r. (p_id r, p_organization r)) (rows (db_pages ?d)) = map (\<lambda>r. (p_id r, p_organization r)) (filter (\<lambda>r. \<not> ?t r) (rows (db_pages db)))"
        by (simp add: cascade_page_def)
      with owner_deleted [OF that, of ?t p_id p_organization "rows (db_pages db)"] show ?thesis by (simp add: page_owner_def)
    qed
    ultimately show ?thesis using assms Write_Delete by (auto simp: delete_page_def Let_def)
  qed
  then show "store_ok p_id (db_pages d)"
    "page_owner db k \<noteq> None \<Longrightarrow> (\<And>organization. w \<noteq> Write_Delete organization k) \<Longrightarrow> page_owner d k = page_owner db k" by blast+
qed

lemma load_page_owner:
  assumes "tenants_ok db" "load_page db organization k \<noteq> None"
  shows "\<exists>owner. page_owner db k = Some owner \<and> org_id db organization = Some owner"
proof -
  from assms(2) obtain p where "p \<in> set (rows (db_pages db))" "p_id p = k" "in_scope db organization p"
    by (auto simp: load_page_scoped scoped_page_def dest: select_row_Some)
  with owner_row [of p_id "db_pages db" p p_organization] assms(1) show ?thesis
    by (simp add: page_owner_def tenants_ok_def in_scope_def org_scope_def)
qed

text \<open>The handlers give a page no parent but one their organization has.\<close>

fun page_write_local :: "page_write \<Rightarrow> db \<Rightarrow> bool" where
  "page_write_local (Write_Create now organization np) db \<longleftrightarrow> refers (\<lambda>k. load_page db organization k \<noteq> None) (np_parent np)"
| "page_write_local (Write_Update now organization i u) db \<longleftrightarrow> refers (\<lambda>k. load_page db organization k \<noteq> None) (up_parent u)"
| "page_write_local (Write_Delete organization i) db \<longleftrightarrow> True"

lemma page_write_rows:
  assumes "tenants_ok db" "page_write_local w db" "r \<in> set (rows (db_pages (page_write_run cap w db)))" "p_parent r = Some k"
  shows "page_owner db k = Some (p_organization r) \<and>
    (\<forall>organization. w = Write_Delete organization k \<longrightarrow> page_write_run cap w db = db)"
proof -
  have old: "page_owner db k = Some (p_organization r)" if "r \<in> set (rows (db_pages db))"
    using assms(1,4) that by (simp add: tenants_ok_def parents_local_def)
  show ?thesis
  proof (cases w)
    case (Write_Create now organization np)
    obtain x d where c: "create_page cap db now organization np = (x, d)" by force
    from c show ?thesis
    proof (cases rule: create_page_cases)
      case (created owner db1)
      let ?new = "new_page_row np owner now (last_id (db_pages db) + 1)"
      have "r \<in> set (rows (db_pages db)) \<or> r = ?new"
        using assms(3) record_save_pages [OF created(6)] by (auto simp: Write_Create c created(3))
      moreover have "page_owner db k = Some owner" if "np_parent np = Some k"
        using load_page_owner [OF assms(1), of organization k] assms(2) that created(1) by (auto simp: Write_Create refers_def)
      ultimately show ?thesis using old assms(4) by (auto simp: Write_Create new_page_row_def)
    qed (use assms(3) old in \<open>simp add: Write_Create c\<close>)
  next
    case (Write_Update now organization i u)
    obtain x d where c: "update_page cap db now organization i u = (x, d)" by force
    from c show ?thesis
    proof (cases rule: update_page_cases)
      case (updated p db1)
      obtain q where q: "q \<in> set (rows (db_pages db))"
        "r = (if p_id q = i \<and> in_scope db organization q then updated_row u now q else q)"
        using assms(3) record_save_pages [OF updated(5)] by (auto simp: Write_Update c updated(3))
      have "page_owner db k = Some (p_organization r)" if "in_scope db organization q" "up_parent u = Some k" "r = updated_row u now q"
        using load_page_owner [OF assms(1), of organization k] assms(2) that
        by (auto simp: Write_Update refers_def in_scope_def org_scope_def updated_row_def)
      then show ?thesis using q old assms(4) by (auto simp: Write_Update updated_row_def split: if_splits)
    qed (use assms(3) old in \<open>simp add: Write_Update c\<close>)
  next
    case (Write_Delete organization i)
    let ?t = "\<lambda>r. p_id r = i \<and> in_scope db organization r"
    show ?thesis
    proof (cases "count_rows ?t (db_pages db) = 0")
      case False
      then obtain q where "q \<in> set (rows (db_pages db))" "r = (if p_parent q = Some i then q\<lparr>p_parent := None\<rparr> else q)"
        using assms(3) by (auto simp: Write_Delete delete_page_def Let_def cascade_page_def)
      then show ?thesis using old assms(4) Write_Delete by (auto split: if_splits)
    qed (use assms(3) old in \<open>auto simp: Write_Delete delete_page_def Let_def\<close>)
  qed
qed

lemma page_write_parents:
  assumes "tenants_ok db" "page_write_local w db"
  shows "parents_local (page_write_run cap w db)"
  unfolding parents_local_def
proof (intro ballI allI impI)
  fix r k assume r: "r \<in> set (rows (db_pages (page_write_run cap w db)))" "p_parent r = Some k"
  note f = page_write_rows [OF assms r]
  have "store_ok p_id (db_pages db)" using assms(1) by (simp add: tenants_ok_def)
  note keep = page_write_pages(2) [OF this refl, of k w cap]
  show "page_owner (page_write_run cap w db) k = Some (p_organization r)"
  proof (cases "\<exists>organization. w = Write_Delete organization k")
    case True
    with f show ?thesis by auto
  qed (use keep f in auto)
qed

lemma page_write_owned:
  assumes "tenants_ok db" "org_id db (page_write_key w) \<noteq> Some t"
  shows "owned_pages (page_write_run cap w db) t = owned_pages db t"
proof (cases w)
  case (Write_Delete organization i)
  have foreign: "org_id db organization \<noteq> Some t" using assms(2) Write_Delete by simp
  have "owned_pages (snd (delete_page db organization i)) t = owned_pages db t"
  proof (rule delete_page_owned [OF foreign])
    fix r p assume r: "r \<in> set (rows (db_pages db))" "p_organization r = t" "p_parent r = Some i"
      and p: "p \<in> set (rows (db_pages db))" "p_id p = i"
    have "page_owner db i = Some t" using assms(1) r by (auto simp: tenants_ok_def parents_local_def)
    moreover have "store_ok p_id (db_pages db)" using assms(1) by (simp add: tenants_ok_def)
    from owner_row [OF this p(1), of p_organization] have "page_owner db i = Some (p_organization p)" using p(2) by (simp add: page_owner_def)
    ultimately show "p_organization p = t" by simp
  qed
  with Write_Delete show ?thesis by simp
qed (use assms(2) create_page_owned update_page_owned in simp_all)

lemma page_write_tenants:
  assumes "tenants_ok db" "page_write_local w db"
  shows "tenants_ok (page_write_run cap w db)"
proof -
  let ?d = "page_write_run cap w db"
  have owner: "menu_owner ?d = menu_owner db" by (simp add: menu_owner_def page_write_frame)
  have items: "set (rows (db_items ?d)) \<subseteq> set (rows (db_items db))"
    by (auto simp: page_write_frame split: page_write.splits if_splits)
  have kept: "page_owner ?d k = page_owner db k" if "i \<in> set (rows (db_items ?d))" "mi_page i = Some k" for i k
  proof (cases "\<exists>organization. w = Write_Delete organization k \<and>
      count_rows (\<lambda>r. p_id r = k \<and> in_scope db organization r) (db_pages db) \<noteq> 0")
    case True
    with that show ?thesis by (auto simp: page_write_frame)
  next
    case False
    have "page_owner db k \<noteq> None" using assms that items by (auto simp: tenants_ok_def items_local_def)
    moreover have "page_owner ?d k = page_owner db k" if "w = Write_Delete organization k" for organization
      using that False by (auto simp: delete_page_def Let_def)
    ultimately show ?thesis
      using assms page_write_pages(2) [OF _ refl, of db k w cap] unfolding tenants_ok_def by blast
  qed
  show ?thesis
    using assms(1) page_write_parents [OF assms, of cap] items kept page_write_pages(1) [OF _ refl, of db cap w]
    by (auto simp: tenants_ok_def items_local_def owner page_write_frame(1) subset_iff)
qed

lemma page_write_content:
  assumes "tenants_ok db" "org_id db (page_write_key w) \<noteq> Some t"
  shows "tenant_content (page_write_run cap w db) t = tenant_content db t"
proof -
  have "tenant_items (page_write_run cap w db) t = tenant_items db t"
  proof (cases "\<exists>organization i. w = Write_Delete organization i \<and>
      count_rows (\<lambda>r. p_id r = i \<and> in_scope db organization r) (db_pages db) \<noteq> 0")
    case True
    then obtain organization i p where w: "w = Write_Delete organization i"
      and n: "count_rows (\<lambda>r. p_id r = i \<and> in_scope db organization r) (db_pages db) \<noteq> 0"
      and p: "p \<in> set (rows (db_pages db))" "p_id p = i" "in_scope db organization p" by (auto simp: count_rows_0)
    have "page_owner db i = Some (p_organization p)"
      using owner_row [of p_id "db_pages db" p p_organization] assms(1) p by (simp add: page_owner_def tenants_ok_def)
    moreover have "p_organization p \<noteq> t" using p(3) assms(2) w by (auto simp: in_scope_def org_scope_def)
    ultimately have "mi_page x \<noteq> Some i" if "x \<in> set (rows (db_items db))" "menu_owner db (mi_menu x) = Some t" for x
      using assms(1) that by (auto simp: tenants_ok_def items_local_def)
    then show ?thesis using n w
      by (auto simp: tenant_items_def menu_owner_def page_write_frame(1,3) simp del: page_write_run.simps intro!: filter_cong)
  next
    case False
    then have "db_items (page_write_run cap w db) = db_items db" by (auto simp: page_write_frame split: page_write.split)
    then show ?thesis by (simp add: tenant_items_def menu_owner_def page_write_frame(1))
  qed
  then show ?thesis
    using page_write_owned [OF assms, of cap] by (simp add: tenant_content_def tenant_menus_def tenant_media_def page_write_frame(1,2))
qed

section \<open>Menus, items and media\<close>

text \<open>The writes of the menus as the panel's handlers make them: an item is added behind the checks that
  the menu and the linked page are the organization's. The handler that edits an item checks the page
  only; an edit is a write of this kind where the menu it names is the organization's.\<close>

datatype menu_write =
    Menu_Create int string new_menu | Menu_Rename int string int string | Menu_Delete string int
  | Item_Add string new_menu_item | Item_Edit string int new_menu_item | Item_Delete string int
  | Media_Create int string new_media | Media_Alt string int string | Media_Delete string int

fun menu_write_run :: "menu_write \<Rightarrow> db \<Rightarrow> db" where
  "menu_write_run (Menu_Create now organization n) db = snd (create_menu db now organization n)"
| "menu_write_run (Menu_Rename now organization i title) db = snd (update_title db now organization i title)"
| "menu_write_run (Menu_Delete organization i) db = snd (delete_menu db organization i)"
| "menu_write_run (Item_Add organization n) db =
    (if load_menu db organization (ni_menu n) \<noteq> None \<and> refers (\<lambda>k. load_page db organization k \<noteq> None) (ni_page n)
     then snd (add_item db n) else db)"
| "menu_write_run (Item_Edit organization i n) db =
    (if load_menu db organization (ni_menu n) \<noteq> None \<and> refers (\<lambda>k. load_page db organization k \<noteq> None) (ni_page n)
     then snd (update_item db organization i n) else db)"
| "menu_write_run (Item_Delete organization i) db = snd (delete_item db organization i)"
| "menu_write_run (Media_Create now organization n) db = snd (create_media db now organization n)"
| "menu_write_run (Media_Alt organization i alt) db = snd (update_alt db organization i alt)"
| "menu_write_run (Media_Delete organization i) db = snd (delete_media db organization i)"

fun menu_write_key :: "menu_write \<Rightarrow> string" where
  "menu_write_key (Menu_Create now organization n) = organization"
| "menu_write_key (Menu_Rename now organization i title) = organization"
| "menu_write_key (Menu_Delete organization i) = organization"
| "menu_write_key (Item_Add organization n) = organization"
| "menu_write_key (Item_Edit organization i n) = organization"
| "menu_write_key (Item_Delete organization i) = organization"
| "menu_write_key (Media_Create now organization n) = organization"
| "menu_write_key (Media_Alt organization i alt) = organization"
| "menu_write_key (Media_Delete organization i) = organization"

lemma scoped_menu_owner:
  assumes "tenants_ok db" "r \<in> set (rows (db_menus db))" "menu_in_scope db organization r"
  shows "menu_owner db (mn_id r) = org_id db organization" "menu_owner db (mn_id r) = Some (mn_organization r)"
  using owner_row [of mn_id "db_menus db" r mn_organization] assms
  by (simp_all add: menu_owner_def tenants_ok_def menu_in_scope_def org_scope_def)

lemma load_menu_owner:
  assumes "tenants_ok db" "load_menu db organization k \<noteq> None"
  shows "\<exists>owner. menu_owner db k = Some owner \<and> org_id db organization = Some owner"
proof -
  from assms(2) obtain r where "r \<in> set (rows (db_menus db))" "mn_id r = k" "menu_in_scope db organization r"
    by (auto simp: load_menu_def find_menu_def dest: select_row_Some)
  with scoped_menu_owner [OF assms(1), of r organization] show ?thesis by simp
qed

lemma item_scope_owner:
  assumes "tenants_ok db" "item_org_scope db organization x"
  shows "menu_owner db (mi_menu x) = org_id db organization"
  using assms scoped_menu_owner [OF assms(1)] by (auto simp: item_org_scope_def select_rows_def)

lemma menu_write_organizations: "org_id (menu_write_run w db) k = org_id db k"
  by (cases w) (simp_all add: create_menu_def update_title_def delete_menu_def add_item_def update_item_def delete_item_def create_media_def
      update_alt_def delete_media_def Let_def org_id_def split: option.split prod.split)

lemma parents_local_cong: "db_pages d = db_pages db \<Longrightarrow> parents_local d = parents_local db"
  by (simp add: parents_local_def page_owner_def)

lemma tenants_ok_cong:
  assumes "tenants_ok db" "db_pages d = db_pages db" "store_ok mn_id (db_menus d)"
    "\<And>x. x \<in> set (rows (db_items d)) \<Longrightarrow> x \<in> set (rows (db_items db)) \<and> menu_owner d (mi_menu x) = menu_owner db (mi_menu x)"
  shows "tenants_ok d"
proof -
  have "page_owner d = page_owner db" by (simp add: page_owner_def assms(2))
  then show ?thesis using assms parents_local_cong [OF assms(2)] by (auto simp: tenants_ok_def items_local_def)
qed

lemma create_menu_tenants:
  assumes "tenants_ok db"
  shows "tenants_ok (snd (create_menu db now organization n))"
    "org_id db organization \<noteq> Some t \<Longrightarrow> tenant_content (snd (create_menu db now organization n)) t = tenant_content db t"
proof -
  let ?d = "snd (create_menu db now organization n)"
  have owner: "menu_owner ?d k = menu_owner db k" if "menu_owner db k \<noteq> None" for k
    using that owner_appended [of mn_id mn_organization "rows (db_menus db)" k]
    by (auto simp: create_menu_def menu_owner_def insert_row_def Let_def split: option.split)
  have items: "db_items ?d = db_items db" and pages: "db_pages ?d = db_pages db" and media: "db_media ?d = db_media db"
    by (auto simp: create_menu_def split: option.split prod.split)
  have "store_ok mn_id (snd (insert_row (new_menu_row n o' now) (db_menus db)))" for o'
    using assms by (intro store_ok_insert) (simp_all add: tenants_ok_def new_menu_row_def)
  then have store: "store_ok mn_id (db_menus ?d)"
    using assms by (auto simp: create_menu_def tenants_ok_def split: option.split prod.split) (metis snd_conv)
  show "tenants_ok ?d"
    using assms by (intro tenants_ok_cong [OF assms pages store]) (auto simp: items owner tenants_ok_def)
  assume "org_id db organization \<noteq> Some t"
  then have "tenant_menus ?d t = tenant_menus db t"
    by (auto simp: tenant_menus_def create_menu_def insert_row_def Let_def new_menu_row_def split: option.split)
  moreover have "tenant_items ?d t = tenant_items db t"
    using assms by (auto simp: tenant_items_def items owner tenants_ok_def intro!: filter_cong)
  ultimately show "tenant_content ?d t = tenant_content db t"
    by (simp add: tenant_content_def owned_pages_def tenant_media_def pages media)
qed

lemma update_title_tenants:
  assumes "tenants_ok db"
  shows "tenants_ok (snd (update_title db now organization i title))"
    "org_id db organization \<noteq> Some t \<Longrightarrow> tenant_content (snd (update_title db now organization i title)) t = tenant_content db t"
proof -
  let ?d = "snd (update_title db now organization i title)"
  let ?t = "\<lambda>r. mn_id r = i \<and> menu_in_scope db organization r"
  let ?f = "\<lambda>r :: menu_row. r\<lparr>mn_title := title, mn_updated_at := now\<rparr>"
  have d: "?d = db \<or> ?d = db\<lparr>db_menus := update_rows ?t ?f (db_menus db)\<rparr>" by (simp add: update_title_def Let_def)
  have "map (\<lambda>r. (mn_id r, mn_organization r)) (rows (update_rows ?t ?f (db_menus db))) = map (\<lambda>r. (mn_id r, mn_organization r)) (rows (db_menus db))"
    by simp
  then have owner: "menu_owner ?d = menu_owner db" using d by (auto simp: menu_owner_def simp del: rows_update)
  have frame: "db_items ?d = db_items db" "db_pages ?d = db_pages db" "db_media ?d = db_media db" using d by auto
  have "store_ok mn_id (db_menus ?d)" using d assms by (auto simp: tenants_ok_def store_ok_update)
  then show "tenants_ok ?d" by (intro tenants_ok_cong [OF assms frame(2)]) (simp_all add: frame owner)
  assume k: "org_id db organization \<noteq> Some t"
  have "filter (\<lambda>r. mn_organization r = t) (map (\<lambda>r. if ?t r then ?f r else r) rs) = filter (\<lambda>r. mn_organization r = t) rs" for rs
    using k by (induction rs) (auto simp: menu_in_scope_def org_scope_def)
  then have "tenant_menus ?d t = tenant_menus db t" using d by (auto simp: tenant_menus_def)
  then show "tenant_content ?d t = tenant_content db t"
    by (simp add: tenant_content_def owned_pages_def tenant_media_def tenant_items_def frame owner)
qed

lemma delete_menu_tenants:
  assumes "tenants_ok db"
  shows "tenants_ok (snd (delete_menu db organization i))"
    "org_id db organization \<noteq> Some t \<Longrightarrow> tenant_content (snd (delete_menu db organization i)) t = tenant_content db t"
proof -
  let ?d = "snd (delete_menu db organization i)"
  let ?t = "\<lambda>r. mn_id r = i \<and> menu_in_scope db organization r"
  have "tenants_ok ?d \<and> (org_id db organization \<noteq> Some t \<longrightarrow> tenant_content ?d t = tenant_content db t)"
  proof (cases "count_rows ?t (db_menus db) = 0")
    case False
    then obtain r where r: "r \<in> set (rows (db_menus db))" "mn_id r = i" "menu_in_scope db organization r" by (auto simp: count_rows_0)
    have d: "?d = db\<lparr>db_menus := delete_rows ?t (db_menus db), db_items := delete_rows (\<lambda>m. mi_menu m = i) (db_items db)\<rparr>"
      using False by (simp add: delete_menu_def)
    have owner: "menu_owner ?d k = menu_owner db k" if "k \<noteq> i" for k
      using owner_deleted [OF that, of ?t mn_id mn_organization "rows (db_menus db)"] by (simp add: d menu_owner_def)
    have "tenants_ok ?d"
    proof (rule tenants_ok_cong [OF assms])
      show "store_ok mn_id (db_menus ?d)" using assms by (simp add: d tenants_ok_def store_ok_delete)
    next
      fix x assume "x \<in> set (rows (db_items ?d))"
      then have "x \<in> set (rows (db_items db))" "mi_menu x \<noteq> i" by (auto simp: d)
      with owner show "x \<in> set (rows (db_items db)) \<and> menu_owner ?d (mi_menu x) = menu_owner db (mi_menu x)" by simp
    qed (simp add: d)
    moreover have "tenant_content ?d t = tenant_content db t" if k: "org_id db organization \<noteq> Some t"
    proof -
      have "menu_owner db i \<noteq> Some t" using scoped_menu_owner(1) [OF assms r(1,3)] r(2) k by simp
      moreover have "rows (db_items ?d) = filter (\<lambda>m. mi_menu m \<noteq> i) (rows (db_items db))" by (simp add: d)
      moreover have "mi_menu x \<noteq> i \<and> menu_owner ?d (mi_menu x) = Some t \<longleftrightarrow> menu_owner db (mi_menu x) = Some t" for x :: menu_item_record
        using owner [of "mi_menu x"] \<open>menu_owner db i \<noteq> Some t\<close> by (cases "mi_menu x = i") auto
      ultimately have "tenant_items ?d t = tenant_items db t" by (simp add: tenant_items_def)
      moreover have "tenant_menus ?d t = tenant_menus db t"
        using k by (auto simp: tenant_menus_def d menu_in_scope_def org_scope_def intro!: filter_cong)
      ultimately show ?thesis by (simp add: tenant_content_def owned_pages_def tenant_media_def d)
    qed
    ultimately show ?thesis by blast
  qed (use assms in \<open>simp add: delete_menu_def Let_def\<close>)
  then show "tenants_ok ?d" "org_id db organization \<noteq> Some t \<Longrightarrow> tenant_content ?d t = tenant_content db t" by blast+
qed

lemma item_add_tenants:
  assumes "tenants_ok db"
  shows "tenants_ok (menu_write_run (Item_Add organization n) db)"
    "org_id db organization \<noteq> Some t \<Longrightarrow> tenant_content (menu_write_run (Item_Add organization n) db) t = tenant_content db t"
proof -
  let ?d = "menu_write_run (Item_Add organization n) db"
  have "tenants_ok ?d \<and> (org_id db organization \<noteq> Some t \<longrightarrow> tenant_content ?d t = tenant_content db t)"
  proof (cases "?d = db")
    case False
    let ?x = "new_item_row n (last_id (db_items db) + 1)"
    have c: "load_menu db organization (ni_menu n) \<noteq> None" "refers (\<lambda>k. load_page db organization k \<noteq> None) (ni_page n)"
      and d: "?d = db\<lparr>db_items := snd (insert_row (new_item_row n) (db_items db))\<rparr>"
      using False by (auto simp: add_item_def split: if_splits option.splits prod.splits)
    have rows: "rows (db_items ?d) = rows (db_items db) @ [?x]" unfolding d by (simp add: insert_row_def Let_def)
    have owner: "menu_owner ?d = menu_owner db" "page_owner ?d = page_owner db" unfolding d by (simp_all add: menu_owner_def page_owner_def)
    have frame: "db_menus ?d = db_menus db" "db_pages ?d = db_pages db" "db_media ?d = db_media db" unfolding d by simp_all
    note m = load_menu_owner [OF assms c(1)]
    have x: "mi_menu ?x = ni_menu n" "mi_page ?x = ni_page n" by (simp_all add: new_item_row_def)
    have "page_owner db k \<noteq> None \<and> page_owner db k = menu_owner db (ni_menu n)" if "ni_page n = Some k" for k
      using load_page_owner [OF assms, of organization k] c(2) m that by (auto simp: refers_def)
    with assms m parents_local_cong [OF frame(2)] have "tenants_ok ?d"
      unfolding tenants_ok_def items_local_def owner rows frame by (auto simp: x simp del: menu_write_run.simps)
    moreover have "tenant_items ?d t = tenant_items db t" if "org_id db organization \<noteq> Some t"
      using m that unfolding tenant_items_def rows owner by (auto simp: x)
    ultimately show ?thesis
      unfolding tenant_content_def owned_pages_def tenant_menus_def tenant_media_def frame by blast
  qed (use assms in simp)
  then show "tenants_ok ?d" "org_id db organization \<noteq> Some t \<Longrightarrow> tenant_content ?d t = tenant_content db t" by blast+
qed

lemma item_edit_tenants:
  assumes "tenants_ok db"
  shows "tenants_ok (menu_write_run (Item_Edit organization i n) db)"
    "org_id db organization \<noteq> Some t \<Longrightarrow> tenant_content (menu_write_run (Item_Edit organization i n) db) t = tenant_content db t"
proof -
  let ?d = "menu_write_run (Item_Edit organization i n) db"
  let ?t = "\<lambda>r. mi_id r = i \<and> item_org_scope db organization r"
  let ?f = "\<lambda>r :: menu_item_record. r\<lparr>mi_menu := ni_menu n, mi_position := ni_position n, mi_label := ni_label n, mi_page := ni_page n, mi_url := ni_url n\<rparr>"
  have "tenants_ok ?d \<and> (org_id db organization \<noteq> Some t \<longrightarrow> tenant_content ?d t = tenant_content db t)"
  proof (cases "?d = db")
    case False
    have c: "load_menu db organization (ni_menu n) \<noteq> None" "refers (\<lambda>k. load_page db organization k \<noteq> None) (ni_page n)"
      and d: "?d = db\<lparr>db_items := update_rows ?t ?f (db_items db)\<rparr>"
      using False by (auto simp: update_item_def Let_def split: if_splits option.splits)
    have rows: "rows (db_items ?d) = map (\<lambda>r. if ?t r then ?f r else r) (rows (db_items db))" unfolding d by simp
    have owner: "menu_owner ?d = menu_owner db" "page_owner ?d = page_owner db" unfolding d by (simp_all add: menu_owner_def page_owner_def)
    have frame: "db_menus ?d = db_menus db" "db_pages ?d = db_pages db" "db_media ?d = db_media db" unfolding d by simp_all
    note m = load_menu_owner [OF assms c(1)]
    have "page_owner db k \<noteq> None \<and> page_owner db k = menu_owner db (ni_menu n)" if "ni_page n = Some k" for k
      using load_page_owner [OF assms, of organization k] c(2) m that by (auto simp: refers_def)
    with assms m parents_local_cong [OF frame(2)] have "tenants_ok ?d"
      unfolding tenants_ok_def items_local_def owner rows frame by (auto simp del: menu_write_run.simps)
    moreover have "tenant_items ?d t = tenant_items db t" if "org_id db organization \<noteq> Some t"
    proof -
      have "filter (\<lambda>r. menu_owner db (mi_menu r) = Some t) (map (\<lambda>r. if ?t r then ?f r else r) rs) =
          filter (\<lambda>r. menu_owner db (mi_menu r) = Some t) rs" for rs
        using m that item_scope_owner [OF assms, of organization] by (induction rs) auto
      then show ?thesis by (simp add: tenant_items_def rows owner del: menu_write_run.simps)
    qed
    ultimately show ?thesis
      unfolding tenant_content_def owned_pages_def tenant_menus_def tenant_media_def frame by blast
  qed (use assms in simp)
  then show "tenants_ok ?d" "org_id db organization \<noteq> Some t \<Longrightarrow> tenant_content ?d t = tenant_content db t" by blast+
qed

lemma delete_item_tenants:
  assumes "tenants_ok db"
  shows "tenants_ok (snd (delete_item db organization i))"
    "org_id db organization \<noteq> Some t \<Longrightarrow> tenant_content (snd (delete_item db organization i)) t = tenant_content db t"
proof -
  let ?d = "snd (delete_item db organization i)"
  have d: "?d = db\<lparr>db_items := delete_rows (\<lambda>r. mi_id r = i \<and> item_org_scope db organization r) (db_items db)\<rparr>"
    by (simp add: delete_item_def Let_def)
  have owner: "menu_owner ?d = menu_owner db" by (simp add: d menu_owner_def)
  show "tenants_ok ?d"
    by (rule tenants_ok_cong [OF assms]) (use assms in \<open>auto simp: owner, auto simp: d tenants_ok_def\<close>)
  assume "org_id db organization \<noteq> Some t"
  then have "tenant_items ?d t = tenant_items db t"
    using item_scope_owner [OF assms, of organization] unfolding tenant_items_def owner by (auto simp: d intro!: filter_cong)
  then show "tenant_content ?d t = tenant_content db t"
    by (simp add: tenant_content_def owned_pages_def tenant_menus_def tenant_media_def d)
qed

lemma media_write_tenants:
  assumes "tenants_ok db" "d = db\<lparr>db_media := s\<rparr>"
  shows "tenants_ok d" "tenant_media d t = tenant_media db t \<Longrightarrow> tenant_content d t = tenant_content db t"
proof -
  have "menu_owner d = menu_owner db" by (simp add: menu_owner_def assms(2))
  with assms show "tenants_ok d" by (intro tenants_ok_cong [OF assms(1)]) (auto simp: tenants_ok_def)
  show "tenant_content d t = tenant_content db t" if "tenant_media d t = tenant_media db t"
    using that by (simp add: tenant_content_def owned_pages_def tenant_menus_def tenant_items_def menu_owner_def assms(2))
qed

lemma media_tenants:
  assumes "tenants_ok db" "w = Media_Create now organization n \<or> w = Media_Alt organization i alt \<or> w = Media_Delete organization i"
  shows "tenants_ok (menu_write_run w db)"
    "org_id db organization \<noteq> Some t \<Longrightarrow> tenant_content (menu_write_run w db) t = tenant_content db t"
proof -
  have d: "menu_write_run w db = db\<lparr>db_media := db_media (menu_write_run w db)\<rparr>"
    using assms(2) by (auto simp: create_media_def update_alt_def delete_media_def Let_def split: option.split prod.split)
  show "tenants_ok (menu_write_run w db)" by (rule media_write_tenants(1) [OF assms(1) d])
  assume k: "org_id db organization \<noteq> Some t"
  have "filter (\<lambda>r. md_organization r = t) (map (\<lambda>r. if md_id r = i \<and> media_in_scope db organization r then r\<lparr>md_alt_text := alt\<rparr> else r) rs) =
      filter (\<lambda>r. md_organization r = t) rs" for rs
    using k by (induction rs) (auto simp: media_in_scope_def org_scope_def)
  moreover have "filter (\<lambda>r. md_organization r = t) (filter (\<lambda>r. \<not> (md_id r = i \<and> media_in_scope db organization r)) rs) =
      filter (\<lambda>r. md_organization r = t) rs" for rs
    using k by (induction rs) (auto simp: media_in_scope_def org_scope_def)
  moreover have "tenant_media (snd (create_media db now organization n)) t = tenant_media db t"
    using k by (auto simp: tenant_media_def create_media_def insert_row_def Let_def new_media_row_def split: option.split)
  ultimately have "tenant_media (menu_write_run w db) t = tenant_media db t"
    using assms(2) by (elim disjE) (simp_all add: tenant_media_def update_alt_def delete_media_def Let_def)
  then show "tenant_content (menu_write_run w db) t = tenant_content db t" by (rule media_write_tenants(2) [OF assms(1) d])
qed

lemma menu_write_tenants:
  assumes "tenants_ok db"
  shows "tenants_ok (menu_write_run w db)"
    "org_id db (menu_write_key w) \<noteq> Some t \<Longrightarrow> tenant_content (menu_write_run w db) t = tenant_content db t"
proof -
  show "tenants_ok (menu_write_run w db)"
    using create_menu_tenants(1) [OF assms] update_title_tenants(1) [OF assms] delete_menu_tenants(1) [OF assms]
      item_add_tenants(1) [OF assms] item_edit_tenants(1) [OF assms] delete_item_tenants(1) [OF assms] media_tenants(1) [OF assms, of w]
    by (cases w) (simp_all del: menu_write_run.simps add: menu_write_run.simps(1-3,6))
  assume "org_id db (menu_write_key w) \<noteq> Some t"
  then show "tenant_content (menu_write_run w db) t = tenant_content db t"
    using create_menu_tenants(2) [OF assms] update_title_tenants(2) [OF assms] delete_menu_tenants(2) [OF assms]
      item_add_tenants(2) [OF assms] item_edit_tenants(2) [OF assms] delete_item_tenants(2) [OF assms] media_tenants(2) [OF assms, of w]
    by (cases w) (simp_all del: menu_write_run.simps add: menu_write_run.simps(1-3,6))
qed

section \<open>The handlers\<close>

datatype panel_call =
    Create_Page_Call request "(string, page_form) result" member
  | Update_Page_Call request int "(string, page_form) result" member
  | Restore_Call request int int member
  | Delete_Page_Call int member
  | Import_Call import_files request "(string, string) result" member
  | Create_Menu_Call request "(string, menu_form) result" member
  | Rename_Menu_Call request int "(string, string) result" member
  | Delete_Menu_Call int member
  | Create_Item_Call request int "(string, item_form) result" member
  | Update_Item_Call request int int "(string, item_form) result" member
  | Delete_Item_Call int int member

fun run_call :: "panel \<Rightarrow> panel_call \<Rightarrow> db \<Rightarrow> reply \<times> db" where
  "run_call pn (Create_Page_Call rq input m) db = create_page_route pn rq input m db"
| "run_call pn (Update_Page_Call rq i input m) db = update_page_route pn rq i input m db"
| "run_call pn (Restore_Call rq i revision m) db = restore_revision_route pn rq i revision m db"
| "run_call pn (Delete_Page_Call i m) db = delete_page_route pn i m db"
| "run_call pn (Import_Call fs rq input m) db = import_page_route fs pn rq input m db"
| "run_call pn (Create_Menu_Call rq input m) db = create_menu_route pn rq input m db"
| "run_call pn (Rename_Menu_Call rq i input m) db = rename_menu_route pn rq i input m db"
| "run_call pn (Delete_Menu_Call i m) db = delete_menu_route pn i m db"
| "run_call pn (Create_Item_Call rq menu input m) db = create_item_route pn rq menu input m db"
| "run_call pn (Update_Item_Call rq menu i input m) db = update_item_route pn rq menu i input m db"
| "run_call pn (Delete_Item_Call menu i m) db = delete_item_route pn menu i m db"

fun panel_caller :: "panel_call \<Rightarrow> member" where
  "panel_caller (Create_Page_Call rq input m) = m"
| "panel_caller (Update_Page_Call rq i input m) = m"
| "panel_caller (Restore_Call rq i revision m) = m"
| "panel_caller (Delete_Page_Call i m) = m"
| "panel_caller (Import_Call fs rq input m) = m"
| "panel_caller (Create_Menu_Call rq input m) = m"
| "panel_caller (Rename_Menu_Call rq i input m) = m"
| "panel_caller (Delete_Menu_Call i m) = m"
| "panel_caller (Create_Item_Call rq menu input m) = m"
| "panel_caller (Update_Item_Call rq menu i input m) = m"
| "panel_caller (Delete_Item_Call menu i m) = m"

definition one_write :: "string \<Rightarrow> db \<Rightarrow> db \<Rightarrow> bool" where
  "one_write organization db d \<longleftrightarrow> d = db \<or>
     (\<exists>cap w. page_write_key w = organization \<and> page_write_local w db \<and> d = page_write_run cap w db) \<or>
     (\<exists>w. menu_write_key w = organization \<and> d = menu_write_run w db)"

lemma one_write_page: "page_write_local w db \<Longrightarrow> one_write (page_write_key w) db (page_write_run cap w db)"
  unfolding one_write_def by blast

lemma one_write_menu: "one_write (menu_write_key w) db (menu_write_run w db)"
  unfolding one_write_def by blast

lemma one_write_none: "one_write organization db db"
  by (simp add: one_write_def)

lemma page_calls_write:
  "one_write (mb_organization m) db (snd (create_page_route pn rq input m db))"
  "one_write (mb_organization m) db (snd (update_page_route pn rq i input m db))"
  "one_write (mb_organization m) db (snd (restore_revision_route pn rq i revision m db))"
  "one_write (mb_organization m) db (snd (delete_page_route pn i m db))"
  "one_write (mb_organization m) db (snd (import_page_route fs pn rq file m db))"
proof -
  let ?local = "\<lambda>x. refers (\<lambda>k. load_page db (mb_organization m) k \<noteq> None) x"
  have create: "one_write (mb_organization m) db (snd (create_page cap db now (mb_organization m) np))" if "?local (np_parent np)" for cap now np
    using that one_write_page [of "Write_Create now (mb_organization m) np" db] by simp
  have update: "one_write (mb_organization m) db (snd (update_page cap db now (mb_organization m) i u))"
    if "judge_parent db (mb_organization m) i (up_parent u) = Parent_Fine" for cap now i u
    using that one_write_page [of "Write_Update now (mb_organization m) i u" db]
    by (auto simp: refers_def judge_parent_def split: option.splits if_splits)
  show "one_write (mb_organization m) db (snd (create_page_route pn rq input m db))"
    by (rule create_page_route_db [of pn rq input m db]) (use create one_write_none in \<open>auto simp: refers_def\<close>)
  show "one_write (mb_organization m) db (snd (update_page_route pn rq i input m db))"
    by (rule update_page_route_db [of pn rq i input m db]) (use update one_write_none in auto)
  show "one_write (mb_organization m) db (snd (restore_revision_route pn rq i revision m db))"
  proof (rule restore_revision_route_db [of pn rq i revision m db])
    fix cap p v r
    assume "update_page cap db (rq_now rq) (mb_organization m) i (restore_update p v (au_user_id (mb_user m)) revision) =
        (r, snd (restore_revision_route pn rq i revision m db))"
      "judge_parent db (mb_organization m) i (vr_parent v) = Parent_Fine"
    then show ?thesis using update [of i "restore_update p v (au_user_id (mb_user m)) revision" cap "rq_now rq"]
      by (simp add: restore_update_def)
  qed (simp add: one_write_none)
  show "one_write (mb_organization m) db (snd (delete_page_route pn i m db))"
    using one_write_page [of "Write_Delete (mb_organization m) i" db] one_write_none by (cases "delete_page db (mb_organization m) i") (auto simp: delete_page_route_def with_cms_def split: option.split sum.split)
  have "snd (import_page_route fs pn rq file m db) = db \<or>
      (\<exists>cap f c. snd (import_page_route fs pn rq file m db) =
        snd (create_page cap db (rq_now rq) (mb_organization m) (import_page_of f c (au_user_id (mb_user m)))))"
    by (auto simp: import_page_route_def with_cms_def Let_def split: option.split sum.split prod.split repository_error.split) (metis snd_conv)+
  moreover have parentless: "np_parent (import_page_of f c a) = None" for f c a by (simp add: import_page_of_def Let_def)
  ultimately show "one_write (mb_organization m) db (snd (import_page_route fs pn rq file m db))"
    using create one_write_none parentless by (auto simp: refers_def)
qed

lemma menu_calls_write:
  "one_write (mb_organization m) db (snd (create_menu_route pn rq menu m db))"
  "one_write (mb_organization m) db (snd (rename_menu_route pn rq i title m db))"
  "one_write (mb_organization m) db (snd (delete_menu_route pn i m db))"
  "one_write (mb_organization m) db (snd (create_item_route pn rq i input m db))"
  "one_write (mb_organization m) db (snd (delete_item_route pn i j m db))"
proof -
  let ?o = "mb_organization m"
  note w = one_write_menu [where db = db]
  have "one_write ?o db (snd (create_menu db now ?o n))" for now n using w [of "Menu_Create now ?o n"] by simp
  then show "one_write ?o db (snd (create_menu_route pn rq menu m db))"
    by (auto simp: create_menu_route_def with_cms_def Let_def one_write_none split: option.split sum.split prod.split repository_error.split) (metis snd_conv)+
  have "one_write ?o db (snd (update_title db now ?o i t))" for now t using w [of "Menu_Rename now ?o i t"] by simp
  then show "one_write ?o db (snd (rename_menu_route pn rq i title m db))"
    by (auto simp: rename_menu_route_def with_cms_def Let_def one_write_none split: option.split sum.split prod.split) (metis snd_conv)+
  show "one_write ?o db (snd (delete_menu_route pn i m db))"
    using w [of "Menu_Delete ?o i"] one_write_none
    by (cases "delete_menu db ?o i") (auto simp: delete_menu_route_def with_cms_def split: option.split sum.split)
  show "one_write ?o db (snd (delete_item_route pn i j m db))"
    using w [of "Item_Delete ?o j"] one_write_none
    by (cases "delete_item db ?o j") (auto simp: delete_item_route_def with_cms_def Let_def split: option.split sum.split)
  show "one_write ?o db (snd (create_item_route pn rq i input m db))"
  proof (cases "\<exists>cap f. pn_cms pn = Some cap \<and> load_menu db ?o i \<noteq> None \<and> input = Inr f \<and> validate_item_form db ?o f = Inr ()")
    case True
    then obtain cap f where c: "pn_cms pn = Some cap" "load_menu db ?o i \<noteq> None" "input = Inr f" "validate_item_form db ?o f = Inr ()" by blast
    have "refers (\<lambda>k. load_page db ?o k \<noteq> None) (item_form_page f)"
      using c(4) by (auto simp: validate_item_form_def refers_def and_then_def check_def split: option.splits sum.splits if_splits)
    moreover have "snd (create_item_route pn rq i input m db) = snd (add_item db (item_of_form i f))"
      using c by (cases "add_item db (item_of_form i f)") (auto simp add: create_item_route_def with_cms_def Let_def split: sum.split)
    ultimately show ?thesis using w [of "Item_Add ?o (item_of_form i f)"] c(2) by (simp add: item_of_form_def)
  next
    case False
    then have "snd (create_item_route pn rq i input m db) = db"
      by (auto simp: create_item_route_def with_cms_def Let_def split: option.split sum.split)
    then show ?thesis by (simp add: one_write_none)
  qed
qed

text \<open>The edit of an item is such a write where its address names a menu of the caller's organization.\<close>

definition edits_own_menu :: "db \<Rightarrow> panel_call \<Rightarrow> bool" where
  "edits_own_menu db call \<longleftrightarrow> (case call of
     Update_Item_Call rq menu i input m \<Rightarrow> load_menu db (mb_organization m) menu \<noteq> None
   | _ \<Rightarrow> True)"

lemma update_item_writes:
  assumes "load_menu db (mb_organization m) menu \<noteq> None"
  shows "one_write (mb_organization m) db (snd (update_item_route pn rq menu i input m db))"
proof (cases "\<exists>cap f. pn_cms pn = Some cap \<and> input = Inr f \<and> validate_item_form db (mb_organization m) f = Inr () \<and>
    \<not> (case find_item db (mb_organization m) i of Inr item \<Rightarrow> item = None | Inl _ \<Rightarrow> True)")
  case True
  let ?o = "mb_organization m"
  from True obtain cap f where c: "pn_cms pn = Some cap" "input = Inr f" "validate_item_form db ?o f = Inr ()"
    "\<not> (case find_item db ?o i of Inr item \<Rightarrow> item = None | Inl _ \<Rightarrow> True)" by blast
  have "refers (\<lambda>k. load_page db ?o k \<noteq> None) (item_form_page f)"
    using c(3) by (auto simp: validate_item_form_def refers_def and_then_def check_def split: option.splits sum.splits if_splits)
  moreover have "snd (update_item_route pn rq menu i input m db) = snd (update_item db ?o i (item_of_form menu f))"
    using c by (cases "update_item db ?o i (item_of_form menu f)")
      (auto simp add: update_item_route_def with_cms_def Let_def split: sum.split option.split)
  ultimately show ?thesis
    using one_write_menu [of "Item_Edit ?o i (item_of_form menu f)" db] assms by (simp add: item_of_form_def)
next
  case False
  then have "snd (update_item_route pn rq menu i input m db) = db"
    by (auto simp: update_item_route_def with_cms_def Let_def split: option.split sum.split)
  then show ?thesis by (simp add: one_write_none)
qed

lemma call_writes: "edits_own_menu db call \<Longrightarrow> one_write (mb_organization (panel_caller call)) db (snd (run_call pn call db))"
  by (cases call) (simp_all add: page_calls_write menu_calls_write update_item_writes edits_own_menu_def)

definition home_call :: "panel \<Rightarrow> panel_call \<Rightarrow> db \<Rightarrow> db" where
  "home_call pn call db = (if edits_own_menu db call then snd (run_call pn call db) else db)"

lemma home_call_writes: "one_write (mb_organization (panel_caller call)) db (home_call pn call db)"
  by (simp add: home_call_def call_writes one_write_none)

interpretation panel_tenancy: scoped_writes "home_call pn" "\<lambda>call. mb_organization (panel_caller call)" tenant_content tenants_ok
proof
  fix db call t k
  note w = home_call_writes [of call db pn, unfolded one_write_def]
  show "tenants_ok db \<Longrightarrow> org_id db (mb_organization (panel_caller call)) \<noteq> Some t \<Longrightarrow>
      tenant_content (home_call pn call db) t = tenant_content db t"
    using w page_write_content menu_write_tenants(2) by metis
  show "org_id (home_call pn call db) k = org_id db k"
    using w page_write_organizations menu_write_organizations by metis
  show "tenants_ok db \<Longrightarrow> tenants_ok (home_call pn call db)"
    using w page_write_tenants menu_write_tenants(1) by metis
qed

text \<open>A run in which every edit of an item names a menu that is the caller's organization's at that time.\<close>

fun edits_at_home :: "panel \<Rightarrow> panel_call list \<Rightarrow> db \<Rightarrow> bool" where
  "edits_at_home pn [] db \<longleftrightarrow> True"
| "edits_at_home pn (call # calls) db \<longleftrightarrow> edits_own_menu db call \<and> edits_at_home pn calls (snd (run_call pn call db))"

lemma edits_at_home_run:
  "edits_at_home pn calls db \<Longrightarrow> foldl (\<lambda>d call. snd (run_call pn call d)) db calls = panel_tenancy.run_all pn calls db"
  by (induction calls arbitrary: db) (simp_all add: panel_tenancy.run_all_def home_call_def)

section \<open>Properties\<close>

text \<open>
  C11: Editors of other organizations cannot touch an organization's content: after any sequence of
  creations, edits, restores, deletions and imports of pages, creations, renames and deletions of
  menus, and additions, edits and deletions of items, none of them called by a member of the
  organization, its pages with their places in the tree, its menus, items and media are what they were;
  and pages, items and their links still stay inside the organizations.
  For the edits of items this asks that the menu in the address is one of the caller's organization
  when the edit runs: the handler does not check it, and the lemma below shows what happens without.
\<close>

theorem content_is_isolated:
  assumes "tenants_ok db" "\<forall>call \<in> set calls. org_id db (mb_organization (panel_caller call)) \<noteq> Some tenant"
    "edits_at_home pn calls db"
  shows "tenants_ok (foldl (\<lambda>d call. snd (run_call pn call d)) db calls) \<and>
    tenant_content (foldl (\<lambda>d call. snd (run_call pn call d)) db calls) tenant = tenant_content db tenant"
  unfolding edits_at_home_run [OF assms(3)]
  using panel_tenancy.foreign_writes [OF assms(1), of calls tenant pn] panel_tenancy.run_all_consistent [OF assms(1), of pn calls]
    assms(2) by blast

text \<open>
  The edit of an item does not check that the menu the item is saved in belongs to the caller's
  organization. An editor of the first organization moves an own item into the menu
  of the second one; the answer is the one for an item that is not there.
\<close>

definition moved_site :: db where
  "moved_site = menu_site\<lparr>db_items := \<lparr>last_id = 2, rows = [new_item_row (page_item 1 1) 1,
     new_item_row \<lparr>ni_menu = 2, ni_position = 0, ni_label = Some ''X'', ni_page = None, ni_url = Some ''/''\<rparr> 2]\<rparr>\<rparr>"

lemma trim_samples [simp]: "trim ''X'' = ''X''" "trim ''/'' = ''/''"
  by (rule trim_graphic; simp add: graphic_def code_def char_of_def bit_0)+

lemma menu_site_parts:
  "rows (db_menus menu_site) = [menu_of ''main'' 1 1, menu_of ''main'' 2 2]"
  "db_items menu_site = \<lparr>last_id = 2, rows = [new_item_row (page_item 1 1) 1, new_item_row (url_item 1) 2]\<rparr>"
  by (simp_all add: menu_site_def)

lemma menu_site_scope:
  "item_org_scope (menu_site\<lparr>db_items := s\<rparr>) ''cms'' = (\<lambda>i. mi_menu i = 1)"
  "item_org_scope menu_site ''cms'' = (\<lambda>i. mi_menu i = 1)"
proof -
  have "org_id menu_site ''cms'' = Some 1" using site_orgs(1) by (simp add: menu_site_def two_pages_def org_id_def)
  then show "item_org_scope (menu_site\<lparr>db_items := s\<rparr>) ''cms'' = (\<lambda>i. mi_menu i = 1)" "item_org_scope menu_site ''cms'' = (\<lambda>i. mi_menu i = 1)"
    by (auto simp: item_org_scope_def select_rows_def menu_in_scope_def org_scope_def org_id_def menu_site_parts menu_of_def
        new_menu_row_def fun_eq_iff)
qed

lemma item_moves_to_foreign_menu:
  "update_item_route (panel_of sv) rq 2 2 (Inr \<lparr>if_label = Some ''X'', if_page_id = None, if_url = Some ''/'', if_position = None\<rparr>)
      (member_of ''cms'') menu_site = (See_Other (menu_path 2 []), moved_site) \<and>
    org_id menu_site ''cms'' = Some 1 \<and> tenant_items menu_site 2 = [] \<and> length (tenant_items moved_site 2) = 1"
proof (intro conjI)
  let ?f = "\<lparr>if_label = Some ''X'', if_page_id = None, if_url = Some ''/'', if_position = None\<rparr>"
  have "validate_item_form menu_site ''cms'' ?f = Inr ()"
    by (simp add: validate_item_form_def parse_position_def trimmed_def item_form_label_def item_form_page_def item_form_url_def
        check_def max_menu_label_def max_url_field_def item_url_ok_def starts_with_def)
  moreover have "find_item menu_site ''cms'' 2 = Inr (Some (new_item_row (url_item 1) 2))"
    by (simp add: find_item_def select_row_def menu_site_scope menu_site_parts new_item_row_def page_item_def url_item_def)
  moreover have "item_of_form 2 ?f = \<lparr>ni_menu = 2, ni_position = 0, ni_label = Some ''X'', ni_page = None, ni_url = Some ''/''\<rparr>"
    by (simp add: item_of_form_def item_form_position_def position_or_zero_def parse_position_def trimmed_def item_form_label_def
        item_form_page_def item_form_url_def)
  moreover have "update_item menu_site ''cms'' 2 \<lparr>ni_menu = 2, ni_position = 0, ni_label = Some ''X'', ni_page = None, ni_url = Some ''/''\<rparr> =
      (Inr None, moved_site)"
    by (simp add: update_item_def Let_def count_rows_def select_rows_def menu_site_scope menu_site_parts new_item_row_def
        page_item_def url_item_def item_constraints_def refers_def menu_exists_iff menu_of_def new_menu_row_def update_rows_def
        moved_site_def find_item_def select_row_def)
  ultimately show "update_item_route (panel_of sv) rq 2 2 (Inr ?f) (member_of ''cms'') menu_site = (See_Other (menu_path 2 []), moved_site)"
    by (simp add: update_item_route_def with_cms_def panel_of_def member_of_def Let_def)
  show "org_id menu_site ''cms'' = Some 1" using site_orgs(1) by (simp add: menu_site_def two_pages_def org_id_def)
qed (simp_all add: tenant_items_def menu_owner_def moved_site_def menu_site_defs)

lemma content_is_isolated_witness:
  "\<forall>sv rq. tenant_content (foldl (\<lambda>d call. snd (run_call (panel_of sv) call d)) menu_site
      [Update_Item_Call rq 1 1 (Inr \<lparr>if_label = Some ''X'', if_page_id = None, if_url = Some ''/'', if_position = None\<rparr>) (member_of ''cms''),
       Delete_Page_Call 1 (member_of ''cms''), Delete_Menu_Call 2 (member_of ''cms''), Delete_Item_Call 1 1 (member_of ''cms'')]) 2 =
    tenant_content menu_site 2"
proof -
  have "tenants_ok menu_site"
    by (simp add: tenants_ok_def items_local_def parents_local_def store_ok_def page_owner_def menu_owner_def menu_site_defs)
  moreover have "org_id menu_site ''cms'' = Some 1" using site_orgs(1) by (simp add: menu_site_def two_pages_def org_id_def)
  moreover from this have "load_menu menu_site ''cms'' 1 \<noteq> None"
    by (simp add: load_menu_def find_menu_def select_row_def menu_in_scope_def org_scope_def menu_site_parts menu_of_def new_menu_row_def)
  ultimately show ?thesis by (intro allI content_is_isolated [THEN conjunct2]) (simp_all add: member_of_def edits_own_menu_def)
qed

end
