(* ===== verification/Template_Globals.thy ===== *)
theory Template_Globals
  imports Panel_Menus
begin

text \<open>
  \<open>src/src/middleware/templates.rs\<close>, the globals every template render receives: the verified
  identity, the request with its allowlisted headers, the public pages and menus of the organization
  the host serves, and the links to the sign-in page.
\<close>

section \<open>A visit\<close>

text \<open>The request facts a page flow reads. The query comes decoded into pairs, and raw; header names
  are lower case.\<close>

record visit =
  vs_request :: request
  vs_method :: string
  vs_path :: string
  vs_path_and_query :: "string option"
  vs_raw_query :: "string option"
  vs_query :: "(string \<times> string) list"
  vs_headers :: "(string \<times> header_value) list"

text \<open>The CMS surface: the panel's configuration, whether templates see the user, the origin of the
  CMS host, and the form encoding of a value (\<open>url\<close>).\<close>

record surface =
  su_panel :: panel
  su_expose_user :: bool
  su_cms_origin :: string
  su_form_encode :: "string \<Rightarrow> string"

abbreviation su_server :: "surface \<Rightarrow> server" where
  "su_server su \<equiv> pn_server (su_panel su)"

definition visit_organization :: "surface \<Rightarrow> visit \<Rightarrow> string" where
  "visit_organization su v = request_organization (su_panel su) (vs_request v)"

section \<open>The globals\<close>

definition pages_global_limit :: int where "pages_global_limit = 50"

definition safe_req_names :: "string list" where
  "safe_req_names = [''accept'', ''accept-language'', ''content-type'', ''host'', ''referer'', ''user-agent'']"

definition template_user :: "surface \<Rightarrow> visit \<Rightarrow> auth_user option" where
  "template_user su v =
     (if su_expose_user su
      then (case request_user (su_server su) (vs_request v) of Inr u \<Rightarrow> Some u | Inl _ \<Rightarrow> None)
      else None)"

definition user_json :: "auth_user \<Rightarrow> json" where
  "user_json u = J_Obj [(''id'', J_Int (au_user_id u)), (''username'', J_Str (au_username u)), (''role'', J_Str (role_as_str (au_role u)))]"

definition query_global :: "(string \<times> string) list \<Rightarrow> json" where
  "query_global params =
     J_Obj (foldl (\<lambda>m (k, v). if map_of m k = None then m @ [(k, J_Str v)] else m) [] params)"

definition safe_req_headers :: "(string \<times> header_value) list \<Rightarrow> json" where
  "safe_req_headers headers =
     J_Obj (List.map_filter (\<lambda>name. map_option (\<lambda>value. (name, J_Str (case value of Some s \<Rightarrow> s | None \<Rightarrow> []))) (map_of headers name))
       safe_req_names)"

definition req_global :: "visit \<Rightarrow> json" where
  "req_global v =
     J_Obj [(''method'', J_Str (vs_method v)),
       (''url'', J_Str (case vs_path_and_query v of Some u \<Rightarrow> u | None \<Rightarrow> vs_path v)),
       (''path'', J_Str (vs_path v)), (''query'', query_global (vs_query v)), (''headers'', safe_req_headers (vs_headers v))]"

definition pages_global :: "surface \<Rightarrow> int \<Rightarrow> string \<Rightarrow> db \<Rightarrow> json" where
  "pages_global su now organization db =
     (if pn_cms (su_panel su) = None then J_Arr []
      else (case list_pages db now organization False pages_global_limit of
         Inl _ \<Rightarrow> J_Arr []
       | Inr pages \<Rightarrow>
           J_Arr (map (\<lambda>p. J_Obj [(''id'', J_Int (ps_id p)), (''slug'', J_Str (ps_slug p)), (''title'', J_Str (ps_title p)),
             (''updated_at'', J_Int (ps_updated_at p)), (''updated_at_h'', J_Str (format_timestamp (ps_updated_at p)))]) pages)))"

definition menus_global :: "surface \<Rightarrow> int \<Rightarrow> string \<Rightarrow> db \<Rightarrow> json" where
  "menus_global su now organization db =
     (if pn_cms (su_panel su) = None then J_Obj []
      else (case resolved db now organization of
         Inl _ \<Rightarrow> J_Obj []
       | Inr menus \<Rightarrow>
           J_Obj (map (\<lambda>(menu, items). (mr_name menu,
             J_Arr (map (\<lambda>i. J_Obj [(''label'', J_Str (ri_label i)), (''href'', J_Str (ri_url i))]) items))) menus)))"

definition pair_theme :: "string \<Rightarrow> string option" where
  "pair_theme p =
     (case split_once (CHR ''='') (trim p) of
        Some (name, theme) \<Rightarrow> if name = ''wm_theme'' \<and> (theme = ''dark'' \<or> theme = ''light'') then Some theme else None
      | None \<Rightarrow> None)"

definition header_theme :: "header_value \<Rightarrow> string option" where
  "header_theme value =
     (case value of
        None \<Rightarrow> None
      | Some raw \<Rightarrow> (case List.map_filter pair_theme (split_on (CHR '';'') raw) of t # _ \<Rightarrow> Some t | [] \<Rightarrow> None))"

definition pinned_theme :: "header_value list \<Rightarrow> string option" where
  "pinned_theme cookies = (case List.map_filter header_theme cookies of t # _ \<Rightarrow> Some t | [] \<Rightarrow> None)"

definition theme_global :: "header_value list \<Rightarrow> json" where
  "theme_global cookies = j_opt J_Str (pinned_theme cookies)"

definition login_url_global :: "surface \<Rightarrow> visit \<Rightarrow> string" where
  "login_url_global su v =
     (let rq = vs_request v; sv = su_server su;
          here = (case vs_path_and_query v of Some u \<Rightarrow> u | None \<Rightarrow> ''/'');
          local_link = ''/login?redirect='' @ encode_uri_component here in
      case classify (rq_authority rq) (rq_hosts rq) (sv_bindings sv) of
        Tenant _ \<Rightarrow> local_link
      | _ \<Rightarrow>
          if su_cms_origin su = [] then local_link
          else (let scheme = (if sv_tls_enabled sv then ''https'' else ''http'');
                    target = (case request_host (rq_authority rq) (rq_hosts rq) of
                       Some host \<Rightarrow> scheme @ ''://'' @ host @ here
                     | None \<Rightarrow> here)
                in su_cms_origin su @ ''/login?redirect='' @ encode_uri_component target))"

text \<open>The role inside the organization, read for the panel's paths only.\<close>

definition member_role_global :: "surface \<Rightarrow> visit \<Rightarrow> db \<Rightarrow> json" where
  "member_role_global su v db =
     (case template_user su v of
        Some u \<Rightarrow>
          if starts_with ''/admin'' (vs_path v)
          then (case membership_role db (au_user_id u) (visit_organization su v) of
                  Inr (Some role) \<Rightarrow> J_Str (role_as_str role)
                | _ \<Rightarrow> J_Null)
          else J_Null
      | None \<Rightarrow> J_Null)"

definition base_data :: "surface \<Rightarrow> visit \<Rightarrow> db \<Rightarrow> (string \<times> json) list" where
  "base_data su v db =
     (let now = rq_now (vs_request v); organization = visit_organization su v in
      [(''user'', j_opt user_json (template_user su v)), (''path'', J_Str (vs_path v)), (''query'', query_global (vs_query v)),
       (''pages'', pages_global su now organization db), (''menus'', menus_global su now organization db), (''req'', req_global v),
       (''theme'', theme_global (rq_cookies (vs_request v))), (''cms_origin'', J_Str (su_cms_origin su)),
       (''login_url'', J_Str (login_url_global su v)), (''member_role'', member_role_global su v db),
       (''organization'', J_Str organization)])"

end
