(* ===== verification/Public_Site.thy ===== *)
theory Public_Site
  imports Template_Globals Page_Tree
begin

text \<open>
  \<open>src/src/routes/cms.rs\<close> and \<open>src/src/routes/search.rs\<close>, what visitors see: a page,
  the paginated index, the search, the two feeds and the sitemap. They read the database and change
  nothing, so each answers with a reply alone.
\<close>

section \<open>A page\<close>

datatype public_outcome = Served reply | Missing

definition not_found_view :: reply where
  "not_found_view = View ''404.jhs'' [] 404"

text \<open>\<open>data.get("user").and_then(|user| user.get("id")).and_then(Value::as_i64)\<close>\<close>

definition viewer_id :: "(string \<times> json) list \<Rightarrow> int option" where
  "viewer_id data =
     (case map_of data ''user'' of
        Some (J_Obj kvs) \<Rightarrow> (case map_of kvs ''id'' of Some (J_Int i) \<Rightarrow> Some i | _ \<Rightarrow> None)
      | _ \<Rightarrow> None)"

definition viewer_is_editor :: "surface \<Rightarrow> string \<Rightarrow> (string \<times> json) list \<Rightarrow> db \<Rightarrow> bool" where
  "viewer_is_editor su organization data db \<longleftrightarrow>
     (case (viewer_id data, sv_auth (su_server su)) of
        (Some i, Some _) \<Rightarrow> (case membership_role db i organization of Inr (Some role) \<Rightarrow> is_editor role | _ \<Rightarrow> False)
      | _ \<Rightarrow> False)"

definition page_visible :: "int \<Rightarrow> page_record \<Rightarrow> bool" where
  "page_visible now p \<longleftrightarrow> pr_is_published p \<or> (case pr_publish_at p of Some t \<Rightarrow> t \<le> now | None \<Rightarrow> False)"

definition page_author :: "surface \<Rightarrow> page_record \<Rightarrow> db \<Rightarrow> json" where
  "page_author su p db =
     (case (pr_created_by p, sv_auth (su_server su)) of
        (Some i, Some _) \<Rightarrow> (case find_user_by_id db i of Inr (Some u) \<Rightarrow> J_Str (u_username u) | _ \<Rightarrow> J_Null)
      | _ \<Rightarrow> J_Null)"

text \<open>\<open>unwrap_or_default\<close> after logging.\<close>

definition or_empty :: "'a list repo \<Rightarrow> 'a list" where
  "or_empty r = (case r of Inr xs \<Rightarrow> xs | Inl _ \<Rightarrow> [])"

definition page_json :: "surface \<Rightarrow> int \<Rightarrow> string \<Rightarrow> bool \<Rightarrow> page_record \<Rightarrow> db \<Rightarrow> json" where
  "page_json su now organization editor p db =
     (let chain = or_empty (ancestors db organization (pr_id p));
          children = or_empty (page_children db now organization (Some (pr_id p)) editor);
          visible_now = page_visible now p in
      J_Obj [(''id'', J_Int (pr_id p)), (''slug'', J_Str (pr_slug p)), (''title'', J_Str (pr_title p)),
        (''is_published'', J_Bool visible_now),
        (''scheduled_for_h'', (case pr_publish_at p of
           Some t \<Rightarrow> if \<not> visible_now \<and> t > now then J_Str (format_timestamp t) else J_Null | None \<Rightarrow> J_Null)),
        (''created_at_h'', J_Str (format_timestamp (pr_created_at p))), (''updated_at_h'', J_Str (format_timestamp (pr_updated_at p))),
        (''author'', page_author su p db),
        (''parent'', (if chain = [] then J_Null else
           J_Obj [(''id'', J_Int (ps_id (last chain))), (''slug'', J_Str (ps_slug (last chain))), (''title'', J_Str (ps_title (last chain)))])),
        (''breadcrumbs'', J_Arr (map (\<lambda>a. J_Obj [(''slug'', J_Str (ps_slug a)), (''title'', J_Str (ps_title a))]) chain)),
        (''children'', J_Arr (map (\<lambda>c. J_Obj [(''slug'', J_Str (ps_slug c)), (''title'', J_Str (ps_title c)), (''position'', J_Int (ps_position c))]) children)),
        (''position'', J_Int (pr_position p)), (''meta_title'', j_opt J_Str (pr_meta_title p)),
        (''meta_description'', j_opt J_Str (pr_meta_description p)), (''og_image'', j_opt J_Str (pr_og_image p))])"

text \<open>\<open>res.redirect()\<close> of a template.\<close>

definition template_redirect :: "string \<Rightarrow> nat \<Rightarrow> reply" where
  "template_redirect location status =
     (if header_ok location then Redirected location (if 100 \<le> status \<and> status \<le> 999 then status else 302)
      else Failed (InternalError ''failed to build the template redirect response''))"

text \<open>The body, or the reply that takes its place.\<close>

definition render_body :: "renderer \<Rightarrow> page_record \<Rightarrow> (reply, string) result" where
  "render_body rd p =
     (let task_failed = Failed (InternalError ''page rendering task failed'') in
      case pr_body_format p of
        Markdown \<Rightarrow> (case rd_markdown rd (pr_content p) of None \<Rightarrow> Inl task_failed | Some html \<Rightarrow> Inr html)
      | Jhs \<Rightarrow>
          (case rd_templates rd of
             None \<Rightarrow> Inl (Failed (InternalError ''templates are not initialized''))
           | Some engine \<Rightarrow>
               (case engine (pr_content p) of
                  None \<Rightarrow> Inl task_failed
                | Some (Inl message) \<Rightarrow> Inl (Failed (InternalError message))
                | Some (Inr (_, Some (location, status))) \<Rightarrow> Inl (template_redirect location status)
                | Some (Inr (html, None)) \<Rightarrow> Inr html)))"

definition render_public_page :: "renderer \<Rightarrow> surface \<Rightarrow> visit \<Rightarrow> (string \<times> json) list \<Rightarrow> string \<Rightarrow> db \<Rightarrow> public_outcome" where
  "render_public_page rd su v data slug db =
     (if pn_cms (su_panel su) = None then Served no_cms
      else (let organization = visit_organization su v; now = rq_now (vs_request v) in
        case (case find_page_by_slug db organization slug of Inr p \<Rightarrow> p | Inl _ \<Rightarrow> None) of
          None \<Rightarrow> Missing
        | Some p \<Rightarrow>
            (let editor = viewer_is_editor su organization data db in
             if \<not> page_visible now p \<and> \<not> editor then Served not_found_view
             else (case render_body rd p of
                 Inl r \<Rightarrow> Served r
               | Inr html \<Rightarrow>
                   Served (render_view ''cms_page.jhs'' [(''page'', page_json su now organization editor p db), (''content'', J_Str html)])))))"

definition public_page_route :: "renderer \<Rightarrow> surface \<Rightarrow> visit \<Rightarrow> string \<Rightarrow> db \<Rightarrow> reply" where
  "public_page_route rd su v slug db =
     (case render_public_page rd su v (base_data su v db) slug db of
        Served r \<Rightarrow> r
      | Missing \<Rightarrow> not_found_view)"

section \<open>Pagination\<close>

definition pages_for :: "int \<Rightarrow> int \<Rightarrow> int" where
  "pages_for amount page_size = amount div page_size + (if amount mod page_size \<noteq> 0 then 1 else 0)"

definition clamp_page :: "int \<Rightarrow> int \<Rightarrow> int" where
  "clamp_page requested total_pages = max 1 (min requested (max total_pages 1))"

definition page_link :: "string \<Rightarrow> int \<Rightarrow> string" where
  "page_link base page = base @ (if CHR ''?'' \<in> set base then ''&'' else ''?'') @ ''page='' @ show_int page"

definition pagination_value :: "int \<Rightarrow> int \<Rightarrow> int \<Rightarrow> string \<Rightarrow> json" where
  "pagination_value page total_items page_size base =
     (let total_pages = max (pages_for total_items page_size) 1 in
      J_Obj [(''pagina'', J_Int page), (''total_paginas'', J_Int total_pages), (''total_items'', J_Int total_items),
        (''anterior'', if page > 1 then J_Str (page_link base (page - 1)) else J_Null),
        (''siguiente'', if page < total_pages then J_Str (page_link base (page + 1)) else J_Null), (''base'', J_Str base)])"

definition or_storage_failure :: "'a repo \<Rightarrow> ('a \<Rightarrow> reply) \<Rightarrow> reply" where
  "or_storage_failure r k = (case r of Inl _ \<Rightarrow> storage_failure | Inr a \<Rightarrow> k a)"

definition page_size :: "surface \<Rightarrow> int" where
  "page_size su = int (pn_index_page_size (su_panel su))"

definition page_index :: "surface \<Rightarrow> visit \<Rightarrow> db \<Rightarrow> reply" where
  "page_index su v db =
     (if pn_cms (su_panel su) = None then no_cms
      else (let organization = visit_organization su v; now = rq_now (vs_request v); n = page_size su in
        or_storage_failure (count_published db now organization) (\<lambda>amount.
          let page = clamp_page (snd (listing_query (vs_query v))) (max (pages_for amount n) 1) in
          or_storage_failure (list_pages_paged db now organization False n ((page - 1) * n)) (\<lambda>pages.
            render_view ''p.jhs''
              [(''paginas'', J_Arr (map (\<lambda>p. J_Obj [(''slug'', J_Str (ps_slug p)), (''title'', J_Str (ps_title p)),
                 (''updated_at_h'', J_Str (format_timestamp (ps_updated_at p)))]) pages)),
               (''paginacion'', pagination_value page amount n ''/p'')]))))"

section \<open>The search\<close>

definition search_page :: "'k :: linorder fts \<Rightarrow> surface \<Rightarrow> visit \<Rightarrow> db \<Rightarrow> reply" where
  "search_page ix su v db =
     (if pn_cms (su_panel su) = None then no_cms
      else (let organization = visit_organization su v; now = rq_now (vs_request v); n = page_size su;
          (raw_terms, requested) = listing_query (vs_query v);
          searched = (fts_match_query raw_terms \<noteq> None);
          terms = (if searched then raw_terms else []) in
        or_storage_failure (if searched then search_count ix db now organization terms False else Inr 0) (\<lambda>amount.
          let page = clamp_page requested (max (pages_for amount n) 1) in
          or_storage_failure (if searched then search_pages ix db now organization terms False n ((page - 1) * n) else Inr []) (\<lambda>hits.
            render_view ''search.jhs''
              [(''busqueda'', J_Str terms),
               (''resultados'', J_Arr (map (\<lambda>h. J_Obj [(''slug'', J_Str (sh_slug h)), (''title'', J_Str (sh_title h)),
                  (''updated_at_h'', J_Str (format_timestamp (sh_updated_at h))), (''fragmento'', fragment_segments (sh_fragment h))]) hits)),
               (''total_resultados'', J_Int amount),
               (''paginacion'', pagination_value page amount n (''/search?q='' @ su_form_encode su terms))]))))"

text \<open>\<open>/buscar\<close>: the target of the permanent redirect.\<close>

definition legacy_search_redirect :: "visit \<Rightarrow> reply" where
  "legacy_search_redirect v =
     Redirected (case vs_raw_query v of
        Some q \<Rightarrow> if list_all graphic q then ''/search?'' @ q else ''/search''
      | None \<Rightarrow> ''/search'') 301"

section \<open>Feeds and the sitemap\<close>

definition absolute_origin :: "surface \<Rightarrow> string \<Rightarrow> visit \<Rightarrow> string" where
  "absolute_origin su organization v =
     (let request_origin = ''http://'' @ (case rq_hosts (vs_request v) of Some host # _ \<Rightarrow> host | _ \<Rightarrow> ''127.0.0.1'') in
      if organization = cms_organization_key
      then (case pn_site_url (su_panel su) of Some url \<Rightarrow> url | None \<Rightarrow> request_origin)
      else request_origin)"

definition xml_char :: "char \<Rightarrow> string" where
  "xml_char c =
     (if c = CHR ''&'' then ''&amp;''
      else if c = CHR ''<'' then ''&lt;''
      else if c = CHR ''>'' then ''&gt;''
      else if c = CHR 0x22 then ''&quot;''
      else if c = CHR 0x27 then ''&apos;''
      else [c])"

definition xml_escape :: "string \<Rightarrow> string" where
  "xml_escape value = concat (map xml_char value)"

definition feed_max_items :: int where "feed_max_items = 20"
definition sitemap_limit :: int where "sitemap_limit = 50000"

definition feed_title :: string where
  "feed_title = ''Pages '' @ em_dash @ '' wallermax''"

definition shown_description :: "feed_entry \<Rightarrow> string option" where
  "shown_description e = (case fe_meta_description e of Some text \<Rightarrow> if trim text = [] then None else Some text | None \<Rightarrow> None)"

definition nl :: string where "nl = [CHR 0x0A]"

definition xml_head :: string where
  "xml_head = ''<?xml version=\"1.0\" encoding=\"UTF-8\"?>'' @ nl"

definition rss_item :: "string \<Rightarrow> feed_entry \<Rightarrow> string" where
  "rss_item base e =
     (let link = base @ ''/p/'' @ fe_slug e in
      ''    <item>'' @ nl @ ''      <title>'' @ xml_escape (fe_title e) @ ''</title>'' @ nl @
      ''      <link>'' @ xml_escape link @ ''</link>'' @ nl @
      ''      <guid isPermaLink=\"true\">'' @ xml_escape link @ ''</guid>'' @ nl @
      ''      <pubDate>'' @ (case rfc2822_date (fe_updated_at e) of Some d \<Rightarrow> d | None \<Rightarrow> []) @ ''</pubDate>'' @ nl @
      (case shown_description e of Some text \<Rightarrow> ''      <description>'' @ xml_escape text @ ''</description>'' @ nl | None \<Rightarrow> []) @
      ''    </item>'' @ nl)"

definition rss_document :: "string \<Rightarrow> feed_entry list \<Rightarrow> string" where
  "rss_document base entries =
     xml_head @ ''<rss version=\"2.0\" xmlns:atom=\"http://www.w3.org/2005/Atom\">'' @ nl @ ''  <channel>'' @ nl @
     ''    <title>'' @ xml_escape feed_title @ ''</title>'' @ nl @ ''    <link>'' @ xml_escape base @ ''/p</link>'' @ nl @
     ''    <description>Published pages from the wallermax CMS</description>'' @ nl @
     ''    <atom:link rel=\"self\" href=\"'' @ xml_escape base @ ''/feed.xml\" type=\"application/rss+xml\"/>'' @ nl @
     ''    <language>en</language>'' @ nl @ concat (map (rss_item base) entries) @ ''  </channel>'' @ nl @ ''</rss>'' @ nl"

definition atom_entry :: "string \<Rightarrow> feed_entry \<Rightarrow> string" where
  "atom_entry base e =
     (let link = base @ ''/p/'' @ fe_slug e in
      ''  <entry>'' @ nl @ ''    <title>'' @ xml_escape (fe_title e) @ ''</title>'' @ nl @
      ''    <link rel=\"alternate\" href=\"'' @ xml_escape link @ ''\"/>'' @ nl @ ''    <id>'' @ xml_escape link @ ''</id>'' @ nl @
      ''    <updated>'' @ iso_datetime (fe_updated_at e) @ ''</updated>'' @ nl @
      (case shown_description e of Some text \<Rightarrow> ''    <summary>'' @ xml_escape text @ ''</summary>'' @ nl | None \<Rightarrow> []) @
      ''  </entry>'' @ nl)"

definition atom_document :: "int \<Rightarrow> string \<Rightarrow> feed_entry list \<Rightarrow> string" where
  "atom_document now base entries =
     xml_head @ ''<feed xmlns=\"http://www.w3.org/2005/Atom\">'' @ nl @
     ''  <title>'' @ xml_escape feed_title @ ''</title>'' @ nl @ ''  <id>'' @ xml_escape base @ ''/atom.xml</id>'' @ nl @
     ''  <link rel=\"alternate\" type=\"text/html\" href=\"'' @ xml_escape base @ ''/p\"/>'' @ nl @
     ''  <link rel=\"self\" href=\"'' @ xml_escape base @ ''/atom.xml\"/>'' @ nl @
     ''  <updated>'' @ iso_datetime (case entries of e # _ \<Rightarrow> fe_updated_at e | [] \<Rightarrow> now) @ ''</updated>'' @ nl @
     concat (map (atom_entry base) entries) @ ''</feed>'' @ nl"

definition feed_route :: "string \<Rightarrow> string \<Rightarrow> (int \<Rightarrow> string \<Rightarrow> feed_entry list \<Rightarrow> string) \<Rightarrow> surface \<Rightarrow> visit \<Rightarrow> db \<Rightarrow> reply" where
  "feed_route path content_type document su v db =
     (if \<not> pn_feed (su_panel su) then Failed (not_found ''GET'' path)
      else if pn_cms (su_panel su) = None then no_cms
      else (let organization = visit_organization su v; now = rq_now (vs_request v) in
        or_storage_failure (feed_entries db now organization feed_max_items) (\<lambda>entries.
          Document content_type (document now (absolute_origin su organization v) entries))))"

definition rss_feed :: "surface \<Rightarrow> visit \<Rightarrow> db \<Rightarrow> reply" where
  "rss_feed = feed_route ''/feed.xml'' ''application/rss+xml; charset=utf-8'' (\<lambda>_. rss_document)"

definition atom_feed :: "surface \<Rightarrow> visit \<Rightarrow> db \<Rightarrow> reply" where
  "atom_feed = feed_route ''/atom.xml'' ''application/atom+xml; charset=utf-8'' atom_document"

definition sitemap_entry :: "string \<Rightarrow> int \<Rightarrow> string" where
  "sitemap_entry loc lastmod =
     ''  <url>'' @ nl @ ''    <loc>'' @ xml_escape loc @ ''</loc>'' @ nl @
     ''    <lastmod>'' @ iso_date lastmod @ ''</lastmod>'' @ nl @ ''  </url>'' @ nl"

definition sitemap :: "surface \<Rightarrow> visit \<Rightarrow> db \<Rightarrow> reply" where
  "sitemap su v db =
     (if \<not> pn_sitemap (su_panel su) then Failed (not_found ''GET'' ''/sitemap.xml'')
      else if pn_cms (su_panel su) = None then no_cms
      else (let organization = visit_organization su v; now = rq_now (vs_request v); base = absolute_origin su organization v in
        or_storage_failure (list_pages db now organization False sitemap_limit) (\<lambda>pages.
          Document ''application/xml; charset=utf-8''
            (xml_head @ ''<urlset xmlns=\"http://www.sitemaps.org/schemas/sitemap/0.9\">'' @ nl @
             (case pn_default_page (su_panel su) of
                None \<Rightarrow> []
              | Some slug \<Rightarrow>
                  (case find_page_by_slug db organization slug of
                     Inr (Some home) \<Rightarrow> if page_visible now home then sitemap_entry (base @ ''/'') (pr_updated_at home) else []
                   | _ \<Rightarrow> [])) @
             concat (map (\<lambda>p. sitemap_entry (base @ ''/p/'' @ ps_slug p) (ps_updated_at p)) pages) @
             ''</urlset>'' @ nl))))"

section \<open>Drafts\<close>

definition without_drafts :: "int \<Rightarrow> db \<Rightarrow> db" where
  "without_drafts now db = db\<lparr>db_pages := delete_rows (\<lambda>r. \<not> public_visible now r) (db_pages db)\<rparr>"

lemma without_drafts_scope [simp]: "in_scope (without_drafts now db) = in_scope db"
  by (simp add: without_drafts_def in_scope_def org_scope_def org_id_def fun_eq_iff)

lemma select_without_drafts:
  "(\<And>r. t r \<Longrightarrow> public_visible now r) \<Longrightarrow> select_rows t (db_pages (without_drafts now db)) = select_rows t (db_pages db)"
  by (auto simp: without_drafts_def select_rows_def intro!: filter_cong)

lemma listed_without_drafts: "listed_pages (without_drafts now db) now organization False = listed_pages db now organization False"
  unfolding listed_pages_def without_drafts_scope by (subst select_without_drafts) simp_all

lemma count_without_drafts: "count_published (without_drafts now db) now organization = count_published db now organization"
  unfolding count_published_def count_rows_def without_drafts_scope by (subst select_without_drafts) simp_all

lemma found_without_drafts: "found_pages ix (without_drafts now db) now organization q False = found_pages ix db now organization q False"
  unfolding found_pages_def without_drafts_scope by (subst select_without_drafts) simp_all

text \<open>The search finds the same pages; the rank that orders them is weighed against the rows that are left.\<close>

definition ranks_visible :: "int \<Rightarrow> ('k :: linorder) fts \<Rightarrow> 'k fts" where
  "ranks_visible now ix = ix\<lparr>fts_rank := (\<lambda>q rs. fts_rank ix q (filter (public_visible now) rs))\<rparr>"

lemma found_ranks: "found_pages (ix\<lparr>fts_rank := f\<rparr>) db now organization q drafts = found_pages ix db now organization q drafts"
  by (simp add: found_pages_def)

lemma search_without_drafts:
  "search_count ix (without_drafts now db) now organization terms False = search_count ix db now organization terms False"
  "search_count (ranks_visible now ix) db now organization terms False = search_count ix db now organization terms False"
  "search_pages ix (without_drafts now db) now organization terms False n k = search_pages (ranks_visible now ix) db now organization terms False n k"
proof -
  have "rows (db_pages (without_drafts now db)) = filter (public_visible now) (rows (db_pages db))" by (simp add: without_drafts_def)
  then show "search_count ix (without_drafts now db) now organization terms False = search_count ix db now organization terms False"
    "search_count (ranks_visible now ix) db now organization terms False = search_count ix db now organization terms False"
    "search_pages ix (without_drafts now db) now organization terms False n k = search_pages (ranks_visible now ix) db now organization terms False n k"
    by (simp_all add: search_count_def search_pages_def found_without_drafts found_ranks ranks_visible_def split: option.split)
qed

lemma search_hits_ranks:
  "mset (projr (search_pages (ix\<lparr>fts_rank := f\<rparr>) db now organization terms drafts (- 1) 0)) =
    mset (projr (search_pages ix db now organization terms drafts (- 1) 0))"
  by (simp add: search_pages_def found_ranks paged_def limit_def split: option.split)

lemma page_visible_of_row [simp]: "page_visible now (page_of_row r) = public_visible now r"
  by (simp add: page_visible_def public_visible_def page_of_row_def)

text \<open>A slug names one page of an organization.\<close>

lemma slug_unique:
  assumes "pages_ok db" "r \<in> set (rows (db_pages db))" "q \<in> set (rows (db_pages db))"
    "in_scope db organization r" "in_scope db organization q" "p_slug r = p_slug q"
  shows "r = q"
proof -
  have "distinct (map (\<lambda>r. (p_organization r, p_slug r)) (rows (db_pages db)))" using assms(1) by (simp add: pages_ok_def)
  moreover have "p_organization r = p_organization q" using assms(4,5) by (simp add: in_scope_def org_scope_def)
  ultimately show ?thesis using assms(2,3,6) by (auto simp: distinct_map dest: inj_onD)
qed

lemma home_without_drafts:
  assumes "pages_ok db"
  shows "find_page_by_slug (without_drafts now db) organization slug =
    Inr (case find_page_by_slug db organization slug of Inr (Some p) \<Rightarrow> if page_visible now p then Some p else None | _ \<Rightarrow> None)"
proof (cases "select_row (\<lambda>r. p_slug r = slug \<and> in_scope db organization r) (db_pages db)")
  case None
  then have "select_row (\<lambda>r. p_slug r = slug \<and> in_scope db organization r) (db_pages (without_drafts now db)) = None"
    by (auto simp: select_row_None without_drafts_def)
  with None show ?thesis by (simp add: find_page_by_slug_def)
next
  case (Some p)
  note p = select_row_Some [OF Some]
  have one: "q = p" if "q \<in> set (rows (db_pages db))" "p_slug q = slug \<and> in_scope db organization q" for q
    using slug_unique [OF assms] p that by metis
  have "select_row (\<lambda>r. p_slug r = slug \<and> in_scope db organization r) (db_pages (without_drafts now db)) =
      (if public_visible now p then Some p else None)"
  proof (cases "public_visible now p")
    case True
    with p one show ?thesis by (auto simp: without_drafts_def intro!: select_row_unique)
  next
    case False
    with one show ?thesis by (auto simp: select_row_None without_drafts_def)
  qed
  with Some show ?thesis by (simp add: find_page_by_slug_def)
qed

section \<open>Properties\<close>

text \<open>
  C15: The listings answer as if there were no drafts, and a draft answers like no page: a page that is
  neither published nor due answers, to anyone who is not an editor of the organization, what a missing
  slug answers, and the index, both feeds and the sitemap answer exactly what they would answer if the
  drafts did not exist. The search finds the same pages and states the same total, and its answer is the
  one for the pages without the drafts but for the ranks, which the index weighs against all its rows:
  where the ranks do not depend on the drafts, neither does the answer.
\<close>

theorem drafts_do_not_show:
  fixes v :: visit and db :: db
  defines "now \<equiv> rq_now (vs_request v)"
  assumes "pages_ok db"
  shows "page_index su v (without_drafts now db) = page_index su v db \<and>
    search_page ix su v (without_drafts now db) = search_page (ranks_visible now ix) su v db \<and>
    search_count ix (without_drafts now db) now organization terms False = search_count ix db now organization terms False \<and>
    mset (projr (search_pages ix (without_drafts now db) now organization terms False (- 1) 0)) =
      mset (projr (search_pages ix db now organization terms False (- 1) 0)) \<and>
    ((\<forall>q r. fts_rank ix q (filter (public_visible now) (rows (db_pages db))) r = fts_rank ix q (rows (db_pages db)) r) \<longrightarrow>
      search_page ix su v (without_drafts now db) = search_page ix su v db) \<and>
    rss_feed su v (without_drafts now db) = rss_feed su v db \<and>
    atom_feed su v (without_drafts now db) = atom_feed su v db \<and>
    sitemap su v (without_drafts now db) = sitemap su v db \<and>
    (pn_cms (su_panel su) \<noteq> None \<and> \<not> viewer_is_editor su (visit_organization su v) (base_data su v db) db \<and>
     (\<forall>p. find_page_by_slug db (visit_organization su v) slug = Inr (Some p) \<longrightarrow> \<not> page_visible now p) \<longrightarrow>
     public_page_route rd su v slug db = not_found_view)"
proof (intro conjI impI)
  show "page_index su v (without_drafts now db) = page_index su v db"
    by (simp add: page_index_def count_without_drafts list_pages_paged_def listed_without_drafts Let_def now_def)
  show ranks: "search_page ix su v (without_drafts now db) = search_page (ranks_visible now ix) su v db"
    unfolding search_page_def Let_def now_def search_without_drafts by (rule refl)
  show "search_count ix (without_drafts now db) now organization terms False = search_count ix db now organization terms False"
    "mset (projr (search_pages ix (without_drafts now db) now organization terms False (- 1) 0)) =
      mset (projr (search_pages ix db now organization terms False (- 1) 0))"
    by (simp_all add: search_without_drafts ranks_visible_def search_hits_ranks)
  assume "\<forall>q r. fts_rank ix q (filter (public_visible now) (rows (db_pages db))) r = fts_rank ix q (rows (db_pages db)) r"
  then have "fts_rank ix q (filter (public_visible now) (rows (db_pages db))) = fts_rank ix q (rows (db_pages db))" for q
    by (intro ext) simp
  then have same: "search_pages (ranks_visible now ix) db now o' t False n k = search_pages ix db now o' t False n k" for o' t n k
    by (simp add: search_pages_def found_ranks ranks_visible_def split: option.split)
  show "search_page ix su v (without_drafts now db) = search_page ix su v db"
    unfolding search_page_def Let_def now_def [symmetric] search_without_drafts(1,3) same by (rule refl)
next
  show "rss_feed su v (without_drafts now db) = rss_feed su v db" "atom_feed su v (without_drafts now db) = atom_feed su v db"
    by (simp_all add: rss_feed_def atom_feed_def feed_route_def feed_entries_def listed_without_drafts Let_def now_def)
  show "sitemap su v (without_drafts now db) = sitemap su v db"
    by (simp add: sitemap_def list_pages_def listed_without_drafts home_without_drafts [OF assms(2)] Let_def now_def
        split: option.split sum.split)
next
  assume h: "pn_cms (su_panel su) \<noteq> None \<and> \<not> viewer_is_editor su (visit_organization su v) (base_data su v db) db \<and>
     (\<forall>p. find_page_by_slug db (visit_organization su v) slug = Inr (Some p) \<longrightarrow> \<not> page_visible now p)"
  then show "public_page_route rd su v slug db = not_found_view"
    by (auto simp: public_page_route_def render_public_page_def Let_def now_def split: option.split sum.split)
qed

definition surface_of :: "server \<Rightarrow> surface" where
  "surface_of sv = \<lparr>su_panel = panel_of sv, su_expose_user = True, su_cms_origin = [], su_form_encode = id\<rparr>"

definition visit_of :: "request \<Rightarrow> string \<Rightarrow> visit" where
  "visit_of rq path = \<lparr>vs_request = rq, vs_method = ''GET'', vs_path = path, vs_path_and_query = Some path, vs_raw_query = None,
     vs_query = [], vs_headers = []\<rparr>"

text \<open>
  The breadcrumbs of a page that is public do show drafts: the chain of ancestors it carries includes
  those that are drafts, with slug and title.
\<close>

definition hidden_parent :: db where
  "hidden_parent = site\<lparr>db_pages := \<lparr>last_id = 2, rows = [new_page_row ((plain_page ''plan'' None)\<lparr>np_is_published := False\<rparr>) 1 5 1,
     new_page_row (plain_page ''b'' (Some 1)) 1 6 2]\<rparr>\<rparr>"

definition plain_index :: "int fts" where
  "plain_index = \<lparr>fts_matches = (\<lambda>q r. True), fts_rank = (\<lambda>q rs. p_id), fts_snippet = (\<lambda>q r. p_title r)\<rparr>"

lemma hidden_parent_ok: "pages_ok hidden_parent"
  by (simp add: pages_ok_def hidden_parent_def store_ok_def new_page_row_def plain_page_def refers_def page_exists_iff site_def empty_db_def)

lemma drafts_do_not_show_witness:
  "\<forall>sv rq. rss_feed (surface_of sv) (visit_of rq ''/feed.xml'') (without_drafts (rq_now rq) hidden_parent) =
       rss_feed (surface_of sv) (visit_of rq ''/feed.xml'') hidden_parent \<and>
     search_page plain_index (surface_of sv) (visit_of rq ''/search'') (without_drafts (rq_now rq) hidden_parent) =
       search_page plain_index (surface_of sv) (visit_of rq ''/search'') hidden_parent"
proof (intro allI conjI)
  fix sv :: server and rq :: request
  have now: "rq_now (vs_request (visit_of rq path)) = rq_now rq" for path by (simp add: visit_of_def)
  show "rss_feed (surface_of sv) (visit_of rq ''/feed.xml'') (without_drafts (rq_now rq) hidden_parent) =
       rss_feed (surface_of sv) (visit_of rq ''/feed.xml'') hidden_parent"
    using drafts_do_not_show [OF hidden_parent_ok, of "surface_of sv" "visit_of rq ''/feed.xml''", unfolded now] by blast
  have "\<forall>q r. fts_rank plain_index q (filter (public_visible (rq_now rq)) (rows (db_pages hidden_parent))) r =
      fts_rank plain_index q (rows (db_pages hidden_parent)) r" by (simp add: plain_index_def)
  with drafts_do_not_show [OF hidden_parent_ok, of "surface_of sv" "visit_of rq ''/search''" plain_index, unfolded now]
  show "search_page plain_index (surface_of sv) (visit_of rq ''/search'') (without_drafts (rq_now rq) hidden_parent) =
       search_page plain_index (surface_of sv) (visit_of rq ''/search'') hidden_parent" by blast
qed

lemma breadcrumbs_show_drafts:
  "find_page_by_slug hidden_parent ''cms'' ''plan'' = Inr (Some p) \<Longrightarrow> \<not> page_visible now p"
  "find_page_by_slug hidden_parent ''cms'' ''b'' = Inr (Some q) \<Longrightarrow> page_visible now q \<and>
     (\<exists>kvs. page_json su now ''cms'' False q hidden_parent = J_Obj kvs \<and>
       map_of kvs ''breadcrumbs'' = Some (J_Arr [J_Obj [(''slug'', J_Str ''plan''), (''title'', J_Str ''plan'')]]))"
proof -
  let ?a = "new_page_row ((plain_page ''plan'' None)\<lparr>np_is_published := False\<rparr>) 1 5 1"
  let ?b = "new_page_row (plain_page ''b'' (Some 1)) 1 6 2"
  have scope: "in_scope hidden_parent ''cms'' = (\<lambda>r. p_organization r = 1)"
    using site_orgs(1) by (auto simp: in_scope_def org_scope_def org_id_def hidden_parent_def fun_eq_iff)
  have pages: "rows (db_pages hidden_parent) = [?a, ?b]" by (simp add: hidden_parent_def)
  show "find_page_by_slug hidden_parent ''cms'' ''plan'' = Inr (Some p) \<Longrightarrow> \<not> page_visible now p"
    by (auto simp: find_page_by_slug_def select_row_def scope pages new_page_row_def plain_page_def page_of_row_def page_visible_def)
  assume "find_page_by_slug hidden_parent ''cms'' ''b'' = Inr (Some q)"
  then have q: "q = page_of_row ?b"
    by (auto simp: find_page_by_slug_def select_row_def scope pages new_page_row_def plain_page_def)
  have "ancestors hidden_parent ''cms'' 2 = Inr [summary_of_row ?a]"
    unfolding ancestors_def max_ancestor_hops_def
    by (simp add: select_row_def scope pages new_page_row_def plain_page_def numeral_eq_Suc Let_def)
  with q show "page_visible now q \<and> (\<exists>kvs. page_json su now ''cms'' False q hidden_parent = J_Obj kvs \<and>
       map_of kvs ''breadcrumbs'' = Some (J_Arr [J_Obj [(''slug'', J_Str ''plan''), (''title'', J_Str ''plan'')]]))"
    by (simp add: page_json_def Let_def or_empty_def page_of_row_def new_page_row_def plain_page_def public_visible_def page_visible_def summary_of_row_def)
qed

section \<open>Escaping\<close>

function xml_unescape :: "string \<Rightarrow> string" where
  "xml_unescape s =
     (if s = [] then []
      else if starts_with ''&amp;'' s then CHR ''&'' # xml_unescape (drop 5 s)
      else if starts_with ''&lt;'' s then CHR ''<'' # xml_unescape (drop 4 s)
      else if starts_with ''&gt;'' s then CHR ''>'' # xml_unescape (drop 4 s)
      else if starts_with ''&quot;'' s then CHR 0x22 # xml_unescape (drop 6 s)
      else if starts_with ''&apos;'' s then CHR 0x27 # xml_unescape (drop 6 s)
      else hd s # xml_unescape (tl s))"
  by pat_completeness auto
termination
  by (relation "measure length") auto

declare xml_unescape.simps [simp del]

lemma xml_unescape_char: "xml_unescape (xml_char c @ s) = c # xml_unescape s"
  by (subst xml_unescape.simps) (auto simp: xml_char_def starts_with_def)

text \<open>
  Whatever a title, an address or a description holds, its escaped form in the feeds and the
  sitemap contains no markup character but the ampersands of the five entities, and reading the
  entities back gives the original text.
\<close>

theorem xml_escape_round_trip:
  "xml_unescape (xml_escape s) = s \<and> (\<forall>c \<in> set (xml_escape s). c \<notin> {CHR ''<'', CHR ''>'', CHR 0x22, CHR 0x27}) \<and>
   length (filter (\<lambda>c. c = CHR ''&'') (xml_escape s)) = length (filter (\<lambda>c. c \<in> {CHR ''&'', CHR ''<'', CHR ''>'', CHR 0x22, CHR 0x27}) s)"
proof (intro conjI)
  show "xml_unescape (xml_escape s) = s"
    by (induction s) (simp_all add: xml_escape_def xml_unescape_char, simp add: xml_unescape.simps)
  show "\<forall>c \<in> set (xml_escape s). c \<notin> {CHR ''<'', CHR ''>'', CHR 0x22, CHR 0x27}"
    by (auto simp: xml_escape_def xml_char_def split: if_splits)
  show "length (filter (\<lambda>c. c = CHR ''&'') (xml_escape s)) = length (filter (\<lambda>c. c \<in> {CHR ''&'', CHR ''<'', CHR ''>'', CHR 0x22, CHR 0x27}) s)"
    by (induction s) (auto simp: xml_escape_def xml_char_def)
qed

lemma xml_escape_round_trip_witness: "xml_unescape (xml_escape ''<a>'') = ''<a>'' \<and> CHR ''<'' \<notin> set (xml_escape ''<a>'')"
  using xml_escape_round_trip [of "''<a>''"] by auto

end
