(* ===== verification/Template_Dispatch.thy ===== *)
theory Template_Dispatch
  imports Public_Site
begin

text \<open>
  \<open>src/src/middleware/templates.rs\<close>, the dispatch: which file, page or view the template middleware
  renders for a request, and what it leaves to the routes. Paths are the decoded text; joining them is
  \<open>Path::join\<close> of Unix, where an absolute path replaces what it is joined to.
\<close>

section \<open>Paths\<close>

definition is_safe_relative :: "string \<Rightarrow> bool" where
  "is_safe_relative path \<longleftrightarrow> CHR 0x5C \<notin> set path \<and> list_all (\<lambda>segment. segment \<noteq> ''..'') (split_on (CHR ''/'') path)"

definition trim_leading_slash :: "string \<Rightarrow> string" where
  "trim_leading_slash path = (if starts_with ''/'' path then drop 1 path else path)"

definition trim_slashes :: "string \<Rightarrow> string" where
  "trim_slashes path = rev (dropWhile (\<lambda>c. c = CHR ''/'') (rev (dropWhile (\<lambda>c. c = CHR ''/'') path)))"

definition path_join :: "string \<Rightarrow> string \<Rightarrow> string" where
  "path_join base path =
     (if starts_with ''/'' path then path
      else if base = [] \<or> ends_with ''/'' base then base @ path
      else base @ ''/'' @ path)"

definition index_jhs :: string where "index_jhs = ''index.jhs''"

definition view_candidates :: "string \<Rightarrow> string \<Rightarrow> string list" where
  "view_candidates views_dir decoded =
     (let relative = trim_slashes decoded in
      if relative = [] then [path_join views_dir index_jhs]
      else if ends_with ''.jhs'' relative then [path_join views_dir relative]
      else [path_join views_dir (relative @ ''.jhs''), path_join (path_join views_dir relative) index_jhs])"

definition view_candidate :: "(string \<Rightarrow> bool) \<Rightarrow> string \<Rightarrow> string \<Rightarrow> string option" where
  "view_candidate is_file views_dir decoded =
     (if decoded = ''/admin'' \<or> starts_with ''/admin/'' decoded then None
      else find is_file (view_candidates views_dir decoded))"

definition directory_index_jhs :: "string \<Rightarrow> string \<Rightarrow> string" where
  "directory_index_jhs static_root decoded =
     (let relative = trim_slashes decoded in
      if relative = [] then path_join static_root index_jhs
      else path_join (path_join static_root relative) index_jhs)"

section \<open>The dispatch\<close>

text \<open>What the middleware has of the file system and the configuration.\<close>

record templates =
  tp_views_dir :: string
  tp_static_root :: "string option"
  tp_is_file :: "string \<Rightarrow> bool"

datatype action = Pass_On | Render_File string | Answer reply

text \<open>The first choice that applies, \<open>None\<close> when it does not.\<close>

definition or_else :: "action option \<Rightarrow> action \<Rightarrow> action" where
  "or_else a b = (case a of Some x \<Rightarrow> x | None \<Rightarrow> b)"

definition render_root :: "templates \<Rightarrow> host_class \<Rightarrow> string option" where
  "render_root tp host = (case host of Tenant binding \<Rightarrow> Some (hb_document_root binding) | _ \<Rightarrow> tp_static_root tp)"

definition existing :: "templates \<Rightarrow> string \<Rightarrow> action option" where
  "existing tp candidate = (if tp_is_file tp candidate then Some (Render_File candidate) else None)"

definition jhs_file :: "templates \<Rightarrow> host_class \<Rightarrow> string \<Rightarrow> action option" where
  "jhs_file tp host decoded =
     (case render_root tp host of
        None \<Rightarrow> None
      | Some dir \<Rightarrow>
          if ends_with ''.jhs'' decoded \<and> host \<noteq> Cms then existing tp (path_join dir (trim_leading_slash decoded)) else None)"

definition default_page :: "renderer \<Rightarrow> surface \<Rightarrow> visit \<Rightarrow> bool \<Rightarrow> host_class \<Rightarrow> string \<Rightarrow> db \<Rightarrow> action option" where
  "default_page rd su v vhosts host decoded db =
     (if decoded = ''/'' \<and> (\<not> vhosts \<or> host = Cms)
      then (case pn_default_page (su_panel su) of
              None \<Rightarrow> None
            | Some slug \<Rightarrow>
                if pn_cms (su_panel su) = None then None
                else (case render_public_page rd su v (base_data su v db) slug db of
                        Served r \<Rightarrow> Some (Answer r)
                      | Missing \<Rightarrow> None))
      else None)"

definition directory_index :: "templates \<Rightarrow> bool \<Rightarrow> host_class \<Rightarrow> string \<Rightarrow> action option" where
  "directory_index tp vhosts host decoded =
     (if (decoded = ''/'' \<or> ends_with ''/'' decoded) \<and> (\<not> vhosts \<or> host \<noteq> Cms)
      then (case render_root tp host of None \<Rightarrow> None | Some dir \<Rightarrow> existing tp (directory_index_jhs dir decoded))
      else None)"

definition visitor_host :: "host_class \<Rightarrow> bool" where
  "visitor_host host \<longleftrightarrow> (case host of Cms \<Rightarrow> True | Tenant _ \<Rightarrow> True | Main \<Rightarrow> False)"

definition auto_view :: "templates \<Rightarrow> bool \<Rightarrow> host_class \<Rightarrow> string \<Rightarrow> nat \<Rightarrow> action option" where
  "auto_view tp vhosts host decoded status =
     (if status = 404 \<and> (\<not> vhosts \<or> visitor_host host)
      then map_option Render_File (view_candidate (tp_is_file tp) (tp_views_dir tp) decoded)
      else None)"

text \<open>\<open>status\<close> is that of the response of the routes, which run where nothing applies before.\<close>

definition run_templates :: "templates option \<Rightarrow> renderer \<Rightarrow> surface \<Rightarrow> visit \<Rightarrow> string \<Rightarrow> nat \<Rightarrow> db \<Rightarrow> action" where
  "run_templates tpo rd su v decoded status db =
     (case tpo of
        None \<Rightarrow> Pass_On
      | Some tp \<Rightarrow>
          if vs_method v \<noteq> ''GET'' \<and> vs_method v \<noteq> ''HEAD'' then Pass_On
          else if \<not> is_safe_relative decoded then Pass_On
          else (let rq = vs_request v; bindings = sv_bindings (su_server su);
                    vhosts = (bindings \<noteq> []); host = classify (rq_authority rq) (rq_hosts rq) bindings in
            or_else (jhs_file tp host decoded)
              (or_else (default_page rd su v vhosts host decoded db)
                (or_else (directory_index tp vhosts host decoded)
                  (or_else (auto_view tp vhosts host decoded status) Pass_On)))))"

section \<open>Answers\<close>

text \<open>The outcome of a render: \<open>None\<close> where the task failed. The HTML of a \<open>HEAD\<close> request is dropped.\<close>

datatype template_answer = Html string nat | Template_Reply reply

definition render_response :: "(string, string \<times> (string \<times> nat) option) result option \<Rightarrow> string \<Rightarrow> nat \<Rightarrow> template_answer" where
  "render_response outcome meth status =
     (case outcome of
        None \<Rightarrow> Template_Reply (Failed (InternalError ''template rendering task failed''))
      | Some (Inl message) \<Rightarrow> Template_Reply (Failed (InternalError message))
      | Some (Inr (html, redirect)) \<Rightarrow>
          (case redirect of
             Some (location, redirect_status) \<Rightarrow> Template_Reply (template_redirect location redirect_status)
           | None \<Rightarrow> Html (if meth = ''HEAD'' then [] else html) status))"

section \<open>Where a rendered file lies\<close>

definition absolute :: "string \<Rightarrow> bool" where
  "absolute path \<longleftrightarrow> starts_with ''/'' path"

definition inside :: "string \<Rightarrow> string \<Rightarrow> bool" where
  "inside base f \<longleftrightarrow> (\<exists>relative. f = path_join base relative \<and> \<not> absolute relative \<and> is_safe_relative relative)"

lemma split_on_joined: "split_on c (s @ c # t) = split_on c s @ split_on c t"
proof (induction s)
  case (Cons x s)
  then show ?case by (cases "split_on c s") auto
qed simp

lemma split_on_suffix: "c \<notin> set t \<Longrightarrow> split_on c (s @ t) = butlast (split_on c s) @ [last (split_on c s) @ t]"
proof (induction s)
  case Nil
  then show ?case by (simp add: split_on_fresh)
next
  case (Cons x s)
  obtain p ps where p: "split_on c s = p # ps" by (cases "split_on c s") auto
  with Cons have "split_on c (s @ t) = butlast (p # ps) @ [last (p # ps) @ t]" by simp
  with p show ?case by (cases ps) auto
qed

lemma safe_append: "is_safe_relative (s @ CHR ''/'' # t) \<longleftrightarrow> is_safe_relative s \<and> is_safe_relative t"
  by (auto simp: is_safe_relative_def split_on_joined)

lemma safe_empty [simp]: "is_safe_relative []"
  by (simp add: is_safe_relative_def)

lemma safe_index: "is_safe_relative index_jhs" "\<not> absolute index_jhs"
  by (simp_all add: is_safe_relative_def index_jhs_def absolute_def starts_with_def)

lemma safe_slash: "is_safe_relative (CHR ''/'' # s) \<longleftrightarrow> is_safe_relative s"
  using safe_append [of "[]" s] by simp

lemma safe_extension:
  assumes "is_safe_relative s"
  shows "is_safe_relative (s @ ''.jhs'')"
proof -
  have e: "split_on (CHR ''/'') (s @ ''.jhs'') = butlast (split_on (CHR ''/'') s) @ [last (split_on (CHR ''/'') s) @ ''.jhs'']"
    by (rule split_on_suffix) simp
  have "x @ ''.jhs'' \<noteq> ''..''" for x by (cases x) auto
  with assms show ?thesis
    unfolding is_safe_relative_def e by (auto simp: list_all_iff dest!: in_set_butlastD)
qed

lemma safe_drop: "is_safe_relative s \<Longrightarrow> is_safe_relative (dropWhile (\<lambda>c. c = CHR ''/'') s)"
  by (induction s) (auto simp: safe_slash)

lemma safe_drop_end: "is_safe_relative s \<Longrightarrow> is_safe_relative (rev (dropWhile (\<lambda>c. c = CHR ''/'') (rev s)))"
proof (induction s rule: rev_induct)
  case (snoc c s)
  then show ?case using safe_append [of s "[]"] by (cases "c = CHR ''/''") auto
qed simp

lemma safe_trim: "is_safe_relative s \<Longrightarrow> is_safe_relative (trim_slashes s)"
  by (simp add: trim_slashes_def safe_drop safe_drop_end)

lemma absolute_hd: "absolute path \<longleftrightarrow> path \<noteq> [] \<and> hd path = CHR ''/''"
  by (cases path) (auto simp: absolute_def starts_with_def)

lemma trim_slashes_relative: "\<not> absolute (trim_slashes s)"
proof -
  let ?p = "\<lambda>c. c = CHR ''/''"
  let ?t = "dropWhile ?p s"
  have "?t = trim_slashes s @ rev (takeWhile ?p (rev ?t))"
    unfolding trim_slashes_def by (metis rev_append rev_rev_ident takeWhile_dropWhile_id)
  then have "trim_slashes s \<noteq> [] \<Longrightarrow> ?t \<noteq> [] \<and> hd (trim_slashes s) = hd ?t" by (metis append_is_Nil_conv hd_append2)
  then show ?thesis using hd_dropWhile [of ?p s] by (auto simp: absolute_hd)
qed

lemma path_join_assoc:
  assumes "\<not> absolute r" "r \<noteq> []" "\<not> absolute x"
  shows "path_join (path_join b r) x = path_join b (path_join r x)"
proof -
  have "\<not> absolute (path_join r x)" using assms by (cases r) (auto simp: absolute_def path_join_def starts_with_def)
  moreover have "ends_with ''/'' (b @ r) = ends_with ''/'' r" "ends_with ''/'' (b @ ''/'' @ r) = ends_with ''/'' r" for b
    using assms(2) by (cases r rule: rev_cases; simp add: ends_with_def starts_with_def)+
  ultimately show ?thesis using assms unfolding absolute_def path_join_def by auto
qed

lemma safe_join: "is_safe_relative r \<Longrightarrow> is_safe_relative x \<Longrightarrow> \<not> absolute x \<Longrightarrow> is_safe_relative (path_join r x)"
proof -
  assume a: "is_safe_relative r" "is_safe_relative x" "\<not> absolute x"
  show ?thesis
  proof (cases "r = [] \<or> ends_with ''/'' r")
    case True
    then have "r = [] \<or> (\<exists>q. r = q @ ''/'')"
      by (cases r rule: rev_cases) (auto simp: ends_with_def starts_with_def)
    with a True safe_append show ?thesis by (auto simp: path_join_def absolute_def)
  qed (use a safe_append in \<open>auto simp: path_join_def absolute_def\<close>)
qed

lemma inside_join: "\<not> absolute r \<Longrightarrow> is_safe_relative r \<Longrightarrow> inside b (path_join b r)"
  by (auto simp: inside_def)

lemma inside_index:
  assumes "is_safe_relative decoded" "trim_slashes decoded \<noteq> []"
  shows "inside b (path_join (path_join b (trim_slashes decoded)) index_jhs)"
proof -
  let ?r = "trim_slashes decoded"
  have "\<not> absolute (path_join ?r index_jhs)"
    using assms(2) trim_slashes_relative [of decoded] safe_index(2)
    by (cases ?r) (auto simp: absolute_def path_join_def starts_with_def)
  with safe_join [OF safe_trim [OF assms(1)] safe_index] show ?thesis
    unfolding path_join_assoc [OF trim_slashes_relative assms(2) safe_index(2)] by (intro inside_join)
qed

lemma view_inside:
  assumes "is_safe_relative decoded" "view_candidate is_file views decoded = Some f"
  shows "is_file f \<and> inside views f"
proof -
  let ?r = "trim_slashes decoded"
  from assms(2) have f: "is_file f" "f \<in> set (view_candidates views decoded)"
    by (auto simp: view_candidate_def find_Some_iff split: if_splits)
  have "\<not> absolute (?r @ ''.jhs'')" if "?r \<noteq> []"
    using that trim_slashes_relative [of decoded] by (cases ?r) (auto simp: absolute_def starts_with_def)
  with f(2) show ?thesis
    using f(1) safe_trim [OF assms(1)] trim_slashes_relative [of decoded] inside_index [OF assms(1), of views]
    by (auto simp: view_candidates_def Let_def safe_extension safe_index inside_join split: if_splits)
qed

lemma directory_inside:
  assumes "is_safe_relative decoded"
  shows "inside b (directory_index_jhs b decoded)"
  using inside_index [OF assms] by (auto simp: directory_index_jhs_def Let_def safe_index inside_join)

text \<open>One leading slash goes; a second one makes the path absolute.\<close>

lemma trim_leading_relative: "\<not> starts_with ''//'' s \<Longrightarrow> \<not> absolute (trim_leading_slash s)"
  by (cases s; cases "tl s") (auto simp: absolute_def trim_leading_slash_def starts_with_def)

lemma trim_leading_safe: "is_safe_relative s \<Longrightarrow> is_safe_relative (trim_leading_slash s)"
  by (cases s) (auto simp: trim_leading_slash_def starts_with_def safe_slash)

text \<open>
  C16: What the middleware renders for a request lies where it should: an existing file below the
  views directory or below the root of the very host the request names (a tenant's own document root
  on its hosts, the static root elsewhere), reached by a relative path without parent segments,
  provided the path does not begin with two slashes.
\<close>

theorem rendered_files_are_inside:
  assumes "run_templates (Some tp) rd su v decoded status db = Render_File f" "\<not> starts_with ''//'' decoded"
  shows "tp_is_file tp f \<and> (inside (tp_views_dir tp) f \<or>
    (\<exists>dir. render_root tp (classify (rq_authority (vs_request v)) (rq_hosts (vs_request v)) (sv_bindings (su_server su))) = Some dir \<and> inside dir f))"
proof -
  let ?host = "classify (rq_authority (vs_request v)) (rq_hosts (vs_request v)) (sv_bindings (su_server su))"
  let ?vhosts = "sv_bindings (su_server su) \<noteq> []"
  have safe: "is_safe_relative decoded" using assms(1) by (auto simp: run_templates_def split: if_splits)
  have jhs: "tp_is_file tp f \<and> (\<exists>dir. render_root tp ?host = Some dir \<and> inside dir f)"
    if "jhs_file tp ?host decoded = Some (Render_File f)"
    using that trim_leading_relative [OF assms(2)] trim_leading_safe [OF safe]
    by (auto simp: jhs_file_def existing_def inside_join split: option.splits if_splits)
  have dir: "tp_is_file tp f \<and> (\<exists>dir. render_root tp ?host = Some dir \<and> inside dir f)"
    if "directory_index tp ?vhosts ?host decoded = Some (Render_File f)"
    using that directory_inside [OF safe] by (auto simp: directory_index_def existing_def split: option.splits if_splits)
  have page: "default_page rd su v ?vhosts ?host decoded db \<noteq> Some (Render_File f)"
    by (auto simp: default_page_def split: option.split public_outcome.split)
  have view: "tp_is_file tp f \<and> inside (tp_views_dir tp) f"
    if "auto_view tp ?vhosts ?host decoded status = Some (Render_File f)"
    using that view_inside [OF safe] by (auto simp: auto_view_def split: if_splits)
  from assms(1) show ?thesis
    using jhs dir page view unfolding run_templates_def or_else_def Let_def
    by (auto split: option.splits if_splits)
qed

definition two_roots :: templates where
  "two_roots = \<lparr>tp_views_dir = ''views'', tp_static_root = Some ''public'',
     tp_is_file = (\<lambda>f. f = ''public/a.jhs'' \<or> f = ''/srv/b.jhs'' \<or> f = ''views/admin/menus.jhs'')\<rparr>"

definition lone_surface :: "server \<Rightarrow> surface" where
  "lone_surface sv = (surface_of sv)\<lparr>su_panel := (panel_of sv)\<lparr>pn_server := sv\<lparr>sv_bindings := []\<rparr>\<rparr>\<rparr>"

lemma lone_classify: "classify authority hosts [] = Main"
  by (simp add: classify_def split: option.split)

lemma plain_file: "run_templates (Some two_roots) rd (lone_surface sv) (visit_of rq path) ''/a.jhs'' 404 db = Render_File ''public/a.jhs''"
  by (simp add: run_templates_def visit_of_def lone_surface_def surface_of_def lone_classify jhs_file_def render_root_def existing_def
      two_roots_def or_else_def is_safe_relative_def ends_with_def starts_with_def trim_leading_slash_def path_join_def Let_def)

lemma rendered_files_are_inside_witness:
  "\<forall>rd sv rq db. run_templates (Some two_roots) rd (lone_surface sv) (visit_of rq ''/a.jhs'') ''/a.jhs'' 404 db = Render_File ''public/a.jhs'' \<and>
     (inside ''views'' ''public/a.jhs'' \<or> inside ''public'' ''public/a.jhs'')"
proof (intro allI)
  fix rd sv rq db
  show "run_templates (Some two_roots) rd (lone_surface sv) (visit_of rq ''/a.jhs'') ''/a.jhs'' 404 db = Render_File ''public/a.jhs'' \<and>
     (inside ''views'' ''public/a.jhs'' \<or> inside ''public'' ''public/a.jhs'')"
    using rendered_files_are_inside [OF plain_file [of rd sv rq "''/a.jhs''" db]] plain_file [of rd sv rq "''/a.jhs''" db]
    by (auto simp: lone_surface_def surface_of_def lone_classify render_root_def two_roots_def starts_with_def)
qed

text \<open>
  The two slashes are no formality. A path that begins with them names any template of the file
  system, and takes the panel's views past the exception that keeps them from being served alone.
\<close>

lemma two_slashes_escape:
  "run_templates (Some two_roots) rd (lone_surface sv) (visit_of rq path) ''//srv/b.jhs'' 404 db = Render_File ''/srv/b.jhs''"
  "\<not> inside ''public'' ''/srv/b.jhs''"
proof -
  show "run_templates (Some two_roots) rd (lone_surface sv) (visit_of rq path) ''//srv/b.jhs'' 404 db = Render_File ''/srv/b.jhs''"
    by (simp add: run_templates_def visit_of_def lone_surface_def surface_of_def lone_classify jhs_file_def render_root_def existing_def
        two_roots_def or_else_def is_safe_relative_def ends_with_def starts_with_def trim_leading_slash_def path_join_def Let_def)
  show "\<not> inside ''public'' ''/srv/b.jhs''"
    by (auto simp: inside_def path_join_def absolute_def starts_with_def ends_with_def)
qed

lemma two_slashes_reach_the_panel:
  "view_candidate (tp_is_file two_roots) ''views'' ''/admin/menus'' = None"
  "view_candidate (tp_is_file two_roots) ''views'' ''//admin/menus'' = Some ''views/admin/menus.jhs''"
  by (simp_all add: view_candidate_def view_candidates_def two_roots_def starts_with_def ends_with_def trim_slashes_def path_join_def Let_def)

end
