(* ===== verification/Organizations.thy ===== *)
theory Organizations
  imports Users Pages Menus Media "HOL-Library.List_Lexorder" "HOL-Library.Char_ord"
begin

text \<open>
  \<open>src/src/db.rs\<close>, \<open>SqliteOrganizationRepository\<close> and the seeds of the start-up: organizations,
  the host names mapped to them, their members. The refinement proved here is what routing rests on:
  the \<open>domains\<close> table is a map from host names to an organization with a provenance, every
  statement is an update of that map, and what the server routes by is the map.
\<close>

section \<open>Data\<close>

record organization_listing =
  ol_record :: organization_record
  ol_domain_count :: int
  ol_member_count :: int

record content_counts =
  cc_pages :: int
  cc_menus :: int
  cc_media :: int

definition content_counts_is_empty :: "content_counts \<Rightarrow> bool" where
  "content_counts_is_empty c \<longleftrightarrow> cc_pages c = 0 \<and> cc_menus c = 0 \<and> cc_media c = 0"

record domain_record =
  dr_id :: int
  dr_hostname :: string
  dr_source :: string

record member_record =
  mr_user :: int
  mr_username :: string
  mr_role :: user_role
  mr_created_at :: int

datatype domain_removal = Removed | ConfigProtected | DomainMissing

section \<open>Organizations\<close>

definition list_organizations :: "db \<Rightarrow> organization_listing list repo" where
  "list_organizations db =
     Inr (map (\<lambda>g. \<lparr>ol_record = g,
                  ol_domain_count = int (count_rows (\<lambda>d. d_organization d = o_id g) (db_domains db)),
                  ol_member_count = int (length (filter (\<lambda>m. m_organization m = o_id g) (db_memberships db)))\<rparr>)
            (rows (db_organizations db)))"

definition find_organization :: "db \<Rightarrow> string \<Rightarrow> organization_record option repo" where
  "find_organization db key = Inr (select_row (\<lambda>g. o_key g = key) (db_organizations db))"

text \<open>\<open>None\<close> is the panic of \<open>expect\<close> when the row just inserted is not found.\<close>

definition create_organization :: "db \<Rightarrow> int \<Rightarrow> string \<Rightarrow> string \<Rightarrow> string \<Rightarrow> organization_record option repo \<times> db" where
  "create_organization db now key name document_root =
     (if \<exists>g \<in> set (rows (db_organizations db)). o_key g = key then (Inl Duplicate, db)
      else (case insert_row (\<lambda>i. \<lparr>o_id = i, o_key = key, o_name = name, o_document_root = document_root, o_created_at = now\<rparr>)
                   (db_organizations db) of
              (i, organizations) \<Rightarrow>
                (let db' = db\<lparr>db_organizations := organizations\<rparr> in (find_organization db' key, db'))))"

definition set_display :: "string \<Rightarrow> string \<Rightarrow> string \<Rightarrow> organization_record store \<Rightarrow> organization_record store" where
  "set_display key name document_root =
     update_rows (\<lambda>g. o_key g = key) (\<lambda>g. g\<lparr>o_name := name, o_document_root := document_root\<rparr>)"

definition update_organization :: "db \<Rightarrow> string \<Rightarrow> string \<Rightarrow> string \<Rightarrow> bool repo \<times> db" where
  "update_organization db key name document_root =
     (Inr (0 < count_rows (\<lambda>g. o_key g = key) (db_organizations db)),
      db\<lparr>db_organizations := set_display key name document_root (db_organizations db)\<rparr>)"

definition delete_organization :: "db \<Rightarrow> string \<Rightarrow> bool repo \<times> db" where
  "delete_organization db key =
     (case org_id db key of
        None \<Rightarrow> (Inr False, db)
      | Some i \<Rightarrow>
          (Inr True, db\<lparr>db_domains := delete_rows (\<lambda>d. d_organization d = i) (db_domains db),
             db_memberships := filter (\<lambda>m. m_organization m \<noteq> i) (db_memberships db),
             db_organizations := delete_rows (\<lambda>g. o_id g = i) (db_organizations db)\<rparr>))"

definition count_content :: "db \<Rightarrow> string \<Rightarrow> content_counts repo" where
  "count_content db key =
     Inr \<lparr>cc_pages = int (count_rows (\<lambda>p. org_scope db key (p_organization p)) (db_pages db)),
          cc_menus = int (count_rows (\<lambda>m. org_scope db key (mn_organization m)) (db_menus db)),
          cc_media = int (count_rows (\<lambda>m. org_scope db key (md_organization m)) (db_media db))\<rparr>"

section \<open>Host names\<close>

definition domain_of_row :: "domain_row \<Rightarrow> domain_record" where
  "domain_of_row d = \<lparr>dr_id = d_id d, dr_hostname = d_hostname d, dr_source = d_source d\<rparr>"

definition organization_domains :: "db \<Rightarrow> int \<Rightarrow> domain_record list repo" where
  "organization_domains db organization_id =
     Inr (map domain_of_row (select_rows (\<lambda>d. d_organization d = organization_id) (db_domains db)))"

definition host_mapped :: "db \<Rightarrow> string \<Rightarrow> bool" where
  "host_mapped db hostname \<longleftrightarrow> (\<exists>d \<in> set (rows (db_domains db)). d_hostname d = hostname)"

definition new_domain :: "string \<Rightarrow> int \<Rightarrow> string \<Rightarrow> int \<Rightarrow> int \<Rightarrow> domain_row" where
  "new_domain hostname organization_id source now i =
     \<lparr>d_id = i, d_hostname = hostname, d_organization = organization_id, d_source = source, d_created_at = now\<rparr>"

definition add_domain :: "db \<Rightarrow> int \<Rightarrow> int \<Rightarrow> string \<Rightarrow> unit repo \<times> db" where
  "add_domain db now organization_id hostname =
     (if host_mapped db hostname then (Inl Duplicate, db)
      else (Inr (), db\<lparr>db_domains := snd (insert_row (new_domain hostname organization_id ''manual'' now) (db_domains db))\<rparr>))"

definition is_domain :: "int \<Rightarrow> string \<Rightarrow> domain_row \<Rightarrow> bool" where
  "is_domain organization_id hostname d \<longleftrightarrow> d_organization d = organization_id \<and> d_hostname d = hostname"

definition remove_domain :: "db \<Rightarrow> int \<Rightarrow> string \<Rightarrow> domain_removal repo \<times> db" where
  "remove_domain db organization_id hostname =
     (let manual = (\<lambda>d. is_domain organization_id hostname d \<and> d_source d = ''manual'') in
      (Inr (if 0 < count_rows manual (db_domains db) then Removed
            else if select_row (is_domain organization_id hostname) (db_domains db) \<noteq> None then ConfigProtected
            else DomainMissing),
       db\<lparr>db_domains := delete_rows manual (db_domains db)\<rparr>))"

text \<open>A row of the join with \<open>organizations\<close>.\<close>

definition domain_owner :: "db \<Rightarrow> domain_row \<Rightarrow> organization_record option" where
  "domain_owner db d = select_row (\<lambda>g. o_id g = d_organization d) (db_organizations db)"

definition find_domain_owner :: "db \<Rightarrow> string \<Rightarrow> string option repo" where
  "find_domain_owner db hostname =
     Inr (Option.bind (select_row (\<lambda>d. d_hostname d = hostname) (db_domains db)) (\<lambda>d. map_option o_key (domain_owner db d)))"

section \<open>Members\<close>

definition member_join :: "db \<Rightarrow> int \<Rightarrow> (membership_row \<times> user_row) list" where
  "member_join db organization_id =
     List.map_filter (\<lambda>m. map_option (Pair m) (select_row (\<lambda>r. ur_id r = m_user m) (db_users db)))
       (filter (\<lambda>m. m_organization m = organization_id) (db_memberships db))"

definition member_of_row :: "membership_row \<times> user_row \<Rightarrow> member_record option" where
  "member_of_row mr =
     map_option (\<lambda>role. \<lparr>mr_user = m_user (fst mr), mr_username = ur_username (snd mr), mr_role = role,
                       mr_created_at = m_created_at (fst mr)\<rparr>) (role_parse (m_role (fst mr)))"

text \<open>The names are compared by the collation of their column, \<open>NOCASE\<close>.\<close>

definition members :: "db \<Rightarrow> int \<Rightarrow> member_record list repo" where
  "members db organization_id =
     Inr (List.map_filter member_of_row (order_asc (\<lambda>mr. lowercase (ur_username (snd mr))) (member_join db organization_id)))"

definition upsert_member :: "db \<Rightarrow> int \<Rightarrow> int \<Rightarrow> int \<Rightarrow> user_role \<Rightarrow> unit repo \<times> db" where
  "upsert_member db now organization_id user_id role =
     (case upsert_membership user_id organization_id (role_as_str role) now (db_memberships db) of
        Inl e \<Rightarrow> (Inl e, db)
      | Inr ms \<Rightarrow> (Inr (), db\<lparr>db_memberships := ms\<rparr>))"

definition remove_member :: "db \<Rightarrow> int \<Rightarrow> int \<Rightarrow> bool repo \<times> db" where
  "remove_member db organization_id user_id =
     (Inr (\<exists>m \<in> set (db_memberships db). is_membership user_id organization_id m),
      db\<lparr>db_memberships := filter (\<lambda>m. \<not> is_membership user_id organization_id m) (db_memberships db)\<rparr>)"

definition admin_count :: "db \<Rightarrow> int \<Rightarrow> nat" where
  "admin_count db organization_id =
     length (filter (\<lambda>m. m_organization m = organization_id \<and> m_role m = ''admin'') (db_memberships db))"

definition solo_administrated_orgs :: "db \<Rightarrow> int \<Rightarrow> string list repo" where
  "solo_administrated_orgs db user_id =
     Inr (map o_key (order_asc o_key (select_rows
       (\<lambda>g. (\<exists>m \<in> set (db_memberships db). is_membership user_id (o_id g) m \<and> m_role m = ''admin'') \<and> admin_count db (o_id g) = 1)
       (db_organizations db))))"

section \<open>Start-up\<close>

definition seed_organization :: "int \<Rightarrow> string \<Rightarrow> string \<Rightarrow> string \<Rightarrow> db \<Rightarrow> db" where
  "seed_organization now key name document_root db =
     db\<lparr>db_organizations :=
       (if \<exists>g \<in> set (rows (db_organizations db)). o_key g = key
        then set_display key name document_root (db_organizations db)
        else snd (insert_row (\<lambda>i. \<lparr>o_id = i, o_key = key, o_name = name, o_document_root = document_root, o_created_at = now\<rparr>)
               (db_organizations db)))\<rparr>"

definition seed_organizations :: "int \<Rightarrow> string \<Rightarrow> string \<Rightarrow> db \<Rightarrow> db" where
  "seed_organizations now main_root cms_root db =
     seed_organization now cms_organization_key ''CMS'' cms_root
       (seed_organization now main_organization_key ''Main site'' main_root db)"

definition editing :: "user_row \<Rightarrow> bool" where
  "editing r \<longleftrightarrow> ur_role r \<in> {''admin'', ''editor''}"

text \<open>
  The two statements of the mirror. The first cannot fail on the \<open>CHECK\<close>, since its rows are those
  with an editing role; the second compares with a null where there is no CMS organization.
\<close>

definition grant_membership :: "int \<Rightarrow> int \<Rightarrow> user_row \<Rightarrow> membership_row list \<Rightarrow> membership_row list" where
  "grant_membership now cms r ms =
     (case upsert_membership (ur_id r) cms (ur_role r) now ms of Inl _ \<Rightarrow> ms | Inr ms' \<Rightarrow> ms')"

definition mirror_cms_memberships :: "int \<Rightarrow> db \<Rightarrow> db" where
  "mirror_cms_memberships now db =
     (case org_id db cms_organization_key of
        None \<Rightarrow> db
      | Some cms \<Rightarrow>
          db\<lparr>db_memberships := filter (\<lambda>m. \<not> (m_organization m = cms \<and> m_user m \<notin> ur_id ` set (select_rows editing (db_users db))))
               (foldl (\<lambda>ms r. grant_membership now cms r ms) (db_memberships db) (select_rows editing (db_users db)))\<rparr>)"

definition normalize_hostname :: "string \<Rightarrow> string" where
  "normalize_hostname raw0 =
     (let raw = trim raw0 in lowercase (case strip_suffix ''.'' raw of Some s \<Rightarrow> s | None \<Rightarrow> raw))"

definition upsert_domain :: "int \<Rightarrow> int \<Rightarrow> string \<Rightarrow> db \<Rightarrow> db" where
  "upsert_domain now cms hostname db =
     db\<lparr>db_domains :=
       (if host_mapped db hostname
        then update_rows (\<lambda>d. d_hostname d = hostname) (\<lambda>d. d\<lparr>d_organization := cms, d_source := ''config''\<rparr>) (db_domains db)
        else snd (insert_row (new_domain hostname cms ''config'' now) (db_domains db)))\<rparr>"

definition seed_domain :: "int \<Rightarrow> string \<Rightarrow> db \<Rightarrow> db" where
  "seed_domain now raw db =
     (let hostname = normalize_hostname raw in
      if hostname = [] then db
      else (case org_id db cms_organization_key of None \<Rightarrow> db | Some cms \<Rightarrow> upsert_domain now cms hostname db))"

definition prune_domain :: "string list \<Rightarrow> int \<times> string \<Rightarrow> db \<Rightarrow> db" where
  "prune_domain hosts row db =
     (if \<exists>raw \<in> set hosts. normalize_hostname raw = snd row then db
      else db\<lparr>db_domains := delete_rows (\<lambda>d. d_id d = fst row) (db_domains db)\<rparr>)"

definition seed_domains :: "int \<Rightarrow> string list \<Rightarrow> db \<Rightarrow> db" where
  "seed_domains now hosts db =
     (let seeded = foldl (\<lambda>d raw. seed_domain now raw d) db hosts;
          configured = map (\<lambda>d. (d_id d, d_hostname d)) (select_rows (\<lambda>d. d_source d = ''config'') (db_domains seeded))
      in foldl (\<lambda>d row. prune_domain hosts row d) seeded configured)"

definition binding_of_row :: "db \<Rightarrow> domain_row \<Rightarrow> host_binding option" where
  "binding_of_row db d =
     map_option (\<lambda>g. \<lparr>hb_hostname = normalize_hostname (d_hostname d), hb_organization = o_key g,
                    hb_document_root = o_document_root g\<rparr>) (domain_owner db d)"

definition load_host_bindings :: "db \<Rightarrow> host_binding list" where
  "load_host_bindings db = List.map_filter (binding_of_row db) (rows (db_domains db))"

definition load_document_roots :: "db \<Rightarrow> (string \<times> string) list" where
  "load_document_roots db = map (\<lambda>g. (o_key g, o_document_root g)) (order_asc o_key (rows (db_organizations db)))"

definition vhost_inputs :: "db \<Rightarrow> ((string \<times> string) list \<times> host_binding list) repo" where
  "vhost_inputs db = Inr (load_document_roots db, load_host_bindings db)"

section \<open>The invariant\<close>

definition routing_ok :: "db \<Rightarrow> bool" where
  "routing_ok db \<longleftrightarrow>
     store_ok o_id (db_organizations db) \<and> distinct (map o_key (rows (db_organizations db))) \<and>
     store_ok d_id (db_domains db) \<and> distinct (map d_hostname (rows (db_domains db))) \<and>
     (\<forall>d \<in> set (rows (db_domains db)). d_source d \<in> {''config'', ''manual''} \<and> d_organization d \<in> o_id ` set (rows (db_organizations db)))"

lemma routing_okD:
  assumes "routing_ok db"
  shows "store_ok o_id (db_organizations db)" "distinct (map o_key (rows (db_organizations db)))"
    "store_ok d_id (db_domains db)" "distinct (map d_hostname (rows (db_domains db)))"
    "\<And>d. d \<in> set (rows (db_domains db)) \<Longrightarrow> d_source d \<in> {''config'', ''manual''}"
    "\<And>d. d \<in> set (rows (db_domains db)) \<Longrightarrow> d_organization d \<in> o_id ` set (rows (db_organizations db))"
  using assms by (auto simp: routing_ok_def)

lemma routing_ok_domains:
  assumes "routing_ok db" "store_ok d_id s" "distinct (map d_hostname (rows s))"
    "\<And>d. d \<in> set (rows s) \<Longrightarrow> d \<in> set (rows (db_domains db)) \<or>
       d_source d \<in> {''config'', ''manual''} \<and> d_organization d \<in> o_id ` set (rows (db_organizations db))"
  shows "routing_ok (db\<lparr>db_domains := s\<rparr>)"
  using assms routing_okD(5,6) [OF assms(1)] by (fastforce simp: routing_ok_def)

lemma org_id_exists: "org_id db key = Some i \<Longrightarrow> i \<in> o_id ` set (rows (db_organizations db))"
  by (auto simp: org_id_def dest!: select_row_Some)

lemma routing_ok_insert:
  assumes "routing_ok db" "\<not> host_mapped db h" "org \<in> o_id ` set (rows (db_organizations db))" "src \<in> {''config'', ''manual''}"
  shows "routing_ok (db\<lparr>db_domains := snd (insert_row (new_domain h org src now) (db_domains db))\<rparr>)"
proof (rule routing_ok_domains [OF assms(1)])
  show "store_ok d_id (snd (insert_row (new_domain h org src now) (db_domains db)))"
    by (rule store_ok_insert [OF routing_okD(3) [OF assms(1)]]) (simp add: new_domain_def)
  show "distinct (map d_hostname (rows (snd (insert_row (new_domain h org src now) (db_domains db)))))"
    using routing_okD(4) [OF assms(1)] assms(2) by (auto simp: new_domain_def host_mapped_def)
qed (use assms(3,4) in \<open>auto simp: new_domain_def\<close>)

lemma routing_ok_delete_domains:
  assumes "routing_ok db"
  shows "routing_ok (db\<lparr>db_domains := delete_rows p (db_domains db)\<rparr>)"
  by (rule routing_ok_domains [OF assms store_ok_delete [OF routing_okD(3) [OF assms]]])
    (use routing_okD(4) [OF assms] in \<open>auto simp: distinct_map_filter\<close>)

lemma routing_ok_point:
  assumes "routing_ok db" "org \<in> o_id ` set (rows (db_organizations db))"
  shows "routing_ok (db\<lparr>db_domains := update_rows p (\<lambda>d. d\<lparr>d_organization := org, d_source := ''config''\<rparr>) (db_domains db)\<rparr>)"
proof (rule routing_ok_domains [OF assms(1)])
  show "store_ok d_id (update_rows p (\<lambda>d. d\<lparr>d_organization := org, d_source := ''config''\<rparr>) (db_domains db))"
    by (rule store_ok_update [OF routing_okD(3) [OF assms(1)]]) simp
  show "distinct (map d_hostname (rows (update_rows p (\<lambda>d. d\<lparr>d_organization := org, d_source := ''config''\<rparr>) (db_domains db))))"
    using routing_okD(4) [OF assms(1)] unfolding rows_update by (subst distinct_map_upd) auto
qed (use assms(2) in \<open>auto elim!: update_rowsE\<close>)

lemma routing_ok_add_domain:
  assumes "routing_ok db" "org \<in> o_id ` set (rows (db_organizations db))"
  shows "routing_ok (snd (add_domain db now org h))"
  using assms routing_ok_insert by (simp add: add_domain_def)

lemma routing_ok_remove_domain: "routing_ok db \<Longrightarrow> routing_ok (snd (remove_domain db org h))"
  by (simp add: remove_domain_def Let_def routing_ok_delete_domains)

lemma upsert_domain_keeps [simp]: "db_organizations (upsert_domain now cms h db) = db_organizations db"
  by (simp add: upsert_domain_def)

lemma seed_domain_keeps [simp]: "db_organizations (seed_domain now raw db) = db_organizations db"
  by (simp add: seed_domain_def Let_def split: option.split)

lemma routing_ok_seed_domain: "routing_ok db \<Longrightarrow> routing_ok (seed_domain now raw db)"
  using routing_ok_insert routing_ok_point org_id_exists
  by (auto simp: seed_domain_def upsert_domain_def Let_def split: option.split)

lemma routing_ok_seeds: "routing_ok db \<Longrightarrow> routing_ok (foldl (\<lambda>d raw. seed_domain now raw d) db hosts)"
  by (induction hosts arbitrary: db) (simp_all add: routing_ok_seed_domain)

lemma org_id_organizations: "db_organizations a = db_organizations b \<Longrightarrow> org_id a = org_id b"
  by (rule ext) (simp add: org_id_def)

lemma seeds_keep: "db_organizations (foldl (\<lambda>d raw. seed_domain now raw d) db hosts) = db_organizations db"
  by (induction hosts arbitrary: db) simp_all

text \<open>The loop that prunes is one deletion.\<close>

definition pruned :: "string list \<Rightarrow> (int \<times> string) list \<Rightarrow> domain_row \<Rightarrow> bool" where
  "pruned hosts listed d \<longleftrightarrow> (\<exists>row \<in> set listed. d_id d = fst row \<and> \<not> (\<exists>raw \<in> set hosts. normalize_hostname raw = snd row))"

lemma delete_rows_twice: "delete_rows p (delete_rows q s) = delete_rows (\<lambda>r. q r \<or> p r) s"
  by (simp add: delete_rows_def conj_commute)

lemma delete_rows_cong: "(\<And>r. r \<in> set (rows s) \<Longrightarrow> p r = q r) \<Longrightarrow> delete_rows p s = delete_rows q s"
  unfolding delete_rows_def by (metis (mono_tags, lifting) filter_cong)

lemma db_domains_same: "db\<lparr>db_domains := db_domains db\<rparr> = db"
  by simp

lemma prune_loop: "foldl (\<lambda>d row. prune_domain hosts row d) db listed = db\<lparr>db_domains := delete_rows (pruned hosts listed) (db_domains db)\<rparr>"
proof (induction listed arbitrary: db)
  case Nil
  have "pruned hosts [] = (\<lambda>d. False)" by (simp add: pruned_def fun_eq_iff)
  then show ?case by (simp add: delete_rows_def)
next
  case (Cons row listed)
  let ?kept = "\<exists>raw \<in> set hosts. normalize_hostname raw = snd row"
  have p: "pruned hosts (row # listed) = (\<lambda>d. (d_id d = fst row \<and> \<not> ?kept) \<or> pruned hosts listed d)"
    by (auto simp: pruned_def fun_eq_iff)
  show ?case
  proof (cases ?kept)
    case True
    then have "pruned hosts (row # listed) = pruned hosts listed" unfolding p by simp
    with True Cons show ?thesis by (simp add: prune_domain_def)
  next
    case False
    have e: "foldl (\<lambda>d row. prune_domain hosts row d) db (row # listed) =
        foldl (\<lambda>d row. prune_domain hosts row d) (db\<lparr>db_domains := delete_rows (\<lambda>d. d_id d = fst row) (db_domains db)\<rparr>) listed"
      using False by (auto simp: prune_domain_def)
    have "pruned hosts (row # listed) = (\<lambda>d. d_id d = fst row \<or> pruned hosts listed d)" using False unfolding p by simp
    then show ?thesis unfolding e Cons.IH by (simp add: delete_rows_twice)
  qed
qed

definition unlisted :: "string list \<Rightarrow> domain_row \<Rightarrow> bool" where
  "unlisted hosts d \<longleftrightarrow> d_source d = ''config'' \<and> d_hostname d \<notin> normalize_hostname ` set hosts"

lemma seed_domains_deletes:
  assumes "routing_ok db"
  shows "seed_domains now hosts db =
    (let seeded = foldl (\<lambda>d raw. seed_domain now raw d) db hosts in seeded\<lparr>db_domains := delete_rows (unlisted hosts) (db_domains seeded)\<rparr>)"
proof -
  let ?s = "foldl (\<lambda>d raw. seed_domain now raw d) db hosts"
  let ?l = "map (\<lambda>d. (d_id d, d_hostname d)) (select_rows (\<lambda>d. d_source d = ''config'') (db_domains ?s))"
  have ok: "store_ok d_id (db_domains ?s)" by (rule routing_okD(3) [OF routing_ok_seeds [OF assms]])
  have "pruned hosts ?l d = unlisted hosts d" if d: "d \<in> set (rows (db_domains ?s))" for d
    using store_ok_inj [OF ok d] d by (auto simp: pruned_def unlisted_def select_rows_def image_iff) metis
  then have "delete_rows (pruned hosts ?l) (db_domains ?s) = delete_rows (unlisted hosts) (db_domains ?s)"
    by (rule delete_rows_cong)
  then show ?thesis by (simp add: seed_domains_def prune_loop Let_def)
qed

lemma routing_ok_seed_domains: "routing_ok db \<Longrightarrow> routing_ok (seed_domains now hosts db)"
  by (simp add: seed_domains_deletes Let_def routing_ok_delete_domains routing_ok_seeds)

lemma routing_ok_create:
  assumes "routing_ok db"
  shows "routing_ok (snd (create_organization db now key name droot))"
  using assms store_ok_insert [of o_id "db_organizations db"]
  by (auto simp: routing_ok_def create_organization_def insert_row_def Let_def image_iff intro!: store_ok_insert [unfolded insert_row_def Let_def snd_conv])

lemma routing_ok_display:
  assumes "routing_ok db"
  shows "routing_ok (db\<lparr>db_organizations := set_display key name droot (db_organizations db)\<rparr>)"
proof -
  let ?f = "\<lambda>g. g\<lparr>o_name := name, o_document_root := droot\<rparr>"
  let ?s = "set_display key name droot (db_organizations db)"
  have keys: "map o_id (rows ?s) = map o_id (rows (db_organizations db))" "map o_key (rows ?s) = map o_key (rows (db_organizations db))"
    by (simp_all add: set_display_def)
  have "store_ok o_id ?s"
    unfolding set_display_def by (rule store_ok_update [OF routing_okD(1) [OF assms]]) simp
  moreover from keys(1) have "o_id ` set (rows ?s) = o_id ` set (rows (db_organizations db))" by (metis list.set_map)
  ultimately show ?thesis using assms keys(2) by (simp add: routing_ok_def)
qed

lemma routing_ok_update_organization: "routing_ok db \<Longrightarrow> routing_ok (snd (update_organization db key name droot))"
  by (simp add: update_organization_def routing_ok_display)

lemma routing_ok_delete_organization:
  assumes "routing_ok db"
  shows "routing_ok (snd (delete_organization db key))"
proof (cases "org_id db key")
  case None
  with assms show ?thesis by (simp add: delete_organization_def)
next
  case (Some i)
  with assms show ?thesis
    by (auto simp: delete_organization_def routing_ok_def distinct_map_filter image_iff intro!: store_ok_delete)
qed

section \<open>The refinement\<close>

text \<open>
  What the two tables say to a reader: the organization with a key, and for a host name the key of the
  organization it maps to with the provenance of the entry. A caller names an organization by its key,
  finds its row and passes the id on; the ids stay inside.
\<close>

definition host_map :: "db \<Rightarrow> string \<Rightarrow> (int \<times> string) option" where
  "host_map db h = map_option (\<lambda>d. (d_organization d, d_source d)) (select_row (\<lambda>d. d_hostname d = h) (db_domains db))"

type_synonym host_map = "string \<Rightarrow> (string \<times> string) option"
type_synonym routing = "int \<times> (string \<Rightarrow> organization_record option) \<times> host_map"

definition org_map :: "db \<Rightarrow> string \<Rightarrow> organization_record option" where
  "org_map db key = select_row (\<lambda>g. o_key g = key) (db_organizations db)"

definition owner_map :: "db \<Rightarrow> host_map" where
  "owner_map db h =
     (case host_map db h of
        None \<Rightarrow> None
      | Some (i, src) \<Rightarrow> map_option (\<lambda>g. (o_key g, src)) (select_row (\<lambda>g. o_id g = i) (db_organizations db)))"

definition routing_of :: "db \<Rightarrow> routing" where
  "routing_of db = (last_id (db_organizations db), org_map db, owner_map db)"

datatype host_op =
    Map_Host int string string
  | Unmap_Host string string
  | Seed_Hosts int "string list"
  | Create_Organization int string string string
  | Update_Organization string string string
  | Drop_Organization string
  | Seed_Organizations int string string
  | Find_Organization string
  | Find_Owner string

datatype host_answer = Unknown_Organization | Mapped "unit repo" | Unmapped "domain_removal repo" | Seeded
  | Created "organization_record option repo" | Updated "bool repo" | Dropped "bool repo"
  | Found "organization_record option repo" | Owner "string option repo"

definition host_step :: "host_op \<Rightarrow> db \<Rightarrow> host_answer \<times> db" where
  "host_step op db =
     (case op of
        Map_Host now key h \<Rightarrow>
          (case org_id db key of None \<Rightarrow> (Unknown_Organization, db) | Some org \<Rightarrow> map_prod Mapped id (add_domain db now org h))
      | Unmap_Host key h \<Rightarrow>
          (case org_id db key of None \<Rightarrow> (Unknown_Organization, db) | Some org \<Rightarrow> map_prod Unmapped id (remove_domain db org h))
      | Seed_Hosts now hosts \<Rightarrow> (Seeded, seed_domains now hosts db)
      | Create_Organization now key name document_root \<Rightarrow> map_prod Created id (create_organization db now key name document_root)
      | Update_Organization key name document_root \<Rightarrow> map_prod Updated id (update_organization db key name document_root)
      | Drop_Organization key \<Rightarrow> map_prod Dropped id (delete_organization db key)
      | Seed_Organizations now main_root cms_root \<Rightarrow> (Seeded, seed_organizations now main_root cms_root db)
      | Find_Organization key \<Rightarrow> (Found (find_organization db key), db)
      | Find_Owner h \<Rightarrow> (Owner (find_domain_owner db h), db))"

text \<open>The same over the maps: what the panel and the seed promise.\<close>

definition seed_map :: "bool \<Rightarrow> string list \<Rightarrow> host_map \<Rightarrow> host_map" where
  "seed_map cms hosts m h =
     (let listed = h \<in> normalize_hostname ` set hosts in
      if cms \<and> listed \<and> h \<noteq> [] then Some (cms_organization_key, ''config'')
      else (case m h of Some (key, src) \<Rightarrow> if src = ''config'' \<and> \<not> listed then None else Some (key, src) | None \<Rightarrow> None))"

fun displayed :: "string \<Rightarrow> string \<Rightarrow> organization_record option \<Rightarrow> organization_record option" where
  "displayed name document_root None = None"
| "displayed name document_root (Some g) = Some (g\<lparr>o_name := name, o_document_root := document_root\<rparr>)"

definition seed_org_map ::
    "int \<Rightarrow> string \<Rightarrow> string \<Rightarrow> string \<Rightarrow> int \<times> (string \<Rightarrow> organization_record option) \<Rightarrow> int \<times> (string \<Rightarrow> organization_record option)" where
  "seed_org_map now key name document_root r =
     (case r of (n, orgs) \<Rightarrow>
       if orgs key \<noteq> None then (n, orgs(key := displayed name document_root (orgs key)))
       else (n + 1, orgs(key \<mapsto> \<lparr>o_id = n + 1, o_key = key, o_name = name, o_document_root = document_root, o_created_at = now\<rparr>)))"

definition host_spec :: "host_op \<Rightarrow> routing \<Rightarrow> host_answer \<times> routing" where
  "host_spec op r =
     (case r of (n, orgs, m) \<Rightarrow>
       (case op of
          Map_Host now key h \<Rightarrow>
            if orgs key = None then (Unknown_Organization, r)
            else if m h = None then (Mapped (Inr ()), n, orgs, m(h \<mapsto> (key, ''manual'')))
            else (Mapped (Inl Duplicate), r)
        | Unmap_Host key h \<Rightarrow>
            if orgs key = None then (Unknown_Organization, r)
            else if m h = Some (key, ''manual'') then (Unmapped (Inr Removed), n, orgs, m(h := None))
            else if m h = Some (key, ''config'') then (Unmapped (Inr ConfigProtected), r)
            else (Unmapped (Inr DomainMissing), r)
        | Seed_Hosts now hosts \<Rightarrow> (Seeded, n, orgs, seed_map (orgs cms_organization_key \<noteq> None) hosts m)
        | Create_Organization now key name document_root \<Rightarrow>
            if orgs key \<noteq> None then (Created (Inl Duplicate), r)
            else (let g = \<lparr>o_id = n + 1, o_key = key, o_name = name, o_document_root = document_root, o_created_at = now\<rparr> in
                  (Created (Inr (Some g)), n + 1, orgs(key \<mapsto> g), m))
        | Update_Organization key name document_root \<Rightarrow>
            (Updated (Inr (orgs key \<noteq> None)), n, orgs(key := displayed name document_root (orgs key)), m)
        | Drop_Organization key \<Rightarrow>
            (Dropped (Inr (orgs key \<noteq> None)), n, orgs(key := None),
             \<lambda>h. case m h of Some (k, src) \<Rightarrow> if k = key then None else Some (k, src) | None \<Rightarrow> None)
        | Seed_Organizations now main_root cms_root \<Rightarrow>
            (case seed_org_map now cms_organization_key ''CMS'' cms_root (seed_org_map now main_organization_key ''Main site'' main_root (n, orgs)) of
               (n', orgs') \<Rightarrow> (Seeded, n', orgs', m))
        | Find_Organization key \<Rightarrow> (Found (Inr (orgs key)), r)
        | Find_Owner h \<Rightarrow> (Owner (Inr (map_option fst (m h))), r)))"

fun host_run :: "host_op list \<Rightarrow> db \<Rightarrow> host_answer list \<times> db" where
  "host_run [] db = ([], db)"
| "host_run (op # ops) db =
     (case host_step op db of (a, db') \<Rightarrow> (case host_run ops db' of (as, db'') \<Rightarrow> (a # as, db'')))"

fun host_spec_run :: "host_op list \<Rightarrow> routing \<Rightarrow> host_answer list \<times> routing" where
  "host_spec_run [] r = ([], r)"
| "host_spec_run (op # ops) r =
     (case host_spec op r of (a, r') \<Rightarrow> (case host_spec_run ops r' of (as, r'') \<Rightarrow> (a # as, r'')))"

subsection \<open>Lookups by a unique column\<close>

lemma find_filter_unique:
  "distinct (map f xs) \<Longrightarrow> find (\<lambda>x. f x = h) (filter q xs) =
    (case find (\<lambda>x. f x = h) xs of Some x \<Rightarrow> if q x then Some x else None | None \<Rightarrow> None)"
proof (induction xs)
  case (Cons x xs)
  have "find (\<lambda>x. f x = h) (filter q xs) = None" if "f x = h"
    using that Cons.prems by (auto simp: find_None_iff image_iff)
  with Cons show ?case by (auto split: option.splits)
qed simp

lemma select_delete_unique:
  "distinct (map f (rows s)) \<Longrightarrow> select_row (\<lambda>r. f r = h) (delete_rows p s) =
    (case select_row (\<lambda>r. f r = h) s of Some r \<Rightarrow> if p r then None else Some r | None \<Rightarrow> None)"
  by (auto simp: select_row_def find_filter_unique split: option.split)

lemma select_insert: "select_row q (snd (insert_row mk s)) =
    (case select_row q s of Some r \<Rightarrow> Some r | None \<Rightarrow> if q (mk (last_id s + 1)) then Some (mk (last_id s + 1)) else None)"
  by (simp add: select_row_def find_append split: option.split)

lemma host_map_None: "host_map db h = None \<longleftrightarrow> \<not> host_mapped db h"
  by (auto simp: host_map_def host_mapped_def select_row_None)

lemma host_map_insert: "\<not> host_mapped db h \<Longrightarrow>
    host_map (db\<lparr>db_domains := snd (insert_row (new_domain h org src now) (db_domains db))\<rparr>) = (host_map db)(h \<mapsto> (org, src))"
  by (rule ext)
    (auto simp: host_map_def host_mapped_def select_insert new_domain_def split: option.split dest!: select_row_Some)

lemma host_map_delete:
  assumes "routing_ok db" "\<And>d. d \<in> set (rows (db_domains db)) \<Longrightarrow> p d \<longleftrightarrow> q (d_hostname d) (d_organization d) (d_source d)"
  shows "host_map (db\<lparr>db_domains := delete_rows p (db_domains db)\<rparr>) h =
    (case host_map db h of Some (org, src) \<Rightarrow> if q h org src then None else Some (org, src) | None \<Rightarrow> None)"
  using assms(2) by (auto simp: host_map_def select_delete_unique [OF routing_okD(4) [OF assms(1)]] split: option.split dest!: select_row_Some)

lemma host_map_upsert: "host_map (upsert_domain now cms h db) = (host_map db)(h \<mapsto> (cms, ''config''))"
proof (cases "host_mapped db h")
  case True
  let ?f = "\<lambda>d. d\<lparr>d_organization := cms, d_source := ''config''\<rparr>"
  have u: "select_row (\<lambda>d. d_hostname d = j) (update_rows (\<lambda>d. d_hostname d = h) ?f (db_domains db)) =
      map_option (\<lambda>d. if d_hostname d = h then ?f d else d) (select_row (\<lambda>d. d_hostname d = j) (db_domains db))" for j
    by (rule select_row_update) simp
  have "select_row (\<lambda>d. d_hostname d = h) (db_domains db) \<noteq> None" using True by (auto simp: host_mapped_def select_row_None)
  then obtain d where d: "select_row (\<lambda>d. d_hostname d = h) (db_domains db) = Some d" "d_hostname d = h"
    by (auto dest: select_row_Some)
  show ?thesis
  proof (rule ext)
    fix j
    show "host_map (upsert_domain now cms h db) j = ((host_map db)(h \<mapsto> (cms, ''config''))) j"
    proof (cases "j = h")
      case True
      with \<open>host_mapped db h\<close> d show ?thesis by (simp add: upsert_domain_def host_map_def u)
    next
      case False
      show ?thesis
      proof (cases "select_row (\<lambda>d. d_hostname d = j) (db_domains db)")
        case None
        with \<open>host_mapped db h\<close> False show ?thesis by (simp add: upsert_domain_def host_map_def u)
      next
        case (Some e)
        then have "d_hostname e = j" by (auto dest: select_row_Some)
        with Some \<open>host_mapped db h\<close> False show ?thesis by (simp add: upsert_domain_def host_map_def u)
      qed
    qed
  qed
qed (simp add: upsert_domain_def host_map_insert)

lemma host_map_seed:
  "host_map (seed_domain now raw db) =
    (case org_id db cms_organization_key of
       Some cms \<Rightarrow> if normalize_hostname raw = [] then host_map db else (host_map db)(normalize_hostname raw \<mapsto> (cms, ''config''))
     | None \<Rightarrow> host_map db)"
  by (simp add: seed_domain_def Let_def host_map_upsert split: option.split)

lemma host_map_seeds:
  "host_map (foldl (\<lambda>d raw. seed_domain now raw d) db hosts) h =
    (case org_id db cms_organization_key of
       Some cms \<Rightarrow> if h \<noteq> [] \<and> h \<in> normalize_hostname ` set hosts then Some (cms, ''config'') else host_map db h
     | None \<Rightarrow> host_map db h)"
proof (induction hosts arbitrary: db)
  case (Cons raw hosts)
  have "org_id (seed_domain now raw db) = org_id db" by (rule org_id_organizations) simp
  with Cons [of "seed_domain now raw db"] show ?case by (auto simp: host_map_seed split: option.split)
qed (simp split: option.split)

lemma host_map_seed_domains:
  assumes "routing_ok db"
  shows "host_map (seed_domains now hosts db) h =
    (let listed = h \<in> normalize_hostname ` set hosts in
     case org_id db cms_organization_key of
       Some i \<Rightarrow>
         if listed \<and> h \<noteq> [] then Some (i, ''config'')
         else (case host_map db h of Some (org, src) \<Rightarrow> if src = ''config'' \<and> \<not> listed then None else Some (org, src) | None \<Rightarrow> None)
     | None \<Rightarrow> (case host_map db h of Some (org, src) \<Rightarrow> if src = ''config'' \<and> \<not> listed then None else Some (org, src) | None \<Rightarrow> None))"
proof -
  let ?s = "foldl (\<lambda>d raw. seed_domain now raw d) db hosts"
  let ?q = "\<lambda>h org src. src = ''config'' \<and> h \<notin> normalize_hostname ` set hosts"
  have "host_map (seed_domains now hosts db) h =
      (case host_map ?s h of Some (org, src) \<Rightarrow> if ?q h org src then None else Some (org, src) | None \<Rightarrow> None)"
    unfolding seed_domains_deletes [OF assms] Let_def
    by (rule host_map_delete [OF routing_ok_seeds [OF assms]]) (simp add: unlisted_def)
  then show ?thesis
    unfolding host_map_seeds Let_def by (auto split: option.split)
qed

lemma org_id_delete_organization:
  assumes "routing_ok db" "org_id db key = Some i"
  shows "org_id (db\<lparr>db_organizations := delete_rows (\<lambda>g. o_id g = i) (db_organizations db)\<rparr>) = (org_id db)(key := None)"
proof (rule ext)
  fix k
  from assms(2) obtain g where g: "g \<in> set (rows (db_organizations db))" "o_key g = key" "o_id g = i"
    by (auto simp: org_id_def dest!: select_row_Some)
  have "o_id r = i \<longleftrightarrow> o_key r = key" if r: "r \<in> set (rows (db_organizations db))" for r
    using store_ok_inj [OF routing_okD(1) [OF assms(1)] r g(1)] routing_okD(2) [OF assms(1)] g r by (auto simp: distinct_map dest: inj_onD)
  then show "org_id (db\<lparr>db_organizations := delete_rows (\<lambda>g. o_id g = i) (db_organizations db)\<rparr>) k = ((org_id db)(key := None)) k"
    by (auto simp: org_id_def select_delete_unique [OF routing_okD(2) [OF assms(1)]] split: option.split dest!: select_row_Some)
qed

lemma host_map_source:
  assumes "routing_ok db" "host_map db h = Some (org, src)"
  shows "src \<in> {''config'', ''manual''} \<and> org \<in> o_id ` set (rows (db_organizations db))"
  using assms(2) routing_okD(5,6) [OF assms(1)] by (fastforce simp: host_map_def dest!: select_row_Some)

lemma host_map_is_domain:
  assumes "routing_ok db"
  shows "(\<exists>d \<in> set (rows (db_domains db)). is_domain org h d \<and> P (d_source d)) \<longleftrightarrow> (\<exists>src. host_map db h = Some (org, src) \<and> P src)"
proof
  assume "\<exists>d \<in> set (rows (db_domains db)). is_domain org h d \<and> P (d_source d)"
  then obtain d where d: "d \<in> set (rows (db_domains db))" "is_domain org h d" "P (d_source d)" by blast
  have "select_row (\<lambda>d. d_hostname d = h) (db_domains db) = Some d"
    using d(1,2) routing_okD(4) [OF assms]
    by (intro select_row_unique) (auto simp: is_domain_def distinct_map dest: inj_onD)
  with d show "\<exists>src. host_map db h = Some (org, src) \<and> P src" by (auto simp: host_map_def is_domain_def)
qed (auto simp: host_map_def is_domain_def dest!: select_row_Some)

lemma remove_domain_outcome:
  assumes "routing_ok db"
  shows "fst (remove_domain db org h) = Inr (case host_map db h of
      Some (k, src) \<Rightarrow> if k \<noteq> org then DomainMissing else if src = ''manual'' then Removed else ConfigProtected
    | None \<Rightarrow> DomainMissing)"
proof -
  have manual: "0 < count_rows (\<lambda>d. is_domain org h d \<and> d_source d = ''manual'') (db_domains db) \<longleftrightarrow> host_map db h = Some (org, ''manual'')"
    using host_map_is_domain [OF assms, of org h "\<lambda>src. src = ''manual''"] by (auto simp: count_rows_0 simp flip: neq0_conv)
  have "select_row (is_domain org h) (db_domains db) \<noteq> None \<longleftrightarrow> (\<exists>src. host_map db h = Some (org, src))"
    using host_map_is_domain [OF assms, of org h "\<lambda>_. True"] by (auto simp: select_row_None simp del: not_None_eq)
  then show ?thesis unfolding remove_domain_def Let_def fst_conv manual by (auto split: option.split)
qed

lemma host_map_remove:
  assumes "routing_ok db"
  shows "host_map (snd (remove_domain db org h)) = (if host_map db h = Some (org, ''manual'') then (host_map db)(h := None) else host_map db)"
proof (rule ext)
  fix j
  have "host_map (snd (remove_domain db org h)) j =
      (case host_map db j of Some (k, src) \<Rightarrow> if j = h \<and> k = org \<and> src = ''manual'' then None else Some (k, src) | None \<Rightarrow> None)"
    unfolding remove_domain_def Let_def snd_conv by (rule host_map_delete [OF assms]) (auto simp: is_domain_def)
  then show "host_map (snd (remove_domain db org h)) j =
      (if host_map db h = Some (org, ''manual'') then (host_map db)(h := None) else host_map db) j"
    by (auto split: option.split)
qed

lemma keeps_organization_ids:
  "org_id (snd (add_domain db now org h)) = org_id db"
  "org_id (snd (remove_domain db org h)) = org_id db"
  "routing_ok db \<Longrightarrow> org_id (seed_domains now hosts db) = org_id db"
  by (rule org_id_organizations, simp add: add_domain_def remove_domain_def seed_domains_deletes seeds_keep Let_def)+

text \<open>The keys and the ids name the same organizations.\<close>

lemma org_id_map: "org_id db key = map_option o_id (org_map db key)"
  by (simp add: org_id_def org_map_def)

lemma org_map_row:
  assumes "routing_ok db" "org_map db key = Some g"
  shows "o_key g = key" "select_row (\<lambda>r. o_id r = o_id g) (db_organizations db) = Some g"
proof -
  from assms(2) have g: "g \<in> set (rows (db_organizations db))" "o_key g = key" by (auto simp: org_map_def dest: select_row_Some)
  then show "o_key g = key" by simp
  show "select_row (\<lambda>r. o_id r = o_id g) (db_organizations db) = Some g"
    by (rule select_row_key [OF routing_okD(1) [OF assms(1)] g(1)])
qed

lemma row_org_map:
  assumes "routing_ok db" "select_row (\<lambda>r. o_id r = i) (db_organizations db) = Some g"
  shows "org_map db (o_key g) = Some g" "o_id g = i"
proof -
  from assms(2) have g: "g \<in> set (rows (db_organizations db))" "o_id g = i" by (auto dest: select_row_Some)
  then show "o_id g = i" by simp
  show "org_map db (o_key g) = Some g"
    unfolding org_map_def using routing_okD(2) [OF assms(1)] g(1)
    by (intro select_row_unique) (auto simp: distinct_map dest: inj_onD)
qed

lemma host_owner:
  assumes "routing_ok db" "host_map db h = Some (i, src)"
  obtains g where "select_row (\<lambda>r. o_id r = i) (db_organizations db) = Some g"
proof -
  from host_map_source [OF assms] obtain g where "g \<in> set (rows (db_organizations db))" "o_id g = i" by auto
  with select_row_key [OF routing_okD(1) [OF assms(1)], of g] that show thesis by blast
qed

lemma owner_map_None: "routing_ok db \<Longrightarrow> owner_map db h = None \<longleftrightarrow> host_map db h = None"
  by (cases "host_map db h") (auto simp: owner_map_def elim: host_owner)

lemma owner_map_Some:
  assumes "routing_ok db" "org_map db key = Some g"
  shows "owner_map db h = Some (key, src) \<longleftrightarrow> host_map db h = Some (o_id g, src)"
proof
  assume "owner_map db h = Some (key, src)"
  then obtain i r where r: "host_map db h = Some (i, src)" "select_row (\<lambda>r. o_id r = i) (db_organizations db) = Some r" "o_key r = key"
    by (auto simp: owner_map_def split: option.splits)
  with row_org_map [OF assms(1) r(2)] assms(2) show "host_map db h = Some (o_id g, src)" by simp
qed (use org_map_row [OF assms] in \<open>simp add: owner_map_def\<close>)

text \<open>Writes of the second table: the first one stays.\<close>

lemma org_map_same: "db_organizations d = db_organizations db \<Longrightarrow> org_map d = org_map db"
  by (simp add: org_map_def fun_eq_iff)

lemma owner_map_changed:
  assumes "routing_ok db" "db_organizations d = db_organizations db" "org_map db key = Some g"
    "host_map d = (host_map db)(h := map_option (Pair (o_id g)) x)"
  shows "owner_map d = (owner_map db)(h := map_option (Pair key) x)"
  using org_map_row [OF assms(1,3)] by (auto simp: fun_eq_iff owner_map_def assms(2,4) split: option.split)

lemma owner_map_filtered:
  assumes "routing_ok db" "db_organizations d = db_organizations db"
    "host_map d h = (case host_map db h of Some (i, src) \<Rightarrow> if q i src then None else Some (i, src) | None \<Rightarrow> None)"
    "\<And>g src. org_map db (o_key g) = Some g \<Longrightarrow> q (o_id g) src = p (o_key g) src"
  shows "owner_map d h = (case owner_map db h of Some (k, src) \<Rightarrow> if p k src then None else Some (k, src) | None \<Rightarrow> None)"
proof (cases "host_map db h")
  case (Some x)
  obtain i src where x: "x = (i, src)" by force
  from Some x obtain g where g: "select_row (\<lambda>r. o_id r = i) (db_organizations db) = Some g" by (auto elim: host_owner [OF assms(1)])
  note r = row_org_map [OF assms(1) g]
  from assms(4) [OF r(1)] r(2) have "q i src = p (o_key g) src" by simp
  with Some x g show ?thesis by (simp add: owner_map_def assms(2,3))
qed (simp add: owner_map_def assms(3))

text \<open>Writes of the first table: the names keep their organizations.\<close>

lemma owner_map_kept:
  assumes "routing_ok db" "db_domains d = db_domains db"
    "\<And>i g. select_row (\<lambda>r. o_id r = i) (db_organizations db) = Some g \<Longrightarrow>
      \<exists>g'. select_row (\<lambda>r. o_id r = i) (db_organizations d) = Some g' \<and> o_key g' = o_key g"
  shows "owner_map d = owner_map db"
proof (rule ext)
  fix h
  have same: "host_map d = host_map db" by (simp add: host_map_def assms(2) fun_eq_iff)
  show "owner_map d h = owner_map db h"
  proof (cases "host_map db h")
    case (Some x)
    obtain i src where x: "x = (i, src)" by force
    from Some x obtain g where g: "select_row (\<lambda>r. o_id r = i) (db_organizations db) = Some g" by (auto elim: host_owner [OF assms(1)])
    with assms(3) [OF g] Some x show ?thesis by (auto simp: owner_map_def same)
  qed (simp add: owner_map_def same)
qed

definition new_organization :: "int \<Rightarrow> string \<Rightarrow> string \<Rightarrow> string \<Rightarrow> int \<Rightarrow> organization_record" where
  "new_organization now key name document_root i =
     \<lparr>o_id = i, o_key = key, o_name = name, o_document_root = document_root, o_created_at = now\<rparr>"

lemma routing_inserted:
  assumes "routing_ok db" "org_map db key = None"
    and d: "d = db\<lparr>db_organizations := snd (insert_row (new_organization now key name document_root) (db_organizations db))\<rparr>"
  shows "routing_of d = (last_id (db_organizations db) + 1,
      (org_map db)(key \<mapsto> new_organization now key name document_root (last_id (db_organizations db) + 1)), owner_map db)"
    "routing_ok d"
proof -
  let ?new = "new_organization now key name document_root (last_id (db_organizations db) + 1)"
  have "org_map d = (org_map db)(key \<mapsto> ?new)"
    using assms(2) by (auto simp: d org_map_def select_insert new_organization_def fun_eq_iff split: option.split dest!: select_row_Some)
  moreover have "owner_map d = owner_map db"
    by (rule owner_map_kept [OF assms(1)]) (simp_all add: d select_insert)
  ultimately show "routing_of d = (last_id (db_organizations db) + 1, (org_map db)(key \<mapsto> ?new), owner_map db)"
    by (simp add: routing_of_def d insert_row_def Let_def)
  have "\<not> (\<exists>g \<in> set (rows (db_organizations db)). o_key g = key)" using assms(2) by (auto simp: org_map_def select_row_None)
  then have "snd (create_organization db now key name document_root) = d"
    by (simp add: create_organization_def d insert_row_def Let_def new_organization_def)
  with routing_ok_create [OF assms(1)] show "routing_ok d" by metis
qed

lemma routing_displayed:
  assumes "routing_ok db" and d: "d = db\<lparr>db_organizations := set_display key name document_root (db_organizations db)\<rparr>"
  shows "routing_of d = (last_id (db_organizations db), (org_map db)(key := displayed name document_root (org_map db key)), owner_map db)"
    "routing_ok d"
proof -
  let ?f = "\<lambda>g. g\<lparr>o_name := name, o_document_root := document_root\<rparr>"
  have "org_map d k = map_option (\<lambda>g. if o_key g = key then ?f g else g) (org_map db k)" for k
    unfolding org_map_def d set_display_def by (simp, rule select_row_update) simp
  moreover have "o_key g = k" if "org_map db k = Some g" for k g using that by (auto simp: org_map_def dest: select_row_Some)
  ultimately have "org_map d k = ((org_map db)(key := displayed name document_root (org_map db key))) k" for k
    by (cases "org_map db k") auto
  then have "org_map d = (org_map db)(key := displayed name document_root (org_map db key))" by (rule ext)
  moreover have "select_row (\<lambda>r. o_id r = i) (set_display key name document_root (db_organizations db)) =
      map_option (\<lambda>g. if o_key g = key then ?f g else g) (select_row (\<lambda>r. o_id r = i) (db_organizations db))" for i
    unfolding set_display_def by (rule select_row_update) simp
  then have "owner_map d = owner_map db" by (intro owner_map_kept [OF assms(1)]) (auto simp: d)
  ultimately show "routing_of d = (last_id (db_organizations db), (org_map db)(key := displayed name document_root (org_map db key)), owner_map db)"
    by (simp add: routing_of_def d set_display_def update_rows_def)
  show "routing_ok d" unfolding d by (rule routing_ok_display [OF assms(1)])
qed

lemma seed_organization_refines:
  assumes "routing_ok db"
  shows "routing_of (seed_organization now key name document_root db) =
      (case seed_org_map now key name document_root (last_id (db_organizations db), org_map db) of (n, orgs) \<Rightarrow> (n, orgs, owner_map db))"
    "routing_ok (seed_organization now key name document_root db)"
proof -
  have known: "(\<exists>g \<in> set (rows (db_organizations db)). o_key g = key) \<longleftrightarrow> org_map db key \<noteq> None"
    by (auto simp: org_map_def select_row_None simp del: not_None_eq)
  note e = seed_organization_def known
  show "routing_of (seed_organization now key name document_root db) =
      (case seed_org_map now key name document_root (last_id (db_organizations db), org_map db) of (n, orgs) \<Rightarrow> (n, orgs, owner_map db))"
    using routing_displayed(1) [OF assms refl, of key name document_root]
      routing_inserted(1) [OF assms _ refl, of key now name document_root, unfolded new_organization_def]
    by (simp add: e seed_org_map_def)
  show "routing_ok (seed_organization now key name document_root db)"
    using routing_displayed(2) [OF assms refl, of key name document_root]
      routing_inserted(2) [OF assms _ refl, of key now name document_root, unfolded new_organization_def]
    by (simp add: e)
qed

text \<open>One statement of the code is one statement over the maps.\<close>

lemma host_writes_refine:
  assumes "routing_ok db" "op = Map_Host now key h \<or> op = Unmap_Host key h \<or> op = Seed_Hosts now hosts \<or> op = Drop_Organization key"
  shows "host_spec op (routing_of db) = map_prod id routing_of (host_step op db) \<and> routing_ok (snd (host_step op db))"
  using assms(2)
proof (elim disjE)
  assume op: "op = Map_Host now key h"
  show ?thesis
  proof (cases "org_map db key")
    case (Some g)
    then have id: "org_id db key = Some (o_id g)" by (simp add: org_id_map)
    show ?thesis
    proof (cases "host_map db h")
      case None
      let ?d = "db\<lparr>db_domains := snd (insert_row (new_domain h (o_id g) ''manual'' now) (db_domains db))\<rparr>"
      have free: "\<not> host_mapped db h" using None by (simp add: host_map_None)
      then have add: "add_domain db now (o_id g) h = (Inr (), ?d)" by (simp add: add_domain_def)
      have "owner_map ?d = (owner_map db)(h := map_option (Pair key) (Some ''manual''))"
        by (rule owner_map_changed [OF assms(1) _ Some]) (use host_map_insert [OF free] in simp_all)
      then have "routing_of ?d = (last_id (db_organizations db), org_map db, (owner_map db)(h \<mapsto> (key, ''manual'')))"
        using org_map_same [of ?d db] by (simp add: routing_of_def)
      moreover have "routing_ok ?d" using routing_ok_add_domain [OF assms(1) org_id_exists [OF id], of now h] by (simp add: add)
      ultimately show ?thesis
        using Some id None add by (simp add: op host_step_def host_spec_def routing_of_def [of db] owner_map_None [OF assms(1)])
    next
      case (Some x)
      then have "add_domain db now (o_id g) h = (Inl Duplicate, db)" using host_map_None [of db h] by (simp add: add_domain_def)
      with Some \<open>org_map db key = Some g\<close> id assms(1) show ?thesis
        using owner_map_None [OF assms(1), of h] by (auto simp: op host_step_def host_spec_def routing_of_def)
    qed
  qed (use assms(1) in \<open>simp add: op host_step_def host_spec_def routing_of_def org_id_map\<close>)
next
  assume op: "op = Unmap_Host key h"
  show ?thesis
  proof (cases "org_map db key")
    case (Some g)
    let ?d = "snd (remove_domain db (o_id g) h)"
    have id: "org_id db key = Some (o_id g)" using Some by (simp add: org_id_map)
    note iff = owner_map_Some [OF assms(1) Some]
    have same: "db_organizations ?d = db_organizations db" by (simp add: remove_domain_def Let_def)
    have "owner_map ?d = (if owner_map db h = Some (key, ''manual'') then (owner_map db)(h := None) else owner_map db)"
    proof (cases "host_map db h = Some (o_id g, ''manual'')")
      case True
      then have "owner_map ?d = (owner_map db)(h := map_option (Pair key) None)"
        by (intro owner_map_changed [OF assms(1) same Some]) (simp add: host_map_remove [OF assms(1)])
      with True iff show ?thesis by simp
    next
      case False
      then have "host_map ?d = host_map db" by (simp add: host_map_remove [OF assms(1)])
      then have "owner_map ?d = owner_map db" by (simp add: owner_map_def fun_eq_iff same split: option.split)
      with False iff show ?thesis by simp
    qed
    then have r: "routing_of ?d = (last_id (db_organizations db), org_map db,
        if owner_map db h = Some (key, ''manual'') then (owner_map db)(h := None) else owner_map db)"
      using org_map_same [OF same] same by (simp add: routing_of_def)
    have "fst (remove_domain db (o_id g) h) = Inr (if owner_map db h = Some (key, ''manual'') then Removed
        else if owner_map db h = Some (key, ''config'') then ConfigProtected else DomainMissing)"
      unfolding remove_domain_outcome [OF assms(1)] iff using host_map_source [OF assms(1), of h] by (auto split: option.split)
    with r routing_ok_remove_domain [OF assms(1), of "o_id g" h] id Some show ?thesis
      by (simp add: op host_step_def host_spec_def routing_of_def [of db] map_prod_def case_prod_beta)
  qed (use assms(1) in \<open>simp add: op host_step_def host_spec_def routing_of_def org_id_map\<close>)
next
  assume op: "op = Seed_Hosts now hosts"
  let ?d = "seed_domains now hosts db"
  have same: "db_organizations ?d = db_organizations db" using assms(1) by (simp add: seed_domains_deletes seeds_keep Let_def)
  have "owner_map ?d j = seed_map (org_map db cms_organization_key \<noteq> None) hosts (owner_map db) j" for j
  proof (cases "org_map db cms_organization_key \<noteq> None \<and> j \<in> normalize_hostname ` set hosts \<and> j \<noteq> []")
    case True
    then obtain g where g: "org_map db cms_organization_key = Some g" by blast
    with True have "host_map ?d j = Some (o_id g, ''config'')" by (simp add: host_map_seed_domains [OF assms(1)] org_id_map)
    with True same org_map_row [OF assms(1) g] show ?thesis by (simp add: owner_map_def seed_map_def)
  next
    case False
    then have "host_map ?d j = (case host_map db j of Some (org, src) \<Rightarrow>
        if src = ''config'' \<and> j \<notin> normalize_hostname ` set hosts then None else Some (org, src) | None \<Rightarrow> None)"
      by (auto simp: host_map_seed_domains [OF assms(1)] org_id_map Let_def split: option.split)
    from owner_map_filtered [OF assms(1) same this, where p = "\<lambda>k src. src = ''config'' \<and> j \<notin> normalize_hostname ` set hosts"] False
    show ?thesis by (auto simp: seed_map_def Let_def)
  qed
  with same routing_ok_seed_domains [OF assms(1), of now hosts] org_map_same [OF same] show ?thesis
    by (simp add: op host_step_def host_spec_def routing_of_def fun_eq_iff)
next
  assume op: "op = Drop_Organization key"
  show ?thesis
  proof (cases "org_map db key")
    case None
    then have "(\<lambda>h. case owner_map db h of Some (k, src) \<Rightarrow> if k = key then None else Some (k, src) | None \<Rightarrow> None) = owner_map db"
      using row_org_map(1) [OF assms(1)] by (fastforce simp: fun_eq_iff owner_map_def split: option.split)
    with None assms(1) show ?thesis
      by (simp add: op host_step_def host_spec_def routing_of_def delete_organization_def org_id_map fun_upd_idem)
  next
    case (Some g)
    let ?d = "snd (delete_organization db key)"
    have id: "org_id db key = Some (o_id g)" using Some by (simp add: org_id_map)
    have orgs: "db_organizations ?d = delete_rows (\<lambda>r. o_id r = o_id g) (db_organizations db)" by (simp add: delete_organization_def id)
    have key: "o_id r = o_id g \<longleftrightarrow> o_key r = key" if "r \<in> set (rows (db_organizations db))" for r
      using that org_map_row [OF assms(1) Some] select_row_key [OF routing_okD(1) [OF assms(1)] that] row_org_map(1) [OF assms(1)] Some
      by (metis option.inject)
    have "org_map ?d = (org_map db)(key := None)"
      using key by (auto simp: fun_eq_iff org_map_def orgs select_delete_unique [OF routing_okD(2) [OF assms(1)]] split: option.split dest!: select_row_Some)
    moreover have "owner_map ?d h = (case owner_map db h of Some (k, src) \<Rightarrow> if k = key then None else Some (k, src) | None \<Rightarrow> None)" for h
    proof -
      have "host_map ?d h = host_map (db\<lparr>db_domains := delete_rows (\<lambda>d. d_organization d = o_id g) (db_domains db)\<rparr>) h"
        using id by (simp add: delete_organization_def host_map_def)
      also have "\<dots> = (case host_map db h of Some (org, src) \<Rightarrow> if org = o_id g then None else Some (org, src) | None \<Rightarrow> None)"
        by (rule host_map_delete [OF assms(1), where q = "\<lambda>h org src. org = o_id g"]) simp
      finally have hosts: "host_map ?d h = (case host_map db h of Some (org, src) \<Rightarrow> if org = o_id g then None else Some (org, src) | None \<Rightarrow> None)" .
      show ?thesis
      proof (cases "host_map db h")
        case (Some x)
        obtain i src where x: "x = (i, src)" by force
        from Some x obtain r where r: "select_row (\<lambda>r. o_id r = i) (db_organizations db) = Some r" by (auto elim: host_owner [OF assms(1)])
        then have r': "r \<in> set (rows (db_organizations db))" "o_id r = i" by (auto dest: select_row_Some)
        have "distinct (map o_id (rows (db_organizations db)))" by (rule store_ok_distinct [OF routing_okD(1) [OF assms(1)]])
        with Some x r r' key [OF r'(1)] hosts show ?thesis by (auto simp: owner_map_def orgs select_delete_unique)
      qed (simp add: owner_map_def hosts)
    qed
    moreover have "last_id (db_organizations ?d) = last_id (db_organizations db)" by (simp add: orgs delete_rows_def)
    ultimately show ?thesis
      using Some id routing_ok_delete_organization [OF assms(1), of key]
      by (simp add: op host_step_def host_spec_def routing_of_def map_prod_def case_prod_beta fun_eq_iff) (simp add: delete_organization_def)
  qed
qed

lemma organization_writes_refine:
  assumes "routing_ok db" "op = Create_Organization now key name document_root \<or> op = Update_Organization key name document_root \<or>
    op = Seed_Organizations now main_root cms_root \<or> op = Find_Organization key \<or> op = Find_Owner h"
  shows "host_spec op (routing_of db) = map_prod id routing_of (host_step op db) \<and> routing_ok (snd (host_step op db))"
  using assms(2)
proof (elim disjE)
  assume op: "op = Create_Organization now key name document_root"
  have known: "(\<exists>g \<in> set (rows (db_organizations db)). o_key g = key) \<longleftrightarrow> org_map db key \<noteq> None"
    by (auto simp: org_map_def select_row_None simp del: not_None_eq)
  show ?thesis
  proof (cases "org_map db key")
    case None
    let ?d = "db\<lparr>db_organizations := snd (insert_row (new_organization now key name document_root) (db_organizations db))\<rparr>"
    note new = routing_inserted [OF assms(1) None refl, of now name document_root]
    have "create_organization db now key name document_root = (find_organization ?d key, ?d)"
      using None known by (simp add: create_organization_def insert_row_def Let_def new_organization_def [abs_def])
    moreover have "find_organization ?d key = Inr (org_map ?d key)" by (simp add: find_organization_def org_map_def)
    ultimately show ?thesis
      using new None by (simp add: op host_step_def host_spec_def Let_def routing_of_def new_organization_def)
  qed (use assms(1) known in \<open>auto simp: op host_step_def host_spec_def routing_of_def create_organization_def\<close>)
next
  assume op: "op = Update_Organization key name document_root"
  have "0 < count_rows (\<lambda>g. o_key g = key) (db_organizations db) \<longleftrightarrow> org_map db key \<noteq> None"
    by (auto simp: org_map_def select_row_None count_rows_0 simp flip: neq0_conv simp del: not_None_eq)
  with routing_displayed [OF assms(1) refl, of key name document_root] show ?thesis
    by (simp add: op host_step_def host_spec_def update_organization_def routing_of_def [of db])
next
  assume op: "op = Seed_Organizations now main_root cms_root"
  note first = seed_organization_refines [OF assms(1), of now main_organization_key "''Main site''" main_root]
  note second = seed_organization_refines [OF first(2), of now cms_organization_key "''CMS''" cms_root]
  show ?thesis
    using first(1) second
    by (simp add: op host_step_def host_spec_def seed_organizations_def routing_of_def split: prod.splits)
next
  assume op: "op = Find_Owner h"
  show ?thesis
    using assms(1) by (auto simp: op host_step_def host_spec_def find_domain_owner_def routing_of_def owner_map_def host_map_def domain_owner_def
        option.map_comp comp_def split: option.split)
qed (use assms(1) in \<open>simp add: host_step_def host_spec_def find_organization_def routing_of_def org_map_def\<close>)

lemma host_step_refines:
  assumes "routing_ok db"
  shows "host_spec op (routing_of db) = map_prod id routing_of (host_step op db) \<and> routing_ok (snd (host_step op db))"
  by (cases op) (rule host_writes_refine [OF assms], fast | rule organization_writes_refine [OF assms], fast)+

lemma host_run_refines:
  assumes "routing_ok db"
  shows "host_spec_run ops (routing_of db) = map_prod id routing_of (host_run ops db) \<and> routing_ok (snd (host_run ops db))"
  using assms
proof (induction ops arbitrary: db)
  case (Cons op ops)
  obtain a db' where step: "host_step op db = (a, db')" by fastforce
  from host_step_refines [OF Cons.prems, of op] step
  have "host_spec op (routing_of db) = (a, routing_of db')" "routing_ok db'" by simp_all
  with step Cons.IH [of db'] show ?case by (cases "host_run ops db'") simp
qed simp


definition sample_organization :: "int \<Rightarrow> string \<Rightarrow> string \<Rightarrow> organization_record" where
  "sample_organization i key droot = \<lparr>o_id = i, o_key = key, o_name = key, o_document_root = droot, o_created_at = 0\<rparr>"

definition cms_and_shop :: db where
  "cms_and_shop = empty_db\<lparr>db_organizations :=
     \<lparr>last_id = 2, rows = [sample_organization 1 ''cms'' ''views'', sample_organization 2 ''shop'' ''sites/shop'']\<rparr>\<rparr>"

lemma cms_and_shop_ok: "routing_ok cms_and_shop"
  by (simp add: routing_ok_def cms_and_shop_def empty_db_def empty_store_def store_ok_def sample_organization_def)

lemma routing_of_cms_and_shop:
  "routing_of cms_and_shop = (2, [''cms'' \<mapsto> sample_organization 1 ''cms'' ''views'', ''shop'' \<mapsto> sample_organization 2 ''shop'' ''sites/shop''], \<lambda>_. None)"
  by (auto simp: routing_of_def cms_and_shop_def org_map_def owner_map_def host_map_def select_row_def empty_db_def empty_store_def
      sample_organization_def fun_eq_iff)

definition mapped_twice :: "host_op list" where
  "mapped_twice = [Map_Host 7 ''shop'' ''a.b'', Map_Host 8 ''cms'' ''a.b'', Unmap_Host ''cms'' ''a.b'', Find_Owner ''a.b'',
     Drop_Organization ''shop'', Map_Host 9 ''shop'' ''a.b'', Create_Organization 10 ''shop'' ''Shop'' ''sites/shop'', Find_Owner ''a.b'']"


section \<open>Routing\<close>

definition canonical_hosts :: "db \<Rightarrow> bool" where
  "canonical_hosts db \<longleftrightarrow> (\<forall>d \<in> set (rows (db_domains db)). normalize_hostname (d_hostname d) = d_hostname d)"

lemma lowercase_normalized: "lowercase (normalize_hostname h) = normalize_hostname h"
  by (simp add: normalize_hostname_def Let_def lowercase_idem)

lemma set_map_filter: "x \<in> set (List.map_filter f xs) \<longleftrightarrow> (\<exists>y \<in> set xs. f y = Some x)"
  by (induction xs) (auto simp: map_filter_simps split: option.splits)

lemma map_filter_agree: "(\<And>x. x \<in> set xs \<Longrightarrow> f x = g x) \<Longrightarrow> List.map_filter f xs = List.map_filter g xs"
  by (induction xs) (simp_all add: map_filter_simps split: option.split)

lemma map_filter_total: "(\<And>x. x \<in> set xs \<Longrightarrow> f x = Some (g x)) \<Longrightarrow> List.map_filter f xs = map g xs"
  by (induction xs) (simp_all add: map_filter_simps)

lemma find_map_Some: "find P (map g xs) = map_option g (find (\<lambda>x. P (g x)) xs)"
  by (induction xs) auto

lemma domain_owner_exists:
  assumes "routing_ok db" "d \<in> set (rows (db_domains db))"
  obtains g where "domain_owner db d = Some g" "o_id g = d_organization d"
proof -
  from routing_okD(6) [OF assms] obtain g where "g \<in> set (rows (db_organizations db))" "o_id g = d_organization d" by auto
  with select_row_key [OF routing_okD(1) [OF assms(1)], of g] show thesis by (intro that) (simp_all add: domain_owner_def)
qed

text \<open>What the server routes by is the map.\<close>

lemma routing_follows_map:
  assumes "routing_ok db" "canonical_hosts db"
  shows "classify authority hosts (load_host_bindings db) =
    (case request_host authority hosts of
       None \<Rightarrow> Main
     | Some host \<Rightarrow>
         (case host_map db (lowercase (host_name host)) of
            None \<Rightarrow> Main
          | Some (org, _) \<Rightarrow>
              (case select_row (\<lambda>g. o_id g = org) (db_organizations db) of
                 None \<Rightarrow> Main
               | Some g \<Rightarrow> class_of \<lparr>hb_hostname = lowercase (host_name host), hb_organization = o_key g, hb_document_root = o_document_root g\<rparr>)))"
proof -
  let ?g = "\<lambda>d. \<lparr>hb_hostname = d_hostname d, hb_organization = o_key (the (domain_owner db d)),
      hb_document_root = o_document_root (the (domain_owner db d))\<rparr>"
  have load: "load_host_bindings db = map ?g (rows (db_domains db))"
    unfolding load_host_bindings_def
  proof (rule map_filter_total)
    fix d assume d: "d \<in> set (rows (db_domains db))"
    with assms(2) show "binding_of_row db d = Some (?g d)"
      by (cases rule: domain_owner_exists [OF assms(1) d]) (simp add: binding_of_row_def canonical_hosts_def)
  qed
  have lower: "lowercase (d_hostname d) = d_hostname d" if "d \<in> set (rows (db_domains db))" for d
    using that assms(2) lowercase_normalized [of "d_hostname d"] by (simp add: canonical_hosts_def)
  have "find (\<lambda>b. eq_ignore_case (hb_hostname b) h) (load_host_bindings db) =
      map_option ?g (select_row (\<lambda>d. d_hostname d = lowercase h) (db_domains db))" for h
  proof -
    have "find (\<lambda>d. eq_ignore_case (d_hostname d) h) (rows (db_domains db)) = find (\<lambda>d. d_hostname d = lowercase h) (rows (db_domains db))"
      by (rule find_cong [OF refl]) (simp add: eq_ignore_case_def lower)
    then show ?thesis unfolding load find_map_Some select_row_def by simp
  qed
  note found = this
  show ?thesis
  proof (cases "request_host authority hosts")
    case None
    then show ?thesis by (simp add: classify_def)
  next
    case (Some host)
    show ?thesis
    proof (cases "select_row (\<lambda>d. d_hostname d = lowercase (host_name host)) (db_domains db)")
      case None
      with Some found show ?thesis by (simp add: classify_def host_map_def)
    next
      case (Some d)
      then have d: "d \<in> set (rows (db_domains db))" "d_hostname d = lowercase (host_name host)" by (auto dest: select_row_Some)
      obtain g where g: "domain_owner db d = Some g" by (rule domain_owner_exists [OF assms(1) d(1)])
      with \<open>request_host authority hosts = Some host\<close> Some found d(2) show ?thesis
        by (simp add: classify_def host_map_def domain_owner_def)
    qed
  qed
qed

text \<open>
  What the server routes by is the map: a request goes where the entry of its host name,
  compared without case, points to: the CMS, the main site, or the tenant with its document root
  as stored; a request without one readable host, or whose name has no entry, goes to the main site.
\<close>

theorem routing_follows_the_tables:
  assumes "routing_ok db" "canonical_hosts db"
  shows "classify authority hosts (load_host_bindings db) =
    (case request_host authority hosts of
       None \<Rightarrow> Main
     | Some host \<Rightarrow>
         (case host_map db (lowercase (host_name host)) of
            None \<Rightarrow> Main
          | Some (org, _) \<Rightarrow>
              (case select_row (\<lambda>g. o_id g = org) (db_organizations db) of
                 None \<Rightarrow> Main
               | Some g \<Rightarrow> class_of \<lparr>hb_hostname = lowercase (host_name host), hb_organization = o_key g, hb_document_root = o_document_root g\<rparr>)))"
  by (rule routing_follows_map [OF assms])

definition shop_mapped :: db where
  "shop_mapped = cms_and_shop\<lparr>db_domains := \<lparr>last_id = 1, rows = [new_domain ''a.b'' 2 ''manual'' 0 1]\<rparr>\<rparr>"

lemma shop_mapped_ok: "routing_ok shop_mapped" "canonical_hosts shop_mapped"
proof -
  show "routing_ok shop_mapped"
    using cms_and_shop_ok by (simp add: routing_ok_def shop_mapped_def cms_and_shop_def sample_organization_def new_domain_def store_ok_def)
  have "trim ''a.b'' = ''a.b''" by (rule trim_all_graphic) (simp add: graphic_def code_def)
  then show "canonical_hosts shop_mapped"
    by (simp add: canonical_hosts_def shop_mapped_def new_domain_def normalize_hostname_def strip_suffix_def starts_with_def
        ends_with_def lowercase_def to_lower_def is_upper_def code_def)
qed

lemma host_of_shop: "lowercase (host_name ''A.b'') = ''a.b''"
proof -
  have "plain_host ''A.b''" by (simp add: plain_host_def graphic_def code_def)
  then show ?thesis by (simp add: host_name_plain lowercase_def to_lower_def is_upper_def code_def char_of_def bit_0)
qed

lemma routing_follows_the_tables_witness:
  "classify None [Some ''A.b''] (load_host_bindings shop_mapped) =
     Tenant \<lparr>hb_hostname = ''a.b'', hb_organization = ''shop'', hb_document_root = ''sites/shop''\<rparr>"
  unfolding routing_follows_the_tables [OF shop_mapped_ok]
  by (simp add: request_host_def host_of_shop host_map_def shop_mapped_def cms_and_shop_def select_row_def new_domain_def
      sample_organization_def class_of_def cms_organization_key_def main_organization_key_def)

section \<open>The mirror\<close>

definition stored_role :: "membership_row list \<Rightarrow> int \<Rightarrow> int \<Rightarrow> string option" where
  "stored_role ms u org = map_option m_role (find (is_membership u org) ms)"

lemma grant_membership_role:
  assumes "editing r"
  shows "stored_role (grant_membership now cms r ms) u org = (if u = ur_id r \<and> org = cms then Some (ur_role r) else stored_role ms u org)"
proof -
  from assms have "ur_role r \<in> {''admin'', ''editor''}" by (simp add: editing_def)
  then have "\<exists>ms'. upsert_membership (ur_id r) cms (ur_role r) now ms = Inr ms'"
    unfolding upsert_membership_def by (simp split: if_split)
  then obtain ms' where up: "upsert_membership (ur_id r) cms (ur_role r) now ms = Inr ms'" ..
  from find_upsert_membership [OF up, of u org] up show ?thesis by (simp add: grant_membership_def stored_role_def)
qed

lemma grants_role:
  assumes "\<forall>r \<in> set rs. editing r" "distinct (map ur_id rs)"
  shows "stored_role (foldl (\<lambda>ms r. grant_membership now cms r ms) ms rs) u org =
    (if org = cms then (case find (\<lambda>r. ur_id r = u) rs of Some r \<Rightarrow> Some (ur_role r) | None \<Rightarrow> stored_role ms u org)
     else stored_role ms u org)"
  using assms
proof (induction rs arbitrary: ms)
  case (Cons r rs)
  have "find (\<lambda>r. ur_id r = u) rs = None" if "ur_id r = u"
    using that Cons.prems by (auto simp: find_None_iff image_iff)
  with Cons show ?case by (auto simp: grant_membership_role split: option.split)
qed simp

lemma find_filter_key:
  "find (is_membership u org) (filter (\<lambda>m. Q (m_user m) (m_organization m)) ms) = (if Q u org then find (is_membership u org) ms else None)"
proof -
  have key: "m_user m = u \<and> m_organization m = org" if "is_membership u org m" for m
    using that by (simp add: is_membership_def)
  show ?thesis by (induction ms) (auto dest: key)
qed

definition find_user_row :: "db \<Rightarrow> int \<Rightarrow> user_row option" where
  "find_user_row db u = select_row (\<lambda>r. ur_id r = u) (db_users db)"

text \<open>
  The mirror of the start-up heals every drift: afterwards an account has the membership of the
  CMS organization its platform role calls for, an id without an account has none, and the
  memberships of every other organization are what they were.
\<close>

theorem mirror_heals:
  assumes "accounts_ok db"
  shows "stored_membership (mirror_cms_memberships now db) u org =
    (if org_id db cms_organization_key = Some org
     then Option.bind (find_user_row db u) (\<lambda>r. mirrored_role (ur_role r))
     else stored_membership db u org)"
proof (cases "org_id db cms_organization_key")
  case None
  then show ?thesis by (simp add: mirror_cms_memberships_def)
next
  case (Some cms)
  let ?E = "select_rows editing (db_users db)"
  let ?ms = "foldl (\<lambda>ms r. grant_membership now cms r ms) (db_memberships db) ?E"
  have ids: "distinct (map ur_id (rows (db_users db)))"
    using assms by (simp add: accounts_ok_def users_ok_def store_ok_distinct)
  then have dE: "distinct (map ur_id ?E)" by (simp add: select_rows_def distinct_map_filter)
  have fE: "find (\<lambda>r. ur_id r = u) ?E = (case find_user_row db u of Some r \<Rightarrow> if editing r then Some r else None | None \<Rightarrow> None)"
    unfolding select_rows_def find_user_row_def select_row_def by (rule find_filter_unique [OF ids])
  have mem: "u \<in> ur_id ` set ?E \<longleftrightarrow> find (\<lambda>r. ur_id r = u) ?E \<noteq> None" by (auto simp: find_None_iff image_iff)
  have "stored_membership (mirror_cms_memberships now db) u org =
      (if org = cms \<and> u \<notin> ur_id ` set ?E then None else stored_role ?ms u org)"
    using Some find_filter_key [of u org "\<lambda>u k. \<not> (k = cms \<and> u \<notin> ur_id ` set ?E)" ?ms]
    by (simp add: mirror_cms_memberships_def stored_membership_def stored_role_def)
  moreover have "stored_role ?ms u org = (if org = cms
      then (case find (\<lambda>r. ur_id r = u) ?E of Some r \<Rightarrow> Some (ur_role r) | None \<Rightarrow> stored_role (db_memberships db) u org)
      else stored_role (db_memberships db) u org)"
    by (rule grants_role [OF _ dE]) (simp add: select_rows_def)
  ultimately show ?thesis
    using Some unfolding mem fE
    by (auto simp: stored_membership_def stored_role_def mirrored_role_def editing_def split: option.split)
qed

definition account_row :: "int \<Rightarrow> string \<Rightarrow> user_role \<Rightarrow> user_row" where
  "account_row i name role = \<lparr>ur_id = i, ur_username = name, ur_password_hash = [], ur_role = role_as_str role, ur_created_at = 0, ur_last_login_at = None\<rparr>"

text \<open>Ann is an administrator without a membership, Bob has one he should not have.\<close>

definition drifted :: db where
  "drifted = cms_and_shop\<lparr>db_users := \<lparr>last_id = 2, rows = [account_row 1 ''ann'' Admin, account_row 2 ''bob'' User]\<rparr>,
     db_memberships := [\<lparr>m_user = 2, m_organization = 1, m_role = ''editor'', m_created_at = 0\<rparr>,
       \<lparr>m_user = 2, m_organization = 2, m_role = ''admin'', m_created_at = 0\<rparr>]\<rparr>"

lemma drifted_ok: "accounts_ok drifted"
  by (simp add: accounts_ok_defs drifted_def cms_and_shop_def empty_db_def empty_store_def store_ok_def account_row_def
      sample_organization_def membership_key_def lowercase_def to_lower_def is_upper_def code_def)

lemma drifted_org: "org_id drifted key = ([''cms'' \<mapsto> 1, ''shop'' \<mapsto> 2]) key"
  by (simp add: drifted_def cms_and_shop_def org_id_def select_row_def sample_organization_def)

lemma mirror_heals_witness:
  "stored_membership (mirror_cms_memberships 9 drifted) 1 1 = Some ''admin'' \<and>
   stored_membership (mirror_cms_memberships 9 drifted) 2 1 = None \<and>
   stored_membership (mirror_cms_memberships 9 drifted) 2 2 = Some ''admin''"
  unfolding mirror_heals [OF drifted_ok] drifted_org
  by (simp_all add: cms_organization_key_def find_user_row_def mirrored_role_def role_as_str_def account_row_def
      stored_membership_def is_membership_def select_row_def drifted_def)

end
