(* ===== verification/Serving.thy ===== *)
theory Serving
  imports Template_Dispatch Organizations
begin

text \<open>
  Which route tree serves a request: the host resolution of \<open>src/src/state.rs\<close> with the snapshot the
  panel swaps, the trees \<open>src/src/routes/mod.rs\<close> and \<open>src/src/routes/static_files.rs\<close> assemble, and the
  choice \<open>src/src/server.rs\<close> makes at the start. A tree is the list of the route families merged into it
  with its fallback. The refresh after a write is given by its statements, since nothing serializes them.
\<close>

section \<open>Configuration\<close>

text \<open>What the serving layers read of the configuration, with the working directory.\<close>

record serving =
  sc_cwd :: string
  sc_static_enabled :: bool
  sc_static_root :: string
  sc_index_file :: string
  sc_views_dir :: string
  sc_cms_hosts :: "string list"
  sc_site_url :: "string option"
  sc_tls :: bool
  sc_port :: "16 word"
  sc_metrics :: "string option"
  sc_auth :: bool
  sc_refresh_tokens :: bool
  sc_cms :: bool
  sc_external_api :: bool

definition absolutize :: "serving \<Rightarrow> string \<Rightarrow> string" where
  "absolutize sc path = (if starts_with ''/'' path then path else path_join (sc_cwd sc) path)"

section \<open>Resolution\<close>

record vhost_data =
  vd_main_root :: string
  vd_cms_root :: string
  vd_bindings :: "host_binding list"

definition vhosts_from_config :: "serving \<Rightarrow> vhost_data" where
  "vhosts_from_config sc =
     (let cms_root = absolutize sc (sc_views_dir sc) in
      \<lparr>vd_main_root = absolutize sc (sc_static_root sc), vd_cms_root = cms_root,
       vd_bindings = map (\<lambda>h. \<lparr>hb_hostname = h, hb_organization = cms_organization_key, hb_document_root = cms_root\<rparr>) (sc_cms_hosts sc)\<rparr>)"

definition root_of :: "(string \<times> string) list \<Rightarrow> string \<Rightarrow> string option" where
  "root_of roots key = map_option snd (find (\<lambda>r. fst r = key) roots)"

definition vhosts_from_database :: "serving \<Rightarrow> (string \<times> string) list \<Rightarrow> host_binding list \<Rightarrow> vhost_data" where
  "vhosts_from_database sc roots bindings =
     \<lparr>vd_main_root = absolutize sc (case root_of roots main_organization_key of Some r \<Rightarrow> r | None \<Rightarrow> sc_static_root sc),
      vd_cms_root = absolutize sc (case root_of roots cms_organization_key of Some r \<Rightarrow> r | None \<Rightarrow> sc_views_dir sc),
      vd_bindings = map (\<lambda>b. b\<lparr>hb_document_root := absolutize sc (hb_document_root b)\<rparr>) bindings\<rparr>"

definition data_cms_origin :: "serving \<Rightarrow> vhost_data \<Rightarrow> string" where
  "data_cms_origin sc d =
     cms_origin (sc_site_url sc) (map hb_hostname (filter (\<lambda>b. hb_organization b = cms_organization_key) (vd_bindings d)))
       (sc_tls sc) (sc_port sc)"

section \<open>Trees\<close>

datatype family =
    Index_Routes | Index_Root | Health_Routes | Stats_Routes | Echo_Routes
  | Auth_Family bool | Admin_Family | Cms_Family | Cms_Platform | Media_Family | Search_Family
  | Tenants_Family | Team_Family | External_Family | Metrics_Family string | Static_Index string

datatype fallback = Serve_Dir string | Shared_Assets string | Tenant_Dir string "string option" | Not_Found

record tree =
  tr_families :: "family list"
  tr_fallback :: fallback

definition tenant_static :: "string \<Rightarrow> string \<Rightarrow> serving \<Rightarrow> tree" where
  "tenant_static droot index_file sc =
     \<lparr>tr_families = [Static_Index (path_join droot index_file)],
      tr_fallback = Tenant_Dir droot (if sc_static_enabled sc then Some (sc_static_root sc) else None)\<rparr>"

definition tenant_tree :: "serving \<Rightarrow> host_binding \<Rightarrow> tree" where
  "tenant_tree sc b =
     (let static = tenant_static (hb_document_root b) (sc_index_file sc) sc in
      \<lparr>tr_families = (if sc_cms sc then [Cms_Family, Media_Family, Search_Family, Team_Family] else []) @
         (if sc_auth sc then [Auth_Family (sc_refresh_tokens sc)] else []) @ tr_families static,
       tr_fallback = tr_fallback static\<rparr>)"

definition tenant_binding :: "host_binding \<Rightarrow> bool" where
  "tenant_binding b \<longleftrightarrow> hb_organization b \<noteq> main_organization_key \<and> hb_organization b \<noteq> cms_organization_key"

definition add_tenant_tree :: "serving \<Rightarrow> (string \<times> tree) list \<Rightarrow> host_binding \<Rightarrow> (string \<times> tree) list" where
  "add_tenant_tree sc tenants b =
     (if tenant_binding b \<and> \<not> list_ex (\<lambda>t. fst t = hb_organization b) tenants
      then tenants @ [(hb_organization b, tenant_tree sc b)] else tenants)"

definition tenant_trees :: "serving \<Rightarrow> host_binding list \<Rightarrow> (string \<times> tree) list" where
  "tenant_trees sc bindings = foldl (add_tenant_tree sc) [] bindings"

text \<open>The tree of a server without virtual hosts, and the two fixed trees of one with them.\<close>

definition operator_families :: "serving \<Rightarrow> family list" where
  "operator_families sc =
     [Index_Routes, Health_Routes, Stats_Routes, Echo_Routes] @
     (if sc_auth sc then [Auth_Family (sc_refresh_tokens sc), Admin_Family] else [])"

definition platform_families :: "serving \<Rightarrow> family list" where
  "platform_families sc = (if sc_cms sc then [Cms_Family, Cms_Platform, Media_Family, Search_Family, Tenants_Family] else [])"

definition closing_families :: "serving \<Rightarrow> family list" where
  "closing_families sc =
     (if sc_external_api sc then [External_Family] else []) @
     (case sc_metrics sc of Some path \<Rightarrow> [Metrics_Family path] | None \<Rightarrow> []) @
     (if sc_static_enabled sc then [Static_Index (path_join (sc_static_root sc) (sc_index_file sc))] else [Index_Root])"

definition main_fallback :: "serving \<Rightarrow> fallback" where
  "main_fallback sc = (if sc_static_enabled sc then Serve_Dir (sc_static_root sc) else Not_Found)"

definition single_tree :: "serving \<Rightarrow> tree" where
  "single_tree sc =
     \<lparr>tr_families = operator_families sc @ platform_families sc @ closing_families sc, tr_fallback = main_fallback sc\<rparr>"

definition main_tree :: "serving \<Rightarrow> tree" where
  "main_tree sc = \<lparr>tr_families = operator_families sc @ closing_families sc, tr_fallback = main_fallback sc\<rparr>"

definition cms_tree :: "serving \<Rightarrow> tree" where
  "cms_tree sc =
     \<lparr>tr_families = platform_families sc @ (if sc_auth sc then [Auth_Family (sc_refresh_tokens sc)] else []),
      tr_fallback = (if sc_static_enabled sc then Shared_Assets (sc_static_root sc) else Not_Found)\<rparr>"

section \<open>The snapshot\<close>

record vhost_snapshot =
  vs_main_root :: string
  vs_cms_origin :: string
  vs_bindings :: "host_binding list"
  vs_tenants :: "(string \<times> tree) list"

definition snapshot_from_data :: "vhost_data \<Rightarrow> string \<Rightarrow> vhost_snapshot" where
  "snapshot_from_data d origin =
     \<lparr>vs_main_root = vd_main_root d, vs_cms_origin = origin, vs_bindings = vd_bindings d, vs_tenants = []\<rparr>"

definition refreshed_snapshot :: "serving \<Rightarrow> (string \<times> string) list \<times> host_binding list \<Rightarrow> vhost_snapshot" where
  "refreshed_snapshot sc inputs =
     (let d = vhosts_from_database sc (fst inputs) (snd inputs) in
      \<lparr>vs_main_root = vd_main_root d, vs_cms_origin = data_cms_origin sc d, vs_bindings = vd_bindings d,
       vs_tenants = tenant_trees sc (vd_bindings d)\<rparr>)"

text \<open>The refresh as a whole: a failure to load keeps what is there.\<close>

definition refresh_vhost_state :: "serving \<Rightarrow> db \<Rightarrow> vhost_snapshot \<Rightarrow> (string, unit) result \<times> vhost_snapshot" where
  "refresh_vhost_state sc db snapshot =
     (case vhost_inputs db of
        Inl _ \<Rightarrow> (Inl ''failed to load the host resolution'', snapshot)
      | Inr inputs \<Rightarrow> (Inr (), refreshed_snapshot sc inputs))"

section \<open>The application\<close>

datatype app = Single tree | Dispatching tree tree

text \<open>
  \<open>build_app\<close>: whether there is a dispatcher is decided once, by the bindings of the start. The
  root of the static files is the main organization's.
\<close>

definition build_app :: "serving \<Rightarrow> vhost_data \<Rightarrow> app \<times> vhost_snapshot" where
  "build_app sc0 d =
     (let sc = sc0\<lparr>sc_static_root := vd_main_root d\<rparr>; boot = snapshot_from_data d (data_cms_origin sc0 d) in
      if vs_bindings boot = [] then (Single (single_tree sc), boot)
      else (Dispatching (main_tree sc) (cms_tree sc), boot\<lparr>vs_tenants := tenant_trees sc (vs_bindings boot)\<rparr>))"

text \<open>\<open>None\<close> is the panic of the dispatcher: an organization without its tree.\<close>

definition dispatch :: "app \<Rightarrow> vhost_snapshot \<Rightarrow> string option \<Rightarrow> header_value list \<Rightarrow> tree option" where
  "dispatch app snapshot authority hosts =
     (case app of
        Single t \<Rightarrow> Some t
      | Dispatching main cms \<Rightarrow>
          (case classify authority hosts (vs_bindings snapshot) of
             Cms \<Rightarrow> Some cms
           | Main \<Rightarrow> Some main
           | Tenant b \<Rightarrow> map_option snd (find (\<lambda>t. fst t = hb_organization b) (vs_tenants snapshot))))"

definition is_shared_asset_path :: "string \<Rightarrow> bool" where
  "is_shared_asset_path path \<longleftrightarrow>
     \<not> ends_with ''.jhs'' path \<and> (path = ''/favicon.ico'' \<or> path = ''/robots.txt'' \<or> starts_with ''/assets/'' path)"

section \<open>Every organization has its tree\<close>

definition snapshot_ok :: "serving \<Rightarrow> vhost_snapshot \<Rightarrow> bool" where
  "snapshot_ok sc s \<longleftrightarrow> vs_tenants s = tenant_trees sc (vs_bindings s)"

lemma add_tenant_tree_keys:
  "fst ` set (add_tenant_tree sc ts b) = fst ` set ts \<union> (if tenant_binding b then {hb_organization b} else {})"
  by (auto simp: add_tenant_tree_def list_ex_iff image_iff) (metis fst_conv)

lemma tenant_trees_keys: "fst ` set (tenant_trees sc bs) = hb_organization ` {b \<in> set bs. tenant_binding b}"
proof -
  have "fst ` set (foldl (add_tenant_tree sc) ts bs) = fst ` set ts \<union> hb_organization ` {b \<in> set bs. tenant_binding b}" for ts
    by (induction bs arbitrary: ts) (auto simp: add_tenant_tree_keys)
  then show ?thesis by (simp add: tenant_trees_def)
qed

definition tree_of_binding :: "serving \<Rightarrow> host_binding list \<Rightarrow> string \<times> tree \<Rightarrow> bool" where
  "tree_of_binding sc bs t \<longleftrightarrow> (\<exists>b \<in> set bs. tenant_binding b \<and> t = (hb_organization b, tenant_tree sc b))"

lemma tenant_trees_of: "t \<in> set (tenant_trees sc bs) \<Longrightarrow> tree_of_binding sc bs t"
proof -
  have "\<forall>t \<in> set (foldl (add_tenant_tree sc) ts bs). t \<in> set ts \<or> tree_of_binding sc bs t" for ts
  proof (induction bs arbitrary: ts)
    case (Cons b bs)
    show ?case
    proof
      fix t assume "t \<in> set (foldl (add_tenant_tree sc) ts (b # bs))"
      with Cons [of "add_tenant_tree sc ts b"] have "t \<in> set (add_tenant_tree sc ts b) \<or> tree_of_binding sc bs t" by simp
      then show "t \<in> set ts \<or> tree_of_binding sc (b # bs) t"
        by (auto simp: add_tenant_tree_def tree_of_binding_def split: if_splits)
    qed
  qed simp
  then show "t \<in> set (tenant_trees sc bs) \<Longrightarrow> tree_of_binding sc bs t" by (fastforce simp: tenant_trees_def)
qed

lemma classify_tenant:
  assumes "classify authority hosts bs = Tenant b"
  shows "b \<in> set bs \<and> tenant_binding b"
  using assms by (auto simp: classify_def class_of_def tenant_binding_def find_Some_iff split: option.splits if_splits)

lemma refreshed_ok: "snapshot_ok sc (refreshed_snapshot sc inputs)"
  by (simp add: snapshot_ok_def refreshed_snapshot_def Let_def)

lemma own_tree:
  assumes "vs_tenants s = tenant_trees sc (vs_bindings s)" "classify authority hosts (vs_bindings s) = Tenant b"
  obtains t where "find (\<lambda>t. fst t = hb_organization b) (vs_tenants s) = Some (hb_organization b, t)"
    "tree_of_binding sc (vs_bindings s) (hb_organization b, t)"
proof -
  from classify_tenant [OF assms(2)] have "hb_organization b \<in> fst ` set (vs_tenants s)"
    unfolding assms(1) tenant_trees_keys by auto
  then obtain e where e: "find (\<lambda>t. fst t = hb_organization b) (vs_tenants s) = Some e"
    by (cases "find (\<lambda>t. fst t = hb_organization b) (vs_tenants s)") (auto simp: find_None_iff image_iff)
  then have "e \<in> set (vs_tenants s)" "fst e = hb_organization b" by (auto simp: find_Some_iff)
  with e tenant_trees_of [of e sc "vs_bindings s"] assms(1) show thesis by (intro that [of "snd e"]) (cases e; simp)+
qed

text \<open>The surface of the platform: its accounts, its tenants, the import tool and the operator's interfaces.\<close>

definition platform_surface :: "family \<Rightarrow> bool" where
  "platform_surface f \<longleftrightarrow> f \<in> {Admin_Family, Cms_Platform, Tenants_Family, External_Family} \<or> (\<exists>path. f = Metrics_Family path)"

lemma tenant_tree_surface: "f \<in> set (tr_families (tenant_tree sc b)) \<Longrightarrow> \<not> platform_surface f"
  by (auto simp: tenant_tree_def tenant_static_def platform_surface_def Let_def split: if_splits)

text \<open>The snapshots a server can have: that of its start, and those of its refreshes.\<close>

definition served_snapshot :: "serving \<Rightarrow> vhost_data \<Rightarrow> vhost_snapshot \<Rightarrow> bool" where
  "served_snapshot sc d s \<longleftrightarrow> s = snd (build_app sc d) \<or> (\<exists>inputs. s = refreshed_snapshot sc inputs)"

lemma served_ok:
  assumes "served_snapshot sc d s" "vd_bindings d \<noteq> []"
  obtains sc' where "vs_tenants s = tenant_trees sc' (vs_bindings s)"
  using assms by (auto simp: served_snapshot_def build_app_def snapshot_from_data_def refreshed_snapshot_def Let_def)

text \<open>
  C17: A server that starts with a mapped host finds a tree for every request, whatever the table has
  become since, and the surface of the platform (accounts, tenants, the import tool, the operator's
  interfaces) answers only where the organization of the request, which its guards check, is the CMS
  organization; on a host of a tenant the tree is one built for that tenant.
\<close>

theorem platform_stays_with_the_cms:
  assumes "served_snapshot sc d s" "vd_bindings d \<noteq> []"
  shows "\<exists>t. dispatch (fst (build_app sc d)) s authority hosts = Some t \<and>
    (if organization_key authority hosts (vs_bindings s) = cms_organization_key then t \<in> {main_tree (sc\<lparr>sc_static_root := vd_main_root d\<rparr>), cms_tree (sc\<lparr>sc_static_root := vd_main_root d\<rparr>)}
     else (\<forall>f \<in> set (tr_families t). \<not> platform_surface f) \<and>
       (\<exists>sc' b. b \<in> set (vs_bindings s) \<and> hb_organization b = organization_key authority hosts (vs_bindings s) \<and> t = tenant_tree sc' b))"
proof -
  obtain sc' where ok: "vs_tenants s = tenant_trees sc' (vs_bindings s)" by (rule served_ok [OF assms])
  have app: "fst (build_app sc d) = Dispatching (main_tree (sc\<lparr>sc_static_root := vd_main_root d\<rparr>)) (cms_tree (sc\<lparr>sc_static_root := vd_main_root d\<rparr>))"
    using assms(2) by (simp add: build_app_def Let_def snapshot_from_data_def)
  show ?thesis
  proof (cases "classify authority hosts (vs_bindings s)")
    case (Tenant b)
    obtain t where t: "find (\<lambda>t. fst t = hb_organization b) (vs_tenants s) = Some (hb_organization b, t)"
      "tree_of_binding sc' (vs_bindings s) (hb_organization b, t)" by (rule own_tree [OF ok Tenant])
    from t(2) obtain c where c: "c \<in> set (vs_bindings s)" "hb_organization c = hb_organization b" "t = tenant_tree sc' c"
      by (auto simp: tree_of_binding_def)
    have key: "organization_key authority hosts (vs_bindings s) = hb_organization b"
      using Tenant by (simp add: organization_key_def class_organization_def)
    have "hb_organization b \<noteq> cms_organization_key" using classify_tenant [OF Tenant] by (simp add: tenant_binding_def)
    with c key t(1) Tenant tenant_tree_surface show ?thesis by (auto simp: dispatch_def app)
  qed (simp_all add: dispatch_def app organization_key_def class_organization_def)
qed

section \<open>From the tables to the tree\<close>

lemma binding_roots:
  assumes "routing_ok db" "b \<in> set (load_host_bindings db)" "c \<in> set (load_host_bindings db)" "hb_organization b = hb_organization c"
  shows "hb_document_root b = hb_document_root c"
proof -
  have own: "\<exists>g \<in> set (rows (db_organizations db)). o_key g = hb_organization x \<and> o_document_root g = hb_document_root x"
    if "x \<in> set (load_host_bindings db)" for x
  proof -
    from that obtain d g where "domain_owner db d = Some g" "o_key g = hb_organization x" "o_document_root g = hb_document_root x"
      unfolding load_host_bindings_def set_map_filter by (auto simp: binding_of_row_def)
    then show ?thesis by (auto simp: domain_owner_def dest!: select_row_Some)
  qed
  from own [OF assms(2)] obtain g where g: "g \<in> set (rows (db_organizations db))" "o_key g = hb_organization b" "o_document_root g = hb_document_root b" by blast
  from own [OF assms(3)] obtain k where k: "k \<in> set (rows (db_organizations db))" "o_key k = hb_organization c" "o_document_root k = hb_document_root c" by blast
  have "g = k" using routing_okD(2) [OF assms(1)] g(1,2) k(1,2) assms(4) by (metis distinct_map inj_onD)
  with g k show ?thesis by simp
qed

text \<open>The bindings of a snapshot are those of the table with their roots made absolute.\<close>

definition absolute_binding :: "serving \<Rightarrow> host_binding \<Rightarrow> host_binding" where
  "absolute_binding sc b = b\<lparr>hb_document_root := absolutize sc (hb_document_root b)\<rparr>"

lemma refreshed_bindings: "vs_bindings (refreshed_snapshot sc inputs) = map (absolute_binding sc) (snd inputs)"
  by (simp add: refreshed_snapshot_def vhosts_from_database_def absolute_binding_def Let_def)

lemma class_of_absolute: "class_of (absolute_binding sc b) = (case class_of b of Tenant b \<Rightarrow> Tenant (absolute_binding sc b) | c \<Rightarrow> c)"
  by (simp add: class_of_def absolute_binding_def)

lemma classify_absolute:
  "classify authority hosts (map (absolute_binding sc) bs) = (case classify authority hosts bs of Tenant b \<Rightarrow> Tenant (absolute_binding sc b) | c \<Rightarrow> c)"
proof -
  have "find (\<lambda>b. eq_ignore_case (hb_hostname b) h) (map (absolute_binding sc) bs) =
      map_option (absolute_binding sc) (find (\<lambda>b. eq_ignore_case (hb_hostname b) h) bs)" for h
    by (simp add: find_map_Some) (simp add: absolute_binding_def)
  then show ?thesis by (simp add: classify_def class_of_absolute split: option.split)
qed

text \<open>The tree a host name should have, by the map.\<close>

definition mapped_tree :: "serving \<Rightarrow> db \<Rightarrow> tree \<Rightarrow> tree \<Rightarrow> string \<Rightarrow> tree" where
  "mapped_tree sc db main cms name =
     (case Option.bind (host_map db name) (\<lambda>m. select_row (\<lambda>g. o_id g = fst m) (db_organizations db)) of
        None \<Rightarrow> main
      | Some g \<Rightarrow>
          if o_key g = cms_organization_key then cms
          else if o_key g = main_organization_key then main
          else tenant_tree sc \<lparr>hb_hostname = name, hb_organization = o_key g, hb_document_root = absolutize sc (o_document_root g)\<rparr>)"

lemma tenant_tree_root: "hb_document_root b = hb_document_root c \<Longrightarrow> tenant_tree sc b = tenant_tree sc c"
  by (simp add: tenant_tree_def)

text \<open>
  After a refresh a server with a dispatcher serves what the tables say at that moment: a request
  for a host name gets the tree of the organization the name is mapped to, for a tenant over its
  document root as stored and made absolute; every other request gets the main tree.
\<close>

theorem hosts_are_served:
  assumes "routing_ok db" "canonical_hosts db"
  shows "dispatch (Dispatching main cms) (snd (refresh_vhost_state sc db s)) authority hosts =
    Some (case request_host authority hosts of None \<Rightarrow> main | Some host \<Rightarrow> mapped_tree sc db main cms (lowercase (host_name host)))"
proof -
  let ?bs = "load_host_bindings db"
  let ?s = "refreshed_snapshot sc (load_document_roots db, ?bs)"
  have s: "snd (refresh_vhost_state sc db s) = ?s" by (simp add: refresh_vhost_state_def vhost_inputs_def)
  have bs: "vs_bindings ?s = map (absolute_binding sc) ?bs" by (simp add: refreshed_bindings)
  have trees: "vs_tenants ?s = tenant_trees sc (vs_bindings ?s)" using refreshed_ok by (simp add: snapshot_ok_def)
  have "dispatch (Dispatching main cms) ?s authority hosts =
      (case classify authority hosts ?bs of Cms \<Rightarrow> Some cms | Main \<Rightarrow> Some main | Tenant b \<Rightarrow> Some (tenant_tree sc (absolute_binding sc b)))"
  proof (cases "classify authority hosts ?bs")
    case (Tenant b)
    then have T: "classify authority hosts (vs_bindings ?s) = Tenant (absolute_binding sc b)" by (simp add: bs classify_absolute)
    obtain t where t: "find (\<lambda>t. fst t = hb_organization (absolute_binding sc b)) (vs_tenants ?s) = Some (hb_organization (absolute_binding sc b), t)"
      "tree_of_binding sc (vs_bindings ?s) (hb_organization (absolute_binding sc b), t)" by (rule own_tree [OF trees T])
    from t(2) obtain c where c: "c \<in> set ?bs" "hb_organization c = hb_organization b" "t = tenant_tree sc (absolute_binding sc c)"
      by (auto simp: tree_of_binding_def bs absolute_binding_def)
    have "hb_document_root c = hb_document_root b"
      using binding_roots [OF assms(1) c(1)] classify_tenant [OF Tenant] c(2) by blast
    then have "t = tenant_tree sc (absolute_binding sc b)" unfolding c(3) by (intro tenant_tree_root) (simp add: absolute_binding_def)
    with t(1) T Tenant show ?thesis by (simp add: dispatch_def)
  qed (simp_all add: dispatch_def bs classify_absolute)
  then show ?thesis
    unfolding s routing_follows_map [OF assms]
    by (auto simp: mapped_tree_def class_of_def absolute_binding_def split: option.split prod.split)
qed

definition small_serving :: serving where
  "small_serving = \<lparr>sc_cwd = ''/srv'', sc_static_enabled = True, sc_static_root = ''public'', sc_index_file = ''index.html'',
     sc_views_dir = ''views'', sc_cms_hosts = [], sc_site_url = None, sc_tls = False, sc_port = 80, sc_metrics = None,
     sc_auth = True, sc_refresh_tokens = True, sc_cms = True, sc_external_api = False\<rparr>"

definition shop_tree :: tree where
  "shop_tree = \<lparr>tr_families = [Cms_Family, Media_Family, Search_Family, Team_Family, Auth_Family True, Static_Index ''/srv/sites/shop/index.html''],
     tr_fallback = Tenant_Dir ''/srv/sites/shop'' (Some ''public'')\<rparr>"

lemma shop_tree_eq:
  "tenant_tree small_serving \<lparr>hb_hostname = h, hb_organization = ''shop'', hb_document_root = absolutize small_serving ''sites/shop''\<rparr> = shop_tree"
  by (simp add: tenant_tree_def tenant_static_def shop_tree_def small_serving_def absolutize_def path_join_def starts_with_def ends_with_def)

lemma shop_mapped_map: "host_map shop_mapped ''a.b'' = Some (2, ''manual'')"
  "select_row (\<lambda>g. o_id g = 2) (db_organizations shop_mapped) = Some (sample_organization 2 ''shop'' ''sites/shop'')"
  by (simp_all add: host_map_def shop_mapped_def cms_and_shop_def select_row_def new_domain_def sample_organization_def)

lemma hosts_are_served_witness:
  "\<forall>main cms s. dispatch (Dispatching main cms) (snd (refresh_vhost_state small_serving shop_mapped s)) None [Some ''A.b''] = Some shop_tree"
  unfolding hosts_are_served [OF shop_mapped_ok]
  by (simp add: request_host_def host_of_shop mapped_tree_def shop_mapped_map)
    (simp add: sample_organization_def shop_tree_eq cms_organization_key_def main_organization_key_def)

definition cms_start :: vhost_data where
  "cms_start = \<lparr>vd_main_root = ''/srv/public'', vd_cms_root = ''/srv/views'', vd_bindings = [\<lparr>hb_hostname = ''c.d'', hb_organization = ''cms'', hb_document_root = ''/srv/views''\<rparr>]\<rparr>"

lemma shop_refreshed: "snd (refresh_vhost_state small_serving shop_mapped s) = refreshed_snapshot small_serving (load_document_roots shop_mapped, load_host_bindings shop_mapped)"
  by (simp add: refresh_vhost_state_def vhost_inputs_def)

lemma shop_class: "classify None [Some ''A.b''] (vs_bindings (snd (refresh_vhost_state small_serving shop_mapped s))) =
    Tenant (absolute_binding small_serving \<lparr>hb_hostname = ''a.b'', hb_organization = ''shop'', hb_document_root = ''sites/shop''\<rparr>)"
proof -
  have "classify None [Some ''A.b''] (load_host_bindings shop_mapped) = Tenant \<lparr>hb_hostname = ''a.b'', hb_organization = ''shop'', hb_document_root = ''sites/shop''\<rparr>"
    unfolding routing_follows_map [OF shop_mapped_ok]
    by (simp add: request_host_def host_of_shop shop_mapped_map) (simp add: sample_organization_def class_of_def cms_organization_key_def main_organization_key_def)
  then show ?thesis by (simp add: shop_refreshed refreshed_bindings classify_absolute)
qed

lemma shop_key: "organization_key None [Some ''A.b''] (vs_bindings (snd (refresh_vhost_state small_serving shop_mapped s))) = ''shop''"
  by (simp add: organization_key_def shop_class class_organization_def absolute_binding_def)

lemma platform_stays_with_the_cms_witness:
  "\<exists>t. dispatch (fst (build_app small_serving cms_start)) (snd (refresh_vhost_state small_serving shop_mapped undefined)) None [Some ''A.b''] = Some t \<and>
    Tenants_Family \<notin> set (tr_families t)"
proof -
  let ?s = "snd (refresh_vhost_state small_serving shop_mapped undefined)"
  have served: "served_snapshot small_serving cms_start ?s" by (auto simp: served_snapshot_def shop_refreshed)
  have bound: "vd_bindings cms_start \<noteq> []" by (simp add: cms_start_def)
  show ?thesis
    using platform_stays_with_the_cms [OF served bound, of None "[Some ''A.b'']"]
    by (auto simp: shop_key cms_organization_key_def platform_surface_def)
qed

section \<open>A server that starts without a host\<close>

text \<open>
  The premise of the dispatcher is decided at the start only. Where no host is mapped then, the one
  tree serves every host for good, while the guards and the templates follow the live table.
\<close>

lemma single_ignores_the_table:
  "vd_bindings d = [] \<Longrightarrow> dispatch (fst (build_app sc d)) s authority hosts = Some (single_tree (sc\<lparr>sc_static_root := vd_main_root d\<rparr>))"
  by (simp add: build_app_def Let_def snapshot_from_data_def dispatch_def)

definition bare_start :: vhost_data where
  "bare_start = \<lparr>vd_main_root = ''/srv/public'', vd_cms_root = ''/srv/views'', vd_bindings = []\<rparr>"

text \<open>
  So once a first tenant host is mapped in the panel, the surface of the platform answers on that host,
  and the guard in front of it is content with an administrator of the tenant.
\<close>

lemma first_mapping_opens_the_platform:
  assumes "request_user (pn_server pn) rq = Inr u" "sv_auth (pn_server pn) = Some auth"
    "rq_authority rq = None" "rq_hosts rq = [Some ''A.b'']"
    "sv_bindings (pn_server pn) = vs_bindings (snd (refresh_vhost_state small_serving shop_mapped s))"
    "membership_role db (au_user_id u) ''shop'' = Inr (Some Admin)"
  shows "\<exists>t. dispatch (fst (build_app small_serving bare_start)) (snd (refresh_vhost_state small_serving shop_mapped s)) (rq_authority rq) (rq_hosts rq) = Some t \<and>
      Tenants_Family \<in> set (tr_families t) \<and> Cms_Platform \<in> set (tr_families t)"
    "cms_admin pn rq path db = Inr \<lparr>mb_user = u, mb_organization = ''shop''\<rparr>"
proof -
  have "vd_bindings bare_start = []" by (simp add: bare_start_def)
  from single_ignores_the_table [OF this] show "\<exists>t. dispatch (fst (build_app small_serving bare_start)) (snd (refresh_vhost_state small_serving shop_mapped s)) (rq_authority rq) (rq_hosts rq) = Some t \<and>
      Tenants_Family \<in> set (tr_families t) \<and> Cms_Platform \<in> set (tr_families t)"
    by (simp add: single_tree_def platform_families_def small_serving_def)
  show "cms_admin pn rq path db = Inr \<lparr>mb_user = u, mb_organization = ''shop''\<rparr>"
    using assms shop_key [of s] by (simp add: cms_admin_def panel_guard_def request_organization_def cms_membership_def)
qed

text \<open>The other way around: once the last host is unmapped, no host leads to the panel any more.\<close>

lemma last_unmapping_closes_the_panel:
  "dispatch (Dispatching (main_tree sc) cms) (refreshed_snapshot sc' (roots, [])) authority hosts = Some (main_tree sc)"
  "Cms_Family \<notin> set (tr_families (main_tree sc))"
proof -
  have "vs_bindings (refreshed_snapshot sc' (roots, [])) = []" by (simp add: refreshed_bindings)
  then show "dispatch (Dispatching (main_tree sc) cms) (refreshed_snapshot sc' (roots, [])) authority hosts = Some (main_tree sc)"
    by (simp add: dispatch_def lone_classify)
  show "Cms_Family \<notin> set (tr_families (main_tree sc))"
    by (simp add: main_tree_def operator_families_def closing_families_def split: option.split)
qed

section \<open>The refresh, statement by statement\<close>

text \<open>A handler writes, then reads the document roots, then the host names, then swaps the snapshot it
  derived; handlers interleave.\<close>

record live =
  lv_db :: db
  lv_snapshot :: vhost_snapshot
  lv_roots :: "nat \<Rightarrow> (string \<times> string) list option"
  lv_loaded :: "nat \<Rightarrow> ((string \<times> string) list \<times> host_binding list) option"

datatype live_event = Wrote host_op | Read_Roots nat | Read_Bindings nat | Swapped nat

fun live_step :: "serving \<Rightarrow> live_event \<Rightarrow> live \<Rightarrow> live" where
  "live_step sc (Wrote op) st = st\<lparr>lv_db := snd (host_step op (lv_db st))\<rparr>"
| "live_step sc (Read_Roots p) st = st\<lparr>lv_roots := (lv_roots st)(p \<mapsto> load_document_roots (lv_db st))\<rparr>"
| "live_step sc (Read_Bindings p) st =
     (case lv_roots st p of
        None \<Rightarrow> st
      | Some roots \<Rightarrow> st\<lparr>lv_loaded := (lv_loaded st)(p \<mapsto> (roots, load_host_bindings (lv_db st)))\<rparr>)"
| "live_step sc (Swapped p) st =
     (case lv_loaded st p of
        None \<Rightarrow> st
      | Some inputs \<Rightarrow> st\<lparr>lv_snapshot := refreshed_snapshot sc inputs\<rparr>)"

definition live_run :: "serving \<Rightarrow> live_event list \<Rightarrow> live \<Rightarrow> live" where
  "live_run sc es st = foldl (\<lambda>st e. live_step sc e st) st es"

fun writes :: "live_event list \<Rightarrow> host_op list" where
  "writes [] = []"
| "writes (Wrote op # es) = op # writes es"
| "writes (e # es) = writes es"

fun is_swap :: "live_event \<Rightarrow> bool" where
  "is_swap (Swapped p) \<longleftrightarrow> True"
| "is_swap _ \<longleftrightarrow> False"

text \<open>The names a write brings are as the panel and the seed leave them: trimmed, lower case, without a final dot.\<close>

fun canonical_op :: "host_op \<Rightarrow> bool" where
  "canonical_op (Map_Host now key h) \<longleftrightarrow> normalize_hostname h = h"
| "canonical_op (Seed_Hosts now hosts) \<longleftrightarrow> (\<forall>raw \<in> set hosts. normalize_hostname (normalize_hostname raw) = normalize_hostname raw)"
| "canonical_op _ \<longleftrightarrow> True"

definition current_inputs :: "db \<Rightarrow> (string \<times> string) list \<times> host_binding list" where
  "current_inputs db = (load_document_roots db, load_host_bindings db)"

lemma live_run_append: "live_run sc (es @ fs) st = live_run sc fs (live_run sc es st)"
  by (simp add: live_run_def)

lemma live_run_Cons: "live_run sc (e # es) st = live_run sc es (live_step sc e st)"
  by (simp add: live_run_def)

lemma live_run_Nil: "live_run sc [] st = st"
  by (simp add: live_run_def)

lemma live_run_db: "lv_db (live_run sc es st) = snd (host_run (writes es) (lv_db st))"
proof (induction es arbitrary: st)
  case (Cons e es)
  then show ?case by (cases e) (simp_all add: live_run_Cons case_prod_beta split: option.split)
qed (simp add: live_run_Nil)

lemma writes_append [simp]: "writes (es @ fs) = writes es @ writes fs"
  by (induction es rule: writes.induct) simp_all

lemma quiet_run: "writes es = [] \<Longrightarrow> lv_db (live_run sc es st) = lv_db st"
  by (simp add: live_run_db)

lemma quiet_step: "writes [e] = [] \<Longrightarrow> lv_db (live_step sc e st) = lv_db st"
  using quiet_run [of "[e]" sc st] by (simp add: live_run_def)

lemma writes_Nil: "writes (e # es) = [] \<longleftrightarrow> writes [e] = [] \<and> writes es = []"
  by (cases e) simp_all

text \<open>What a handler has read stays what the tables say while nobody writes.\<close>

lemma read_stays:
  assumes "writes es = []" "lv_roots st p = Some (load_document_roots (lv_db st))"
  shows "lv_roots (live_run sc es st) p = Some (load_document_roots (lv_db st))"
    "lv_loaded st p = Some (current_inputs (lv_db st)) \<Longrightarrow> lv_loaded (live_run sc es st) p = Some (current_inputs (lv_db st))"
proof -
  have "lv_roots (live_run sc es st) p = Some (load_document_roots (lv_db st)) \<and>
    (lv_loaded st p = Some (current_inputs (lv_db st)) \<longrightarrow> lv_loaded (live_run sc es st) p = Some (current_inputs (lv_db st)))"
    using assms
  proof (induction es arbitrary: st)
    case (Cons e es)
    have q: "writes [e] = []" "writes es = []" using Cons.prems(1) writes_Nil by blast+
    have "lv_roots (live_step sc e st) p = Some (load_document_roots (lv_db st)) \<and>
      (lv_loaded st p = Some (current_inputs (lv_db st)) \<longrightarrow> lv_loaded (live_step sc e st) p = Some (current_inputs (lv_db st)))"
      using Cons.prems(2) by (cases e) (auto simp: current_inputs_def split: option.split)
    with Cons.IH [of "live_step sc e st"] q quiet_step [OF q(1), of sc st] show ?case by (simp add: live_run_Cons)
  qed (simp add: live_run_Nil)
  then show "lv_roots (live_run sc es st) p = Some (load_document_roots (lv_db st))"
    "lv_loaded st p = Some (current_inputs (lv_db st)) \<Longrightarrow> lv_loaded (live_run sc es st) p = Some (current_inputs (lv_db st))" by blast+
qed

lemma unswapped: "list_all (\<lambda>e. \<not> is_swap e) es \<Longrightarrow> lv_snapshot (live_run sc es st) = lv_snapshot st"
proof (induction es arbitrary: st)
  case (Cons e es)
  have "lv_snapshot (live_step sc e st) = lv_snapshot st"
    using Cons.prems by (cases e) (auto split: option.split)
  with Cons show ?case by (simp add: live_run_Cons)
qed (simp add: live_run_Nil)

lemma last_swap_loads:
  assumes "es = first @ Read_Roots p # second @ Read_Bindings p # third @ Swapped p # rest"
    "writes (second @ third @ rest) = []" "list_all (\<lambda>e. \<not> is_swap e) rest"
  shows "lv_snapshot (live_run sc es st) = refreshed_snapshot sc (current_inputs (lv_db (live_run sc es st)))"
proof -
  have q: "writes second = []" "writes third = []" "writes rest = []" using assms(2) by simp_all
  let ?b = "live_step sc (Read_Roots p) (live_run sc first st)"
  let ?c = "live_run sc second ?b"
  let ?d = "live_step sc (Read_Bindings p) ?c"
  let ?e = "live_run sc third ?d"
  let ?f = "live_step sc (Swapped p) ?e"
  have all: "live_run sc es st = live_run sc rest ?f" by (simp add: assms(1) live_run_append live_run_Cons)
  have b: "lv_roots ?b p = Some (load_document_roots (lv_db ?b))" by simp
  have c: "lv_roots ?c p = Some (load_document_roots (lv_db ?c))" using read_stays(1) [OF q(1) b] quiet_run [OF q(1), of sc ?b] by simp
  then have d: "lv_loaded ?d p = Some (current_inputs (lv_db ?d))" "lv_roots ?d p = Some (load_document_roots (lv_db ?d))"
    by (simp_all add: current_inputs_def)
  have e: "lv_loaded ?e p = Some (current_inputs (lv_db ?e))" using read_stays(2) [OF q(2) d(2,1)] quiet_run [OF q(2), of sc ?d] by simp
  then have "lv_snapshot ?f = refreshed_snapshot sc (current_inputs (lv_db ?f))" by simp
  with unswapped [OF assms(3)] quiet_run [OF q(3), of sc ?f] show ?thesis unfolding all by simp
qed

section \<open>From the writes to the trees\<close>

lemma canonical_owner: "routing_ok db \<Longrightarrow> canonical_hosts db \<longleftrightarrow> (\<forall>h. owner_map db h \<noteq> None \<longrightarrow> normalize_hostname h = h)"
  unfolding canonical_hosts_def owner_map_None host_map_None by (auto simp: owner_map_None host_map_None host_mapped_def)

lemma canonical_step:
  assumes "routing_ok db" "canonical_hosts db" "canonical_op op"
  shows "canonical_hosts (snd (host_step op db))"
proof -
  note r = host_step_refines [OF assms(1), of op]
  have m: "owner_map (snd (host_step op db)) = snd (snd (snd (host_spec op (routing_of db))))"
    using r by (simp add: routing_of_def)
  have "normalize_hostname h = h" if "owner_map (snd (host_step op db)) h \<noteq> None" for h
  proof -
    have old: "normalize_hostname h = h" if "owner_map db h \<noteq> None" using assms(1,2) that canonical_owner by blast
    show ?thesis
    proof (cases "owner_map db h")
      case None
      with that assms(3) show ?thesis
        unfolding m by (cases op) (auto simp: host_spec_def routing_of_def seed_map_def Let_def split: if_splits prod.splits)
    qed (use old in simp)
  qed
  with r canonical_owner show ?thesis by blast
qed

lemma canonical_run:
  "routing_ok db \<Longrightarrow> canonical_hosts db \<Longrightarrow> list_all canonical_op ops \<Longrightarrow> canonical_hosts (snd (host_run ops db))"
proof (induction ops arbitrary: db)
  case (Cons op ops)
  from Cons.IH [of "snd (host_step op db)"] Cons.prems host_step_refines [OF Cons.prems(1), of op] canonical_step [OF Cons.prems(1,2), of op]
  show ?case by (simp add: case_prod_beta)
qed simp

text \<open>The tree a host name should have, by the maps.\<close>

definition served_tree ::
    "serving \<Rightarrow> (string \<Rightarrow> organization_record option) \<Rightarrow> host_map \<Rightarrow> tree \<Rightarrow> tree \<Rightarrow> string \<Rightarrow> tree" where
  "served_tree sc orgs m main cms name =
     (case m name of
        None \<Rightarrow> main
      | Some (key, src) \<Rightarrow>
          if key = cms_organization_key then cms
          else if key = main_organization_key then main
          else tenant_tree sc \<lparr>hb_hostname = name, hb_organization = key,
                 hb_document_root = absolutize sc (o_document_root (the (orgs key)))\<rparr>)"

lemma mapped_tree_served: "routing_ok db \<Longrightarrow> mapped_tree sc db main cms name = served_tree sc (org_map db) (owner_map db) main cms name"
proof (cases "host_map db name")
  case (Some x)
  assume ok: "routing_ok db"
  obtain i src where x: "x = (i, src)" by force
  with Some obtain g where g: "select_row (\<lambda>r. o_id r = i) (db_organizations db) = Some g" by (auto elim: host_owner [OF ok])
  with Some x row_org_map [OF ok g] show ?thesis by (simp add: mapped_tree_def served_tree_def owner_map_def)
qed (simp add: mapped_tree_def served_tree_def owner_map_def)

lemma root_of_stored:
  assumes "routing_ok db"
  shows "root_of (load_document_roots db) key = map_option o_document_root (org_map db key)"
proof -
  have "find (\<lambda>r. fst r = key) (map (\<lambda>g. (o_key g, o_document_root g)) gs) =
      map_option (\<lambda>g. (o_key g, o_document_root g)) (find (\<lambda>g. o_key g = key) gs)" for gs :: "organization_record list"
    by (simp add: find_map_Some)
  moreover have "find (\<lambda>g. o_key g = key) (order_asc o_key (rows (db_organizations db))) = org_map db key"
  proof (cases "org_map db key")
    case None
    then have "find (\<lambda>g. o_key g = key) (order_asc o_key (rows (db_organizations db))) = None"
      by (auto simp: org_map_def select_row_None find_None_iff order_asc_def)
    with None show ?thesis by simp
  next
    case (Some g)
    then have g: "g \<in> set (rows (db_organizations db))" "o_key g = key" by (auto simp: org_map_def dest: select_row_Some)
    have one: "inj_on o_key (set (rows (db_organizations db)))" using routing_okD(2) [OF assms] by (simp add: distinct_map)
    let ?s = "\<lparr>last_id = 0, rows = order_asc o_key (rows (db_organizations db))\<rparr>"
    have "select_row (\<lambda>g. o_key g = key) ?s = Some g"
    proof (rule select_row_unique)
      show "g \<in> set (rows ?s)" using g(1) by (simp add: order_asc_def)
      show "q = g" if "q \<in> set (rows ?s)" "o_key q = key" for q
        using inj_onD [OF one, of q g] that g by (simp add: order_asc_def)
    qed (rule g(2))
    with Some show ?thesis by (simp add: select_row_def)
  qed
  ultimately show ?thesis by (simp add: root_of_def load_document_roots_def option.map_comp comp_def)
qed

lemma bound_to_cms:
  assumes "routing_ok db" "canonical_hosts db"
  shows "set (map hb_hostname (filter (\<lambda>b. hb_organization b = key) (load_host_bindings db))) = {h. \<exists>src. owner_map db h = Some (key, src)}"
proof -
  have one: "host_map db (d_hostname d) = Some (d_organization d, d_source d)" if "d \<in> set (rows (db_domains db))" for d
  proof -
    have "select_row (\<lambda>e. d_hostname e = d_hostname d) (db_domains db) = Some d"
      using routing_okD(4) [OF assms(1)] that by (intro select_row_unique) (auto simp: distinct_map dest: inj_onD)
    then show ?thesis by (simp add: host_map_def)
  qed
  have "h \<in> set (map hb_hostname (filter (\<lambda>b. hb_organization b = key) (load_host_bindings db))) \<longleftrightarrow>
      (\<exists>d \<in> set (rows (db_domains db)). d_hostname d = h \<and> (\<exists>g. domain_owner db d = Some g \<and> o_key g = key))" for h
    using assms(2) by (force simp: load_host_bindings_def set_map_filter binding_of_row_def canonical_hosts_def image_iff)
  also have "\<dots> h \<longleftrightarrow> (\<exists>src. owner_map db h = Some (key, src))" for h
  proof
    assume "\<exists>d \<in> set (rows (db_domains db)). d_hostname d = h \<and> (\<exists>g. domain_owner db d = Some g \<and> o_key g = key)"
    with one show "\<exists>src. owner_map db h = Some (key, src)" by (auto simp: owner_map_def domain_owner_def)
  next
    assume "\<exists>src. owner_map db h = Some (key, src)"
    then obtain i src g where o': "host_map db h = Some (i, src)" "select_row (\<lambda>r. o_id r = i) (db_organizations db) = Some g" "o_key g = key"
      by (auto simp: owner_map_def split: option.splits)
    from o'(1) obtain d where "d \<in> set (rows (db_domains db))" "d_hostname d = h" "d_organization d = i"
      by (auto simp: host_map_def dest!: select_row_Some)
    with o'(2,3) show "\<exists>d \<in> set (rows (db_domains db)). d_hostname d = h \<and> (\<exists>g. domain_owner db d = Some g \<and> o_key g = key)"
      by (intro bexI [of _ d]) (simp_all add: domain_owner_def)
  qed
  finally show ?thesis by blast
qed


definition idle :: live where
  "idle = \<lparr>lv_db = cms_and_shop, lv_snapshot = refreshed_snapshot small_serving (current_inputs cms_and_shop), lv_roots = (\<lambda>_. None), lv_loaded = (\<lambda>_. None)\<rparr>"

lemma normalize_sample: "normalize_hostname ''a.b'' = ''a.b''" "normalize_hostname ''e.f'' = ''e.f''"
proof -
  have "trim ''a.b'' = ''a.b''" "trim ''e.f'' = ''e.f''" by (rule trim_all_graphic, simp add: graphic_def code_def)+
  then show "normalize_hostname ''a.b'' = ''a.b''" "normalize_hostname ''e.f'' = ''e.f''"
    by (simp_all add: normalize_hostname_def strip_suffix_def starts_with_def ends_with_def lowercase_def to_lower_def is_upper_def code_def)
qed

definition first_host :: live_event where "first_host = Wrote (Map_Host 1 ''shop'' ''a.b'')"
definition second_host :: live_event where "second_host = Wrote (Map_Host 2 ''shop'' ''e.f'')"

text \<open>What the two writes leave in the table.\<close>

definition shop_hosts :: "(string \<times> int) list \<Rightarrow> db" where
  "shop_hosts hs = cms_and_shop\<lparr>db_domains := \<lparr>last_id = int (length hs), rows = map (\<lambda>(h, i). new_domain h 2 ''manual'' i i) hs\<rparr>\<rparr>"

lemma shop_hosts_writes:
  "snd (host_step (Map_Host 1 ''shop'' ''a.b'') cms_and_shop) = shop_hosts [(''a.b'', 1)]"
  "snd (host_step (Map_Host 2 ''shop'' ''e.f'') (shop_hosts [(''a.b'', 1)])) = shop_hosts [(''a.b'', 1), (''e.f'', 2)]"
  by (simp_all add: host_step_def add_domain_def shop_hosts_def cms_and_shop_def org_id_def select_row_def sample_organization_def
      host_mapped_def insert_row_def new_domain_def empty_db_def empty_store_def)

lemma shop_hosts_bindings: "map hb_hostname (load_host_bindings (shop_hosts hs)) = map (\<lambda>(h, i). normalize_hostname h) hs"
proof -
  let ?b = "\<lambda>d. \<lparr>hb_hostname = normalize_hostname (d_hostname d), hb_organization = ''shop'', hb_document_root = ''sites/shop''\<rparr>"
  have "binding_of_row (shop_hosts hs) d = Some (?b d)" if "d_organization d = 2" for d
    using that by (simp add: binding_of_row_def domain_owner_def shop_hosts_def cms_and_shop_def select_row_def sample_organization_def)
  then have "load_host_bindings (shop_hosts hs) = map ?b (rows (db_domains (shop_hosts hs)))"
    unfolding load_host_bindings_def by (intro map_filter_total) (auto simp: shop_hosts_def new_domain_def)
  then show ?thesis by (auto simp: shop_hosts_def new_domain_def)
qed

lemma refreshed_names: "map hb_hostname (vs_bindings (refreshed_snapshot sc (current_inputs db))) = map hb_hostname (load_host_bindings db)"
  by (simp add: refreshed_bindings current_inputs_def absolute_binding_def)

lemma idle_ok: "routing_ok (lv_db idle)" "canonical_hosts (lv_db idle)"
  using cms_and_shop_ok by (simp_all add: idle_def canonical_hosts_def cms_and_shop_def empty_db_def empty_store_def)

definition two_handlers :: "live_event list" where
  "two_handlers = [first_host, Read_Roots 1, Read_Bindings 1, second_host, Read_Roots 2, Swapped 1, Read_Bindings 2, Swapped 2]"


text \<open>
  The condition can fail: two handlers, both done, the later write in the table, and the server routes
  by the tables before it, since the earlier handler swapped last.
\<close>

definition crossed_handlers :: "live_event list" where
  "crossed_handlers = [first_host, Read_Roots 1, Read_Bindings 1, second_host, Read_Roots 2, Read_Bindings 2, Swapped 2, Swapped 1]"

lemma refresh_loses_a_write:
  "map hb_hostname (vs_bindings (lv_snapshot (live_run small_serving crossed_handlers idle))) = [''a.b'']"
  "map hb_hostname (load_host_bindings (lv_db (live_run small_serving crossed_handlers idle))) = [''a.b'', ''e.f'']"
  by (simp_all add: live_run_def crossed_handlers_def first_host_def second_host_def idle_def shop_hosts_writes)
    (simp_all add: current_inputs_def [symmetric] refreshed_names shop_hosts_bindings normalize_sample)

end
