(* ===== verification/Tenants.thy ===== *)
theory Tenants
  imports Serving Panel_Pages
begin

text \<open>
  The management of organizations in the panel: \<open>src/src/routes/tenants.rs\<close>, for the platform, and
  \<open>src/src/routes/team.rs\<close>, for the members of one tenant. A handler of the platform's pages works on the
  database and on the live snapshot, which it refreshes after every write that can move a host.
\<close>

section \<open>Validation\<close>

definition max_tenant_name :: nat where "max_tenant_name = 200"
definition max_document_root :: nat where "max_document_root = 500"

definition reserved_keys :: "string list" where
  "reserved_keys = [main_organization_key, cms_organization_key, ''new'']"

definition validate_tenant_key :: "string \<Rightarrow> (string, unit) result" where
  "validate_tenant_key key =
     and_then (check (2 \<le> length key \<and> length key \<le> 32) ''The key must be between 2 and 32 characters.'') (\<lambda>_.
     and_then (check (list_all (\<lambda>c. is_lower c \<or> is_digit c \<or> c = CHR ''-'') key)
       ''The key may only contain lowercase letters, digits and hyphens.'') (\<lambda>_.
     and_then (check (\<not> starts_with ''-'' key \<and> \<not> ends_with ''-'' key \<and> \<not> contains_str ''--'' key)
       ''The key cannot start or end with a hyphen, or contain two in a row.'') (\<lambda>_.
     check (key \<notin> set reserved_keys) (''The key `'' @ key @ ''` is reserved '' @ em_dash @
       '' the seeders own `main` and `cms`, and `new` is the creation form's address.''))))"

definition validate_tenant_name :: "string \<Rightarrow> (string, unit) result" where
  "validate_tenant_name name =
     and_then (check (name \<noteq> []) ''The name cannot be empty.'') (\<lambda>_.
     check (length name \<le> max_tenant_name) ''The name must be at most 200 characters.'')"

definition path_components :: "string \<Rightarrow> string list" where
  "path_components path = concat (map (split_on (CHR 0x5C)) (split_on (CHR ''/'') path))"

definition validate_document_root :: "string \<Rightarrow> (string, unit) result" where
  "validate_document_root droot =
     and_then (check (droot \<noteq> []) ''The document root cannot be empty.'') (\<lambda>_.
     and_then (check (length droot \<le> max_document_root) ''The document root must be at most 500 characters.'') (\<lambda>_.
     and_then (check (\<not> has_control droot) ''The document root cannot contain control characters.'') (\<lambda>_.
     check (\<not> list_ex (\<lambda>c. c = ''..'' \<or> c = ''.'') (path_components droot))
       ''The document root cannot contain `..` or `.` path components.'')))"

definition host_forbidden :: "char \<Rightarrow> bool" where
  "host_forbidden c \<longleftrightarrow> c \<in> {CHR '':'', CHR ''/'', CHR 0x5C, CHR ''@'', CHR ''#'', CHR ''?'', CHR '' '', CHR 0x09}"

definition validate_hostname :: "string \<Rightarrow> (string, unit) result" where
  "validate_hostname hostname =
     and_then (check (hostname \<noteq> []) ''The host name cannot be empty.'') (\<lambda>_.
     and_then (check (length hostname \<le> 253) ''The host name is too long.'') (\<lambda>_.
     and_then (case find host_forbidden hostname of
         Some bad \<Rightarrow> Inl (''invalid host name `'' @ hostname @ ''` (character `'' @ [bad] @
           ''`): expected a bare host name such as `acme.example.com` '' @ em_dash @ '' no scheme, port, path or whitespace'')
       | None \<Rightarrow> Inr ()) (\<lambda>_.
     check (\<not> starts_with ''.'' hostname \<and> \<not> ends_with ''.'' hostname \<and> \<not> contains_str ''..'' hostname)
       (''invalid host name `'' @ hostname @
        ''`: expected a bare host name such as `acme.example.com` (no leading/trailing dot, no empty labels)''))))"

section \<open>Forms and loads\<close>

record new_tenant_form =
  ntf_key :: string
  ntf_name :: string
  ntf_document_root :: string

record tenant_form =
  tf_name :: string
  tf_document_root :: string

record member_form =
  mbf_username :: string
  mbf_role :: string

record detail_forms =
  df_error :: "string option"
  df_hostname :: string
  df_username :: string
  df_role :: string

definition no_forms :: detail_forms where
  "no_forms = \<lparr>df_error = None, df_hostname = [], df_username = [], df_role = []\<rparr>"

definition load_organization :: "db \<Rightarrow> string \<Rightarrow> organization_record option" where
  "load_organization db key = (case find_organization db key of Inr g \<Rightarrow> g | Inl _ \<Rightarrow> None)"

definition load_domains :: "db \<Rightarrow> int \<Rightarrow> domain_record list" where
  "load_domains db i = (case organization_domains db i of Inr ds \<Rightarrow> ds | Inl _ \<Rightarrow> [])"

definition load_members :: "db \<Rightarrow> int \<Rightarrow> member_record list" where
  "load_members db i = (case members db i of Inr ms \<Rightarrow> ms | Inl _ \<Rightarrow> [])"

definition solo_administrator :: "db \<Rightarrow> int \<Rightarrow> int \<Rightarrow> bool repo" where
  "solo_administrator db organization_id user_id =
     and_then (members db organization_id) (\<lambda>ms.
       Inr (list_ex (\<lambda>m. mr_user m = user_id \<and> mr_role m = Admin) ms \<and> length (filter (\<lambda>m. mr_role m = Admin) ms) = 1))"

section \<open>Views\<close>

definition is_seeded :: "organization_record \<Rightarrow> bool" where
  "is_seeded g \<longleftrightarrow> o_key g = main_organization_key \<or> o_key g = cms_organization_key"

definition tenant_value :: "organization_record \<Rightarrow> int \<Rightarrow> int \<Rightarrow> json" where
  "tenant_value g domain_count member_count =
     J_Obj [(''key'', J_Str (o_key g)), (''name'', J_Str (o_name g)), (''document_root'', J_Str (o_document_root g)),
       (''created_at_h'', J_Str (format_timestamp (o_created_at g))), (''domain_count'', J_Int domain_count),
       (''member_count'', J_Int member_count), (''is_seeded'', J_Bool (is_seeded g)),
       (''is_cms'', J_Bool (o_key g = cms_organization_key))]"

definition tenant_form_data :: "string \<Rightarrow> string \<Rightarrow> string \<Rightarrow> json" where
  "tenant_form_data key name droot =
     J_Obj [(''key'', J_Str key), (''name'', J_Str name), (''document_root'', J_Str droot)]"

definition render_tenant_error :: "string \<Rightarrow> string \<Rightarrow> string \<Rightarrow> string \<Rightarrow> reply" where
  "render_tenant_error key name droot e =
     render_view ''admin/tenant_form.jhs'' [(''form'', tenant_form_data key name droot), (''form_error'', J_Str e)]"

definition member_value :: "member_record \<Rightarrow> json" where
  "member_value m =
     J_Obj [(''user_id'', J_Int (mr_user m)), (''username'', J_Str (mr_username m)),
       (''role'', J_Str (role_as_str (mr_role m))), (''created_at_h'', J_Str (format_timestamp (mr_created_at m)))]"

definition render_tenant_detail :: "organization_record \<Rightarrow> domain_record list \<Rightarrow> member_record list \<Rightarrow> detail_forms \<Rightarrow> reply" where
  "render_tenant_detail g ds ms forms =
     render_view ''admin/tenant_detail.jhs''
       [(''tenant'', tenant_value g (int (length ds)) (int (length ms))),
        (''domains'', J_Arr (map (\<lambda>d. J_Obj [(''hostname'', J_Str (dr_hostname d)), (''is_config'', J_Bool (dr_source d = ''config''))]) ds)),
        (''members'', J_Arr (map member_value ms)),
        (''form_error'', form_error (df_error forms)),
        (''domain_form'', J_Obj [(''hostname'', J_Str (df_hostname forms))]),
        (''member_form'', J_Obj [(''username'', J_Str (df_username forms)), (''role'', J_Str (df_role forms))])]"

text \<open>The detail page over the rows as they are, with what the rejected form held.\<close>

definition render_detail_of :: "db \<Rightarrow> string \<Rightarrow> (organization_record \<Rightarrow> organization_record) \<Rightarrow> detail_forms \<Rightarrow> reply" where
  "render_detail_of db key edit forms =
     (case load_organization db key of
        None \<Rightarrow> See_Other ''/admin/tenants''
      | Some g \<Rightarrow> render_tenant_detail (edit g) (load_domains db (o_id g)) (load_members db (o_id g)) forms)"

definition update_rejected :: "db \<Rightarrow> string \<Rightarrow> string \<Rightarrow> string \<Rightarrow> string \<Rightarrow> reply" where
  "update_rejected db key name droot e =
     render_detail_of db key (\<lambda>g. g\<lparr>o_name := name, o_document_root := droot\<rparr>) (no_forms\<lparr>df_error := Some e\<rparr>)"

definition domain_rejected :: "db \<Rightarrow> string \<Rightarrow> string \<Rightarrow> string \<Rightarrow> reply" where
  "domain_rejected db key hostname e = render_detail_of db key id (no_forms\<lparr>df_error := Some e, df_hostname := hostname\<rparr>)"

definition member_rejected :: "db \<Rightarrow> string \<Rightarrow> string \<Rightarrow> string \<Rightarrow> string \<Rightarrow> reply" where
  "member_rejected db key username role e =
     render_detail_of db key id (no_forms\<lparr>df_error := Some e, df_username := username, df_role := role\<rparr>)"

section \<open>The platform's pages\<close>

record hosting =
  ho_db :: db
  ho_snapshot :: vhost_snapshot

text \<open>A handler that leaves the snapshot alone.\<close>

definition on_db :: "reply \<times> db \<Rightarrow> hosting \<Rightarrow> reply \<times> hosting" where
  "on_db r h = (fst r, h\<lparr>ho_db := snd r\<rparr>)"

definition with_hosting :: "panel \<Rightarrow> hosting \<Rightarrow> reply \<times> hosting \<Rightarrow> reply \<times> hosting" where
  "with_hosting pn h r = (if pn_cms pn = None then (no_cms, h) else r)"

definition refresh_or_flag :: "serving \<Rightarrow> string \<Rightarrow> string \<Rightarrow> hosting \<Rightarrow> reply \<times> hosting" where
  "refresh_or_flag sc path ok h =
     (case refresh_vhost_state sc (ho_db h) (ho_snapshot h) of
        (Inr _, s) \<Rightarrow> (See_Other (path @ ''?ok='' @ ok), h\<lparr>ho_snapshot := s\<rparr>)
      | (Inl _, s) \<Rightarrow> (See_Other (path @ ''?ok='' @ ok @ ''&error=refresh''), h\<lparr>ho_snapshot := s\<rparr>))"

definition tenant_path :: "string \<Rightarrow> string" where
  "tenant_path key = ''/admin/tenants/'' @ key"

definition list_tenants :: "panel \<Rightarrow> hosting \<Rightarrow> reply \<times> hosting" where
  "list_tenants pn h = with_hosting pn h
     (case list_organizations (ho_db h) of
        Inl _ \<Rightarrow> (storage_failure, h)
      | Inr listings \<Rightarrow>
          (render_view ''admin/tenants.jhs''
             [(''tenants'', J_Arr (map (\<lambda>l. tenant_value (ol_record l) (ol_domain_count l) (ol_member_count l)) listings)),
              (''form_error'', J_Null)], h))"

definition new_tenant_form_route :: "hosting \<Rightarrow> reply \<times> hosting" where
  "new_tenant_form_route h =
     (render_view ''admin/tenant_form.jhs'' [(''form'', tenant_form_data [] [] []), (''form_error'', J_Null)], h)"

definition create_tenant :: "panel \<Rightarrow> request \<Rightarrow> (string, new_tenant_form) result \<Rightarrow> hosting \<Rightarrow> reply \<times> hosting" where
  "create_tenant pn rq input h = with_hosting pn h
     (case input of
        Inl message \<Rightarrow> (render_tenant_error [] [] [] message, h)
      | Inr f \<Rightarrow>
          (let key = trim (ntf_key f); name = trim (ntf_name f); droot = trim (ntf_document_root f);
               reject = (\<lambda>message. render_tenant_error key name droot message) in
           case and_then (validate_tenant_key key) (\<lambda>_. and_then (validate_tenant_name name) (\<lambda>_. validate_document_root droot)) of
             Inl message \<Rightarrow> (reject message, h)
           | Inr _ \<Rightarrow>
               on_db (case create_organization (ho_db h) (rq_now rq) key name droot of
                  (Inr _, d) \<Rightarrow> (See_Other (tenant_path key @ ''?ok=created''), d)
                | (Inl Duplicate, d) \<Rightarrow> (reject ''That key is already taken.'', d)
                | (Inl (Internal _), d) \<Rightarrow> (reject ''Could not create (internal error).'', d)) h))"

definition tenant_detail :: "panel \<Rightarrow> string \<Rightarrow> hosting \<Rightarrow> reply \<times> hosting" where
  "tenant_detail pn key h = with_hosting pn h (render_detail_of (ho_db h) key id no_forms, h)"

definition update_tenant :: "panel \<Rightarrow> serving \<Rightarrow> string \<Rightarrow> (string, tenant_form) result \<Rightarrow> hosting \<Rightarrow> reply \<times> hosting" where
  "update_tenant pn sc key input h = with_hosting pn h
     (let db = ho_db h in
      case input of
        Inl message \<Rightarrow> (update_rejected db key [] [] message, h)
      | Inr f \<Rightarrow>
          (case load_organization db key of
             None \<Rightarrow> (See_Other ''/admin/tenants'', h)
           | Some g \<Rightarrow>
               if is_seeded g then (See_Other (tenant_path key @ ''?error=seeded''), h)
               else (let name = trim (tf_name f); droot = trim (tf_document_root f) in
                 case and_then (validate_tenant_name name) (\<lambda>_. validate_document_root droot) of
                   Inl message \<Rightarrow> (update_rejected db key name droot message, h)
                 | Inr _ \<Rightarrow>
                     (case update_organization db key name droot of
                        (Inr True, d) \<Rightarrow> refresh_or_flag sc (tenant_path key) ''saved'' (h\<lparr>ho_db := d\<rparr>)
                      | (Inr False, d) \<Rightarrow> (See_Other ''/admin/tenants'', h\<lparr>ho_db := d\<rparr>)
                      | (Inl _, d) \<Rightarrow> (update_rejected d key name droot ''Could not save (internal error).'', h\<lparr>ho_db := d\<rparr>)))))"

definition delete_tenant :: "panel \<Rightarrow> serving \<Rightarrow> string \<Rightarrow> hosting \<Rightarrow> reply \<times> hosting" where
  "delete_tenant pn sc key h = with_hosting pn h
     (let db = ho_db h in
      case load_organization db key of
        None \<Rightarrow> (See_Other ''/admin/tenants'', h)
      | Some g \<Rightarrow>
          if is_seeded g then (See_Other (tenant_path key @ ''?error=seeded''), h)
          else (case count_content db key of
             Inl _ \<Rightarrow> (storage_failure, h)
           | Inr counts \<Rightarrow>
               if \<not> content_counts_is_empty counts then (See_Other (tenant_path key @ ''?error=content''), h)
               else (case delete_organization db key of
                  (Inr True, d) \<Rightarrow> refresh_or_flag sc ''/admin/tenants'' ''deleted'' (h\<lparr>ho_db := d\<rparr>)
                | (Inr False, d) \<Rightarrow> (See_Other ''/admin/tenants'', h\<lparr>ho_db := d\<rparr>)
                | (Inl _, d) \<Rightarrow> (storage_failure, h\<lparr>ho_db := d\<rparr>))))"

definition duplicate_host_message :: "serving \<Rightarrow> db \<Rightarrow> string \<Rightarrow> string" where
  "duplicate_host_message sc db hostname =
     (case find_domain_owner db hostname of
        Inr (Some owner) \<Rightarrow>
          if owner = cms_organization_key \<and> (\<exists>configured \<in> set (sc_cms_hosts sc). normalize_hostname configured = hostname)
          then ''`'' @ hostname @ ''` is bootstrapped by the [cms] hosts list in wallermax.toml '' @ em_dash @
            '' remove it there (and restart) before mapping it to another organization.''
          else ''`'' @ hostname @ ''` is already mapped to the `'' @ owner @ ''` organization.''
      | _ \<Rightarrow> ''`'' @ hostname @ ''` is already mapped.'')"

definition add_tenant_domain :: "panel \<Rightarrow> serving \<Rightarrow> request \<Rightarrow> string \<Rightarrow> (string, string) result \<Rightarrow> hosting \<Rightarrow> reply \<times> hosting" where
  "add_tenant_domain pn sc rq key input h = with_hosting pn h
     (let db = ho_db h in
      case input of
        Inl message \<Rightarrow> (domain_rejected db key [] message, h)
      | Inr raw \<Rightarrow>
          (case load_organization db key of
             None \<Rightarrow> (See_Other ''/admin/tenants'', h)
           | Some g \<Rightarrow>
               (let hostname = normalize_hostname raw in
                case validate_hostname hostname of
                  Inl message \<Rightarrow> (domain_rejected db key hostname message, h)
                | Inr _ \<Rightarrow>
                    if o_key g = cms_organization_key \<and> \<not> sc_static_enabled sc
                    then (domain_rejected db key hostname (''The CMS host borrows the shared /assets from the static tree '' @ em_dash @
                        '' enable [static] serving before mapping more host names to the CMS organization.''), h)
                    else (case add_domain db (rq_now rq) (o_id g) hostname of
                       (Inr _, d) \<Rightarrow> refresh_or_flag sc (tenant_path key) ''domain-added'' (h\<lparr>ho_db := d\<rparr>)
                     | (Inl Duplicate, d) \<Rightarrow> (domain_rejected d key hostname (duplicate_host_message sc d hostname), h\<lparr>ho_db := d\<rparr>)
                     | (Inl (Internal _), d) \<Rightarrow>
                         (domain_rejected d key hostname ''Could not map the host name (internal error).'', h\<lparr>ho_db := d\<rparr>)))))"

definition remove_tenant_domain :: "panel \<Rightarrow> serving \<Rightarrow> string \<Rightarrow> string \<Rightarrow> hosting \<Rightarrow> reply \<times> hosting" where
  "remove_tenant_domain pn sc key raw h = with_hosting pn h
     (case load_organization (ho_db h) key of
        None \<Rightarrow> (See_Other ''/admin/tenants'', h)
      | Some g \<Rightarrow>
          (case remove_domain (ho_db h) (o_id g) (normalize_hostname raw) of
             (Inl _, d) \<Rightarrow> (storage_failure, h\<lparr>ho_db := d\<rparr>)
           | (Inr Removed, d) \<Rightarrow> refresh_or_flag sc (tenant_path key) ''domain-removed'' (h\<lparr>ho_db := d\<rparr>)
           | (Inr ConfigProtected, d) \<Rightarrow> (See_Other (tenant_path key @ ''?error=domain-config''), h\<lparr>ho_db := d\<rparr>)
           | (Inr DomainMissing, d) \<Rightarrow> (See_Other (tenant_path key @ ''?error=domain-missing''), h\<lparr>ho_db := d\<rparr>)))"

text \<open>
  The decision both member forms share, once the organization is known: the role, the account, the last
  administrator. The replies are those of the page that asks.
\<close>

definition editing_role :: "string \<Rightarrow> user_role option" where
  "editing_role s = (case role_parse s of Some r \<Rightarrow> if is_editor r then Some r else None | None \<Rightarrow> None)"

definition grant_member :: "panel \<Rightarrow> request \<Rightarrow> (db \<Rightarrow> string \<Rightarrow> reply) \<Rightarrow> reply \<Rightarrow> organization_record \<Rightarrow> member_form \<Rightarrow> db \<Rightarrow> reply \<times> db" where
  "grant_member pn rq reject added g f db =
     (case editing_role (mbf_role f) of
        None \<Rightarrow> (reject db (''Memberships are administrator or editor '' @ em_dash @ '' a plain user simply has none.''), db)
      | Some role \<Rightarrow>
          if sv_auth (pn_server pn) = None then (Failed (InternalError ''authentication is not initialized''), db)
          else (case find_user_by_username db (trim (mbf_username f)) of
             Inl _ \<Rightarrow> (storage_failure, db)
           | Inr None \<Rightarrow> (reject db ''No account answers to that username.'', db)
           | Inr (Some u) \<Rightarrow>
               (case if role \<noteq> Admin then solo_administrator db (o_id g) (u_id u) else Inr False of
                  Inl _ \<Rightarrow> (storage_failure, db)
                | Inr True \<Rightarrow> (reject db ''This is the organization's last administrator: the role cannot be removed.'', db)
                | Inr False \<Rightarrow>
                    (case upsert_member db (rq_now rq) (o_id g) (u_id u) role of
                       (Inr _, d) \<Rightarrow> (added, d)
                     | (Inl _, d) \<Rightarrow> (reject d ''Could not save (internal error).'', d)))))"

definition withdraw_member :: "reply \<Rightarrow> reply \<Rightarrow> organization_record \<Rightarrow> int \<Rightarrow> db \<Rightarrow> reply \<times> db" where
  "withdraw_member refused removed g user_id db =
     (case solo_administrator db (o_id g) user_id of
        Inl _ \<Rightarrow> (storage_failure, db)
      | Inr True \<Rightarrow> (refused, db)
      | Inr False \<Rightarrow>
          (case remove_member db (o_id g) user_id of
             (Inr _, d) \<Rightarrow> (removed, d)
           | (Inl _, d) \<Rightarrow> (storage_failure, d)))"

definition add_tenant_member :: "panel \<Rightarrow> request \<Rightarrow> string \<Rightarrow> (string, member_form) result \<Rightarrow> hosting \<Rightarrow> reply \<times> hosting" where
  "add_tenant_member pn rq key input h = with_hosting pn h
     (let db = ho_db h in
      case input of
        Inl message \<Rightarrow> (member_rejected db key [] ''editor'' message, h)
      | Inr f \<Rightarrow>
          (case load_organization db key of
             None \<Rightarrow> (See_Other ''/admin/tenants'', h)
           | Some g \<Rightarrow>
               if o_key g = cms_organization_key then (See_Other (tenant_path key @ ''?error=mirror''), h)
               else on_db (grant_member pn rq (\<lambda>d. member_rejected d key (trim (mbf_username f)) (mbf_role f))
                      (See_Other (tenant_path key @ ''?ok=member-added'')) g f db) h))"

definition remove_tenant_member :: "panel \<Rightarrow> string \<Rightarrow> int \<Rightarrow> hosting \<Rightarrow> reply \<times> hosting" where
  "remove_tenant_member pn key user_id h = with_hosting pn h
     (case load_organization (ho_db h) key of
        None \<Rightarrow> (See_Other ''/admin/tenants'', h)
      | Some g \<Rightarrow>
          if o_key g = cms_organization_key then (See_Other (tenant_path key @ ''?error=mirror''), h)
          else on_db (withdraw_member (See_Other (tenant_path key @ ''?error=last-admin''))
                 (See_Other (tenant_path key @ ''?ok=member-removed'')) g user_id (ho_db h)) h)"

section \<open>The team of a tenant\<close>

definition render_team :: "organization_record \<Rightarrow> member_record list \<Rightarrow> member_form \<Rightarrow> string option \<Rightarrow> reply" where
  "render_team g ms f e =
     render_view ''admin/team.jhs''
       [(''tenant'', J_Obj [(''key'', J_Str (o_key g)), (''name'', J_Str (o_name g))]),
        (''members'', J_Arr (map member_value ms)), (''form_error'', form_error e),
        (''member_form'', J_Obj [(''username'', J_Str (mbf_username f)), (''role'', J_Str (mbf_role f))])]"

definition empty_member_form :: member_form where
  "empty_member_form = \<lparr>mbf_username = [], mbf_role = []\<rparr>"

definition render_team_rejected :: "panel \<Rightarrow> string \<Rightarrow> member_form \<Rightarrow> db \<Rightarrow> string \<Rightarrow> reply" where
  "render_team_rejected pn key f db e =
     (if pn_cms pn = None then no_cms
      else (case load_organization db key of
         None \<Rightarrow> storage_failure
       | Some g \<Rightarrow> render_team g (load_members db (o_id g)) f (Some e)))"

definition team_page :: "panel \<Rightarrow> member \<Rightarrow> db \<Rightarrow> reply \<times> db" where
  "team_page pn m db = with_cms pn db (\<lambda>_.
     case load_organization db (mb_organization m) of
       None \<Rightarrow> (storage_failure, db)
     | Some g \<Rightarrow>
         (case members db (o_id g) of
            Inl _ \<Rightarrow> (storage_failure, db)
          | Inr ms \<Rightarrow> (render_team g ms empty_member_form None, db)))"

definition team_add_member :: "panel \<Rightarrow> request \<Rightarrow> (string, member_form) result \<Rightarrow> member \<Rightarrow> db \<Rightarrow> reply \<times> db" where
  "team_add_member pn rq input m db = with_cms pn db (\<lambda>_.
     case input of
       Inl message \<Rightarrow> (render_team_rejected pn (mb_organization m) empty_member_form db message, db)
     | Inr f \<Rightarrow>
         (case load_organization db (mb_organization m) of
            None \<Rightarrow> (storage_failure, db)
          | Some g \<Rightarrow>
              grant_member pn rq (render_team_rejected pn (mb_organization m) f) (See_Other ''/admin/team?ok=member-added'') g f db))"

definition team_remove_member :: "panel \<Rightarrow> int \<Rightarrow> member \<Rightarrow> db \<Rightarrow> reply \<times> db" where
  "team_remove_member pn user_id m db = with_cms pn db (\<lambda>_.
     case load_organization db (mb_organization m) of
       None \<Rightarrow> (storage_failure, db)
     | Some g \<Rightarrow>
         withdraw_member (See_Other ''/admin/team?error=last-admin'') (See_Other ''/admin/team?ok=member-removed'') g user_id db)"

section \<open>Calls\<close>

datatype tenant_call =
    Create_Tenant "(string, new_tenant_form) result"
  | Update_Tenant string "(string, tenant_form) result"
  | Delete_Tenant string
  | Add_Domain string "(string, string) result"
  | Remove_Domain string string
  | Add_Member string "(string, member_form) result"
  | Remove_Member string int
  | Team_Add "(string, member_form) result" member
  | Team_Remove int member

definition tenant_call :: "panel \<Rightarrow> serving \<Rightarrow> request \<Rightarrow> tenant_call \<Rightarrow> hosting \<Rightarrow> reply \<times> hosting" where
  "tenant_call pn sc rq call h =
     (case call of
        Create_Tenant input \<Rightarrow> create_tenant pn rq input h
      | Update_Tenant key input \<Rightarrow> update_tenant pn sc key input h
      | Delete_Tenant key \<Rightarrow> delete_tenant pn sc key h
      | Add_Domain key input \<Rightarrow> add_tenant_domain pn sc rq key input h
      | Remove_Domain key host \<Rightarrow> remove_tenant_domain pn sc key host h
      | Add_Member key input \<Rightarrow> add_tenant_member pn rq key input h
      | Remove_Member key i \<Rightarrow> remove_tenant_member pn key i h
      | Team_Add input m \<Rightarrow> on_db (team_add_member pn rq input m (ho_db h)) h
      | Team_Remove i m \<Rightarrow> on_db (team_remove_member pn i m (ho_db h)) h)"

subsection \<open>What a call does\<close>

text \<open>The kinds of change a call can make, with the reply of a success in each.\<close>

definition ok_reply :: "reply \<Rightarrow> bool" where
  "ok_reply r \<longleftrightarrow> (\<exists>path rest. r = See_Other (path @ ''?ok='' @ rest))"

inductive tenant_change :: "serving \<Rightarrow> int \<Rightarrow> hosting \<Rightarrow> hosting \<Rightarrow> bool" for sc now h where
  created: "validate_tenant_key key = Inr () \<Longrightarrow> create_organization (ho_db h) now key name droot = (Inr g, d) \<Longrightarrow>
     tenant_change sc now h (h\<lparr>ho_db := d\<rparr>)"
| updated: "load_organization (ho_db h) key = Some g \<Longrightarrow> \<not> is_seeded g \<Longrightarrow> validate_document_root droot = Inr () \<Longrightarrow>
     update_organization (ho_db h) key name droot = (Inr True, d) \<Longrightarrow>
     tenant_change sc now h \<lparr>ho_db = d, ho_snapshot = snd (refresh_vhost_state sc d (ho_snapshot h))\<rparr>"
| deleted: "load_organization (ho_db h) key = Some g \<Longrightarrow> \<not> is_seeded g \<Longrightarrow> count_content (ho_db h) key = Inr counts \<Longrightarrow>
     content_counts_is_empty counts \<Longrightarrow> delete_organization (ho_db h) key = (Inr True, d) \<Longrightarrow>
     tenant_change sc now h \<lparr>ho_db = d, ho_snapshot = snd (refresh_vhost_state sc d (ho_snapshot h))\<rparr>"
| mapped: "load_organization (ho_db h) key = Some g \<Longrightarrow> validate_hostname host = Inr () \<Longrightarrow>
     add_domain (ho_db h) now (o_id g) host = (Inr (), d) \<Longrightarrow>
     tenant_change sc now h \<lparr>ho_db = d, ho_snapshot = snd (refresh_vhost_state sc d (ho_snapshot h))\<rparr>"
| unmapped: "load_organization (ho_db h) key = Some g \<Longrightarrow> remove_domain (ho_db h) (o_id g) host = (Inr Removed, d) \<Longrightarrow>
     tenant_change sc now h \<lparr>ho_db = d, ho_snapshot = snd (refresh_vhost_state sc d (ho_snapshot h))\<rparr>"
| granted: "load_organization (ho_db h) key = Some g \<Longrightarrow> find_user_by_username (ho_db h) name = Inr (Some u) \<Longrightarrow> is_editor role \<Longrightarrow>
     role = Admin \<or> solo_administrator (ho_db h) (o_id g) (u_id u) = Inr False \<Longrightarrow>
     upsert_member (ho_db h) now (o_id g) (u_id u) role = (Inr (), d) \<Longrightarrow> tenant_change sc now h (h\<lparr>ho_db := d\<rparr>)"
| withdrawn: "load_organization (ho_db h) key = Some g \<Longrightarrow> solo_administrator (ho_db h) (o_id g) i = Inr False \<Longrightarrow>
     remove_member (ho_db h) (o_id g) i = (Inr b, d) \<Longrightarrow> tenant_change sc now h (h\<lparr>ho_db := d\<rparr>)"

definition outcome_ok :: "serving \<Rightarrow> int \<Rightarrow> hosting \<Rightarrow> reply \<times> hosting \<Rightarrow> bool" where
  "outcome_ok sc now h r \<longleftrightarrow> snd r = h \<or> ok_reply (fst r) \<and> tenant_change sc now h (snd r)"

lemma ok_replyI: "ok_reply (See_Other (path @ ''?ok='' @ rest))"
  by (auto simp: ok_reply_def)

lemma ok_replies [simp]:
  "ok_reply (See_Other (path @ ''?ok=created''))" "ok_reply (See_Other (path @ ''?ok=member-added''))"
  "ok_reply (See_Other (path @ ''?ok=member-removed''))"
  "ok_reply (See_Other ''/admin/team?ok=member-added'')" "ok_reply (See_Other ''/admin/team?ok=member-removed'')"
proof -
  show "ok_reply (See_Other (path @ ''?ok=created''))" using ok_replyI [of path "''created''"] by simp
  show "ok_reply (See_Other (path @ ''?ok=member-added''))" using ok_replyI [of path "''member-added''"] by simp
  show "ok_reply (See_Other (path @ ''?ok=member-removed''))" using ok_replyI [of path "''member-removed''"] by simp
  show "ok_reply (See_Other ''/admin/team?ok=member-added'')" using ok_replyI [of "''/admin/team''" "''member-added''"] by simp
  show "ok_reply (See_Other ''/admin/team?ok=member-removed'')" using ok_replyI [of "''/admin/team''" "''member-removed''"] by simp
qed

lemma refresh_or_flag_outcome:
  "ok_reply (fst (refresh_or_flag sc path ok h))"
  "snd (refresh_or_flag sc path ok h) = h\<lparr>ho_snapshot := snd (refresh_vhost_state sc (ho_db h) (ho_snapshot h))\<rparr>"
  using ok_replyI [of path, simplified] by (auto simp: refresh_or_flag_def split: prod.split sum.split)

lemma outcome_same [simp]: "outcome_ok sc now h (r, h)"
  by (simp add: outcome_ok_def)

lemma hosting_same: "h\<lparr>ho_db := ho_db h\<rparr> = h" "(\<lparr>ho_db = d, ho_snapshot = s\<rparr> :: hosting) = h \<longleftrightarrow> d = ho_db h \<and> s = ho_snapshot h"
  by (cases h; auto)+

lemma outcome_with_hosting: "outcome_ok sc now h r \<Longrightarrow> outcome_ok sc now h (with_hosting pn h r)"
  by (simp add: with_hosting_def)

lemma remove_domain_kept:
  assumes "remove_domain db i host = (Inr a, d)" "a \<noteq> Removed"
  shows "d = db"
proof -
  let ?p = "\<lambda>d. is_domain i host d \<and> d_source d = ''manual''"
  from assms have "count_rows ?p (db_domains db) = 0" "d = db\<lparr>db_domains := delete_rows ?p (db_domains db)\<rparr>"
    by (auto simp: remove_domain_def Let_def split: if_splits)
  then show ?thesis by (simp add: count_rows_0 delete_rows_id)
qed

lemma grant_outcome:
  assumes "grant_member pn rq reject added g f db = (r, d)" "ok_reply added"
  shows "d = db \<or> ok_reply r \<and> (\<exists>name u role. find_user_by_username db name = Inr (Some u) \<and> is_editor role \<and>
    (role = Admin \<or> solo_administrator db (o_id g) (u_id u) = Inr False) \<and> upsert_member db (rq_now rq) (o_id g) (u_id u) role = (Inr (), d))"
proof (cases "editing_role (mbf_role f)")
  case None
  with assms(1) show ?thesis by (simp add: grant_member_def)
next
  case role: (Some role)
  then have ed: "is_editor role" by (auto simp: editing_role_def split: option.splits if_splits)
  show ?thesis
  proof (cases "sv_auth (pn_server pn)")
    case None
    with assms(1) role show ?thesis by (simp add: grant_member_def)
  next
    case auth: (Some auth)
    show ?thesis
    proof (cases "\<exists>u. find_user_by_username db (trim (mbf_username f)) = Inr (Some u)")
      case False
      with assms(1) role auth show ?thesis by (auto simp: grant_member_def split: sum.splits option.splits)
    next
      case True
      then obtain u where u: "find_user_by_username db (trim (mbf_username f)) = Inr (Some u)" by blast
      show ?thesis
      proof (cases "role = Admin \<or> solo_administrator db (o_id g) (u_id u) = Inr False")
        case False
        with assms(1) role auth u show ?thesis by (auto simp: grant_member_def split: sum.splits bool.splits)
      next
        case solo: True
        obtain a d' where up: "upsert_member db (rq_now rq) (o_id g) (u_id u) role = (a, d')" by fastforce
        have "grant_member pn rq reject added g f db = (case (a, d') of (Inr _, d) \<Rightarrow> (added, d) | (Inl _, d) \<Rightarrow> (reject d ''Could not save (internal error).'', d))"
          unfolding grant_member_def role auth u option.case sum.case up [symmetric] using solo by auto
        moreover have "d' = db" if "a = Inl e" for e
          using up that by (auto simp: upsert_member_def split: sum.splits)
        ultimately show ?thesis
          using assms u ed solo up by (cases a) auto
      qed
    qed
  qed
qed

lemma withdraw_outcome:
  assumes "withdraw_member refused removed g i db = (r, d)" "ok_reply removed"
  shows "d = db \<or> ok_reply r \<and> solo_administrator db (o_id g) i = Inr False \<and> (\<exists>b. remove_member db (o_id g) i = (Inr b, d))"
  using assms by (auto simp: withdraw_member_def split: sum.splits bool.splits prod.splits) (auto simp: remove_member_def)

lemma outcome_grant:
  assumes "load_organization (ho_db h) key = Some g" "ok_reply added"
  shows "outcome_ok sc (rq_now rq) h (on_db (grant_member pn rq reject added g f (ho_db h)) h)"
proof -
  obtain r d where e: "grant_member pn rq reject added g f (ho_db h) = (r, d)" by fastforce
  from grant_outcome [OF e assms(2)] show ?thesis
    using granted [OF assms(1)] by (auto simp: e on_db_def outcome_ok_def hosting_same)
qed

lemma outcome_withdraw:
  assumes "load_organization (ho_db h) key = Some g" "ok_reply removed"
  shows "outcome_ok sc now h (on_db (withdraw_member refused removed g i (ho_db h)) h)"
proof -
  obtain r d where e: "withdraw_member refused removed g i (ho_db h) = (r, d)" by fastforce
  from withdraw_outcome [OF e assms(2)] show ?thesis
    using withdrawn [OF assms(1)] by (auto simp: e on_db_def outcome_ok_def hosting_same)
qed

lemma outcome_refresh:
  "tenant_change sc now h \<lparr>ho_db = d, ho_snapshot = snd (refresh_vhost_state sc d (ho_snapshot h))\<rparr> \<Longrightarrow>
    outcome_ok sc now h (refresh_or_flag sc path ok (h\<lparr>ho_db := d\<rparr>))"
  by (cases h) (simp add: outcome_ok_def refresh_or_flag_outcome)

lemma outcome_create: "outcome_ok sc (rq_now rq) h (create_tenant pn rq input h)"
  unfolding create_tenant_def
proof (rule outcome_with_hosting, cases input)
  fix f assume i: "input = Inr f"
  let ?k = "trim (ntf_key f)" and ?n = "trim (ntf_name f)" and ?r = "trim (ntf_document_root f)"
  obtain a d where e: "create_organization (ho_db h) (rq_now rq) ?k ?n ?r = (a, d)" by fastforce
  have same: "d = ho_db h" if "a = Inl x" for x
    using e that by (auto simp: create_organization_def insert_row_def find_organization_def Let_def split: if_splits)
  have "outcome_ok sc (rq_now rq) h (on_db (See_Other (tenant_path ?k @ ''?ok=created''), d) h)" if "validate_tenant_key ?k = Inr ()" "a = Inr g" for g
    using created [of ?k h "rq_now rq" ?n ?r g d] that e by (simp add: outcome_ok_def on_db_def)
  with same e show "outcome_ok sc (rq_now rq) h (case input of Inl message \<Rightarrow> (render_tenant_error [] [] [] message, h)
      | Inr f \<Rightarrow>
          (let key = trim (ntf_key f); name = trim (ntf_name f); droot = trim (ntf_document_root f);
               reject = (\<lambda>message. render_tenant_error key name droot message) in
           case and_then (validate_tenant_key key) (\<lambda>_. and_then (validate_tenant_name name) (\<lambda>_. validate_document_root droot)) of
             Inl message \<Rightarrow> (reject message, h)
           | Inr _ \<Rightarrow>
               on_db (case create_organization (ho_db h) (rq_now rq) key name droot of
                  (Inr _, d) \<Rightarrow> (See_Other (tenant_path key @ ''?ok=created''), d)
                | (Inl Duplicate, d) \<Rightarrow> (reject ''That key is already taken.'', d)
                | (Inl (Internal _), d) \<Rightarrow> (reject ''Could not create (internal error).'', d)) h))"
    unfolding i by (auto simp: Let_def on_db_def hosting_same and_then_def split: sum.split repository_error.split)
qed simp

lemma outcome_update: "outcome_ok sc now h (update_tenant pn sc key input h)"
proof -
  have found: "0 < count_rows (\<lambda>g. o_key g = key) (db_organizations (ho_db h))" if "load_organization (ho_db h) key = Some g" for g
    using that by (auto simp: load_organization_def find_organization_def count_rows_0 simp flip: neq0_conv dest!: select_row_Some)
  have up: "outcome_ok sc now h (refresh_or_flag sc (tenant_path key) ''saved'' (h\<lparr>ho_db := d\<rparr>))"
    if "load_organization (ho_db h) key = Some g" "\<not> is_seeded g" "validate_document_root droot = Inr ()"
      "update_organization (ho_db h) key name droot = (Inr True, d)" for g name droot d
    by (rule outcome_refresh) (rule updated [OF that])
  show ?thesis
    unfolding update_tenant_def
    by (rule outcome_with_hosting)
      (auto simp: Let_def and_then_def update_organization_def dest: found intro!: up split: sum.split option.split bool.split)
qed

lemma outcome_delete: "outcome_ok sc now h (delete_tenant pn sc key h)"
proof -
  have del: "outcome_ok sc now h (refresh_or_flag sc ''/admin/tenants'' ''deleted'' (h\<lparr>ho_db := d\<rparr>))"
    if "load_organization (ho_db h) key = Some g" "\<not> is_seeded g" "count_content (ho_db h) key = Inr counts" "content_counts_is_empty counts"
      "delete_organization (ho_db h) key = (Inr True, d)" for g counts d
    by (rule outcome_refresh) (rule deleted [OF that])
  obtain a d where e: "delete_organization (ho_db h) key = (a, d)" by fastforce
  have ends: "(\<exists>b. a = Inr b) \<and> (a = Inr False \<longrightarrow> d = ho_db h)"
    using e by (auto simp: delete_organization_def split: option.splits)
  show ?thesis
    unfolding delete_tenant_def
    by (rule outcome_with_hosting)
      (use e ends in \<open>auto simp: Let_def hosting_same intro!: del split: sum.split option.split bool.split\<close>)
qed

lemma outcome_add_domain: "outcome_ok sc (rq_now rq) h (add_tenant_domain pn sc rq key input h)"
proof -
  have add: "outcome_ok sc (rq_now rq) h (refresh_or_flag sc (tenant_path key) ''domain-added'' (h\<lparr>ho_db := d\<rparr>))"
    if "load_organization (ho_db h) key = Some g" "validate_hostname host = Inr ()" "add_domain (ho_db h) (rq_now rq) (o_id g) host = (Inr (), d)"
    for g host d by (rule outcome_refresh) (rule mapped [OF that])
  have same: "d = ho_db h" if "add_domain (ho_db h) (rq_now rq) i host = (Inl x, d)" for i host x d
    using that by (auto simp: add_domain_def split: if_splits)
  show ?thesis
    unfolding add_tenant_domain_def
    by (rule outcome_with_hosting)
      (auto simp: Let_def hosting_same dest!: same intro!: add split: sum.split option.split prod.split repository_error.split)
qed

lemma outcome_remove_domain: "outcome_ok sc now h (remove_tenant_domain pn sc key host h)"
proof -
  have rem: "outcome_ok sc now h (refresh_or_flag sc (tenant_path key) ''domain-removed'' (h\<lparr>ho_db := d\<rparr>))"
    if "load_organization (ho_db h) key = Some g" "remove_domain (ho_db h) (o_id g) x = (Inr Removed, d)" for g x d
    by (rule outcome_refresh) (rule unmapped [OF that])
  have same: "d = ho_db h" if "remove_domain (ho_db h) i x = (Inr a, d)" "a \<noteq> Removed" for i x a d
    by (rule remove_domain_kept [OF that])
  have total: "fst (remove_domain (ho_db h) i x) \<noteq> Inl e" for i x e
    by (simp add: remove_domain_def Let_def)
  show ?thesis
    unfolding remove_tenant_domain_def
  proof (rule outcome_with_hosting, cases "load_organization (ho_db h) key")
    case (Some g)
    obtain a d where e: "remove_domain (ho_db h) (o_id g) (normalize_hostname host) = (a, d)" by fastforce
    from total [of "o_id g" "normalize_hostname host"] e obtain b where b: "a = Inr b" by (cases a) auto
    have kept: "b \<noteq> Removed \<Longrightarrow> d = ho_db h" using same e b by blast
    from Some e b show "outcome_ok sc now h (case load_organization (ho_db h) key of
        None \<Rightarrow> (See_Other ''/admin/tenants'', h)
      | Some g \<Rightarrow>
          (case remove_domain (ho_db h) (o_id g) (normalize_hostname host) of
             (Inl _, d) \<Rightarrow> (storage_failure, h\<lparr>ho_db := d\<rparr>)
           | (Inr Removed, d) \<Rightarrow> refresh_or_flag sc (tenant_path key) ''domain-removed'' (h\<lparr>ho_db := d\<rparr>)
           | (Inr ConfigProtected, d) \<Rightarrow> (See_Other (tenant_path key @ ''?error=domain-config''), h\<lparr>ho_db := d\<rparr>)
           | (Inr DomainMissing, d) \<Rightarrow> (See_Other (tenant_path key @ ''?error=domain-missing''), h\<lparr>ho_db := d\<rparr>)))"
      using rem [OF Some] kept by (cases b) (simp_all add: hosting_same)
  qed simp
qed

lemma on_db_same [simp]: "on_db (r, ho_db h) h = (r, h)"
  by (simp add: on_db_def hosting_same)

lemma outcome_team_add: "outcome_ok sc (rq_now rq) h (on_db (team_add_member pn rq input m (ho_db h)) h)"
  by (auto simp: team_add_member_def with_cms_def intro!: outcome_grant split: option.split sum.split)

lemma outcome_team_remove: "outcome_ok sc now h (on_db (team_remove_member pn i m (ho_db h)) h)"
  by (auto simp: team_remove_member_def with_cms_def intro!: outcome_withdraw split: option.split)

lemma outcome_add_member: "outcome_ok sc (rq_now rq) h (add_tenant_member pn rq key input h)"
  unfolding add_tenant_member_def
  by (rule outcome_with_hosting) (auto simp: Let_def intro!: outcome_grant split: option.split sum.split)

lemma outcome_remove_member: "outcome_ok sc now h (remove_tenant_member pn key i h)"
  unfolding remove_tenant_member_def
  by (rule outcome_with_hosting) (auto intro!: outcome_withdraw split: option.split)

text \<open>Every call either changes nothing or makes one of the changes.\<close>

lemma tenant_call_outcome: "outcome_ok sc (rq_now rq) h (tenant_call pn sc rq call h)"
  by (cases call)
    (simp_all add: tenant_call_def outcome_create outcome_update outcome_delete outcome_add_domain outcome_remove_domain
      outcome_add_member outcome_remove_member outcome_team_add outcome_team_remove)

text \<open>
  C20: A refusal changes nothing: a call of the tenant and team pages whose answer is not a redirect
  with a success flag (a re-rendered form, an error, a redirect with an error code) leaves the
  database and the live snapshot as they were.
\<close>

theorem refusals_change_nothing:
  "ok_reply (fst (tenant_call pn sc rq call h)) \<or> snd (tenant_call pn sc rq call h) = h"
  using tenant_call_outcome [of sc rq h pn call] by (auto simp: outcome_ok_def)

section \<open>What the calls keep\<close>

text \<open>The live snapshot is the one the tables give.\<close>

definition live_snapshot :: "serving \<Rightarrow> hosting \<Rightarrow> bool" where
  "live_snapshot sc h \<longleftrightarrow> ho_snapshot h = refreshed_snapshot sc (current_inputs (ho_db h))"

text \<open>Content belongs to an organization that exists.\<close>

definition content_owned :: "db \<Rightarrow> bool" where
  "content_owned db \<longleftrightarrow>
     (let ids = o_id ` set (rows (db_organizations db)) in
      p_organization ` set (rows (db_pages db)) \<subseteq> ids \<and> mn_organization ` set (rows (db_menus db)) \<subseteq> ids \<and>
      md_organization ` set (rows (db_media db)) \<subseteq> ids)"

definition bootstrap_rows :: "db \<Rightarrow> organization_record list" where
  "bootstrap_rows db = filter is_seeded (rows (db_organizations db))"

definition content_tables :: "db \<Rightarrow> page_row list \<times> menu_row list \<times> media_row list" where
  "content_tables db = (rows (db_pages db), rows (db_menus db), rows (db_media db))"

definition hosting_ok :: "serving \<Rightarrow> hosting \<Rightarrow> bool" where
  "hosting_ok sc h \<longleftrightarrow> routing_ok (ho_db h) \<and> content_owned (ho_db h) \<and> live_snapshot sc h"

lemma refresh_live: "live_snapshot sc \<lparr>ho_db = d, ho_snapshot = snd (refresh_vhost_state sc d s)\<rparr>"
  by (simp add: live_snapshot_def refresh_vhost_state_def vhost_inputs_def current_inputs_def)

text \<open>A snapshot reads the roots of the two bootstrap organizations and the bindings, nothing else.\<close>

lemma find_SomeD: "find P xs = Some x \<Longrightarrow> x \<in> set xs \<and> P x"
  by (induction xs) (auto split: if_splits)

lemma root_of_roots:
  "distinct (map o_key (rows (db_organizations db))) \<Longrightarrow>
    root_of (load_document_roots db) key = map_option o_document_root (select_row (\<lambda>g. o_key g = key) (db_organizations db))"
proof -
  assume d: "distinct (map o_key (rows (db_organizations db)))"
  have m: "find (\<lambda>r. fst r = key) (map (\<lambda>g. (o_key g, o_document_root g)) gs) =
      map_option (\<lambda>g. (o_key g, o_document_root g)) (find (\<lambda>g. o_key g = key) gs)" for gs :: "organization_record list"
    by (induction gs) auto
  have "find (\<lambda>g. o_key g = key) (order_asc o_key (rows (db_organizations db))) = find (\<lambda>g. o_key g = key) (rows (db_organizations db))"
  proof (cases "find (\<lambda>g. o_key g = key) (rows (db_organizations db))")
    case None
    then have "find (\<lambda>g. o_key g = key) (order_asc o_key (rows (db_organizations db))) = None" by (auto simp: find_None_iff)
    with None show ?thesis by simp
  next
    case (Some g)
    then have g: "g \<in> set (rows (db_organizations db))" "o_key g = key" by (auto simp: find_Some_iff)
    obtain k where k: "find (\<lambda>g. o_key g = key) (order_asc o_key (rows (db_organizations db))) = Some k"
      using g by (cases "find (\<lambda>g. o_key g = key) (order_asc o_key (rows (db_organizations db)))") (auto simp: find_None_iff)
    then have "k \<in> set (rows (db_organizations db))" "o_key k = key" by (auto dest: find_SomeD)
    with g d have "k = g" by (metis distinct_map inj_onD)
    with k Some show ?thesis by simp
  qed
  then show ?thesis by (simp add: root_of_def load_document_roots_def m select_row_def option.map_comp comp_def)
qed

lemma snapshot_reads:
  assumes "root_of (load_document_roots d) main_organization_key = root_of (load_document_roots db) main_organization_key"
    "root_of (load_document_roots d) cms_organization_key = root_of (load_document_roots db) cms_organization_key"
    "load_host_bindings d = load_host_bindings db"
  shows "refreshed_snapshot sc (current_inputs d) = refreshed_snapshot sc (current_inputs db)"
  using assms by (simp add: refreshed_snapshot_def current_inputs_def vhosts_from_database_def data_cms_origin_def Let_def)

lemma validate_key_reserved: "validate_tenant_key key = Inr () \<Longrightarrow> key \<noteq> main_organization_key \<and> key \<noteq> cms_organization_key"
  by (auto simp: validate_tenant_key_def and_then_eq_Inr check_def reserved_keys_def split: if_splits)

lemma create_organization_shape:
  assumes "create_organization db now key name droot = (Inr g, d)"
  shows "d = db\<lparr>db_organizations := snd (insert_row (\<lambda>i. \<lparr>o_id = i, o_key = key, o_name = name, o_document_root = droot, o_created_at = now\<rparr>) (db_organizations db))\<rparr>"
    "\<forall>k \<in> set (rows (db_organizations db)). o_key k \<noteq> key"
  using assms by (auto simp: create_organization_def insert_row_def Let_def split: if_splits)

lemma create_organization_live:
  assumes "routing_ok db" "validate_tenant_key key = Inr ()" "create_organization db now key name droot = (Inr g, d)"
  shows "refreshed_snapshot sc (current_inputs d) = refreshed_snapshot sc (current_inputs db)"
proof (rule snapshot_reads)
  note sh = create_organization_shape [OF assms(3)]
  have ok: "routing_ok d" using routing_ok_create [OF assms(1), of now key name droot] assms(3) by simp
  have keep: "root_of (load_document_roots d) k = root_of (load_document_roots db) k" if "k \<noteq> key" for k
    using that unfolding root_of_roots [OF routing_okD(2) [OF ok]] root_of_roots [OF routing_okD(2) [OF assms(1)]]
    by (simp add: sh(1) select_insert split: option.split)
  show "root_of (load_document_roots d) main_organization_key = root_of (load_document_roots db) main_organization_key"
    "root_of (load_document_roots d) cms_organization_key = root_of (load_document_roots db) cms_organization_key"
    using keep validate_key_reserved [OF assms(2)] by auto
  have "domain_owner d x = domain_owner db x" if "x \<in> set (rows (db_domains db))" for x
    by (rule domain_owner_exists [OF assms(1) that]) (simp add: domain_owner_def sh(1) select_insert)
  then have "binding_of_row d x = binding_of_row db x" if "x \<in> set (rows (db_domains db))" for x
    using that by (simp add: binding_of_row_def)
  then have "List.map_filter (binding_of_row d) (rows (db_domains db)) = List.map_filter (binding_of_row db) (rows (db_domains db))"
    by (rule map_filter_agree)
  then show "load_host_bindings d = load_host_bindings db" by (simp add: load_host_bindings_def sh(1))
qed

lemma load_organization_row:
  "load_organization db key = Some g \<Longrightarrow> g \<in> set (rows (db_organizations db)) \<and> o_key g = key \<and> org_id db key = Some (o_id g)"
  by (auto simp: load_organization_def find_organization_def org_id_def dest!: select_row_Some)

lemma memberships_irrelevant [simp]:
  "routing_ok (db\<lparr>db_memberships := ms\<rparr>) = routing_ok db"
  "content_owned (db\<lparr>db_memberships := ms\<rparr>) = content_owned db"
  "current_inputs (db\<lparr>db_memberships := ms\<rparr>) = current_inputs db"
  "bootstrap_rows (db\<lparr>db_memberships := ms\<rparr>) = bootstrap_rows db"
  "content_tables (db\<lparr>db_memberships := ms\<rparr>) = content_tables db"
proof -
  have "binding_of_row (db\<lparr>db_memberships := ms\<rparr>) = binding_of_row db" by (rule ext) (simp add: binding_of_row_def domain_owner_def)
  then show "current_inputs (db\<lparr>db_memberships := ms\<rparr>) = current_inputs db"
    by (simp add: current_inputs_def load_document_roots_def load_host_bindings_def)
qed (simp_all add: routing_ok_def content_owned_def bootstrap_rows_def content_tables_def)

lemma domains_irrelevant [simp]:
  "content_owned (db\<lparr>db_domains := s\<rparr>) = content_owned db" "bootstrap_rows (db\<lparr>db_domains := s\<rparr>) = bootstrap_rows db"
  "content_tables (db\<lparr>db_domains := s\<rparr>) = content_tables db"
  by (simp_all add: content_owned_def bootstrap_rows_def content_tables_def)

definition kept :: "db \<Rightarrow> db \<Rightarrow> bool" where
  "kept db d \<longleftrightarrow> (content_owned db \<longrightarrow> content_owned d) \<and> bootstrap_rows d = bootstrap_rows db \<and> content_tables d = content_tables db"

lemma kept_created:
  assumes "validate_tenant_key key = Inr ()" "create_organization db now key name droot = (Inr g, d)"
  shows "kept db d"
proof -
  have "\<not> is_seeded \<lparr>o_id = i, o_key = key, o_name = name, o_document_root = droot, o_created_at = now\<rparr>" for i
    using validate_key_reserved [OF assms(1)] by (simp add: is_seeded_def)
  then show ?thesis
    unfolding create_organization_shape(1) [OF assms(2)]
    by (auto simp: kept_def content_owned_def bootstrap_rows_def content_tables_def Let_def)
qed

lemma kept_updated:
  assumes "load_organization db key = Some g" "\<not> is_seeded g" "update_organization db key name droot = (Inr True, d)"
  shows "kept db d"
proof -
  let ?s = "set_display key name droot (db_organizations db)"
  have d: "d = db\<lparr>db_organizations := ?s\<rparr>" using assms(3) by (simp add: update_organization_def)
  have "map o_id (rows ?s) = map o_id (rows (db_organizations db))" by (simp add: set_display_def)
  then have ids: "o_id ` set (rows ?s) = o_id ` set (rows (db_organizations db))" by (metis list.set_map)
  have "filter is_seeded (rows ?s) = filter is_seeded (rows (db_organizations db))"
    unfolding set_display_def
    by (rule filter_update_rows) (use assms(2) load_organization_row [OF assms(1)] in \<open>auto simp: is_seeded_def\<close>)
  with ids show ?thesis by (simp add: d kept_def content_owned_def bootstrap_rows_def content_tables_def)
qed

lemma delete_organization_shape:
  assumes "load_organization db key = Some g" "delete_organization db key = (Inr True, d)"
  shows "rows (db_organizations d) = filter (\<lambda>k. o_id k \<noteq> o_id g) (rows (db_organizations db))" "content_tables d = content_tables db"
  using assms(2) load_organization_row [OF assms(1)] by (auto simp: delete_organization_def content_tables_def)

lemma kept_deleted:
  assumes "routing_ok db" "load_organization db key = Some g" "\<not> is_seeded g" "count_content db key = Inr counts" "content_counts_is_empty counts"
    "delete_organization db key = (Inr True, d)"
  shows "kept db d"
proof -
  note g = load_organization_row [OF assms(2)] and sh = delete_organization_shape [OF assms(2,6)]
  have scope: "org_scope db key i \<longleftrightarrow> i = o_id g" for i using g by (auto simp: org_scope_def)
  have none: "\<forall>p \<in> set (rows (db_pages db)). p_organization p \<noteq> o_id g" "\<forall>m \<in> set (rows (db_menus db)). mn_organization m \<noteq> o_id g"
    "\<forall>m \<in> set (rows (db_media db)). md_organization m \<noteq> o_id g"
    using assms(4,5) by (auto simp: count_content_def content_counts_is_empty_def count_rows_0 scope)
  have "k = g" if "k \<in> set (rows (db_organizations db))" "o_id k = o_id g" for k
    using store_ok_inj [OF routing_okD(1) [OF assms(1)] that(1)] g that(2) by blast
  then have boot: "bootstrap_rows d = bootstrap_rows db"
    unfolding bootstrap_rows_def sh(1) using assms(3) by (auto intro!: filter_cong)
  have "o_id ` set (rows (db_organizations d)) = o_id ` set (rows (db_organizations db)) - {o_id g}"
    unfolding sh(1) by auto
  with none boot sh(2) show ?thesis by (auto simp: kept_def content_owned_def content_tables_def)
qed

lemma change_kept:
  assumes "routing_ok (ho_db h)" "tenant_change sc now h h'"
  shows "kept (ho_db h) (ho_db h')"
  using assms(2)
proof cases
  case (mapped key g host d)
  then show ?thesis by (auto simp: kept_def add_domain_def split: if_splits)
next
  case (unmapped key g host d)
  then show ?thesis by (auto simp: kept_def remove_domain_def Let_def)
next
  case (granted key g name u role d)
  then show ?thesis by (auto simp: kept_def upsert_member_def split: sum.splits)
next
  case (withdrawn key g i b d)
  then show ?thesis by (auto simp: kept_def remove_member_def)
qed (use assms(1) in \<open>auto intro: kept_created kept_updated kept_deleted\<close>)

lemma change_routing:
  assumes "routing_ok (ho_db h)" "tenant_change sc now h h'"
  shows "routing_ok (ho_db h')"
  using assms(2)
proof cases
  case (created key name droot g d)
  then show ?thesis using routing_ok_create [OF assms(1), of now key name droot] by simp
next
  case (updated key g droot name d)
  then show ?thesis using routing_ok_update_organization [OF assms(1), of key name droot] by simp
next
  case (deleted key g counts d)
  then show ?thesis using routing_ok_delete_organization [OF assms(1), of key] by simp
next
  case (mapped key g host d)
  then show ?thesis using routing_ok_add_domain [OF assms(1), of "o_id g" now host] load_organization_row [of "ho_db h" key g] by auto
next
  case (unmapped key g host d)
  then show ?thesis using routing_ok_remove_domain [OF assms(1), of "o_id g" host] by simp
next
  case (granted key g name u role d)
  then show ?thesis using assms(1) by (auto simp: upsert_member_def split: sum.splits)
next
  case (withdrawn key g i b d)
  then show ?thesis using assms(1) by (auto simp: remove_member_def)
qed

lemma change_live:
  assumes "routing_ok (ho_db h)" "live_snapshot sc h" "tenant_change sc now h h'"
  shows "live_snapshot sc h'"
  using assms(3)
proof cases
  case (created key name droot g d)
  with assms(2) create_organization_live [OF assms(1) created(2,3)] show ?thesis by (simp add: live_snapshot_def)
next
  case (granted key g name u role d)
  with assms(2) show ?thesis by (auto simp: live_snapshot_def upsert_member_def split: sum.splits)
next
  case (withdrawn key g i b d)
  with assms(2) show ?thesis by (auto simp: live_snapshot_def remove_member_def)
qed (simp_all add: refresh_live)

definition tenant_calls :: "panel \<Rightarrow> serving \<Rightarrow> (request \<times> tenant_call) list \<Rightarrow> hosting \<Rightarrow> hosting" where
  "tenant_calls pn sc calls h = foldl (\<lambda>h c. snd (tenant_call pn sc (fst c) (snd c) h)) h calls"

lemma tenant_call_keeps:
  assumes "hosting_ok sc h"
  shows "hosting_ok sc (snd (tenant_call pn sc rq call h)) \<and> kept (ho_db h) (ho_db (snd (tenant_call pn sc rq call h)))"
proof -
  consider "snd (tenant_call pn sc rq call h) = h" | "tenant_change sc (rq_now rq) h (snd (tenant_call pn sc rq call h))"
    using tenant_call_outcome [of sc rq h pn call] by (auto simp: outcome_ok_def)
  then show ?thesis
  proof cases
    case 2
    with assms change_kept [OF _ 2] change_routing [OF _ 2] change_live [OF _ _ 2] show ?thesis by (auto simp: hosting_ok_def kept_def)
  qed (use assms in \<open>simp add: kept_def\<close>)
qed

text \<open>
  C19: Whatever is called on the tenant and team pages: keys and host names stay unique, every host name
  leads to an existing organization, and the snapshot the server routes by is the one the tables give;
  no content is changed and none loses its organization; and the rows of the two bootstrap
  organizations, which follow the configuration, stay as they are.
\<close>

theorem tenant_pages_invariant:
  assumes "hosting_ok sc h"
  shows "hosting_ok sc (tenant_calls pn sc calls h) \<and>
    content_tables (ho_db (tenant_calls pn sc calls h)) = content_tables (ho_db h) \<and>
    bootstrap_rows (ho_db (tenant_calls pn sc calls h)) = bootstrap_rows (ho_db h)"
  using assms
proof (induction calls arbitrary: h)
  case (Cons c calls)
  let ?h = "snd (tenant_call pn sc (fst c) (snd c) h)"
  have k: "hosting_ok sc ?h" "kept (ho_db h) (ho_db ?h)" using tenant_call_keeps [OF Cons.prems] by simp_all
  have "tenant_calls pn sc (c # calls) h = tenant_calls pn sc calls ?h" by (simp add: tenant_calls_def)
  with Cons.IH [OF k(1)] k(2) show ?case by (simp add: kept_def)
qed (simp add: tenant_calls_def)

text \<open>The shop is deleted while it has no content; a rejected creation after it changes nothing.\<close>

definition shop_hosting :: hosting where
  "shop_hosting = \<lparr>ho_db = cms_and_shop, ho_snapshot = refreshed_snapshot small_serving (current_inputs cms_and_shop)\<rparr>"

lemma shop_hosting_ok: "hosting_ok small_serving shop_hosting"
  by (simp add: hosting_ok_def shop_hosting_def cms_and_shop_ok live_snapshot_def)
    (simp add: content_owned_def cms_and_shop_def empty_db_def empty_store_def)

lemma tenant_pages_invariant_witness:
  "\<forall>pn rq. hosting_ok small_serving (tenant_calls pn small_serving [(rq, Delete_Tenant ''shop''), (rq, Create_Tenant (Inl ''no body''))] shop_hosting) \<and>
    map o_key (bootstrap_rows (ho_db (tenant_calls pn small_serving [(rq, Delete_Tenant ''shop''), (rq, Create_Tenant (Inl ''no body''))] shop_hosting))) = [''cms'']"
proof -
  have "map o_key (bootstrap_rows (ho_db shop_hosting)) = [''cms'']"
    by (simp add: shop_hosting_def bootstrap_rows_def cms_and_shop_def sample_organization_def is_seeded_def main_organization_key_def cms_organization_key_def)
  then show ?thesis using tenant_pages_invariant [OF shop_hosting_ok] by simp
qed

text \<open>
  The host check refuses a blank and a tab, not the other white space the loader of the table trims:
  such a name is stored beside the name it is read back as.
\<close>

lemma stored_name_is_not_the_read_name:
  "normalize_hostname (''a.b'' @ [CHR 0x0B] @ ''.'') = ''a.b'' @ [CHR 0x0B]"
  "validate_hostname (''a.b'' @ [CHR 0x0B]) = Inr ()"
  "normalize_hostname (''a.b'' @ [CHR 0x0B]) = ''a.b''"
proof -
  have "trim (''a.b'' @ [CHR 0x0B] @ ''.'') = ''a.b'' @ [CHR 0x0B] @ ''.''" by (rule trim_graphic) (simp_all add: graphic_def code_def)
  then show "normalize_hostname (''a.b'' @ [CHR 0x0B] @ ''.'') = ''a.b'' @ [CHR 0x0B]"
    by (simp add: normalize_hostname_def strip_suffix_def starts_with_def ends_with_def lowercase_def to_lower_def is_upper_def code_def)
  show "validate_hostname (''a.b'' @ [CHR 0x0B]) = Inr ()"
    by (simp add: validate_hostname_def check_def host_forbidden_def starts_with_def ends_with_def contains_str_def and_then_def)
  have "trim (''a.b'' @ [CHR 0x0B]) = ''a.b''"
    by (simp add: trim_def trim_start_def trim_end_def trim_start_by.simps ws_len_def ws_len_rev_def head_len_def white_space_def starts_with_def)
  then show "normalize_hostname (''a.b'' @ [CHR 0x0B]) = ''a.b''"
    by (simp add: normalize_hostname_def strip_suffix_def starts_with_def ends_with_def lowercase_def to_lower_def is_upper_def code_def)
qed

end
