(* ===== verification/Panel_Users.thy ===== *)
theory Panel_Users
  imports Tenants
begin

text \<open>
  The accounts in the panel, \<open>src/src/routes/cms.rs\<close>: listing, creation, role changes with the optional
  password reset, deletion, and the change of one's own password; with the listing of
  \<open>src/src/routes/admin.rs\<close>. The handlers run behind the administrator's guard.
\<close>

section \<open>Forms and views\<close>

record user_form =
  uf_role :: string
  uf_password :: string

record new_user_form =
  nuf_username :: string
  nuf_password :: string
  nuf_role :: string

record password_form =
  pwf_current :: string
  pwf_new :: string
  pwf_redirect :: "string option"

definition no_auth :: reply where
  "no_auth = Failed (InternalError ''authentication is not initialized'')"

definition user_form_data :: "int option \<Rightarrow> string \<Rightarrow> string \<Rightarrow> json" where
  "user_form_data i username role =
     J_Obj [(''id'', j_opt J_Int i), (''username'', J_Str username), (''role'', J_Str role), (''is_new'', J_Bool (i = None))]"

definition render_user_error :: "int option \<Rightarrow> string \<Rightarrow> string \<Rightarrow> string \<Rightarrow> reply" where
  "render_user_error i username role e =
     render_view ''admin/user_form.jhs'' [(''form'', user_form_data i username role), (''form_error'', J_Str e)]"

definition load_user :: "panel \<Rightarrow> db \<Rightarrow> int \<Rightarrow> user option" where
  "load_user pn db i =
     (if sv_auth (pn_server pn) = None then None
      else (case find_user_by_id db i of Inr u \<Rightarrow> u | Inl _ \<Rightarrow> None))"

section \<open>Listing\<close>

definition list_users_route :: "panel \<Rightarrow> db \<Rightarrow> reply \<times> db" where
  "list_users_route pn db =
     (if sv_auth (pn_server pn) = None then (no_auth, db)
      else (case list_users db max_listed of
         Inl _ \<Rightarrow> (storage_failure, db)
       | Inr users \<Rightarrow>
           (render_view ''admin/users.jhs''
              [(''admin_users'', J_Arr (map (\<lambda>u. J_Obj [(''id'', J_Int (u_id u)), (''username'', J_Str (u_username u)),
                  (''role'', J_Str (role_as_str (u_role u))), (''created_at_h'', J_Str (format_timestamp (u_created_at u))),
                  (''last_login_at_h'', j_opt (\<lambda>t. J_Str (format_timestamp t)) (u_last_login_at u))]) users)),
               (''form_error'', J_Null)], db)))"

definition max_listed_users :: int where "max_listed_users = 100"

text \<open>\<open>GET /api/admin/users\<close>: the accounts, newest first, with their number.\<close>

definition api_list_users :: "server \<Rightarrow> db \<Rightarrow> (app_error, public_user list \<times> int) result" where
  "api_list_users sv db =
     (if sv_auth sv = None then Inl (InternalError ''authentication is not initialized'')
      else and_then (try_repo (list_users db max_listed_users)) (\<lambda>users.
           and_then (try_repo (count_users db)) (\<lambda>n. Inr (map public users, n))))"

definition new_user_form_route :: "db \<Rightarrow> reply \<times> db" where
  "new_user_form_route db =
     (render_view ''admin/user_form.jhs'' [(''form'', user_form_data None [] ''user''), (''form_error'', J_Null)], db)"

definition edit_user_form_route :: "panel \<Rightarrow> int \<Rightarrow> db \<Rightarrow> reply \<times> db" where
  "edit_user_form_route pn i db =
     (case load_user pn db i of
        None \<Rightarrow> (See_Other ''/admin/users'', db)
      | Some u \<Rightarrow>
          (render_view ''admin/user_form.jhs''
             [(''form'', user_form_data (Some (u_id u)) (u_username u) (role_as_str (u_role u))), (''form_error'', J_Null)], db))"

section \<open>Changes\<close>

definition create_user_route :: "panel \<Rightarrow> request \<Rightarrow> (string, new_user_form) result \<Rightarrow> db \<Rightarrow> reply \<times> db" where
  "create_user_route pn rq input db =
     (case sv_auth (pn_server pn) of
        None \<Rightarrow> (no_auth, db)
      | Some auth \<Rightarrow>
     (case input of
        Inl message \<Rightarrow> (render_user_error None [] ''user'' message, db)
      | Inr f \<Rightarrow>
     (let reject = render_user_error None (nuf_username f) (nuf_role f) in
      case and_then (validate_username (nuf_username f)) (\<lambda>_. validate_password (nuf_password f) (ax_min_password_len auth)) of
        Inl e \<Rightarrow> (reject e, db)
      | Inr _ \<Rightarrow>
     (case role_parse (nuf_role f) of
        None \<Rightarrow> (render_user_error None (nuf_username f) ''user'' ''Rol desconocido.'', db)
      | Some role \<Rightarrow>
     (case hash_password (sv_crypto (pn_server pn)) (rq_salt rq) (nuf_password f) of
        None \<Rightarrow> (reject ''No se pudo crear (error interno).'', db)
      | Some hash \<Rightarrow>
     (case create_user db (rq_now rq) (nuf_username f) hash role of
        (Inr _, d) \<Rightarrow> (See_Other ''/admin/users?ok=created'', d)
      | (Inl Duplicate, d) \<Rightarrow> (reject ''That username is already taken.'', d)
      | (Inl (Internal _), d) \<Rightarrow> (reject ''No se pudo crear (error interno).'', d)))))))"

text \<open>The optional password of an edit: none, its hash, or the reason it is refused.\<close>

definition reset_hash :: "panel \<Rightarrow> auth_context \<Rightarrow> request \<Rightarrow> string \<Rightarrow> (string, string option) result" where
  "reset_hash pn auth rq password =
     (if password = [] then Inr None
      else and_then (validate_password password (ax_min_password_len auth)) (\<lambda>_.
        case hash_password (sv_crypto (pn_server pn)) (rq_salt rq) password of
          None \<Rightarrow> Inl ''The password could not be saved (internal error).''
        | Some hash \<Rightarrow> Inr (Some hash)))"

text \<open>The guard against the loss of the last administrator of the platform.\<close>

definition last_admin :: "db \<Rightarrow> bool repo" where
  "last_admin db = and_then (count_with_role db Admin) (\<lambda>n. Inr (n \<le> 1))"

definition update_user_route :: "panel \<Rightarrow> request \<Rightarrow> int \<Rightarrow> (string, user_form) result \<Rightarrow> member \<Rightarrow> db \<Rightarrow> reply \<times> db" where
  "update_user_route pn rq i input m db =
     (case sv_auth (pn_server pn) of
        None \<Rightarrow> (no_auth, db)
      | Some auth \<Rightarrow>
     (case input of
        Inl message \<Rightarrow> (render_user_error (Some i) [] ''user'' message, db)
      | Inr f \<Rightarrow>
     (case load_user pn db i of
        None \<Rightarrow> (See_Other ''/admin/users'', db)
      | Some u \<Rightarrow>
     (let reject = render_user_error (Some i) (u_username u) (uf_role f) in
      if u_id u = au_user_id (mb_user m)
      then (reject ''You cannot edit your own account here: use the profile page.'', db)
      else (case role_parse (uf_role f) of
        None \<Rightarrow> (render_user_error (Some i) (u_username u) ''user'' ''Rol desconocido.'', db)
      | Some role \<Rightarrow>
     (case reset_hash pn auth rq (uf_password f) of
        Inl e \<Rightarrow> (reject e, db)
      | Inr reset \<Rightarrow>
     (case if u_role u = Admin \<and> role \<noteq> Admin then last_admin db else Inr False of
        Inl _ \<Rightarrow> (storage_failure, db)
      | Inr True \<Rightarrow> (reject ''This is the last administrator: the role cannot be removed.'', db)
      | Inr False \<Rightarrow>
     (case update_role db (rq_now rq) i role of
        (Inl _, d) \<Rightarrow> (reject ''Could not save (internal error).'', d)
      | (Inr _, d) \<Rightarrow>
     (case reset of
        None \<Rightarrow> (See_Other ''/admin/users?ok=saved'', d)
      | Some hash \<Rightarrow>
     (case update_password d i hash of
        (Inl _, d') \<Rightarrow> (reject ''Could not save (internal error).'', d')
      | (Inr _, d') \<Rightarrow> (See_Other ''/admin/users?ok=saved'', d')))))))))))"

definition delete_user_route :: "panel \<Rightarrow> int \<Rightarrow> member \<Rightarrow> db \<Rightarrow> reply \<times> db" where
  "delete_user_route pn i m db =
     (if sv_auth (pn_server pn) = None then (no_auth, db)
      else
     (case load_user pn db i of
        None \<Rightarrow> (See_Other ''/admin/users'', db)
      | Some u \<Rightarrow>
     if u_id u = au_user_id (mb_user m) then (See_Other ''/admin/users?error=propia'', db)
     else
     (case if u_role u = Admin then last_admin db else Inr False of
        Inl _ \<Rightarrow> (storage_failure, db)
      | Inr True \<Rightarrow> (See_Other ''/admin/users?error=ultimo-admin'', db)
      | Inr False \<Rightarrow>
     with_cms pn db (\<lambda>_.
       case solo_administrated_orgs db i of
         Inl _ \<Rightarrow> (storage_failure, db)
       | Inr (g # _) \<Rightarrow> (See_Other (''/admin/users?error=solo-tenant-admin&tenant='' @ g), db)
       | Inr [] \<Rightarrow>
           (case delete_user db i of
              (Inr _, d) \<Rightarrow> (See_Other ''/admin/users?ok=deleted'', d)
            | (Inl _, d) \<Rightarrow> (storage_failure, d))))))"

section \<open>One's own password\<close>

definition local_redirect :: "string option \<Rightarrow> string" where
  "local_redirect target = (case target of Some path \<Rightarrow> if is_local_redirect path then path else ''/profile'' | None \<Rightarrow> ''/profile'')"

definition with_query :: "string \<Rightarrow> string \<Rightarrow> string" where
  "with_query redirect pair = redirect @ (if CHR ''?'' \<in> set redirect then ''&'' else ''?'') @ pair"

definition password_error :: "string \<Rightarrow> string \<Rightarrow> reply" where
  "password_error redirect err = See_Other (with_query redirect (''pw_error='' @ err))"

definition change_password :: "panel \<Rightarrow> request \<Rightarrow> (string, password_form) result \<Rightarrow> auth_user \<Rightarrow> db \<Rightarrow> reply \<times> db" where
  "change_password pn rq input u db =
     (case sv_auth (pn_server pn) of
        None \<Rightarrow> (no_auth, db)
      | Some auth \<Rightarrow>
     (case input of
        Inl _ \<Rightarrow> (password_error ''/profile'' ''form'', db)
      | Inr f \<Rightarrow>
     (let redirect = local_redirect (pwf_redirect f) in
      case find_user_by_id db (au_user_id u) of
        Inl _ \<Rightarrow> (password_error redirect ''session'', db)
      | Inr None \<Rightarrow> (password_error redirect ''session'', db)
      | Inr (Some account) \<Rightarrow>
     if \<not> verify_password (sv_crypto (pn_server pn)) (pwf_current f) (u_password_hash account)
     then (password_error redirect ''current'', db)
     else if validate_password (pwf_new f) (ax_min_password_len auth) \<noteq> Inr () then (password_error redirect ''new'', db)
     else
     (case hash_password (sv_crypto (pn_server pn)) (rq_salt rq) (pwf_new f) of
        None \<Rightarrow> (password_error redirect ''error'', db)
      | Some hash \<Rightarrow>
     (case update_password db (au_user_id u) hash of
        (Inl _, d) \<Rightarrow> (password_error redirect ''error'', d)
      | (Inr _, d) \<Rightarrow> (See_Other (with_query redirect ''ok=password''), d))))))"

text \<open>The route of an earlier spelling sends the same request on.\<close>

definition legacy_password_redirect :: reply where
  "legacy_password_redirect = Redirected ''/profile/password'' 307"

section \<open>Administrators\<close>

definition admins :: "db \<Rightarrow> int \<Rightarrow> int set" where
  "admins db org = {u. stored_membership db u org = Some ''admin''}"

definition members_ok :: "db \<Rightarrow> bool" where
  "members_ok db \<longleftrightarrow> accounts_ok db \<and> (\<forall>m \<in> set (db_memberships db). user_exists db (m_user m))"

lemma stored_iff:
  assumes "memberships_ok db"
  shows "stored_membership db u org = Some role \<longleftrightarrow> (\<exists>m \<in> set (db_memberships db). is_membership u org m \<and> m_role m = role)"
proof
  assume "stored_membership db u org = Some role"
  then show "\<exists>m \<in> set (db_memberships db). is_membership u org m \<and> m_role m = role"
    by (auto simp: stored_membership_def dest: find_SomeD)
next
  assume "\<exists>m \<in> set (db_memberships db). is_membership u org m \<and> m_role m = role"
  then obtain m where m: "m \<in> set (db_memberships db)" "is_membership u org m" "m_role m = role" by blast
  then obtain k where k: "find (is_membership u org) (db_memberships db) = Some k"
    by (cases "find (is_membership u org) (db_memberships db)") (auto simp: find_None_iff)
  have "k \<in> set (db_memberships db)" "membership_key k = membership_key m"
    using find_SomeD [OF k] m(2) by (simp_all add: is_membership_key)
  with m(1) assms have "k = m" unfolding memberships_ok_def distinct_map by (metis inj_onD)
  with k m show "stored_membership db u org = Some role" by (simp add: stored_membership_def)
qed

lemma admin_count_card:
  assumes "memberships_ok db"
  shows "admin_count db org = card (admins db org)"
proof -
  let ?ms = "filter (\<lambda>m. m_organization m = org \<and> m_role m = ''admin'') (db_memberships db)"
  have inj: "inj_on membership_key (set (db_memberships db))" and d: "distinct (db_memberships db)"
    using assms by (simp_all add: memberships_ok_def distinct_map)
  have "inj_on m_user (set ?ms)"
  proof (rule inj_onI)
    fix a b assume a: "a \<in> set ?ms" and b: "b \<in> set ?ms" and u: "m_user a = m_user b"
    then have "membership_key a = membership_key b" by (simp add: membership_key_def)
    with inj_onD [OF inj this] a b show "a = b" by simp
  qed
  with d have "distinct (map m_user ?ms)" by (simp add: distinct_map)
  from distinct_card [OF this] have "admin_count db org = card (m_user ` set ?ms)" by (simp add: admin_count_def)
  also have "m_user ` set ?ms = admins db org"
    unfolding admins_def stored_iff [OF assms] by (fastforce simp: is_membership_def image_iff)
  finally show ?thesis .
qed

lemma sole_admin:
  assumes "memberships_ok db"
  shows "(\<exists>m \<in> set (db_memberships db). is_membership u org m \<and> m_role m = ''admin'') \<and> admin_count db org = 1 \<longleftrightarrow> admins db org = {u}"
proof -
  have "(\<exists>m \<in> set (db_memberships db). is_membership u org m \<and> m_role m = ''admin'') \<longleftrightarrow> u \<in> admins db org"
    by (simp add: admins_def stored_iff [OF assms])
  moreover have "admin_count db org = 1 \<longleftrightarrow> (\<exists>v. admins db org = {v})"
    using admin_count_card [OF assms] by (simp add: card_1_singleton_iff)
  ultimately show ?thesis by auto
qed

lemma role_parse_Admin: "role_parse s = Some Admin \<longleftrightarrow> s = ''admin''"
  by (auto simp: role_parse_def)

lemma length_filter_order [simp]: "length (filter P (order_asc f xs)) = length (filter P xs)"
  by (metis mset_filter mset_order_asc size_mset)

lemma admin_rows: "length (filter (\<lambda>m. mr_role m = Admin) (List.map_filter member_of_row xs)) = length (filter (\<lambda>mr. m_role (fst mr) = ''admin'') xs)"
proof (induction xs)
  case (Cons x xs)
  have "member_of_row x = None \<Longrightarrow> m_role (fst x) \<noteq> ''admin''" "member_of_row x = Some y \<Longrightarrow> mr_role y = Admin \<longleftrightarrow> m_role (fst x) = ''admin''" for y
    using role_parse_Admin [of "m_role (fst x)"] by (auto simp: member_of_row_def)
  with Cons show ?case by (cases "member_of_row x") (simp_all add: map_filter_simps)
qed (simp add: map_filter_simps)

lemma list_ex_map_filter: "list_ex P (List.map_filter f xs) \<longleftrightarrow> (\<exists>x \<in> set xs. \<exists>y. f x = Some y \<and> P y)"
  by (induction xs) (auto simp: map_filter_simps split: option.split)

lemma member_join_total:
  assumes "members_ok db"
  shows "map fst (member_join db org) = filter (\<lambda>m. m_organization m = org) (db_memberships db)"
proof -
  have "\<exists>r. select_row (\<lambda>r. ur_id r = m_user m) (db_users db) = Some r" if "m \<in> set (db_memberships db)" for m
    using assms that by (auto simp: members_ok_def user_exists_def)
  then have "map fst (List.map_filter (\<lambda>m. map_option (Pair m) (select_row (\<lambda>r. ur_id r = m_user m) (db_users db))) ms) = ms"
    if "set ms \<subseteq> set (db_memberships db)" for ms
    using that by (induction ms) (auto simp: map_filter_simps split: option.split)
  then show ?thesis unfolding member_join_def by (metis (no_types, lifting) filter_is_subset)
qed

text \<open>The guard of the code is the question it means to ask.\<close>

lemma solo_administrator_iff:
  assumes "members_ok db"
  shows "solo_administrator db org u = Inr (admins db org = {u})"
proof -
  let ?L = "order_asc (\<lambda>mr. lowercase (ur_username (snd mr))) (member_join db org)"
  let ?ms = "List.map_filter member_of_row ?L"
  have ok: "memberships_ok db" using assms by (simp add: members_ok_def accounts_ok_def)
  have "length (filter (\<lambda>m. mr_role m = Admin) ?ms) = length (filter (\<lambda>m. m_role m = ''admin'') (map fst (member_join db org)))"
    by (simp add: admin_rows filter_map comp_def)
  also have "\<dots> = admin_count db org" by (simp add: member_join_total [OF assms] admin_count_def conj_commute)
  finally have count: "length (filter (\<lambda>m. mr_role m = Admin) ?ms) = admin_count db org" .
  have row: "(\<exists>y. member_of_row x = Some y \<and> mr_user y = u \<and> mr_role y = Admin) \<longleftrightarrow> m_user (fst x) = u \<and> m_role (fst x) = ''admin''" for x
    by (cases "role_parse (m_role (fst x))") (auto simp: member_of_row_def simp flip: role_parse_Admin)
  have "list_ex (\<lambda>m. mr_user m = u \<and> mr_role m = Admin) ?ms \<longleftrightarrow> (\<exists>m \<in> set (map fst (member_join db org)). m_user m = u \<and> m_role m = ''admin'')"
    by (simp only: list_ex_map_filter set_order_asc row) simp
  also have "\<dots> \<longleftrightarrow> (\<exists>m \<in> set (db_memberships db). is_membership u org m \<and> m_role m = ''admin'')"
    unfolding member_join_total [OF assms] by (auto simp: is_membership_def)
  finally show ?thesis using count sole_admin [OF ok, of u org] by (simp add: solo_administrator_def members_def)
qed

lemma solo_administrated_none:
  assumes "memberships_ok db" "solo_administrated_orgs db u = Inr []" "org \<in> o_id ` set (rows (db_organizations db))"
  shows "admins db org \<noteq> {u}"
proof -
  from assms(3) obtain g where g: "g \<in> set (rows (db_organizations db))" "o_id g = org" by auto
  from assms(2) have "order_asc o_key (select_rows (\<lambda>g. (\<exists>m \<in> set (db_memberships db). is_membership u (o_id g) m \<and> m_role m = ''admin'') \<and>
      admin_count db (o_id g) = 1) (db_organizations db)) = []"
    by (simp add: solo_administrated_orgs_def)
  then have "\<not> ((\<exists>m \<in> set (db_memberships db). is_membership u org m \<and> m_role m = ''admin'') \<and> admin_count db org = 1)"
    using g by (auto simp: select_rows_def filter_empty_conv)
  then show ?thesis unfolding sole_admin [OF assms(1)] .
qed

section \<open>The law of the last administrator\<close>

text \<open>
  The organization has an administrator, while it exists. Ids are not given twice, so an id that is gone
  stays gone.
\<close>

definition org_ids :: "db \<Rightarrow> int set" where
  "org_ids db = o_id ` set (rows (db_organizations db))"

definition led :: "db \<Rightarrow> int \<Rightarrow> bool" where
  "led db org \<longleftrightarrow> org \<le> last_id (db_organizations db) \<and> (org \<in> org_ids db \<longrightarrow> admins db org \<noteq> {})"

definition platform_admins :: "db \<Rightarrow> nat" where
  "platform_admins db = count_rows (\<lambda>r. ur_role r = ''admin'') (db_users db)"

lemma admins_memberships: "admins (db\<lparr>db_memberships := ms\<rparr>) org = {u. map_option m_role (find (is_membership u org) ms) = Some ''admin''}"
  by (simp add: admins_def stored_membership_def)

lemma admins_same: "db_memberships d = db_memberships db \<Longrightarrow> admins d org = admins db org"
  by (simp add: admins_def stored_membership_def)

lemma admins_upsert:
  assumes "upsert_membership u k role now (db_memberships db) = Inr ms"
  shows "admins (db\<lparr>db_memberships := ms\<rparr>) org =
    (if org \<noteq> k then admins db org else if role = ''admin'' then insert u (admins db org) else admins db org - {u})"
  unfolding admins_memberships find_upsert_membership [OF assms] by (auto simp: admins_def stored_membership_def)

lemma admins_remove:
  "admins (db\<lparr>db_memberships := filter (\<lambda>m. \<not> is_membership u k m) (db_memberships db)\<rparr>) org =
    (if org \<noteq> k then admins db org else admins db org - {u})"
  unfolding admins_memberships find_filter_membership by (auto simp: admins_def stored_membership_def)

lemma admins_filter:
  "admins (db\<lparr>db_memberships := filter (\<lambda>m. Q (m_user m) (m_organization m)) (db_memberships db)\<rparr>) org = {u \<in> admins db org. Q u org}"
  unfolding admins_memberships find_filter_key by (auto simp: admins_def stored_membership_def)

lemma others_lead: "A \<noteq> {} \<Longrightarrow> A \<noteq> {u} \<Longrightarrow> A - {u} \<noteq> {}"
  by auto

subsection \<open>The tenant pages\<close>

lemma members_ok_memberships:
  assumes "members_ok db" "distinct (map membership_key ms)" "\<forall>m \<in> set ms. m_role m \<in> {''admin'', ''editor''}"
    "\<forall>m \<in> set ms. user_exists db (m_user m)"
  shows "members_ok (db\<lparr>db_memberships := ms\<rparr>)"
  using assms by (simp add: members_ok_def accounts_ok_defs user_exists_def)

lemma members_ok_upsert:
  assumes "members_ok db" "user_exists db u" "upsert_membership u k role now (db_memberships db) = Inr ms"
  shows "members_ok (db\<lparr>db_memberships := ms\<rparr>)"
proof (rule members_ok_memberships [OF assms(1)])
  from assms(1) have ok: "distinct (map membership_key (db_memberships db))" "\<forall>m \<in> set (db_memberships db). m_role m \<in> {''admin'', ''editor''}"
    "\<forall>m \<in> set (db_memberships db). user_exists db (m_user m)"
    by (simp_all add: members_ok_def accounts_ok_defs)
  show "distinct (map membership_key ms)" "\<forall>m \<in> set ms. m_role m \<in> {''admin'', ''editor''}"
    using upsert_membership_keys [OF assms(3)] ok by blast+
  show "\<forall>m \<in> set ms. user_exists db (m_user m)"
    using assms(2,3) ok(3) by (auto simp: upsert_membership_def split: if_splits)
qed

lemma members_ok_filter:
  assumes "members_ok db"
  shows "members_ok (db\<lparr>db_memberships := filter P (db_memberships db)\<rparr>)"
  using assms by (intro members_ok_memberships) (auto simp: members_ok_def accounts_ok_defs distinct_map_filter)

lemma found_exists:
  assumes "find_user_by_username db name = Inr (Some u)"
  shows "user_exists db (u_id u)"
proof -
  from assms obtain r where "select_row (\<lambda>r. eq_ignore_case (ur_username r) name) (db_users db) = Some r" "user_of_row r = Inr u"
    by (auto simp: find_user_by_username_def user_of_optional_def and_then_eq_Inr split: option.splits)
  then have "r \<in> set (rows (db_users db))" "ur_id r = u_id u"
    by (auto simp: user_of_row_def dest: select_row_Some split: option.splits)
  then show ?thesis unfolding user_exists_iff by (metis imageI)
qed

lemma law_domains [simp]:
  "members_ok (db\<lparr>db_domains := s\<rparr>) = members_ok db" "led (db\<lparr>db_domains := s\<rparr>) org = led db org"
  "platform_admins (db\<lparr>db_domains := s\<rparr>) = platform_admins db"
  by (simp_all add: members_ok_def accounts_ok_defs user_exists_def led_def org_ids_def platform_admins_def
      admins_def stored_membership_def)

lemma law_memberships:
  "platform_admins (db\<lparr>db_memberships := ms\<rparr>) = platform_admins db"
  "led (db\<lparr>db_memberships := ms\<rparr>) org \<longleftrightarrow> org \<le> last_id (db_organizations db) \<and> (org \<in> org_ids db \<longrightarrow> admins (db\<lparr>db_memberships := ms\<rparr>) org \<noteq> {})"
  by (simp_all add: platform_admins_def led_def org_ids_def)

lemma upsert_member_shape:
  assumes "upsert_member db now org u role = (Inr (), d)"
  obtains ms where "upsert_membership u org (role_as_str role) now (db_memberships db) = Inr ms" "d = db\<lparr>db_memberships := ms\<rparr>"
  using assms by (auto simp: upsert_member_def split: sum.splits)

text \<open>What one statement keeps: the tables in order, an administrator, and the platform's.\<close>

definition law_kept :: "int \<Rightarrow> db \<Rightarrow> db \<Rightarrow> bool" where
  "law_kept org db d \<longleftrightarrow> members_ok d \<and> led d org \<and> platform_admins d = platform_admins db"

lemma ledD: "led db org \<Longrightarrow> org \<le> last_id (db_organizations db)" "led db org \<Longrightarrow> org \<in> org_ids db \<Longrightarrow> admins db org \<noteq> {}"
  by (simp_all add: led_def)

lemma law_created:
  assumes "members_ok db" "led db org" "create_organization db now key name droot = (Inr g, d)"
  shows "law_kept org db d"
proof -
  note sh = create_organization_shape(1) [OF assms(3)]
  have "members_ok d"
    using assms(1) store_ok_insert [of o_id "db_organizations db"]
    by (simp add: sh members_ok_def accounts_ok_defs user_exists_def)
  moreover have "last_id (db_organizations db) + 1 \<noteq> org" using assms(2) by (simp add: led_def)
  moreover have "admins d org = admins db org" by (rule admins_same) (simp add: sh)
  ultimately show ?thesis using assms(2) by (auto simp: law_kept_def led_def org_ids_def platform_admins_def sh)
qed

lemma law_updated:
  assumes "members_ok db" "led db org" "update_organization db key name droot = (Inr True, d)"
  shows "law_kept org db d"
proof -
  let ?s = "set_display key name droot (db_organizations db)"
  have d: "d = db\<lparr>db_organizations := ?s\<rparr>" using assms(3) by (simp add: update_organization_def)
  have "map o_id (rows ?s) = map o_id (rows (db_organizations db))" by (simp add: set_display_def)
  then have "org_ids d = org_ids db" by (simp add: org_ids_def d) (metis list.set_map)
  moreover have "store_ok o_id ?s" unfolding set_display_def using assms(1) by (intro store_ok_update) (simp_all add: members_ok_def accounts_ok_def)
  moreover have "last_id ?s = last_id (db_organizations db)" by (simp add: set_display_def)
  moreover have "admins d org = admins db org" by (rule admins_same) (simp add: d)
  ultimately show ?thesis
    using assms(1,2) by (simp add: d law_kept_def led_def platform_admins_def members_ok_def accounts_ok_defs user_exists_def)
qed

lemma law_deleted:
  assumes "members_ok db" "led db org" "load_organization db key = Some g" "delete_organization db key = (Inr True, d)"
  shows "law_kept org db d"
proof -
  let ?ms = "filter (\<lambda>m. m_organization m \<noteq> o_id g) (db_memberships db)"
  have "org_id db key = Some (o_id g)" using load_organization_row [OF assms(3)] by simp
  then have d: "d = db\<lparr>db_domains := db_domains d, db_memberships := ?ms, db_organizations := delete_rows (\<lambda>k. o_id k = o_id g) (db_organizations db)\<rparr>"
    using assms(4) by (simp add: delete_organization_def) auto
  have "members_ok (db\<lparr>db_memberships := ?ms\<rparr>)" by (rule members_ok_filter [OF assms(1)])
  then have "members_ok d"
    by (subst d) (simp add: members_ok_def accounts_ok_defs user_exists_def store_ok_delete)
  moreover have "admins d org = admins (db\<lparr>db_memberships := ?ms\<rparr>) org" by (rule admins_same) (subst d, simp)
  moreover have "admins (db\<lparr>db_memberships := ?ms\<rparr>) org = {u \<in> admins db org. org \<noteq> o_id g}" by (rule admins_filter)
  moreover have "org_ids d = org_ids db - {o_id g}" by (subst d) (auto simp: org_ids_def)
  moreover have "last_id (db_organizations d) = last_id (db_organizations db)" "db_users d = db_users db" by (subst d, simp)+
  ultimately show ?thesis using assms(2) by (auto simp: law_kept_def led_def platform_admins_def)
qed

lemma law_granted:
  assumes "members_ok db" "led db org" "user_exists db u" "role = Admin \<or> admins db k \<noteq> {u}" "upsert_member db now k u role = (Inr (), d)"
  shows "law_kept org db d"
proof -
  obtain ms where ms: "upsert_membership u k (role_as_str role) now (db_memberships db) = Inr ms" "d = db\<lparr>db_memberships := ms\<rparr>"
    by (rule upsert_member_shape [OF assms(5)])
  have "org \<in> org_ids db \<Longrightarrow> admins d org \<noteq> {}"
    using ledD(2) [OF assms(2)] others_lead [of "admins db org" u] assms(4) unfolding ms(2) admins_upsert [OF ms(1)]
    by (auto simp: role_as_str_def)
  then show ?thesis
    using ledD(1) [OF assms(2)] members_ok_upsert [OF assms(1,3) ms(1)] unfolding law_kept_def ms(2) law_memberships by simp
qed

lemma law_withdrawn:
  assumes "members_ok db" "led db org" "admins db k \<noteq> {u}" "remove_member db k u = (Inr b, d)"
  shows "law_kept org db d"
proof -
  have d: "d = db\<lparr>db_memberships := filter (\<lambda>m. \<not> is_membership u k m) (db_memberships db)\<rparr>"
    using assms(4) by (simp add: remove_member_def)
  have "org \<in> org_ids db \<Longrightarrow> admins d org \<noteq> {}"
    using ledD(2) [OF assms(2)] others_lead [of "admins db org" u] assms(3) unfolding d admins_remove by auto
  then show ?thesis
    using ledD(1) [OF assms(2)] members_ok_filter [OF assms(1)] unfolding law_kept_def d law_memberships by simp
qed

lemma law_domains_kept: "members_ok db \<Longrightarrow> led db org \<Longrightarrow> law_kept org db (db\<lparr>db_domains := s\<rparr>)"
  by (simp add: law_kept_def)

text \<open>A change of the tenant pages keeps an administrator in every organization that keeps existing.\<close>

lemma change_law:
  assumes "members_ok (ho_db h)" "led (ho_db h) org" "tenant_change sc now h h'"
  shows "law_kept org (ho_db h) (ho_db h')"
  using assms(3)
proof cases
  case (mapped key g host d)
  then obtain s where "d = (ho_db h)\<lparr>db_domains := s\<rparr>" by (auto simp: add_domain_def split: if_splits)
  with mapped(1) law_domains_kept [OF assms(1,2)] show ?thesis by simp
next
  case (unmapped key g host d)
  then obtain s where "d = (ho_db h)\<lparr>db_domains := s\<rparr>" by (auto simp: remove_domain_def Let_def)
  with unmapped(1) law_domains_kept [OF assms(1,2)] show ?thesis by simp
next
  case (granted key g name u role d)
  then show ?thesis
    using law_granted [OF assms(1,2) found_exists [OF granted(3)]] by (simp add: solo_administrator_iff [OF assms(1)])
next
  case (withdrawn key g i b d)
  then show ?thesis using law_withdrawn [OF assms(1,2)] by (simp add: solo_administrator_iff [OF assms(1)])
qed (use law_created [OF assms(1,2)] law_updated [OF assms(1,2)] law_deleted [OF assms(1,2)] in auto)

subsection \<open>The account pages\<close>

datatype account_call =
    User_Create "(string, new_user_form) result"
  | User_Update int "(string, user_form) result" member
  | User_Delete int member
  | Password_Change "(string, password_form) result" auth_user

definition account_call :: "panel \<Rightarrow> request \<Rightarrow> account_call \<Rightarrow> db \<Rightarrow> reply \<times> db" where
  "account_call pn rq call db =
     (case call of
        User_Create input \<Rightarrow> create_user_route pn rq input db
      | User_Update i input m \<Rightarrow> update_user_route pn rq i input m db
      | User_Delete i m \<Rightarrow> delete_user_route pn i m db
      | Password_Change input u \<Rightarrow> change_password pn rq input u db)"

text \<open>An account is demoted or deleted only while another one administrates the platform.\<close>

definition not_last :: "db \<Rightarrow> user \<Rightarrow> bool" where
  "not_last db u \<longleftrightarrow> (u_role u = Admin \<longrightarrow> 1 < platform_admins db)"

inductive account_change :: "int \<Rightarrow> db \<Rightarrow> db \<Rightarrow> bool" for now db where
  user_created: "create_user db now name hash role = (Inr u, d) \<Longrightarrow> account_change now db d"
| role_changed: "find_user_by_id db i = Inr (Some u) \<Longrightarrow> role = Admin \<or> not_last db u \<Longrightarrow> account_change now db (snd (update_role db now i role))"
| user_reset: "find_user_by_id db i = Inr (Some u) \<Longrightarrow> role = Admin \<or> not_last db u \<Longrightarrow>
     account_change now db (snd (update_password (snd (update_role db now i role)) i hash))"
| user_deleted: "find_user_by_id db i = Inr (Some u) \<Longrightarrow> not_last db u \<Longrightarrow> solo_administrated_orgs db i = Inr [] \<Longrightarrow>
     account_change now db (snd (delete_user db i))"
| password_set: "account_change now db (snd (update_password db i hash))"

lemma last_admin_iff: "last_admin db = Inr (platform_admins db \<le> 1)"
  by (simp add: last_admin_def count_with_role_def role_as_str_def platform_admins_def)

lemma load_user_found: "load_user pn db i = Some u \<Longrightarrow> find_user_by_id db i = Inr (Some u)"
  by (auto simp: load_user_def split: if_splits sum.splits)

lemma create_user_refused: "create_user db now name hash role = (Inl e, d) \<Longrightarrow> d = db"
proof -
  have never: "sync_membership x t i r \<noteq> (Inl y, d')" for x t i r y d'
    using sync_membership_total [of x t i r] by auto
  show "create_user db now name hash role = (Inl e, d) \<Longrightarrow> d = db"
    by (auto simp: create_user_def never split: if_splits prod.splits sum.splits)
qed

lemma update_role_total: "update_role db now i role = (Inr (), snd (update_role db now i role))"
  using sync_membership_total [of "db\<lparr>db_users := update_rows (\<lambda>r. ur_id r = i) (\<lambda>r. r\<lparr>ur_role := role_as_str role\<rparr>) (db_users db)\<rparr>" now i role]
  by (simp add: update_role_def Let_def prod_eq_iff)

lemma update_password_total: "update_password db i hash = (Inr (), snd (update_password db i hash))"
  by (simp add: update_password_def)

lemma delete_user_total: "delete_user db i = (Inr (), snd (delete_user db i))"
  by (simp add: delete_user_def)

definition account_outcome :: "int \<Rightarrow> db \<Rightarrow> reply \<times> db \<Rightarrow> bool" where
  "account_outcome now db r \<longleftrightarrow> snd r = db \<or> account_change now db (snd r)"

lemma account_same [simp]: "account_outcome now db (r, db)"
  by (simp add: account_outcome_def)

lemma create_user_outcome: "account_outcome (rq_now rq) db (create_user_route pn rq input db)"
proof -
  have made: "account_outcome (rq_now rq) db (r, d)" if "create_user db (rq_now rq) name hash role = (x, d)" for r name hash role x d
    using that user_created [of db "rq_now rq" name hash role _ d] create_user_refused [of db "rq_now rq" name hash role _ d]
    by (cases x) (auto simp: account_outcome_def)
  show ?thesis
    unfolding create_user_route_def Let_def
    by (auto intro: made split: option.split sum.split prod.split repository_error.split)
qed

lemma update_user_outcome: "account_outcome (rq_now rq) db (update_user_route pn rq i input m db)"
proof (cases "\<exists>auth f u. sv_auth (pn_server pn) = Some auth \<and> input = Inr f \<and> load_user pn db i = Some u")
  case False
  then show ?thesis unfolding update_user_route_def by (auto split: option.split sum.split)
next
  case True
  then obtain auth f u where s: "sv_auth (pn_server pn) = Some auth" "input = Inr f" and u: "load_user pn db i = Some u" by blast
  have found: "find_user_by_id db i = Inr (Some u)" by (rule load_user_found [OF u])
  have changed: "account_outcome (rq_now rq) db (r, snd (update_role db (rq_now rq) i role))"
    "account_outcome (rq_now rq) db (r, snd (update_password (snd (update_role db (rq_now rq) i role)) i hash))"
    if "role = Admin \<or> not_last db u" for r role hash
    using role_changed [OF found that] user_reset [OF found that] by (simp_all add: account_outcome_def)
  have guard: "role = Admin \<or> not_last db u" if "(if u_role u = Admin \<and> role \<noteq> Admin then last_admin db else Inr False) = Inr False" for role
    using that by (auto simp: last_admin_iff not_last_def split: if_splits)
  show ?thesis
    unfolding update_user_route_def s u option.case sum.case Let_def
    by (subst update_role_total, subst update_password_total)
      (auto intro!: changed guard split: option.split sum.split bool.split)
qed

lemma delete_user_outcome: "account_outcome now db (delete_user_route pn i m db)"
proof (cases "load_user pn db i")
  case None
  then show ?thesis by (simp add: delete_user_route_def)
next
  case (Some u)
  have gone: "account_outcome now db (r, snd (delete_user db i))" if "not_last db u" "solo_administrated_orgs db i = Inr []" for r
    using user_deleted [OF load_user_found [OF Some] that] by (simp add: account_outcome_def)
  have guard: "not_last db u" if "(if u_role u = Admin then last_admin db else Inr False) = Inr False"
    using that by (auto simp: last_admin_iff not_last_def split: if_splits)
  show ?thesis
    unfolding delete_user_route_def Some option.case with_cms_def
    by (subst delete_user_total) (auto intro!: gone guard split: option.split sum.split bool.split list.split)
qed

lemma change_password_outcome: "account_outcome now db (change_password pn rq input u db)"
proof -
  have set: "account_outcome now db (r, snd (update_password db i hash))" for r i hash
    using password_set by (simp add: account_outcome_def)
  show ?thesis
    unfolding change_password_def Let_def
    by (subst update_password_total) (auto intro!: set split: option.split sum.split)
qed

lemma account_call_outcome: "account_outcome (rq_now rq) db (account_call pn rq call db)"
  by (cases call) (simp_all add: account_call_def create_user_outcome update_user_outcome delete_user_outcome change_password_outcome)

text \<open>What a change of the account pages keeps, for an organization other than the CMS one.\<close>

definition law_safe :: "int \<Rightarrow> db \<Rightarrow> db \<Rightarrow> bool" where
  "law_safe org db d \<longleftrightarrow> members_ok d \<and> led d org \<and> (1 \<le> platform_admins db \<longrightarrow> 1 \<le> platform_admins d) \<and>
     db_organizations d = db_organizations db \<and> db_domains d = db_domains db"

lemma sync_domains [simp]: "db_domains (snd (sync_membership db now u role)) = db_domains db"
  by (rule sync_membership_cases [of db now u role]; simp)

lemma admins_sync:
  assumes "org_id db cms_organization_key \<noteq> Some org"
  shows "admins (snd (sync_membership db now u role)) org = admins db org"
proof (rule sync_membership_cases [of db now u role])
  fix cms ms
  assume "org_id db cms_organization_key = Some cms" and up: "upsert_membership u cms (role_as_str role) now (db_memberships db) = Inr ms"
    and s: "sync_membership db now u role = (Inr (), db\<lparr>db_memberships := ms\<rparr>)"
  with assms show ?thesis unfolding s snd_conv admins_upsert [OF up] by auto
next
  fix cms
  assume "org_id db cms_organization_key = Some cms"
    and s: "sync_membership db now u role = (Inr (), db\<lparr>db_memberships := filter (\<lambda>m. \<not> is_membership u cms m) (db_memberships db)\<rparr>)"
  with assms show ?thesis unfolding s snd_conv admins_remove by auto
qed simp

lemma members_ok_sync:
  assumes "members_ok db" "user_exists db u"
  shows "members_ok (snd (sync_membership db now u role))"
proof (rule sync_membership_cases [of db now u role])
  fix cms ms
  assume up: "upsert_membership u cms (role_as_str role) now (db_memberships db) = Inr ms"
    and s: "sync_membership db now u role = (Inr (), db\<lparr>db_memberships := ms\<rparr>)"
  show ?thesis unfolding s snd_conv by (rule members_ok_upsert [OF assms up])
next
  fix cms
  assume s: "sync_membership db now u role = (Inr (), db\<lparr>db_memberships := filter (\<lambda>m. \<not> is_membership u cms m) (db_memberships db)\<rparr>)"
  show ?thesis unfolding s snd_conv by (rule members_ok_filter [OF assms(1)])
qed (use assms in simp)

lemma law_safe_same:
  assumes "members_ok d" "db_organizations d = db_organizations db" "db_domains d = db_domains db" "led db org"
    "admins d org = admins db org" "1 \<le> platform_admins db \<Longrightarrow> 1 \<le> platform_admins d"
  shows "law_safe org db d"
  using assms by (auto simp: law_safe_def led_def org_ids_def)

lemma count_le_append: "count_rows P s \<le> count_rows P (snd (insert_row mk s))"
  by (simp add: count_rows_def select_rows_def)

lemma safe_create:
  assumes "members_ok db" "led db org" "org_id db cms_organization_key \<noteq> Some org" "create_user db now name hash role = (Inr u, d)"
  shows "law_safe org db d"
proof -
  let ?mk = "\<lambda>i. \<lparr>ur_id = i, ur_username = name, ur_password_hash = hash, ur_role = role_as_str role, ur_created_at = now, ur_last_login_at = None\<rparr>"
  let ?db = "db\<lparr>db_users := snd (insert_row ?mk (db_users db))\<rparr>"
  let ?i = "fst (insert_row ?mk (db_users db))"
  have d: "d = snd (sync_membership ?db now ?i role)"
    using assms(4) sync_membership_total [of ?db now ?i role]
    by (cases "insert_row ?mk (db_users db)") (auto simp: create_user_def split: if_splits prod.splits sum.splits)
  have acc: "accounts_ok d" using create_user_ok [of db now name hash role] assms(1,4) by (simp add: members_ok_def)
  have ex: "user_exists ?db j" if "user_exists db j \<or> j = ?i" for j
    using that by (auto simp: user_exists_iff)
  have "\<forall>m \<in> set (db_memberships d). user_exists d (m_user m)"
  proof (rule sync_membership_cases [of ?db now ?i role])
    fix cms ms
    assume "upsert_membership ?i cms (role_as_str role) now (db_memberships ?db) = Inr ms" "sync_membership ?db now ?i role = (Inr (), ?db\<lparr>db_memberships := ms\<rparr>)"
    with ex assms(1) show ?thesis by (auto simp: d members_ok_def upsert_membership_def user_exists_def split: if_splits)
  qed (use ex assms(1) in \<open>auto simp: d members_ok_def user_exists_def\<close>)
  with acc have ok: "members_ok d" by (simp add: members_ok_def)
  have "admins d org = admins ?db org" unfolding d by (rule admins_sync) (use assms(3) in \<open>simp add: org_id_def\<close>)
  also have "\<dots> = admins db org" by (rule admins_same) simp
  finally have adm: "admins d org = admins db org" .
  show ?thesis
    using ok adm assms(2) count_le_append [of "\<lambda>r. ur_role r = ''admin''" "db_users db" ?mk]
    by (intro law_safe_same) (simp_all add: d platform_admins_def)
qed

lemma found_by_id:
  assumes "find_user_by_id db i = Inr (Some u)"
  obtains r where "r \<in> set (rows (db_users db))" "ur_id r = i" "role_parse (ur_role r) = Some (u_role u)"
  using assms by (auto simp: find_user_by_id_def user_of_optional_def user_of_row_def and_then_eq_Inr split: option.splits dest!: select_row_Some)

text \<open>Who demotes or deletes one administrator leaves another one.\<close>

lemma another_admin:
  assumes "store_ok ur_id (db_users db)" "find_user_by_id db i = Inr (Some u)" "not_last db u" "1 \<le> platform_admins db"
  shows "\<exists>r \<in> set (rows (db_users db)). ur_role r = ''admin'' \<and> ur_id r \<noteq> i"
proof (rule ccontr)
  assume none: "\<not> (\<exists>r \<in> set (rows (db_users db)). ur_role r = ''admin'' \<and> ur_id r \<noteq> i)"
  obtain x where x: "x \<in> set (rows (db_users db))" "ur_id x = i" "role_parse (ur_role x) = Some (u_role u)" by (rule found_by_id [OF assms(2)])
  let ?A = "filter (\<lambda>r. ur_role r = ''admin'') (rows (db_users db))"
  have one: "r = x" if "r \<in> set ?A" for r
    using that none store_ok_inj [OF assms(1) _ x(1)] x(2) by auto
  have "distinct ?A" using store_ok_distinct [OF assms(1)] by (auto simp: distinct_map)
  then have "length ?A = card (set ?A)" by (simp only: distinct_card)
  also have "\<dots> \<le> card {x}" by (rule card_mono) (use one in auto)
  finally have few: "platform_admins db \<le> 1" by (simp add: platform_admins_def count_rows_def select_rows_def)
  have "?A \<noteq> []" using assms(4) by (auto simp: platform_admins_def count_rows_def select_rows_def)
  then obtain r where "r \<in> set ?A" by (cases ?A) auto
  then have "ur_role x = ''admin''" using one by auto
  then have "u_role u = Admin" using x(3) by (simp add: role_parse_def)
  with few show False using assms(3) by (simp add: not_last_def)
qed

lemma admins_exist: "1 \<le> platform_admins db \<longleftrightarrow> (\<exists>r \<in> set (rows (db_users db)). ur_role r = ''admin'')"
proof -
  have "1 \<le> platform_admins db \<longleftrightarrow> platform_admins db \<noteq> 0" by linarith
  then show ?thesis by (simp add: platform_admins_def count_rows_0)
qed

lemma members_ok_users_update:
  assumes "members_ok db" "\<And>r. ur_id (f r) = ur_id r" "\<And>r. ur_username (f r) = ur_username r"
    "\<And>r. role_parse (ur_role r) \<noteq> None \<Longrightarrow> role_parse (ur_role (f r)) \<noteq> None"
  shows "members_ok (db\<lparr>db_users := update_rows p f (db_users db)\<rparr>)"
  using assms accounts_ok_users_update [of db f p] user_exists_update [of f p db] by (simp add: members_ok_def)

lemma admins_exist_users: "1 \<le> platform_admins (db\<lparr>db_users := s\<rparr>) \<longleftrightarrow> (\<exists>r \<in> set (rows s). ur_role r = ''admin'')"
  unfolding admins_exist by simp

lemma updated_row: "r \<in> set (rows s) \<Longrightarrow> (if p r then f r else r) \<in> set (rows (update_rows p f s))"
  unfolding rows_update set_map by (rule imageI)

lemma safe_password:
  assumes "members_ok db" "led db org"
  shows "law_safe org db (snd (update_password db i hash))"
proof (rule law_safe_same)
  show "members_ok (snd (update_password db i hash))"
    unfolding update_password_def snd_conv by (rule members_ok_users_update [OF assms(1)]) simp_all
  show "admins (snd (update_password db i hash)) org = admins db org" by (rule admins_same) (simp add: update_password_def)
  show "1 \<le> platform_admins db \<Longrightarrow> 1 \<le> platform_admins (snd (update_password db i hash))"
    unfolding update_password_def snd_conv admins_exist_users admins_exist [of db]
    by (erule bexE) (rule bexI [OF _ updated_row], simp_all)
qed (use assms(2) in \<open>simp_all add: update_password_def\<close>)

lemma safe_role:
  assumes "members_ok db" "led db org" "org_id db cms_organization_key \<noteq> Some org"
    "find_user_by_id db i = Inr (Some u)" "role = Admin \<or> not_last db u"
  shows "law_safe org db (snd (update_role db now i role))"
proof -
  let ?db = "db\<lparr>db_users := update_rows (\<lambda>r. ur_id r = i) (\<lambda>r. r\<lparr>ur_role := role_as_str role\<rparr>) (db_users db)\<rparr>"
  obtain x where x: "x \<in> set (rows (db_users db))" "ur_id x = i" by (rule found_by_id [OF assms(4)])
  have ok: "members_ok ?db" by (rule members_ok_users_update [OF assms(1)]) simp_all
  have ex: "user_exists ?db i" using user_exists_update [of "\<lambda>r. r\<lparr>ur_role := role_as_str role\<rparr>" _ db i] x
    by (auto simp: user_exists_iff [of db])
  have st: "store_ok ur_id (db_users db)" using assms(1) by (simp add: members_ok_def accounts_ok_defs)
  have cases: "snd (update_role db now i role) \<in> {?db, snd (sync_membership ?db now i role)}" by (simp add: update_role_def Let_def)
  have "1 \<le> platform_admins ?db" if p: "1 \<le> platform_admins db"
  proof (cases "role = Admin")
    case True
    with x(2) show ?thesis unfolding admins_exist_users
      by (intro bexI [OF _ updated_row [OF x(1)]]) (simp add: role_as_str_def)
  next
    case False
    with assms(5) another_admin [OF st assms(4) _ p] obtain r where "r \<in> set (rows (db_users db))" "ur_role r = ''admin''" "ur_id r \<noteq> i" by auto
    then show ?thesis unfolding admins_exist by auto
  qed
  moreover have "admins ?db org = admins db org" by (rule admins_same) simp
  moreover have "admins (snd (sync_membership ?db now i role)) org = admins ?db org" by (rule admins_sync) (use assms(3) in \<open>simp add: org_id_def\<close>)
  moreover have "platform_admins (snd (sync_membership ?db now i role)) = platform_admins ?db" by (simp add: platform_admins_def)
  moreover have "members_ok (snd (sync_membership ?db now i role))" by (rule members_ok_sync [OF ok ex])
  ultimately show ?thesis using cases ok assms(2) by (auto intro!: law_safe_same)
qed

lemma safe_delete:
  assumes "members_ok db" "led db org" "find_user_by_id db i = Inr (Some u)" "not_last db u" "solo_administrated_orgs db i = Inr []"
  shows "law_safe org db (snd (delete_user db i))"
proof -
  let ?d = "snd (delete_user db i)"
  have st: "store_ok ur_id (db_users db)" and ms: "memberships_ok db" using assms(1) by (simp_all add: members_ok_def accounts_ok_defs)
  have "accounts_ok ?d" using delete_user_ok assms(1) by (simp add: members_ok_def)
  moreover have "\<forall>m \<in> set (db_memberships ?d). user_exists ?d (m_user m)"
    using assms(1) by (auto simp: members_ok_def delete_user_def cascade_user_def user_exists_iff)
  ultimately have ok: "members_ok ?d" by (simp add: members_ok_def)
  have "admins ?d org = admins (db\<lparr>db_memberships := filter (\<lambda>m. m_user m \<noteq> i) (db_memberships db)\<rparr>) org"
    by (rule admins_same) (simp add: delete_user_def cascade_user_def)
  also have "\<dots> = {v \<in> admins db org. v \<noteq> i}" by (rule admins_filter)
  also have "\<dots> = admins db org - {i}" by auto
  finally have adm: "admins ?d org = admins db org - {i}" .
  have keep: "db_organizations ?d = db_organizations db" "db_domains ?d = db_domains db" by (simp_all add: delete_user_def cascade_user_def)
  have "org \<in> org_ids db \<Longrightarrow> admins ?d org \<noteq> {}"
    using ledD(2) [OF assms(2)] solo_administrated_none [OF ms assms(5)] others_lead [of "admins db org" i]
    unfolding adm org_ids_def by blast
  then have "led ?d org" using ledD(1) [OF assms(2)] by (simp add: led_def org_ids_def keep)
  moreover have "1 \<le> platform_admins ?d" if "1 \<le> platform_admins db"
    using another_admin [OF st assms(3,4) that] unfolding admins_exist by (auto simp: delete_user_def cascade_user_def)
  ultimately show ?thesis using ok keep by (simp add: law_safe_def)
qed

lemma account_safe:
  assumes "members_ok db" "led db org" "org_id db cms_organization_key \<noteq> Some org" "account_change now db d"
  shows "law_safe org db d"
  using assms(4)
proof cases
  case (user_reset i u role hash)
  have r: "law_safe org db (snd (update_role db now i role))" by (rule safe_role [OF assms(1-3) user_reset(2,3)])
  then have "law_safe org (snd (update_role db now i role)) d"
    unfolding user_reset(1) by (intro safe_password) (simp_all add: law_safe_def)
  with r show ?thesis by (simp add: law_safe_def)
qed (use safe_create [OF assms(1-3)] safe_role [OF assms(1-3)] safe_delete [OF assms(1,2)] safe_password [OF assms(1,2)] in auto)

subsection \<open>All of them\<close>

datatype admin_call = Tenants_Page tenant_call | Accounts_Page account_call

definition admin_call :: "panel \<Rightarrow> serving \<Rightarrow> request \<Rightarrow> admin_call \<Rightarrow> hosting \<Rightarrow> reply \<times> hosting" where
  "admin_call pn sc rq call h =
     (case call of
        Tenants_Page c \<Rightarrow> tenant_call pn sc rq c h
      | Accounts_Page c \<Rightarrow> on_db (account_call pn rq c (ho_db h)) h)"

definition admin_calls :: "panel \<Rightarrow> serving \<Rightarrow> (request \<times> admin_call) list \<Rightarrow> hosting \<Rightarrow> hosting" where
  "admin_calls pn sc calls h = foldl (\<lambda>h c. snd (admin_call pn sc (fst c) (snd c) h)) h calls"

definition lawful :: "int \<Rightarrow> db \<Rightarrow> bool" where
  "lawful org db \<longleftrightarrow> members_ok db \<and> routing_ok db \<and> led db org \<and> org_id db cms_organization_key \<noteq> Some org \<and> 1 \<le> platform_admins db"

lemma find_filter_implied: "(\<And>x. P x \<Longrightarrow> q x) \<Longrightarrow> find P (filter q xs) = find P xs"
  by (induction xs) auto

lemma org_id_bootstrap: "org_id db cms_organization_key = map_option o_id (find (\<lambda>g. o_key g = cms_organization_key) (bootstrap_rows db))"
  unfolding bootstrap_rows_def org_id_def select_row_def
  by (subst find_filter_implied) (simp_all add: is_seeded_def)

lemma routing_ok_tables: "db_organizations d = db_organizations db \<Longrightarrow> db_domains d = db_domains db \<Longrightarrow> routing_ok d = routing_ok db"
  by (simp add: routing_ok_def)

lemma lawful_tenant:
  assumes "lawful org (ho_db h)" "tenant_change sc now h h'"
  shows "lawful org (ho_db h')"
proof -
  have l: "members_ok (ho_db h)" "led (ho_db h) org" "routing_ok (ho_db h)" using assms(1) by (simp_all add: lawful_def)
  have "law_kept org (ho_db h) (ho_db h')" by (rule change_law [OF l(1,2) assms(2)])
  moreover have "routing_ok (ho_db h')" by (rule change_routing [OF l(3) assms(2)])
  moreover have "kept (ho_db h) (ho_db h')" by (rule change_kept [OF l(3) assms(2)])
  then have "org_id (ho_db h') cms_organization_key = org_id (ho_db h) cms_organization_key"
    unfolding org_id_bootstrap by (simp add: kept_def)
  ultimately show ?thesis using assms(1) by (simp add: lawful_def law_kept_def)
qed

lemma lawful_account:
  assumes "lawful org db" "account_change now db d"
  shows "lawful org d"
proof -
  have safe: "law_safe org db d" by (rule account_safe [OF _ _ _ assms(2)]) (use assms(1) in \<open>simp_all add: lawful_def\<close>)
  then have t: "db_organizations d = db_organizations db" "db_domains d = db_domains db" by (simp_all add: law_safe_def)
  show ?thesis
    using assms(1) safe routing_ok_tables [OF t] org_id_organizations [OF t(1)] by (simp add: lawful_def law_safe_def)
qed

lemma lawful_call:
  assumes "lawful org (ho_db h)"
  shows "lawful org (ho_db (snd (admin_call pn sc rq call h)))"
proof (cases call)
  case (Tenants_Page c)
  let ?h = "snd (tenant_call pn sc rq c h)"
  consider "?h = h" | "tenant_change sc (rq_now rq) h ?h" using tenant_call_outcome [of sc rq h pn c] by (auto simp: outcome_ok_def)
  then have "lawful org (ho_db ?h)"
  proof cases
    case 2
    show ?thesis by (rule lawful_tenant [OF assms 2])
  qed (simp add: assms)
  with Tenants_Page show ?thesis by (simp add: admin_call_def)
next
  case (Accounts_Page c)
  let ?d = "snd (account_call pn rq c (ho_db h))"
  consider "?d = ho_db h" | "account_change (rq_now rq) (ho_db h) ?d"
    using account_call_outcome [of rq "ho_db h" pn c] by (auto simp: account_outcome_def)
  then have "lawful org ?d"
  proof cases
    case 2
    show ?thesis by (rule lawful_account [OF assms 2])
  qed (simp add: assms)
  with Accounts_Page show ?thesis by (simp add: admin_call_def on_db_def)
qed

lemma lawful_calls: "lawful org (ho_db h) \<Longrightarrow> lawful org (ho_db (admin_calls pn sc calls h))"
proof (induction calls arbitrary: h)
  case (Cons c calls)
  have "admin_calls pn sc (c # calls) h = admin_calls pn sc calls (snd (admin_call pn sc (fst c) (snd c) h))"
    by (simp add: admin_calls_def)
  with Cons lawful_call show ?case by simp
qed (simp add: admin_calls_def)

text \<open>
  C18: Nothing that is called on the account, tenant and team pages, in whatever order and by whomever,
  takes the platform its last administrator, nor takes it from an organization that keeps existing: by a
  removal, by a change of role, or by the deletion of the account.
\<close>

theorem last_administrators_stay:
  assumes "members_ok (ho_db h)" "routing_ok (ho_db h)" "1 \<le> platform_admins (ho_db h)"
    "org \<in> org_ids (ho_db h)" "admins (ho_db h) org \<noteq> {}" "org_id (ho_db h) cms_organization_key \<noteq> Some org"
  shows "1 \<le> platform_admins (ho_db (admin_calls pn sc calls h)) \<and>
    (org \<in> org_ids (ho_db (admin_calls pn sc calls h)) \<longrightarrow> admins (ho_db (admin_calls pn sc calls h)) org \<noteq> {})"
proof -
  have "org \<le> last_id (db_organizations (ho_db h))"
    using assms(2,4) by (auto simp: routing_ok_def store_ok_def org_ids_def)
  then have "lawful org (ho_db h)" using assms by (simp add: lawful_def led_def)
  from lawful_calls [OF this, of pn sc calls] show ?thesis by (simp add: lawful_def led_def)
qed

text \<open>Bob alone administrates the shop, Ann the platform; she tries to delete him.\<close>

lemma drifted_lawful:
  "members_ok drifted" "routing_ok drifted" "1 \<le> platform_admins drifted" "2 \<in> org_ids drifted" "2 \<in> admins drifted 2"
  "org_id drifted cms_organization_key \<noteq> Some 2"
proof -
  have users: "db_users drifted = \<lparr>last_id = 2, rows = [account_row 1 ''ann'' Admin, account_row 2 ''bob'' User]\<rparr>"
    and ms: "map m_user (db_memberships drifted) = [2, 2]" by (simp_all add: drifted_def)
  have "m_user m = 2" if "m \<in> set (db_memberships drifted)" for m using that ms by (auto simp: drifted_def)
  then have "user_exists drifted (m_user m)" if "m \<in> set (db_memberships drifted)" for m
    using that by (simp add: user_exists_def users select_row_def account_row_def)
  with drifted_ok show "members_ok drifted" by (simp add: members_ok_def)
  have "db_organizations drifted = db_organizations cms_and_shop" "db_domains drifted = db_domains cms_and_shop" by (simp_all add: drifted_def)
  from routing_ok_tables [OF this] cms_and_shop_ok show "routing_ok drifted" by simp
  show "1 \<le> platform_admins drifted" unfolding admins_exist users by (simp add: account_row_def role_as_str_def)
  show "2 \<in> org_ids drifted" by (simp add: org_ids_def drifted_def cms_and_shop_def sample_organization_def)
  show "2 \<in> admins drifted 2" by (simp add: admins_def stored_membership_def drifted_def is_membership_def)
  show "org_id drifted cms_organization_key \<noteq> Some 2" by (simp add: drifted_org cms_organization_key_def)
qed

lemma last_administrators_stay_witness:
  "\<forall>pn sc rq m s. 1 \<le> platform_admins (ho_db (admin_calls pn sc [(rq, Accounts_Page (User_Delete 2 m))] \<lparr>ho_db = drifted, ho_snapshot = s\<rparr>)) \<and>
    (2 \<in> org_ids (ho_db (admin_calls pn sc [(rq, Accounts_Page (User_Delete 2 m))] \<lparr>ho_db = drifted, ho_snapshot = s\<rparr>)) \<longrightarrow>
      admins (ho_db (admin_calls pn sc [(rq, Accounts_Page (User_Delete 2 m))] \<lparr>ho_db = drifted, ho_snapshot = s\<rparr>)) 2 \<noteq> {})"
  by (intro allI last_administrators_stay) (use drifted_lawful in auto)

end
