(* ===== verification/Media_Library.thy ===== *)
theory Media_Library
  imports Media Public_Site Page_Tree Auth_Protocol
begin

text \<open>
  The media library: the checks on an upload (\<open>src/src/media.rs\<close>) and the handlers of
  \<open>src/src/routes/media.rs\<close>, over the rows and the files of the media directory. The image crate is a
  parameter. A write to the disk can fail and leave the file, a part of it or nothing; a read or a
  removal can fail. The stem of the stored names comes from the random source.
\<close>

section \<open>The image pipeline\<close>

definition max_dimension :: "32 word" where "max_dimension = 8192"
definition max_decode_alloc :: "64 word" where "max_decode_alloc = 512 * 1024 * 1024"
definition thumbnail_edge :: "32 word" where "thumbnail_edge = 320"

text \<open>The crate's formats, the four the library accepts first, and its two kinds of errors.\<close>

datatype image_format = IF_Png | IF_Jpeg | IF_Gif | IF_WebP | IF_Other string

datatype decode_error = Decode_Limits | Decode_Other

record limits =
  li_max_width :: "32 word option"
  li_max_height :: "32 word option"
  li_max_alloc :: "64 word option"

record 'i image_crate =
  ic_guess :: "string \<Rightarrow> image_format option"
  ic_decode :: "image_format \<Rightarrow> limits \<Rightarrow> string \<Rightarrow> (decode_error, 'i) result"
  ic_width :: "'i \<Rightarrow> 32 word"
  ic_height :: "'i \<Rightarrow> 32 word"
  ic_thumbnail :: "'i \<Rightarrow> 32 word \<Rightarrow> 32 word \<Rightarrow> 'i"
  ic_write_png :: "'i \<Rightarrow> string option"
  ic_panics :: "string \<Rightarrow> bool"

datatype media_format = Png | Jpeg | Gif | Webp

fun from_image_format :: "image_format \<Rightarrow> media_format option" where
  "from_image_format IF_Png = Some Png"
| "from_image_format IF_Jpeg = Some Jpeg"
| "from_image_format IF_Gif = Some Gif"
| "from_image_format IF_WebP = Some Webp"
| "from_image_format (IF_Other name) = None"

fun mime :: "media_format \<Rightarrow> string" where
  "mime Png = ''image/png''"
| "mime Jpeg = ''image/jpeg''"
| "mime Gif = ''image/gif''"
| "mime Webp = ''image/webp''"

fun extension :: "media_format \<Rightarrow> string" where
  "extension Png = ''png''"
| "extension Jpeg = ''jpg''"
| "extension Gif = ''gif''"
| "extension Webp = ''webp''"

record prepared_image =
  pi_format :: media_format
  pi_width :: "32 word"
  pi_height :: "32 word"
  pi_thumbnail :: string

definition decode_limits :: limits where
  "decode_limits = \<lparr>li_max_width = Some max_dimension, li_max_height = Some max_dimension, li_max_alloc = Some max_decode_alloc\<rparr>"

definition thumbnail_png :: "'i image_crate \<Rightarrow> 'i \<Rightarrow> (string, string) result" where
  "thumbnail_png ic img =
     (let thumb = (if ic_width ic img \<le> thumbnail_edge \<and> ic_height ic img \<le> thumbnail_edge then img
                   else ic_thumbnail ic img thumbnail_edge thumbnail_edge) in
      case ic_write_png ic thumb of Some bytes \<Rightarrow> Inr bytes | None \<Rightarrow> Inl ''The thumbnail could not be generated.'')"

definition prepare :: "'i image_crate \<Rightarrow> string \<Rightarrow> (string, prepared_image) result" where
  "prepare ic bytes =
     (case ic_guess ic bytes of
        None \<Rightarrow> Inl ''The file does not look like a valid image (the byte signature is not recognized).''
      | Some sniffed \<Rightarrow>
          (case from_image_format sniffed of
             None \<Rightarrow> Inl ''Unsupported format: the library accepts PNG, JPEG, GIF and WebP.''
           | Some fmt \<Rightarrow>
               (case ic_decode ic sniffed decode_limits bytes of
                  Inl Decode_Limits \<Rightarrow> Inl (''The image is too large to process safely (8192 '' @ [CHR 0xC3, CHR 0x97] @ '' 8192 pixels at most).'')
                | Inl Decode_Other \<Rightarrow> Inl ''The image is damaged or incomplete: it could not be decoded.''
                | Inr decoded \<Rightarrow>
                    and_then (thumbnail_png ic decoded) (\<lambda>thumbnail.
                    Inr \<lparr>pi_format = fmt, pi_width = ic_width ic decoded, pi_height = ic_height ic decoded, pi_thumbnail = thumbnail\<rparr>))))"

section \<open>Text of the forms\<close>

definition media_page_size :: int where "media_page_size = 24"
definition max_alt_text :: nat where "max_alt_text = 500"
definition max_text_field :: nat where "max_text_field = 2048"

text \<open>
  \<open>String::from_utf8_lossy\<close>: the length of the sequence a text starts with and whether it is a
  character; otherwise it is the longest part of one, replaced by U+FFFD.
\<close>

definition second_byte :: "nat \<Rightarrow> nat \<times> nat" where
  "second_byte b = (if b = 0xE0 then (0xA0, 0xBF) else if b = 0xED then (0x80, 0x9F)
     else if b = 0xF0 then (0x90, 0xBF) else if b = 0xF4 then (0x80, 0x8F) else (0x80, 0xBF))"

definition utf8_width :: "nat \<Rightarrow> nat" where
  "utf8_width b = (if b < 0x80 then 1 else if b < 0xC2 then 0 else if b < 0xE0 then 2 else if b < 0xF0 then 3 else if b < 0xF5 then 4 else 0)"

fun tail_run :: "nat \<Rightarrow> string \<Rightarrow> nat" where
  "tail_run (Suc n) (c # s) = (if continuation c then Suc (tail_run n s) else 0)"
| "tail_run n s = 0"

fun utf8_head :: "string \<Rightarrow> nat \<times> bool" where
  "utf8_head [] = (0, False)"
| "utf8_head [c] = (1, utf8_width (code c) = 1)"
| "utf8_head (c # d # s) =
     (let w = utf8_width (code c) in
      if w \<le> 1 then (1, w = 1)
      else if code d < fst (second_byte (code c)) \<or> snd (second_byte (code c)) < code d then (1, False)
      else (let n = 2 + tail_run (w - 2) s in (n, n = w)))"

lemma utf8_head_pos: "s \<noteq> [] \<Longrightarrow> 0 < fst (utf8_head s)"
  by (cases s rule: utf8_head.cases) (auto simp: Let_def)

function from_utf8_lossy :: "string \<Rightarrow> string" where
  "from_utf8_lossy s =
     (if s = [] then []
      else (if snd (utf8_head s) then take (fst (utf8_head s)) s else [CHR 0xEF, CHR 0xBF, CHR 0xBD]) @
        from_utf8_lossy (drop (fst (utf8_head s)) s))"
  by pat_completeness auto
termination
  by (relation "measure length") (auto simp: utf8_head_pos)

declare from_utf8_lossy.simps [simp del]

definition chars_count :: "string \<Rightarrow> nat" where
  "chars_count s = length (filter (\<lambda>c. \<not> continuation c) s)"

text \<open>\<open>char::is_control\<close> in UTF-8: one byte, or 0xC2 with a byte up to 0x9F.\<close>

fun strip_control :: "string \<Rightarrow> string" where
  "strip_control [] = []"
| "strip_control [c] = (if code c < 0x20 \<or> code c = 0x7F then [] else [c])"
| "strip_control (c # d # s) =
     (if code c = 0xC2 \<and> code d \<le> 0x9F then strip_control s
      else if code c < 0x20 \<or> code c = 0x7F then strip_control (d # s)
      else c # strip_control (d # s))"

definition last_segment :: "string \<Rightarrow> string" where
  "last_segment raw = rev (takeWhile (\<lambda>c. c \<noteq> CHR ''/'' \<and> c \<noteq> CHR 0x5C) (rev raw))"

definition sanitize_original_name :: "string \<Rightarrow> string" where
  "sanitize_original_name raw =
     (let name = trim (strip_control (last_segment raw)) in
      if name = [] then ''imagen'' else if 200 < chars_count name then take_chars 200 name else name)"

text \<open>\<open>human_bytes\<close>: \<open>as f64\<close> keeps 53 significant bits, ties to even; the divisions are exact, and
  one decimal is printed, ties to even.\<close>

definition half_even :: "int \<Rightarrow> int \<Rightarrow> int" where
  "half_even n d =
     (let q = n div d; r = n mod d in if 2 * r > d \<or> 2 * r = d \<and> q mod 2 = 1 then q + 1 else q)"

function as_f64 :: "nat \<Rightarrow> int \<Rightarrow> int" where
  "as_f64 e n = (if n < 2 ^ (53 + e) then half_even n (2 ^ e) * 2 ^ e else as_f64 (Suc e) n)"
  by pat_completeness auto

lemma int_less_power: "(n :: int) < 2 ^ nat n"
proof (cases "0 \<le> n")
  case True
  then show ?thesis using of_nat_less_two_power [of "nat n", where ?'a = int] by simp
qed simp

termination as_f64
proof (relation "measure (\<lambda>(e, n). nat n - e)")
  fix e :: nat and n :: int
  assume "\<not> n < 2 ^ (53 + e)"
  then have "2 ^ (53 + e) < (2 :: int) ^ nat n" using int_less_power [of n] by linarith
  then have "53 + e < nat n" using power_less_imp_less_exp [of "2 :: int"] by simp
  then show "((Suc e, n), e, n) \<in> measure (\<lambda>(e, n). nat n - e)" by simp
qed simp

declare as_f64.simps [simp del]

definition byte_units :: "string list" where
  "byte_units = [''B'', ''KB'', ''MB'', ''GB'']"

definition human_bytes :: "int \<Rightarrow> string" where
  "human_bytes bytes =
     (if bytes < 0 then show_int bytes @ '' B''
      else (let v = as_f64 0 bytes;
                unit = (if v < 1024 then 0 else if v < 1024 ^ 2 then 1 else if v < 1024 ^ 3 then 2 else 3 :: nat);
                tenths = half_even (v * 10) (1024 ^ unit) in
            (if unit = 0 then show_int v else show_int (tenths div 10) @ ''.'' @ show_int (tenths mod 10)) @
            '' '' @ byte_units ! unit))"

section \<open>The upload form\<close>

text \<open>A part of the multipart body: its chunks, and the error its stream ends in, if any.\<close>

record part =
  pt_name :: "string option"
  pt_file_name :: "string option"
  pt_chunks :: "string list"
  pt_error :: "string option"

fun read_capped :: "nat \<Rightarrow> string \<Rightarrow> string list \<Rightarrow> string option \<Rightarrow> (string, string \<times> bool) result" where
  "read_capped cap buffer [] None = Inr (buffer, False)"
| "read_capped cap buffer [] (Some e) = Inl e"
| "read_capped cap buffer (c # cs) e =
     (if cap < length buffer + length c then Inr (buffer, True) else read_capped cap (buffer @ c) cs e)"

record upload =
  up_alt :: string
  up_original :: "string option"
  up_file :: "string option"

definition no_upload :: upload where
  "no_upload = \<lparr>up_alt = [], up_original = None, up_file = None\<rparr>"

text \<open>A rejection is the message with the alternative text the form keeps.\<close>

definition read_alt :: "part \<Rightarrow> upload \<Rightarrow> (string \<times> string, upload) result" where
  "read_alt p u =
     (case read_capped max_text_field [] (pt_chunks p) (pt_error p) of
        Inl e \<Rightarrow> Inl (''Could not read the alt text: '' @ e, [])
      | Inr (text, overflow) \<Rightarrow>
          if overflow then Inl (''The alt text is too long (500 characters at most).'', [])
          else Inr (u\<lparr>up_alt := trim (from_utf8_lossy text)\<rparr>))"

definition read_file :: "nat \<Rightarrow> part \<Rightarrow> upload \<Rightarrow> (string \<times> string, upload) result" where
  "read_file max_bytes p u =
     (case read_capped max_bytes [] (pt_chunks p) (pt_error p) of
        Inl e \<Rightarrow> Inl (''Could not read the file: '' @ e, up_alt u)
      | Inr (buffer, overflow) \<Rightarrow>
          if overflow then Inl (''The file exceeds the '' @ human_bytes (int max_bytes) @ '' limit set in [cms] media_max_bytes.'', up_alt u)
          else Inr (u\<lparr>up_original := map_option sanitize_original_name (pt_file_name p), up_file := Some buffer\<rparr>))"

definition read_part :: "nat \<Rightarrow> part \<Rightarrow> upload \<Rightarrow> (string \<times> string, upload) result" where
  "read_part max_bytes p u =
     (if pt_name p = Some ''alt'' then read_alt p u
      else if pt_name p = Some ''file'' then read_file max_bytes p u
      else Inr u)"

fun read_parts :: "nat \<Rightarrow> part list \<Rightarrow> string option \<Rightarrow> upload \<Rightarrow> (string \<times> string, upload) result" where
  "read_parts max_bytes [] None u = Inr u"
| "read_parts max_bytes [] (Some e) u = Inl (''Could not read the upload: '' @ e, up_alt u)"
| "read_parts max_bytes (p # ps) e u = and_then (read_part max_bytes p u) (read_parts max_bytes ps e)"

section \<open>The disk\<close>

text \<open>The files of the media directory by name. A write that breaks leaves what the disk made of it.\<close>

type_synonym disk = "string \<Rightarrow> string option"

datatype write_outcome = Written | Broken "string option"

record faults =
  fa_write :: "string \<Rightarrow> write_outcome"
  fa_read :: "string \<Rightarrow> bool"
  fa_remove :: "string \<Rightarrow> bool"

definition write_file :: "faults \<Rightarrow> string \<Rightarrow> string \<Rightarrow> disk \<Rightarrow> bool \<times> disk" where
  "write_file fa name bytes disk =
     (case fa_write fa name of
        Written \<Rightarrow> (True, disk(name \<mapsto> bytes))
      | Broken left \<Rightarrow> (False, disk(name := left)))"

definition read_file_bytes :: "faults \<Rightarrow> string \<Rightarrow> disk \<Rightarrow> string option" where
  "read_file_bytes fa name disk = (if fa_read fa name then disk name else None)"

definition remove_file :: "faults \<Rightarrow> string \<Rightarrow> disk \<Rightarrow> disk" where
  "remove_file fa name disk = (if fa_remove fa name then disk(name := None) else disk)"

record library =
  lb_db :: db
  lb_disk :: disk

section \<open>Replies\<close>

datatype media_reply = Reply reply | Media_File string string

definition media_not_found :: media_reply where
  "media_not_found = Reply (Failed (NotFound ''That media file does not exist (or its name is not the canonical one).''))"

definition media_storage_failure :: reply where
  "media_storage_failure = Failed (InternalError ''media storage failure'')"

definition media_url :: "media_record \<Rightarrow> string" where
  "media_url m = ''/media/'' @ show_int (me_id m) @ ''/'' @ me_stored_name m"

definition media_item_data :: "media_record \<Rightarrow> json" where
  "media_item_data m =
     J_Obj [(''id'', J_Int (me_id m)), (''original_name'', J_Str (me_original_name m)), (''stored_name'', J_Str (me_stored_name m)),
       (''url'', J_Str (media_url m)), (''thumb_url'', J_Str (''/media/thumb/'' @ show_int (me_id m))),
       (''mime_type'', J_Str (me_mime_type m)), (''width'', J_Int (me_width m)), (''height'', J_Int (me_height m)),
       (''bytes'', J_Int (me_bytes m)), (''size_h'', J_Str (human_bytes (me_bytes m))), (''alt_text'', J_Str (me_alt_text m)),
       (''created_at_h'', J_Str (format_timestamp (me_created_at m)))]"

definition html_quote :: string where "html_quote = [CHR 0x22]"

definition detail_data :: "media_record \<Rightarrow> string option \<Rightarrow> (string \<times> json) list" where
  "detail_data m e =
     [(''item'', media_item_data m),
      (''markdown_snippet'', J_Str (''!['' @ me_alt_text m @ '']('' @ media_url m @ '')'')),
      (''html_snippet'', J_Str (''<img src='' @ html_quote @ media_url m @ html_quote @ '' alt='' @ html_quote @ me_alt_text m @ html_quote @
        '' width='' @ html_quote @ show_int (me_width m) @ html_quote @ '' height='' @ html_quote @ show_int (me_height m) @ html_quote @ ''>'')),
      (''form_error'', form_error e)]"

definition render_media_list :: "panel \<Rightarrow> request \<Rightarrow> db \<Rightarrow> string option \<Rightarrow> string \<Rightarrow> int \<Rightarrow> reply" where
  "render_media_list pn rq db e alt requested =
     (if pn_cms pn = None then no_cms
      else (let organization = request_organization pn rq in
        case count_media db organization of
          Inl _ \<Rightarrow> media_storage_failure
        | Inr amount \<Rightarrow>
            (let page = clamp_page requested (max (pages_for amount media_page_size) 1) in
             case list_media_paged db organization media_page_size ((page - 1) * media_page_size) of
               Inl _ \<Rightarrow> media_storage_failure
             | Inr items \<Rightarrow>
                 render_view ''admin/media_list.jhs''
                   [(''media_items'', J_Arr (map media_item_data items)), (''form_error'', form_error e), (''alt_text'', J_Str alt),
                    (''paginacion'', pagination_value page amount media_page_size ''/admin/media'')])))"

definition render_detail_with_error :: "panel \<Rightarrow> request \<Rightarrow> db \<Rightarrow> int \<Rightarrow> string \<Rightarrow> media_reply" where
  "render_detail_with_error pn rq db i e =
     (if pn_cms pn = None then Reply no_cms
      else (case find_media db (request_organization pn rq) i of
          Inr (Some m) \<Rightarrow> Reply (render_view ''admin/media_detail.jhs'' (detail_data m (Some e)))
        | _ \<Rightarrow> media_not_found))"

section \<open>Handlers\<close>

definition with_library :: "panel \<Rightarrow> library \<Rightarrow> media_reply \<times> library \<Rightarrow> media_reply \<times> library" where
  "with_library pn lb r = (if pn_cms pn = None then (Reply no_cms, lb) else r)"

definition list_media_route :: "panel \<Rightarrow> request \<Rightarrow> (string \<times> string) list \<Rightarrow> library \<Rightarrow> media_reply \<times> library" where
  "list_media_route pn rq params lb = (Reply (render_media_list pn rq (lb_db lb) None [] (snd (listing_query params))), lb)"

definition new_media_of :: "member \<Rightarrow> string \<Rightarrow> string \<Rightarrow> prepared_image \<Rightarrow> string \<Rightarrow> upload \<Rightarrow> new_media" where
  "new_media_of m stored thumb p bytes u =
     \<lparr>nd_stored_name = stored, nd_thumb_name = thumb,
      nd_original_name = (case up_original u of Some name \<Rightarrow> name | None \<Rightarrow> ''imagen''),
      nd_mime_type = mime (pi_format p), nd_bytes = int (length bytes), nd_width = uint (pi_width p),
      nd_height = uint (pi_height p), nd_alt_text = up_alt u, nd_created_by = Some (au_user_id (mb_user m))\<rparr>"

definition stored_name_of :: "string \<Rightarrow> prepared_image \<Rightarrow> string" where
  "stored_name_of stem p = stem @ ''.'' @ extension (pi_format p)"

definition thumb_name_of :: "string \<Rightarrow> string" where
  "thumb_name_of stem = stem @ ''_t.png''"

text \<open>Both files, then the row; a failure takes back what was written before it.\<close>

definition store_upload :: "panel \<Rightarrow> request \<Rightarrow> faults \<Rightarrow> string \<Rightarrow> member \<Rightarrow> prepared_image \<Rightarrow> string \<Rightarrow> upload \<Rightarrow> library \<Rightarrow> media_reply \<times> library" where
  "store_upload pn rq fa stem m p bytes u lb =
     (let stored = stored_name_of stem p; thumb = thumb_name_of stem;
          reject = (\<lambda>message. Reply (render_media_list pn rq (lb_db lb) (Some message) (up_alt u) 1)) in
      case write_file fa stored bytes (lb_disk lb) of
        (False, disk) \<Rightarrow> (reject ''No se pudo guardar el archivo en el disco.'', lb\<lparr>lb_disk := disk\<rparr>)
      | (True, disk) \<Rightarrow>
          (case write_file fa thumb (pi_thumbnail p) disk of
             (False, disk) \<Rightarrow> (reject ''No se pudo guardar la miniatura en el disco.'', lb\<lparr>lb_disk := remove_file fa stored disk\<rparr>)
           | (True, disk) \<Rightarrow>
               (case create_media (lb_db lb) (rq_now rq) (mb_organization m) (new_media_of m stored thumb p bytes u) of
                  (Inr r, db) \<Rightarrow> (Reply (See_Other (''/admin/media/'' @ show_int (me_id r))), \<lparr>lb_db = db, lb_disk = disk\<rparr>)
                | (Inl _, db) \<Rightarrow>
                    (reject ''No se pudo guardar (error interno).'',
                     \<lparr>lb_db = db, lb_disk = remove_file fa thumb (remove_file fa stored disk)\<rparr>))))"

definition upload_media :: "'i image_crate \<Rightarrow> nat \<Rightarrow> panel \<Rightarrow> request \<Rightarrow> faults \<Rightarrow> string \<Rightarrow>
    (string, part list \<times> string option) result \<Rightarrow> member \<Rightarrow> library \<Rightarrow> media_reply \<times> library" where
  "upload_media ic max_bytes pn rq fa stem body m lb = with_library pn lb
     (let reject = (\<lambda>message alt. (Reply (render_media_list pn rq (lb_db lb) (Some message) alt 1), lb)) in
      case body of
        Inl rejection \<Rightarrow> reject rejection []
      | Inr (parts, stream_error) \<Rightarrow>
          (case read_parts max_bytes parts stream_error no_upload of
             Inl (message, alt) \<Rightarrow> reject message alt
           | Inr u \<Rightarrow>
               (case up_file u of
                  None \<Rightarrow> reject ''Pick a file: the upload carried no file field.'' (up_alt u)
                | Some bytes \<Rightarrow>
                    if bytes = [] then reject ''The file is empty.'' (up_alt u)
                    else if ic_panics ic bytes then reject ''The image could not be processed (internal error).'' (up_alt u)
                    else (case prepare ic bytes of
                       Inl message \<Rightarrow> reject message (up_alt u)
                     | Inr p \<Rightarrow>
                         if max_alt_text < chars_count (up_alt u)
                         then reject ''El texto alternativo no puede pasar de 500 caracteres.'' (up_alt u)
                         else store_upload pn rq fa stem m p bytes u lb))))"

definition media_detail_route :: "panel \<Rightarrow> request \<Rightarrow> int \<Rightarrow> library \<Rightarrow> media_reply \<times> library" where
  "media_detail_route pn rq i lb = with_library pn lb
     (case find_media (lb_db lb) (request_organization pn rq) i of
        Inl _ \<Rightarrow> (Reply media_storage_failure, lb)
      | Inr None \<Rightarrow> (media_not_found, lb)
      | Inr (Some r) \<Rightarrow> (Reply (render_view ''admin/media_detail.jhs'' (detail_data r None)), lb))"

definition update_alt_route :: "panel \<Rightarrow> request \<Rightarrow> int \<Rightarrow> (string, string) result \<Rightarrow> library \<Rightarrow> media_reply \<times> library" where
  "update_alt_route pn rq i input lb = with_library pn lb
     (case input of
        Inl message \<Rightarrow> (render_detail_with_error pn rq (lb_db lb) i message, lb)
      | Inr raw \<Rightarrow>
          (let alt = trim raw in
           if max_alt_text < chars_count alt
           then (render_detail_with_error pn rq (lb_db lb) i ''El texto alternativo no puede pasar de 500 caracteres.'', lb)
           else (case update_alt (lb_db lb) (request_organization pn rq) i alt of
              (Inr (Some _), db) \<Rightarrow> (Reply (See_Other (''/admin/media/'' @ show_int i @ ''?ok=alt'')), lb\<lparr>lb_db := db\<rparr>)
            | (Inr None, db) \<Rightarrow> (media_not_found, lb\<lparr>lb_db := db\<rparr>)
            | (Inl _, db) \<Rightarrow> (render_detail_with_error pn rq db i ''No se pudo guardar (error interno).'', lb\<lparr>lb_db := db\<rparr>))))"

definition delete_media_route :: "panel \<Rightarrow> faults \<Rightarrow> int \<Rightarrow> member \<Rightarrow> library \<Rightarrow> media_reply \<times> library" where
  "delete_media_route pn fa i m lb = with_library pn lb
     (case find_media (lb_db lb) (mb_organization m) i of
        Inl _ \<Rightarrow> (Reply media_storage_failure, lb)
      | Inr None \<Rightarrow> (media_not_found, lb)
      | Inr (Some r) \<Rightarrow>
          (case delete_media (lb_db lb) (mb_organization m) i of
             (Inl _, db) \<Rightarrow> (Reply media_storage_failure, lb\<lparr>lb_db := db\<rparr>)
           | (Inr False, db) \<Rightarrow> (media_not_found, lb\<lparr>lb_db := db\<rparr>)
           | (Inr True, db) \<Rightarrow>
               (Reply (See_Other ''/admin/media?ok=deleted''),
                \<lparr>lb_db = db, lb_disk = foldl (\<lambda>disk name. remove_file fa name disk) (lb_disk lb) [me_stored_name r, me_thumb_name r]\<rparr>)))"

definition serve_media :: "panel \<Rightarrow> request \<Rightarrow> faults \<Rightarrow> int \<Rightarrow> string \<Rightarrow> library \<Rightarrow> media_reply" where
  "serve_media pn rq fa i filename lb =
     (if pn_cms pn = None then Reply no_cms
      else (case find_media (lb_db lb) (request_organization pn rq) i of
          Inl _ \<Rightarrow> Reply media_storage_failure
        | Inr None \<Rightarrow> media_not_found
        | Inr (Some r) \<Rightarrow>
            if me_stored_name r \<noteq> filename then media_not_found
            else (case read_file_bytes fa (me_stored_name r) (lb_disk lb) of
                Some bytes \<Rightarrow> Media_File bytes (me_mime_type r)
              | None \<Rightarrow> media_not_found)))"

definition serve_thumb :: "panel \<Rightarrow> request \<Rightarrow> faults \<Rightarrow> int \<Rightarrow> library \<Rightarrow> media_reply" where
  "serve_thumb pn rq fa i lb =
     (if pn_cms pn = None then Reply no_cms
      else (case find_media (lb_db lb) (request_organization pn rq) i of
          Inl _ \<Rightarrow> Reply media_storage_failure
        | Inr None \<Rightarrow> media_not_found
        | Inr (Some r) \<Rightarrow>
            (case read_file_bytes fa (me_thumb_name r) (lb_disk lb) of
                Some bytes \<Rightarrow> Media_File bytes ''image/png''
              | None \<Rightarrow>
                  (case read_file_bytes fa (me_stored_name r) (lb_disk lb) of
                     Some bytes \<Rightarrow> Media_File bytes (me_mime_type r)
                   | None \<Rightarrow> media_not_found))))"

section \<open>Every row has its files\<close>

definition media_names :: "media_row \<Rightarrow> string list" where
  "media_names r = [md_stored_name r, md_thumb_name r]"

text \<open>The files of a row: an accepted image, described by the row, and its thumbnail.\<close>

definition backed :: "'i image_crate \<Rightarrow> disk \<Rightarrow> media_row \<Rightarrow> bool" where
  "backed ic disk r \<longleftrightarrow>
     (\<exists>bytes p. disk (md_stored_name r) = Some bytes \<and> disk (md_thumb_name r) = Some (pi_thumbnail p) \<and> prepare ic bytes = Inr p \<and>
        md_mime_type r = mime (pi_format p) \<and> md_bytes r = int (length bytes) \<and>
        md_width r = uint (pi_width p) \<and> md_height r = uint (pi_height p))"

definition library_ok :: "'i image_crate \<Rightarrow> library \<Rightarrow> bool" where
  "library_ok ic lb \<longleftrightarrow> store_ok md_id (db_media (lb_db lb)) \<and>
     distinct (concat (map media_names (rows (db_media (lb_db lb))))) \<and>
     (\<forall>r \<in> set (rows (db_media (lb_db lb))). backed ic (lb_disk lb) r)"

text \<open>What is relied on of the random stems: none begins a name in use.\<close>

definition fresh_stem :: "library \<Rightarrow> string \<Rightarrow> bool" where
  "fresh_stem lb stem \<longleftrightarrow> (\<forall>r \<in> set (rows (db_media (lb_db lb))). \<forall>n \<in> set (media_names r). \<not> starts_with stem n)"

inductive library_step :: "'i image_crate \<Rightarrow> nat \<Rightarrow> panel \<Rightarrow> library \<Rightarrow> library \<Rightarrow> bool" for ic max_bytes pn where
  uploaded: "fresh_stem lb stem \<Longrightarrow> library_step ic max_bytes pn lb (snd (upload_media ic max_bytes pn rq fa stem body m lb))"
| described: "library_step ic max_bytes pn lb (snd (update_alt_route pn rq i input lb))"
| deleted: "library_step ic max_bytes pn lb (snd (delete_media_route pn fa i m lb))"

lemma backed_cong: "(\<And>n. n \<in> set (media_names r) \<Longrightarrow> disk' n = disk n) \<Longrightarrow> backed ic disk' r = backed ic disk r"
  by (simp add: backed_def media_names_def)

lemma stem_names: "starts_with stem (stored_name_of stem p)" "starts_with stem (thumb_name_of stem)" "stored_name_of stem p \<noteq> thumb_name_of stem"
  by (simp_all add: stored_name_of_def thumb_name_of_def)

lemma library_disk:
  assumes "library_ok ic lb" "fresh_stem lb stem" "\<And>n. \<not> starts_with stem n \<Longrightarrow> disk' n = lb_disk lb n"
  shows "library_ok ic (lb\<lparr>lb_disk := disk'\<rparr>)"
proof -
  have "backed ic disk' r" if "r \<in> set (rows (db_media (lb_db lb)))" for r
    using assms(1) that backed_cong [of r disk' "lb_disk lb" ic] assms(2,3) unfolding library_ok_def fresh_stem_def by blast
  with assms(1) show ?thesis by (simp add: library_ok_def)
qed

lemma write_file_other: "n \<noteq> name \<Longrightarrow> snd (write_file fa name bytes disk) n = disk n"
  by (simp add: write_file_def split: write_outcome.split)

lemma remove_file_other: "n \<noteq> name \<Longrightarrow> remove_file fa name disk n = disk n"
  by (simp add: remove_file_def)

lemma write_file_True: "write_file fa name bytes disk = (True, disk') \<Longrightarrow> disk' = disk(name \<mapsto> bytes)"
  by (auto simp: write_file_def split: write_outcome.splits)

lemma create_media_Inr:
  assumes "create_media db now organization n = (Inr r, d)"
  obtains owner where "org_id db organization = Some owner" "r = media_of_row (new_media_row n owner now (last_id (db_media db) + 1))"
    "d = db\<lparr>db_media := snd (insert_row (new_media_row n owner now) (db_media db))\<rparr>"
  using assms by (auto simp: create_media_def insert_row_def Let_def split: option.splits if_splits)

lemma create_media_Inl: "create_media db now organization n = (Inl e, d) \<Longrightarrow> d = db"
  by (auto simp: create_media_def insert_row_def Let_def split: option.splits if_splits)

text \<open>An upload that is stored adds one row with its two files; any other leaves the rows alone.\<close>

lemma store_upload_outcome:
  assumes "store_upload pn rq fa stem m p bytes u lb = (reply, lb')"
  obtains (stored) owner where "org_id (lb_db lb) (mb_organization m) = Some owner"
      "reply = Reply (See_Other (''/admin/media/'' @ show_int (last_id (db_media (lb_db lb)) + 1)))"
      "lb_db lb' = (lb_db lb)\<lparr>db_media := snd (insert_row
         (new_media_row (new_media_of m (stored_name_of stem p) (thumb_name_of stem) p bytes u) owner (rq_now rq)) (db_media (lb_db lb)))\<rparr>"
      "lb_disk lb' = (lb_disk lb)(stored_name_of stem p \<mapsto> bytes, thumb_name_of stem \<mapsto> pi_thumbnail p)"
    | (refused) "\<exists>message. reply = Reply (render_media_list pn rq (lb_db lb) (Some message) (up_alt u) 1)" "lb_db lb' = lb_db lb"
      "\<And>n. \<not> starts_with stem n \<Longrightarrow> lb_disk lb' n = lb_disk lb n"
proof -
  let ?s = "stored_name_of stem p" and ?t = "thumb_name_of stem"
  obtain b d where w: "write_file fa ?s bytes (lb_disk lb) = (b, d)" by force
  obtain c e where x: "write_file fa ?t (pi_thumbnail p) d = (c, e)" by force
  obtain res db where y: "create_media (lb_db lb) (rq_now rq) (mb_organization m) (new_media_of m ?s ?t p bytes u) = (res, db)" by force
  have d: "d n = lb_disk lb n" if "n \<noteq> ?s" for n using write_file_other [OF that, of fa bytes "lb_disk lb"] w by simp
  have e: "e n = d n" if "n \<noteq> ?t" for n using write_file_other [OF that, of fa "pi_thumbnail p" d] x by simp
  have other: "n \<noteq> ?s \<and> n \<noteq> ?t" if "\<not> starts_with stem n" for n using that stem_names(1,2) by metis
  show thesis
  proof (cases "b \<and> c \<and> (\<exists>r. res = Inr r)")
    case True
    then obtain r where r: "b" "c" "res = Inr r" by blast
    from create_media_Inr [OF y [unfolded r(3)]] obtain owner where o: "org_id (lb_db lb) (mb_organization m) = Some owner"
      "r = media_of_row (new_media_row (new_media_of m ?s ?t p bytes u) owner (rq_now rq) (last_id (db_media (lb_db lb)) + 1))"
      "db = (lb_db lb)\<lparr>db_media := snd (insert_row (new_media_row (new_media_of m ?s ?t p bytes u) owner (rq_now rq)) (db_media (lb_db lb)))\<rparr>" .
    have "d = (lb_disk lb)(?s \<mapsto> bytes)" "e = d(?t \<mapsto> pi_thumbnail p)"
      using write_file_True [of fa ?s bytes "lb_disk lb" d] write_file_True [of fa ?t "pi_thumbnail p" d e] w x r(1,2) by simp_all
    with assms w x y r o show thesis
      by (intro stored [OF o(1)]) (auto simp: store_upload_def Let_def media_of_row_def new_media_row_def)
  next
    case False
    have db: "db = lb_db lb" if "res = Inl err" for err using create_media_Inl y that by blast
    from False assms w x y show thesis
      by (intro refused) (auto simp: store_upload_def Let_def remove_file_other other d e dest: db split: if_splits sum.splits bool.splits)
  qed
qed
text \<open>What an upload that reaches the disk has gone through.\<close>

definition accepted :: "'i image_crate \<Rightarrow> nat \<Rightarrow> (string, part list \<times> string option) result \<Rightarrow> string \<Rightarrow> prepared_image \<Rightarrow> upload \<Rightarrow> bool" where
  "accepted ic max_bytes body bytes p u \<longleftrightarrow>
     (\<exists>parts e. body = Inr (parts, e) \<and> read_parts max_bytes parts e no_upload = Inr u) \<and> up_file u = Some bytes \<and> bytes \<noteq> [] \<and>
     prepare ic bytes = Inr p \<and> chars_count (up_alt u) \<le> max_alt_text"

lemma upload_cases:
  obtains (rejected) "snd (upload_media ic max_bytes pn rq fa stem body m lb) = lb"
      "\<And>path. fst (upload_media ic max_bytes pn rq fa stem body m lb) \<noteq> Reply (See_Other path)"
    | (accepted) bytes p u where "accepted ic max_bytes body bytes p u" "pn_cms pn \<noteq> None"
      "upload_media ic max_bytes pn rq fa stem body m lb = store_upload pn rq fa stem m p bytes u lb"
proof (cases "\<exists>bytes p u. accepted ic max_bytes body bytes p u \<and> pn_cms pn \<noteq> None \<and> \<not> ic_panics ic bytes")
  case True
  then obtain bytes p u where "accepted ic max_bytes body bytes p u" "pn_cms pn \<noteq> None" "\<not> ic_panics ic bytes" by blast
  then show thesis by (intro accepted) (auto simp: accepted_def upload_media_def with_library_def Let_def)
next
  case False
  have no_redirect: "render_media_list pn rq db e alt requested \<noteq> See_Other path" for db e alt requested path
    by (auto simp: render_media_list_def no_cms_def media_storage_failure_def render_view_def Let_def split: sum.split)
  from False have "snd (upload_media ic max_bytes pn rq fa stem body m lb) = lb \<and>
      (\<forall>path. fst (upload_media ic max_bytes pn rq fa stem body m lb) \<noteq> Reply (See_Other path))"
    by (auto simp: accepted_def upload_media_def with_library_def Let_def no_redirect no_cms_def not_less split: sum.split option.split)
  then show thesis by (intro rejected) auto
qed

lemma stored_ok:
  assumes "library_ok ic lb" "fresh_stem lb stem" "prepare ic bytes = Inr p"
    "lb_db lb' = (lb_db lb)\<lparr>db_media := snd (insert_row
         (new_media_row (new_media_of m (stored_name_of stem p) (thumb_name_of stem) p bytes u) owner now) (db_media (lb_db lb)))\<rparr>"
    "lb_disk lb' = (lb_disk lb)(stored_name_of stem p \<mapsto> bytes, thumb_name_of stem \<mapsto> pi_thumbnail p)"
  shows "library_ok ic lb'"
proof -
  let ?mk = "new_media_row (new_media_of m (stored_name_of stem p) (thumb_name_of stem) p bytes u) owner now"
  have row: "md_id (?mk i) = i" "media_names (?mk i) = [stored_name_of stem p, thumb_name_of stem]"
    "backed ic (lb_disk lb') (?mk i)" for i
    using assms(3) stem_names(3) [of stem p] by (auto simp: assms(5) new_media_row_def new_media_of_def media_names_def backed_def)
  have fresh: "n \<noteq> stored_name_of stem p \<and> n \<noteq> thumb_name_of stem" if "r \<in> set (rows (db_media (lb_db lb)))" "n \<in> set (media_names r)" for r n
    using assms(2) that stem_names(1,2) unfolding fresh_stem_def by metis
  have "backed ic (lb_disk lb') r" if "r \<in> set (rows (db_media (lb_db lb)))" for r
    using assms(1) that backed_cong [of r "lb_disk lb'" "lb_disk lb" ic] fresh [OF that] by (simp add: library_ok_def assms(5))
  moreover have "distinct (concat (map media_names (rows (db_media (lb_db lb)) @ [?mk i])))" for i
    using assms(1) fresh stem_names(3) [of stem p] by (auto simp: library_ok_def row(2))
  ultimately show ?thesis
    using assms(1) row store_ok_insert [of md_id "db_media (lb_db lb)" ?mk] by (auto simp: library_ok_def assms(4))
qed

lemma upload_keeps:
  assumes "library_ok ic lb" "fresh_stem lb stem"
  shows "library_ok ic (snd (upload_media ic max_bytes pn rq fa stem body m lb))"
proof (cases rule: upload_cases [of ic max_bytes pn rq fa stem body m lb])
  case rejected
  with assms show ?thesis by simp
next
  case (accepted bytes p u)
  obtain reply lb' where r: "store_upload pn rq fa stem m p bytes u lb = (reply, lb')" by force
  have p: "prepare ic bytes = Inr p" using accepted(1) by (simp add: accepted_def)
  from r show ?thesis
  proof (cases rule: store_upload_outcome)
    case (stored owner)
    with stored_ok [OF assms p stored(3,4)] accepted(3) r show ?thesis by simp
  next
    case refused
    then have "lb' = lb\<lparr>lb_disk := lb_disk lb'\<rparr>" by (cases lb, cases lb') simp
    with library_disk [OF assms, of "lb_disk lb'"] refused(3) accepted(3) r show ?thesis by simp
  qed
qed

lemma alt_keeps:
  assumes "library_ok ic lb"
  shows "library_ok ic (snd (update_alt_route pn rq i input lb))"
proof -
  have "library_ok ic (lb\<lparr>lb_db := snd (update_alt (lb_db lb) organization i alt)\<rparr>)" for organization alt
  proof -
    let ?s = "update_rows (\<lambda>r. md_id r = i \<and> media_in_scope (lb_db lb) organization r) (\<lambda>r. r\<lparr>md_alt_text := alt\<rparr>) (db_media (lb_db lb))"
    have "map media_names (rows ?s) = map media_names (rows (db_media (lb_db lb)))" by (simp add: media_names_def)
    moreover have "backed ic (lb_disk lb) (r\<lparr>md_alt_text := alt\<rparr>) = backed ic (lb_disk lb) r" for r
      by (simp add: backed_def)
    ultimately show ?thesis
      using assms store_ok_update [of md_id "db_media (lb_db lb)" "\<lambda>r. r\<lparr>md_alt_text := alt\<rparr>"]
      by (auto simp: library_ok_def update_alt_def Let_def simp del: map_map)
  qed
  from this snd_conv have "library_ok ic (lb\<lparr>lb_db := d\<rparr>)" if "update_alt (lb_db lb) organization i alt = (res, d)" for organization alt res d
    using that by metis
  then show ?thesis
    using assms by (auto simp: update_alt_route_def with_library_def Let_def split: sum.split prod.split option.split)
qed

lemma names_apart:
  "distinct (concat (map f xs)) \<Longrightarrow> x \<in> set xs \<Longrightarrow> y \<in> set xs \<Longrightarrow> x \<noteq> y \<Longrightarrow> set (f x) \<inter> set (f y) = {}"
  by (induction xs) auto

lemma names_filter: "distinct (concat (map f xs)) \<Longrightarrow> distinct (concat (map f (filter P xs)))"
  by (induction xs) auto

lemma delete_keeps:
  assumes "library_ok ic lb"
  shows "library_ok ic (snd (delete_media_route pn fa i m lb))"
proof -
  let ?target = "\<lambda>r. md_id r = i \<and> media_in_scope (lb_db lb) (mb_organization m) r"
  show ?thesis
  proof (cases "select_row ?target (db_media (lb_db lb))")
    case None
    with assms show ?thesis by (simp add: delete_media_route_def with_library_def find_media_def)
  next
    case (Some r)
    then have r: "r \<in> set (rows (db_media (lb_db lb)))" "md_id r = i" "?target r" by (auto dest: select_row_Some)
    let ?rs = "rows (db_media (lb_db lb))"
    have d: "distinct (concat (map media_names ?rs))" and s: "store_ok md_id (db_media (lb_db lb))" using assms by (simp_all add: library_ok_def)
    have apart: "set (media_names q) \<inter> set (media_names r) = {}" if "q \<in> set ?rs" "\<not> ?target q" for q
    proof -
      have "q \<noteq> r" using that r by auto
      with names_apart [OF d that(1) r(1)] show ?thesis by blast
    qed
    let ?disk = "foldl (\<lambda>disk name. remove_file fa name disk) (lb_disk lb) (media_names r)"
    have "backed ic ?disk q" if "q \<in> set ?rs" "\<not> ?target q" for q
    proof -
      have "?disk n = lb_disk lb n" if "n \<in> set (media_names q)" for n
        using apart [OF \<open>q \<in> set ?rs\<close> \<open>\<not> ?target q\<close>] that by (auto simp: media_names_def remove_file_def)
      with assms that backed_cong [of q ?disk "lb_disk lb" ic] show ?thesis by (simp add: library_ok_def)
    qed
    moreover have "distinct (concat (map media_names (filter P ?rs)))" for P
      using names_filter [OF d] .
    moreover have "0 < count_rows ?target (db_media (lb_db lb))"
      using r count_rows_0 [of ?target "db_media (lb_db lb)"] by auto
    ultimately show ?thesis using assms Some s
      by (auto simp: delete_media_route_def with_library_def find_media_def delete_media_def Let_def library_ok_def
          media_of_row_def media_names_def store_ok_delete)
  qed
qed

text \<open>
  C23: Whatever is uploaded, described and deleted, by whomever, and whichever writes, reads and removals
  of the disk fail: every row of the library has its image and its thumbnail on the disk, the image is
  one the pipeline accepts, with the type, size and dimensions the row states, and no file belongs to
  two rows.
\<close>

theorem library_keeps_files:
  assumes "(library_step ic max_bytes pn)\<^sup>*\<^sup>* lb lb'" "library_ok ic lb"
  shows "library_ok ic lb'"
  using assms
proof (induction rule: rtranclp_induct)
  case (step lb' lb'')
  then have "library_ok ic lb'" by simp
  with step(2) show ?case by cases (auto intro: upload_keeps alt_keeps delete_keeps)
qed simp

text \<open>The bytes a body uploads: those of its last part named \<open>file\<close>.\<close>

definition uploaded_file :: "part list \<Rightarrow> string option" where
  "uploaded_file parts =
     (case find (\<lambda>p. pt_name p = Some ''file'') (rev parts) of Some p \<Rightarrow> Some (concat (pt_chunks p)) | None \<Rightarrow> None)"

lemma read_capped_whole: "read_capped cap buffer cs e = Inr (bytes, False) \<Longrightarrow> length buffer \<le> cap \<Longrightarrow> bytes = buffer @ concat cs \<and> length bytes \<le> cap"
  by (induction cap buffer cs e rule: read_capped.induct) (auto split: if_splits)

lemma read_part_file:
  assumes "read_part max_bytes p u = Inr v"
  shows "up_file v = (if pt_name p = Some ''file'' then Some (concat (pt_chunks p)) else up_file u)"
    "(\<forall>b. up_file u = Some b \<longrightarrow> length b \<le> max_bytes) \<Longrightarrow> up_file v = Some b \<Longrightarrow> length b \<le> max_bytes"
  using assms read_capped_whole [of max_bytes "[]" "pt_chunks p" "pt_error p"]
  by (auto simp: read_part_def read_alt_def read_file_def split: if_splits sum.splits prod.splits)

lemma read_parts_file:
  assumes "read_parts max_bytes parts e u = Inr v" "\<forall>b. up_file u = Some b \<longrightarrow> length b \<le> max_bytes"
  shows "up_file v = (case uploaded_file parts of Some b \<Rightarrow> Some b | None \<Rightarrow> up_file u) \<and> (\<forall>b. up_file v = Some b \<longrightarrow> length b \<le> max_bytes)"
  using assms
proof (induction max_bytes parts e u rule: read_parts.induct)
  case (3 max_bytes p ps e u)
  then obtain w where w: "read_part max_bytes p u = Inr w" "read_parts max_bytes ps e w = Inr v" by (auto simp: and_then_eq_Inr)
  note f = read_part_file [OF w(1)]
  have "\<forall>b. up_file w = Some b \<longrightarrow> length b \<le> max_bytes" using f(2) 3(3) by blast
  with 3(1) [OF w(2)] have "up_file v = (case uploaded_file ps of Some b \<Rightarrow> Some b | None \<Rightarrow> up_file w)" "\<forall>b. up_file v = Some b \<longrightarrow> length b \<le> max_bytes"
    by simp_all
  with f(1) show ?case by (auto simp: uploaded_file_def find_append split: option.split)
qed (auto simp: uploaded_file_def)

lemma find_stored:
  assumes "library_ok ic lb" "org_id (lb_db lb) organization = Some owner" "\<And>i. md_id (mk i) = i" "\<And>i. md_organization (mk i) = owner"
    "db = (lb_db lb)\<lparr>db_media := snd (insert_row mk (db_media (lb_db lb)))\<rparr>"
  shows "find_media db organization (last_id (db_media (lb_db lb)) + 1) = Inr (Some (media_of_row (mk (last_id (db_media (lb_db lb)) + 1))))"
proof -
  let ?i = "last_id (db_media (lb_db lb)) + 1"
  have s: "store_ok md_id (db_media (lb_db lb))" using assms(1) by (simp add: library_ok_def)
  have "media_in_scope db organization r \<longleftrightarrow> md_organization r = owner" for r
    using assms(2) by (auto simp: media_in_scope_def org_scope_def org_id_def assms(5))
  moreover have "select_row (\<lambda>r. md_id r = ?i \<and> md_organization r = owner) (snd (insert_row mk (db_media (lb_db lb)))) = Some (mk ?i)"
    by (rule select_row_unique) (use assms(3,4) store_ok_fresh [OF s] in auto)
  ultimately show ?thesis by (simp add: find_media_def assms(5))
qed

text \<open>
  C24: An upload that is answered with a redirect was an accepted image within the size limit, and the
  page it leads to has an id under which the site of that organization serves exactly the uploaded
  bytes, with the type sniffed from them and not the one the client claimed, and the thumbnail.
\<close>

theorem upload_then_serve:
  assumes "library_ok ic lb" "fresh_stem lb stem"
    "upload_media ic max_bytes pn rq fa stem (Inr (parts, e)) m lb = (Reply (See_Other path), lb')"
    "request_organization pn rq' = mb_organization m" "\<And>name. fa_read fa' name"
  shows "\<exists>i bytes p. path = ''/admin/media/'' @ show_int i \<and> uploaded_file parts = Some bytes \<and> length bytes \<le> max_bytes \<and>
    prepare ic bytes = Inr p \<and> serve_media pn rq' fa' i (stored_name_of stem p) lb' = Media_File bytes (mime (pi_format p)) \<and>
    serve_thumb pn rq' fa' i lb' = Media_File (pi_thumbnail p) ''image/png''"
proof (cases rule: upload_cases [of ic max_bytes pn rq fa stem "Inr (parts, e)" m lb])
  case rejected
  with rejected(2) [of path] assms(3) show ?thesis by simp
next
  case (accepted bytes p u)
  then have a: "read_parts max_bytes parts e no_upload = Inr u" "up_file u = Some bytes" "prepare ic bytes = Inr p" by (auto simp: accepted_def)
  from read_parts_file [OF a(1)] a(2) have sent: "uploaded_file parts = Some bytes" "length bytes \<le> max_bytes"
    by (auto simp: no_upload_def split: option.splits)
  from accepted(3) assms(3) have "store_upload pn rq fa stem m p bytes u lb = (Reply (See_Other path), lb')" by simp
  then show ?thesis
  proof (cases rule: store_upload_outcome)
    case (stored owner)
    let ?i = "last_id (db_media (lb_db lb)) + 1"
    let ?mk = "new_media_row (new_media_of m (stored_name_of stem p) (thumb_name_of stem) p bytes u) owner (rq_now rq)"
    have "find_media (lb_db lb') (mb_organization m) ?i = Inr (Some (media_of_row (?mk ?i)))"
      by (rule find_stored [OF assms(1) stored(1)]) (simp_all add: new_media_row_def stored(3))
    then have "serve_media pn rq' fa' ?i (stored_name_of stem p) lb' = Media_File bytes (mime (pi_format p))"
      "serve_thumb pn rq' fa' ?i lb' = Media_File (pi_thumbnail p) ''image/png''"
      using accepted(2) assms(4,5) stem_names(3) [of stem p]
      by (auto simp: serve_media_def serve_thumb_def read_file_bytes_def stored(4) media_of_row_def new_media_row_def new_media_of_def)
    with sent a(3) stored(2) show ?thesis by auto
  next
    case refused
    then show ?thesis
      by (auto simp: render_media_list_def no_cms_def media_storage_failure_def render_view_def Let_def split: sum.splits if_splits)
  qed
qed

lemma found_row:
  "find_media db organization i = Inr (Some r) \<Longrightarrow>
    \<exists>x \<in> set (rows (db_media db)). r = media_of_row x \<and> md_id x = i \<and> media_in_scope db organization x"
  by (auto simp: find_media_def dest: select_row_Some)

text \<open>
  Whatever id and name are asked for, and whatever the disk does: a file that is answered is the
  image or the thumbnail of a row of the organization of the host, the image one the pipeline accepts,
  and it is declared as the type its bytes were recognized as.
\<close>

theorem only_images_are_served:
  assumes "library_ok ic lb"
    "Media_File bytes kind \<in> {serve_media pn rq fa i name lb, serve_thumb pn rq fa i lb}"
  shows "\<exists>r \<in> set (rows (db_media (lb_db lb))). md_id r = i \<and> media_in_scope (lb_db lb) (request_organization pn rq) r \<and>
    (\<exists>original p. lb_disk lb (md_stored_name r) = Some original \<and> prepare ic original = Inr p \<and>
      (bytes = original \<and> kind = mime (pi_format p) \<or> bytes = pi_thumbnail p \<and> kind = ''image/png''))"
proof -
  obtain r where r: "find_media (lb_db lb) (request_organization pn rq) i = Inr (Some r)"
    and b: "lb_disk lb (me_stored_name r) = Some bytes \<and> kind = me_mime_type r \<or> lb_disk lb (me_thumb_name r) = Some bytes \<and> kind = ''image/png''"
    using assms(2) by (auto simp: serve_media_def serve_thumb_def media_not_found_def read_file_bytes_def split: if_splits sum.splits option.splits)
  from found_row [OF r] obtain x where x: "x \<in> set (rows (db_media (lb_db lb)))" "r = media_of_row x" "md_id x = i"
    "media_in_scope (lb_db lb) (request_organization pn rq) x" by blast
  from assms(1) x(1) have "backed ic (lb_disk lb) x" by (simp add: library_ok_def)
  with b x show ?thesis by (intro bexI [of _ x]) (auto simp: backed_def media_of_row_def)
qed

section \<open>A concrete library\<close>

definition sample_images :: "string image_crate" where
  "sample_images = \<lparr>ic_guess = (\<lambda>b. if starts_with ''P'' b then Some IF_Png else None), ic_decode = (\<lambda>_ _ b. Inr b),
     ic_width = (\<lambda>_. 1), ic_height = (\<lambda>_. 1), ic_thumbnail = (\<lambda>i _ _. i), ic_write_png = (\<lambda>i. Some (''T'' @ i)),
     ic_panics = (\<lambda>_. False)\<rparr>"

definition calm :: faults where
  "calm = \<lparr>fa_write = (\<lambda>_. Written), fa_read = (\<lambda>_. True), fa_remove = (\<lambda>_. True)\<rparr>"

definition sample_part :: part where
  "sample_part = \<lparr>pt_name = Some ''file'', pt_file_name = None, pt_chunks = [''P'', ''x''], pt_error = None\<rparr>"

definition sample_panel :: panel where
  "sample_panel = panel_of (sample_server\<lparr>sv_bindings := []\<rparr>)"

definition sample_editor :: member where
  "sample_editor = \<lparr>mb_user = \<lparr>au_user_id = 1, au_username = ''ann'', au_role = Editor\<rparr>, mb_organization = ''cms''\<rparr>"

definition empty_library :: library where
  "empty_library = \<lparr>lb_db = site, lb_disk = (\<lambda>_. None)\<rparr>"

definition sample_upload :: "faults \<Rightarrow> media_reply \<times> library" where
  "sample_upload fa = upload_media sample_images 10 sample_panel (sample_request [] 9) fa ''0a'' (Inr ([sample_part], None)) sample_editor empty_library"

lemma sample_prepare: "prepare sample_images ''Px'' = Inr \<lparr>pi_format = Png, pi_width = 1, pi_height = 1, pi_thumbnail = ''TPx''\<rparr>"
  by (simp add: prepare_def thumbnail_png_def sample_images_def starts_with_def thumbnail_edge_def)

lemma empty_library_ok: "library_ok sample_images empty_library" "fresh_stem empty_library ''0a''"
  by (simp_all add: library_ok_def fresh_stem_def empty_library_def site_def empty_db_def empty_store_def store_ok_def)

lemma sample_upload_stored: "fst (sample_upload calm) = Reply (See_Other ''/admin/media/1'')"
proof -
  have p: "prepare sample_images ''Px'' = Inr \<lparr>pi_format = Png, pi_width = 1, pi_height = 1, pi_thumbnail = ''TPx''\<rparr>" by (rule sample_prepare)
  have "\<not> ic_panics sample_images b" for b by (simp add: sample_images_def)
  moreover have "org_id site ''cms'' = Some 1" by (rule site_orgs)
  moreover have "db_media site = empty_store" by (simp add: site_def empty_db_def)
  moreover have "show_nat (Suc 0) = ''1''" by (simp add: show_nat.simps digit_char_def char_of_def bit_0)
  ultimately show ?thesis using p
    by (simp add: sample_upload_def upload_media_def with_library_def sample_panel_def panel_of_def read_part_def read_file_def
        sample_part_def no_upload_def max_alt_text_def chars_count_def store_upload_def Let_def write_file_def calm_def
        empty_library_def sample_editor_def create_media_def new_media_of_def stored_name_of_def thumb_name_of_def
        media_checks_def flat_name_def insert_row_def empty_store_def media_of_row_def new_media_row_def show_int_def)
qed

lemma library_keeps_files_witness: "library_ok sample_images (snd (sample_upload (calm\<lparr>fa_write := (\<lambda>_. Broken None)\<rparr>)))"
proof -
  have "(library_step sample_images 10 sample_panel)\<^sup>*\<^sup>* empty_library (snd (sample_upload (calm\<lparr>fa_write := (\<lambda>_. Broken None)\<rparr>)))"
    unfolding sample_upload_def by (rule r_into_rtranclp, rule library_step.uploaded, rule empty_library_ok)
  from library_keeps_files [OF this empty_library_ok(1)] show ?thesis .
qed

lemma sample_organization_cms: "request_organization sample_panel (sample_request [] 9) = ''cms''"
proof -
  have "classify authority hosts [] = Main" for authority hosts by (simp add: classify_def split: option.split)
  then show ?thesis by (simp add: request_organization_def sample_panel_def panel_of_def organization_key_def class_organization_def cms_organization_key_def)
qed

lemma upload_then_serve_witness:
  "\<exists>i bytes p. ''/admin/media/1'' = ''/admin/media/'' @ show_int i \<and> uploaded_file [sample_part] = Some bytes \<and> length bytes \<le> 10 \<and>
    prepare sample_images bytes = Inr p \<and>
    serve_media sample_panel (sample_request [] 9) calm i (stored_name_of ''0a'' p) (snd (sample_upload calm)) = Media_File bytes (mime (pi_format p)) \<and>
    serve_thumb sample_panel (sample_request [] 9) calm i (snd (sample_upload calm)) = Media_File (pi_thumbnail p) ''image/png''"
proof (rule upload_then_serve [OF empty_library_ok])
  show "upload_media sample_images 10 sample_panel (sample_request [] 9) calm ''0a'' (Inr ([sample_part], None)) sample_editor empty_library =
      (Reply (See_Other ''/admin/media/1''), snd (sample_upload calm))"
    using sample_upload_stored unfolding sample_upload_def by (metis prod.collapse)
qed (simp_all add: sample_organization_cms sample_editor_def calm_def)

definition sample_library :: library where
  "sample_library = \<lparr>lb_db = site\<lparr>db_media := \<lparr>last_id = 1, rows = [new_media_row
     \<lparr>nd_stored_name = ''0a.png'', nd_thumb_name = ''0a_t.png'', nd_original_name = ''x'', nd_mime_type = ''image/png'', nd_bytes = 2,
      nd_width = 1, nd_height = 1, nd_alt_text = [], nd_created_by = None\<rparr> 1 9 1]\<rparr>\<rparr>,
    lb_disk = [''0a.png'' \<mapsto> ''Px'', ''0a_t.png'' \<mapsto> ''TPx'']\<rparr>"

lemma sample_library_ok: "library_ok sample_images sample_library"
  by (simp add: library_ok_def sample_library_def store_ok_def new_media_row_def media_names_def backed_def)
    (rule exI [of _ "\<lparr>pi_format = Png, pi_width = 1, pi_height = 1, pi_thumbnail = ''TPx''\<rparr>"], simp add: sample_prepare)

lemma sample_library_serves: "serve_media sample_panel (sample_request [] 9) calm 1 ''0a.png'' sample_library = Media_File ''Px'' ''image/png''"
proof -
  have "media_in_scope (lb_db sample_library) ''cms'' r \<longleftrightarrow> md_organization r = 1" for r
    using site_orgs(1) by (auto simp: media_in_scope_def org_scope_def org_id_def sample_library_def)
  moreover have "pn_cms sample_panel \<noteq> None" by (simp add: sample_panel_def panel_of_def)
  ultimately show ?thesis
    by (simp add: serve_media_def sample_organization_cms find_media_def sample_library_def select_row_def new_media_row_def media_of_row_def
        read_file_bytes_def calm_def)
qed

lemma only_images_are_served_witness:
  "\<exists>r \<in> set (rows (db_media (lb_db sample_library))). md_id r = 1 \<and>
    (\<exists>original p. lb_disk sample_library (md_stored_name r) = Some original \<and> prepare sample_images original = Inr p \<and>
      (''Px'' = original \<or> ''Px'' = pi_thumbnail p))"
  using only_images_are_served [OF sample_library_ok, of "''Px''" "''image/png''" sample_panel "sample_request [] 9" calm 1 "''0a.png''"]
    sample_library_serves by auto

text \<open>
  What the disk made of a write that failed stays behind: the roll-back of a thumbnail that could not be
  written removes the full image only, and that of a full image nothing.
\<close>

lemma broken_writes_stay:
  assumes "fa_write fa (stored_name_of stem p) = Written" "fa_write fa (thumb_name_of stem) = Broken (Some junk)"
  shows "lb_db (snd (store_upload pn rq fa stem m p bytes u lb)) = lb_db lb \<and>
    lb_disk (snd (store_upload pn rq fa stem m p bytes u lb)) (thumb_name_of stem) = Some junk"
  using assms stem_names(3) [of stem p] by (simp add: store_upload_def write_file_def Let_def remove_file_def)

end
