(* ===== verification/Config.thy ===== *)
theory Config
  imports Tenants Rate_Limit
begin

text \<open>
  \<open>src/src/config.rs\<close>: the configuration with its defaults, the normalization and the validation a
  configuration passes before the server starts. Merging the sources and reading the values out of
  them is the configuration crate's; the URL parser and the header names are those of their crates.
  A message is its format text with the values that go into it.
\<close>

section \<open>Sections\<close>

definition default_max_body_size_bytes :: nat where "default_max_body_size_bytes = 1048576"
definition max_external_api_response_bytes :: nat where "max_external_api_response_bytes = 16 * 1048576"
definition min_media_max_bytes :: nat where "min_media_max_bytes = 1024"
definition max_media_max_bytes :: nat where "max_media_max_bytes = 64 * 1048576"
definition default_media_max_bytes :: nat where "default_media_max_bytes = 512 * 1024"
definition min_index_page_size :: nat where "min_index_page_size = 1"
definition max_index_page_size :: nat where "max_index_page_size = 100"
definition default_index_page_size :: nat where "default_index_page_size = 10"
definition max_max_revisions :: nat where "max_max_revisions = 1000"
definition default_max_revisions :: nat where "default_max_revisions = 25"

record server_config =
  srv_host :: ip_addr
  srv_port :: "16 word"
  srv_request_timeout_secs :: nat
  srv_shutdown_timeout_secs :: nat
  srv_max_body_size_bytes :: nat
  srv_trusted_proxies :: "string list"

definition default_server :: server_config where
  "default_server = \<lparr>srv_host = V4 0x7F000001, srv_port = 8080, srv_request_timeout_secs = 15, srv_shutdown_timeout_secs = 15,
     srv_max_body_size_bytes = default_max_body_size_bytes, srv_trusted_proxies = []\<rparr>"

datatype log_format = Log_Pretty | Log_Json | Log_Compact

record logging_config =
  log_level :: string
  log_form :: log_format

definition default_logging :: logging_config where
  "default_logging = \<lparr>log_level = ''info'', log_form = Log_Pretty\<rparr>"

record middleware_config =
  mw_request_id :: bool
  mw_logging :: bool
  mw_security_headers :: bool
  mw_timeout :: bool
  mw_rate_limit :: bool
  mw_cors :: bool
  mw_body_limit :: bool

definition default_middleware :: middleware_config where
  "default_middleware = \<lparr>mw_request_id = True, mw_logging = True, mw_security_headers = True, mw_timeout = True,
     mw_rate_limit = False, mw_cors = False, mw_body_limit = True\<rparr>"

datatype request_id_mode = Accept_Id | Overwrite_Id

text \<open>The refill rate is a float; \<open>None\<close> is what is not finite.\<close>

record rate_limit_config =
  rlc_capacity :: nat
  rlc_refill_per_second :: "real option"

definition default_rate_limit :: rate_limit_config where
  "default_rate_limit = \<lparr>rlc_capacity = 60, rlc_refill_per_second = Some 10\<rparr>"

record cors_config =
  cor_allowed_origins :: "string list"
  cor_max_age_secs :: nat

definition default_cors :: cors_config where
  "default_cors = \<lparr>cor_allowed_origins = [], cor_max_age_secs = 3600\<rparr>"

record security_headers_config =
  shc_x_content_type_options :: string
  shc_x_frame_options :: string
  shc_referrer_policy :: string
  shc_content_security_policy :: string
  shc_strict_transport_security :: string

definition default_security_headers :: security_headers_config where
  "default_security_headers = \<lparr>shc_x_content_type_options = ''nosniff'', shc_x_frame_options = ''DENY'', shc_referrer_policy = ''no-referrer'',
     shc_content_security_policy = ''default-src 'none'; style-src 'self'; img-src 'self' data:; form-action 'self'; frame-ancestors 'none'; base-uri 'none'' @ [CHR 0x27],
     shc_strict_transport_security = ''max-age=31536000; includeSubDomains''\<rparr>"

text \<open>The maps of an endpoint are ordered by name.\<close>

record external_endpoint_config =
  eec_name :: string
  eec_url :: string
  eec_auth_required :: bool
  eec_headers :: "(string \<times> string) list"
  eec_query :: "(string \<times> string) list"

record external_api_config =
  eac_timeout_secs :: nat
  eac_response_limit_bytes :: nat
  eac_endpoints :: "external_endpoint_config list"

definition default_external_api :: external_api_config where
  "default_external_api = \<lparr>eac_timeout_secs = 8, eac_response_limit_bytes = 262144, eac_endpoints = []\<rparr>"

record database_config =
  dbc_enabled :: bool
  dbc_url :: string
  dbc_max_connections :: nat

definition default_database :: database_config where
  "default_database = \<lparr>dbc_enabled = False, dbc_url = ''sqlite://wallermax.db?mode=rwc'', dbc_max_connections = 5\<rparr>"

record auth_config =
  acf_enabled :: bool
  acf_jwt_secret :: string
  acf_token_ttl_secs :: nat
  acf_issuer :: string
  acf_registration_enabled :: bool
  acf_min_password_len :: nat
  acf_refresh_tokens_enabled :: bool
  acf_refresh_token_ttl_secs :: nat
  acf_secure_cookies :: secure_cookie_mode
  acf_cookie_domain :: string

definition default_auth :: auth_config where
  "default_auth = \<lparr>acf_enabled = False, acf_jwt_secret = [], acf_token_ttl_secs = 3600, acf_issuer = ''wallermax-server'',
     acf_registration_enabled = True, acf_min_password_len = 8, acf_refresh_tokens_enabled = True,
     acf_refresh_token_ttl_secs = 2592000, acf_secure_cookies = Auto, acf_cookie_domain = []\<rparr>"

record cms_config =
  cmc_enabled :: bool
  cmc_hosts :: "string list"
  cmc_default_page :: "string option"
  cmc_sitemap :: bool
  cmc_site_url :: "string option"
  cmc_media_dir :: string
  cmc_media_max_bytes :: nat
  cmc_index_page_size :: nat
  cmc_feed :: bool
  cmc_max_revisions :: nat

definition default_cms :: cms_config where
  "default_cms = \<lparr>cmc_enabled = False, cmc_hosts = [], cmc_default_page = None, cmc_sitemap = True, cmc_site_url = None,
     cmc_media_dir = ''media'', cmc_media_max_bytes = default_media_max_bytes, cmc_index_page_size = default_index_page_size,
     cmc_feed = True, cmc_max_revisions = default_max_revisions\<rparr>"

record static_config =
  stc_enabled :: bool
  stc_root_dir :: string
  stc_index_file :: string

definition default_static :: static_config where
  "default_static = \<lparr>stc_enabled = False, stc_root_dir = ''public'', stc_index_file = ''index.html''\<rparr>"

record sidecar_config =
  sdc_node_command :: string
  sdc_script :: string
  sdc_workers :: nat
  sdc_startup_timeout_ms :: nat
  sdc_request_timeout_ms :: nat
  sdc_render_budget_ms :: nat

definition default_sidecar :: sidecar_config where
  "default_sidecar = \<lparr>sdc_node_command = ''node'', sdc_script = ''sidecar/jhs-sidecar.mjs'', sdc_workers = 2,
     sdc_startup_timeout_ms = 8000, sdc_request_timeout_ms = 10000, sdc_render_budget_ms = 5000\<rparr>"

record templates_config =
  tpc_enabled :: bool
  tpc_backend :: string
  tpc_sidecar :: sidecar_config
  tpc_views_dir :: string
  tpc_cache :: bool
  tpc_auto_escape :: bool
  tpc_expose_user :: bool
  tpc_loop_iteration_limit :: nat
  tpc_require_enabled :: bool
  tpc_modules_dir :: string
  tpc_forbidden_modules :: "string list"

definition default_forbidden_modules :: "string list" where
  "default_forbidden_modules =
     [''child_process'', ''cluster'', ''dgram'', ''dns'', ''fs'', ''http'', ''https'', ''inspector'', ''jhs'', ''mv'', ''net'', ''os'',
      ''process'', ''repl'', ''tls'', ''tty'', ''v8'', ''vm'', ''worker_threads'']"

definition default_templates :: templates_config where
  "default_templates = \<lparr>tpc_enabled = False, tpc_backend = ''auto'', tpc_sidecar = default_sidecar, tpc_views_dir = ''views'',
     tpc_cache = True, tpc_auto_escape = True, tpc_expose_user = True, tpc_loop_iteration_limit = 10000000,
     tpc_require_enabled = True, tpc_modules_dir = ''modules'', tpc_forbidden_modules = default_forbidden_modules\<rparr>"

record metrics_config =
  mtc_enabled :: bool
  mtc_path :: string

definition default_metrics :: metrics_config where
  "default_metrics = \<lparr>mtc_enabled = False, mtc_path = ''/metrics''\<rparr>"

record tls_config =
  tlc_enabled :: bool
  tlc_cert_path :: string
  tlc_key_path :: string
  tlc_http_listen :: "string option"

definition default_tls :: tls_config where
  "default_tls = \<lparr>tlc_enabled = False, tlc_cert_path = [], tlc_key_path = [], tlc_http_listen = None\<rparr>"

record app_config =
  cf_server :: server_config
  cf_logging :: logging_config
  cf_middleware :: middleware_config
  cf_request_id :: request_id_mode
  cf_rate_limit :: rate_limit_config
  cf_cors :: cors_config
  cf_security_headers :: security_headers_config
  cf_external_api :: external_api_config
  cf_database :: database_config
  cf_auth :: auth_config
  cf_cms :: cms_config
  cf_static_files :: static_config
  cf_templates :: templates_config
  cf_metrics :: metrics_config
  cf_tls :: tls_config

definition default_config :: app_config where
  "default_config = \<lparr>cf_server = default_server, cf_logging = default_logging, cf_middleware = default_middleware,
     cf_request_id = Accept_Id, cf_rate_limit = default_rate_limit, cf_cors = default_cors,
     cf_security_headers = default_security_headers, cf_external_api = default_external_api, cf_database = default_database,
     cf_auth = default_auth, cf_cms = default_cms, cf_static_files = default_static, cf_templates = default_templates,
     cf_metrics = default_metrics, cf_tls = default_tls\<rparr>"

section \<open>Validation\<close>

text \<open>The parsers of other crates: a URL's scheme, the names of headers.\<close>

record net_crates =
  nc_url_scheme :: "string \<Rightarrow> string option"
  nc_header_name :: "string \<Rightarrow> bool"

datatype config_error = Message string "string list" | Malformed string

type_synonym 'a loaded = "(config_error, 'a) result"

definition ensure :: "bool \<Rightarrow> string \<Rightarrow> string list \<Rightarrow> unit loaded" where
  "ensure ok text values = (if ok then Inr () else Inl (Message text values))"

fun each :: "('a \<Rightarrow> unit loaded) \<Rightarrow> 'a list \<Rightarrow> unit loaded" where
  "each f [] = Inr ()"
| "each f (x # xs) = and_then (f x) (\<lambda>_. each f xs)"

text \<open>\<open>SocketAddr::from_str\<close>, as far as whether it accepts.\<close>

definition read_port :: "string \<Rightarrow> (nat \<times> string) option" where
  "read_port s = (case s of c # t \<Rightarrow> if c = CHR '':'' then read_number 10 (length t) 65535 True t else None | [] \<Rightarrow> None)"

definition read_scope :: "string \<Rightarrow> string" where
  "read_scope s =
     (case s of
        c # t \<Rightarrow> if c = CHR ''%'' then (case read_number 10 (length t) (2 ^ 32 - 1) True t of Some (_, r) \<Rightarrow> r | None \<Rightarrow> s) else s
      | [] \<Rightarrow> s)"

definition is_socket_addr :: "string \<Rightarrow> bool" where
  "is_socket_addr s =
     (let v4 = Option.bind (read_ipv4_addr s) (\<lambda>(_, r). read_port r);
          v6 = (case s of
                  c # t \<Rightarrow>
                    if c = CHR ''['' then
                      Option.bind (read_ipv6_addr t) (\<lambda>(_, r). case read_scope r of d # u \<Rightarrow> if d = CHR '']'' then read_port u else None | [] \<Rightarrow> None)
                    else None
                | [] \<Rightarrow> None)
      in case (case v4 of Some x \<Rightarrow> Some x | None \<Rightarrow> v6) of Some (_, r) \<Rightarrow> r = [] | None \<Rightarrow> False)"

definition has_parent_segment :: "string \<Rightarrow> bool" where
  "has_parent_segment path \<longleftrightarrow> list_ex (\<lambda>segment. segment = ''..'') (path_components path)"

definition nul :: char where "nul = CHR 0x00"

definition dquote :: string where "dquote = [CHR 0x22]"

fun has_white :: "string \<Rightarrow> bool" where
  "has_white [] = False"
| "has_white (c # s) \<longleftrightarrow> ws_len (c # s) \<noteq> 0 \<or> has_white s"

definition validate_cookie_domain :: "string \<Rightarrow> (string, unit) result" where
  "validate_cookie_domain v =
     (if v = [] then Inr ()
      else if CHR ''.'' \<notin> set v
      then Inl (''a one-label domain is a public suffix to every browser '' @ em_dash @ '' the cookie can never share it. Use a two-label parent ('' @ dquote @ ''app.localhost'' @ dquote @ '', '' @ dquote @ ''example.com'' @ dquote @
        '') covering every serving host'')
      else if starts_with ''.'' v \<or> ends_with ''.'' v then Inl ''it must not start or end with a dot''
      else if contains_str ''..'' v then Inl ''it must not contain consecutive dots''
      else if has_white v \<or> has_control v \<or> list_ex (\<lambda>c. c \<in> {CHR '':'', CHR ''/'', CHR 0x5C, CHR ''%'', CHR ''?'', CHR ''#'', CHR ''@''}) v
      then Inl ''no scheme, port, path or whitespace can ride along''
      else Inr ())"

definition validate_rate_limit :: "rate_limit_config \<Rightarrow> unit loaded" where
  "validate_rate_limit c =
     and_then (ensure (rlc_capacity c \<noteq> 0) ''`rate_limit.capacity` must be greater than zero'' []) (\<lambda>_.
     ensure (case rlc_refill_per_second c of Some r \<Rightarrow> r > 0 | None \<Rightarrow> False) ''`rate_limit.refill_per_second` must be a positive finite number'' [])"

definition validate_origin :: "string list \<Rightarrow> string \<Rightarrow> unit loaded" where
  "validate_origin origins origin =
     and_then (ensure (origin \<noteq> []) ''`cors.allowed_origins` must not contain empty strings'' []) (\<lambda>_.
     if origin = ''*'' then
       ensure (length origins \<le> 1) ''`cors.allowed_origins` wildcard `*` cannot be combined with specific origins'' []
     else
       and_then (ensure (starts_with ''http://'' origin \<or> starts_with ''https://'' origin)
         ''invalid origin `{}` in `cors.allowed_origins`; expected `http://host[:port]`, `https://host[:port]` or `*`'' [origin]) (\<lambda>_.
       ensure (\<not> ends_with ''/'' origin)
         ''invalid origin `{}` in `cors.allowed_origins`; origins must not end with a path separator'' [origin]))"

definition validate_cors :: "cors_config \<Rightarrow> unit loaded" where
  "validate_cors c = each (validate_origin (cor_allowed_origins c)) (cor_allowed_origins c)"

definition header_entries :: "security_headers_config \<Rightarrow> (string \<times> string) list" where
  "header_entries c =
     [(''x_content_type_options'', shc_x_content_type_options c), (''x_frame_options'', shc_x_frame_options c),
      (''referrer_policy'', shc_referrer_policy c), (''content_security_policy'', shc_content_security_policy c),
      (''strict_transport_security'', shc_strict_transport_security c)]"

definition validate_security_headers :: "security_headers_config \<Rightarrow> unit loaded" where
  "validate_security_headers c =
     each (\<lambda>(key, v). ensure (v = [] \<or> header_ok v) ''invalid header value for `security_headers.{}`: {}'' [key, v]) (header_entries c)"

definition reserved_header_names :: "string list" where
  "reserved_header_names = [''host'', ''content-length'', ''connection'', ''transfer-encoding'', ''cookie'']"

definition validate_endpoint_header :: "net_crates \<Rightarrow> string \<Rightarrow> string \<times> string \<Rightarrow> unit loaded" where
  "validate_endpoint_header nc endpoint h =
     and_then (ensure (lowercase (fst h) \<notin> set reserved_header_names)
       ''`external_api` endpoint `{}` sets reserved header `{name}`; the HTTP client owns it'' [endpoint, fst h]) (\<lambda>_.
     and_then (ensure (nc_header_name nc (fst h)) ''`external_api` endpoint `{}` has an invalid header name `{name}`'' [endpoint, fst h]) (\<lambda>_.
     ensure (snd h \<noteq> []) ''`external_api` endpoint `{}` header `{name}` is empty'' [endpoint, fst h]))"

definition query_name_char :: "char \<Rightarrow> bool" where
  "query_name_char c \<longleftrightarrow> is_alnum c \<or> c = CHR ''_'' \<or> c = CHR ''-'' \<or> c = CHR ''.''"

definition validate_endpoint_query :: "string \<Rightarrow> string \<times> string \<Rightarrow> unit loaded" where
  "validate_endpoint_query endpoint q =
     and_then (ensure (fst q \<noteq> [] \<and> list_all query_name_char (fst q))
       ''`external_api` endpoint `{}` has an invalid query parameter name `{name}`; expected letters, digits, `_`, `-` or `.` (the `apikey`/`key` shape)''
       [endpoint, fst q]) (\<lambda>_.
     ensure (snd q \<noteq> []) ''`external_api` endpoint `{}` query parameter `{name}` is empty'' [endpoint, fst q])"

definition validate_endpoint :: "net_crates \<Rightarrow> string list \<Rightarrow> external_endpoint_config \<Rightarrow> unit loaded" where
  "validate_endpoint nc seen e =
     and_then (ensure (valid_slug (eec_name e))
       ''invalid `external_api` endpoint name `{}`; expected the same slug shape the CMS enforces: 1-64 characters of lowercase letters, digits and single dashes''
       [eec_name e]) (\<lambda>_.
     and_then (ensure (eec_name e \<notin> set seen) ''duplicate `external_api` endpoint name `{}`'' [eec_name e]) (\<lambda>_.
     and_then (case nc_url_scheme nc (eec_url e) of
         None \<Rightarrow> Inl (Message ''`external_api` endpoint `{}` has an invalid URL `{}`'' [eec_name e, eec_url e])
       | Some scheme \<Rightarrow> ensure (scheme = ''http'' \<or> scheme = ''https'')
           ''`external_api` endpoint `{}` URL must use http or https (got `{}`)'' [eec_name e, scheme]) (\<lambda>_.
     and_then (each (validate_endpoint_header nc (eec_name e)) (eec_headers e)) (\<lambda>_.
     each (validate_endpoint_query (eec_name e)) (eec_query e)))))"

fun validate_endpoints :: "net_crates \<Rightarrow> string list \<Rightarrow> external_endpoint_config list \<Rightarrow> unit loaded" where
  "validate_endpoints nc seen [] = Inr ()"
| "validate_endpoints nc seen (e # es) = and_then (validate_endpoint nc seen e) (\<lambda>_. validate_endpoints nc (eec_name e # seen) es)"

definition validate_external_api :: "net_crates \<Rightarrow> external_api_config \<Rightarrow> unit loaded" where
  "validate_external_api nc c =
     (if eac_endpoints c = [] then Inr ()
      else
        and_then (ensure (eac_timeout_secs c \<noteq> 0 \<and> eac_timeout_secs c \<le> 60)
          ''`external_api.timeout_secs` must be between 1 and 60 (and below `server.request_timeout_secs` so the proxy answers before the global request timeout)'' []) (\<lambda>_.
        and_then (ensure (eac_response_limit_bytes c \<noteq> 0 \<and> eac_response_limit_bytes c \<le> max_external_api_response_bytes)
          ''`external_api.response_limit_bytes` must be between 1 and {} bytes'' [show_nat max_external_api_response_bytes]) (\<lambda>_.
        validate_endpoints nc [] (eac_endpoints c))))"

definition validate_database :: "database_config \<Rightarrow> unit loaded" where
  "validate_database c =
     (if \<not> dbc_enabled c then Inr ()
      else
        and_then (ensure (dbc_max_connections c \<noteq> 0) ''`database.max_connections` must be greater than zero'' []) (\<lambda>_.
        let url = trim (dbc_url c) in
        ensure (starts_with ''sqlite:'' url \<and> length ''sqlite:'' < length url)
          ''invalid `database.url` `{}`; expected a SQLite URL such as `sqlite://wallermax.db?mode=rwc` or `sqlite::memory:`'' [url]))"

definition validate_auth :: "database_config \<Rightarrow> auth_config \<Rightarrow> unit loaded" where
  "validate_auth dbc c =
     (if \<not> acf_enabled c then Inr ()
      else
        and_then (ensure (dbc_enabled dbc) ''`auth.enabled` requires `database.enabled`'' []) (\<lambda>_.
        and_then (ensure (min_jwt_secret_len \<le> length (acf_jwt_secret c))
          ''`auth.jwt_secret` must be at least {} characters; provide it via the WALLERMAX_AUTH__JWT_SECRET environment variable or wallermax.local.toml in production''
          [show_nat min_jwt_secret_len]) (\<lambda>_.
        and_then (ensure (acf_token_ttl_secs c \<noteq> 0) ''`auth.token_ttl_secs` must be greater than zero'' []) (\<lambda>_.
        and_then (ensure (acf_min_password_len c \<noteq> 0 \<and> acf_min_password_len c \<le> max_password_len)
          ''`auth.min_password_len` must be between 1 and {}'' [show_nat max_password_len]) (\<lambda>_.
        and_then (ensure (trim (acf_issuer c) \<noteq> []) ''`auth.issuer` must not be empty'' []) (\<lambda>_.
        and_then (ensure (acf_refresh_token_ttl_secs c \<noteq> 0) ''`auth.refresh_token_ttl_secs` must be greater than zero'' []) (\<lambda>_.
        (case validate_cookie_domain (acf_cookie_domain c) of
           Inl problem \<Rightarrow> Inl (Message (''`auth.cookie_domain` is not a bare parent domain: {}. Write it without scheme, port, path or leading dot '' @ em_dash @
             '' e.g. '' @ dquote @ ''app.localhost'' @ dquote @ '' or '' @ dquote @ ''example.com'' @ dquote @ '' '' @ em_dash @
             '' or leave it empty for the host-only cookie'') [problem])
         | Inr _ \<Rightarrow> Inr ()))))))))"

definition validate_host :: "string \<Rightarrow> unit loaded" where
  "validate_host host =
     and_then (ensure (host \<noteq> []) ''`cms.hosts` entries must be non-empty hostnames'' []) (\<lambda>_.
     and_then (case find host_forbidden host of
         Some bad \<Rightarrow> Inl (Message (''invalid `cms.hosts` entry `{}` (character `{}`): expected a bare hostname such as `cms.example.com` '' @ em_dash @
           '' no scheme, port, path or whitespace'') [host, [bad]])
       | None \<Rightarrow> Inr ()) (\<lambda>_.
     ensure (\<not> starts_with ''.'' host \<and> \<not> ends_with ''.'' host \<and> \<not> contains_str ''..'' host)
       ''invalid `cms.hosts` entry `{}`: expected a bare hostname such as `cms.example.com` (no leading/trailing dot, no empty labels)'' [host]))"

definition site_url_shape :: "string \<Rightarrow> bool" where
  "site_url_shape s \<longleftrightarrow> (starts_with ''http://'' s \<or> starts_with ''https://'' s) \<and> trim s \<noteq> [] \<and> \<not> ends_with ''/'' s \<and> \<not> has_white s"

definition validate_cms :: "app_config \<Rightarrow> unit loaded" where
  "validate_cms cf =
     (let c = cf_cms cf in
      and_then (each validate_host (cmc_hosts c)) (\<lambda>_.
      and_then (case cmc_default_page c of
          Some slug \<Rightarrow> ensure (valid_slug slug)
            ''invalid `cms.default_page` `{}`; expected the same slug shape the panel forms enforce: 1-64 characters of lowercase letters, digits and single dashes'' [slug]
        | None \<Rightarrow> Inr ()) (\<lambda>_.
      and_then (case cmc_site_url c of
          Some url \<Rightarrow> ensure (site_url_shape url)
            ''invalid `cms.site_url` `{}`; expected an absolute origin such as `https://www.example.com` without a trailing slash'' [url]
        | None \<Rightarrow> Inr ()) (\<lambda>_.
      and_then (ensure (cmc_media_dir c \<noteq> [] \<and> nul \<notin> set (cmc_media_dir c)) ''`cms.media_dir` must be a non-empty path'' []) (\<lambda>_.
      and_then (ensure (\<not> has_parent_segment (cmc_media_dir c)) ''`cms.media_dir` must not contain `..` path segments: {}'' [cmc_media_dir c]) (\<lambda>_.
      and_then (ensure (min_media_max_bytes \<le> cmc_media_max_bytes c \<and> cmc_media_max_bytes c \<le> max_media_max_bytes)
        ''`cms.media_max_bytes` must be between {} and {} bytes (got {})''
        [show_nat min_media_max_bytes, show_nat max_media_max_bytes, show_nat (cmc_media_max_bytes c)]) (\<lambda>_.
      and_then (ensure (min_index_page_size \<le> cmc_index_page_size c \<and> cmc_index_page_size c \<le> max_index_page_size)
        ''`cms.index_page_size` must be between {} and {} (got {})''
        [show_nat min_index_page_size, show_nat max_index_page_size, show_nat (cmc_index_page_size c)]) (\<lambda>_.
      and_then (ensure (cmc_max_revisions c \<le> max_max_revisions) ''`cms.max_revisions` must be between 0 (unlimited) and {} (got {})''
        [show_nat max_max_revisions, show_nat (cmc_max_revisions c)]) (\<lambda>_.
      if \<not> cmc_enabled c then Inr ()
      else
        and_then (ensure (cmc_hosts c = [] \<or> stc_enabled (cf_static_files cf))
          ''`cms.hosts` requires `static.enabled`: the CMS host borrows its shared stylesheets (`/assets/*`) from the static root'' []) (\<lambda>_.
        and_then (ensure (dbc_enabled (cf_database cf) \<and> acf_enabled (cf_auth cf))
          ''`cms.enabled` requires both `database.enabled` and `auth.enabled`'' []) (\<lambda>_.
        ensure (tpc_enabled (cf_templates cf)) ''`cms.enabled` requires `templates.enabled` (CMS pages are `.jhs` content)'' [])))))))))))"

definition validate_metrics :: "metrics_config \<Rightarrow> unit loaded" where
  "validate_metrics c =
     (let path = trim (mtc_path c) in
      and_then (ensure (path \<noteq> [] \<and> starts_with ''/'' path) ''invalid `metrics.path` `{}`; expected an absolute path such as `/metrics`'' [mtc_path c]) (\<lambda>_.
      ensure (\<not> has_parent_segment path) ''`metrics.path` must not contain `..` path segments: {}'' [path]))"

definition validate_tls :: "tls_config \<Rightarrow> unit loaded" where
  "validate_tls c =
     and_then (case tlc_http_listen c of
         Some listen \<Rightarrow> ensure (is_socket_addr listen) ''invalid `tls.http_listen` `{}`; expected `host:port` such as `127.0.0.1:8080`'' [listen]
       | None \<Rightarrow> Inr ()) (\<lambda>_.
     if \<not> tlc_enabled c then Inr ()
     else each (\<lambda>(key, v). ensure (trim v \<noteq> []) ''`tls.{}` must point at a PEM file while `tls.enabled = true`'' [key])
       [(''cert_path'', tlc_cert_path c), (''key_path'', tlc_key_path c)])"

definition validate_trusted_proxies :: "server_config \<Rightarrow> unit loaded" where
  "validate_trusted_proxies c =
     each (\<lambda>entry. ensure (parse_cidr entry \<noteq> None)
       ''invalid `server.trusted_proxies` entry `{}`; expected an IP address or CIDR block such as `10.0.0.4`, `10.0.0.0/8` or `fd00::/8`'' [entry])
       (srv_trusted_proxies c)"

definition validate_static :: "static_config \<Rightarrow> unit loaded" where
  "validate_static c =
     and_then (ensure (stc_root_dir c \<noteq> [] \<and> nul \<notin> set (stc_root_dir c)) ''`static.root_dir` must be a non-empty path'' []) (\<lambda>_.
     and_then (ensure (\<not> has_parent_segment (stc_root_dir c)) ''`static.root_dir` must not contain `..` path segments: {}'' [stc_root_dir c]) (\<lambda>_.
     let index_file = stc_index_file c in
     ensure (index_file \<noteq> [] \<and> nul \<notin> set index_file \<and> CHR ''/'' \<notin> set index_file \<and> CHR 0x5C \<notin> set index_file \<and>
         index_file \<noteq> ''.'' \<and> index_file \<noteq> ''..'')
       ''`static.index_file` must be a plain file name (no path separators, no `..`)'' []))"

definition validate_module_name :: "string \<Rightarrow> unit loaded" where
  "validate_module_name raw =
     (let name = trim raw in
      ensure (name \<noteq> [] \<and> CHR ''/'' \<notin> set name \<and> CHR 0x5C \<notin> set name \<and> nul \<notin> set name)
        ''`templates.forbidden_modules` entries must be plain module names, not paths (got {})'' [name])"

definition validate_sidecar :: "string \<Rightarrow> sidecar_config \<Rightarrow> unit loaded" where
  "validate_sidecar backend c =
     and_then (ensure (sdc_workers c \<noteq> 0 \<and> sdc_workers c \<le> 16) ''`templates.sidecar.workers` must be between 1 and 16'' []) (\<lambda>_.
     and_then (ensure (sdc_startup_timeout_ms c \<noteq> 0 \<and> sdc_request_timeout_ms c \<noteq> 0)
       ''`templates.sidecar.startup_timeout_ms` and `templates.sidecar.request_timeout_ms` must be greater than zero'' []) (\<lambda>_.
     and_then (ensure (100 \<le> sdc_render_budget_ms c) ''`templates.sidecar.render_budget_ms` must be at least 100'' []) (\<lambda>_.
     and_then (ensure (sdc_render_budget_ms c < sdc_request_timeout_ms c)
       ''`templates.sidecar.request_timeout_ms` must exceed `templates.sidecar.render_budget_ms` (the client must outwait the hard-kill budget, or every budgeted render would time out client-side first)'' []) (\<lambda>_.
     and_then (ensure (backend = ''boa'' \<or> trim (sdc_script c) \<noteq> [] \<and> nul \<notin> set (sdc_script c))
       ''`templates.sidecar.script` must be a non-empty path while the sidecar backend is selected'' []) (\<lambda>_.
     ensure (backend = ''boa'' \<or> \<not> has_parent_segment (sdc_script c))
       ''`templates.sidecar.script` must not contain `..` path segments: {}'' [sdc_script c])))))"

definition validate_templates :: "templates_config \<Rightarrow> unit loaded" where
  "validate_templates c =
     and_then (ensure (tpc_views_dir c \<noteq> [] \<and> nul \<notin> set (tpc_views_dir c)) ''`templates.views_dir` must be a non-empty path'' []) (\<lambda>_.
     and_then (ensure (\<not> has_parent_segment (tpc_views_dir c)) ''`templates.views_dir` must not contain `..` path segments: {}'' [tpc_views_dir c]) (\<lambda>_.
     and_then (ensure (tpc_loop_iteration_limit c \<noteq> 0) ''`templates.loop_iteration_limit` must be greater than zero'' []) (\<lambda>_.
     and_then (ensure (\<not> tpc_require_enabled c \<or> trim (tpc_modules_dir c) \<noteq> [] \<and> nul \<notin> set (tpc_modules_dir c))
       ''`templates.modules_dir` must be a non-empty path'' []) (\<lambda>_.
     and_then (ensure (\<not> has_parent_segment (tpc_modules_dir c)) ''`templates.modules_dir` must not contain `..` path segments: {}'' [tpc_modules_dir c]) (\<lambda>_.
     and_then (each validate_module_name (tpc_forbidden_modules c)) (\<lambda>_.
     let backend = trim (tpc_backend c) in
     and_then (ensure (backend \<in> {''boa'', ''sidecar'', ''auto''})
       (''`templates.backend` must be one of '' @ dquote @ ''boa'' @ dquote @ '', '' @ dquote @ ''sidecar'' @ dquote @ '' or '' @ dquote @ ''auto'' @ dquote @ '' (got {})'') [backend]) (\<lambda>_.
     validate_sidecar backend (tpc_sidecar c))))))))"

definition log_levels :: "string list" where
  "log_levels = [''trace'', ''debug'', ''info'', ''warn'', ''error'']"

definition validate_config :: "net_crates \<Rightarrow> app_config \<Rightarrow> unit loaded" where
  "validate_config nc c =
     and_then (ensure (log_level (cf_logging c) \<in> set log_levels)
       ''invalid `logging.level` value `{}`; expected one of: {}'' [log_level (cf_logging c), join_with '', '' log_levels]) (\<lambda>_.
     and_then (ensure (srv_request_timeout_secs (cf_server c) \<noteq> 0) ''`server.request_timeout_secs` must be greater than zero'' []) (\<lambda>_.
     and_then (ensure (srv_shutdown_timeout_secs (cf_server c) \<noteq> 0) ''`server.shutdown_timeout_secs` must be greater than zero'' []) (\<lambda>_.
     and_then (ensure (srv_max_body_size_bytes (cf_server c) \<noteq> 0) ''`server.max_body_size_bytes` must be greater than zero'' []) (\<lambda>_.
     and_then (validate_rate_limit (cf_rate_limit c)) (\<lambda>_.
     and_then (validate_cors (cf_cors c)) (\<lambda>_.
     and_then (validate_security_headers (cf_security_headers c)) (\<lambda>_.
     and_then (validate_external_api nc (cf_external_api c)) (\<lambda>_.
     and_then (validate_database (cf_database c)) (\<lambda>_.
     and_then (validate_auth (cf_database c) (cf_auth c)) (\<lambda>_.
     and_then (validate_cms c) (\<lambda>_.
     and_then (validate_static (cf_static_files c)) (\<lambda>_.
     and_then (validate_templates (cf_templates c)) (\<lambda>_.
     and_then (validate_metrics (cf_metrics c)) (\<lambda>_.
     and_then (validate_tls (cf_tls c)) (\<lambda>_.
     validate_trusted_proxies (cf_server c))))))))))))))))"

section \<open>Loading\<close>

definition normalize_config :: "app_config \<Rightarrow> app_config" where
  "normalize_config c = c\<lparr>cf_cms := (cf_cms c)\<lparr>cmc_hosts := map normalize_hostname (cmc_hosts (cf_cms c))\<rparr>\<rparr>"

text \<open>The sources in their order, and what the configuration crate makes of them.\<close>

datatype source = Defaults app_config | Optional_File string | Toml_Text string | Environment

type_synonym builder = "source list \<Rightarrow> (string, app_config) result"

definition finish_load :: "net_crates \<Rightarrow> builder \<Rightarrow> source list \<Rightarrow> app_config loaded" where
  "finish_load nc build sources =
     (case build sources of
        Inl e \<Rightarrow> Inl (Malformed e)
      | Inr raw \<Rightarrow> (let c = normalize_config raw in and_then (validate_config nc c) (\<lambda>_. Inr c)))"

definition default_config_file :: string where "default_config_file = ''wallermax''"

definition load_config :: "net_crates \<Rightarrow> builder \<Rightarrow> (string \<Rightarrow> string option) \<Rightarrow> app_config loaded" where
  "load_config nc build env =
     (let config_file = (case env ''WALLERMAX_CONFIG'' of Some f \<Rightarrow> f | None \<Rightarrow> default_config_file) in
      finish_load nc build [Defaults default_config, Optional_File config_file, Optional_File ''wallermax.local'', Environment])"

definition toml_layer :: "string option \<Rightarrow> source list" where
  "toml_layer layer = (case layer of Some text \<Rightarrow> if trim text \<noteq> [] then [Toml_Text text] else [] | None \<Rightarrow> [])"

definition load_from_toml_layers :: "net_crates \<Rightarrow> builder \<Rightarrow> string option \<Rightarrow> string option \<Rightarrow> app_config loaded" where
  "load_from_toml_layers nc build layer1 layer2 = finish_load nc build (Defaults default_config # toml_layer layer1 @ toml_layer layer2)"

definition header_pairs :: "security_headers_config \<Rightarrow> (string \<times> string) list" where
  "header_pairs c =
     List.map_filter (\<lambda>(name, v). if header_ok v then Some (name, v) else None)
       (filter (\<lambda>(name, v). v \<noteq> [])
         [(''x-content-type-options'', shc_x_content_type_options c), (''x-frame-options'', shc_x_frame_options c),
          (''referrer-policy'', shc_referrer_policy c), (''content-security-policy'', shc_content_security_policy c),
          (''strict-transport-security'', shc_strict_transport_security c)])"

section \<open>What a loaded configuration is\<close>

lemma ensure_iff [simp]: "ensure ok text values = Inr () \<longleftrightarrow> ok"
  by (simp add: ensure_def)

lemma ensure_True [simp]: "ensure True text values = Inr ()"
  by simp

lemma and_then_Inr [simp]: "and_then r Inr = r"
  by (cases r) simp_all

lemma each_iff [simp]: "each f xs = Inr () \<longleftrightarrow> (\<forall>x \<in> set xs. f x = Inr ())"
  by (induction xs) (auto simp: and_then_eq_Inr)

lemma and_then_unit: "and_then r (\<lambda>_. s) = Inr () \<longleftrightarrow> r = Inr () \<and> s = Inr ()"
  by (auto simp: and_then_eq_Inr)

text \<open>The labels of a host name, between its dots.\<close>

definition labels :: "string \<Rightarrow> string list" where
  "labels host = split_on (CHR ''.'') host"

lemma join_with_append: "ps \<noteq> [] \<Longrightarrow> qs \<noteq> [] \<Longrightarrow> join_with d (ps @ qs) = join_with d ps @ d @ join_with d qs"
proof (induction ps)
  case (Cons p ps)
  then show ?case by (cases ps; cases qs) auto
qed simp

lemma empty_label:
  assumes "h \<noteq> []"
  shows "[] \<in> set (split_on c h) \<longleftrightarrow> starts_with [c] h \<or> ends_with [c] h \<or> contains_str [c, c] h"
proof
  assume "[] \<in> set (split_on c h)"
  then obtain ps qs where d: "split_on c h = ps @ [] # qs" by (auto simp: in_set_conv_decomp)
  have h: "h = join_with [c] (ps @ [] # qs)" using join_split_on [of c h] by (simp add: d)
  have front: "join_with [c] ([] # qs) = c # join_with [c] qs" if "qs \<noteq> []" using that by (cases qs) auto
  consider "ps = []" "qs = []" | "ps = []" "qs \<noteq> []" | "ps \<noteq> []" "qs = []" | "ps \<noteq> []" "qs \<noteq> []" by blast
  then show "starts_with [c] h \<or> ends_with [c] h \<or> contains_str [c, c] h"
  proof cases
    case 1
    with h assms show ?thesis by simp
  next
    case 2
    with h front show ?thesis by (simp add: starts_with_iff)
  next
    case 3
    with h join_with_append [of ps "[[]]" "[c]"] show ?thesis by (simp add: ends_with_iff)
  next
    case 4
    with h join_with_append [of ps "[] # qs" "[c]"] front show ?thesis unfolding contains_str_iff by simp blast
  qed
next
  assume "starts_with [c] h \<or> ends_with [c] h \<or> contains_str [c, c] h"
  then consider t where "h = [] @ c # t" | t where "h = t @ c # []" | u v where "h = u @ c # c # v"
    by (auto simp: starts_with_iff ends_with_iff contains_str_iff)
  then show "[] \<in> set (split_on c h)" by cases (simp_all add: split_on_joined)
qed

definition host_sound :: "string \<Rightarrow> bool" where
  "host_sound h \<longleftrightarrow> [] \<notin> set (labels h) \<and> (\<forall>c \<in> set h. \<not> host_forbidden c)"

lemma validate_host_iff: "validate_host h = Inr () \<longleftrightarrow> host_sound h"
  using empty_label [of h "CHR ''.''"]
  by (cases "h = []") (auto simp: validate_host_def host_sound_def labels_def and_then_unit find_None_iff split: option.splits dest: find_SomeD)

definition stays_inside :: "string \<Rightarrow> bool" where
  "stays_inside path \<longleftrightarrow> ''..'' \<notin> set (path_components path)"

lemma has_parent_segment_iff: "has_parent_segment path \<longleftrightarrow> \<not> stays_inside path"
  by (auto simp: has_parent_segment_def stays_inside_def list_ex_iff)

lemma validate_endpoints_iff:
  "validate_endpoints nc seen es = Inr () \<longleftrightarrow>
    distinct (map eec_name es) \<and> set (map eec_name es) \<inter> set seen = {} \<and> (\<forall>e \<in> set es. validate_endpoint nc [] e = Inr ())"
  by (induction es arbitrary: seen) (auto simp: and_then_unit validate_endpoint_def)

text \<open>
  The configurations the server can run with: the features that are on have what they rest on, the
  limits leave room, no directory climbs out of where it is, every host can be matched, every upstream
  is reached under one name over HTTP and without the headers the client owns.
\<close>

definition features_sound :: "app_config \<Rightarrow> bool" where
  "features_sound c \<longleftrightarrow>
     (acf_enabled (cf_auth c) \<longrightarrow> dbc_enabled (cf_database c)) \<and>
     (cmc_enabled (cf_cms c) \<longrightarrow> dbc_enabled (cf_database c) \<and> acf_enabled (cf_auth c) \<and> tpc_enabled (cf_templates c) \<and>
        (cmc_hosts (cf_cms c) \<noteq> [] \<longrightarrow> stc_enabled (cf_static_files c)))"

definition secrets_sound :: "app_config \<Rightarrow> bool" where
  "secrets_sound c \<longleftrightarrow>
     (acf_enabled (cf_auth c) \<longrightarrow>
        min_jwt_secret_len \<le> length (acf_jwt_secret (cf_auth c)) \<and> 0 < acf_token_ttl_secs (cf_auth c) \<and>
        0 < acf_refresh_token_ttl_secs (cf_auth c) \<and> acf_min_password_len (cf_auth c) \<in> {1..max_password_len})"

definition limits_sound :: "app_config \<Rightarrow> bool" where
  "limits_sound c \<longleftrightarrow>
     0 < srv_request_timeout_secs (cf_server c) \<and> 0 < srv_max_body_size_bytes (cf_server c) \<and>
     0 < rlc_capacity (cf_rate_limit c) \<and> (\<exists>r > 0. rlc_refill_per_second (cf_rate_limit c) = Some r) \<and>
     cmc_index_page_size (cf_cms c) \<in> {min_index_page_size..max_index_page_size} \<and>
     cmc_media_max_bytes (cf_cms c) \<in> {min_media_max_bytes..max_media_max_bytes} \<and>
     cmc_max_revisions (cf_cms c) \<le> max_max_revisions \<and>
     sdc_render_budget_ms (tpc_sidecar (cf_templates c)) < sdc_request_timeout_ms (tpc_sidecar (cf_templates c))"

definition paths_sound :: "app_config \<Rightarrow> bool" where
  "paths_sound c \<longleftrightarrow>
     (\<forall>path \<in> {stc_root_dir (cf_static_files c), tpc_views_dir (cf_templates c), tpc_modules_dir (cf_templates c), cmc_media_dir (cf_cms c)}.
        stays_inside path) \<and> stays_inside (stc_index_file (cf_static_files c))"

definition upstreams_sound :: "net_crates \<Rightarrow> app_config \<Rightarrow> bool" where
  "upstreams_sound nc c \<longleftrightarrow>
     distinct (map eec_name (eac_endpoints (cf_external_api c))) \<and>
     (\<forall>e \<in> set (eac_endpoints (cf_external_api c)). nc_url_scheme nc (eec_url e) \<in> {Some ''http'', Some ''https''} \<and>
        (\<forall>h \<in> set (eec_headers e). lowercase (fst h) \<notin> set reserved_header_names \<and> nc_header_name nc (fst h)))"

lemma auth_sound: "validate_auth db a = Inr () \<Longrightarrow> acf_enabled a \<Longrightarrow>
    dbc_enabled db \<and> min_jwt_secret_len \<le> length (acf_jwt_secret a) \<and> 0 < acf_token_ttl_secs a \<and>
        0 < acf_refresh_token_ttl_secs a \<and> acf_min_password_len a \<in> {1..max_password_len}"
  by (auto simp: validate_auth_def and_then_unit split: sum.splits)

lemma validated_sections:
  assumes "validate_config nc c = Inr ()"
  shows "validate_rate_limit (cf_rate_limit c) = Inr ()" "validate_security_headers (cf_security_headers c) = Inr ()"
    "validate_external_api nc (cf_external_api c) = Inr ()" "validate_auth (cf_database c) (cf_auth c) = Inr ()"
    "validate_cms c = Inr ()" "validate_static (cf_static_files c) = Inr ()" "validate_templates (cf_templates c) = Inr ()"
    "validate_trusted_proxies (cf_server c) = Inr ()"
    "0 < srv_request_timeout_secs (cf_server c)" "0 < srv_max_body_size_bytes (cf_server c)"
  using assms by (simp_all add: validate_config_def and_then_unit)

lemma cms_sound:
  assumes "validate_cms c = Inr ()"
  shows "\<forall>h \<in> set (cmc_hosts (cf_cms c)). host_sound h" "stays_inside (cmc_media_dir (cf_cms c))"
    "cmc_index_page_size (cf_cms c) \<in> {min_index_page_size..max_index_page_size}"
    "cmc_media_max_bytes (cf_cms c) \<in> {min_media_max_bytes..max_media_max_bytes}"
    "cmc_max_revisions (cf_cms c) \<le> max_max_revisions"
    "cmc_enabled (cf_cms c) \<Longrightarrow> dbc_enabled (cf_database c) \<and> acf_enabled (cf_auth c) \<and> tpc_enabled (cf_templates c) \<and>
      (cmc_hosts (cf_cms c) \<noteq> [] \<longrightarrow> stc_enabled (cf_static_files c))"
  using assms by (auto simp: validate_cms_def Let_def and_then_unit validate_host_iff has_parent_segment_iff split: if_splits)

lemma plain_name_inside: "CHR ''/'' \<notin> set s \<Longrightarrow> CHR 0x5C \<notin> set s \<Longrightarrow> s \<noteq> ''..'' \<Longrightarrow> stays_inside s"
  by (simp add: stays_inside_def path_components_def split_on_fresh)

lemma paths_are_sound: "validate_config nc c = Inr () \<Longrightarrow> paths_sound c"
  using validated_sections(6,7) [of nc c] cms_sound(2) [OF validated_sections(5) [of nc c]]
  by (auto simp: paths_sound_def validate_static_def validate_templates_def Let_def and_then_unit has_parent_segment_iff intro: plain_name_inside)

lemma upstreams_are_sound: "validate_external_api nc a = Inr () \<Longrightarrow>
    distinct (map eec_name (eac_endpoints a)) \<and>
     (\<forall>e \<in> set (eac_endpoints a). nc_url_scheme nc (eec_url e) \<in> {Some ''http'', Some ''https''} \<and>
        (\<forall>h \<in> set (eec_headers e). lowercase (fst h) \<notin> set reserved_header_names \<and> nc_header_name nc (fst h)))"
  by (auto simp: validate_external_api_def and_then_unit validate_endpoints_iff validate_endpoint_def validate_endpoint_header_def
      split: if_splits option.splits)

lemma limits_are_sound:
  assumes "validate_config nc c = Inr ()"
  shows "limits_sound c"
proof -
  have "\<exists>r > 0. rlc_refill_per_second (cf_rate_limit c) = Some r" "0 < rlc_capacity (cf_rate_limit c)"
    using validated_sections(1) [OF assms] by (auto simp: validate_rate_limit_def and_then_unit split: option.splits)
  moreover have "sdc_render_budget_ms (tpc_sidecar (cf_templates c)) < sdc_request_timeout_ms (tpc_sidecar (cf_templates c))"
    using validated_sections(7) [OF assms] by (simp add: validate_templates_def validate_sidecar_def Let_def and_then_unit)
  ultimately show ?thesis
    using validated_sections(9,10) [OF assms] cms_sound(3,4,5) [OF validated_sections(5) [OF assms]] by (simp add: limits_sound_def)
qed

definition config_sound :: "net_crates \<Rightarrow> app_config \<Rightarrow> bool" where
  "config_sound nc c \<longleftrightarrow> features_sound c \<and> secrets_sound c \<and> limits_sound c \<and> paths_sound c \<and> upstreams_sound nc c \<and>
     (\<forall>h \<in> set (cmc_hosts (cf_cms c)). host_sound h) \<and> (\<forall>entry \<in> set (srv_trusted_proxies (cf_server c)). parse_cidr entry \<noteq> None)"

lemma finish_load_Inr: "finish_load nc build sources = Inr c \<longleftrightarrow>
    (\<exists>raw. build sources = Inr raw \<and> c = normalize_config raw \<and> validate_config nc c = Inr ())"
  by (auto simp: finish_load_def Let_def and_then_eq_Inr split: sum.split)

lemma validated_sound:
  assumes "validate_config nc c = Inr ()"
  shows "config_sound nc c"
proof -
  note v = validated_sections [OF assms]
  have "features_sound c" "secrets_sound c"
    using auth_sound [OF v(4)] cms_sound(6) [OF v(5)] by (auto simp: features_sound_def secrets_sound_def)
  moreover have "\<forall>entry \<in> set (srv_trusted_proxies (cf_server c)). parse_cidr entry \<noteq> None"
    using v(8) by (simp add: validate_trusted_proxies_def)
  ultimately show ?thesis
    using limits_are_sound [OF assms] paths_are_sound [OF assms] upstreams_are_sound [OF v(3)] cms_sound(1) [OF v(5)]
    by (simp add: config_sound_def upstreams_sound_def)
qed

text \<open>
  Every configuration the server loads, from its files and its environment or from the layers the
  manager checks, has what the components rely on: the CMS runs only on a database with accounts and
  templates, accounts only with a long enough secret and positive lifetimes; the sizes and counts of
  \<open>limits_sound\<close> leave room; the five paths of \<open>paths_sound\<close> have no parent segment (the files
  of the certificate and the script of the sidecar may have one); every host is lower case, without an
  empty label and a forbidden character; the upstreams have distinct names, HTTP addresses and no
  reserved header.
\<close>

theorem loaded_configurations_are_sound:
  assumes "load_config nc build env = Inr c \<or> load_from_toml_layers nc build layer1 layer2 = Inr c"
  shows "config_sound nc c \<and> (\<forall>h \<in> set (cmc_hosts (cf_cms c)). lowercase h = h)"
proof -
  from assms obtain raw where "c = normalize_config raw" "validate_config nc c = Inr ()"
    by (auto simp: load_config_def load_from_toml_layers_def finish_load_Inr Let_def)
  with validated_sound show ?thesis
    by (auto simp: normalize_config_def normalize_hostname_def Let_def)
qed

lemma sendable_pairs:
  assumes "\<forall>(key, v) \<in> set xs. v = [] \<or> header_ok v"
  shows "List.map_filter (\<lambda>(name, v). if header_ok v then Some (name, v) else None) (filter (\<lambda>(name, v). v \<noteq> []) xs) =
    filter (\<lambda>(name, v). v \<noteq> []) xs"
  using assms by (induction xs) (auto simp: map_filter_simps)

lemma map_snd_filter: "map snd (filter (\<lambda>(name, v). P v) xs) = filter P (map snd xs)"
  by (induction xs) auto

text \<open>
  No security header of a loaded configuration is lost: the pairs that go onto every response are
  exactly the values that are not empty, under their header names and in order.
\<close>

theorem security_headers_complete:
  assumes "load_config nc build env = Inr c"
  shows "map snd (header_pairs (cf_security_headers c)) = filter (\<lambda>v. v \<noteq> []) (map snd (header_entries (cf_security_headers c))) \<and>
    distinct (map fst (header_pairs (cf_security_headers c)))"
proof -
  from assms have "validate_config nc c = Inr ()" by (auto simp: load_config_def finish_load_Inr Let_def)
  from validated_sections(2) [OF this] have ok: "\<forall>(key, v) \<in> set (header_entries (cf_security_headers c)). v = [] \<or> header_ok v"
    by (auto simp: validate_security_headers_def)
  let ?xs = "[(''x-content-type-options'', shc_x_content_type_options (cf_security_headers c)),
    (''x-frame-options'', shc_x_frame_options (cf_security_headers c)), (''referrer-policy'', shc_referrer_policy (cf_security_headers c)),
    (''content-security-policy'', shc_content_security_policy (cf_security_headers c)),
    (''strict-transport-security'', shc_strict_transport_security (cf_security_headers c))]"
  from ok have "\<forall>(name, v) \<in> set ?xs. v = [] \<or> header_ok v" by (simp add: header_entries_def)
  from sendable_pairs [OF this] have pairs: "header_pairs (cf_security_headers c) = filter (\<lambda>(name, v). v \<noteq> []) ?xs"
    by (simp only: header_pairs_def)
  have "map snd ?xs = map snd (header_entries (cf_security_headers c))" by (simp add: header_entries_def)
  moreover have "distinct (map fst ?xs)" by simp
  then have "distinct (map fst (filter (\<lambda>(name, v). v \<noteq> []) ?xs))" by (rule distinct_map_filter)
  ultimately show ?thesis by (simp only: pairs map_snd_filter)
qed

section \<open>The defaults\<close>

definition sample_crates :: net_crates where
  "sample_crates = \<lparr>nc_url_scheme = (\<lambda>_. None), nc_header_name = (\<lambda>_. False)\<rparr>"

definition plain_builder :: builder where
  "plain_builder sources = (case sources of Defaults c # _ \<Rightarrow> Inr c | _ \<Rightarrow> Inl [])"

text \<open>The defaults are a configuration; nothing else is set.\<close>

lemma default_names: "list_all (list_all graphic) (''auto'' # ''modules'' # ''/metrics'' # ''sidecar/jhs-sidecar.mjs'' # default_forbidden_modules)"
  by (simp add: graphic_def code_def default_forbidden_modules_def)

lemma default_trims: "s \<in> set (''auto'' # ''modules'' # ''/metrics'' # ''sidecar/jhs-sidecar.mjs'' # default_forbidden_modules) \<Longrightarrow> trim s = s"
  using default_names by (intro trim_all_graphic) (auto simp: list_all_iff)

lemma default_templates_valid: "validate_templates default_templates = Inr ()"
proof -
  have "validate_module_name m = Inr ()" if "m \<in> set default_forbidden_modules" for m
  proof -
    have "list_all (\<lambda>m. m \<noteq> [] \<and> CHR ''/'' \<notin> set m \<and> CHR 0x5C \<notin> set m \<and> nul \<notin> set m) default_forbidden_modules"
      by (simp add: default_forbidden_modules_def nul_def)
    with that default_trims [of m] show ?thesis by (simp add: validate_module_name_def Let_def list_all_iff)
  qed
  then have "each validate_module_name default_forbidden_modules = Inr ()" by simp
  then show ?thesis
    by (simp add: validate_templates_def default_templates_def validate_sidecar_def default_sidecar_def Let_def and_then_unit default_trims
        has_parent_segment_def path_components_def nul_def)
qed

lemma default_metrics_valid: "validate_metrics default_metrics = Inr ()"
  by (simp add: validate_metrics_def default_metrics_def Let_def and_then_unit default_trims has_parent_segment_def path_components_def)

lemma default_headers_valid: "validate_security_headers default_security_headers = Inr ()"
  by (simp add: validate_security_headers_def header_entries_def default_security_headers_def header_ok_def code_def)

lemma default_cms_valid: "validate_cms default_config = Inr ()"
  by (simp add: validate_cms_def default_config_def default_cms_def Let_def and_then_unit has_parent_segment_def path_components_def nul_def
      min_media_max_bytes_def max_media_max_bytes_def default_media_max_bytes_def min_index_page_size_def max_index_page_size_def
      default_index_page_size_def max_max_revisions_def default_max_revisions_def)

lemma default_config_valid: "validate_config nc default_config = Inr ()"
  by (simp add: validate_config_def and_then_unit default_cms_valid)
    (simp add: default_config_def default_templates_valid default_metrics_valid default_headers_valid default_logging_def log_levels_def
      default_server_def default_max_body_size_bytes_def validate_rate_limit_def default_rate_limit_def validate_cors_def default_cors_def
      validate_external_api_def default_external_api_def validate_database_def default_database_def validate_auth_def default_auth_def
      validate_static_def default_static_def validate_tls_def default_tls_def validate_trusted_proxies_def and_then_unit Let_def
      has_parent_segment_def path_components_def nul_def)

lemma defaults_load: "load_config sample_crates plain_builder (\<lambda>_. None) = Inr default_config"
proof -
  have "normalize_config default_config = default_config" by (simp add: normalize_config_def default_config_def default_cms_def)
  then show ?thesis by (simp add: load_config_def Let_def finish_load_def plain_builder_def default_config_valid)
qed

lemma loaded_configurations_are_sound_witness: "config_sound sample_crates default_config"
  using loaded_configurations_are_sound [of sample_crates plain_builder "\<lambda>_. None" default_config None None] defaults_load by simp

lemma security_headers_complete_witness: "map snd (header_pairs default_security_headers) = map snd (header_entries default_security_headers)"
  using security_headers_complete [OF defaults_load] by (simp add: default_config_def header_entries_def default_security_headers_def)

section \<open>What the validation lets through\<close>

text \<open>
  The path of the metrics is checked without its white space and mounted with it, and a router refuses
  a path that does not begin with a slash. The cookie domain may carry a semicolon, after which a
  browser reads another attribute. The time of the proxy need not be below that of a request.
\<close>

lemma padded_metrics_path: "validate_metrics \<lparr>mtc_enabled = True, mtc_path = '' /metrics''\<rparr> = Inr ()"
proof -
  have "trim '' /metrics'' = ''/metrics''"
    using trim_space [of "''/metrics''"] default_trims [of "''/metrics''"] by simp
  then show ?thesis by (simp add: validate_metrics_def Let_def and_then_unit has_parent_segment_def path_components_def)
qed

lemma cookie_domain_with_attribute: "validate_cookie_domain ''a.b;secure'' = Inr ()"
  by (simp add: validate_cookie_domain_def starts_with_def ends_with_def contains_str_def has_control.simps ws_len_def head_len_def
      white_space_def code_def)

lemma slow_proxy_accepted:
  assumes "validate_external_api nc \<lparr>eac_timeout_secs = 8, eac_response_limit_bytes = 1, eac_endpoints = es\<rparr> = Inr ()"
  shows "validate_external_api nc \<lparr>eac_timeout_secs = 60, eac_response_limit_bytes = 1, eac_endpoints = es\<rparr> = Inr ()"
  using assms by (auto simp: validate_external_api_def and_then_unit)

end
