(* ===== verification/External_Api.thy ===== *)
theory External_Api
  imports Config
begin

text \<open>
  The proxy to external interfaces: the table of upstreams (\<open>src/src/external_api.rs\<close>) and the handler
  (\<open>src/src/routes/external_api.rs\<close>). The client that sends a request, the form encoding and the
  environment are parameters.
\<close>

section \<open>The table of upstreams\<close>

record resolved_endpoint =
  re_url :: string
  re_auth_required :: bool
  re_headers :: "(string \<times> string) list"
  re_query :: "(string \<times> string) list"

text \<open>A table with whether it has its client.\<close>

record external_api =
  xa_client :: bool
  xa_endpoints :: "string \<Rightarrow> resolved_endpoint option"
  xa_response_limit_bytes :: nat

definition disabled :: external_api where
  "disabled = \<lparr>xa_client = False, xa_endpoints = (\<lambda>_. None), xa_response_limit_bytes = 0\<rparr>"

definition env_name_char :: "char \<Rightarrow> bool" where
  "env_name_char c \<longleftrightarrow> is_alnum c \<or> c = CHR ''_''"

text \<open>The search for the next reference, the text before it going out as it is.\<close>

function expand_from :: "(string \<Rightarrow> string option) \<Rightarrow> string \<Rightarrow> string \<Rightarrow> (string, string) result" where
  "expand_from env v rest =
     (case find_str ''${'' rest of
        None \<Rightarrow> Inr rest
      | Some start \<Rightarrow>
          (let later = drop (start + 2) rest in
           case find_str ''}'' later of
             None \<Rightarrow> Inl (''`'' @ v @ ''` opens `${'' @ [CHR 0x27] @ ''` without a closing `}`'')
           | Some stop \<Rightarrow>
               (let name = take stop later in
                if name = [] \<or> \<not> list_all env_name_char name
                then Inl (''`'' @ v @ ''` references `'' @ name @ ''`, which is not a valid environment variable name'')
                else (case env name of
                   None \<Rightarrow> Inl (''environment variable `'' @ name @ ''` is not set (referenced by `'' @ v @ ''`)'')
                 | Some found \<Rightarrow>
                     and_then (expand_from env v (drop (stop + 1) later)) (\<lambda>expanded. Inr (take start rest @ found @ expanded))))))"
  by pat_completeness auto
termination
proof (relation "measure (\<lambda>(env, v, rest). length rest)")
  fix env :: "string \<Rightarrow> string option" and v rest start later stop name found
  assume "find_str ''${'' rest = Some start" "later = drop (start + 2) rest"
  then show "((env, v, drop (stop + 1) later), env, v, rest) \<in> measure (\<lambda>(env, v, rest). length rest)"
    by (auto dest!: find_str_Some)
qed simp

declare expand_from.simps [simp del]

definition expand_env :: "(string \<Rightarrow> string option) \<Rightarrow> string \<Rightarrow> (string, string) result" where
  "expand_env env v = expand_from env v v"

definition resolve_header :: "net_crates \<Rightarrow> (string \<Rightarrow> string option) \<Rightarrow> string \<Rightarrow> string \<times> string \<Rightarrow> (string, string \<times> string) result" where
  "resolve_header nc env endpoint h =
     (if lowercase (fst h) \<in> set reserved_header_names
      then Inl (''endpoint `'' @ endpoint @ ''` sets reserved header `'' @ fst h @ ''`; the HTTP client owns it'')
      else if \<not> nc_header_name nc (fst h)
      then Inl (''endpoint `'' @ endpoint @ ''` has invalid header name `'' @ fst h @ ''`'')
      else (let name = lowercase (fst h) in
        case expand_env env (snd h) of
          Inl e \<Rightarrow> Inl (''endpoint `'' @ endpoint @ ''` header `'' @ name @ ''`: '' @ e)
        | Inr expanded \<Rightarrow>
            if header_ok expanded then Inr (name, expanded)
            else Inl (''endpoint `'' @ endpoint @ ''` header `'' @ name @
              ''` expands to an invalid header value (control characters or newlines are not allowed)'')))"

definition resolve_query :: "(string \<Rightarrow> string option) \<Rightarrow> string \<Rightarrow> string \<times> string \<Rightarrow> (string, string \<times> string) result" where
  "resolve_query env endpoint q =
     (case expand_env env (snd q) of
        Inl e \<Rightarrow> Inl (''endpoint `'' @ endpoint @ ''` query parameter `'' @ fst q @ ''`: '' @ e)
      | Inr expanded \<Rightarrow> Inr (fst q, expanded))"

fun map_results :: "('a \<Rightarrow> ('e, 'b) result) \<Rightarrow> 'a list \<Rightarrow> ('e, 'b list) result" where
  "map_results f [] = Inr []"
| "map_results f (x # xs) = and_then (f x) (\<lambda>y. and_then (map_results f xs) (\<lambda>ys. Inr (y # ys)))"

definition resolve_endpoint :: "net_crates \<Rightarrow> (string \<Rightarrow> string option) \<Rightarrow> external_endpoint_config \<Rightarrow> (string, resolved_endpoint) result" where
  "resolve_endpoint nc env e =
     and_then (map_results (resolve_header nc env (eec_name e)) (eec_headers e)) (\<lambda>headers.
     and_then (map_results (resolve_query env (eec_name e)) (eec_query e)) (\<lambda>query.
     Inr \<lparr>re_url = eec_url e, re_auth_required = eec_auth_required e, re_headers = headers, re_query = query\<rparr>))"

fun resolve_endpoints :: "net_crates \<Rightarrow> (string \<Rightarrow> string option) \<Rightarrow> (string \<Rightarrow> resolved_endpoint option) \<Rightarrow>
    external_endpoint_config list \<Rightarrow> (string, string \<Rightarrow> resolved_endpoint option) result" where
  "resolve_endpoints nc env table [] = Inr table"
| "resolve_endpoints nc env table (e # es) =
     and_then (resolve_endpoint nc env e) (\<lambda>r. resolve_endpoints nc env (table(eec_name e \<mapsto> r)) es)"

definition resolve_api :: "net_crates \<Rightarrow> (string, unit) result \<Rightarrow> (string \<Rightarrow> string option) \<Rightarrow> external_api_config \<Rightarrow> (string, external_api) result" where
  "resolve_api nc client env c =
     (if eac_endpoints c = [] then Inr disabled
      else (case client of
          Inl e \<Rightarrow> Inl (''external API proxy client could not be built: '' @ e)
        | Inr _ \<Rightarrow>
            and_then (resolve_endpoints nc env (\<lambda>_. None) (eac_endpoints c)) (\<lambda>table.
            Inr \<lparr>xa_client = True, xa_endpoints = table, xa_response_limit_bytes = eac_response_limit_bytes c\<rparr>)))"

section \<open>The address of the upstream\<close>

definition is_pchar :: "char \<Rightarrow> bool" where
  "is_pchar c \<longleftrightarrow> is_alnum c \<or> c \<in> set ''-._~!$&()*+,;=:@'' \<or> code c = 0x27"

definition percent_byte :: "char \<Rightarrow> string" where
  "percent_byte c = [CHR ''%'', hex_upper ! (code c div 16), hex_upper ! (code c mod 16)]"

definition encode_char :: "char \<Rightarrow> string" where
  "encode_char c = (if is_pchar c then [c] else percent_byte c)"

definition encode_segment :: "string \<Rightarrow> string" where
  "encode_segment segment = concat (map encode_char segment)"

fun encode_segments :: "string list \<Rightarrow> (string, string list) result" where
  "encode_segments [] = Inr []"
| "encode_segments (s # ss) =
     (if s = [] then encode_segments ss
      else if s = ''.'' \<or> s = ''..'' then Inl ''subpath segments `.` and `..` are not allowed''
      else if has_control s then Inl ''subpath may not contain control characters''
      else and_then (encode_segments ss) (\<lambda>rest. Inr (encode_segment s # rest)))"

definition encode_subpath :: "string \<Rightarrow> (string, string) result" where
  "encode_subpath subpath = and_then (encode_segments (split_on (CHR ''/'') subpath)) (\<lambda>segments. Inr (join_with ''/'' segments))"

definition trim_end_slashes :: "string \<Rightarrow> string" where
  "trim_end_slashes s = rev (dropWhile (\<lambda>c. c = CHR ''/'') (rev s))"

definition join_subpath :: "string \<Rightarrow> string \<Rightarrow> string" where
  "join_subpath base subpath =
     (if subpath = [] then base
      else (case split_once (CHR ''?'') base of
          Some (path, query) \<Rightarrow> trim_end_slashes path @ ''/'' @ subpath @ ''?'' @ query
        | None \<Rightarrow> trim_end_slashes base @ ''/'' @ subpath))"

text \<open>The form encoding: the pairs of a query, and the text of one pair.\<close>

record form_crate =
  fc_parse :: "string \<Rightarrow> (string \<times> string) list"
  fc_pair :: "string \<times> string \<Rightarrow> string"

definition add_query :: "string \<Rightarrow> string \<Rightarrow> string" where
  "add_query base query = (if CHR ''?'' \<in> set base then base @ ''&'' @ query else base @ ''?'' @ query)"

definition composed_pairs :: "form_crate \<Rightarrow> string option \<Rightarrow> (string \<times> string) list \<Rightarrow> (string \<times> string) list" where
  "composed_pairs fc query fixed =
     filter (\<lambda>p. \<not> list_ex (\<lambda>f. fst f = fst p) fixed) (case query of Some q \<Rightarrow> fc_parse fc q | None \<Rightarrow> []) @ fixed"

definition upstream_url :: "form_crate \<Rightarrow> string \<Rightarrow> string option \<Rightarrow> (string \<times> string) list \<Rightarrow> string" where
  "upstream_url fc base query fixed =
     (if fixed = [] then (case query of Some q \<Rightarrow> if q \<noteq> [] then add_query base q else base | None \<Rightarrow> base)
      else add_query base (join_with ''&'' (map (fc_pair fc) (composed_pairs fc query fixed))))"

section \<open>The call\<close>

definition forwardable_content_type :: "string option \<Rightarrow> bool" where
  "forwardable_content_type content_type =
     (case content_type of
        None \<Rightarrow> True
      | Some v \<Rightarrow>
          (let lowered = lowercase v in
           starts_with ''application/json'' lowered \<or> starts_with ''text/'' lowered \<or>
           starts_with ''application/'' lowered \<and> contains_str ''+json'' lowered))"

datatype transport = Timed_Out | Unreachable

definition transport_error :: "string \<Rightarrow> transport \<Rightarrow> app_error" where
  "transport_error stage e =
     BadGateway (case e of
        Timed_Out \<Rightarrow> ''upstream did not answer within the configured timeout while '' @ stage
      | Unreachable \<Rightarrow> ''upstream is unreachable while '' @ stage)"

record upstream_request =
  uq_method :: string
  uq_url :: string
  uq_timeout_secs :: nat
  uq_headers :: "(string \<times> string) list"
  uq_body :: "string option"

record upstream_response =
  ur_status :: nat
  ur_content_type :: "string option"
  ur_chunks :: "string list"
  ur_failure :: "transport option"

fun read_upstream :: "nat \<Rightarrow> string \<Rightarrow> string list \<Rightarrow> transport option \<Rightarrow> (app_error, string) result" where
  "read_upstream cap body [] None = Inr body"
| "read_upstream cap body [] (Some e) = Inl (transport_error ''reading the upstream body'' e)"
| "read_upstream cap body (c # cs) e =
     (if cap < length body + length c
      then Inl (BadGateway (''upstream answer exceeds the configured '' @ show_nat cap @ ''-byte limit''))
      else read_upstream cap (body @ c) cs e)"

text \<open>The request as it comes in: its body is read within the limit of bodies, or not.\<close>

record client_request =
  cl_method :: string
  cl_path :: string
  cl_query :: "string option"
  cl_headers :: "(string \<times> string) list"
  cl_body :: "string option"

text \<open>\<open>HeaderValue::to_str\<close>: a header of visible ASCII.\<close>

definition to_str :: "string \<Rightarrow> string option" where
  "to_str v = (if list_all (\<lambda>c. 32 \<le> code c \<and> code c < 127 \<or> code c = 9) v then Some v else None)"

definition content_type_of :: "(string \<times> string) list \<Rightarrow> string option" where
  "content_type_of headers = Option.bind (map_option snd (find (\<lambda>h. fst h = ''content-type'') headers)) to_str"

datatype ext_reply = Ext_Failed app_error | Ext_Answer nat "string option" string

definition base_address :: "resolved_endpoint \<Rightarrow> string option \<Rightarrow> (string, string) result" where
  "base_address e subpath =
     (case subpath of
        None \<Rightarrow> Inr (re_url e)
      | Some raw \<Rightarrow> if raw = [] then Inr (re_url e) else and_then (encode_subpath raw) (\<lambda>encoded. Inr (join_subpath (re_url e) encoded)))"

definition attach_body :: "client_request \<Rightarrow> upstream_request \<Rightarrow> (app_error, upstream_request) result" where
  "attach_body cl uq =
     (if cl_method cl \<noteq> ''POST'' then Inr uq
      else (case cl_body cl of
          None \<Rightarrow> Inl (BadRequest ''request body could not be read; only bounded JSON bodies are forwarded'')
        | Some body \<Rightarrow>
            (case content_type_of (cl_headers cl) of
               None \<Rightarrow> Inr (uq\<lparr>uq_body := Some body\<rparr>)
             | Some kind \<Rightarrow>
                 if forwardable_content_type (Some kind)
                 then Inr (uq\<lparr>uq_headers := uq_headers uq @ [(''content-type'', kind)], uq_body := Some body\<rparr>)
                 else Inl (BadRequest ''only text media types (application/json, text/*) can be forwarded upstream''))))"

definition upstream_call :: "form_crate \<Rightarrow> nat \<Rightarrow> resolved_endpoint \<Rightarrow> string option \<Rightarrow> client_request \<Rightarrow> (app_error, upstream_request) result" where
  "upstream_call fc timeout e subpath cl =
     (case base_address e subpath of
        Inl reason \<Rightarrow> Inl (BadRequest reason)
      | Inr base \<Rightarrow>
          attach_body cl
            \<lparr>uq_method = cl_method cl, uq_url = upstream_url fc base (cl_query cl) (re_query e), uq_timeout_secs = timeout,
             uq_headers = (''accept'', ''application/json'') # re_headers e, uq_body = None\<rparr>)"

definition answer :: "nat \<Rightarrow> upstream_response \<Rightarrow> ext_reply" where
  "answer cap ur =
     (if \<not> forwardable_content_type (Option.bind (ur_content_type ur) to_str)
      then Ext_Failed (BadGateway ''upstream answered with a media type this proxy does not forward'')
      else (case read_upstream cap [] (ur_chunks ur) (ur_failure ur) of
          Inl e \<Rightarrow> Ext_Failed e
        | Inr body \<Rightarrow> Ext_Answer (ur_status ur) (ur_content_type ur) body))"

definition proxy :: "form_crate \<Rightarrow> external_api \<Rightarrow> nat \<Rightarrow> (upstream_request \<Rightarrow> (transport, upstream_response) result) \<Rightarrow>
    string \<Rightarrow> string option \<Rightarrow> (app_error, auth_user) result \<Rightarrow> client_request \<Rightarrow> ext_reply" where
  "proxy fc api timeout send name subpath user cl =
     (case xa_endpoints api name of
        None \<Rightarrow> Ext_Failed (not_found (cl_method cl) (cl_path cl))
      | Some e \<Rightarrow>
          if \<not> xa_client api then Ext_Failed (not_found (cl_method cl) (cl_path cl))
          else (case (re_auth_required e, user) of
              (True, Inl rejection) \<Rightarrow> Ext_Failed rejection
            | _ \<Rightarrow>
                (case upstream_call fc timeout e subpath cl of
                   Inl err \<Rightarrow> Ext_Failed err
                 | Inr uq \<Rightarrow>
                     (case send uq of
                        Inl err \<Rightarrow> Ext_Failed (transport_error ''calling the upstream'' err)
                      | Inr ur \<Rightarrow> answer (xa_response_limit_bytes api) ur))))"

section \<open>A client does not leave the upstream\<close>

definition ends_host :: "char \<Rightarrow> bool" where
  "ends_host c \<longleftrightarrow> c = CHR ''/'' \<or> c = CHR ''?'' \<or> c = CHR ''#'' \<or> c = CHR 0x5C"

text \<open>The scheme and the host with its port: what decides where a request goes.\<close>

definition scheme_of :: "string \<Rightarrow> string" where
  "scheme_of url = (if starts_with ''http://'' url then ''http://'' else if starts_with ''https://'' url then ''https://'' else [])"

definition host_of_url :: "string \<Rightarrow> string" where
  "host_of_url url = takeWhile (\<lambda>c. \<not> ends_host c) (drop (length (scheme_of url)) url)"

definition origin_of :: "string \<Rightarrow> string" where
  "origin_of url = scheme_of url @ host_of_url url"

definition opens_tail :: "string \<Rightarrow> bool" where
  "opens_tail t \<longleftrightarrow> t = [] \<or> ends_host (hd t)"

lemma origin_split:
  assumes "scheme_of url \<noteq> []"
  obtains t where "url = origin_of url @ t" "opens_tail t"
proof -
  let ?r = "drop (length (scheme_of url)) url"
  have "url = scheme_of url @ ?r" using assms by (auto simp: scheme_of_def starts_with_iff split: if_splits)
  then have "url = origin_of url @ dropWhile (\<lambda>c. \<not> ends_host c) ?r" by (simp add: origin_of_def host_of_url_def)
  moreover have "opens_tail (dropWhile (\<lambda>c. \<not> ends_host c) ?r)"
    using hd_dropWhile [of "\<lambda>c. \<not> ends_host c" ?r] by (auto simp: opens_tail_def)
  ultimately show thesis by (rule that)
qed

lemma origin_of_append:
  assumes "scheme \<in> {''http://'', ''https://''}" "\<forall>c \<in> set h. \<not> ends_host c" "opens_tail t"
  shows "origin_of (scheme @ h @ t) = scheme @ h"
proof -
  have "takeWhile (\<lambda>c. \<not> ends_host c) (h @ t) = h"
    using assms(2,3) by (cases t) (auto simp: opens_tail_def takeWhile_append)
  moreover have "scheme_of (scheme @ h @ t) = scheme" using assms(1) by (auto simp: scheme_of_def)
  ultimately show ?thesis by (simp add: origin_of_def host_of_url_def)
qed

lemma origin_keeps:
  assumes "scheme_of url \<noteq> []" "opens_tail t"
  shows "origin_of (origin_of url @ t) = origin_of url"
proof -
  have "\<forall>c \<in> set (host_of_url url). \<not> ends_host c" by (auto simp: host_of_url_def dest: set_takeWhileD)
  moreover have "scheme_of url \<in> {''http://'', ''https://''}" using assms(1) by (auto simp: scheme_of_def split: if_splits)
  ultimately show ?thesis using origin_of_append [OF _ _ assms(2)] by (simp add: origin_of_def)
qed

lemma opens_tail_simps:
  "opens_tail t \<Longrightarrow> ends_host (hd s) \<Longrightarrow> opens_tail (t @ s)"
  by (cases t) (auto simp: opens_tail_def)

text \<open>What the address is built with keeps its origin.\<close>

definition on_origin :: "string \<Rightarrow> string \<Rightarrow> bool" where
  "on_origin url s \<longleftrightarrow> (\<exists>t. s = origin_of url @ t \<and> opens_tail t)"

lemma trim_slashes_origin:
  assumes "host_of_url url \<noteq> []" "on_origin url s"
  shows "on_origin url (trim_end_slashes s)"
proof -
  from assms(2) obtain t where t: "s = origin_of url @ t" "opens_tail t" by (auto simp: on_origin_def)
  let ?slash = "\<lambda>c. c = CHR ''/''"
  have "last (origin_of url) \<noteq> CHR ''/''"
  proof -
    have "last (host_of_url url) \<in> set (host_of_url url)" using assms(1) by simp
    then have "\<not> ends_host (last (host_of_url url))" by (auto simp: host_of_url_def dest: set_takeWhileD)
    with assms(1) show ?thesis by (auto simp: origin_of_def ends_host_def)
  qed
  moreover have "origin_of url \<noteq> []" using assms(1) by (simp add: origin_of_def)
  ultimately have "dropWhile ?slash (rev (origin_of url)) = rev (origin_of url)"
    by (cases "origin_of url" rule: rev_cases) auto
  then have "trim_end_slashes s = origin_of url @ rev (dropWhile ?slash (rev t))"
    by (cases "dropWhile ?slash (rev t) = []") (auto simp: trim_end_slashes_def t(1) dropWhile_append dropWhile_eq_Nil_conv)
  moreover have "opens_tail (rev (dropWhile ?slash (rev t)))"
  proof -
    have "\<exists>u. t = rev (dropWhile ?slash (rev t)) @ u"
      by (metis rev_append rev_rev_ident takeWhile_dropWhile_id)
    with t(2) show ?thesis by (cases "rev (dropWhile ?slash (rev t))") (auto simp: opens_tail_def)
  qed
  ultimately show ?thesis by (auto simp: on_origin_def)
qed

lemma path_origin:
  assumes "scheme_of url \<noteq> []" "split_once (CHR ''?'') url = Some (path, query)"
  shows "on_origin url path"
proof -
  obtain t where t: "url = origin_of url @ t" "opens_tail t" using origin_split [OF assms(1)] .
  have "\<forall>c \<in> set (host_of_url url). \<not> ends_host c" by (auto simp: host_of_url_def dest: set_takeWhileD)
  then have "CHR ''?'' \<notin> set (origin_of url)" by (auto simp: origin_of_def scheme_of_def ends_host_def)
  then have "takeWhile (\<lambda>c. c \<noteq> CHR ''?'') (origin_of url @ t) = origin_of url @ takeWhile (\<lambda>c. c \<noteq> CHR ''?'') t"
    by (subst takeWhile_append2) auto
  moreover have "path = takeWhile (\<lambda>c. c \<noteq> CHR ''?'') url" using assms(2) by (auto simp: split_once_def split: if_splits)
  ultimately have "path = origin_of url @ takeWhile (\<lambda>c. c \<noteq> CHR ''?'') t" using t(1) by simp
  moreover have "opens_tail (takeWhile (\<lambda>c. c \<noteq> CHR ''?'') t)" using t(2) by (cases t) (auto simp: opens_tail_def)
  ultimately show ?thesis by (auto simp: on_origin_def)
qed

lemma on_origin_slash: "on_origin url s \<Longrightarrow> on_origin url (s @ ''/'' @ u)"
  by (auto simp: on_origin_def ends_host_def intro!: opens_tail_simps)

lemma on_origin_self: "scheme_of url \<noteq> [] \<Longrightarrow> on_origin url url"
  using origin_split [of url] by (auto simp: on_origin_def)

lemma join_origin:
  assumes "scheme_of url \<noteq> []" "host_of_url url \<noteq> []"
  shows "on_origin url (join_subpath url sub)"
proof (cases "split_once (CHR ''?'') url")
  case None
  then show ?thesis
    using on_origin_slash [OF trim_slashes_origin [OF assms(2) on_origin_self [OF assms(1)]]] on_origin_self [OF assms(1)]
    by (simp add: join_subpath_def)
next
  case (Some pq)
  obtain path query where pq: "pq = (path, query)" by force
  from on_origin_slash [OF trim_slashes_origin [OF assms(2) path_origin [OF assms(1) Some [unfolded pq]]]] on_origin_self [OF assms(1)] Some pq
  show ?thesis by (simp add: join_subpath_def)
qed

lemma query_origin:
  assumes "on_origin url s"
  shows "on_origin url (add_query s q)"
proof -
  from assms obtain t where t: "s = origin_of url @ t" "opens_tail t" by (auto simp: on_origin_def)
  have "opens_tail (t @ ''?'' @ q)" by (rule opens_tail_simps [OF t(2)]) (simp add: ends_host_def)
  moreover have "opens_tail (t @ ''&'' @ q)" if "CHR ''?'' \<in> set s"
  proof (cases "t = []")
    case True
    with that t(1) have "CHR ''?'' \<in> set (host_of_url url)" by (auto simp: origin_of_def scheme_of_def split: if_splits)
    then show ?thesis by (auto simp: host_of_url_def ends_host_def dest: set_takeWhileD)
  next
    case False
    with t(2) show ?thesis by (cases t) (auto simp: opens_tail_def)
  qed
  ultimately show ?thesis using t(1) by (auto simp: on_origin_def add_query_def)
qed

lemma url_origin: "on_origin url s \<Longrightarrow> on_origin url (upstream_url fc s query fixed)"
  using query_origin by (auto simp: upstream_url_def split: option.split)

text \<open>The encoded part of a path.\<close>

definition safe_path_char :: "char \<Rightarrow> bool" where
  "safe_path_char c \<longleftrightarrow> is_pchar c \<or> c = CHR ''%'' \<or> is_digit c \<or> c \<in> set ''ABCDEF''"

lemma hex_upper_digit: "n < 16 \<Longrightarrow> safe_path_char (hex_upper ! n)"
proof -
  assume "n < 16"
  then have "hex_upper ! n \<in> set hex_upper" by (intro nth_mem) (simp add: hex_upper_def)
  then show ?thesis by (auto simp: hex_upper_def safe_path_char_def is_digit_def code_def)
qed

lemma encode_segment_safe: "c \<in> set (encode_segment s) \<Longrightarrow> safe_path_char c"
proof -
  have "code d div 16 < 16 \<and> code d mod 16 < 16" for d
    using code_less [of d] by (simp add: div_less_iff_less_mult)
  then show "c \<in> set (encode_segment s) \<Longrightarrow> safe_path_char c"
    by (auto simp: encode_segment_def encode_char_def percent_byte_def hex_upper_digit split: if_splits) (auto simp: safe_path_char_def)
qed

lemma safe_no_delimiter: "safe_path_char c \<Longrightarrow> c \<noteq> CHR ''/'' \<and> c \<noteq> CHR ''?'' \<and> c \<noteq> CHR ''#'' \<and> c \<noteq> CHR 0x5C"
  by (auto simp: safe_path_char_def is_pchar_def is_alnum_def is_alpha_def is_lower_def is_upper_def is_digit_def code_def)

text \<open>A segment other than the dots does not become one: a dot stays a dot, anything else is longer.\<close>

lemma encode_char_cases: "encode_char c = [c] \<or> (\<exists>r. encode_char c = CHR ''%'' # r)"
  by (simp add: encode_char_def percent_byte_def)

lemma encode_segment_Cons: "encode_segment (c # s) = encode_char c @ encode_segment s"
  by (simp add: encode_segment_def)

lemma encode_segment_dot: "encode_segment s = CHR ''.'' # r \<Longrightarrow> \<exists>t. s = CHR ''.'' # t \<and> encode_segment t = r"
proof (cases s)
  case (Cons c t)
  assume "encode_segment s = CHR ''.'' # r"
  with Cons encode_char_cases [of c] show ?thesis by (auto simp: encode_segment_Cons)
qed (simp add: encode_segment_def)

lemma encode_segment_Nil: "encode_segment s = [] \<Longrightarrow> s = []"
proof (cases s)
  case (Cons c t)
  assume "encode_segment s = []"
  with Cons encode_char_cases [of c] show ?thesis by (auto simp: encode_segment_Cons)
qed simp

lemma encode_dots: "encode_segment s = ''.'' \<Longrightarrow> s = ''.''" "encode_segment s = ''..'' \<Longrightarrow> s = ''..''"
  using encode_segment_dot encode_segment_Nil by blast+

lemma encode_segments_ok:
  "encode_segments ss = Inr out \<Longrightarrow> \<forall>s \<in> set out. s \<noteq> [] \<and> s \<noteq> ''.'' \<and> s \<noteq> ''..'' \<and> (\<forall>c \<in> set s. safe_path_char c)"
proof (induction ss arbitrary: out)
  case (Cons s ss)
  have dots: "encode_segment s \<noteq> [] \<and> encode_segment s \<noteq> ''.'' \<and> encode_segment s \<noteq> ''..''" if "s \<noteq> []" "s \<noteq> ''.''" "s \<noteq> ''..''"
    using that encode_dots encode_segment_Nil by blast
  show ?case
  proof (cases "s = []")
    case False
    with Cons.prems obtain rest where "s \<noteq> ''.''" "s \<noteq> ''..''" "encode_segments ss = Inr rest" "out = encode_segment s # rest"
      by (auto simp: and_then_eq_Inr split: if_splits)
    with Cons.IH [of rest] dots False encode_segment_safe show ?thesis by simp
  qed (use Cons in simp)
qed simp

text \<open>The path a client may add: segments between single slashes, none of them a dot or empty.\<close>

definition plain_path :: "string \<Rightarrow> bool" where
  "plain_path p \<longleftrightarrow> p = [] \<or> (\<forall>s \<in> set (split_on (CHR ''/'') p). s \<noteq> [] \<and> s \<noteq> ''.'' \<and> s \<noteq> ''..'' \<and> (\<forall>c \<in> set s. safe_path_char c))"

lemma encode_subpath_plain:
  assumes "encode_subpath raw = Inr enc"
  shows "plain_path enc"
proof -
  obtain out where out: "encode_segments (split_on (CHR ''/'') raw) = Inr out" "enc = join_with ''/'' out"
    using assms by (auto simp: encode_subpath_def and_then_eq_Inr)
  note ok = encode_segments_ok [OF out(1)]
  show ?thesis
  proof (cases "out = []")
    case False
    have "\<forall>s \<in> set out. CHR ''/'' \<notin> set s" using ok safe_no_delimiter by blast
    with False have "split_on (CHR ''/'') enc = out" by (simp add: out(2) split_on_join_with)
    with ok show ?thesis by (simp add: plain_path_def)
  qed (simp add: out(2) plain_path_def)
qed

lemma base_address_cases:
  assumes "base_address e subpath = Inr base"
  obtains "base = re_url e" | enc where "plain_path enc" "base = join_subpath (re_url e) enc"
  using assms encode_subpath_plain by (auto simp: base_address_def and_then_eq_Inr split: option.splits if_splits)

lemma attach_body_Inr:
  assumes "attach_body cl uq = Inr r"
  shows "uq_url r = uq_url uq" "set (uq_headers r) \<subseteq> set (uq_headers uq) \<union> {(''content-type'', v) | v. content_type_of (cl_headers cl) = Some v}"
  using assms by (auto simp: attach_body_def split: if_splits option.splits)

lemma upstream_call_stays:
  assumes "upstream_call fc timeout e subpath cl = Inr uq" "scheme_of (re_url e) \<noteq> []" "host_of_url (re_url e) \<noteq> []"
  shows "origin_of (uq_url uq) = origin_of (re_url e) \<and>
    (\<exists>base. uq_url uq = upstream_url fc base (cl_query cl) (re_query e) \<and>
      (base = re_url e \<or> (\<exists>enc. plain_path enc \<and> base = join_subpath (re_url e) enc))) \<and>
    set (uq_headers uq) \<subseteq> {(''accept'', ''application/json'')} \<union> set (re_headers e) \<union>
      {(''content-type'', v) | v. content_type_of (cl_headers cl) = Some v}"
proof -
  obtain base where base: "base_address e subpath = Inr base"
    and body: "attach_body cl \<lparr>uq_method = cl_method cl, uq_url = upstream_url fc base (cl_query cl) (re_query e), uq_timeout_secs = timeout,
             uq_headers = (''accept'', ''application/json'') # re_headers e, uq_body = None\<rparr> = Inr uq"
    using assms(1) by (auto simp: upstream_call_def split: sum.splits)
  note ab = attach_body_Inr [OF body]
  from base have parts: "base = re_url e \<or> (\<exists>enc. plain_path enc \<and> base = join_subpath (re_url e) enc)"
    by (cases rule: base_address_cases) auto
  then have "on_origin (re_url e) base" using on_origin_self [OF assms(2)] join_origin [OF assms(2,3)] by auto
  from url_origin [OF this] have "on_origin (re_url e) (uq_url uq)" using ab(1) by simp
  then have "origin_of (uq_url uq) = origin_of (re_url e)" using origin_keeps [OF assms(2)] by (auto simp: on_origin_def)
  with ab parts show ?thesis by auto
qed

text \<open>
  C26: Whatever a client sends, its request goes to the scheme and the host of the upstream the operator
  configured; what it adds to the path has no empty and no dot segment and no character that ends a path;
  and no header of the client but the media type of a body goes with it.
\<close>

theorem clients_stay_on_the_upstream:
  assumes "upstream_call fc timeout e subpath cl = Inr uq" "scheme_of (re_url e) \<noteq> []" "host_of_url (re_url e) \<noteq> []"
  shows "origin_of (uq_url uq) = origin_of (re_url e) \<and>
    (\<exists>base. uq_url uq = upstream_url fc base (cl_query cl) (re_query e) \<and>
      (base = re_url e \<or> (\<exists>enc. plain_path enc \<and> base = join_subpath (re_url e) enc))) \<and>
    set (uq_headers uq) \<subseteq> {(''accept'', ''application/json'')} \<union> set (re_headers e) \<union>
      {(''content-type'', v) | v. content_type_of (cl_headers cl) = Some v}"
  by (rule upstream_call_stays [OF assms])

text \<open>What is relied on of the form encoding: pairs that are written are read back.\<close>

definition form_law :: "form_crate \<Rightarrow> bool" where
  "form_law fc \<longleftrightarrow> (\<forall>ps. ps \<noteq> [] \<longrightarrow> fc_parse fc (join_with ''&'' (map (fc_pair fc) ps)) = ps)"

text \<open>The client's part of the path brings no question mark.\<close>

lemma plain_path_no_query: "plain_path p \<Longrightarrow> CHR ''?'' \<notin> set p"
proof -
  assume p: "plain_path p"
  have no: "CHR ''?'' \<notin> set (join_with ''/'' ss)" if "\<forall>s \<in> set ss. \<forall>c \<in> set s. safe_path_char c" for ss
    using that
  proof (induction ss)
    case (Cons s ss)
    then have "CHR ''?'' \<notin> set s" using safe_no_delimiter by auto
    with Cons show ?case by (cases ss) auto
  qed simp
  show ?thesis
  proof (cases "p = []")
    case False
    with p have "\<forall>s \<in> set (split_on (CHR ''/'') p). \<forall>c \<in> set s. safe_path_char c" by (auto simp: plain_path_def)
    from no [OF this] show ?thesis by (simp add: join_split_on)
  qed simp
qed

definition own_query :: "resolved_endpoint \<Rightarrow> string option" where
  "own_query e = map_option snd (split_once (CHR ''?'') (re_url e))"

lemma set_trim_end: "set (trim_end_slashes s) \<subseteq> set s"
  by (auto simp: trim_end_slashes_def dest: set_dropWhileD)

lemma base_query:
  assumes "base_address e subpath = Inr base"
  obtains path where "CHR ''?'' \<notin> set path" "base = (case own_query e of Some own \<Rightarrow> path @ ''?'' @ own | None \<Rightarrow> path)"
proof (cases "split_once (CHR ''?'') (re_url e)")
  case None
  then have url: "CHR ''?'' \<notin> set (re_url e)" by (simp add: split_once_None)
  have "CHR ''?'' \<notin> set base" using assms
  proof (cases rule: base_address_cases)
    case (2 enc)
    then show ?thesis
      using None url plain_path_no_query [OF 2(1)] set_trim_end [of "re_url e"] by (auto simp: join_subpath_def)
  qed (use url in simp)
  with None that [of base] show thesis by (simp add: own_query_def)
next
  case (Some pq)
  obtain path own where pq: "pq = (path, own)" by force
  with Some have url: "re_url e = path @ CHR ''?'' # own" "CHR ''?'' \<notin> set path" by (auto dest: split_once_Some)
  from assms show thesis
  proof (cases rule: base_address_cases)
    case 1
    with Some pq url show thesis by (intro that [of path]) (simp_all add: own_query_def)
  next
    case (2 enc)
    show thesis
    proof (cases "enc = []")
      case True
      with 2 Some pq url show thesis by (intro that [of path]) (simp_all add: own_query_def join_subpath_def)
    next
      case False
      have "CHR ''?'' \<notin> set (trim_end_slashes path @ ''/'' @ enc)"
        using url(2) plain_path_no_query [OF 2(1)] set_trim_end [of path] by auto
      with False 2 Some pq show thesis by (intro that [of "trim_end_slashes path @ ''/'' @ enc"]) (simp_all add: own_query_def join_subpath_def)
    qed
  qed
qed

text \<open>
  C27: Where the operator fixed parameters, what follows the first question mark of the address the
  upstream is asked at is the query the operator wrote into the address itself, if any, and then a
  query in which the fixed parameters are exactly what stands under their names, whatever the client
  sent under them, with the other pairs of the client before them, in order. Nothing else of the client
  gets into the query.
\<close>

theorem fixed_parameters_win:
  assumes "upstream_call fc timeout e subpath cl = Inr uq" "re_query e \<noteq> []" "form_law fc"
  shows "\<exists>path q. split_once (CHR ''?'') (uq_url uq) = Some (path, case own_query e of Some own \<Rightarrow> own @ ''&'' @ q | None \<Rightarrow> q) \<and>
    filter (\<lambda>p. fst p \<in> fst ` set (re_query e)) (fc_parse fc q) = re_query e \<and>
    filter (\<lambda>p. fst p \<notin> fst ` set (re_query e)) (fc_parse fc q) =
      filter (\<lambda>p. fst p \<notin> fst ` set (re_query e)) (case cl_query cl of Some given \<Rightarrow> fc_parse fc given | None \<Rightarrow> []) \<and>
    (\<exists>others. fc_parse fc q = others @ re_query e)"
proof -
  let ?ps = "composed_pairs fc (cl_query cl) (re_query e)"
  let ?q = "join_with ''&'' (map (fc_pair fc) ?ps)"
  obtain base where base: "base_address e subpath = Inr base" "uq_url uq = upstream_url fc base (cl_query cl) (re_query e)"
    using assms(1) attach_body_Inr(1) by (fastforce simp: upstream_call_def split: sum.splits)
  obtain path where path: "CHR ''?'' \<notin> set path" "base = (case own_query e of Some own \<Rightarrow> path @ ''?'' @ own | None \<Rightarrow> path)"
    by (rule base_query [OF base(1)])
  have "uq_url uq = path @ CHR ''?'' # (case own_query e of Some own \<Rightarrow> own @ ''&'' @ ?q | None \<Rightarrow> ?q)"
    using path assms(2) by (auto simp: base(2) upstream_url_def add_query_def split: option.split)
  with path(1) have url: "split_once (CHR ''?'') (uq_url uq) = Some (path, case own_query e of Some own \<Rightarrow> own @ ''&'' @ ?q | None \<Rightarrow> ?q)"
    by (simp add: split_once_append)
  have "?ps \<noteq> []" using assms(2) by (simp add: composed_pairs_def)
  with assms(3) have q: "fc_parse fc ?q = ?ps" unfolding form_law_def by blast
  have ex: "list_ex (\<lambda>f. fst f = k) (re_query e) \<longleftrightarrow> k \<in> fst ` set (re_query e)" for k by (auto simp: list_ex_iff)
  have "filter (\<lambda>p. fst p \<in> fst ` set (re_query e)) ?ps = re_query e"
    by (simp add: composed_pairs_def ex filter_empty_conv)
  moreover have "filter (\<lambda>p. fst p \<notin> fst ` set (re_query e)) ?ps =
      filter (\<lambda>p. fst p \<notin> fst ` set (re_query e)) (case cl_query cl of Some given \<Rightarrow> fc_parse fc given | None \<Rightarrow> [])"
    by (simp add: composed_pairs_def ex filter_empty_conv)
  moreover have "\<exists>others. ?ps = others @ re_query e" by (simp add: composed_pairs_def)
  ultimately show ?thesis using url q by (intro exI [of _ path] exI [of _ ?q]) simp
qed

section \<open>The answers\<close>

lemma read_upstream_bound: "read_upstream cap body cs e = Inr out \<Longrightarrow> length body \<le> cap \<Longrightarrow> length out \<le> cap \<and> out = body @ concat cs"
  by (induction cap body cs e rule: read_upstream.induct) (auto split: if_splits)

text \<open>
  An answer is that of a configured upstream, asked for a signed-in user where it demands one; it is
  complete, within the limit, and of a text type where the type can be read.
\<close>

lemma answers_are_bounded_text:
  assumes "proxy fc api timeout send name subpath user cl = Ext_Answer st kind body"
  shows "\<exists>e uq ur. xa_endpoints api name = Some e \<and> (re_auth_required e \<longrightarrow> (\<exists>u. user = Inr u)) \<and>
    upstream_call fc timeout e subpath cl = Inr uq \<and> send uq = Inr ur \<and> body = concat (ur_chunks ur) \<and> kind = ur_content_type ur \<and>
    length body \<le> xa_response_limit_bytes api \<and> forwardable_content_type (Option.bind kind to_str)"
  using assms read_upstream_bound [of "xa_response_limit_bytes api" "[]"]
  by (auto simp: proxy_def answer_def split: option.splits if_splits sum.splits prod.splits bool.splits)

text \<open>A type that is not visible ASCII counts as none, and none is forwarded, with whatever the body is.\<close>

lemma unreadable_type_is_forwarded:
  "answer 9 \<lparr>ur_status = 200, ur_content_type = Some (''image/png; a='' @ [CHR 0xE9]), ur_chunks = [''x''], ur_failure = None\<rparr> =
    Ext_Answer 200 (Some (''image/png; a='' @ [CHR 0xE9])) ''x''"
  by (simp add: answer_def to_str_def forwardable_content_type_def code_def)

section \<open>The configured upstreams are in the table\<close>

lemma resolve_endpoints_table:
  "resolve_endpoints nc env table es = Inr found \<Longrightarrow> distinct (map eec_name es) \<Longrightarrow>
    (\<forall>e \<in> set es. \<exists>r. found (eec_name e) = Some r \<and> resolve_endpoint nc env e = Inr r) \<and>
    (\<forall>n. n \<notin> set (map eec_name es) \<longrightarrow> found n = table n)"
proof (induction es arbitrary: table)
  case (Cons e es)
  then obtain r where r: "resolve_endpoint nc env e = Inr r" "resolve_endpoints nc env (table(eec_name e \<mapsto> r)) es = Inr found"
    by (auto simp: and_then_eq_Inr)
  with Cons.IH [OF r(2)] Cons.prems(2) show ?case by auto
qed simp

lemma map_results_set: "map_results f xs = Inr ys \<Longrightarrow> y \<in> set ys \<Longrightarrow> \<exists>x \<in> set xs. f x = Inr y"
  by (induction xs arbitrary: ys) (auto simp: and_then_eq_Inr)

lemma resolve_header_Inr: "resolve_header nc env endpoint x = Inr h \<Longrightarrow> fst h \<notin> set reserved_header_names \<and> header_ok (snd h)"
  by (simp add: resolve_header_def Let_def split: if_splits sum.splits) auto

lemma resolve_endpoint_Inr:
  assumes "resolve_endpoint nc env e = Inr r"
  shows "re_url r = eec_url e" "re_auth_required r = eec_auth_required e"
    "\<forall>h \<in> set (re_headers r). fst h \<notin> set reserved_header_names \<and> header_ok (snd h)"
proof -
  obtain headers query where hq: "map_results (resolve_header nc env (eec_name e)) (eec_headers e) = Inr headers"
    "r = \<lparr>re_url = eec_url e, re_auth_required = eec_auth_required e, re_headers = headers, re_query = query\<rparr>"
    using assms by (auto simp: resolve_endpoint_def and_then_eq_Inr)
  then show "re_url r = eec_url e" "re_auth_required r = eec_auth_required e" by simp_all
  show "\<forall>h \<in> set (re_headers r). fst h \<notin> set reserved_header_names \<and> header_ok (snd h)"
    using map_results_set [OF hq(1)] resolve_header_Inr by (fastforce simp: hq(2))
qed

text \<open>
  Every upstream of a loaded configuration that resolves is reached under its name, with its address,
  and no header it carries is one the client owns or could break the request.
\<close>

theorem loaded_upstreams_resolve:
  assumes "load_config nc build vars = Inr c" "resolve_api nc client env (cf_external_api c) = Inr api" "e \<in> set (eac_endpoints (cf_external_api c))"
  shows "\<exists>r. xa_client api \<and> xa_endpoints api (eec_name e) = Some r \<and> re_url r = eec_url e \<and> re_auth_required r = eec_auth_required e \<and>
    nc_url_scheme nc (re_url r) \<in> {Some ''http'', Some ''https''} \<and>
    (\<forall>h \<in> set (re_headers r). fst h \<notin> set reserved_header_names \<and> header_ok (snd h))"
proof -
  from assms(1) have "validate_config nc c = Inr ()" by (auto simp: load_config_def finish_load_Inr Let_def)
  from upstreams_are_sound [OF validated_sections(3) [OF this]]
  have names: "distinct (map eec_name (eac_endpoints (cf_external_api c)))" and url: "nc_url_scheme nc (eec_url e) \<in> {Some ''http'', Some ''https''}"
    using assms(3) by blast+
  from assms(2,3) obtain found where f: "resolve_endpoints nc env (\<lambda>_. None) (eac_endpoints (cf_external_api c)) = Inr found"
    "xa_client api" "xa_endpoints api = found"
    by (auto simp: resolve_api_def and_then_eq_Inr split: if_splits sum.splits)
  from resolve_endpoints_table [OF f(1) names] assms(3) obtain r where "found (eec_name e) = Some r" "resolve_endpoint nc env e = Inr r" by blast
  with resolve_endpoint_Inr [of nc env e r] f url show ?thesis by auto
qed

text \<open>The table holds the configured upstreams only, within the limits the loader checks.\<close>

lemma resolved_is_configured:
  assumes "load_config nc build vars = Inr c" "resolve_api nc client env (cf_external_api c) = Inr api" "xa_endpoints api name = Some r"
  obtains e where "e \<in> set (eac_endpoints (cf_external_api c))" "eec_name e = name" "resolve_endpoint nc env e = Inr r"
    "nc_url_scheme nc (eec_url e) \<in> {Some ''http'', Some ''https''}"
    "xa_response_limit_bytes api \<le> max_external_api_response_bytes"
    "1 \<le> eac_timeout_secs (cf_external_api c)" "eac_timeout_secs (cf_external_api c) \<le> 60"
proof -
  from assms(1) have "validate_config nc c = Inr ()" by (auto simp: load_config_def finish_load_Inr Let_def)
  note v = validated_sections(3) [OF this]
  from upstreams_are_sound [OF v]
  have names: "distinct (map eec_name (eac_endpoints (cf_external_api c)))" by blast
  have some: "eac_endpoints (cf_external_api c) \<noteq> []" using assms(2,3) by (auto simp: resolve_api_def disabled_def)
  with assms(2) obtain found where f: "resolve_endpoints nc env (\<lambda>_. None) (eac_endpoints (cf_external_api c)) = Inr found"
    "xa_endpoints api = found" "xa_response_limit_bytes api = eac_response_limit_bytes (cf_external_api c)"
    by (auto simp: resolve_api_def and_then_eq_Inr split: sum.splits)
  from resolve_endpoints_table [OF f(1) names] assms(3) f(2)
  obtain e where e: "e \<in> set (eac_endpoints (cf_external_api c))" "eec_name e = name" "resolve_endpoint nc env e = Inr r"
    by (metis (no_types, lifting) imageE list.set_map option.distinct(1) option.inject)
  from some v have "1 \<le> eac_timeout_secs (cf_external_api c)" "eac_timeout_secs (cf_external_api c) \<le> 60"
    "eac_response_limit_bytes (cf_external_api c) \<le> max_external_api_response_bytes"
    by (auto simp: validate_external_api_def and_then_unit split: if_splits)
  with e upstreams_are_sound [OF v] f(3) that show thesis by metis
qed

lemma attach_body_timeout: "attach_body cl uq = Inr r \<Longrightarrow> uq_timeout_secs r = uq_timeout_secs uq"
  by (auto simp: attach_body_def split: if_splits option.splits)

lemma upstream_call_timeout: "upstream_call fc timeout e subpath cl = Inr uq \<Longrightarrow> uq_timeout_secs uq = timeout"
  by (auto simp: upstream_call_def dest!: attach_body_timeout split: sum.splits)

lemma upstream_call_headers:
  assumes "upstream_call fc timeout e subpath cl = Inr uq" "h \<in> set (uq_headers uq)"
  shows "h \<in> set (re_headers e) \<or> h = (''accept'', ''application/json'') \<or> fst h = ''content-type'' \<and> content_type_of (cl_headers cl) = Some (snd h)"
  using assms attach_body_Inr(2) by (fastforce simp: upstream_call_def split: sum.splits)

lemma visible_header: "content_type_of headers = Some v \<Longrightarrow> header_ok v"
  by (auto simp: content_type_of_def to_str_def header_ok_def list_all_iff bind_eq_Some_conv split: if_splits)


section \<open>A concrete upstream\<close>

definition sample_upstream :: resolved_endpoint where
  "sample_upstream = \<lparr>re_url = ''https://a.b/v'', re_auth_required = False, re_headers = [], re_query = [(''key'', ''s'')]\<rparr>"

definition sample_pair :: "string \<times> string \<Rightarrow> string" where
  "sample_pair p = encode_uri_component (fst p) @ CHR ''='' # encode_uri_component (snd p)"

definition sample_unpair :: "string \<Rightarrow> string \<times> string" where
  "sample_unpair s = (case split_once (CHR ''='') s of Some (n, v) \<Rightarrow> (percent_decode n, percent_decode v) | None \<Rightarrow> (percent_decode s, []))"

definition sample_form :: form_crate where
  "sample_form = \<lparr>fc_parse = (\<lambda>q. map sample_unpair (split_on (CHR ''&'') q)), fc_pair = sample_pair\<rparr>"

definition sample_client :: client_request where
  "sample_client = \<lparr>cl_method = ''GET'', cl_path = ''/api/ext/x'', cl_query = Some ''key=t&q=1'', cl_headers = [(''cookie'', ''c'')], cl_body = None\<rparr>"

lemma encoded_plain: "c = CHR ''='' \<or> c = CHR ''&'' \<Longrightarrow> c \<notin> set (encode_uri_component s)"
  using encode_uri_component_safe [of s] by (auto simp: list_all_iff query_safe_def unreserved_def is_alnum_def is_alpha_def is_lower_def is_upper_def is_digit_def code_def)

lemma sample_unpair_pair: "sample_unpair (sample_pair p) = p"
  by (simp add: sample_unpair_def sample_pair_def split_once_append encoded_plain percent_decode_encode_id)

lemma sample_form_law: "form_law sample_form"
proof -
  have "CHR ''&'' \<notin> set (sample_pair p)" for p by (simp add: sample_pair_def encoded_plain)
  then show ?thesis by (simp add: form_law_def sample_form_def split_on_join_with sample_unpair_pair map_idI)
qed

definition sample_request_up :: upstream_request where
  "sample_request_up = \<lparr>uq_method = ''GET'', uq_url = ''https://a.b/v/w%3F?q=1&key=s'', uq_timeout_secs = 8,
     uq_headers = [(''accept'', ''application/json'')], uq_body = None\<rparr>"

definition sample_endpoint :: external_endpoint_config where
  "sample_endpoint = \<lparr>eec_name = ''x'', eec_url = ''https://a.b/v'', eec_auth_required = False, eec_headers = [], eec_query = []\<rparr>"

definition proxy_config :: app_config where
  "proxy_config = default_config\<lparr>cf_external_api := (default_external_api\<lparr>eac_endpoints := [sample_endpoint]\<rparr>)\<rparr>"

lemma sample_call: "upstream_call sample_form 8 sample_upstream (Some ''w?'') sample_client = Inr sample_request_up"
proof -
  have path: "encode_subpath ''w?'' = Inr ''w%3F''"
    by (simp add: encode_subpath_def has_control.simps encode_segment_def encode_char_def percent_byte_def is_pchar_def
        is_alnum_def is_alpha_def is_lower_def is_upper_def is_digit_def code_def hex_upper_def)
  then have base: "base_address sample_upstream (Some ''w?'') = Inr ''https://a.b/v/w%3F''"
    by (simp add: base_address_def sample_upstream_def join_subpath_def trim_end_slashes_def split_once_def)
  have pairs: "fc_parse sample_form ''key=t&q=1'' = [(''key'', ''t''), (''q'', ''1'')]"
    by (simp add: sample_form_def sample_unpair_def split_once_def)
  have written: "fc_pair sample_form (''q'', ''1'') = ''q=1''" "fc_pair sample_form (''key'', ''s'') = ''key=s''"
    by (simp_all add: sample_form_def sample_pair_def unreserved_def is_alnum_def is_alpha_def is_lower_def
        is_upper_def is_digit_def code_def)
  have "upstream_url sample_form ''https://a.b/v/w%3F'' (Some ''key=t&q=1'') [(''key'', ''s'')] = ''https://a.b/v/w%3F?q=1&key=s''"
    by (simp add: upstream_url_def composed_pairs_def add_query_def pairs written)
  with base show ?thesis
    by (simp add: upstream_call_def attach_body_def sample_client_def sample_upstream_def sample_request_up_def)
qed

lemma sample_bases: "scheme_of ''https://a.b/v'' = ''https://''" "host_of_url ''https://a.b/v'' = ''a.b''"
  by (simp_all add: scheme_of_def host_of_url_def ends_host_def starts_with_def)

lemma clients_stay_on_the_upstream_witness: "origin_of (uq_url sample_request_up) = origin_of (re_url sample_upstream)"
  using clients_stay_on_the_upstream [OF sample_call] by (simp add: sample_upstream_def sample_bases)

lemma fixed_parameters_win_witness:
  "\<exists>path q. split_once (CHR ''?'') (uq_url sample_request_up) = Some (path, q) \<and>
    filter (\<lambda>p. fst p \<in> fst ` set (re_query sample_upstream)) (fc_parse sample_form q) = re_query sample_upstream"
proof -
  have "own_query sample_upstream = None" by (simp add: own_query_def sample_upstream_def split_once_None)
  with fixed_parameters_win [OF sample_call _ sample_form_law] show ?thesis by (auto simp: sample_upstream_def)
qed

definition proxy_crates :: net_crates where
  "proxy_crates = \<lparr>nc_url_scheme = (\<lambda>_. Some ''https''), nc_header_name = (\<lambda>_. True)\<rparr>"

definition proxy_builder :: builder where
  "proxy_builder sources = Inr proxy_config"

definition proxy_table :: external_api where
  "proxy_table = \<lparr>xa_client = True,
     xa_endpoints = [''x'' \<mapsto> \<lparr>re_url = ''https://a.b/v'', re_auth_required = False, re_headers = [], re_query = []\<rparr>],
     xa_response_limit_bytes = 262144\<rparr>"

lemma proxy_cms_valid: "validate_cms proxy_config = Inr ()"
  by (simp add: validate_cms_def proxy_config_def default_config_def default_cms_def Let_def and_then_unit has_parent_segment_def
      path_components_def nul_def min_media_max_bytes_def max_media_max_bytes_def default_media_max_bytes_def min_index_page_size_def
      max_index_page_size_def default_index_page_size_def max_max_revisions_def default_max_revisions_def)

lemma proxy_api_valid: "validate_external_api proxy_crates (cf_external_api proxy_config) = Inr ()"
proof -
  have "valid_slug ''x''" by code_simp
  then show ?thesis
    by (simp add: validate_external_api_def proxy_config_def default_external_api_def sample_endpoint_def validate_endpoint_def
        proxy_crates_def and_then_unit max_external_api_response_bytes_def)
qed

lemma proxy_loads: "load_config proxy_crates proxy_builder (\<lambda>_. None) = Inr proxy_config"
proof -
  have "validate_config proxy_crates proxy_config = Inr ()"
    using default_config_valid [of proxy_crates] proxy_api_valid
    by (auto simp: validate_config_def and_then_unit proxy_cms_valid) (simp_all add: proxy_config_def)
  moreover have "normalize_config proxy_config = proxy_config"
    by (simp add: normalize_config_def proxy_config_def default_config_def default_cms_def)
  ultimately show ?thesis by (simp add: load_config_def Let_def finish_load_def proxy_builder_def)
qed

lemma proxy_resolves: "resolve_api proxy_crates (Inr ()) (\<lambda>_. None) (cf_external_api proxy_config) = Inr proxy_table"
  by (simp add: resolve_api_def proxy_config_def default_external_api_def sample_endpoint_def resolve_endpoint_def proxy_table_def)

lemma loaded_upstreams_resolve_witness:
  "\<exists>r. xa_client proxy_table \<and> xa_endpoints proxy_table ''x'' = Some r \<and> nc_url_scheme proxy_crates (re_url r) \<in> {Some ''http'', Some ''https''}"
  using loaded_upstreams_resolve [OF proxy_loads proxy_resolves, of sample_endpoint]
  by (auto simp: proxy_config_def sample_endpoint_def)

definition plain_client :: client_request where
  "plain_client = \<lparr>cl_method = ''GET'', cl_path = ''/api/ext/x'', cl_query = None, cl_headers = [(''cookie'', ''c'')], cl_body = None\<rparr>"

definition plain_answer :: upstream_response where
  "plain_answer = \<lparr>ur_status = 200, ur_content_type = None, ur_chunks = [''o'', ''k''], ur_failure = None\<rparr>"

lemma proxied:
  "proxy sample_form proxy_table (eac_timeout_secs (cf_external_api proxy_config)) (\<lambda>_. Inr plain_answer) ''x'' None (Inl rejection) plain_client =
    Ext_Answer 200 None ''ok''"
  by (simp add: proxy_def proxy_table_def upstream_call_def base_address_def attach_body_def plain_client_def answer_def plain_answer_def
      forwardable_content_type_def)


end
