(* ===== verification/Template_Compiler.thy ===== *)
theory Template_Compiler
  imports Config Template_Dispatch
begin

text \<open>
  From a template to a program: the two passes of the compiler (\<open>src/src/template_engine/parser.rs\<close>), the
  resolution of includes and the cache of programs (\<open>src/src/template_engine/engine.rs\<close>). What runs the
  program is not modelled. The delimiters are the ones of the server, which never builds others; the
  files are a map from paths to a time of change and a text.
\<close>

section \<open>The two passes\<close>

record tag_options =
  open_tag :: string
  close_tag :: string
  echo_tag :: string

definition default_tags :: tag_options where
  "default_tags = \<lparr>open_tag = ''<?jhs'', close_tag = ''?>'', echo_tag = ''<?=''\<rparr>"

text \<open>The first block between two delimiters: what is before it, its body, what is after it.\<close>

definition next_block :: "string \<Rightarrow> string \<Rightarrow> string \<Rightarrow> (string \<times> string \<times> string) option" where
  "next_block opn cls s =
     (case find_str opn s of
        None \<Rightarrow> None
      | Some i \<Rightarrow>
          (let inner = drop (i + length opn) s in
           case find_str cls inner of
             None \<Rightarrow> None
           | Some j \<Rightarrow> Some (take i s, take j inner, drop (j + length cls) inner)))"

lemma next_block_Some:
  assumes "next_block opn cls s = Some (before, body, after)"
  shows "s = before @ opn @ body @ cls @ after"
proof -
  obtain i j where ij: "find_str opn s = Some i" "find_str cls (drop (i + length opn) s) = Some j"
    "before = take i s" "body = take j (drop (i + length opn) s)" "after = drop (j + length cls) (drop (i + length opn) s)"
    using assms by (auto simp: next_block_def Let_def split: option.splits)
  from find_str_split [OF ij(1)] find_str_split [OF ij(2)] show ?thesis unfolding ij(3-5) by simp
qed

lemma next_block_shorter: "next_block opn cls s = Some (before, body, after) \<Longrightarrow> opn \<noteq> [] \<Longrightarrow> length after < length s"
  by (drule next_block_Some) simp

lemma default_tags_simps [simp]:
  "open_tag default_tags = ''<?jhs''" "close_tag default_tags = ''?>''" "echo_tag default_tags = ''<?=''"
  by (simp_all add: default_tags_def)

function rewrite_echo_tags :: "string \<Rightarrow> string" where
  "rewrite_echo_tags s =
     (case next_block (echo_tag default_tags) (close_tag default_tags) s of
        None \<Rightarrow> s
      | Some (before, expression, after) \<Rightarrow>
          before @ open_tag default_tags @ ''__output += __escape('' @ trim expression @ '');'' @ close_tag default_tags @
          rewrite_echo_tags after)"
  by pat_completeness auto
termination
  by (relation "measure length") (auto dest: next_block_shorter)

declare rewrite_echo_tags.simps [simp del]

definition json_hex :: "nat \<Rightarrow> char" where
  "json_hex n = ''0123456789abcdef'' ! n"

definition json_char :: "char \<Rightarrow> string" where
  "json_char c =
     (if c = CHR 0x22 then [CHR 0x5C, CHR 0x22]
      else if c = CHR 0x5C then [CHR 0x5C, CHR 0x5C]
      else if c = CHR 0x0A then [CHR 0x5C, CHR ''n'']
      else if c = CHR 0x0D then [CHR 0x5C, CHR ''r'']
      else if c = CHR 0x09 then [CHR 0x5C, CHR ''t'']
      else if c = CHR 0x08 then [CHR 0x5C, CHR ''b'']
      else if c = CHR 0x0C then [CHR 0x5C, CHR ''f'']
      else if code c < 0x20 then CHR 0x5C # ''u00'' @ [json_hex (code c div 16), json_hex (code c mod 16)]
      else [c])"

definition json_stringify :: "string \<Rightarrow> string" where
  "json_stringify text = CHR 0x22 # concat (map json_char text) @ [CHR 0x22]"

definition push_text :: "string \<Rightarrow> string" where
  "push_text text = ''__output += '' @ json_stringify text @ '';'' @ [CHR 0x0A]"

function compile_code_blocks :: "string \<Rightarrow> string" where
  "compile_code_blocks s =
     (case next_block (open_tag default_tags) (close_tag default_tags) s of
        None \<Rightarrow> if s = [] then [] else push_text s
      | Some (before, body, after) \<Rightarrow>
          (if before = [] then [] else push_text before) @ body @ CHR 0x0A # compile_code_blocks after)"
  by pat_completeness auto
termination
  by (relation "measure length") (auto dest: next_block_shorter)

declare compile_code_blocks.simps [simp del]

definition lines_of :: "string list \<Rightarrow> string" where
  "lines_of ls = concat (map (\<lambda>l. l @ [CHR 0x0A]) ls)"

definition quotes :: string where "quotes = [CHR 0x22, CHR 0x22]"

definition wrap :: "string \<Rightarrow> string" where
  "wrap body =
     lines_of ['''', ''(function() {'', ''  let __output = '' @ quotes @ '';'', '''',
       ''  // echo() '' @ em_dash @ '' writes escaped output directly from code blocks'', ''  function echo(...args) {'',
       ''    __output += args.map(__jhsEchoPart).join('' @ [CHR 0x27, CHR 0x27] @ '');'', ''  }'', ''''] @
     body @ lines_of ['''', ''  return __output;''] @ ''})()''"

definition compile :: "string \<Rightarrow> string" where
  "compile source = wrap (compile_code_blocks (rewrite_echo_tags source))"

section \<open>The blocks of a template\<close>

text \<open>
  What the passes do, without their loops: a text is cut into literal text and blocks between two
  delimiters, in exactly one way, and every piece is written on its own.
\<close>

datatype piece = Literal string | Block string

fun source_of :: "string \<Rightarrow> string \<Rightarrow> piece \<Rightarrow> string" where
  "source_of opn cls (Literal text) = text"
| "source_of opn cls (Block body) = opn @ body @ cls"

text \<open>
  A literal is not empty and not followed by another; before a block it has no opening delimiter, at the
  end it has no block. The body of a block has no closing delimiter.
\<close>

fun cut :: "string \<Rightarrow> string \<Rightarrow> piece list \<Rightarrow> bool" where
  "cut opn cls [] \<longleftrightarrow> True"
| "cut opn cls (Block body # ps) \<longleftrightarrow> \<not> contains_str cls body \<and> cut opn cls ps"
| "cut opn cls [Literal text] \<longleftrightarrow> text \<noteq> [] \<and> \<not> (\<exists>u v w. text = u @ opn @ v @ cls @ w)"
| "cut opn cls (Literal text # Block body # ps) \<longleftrightarrow>
     text \<noteq> [] \<and> \<not> contains_str opn text \<and> \<not> contains_str cls body \<and> cut opn cls ps"
| "cut opn cls (Literal _ # Literal _ # _) \<longleftrightarrow> False"

text \<open>A pattern whose first character does not come again is found where it stands.\<close>

lemma find_str_here:
  assumes "c \<notin> set p" "\<not> contains_str (c # p) t"
  shows "find_str (c # p) (t @ c # p @ r) = Some (length t)"
  using assms(2)
proof (induction t)
  case (Cons a t)
  have "\<not> starts_with (c # p) (a # t @ c # p @ r)"
  proof
    assume s: "starts_with (c # p) (a # t @ c # p @ r)"
    then have "a = c" and "starts_with p (t @ c # p @ r)" by auto
    then obtain x where x: "t @ c # p @ r = p @ x" by (auto simp: starts_with_iff)
    show False
    proof (cases "length p \<le> length t")
      case True
      with x obtain y where "t = p @ y" by (metis append_eq_append_conv2 append_eq_conv_conj append_take_drop_id le_add_diff_inverse length_append length_take min.absorb2 take_append)
      with \<open>a = c\<close> Cons.prems show False unfolding contains_str_iff by (metis append_Cons append_Nil)
    next
      case False
      with x have "p ! length t = c" by (metis linorder_not_le nth_append nth_append_length)
      with False assms(1) show False by (metis linorder_not_le nth_mem)
    qed
  qed
  moreover have "\<not> contains_str (c # p) t" using Cons.prems unfolding contains_str_iff by (metis append_Cons)
  ultimately show ?case using Cons.IH by simp
qed simp

lemma next_block_here:
  assumes "c \<notin> set p" "d \<notin> set q" "\<not> contains_str (c # p) before" "\<not> contains_str (d # q) body"
  shows "next_block (c # p) (d # q) (before @ (c # p) @ body @ (d # q) @ after) = Some (before, body, after)"
proof -
  have "find_str (c # p) (before @ (c # p) @ body @ (d # q) @ after) = Some (length before)"
    using find_str_here [OF assms(1,3)] by simp
  moreover have "find_str (d # q) (body @ (d # q) @ after) = Some (length body)" using find_str_here [OF assms(2,4)] by simp
  ultimately show ?thesis by (simp add: next_block_def)
qed

lemma find_str_before:
  assumes "find_str p t = Some k" "p \<noteq> []"
  shows "\<not> contains_str p (take k t)"
proof
  assume "contains_str p (take k t)"
  then obtain u v where uv: "take k t = u @ p @ v" by (auto simp: contains_str_iff)
  have "length (u @ p @ v) \<le> k" unfolding uv [symmetric] by simp
  with assms(2) have less: "length u < k" by (cases p) auto
  have "t = u @ p @ v @ drop k t" using append_take_drop_id [of k t] uv by simp
  then have "starts_with p (drop (length u) t)" by (metis append_eq_conv_conj starts_with_append)
  with find_str_first [OF assms(1) less] show False by simp
qed

lemma next_block_parts:
  assumes "next_block opn cls s = Some (before, body, after)" "opn \<noteq> []" "cls \<noteq> []"
  shows "\<not> contains_str opn before" "\<not> contains_str cls body"
  using assms find_str_before by (auto simp: next_block_def Let_def split: option.splits)

lemma next_block_None:
  assumes "next_block opn cls s = None"
  shows "\<not> (\<exists>u v w. s = u @ opn @ v @ cls @ w)"
proof
  assume "\<exists>u v w. s = u @ opn @ v @ cls @ w"
  then obtain u v w where s: "s = u @ opn @ v @ cls @ w" by blast
  then obtain i where i: "find_str opn s = Some i" unfolding contains_str_iff [symmetric] using contains_str_iff [of opn s] by (auto simp: contains_str_def)
  have "i \<le> length u"
  proof (rule ccontr)
    assume "\<not> i \<le> length u"
    then have "\<not> starts_with opn (drop (length u) s)" using find_str_first [OF i] by simp
    then show False by (simp add: s)
  qed
  then have "drop (i + length opn) s = drop (i + length opn) (u @ opn) @ v @ cls @ w" by (simp add: s)
  then have "contains_str cls (drop (i + length opn) s)" unfolding contains_str_iff by (metis append_assoc)
  with assms i show False by (auto simp: next_block_def Let_def contains_str_def split: option.splits)
qed

text \<open>The pieces of a text, as the passes find them.\<close>

function pieces :: "string \<Rightarrow> string \<Rightarrow> string \<Rightarrow> piece list" where
  "pieces opn cls s =
     (if opn = [] then [] else
      case next_block opn cls s of
        None \<Rightarrow> if s = [] then [] else [Literal s]
      | Some (before, body, after) \<Rightarrow> (if before = [] then [] else [Literal before]) @ Block body # pieces opn cls after)"
  by pat_completeness auto
termination
  by (relation "measure (\<lambda>(opn, cls, s). length s)") (auto dest: next_block_shorter)

declare pieces.simps [simp del]

lemma pieces_step:
  "next_block opn cls s = Some (before, body, after) \<Longrightarrow> opn \<noteq> [] \<Longrightarrow>
    pieces opn cls s = (if before = [] then [] else [Literal before]) @ Block body # pieces opn cls after"
  "next_block opn cls s = None \<Longrightarrow> opn \<noteq> [] \<Longrightarrow> pieces opn cls s = (if s = [] then [] else [Literal s])"
  by (subst pieces.simps; simp)+

text \<open>The induction along the blocks of a text.\<close>

lemma block_induct:
  assumes "opn \<noteq> []"
    "\<And>s. next_block opn cls s = None \<Longrightarrow> P s"
    "\<And>s before body after. next_block opn cls s = Some (before, body, after) \<Longrightarrow> P after \<Longrightarrow> P s"
  shows "P s"
proof (induction s rule: measure_induct_rule [of length])
  case (less s)
  show ?case
  proof (cases "next_block opn cls s")
    case (Some t)
    obtain before body after where t: "t = (before, body, after)" by (cases t)
    from assms(3) [OF Some [unfolded t]] less next_block_shorter [OF Some [unfolded t] assms(1)] show ?thesis by blast
  qed (rule assms(2))
qed

lemma pieces_source:
  assumes "opn \<noteq> []"
  shows "concat (map (source_of opn cls) (pieces opn cls s)) = s"
proof (induction s rule: block_induct [OF assms, of cls])
  case (2 s before body after)
  show ?case unfolding pieces_step(1) [OF 2(1) assms] using next_block_Some [OF 2(1)] 2(2) by simp
qed (simp add: pieces_step(2) assms)

lemma pieces_cut:
  assumes "opn \<noteq> []" "cls \<noteq> []"
  shows "cut opn cls (pieces opn cls s)"
proof (induction s rule: block_induct [OF assms(1), of cls])
  case (2 s before body after)
  from next_block_parts [OF 2(1) assms] 2(2) show ?case by (simp add: pieces_step(1) [OF 2(1) assms(1)])
qed (use next_block_None in \<open>simp add: pieces_step(2) assms(1)\<close>)

lemma pieces_unique:
  assumes "c \<notin> set p" "d \<notin> set q" "cut (c # p) (d # q) ps"
  shows "pieces (c # p) (d # q) (concat (map (source_of (c # p) (d # q)) ps)) = ps"
  using assms(3)
proof (induction ps rule: induct_list012)
  case 1
  show ?case by (simp add: pieces_step(2) next_block_def)
next
  case (2 x)
  show ?case
  proof (cases x)
    case (Literal l)
    have "next_block (c # p) (d # q) l = None"
    proof (cases "next_block (c # p) (d # q) l")
      case (Some t)
      obtain before body after where t: "t = (before, body, after)" by (cases t)
      from next_block_Some [OF Some [unfolded t]] 2 Literal show ?thesis by auto
    qed
    with 2 Literal show ?thesis by (simp add: pieces_step(2))
  next
    case (Block body)
    with 2 next_block_here [OF assms(1,2), of "[]" body "[]"] show ?thesis by (simp add: pieces_step next_block_def contains_str_def)
  qed
next
  case (3 x y ps)
  show ?case
  proof (cases x)
    case (Block body)
    with 3 next_block_here [OF assms(1,2), of "[]" body] show ?thesis by (simp add: pieces_step(1) contains_str_def)
  next
    case (Literal l)
    with 3 obtain body where "y = Block body" by (cases y) auto
    with 3 Literal next_block_here [OF assms(1,2), of l body] show ?thesis by (simp add: pieces_step(1))
  qed
qed

fun echoed :: "piece \<Rightarrow> string" where
  "echoed (Literal l) = l"
| "echoed (Block expression) = ''<?jhs__output += __escape('' @ trim expression @ '');?>''"

fun written :: "piece \<Rightarrow> string" where
  "written (Literal l) = push_text l"
| "written (Block body) = body @ [CHR 0x0A]"

lemma rewrite_pieces: "rewrite_echo_tags s = concat (map echoed (pieces ''<?='' ''?>'' s))"
proof (induction s rule: block_induct [of "''<?=''" "''?>''"])
  case (3 s before body after)
  then show ?case by (subst rewrite_echo_tags.simps) (simp add: pieces_step(1))
next
  case (2 s)
  then show ?case by (subst rewrite_echo_tags.simps) (simp add: pieces_step(2))
qed simp

lemma compile_pieces: "compile_code_blocks s = concat (map written (pieces ''<?jhs'' ''?>'' s))"
proof (induction s rule: block_induct [of "''<?jhs''" "''?>''"])
  case (3 s before body after)
  then show ?case by (subst compile_code_blocks.simps) (simp add: pieces_step(1))
next
  case (2 s)
  then show ?case by (subst compile_code_blocks.simps) (simp add: pieces_step(2))
qed simp

lemma unique_cut:
  assumes "c \<notin> set p" "d \<notin> set q"
  shows "cut (c # p) (d # q) ps \<and> concat (map (source_of (c # p) (d # q)) ps) = s \<longleftrightarrow> ps = pieces (c # p) (d # q) s"
proof
  assume "cut (c # p) (d # q) ps \<and> concat (map (source_of (c # p) (d # q)) ps) = s"
  with pieces_unique [OF assms, of ps] show "ps = pieces (c # p) (d # q) s" by simp
qed (simp add: pieces_cut pieces_source)

text \<open>
  C28: The compiler follows the blocks of a template: the text has exactly one decomposition into literal
  text and echo blocks, what it is rewritten to exactly one into literal text and code blocks, and the
  program is each piece in its place, the literals as output statements and the code as it stands.
\<close>

theorem compiler_follows_blocks:
  "(\<exists>!es. cut ''<?='' ''?>'' es \<and> concat (map (source_of ''<?='' ''?>'') es) = source) \<and>
   (\<exists>!bs. cut ''<?jhs'' ''?>'' bs \<and> concat (map (source_of ''<?jhs'' ''?>'') bs) = rewrite_echo_tags source) \<and>
   (\<exists>es bs. cut ''<?='' ''?>'' es \<and> concat (map (source_of ''<?='' ''?>'') es) = source \<and>
     cut ''<?jhs'' ''?>'' bs \<and> concat (map (source_of ''<?jhs'' ''?>'') bs) = concat (map echoed es) \<and>
     compile source = wrap (concat (map written bs)))"
proof -
  have e: "cut ''<?='' ''?>'' es \<and> concat (map (source_of ''<?='' ''?>'') es) = s \<longleftrightarrow> es = pieces ''<?='' ''?>'' s" for es s
    by (rule unique_cut) simp_all
  have b: "cut ''<?jhs'' ''?>'' bs \<and> concat (map (source_of ''<?jhs'' ''?>'') bs) = s \<longleftrightarrow> bs = pieces ''<?jhs'' ''?>'' s" for bs s
    by (rule unique_cut) simp_all
  let ?es = "pieces ''<?='' ''?>'' source" and ?bs = "pieces ''<?jhs'' ''?>'' (rewrite_echo_tags source)"
  have "cut ''<?='' ''?>'' ?es \<and> concat (map (source_of ''<?='' ''?>'') ?es) = source" unfolding e ..
  moreover have "cut ''<?jhs'' ''?>'' ?bs \<and> concat (map (source_of ''<?jhs'' ''?>'') ?bs) = concat (map echoed ?es)"
    unfolding b rewrite_pieces ..
  moreover have "compile source = wrap (concat (map written ?bs))" by (simp add: compile_def compile_pieces)
  ultimately have "\<exists>es bs. cut ''<?='' ''?>'' es \<and> concat (map (source_of ''<?='' ''?>'') es) = source \<and>
     cut ''<?jhs'' ''?>'' bs \<and> concat (map (source_of ''<?jhs'' ''?>'') bs) = concat (map echoed es) \<and>
     compile source = wrap (concat (map written bs))" by blast
  then show ?thesis unfolding e b by simp
qed

section \<open>Literals\<close>

text \<open>A string literal as JSON and JavaScript read it: its text and what follows.\<close>

definition hex_of :: "char \<Rightarrow> nat option" where
  "hex_of c =
     (if 48 \<le> code c \<and> code c \<le> 57 then Some (code c - 48)
      else if 97 \<le> code c \<and> code c \<le> 102 then Some (code c - 87)
      else if 65 \<le> code c \<and> code c \<le> 70 then Some (code c - 55) else None)"

definition escaped_char :: "char \<Rightarrow> char option" where
  "escaped_char c =
     (if c = CHR ''n'' then Some (CHR 0x0A) else if c = CHR ''r'' then Some (CHR 0x0D) else if c = CHR ''t'' then Some (CHR 0x09)
      else if c = CHR ''b'' then Some (CHR 0x08) else if c = CHR ''f'' then Some (CHR 0x0C)
      else if c = CHR 0x22 \<or> c = CHR 0x5C \<or> c = CHR ''/'' then Some c else None)"

fun read_literal :: "string \<Rightarrow> (string \<times> string) option" where
  "read_literal [] = None"
| "read_literal (c # s) =
     (if c = CHR 0x22 then Some ([], s)
      else if code c < 0x20 then None
      else if c \<noteq> CHR 0x5C then map_option (apfst (Cons c)) (read_literal s)
      else (case s of
          [] \<Rightarrow> None
        | e # t \<Rightarrow>
            (case escaped_char e of
               Some x \<Rightarrow> map_option (apfst (Cons x)) (read_literal t)
             | None \<Rightarrow>
                 (case t of
                    z # z' # h # l # u \<Rightarrow>
                      if e = CHR ''u'' \<and> z = CHR ''0'' \<and> z' = CHR ''0'' then
                        (case (hex_of h, hex_of l) of
                           (Some x, Some y) \<Rightarrow> map_option (apfst (Cons (char_of (16 * x + y)))) (read_literal u)
                         | _ \<Rightarrow> None)
                      else None
                  | _ \<Rightarrow> None))))"

lemma hex_of_lower: "n < 16 \<Longrightarrow> hex_of (json_hex n) = Some n"
proof -
  have "list_all (\<lambda>n. hex_of (json_hex n) = Some n) [0..<16]" by code_simp
  then show "n < 16 \<Longrightarrow> hex_of (json_hex n) = Some n" by (simp add: list_all_iff)
qed

lemma read_json_char: "read_literal (json_char c @ s) = map_option (apfst (Cons c)) (read_literal s)"
proof -
  have "code c div 16 < 16" "16 * (code c div 16) + code c mod 16 = code c" using code_less [of c] by (simp_all add: less_mult_imp_div_less)
  then show ?thesis
    by (simp add: json_char_def escaped_char_def hex_of_lower) (simp add: code_def)
qed

text \<open>
  C29: Literal text stays literal text: the literal of a program that stands for it is read back as exactly
  this text, whatever quotes, backslashes and line breaks it has, and the program goes on behind it.
\<close>

theorem literal_text_is_kept: "json_stringify t = CHR 0x22 # lit \<Longrightarrow> read_literal (lit @ rest) = Some (t, rest)"
proof -
  assume lit: "json_stringify t = CHR 0x22 # lit"
  have "read_literal (concat (map json_char u) @ CHR 0x22 # rest) = Some (u, rest)" for u
    by (induction u) (simp_all add: read_json_char)
  with lit show ?thesis by (auto simp: json_stringify_def)
qed

lemma literal_text_is_kept_witness: "read_literal (''a'' @ [CHR 0x5C, CHR 0x22, CHR 0x22] @ '';'') = Some (''a'' @ [CHR 0x22], '';'')"
  using literal_text_is_kept [of "''a'' @ [CHR 0x22]" "''a'' @ [CHR 0x5C, CHR 0x22, CHR 0x22]" "'';''"]
  by (simp add: json_stringify_def json_char_def code_def)

section \<open>Includes\<close>

text \<open>A file: when it was last changed, where that can be read, and its text or the error of reading it.\<close>

record disk_file =
  df_mtime :: "nat option"
  df_text :: "(string, string) result"

type_synonym file_tree = "string \<Rightarrow> disk_file"

datatype jhs_error = Io string | Include_Error string | Execution string string | Sidecar string

definition include_max_depth :: nat where "include_max_depth = 8"
definition include_max_bytes :: nat where "include_max_bytes = 1048576"
definition include_max_name_len :: nat where "include_max_name_len = 64"

definition is_quote :: "char \<Rightarrow> bool" where
  "is_quote c \<longleftrightarrow> c = CHR 0x22 \<or> c = CHR 0x27"

text \<open>The name of a block that is one call of \<open>include\<close>.\<close>

definition standalone_include :: "string \<Rightarrow> string option" where
  "standalone_include body =
     Option.bind (strip_prefix ''include'' (trim body)) (\<lambda>r1.
     Option.bind (strip_prefix ''('' (trim_start r1)) (\<lambda>r2.
       (case trim_start r2 of
          [] \<Rightarrow> None
        | c # rest \<Rightarrow>
            if \<not> is_quote c \<or> \<not> list_ex is_quote rest then None
            else (let name = takeWhile (\<lambda>c. \<not> is_quote c) rest;
                      tail = trim (drop (length name + 1) rest) in
                  if tail \<noteq> '')'' \<or> name = [] then None else Some name))))"

definition name_char :: "char \<Rightarrow> bool" where
  "name_char c \<longleftrightarrow> is_alnum c \<or> c = CHR ''-'' \<or> c = CHR ''_''"

definition include_path :: "string \<Rightarrow> string \<Rightarrow> (jhs_error, string) result" where
  "include_path views_dir name =
     (let base = (case strip_suffix ''.jhs'' name of Some b \<Rightarrow> b | None \<Rightarrow> name);
          invalid = (\<lambda>reason. Inl (Include_Error (''`'' @ name @ ''` is not a valid include name ('' @ reason @ '')''))) in
      if include_max_name_len < length base then invalid ''too long''
      else if base = [] then invalid ''empty name''
      else if CHR 0x5C \<in> set base \<or> starts_with ''/'' base \<or> ends_with ''/'' base \<or> contains_str ''//'' base \<or>
          \<not> list_all (\<lambda>c. name_char c \<or> c = CHR ''/'') base
      then invalid ''expected relative `[A-Za-z0-9_-]` segments joined by `/`''
      else if list_ex (\<lambda>segment. segment = [] \<or> segment = ''.'' \<or> segment = ''..'') (split_on (CHR ''/'') base)
      then invalid ''`..` and `.` segments are not allowed''
      else Inr (path_join views_dir (base @ ''.jhs'')))"

text \<open>How many bytes were embedded, and the files they came from.\<close>

type_synonym embedding = "nat \<times> (string \<times> nat option) list"

type_synonym partial_reader = "string \<Rightarrow> embedding \<Rightarrow> (jhs_error, string \<times> embedding) result"

function resolve_blocks :: "partial_reader \<Rightarrow> string \<Rightarrow> embedding \<Rightarrow> (jhs_error, string \<times> embedding) result" where
  "resolve_blocks read s e =
     (case next_block (open_tag default_tags) (close_tag default_tags) s of
        None \<Rightarrow> Inr (s, e)
      | Some (before, body, after) \<Rightarrow>
          and_then (case standalone_include body of
              Some name \<Rightarrow> read name e
            | None \<Rightarrow> Inr (open_tag default_tags @ body @ close_tag default_tags, e)) (\<lambda>(piece, e1).
          and_then (resolve_blocks read after e1) (\<lambda>(rest, e2). Inr (before @ piece @ rest, e2))))"
  by pat_completeness auto
termination
  by (relation "measure (\<lambda>(read, s, e). length s)") (auto dest: next_block_shorter)

declare resolve_blocks.simps [simp del]

text \<open>The levels that are left, from the maximum depth down.\<close>

fun read_include :: "file_tree \<Rightarrow> string \<Rightarrow> nat \<Rightarrow> partial_reader" where
  "read_include fs views_dir 0 name e =
     Inl (Include_Error (''`'' @ name @ ''` exceeds the maximum include nesting depth ('' @ show_nat include_max_depth @ '')''))"
| "read_include fs views_dir (Suc left) name (budget, tracked) =
     and_then (include_path views_dir name) (\<lambda>path.
     (case df_text (fs path) of
        Inl error \<Rightarrow> Inl (Include_Error (''`'' @ name @ ''` could not be read from the views directory ('' @ error @ '')''))
      | Inr source \<Rightarrow>
          (let spent = budget + length source in
           if include_max_bytes < spent
           then Inl (Include_Error (''embedding `'' @ name @ ''` exceeds the total include size budget ('' @ show_nat include_max_bytes @ '' bytes)''))
           else resolve_blocks (read_include fs views_dir left) source (spent, tracked @ [(path, df_mtime (fs path))]))))"

definition resolve_includes :: "file_tree \<Rightarrow> string \<Rightarrow> string \<Rightarrow> nat \<Rightarrow> embedding \<Rightarrow> (jhs_error, string \<times> embedding) result" where
  "resolve_includes fs views_dir source depth e = resolve_blocks (read_include fs views_dir (include_max_depth - depth)) source e"

section \<open>The cache of programs\<close>

record cached_template =
  ct_program :: string
  ct_mtime :: "nat option"
  ct_includes :: "(string \<times> nat option) list"

type_synonym program_cache = "string \<Rightarrow> cached_template option"

definition fresh :: "file_tree \<Rightarrow> string \<Rightarrow> cached_template \<Rightarrow> bool" where
  "fresh fs path hit \<longleftrightarrow> ct_mtime hit = df_mtime (fs path) \<and> list_all (\<lambda>(p, t). df_mtime (fs p) = t) (ct_includes hit)"

definition compile_file :: "file_tree \<Rightarrow> string \<Rightarrow> string \<Rightarrow> (jhs_error, cached_template) result" where
  "compile_file fs views_dir path =
     (case df_text (fs path) of
        Inl error \<Rightarrow> Inl (Io error)
      | Inr source \<Rightarrow>
          and_then (resolve_includes fs views_dir source 0 (0, [])) (\<lambda>(resolved, budget, includes).
          Inr \<lparr>ct_program = compile resolved, ct_mtime = df_mtime (fs path), ct_includes = includes\<rparr>))"

definition load_program :: "bool \<Rightarrow> string \<Rightarrow> file_tree \<Rightarrow> program_cache \<Rightarrow> string \<Rightarrow> (jhs_error, string) result \<times> program_cache" where
  "load_program caching views_dir fs cache path =
     (case (if caching then cache path else None) of
        Some hit \<Rightarrow>
          if fresh fs path hit then (Inr (ct_program hit), cache)
          else (case compile_file fs views_dir path of
              Inl e \<Rightarrow> (Inl e, cache)
            | Inr made \<Rightarrow> (Inr (ct_program made), cache(path \<mapsto> made)))
      | None \<Rightarrow>
          (case compile_file fs views_dir path of
              Inl e \<Rightarrow> (Inl e, cache)
            | Inr made \<Rightarrow> (Inr (ct_program made), if caching then cache(path \<mapsto> made) else cache)))"

definition compile_text :: "file_tree \<Rightarrow> string \<Rightarrow> string \<Rightarrow> (jhs_error, string) result" where
  "compile_text fs views_dir source = and_then (resolve_includes fs views_dir source 0 (0, [])) (\<lambda>(resolved, e). Inr (compile resolved))"

section \<open>What includes read and how much they embed\<close>

text \<open>A file of the views: below the directory, by segments of letters, digits, dashes and underscores.\<close>

definition view_file :: "string \<Rightarrow> string \<Rightarrow> bool" where
  "view_file views_dir path \<longleftrightarrow>
     (\<exists>base. path = path_join views_dir (base @ ''.jhs'') \<and>
       (\<forall>segment \<in> set (split_on (CHR ''/'') base). segment \<noteq> [] \<and> (\<forall>c \<in> set segment. name_char c)))"

lemma part_of_join: "p \<in> set ps \<Longrightarrow> set p \<subseteq> set (join_with d ps)"
  by (induction ps rule: induct_list012) auto

lemma split_on_subset: "p \<in> set (split_on d s) \<Longrightarrow> c \<in> set p \<Longrightarrow> c \<in> set s"
  using part_of_join [of p "split_on d s" "[d]"] by (auto simp: join_split_on)

lemma include_path_view:
  assumes "include_path views_dir name = Inr path"
  shows "view_file views_dir path"
proof -
  obtain base where base: "path = path_join views_dir (base @ ''.jhs'')" "list_all (\<lambda>c. name_char c \<or> c = CHR ''/'') base"
    "\<not> list_ex (\<lambda>segment. segment = [] \<or> segment = ''.'' \<or> segment = ''..'') (split_on (CHR ''/'') base)"
    using assms by (auto simp: include_path_def Let_def split: if_splits)
  have "c \<in> set segment \<Longrightarrow> segment \<in> set (split_on (CHR ''/'') base) \<Longrightarrow> name_char c" for c segment
  proof -
    assume c: "c \<in> set segment" "segment \<in> set (split_on (CHR ''/'') base)"
    then have "c \<noteq> CHR ''/''" using split_on_no_sep by blast
    moreover have "c \<in> set base" using c split_on_subset by blast
    ultimately show "name_char c" using base(2) by (auto simp: list_all_iff)
  qed
  with base(1,3) show ?thesis unfolding view_file_def list_ex_iff by blast
qed

text \<open>What a resolution of includes does to the budget and to the files it tracks.\<close>

definition embeds :: "file_tree \<Rightarrow> string \<Rightarrow> embedding \<Rightarrow> embedding \<Rightarrow> bool" where
  "embeds fs views_dir e e' \<longleftrightarrow>
     fst e \<le> fst e' \<and> (fst e \<le> include_max_bytes \<longrightarrow> fst e' \<le> include_max_bytes) \<and>
     (\<exists>new. snd e' = snd e @ new \<and>
       (\<forall>(p, t) \<in> set new. view_file views_dir p \<and> t = df_mtime (fs p) \<and> (\<exists>l. df_text (fs p) = Inr l)))"

lemma embeds_refl [simp]: "embeds fs views_dir e e"
  by (simp add: embeds_def)

lemma embeds_trans:
  assumes "embeds fs views_dir e e1" "embeds fs views_dir e1 e2"
  shows "embeds fs views_dir e e2"
proof -
  from assms(1) obtain new where new: "snd e1 = snd e @ new"
    "\<forall>(p, t) \<in> set new. view_file views_dir p \<and> t = df_mtime (fs p) \<and> (\<exists>l. df_text (fs p) = Inr l)"
    unfolding embeds_def by blast
  from assms(2) obtain new' where new': "snd e2 = snd e1 @ new'"
    "\<forall>(p, t) \<in> set new'. view_file views_dir p \<and> t = df_mtime (fs p) \<and> (\<exists>l. df_text (fs p) = Inr l)"
    unfolding embeds_def by blast
  have "snd e2 = snd e @ new @ new'" by (simp add: new(1) new'(1))
  moreover have "\<forall>(p, t) \<in> set (new @ new'). view_file views_dir p \<and> t = df_mtime (fs p) \<and> (\<exists>l. df_text (fs p) = Inr l)"
    using new(2) new'(2) by (simp add: ball_Un)
  moreover have "fst e \<le> fst e2" "fst e \<le> include_max_bytes \<longrightarrow> fst e2 \<le> include_max_bytes"
    using assms unfolding embeds_def by simp_all
  ultimately show ?thesis unfolding embeds_def by blast
qed

lemma embeds_tracked: "embeds fs views_dir e e' \<Longrightarrow> set (snd e) \<subseteq> set (snd e')"
  by (auto simp: embeds_def)

lemma resolve_blocks_Inr:
  assumes "resolve_blocks read s e = Inr (out, e')" "next_block ''<?jhs'' ''?>'' s = Some (before, body, after)"
  obtains piece e1 rest where "resolve_blocks read after e1 = Inr (rest, e')" "out = before @ piece @ rest"
    "(case standalone_include body of Some name \<Rightarrow> read name e | None \<Rightarrow> Inr (''<?jhs'' @ body @ ''?>'', e)) = Inr (piece, e1)"
proof -
  have "resolve_blocks read s e =
          and_then (case standalone_include body of Some name \<Rightarrow> read name e | None \<Rightarrow> Inr (''<?jhs'' @ body @ ''?>'', e)) (\<lambda>(piece, e1).
          and_then (resolve_blocks read after e1) (\<lambda>(rest, e2). Inr (before @ piece @ rest, e2)))"
    by (subst resolve_blocks.simps) (simp add: assms(2) cong: option.case_cong)
  with assms(1) that show thesis by (auto simp: and_then_eq_Inr)
qed

lemma resolve_blocks_plain: "next_block ''<?jhs'' ''?>'' s = None \<Longrightarrow> resolve_blocks read s e = Inr (s, e)"
  by (simp add: resolve_blocks.simps)

lemma resolve_blocks_embeds:
  assumes reader: "\<And>name e piece e'. read name e = Inr (piece, e') \<Longrightarrow> embeds fs views_dir e e' \<and> length piece + fst e \<le> fst e'"
  shows "resolve_blocks read s e = Inr (out, e') \<Longrightarrow> embeds fs views_dir e e' \<and> length out + fst e \<le> length s + fst e'"
proof (induction s arbitrary: e out rule: block_induct [of "''<?jhs''" "''?>''"])
  case (2 s)
  then show ?case by (simp add: resolve_blocks_plain)
next
  case (3 s before body after)
  from 3(3,1) obtain piece e1 rest where r: "resolve_blocks read after e1 = Inr (rest, e')" "out = before @ piece @ rest"
    "(case standalone_include body of Some name \<Rightarrow> read name e | None \<Rightarrow> Inr (''<?jhs'' @ body @ ''?>'', e)) = Inr (piece, e1)"
    by (rule resolve_blocks_Inr)
  have step: "embeds fs views_dir e e1 \<and> length piece + fst e \<le> length (''<?jhs'' @ body @ ''?>'') + fst e1"
  proof (cases "standalone_include body")
    case (Some name)
    with r(3) reader [of name e piece e1] show ?thesis by simp
  qed (use r(3) in auto)
  have rest: "embeds fs views_dir e1 e' \<and> length rest + fst e1 \<le> length after + fst e'" by (rule 3(2) [OF r(1)])
  have "length out = length before + length piece + length rest" by (simp add: r(2))
  moreover have "length s = length before + length (''<?jhs'' @ body @ ''?>'') + length after"
    using arg_cong [OF next_block_Some [OF 3(1)], of length] by simp
  ultimately have "length out + fst e \<le> length s + fst e'" using step rest by linarith
  with step rest show ?case using embeds_trans by blast
qed simp

lemma read_include_Inr:
  assumes "read_include fs views_dir n name e = Inr (piece, e')"
  obtains left path source where "n = Suc left" "include_path views_dir name = Inr path" "df_text (fs path) = Inr source"
    "fst e + length source \<le> include_max_bytes"
    "resolve_blocks (read_include fs views_dir left) source (fst e + length source, snd e @ [(path, df_mtime (fs path))]) = Inr (piece, e')"
proof -
  obtain budget tracked where e: "e = (budget, tracked)" by (cases e)
  with assms obtain left where n: "n = Suc left" by (cases n) auto
  with assms e obtain path where path: "include_path views_dir name = Inr path" by (auto simp: and_then_eq_Inr)
  with assms e n obtain source where "df_text (fs path) = Inr source" by (auto split: sum.splits)
  with assms e n path that show thesis by (auto simp: Let_def split: if_splits)
qed

lemma read_include_embeds:
  "read_include fs views_dir n name e = Inr (piece, e') \<Longrightarrow> embeds fs views_dir e e' \<and> length piece + fst e \<le> fst e'"
proof (induction n arbitrary: name e piece e')
  case (Suc n)
  from Suc.prems obtain path source where r: "include_path views_dir name = Inr path" "df_text (fs path) = Inr source"
    "fst e + length source \<le> include_max_bytes"
    "resolve_blocks (read_include fs views_dir n) source (fst e + length source, snd e @ [(path, df_mtime (fs path))]) = Inr (piece, e')"
    by (rule read_include_Inr) auto
  have "embeds fs views_dir e (fst e + length source, snd e @ [(path, df_mtime (fs path))])"
    using r(1-3) include_path_view by (auto simp: embeds_def)
  with resolve_blocks_embeds [OF Suc.IH r(4)] embeds_trans show ?case by fastforce
qed simp

lemma included_embeds: "resolve_blocks (read_include fs views_dir n) s e = Inr (out, e') \<Longrightarrow> embeds fs views_dir e e'"
  using resolve_blocks_embeds [of "read_include fs views_dir n" fs views_dir s e out e'] read_include_embeds by blast

text \<open>
  C30: However includes are nested, a template reads only files below the views directory by plain names,
  each with the time it was read at, embeds at most a mebibyte of them, and grows by no more than that.
\<close>

theorem includes_are_bounded:
  assumes "resolve_includes fs views_dir source 0 (0, []) = Inr (out, embedded, files)"
  shows "embedded \<le> include_max_bytes \<and> length out \<le> length source + embedded \<and>
    (\<forall>(p, t) \<in> set files. view_file views_dir p \<and> t = df_mtime (fs p) \<and> (\<exists>l. df_text (fs p) = Inr l))"
  using resolve_blocks_embeds [OF read_include_embeds assms [unfolded resolve_includes_def]] by (auto simp: embeds_def)

section \<open>The cache does not show\<close>

text \<open>A resolution depends on the files it tracks and on no other.\<close>

definition agree :: "file_tree \<Rightarrow> file_tree \<Rightarrow> embedding \<Rightarrow> bool" where
  "agree fs fs' e \<longleftrightarrow> (\<forall>(p, t) \<in> set (snd e). fs' p = fs p)"

lemma agree_before: "embeds fs views_dir e e' \<Longrightarrow> agree fs fs' e' \<Longrightarrow> agree fs fs' e"
  using embeds_tracked unfolding agree_def by blast

lemma resolve_blocks_local:
  assumes reader: "\<And>name e piece e'. read name e = Inr (piece, e') \<Longrightarrow> agree fs fs' e' \<Longrightarrow> read' name e = Inr (piece, e')"
    and grows: "\<And>name e piece e'. read name e = Inr (piece, e') \<Longrightarrow> embeds fs views_dir e e' \<and> length piece + fst e \<le> fst e'"
    and same: "agree fs fs' e'"
  shows "resolve_blocks read s e = Inr (out, e') \<Longrightarrow> resolve_blocks read' s e = Inr (out, e')"
proof (induction s arbitrary: e out rule: block_induct [of "''<?jhs''" "''?>''"])
  case (2 s)
  then show ?case by (simp add: resolve_blocks_plain)
next
  case (3 s before body after)
  from 3(3,1) obtain piece e1 rest where r: "resolve_blocks read after e1 = Inr (rest, e')" "out = before @ piece @ rest"
    "(case standalone_include body of Some name \<Rightarrow> read name e | None \<Rightarrow> Inr (''<?jhs'' @ body @ ''?>'', e)) = Inr (piece, e1)"
    by (rule resolve_blocks_Inr)
  have "embeds fs views_dir e1 e'" using resolve_blocks_embeds [of read fs views_dir after e1 rest e'] grows r(1) by blast
  from agree_before [OF this same] have "agree fs fs' e1" .
  with r(3) reader have "(case standalone_include body of Some name \<Rightarrow> read' name e | None \<Rightarrow> Inr (''<?jhs'' @ body @ ''?>'', e)) = Inr (piece, e1)"
    by (cases "standalone_include body") simp_all
  then show ?case using 3(2) [OF r(1)] r(2) 3(1) by (subst resolve_blocks.simps) (simp cong: option.case_cong)
qed simp

lemma read_include_local:
  "read_include fs views_dir n name e = Inr (piece, e') \<Longrightarrow> agree fs fs' e' \<Longrightarrow> read_include fs' views_dir n name e = Inr (piece, e')"
proof (induction n arbitrary: name e piece e')
  case (Suc n)
  from Suc.prems(1) obtain path source where r: "include_path views_dir name = Inr path" "df_text (fs path) = Inr source"
    "fst e + length source \<le> include_max_bytes"
    "resolve_blocks (read_include fs views_dir n) source (fst e + length source, snd e @ [(path, df_mtime (fs path))]) = Inr (piece, e')"
    by (rule read_include_Inr) auto
  have "agree fs fs' (fst e + length source, snd e @ [(path, df_mtime (fs path))])"
    by (rule agree_before [OF included_embeds [OF r(4)] Suc.prems(2)])
  then have same: "fs' path = fs path" by (simp add: agree_def)
  have "resolve_blocks (read_include fs' views_dir n) source (fst e + length source, snd e @ [(path, df_mtime (fs path))]) = Inr (piece, e')"
    by (rule resolve_blocks_local [OF Suc.IH read_include_embeds Suc.prems(2) r(4)])
  with r(1-3) same show ?case by (cases e) simp
qed simp

text \<open>The law the cache relies on: a file that is changed gets a time of change it never had.\<close>

definition stamped :: "(string \<Rightarrow> nat \<Rightarrow> string) \<Rightarrow> file_tree \<Rightarrow> bool" where
  "stamped version fs \<longleftrightarrow>
     (\<forall>p. case df_mtime (fs p) of Some m \<Rightarrow> df_text (fs p) = Inr (version p m) | None \<Rightarrow> \<exists>error. df_text (fs p) = Inl error)"

lemma stamped_same:
  assumes "stamped version fs" "stamped version fs'" "df_text (fs p) = Inr l" "df_mtime (fs p) = df_mtime (fs' p)"
  shows "fs' p = fs p"
proof (cases "df_mtime (fs p)")
  case None
  with assms(1) have "\<exists>error. df_text (fs p) = Inl error" unfolding stamped_def by (auto dest: spec [of _ p])
  with assms(3) show ?thesis by simp
next
  case (Some m)
  with assms(1) have "df_text (fs p) = Inr (version p m)" unfolding stamped_def by (auto dest: spec [of _ p])
  moreover from Some assms(2,4) have "df_text (fs' p) = Inr (version p m)" unfolding stamped_def by (auto dest: spec [of _ p])
  ultimately show ?thesis using assms(4) by simp
qed

lemma compile_file_Inr:
  assumes "compile_file fs views_dir path = Inr made"
  obtains source resolved budget where "df_text (fs path) = Inr source"
    "resolve_includes fs views_dir source 0 (0, []) = Inr (resolved, budget, ct_includes made)"
    "ct_program made = compile resolved" "ct_mtime made = df_mtime (fs path)"
  using assms by (auto simp: compile_file_def and_then_eq_Inr split: sum.splits)

lemma fresh_compiles:
  assumes "compile_file fs views_dir path = Inr made" "stamped version fs" "stamped version fs'" "fresh fs' path made"
  shows "compile_file fs' views_dir path = Inr made"
proof -
  from assms(1) obtain source resolved budget where c: "df_text (fs path) = Inr source"
    "resolve_includes fs views_dir source 0 (0, []) = Inr (resolved, budget, ct_includes made)"
    "ct_program made = compile resolved" "ct_mtime made = df_mtime (fs path)" by (rule compile_file_Inr)
  have path: "fs' path = fs path" using stamped_same [OF assms(2,3) c(1)] assms(4) c(4) by (simp add: fresh_def)
  note tracked = included_embeds [OF c(2) [unfolded resolve_includes_def]]
  have "fs' p = fs p" if "(p, t) \<in> set (ct_includes made)" for p t
  proof -
    from tracked that obtain l where l: "t = df_mtime (fs p)" "df_text (fs p) = Inr l" unfolding embeds_def by fastforce
    moreover have "df_mtime (fs' p) = t" using that assms(4) by (auto simp: fresh_def list_all_iff)
    ultimately show ?thesis by (intro stamped_same [OF assms(2,3) l(2)]) simp
  qed
  then have "agree fs fs' (budget, ct_includes made)" by (auto simp: agree_def)
  from resolve_blocks_local [OF read_include_local read_include_embeds this c(2) [unfolded resolve_includes_def]]
  have "resolve_includes fs' views_dir source 0 (0, []) = Inr (resolved, budget, ct_includes made)"
    unfolding resolve_includes_def .
  with c path show ?thesis by (simp add: compile_file_def)
qed

definition cache_ok :: "(string \<Rightarrow> nat \<Rightarrow> string) \<Rightarrow> string \<Rightarrow> program_cache \<Rightarrow> bool" where
  "cache_ok version views_dir cache \<longleftrightarrow>
     (\<forall>p hit. cache p = Some hit \<longrightarrow> (\<exists>fs. stamped version fs \<and> compile_file fs views_dir p = Inr hit))"

lemma load_program_ok:
  assumes "stamped version fs" "cache_ok version views_dir cache"
  shows "fst (load_program True views_dir fs cache path) = fst (load_program False views_dir fs cache path)"
    "cache_ok version views_dir (snd (load_program True views_dir fs cache path))"
proof -
  show "fst (load_program True views_dir fs cache path) = fst (load_program False views_dir fs cache path)"
  proof (cases "cache path")
    case (Some hit)
    show ?thesis
    proof (cases "fresh fs path hit")
      case True
      from assms(2) Some obtain fs0 where "stamped version fs0" "compile_file fs0 views_dir path = Inr hit" unfolding cache_ok_def by blast
      from fresh_compiles [OF this(2,1) assms(1) True] show ?thesis using Some True by (simp add: load_program_def)
    qed (use Some in \<open>simp add: load_program_def split: sum.splits\<close>)
  qed (simp add: load_program_def split: sum.splits)
  show "cache_ok version views_dir (snd (load_program True views_dir fs cache path))"
    using assms by (auto simp: load_program_def cache_ok_def split: option.splits sum.splits)
qed

text \<open>The cache after templates were loaded, each with the files as they were then.\<close>

fun loads :: "string \<Rightarrow> program_cache \<Rightarrow> (file_tree \<times> string) list \<Rightarrow> program_cache" where
  "loads views_dir cache [] = cache"
| "loads views_dir cache ((fs, path) # rest) = loads views_dir (snd (load_program True views_dir fs cache path)) rest"

lemma loads_ok: "cache_ok version views_dir cache \<Longrightarrow> (\<And>fs p. (fs, p) \<in> set history \<Longrightarrow> stamped version fs) \<Longrightarrow> cache_ok version views_dir (loads views_dir cache history)"
proof (induction history arbitrary: cache)
  case (Cons h history)
  obtain fs p where h: "h = (fs, p)" by (cases h)
  from Cons.prems(2) [of fs p] h have "stamped version fs" by simp
  from load_program_ok(2) [OF this Cons.prems(1)] have "cache_ok version views_dir (snd (load_program True views_dir fs cache p))" .
  moreover have "stamped version fs'" if "(fs', p') \<in> set history" for fs' p' using Cons.prems(2) [of fs' p'] that by simp
  ultimately have "cache_ok version views_dir (loads views_dir (snd (load_program True views_dir fs cache p)) history)" by (rule Cons.IH)
  then show ?case by (simp add: h)
qed simp

text \<open>
  C31: The cache of programs does not show: whatever templates were loaded before, while files came, went
  and changed, a template and its partials are compiled as they are now, provided that a changed file
  never has a time of change it had before.
\<close>

theorem programs_are_current:
  assumes "\<forall>fs' \<in> insert fs (fst ` set history). stamped version fs'"
  shows "fst (load_program True views_dir fs (loads views_dir (\<lambda>_. None) history) path) = fst (load_program False views_dir fs (\<lambda>_. None) path)"
proof -
  have "cache_ok version views_dir (loads views_dir (\<lambda>_. None) history)"
    by (rule loads_ok) (use assms in \<open>force simp: cache_ok_def\<close>)+
  from load_program_ok(1) [OF _ this] assms have
    "fst (load_program True views_dir fs (loads views_dir (\<lambda>_. None) history) path) =
      fst (load_program False views_dir fs (loads views_dir (\<lambda>_. None) history) path)" by blast
  then show ?thesis by (simp add: load_program_def split: sum.splits)
qed

section \<open>The data of a render\<close>

definition protected_globals :: "string list" where
  "protected_globals =
     [''__escape'', ''escapeHtml'', ''raw'', ''console'', ''JSON'', ''__jhsConsoleLines'', ''include'', ''__jhsEchoPart'', ''require'',
      ''res'', ''__jhsResolve'', ''__jhsModuleLoad'', ''__jhsModuleCache'']"

definition js_char :: "char \<Rightarrow> string" where
  "js_char c =
     (if c = CHR 0x22 then [CHR 0x5C, CHR 0x22]
      else if c = CHR 0x5C then [CHR 0x5C, CHR 0x5C]
      else if c = CHR 0x0A then [CHR 0x5C, CHR ''n'']
      else if c = CHR 0x0D then [CHR 0x5C, CHR ''r'']
      else if c = CHR 0x09 then [CHR 0x5C, CHR ''t'']
      else if code c < 0x20 then CHR 0x5C # ''u00'' @ [json_hex (code c div 16), json_hex (code c mod 16)]
      else [c])"

definition js_string_literal :: "string \<Rightarrow> string" where
  "js_string_literal t = CHR 0x22 # concat (map js_char t) @ [CHR 0x22]"

text \<open>The text of an object in JSON is the serializer's.\<close>

definition data_injection :: "((string \<times> 'v) list \<Rightarrow> string) \<Rightarrow> (string \<times> 'v) list \<Rightarrow> string" where
  "data_injection to_json data =
     (let injectable = filter (\<lambda>d. fst d \<notin> set protected_globals) data in
      if injectable = [] then []
      else lines_of [''(function(){'', ''  var data = JSON.parse('' @ js_string_literal (to_json injectable) @ '');'',
             ''  Object.keys(data).forEach(function(key){'', ''    Object.defineProperty(globalThis, key, {'',
             ''      value: data[key], writable: true, configurable: true, enumerable: true'', ''    });'', ''  });''] @ ''})();'')"

lemma read_js_char: "read_literal (js_char c @ s) = map_option (apfst (Cons c)) (read_literal s)"
proof -
  have "code c div 16 < 16" "16 * (code c div 16) + code c mod 16 = code c" using code_less [of c] by (simp_all add: less_mult_imp_div_less)
  then show ?thesis
    by (simp add: js_char_def escaped_char_def hex_of_lower) (simp add: code_def)
qed

text \<open>The data is parsed out of one literal, and no key of it is a name of the sandbox.\<close>

lemma data_is_one_literal:
  assumes "injectable = filter (\<lambda>d. fst d \<notin> set protected_globals) data" "injectable \<noteq> []"
  shows "\<exists>front back. data_injection to_json data = front @ CHR 0x22 # back \<and>
    (\<exists>rest. read_literal back = Some (to_json injectable, rest)) \<and> (\<forall>(k, v) \<in> set injectable. k \<notin> set protected_globals)"
proof -
  have read: "read_literal (concat (map js_char u) @ CHR 0x22 # rest) = Some (u, rest)" for u rest
    by (induction u) (simp_all add: read_js_char)
  have "\<exists>front rest. data_injection to_json data = front @ js_string_literal (to_json injectable) @ rest"
  proof -
    have "\<exists>front rest. lines_of [a, b @ l @ c, d, e, f, g, h] @ i = front @ l @ rest" for a b c d e f g h i l :: string
      by (rule exI [of _ "a @ [CHR 0x0A] @ b"]) (simp add: lines_of_def)
    then show ?thesis using assms by (simp add: data_injection_def Let_def del: append.simps)
  qed
  then obtain front rest where "data_injection to_json data = front @ js_string_literal (to_json injectable) @ rest" by blast
  then have "data_injection to_json data = front @ CHR 0x22 # concat (map js_char (to_json injectable)) @ CHR 0x22 # rest"
    by (simp add: js_string_literal_def)
  moreover have "\<forall>(k, v) \<in> set injectable. k \<notin> set protected_globals" by (auto simp: assms(1))
  ultimately show ?thesis using read [of "to_json injectable" rest] by blast
qed

section \<open>A concrete template\<close>

text \<open>A template with a partial, and the partial changed at the second time.\<close>

definition sample_template :: string where
  "sample_template = ''<?jhsinclude('' @ [CHR 0x22] @ ''p'' @ [CHR 0x22] @ '')?>!''"

definition sample_version :: "string \<Rightarrow> nat \<Rightarrow> string" where
  "sample_version path m = (if path = ''/v/a.jhs'' then sample_template else if m = 1 then ''x'' else ''y'')"

definition sample_disk :: "nat \<Rightarrow> file_tree" where
  "sample_disk m path =
     (if path = ''/v/a.jhs'' then \<lparr>df_mtime = Some 1, df_text = Inr (sample_version path 1)\<rparr>
      else if path = ''/v/p.jhs'' then \<lparr>df_mtime = Some m, df_text = Inr (sample_version path m)\<rparr>
      else \<lparr>df_mtime = None, df_text = Inl ''not found''\<rparr>)"

lemma sample_resolves: "resolve_includes (sample_disk 1) ''/v'' sample_template 0 (0, []) = Inr (''x!'', 1, [(''/v/p.jhs'', Some 1)])"
proof -
  let ?call = "''include('' @ [CHR 0x22] @ ''p'' @ [CHR 0x22] @ '')''"
  have "trim ?call = ?call" "trim '')'' = '')''" by (rule trim_graphic; simp add: graphic_def code_def)+
  moreover have "trim_start (c # l) = c # l" if "graphic c" for c l using that by (simp add: trim_start_def trim_start_by_id graphic_not_ws)
  ultimately have call: "standalone_include ?call = Some ''p''"
    by (simp add: standalone_include_def strip_prefix_def starts_with_def is_quote_def graphic_def code_def)
  have path: "include_path ''/v'' ''p'' = Inr ''/v/p.jhs''"
    by (simp add: include_path_def strip_suffix_def ends_with_def starts_with_def include_max_name_len_def contains_str_def name_char_def
        is_alnum_def is_alpha_def is_lower_def is_upper_def is_digit_def code_def path_join_def)
  have block: "next_block ''<?jhs'' ''?>'' sample_template = Some ([], ?call, ''!'')"
    by (simp add: next_block_def sample_template_def starts_with_def)
  have plain: "resolve_blocks read ''x'' e = Inr (''x'', e)" "resolve_blocks read ''!'' e = Inr (''!'', e)" for read e
    by (rule resolve_blocks_plain; simp add: next_block_def starts_with_def)+
  have depth: "include_max_depth - 0 = Suc 7" by (simp add: include_max_depth_def)
  have "read_include (sample_disk 1) ''/v'' (Suc left) ''p'' (0, []) = Inr (''x'', 1, [(''/v/p.jhs'', Some 1)])" for left
    by (simp add: path plain sample_disk_def sample_version_def include_max_bytes_def)
  then have "read_include (sample_disk 1) ''/v'' (include_max_depth - 0) ''p'' (0, []) = Inr (''x'', 1, [(''/v/p.jhs'', Some 1)])"
    unfolding depth .
  with call block plain show ?thesis by (simp add: resolve_includes_def resolve_blocks.simps [of _ sample_template])
qed

lemma includes_are_bounded_witness: "view_file ''/v'' ''/v/p.jhs'' \<and> length ''x!'' \<le> length sample_template + 1"
  using includes_are_bounded [OF sample_resolves] by simp

lemma sample_stamped: "stamped sample_version (sample_disk m)"
  by (simp add: stamped_def sample_disk_def)

lemma programs_are_current_witness:
  "fst (load_program True ''/v'' (sample_disk 2) (loads ''/v'' (\<lambda>_. None) [(sample_disk 1, ''/v/a.jhs'')]) ''/v/a.jhs'') =
    fst (load_program False ''/v'' (sample_disk 2) (\<lambda>_. None) ''/v/a.jhs'')"
  by (rule programs_are_current [of _ _ sample_version]) (simp add: sample_stamped)

end
