(* ===== verification/Require.thy ===== *)
theory Require
  imports Template_Compiler
begin

text \<open>
  The resolution behind \<open>require()\<close> (\<open>src/src/template_engine/require_bridge.rs\<close>): the banner, the built-in
  modules and the files under the modules directory. What a module does once it is loaded, and the
  random bytes of the one polyfill, are the engine's. Paths are absolute texts; what the file system
  makes of them, its links included, is a parameter.
\<close>

section \<open>Paths\<close>

definition idle_segment :: "string \<Rightarrow> bool" where
  "idle_segment s \<longleftrightarrow> s = [] \<or> s = ''.''"

text \<open>The components of an absolute path, as \<open>Path::components\<close> has them after the root.\<close>

definition path_parts :: "string \<Rightarrow> string list" where
  "path_parts path = filter (\<lambda>s. \<not> idle_segment s) (split_on (CHR ''/'') path)"

definition file_name :: "string \<Rightarrow> string option" where
  "file_name path = (case rev (path_parts path) of [] \<Rightarrow> None | s # _ \<Rightarrow> if s = ''..'' then None else Some s)"

definition drop_idle_end :: "string list \<Rightarrow> string list" where
  "drop_idle_end segments = rev (dropWhile idle_segment (rev segments))"

definition parent :: "string \<Rightarrow> string option" where
  "parent path =
     (case drop_idle_end (split_on (CHR ''/'') path) of
        [] \<Rightarrow> None
      | segments \<Rightarrow>
          (let rest = drop_idle_end (butlast segments) in
           Some (if rest = [] then ''/'' else join_with ''/'' rest)))"

definition with_file_name :: "string \<Rightarrow> string \<Rightarrow> string" where
  "with_file_name path name =
     (case (file_name path, parent path) of (Some _, Some dir) \<Rightarrow> path_join dir name | _ \<Rightarrow> path_join path name)"

definition below :: "string \<Rightarrow> string \<Rightarrow> bool" where
  "below dir path \<longleftrightarrow> take (length (path_parts dir)) (path_parts path) = path_parts dir"

definition strip_dir :: "string \<Rightarrow> string \<Rightarrow> string option" where
  "strip_dir dir path = (if below dir path then Some (join_with ''/'' (drop (length (path_parts dir)) (path_parts path))) else None)"

section \<open>The options and the state of a render\<close>

record require_options =
  ro_enabled :: bool
  ro_modules_dir :: string
  ro_forbidden :: "string list"

definition default_require :: require_options where
  "default_require = \<lparr>ro_enabled = True, ro_modules_dir = ''modules'', ro_forbidden = default_forbidden_modules\<rparr>"

definition builtin_modules :: "string list" where
  "builtin_modules =
     [''assert'', ''async_hooks'', ''buffer'', ''child_process'', ''cluster'', ''console'', ''constants'', ''crypto'', ''dgram'',
      ''diagnostics_channel'', ''dns'', ''domain'', ''events'', ''fs'', ''http'', ''http2'', ''https'', ''inspector'', ''module'',
      ''net'', ''os'', ''path'', ''perf_hooks'', ''process'', ''punycode'', ''querystring'', ''readline'', ''repl'', ''stream'',
      ''string_decoder'', ''sys'', ''test'', ''timers'', ''tls'', ''trace_events'', ''tty'', ''url'', ''util'', ''v8'', ''vm'', ''wasi'',
      ''worker_threads'', ''zlib'']"

definition crypto_module_key :: string where "crypto_module_key = ''<builtin>crypto''"

definition require_max_total_bytes :: nat where "require_max_total_bytes = 8 * 1024 * 1024"

text \<open>The file system: files and directories, where links lead, and the field \<open>main\<close> of a manifest's JSON.\<close>

record module_disk =
  md_is_file :: "string \<Rightarrow> bool"
  md_is_dir :: "string \<Rightarrow> bool"
  md_canonical :: "string \<Rightarrow> string option"
  md_files :: file_tree
  md_main :: "string \<Rightarrow> string option"

record module_source =
  ms_source :: string
  ms_mtime :: "nat option"

type_synonym source_cache = "string \<Rightarrow> module_source option"

record require_state =
  rq_modules_root :: string
  rq_forbidden :: "string set"
  rq_source_cache :: "source_cache option"
  rq_budget :: nat

definition install :: "require_options \<Rightarrow> source_cache option \<Rightarrow> require_state" where
  "install options cache =
     \<lparr>rq_modules_root = ro_modules_dir options, rq_forbidden = set (ro_forbidden options), rq_source_cache = cache, rq_budget = 0\<rparr>"

text \<open>An error of a kind, its text with what is written into its braces.\<close>

datatype js_error = Type_Error string "string list" | Plain_Error string "string list"

datatype module_descriptor = Crypto string | Module (mod_key: string) (mod_file: string) (mod_dir: string) (mod_base: string) (mod_source: string)

section \<open>Finding and reading a module\<close>

definition read_package_main :: "module_disk \<Rightarrow> string \<Rightarrow> string option" where
  "read_package_main md manifest =
     (case df_text (md_files md manifest) of
        Inl _ \<Rightarrow> None
      | Inr raw \<Rightarrow>
          (case md_main md raw of
             None \<Rightarrow> None
           | Some main \<Rightarrow> if main = [] \<or> contains_str ''..'' main \<or> CHR 0x5C \<in> set main then None else Some main))"

definition resolve_manifest :: "module_disk \<Rightarrow> string \<Rightarrow> string option" where
  "resolve_manifest md target =
     (let manifest = path_join target ''package.json'' in
      if \<not> md_is_file md manifest then None
      else (case read_package_main md manifest of
          None \<Rightarrow> None
        | Some main \<Rightarrow>
            (let main_path = path_join target main in
             if md_is_file md main_path then Some main_path
             else (case file_name main_path of
                 None \<Rightarrow> None
               | Some main_name \<Rightarrow>
                   (let main_as_js = with_file_name main_path (main_name @ ''.js'') in
                    if md_is_file md main_as_js then Some main_as_js
                    else (let main_index = path_join main_path ''index.js'' in
                          if md_is_file md main_index then Some main_index else None))))))"

definition resolve_module_file :: "module_disk \<Rightarrow> string \<Rightarrow> string option" where
  "resolve_module_file md target =
     (if md_is_file md target then Some target
      else (case file_name target of
          None \<Rightarrow> None
        | Some name \<Rightarrow>
            (let as_js = with_file_name target (name @ ''.js'') in
             if md_is_file md as_js then Some as_js
             else if md_is_dir md target then
               (let index = path_join target ''index.js'' in
                if md_is_file md index then Some index else resolve_manifest md target)
             else None)))"

definition read_module :: "module_disk \<Rightarrow> string \<Rightarrow> (js_error, string) result" where
  "read_module md path =
     (case df_text (md_files md path) of
        Inl failure \<Rightarrow> Inl (Plain_Error ''module '{}' could not be read ({})'' [path, failure])
      | Inr source \<Rightarrow> Inr source)"

definition read_source :: "module_disk \<Rightarrow> source_cache option \<Rightarrow> string \<Rightarrow> (js_error, string \<times> source_cache option) result" where
  "read_source md cache path =
     (let mtime = df_mtime (md_files md path) in
      case cache of
        None \<Rightarrow> and_then (read_module md path) (\<lambda>source. Inr (source, None))
      | Some sources \<Rightarrow>
          (case sources path of
             Some hit \<Rightarrow>
               if ms_mtime hit = mtime then Inr (ms_source hit, cache)
               else and_then (read_module md path) (\<lambda>source. Inr (source, Some (sources(path \<mapsto> \<lparr>ms_source = source, ms_mtime = mtime\<rparr>))))
           | None \<Rightarrow> and_then (read_module md path) (\<lambda>source. Inr (source, Some (sources(path \<mapsto> \<lparr>ms_source = source, ms_mtime = mtime\<rparr>))))))"

definition forward_slashes :: "string \<Rightarrow> string" where
  "forward_slashes s = map (\<lambda>c. if c = CHR 0x5C then CHR ''/'' else c) s"

text \<open>The budget is spent before it is checked, and a failed reading leaves the state.\<close>

definition module_descriptor_of :: "module_disk \<Rightarrow> require_state \<Rightarrow> string \<Rightarrow> string \<Rightarrow> string \<Rightarrow>
    (js_error, module_descriptor) result \<times> require_state" where
  "module_descriptor_of md st spec canonical display_path =
     (case read_source md (rq_source_cache st) canonical of
        Inl e \<Rightarrow> (Inl e, st)
      | Inr (source, cache) \<Rightarrow>
          (let spent = st\<lparr>rq_source_cache := cache, rq_budget := rq_budget st + length source\<rparr> in
           if require_max_total_bytes < rq_budget spent
           then (Inl (Plain_Error (''module loading exceeds the total size budget ({} bytes) '' @ em_dash @ '' reduce the modules the template requires (while requiring '{}')'')
             [show_nat require_max_total_bytes, spec]), spent)
           else (let canonical_root = (case md_canonical md (rq_modules_root st) of Some r \<Rightarrow> r | None \<Rightarrow> rq_modules_root st);
                     base = (case Option.bind (parent canonical) (strip_dir canonical_root) of Some rel \<Rightarrow> forward_slashes rel | None \<Rightarrow> []);
                     dir = (case parent display_path of Some d \<Rightarrow> d | None \<Rightarrow> []) in
                 (Inr (Module canonical display_path dir base source), spent))))"

text \<open>The search roots in their order: the first with a file decides.\<close>

fun search_modules :: "module_disk \<Rightarrow> require_state \<Rightarrow> string \<Rightarrow> string \<Rightarrow> string \<Rightarrow> string list \<Rightarrow> string list \<Rightarrow>
    (js_error, module_descriptor) result \<times> require_state" where
  "search_modules md st canonical_root spec name tried [] =
     (Inl (Plain_Error ''Cannot find module '{}': looked under the modules directory {} (tried {})''
        [spec, rq_modules_root st, join_with ''; '' tried]), st)"
| "search_modules md st canonical_root spec name tried (r # roots) =
     (case resolve_module_file md (path_join r name) of
        None \<Rightarrow> search_modules md st canonical_root spec name (tried @ [r @ ''/'' @ name @ ''(, .js, /index.js)'']) roots
      | Some candidate \<Rightarrow>
          (case md_canonical md candidate of
             None \<Rightarrow> (Inl (Plain_Error ''require('{}'): the module file {} could not be resolved'' [spec, candidate]), st)
           | Some canonical \<Rightarrow>
               if \<not> below canonical_root canonical
               then (Inl (Plain_Error ''require('{}') escapes the modules directory: modules must live under {} (see [templates] modules_dir)''
                 [spec, rq_modules_root st]), st)
               else module_descriptor_of md st spec canonical candidate))"

definition resolve_local_module :: "module_disk \<Rightarrow> require_state \<Rightarrow> string \<Rightarrow> string \<Rightarrow> string option \<Rightarrow>
    (js_error, module_descriptor) result \<times> require_state" where
  "resolve_local_module md st spec name base =
     (let r = rq_modules_root st in
      case md_canonical md r of
        None \<Rightarrow> (Inl (Plain_Error ''Cannot find module '{}': the modules directory {} does not exist (see [templates] modules_dir)'' [spec, r]), st)
      | Some canonical_root \<Rightarrow>
          (let base_dir = (case base of Some b \<Rightarrow> if b = [] then r else path_join r b | None \<Rightarrow> r);
               relative = starts_with ''./'' name \<or> starts_with ''../'' name in
           search_modules md st canonical_root spec name []
             (if relative then [base_dir, path_join r ''node_modules''] else [r, path_join r ''node_modules''])))"

text \<open>What a template passes: a string, or a value of another type.\<close>

datatype js_arg = Js_String string | Js_Other string

definition spec_name :: "string \<Rightarrow> string" where
  "spec_name spec = (case strip_prefix ''node:'' (trim spec) of Some rest \<Rightarrow> rest | None \<Rightarrow> trim spec)"

definition package_of :: "string \<Rightarrow> string" where
  "package_of name = hd (split_on (CHR ''/'') name)"

definition resolve_impl :: "module_disk \<Rightarrow> require_state \<Rightarrow> js_arg \<Rightarrow> string option \<Rightarrow>
    (js_error, module_descriptor) result \<times> require_state" where
  "resolve_impl md st arg base =
     (case arg of
        Js_Other kind \<Rightarrow> (Inl (Type_Error ''require() expects a module name string (got {})'' [kind]), st)
      | Js_String spec \<Rightarrow>
          if nul \<in> set spec then (Inl (Type_Error ''require() module name cannot contain NUL characters: {}'' [spec]), st)
          else if CHR 0x5C \<in> set spec then (Inl (Type_Error ''require('{}') is invalid: module names must use forward slashes'' [spec]), st)
          else (let name = spec_name spec; package = package_of name in
            if name = [] then (Inl (Type_Error ''require() expects a non-empty module name'' []), st)
            else if package \<in> rq_forbidden st
            then (Inl (Plain_Error ''require('{}') is forbidden: the module '{}' is listed in [templates] forbidden_modules'' [spec, package]), st)
            else if package \<in> set builtin_modules
            then (if package = ''crypto'' then (Inr (Crypto crypto_module_key), st)
                  else (Inl (Plain_Error (''Cannot find module '{}': '{}' is a Node.js built-in and the JHS sandbox runs on boa_engine, not Node '' @ em_dash @
                    '' built-ins exist here only as native polyfills (currently: crypto). Plain JS modules under the modules directory can be required instead'')
                    [spec, package]), st))
            else resolve_local_module md st spec name base))"

section \<open>Modules stay inside\<close>

lemma resolve_module_file_is_file: "resolve_module_file md target = Some found \<Longrightarrow> md_is_file md found"
  by (auto simp: resolve_module_file_def resolve_manifest_def Let_def split: if_splits option.splits)

text \<open>The cache of sources holds what a file had at the time of its entry.\<close>

definition sources_ok :: "(string \<Rightarrow> nat \<Rightarrow> string) \<Rightarrow> source_cache option \<Rightarrow> bool" where
  "sources_ok version cache \<longleftrightarrow>
     (\<forall>sources p hit. cache = Some sources \<longrightarrow> sources p = Some hit \<longrightarrow> (\<exists>m. ms_mtime hit = Some m \<and> ms_source hit = version p m))"

lemma stamped_file:
  assumes "stamped version fs" "df_text (fs p) = Inr l"
  shows "\<exists>m. df_mtime (fs p) = Some m \<and> l = version p m"
  using assms spec [OF assms(1) [unfolded stamped_def], of p] by (auto split: option.splits)

lemma read_source_ok:
  assumes "read_source md cache path = Inr (source, cache')" "stamped version (md_files md)" "sources_ok version cache"
  shows "df_text (md_files md path) = Inr source \<and> sources_ok version cache'"
proof (cases "\<exists>sources hit. cache = Some sources \<and> sources path = Some hit \<and> ms_mtime hit = df_mtime (md_files md path)")
  case True
  then obtain sources hit where hit: "cache = Some sources" "sources path = Some hit" "ms_mtime hit = df_mtime (md_files md path)" by blast
  with assms(3) obtain m where m: "df_mtime (md_files md path) = Some m" "ms_source hit = version path m" unfolding sources_ok_def by metis
  with assms(2) have "df_text (md_files md path) = Inr (version path m)" unfolding stamped_def by (auto dest: spec [of _ path])
  with hit m assms(1,3) show ?thesis by (simp add: read_source_def)
next
  case False
  let ?entry = "\<lparr>ms_source = source, ms_mtime = df_mtime (md_files md path)\<rparr>"
  from False assms(1) have source: "df_text (md_files md path) = Inr source"
    and cache': "cache' = None \<or> (\<exists>sources. cache = Some sources \<and> cache' = Some (sources(path \<mapsto> ?entry)))"
    by (auto simp: read_source_def read_module_def Let_def and_then_eq_Inr split: option.splits sum.splits if_splits)
  from stamped_file [OF assms(2) source] obtain m where "df_mtime (md_files md path) = Some m" "source = version path m" by blast
  with assms(3) source cache' show ?thesis by (auto simp: sources_ok_def split: if_splits)
qed

definition module_inside :: "module_disk \<Rightarrow> require_state \<Rightarrow> module_descriptor \<Rightarrow> bool" where
  "module_inside md st d \<longleftrightarrow>
     (\<exists>r. md_canonical md (rq_modules_root st) = Some r \<and> below r (mod_key d)) \<and>
     md_is_file md (mod_file d) \<and> md_canonical md (mod_file d) = Some (mod_key d) \<and>
     df_text (md_files md (mod_key d)) = Inr (mod_source d)"

lemma module_descriptor_of_ok:
  assumes "module_descriptor_of md st spec canonical display_path = (Inr d, st')" "stamped version (md_files md)" "sources_ok version (rq_source_cache st)"
  shows "mod_key d = canonical \<and> mod_file d = display_path \<and> df_text (md_files md canonical) = Inr (mod_source d) \<and>
    d \<noteq> Crypto k \<and> rq_budget st' = rq_budget st + length (mod_source d) \<and> rq_budget st' \<le> require_max_total_bytes"
proof -
  obtain source cache where r: "read_source md (rq_source_cache st) canonical = Inr (source, cache)"
    using assms(1) by (auto simp: module_descriptor_of_def split: sum.splits)
  from read_source_ok [OF r assms(2,3)] assms(1) r show ?thesis by (auto simp: module_descriptor_of_def Let_def split: if_splits)
qed

lemma search_modules_ok:
  assumes "stamped version (md_files md)" "sources_ok version (rq_source_cache st)" "md_canonical md (rq_modules_root st) = Some canonical_root"
  shows "search_modules md st canonical_root spec name tried roots = (Inr d, st') \<Longrightarrow>
    module_inside md st d \<and> d \<noteq> Crypto k \<and> rq_budget st' = rq_budget st + length (mod_source d) \<and> rq_budget st' \<le> require_max_total_bytes"
proof (induction roots arbitrary: tried)
  case (Cons r roots)
  show ?case
  proof (cases "resolve_module_file md (path_join r name)")
    case (Some candidate)
    with Cons.prems obtain canonical where c: "md_canonical md candidate = Some canonical" "below canonical_root canonical"
      "module_descriptor_of md st spec canonical candidate = (Inr d, st')" by (auto split: option.splits if_splits)
    from module_descriptor_of_ok [OF c(3) assms(1,2), of k] c resolve_module_file_is_file [OF Some] assms(3)
    show ?thesis by (auto simp: module_inside_def)
  next
    case None
    with Cons.prems have "search_modules md st canonical_root spec name (tried @ [r @ ''/'' @ name @ ''(, .js, /index.js)'']) roots = (Inr d, st')" by simp
    then show ?thesis by (rule Cons.IH)
  qed
qed simp

lemma resolved_module_ok:
  assumes "resolve_impl md st (Js_String spec) base = (Inr d, st')" "stamped version (md_files md)" "sources_ok version (rq_source_cache st)"
  shows "package_of (spec_name spec) \<notin> rq_forbidden st \<and>
    (d = Crypto crypto_module_key \<and> package_of (spec_name spec) = ''crypto'' \<and> st' = st \<or>
     (\<forall>k. d \<noteq> Crypto k) \<and> package_of (spec_name spec) \<notin> set builtin_modules \<and> module_inside md st d \<and>
     rq_budget st' = rq_budget st + length (mod_source d) \<and> rq_budget st' \<le> require_max_total_bytes)"
proof -
  from assms(1) have banner: "package_of (spec_name spec) \<notin> rq_forbidden st" by (auto simp: resolve_impl_def Let_def split: if_splits)
  show ?thesis
  proof (cases "package_of (spec_name spec) \<in> set builtin_modules")
    case True
    with assms(1) banner show ?thesis by (auto simp: resolve_impl_def Let_def split: if_splits)
  next
    case False
    with assms(1) have "resolve_local_module md st spec (spec_name spec) base = (Inr d, st')"
      by (auto simp: resolve_impl_def Let_def split: if_splits)
    then obtain canonical_root roots where "md_canonical md (rq_modules_root st) = Some canonical_root"
      "search_modules md st canonical_root spec (spec_name spec) [] roots = (Inr d, st')"
      by (auto simp: resolve_local_module_def Let_def split: option.splits)
    from search_modules_ok [OF assms(2,3) this] banner False show ?thesis by blast
  qed
qed

text \<open>What a call leaves of the render's state, whether it succeeds or not.\<close>

definition state_kept :: "(string \<Rightarrow> nat \<Rightarrow> string) \<Rightarrow> require_state \<Rightarrow> require_state \<Rightarrow> bool" where
  "state_kept version st st' \<longleftrightarrow> rq_modules_root st' = rq_modules_root st \<and> rq_forbidden st' = rq_forbidden st \<and>
     rq_budget st \<le> rq_budget st' \<and> sources_ok version (rq_source_cache st')"

lemma module_descriptor_of_keeps:
  assumes "stamped version (md_files md)" "sources_ok version (rq_source_cache st)"
  shows "state_kept version st (snd (module_descriptor_of md st spec canonical display_path))"
proof (cases "read_source md (rq_source_cache st) canonical")
  case (Inr x)
  obtain source cache where x: "x = (source, cache)" by force
  from read_source_ok [OF Inr [unfolded x] assms] Inr x show ?thesis by (simp add: module_descriptor_of_def state_kept_def Let_def)
qed (use assms in \<open>simp add: module_descriptor_of_def state_kept_def\<close>)

lemma search_modules_keeps:
  assumes "stamped version (md_files md)" "sources_ok version (rq_source_cache st)"
  shows "state_kept version st (snd (search_modules md st canonical_root spec name tried roots))"
proof (induction roots arbitrary: tried)
  case (Cons r roots)
  then show ?case
    using module_descriptor_of_keeps [OF assms] assms(2) by (auto simp: state_kept_def split: option.split)
qed (use assms(2) in \<open>simp add: state_kept_def\<close>)

lemma resolve_impl_keeps:
  assumes "stamped version (md_files md)" "sources_ok version (rq_source_cache st)"
  shows "state_kept version st (snd (resolve_impl md st arg base))"
proof -
  have "state_kept version st st" using assms(2) by (simp add: state_kept_def)
  moreover have "state_kept version st (snd (resolve_local_module md st spec name base))" for spec name
    using search_modules_keeps [OF assms] assms(2) by (auto simp: resolve_local_module_def Let_def state_kept_def split: option.split)
  ultimately show ?thesis by (simp add: resolve_impl_def Let_def split: js_arg.split)
qed

text \<open>The calls of one render, in their order, each with the disk it finds.\<close>

type_synonym require_call = "module_disk \<times> js_arg \<times> string option"

fun require_run :: "require_call list \<Rightarrow> require_state \<Rightarrow> (js_error, module_descriptor) result list \<times> require_state" where
  "require_run [] st = ([], st)"
| "require_run ((md, arg, base) # calls) st =
     (case resolve_impl md st arg base of
        (a, st') \<Rightarrow> (case require_run calls st' of (as, st'') \<Rightarrow> (a # as, st'')))"

fun loaded_bytes :: "(js_error, module_descriptor) result \<Rightarrow> nat" where
  "loaded_bytes (Inr (Module key file dir base source)) = length source"
| "loaded_bytes _ = 0"

definition answers_inside :: "string set \<Rightarrow> string \<Rightarrow> require_call \<Rightarrow> (js_error, module_descriptor) result \<Rightarrow> bool" where
  "answers_inside forbidden modules call a \<longleftrightarrow>
     (case call of (md, arg, base) \<Rightarrow>
       (case a of
          Inl e \<Rightarrow> True
        | Inr d \<Rightarrow> \<exists>spec. arg = Js_String spec \<and> package_of (spec_name spec) \<notin> forbidden \<and>
            (d = Crypto crypto_module_key \<and> package_of (spec_name spec) = ''crypto'' \<or>
             package_of (spec_name spec) \<notin> set builtin_modules \<and>
             (\<exists>r key file dir base' source. d = Module key file dir base' source \<and> md_canonical md modules = Some r \<and> below r key \<and>
                md_is_file md file \<and> md_canonical md file = Some key \<and> df_text (md_files md key) = Inr source))))"

lemma resolved_answer:
  assumes "stamped version (md_files md)" "sources_ok version (rq_source_cache st)" "resolve_impl md st arg base = (a, st')"
  shows "answers_inside (rq_forbidden st) (rq_modules_root st) (md, arg, base) a \<and>
    (loaded_bytes a = 0 \<or> rq_budget st' = rq_budget st + loaded_bytes a \<and> rq_budget st' \<le> require_max_total_bytes)"
proof (cases a)
  case (Inr d)
  with assms(3) obtain spec where spec: "arg = Js_String spec" by (cases arg) (auto simp: resolve_impl_def)
  from resolved_module_ok [OF assms(3) [unfolded Inr spec] assms(1,2)] Inr spec show ?thesis
    by (cases d) (auto simp: answers_inside_def module_inside_def)
qed (simp add: answers_inside_def)

lemma require_run_ok:
  assumes "\<forall>call \<in> set calls. stamped version (md_files (fst call))" "sources_ok version (rq_source_cache st)"
  shows "list_all2 (answers_inside (rq_forbidden st) (rq_modules_root st)) calls (fst (require_run calls st)) \<and>
    (sum_list (map loaded_bytes (fst (require_run calls st))) = 0 \<or>
     rq_budget st + sum_list (map loaded_bytes (fst (require_run calls st))) \<le> require_max_total_bytes) \<and>
    sources_ok version (rq_source_cache (snd (require_run calls st)))"
  using assms
proof (induction calls arbitrary: st)
  case (Cons call calls)
  obtain md arg base where call: "call = (md, arg, base)" by (cases call)
  obtain a st' where r: "resolve_impl md st arg base = (a, st')" by force
  have md: "stamped version (md_files md)" using Cons.prems(1) call by simp
  have kept: "state_kept version st st'" using resolve_impl_keeps [OF md Cons.prems(2), of arg base] r by simp
  note here = resolved_answer [OF md Cons.prems(2) r]
  have rest: "\<forall>call \<in> set calls. stamped version (md_files (fst call))" using Cons.prems(1) by simp
  have cache: "sources_ok version (rq_source_cache st')" using kept by (simp add: state_kept_def)
  obtain as st'' where rs: "require_run calls st' = (as, st'')" by force
  from Cons.IH [OF rest cache] here kept show ?case
    by (auto simp: call r rs state_kept_def simp del: sum_list_eq_0_iff)
qed simp

text \<open>
  C32: Every answer that the calls of \<open>require\<close> in a render give, in whatever order and with failing
  calls between them, is the polyfill or the text that a file has at the time of the call which, links
  followed, lies below the modules directory; the first segment of the name asked for is not on the
  banner and not a module of Node; and all the modules of a render together have at most eight mebibytes.
  The text is the current one where a time of change is never reused for another text (and the cache a
  render starts with holds such texts), and the cache it leaves holds such texts again. The banner is
  by the name asked for: the next section shows a banned local module loaded under another spelling.
\<close>

theorem modules_stay_inside:
  assumes "\<forall>call \<in> set calls. stamped version (md_files (fst call))" "sources_ok version cache"
    "require_run calls (install options cache) = (answers, st)"
  shows "list_all2 (answers_inside (set (ro_forbidden options)) (ro_modules_dir options)) calls answers \<and>
    sum_list (map loaded_bytes answers) \<le> 8 * 1024 * 1024 \<and> sources_ok version (rq_source_cache st)"
proof -
  have start: "rq_source_cache (install options cache) = cache" "rq_budget (install options cache) = 0"
    "rq_forbidden (install options cache) = set (ro_forbidden options)" "rq_modules_root (install options cache) = ro_modules_dir options"
    by (simp_all add: install_def)
  from require_run_ok [OF assms(1), of "install options cache"] assms(2) show ?thesis
    unfolding start assms(3) by (auto simp: require_max_total_bytes_def simp del: sum_list_eq_0_iff)
qed

section \<open>The banner is by name\<close>

text \<open>
  A banned name can be written in another way: with a dot before it or the extension behind it the same
  file is not banned, although an entry is meant to ban local modules, too.
\<close>

definition sample_modules :: module_disk where
  "sample_modules = \<lparr>md_is_file = (\<lambda>p. p = ''/m/mv.js'' \<or> p = ''/m/./mv.js''), md_is_dir = (\<lambda>_. False),
     md_canonical = (\<lambda>p. Some (if p = ''/m/./mv.js'' then ''/m/mv.js'' else p)),
     md_files = (\<lambda>p. if p = ''/m/mv.js'' then \<lparr>df_mtime = Some 1, df_text = Inr ''x''\<rparr> else \<lparr>df_mtime = None, df_text = Inl ''not found''\<rparr>),
     md_main = (\<lambda>_. None)\<rparr>"

definition banned_mv :: require_state where
  "banned_mv = \<lparr>rq_modules_root = ''/m'', rq_forbidden = {''mv''}, rq_source_cache = None, rq_budget = 0\<rparr>"

lemma sample_spec:
  "list_all graphic s \<Longrightarrow> spec_name s = (case strip_prefix ''node:'' s of Some rest \<Rightarrow> rest | None \<Rightarrow> s)"
  by (simp add: spec_name_def trim_all_graphic split: option.split)

lemma sample_names: "spec_name ''mv'' = ''mv''" "spec_name ''mv.js'' = ''mv.js''" "spec_name ''./mv'' = ''./mv''"
  by (subst sample_spec; simp add: graphic_def code_def strip_prefix_def starts_with_def)+

lemma banned_by_its_name:
  "fst (resolve_impl sample_modules banned_mv (Js_String ''mv'') None) =
    Inl (Plain_Error ''require('{}') is forbidden: the module '{}' is listed in [templates] forbidden_modules'' [''mv'', ''mv''])"
  by (simp add: resolve_impl_def sample_names Let_def package_of_def banned_mv_def nul_def)

lemma loaded_by_its_file:
  "resolve_impl sample_modules banned_mv (Js_String ''mv.js'') None = (Inr (Module ''/m/mv.js'' ''/m/mv.js'' ''/m'' [] ''x''), banned_mv\<lparr>rq_budget := 1\<rparr>)"
proof -
  have "module_descriptor_of sample_modules banned_mv spec ''/m/mv.js'' ''/m/mv.js'' =
      (Inr (Module ''/m/mv.js'' ''/m/mv.js'' ''/m'' [] ''x''), banned_mv\<lparr>rq_budget := 1\<rparr>)" for spec
    by (simp add: module_descriptor_of_def read_source_def read_module_def sample_modules_def banned_mv_def require_max_total_bytes_def
        parent_def drop_idle_end_def idle_segment_def strip_dir_def below_def path_parts_def forward_slashes_def Let_def)
  moreover have "md_canonical sample_modules ''/m'' = Some ''/m''" "md_canonical sample_modules ''/m/mv.js'' = Some ''/m/mv.js''"
    "resolve_module_file sample_modules ''/m/mv.js'' = Some ''/m/mv.js''" "rq_modules_root banned_mv = ''/m''"
    "rq_forbidden banned_mv = {''mv''}"
    by (simp_all add: sample_modules_def resolve_module_file_def banned_mv_def)
  moreover have "path_join ''/m'' ''mv.js'' = ''/m/mv.js''" by (simp add: path_join_def starts_with_def ends_with_def)
  moreover have "below ''/m'' ''/m/mv.js''" by (simp add: below_def path_parts_def idle_segment_def)
  ultimately show ?thesis
    by (simp add: resolve_impl_def sample_names Let_def package_of_def nul_def builtin_modules_def resolve_local_module_def starts_with_def)
qed

definition banned_options :: require_options where
  "banned_options = \<lparr>ro_enabled = True, ro_modules_dir = ''/m'', ro_forbidden = [''mv'']\<rparr>"

lemma modules_stay_inside_witness:
  "\<exists>answers. list_all2 (answers_inside {''mv''} ''/m'')
      [(sample_modules, Js_String ''mv'', None), (sample_modules, Js_String ''mv.js'', None)] answers \<and>
    map loaded_bytes answers = [0, 1]"
proof -
  let ?calls = "[(sample_modules, Js_String ''mv'', None), (sample_modules, Js_String ''mv.js'', None)]"
  have start: "install banned_options None = banned_mv" by (simp add: install_def banned_options_def banned_mv_def)
  have first: "resolve_impl sample_modules banned_mv (Js_String ''mv'') None =
    (Inl (Plain_Error ''require('{}') is forbidden: the module '{}' is listed in [templates] forbidden_modules'' [''mv'', ''mv'']), banned_mv)"
    by (simp add: resolve_impl_def sample_names Let_def package_of_def banned_mv_def nul_def)
  obtain answers st where run: "require_run ?calls (install banned_options None) = (answers, st)" by force
  have "map loaded_bytes answers = [0, 1]" using run by (auto simp: start first loaded_by_its_file)
  moreover have "list_all2 (answers_inside {''mv''} ''/m'') ?calls answers"
  proof -
    have "stamped (\<lambda>_ _. ''x'') (md_files sample_modules)" by (simp add: stamped_def sample_modules_def)
    then have disks: "\<forall>call \<in> set ?calls. stamped (\<lambda>_ _. ''x'') (md_files (fst call))" by simp
    have cache: "sources_ok (\<lambda>_ _. ''x'') None" by (simp add: sources_ok_def)
    have "list_all2 (answers_inside (set (ro_forbidden banned_options)) (ro_modules_dir banned_options)) ?calls answers"
      by (rule modules_stay_inside [OF disks cache run, THEN conjunct1])
    moreover have "set (ro_forbidden banned_options) = {''mv''}" "ro_modules_dir banned_options = ''/m''" by (simp_all add: banned_options_def)
    ultimately show ?thesis by (simp only:)
  qed
  ultimately show ?thesis by (intro exI [of _ answers] conjI)
qed

end
