(* ===== verification/Sidecar.thy ===== *)
theory Sidecar
  imports Require
begin

text \<open>
  The backend beside the engine (\<open>src/src/template_engine/sidecar.rs\<close>, \<open>renderer.rs\<close>, and the choice of
  the backend in \<open>state.rs\<close>): the answer of the process and its meaning, the supervisor that brings a
  dead process back, and the automatic backend as a machine whose renders interleave. Processes are
  numbers; starting one, its sockets and the parser of JSON are parameters. Times are in seconds.
\<close>

section \<open>Reading an answer\<close>

text \<open>What a read of the socket can come back with; no bytes mean that the other side closed.\<close>

datatype read_event = Bytes string | Interrupted | Read_Failed string

fun read_chunk :: "read_event list \<Rightarrow> (string, string \<times> read_event list) result" where
  "read_chunk [] = Inr ([], [])"
| "read_chunk (Bytes b # es) = Inr (b, es)"
| "read_chunk (Interrupted # es) = read_chunk es"
| "read_chunk (Read_Failed e # es) = Inl (''read failed: '' @ e)"

definition response_limit :: nat where "response_limit = 64 * 1024 * 1024"

definition crlf2 :: string where "crlf2 = [CHR 0x0D, CHR 0x0A, CHR 0x0D, CHR 0x0A]"

definition find_header_end :: "string \<Rightarrow> nat option" where
  "find_header_end raw = find_str crlf2 raw"

lemma read_chunk_shorter: "read_chunk es = Inr (b, rest) \<Longrightarrow> b \<noteq> [] \<Longrightarrow> length rest < length es"
  by (induction es rule: read_chunk.induct) auto

function read_headers :: "string \<Rightarrow> read_event list \<Rightarrow> (string, nat \<times> string \<times> read_event list) result" where
  "read_headers raw es =
     (case find_header_end raw of
        Some at_end \<Rightarrow> Inr (at_end, raw, es)
      | None \<Rightarrow>
          if response_limit < length raw then Inl ''the response headers exceeded the size limit''
          else (case read_chunk es of
              Inl e \<Rightarrow> Inl e
            | Inr (b, rest) \<Rightarrow>
                if b = [] then Inl ''the sidecar closed the connection before answering'' else read_headers (raw @ b) rest))"
  by pat_completeness auto
termination
  by (relation "measure (\<lambda>(raw, es). length es)") (auto dest: read_chunk_shorter)

function read_body :: "nat \<Rightarrow> string \<Rightarrow> read_event list \<Rightarrow> (string, string) result" where
  "read_body content_length body es =
     (if content_length \<le> length body then Inr (take content_length body)
      else if response_limit < length body then Inl ''the response body exceeded the size limit''
      else (case read_chunk es of
          Inl e \<Rightarrow> Inl e
        | Inr (b, rest) \<Rightarrow>
            if b = [] then Inl ''the sidecar closed the connection mid-body'' else read_body content_length (body @ b) rest))"
  by pat_completeness auto
termination
  by (relation "measure (\<lambda>(n, body, es). length es)") (auto dest: read_chunk_shorter)

declare read_headers.simps [simp del] read_body.simps [simp del]

text \<open>\<open>str::lines\<close>: no line after the last break, and a carriage return goes with its break only.\<close>

definition text_lines :: "string \<Rightarrow> string list" where
  "text_lines s =
     (let parts = split_on (CHR 0x0A) s in
      map (\<lambda>l. case strip_suffix [CHR 0x0D] l of Some t \<Rightarrow> t | None \<Rightarrow> l) (butlast parts) @
      (if last parts = [] then [] else [last parts]))"

fun content_length_of :: "string list \<Rightarrow> nat option" where
  "content_length_of [] = None"
| "content_length_of (l # ls) =
     (case split_once (CHR '':'') l of
        None \<Rightarrow> content_length_of ls
      | Some (name, v) \<Rightarrow>
          if eq_ignore_case (trim name) ''content-length''
          then (case parse_unsigned (2 ^ 64 - 1) (trim v) of Some n \<Rightarrow> Some n | None \<Rightarrow> content_length_of ls)
          else content_length_of ls)"

text \<open>The replacement of what is not UTF-8 and the parser of JSON are parameters.\<close>

definition read_json_response :: "(string \<Rightarrow> string) \<Rightarrow> (string \<Rightarrow> (string, 'v) result) \<Rightarrow> read_event list \<Rightarrow> (string, 'v) result" where
  "read_json_response lossy from_json es =
     and_then (read_headers [] es) (\<lambda>(header_end, raw, rest).
     (case text_lines (lossy (take header_end raw)) of
        [] \<Rightarrow> Inl ''the response has no status line''
      | status # ls \<Rightarrow>
          if \<not> starts_with ''HTTP/1.1 200'' status \<and> \<not> starts_with ''HTTP/1.0 200'' status
          then Inl (''the sidecar answered with a non-200 status: '' @ status)
          else (case content_length_of ls of
              None \<Rightarrow> Inl ''the response has no content-length header''
            | Some content_length \<Rightarrow>
                and_then (read_body content_length (drop (header_end + 4) raw) rest) (\<lambda>body.
                (case from_json body of
                   Inl e \<Rightarrow> Inl (''the sidecar response body was not valid JSON: '' @ e)
                 | Inr v \<Rightarrow> Inr v)))))"

section \<open>How the bytes arrive does not matter\<close>

text \<open>The bytes of a connection up to its end, where no read fails.\<close>

fun arrives :: "read_event list \<Rightarrow> string option" where
  "arrives [] = Some []"
| "arrives (Bytes b # es) = (if b = [] then Some [] else map_option (\<lambda>s. b @ s) (arrives es))"
| "arrives (Interrupted # es) = arrives es"
| "arrives (Read_Failed e # es) = None"

lemma arrives_chunk:
  "arrives es = Some s \<Longrightarrow> \<exists>b rest. read_chunk es = Inr (b, rest) \<and>
    (if b = [] then s = [] else \<exists>t. arrives rest = Some t \<and> s = b @ t)"
proof (induction es arbitrary: s rule: arrives.induct)
  case (2 b es)
  then show ?case by (cases "b = []") auto
qed auto

lemma find_str_extends: "find_str p s = Some i \<Longrightarrow> find_str p (s @ t) = Some i"
proof (induction s arbitrary: i)
  case Nil
  then show ?case by (cases t) (auto split: if_splits)
next
  case (Cons c s)
  show ?case
  proof (cases "starts_with p (c # s)")
    case True
    then obtain u where "c # s = p @ u" unfolding starts_with_iff by blast
    then have "c # s @ t = p @ u @ t" by (metis append_Cons append_assoc)
    then have "starts_with p (c # s @ t)" unfolding starts_with_iff by blast
    with Cons.prems True show ?thesis by simp
  next
    case False
    with Cons.prems obtain j where j: "find_str p s = Some j" "i = Suc j" by auto
    from find_str_Some [OF j(1)] have "take (length p) (c # s @ t) = take (length p) (c # s)" by (cases "length p") simp_all
    with False have "\<not> starts_with p (c # s @ t)" by (simp add: starts_with_def)
    with j Cons.IH [OF j(1)] show ?thesis by simp
  qed
qed

lemma read_headers_whole:
  "arrives es = Some t \<Longrightarrow> length (raw @ t) \<le> response_limit \<Longrightarrow>
    (case find_header_end (raw @ t) of
       None \<Rightarrow> read_headers raw es = Inl ''the sidecar closed the connection before answering''
     | Some i \<Rightarrow> \<exists>raw' rest t'. read_headers raw es = Inr (i, raw', rest) \<and> arrives rest = Some t' \<and> raw' @ t' = raw @ t \<and> i + 4 \<le> length raw')"
proof (induction raw es arbitrary: t rule: read_headers.induct)
  case (1 raw es)
  show ?case
  proof (cases "find_header_end raw")
    case (Some i)
    then have "find_header_end (raw @ t) = Some i" by (simp add: find_header_end_def find_str_extends)
    moreover have "i + 4 \<le> length raw" using Some find_str_Some [of crlf2 raw i] by (simp add: find_header_end_def crlf2_def)
    ultimately show ?thesis using Some 1(2) by (simp add: read_headers.simps [of raw es])
  next
    case None
    from arrives_chunk [OF 1(2)] obtain b rest where b: "read_chunk es = Inr (b, rest)"
      "if b = [] then t = [] else \<exists>u. arrives rest = Some u \<and> t = b @ u" by blast
    have step: "read_headers raw es = (if b = [] then Inl ''the sidecar closed the connection before answering'' else read_headers (raw @ b) rest)"
      using None 1(3) b(1) by (simp add: read_headers.simps [of raw es])
    show ?thesis
    proof (cases "b = []")
      case True
      with b(2) None step show ?thesis by simp
    next
      case False
      with b(2) obtain u where u: "arrives rest = Some u" "t = b @ u" by auto
      have "\<not> response_limit < length raw" using 1(3) by simp
      from 1(1) [OF None this b(1) refl False u(1)] 1(3) u(2) False step show ?thesis by (simp cong: option.case_cong)
    qed
  qed
qed

lemma read_body_whole:
  "arrives es = Some t \<Longrightarrow> length (body @ t) \<le> response_limit \<Longrightarrow>
    read_body n body es = (if n \<le> length (body @ t) then Inr (take n (body @ t)) else Inl ''the sidecar closed the connection mid-body'')"
proof (induction n body es arbitrary: t rule: read_body.induct)
  case (1 n body es)
  show ?case
  proof (cases "n \<le> length body")
    case False
    from arrives_chunk [OF 1(2)] obtain b rest where b: "read_chunk es = Inr (b, rest)"
      "if b = [] then t = [] else \<exists>u. arrives rest = Some u \<and> t = b @ u" by blast
    have step: "read_body n body es = (if b = [] then Inl ''the sidecar closed the connection mid-body'' else read_body n (body @ b) rest)"
      using False 1(3) b(1) by (simp add: read_body.simps [of n body es])
    show ?thesis
    proof (cases "b = []")
      case True
      with b(2) False step show ?thesis by simp
    next
      case nonempty: False
      with b(2) obtain u where u: "arrives rest = Some u" "t = b @ u" by auto
      have "\<not> response_limit < length body" using 1(3) by simp
      from 1(1) [OF False this b(1) refl nonempty u(1)] 1(3) u(2) nonempty step show ?thesis by simp
    qed
  qed (simp add: read_body.simps [of n body es])
qed

text \<open>
  An answer of the process means the same however its bytes arrive: in whatever portions, and with
  reads interrupted in between, it is read as if it had come in one piece, as long as it is within the limit.
\<close>

theorem portions_do_not_matter:
  assumes "arrives es = Some s" "length s \<le> response_limit"
  shows "read_json_response lossy from_json es = read_json_response lossy from_json [Bytes s]"
proof -
  have whole: "read_json_response lossy from_json fs =
    (case find_header_end s of
       None \<Rightarrow> Inl ''the sidecar closed the connection before answering''
     | Some i \<Rightarrow>
        (case text_lines (lossy (take i s)) of
           [] \<Rightarrow> Inl ''the response has no status line''
         | status # ls \<Rightarrow>
             if \<not> starts_with ''HTTP/1.1 200'' status \<and> \<not> starts_with ''HTTP/1.0 200'' status
             then Inl (''the sidecar answered with a non-200 status: '' @ status)
             else (case content_length_of ls of
                 None \<Rightarrow> Inl ''the response has no content-length header''
               | Some n \<Rightarrow>
                   and_then (if n \<le> length (drop (i + 4) s) then Inr (take n (drop (i + 4) s)) else Inl ''the sidecar closed the connection mid-body'')
                     (\<lambda>body. case from_json body of Inl e \<Rightarrow> Inl (''the sidecar response body was not valid JSON: '' @ e) | Inr v \<Rightarrow> Inr v))))"
    if arr: "arrives fs = Some s" for fs
  proof (cases "find_header_end s")
    case None
    with read_headers_whole [OF arr, of "[]"] assms(2) show ?thesis by (simp add: read_json_response_def)
  next
    case (Some i)
    with read_headers_whole [OF arr, of "[]"] assms(2) obtain raw rest t where r: "read_headers [] fs = Inr (i, raw, rest)"
      "arrives rest = Some t" "raw @ t = s" "i + 4 \<le> length raw" by auto
    have i: "take i raw = take i s" "drop (i + 4) raw @ t = drop (i + 4) s" using r(3,4) by auto
    have "read_body n (drop (i + 4) raw) rest = (if n \<le> length (drop (i + 4) s) then Inr (take n (drop (i + 4) s)) else Inl ''the sidecar closed the connection mid-body'')" for n
      using read_body_whole [OF r(2), of "drop (i + 4) raw" n] assms(2) i(2) by simp
    then show ?thesis using Some r(1) i(1) by (simp add: read_json_response_def cong: list.case_cong option.case_cong if_cong)
  qed
  have "arrives [Bytes s] = Some s" by simp
  then show ?thesis using whole [OF assms(1)] whole [of "[Bytes s]"] by simp
qed

section \<open>What an answer means\<close>

record console_line =
  con_level :: string
  con_message :: string

record redirect_intent =
  ri_location :: string
  ri_status :: nat

record render_output =
  out_html :: string
  out_console :: "console_line list"
  out_redirect :: "redirect_intent option"

record sidecar_failure =
  sf_kind :: string
  sf_message :: string
  sf_path :: "string option"

text \<open>An envelope as the parser gives it: whether it is a success, and its payloads where they can be read.\<close>

record envelope =
  en_ok :: "bool option"
  en_success :: "(string, render_output) result"
  en_error :: "(string, sidecar_failure) result option"

definition jhs_failure :: "string \<Rightarrow> sidecar_failure \<Rightarrow> jhs_error" where
  "jhs_failure fallback_label f =
     (let label = (case sf_path f of Some p \<Rightarrow> p | None \<Rightarrow> fallback_label) in
      if sf_kind f = ''io'' then Io (sf_message f)
      else if sf_kind f = ''include'' then Include_Error (sf_message f)
      else if sf_kind f \<in> {''execution'', ''timeout'', ''worker''} then Execution label (sf_message f)
      else Sidecar (''sidecar protocol error: '' @ sf_message f))"

definition render_call :: "string \<Rightarrow> string \<Rightarrow> (string, envelope) result \<Rightarrow> (jhs_error, render_output) result" where
  "render_call addr fallback_label exchanged =
     (case exchanged of
        Inl e \<Rightarrow> Inl (Sidecar (''the JHS sidecar at '' @ addr @ '' did not answer: '' @ e))
      | Inr en \<Rightarrow>
          if en_ok en = Some True
          then (case en_success en of
              Inl e \<Rightarrow> Inl (Sidecar (''malformed sidecar success envelope: '' @ e))
            | Inr success \<Rightarrow> Inr success)
          else (case en_error en of
              Some (Inl e) \<Rightarrow> Inl (Sidecar (''malformed sidecar error envelope: '' @ e))
            | Some (Inr failure) \<Rightarrow> Inl (jhs_failure fallback_label failure)
            | None \<Rightarrow> Inl (jhs_failure fallback_label
                \<lparr>sf_kind = ''protocol'', sf_message = ''the sidecar answered without an error payload'', sf_path = None\<rparr>)))"

definition health_probe :: "(string, bool option) result \<Rightarrow> bool" where
  "health_probe exchanged = (case exchanged of Inr (Some ok) \<Rightarrow> ok | _ \<Rightarrow> False)"

definition broken_render :: "string \<Rightarrow> (jhs_error, render_output) result" where
  "broken_render message = Inl (Sidecar message)"

definition stderr_tail :: nat where "stderr_tail = 40"

definition push_tail :: "string list \<Rightarrow> string \<Rightarrow> string list" where
  "push_tail tail line = (if length tail = stderr_tail then tl tail else tail) @ [line]"

definition stderr_report :: "string list \<Rightarrow> string" where
  "stderr_report tail =
     (if tail = [] then [] else CHR 0x0A # ''sidecar stderr (tail):'' @ CHR 0x0A # ''  '' @ join_with (CHR 0x0A # ''  '') tail)"

section \<open>Starting a process\<close>

definition sidecar_main_heap_mb :: nat where "sidecar_main_heap_mb = 192"

definition crlf :: string where "crlf = [CHR 0x0D, CHR 0x0A]"

definition exchange_request :: "string \<Rightarrow> string \<Rightarrow> string \<Rightarrow> string option \<Rightarrow> string" where
  "exchange_request http_method path token payload =
     http_method @ '' '' @ path @ '' HTTP/1.1'' @ crlf @ ''Host: jhs-sidecar'' @ crlf @ ''x-sidecar-token: '' @ token @ crlf @
     ''connection: close'' @ crlf @
     (case payload of
        Some p \<Rightarrow> ''content-type: application/json'' @ crlf @ ''content-length: '' @ show_nat (length p) @ crlf
      | None \<Rightarrow> []) @
     crlf @ (case payload of Some p \<Rightarrow> p | None \<Rightarrow> [])"

record sidecar_options =
  so_node_command :: string
  so_script :: string
  so_views_dir :: string
  so_modules_dir :: string
  so_forbidden :: "string list"
  so_auto_escape :: bool
  so_require_enabled :: bool
  so_workers :: nat
  so_startup_timeout_ms :: nat
  so_request_timeout_ms :: nat
  so_render_budget_ms :: nat

definition truth :: "bool \<Rightarrow> string" where "truth b = (if b then ''true'' else ''false'')"

definition sidecar_environment :: "(string list \<Rightarrow> string) \<Rightarrow> sidecar_options \<Rightarrow> string \<Rightarrow> (string \<times> string) list" where
  "sidecar_environment to_json so token =
     [(''JHS_SIDECAR_TOKEN'', token), (''JHS_SIDECAR_PORT'', ''0''), (''JHS_SIDECAR_VIEWS_DIR'', so_views_dir so),
      (''JHS_SIDECAR_MODULES_DIR'', so_modules_dir so), (''JHS_SIDECAR_FORBIDDEN'', to_json (so_forbidden so)),
      (''JHS_SIDECAR_AUTO_ESCAPE'', truth (so_auto_escape so)), (''JHS_SIDECAR_REQUIRE_ENABLED'', truth (so_require_enabled so)),
      (''JHS_SIDECAR_WORKERS'', show_nat (so_workers so)), (''JHS_SIDECAR_RENDER_BUDGET_MS'', show_nat (so_render_budget_ms so))]"

text \<open>
  How a start goes: whether the script is there, the launch, the first line in time, the port in it as JSON
  has it, and the report of the self-test with the names of its checks.
\<close>

record selftest =
  st_ok :: "bool option"
  st_checks :: "(bool option \<times> string option) list"

record launch =
  la_script :: bool
  la_child :: "(string, unit) result"
  la_handshake :: "string option"
  la_port :: "(string, nat option) result"
  la_selftest :: "(string, selftest) result"
  la_stderr :: "string list"

definition failed_checks :: "selftest \<Rightarrow> string" where
  "failed_checks report =
     (let failed = List.map_filter snd (filter (\<lambda>(ok, name). ok \<noteq> Some True) (st_checks report)) in
      if failed = [] then ''unknown checks'' else join_with '', '' failed)"

definition spawn :: "sidecar_options \<Rightarrow> launch \<Rightarrow> (string, nat) result" where
  "spawn so la =
     (if \<not> la_script la then Inl (''the JHS sidecar script '' @ so_script so @ '' does not exist (see [templates.sidecar] script)'')
      else (case la_child la of
        Inl e \<Rightarrow> Inl (''could not launch the JHS sidecar ('' @ so_node_command so @ '' '' @ so_script so @ ''): '' @ e @ '' '' @ em_dash @
          '' is Node.js installed, and is [templates.sidecar] node_command correct? (set [templates] backend = '' @ dquote @ ''boa'' @ dquote @
          '' or '' @ dquote @ ''auto'' @ dquote @ '' to render without Node)'')
      | Inr _ \<Rightarrow>
          (case la_handshake la of
             None \<Rightarrow> Inl (''the JHS sidecar did not report readiness within '' @ show_nat (so_startup_timeout_ms so) @
               '' ms (see [templates.sidecar] startup_timeout_ms)'' @ stderr_report (la_stderr la))
           | Some line \<Rightarrow>
               (case la_port la of
                  Inl e \<Rightarrow> Inl (''the JHS sidecar handshake line was not valid JSON ('' @ e @ ''): '' @ line)
                | Inr found \<Rightarrow>
                    (case (case found of Some port \<Rightarrow> if 0 < port \<and> port \<le> 65535 then Some port else None | None \<Rightarrow> None) of
                       None \<Rightarrow> Inl (''the JHS sidecar handshake line carries no port: '' @ line)
                     | Some port \<Rightarrow>
                         (case la_selftest la of
                            Inl e \<Rightarrow> Inl (''the JHS sidecar selftest could not be fetched: '' @ e)
                          | Inr report \<Rightarrow>
                              if st_ok report = Some True then Inr port
                              else Inl (''the JHS sidecar selftest failed ('' @ failed_checks report @ ''); the backend stays disabled'' @
                                stderr_report (la_stderr la))))))))"

text \<open>A process that is used told a port in time and passed every check it was asked about.\<close>

lemma spawned_is_ready:
  "spawn so la = Inr port \<Longrightarrow> la_script la \<and> (\<exists>line. la_handshake la = Some line) \<and> la_port la = Inr (Some port) \<and> 0 < port \<and> port \<le> 65535 \<and>
    (\<exists>report. la_selftest la = Inr report \<and> st_ok report = Some True)"
  by (auto simp: spawn_def split: if_splits sum.splits option.splits)

section \<open>The supervisor\<close>

record supervisor =
  sv_current :: nat
  sv_generation :: nat
  sv_respawning :: bool
  sv_failures :: nat
  sv_next_attempt :: int

definition respawn_backoff_base :: int where "respawn_backoff_base = 10"
definition respawn_max_backoff :: int where "respawn_max_backoff = 300"

definition respawn_backoff :: "nat \<Rightarrow> int" where
  "respawn_backoff consecutive_failures = min (respawn_backoff_base * 2 ^ min consecutive_failures 5) respawn_max_backoff"

definition new_supervisor :: "int \<Rightarrow> nat \<Rightarrow> supervisor" where
  "new_supervisor now sidecar =
     \<lparr>sv_current = sidecar, sv_generation = 1, sv_respawning = False, sv_failures = 0, sv_next_attempt = now - respawn_backoff_base\<rparr>"

text \<open>The supervisor after a request, and whether the request started the thread of an attempt.\<close>

definition request_respawn :: "int \<Rightarrow> supervisor \<Rightarrow> supervisor \<times> bool" where
  "request_respawn now sv =
     (if sv_respawning sv then (sv, False)
      else if now < sv_next_attempt sv then (sv, False)
      else (sv\<lparr>sv_respawning := True, sv_next_attempt := now + respawn_backoff (sv_failures sv)\<rparr>, True))"

text \<open>The statements of an attempt: after a start that worked, and after one that failed.\<close>

definition respawn_reset :: "int \<Rightarrow> supervisor \<Rightarrow> supervisor" where
  "respawn_reset now sv = sv\<lparr>sv_failures := 0, sv_next_attempt := now\<rparr>"

definition respawn_swap :: "nat \<Rightarrow> supervisor \<Rightarrow> supervisor" where
  "respawn_swap process sv = sv\<lparr>sv_current := process\<rparr>"

definition respawn_bump :: "supervisor \<Rightarrow> supervisor" where
  "respawn_bump sv = sv\<lparr>sv_generation := sv_generation sv + 1\<rparr>"

definition respawn_failed :: "supervisor \<Rightarrow> supervisor" where
  "respawn_failed sv = sv\<lparr>sv_failures := sv_failures sv + 1\<rparr>"

definition respawn_release :: "supervisor \<Rightarrow> supervisor" where
  "respawn_release sv = sv\<lparr>sv_respawning := False\<rparr>"

definition respawn_once :: "int \<Rightarrow> (string, nat) result \<Rightarrow> supervisor \<Rightarrow> supervisor" where
  "respawn_once now spawned sv =
     respawn_release (case spawned of
        Inr process \<Rightarrow> respawn_bump (respawn_swap process (respawn_reset now sv))
      | Inl e \<Rightarrow> respawn_failed sv)"

section \<open>The backends\<close>

record auto_renderer =
  au_sidecar :: supervisor
  au_healthy :: bool
  au_last_probe :: int
  au_last_generation :: nat

definition probe_cooldown :: int where "probe_cooldown = 10"

definition new_auto :: "int \<Rightarrow> nat \<Rightarrow> auto_renderer" where
  "new_auto now sidecar =
     (let sv = new_supervisor now sidecar in
      \<lparr>au_sidecar = sv, au_healthy = True, au_last_probe = now - probe_cooldown, au_last_generation = sv_generation sv\<rparr>)"

definition auto_backend_name :: "auto_renderer \<Rightarrow> string" where
  "auto_backend_name au = (if au_healthy au then ''sidecar'' else ''boa'')"

text \<open>
  Where a render is: before a round with the rounds that are left, in a call of a process, in a probe of
  one, in the engine beside it, or answered.
\<close>

datatype 'r stage = Enter nat | Calling nat nat | Probing nat nat | On_Boa | Answered "(jhs_error, 'r) result"

definition enter_round :: "int \<Rightarrow> nat \<Rightarrow> auto_renderer \<Rightarrow> auto_renderer \<times> 'r stage" where
  "enter_round now rounds au =
     (if rounds = 0 then (au, On_Boa)
      else (let generation = sv_generation (au_sidecar au);
                au1 = (if au_last_generation au \<noteq> generation then au\<lparr>au_last_generation := generation, au_healthy := True\<rparr> else au) in
        if au_healthy au1 then (au1, Calling rounds (sv_current (au_sidecar au1)))
        else if now - au_last_probe au1 \<ge> probe_cooldown
        then (au1\<lparr>au_last_probe := now\<rparr>, Probing rounds (sv_current (au_sidecar au1)))
        else (au1, On_Boa)))"

text \<open>After a call and after a probe: the renderer, where the render is, whether an attempt was started.\<close>

definition after_call :: "int \<Rightarrow> (jhs_error, 'r) result \<Rightarrow> auto_renderer \<Rightarrow> auto_renderer \<times> 'r stage \<times> bool" where
  "after_call now r au =
     (case r of
        Inl (Sidecar message) \<Rightarrow>
          (let (sv, started) = request_respawn now (au_sidecar au) in
           (au\<lparr>au_healthy := False, au_sidecar := sv\<rparr>, On_Boa, started))
      | _ \<Rightarrow> (au, Answered r, False))"

definition after_probe :: "int \<Rightarrow> nat \<Rightarrow> bool \<Rightarrow> auto_renderer \<Rightarrow> auto_renderer \<times> 'r stage \<times> bool" where
  "after_probe now rounds alive au =
     (if alive then (au\<lparr>au_healthy := True\<rparr>, Enter (rounds - 1), False)
      else (let (sv, started) = request_respawn now (au_sidecar au) in (au\<lparr>au_sidecar := sv\<rparr>, On_Boa, started)))"

text \<open>A render from its first round to its answer, with nothing else in between.\<close>

fun dispatch_rounds :: "int \<Rightarrow> (nat \<Rightarrow> (jhs_error, 'r) result) \<Rightarrow> (nat \<Rightarrow> bool) \<Rightarrow> (jhs_error, 'r) result \<Rightarrow> nat \<Rightarrow> auto_renderer \<Rightarrow>
    (jhs_error, 'r) result \<times> auto_renderer" where
  "dispatch_rounds now sidecar_call alive boa 0 au = (boa, au)"
| "dispatch_rounds now sidecar_call alive boa (Suc rounds) au =
     (case enter_round now (Suc rounds) au :: auto_renderer \<times> 'r stage of
        (au1, Calling _ process) \<Rightarrow>
          (case after_call now (sidecar_call process) au1 of
             (au2, Answered r, _) \<Rightarrow> (r, au2)
           | (au2, _) \<Rightarrow> (boa, au2))
      | (au1, Probing _ process) \<Rightarrow>
          (case after_probe now (Suc rounds) (alive process) au1 :: auto_renderer \<times> 'r stage \<times> bool of
             (au2, Enter _, _) \<Rightarrow> dispatch_rounds now sidecar_call alive boa rounds au2
           | (au2, _) \<Rightarrow> (boa, au2))
      | (au1, _) \<Rightarrow> (boa, au1))"

definition dispatch_auto :: "int \<Rightarrow> (nat \<Rightarrow> (jhs_error, 'r) result) \<Rightarrow> (nat \<Rightarrow> bool) \<Rightarrow> (jhs_error, 'r) result \<Rightarrow> auto_renderer \<Rightarrow>
    (jhs_error, 'r) result \<times> auto_renderer" where
  "dispatch_auto now sidecar_call alive boa au = dispatch_rounds now sidecar_call alive boa 2 au"

definition dispatch_strict :: "int \<Rightarrow> (nat \<Rightarrow> (jhs_error, 'r) result) \<Rightarrow> supervisor \<Rightarrow> (jhs_error, 'r) result \<times> supervisor \<times> bool" where
  "dispatch_strict now sidecar_call sv =
     (case sidecar_call (sv_current sv) of
        Inl (Sidecar message) \<Rightarrow> (let (sv', started) = request_respawn now sv in (Inl (Sidecar message), sv', started))
      | r \<Rightarrow> (r, sv, False))"

text \<open>The choice of the backend at the start, and the gate the server waits at.\<close>

datatype backend = Boa | Strict nat | Broken string | Auto nat

record template_engine =
  te_renderer :: backend
  te_backend :: string
  te_spawn_error :: "string option"

text \<open>\<open>trim_start_matches\<close>: the prefix, as often as it comes.\<close>

function trim_start_pattern :: "string \<Rightarrow> string \<Rightarrow> string" where
  "trim_start_pattern p s = (if p \<noteq> [] \<and> starts_with p s then trim_start_pattern p (drop (length p) s) else s)"
  by pat_completeness auto
termination
  by (relation "measure (\<lambda>(p, s). length s)") (auto simp: starts_with_iff)

declare trim_start_pattern.simps [simp del]

definition forbidden_names :: "templates_config \<Rightarrow> string list" where
  "forbidden_names c = map (\<lambda>name. trim_start_pattern ''node:'' (trim name)) (tpc_forbidden_modules c)"

definition choose_backend :: "templates_config \<Rightarrow> (string, nat) result \<Rightarrow> template_engine" where
  "choose_backend c spawned =
     (let backend = trim (tpc_backend c) in
      if backend = ''boa'' then \<lparr>te_renderer = Boa, te_backend = backend, te_spawn_error = None\<rparr>
      else if backend = ''sidecar'' then
        (case spawned of
           Inr process \<Rightarrow> \<lparr>te_renderer = Strict process, te_backend = backend, te_spawn_error = None\<rparr>
         | Inl e \<Rightarrow> \<lparr>te_renderer = Broken e, te_backend = backend, te_spawn_error = Some e\<rparr>)
      else
        (case spawned of
           Inr process \<Rightarrow> \<lparr>te_renderer = Auto process, te_backend = backend, te_spawn_error = None\<rparr>
         | Inl e \<Rightarrow> \<lparr>te_renderer = Boa, te_backend = backend, te_spawn_error = None\<rparr>))"

definition ensure_ready :: "template_engine \<Rightarrow> (string, unit) result" where
  "ensure_ready te =
     (case te_spawn_error te of
        Some e \<Rightarrow> Inl (''templates.backend = '' @ dquote @ ''sidecar'' @ dquote @ '' ('' @ te_backend te @ '') but the Node sidecar could not start: '' @ e)
      | None \<Rightarrow> Inr ())"

definition starting_name :: "template_engine \<Rightarrow> string" where
  "starting_name te = (case te_renderer te of Boa \<Rightarrow> ''boa'' | Strict _ \<Rightarrow> ''sidecar'' | Broken _ \<Rightarrow> ''unavailable'' | Auto _ \<Rightarrow> ''sidecar'')"

section \<open>Renders that interleave\<close>

text \<open>
  An attempt runs on a thread of its own, one statement after the other; a request to respawn and a
  round up to its call are one step, since a flag or a mutex covers what others could see of them.
\<close>

datatype attempt = Attempting | Got nat | Swapped | Finishing

record 'r machine =
  mc_auto :: auto_renderer
  mc_attempts :: "attempt list"
  mc_started :: nat
  mc_now :: int
  mc_renders :: "nat \<Rightarrow> 'r stage option"

definition first_machine :: "int \<Rightarrow> 'r machine" where
  "first_machine now = \<lparr>mc_auto = new_auto now 0, mc_attempts = [], mc_started = 1, mc_now = now, mc_renders = (\<lambda>_. None)\<rparr>"

definition moved :: "nat \<Rightarrow> auto_renderer \<times> 'r stage \<times> bool \<Rightarrow> 'r machine \<Rightarrow> 'r machine" where
  "moved t outcome m =
     (case outcome of (au, st, started) \<Rightarrow>
       m\<lparr>mc_auto := au, mc_renders := (mc_renders m)(t \<mapsto> st), mc_attempts := (if started then Attempting # mc_attempts m else mc_attempts m)\<rparr>)"

definition supervised :: "(supervisor \<Rightarrow> supervisor) \<Rightarrow> attempt list \<Rightarrow> 'r machine \<Rightarrow> 'r machine" where
  "supervised f attempts m = m\<lparr>mc_auto := (mc_auto m)\<lparr>au_sidecar := f (au_sidecar (mc_auto m))\<rparr>, mc_attempts := attempts\<rparr>"

text \<open>Whose step it is: a render's, an attempt's or the clock's. What a process says and the engine answers are given.\<close>

datatype mover = Render nat | Respawn | Clock

inductive auto_step :: "(nat \<Rightarrow> nat \<Rightarrow> (jhs_error, 'r) result \<Rightarrow> bool) \<Rightarrow> (nat \<Rightarrow> (jhs_error, 'r) result) \<Rightarrow> 'r machine \<Rightarrow> mover \<Rightarrow> 'r machine \<Rightarrow> bool"
  for said boa where
  tick: "mc_now m \<le> now \<Longrightarrow> auto_step said boa m Clock (m\<lparr>mc_now := now\<rparr>)"
| arrive: "mc_renders m t = None \<Longrightarrow> auto_step said boa m (Render t) (m\<lparr>mc_renders := (mc_renders m)(t \<mapsto> Enter 2)\<rparr>)"
| enter: "mc_renders m t = Some (Enter k) \<Longrightarrow> enter_round (mc_now m) k (mc_auto m) = (au, st) \<Longrightarrow>
    auto_step said boa m (Render t) (moved t (au, st, False) m)"
| called: "mc_renders m t = Some (Calling k p) \<Longrightarrow> said t p r \<Longrightarrow>
    auto_step said boa m (Render t) (moved t (after_call (mc_now m) r (mc_auto m)) m)"
| probed: "mc_renders m t = Some (Probing k p) \<Longrightarrow>
    auto_step said boa m (Render t) (moved t (after_probe (mc_now m) k alive (mc_auto m)) m)"
| fallback: "mc_renders m t = Some On_Boa \<Longrightarrow>
    auto_step said boa m (Render t) (m\<lparr>mc_renders := (mc_renders m)(t \<mapsto> Answered (boa t))\<rparr>)"
| up: "mc_attempts m = xs @ Attempting # ys \<Longrightarrow>
    auto_step said boa m Respawn ((supervised (respawn_reset (mc_now m)) (xs @ Got (mc_started m) # ys) m)\<lparr>mc_started := mc_started m + 1\<rparr>)"
| down: "mc_attempts m = xs @ Attempting # ys \<Longrightarrow> auto_step said boa m Respawn (supervised respawn_failed (xs @ Finishing # ys) m)"
| swap: "mc_attempts m = xs @ Got p # ys \<Longrightarrow> auto_step said boa m Respawn (supervised (respawn_swap p) (xs @ Swapped # ys) m)"
| bump: "mc_attempts m = xs @ Swapped # ys \<Longrightarrow> auto_step said boa m Respawn (supervised respawn_bump (xs @ Finishing # ys) m)"
| release: "mc_attempts m = xs @ Finishing # ys \<Longrightarrow> auto_step said boa m Respawn (supervised respawn_release (xs @ ys) m)"

inductive auto_run :: "(nat \<Rightarrow> nat \<Rightarrow> (jhs_error, 'r) result \<Rightarrow> bool) \<Rightarrow> (nat \<Rightarrow> (jhs_error, 'r) result) \<Rightarrow> 'r machine \<Rightarrow> mover list \<Rightarrow> 'r machine \<Rightarrow> bool"
  for said boa where
  stays: "auto_run said boa m [] m"
| goes_on: "auto_run said boa m ls m' \<Longrightarrow> auto_step said boa m' l m'' \<Longrightarrow> auto_run said boa m (ls @ [l]) m''"

inductive_cases auto_step_cases: "auto_step said boa m l m'"

section \<open>What the automatic backend answers\<close>

text \<open>The process that serves is the newest that was started, but for the moment before it is swapped in.\<close>

fun newest :: "attempt list \<Rightarrow> nat \<Rightarrow> nat \<Rightarrow> nat \<Rightarrow> bool" where
  "newest [] started serving generation \<longleftrightarrow> started = serving + 1 \<and> generation = started"
| "newest [Got p] started serving generation \<longleftrightarrow> started = p + 1 \<and> serving < p \<and> generation + 1 = started"
| "newest [Swapped] started serving generation \<longleftrightarrow> started = serving + 1 \<and> generation + 1 = started"
| "newest [_] started serving generation \<longleftrightarrow> started = serving + 1 \<and> generation = started"
| "newest _ started serving generation \<longleftrightarrow> False"

definition transport_failed :: "(jhs_error, 'r) result \<Rightarrow> bool" where
  "transport_failed r \<longleftrightarrow> (\<exists>message. r = Inl (Sidecar message))"

fun stage_ok :: "(nat \<Rightarrow> nat \<Rightarrow> (jhs_error, 'r) result \<Rightarrow> bool) \<Rightarrow> (nat \<Rightarrow> (jhs_error, 'r) result) \<Rightarrow> nat \<Rightarrow> nat \<Rightarrow> 'r stage \<Rightarrow> bool" where
  "stage_ok said boa started t (Calling k p) \<longleftrightarrow> p < started"
| "stage_ok said boa started t (Probing k p) \<longleftrightarrow> p < started"
| "stage_ok said boa started t (Answered r) \<longleftrightarrow> r = boa t \<or> (\<exists>p < started. said t p r \<and> \<not> transport_failed r)"
| "stage_ok said boa started t _ \<longleftrightarrow> True"

definition machine_ok :: "(nat \<Rightarrow> nat \<Rightarrow> (jhs_error, 'r) result \<Rightarrow> bool) \<Rightarrow> (nat \<Rightarrow> (jhs_error, 'r) result) \<Rightarrow> 'r machine \<Rightarrow> bool" where
  "machine_ok said boa m \<longleftrightarrow>
     (let sv = au_sidecar (mc_auto m) in
      (sv_respawning sv \<longleftrightarrow> mc_attempts m \<noteq> []) \<and> newest (mc_attempts m) (mc_started m) (sv_current sv) (sv_generation sv) \<and>
      (\<forall>t st. mc_renders m t = Some st \<longrightarrow> stage_ok said boa (mc_started m) t st))"

lemma newest_serving: "newest attempts started serving generation \<Longrightarrow> serving < started"
  by (induction attempts started serving generation rule: newest.induct) auto

lemma newest_single: "newest (xs @ a # ys) started serving generation \<Longrightarrow> xs = [] \<and> ys = []"
  by (cases xs; cases ys; cases a) (auto elim: newest.elims)

lemma stage_ok_later: "stage_ok said boa started t st \<Longrightarrow> started \<le> started' \<Longrightarrow> stage_ok said boa started' t st"
  by (cases st) (auto intro: less_le_trans)

text \<open>What a move of a render keeps of the supervisor.\<close>

definition asked :: "supervisor \<Rightarrow> supervisor \<Rightarrow> bool \<Rightarrow> bool" where
  "asked sv sv' started \<longleftrightarrow> sv_current sv' = sv_current sv \<and> sv_generation sv' = sv_generation sv \<and>
     (if started then \<not> sv_respawning sv \<and> sv_respawning sv' else sv' = sv)"

lemma enter_round_ok:
  assumes "enter_round now k au = (au', st)" "sv_current (au_sidecar au) < started"
  shows "au_sidecar au' = au_sidecar au \<and> stage_ok said boa started t st"
  using assms by (auto simp: enter_round_def Let_def split: if_splits)

lemma request_respawn_asked: "request_respawn now sv = (sv', started) \<Longrightarrow> asked sv sv' started"
  by (auto simp: request_respawn_def asked_def split: if_splits)

lemma after_call_ok:
  assumes "after_call now r au = (au', st, started)" "said t p r" "p < processes"
  shows "asked (au_sidecar au) (au_sidecar au') started \<and> stage_ok said boa processes t st"
proof (cases "transport_failed r")
  case True
  then obtain message where r: "r = Inl (Sidecar message)" by (auto simp: transport_failed_def)
  obtain sv s where sv: "request_respawn now (au_sidecar au) = (sv, s)" by (cases "request_respawn now (au_sidecar au)")
  with assms(1) r have "au_sidecar au' = sv" "st = On_Boa" "started = s" by (auto simp: after_call_def)
  with request_respawn_asked [OF sv] show ?thesis by simp
next
  case False
  then have "after_call now r au = (au, Answered r, False)"
    by (cases r; cases "projl r") (simp_all add: after_call_def transport_failed_def)
  with assms False show ?thesis by (auto simp: asked_def)
qed

lemma after_probe_ok:
  assumes "after_probe now k alive au = (au', st, started)"
  shows "asked (au_sidecar au) (au_sidecar au') started \<and> stage_ok said boa processes t st"
proof (cases alive)
  case False
  obtain sv s where sv: "request_respawn now (au_sidecar au) = (sv, s)" by (cases "request_respawn now (au_sidecar au)")
  with assms False have "au_sidecar au' = sv" "st = On_Boa" "started = s" by (auto simp: after_probe_def)
  with request_respawn_asked [OF sv] show ?thesis by simp
qed (use assms in \<open>auto simp: after_probe_def asked_def\<close>)

lemma machine_okI:
  assumes "sv_respawning (au_sidecar (mc_auto m)) \<longleftrightarrow> mc_attempts m \<noteq> []"
    "newest (mc_attempts m) (mc_started m) (sv_current (au_sidecar (mc_auto m))) (sv_generation (au_sidecar (mc_auto m)))"
    "\<And>t st. mc_renders m t = Some st \<Longrightarrow> stage_ok said boa (mc_started m) t st"
  shows "machine_ok said boa m"
  using assms by (simp add: machine_ok_def)

lemma machine_okD:
  assumes "machine_ok said boa m"
  shows "sv_respawning (au_sidecar (mc_auto m)) \<longleftrightarrow> mc_attempts m \<noteq> []"
    "newest (mc_attempts m) (mc_started m) (sv_current (au_sidecar (mc_auto m))) (sv_generation (au_sidecar (mc_auto m)))"
    "mc_renders m t = Some st \<Longrightarrow> stage_ok said boa (mc_started m) t st"
  using assms by (simp_all add: machine_ok_def Let_def)

lemma moved_ok:
  assumes "machine_ok said boa m" "asked (au_sidecar (mc_auto m)) (au_sidecar au') started \<and> stage_ok said boa (mc_started m) t st"
  shows "machine_ok said boa (moved t (au', st, started) m)"
proof (rule machine_okI)
  note ok = machine_okD [OF assms(1)]
  let ?m = "moved t (au', st, started) m"
  show "sv_respawning (au_sidecar (mc_auto ?m)) \<longleftrightarrow> mc_attempts ?m \<noteq> []"
    using assms(2) ok(1) by (cases started) (simp_all add: moved_def asked_def)
  show "newest (mc_attempts ?m) (mc_started ?m) (sv_current (au_sidecar (mc_auto ?m))) (sv_generation (au_sidecar (mc_auto ?m)))"
    using assms(2) ok(1,2) by (cases started) (simp_all add: moved_def asked_def)
  show "stage_ok said boa (mc_started ?m) u st'" if "mc_renders ?m u = Some st'" for u st'
    using that assms(2) ok(3) by (auto simp: moved_def split: if_splits)
qed

lemma attempt_ok:
  assumes "machine_ok said boa m" "mc_started m \<le> started"
    "newest attempts started (sv_current (f (au_sidecar (mc_auto m)))) (sv_generation (f (au_sidecar (mc_auto m))))"
    "sv_respawning (f (au_sidecar (mc_auto m))) \<longleftrightarrow> attempts \<noteq> []"
  shows "machine_ok said boa ((supervised f attempts m)\<lparr>mc_started := started\<rparr>)"
proof (rule machine_okI)
  let ?m = "(supervised f attempts m)\<lparr>mc_started := started\<rparr>"
  show "stage_ok said boa (mc_started ?m) t st" if "mc_renders ?m t = Some st" for t st
    using stage_ok_later [OF machine_okD(3) [OF assms(1)] assms(2)] that by (simp add: supervised_def)
qed (use assms(3,4) in \<open>simp_all add: supervised_def\<close>)

lemma supervised_started: "supervised f attempts m = (supervised f attempts m)\<lparr>mc_started := mc_started m\<rparr>"
  by (simp add: supervised_def)

text \<open>An attempt that is under way is the only one.\<close>

lemma attempt_alone:
  assumes "machine_ok said boa m" "mc_attempts m = xs @ a # ys"
  shows "xs = [] \<and> ys = [] \<and> newest [a] (mc_started m) (sv_current (au_sidecar (mc_auto m))) (sv_generation (au_sidecar (mc_auto m))) \<and>
    sv_respawning (au_sidecar (mc_auto m))"
proof -
  note ok = machine_okD(1,2) [OF assms(1)]
  with assms(2) newest_single have "xs = [] \<and> ys = []" by metis
  with ok assms(2) show ?thesis by simp
qed

lemma auto_step_ok:
  assumes "auto_step said boa m l m'" "machine_ok said boa m"
  shows "machine_ok said boa m'"
  using assms(1)
proof cases
  case (tick now)
  show ?thesis unfolding tick(2) by (rule machine_okI) (use machine_okD [OF assms(2)] in simp_all)
next
  case (arrive t)
  show ?thesis unfolding arrive(2) by (rule machine_okI) (use machine_okD [OF assms(2)] in \<open>auto split: if_splits\<close>)
next
  case (fallback t)
  show ?thesis unfolding fallback(2) by (rule machine_okI) (use machine_okD [OF assms(2)] in \<open>auto split: if_splits\<close>)
next
  case (enter t k au st)
  from enter_round_ok [OF enter(4) newest_serving [OF machine_okD(2) [OF assms(2)]]] show ?thesis
    unfolding enter(2) by (intro moved_ok [OF assms(2)]) (simp add: asked_def)
next
  case (called t k p r)
  obtain au st started where out: "after_call (mc_now m) r (mc_auto m) = (au, st, started)" by (cases "after_call (mc_now m) r (mc_auto m)")
  have p: "p < mc_started m" using machine_okD(3) [OF assms(2) called(3)] by simp
  show ?thesis unfolding called(2) out by (rule moved_ok [OF assms(2) after_call_ok [where said = said and p = p, OF out called(4) p]])
next
  case (probed t k p alive)
  obtain au st started where out: "after_probe (mc_now m) k alive (mc_auto m) = (au, st :: 'a stage, started)"
    by (cases "after_probe (mc_now m) k alive (mc_auto m) :: auto_renderer \<times> 'a stage \<times> bool")
  show ?thesis unfolding probed(2) out by (rule moved_ok [OF assms(2) after_probe_ok [OF out]])
next
  case (up xs ys)
  from attempt_alone [OF assms(2) up(3)] show ?thesis unfolding up(2)
    by (intro attempt_ok [OF assms(2)]) (simp_all add: respawn_reset_def)
next
  case (down xs ys)
  from attempt_alone [OF assms(2) down(3)] show ?thesis unfolding down(2)
    by (subst supervised_started, intro attempt_ok [OF assms(2)]) (simp_all add: respawn_failed_def)
next
  case (swap xs p ys)
  from attempt_alone [OF assms(2) swap(3)] show ?thesis unfolding swap(2)
    by (subst supervised_started, intro attempt_ok [OF assms(2)]) (simp_all add: respawn_swap_def)
next
  case (bump xs ys)
  from attempt_alone [OF assms(2) bump(3)] show ?thesis unfolding bump(2)
    by (subst supervised_started, intro attempt_ok [OF assms(2)]) (simp_all add: respawn_bump_def)
next
  case (release xs ys)
  from attempt_alone [OF assms(2) release(3)] show ?thesis unfolding release(2)
    by (subst supervised_started, intro attempt_ok [OF assms(2)]) (simp_all add: respawn_release_def)
qed

lemma auto_run_ok: "auto_run said boa m ls m' \<Longrightarrow> machine_ok said boa m \<Longrightarrow> machine_ok said boa m'"
  by (induction rule: auto_run.induct) (auto intro: auto_step_ok)

lemma first_machine_ok: "machine_ok said boa (first_machine now)"
  by (simp add: machine_ok_def first_machine_def new_auto_def new_supervisor_def Let_def)

lemma newest_length: "newest attempts started serving generation \<Longrightarrow> length attempts \<le> 1"
  by (induction attempts started serving generation rule: newest.induct) auto

lemma newest_serves:
  "newest attempts started serving generation \<Longrightarrow> (\<forall>p. attempts \<noteq> [Got p]) \<Longrightarrow> started = serving + 1"
  by (induction attempts started serving generation rule: newest.induct) auto

text \<open>
  C33: However renders, respawns and failures of processes interleave, at most one attempt to respawn is
  under way, the process that serves is the newest that came up, but for the moment before it is swapped in, and
  every answer of the automatic backend is the engine's or what a process said of the template: a
  failure of the transport never reaches the client.
\<close>

theorem auto_backend_answers:
  assumes "auto_run said boa (first_machine now) ls m"
  shows "length (mc_attempts m) \<le> 1 \<and> (sv_respawning (au_sidecar (mc_auto m)) \<longleftrightarrow> mc_attempts m \<noteq> []) \<and>
    ((\<forall>p. mc_attempts m \<noteq> [Got p]) \<longrightarrow> mc_started m = sv_current (au_sidecar (mc_auto m)) + 1) \<and>
    (\<forall>t r. mc_renders m t = Some (Answered r) \<longrightarrow> r = boa t \<or> (\<exists>p < mc_started m. said t p r \<and> \<not> transport_failed r))"
proof -
  note ok = machine_okD [OF auto_run_ok [OF assms first_machine_ok]]
  have "r = boa t \<or> (\<exists>p < mc_started m. said t p r \<and> \<not> transport_failed r)" if "mc_renders m t = Some (Answered r)" for t r
    using ok(3) [OF that] by simp
  then show ?thesis using ok(1) newest_length [OF ok(2)] newest_serves [OF ok(2)] by blast
qed

section \<open>Every render is answered\<close>

fun weight :: "'r stage option \<Rightarrow> nat" where
  "weight None = 7"
| "weight (Some (Enter k)) = 2 * k + 2"
| "weight (Some (Probing k p)) = 2 * (k - 1) + 3"
| "weight (Some (Calling k p)) = 2"
| "weight (Some On_Boa) = 1"
| "weight (Some (Answered r)) = 0"

lemma enter_round_weight: "enter_round now k au = (au', st) \<Longrightarrow> weight (Some st) < 2 * k + 2"
  by (cases k) (auto simp: enter_round_def Let_def split: if_splits)

lemma after_call_weight: "after_call now r au = (au', st, started) \<Longrightarrow> weight (Some st) < 2"
  by (auto simp: after_call_def split: sum.splits jhs_error.splits prod.splits)

lemma after_probe_weight: "after_probe now k alive au = (au', st, started) \<Longrightarrow> weight (Some st) < 2 * (k - 1) + 3"
  by (auto simp: after_probe_def split: prod.splits if_splits)

lemma moved_render: "mc_renders (moved t (au, st, started) m) = (mc_renders m)(t \<mapsto> st)"
  by (simp add: moved_def)

lemma auto_step_weight:
  assumes "auto_step said boa m l m'"
  shows "(if l = Render t then 1 else 0) + weight (mc_renders m' t) \<le> weight (mc_renders m t)"
  using assms
proof cases
  case (enter u k au st)
  with enter_round_weight [OF enter(4)] show ?thesis by (auto simp: moved_render)
next
  case (called u k p r)
  obtain au st started where out: "after_call (mc_now m) r (mc_auto m) = (au, st, started)" by (cases "after_call (mc_now m) r (mc_auto m)")
  with called after_call_weight [OF out] show ?thesis by (auto simp: moved_render)
next
  case (probed u k p alive)
  obtain au st started where out: "after_probe (mc_now m) k alive (mc_auto m) = (au, st :: 'a stage, started)"
    by (cases "after_probe (mc_now m) k alive (mc_auto m) :: auto_renderer \<times> 'a stage \<times> bool")
  with probed after_probe_weight [OF out] show ?thesis by (auto simp: moved_render)
qed (auto simp: supervised_def)

lemma auto_step_possible:
  assumes "\<forall>p. \<exists>r. said t p r" "\<forall>r. mc_renders m t \<noteq> Some (Answered r)"
  shows "\<exists>m'. auto_step said boa m (Render t) m'"
proof (cases "mc_renders m t")
  case None
  then show ?thesis by (blast intro: auto_step.arrive)
next
  case (Some st)
  show ?thesis
  proof (cases st)
    case (Enter k)
    obtain au st' where "enter_round (mc_now m) k (mc_auto m) = (au, st' :: 'a stage)" by (cases "enter_round (mc_now m) k (mc_auto m) :: auto_renderer \<times> 'a stage")
    with Some Enter show ?thesis by (blast intro: auto_step.enter)
  next
    case (Calling k p)
    with Some assms(1) show ?thesis by (blast intro: auto_step.called)
  next
    case (Probing k p)
    with Some show ?thesis by (blast intro: auto_step.probed)
  next
    case On_Boa
    with Some show ?thesis by (blast intro: auto_step.fallback)
  next
    case (Answered r)
    with Some assms(2) show ?thesis by simp
  qed
qed

lemma auto_run_weight: "auto_run said boa m ls m' \<Longrightarrow> count_list ls (Render t) + weight (mc_renders m' t) \<le> weight (mc_renders m t)"
proof (induction rule: auto_run.induct)
  case (goes_on m ls m' l m'')
  from auto_step_weight [OF goes_on.hyps(2), of t] goes_on.IH show ?case by (cases "l = Render t") auto
qed simp

text \<open>
  C34: A render of the automatic backend comes to its answer: whatever other renders, attempts and the
  clock do in between, it takes at most seven steps of its own, and until it is answered it can take the
  next one, provided that a call of a process comes back with something.
\<close>

theorem renders_are_answered:
  assumes "auto_run said boa (first_machine now) ls m" "\<forall>p. \<exists>r. said t p r"
  shows "count_list ls (Render t) \<le> 7 \<and>
    ((\<exists>r. mc_renders m t = Some (Answered r)) \<or> (\<exists>m'. auto_step said boa m (Render t) m'))"
proof -
  have "count_list ls (Render t) + weight (mc_renders m t) \<le> 7"
    using auto_run_weight [OF assms(1), of t] by (simp add: first_machine_def)
  then show ?thesis using auto_step_possible [of said t m boa] assms(2) by fastforce
qed

section \<open>Attempts back off\<close>

datatype sup_event = Asked | Came_Up nat | Came_Down string

text \<open>When attempts are started, while requests and ends of attempts come in at their times.\<close>

fun attempt_starts :: "supervisor \<Rightarrow> (int \<times> sup_event) list \<Rightarrow> int list" where
  "attempt_starts sv [] = []"
| "attempt_starts sv ((now, Asked) # es) =
     (let (sv', started) = request_respawn now sv in (if started then [now] else []) @ attempt_starts sv' es)"
| "attempt_starts sv ((now, Came_Up p) # es) =
     (if sv_respawning sv then attempt_starts (respawn_once now (Inr p) sv) es else attempt_starts sv es)"
| "attempt_starts sv ((now, Came_Down e) # es) =
     (if sv_respawning sv then attempt_starts (respawn_once now (Inl e) sv) es else attempt_starts sv es)"

text \<open>Starts of which each waits for the backoff of the failures before it.\<close>

fun spaced :: "nat \<Rightarrow> int \<Rightarrow> int list \<Rightarrow> bool" where
  "spaced k due [] \<longleftrightarrow> True"
| "spaced k due (now # rest) \<longleftrightarrow> due \<le> now \<and> spaced (k + 1) (now + respawn_backoff k) rest"

lemma attempts_spaced:
  assumes "\<forall>(now, e) \<in> set es. \<forall>p. e \<noteq> Came_Up p"
  shows "spaced (if sv_respawning sv then sv_failures sv + 1 else sv_failures sv) (sv_next_attempt sv) (attempt_starts sv es)"
  using assms
proof (induction sv es rule: attempt_starts.induct)
  case (2 sv now es)
  obtain sv' started where r: "request_respawn now sv = (sv', started)" by (cases "request_respawn now sv")
  from 2(1) [OF r [symmetric] refl] 2(2) have "spaced (if sv_respawning sv' then sv_failures sv' + 1 else sv_failures sv') (sv_next_attempt sv') (attempt_starts sv' es)"
    by simp
  with r show ?case by (auto simp: request_respawn_def split: if_splits)
next
  case (4 sv now e es)
  then show ?case by (cases "sv_respawning sv") (auto simp: respawn_once_def respawn_failed_def respawn_release_def)
qed auto

lemma spaced_nth: "spaced k due ts \<Longrightarrow> Suc i < length ts \<Longrightarrow> ts ! i + respawn_backoff (k + i) \<le> ts ! Suc i"
proof (induction k due ts arbitrary: i rule: spaced.induct)
  case (2 k due now rest)
  show ?case
  proof (cases i)
    case 0
    with 2 show ?thesis by (cases rest) auto
  next
    case (Suc j)
    with 2 show ?thesis by simp
  qed
qed simp

text \<open>
  C35: A process that does not come up is not started again and again: between two attempts that follow
  failures lie ten seconds, then twice as many each time, up to five minutes, however often renders ask.
\<close>

theorem attempts_back_off:
  assumes "\<forall>(now, e) \<in> set es. \<forall>p. e \<noteq> Came_Up p" "Suc i < length (attempt_starts (new_supervisor now process) es)"
  shows "attempt_starts (new_supervisor now process) es ! i + min (10 * 2 ^ min i 5) 300 \<le> attempt_starts (new_supervisor now process) es ! Suc i"
  using spaced_nth [OF attempts_spaced [OF assms(1)] assms(2)]
  by (simp add: new_supervisor_def respawn_backoff_def respawn_backoff_base_def respawn_max_backoff_def)

lemma attempts_back_off_witness:
  "attempt_starts (new_supervisor 0 0) [(1, Asked), (2, Came_Down ''e''), (5, Asked), (12, Asked)] = [1, 12] \<and> (1::int) + 10 \<le> 12"
  using attempts_back_off [of "[(1, Asked), (2, Came_Down ''e''), (5, Asked), (12, Asked)]" 0 0 0]
  by (simp add: new_supervisor_def request_respawn_def respawn_once_def respawn_failed_def respawn_release_def respawn_backoff_def
      respawn_backoff_base_def respawn_max_backoff_def)

section \<open>A late failure\<close>

text \<open>
  A call of the old process that fails after the new one took over marks the new one unhealthy and starts
  another attempt at once, although the new process answers everything.
\<close>

definition new_one_works :: "nat \<Rightarrow> nat \<Rightarrow> (jhs_error, string) result \<Rightarrow> bool" where
  "new_one_works t p r \<longleftrightarrow> (if p = 0 then r = Inl (Sidecar ''dead'') else r = Inr ''page'')"

definition late_machine :: "nat \<Rightarrow> nat \<Rightarrow> bool \<Rightarrow> int \<Rightarrow> bool \<Rightarrow> nat \<Rightarrow> attempt list \<Rightarrow> nat \<Rightarrow> (nat \<Rightarrow> string stage option) \<Rightarrow> string machine" where
  "late_machine serving generation respawning due healthy seen attempts started renders =
     \<lparr>mc_auto = \<lparr>au_sidecar = \<lparr>sv_current = serving, sv_generation = generation, sv_respawning = respawning, sv_failures = 0, sv_next_attempt = due\<rparr>,
        au_healthy = healthy, au_last_probe = -10, au_last_generation = seen\<rparr>,
      mc_attempts = attempts, mc_started = started, mc_now = 0, mc_renders = renders\<rparr>"

lemma run_further: "\<exists>ls. auto_run said boa m ls m' \<Longrightarrow> auto_step said boa m' l m'' \<Longrightarrow> m'' = m3 \<Longrightarrow> \<exists>ls. auto_run said boa m ls m3"
  by (blast intro: auto_run.goes_on)

lemma late_failure_starts_another:
  "\<exists>ls m. auto_run new_one_works boa (first_machine 0) ls m \<and> mc_renders m 1 = Some (Answered (Inr ''page'')) \<and>
    sv_current (au_sidecar (mc_auto m)) = 1 \<and> \<not> au_healthy (mc_auto m) \<and> mc_attempts m = [Attempting]"
proof -
  let ?run = "\<lambda>m. \<exists>ls. auto_run new_one_works boa (first_machine 0) ls m"
  let ?r = "\<lambda>a b c :: string stage option. (\<lambda>_. None)(0 := a, 1 := b, 2 := c)"
  have ext: "(\<lambda>_. None)(0 := a, 1 := b, 2 := c) = (\<lambda>_. None)(0 := a', 1 := b', 2 := c')" if "a = a'" "b = b'" "c = c'" for a b c a' b' c' :: "string stage option"
    using that by simp
  note sim = late_machine_def moved_def supervised_def enter_round_def after_call_def request_respawn_def respawn_backoff_def
    respawn_backoff_base_def respawn_max_backoff_def new_one_works_def respawn_reset_def respawn_swap_def respawn_bump_def respawn_release_def fun_eq_iff
  have "?run (late_machine 0 1 False (-10) True 1 [] 1 (?r None None None))"
    using auto_run.stays [of new_one_works boa "first_machine 0"]
    by (intro exI [of _ "[]"]) (simp add: first_machine_def new_auto_def new_supervisor_def late_machine_def respawn_backoff_base_def probe_cooldown_def)
  then have "?run (late_machine 0 1 False (-10) True 1 [] 1 (?r (Some (Enter 2)) None None))"
    by (rule run_further [OF _ auto_step.arrive [of _ 0]]) (simp_all add: sim)
  then have "?run (late_machine 0 1 False (-10) True 1 [] 1 (?r (Some (Calling 2 0)) None None))"
    by (rule run_further [OF _ auto_step.enter [of _ 0 2]]) (simp_all add: sim)
  then have "?run (late_machine 0 1 False (-10) True 1 [] 1 (?r (Some (Calling 2 0)) None (Some (Enter 2))))"
    by (rule run_further [OF _ auto_step.arrive [of _ 2]]) (simp_all add: sim)
  then have "?run (late_machine 0 1 False (-10) True 1 [] 1 (?r (Some (Calling 2 0)) None (Some (Calling 2 0))))"
    by (rule run_further [OF _ auto_step.enter [of _ 2 2]]) (simp_all add: sim)
  then have "?run (late_machine 0 1 True 10 False 1 [Attempting] 1 (?r (Some (Calling 2 0)) None (Some On_Boa)))"
    by (rule run_further [OF _ auto_step.called [of _ 2 2 0 _ "Inl (Sidecar ''dead'')"]]) (simp_all add: sim)
  then have "?run (late_machine 0 1 True 0 False 1 [Got 1] 2 (?r (Some (Calling 2 0)) None (Some On_Boa)))"
    by (rule run_further [OF _ auto_step.up [of _ "[]" "[]"]]) (simp_all add: sim)
  then have "?run (late_machine 1 1 True 0 False 1 [Swapped] 2 (?r (Some (Calling 2 0)) None (Some On_Boa)))"
    by (rule run_further [OF _ auto_step.swap [of _ "[]" 1 "[]"]]) (simp_all add: sim)
  then have "?run (late_machine 1 2 True 0 False 1 [Finishing] 2 (?r (Some (Calling 2 0)) None (Some On_Boa)))"
    by (rule run_further [OF _ auto_step.bump [of _ "[]" "[]"]]) (simp_all add: sim)
  then have "?run (late_machine 1 2 False 0 False 1 [] 2 (?r (Some (Calling 2 0)) None (Some On_Boa)))"
    by (rule run_further [OF _ auto_step.release [of _ "[]" "[]"]]) (simp_all add: sim)
  then have "?run (late_machine 1 2 False 0 False 1 [] 2 (?r (Some (Calling 2 0)) (Some (Enter 2)) (Some On_Boa)))"
    by (rule run_further [OF _ auto_step.arrive [of _ 1]]) (simp_all add: sim)
  then have "?run (late_machine 1 2 False 0 True 2 [] 2 (?r (Some (Calling 2 0)) (Some (Calling 2 1)) (Some On_Boa)))"
    by (rule run_further [OF _ auto_step.enter [of _ 1 2]]) (simp_all add: sim)
  then have "?run (late_machine 1 2 False 0 True 2 [] 2 (?r (Some (Calling 2 0)) (Some (Answered (Inr ''page''))) (Some On_Boa)))"
    by (rule run_further [OF _ auto_step.called [of _ 1 2 1 _ "Inr ''page''"]]) (simp_all add: sim)
  then have "?run (late_machine 1 2 True 10 False 2 [Attempting] 2 (?r (Some On_Boa) (Some (Answered (Inr ''page''))) (Some On_Boa)))"
    by (rule run_further [OF _ auto_step.called [of _ 0 2 0 _ "Inl (Sidecar ''dead'')"]]) (simp_all add: sim)
  moreover have "mc_renders m 1 = Some (Answered (Inr ''page'')) \<and> sv_current (au_sidecar (mc_auto m)) = 1 \<and> \<not> au_healthy (mc_auto m) \<and>
      mc_attempts m = [Attempting]"
    if "m = late_machine 1 2 True 10 False 2 [Attempting] 2 (?r (Some On_Boa) (Some (Answered (Inr ''page''))) (Some On_Boa))" for m
    unfolding that by (simp add: late_machine_def)
  ultimately show ?thesis by blast
qed

lemma auto_backend_answers_witness:
  "\<exists>ls m. auto_run new_one_works (\<lambda>_. Inr ''engine'') (first_machine 0) ls m \<and> mc_renders m 1 = Some (Answered (Inr ''page'')) \<and>
    length (mc_attempts m) \<le> 1 \<and> \<not> transport_failed (Inr ''page'' :: (jhs_error, string) result)"
proof -
  obtain ls m where run: "auto_run new_one_works (\<lambda>_. Inr ''engine'') (first_machine 0) ls m" "mc_renders m 1 = Some (Answered (Inr ''page''))"
    using late_failure_starts_another [of "\<lambda>_. Inr ''engine''"] by blast
  from auto_backend_answers [OF run(1)] run show ?thesis by (fastforce simp: transport_failed_def)
qed

lemma renders_are_answered_witness:
  "\<exists>ls m. auto_run new_one_works (\<lambda>_. Inr ''engine'') (first_machine 0) ls m \<and> mc_renders m 1 = Some (Answered (Inr ''page'')) \<and>
    count_list ls (Render 1) \<le> 7"
proof -
  obtain ls m where run: "auto_run new_one_works (\<lambda>_. Inr ''engine'') (first_machine 0) ls m" "mc_renders m 1 = Some (Answered (Inr ''page''))"
    using late_failure_starts_another [of "\<lambda>_. Inr ''engine''"] by blast
  have "\<exists>r. new_one_works 1 p r" for p by (cases "p = 0") (simp_all add: new_one_works_def)
  then have "\<forall>p. \<exists>r. new_one_works 1 p r" ..
  from renders_are_answered [OF run(1) this] run show ?thesis by blast
qed

lemma portions_do_not_matter_witness:
  "read_json_response id Inr [Bytes ''a'', Interrupted, Bytes ''b''] = read_json_response id Inr [Bytes ''ab'']"
  using portions_do_not_matter [of "[Bytes ''a'', Interrupted, Bytes ''b'']" "''ab''" id Inr] by (simp add: response_limit_def)

end
