(* ===== verification/Floats.thy ===== *)
theory Floats
  imports Rust_Text Complex_Main
begin

text \<open>
  \<open>str::parse\<close> for floating-point numbers, as the quality of a media type and the value of a metric
  are read: the grammar of the standard library, with the value kept exact (the rounding to the
  width of the type is left out, and with it the overflow to infinity).
\<close>

datatype float_text = Not_A_Number | Infinite bool | Finite real

text \<open>Digits with an optional point, at least one digit, then an optional exponent.\<close>

definition parse_exponent :: "string \<Rightarrow> int option" where
  "parse_exponent s =
     (case s of
        [] \<Rightarrow> Some 0
      | c # t \<Rightarrow>
          if c \<noteq> CHR ''e'' \<and> c \<noteq> CHR ''E'' then None
          else (let ds = (case t of d # t' \<Rightarrow> if d = CHR ''+'' \<or> d = CHR ''-'' then t' else t | [] \<Rightarrow> []) in
                if ds = [] \<or> \<not> list_all is_digit ds then None
                else Some (if starts_with ''-'' t then - int (digits_val ds) else int (digits_val ds))))"

definition parse_magnitude :: "string \<Rightarrow> real option" where
  "parse_magnitude s =
     (let whole = takeWhile is_digit s;
          after = dropWhile is_digit s;
          pointed = starts_with ''.'' after;
          part = (if pointed then takeWhile is_digit (drop 1 after) else []);
          tail = (if pointed then dropWhile is_digit (drop 1 after) else after)
      in if whole = [] \<and> part = [] then None
         else map_option (\<lambda>e. real (digits_val (whole @ part)) * 10 powi (e - int (length part))) (parse_exponent tail))"

definition parse_float :: "string \<Rightarrow> float_text option" where
  "parse_float s =
     (let negated = starts_with ''-'' s;
          t = (if negated \<or> starts_with ''+'' s then drop 1 s else s);
          word = lowercase t
      in if word = ''nan'' then Some Not_A_Number
         else if word = ''inf'' \<or> word = ''infinity'' then Some (Infinite negated)
         else map_option (\<lambda>v. Finite (if negated then - v else v)) (parse_magnitude t))"

text \<open>The comparisons of IEEE numbers: nothing is above or below what is not a number.\<close>

definition float_greater :: "float_text \<Rightarrow> float_text \<Rightarrow> bool" where
  "float_greater x y =
     (case (x, y) of
        (Finite a, Finite b) \<Rightarrow> b < a
      | (Infinite n, Finite _) \<Rightarrow> \<not> n
      | (Finite _, Infinite n) \<Rightarrow> n
      | (Infinite m, Infinite n) \<Rightarrow> \<not> m \<and> n
      | _ \<Rightarrow> False)"

definition float_at_most_0 :: "float_text \<Rightarrow> bool" where
  "float_at_most_0 x = (case x of Finite a \<Rightarrow> a \<le> 0 | Infinite negated \<Rightarrow> negated | Not_A_Number \<Rightarrow> False)"

text \<open>A decimal number as counters print it reads as this number.\<close>

lemma parse_float_nat: "parse_float (show_nat n) = Some (Finite (real n))"
proof -
  have d: "list_all is_digit (show_nat n)" and ne: "show_nat n \<noteq> []" by (simp_all add: show_nat_digits show_nat_nonempty)
  obtain c cs where s: "show_nat n = c # cs" using ne by (cases "show_nat n") auto
  have c: "is_digit c" using d s by simp
  have low: "to_lower c = c" using c by (simp add: to_lower_def is_upper_def is_digit_def)
  have "c \<noteq> CHR ''-''" "c \<noteq> CHR ''+''" "c \<noteq> CHR ''n''" "c \<noteq> CHR ''i''" using c by (auto simp: is_digit_def code_def)
  have whole: "takeWhile is_digit (show_nat n) = show_nat n" using d by (simp add: takeWhile_eq_all_conv list_all_iff)
  have rest: "dropWhile is_digit (show_nat n) = []" using d by (simp add: dropWhile_eq_Nil_conv list_all_iff)
  have "parse_magnitude (show_nat n) = Some (real n)"
    unfolding parse_magnitude_def Let_def whole rest by (simp add: parse_exponent_def)
  with \<open>c \<noteq> CHR ''-''\<close> \<open>c \<noteq> CHR ''+''\<close> \<open>c \<noteq> CHR ''n''\<close> \<open>c \<noteq> CHR ''i''\<close> low show ?thesis
    by (simp add: s parse_float_def lowercase_def Let_def)
qed

end
