(* ===== verification/Middleware.thy ===== *)
theory Middleware
  imports Config Template_Globals Floats
begin

text \<open>
  The request pipeline: the layers of \<open>src/src/middleware\<close> but the template layer (which is
  \<open>Template_Dispatch\<close>), the order \<open>middleware::apply\<close> gives them, the widening of the policy in
  \<open>src/src/state.rs\<close>, and the shared error page of \<open>src/src/error.rs\<close>. A handler takes a request and
  the state the layers share, and gives the answer, the nanoseconds it took and the new state; a
  layer wraps a handler. The layers of tower-http (the preflight answers, the limit on the bytes of
  a body), the JSON codec, the routes and the template layer are parameters. The log records are
  left out.
\<close>

section \<open>Requests and answers\<close>

text \<open>Names of headers are lower case, as the \<open>http\<close> crate keeps them; the values of an answer are bytes.\<close>

record http_request =
  hq_method :: string
  hq_path :: string
  hq_target :: "string option"
  hq_headers :: "(string \<times> header_value) list"
  hq_peer :: "ip_addr option"
  hq_id :: "string option"
  hq_fresh_id :: string
  hq_instant :: nat
  hq_wall :: nat

text \<open>The body of an answer, or nothing when its stream fails.\<close>

record http_answer =
  ha_status :: nat
  ha_headers :: "(string \<times> string) list"
  ha_body :: "string option"

record shared_state =
  sh_limiter :: rate_limiter
  sh_requests :: nat
  sh_rate_limited :: nat
  sh_recorded :: "(string \<times> nat \<times> nat) list"

type_synonym handler = "http_request \<Rightarrow> shared_state \<Rightarrow> (http_answer \<times> nat) \<times> shared_state"

definition on_answer :: "(http_answer \<Rightarrow> http_answer) \<Rightarrow> (http_answer \<times> nat) \<times> shared_state \<Rightarrow> (http_answer \<times> nat) \<times> shared_state" where
  "on_answer f outcome = (case outcome of ((a, took), st) \<Rightarrow> ((f a, took), st))"

definition header_insert :: "string \<Rightarrow> string \<Rightarrow> (string \<times> string) list \<Rightarrow> (string \<times> string) list" where
  "header_insert name v headers = filter (\<lambda>h. fst h \<noteq> name) headers @ [(name, v)]"

definition header_append :: "string \<Rightarrow> string \<Rightarrow> (string \<times> string) list \<Rightarrow> (string \<times> string) list" where
  "header_append name v headers = headers @ [(name, v)]"

definition header_remove :: "string \<Rightarrow> (string \<times> string) list \<Rightarrow> (string \<times> string) list" where
  "header_remove name headers = filter (\<lambda>h. fst h \<noteq> name) headers"

text \<open>\<open>HeaderValue::to_str\<close>: printable ASCII and the tab.\<close>

definition header_text :: "string \<Rightarrow> string option" where
  "header_text v = (if list_all (\<lambda>c. (32 \<le> code c \<and> code c < 127) \<or> code c = 9) v then Some v else None)"

definition answer_header :: "string \<Rightarrow> http_answer \<Rightarrow> string option" where
  "answer_header name a = Option.bind (map_of (ha_headers a) name) header_text"

definition request_header :: "string \<Rightarrow> http_request \<Rightarrow> string option" where
  "request_header name rq = Option.bind (map_of (hq_headers rq) name) id"

definition header_values :: "string \<Rightarrow> http_request \<Rightarrow> header_value list" where
  "header_values name rq = map snd (filter (\<lambda>h. fst h = name) (hq_headers rq))"

definition forwarded_for_values :: "http_request \<Rightarrow> string list" where
  "forwarded_for_values rq = List.map_filter id (header_values ''x-forwarded-for'' rq)"

text \<open>What the layers take from the server; the bindings are those of the snapshot of the moment.\<close>

record layers =
  ly_config :: app_config
  ly_headers :: "(string \<times> string) list"
  ly_bindings :: "host_binding list"
  ly_trusted :: "cidr list"
  ly_metrics :: bool
  ly_encode :: "json \<Rightarrow> string"
  ly_decode :: "string \<Rightarrow> json option"

text \<open>The envelope of an error and the header that goes with it.\<close>

definition error_envelope :: "app_error \<Rightarrow> string option \<Rightarrow> json" where
  "error_envelope e request_id =
     J_Obj [(''error'', J_Obj [(''code'', J_Str (error_code e)), (''message'', J_Str (error_message e)),
       (''request_id'', case request_id of Some i \<Rightarrow> J_Str i | None \<Rightarrow> J_Null)])]"

definition error_answer :: "layers \<Rightarrow> app_error \<Rightarrow> string option \<Rightarrow> http_answer" where
  "error_answer ly e request_id =
     \<lparr>ha_status = status_code e,
      ha_headers = (''content-type'', ''application/json'') # (case e of RateLimited _ s \<Rightarrow> [(''retry-after'', show_nat s)] | _ \<Rightarrow> []),
      ha_body = Some (ly_encode ly (error_envelope e request_id))\<rparr>"

section \<open>The error page\<close>

definition replace_char :: "char \<Rightarrow> string \<Rightarrow> string \<Rightarrow> string" where
  "replace_char c new s = concat (map (\<lambda>x. if x = c then new else [x]) s)"

definition escape_html_text :: "string \<Rightarrow> string" where
  "escape_html_text s =
     replace_char (CHR 0x60) ''&#96;'' (replace_char (CHR ''/'') ''&#x2F;'' (replace_char (CHR 0x27) ''&#039;''
       (replace_char (CHR 0x22) ''&quot;'' (replace_char (CHR ''>'') ''&gt;'' (replace_char (CHR ''<'') ''&lt;''
         (replace_char (CHR ''&'') ''&amp;'' s))))))"

definition status_title :: "nat \<Rightarrow> string" where
  "status_title status =
     (if status = 400 then ''Bad request'' else if status = 401 then ''Sign-in required'' else if status = 403 then ''Access denied''
      else if status = 404 then ''Page not found'' else if status = 405 then ''Method not allowed'' else if status = 409 then ''Conflict''
      else if status = 408 then ''Request timeout'' else if status = 413 then ''Upload too large''
      else if status = 415 then ''Unsupported media type'' else if status = 429 then ''Slow down for a moment''
      else if status = 500 then ''Something went wrong'' else if status = 502 then ''Bad gateway''
      else if status = 503 then ''Service unavailable'' else if status = 504 then ''Gateway timeout'' else ''Request failed'')"

record error_page =
  ep_status :: nat
  ep_code :: string
  ep_message :: string
  ep_request_id :: "string option"
  ep_method :: "string option"
  ep_target :: "string option"
  ep_retry_after :: "nat option"
  ep_theme :: "string option"

text \<open>The text between its tags, an attribute between its quotes, the line break with its spaces, the dash.\<close>

definition attr :: "string \<Rightarrow> string \<Rightarrow> string" where
  "attr name v = '' '' @ name @ ''='' @ dquote @ v @ dquote"

definition line :: "nat \<Rightarrow> string" where
  "line spaces = CHR 0x0A # replicate spaces (CHR '' '')"

definition error_dash :: string where
  "error_dash = [CHR 0xE2, CHR 0x80, CHR 0x94]"

definition theme_attribute :: "string option \<Rightarrow> string" where
  "theme_attribute theme =
     (if theme = Some ''dark'' then attr ''data-theme'' ''dark'' else if theme = Some ''light'' then attr ''data-theme'' ''light'' else [])"

definition reload_delay :: "error_page \<Rightarrow> nat option" where
  "reload_delay p = (case ep_retry_after p of Some s \<Rightarrow> if ep_status p = 429 then Some (max 1 (min 5 s)) else None | None \<Rightarrow> None)"

definition meta_refresh :: "nat option \<Rightarrow> string" where
  "meta_refresh delay =
     (case delay of None \<Rightarrow> []
      | Some d \<Rightarrow> line 2 @ ''<meta'' @ attr ''http-equiv'' ''refresh'' @ attr ''content'' (show_nat d) @ ''>'')"

definition retry_note :: "nat option \<Rightarrow> string" where
  "retry_note delay =
     (case delay of None \<Rightarrow> []
      | Some d \<Rightarrow> line 4 @ ''<p'' @ attr ''class'' ''error-retry'' @ ''>This page reloads itself in '' @ show_nat d @ '' second''
          @ (if d = 1 then [] else ''s'') @ '' '' @ error_dash @ '' the request budget refills continuously.</p>'')"

definition error_link :: "string \<Rightarrow> string \<Rightarrow> string \<Rightarrow> string" where
  "error_link before href label = ''<a'' @ before @ attr ''href'' href @ ''>'' @ label @ ''</a>''"

definition page_actions :: "nat \<Rightarrow> string" where
  "page_actions status =
     (if status = 401
      then error_link (attr ''class'' ''primary'') ''/login'' ''Sign in'' @ line 6 @ error_link [] ''/'' ''Go to the homepage''
        @ line 6 @ error_link [] ''/p'' ''Published pages''
      else error_link (attr ''class'' ''primary'') ''/'' ''Go to the homepage'' @ line 6 @ error_link [] ''/p'' ''Published pages''
        @ line 6 @ error_link [] ''/admin'' ''CMS panel'')"

definition detail_row :: "string \<Rightarrow> string \<Rightarrow> string" where
  "detail_row name v = line 4 @ ''<dt>'' @ name @ ''</dt><dd>'' @ v @ ''</dd>''"

definition request_line :: "string option \<Rightarrow> string option \<Rightarrow> string" where
  "request_line meth target =
     (case (meth, target) of
        (Some m, Some t) \<Rightarrow> detail_row ''Request'' (m @ '' '' @ t)
      | (Some m, None) \<Rightarrow> detail_row ''Request'' m
      | (None, Some t) \<Rightarrow> detail_row ''Request'' t
      | (None, None) \<Rightarrow> [])"

definition error_head :: "nat \<Rightarrow> string \<Rightarrow> nat option \<Rightarrow> string" where
  "error_head status theme_attr delay =
     ''<!DOCTYPE html>'' @ line 0 @ ''<html'' @ attr ''lang'' ''en'' @ theme_attr @ ''>'' @ line 0 @ ''<head>''
     @ line 2 @ ''<meta'' @ attr ''charset'' ''utf-8'' @ ''>''
     @ line 2 @ ''<meta'' @ attr ''name'' ''viewport'' @ attr ''content'' ''width=device-width, initial-scale=1'' @ ''>''
     @ line 2 @ ''<meta'' @ attr ''name'' ''robots'' @ attr ''content'' ''noindex'' @ ''>''
     @ line 2 @ ''<title>'' @ show_nat status @ '' '' @ status_title status @ '' '' @ error_dash @ '' wallermax</title>''
     @ line 2 @ ''<link'' @ attr ''rel'' ''stylesheet'' @ attr ''href'' ''/assets/error.css'' @ ''>'' @ meta_refresh delay
     @ line 0 @ ''</head>''"

definition error_body :: "nat \<Rightarrow> string \<Rightarrow> string \<Rightarrow> string \<Rightarrow> string \<Rightarrow> nat option \<Rightarrow> string" where
  "error_body status err_code message request_row id_row delay =
     line 0 @ ''<body>'' @ line 2 @ ''<main'' @ attr ''class'' ''error-card'' @ attr ''role'' ''main'' @ ''>''
     @ line 4 @ ''<div'' @ attr ''class'' ''error-status'' @ ''>''
     @ line 6 @ ''<span'' @ attr ''class'' ''error-code'' @ ''>'' @ show_nat status @ ''</span>''
     @ line 6 @ ''<span'' @ attr ''class'' ''error-code-name'' @ ''>'' @ err_code @ ''</span>''
     @ line 4 @ ''</div>'' @ line 4 @ ''<h1>'' @ status_title status @ ''</h1>''
     @ line 4 @ ''<p'' @ attr ''class'' ''error-message'' @ ''>'' @ message @ ''</p>''
     @ line 4 @ ''<dl'' @ attr ''class'' ''error-detail'' @ ''>'' @ request_row @ id_row @ ''</dl>''
     @ line 4 @ ''<div'' @ attr ''class'' ''error-actions'' @ ''>'' @ line 6 @ page_actions status @ line 4 @ ''</div>'' @ retry_note delay
     @ line 4 @ ''<p'' @ attr ''class'' ''error-brand'' @ ''>wallermax-server '' @ error_dash @ '' served without a line of JavaScript.</p>''
     @ line 2 @ ''</main>'' @ line 0 @ ''</body>'' @ line 0 @ ''</html>'' @ line 0"

definition render_error_page :: "error_page \<Rightarrow> string" where
  "render_error_page p =
     error_head (ep_status p) (theme_attribute (ep_theme p)) (reload_delay p)
     @ error_body (ep_status p) (escape_html_text (ep_code p)) (escape_html_text (ep_message p))
         (request_line (map_option escape_html_text (ep_method p)) (map_option escape_html_text (ep_target p)))
         (case ep_request_id p of Some i \<Rightarrow> detail_row ''Request id'' (escape_html_text i) | None \<Rightarrow> []) (reload_delay p)"

section \<open>Content negotiation of errors\<close>

definition html_content_type :: string where "html_content_type = ''text/html; charset=utf-8''"
definition envelope_read_limit :: nat where "envelope_read_limit = 32 * 1024"

datatype media_kind = Kind_Html | Kind_Json

definition media_kind_of :: "string \<Rightarrow> media_kind option" where
  "media_kind_of media =
     (if media \<in> {''text/html'', ''application/xhtml+xml''} then Some Kind_Html
      else if media \<in> {''application/json'', ''text/json''} then Some Kind_Json else None)"

definition entry_quality :: "string list \<Rightarrow> float_text" where
  "entry_quality parameters =
     (case List.map_filter (\<lambda>p. strip_prefix ''q='' (trim p)) parameters of
        v # _ \<Rightarrow> (case parse_float v of Some q \<Rightarrow> q | None \<Rightarrow> Finite 1)
      | [] \<Rightarrow> Finite 1)"

definition vote :: "(float_text \<times> media_kind) option \<Rightarrow> string \<Rightarrow> (float_text \<times> media_kind) option" where
  "vote best entry =
     (case split_on (CHR '';'') entry of
        [] \<Rightarrow> best
      | first # parameters \<Rightarrow>
          (case media_kind_of (lowercase (trim first)) of
             None \<Rightarrow> best
           | Some kind \<Rightarrow>
               (let quality = entry_quality parameters in
                if float_at_most_0 quality then best
                else (case best of
                        Some (incumbent, _) \<Rightarrow> if float_greater quality incumbent then Some (quality, kind) else best
                      | None \<Rightarrow> Some (quality, kind)))))"

definition prefers_html :: "string option \<Rightarrow> bool" where
  "prefers_html accept =
     (case accept of
        None \<Rightarrow> False
      | Some a \<Rightarrow> (case foldl vote None (split_on (CHR '','') a) of Some (_, Kind_Html) \<Rightarrow> True | _ \<Rightarrow> False))"

definition json_field :: "string \<Rightarrow> json \<Rightarrow> json option" where
  "json_field name j = (case j of J_Obj fs \<Rightarrow> map_of fs name | _ \<Rightarrow> None)"

definition json_str :: "json \<Rightarrow> string option" where
  "json_str j = (case j of J_Str s \<Rightarrow> Some s | _ \<Rightarrow> None)"

definition parse_envelope :: "json option \<Rightarrow> (string \<times> string \<times> string option) option" where
  "parse_envelope document =
     Option.bind document (\<lambda>j. Option.bind (json_field ''error'' j) (\<lambda>err.
       Option.bind (Option.bind (json_field ''code'' err) json_str) (\<lambda>c.
         Some (c, case Option.bind (json_field ''message'' err) json_str of Some m \<Rightarrow> m | None \<Rightarrow> [],
           Option.bind (json_field ''request_id'' err) json_str))))"

definition is_envelope_json :: "http_answer \<Rightarrow> bool" where
  "is_envelope_json a = (case answer_header ''content-type'' a of Some v \<Rightarrow> starts_with ''application/json'' v | None \<Rightarrow> False)"

definition envelope_free_page :: "http_request \<Rightarrow> http_answer \<Rightarrow> http_answer" where
  "envelope_free_page rq a =
     a\<lparr>ha_headers := header_insert ''content-type'' html_content_type (header_remove ''content-length'' (ha_headers a)),
       ha_body := Some (render_error_page
         \<lparr>ep_status = ha_status a, ep_code = ''REQUEST_FAILED'', ep_message = ''The response could not be rendered.'',
          ep_request_id = None, ep_method = Some (hq_method rq), ep_target = hq_target rq, ep_retry_after = None,
          ep_theme = pinned_theme (header_values ''cookie'' rq)\<rparr>)\<rparr>"

definition swapped_page :: "http_request \<Rightarrow> http_answer \<Rightarrow> string \<times> string \<times> string option \<Rightarrow> http_answer" where
  "swapped_page rq a envelope =
     (case envelope of (c, message, request_id) \<Rightarrow>
        a\<lparr>ha_headers :=
            header_insert ''cache-control'' ''no-store'' (header_append ''vary'' ''accept''
              (header_insert ''content-type'' html_content_type (header_remove ''content-length'' (ha_headers a)))),
          ha_body := Some (render_error_page
            \<lparr>ep_status = ha_status a, ep_code = c, ep_message = message, ep_request_id = request_id, ep_method = Some (hq_method rq),
             ep_target = hq_target rq, ep_retry_after = Option.bind (answer_header ''retry-after'' a) (parse_unsigned u64_max),
             ep_theme = pinned_theme (header_values ''cookie'' rq)\<rparr>)\<rparr>)"

definition negotiated :: "layers \<Rightarrow> http_request \<Rightarrow> http_answer \<Rightarrow> http_answer" where
  "negotiated ly rq a =
     (if \<not> prefers_html (request_header ''accept'' rq) then a
      else if \<not> (400 \<le> ha_status a \<and> ha_status a < 600) then a
      else if \<not> is_envelope_json a then a
      else (case ha_body a of
              None \<Rightarrow> envelope_free_page rq a
            | Some bytes \<Rightarrow>
                if envelope_read_limit < length bytes then envelope_free_page rq a
                else (case parse_envelope (ly_decode ly bytes) of Some e \<Rightarrow> swapped_page rq a e | None \<Rightarrow> a)))"

definition error_pages_run :: "layers \<Rightarrow> handler \<Rightarrow> handler" where
  "error_pages_run ly next_layer rq st = on_answer (negotiated ly rq) (next_layer rq st)"

section \<open>The security headers\<close>

definition ascii_space :: "char \<Rightarrow> bool" where
  "ascii_space c \<longleftrightarrow> c \<in> {CHR '' '', CHR 0x09, CHR 0x0A, CHR 0x0C, CHR 0x0D}"

fun ascii_words_acc :: "string \<Rightarrow> string \<Rightarrow> string list" where
  "ascii_words_acc acc [] = (if acc = [] then [] else [rev acc])"
| "ascii_words_acc acc (c # s) =
     (if ascii_space c then (if acc = [] then ascii_words_acc [] s else rev acc # ascii_words_acc [] s)
      else ascii_words_acc (c # acc) s)"

definition ascii_words :: "string \<Rightarrow> string list" where
  "ascii_words s = ascii_words_acc [] s"

definition self_source :: string where
  "self_source = [CHR 0x27] @ ''self'' @ [CHR 0x27]"

text \<open>The sources of a directive whose name is \<open>form-action\<close>.\<close>

definition form_action_words :: "string \<Rightarrow> string list option" where
  "form_action_words directive =
     (case ascii_words directive of
        name # sources \<Rightarrow> if eq_ignore_case name ''form-action'' then Some sources else None
      | [] \<Rightarrow> None)"

fun first_form_action :: "nat \<Rightarrow> string list \<Rightarrow> (nat \<times> string list) option" where
  "first_form_action position [] = None"
| "first_form_action position (d # ds) =
     (case form_action_words d of Some sources \<Rightarrow> Some (position, sources) | None \<Rightarrow> first_form_action (Suc position) ds)"

definition form_action_text :: "string list \<Rightarrow> string" where
  "form_action_text sources = ''form-action'' @ concat (map (\<lambda>s. CHR '' '' # s) sources)"

definition expand_form_action :: "string \<Rightarrow> string list \<Rightarrow> string option" where
  "expand_form_action policy family =
     (if family = [] then None
      else (case first_form_action 0 (split_on (CHR '';'') policy) of
              None \<Rightarrow> None
            | Some (position, sources) \<Rightarrow>
                if self_source \<notin> set sources then None
                else (let additions = filter (\<lambda>s. s \<notin> set sources) family in
                      if additions = [] then None
                      else Some (join_with '';'' ((split_on (CHR '';'') policy)[position := form_action_text (sources @ additions)])))))"

definition own_origin :: "app_config \<Rightarrow> string \<Rightarrow> string" where
  "own_origin cf host =
     (let scheme = (if tlc_enabled (cf_tls cf) then ''https'' else ''http'');
          default_port = (if tlc_enabled (cf_tls cf) then 443 else 80);
          port = srv_port (cf_server cf)
      in scheme @ ''://'' @ host @ (if port \<noteq> 0 \<and> port \<noteq> default_port then '':'' @ show_nat (unat port) else []))"

definition under_shared_domain :: "app_config \<Rightarrow> string \<Rightarrow> bool" where
  "under_shared_domain cf host \<longleftrightarrow>
     (let domain = acf_cookie_domain (cf_auth cf) in domain \<noteq> [] \<and> (host = domain \<or> ends_with (''.'' @ domain) host))"

definition form_action_sources :: "app_config \<Rightarrow> host_binding list \<Rightarrow> string list" where
  "form_action_sources cf bindings =
     (let domain = acf_cookie_domain (cf_auth cf) in
      if domain = [] \<and> bindings = [] then []
      else
        (let shared = (if domain = [] then [] else [own_origin cf domain, own_origin cf (''*.'' @ domain)]);
             mapped = map (own_origin cf) (filter (\<lambda>h. \<not> under_shared_domain cf h) (map (\<lambda>b. lowercase (hb_hostname b)) bindings))
         in remdups_adj (sort (shared @ mapped))))"

definition form_action_csp :: "app_config \<Rightarrow> host_binding list \<Rightarrow> string option" where
  "form_action_csp cf bindings =
     (let family = form_action_sources cf bindings in
      if family = [] then None
      else Option.bind (expand_form_action (shc_content_security_policy (cf_security_headers cf)) family)
        (\<lambda>widened. if header_ok widened then Some widened else None))"

definition secured :: "layers \<Rightarrow> http_answer \<Rightarrow> http_answer" where
  "secured ly a =
     (let headers = foldl (\<lambda>hs (name, v). header_insert name v hs) (ha_headers a) (ly_headers ly) in
      a\<lparr>ha_headers := (case form_action_csp (ly_config ly) (ly_bindings ly) of
           Some policy \<Rightarrow> header_insert ''content-security-policy'' policy headers
         | None \<Rightarrow> headers)\<rparr>)"

definition security_headers_run :: "layers \<Rightarrow> handler \<Rightarrow> handler" where
  "security_headers_run ly next_layer rq st = on_answer (secured ly) (next_layer rq st)"

section \<open>Request ids, counters, limits\<close>

definition max_client_id_len :: nat where "max_client_id_len = 64"

definition id_char :: "char \<Rightarrow> bool" where
  "id_char c \<longleftrightarrow> is_lower c \<or> is_upper c \<or> is_digit c \<or> c = CHR ''-'' \<or> c = CHR ''_''"

definition from_client :: "string option \<Rightarrow> string option" where
  "from_client v =
     (case v of
        None \<Rightarrow> None
      | Some s \<Rightarrow> if s \<noteq> [] \<and> length s \<le> max_client_id_len \<and> list_all id_char s then Some s else None)"

definition request_id_of :: "layers \<Rightarrow> http_request \<Rightarrow> string" where
  "request_id_of ly rq =
     (case (if cf_request_id (ly_config ly) = Overwrite_Id then None else from_client (request_header ''x-request-id'' rq)) of
        Some i \<Rightarrow> i
      | None \<Rightarrow> hq_fresh_id rq)"

definition echo_id :: "string \<Rightarrow> http_answer \<Rightarrow> http_answer" where
  "echo_id i a = (if header_ok i then a\<lparr>ha_headers := header_insert ''x-request-id'' i (ha_headers a)\<rparr> else a)"

definition request_id_run :: "layers \<Rightarrow> handler \<Rightarrow> handler" where
  "request_id_run ly next_layer rq st =
     (let i = request_id_of ly rq in on_answer (echo_id i) (next_layer (rq\<lparr>hq_id := Some i\<rparr>) st))"

text \<open>Milliseconds with three decimals.\<close>

definition latency_text :: "nat \<Rightarrow> string" where
  "latency_text nanos = (let micros = (nanos + 500) div 1000 in show_nat (micros div 1000) @ ''.'' @ pad_nat 3 (micros mod 1000))"

definition logging_run :: "layers \<Rightarrow> handler \<Rightarrow> handler" where
  "logging_run ly next_layer rq st =
     (case next_layer rq (st\<lparr>sh_requests := sh_requests st + 1\<rparr>) of
        ((a, took), st') \<Rightarrow>
          ((a\<lparr>ha_headers := header_insert ''x-response-time'' (latency_text took) (ha_headers a)\<rparr>, took),
           if ly_metrics ly then st'\<lparr>sh_recorded := sh_recorded st' @ [(hq_method rq, ha_status a, took)]\<rparr> else st'))"

definition unknown_ip :: ip_addr where "unknown_ip = V4 0"

definition client_address :: "layers \<Rightarrow> http_request \<Rightarrow> ip_addr" where
  "client_address ly rq =
     resolve_client_ip (case hq_peer rq of Some p \<Rightarrow> p | None \<Rightarrow> unknown_ip) (forwarded_for_values rq) (ly_trusted ly)"

definition rate_headers :: "nat \<Rightarrow> nat \<Rightarrow> http_answer \<Rightarrow> http_answer" where
  "rate_headers capacity remaining a =
     a\<lparr>ha_headers := header_insert ''x-ratelimit-remaining'' (show_nat remaining)
        (header_insert ''x-ratelimit-limit'' (show_nat capacity) (ha_headers a))\<rparr>"

definition rate_limit_run :: "layers \<Rightarrow> handler \<Rightarrow> handler" where
  "rate_limit_run ly next_layer rq st =
     (let capacity = nat \<lfloor>rl_capacity (sh_limiter st)\<rfloor> in
      if ly_metrics ly \<and> mtc_path (cf_metrics (ly_config ly)) = hq_path rq then next_layer rq st
      else (case try_acquire_at (sh_limiter st) (client_address ly rq) (hq_instant rq) (hq_wall rq) of
              (Allowed remaining, rl) \<Rightarrow>
                on_answer (rate_headers capacity (min u64_max (nat \<lfloor>remaining\<rfloor>))) (next_layer rq (st\<lparr>sh_limiter := rl\<rparr>))
            | (Rejected s, rl) \<Rightarrow>
                ((rate_headers capacity 0 (error_answer ly (rate_limited s) (hq_id rq)), 0),
                 st\<lparr>sh_limiter := rl, sh_rate_limited := sh_rate_limited st + 1\<rparr>)))"

definition declared_content_length :: "http_request \<Rightarrow> nat option" where
  "declared_content_length rq = Option.bind (request_header ''content-length'' rq) (parse_unsigned u64_max)"

definition payload_too_large_unknown_size :: "nat \<Rightarrow> app_error" where
  "payload_too_large_unknown_size cap = PayloadTooLarge (''Request body exceeds the '' @ show_nat cap @ '' byte limit'')"

definition body_limit_run :: "layers \<Rightarrow> handler \<Rightarrow> handler" where
  "body_limit_run ly next_layer rq st =
     (let cap = srv_max_body_size_bytes (cf_server (ly_config ly)) in
      if (case declared_content_length rq of Some declared \<Rightarrow> cap < declared | None \<Rightarrow> False)
      then ((error_answer ly (payload_too_large (the (declared_content_length rq)) cap) (hq_id rq), 0), st)
      else on_answer (\<lambda>a. if ha_status a = 413 \<and> \<not> is_envelope_json a
                         then error_answer ly (payload_too_large_unknown_size cap) (hq_id rq) else a) (next_layer rq st))"

definition request_timeout :: "nat \<Rightarrow> app_error" where
  "request_timeout s = RequestTimeout (''Request processing exceeded the '' @ show_nat s @ '' second limit'')"

text \<open>
  A handler that takes longer than the budget is dropped where it is: the state it gives is the one
  it had reached.
\<close>

definition timeout_run :: "layers \<Rightarrow> handler \<Rightarrow> handler" where
  "timeout_run ly next_layer rq st =
     (let budget = srv_request_timeout_secs (cf_server (ly_config ly)) in
      case next_layer rq st of
        ((a, took), st') \<Rightarrow>
          if took \<le> secs budget then ((a, took), st')
          else ((error_answer ly (request_timeout budget) (hq_id rq), secs budget), st'))"

section \<open>Cross-origin requests\<close>

datatype allow_origin = Any_Origin | Origins "string list"

record cors_policy =
  cp_methods :: "string list"
  cp_headers :: "string list"
  cp_max_age :: nat
  cp_origin :: allow_origin

text \<open>An origin that is no header value makes the construction panic.\<close>

definition cors_layer :: "cors_config \<Rightarrow> cors_policy option" where
  "cors_layer c =
     (let policy = \<lparr>cp_methods = [''GET'', ''POST'', ''PUT'', ''PATCH'', ''DELETE''],
                    cp_headers = [''content-type'', ''authorization'', ''x-request-id''],
                    cp_max_age = cor_max_age_secs c, cp_origin = Any_Origin\<rparr>
      in if cor_allowed_origins c = [''*''] then Some policy
         else if list_all header_ok (cor_allowed_origins c) then Some (policy\<lparr>cp_origin := Origins (cor_allowed_origins c)\<rparr>)
         else None)"

text \<open>
  The layer of tower-http under a policy: what it answers a preflight itself, and what it adds to an
  answer from inside. With it the limit on the bytes a handler reads, which changes the handler.
\<close>

record tower_layers =
  tw_preflight :: "cors_policy \<Rightarrow> http_request \<Rightarrow> http_answer option"
  tw_decorate :: "cors_policy \<Rightarrow> http_request \<Rightarrow> http_answer \<Rightarrow> http_answer"
  tw_limit :: "nat \<Rightarrow> handler \<Rightarrow> handler"

definition cors_run :: "tower_layers \<Rightarrow> cors_policy \<Rightarrow> handler \<Rightarrow> handler" where
  "cors_run tw policy next_layer rq st =
     (case tw_preflight tw policy rq of
        Some a \<Rightarrow> ((a, 0), st)
      | None \<Rightarrow> on_answer (tw_decorate tw policy rq) (next_layer rq st))"

section \<open>The pipeline\<close>

definition layer_if :: "bool \<Rightarrow> (handler \<Rightarrow> handler) \<Rightarrow> handler \<Rightarrow> handler" where
  "layer_if on l h = (if on then l h else h)"

text \<open>The layers as they are applied: the innermost first, nothing when the CORS layer panics.\<close>

definition apply_layers :: "layers \<Rightarrow> tower_layers \<Rightarrow> (handler \<Rightarrow> handler) \<Rightarrow> handler \<Rightarrow> handler option" where
  "apply_layers ly tw templates routes =
     (let cf = ly_config ly; mw = cf_middleware cf;
          h9 = layer_if (tpc_enabled (cf_templates cf)) templates routes;
          h8 = layer_if (mw_body_limit mw) (tw_limit tw (srv_max_body_size_bytes (cf_server cf))) h9;
          h7 = layer_if (mw_timeout mw) (timeout_run ly) h8;
          h6 = layer_if (mw_body_limit mw) (body_limit_run ly) h7;
          h5 = layer_if (mw_rate_limit mw) (rate_limit_run ly) h6;
          h4 = layer_if (mw_logging mw) (logging_run ly) h5;
          h3 = layer_if (mw_request_id mw) (request_id_run ly) h4
      in map_option (\<lambda>h2. layer_if (mw_security_headers mw) (security_headers_run ly) (error_pages_run ly h2))
           (if mw_cors mw then map_option (\<lambda>policy. cors_run tw policy h3) (cors_layer (cf_cors cf)) else Some h3))"

section \<open>The widened policy\<close>

lemma ascii_words_acc_word: "list_all (\<lambda>c. \<not> ascii_space c) w \<Longrightarrow> ascii_words_acc acc (w @ s) = ascii_words_acc (rev w @ acc) s"
  by (induction w arbitrary: acc) auto

lemma ascii_space_blank: "ascii_space (CHR '' '')"
  by (simp add: ascii_space_def)

lemma ascii_words_acc_list:
  "list_all (\<lambda>w. w \<noteq> [] \<and> list_all (\<lambda>c. \<not> ascii_space c) w) ws \<Longrightarrow>
    ascii_words_acc acc (concat (map (\<lambda>w. CHR '' '' # w) ws)) = (if acc = [] then ws else rev acc # ws)"
proof (induction ws arbitrary: acc)
  case (Cons w ws)
  then show ?case by (auto simp: ascii_space_blank ascii_words_acc_word simp del: ascii_words_acc.simps(1))
qed simp

definition word_ok :: "string \<Rightarrow> bool" where
  "word_ok w \<longleftrightarrow> w \<noteq> [] \<and> list_all (\<lambda>c. \<not> ascii_space c \<and> c \<noteq> CHR '';'') w"

lemma ascii_words_acc_clean:
  "w \<in> set (ascii_words_acc acc s) \<Longrightarrow> w \<noteq> [] \<and> set w \<subseteq> set acc \<union> set s \<and> (\<forall>c \<in> set w. c \<in> set acc \<or> \<not> ascii_space c)"
proof (induction acc s rule: ascii_words_acc.induct)
  case (2 acc c s)
  show ?case
  proof (cases "ascii_space c")
    case True
    with 2 show ?thesis by (auto split: if_splits)
  next
    case False
    with 2 show ?thesis by auto
  qed
qed (simp split: if_splits)

lemma ascii_words_clean:
  assumes "w \<in> set (ascii_words s)"
  shows "w \<noteq> []" "set w \<subseteq> set s" "\<forall>c \<in> set w. \<not> ascii_space c"
  using ascii_words_acc_clean [OF assms [unfolded ascii_words_def]] by auto

lemma form_action_text_words:
  assumes "\<forall>w \<in> set sources. word_ok w"
  shows "form_action_words (form_action_text sources) = Some sources" "CHR '';'' \<notin> set (form_action_text sources)"
proof -
  have "ascii_words (form_action_text sources) = ''form-action'' # sources"
    using assms ascii_words_acc_word [of "''form-action''" "[]" "concat (map (\<lambda>w. CHR '' '' # w) sources)"]
      ascii_words_acc_list [of sources "rev ''form-action''"]
    by (simp add: ascii_words_def form_action_text_def ascii_space_def word_ok_def list_all_iff)
  then show "form_action_words (form_action_text sources) = Some sources" by (simp add: form_action_words_def eq_ignore_case_refl)
  show "CHR '';'' \<notin> set (form_action_text sources)"
    using assms by (auto simp: form_action_text_def word_ok_def list_all_iff)
qed

lemma first_form_action_Some:
  "first_form_action k ds = Some (i, sources) \<Longrightarrow>
    \<exists>pre d post. ds = pre @ d # post \<and> i = k + length pre \<and> (\<forall>x \<in> set pre. form_action_words x = None) \<and>
      form_action_words d = Some sources"
proof (induction ds arbitrary: k)
  case (Cons d ds)
  show ?case
  proof (cases "form_action_words d")
    case None
    with Cons obtain pre e post where "ds = pre @ e # post" "i = Suc k + length pre" "\<forall>x \<in> set pre. form_action_words x = None"
      "form_action_words e = Some sources" by fastforce
    with None show ?thesis by (intro exI [of _ "d # pre"] exI [of _ e] exI [of _ post]) simp
  next
    case (Some x)
    with Cons.prems show ?thesis by (intro exI [of _ "[]"] exI [of _ d] exI [of _ ds]) simp
  qed
qed simp

lemma form_action_words_clean:
  assumes "form_action_words d = Some sources" "CHR '';'' \<notin> set d" "w \<in> set sources"
  shows "word_ok w"
proof -
  have "w \<in> set (ascii_words d)" using assms(1,3) by (auto simp: form_action_words_def split: list.splits if_splits)
  from ascii_words_clean [OF this] assms(2) show ?thesis by (auto simp: word_ok_def list_all_iff)
qed

definition word_char :: "char \<Rightarrow> bool" where
  "word_char c \<longleftrightarrow> \<not> ascii_space c \<and> c \<noteq> CHR '';''"

lemma word_ok_iff: "word_ok w \<longleftrightarrow> w \<noteq> [] \<and> list_all word_char w"
  by (simp add: word_ok_def word_char_def list_all_iff)

lemma word_char_lower: "word_char c \<Longrightarrow> word_char (to_lower c)"
proof (cases "is_upper c")
  case True
  then have "97 \<le> code (to_lower c)" by (simp add: to_lower_def is_upper_def)
  then show ?thesis by (auto simp: word_char_def ascii_space_def code_def)
qed (simp add: to_lower_def)

lemma word_char_digit: "is_digit c \<Longrightarrow> word_char c"
  by (auto simp: word_char_def ascii_space_def is_digit_def code_def)

lemma digits_words: "list_all word_char (show_nat n)"
  using show_nat_digits [of n] word_char_digit by (auto simp: list_all_iff)

lemma own_origin_word: "list_all word_char host \<Longrightarrow> word_ok (own_origin cf host)"
proof -
  have "list_all word_char ''https''" "list_all word_char ''http''" "list_all word_char ''://''" "word_char (CHR '':'')"
    by (simp_all add: word_char_def ascii_space_def)
  then show "list_all word_char host \<Longrightarrow> word_ok (own_origin cf host)"
    using digits_words by (simp add: own_origin_def Let_def word_ok_iff del: show_nat.simps)
qed

lemma family_words:
  assumes "acf_cookie_domain (cf_auth cf) = [] \<or> word_ok (acf_cookie_domain (cf_auth cf))" "\<forall>b \<in> set bs. word_ok (hb_hostname b)"
  shows "\<forall>s \<in> set (form_action_sources cf bs). word_ok s"
proof -
  have "list_all word_char (lowercase (hb_hostname b))" if "b \<in> set bs" for b
    using assms(2) that word_char_lower by (auto simp: word_ok_iff lowercase_def list_all_iff)
  moreover have "list_all word_char (acf_cookie_domain (cf_auth cf))" "word_char (CHR ''*'')" "word_char (CHR ''.'')"
    using assms(1) by (auto simp: word_ok_iff word_char_def ascii_space_def)
  ultimately show ?thesis by (auto simp: form_action_sources_def Let_def intro!: own_origin_word)
qed

lemma distinct_remdups_adj: "sorted (xs :: string list) \<Longrightarrow> distinct (remdups_adj xs)"
  by (induction xs rule: remdups_adj.induct) (auto dest: order.antisym)

lemma family_distinct: "distinct (form_action_sources cf bs)"
  unfolding form_action_sources_def Let_def by (simp only: simp_thms distinct.simps(1) distinct_remdups_adj [OF sorted_sort] split: if_split)

text \<open>Every mapped host is in the family: by its own origin, or under the shared domain.\<close>

lemma mapped_host_listed:
  assumes "b \<in> set bs"
  shows "own_origin cf (lowercase (hb_hostname b)) \<in> set (form_action_sources cf bs) \<or>
    under_shared_domain cf (lowercase (hb_hostname b)) \<and>
    {own_origin cf (acf_cookie_domain (cf_auth cf)), own_origin cf (''*.'' @ acf_cookie_domain (cf_auth cf))} \<subseteq> set (form_action_sources cf bs)"
  using assms by (auto simp: form_action_sources_def under_shared_domain_def Let_def)

lemma expand_form_action_Some:
  assumes "expand_form_action policy family = Some widened" "\<forall>s \<in> set family. word_ok s"
  shows "\<exists>before d after sources d'. split_on (CHR '';'') policy = before @ d # after \<and> split_on (CHR '';'') widened = before @ d' # after \<and>
    (\<forall>x \<in> set before. form_action_words x = None) \<and> form_action_words d = Some sources \<and> self_source \<in> set sources \<and>
    form_action_words d' = Some (sources @ filter (\<lambda>s. s \<notin> set sources) family)"
proof -
  let ?segs = "split_on (CHR '';'') policy"
  from assms(1) obtain i sources where f: "first_form_action 0 ?segs = Some (i, sources)" and self: "self_source \<in> set sources"
    and w: "widened = join_with '';'' (?segs[i := form_action_text (sources @ filter (\<lambda>s. s \<notin> set sources) family)])"
    unfolding expand_form_action_def Let_def by (auto split: if_splits option.splits prod.splits)
  let ?adds = "filter (\<lambda>s. s \<notin> set sources) family"
  from first_form_action_Some [OF f] obtain pre d post where segs: "?segs = pre @ d # post" and i: "i = length pre"
    and pre: "\<forall>x \<in> set pre. form_action_words x = None" and d: "form_action_words d = Some sources" by auto
  have fresh: "\<forall>p \<in> set ?segs. CHR '';'' \<notin> set p" using split_on_no_sep by blast
  have "\<forall>w \<in> set (sources @ ?adds). word_ok w"
    using form_action_words_clean [OF d] fresh segs assms(2) by auto
  note widened = form_action_text_words [OF this]
  have "split_on (CHR '';'') widened = pre @ form_action_text (sources @ ?adds) # post"
    using w segs i split_on_join_with [of "pre @ form_action_text (sources @ ?adds) # post" "CHR '';''"] widened(2) fresh
    by (simp add: list_update_append)
  with segs pre d self widened(1) show ?thesis by blast
qed

text \<open>
  The policy a response carries while the sign-in may cross hosts is the configured one with a
  single directive changed: the first \<open>form-action\<close>, which named \<open>'self'\<close>, keeps its sources in their
  order and gets the family of the server behind them, each source once; every other directive
  stays as it is written. With it a form may be sent back to every mapped host: its origin is among
  the sources, or it lies under the shared domain, which is with all its subdomains.
\<close>

theorem widened_policy_admits_the_family:
  assumes "form_action_csp cf bs = Some policy"
    "acf_cookie_domain (cf_auth cf) = [] \<or> word_ok (acf_cookie_domain (cf_auth cf))" "\<forall>b \<in> set bs. word_ok (hb_hostname b)"
  shows "\<exists>before d after sources d' additions.
    split_on (CHR '';'') (shc_content_security_policy (cf_security_headers cf)) = before @ d # after \<and>
    split_on (CHR '';'') policy = before @ d' # after \<and>
    (\<forall>x \<in> set before. form_action_words x = None) \<and> form_action_words d = Some sources \<and> self_source \<in> set sources \<and>
    form_action_words d' = Some (sources @ additions) \<and> distinct additions \<and> set additions \<inter> set sources = {} \<and>
    set additions \<subseteq> set (form_action_sources cf bs) \<and>
    (\<forall>b \<in> set bs. own_origin cf (lowercase (hb_hostname b)) \<in> set (sources @ additions) \<or>
      under_shared_domain cf (lowercase (hb_hostname b)) \<and>
      {own_origin cf (acf_cookie_domain (cf_auth cf)), own_origin cf (''*.'' @ acf_cookie_domain (cf_auth cf))} \<subseteq> set (sources @ additions))"
proof -
  have e: "expand_form_action (shc_content_security_policy (cf_security_headers cf)) (form_action_sources cf bs) = Some policy"
    using assms(1) unfolding form_action_csp_def Let_def by (auto split: if_splits bind_splits)
  from expand_form_action_Some [OF e family_words [OF assms(2,3)]] obtain before d after sources d' where
    parts: "split_on (CHR '';'') (shc_content_security_policy (cf_security_headers cf)) = before @ d # after"
      "split_on (CHR '';'') policy = before @ d' # after" "\<forall>x \<in> set before. form_action_words x = None"
      "form_action_words d = Some sources" "self_source \<in> set sources"
    and d': "form_action_words d' = Some (sources @ filter (\<lambda>s. s \<notin> set sources) (form_action_sources cf bs))" by blast
  let ?adds = "filter (\<lambda>s. s \<notin> set sources) (form_action_sources cf bs)"
  have "set (form_action_sources cf bs) \<subseteq> set (sources @ ?adds)" by auto
  then have "own_origin cf (lowercase (hb_hostname b)) \<in> set (sources @ ?adds) \<or>
      under_shared_domain cf (lowercase (hb_hostname b)) \<and>
      {own_origin cf (acf_cookie_domain (cf_auth cf)), own_origin cf (''*.'' @ acf_cookie_domain (cf_auth cf))} \<subseteq> set (sources @ ?adds)"
    if "b \<in> set bs" for b
    using mapped_host_listed [OF that, of cf] by blast
  moreover have "distinct ?adds" "set ?adds \<inter> set sources = {}" "set ?adds \<subseteq> set (form_action_sources cf bs)"
    using family_distinct by auto
  ultimately show ?thesis using parts d' by blast
qed

section \<open>What every answer has\<close>

definition values_of :: "string \<Rightarrow> http_answer \<Rightarrow> string list" where
  "values_of name a = map snd (filter (\<lambda>h. fst h = name) (ha_headers a))"

lemma values_insert: "map snd (filter (\<lambda>h. fst h = name) (header_insert n v hs)) =
    (if name = n then [v] else map snd (filter (\<lambda>h. fst h = name) hs))"
  by (induction hs) (auto simp: header_insert_def)

lemma values_remove: "map snd (filter (\<lambda>h. fst h = name) (header_remove n hs)) =
    (if name = n then [] else map snd (filter (\<lambda>h. fst h = name) hs))"
  by (induction hs) (auto simp: header_remove_def)

lemma values_append: "map snd (filter (\<lambda>h. fst h = name) (header_append n v hs)) =
    map snd (filter (\<lambda>h. fst h = name) hs) @ (if name = n then [v] else [])"
  by (simp add: header_append_def)

lemma values_foldl:
  "(name, v) \<in> set new \<Longrightarrow> distinct (map fst new) \<Longrightarrow>
    map snd (filter (\<lambda>h. fst h = name) (foldl (\<lambda>hs (n, w). header_insert n w hs) hs new)) = [v]"
  by (induction new rule: rev_induct) (auto simp: values_insert, metis fst_conv image_eqI)

definition all_pairs :: "security_headers_config \<Rightarrow> (string \<times> string) list" where
  "all_pairs c =
     [(''x-content-type-options'', shc_x_content_type_options c), (''x-frame-options'', shc_x_frame_options c),
      (''referrer-policy'', shc_referrer_policy c), (''content-security-policy'', shc_content_security_policy c),
      (''strict-transport-security'', shc_strict_transport_security c)]"

lemma header_pairs_filter: "header_pairs c = filter (\<lambda>(name, v). header_ok v) (filter (\<lambda>(name, v). v \<noteq> []) (all_pairs c))"
proof -
  have "List.map_filter (\<lambda>(name, v). if header_ok v then Some (name, v) else None) xs = filter (\<lambda>(name, v). header_ok v) xs"
    for xs :: "(string \<times> string) list"
    by (induction xs) (auto simp: List.map_filter_def split: if_splits)
  then show ?thesis unfolding header_pairs_def all_pairs_def by (simp only:)
qed

lemma header_pairs_distinct: "distinct (map fst (header_pairs c))"
proof -
  have "distinct (map fst (all_pairs c))" by (simp add: all_pairs_def)
  then show ?thesis unfolding header_pairs_filter by (simp only: distinct_map_filter)
qed

lemma header_pairs_names: "name \<notin> set (map fst (all_pairs c)) \<Longrightarrow> name \<notin> set (map fst (header_pairs c))"
  unfolding header_pairs_filter by auto

text \<open>
  Whichever layer answers, the routes or a rejection, with the security headers on the answer
  has every configured header exactly once, with its configured value; only the policy may be the
  one widened for the sign-in across hosts.
\<close>

theorem every_answer_is_secured:
  assumes "apply_layers ly tw templates routes = Some serve" "mw_security_headers (cf_middleware (ly_config ly))"
    "ly_headers ly = header_pairs (cf_security_headers (ly_config ly))" "(name, v) \<in> set (ly_headers ly)"
  shows "values_of name (fst (fst (serve rq st))) =
    [case form_action_csp (ly_config ly) (ly_bindings ly) of
       Some policy \<Rightarrow> if name = ''content-security-policy'' then policy else v
     | None \<Rightarrow> v]"
proof -
  obtain h where serve: "serve = security_headers_run ly (error_pages_run ly h)"
    using assms(1,2) by (auto simp: apply_layers_def Let_def layer_if_def)
  obtain a took st' where e: "error_pages_run ly h rq st = ((a, took), st')" by (metis prod.collapse)
  have "fst (fst (serve rq st)) = secured ly a" by (simp add: serve security_headers_run_def e on_answer_def)
  moreover have "map snd (filter (\<lambda>h. fst h = name) (foldl (\<lambda>hs (n, w). header_insert n w hs) (ha_headers a) (ly_headers ly))) = [v]"
    using values_foldl [OF assms(4)] header_pairs_distinct assms(3) by simp
  ultimately show ?thesis
    by (simp add: secured_def Let_def values_of_def values_insert split: option.split)
qed

section \<open>The error page is inert\<close>

definition markup :: "string \<Rightarrow> string" where
  "markup s = filter (\<lambda>c. c = CHR ''<'' \<or> c = CHR ''>'' \<or> c = CHR 0x22 \<or> c = CHR 0x27) s"

lemma markup_append: "markup (s @ t) = markup s @ markup t"
  by (simp add: markup_def)

lemma markup_Nil: "markup [] = []"
  by (simp add: markup_def)

lemma replace_char_fresh: "x \<notin> set new \<Longrightarrow> x = c \<or> x \<notin> set s \<Longrightarrow> x \<notin> set (replace_char c new s)"
  by (auto simp: replace_char_def split: if_splits)

lemma markup_escape: "markup (escape_html_text s) = []"
proof -
  have "x \<notin> set (escape_html_text s)" if "x = CHR ''<'' \<or> x = CHR ''>'' \<or> x = CHR 0x22 \<or> x = CHR 0x27" for x
    using that unfolding escape_html_text_def by (elim disjE; hypsubst; simp add: replace_char_fresh)
  then show ?thesis unfolding markup_def by (intro filter_False) auto
qed

text \<open>The page with everything a client or a message brings left out.\<close>

definition blank_page :: "error_page \<Rightarrow> error_page" where
  "blank_page p = p\<lparr>ep_code := [], ep_message := [], ep_request_id := map_option (\<lambda>_. []) (ep_request_id p),
     ep_method := map_option (\<lambda>_. []) (ep_method p), ep_target := map_option (\<lambda>_. []) (ep_target p)\<rparr>"

lemma escape_Nil: "escape_html_text [] = []"
  by (simp add: escape_html_text_def replace_char_def)

lemma markup_row: "markup (detail_row name (escape_html_text v)) = markup (detail_row name [])"
  unfolding detail_row_def by (simp only: markup_append markup_escape markup_Nil)

lemma markup_row2: "markup (detail_row name (escape_html_text v @ '' '' @ escape_html_text w)) = markup (detail_row name ([] @ '' '' @ []))"
  unfolding detail_row_def by (simp only: markup_append markup_escape markup_Nil)

lemma markup_error_body:
  assumes "markup c = []" "markup m = []" "markup r = markup r'" "markup i = markup i'"
  shows "markup (error_body status c m r i delay) = markup (error_body status [] [] r' i' delay)"
  unfolding error_body_def by (simp only: markup_append assms markup_Nil)

lemma error_page_markup: "markup (render_error_page p) = markup (render_error_page (blank_page p))"
proof -
  have rl: "markup (request_line (map_option escape_html_text m) (map_option escape_html_text t)) =
      markup (request_line (map_option (\<lambda>_. []) m) (map_option (\<lambda>_. []) t))" for m t
    by (cases m; cases t) (simp_all only: request_line_def option.map option.case prod.case markup_row markup_row2)
  have idr: "markup (case i of Some i \<Rightarrow> detail_row ''Request id'' (escape_html_text i) | None \<Rightarrow> []) =
      markup (case map_option (\<lambda>_. []) i of Some i \<Rightarrow> detail_row ''Request id'' i | None \<Rightarrow> [])" for i
    by (cases i) (simp_all only: option.map option.case markup_row)
  have same: "reload_delay (blank_page p) = reload_delay p" by (simp add: reload_delay_def blank_page_def split: option.split)
  have m0: "map_option escape_html_text (map_option (\<lambda>_. []) x) = map_option (\<lambda>_. []) x" for x :: "string option"
    by (cases x) (simp_all add: escape_Nil)
  have i0: "(case map_option (\<lambda>_. []) x of Some i \<Rightarrow> detail_row ''Request id'' (escape_html_text i) | None \<Rightarrow> []) =
      (case map_option (\<lambda>_. []) x of Some i \<Rightarrow> detail_row ''Request id'' i | None \<Rightarrow> [])" for x :: "string option"
    by (cases x) (simp_all add: escape_Nil)
  have b: "ep_status (blank_page p) = ep_status p" "ep_theme (blank_page p) = ep_theme p" "ep_code (blank_page p) = []"
    "ep_message (blank_page p) = []" "ep_request_id (blank_page p) = map_option (\<lambda>_. []) (ep_request_id p)"
    "ep_method (blank_page p) = map_option (\<lambda>_. []) (ep_method p)" "ep_target (blank_page p) = map_option (\<lambda>_. []) (ep_target p)"
    by (cases p; simp add: blank_page_def)+
  show ?thesis
    unfolding render_error_page_def same b m0 i0 escape_Nil markup_append
    by (simp only: markup_error_body [OF markup_escape markup_escape rl idr])
qed

lemma negotiated_cases: "negotiated ly rq a = a \<or> negotiated ly rq a = envelope_free_page rq a \<or> (\<exists>e. negotiated ly rq a = swapped_page rq a e)"
  unfolding negotiated_def by (simp split: option.split) blast

lemma negotiated_keeps:
  "ha_status (negotiated ly rq a) = ha_status a"
  "name \<notin> {''content-type'', ''content-length'', ''vary'', ''cache-control''} \<Longrightarrow> values_of name (negotiated ly rq a) = values_of name a"
proof -
  have "ha_status (swapped_page rq a e) = ha_status a" for e by (simp add: swapped_page_def split: prod.split)
  then show "ha_status (negotiated ly rq a) = ha_status a"
    using negotiated_cases [of ly rq a] by (auto simp: envelope_free_page_def)
  assume "name \<notin> {''content-type'', ''content-length'', ''vary'', ''cache-control''}"
  then show "values_of name (negotiated ly rq a) = values_of name a"
    using negotiated_cases [of ly rq a]
    by (elim disjE exE) (simp_all add: envelope_free_page_def swapped_page_def values_of_def values_insert values_remove values_append split: prod.split)
qed

text \<open>
  C37: What the error layer makes of an answer is the answer itself, or the error page with the same
  status, sent as HTML, whose tags, attributes and quotes are those of the page without any text: no
  path, message or request id adds one. Every other header, \<open>Retry-After\<close> and the request id among
  them, stays as it was.
\<close>

theorem error_pages_are_inert:
  "ha_status (negotiated ly rq a) = ha_status a \<and>
   (negotiated ly rq a = a \<or>
    (\<exists>p. ha_body (negotiated ly rq a) = Some (render_error_page p) \<and> ep_status p = ha_status a \<and>
       markup (render_error_page p) = markup (render_error_page (blank_page p)) \<and>
       values_of ''content-type'' (negotiated ly rq a) = [html_content_type])) \<and>
   (\<forall>name. name \<in> {''content-type'', ''content-length'', ''vary'', ''cache-control''} \<or>
      values_of name (negotiated ly rq a) = values_of name a)"
proof -
  have "\<exists>p. ha_body b = Some (render_error_page p) \<and> ep_status p = ha_status a \<and>
      markup (render_error_page p) = markup (render_error_page (blank_page p)) \<and> values_of ''content-type'' b = [html_content_type]"
    if "b = envelope_free_page rq a \<or> (\<exists>e. b = swapped_page rq a e)" for b
    using that error_page_markup
    by (elim disjE exE) (simp_all add: envelope_free_page_def swapped_page_def values_of_def values_insert values_remove values_append split: prod.split,
        (intro allI impI exI conjI, rule refl, simp)+)
  then show ?thesis using negotiated_cases [of ly rq a] negotiated_keeps by metis
qed

text \<open>An error for a visitor who prefers HTML is always swapped.\<close>

lemma envelopes_are_swapped:
  assumes "prefers_html (request_header ''accept'' rq)" "400 \<le> status_code e"
    "\<forall>j. ly_decode ly (ly_encode ly j) = Some j" "length (ly_encode ly (error_envelope e i)) \<le> envelope_read_limit"
    "\<forall>m s. e = RateLimited m s \<longrightarrow> s \<le> u64_max"
  shows "ha_body (negotiated ly rq (error_answer ly e i)) = Some (render_error_page
    \<lparr>ep_status = status_code e, ep_code = error_code e, ep_message = error_message e, ep_request_id = i, ep_method = Some (hq_method rq),
     ep_target = hq_target rq, ep_retry_after = (case e of RateLimited _ s \<Rightarrow> Some s | _ \<Rightarrow> None),
     ep_theme = pinned_theme (header_values ''cookie'' rq)\<rparr>)"
proof -
  have status: "status_code e < 600" by (simp add: status_code_def split: app_error.splits)
  have json: "is_envelope_json (error_answer ly e i)"
    by (simp add: is_envelope_json_def answer_header_def error_answer_def header_text_def code_def)
  have "parse_envelope (Some (error_envelope e i)) = Some (error_code e, error_message e, i)"
    by (simp add: parse_envelope_def error_envelope_def json_field_def json_str_def split: option.splits)
  moreover have "ha_status (error_answer ly e i) = status_code e"
    "ha_body (error_answer ly e i) = Some (ly_encode ly (error_envelope e i))" by (simp_all add: error_answer_def)
  moreover have "Option.bind (answer_header ''retry-after'' (error_answer ly e i)) (parse_unsigned u64_max) =
      (case e of RateLimited _ s \<Rightarrow> Some s | _ \<Rightarrow> None)"
  proof -
    have d: "list_all (\<lambda>c. (32 \<le> code c \<and> code c < 127) \<or> code c = 9) (show_nat s)" for s
      using show_nat_digits [of s] by (auto simp: list_all_iff is_digit_def)
    have "parse_unsigned u64_max (show_nat s) = Some s" if "s \<le> u64_max" for s
      using parse_unsigned_digits [OF show_nat_digits show_nat_nonempty, of s u64_max] that by simp
    with assms(5) show ?thesis
      by (simp add: answer_header_def error_answer_def header_text_def d split: app_error.split del: show_nat.simps)
  qed
  ultimately show ?thesis using assms status json by (simp add: negotiated_def swapped_page_def)
qed

section \<open>Rejected floods\<close>

lemma on_answer_parts: "fst (fst (on_answer f x)) = f (fst (fst x))" "snd (on_answer f x) = snd x"
  by (simp_all add: on_answer_def split: prod.split)

lemma client_address_id: "client_address ly (rq\<lparr>hq_id := i\<rparr>) = client_address ly rq"
  by (simp add: client_address_def forwarded_for_values_def header_values_def)

lemma rejected_at_the_limiter:
  assumes "mw_rate_limit (cf_middleware (ly_config ly))" "\<not> (ly_metrics ly \<and> mtc_path (cf_metrics (ly_config ly)) = hq_path rq)"
    "try_acquire_at (sh_limiter st) (client_address ly rq) (hq_instant rq) (hq_wall rq) = (Rejected s, rl)"
  shows "rate_limit_run ly h rq st =
    ((rate_headers (nat \<lfloor>rl_capacity (sh_limiter st)\<rfloor>) 0 (error_answer ly (rate_limited s) (hq_id rq)), 0),
     st\<lparr>sh_limiter := rl, sh_rate_limited := sh_rate_limited st + 1\<rparr>)"
  using assms by (auto simp: rate_limit_run_def Let_def)

text \<open>The layers around the limiter, from the logging outwards.\<close>

definition outer_layers :: "layers \<Rightarrow> tower_layers \<Rightarrow> handler \<Rightarrow> handler option" where
  "outer_layers ly tw h5 =
     (let cf = ly_config ly; mw = cf_middleware cf;
          h3 = layer_if (mw_request_id mw) (request_id_run ly) (layer_if (mw_logging mw) (logging_run ly) h5)
      in map_option (\<lambda>h2. layer_if (mw_security_headers mw) (security_headers_run ly) (error_pages_run ly h2))
           (if mw_cors mw then map_option (\<lambda>policy. cors_run tw policy h3) (cors_layer (cf_cors cf)) else Some h3))"

lemma apply_layers_outer:
  "\<exists>h. apply_layers ly tw templates routes = outer_layers ly tw (layer_if (mw_rate_limit (cf_middleware (ly_config ly))) (rate_limit_run ly) h)"
  unfolding apply_layers_def outer_layers_def Let_def by blast

text \<open>Two handlers that agree on the request, whatever its id and the counter of requests, agree through the outer layers.\<close>

lemma outer_layers_cong:
  assumes "outer_layers ly tw h = Some serve" "outer_layers ly tw h' = Some serve'"
    "\<And>i n. h (rq\<lparr>hq_id := i\<rparr>) (st\<lparr>sh_requests := n\<rparr>) = h' (rq\<lparr>hq_id := i\<rparr>) (st\<lparr>sh_requests := n\<rparr>)"
  shows "serve rq st = serve' rq st"
proof -
  let ?mw = "cf_middleware (ly_config ly)"
  have same: "h (rq\<lparr>hq_id := i\<rparr>) st = h' (rq\<lparr>hq_id := i\<rparr>) st" "h rq (st\<lparr>sh_requests := n\<rparr>) = h' rq (st\<lparr>sh_requests := n\<rparr>)" "h rq st = h' rq st" for i n
    using assms(3) [of i "sh_requests st"] assms(3) [of "hq_id rq" n] assms(3) [of "hq_id rq" "sh_requests st"] by simp_all
  have logged: "layer_if b (logging_run ly) h (rq\<lparr>hq_id := i\<rparr>) st = layer_if b (logging_run ly) h' (rq\<lparr>hq_id := i\<rparr>) st"
    "layer_if b (logging_run ly) h rq st = layer_if b (logging_run ly) h' rq st" for b i
    by (simp_all add: layer_if_def logging_run_def assms(3) same)
  have "layer_if c (request_id_run ly) (layer_if b (logging_run ly) h) rq st =
      layer_if c (request_id_run ly) (layer_if b (logging_run ly) h') rq st" for b c
    using logged by (simp add: layer_if_def [of c] request_id_run_def Let_def)
  then show ?thesis
    using assms(1,2) unfolding outer_layers_def Let_def
    by (auto simp: layer_if_def [of "mw_security_headers ?mw"] security_headers_run_def error_pages_run_def cors_run_def split: if_splits option.split)
qed

text \<open>What a rejection still is on its way out.\<close>

definition rejection :: "nat \<Rightarrow> rate_limiter \<Rightarrow> nat \<Rightarrow> (http_answer \<times> nat) \<times> shared_state \<Rightarrow> bool" where
  "rejection s rl n outcome \<longleftrightarrow>
     ha_status (fst (fst outcome)) = 429 \<and> values_of ''retry-after'' (fst (fst outcome)) = [show_nat s] \<and>
     sh_limiter (snd outcome) = rl \<and> sh_rate_limited (snd outcome) = n"

lemma rejection_on_answer:
  "rejection s rl n x \<Longrightarrow> (\<And>a. ha_status (f a) = ha_status a) \<Longrightarrow> (\<And>a. values_of ''retry-after'' (f a) = values_of ''retry-after'' a) \<Longrightarrow>
    rejection s rl n (on_answer f x)"
  by (simp add: rejection_def on_answer_parts)

lemma rejection_logged: "rejection s rl n (h rq (st\<lparr>sh_requests := sh_requests st + 1\<rparr>)) \<Longrightarrow> rejection s rl n (logging_run ly h rq st)"
  by (auto simp: rejection_def logging_run_def values_of_def values_insert split: prod.split)

lemma secured_keeps:
  assumes "name \<notin> set (map fst (ly_headers ly))" "name \<noteq> ''content-security-policy''"
  shows "ha_status (secured ly a) = ha_status a" "values_of name (secured ly a) = values_of name a"
proof -
  have "name \<notin> set (map fst new) \<Longrightarrow> map snd (filter (\<lambda>h. fst h = name) (foldl (\<lambda>hs (n, w). header_insert n w hs) hs new)) =
      map snd (filter (\<lambda>h. fst h = name) hs)" for new hs
    by (induction new rule: rev_induct) (auto simp: values_insert)
  then show "values_of name (secured ly a) = values_of name a"
    using assms by (simp add: secured_def Let_def values_of_def values_insert split: option.split)
  show "ha_status (secured ly a) = ha_status a" by (simp add: secured_def Let_def)
qed

lemma rejection_outwards:
  assumes "outer_layers ly tw h = Some serve" "ly_headers ly = header_pairs (cf_security_headers (ly_config ly))"
    "\<forall>p. tw_preflight tw p rq = None" "\<forall>p rq a. ha_status (tw_decorate tw p rq a) = ha_status a"
    "\<forall>p rq a. values_of ''retry-after'' (tw_decorate tw p rq a) = values_of ''retry-after'' a"
    "\<And>i n. rejection s rl k (h (rq\<lparr>hq_id := i\<rparr>) (st\<lparr>sh_requests := n\<rparr>))"
  shows "rejection s rl k (serve rq st)"
proof -
  let ?mw = "cf_middleware (ly_config ly)"
  let ?h4 = "layer_if (mw_logging ?mw) (logging_run ly) h" and ?sec = "layer_if (mw_security_headers ?mw) (security_headers_run ly)"
  have "rejection s rl k (h (rq\<lparr>hq_id := i\<rparr>) st)" for i using assms(6) [of i "sh_requests st"] by simp
  then have h4: "rejection s rl k (?h4 (rq\<lparr>hq_id := i\<rparr>) st)" for i
    using assms(6) rejection_logged by (simp add: layer_if_def)
  have echo: "rejection s rl k (on_answer (echo_id i) x)" if "rejection s rl k x" for i x
    using that by (rule rejection_on_answer) (simp_all add: echo_id_def values_of_def values_insert)
  have h3: "rejection s rl k (layer_if (mw_request_id ?mw) (request_id_run ly) ?h4 rq st)"
    using h4 echo h4 [of "hq_id rq"] by (simp add: layer_if_def [of "mw_request_id ?mw"] request_id_run_def Let_def)
  have decorated: "rejection s rl k (cors_run tw p h' rq st)" if "rejection s rl k (h' rq st)" for p h'
    using that assms(3-5) by (simp add: cors_run_def rejection_on_answer)
  have sec: "''retry-after'' \<notin> set (map fst (ly_headers ly))"
    unfolding assms(2) by (rule header_pairs_names) (simp add: all_pairs_def)
  have out: "rejection s rl k (?sec (error_pages_run ly h') rq st)" if "rejection s rl k (h' rq st)" for h'
    using that secured_keeps [OF sec] negotiated_keeps(1) negotiated_keeps(2) [of "''retry-after''"]
    by (simp add: layer_if_def security_headers_run_def error_pages_run_def rejection_on_answer)
  show ?thesis
    using assms(1) h3 unfolding outer_layers_def Let_def by (auto intro: out decorated split: if_splits)
qed

text \<open>
  C36: A request the limiter rejects never reaches the routes, the templates or the body: the answer
  and the state are the same with any others behind the limiter. It is answered 429 with the seconds
  of the limiter in \<open>Retry-After\<close>, as JSON or as the error page, and counted once.
\<close>

theorem floods_stop_at_the_limiter:
  assumes "apply_layers ly tw templates routes = Some serve" "apply_layers ly tw templates' routes' = Some serve'"
    "mw_rate_limit (cf_middleware (ly_config ly))" "\<not> (ly_metrics ly \<and> mtc_path (cf_metrics (ly_config ly)) = hq_path rq)"
    "try_acquire_at (sh_limiter st) (client_address ly rq) (hq_instant rq) (hq_wall rq) = (Rejected s, rl)"
    "ly_headers ly = header_pairs (cf_security_headers (ly_config ly))"
    "\<forall>p. tw_preflight tw p rq = None" "\<forall>p rq a. ha_status (tw_decorate tw p rq a) = ha_status a"
    "\<forall>p rq a. values_of ''retry-after'' (tw_decorate tw p rq a) = values_of ''retry-after'' a"
  shows "serve rq st = serve' rq st \<and> rejection s rl (sh_rate_limited st + 1) (serve rq st)"
proof -
  obtain h h' where o: "outer_layers ly tw (rate_limit_run ly h) = Some serve" "outer_layers ly tw (rate_limit_run ly h') = Some serve'"
    using apply_layers_outer assms(1-3) by (metis layer_if_def)
  have run: "rate_limit_run ly k (rq\<lparr>hq_id := i\<rparr>) (st\<lparr>sh_requests := n\<rparr>) =
      ((rate_headers (nat \<lfloor>rl_capacity (sh_limiter st)\<rfloor>) 0 (error_answer ly (rate_limited s) i), 0),
       st\<lparr>sh_requests := n, sh_limiter := rl, sh_rate_limited := sh_rate_limited st + 1\<rparr>)" for k i n
    using rejected_at_the_limiter [of ly "rq\<lparr>hq_id := i\<rparr>" "st\<lparr>sh_requests := n\<rparr>" s rl k] assms(3-5) by (simp add: client_address_id)
  have "serve rq st = serve' rq st" by (rule outer_layers_cong [OF o]) (simp add: run)
  moreover have "rejection s rl (sh_rate_limited st + 1) (rate_limit_run ly h (rq\<lparr>hq_id := i\<rparr>) (st\<lparr>sh_requests := n\<rparr>))" for i n
    by (simp add: run rejection_def rate_headers_def error_answer_def rate_limited_def status_code_def values_of_def values_insert)
  ultimately show ?thesis using rejection_outwards [OF o(1) assms(6-9)] by blast
qed

section \<open>Samples\<close>

definition limited_config :: app_config where
  "limited_config = default_config\<lparr>cf_middleware := default_middleware\<lparr>mw_rate_limit := True\<rparr>\<rparr>"

definition sample_binding :: host_binding where
  "sample_binding = \<lparr>hb_hostname = ''a.b'', hb_organization = ''shop'', hb_document_root = ''/srv''\<rparr>"

definition sample_layers :: layers where
  "sample_layers = \<lparr>ly_config = limited_config, ly_headers = header_pairs default_security_headers, ly_bindings = [sample_binding],
     ly_trusted = [], ly_metrics = False, ly_encode = (\<lambda>_. ''{}''), ly_decode = (\<lambda>_. None)\<rparr>"

definition sample_tower :: tower_layers where
  "sample_tower = \<lparr>tw_preflight = (\<lambda>_ _. None), tw_decorate = (\<lambda>_ _ a. a), tw_limit = (\<lambda>_ h. h)\<rparr>"

definition sample_routes :: handler where
  "sample_routes = (\<lambda>rq st. ((\<lparr>ha_status = 200, ha_headers = [], ha_body = Some []\<rparr>, 0), st))"

definition other_routes :: handler where
  "other_routes = (\<lambda>rq st. ((\<lparr>ha_status = 500, ha_headers = [], ha_body = None\<rparr>, 7), st\<lparr>sh_requests := 0\<rparr>))"

definition sample_hit :: http_request where
  "sample_hit = \<lparr>hq_method = ''GET'', hq_path = ''/'', hq_target = Some ''/'', hq_headers = [], hq_peer = Some (V4 1), hq_id = None,
     hq_fresh_id = ''f'', hq_instant = 0, hq_wall = 0\<rparr>"

definition sample_shared :: shared_state where
  "sample_shared = \<lparr>sh_limiter = new_limiter 0 10, sh_requests = 0, sh_rate_limited = 0, sh_recorded = []\<rparr>"

lemma sample_layered: "\<exists>serve. apply_layers sample_layers sample_tower id r = Some serve"
  by (simp add: apply_layers_def Let_def sample_layers_def limited_config_def default_config_def default_middleware_def)

lemma show_8080: "show_nat 8080 = ''8080''"
  by (simp add: show_nat.simps digit_char_def char_of_def bit_0)

lemma default_widened:
  "form_action_sources limited_config [sample_binding] = [''http://a.b:8080'']"
  by (simp add: form_action_sources_def own_origin_def under_shared_domain_def limited_config_def default_config_def default_auth_def
      default_tls_def default_server_def sample_binding_def lowercase_def to_lower_def is_upper_def code_def show_8080)

definition short_config :: app_config where
  "short_config = limited_config\<lparr>cf_security_headers := default_security_headers\<lparr>shc_content_security_policy := ''form-action 'self'; img-src x''\<rparr>\<rparr>"

lemma short_family: "form_action_sources short_config [sample_binding] = [''http://a.b:8080'']"
  by (simp add: short_config_def form_action_sources_def own_origin_def under_shared_domain_def limited_config_def default_config_def
      default_auth_def default_tls_def default_server_def sample_binding_def lowercase_def to_lower_def is_upper_def code_def show_8080)

lemma short_csp: "shc_content_security_policy (cf_security_headers short_config) = ''form-action 'self'; img-src x''"
  by (simp add: short_config_def)

lemma short_policy: "form_action_csp short_config [sample_binding] = Some ''form-action 'self' http://a.b:8080; img-src x''"
  unfolding form_action_csp_def Let_def short_family short_csp
  by (simp add: expand_form_action_def form_action_words_def ascii_words_def ascii_space_def
      self_source_def form_action_text_def eq_ignore_case_def lowercase_def to_lower_def is_upper_def code_def header_ok_def)

theorem widened_policy_admits_the_family_witness:
  "\<exists>before d after sources d' additions.
    split_on (CHR '';'') ''form-action 'self'; img-src x'' = before @ d # after \<and>
    split_on (CHR '';'') ''form-action 'self' http://a.b:8080; img-src x'' = before @ d' # after \<and>
    form_action_words d = Some sources \<and> self_source \<in> set sources \<and> form_action_words d' = Some (sources @ additions)"
proof -
  have d: "acf_cookie_domain (cf_auth short_config) = [] \<or> word_ok (acf_cookie_domain (cf_auth short_config))"
    by (simp add: short_config_def limited_config_def default_config_def default_auth_def)
  have b: "\<forall>b \<in> set [sample_binding]. word_ok (hb_hostname b)" by (simp add: sample_binding_def word_ok_def ascii_space_def)
  show ?thesis
    using widened_policy_admits_the_family [OF short_policy d b, unfolded short_csp] by (elim exE conjE) (intro exI conjI)
qed

theorem every_answer_is_secured_witness:
  "values_of ''x-frame-options'' (fst (fst (the (apply_layers sample_layers sample_tower id sample_routes) sample_hit sample_shared))) = [''DENY'']"
proof -
  obtain serve where serve: "apply_layers sample_layers sample_tower id sample_routes = Some serve" using sample_layered by blast
  have "(''x-frame-options'', ''DENY'') \<in> set (ly_headers sample_layers)"
    by (simp add: sample_layers_def header_pairs_filter all_pairs_def default_security_headers_def header_ok_def code_def)
  moreover have "mw_security_headers (cf_middleware (ly_config sample_layers))" "ly_headers sample_layers = header_pairs (cf_security_headers (ly_config sample_layers))"
    by (simp_all add: sample_layers_def limited_config_def default_config_def default_middleware_def)
  ultimately have "values_of ''x-frame-options'' (fst (fst (serve sample_hit sample_shared))) =
      [case form_action_csp (ly_config sample_layers) (ly_bindings sample_layers) of
         Some policy \<Rightarrow> if ''x-frame-options'' = ''content-security-policy'' then policy else ''DENY'' | None \<Rightarrow> ''DENY'']"
    by (intro every_answer_is_secured [OF serve])
  then show ?thesis unfolding serve option.sel by (simp split: option.splits)
qed

lemma sample_rejected: "try_acquire_at (sh_limiter sample_shared) ip (hq_instant sample_hit) (hq_wall sample_hit) =
    (Rejected 1, snd (try_acquire_at (sh_limiter sample_shared) ip 0 0))"
proof -
  have "map_of (make_room max_tracked_ips (sweep_stale 0 0 10) ip []) ip = None"
    by (simp add: make_room_def sweep_stale_def max_tracked_ips_def Let_def)
  moreover have "\<lceil>1 / 10 :: real\<rceil> = 1" by (simp add: ceiling_eq_iff)
  ultimately show ?thesis
    by (simp add: sample_hit_def as_secs_f64_def try_acquire_at_def sample_shared_def new_limiter_def bucket_try_acquire_def refilled_def
        retry_secs_def u64_max_def Let_def)
qed

theorem floods_stop_at_the_limiter_witness:
  "the (apply_layers sample_layers sample_tower id sample_routes) sample_hit sample_shared =
     the (apply_layers sample_layers sample_tower id other_routes) sample_hit sample_shared \<and>
   ha_status (fst (fst (the (apply_layers sample_layers sample_tower id sample_routes) sample_hit sample_shared))) = 429"
proof -
  obtain serve serve' where serve: "apply_layers sample_layers sample_tower id sample_routes = Some serve"
    "apply_layers sample_layers sample_tower id other_routes = Some serve'" using sample_layered by blast
  have "serve sample_hit sample_shared = serve' sample_hit sample_shared \<and>
      rejection 1 (snd (try_acquire_at (sh_limiter sample_shared) (client_address sample_layers sample_hit) 0 0)) (sh_rate_limited sample_shared + 1)
        (serve sample_hit sample_shared)"
    by (rule floods_stop_at_the_limiter [OF serve _ _ sample_rejected])
      (simp_all add: sample_layers_def limited_config_def default_config_def default_middleware_def sample_tower_def)
  then show ?thesis unfolding serve option.sel rejection_def by blast
qed

text \<open>
  The allowlist of the redirects takes any port and either scheme of a mapped host, the policy only
  the scheme and port of the server: this redirect is answered and then stopped by the browser.
\<close>

lemma allowed_but_not_admitted:
  "own_url_allowed (\<lambda>_. Some (''https'', Some ''a.b'')) ''https://a.b/x'' None [] [sample_binding]"
  "own_origin limited_config ''a.b'' = ''http://a.b:8080''" "form_action_sources limited_config [sample_binding] = [''http://a.b:8080'']"
  using default_widened
  by (simp_all add: own_url_allowed_def sample_binding_def eq_ignore_case_refl lowercase_def to_lower_def is_upper_def code_def own_origin_def
      limited_config_def default_config_def default_tls_def default_server_def show_8080)

end
