(* ===== verification/Manager_Client.thy ===== *)
theory Manager_Client
  imports Util Sidecar Middleware
begin

text \<open>
  The endpoint client of the desktop manager (\<open>http.rs\<close>): URLs, redirects on the same host, the
  reading of an answer and the chunked bodies. Sockets and TLS are left out: a connection is the
  sequence of what its reads give, and the decoding of bytes that are no UTF-8 is a parameter.
\<close>

section \<open>Targets\<close>

record target =
  tg_url :: string
  tg_tls :: bool
  tg_authority :: string
  tg_path :: string

definition max_redirects :: nat where "max_redirects = 3"

definition parse_url :: "string \<Rightarrow> (string, target) result" where
  "parse_url url =
     (case (case strip_prefix ''https://'' url of
              Some rest \<Rightarrow> Some (True, rest)
            | None \<Rightarrow> map_option (\<lambda>rest. (False, rest)) (strip_prefix ''http://'' url)) of
        None \<Rightarrow> Inl (''the manager speaks `http://` and `https://` to the local server; `'' @ url @ ''` matches neither'')
      | Some (tls, rest) \<Rightarrow>
          (case (case split_once (CHR ''/'') rest of Some (authority, path) \<Rightarrow> (authority, CHR ''/'' # path) | None \<Rightarrow> (rest, ''/'')) of
             (authority, path) \<Rightarrow>
               if authority = [] then Inl (''no host in `'' @ url @ ''`'')
               else Inr \<lparr>tg_url = url, tg_tls = tls, tg_authority = authority, tg_path = path\<rparr>))"

definition resolve_location :: "target \<Rightarrow> string \<Rightarrow> (string, target) result" where
  "resolve_location current location0 =
     (let location = trim location0 in
      if starts_with ''http://'' location \<or> starts_with ''https://'' location then parse_url location
      else (case strip_prefix ''//'' location of
              Some rest \<Rightarrow> parse_url ((if tg_tls current then ''https://'' else ''http://'') @ rest)
            | None \<Rightarrow>
                (let path = (if starts_with ''/'' location then location
                             else (case rsplit_once (CHR ''/'') (tg_path current) of Some (directory, _) \<Rightarrow> directory | None \<Rightarrow> [])
                               @ ''/'' @ location)
                 in Inr \<lparr>tg_url = (if tg_tls current then ''https:'' else ''http:'') @ ''//'' @ tg_authority current @ path,
                         tg_tls = tg_tls current, tg_authority = tg_authority current, tg_path = path\<rparr>)))"

definition colons :: "string \<Rightarrow> nat" where
  "colons s = length (filter (\<lambda>c. c = CHR '':'') s)"

definition host_of :: "string \<Rightarrow> string" where
  "host_of authority =
     (case strip_prefix ''['' authority of
        Some rest \<Rightarrow> takeWhile (\<lambda>c. c \<noteq> CHR '']'') rest
      | None \<Rightarrow> if 1 < colons authority then authority else takeWhile (\<lambda>c. c \<noteq> CHR '':'') authority)"

definition same_host :: "target \<Rightarrow> target \<Rightarrow> bool" where
  "same_host one other \<longleftrightarrow> eq_ignore_case (host_of (tg_authority one)) (host_of (tg_authority other))"

text \<open>What the connection is opened to.\<close>

definition host_port :: "string \<Rightarrow> nat \<Rightarrow> (string, string \<times> nat) result" where
  "host_port authority default_port =
     (case (case strip_prefix ''['' authority of
              Some rest \<Rightarrow>
                (case split_once (CHR '']'') rest of
                   None \<Rightarrow> Inl (''unterminated IPv6 address in `'' @ authority @ ''`'')
                 | Some (host, tail) \<Rightarrow>
                     (case strip_prefix '':'' tail of
                        Some port \<Rightarrow> Inr (host, port)
                      | None \<Rightarrow> if tail = [] then Inr (host, [])
                          else Inl (''garbage after the IPv6 address in `'' @ authority @ ''`: `'' @ tail @ ''`'')))
            | None \<Rightarrow> if 1 < colons authority then Inr (authority, [])
                else (case split_once (CHR '':'') authority of Some hp \<Rightarrow> Inr hp | None \<Rightarrow> Inr (authority, []))) of
        Inl e \<Rightarrow> Inl e
      | Inr (host, port) \<Rightarrow>
          if port = [] then Inr (host, default_port)
          else (case parse_unsigned 65535 port of
                  Some p \<Rightarrow> Inr (host, p)
                | None \<Rightarrow> Inl (''invalid port in `'' @ authority @ ''`'')))"

section \<open>Redirects\<close>

datatype client_answer = Answer_Body string | Answer_Redirect nat string

text \<open>The loop over the redirects, with the targets that were fetched.\<close>

fun follow :: "(target \<Rightarrow> (string, client_answer) result) \<Rightarrow> string \<Rightarrow> nat \<Rightarrow> string \<Rightarrow> target \<Rightarrow> (string, string) result \<times> target list" where
  "follow fetch url 0 trail t = (Inl (''GET '' @ url @ '' redirected more than '' @ show_nat max_redirects @ '' times: '' @ trail), [])"
| "follow fetch url (Suc n) trail t =
     (case fetch t of
        Inl e \<Rightarrow> (Inl e, [t])
      | Inr (Answer_Body body) \<Rightarrow> (Inr body, [t])
      | Inr (Answer_Redirect status location) \<Rightarrow>
          (case resolve_location t location of
             Inl e \<Rightarrow> (Inl e, [t])
           | Inr next_target \<Rightarrow>
               if \<not> same_host t next_target
               then (Inl (''GET '' @ url @ '' answered '' @ show_nat status @ '' pointing at another host (`'' @ location
                      @ ''`) '' @ [CHR 0xE2, CHR 0x80, CHR 0x94] @ '' only same-host redirects are followed''), [t])
               else (case follow fetch url n (trail @ '' -> '' @ tg_url next_target) next_target of
                       (r, fetched) \<Rightarrow> (r, t # fetched))))"

definition http_get_text :: "(target \<Rightarrow> (string, client_answer) result) \<Rightarrow> string \<Rightarrow> (string, string) result \<times> target list" where
  "http_get_text fetch url =
     (case parse_url url of
        Inl e \<Rightarrow> (Inl e, [])
      | Inr t \<Rightarrow> follow fetch url (max_redirects + 1) (tg_url t) t)"

lemma takeWhile_split_once: "split_once c s = Some (a, b) \<Longrightarrow> takeWhile (\<lambda>x. x \<noteq> c) s = a"
  by (auto simp: split_once_def split: if_splits)

lemma takeWhile_no_sep: "split_once c s = None \<Longrightarrow> takeWhile (\<lambda>x. x \<noteq> c) s = s"
  using split_once_None [of c s] by (auto simp: takeWhile_eq_all_conv)

lemma host_port_host: "host_port authority d = Inr (h, p) \<Longrightarrow> h = host_of authority"
  unfolding host_port_def host_of_def
  by (auto simp: takeWhile_no_sep dest: takeWhile_split_once split: option.splits if_splits sum.splits prod.splits)

lemma follow_step:
  "snd (follow fetch url (Suc n) trail t) = [t] \<or>
   (\<exists>t' trail'. same_host t t' \<and> snd (follow fetch url (Suc n) trail t) = t # snd (follow fetch url n trail' t'))"
proof (cases "fetch t")
  case (Inr a)
  show ?thesis
  proof (cases a)
    case (Answer_Redirect status location)
    show ?thesis
    proof (cases "resolve_location t location")
      case (Inr t')
      with \<open>fetch t = Inr a\<close> Answer_Redirect show ?thesis
        by (cases "same_host t t'") (simp_all add: case_prod_unfold, blast)
    qed (simp add: \<open>fetch t = Inr a\<close> Answer_Redirect)
  qed (simp add: Inr)
qed simp

lemma same_host_trans: "same_host t u \<Longrightarrow> same_host u v \<Longrightarrow> same_host t v"
  by (simp add: same_host_def eq_ignore_case_def)

lemma same_host_refl: "same_host t t"
  by (simp add: same_host_def eq_ignore_case_def)

lemma follow_fetched:
  "(\<forall>u \<in> set (snd (follow fetch url n trail t)). same_host t u) \<and> length (snd (follow fetch url n trail t)) \<le> n"
proof (induction n arbitrary: trail t)
  case (Suc n)
  from follow_step [of fetch url n trail t] show ?case
  proof (elim disjE exE conjE)
    assume "snd (follow fetch url (Suc n) trail t) = [t]"
    then show ?thesis using same_host_refl by (simp del: follow.simps)
  next
    fix t' trail'
    assume "same_host t t'" "snd (follow fetch url (Suc n) trail t) = t # snd (follow fetch url n trail' t')"
    with Suc [of trail' t'] show ?thesis using same_host_refl same_host_trans by (auto simp del: follow.simps)
  qed
qed simp

text \<open>
  C40: Whatever the servers answer, the client connects at most four times, and every connection goes to
  the host of the URL it was given: no redirect leads to another one, however its address is written.
\<close>

theorem redirects_stay_on_the_host:
  assumes "parse_url url = Inr first"
  shows "length (snd (http_get_text fetch url)) \<le> 4 \<and>
    (\<forall>t \<in> set (snd (http_get_text fetch url)). \<forall>d h p. host_port (tg_authority t) d = Inr (h, p) \<longrightarrow>
      lowercase h = lowercase (host_of (tg_authority first)))"
proof -
  have "snd (http_get_text fetch url) = snd (follow fetch url 4 (tg_url first) first)"
    by (simp add: http_get_text_def assms max_redirects_def numeral_eq_Suc)
  with follow_fetched [of fetch url 4 "tg_url first" first] show ?thesis
    using host_port_host by (fastforce simp: same_host_def eq_ignore_case_def)
qed

theorem redirects_stay_on_the_host_witness:
  "length (snd (http_get_text (\<lambda>_. Inr (Answer_Redirect 308 ''https://localhost/health'')) ''http://localhost:8080/health'')) \<le> 4"
proof -
  have "\<exists>first. parse_url ''http://localhost:8080/health'' = Inr first"
    by (simp add: parse_url_def strip_prefix_def starts_with_def split_once_def)
  then show ?thesis using redirects_stay_on_the_host by blast
qed

section \<open>Reading an answer\<close>

definition find_response_head :: "string \<Rightarrow> nat option" where
  "find_response_head buf = find_str (crlf @ crlf) buf"

definition contains_head :: "string \<Rightarrow> bool" where
  "contains_head buf \<longleftrightarrow> find_response_head buf \<noteq> None"

definition looks_like_tls :: "string \<Rightarrow> bool" where
  "looks_like_tls response = (case response of a # b # _ \<Rightarrow> 20 \<le> code a \<and> code a \<le> 23 \<and> code b = 3 | _ \<Rightarrow> False)"

text \<open>What a read gives: bytes, none at the end, a timeout or another complaint.\<close>

datatype wire_event = Data string | Timed_Out | Broken string

fun read_until :: "string \<Rightarrow> (string \<Rightarrow> bool) \<Rightarrow> string \<Rightarrow> wire_event list \<Rightarrow> (string, string \<times> wire_event list) result" where
  "read_until url done_reading buf [] = Inr (buf, [])"
| "read_until url done_reading buf (e # es) =
     (if done_reading buf then Inr (buf, e # es)
      else (case e of
              Data bytes \<Rightarrow> if bytes = [] then Inr (buf, es) else read_until url done_reading (buf @ bytes) es
            | Timed_Out \<Rightarrow> if contains_head buf then Inr (buf, es) else Inl (url @ '' did not answer within the timeout'')
            | Broken why \<Rightarrow> if contains_head buf then Inr (buf, es) else Inl (''could not read from '' @ url @ '': '' @ why)))"

record response_head =
  rh_status :: nat
  rh_location :: "string option"
  rh_content_length :: "nat option"
  rh_chunked :: bool

definition note_header :: "response_head \<Rightarrow> string \<Rightarrow> response_head" where
  "note_header h row =
     (case split_once (CHR '':'') row of
        None \<Rightarrow> h
      | Some (name0, v0) \<Rightarrow>
          (let name = trim name0; v = trim v0 in
           if eq_ignore_case name ''location'' then h\<lparr>rh_location := Some v\<rparr>
           else if eq_ignore_case name ''content-length'' then h\<lparr>rh_content_length := parse_unsigned (2 ^ 64 - 1) v\<rparr>
           else if eq_ignore_case name ''transfer-encoding'' \<and> contains_str ''chunked'' (lowercase v) then h\<lparr>rh_chunked := True\<rparr>
           else h))"

definition parse_head :: "string \<Rightarrow> string \<Rightarrow> (string, response_head) result" where
  "parse_head head url =
     (let rows = text_lines head;
          status_line = (case rows of r # _ \<Rightarrow> r | [] \<Rightarrow> [])
      in case (case ascii_words status_line of _ # c # _ \<Rightarrow> parse_unsigned 65535 c | _ \<Rightarrow> None) of
           None \<Rightarrow> Inl (''malformed status line from '' @ url)
         | Some status \<Rightarrow>
             Inr (foldl note_header \<lparr>rh_status = status, rh_location = None, rh_content_length = None, rh_chunked = False\<rparr> (drop 1 rows)))"

section \<open>Chunked bodies\<close>

definition radix_val :: "char \<Rightarrow> nat option" where
  "radix_val c =
     (if is_digit c then Some (code c - 48)
      else if 97 \<le> code c \<and> code c \<le> 102 then Some (code c - 87)
      else if 65 \<le> code c \<and> code c \<le> 70 then Some (code c - 55) else None)"

fun hex_fold :: "nat \<Rightarrow> string \<Rightarrow> nat option" where
  "hex_fold acc [] = Some acc"
| "hex_fold acc (c # s) = (case radix_val c of Some d \<Rightarrow> hex_fold (16 * acc + d) s | None \<Rightarrow> None)"

text \<open>\<open>usize::from_str_radix(_, 16)\<close>.\<close>

definition parse_hex :: "string \<Rightarrow> nat option" where
  "parse_hex s =
     (let ds = (case strip_prefix ''+'' s of Some t \<Rightarrow> t | None \<Rightarrow> s) in
      if ds = [] then None
      else Option.bind (hex_fold 0 ds) (\<lambda>n. if n < 2 ^ 64 then Some n else None))"

definition boundary :: "string \<Rightarrow> nat \<Rightarrow> bool" where
  "boundary s n \<longleftrightarrow> n = 0 \<or> n = length s \<or> (n < length s \<and> \<not> (128 \<le> code (s ! n) \<and> code (s ! n) < 192))"

text \<open>Nothing is the panic of a slice that is not at the boundary of a character.\<close>

function dechunk :: "string \<Rightarrow> string option" where
  "dechunk rest =
     (case split_once (CHR 0x0A) rest of
        None \<Rightarrow> Some []
      | Some (size_line, remainder) \<Rightarrow>
          (case parse_hex (trim size_line) of
             None \<Rightarrow> Some []
           | Some n \<Rightarrow>
               if n = 0 then Some []
               else if \<not> boundary remainder (min (length remainder) n) then None
               else (let tail = drop (min (length remainder) n) remainder in
                     map_option ((@) (take (min (length remainder) n) remainder))
                       (case strip_prefix crlf tail of
                          Some next_chunk \<Rightarrow> dechunk next_chunk
                        | None \<Rightarrow> (case strip_prefix [CHR 0x0A] tail of Some next_chunk \<Rightarrow> dechunk next_chunk | None \<Rightarrow> Some [])))))"
  by pat_completeness auto
termination
  by (relation "measure length") (auto simp: strip_prefix_def dest!: split_once_Some split: if_splits)

declare dechunk.simps [simp del]

section \<open>One round trip\<close>

text \<open>
  What a connection yields, or nothing for the panic: \<open>lossy\<close> is \<open>from_utf8_lossy\<close>; the sum with the
  declared length wraps.
\<close>

definition classify_answer :: "target \<Rightarrow> response_head \<Rightarrow> string \<Rightarrow> (string, client_answer) result" where
  "classify_answer t h body =
     (let status = rh_status h in
      if 200 \<le> status \<and> status < 300 then Inr (Answer_Body body)
      else if 300 \<le> status \<and> status < 400
      then (case rh_location h of
              Some location \<Rightarrow> Inr (Answer_Redirect status location)
            | None \<Rightarrow> Inl (''GET '' @ tg_url t @ '' answered '' @ show_nat status @ '' without a Location to follow''))
      else Inl (''GET '' @ tg_url t @ '' answered '' @ show_nat status))"

definition fetch_answer :: "(string \<Rightarrow> string) \<Rightarrow> target \<Rightarrow> wire_event list \<Rightarrow> (string, client_answer) result option" where
  "fetch_answer lossy t events =
     (case read_until (tg_url t) contains_head [] events of
        Inl e \<Rightarrow> Some (Inl e)
      | Inr (response, es) \<Rightarrow>
          (case find_response_head response of
             None \<Rightarrow>
               Some (Inl (if looks_like_tls response
                 then ''GET '' @ tg_url t @ '' did not answer HTTP '' @ [CHR 0xE2, CHR 0x80, CHR 0x94]
                   @ '' that port is speaking TLS; an `https://` origin is needed''
                 else ''truncated answer from '' @ tg_url t))
           | Some head_end \<Rightarrow>
               (case parse_head (lossy (take head_end response)) (tg_url t) of
                  Inl e \<Rightarrow> Some (Inl e)
                | Inr h \<Rightarrow>
                    (case read_until (tg_url t)
                        (case rh_content_length h of Some n \<Rightarrow> (\<lambda>buf. (head_end + 4 + n) mod 2 ^ 64 \<le> length buf) | None \<Rightarrow> (\<lambda>_. False))
                        response es of
                       Inl e \<Rightarrow> Some (Inl e)
                     | Inr (whole, _) \<Rightarrow>
                         (let bytes = drop (min (head_end + 4) (length whole)) whole in
                          map_option (classify_answer t h)
                            (if rh_chunked h then dechunk (lossy bytes) else Some (lossy bytes)))))))"

section \<open>Chunks put together\<close>

definition hex_char :: "nat \<Rightarrow> char" where
  "hex_char d = (if d < 10 then char_of (48 + d) else char_of (87 + d))"

fun show_hex_nat :: "nat \<Rightarrow> string" where
  "show_hex_nat n = (if n < 16 then [hex_char n] else show_hex_nat (n div 16) @ [hex_char (n mod 16)])"

declare show_hex_nat.simps [simp del]

text \<open>The encoding of RFC 9112, as servers write it.\<close>

definition chunk :: "string \<Rightarrow> string" where
  "chunk d = show_hex_nat (length d) @ crlf @ d @ crlf"

definition chunked_body :: "string list \<Rightarrow> string" where
  "chunked_body ds = concat (map chunk ds) @ ''0'' @ crlf @ crlf"

lemma hex_val_char: "d < 16 \<Longrightarrow> radix_val (hex_char d) = Some d"
  by (auto simp: radix_val_def hex_char_def is_digit_def)

lemma hex_fold_snoc: "hex_fold a (s @ [c]) = Option.bind (hex_fold a s) (\<lambda>n. map_option (\<lambda>d. 16 * n + d) (radix_val c))"
  by (induction s arbitrary: a) (auto split: option.splits)

lemma hex_fold_show: "hex_fold 0 (show_hex_nat n) = Some n"
proof (induction n rule: show_hex_nat.induct)
  case (1 n)
  then show ?case
    by (subst show_hex_nat.simps) (simp add: hex_fold_snoc hex_val_char)
qed

lemma hex_graphic: "list_all graphic (show_hex_nat n) \<and> show_hex_nat n \<noteq> [] \<and> hd (show_hex_nat n) \<noteq> CHR ''+'' \<and> CHR 0x0A \<notin> set (show_hex_nat n)"
proof (induction n rule: show_hex_nat.induct)
  case (1 n)
  have c: "graphic (hex_char d)" "hex_char d \<noteq> CHR ''+''" "CHR 0x0A \<noteq> hex_char d" if "d < 16" for d
  proof -
    have "48 \<le> code (hex_char d) \<and> code (hex_char d) \<le> 102" using that by (simp add: hex_char_def)
    then have "graphic (hex_char d)" "hex_char d \<noteq> CHR ''+''" "hex_char d \<noteq> CHR 0x0A"
      by (auto simp: graphic_def code_def)
    then show "graphic (hex_char d)" "hex_char d \<noteq> CHR ''+''" "CHR 0x0A \<noteq> hex_char d" by metis+
  qed
  show ?case using 1 c by (cases "n < 16") (simp_all add: show_hex_nat.simps [of n])
qed

lemma trim_return:
  assumes "list_all graphic s" "s \<noteq> []"
  shows "trim (s @ [CHR 0x0D]) = s"
proof -
  have "graphic (hd s)" "graphic (last s)" using assms by (auto simp: list_all_iff)
  obtain c r where s: "s = c # r" using assms(2) by (cases s) auto
  have "trim_start (s @ [CHR 0x0D]) = s @ [CHR 0x0D]"
    using \<open>graphic (hd s)\<close> by (simp add: trim_start_def s trim_start_by_id graphic_not_ws)
  moreover obtain d q where r: "rev s = d # q" "graphic d" using assms(2) \<open>graphic (last s)\<close> by (metis hd_rev list.collapse rev_is_Nil_conv)
  have "ws_len_rev (CHR 0x0D # rev s) = 1"
    by (simp add: ws_len_rev_def head_len_def white_space_def)
  then have "trim_start_by ws_len_rev (CHR 0x0D # rev s) = rev s"
    using r by (subst trim_start_by.simps) (simp add: trim_start_by_id graphic_not_ws_rev)
  ultimately show ?thesis by (simp add: trim_def trim_end_def)
qed

lemma parse_hex_show: "n < 2 ^ 64 \<Longrightarrow> parse_hex (show_hex_nat n) = Some n"
proof -
  assume n: "n < 2 ^ 64"
  obtain c r where s: "show_hex_nat n = c # r" "c \<noteq> CHR ''+''" using hex_graphic [of n] by (cases "show_hex_nat n") auto
  then have "strip_prefix ''+'' (show_hex_nat n) = None" by (simp add: strip_prefix_def starts_with_def)
  with n s(1) hex_fold_show [of n] show ?thesis by (simp add: parse_hex_def)
qed

lemma dechunk_chunk:
  assumes "d \<noteq> []" "length d < 2 ^ 64"
  shows "dechunk (chunk d @ rest) = map_option ((@) d) (dechunk rest)"
proof -
  let ?line = "show_hex_nat (length d) @ [CHR 0x0D]"
  have "CHR 0x0A \<notin> set ?line" using hex_graphic by auto
  then have split: "split_once (CHR 0x0A) (chunk d @ rest) = Some (?line, d @ crlf @ rest)"
    using split_once_append [of "CHR 0x0A" ?line "d @ crlf @ rest"] by (simp add: chunk_def crlf_def)
  have "trim ?line = show_hex_nat (length d)" using hex_graphic trim_return by blast
  then have size: "parse_hex (trim ?line) = Some (length d)" using parse_hex_show assms(2) by simp
  have "boundary (d @ crlf @ rest) (length d)" by (simp add: boundary_def crlf_def nth_append code_def)
  moreover have "strip_prefix crlf (crlf @ rest) = Some rest" by (simp add: strip_prefix_def)
  ultimately show ?thesis
    using assms(1) by (subst dechunk.simps) (simp add: split size)
qed

lemma dechunk_end: "dechunk (''0'' @ crlf @ crlf) = Some []"
proof -
  have "split_once (CHR 0x0A) (''0'' @ crlf @ crlf) = Some (''0'' @ [CHR 0x0D], crlf)" by (simp add: split_once_def crlf_def)
  moreover have "trim (''0'' @ [CHR 0x0D]) = ''0''" by (rule trim_return) (simp_all add: graphic_def code_def)
  moreover have "parse_hex ''0'' = Some 0" by (simp add: parse_hex_def strip_prefix_def starts_with_def radix_val_def is_digit_def code_def)
  ultimately show ?thesis by (subst dechunk.simps) simp
qed

text \<open>
  A body a server sends in chunks is put together again as it was, wherever the chunks are cut.
\<close>

theorem chunked_bodies_are_put_together:
  assumes "\<forall>d \<in> set ds. d \<noteq> [] \<and> length d < 2 ^ 64"
  shows "dechunk (chunked_body ds) = Some (concat ds)"
  using assms
proof (induction ds)
  case (Cons d ds)
  then show ?case using dechunk_chunk [of d "chunked_body ds"] by (simp add: chunked_body_def)
qed (simp add: chunked_body_def dechunk_end [simplified])

theorem chunked_bodies_are_put_together_witness:
  "dechunk (chunked_body [''wallermax_uptime'', '' 12'']) = Some ''wallermax_uptime 12''"
  using chunked_bodies_are_put_together [of "[''wallermax_uptime'', '' 12'']"] by simp

section \<open>What is taken for an answer\<close>

definition plain_target :: target where
  "plain_target = \<lparr>tg_url = ''http://a/'', tg_tls = False, tg_authority = ''a'', tg_path = ''/''\<rparr>"

definition short_response :: "string \<Rightarrow> string \<Rightarrow> string" where
  "short_response declared body = ''HTTP/1.1 200 OK'' @ crlf @ ''content-length:'' @ declared @ crlf @ crlf @ body"

lemma short_response_parts:
  "take (32 + length ds) (short_response ds body) = ''HTTP/1.1 200 OK'' @ crlf @ ''content-length:'' @ ds"
  "drop (32 + length ds) (short_response ds body) = crlf @ crlf @ body"
proof -
  have "short_response ds body = (''HTTP/1.1 200 OK'' @ crlf @ ''content-length:'' @ ds) @ crlf @ crlf @ body"
    by (simp add: short_response_def)
  moreover have "32 + length ds = length (''HTTP/1.1 200 OK'' @ crlf @ ''content-length:'' @ ds)" by (simp add: crlf_def)
  ultimately show "take (32 + length ds) (short_response ds body) = ''HTTP/1.1 200 OK'' @ crlf @ ''content-length:'' @ ds"
    "drop (32 + length ds) (short_response ds body) = crlf @ crlf @ body" by (metis append_eq_conv_conj)+
qed

lemma short_response_head:
  assumes "ds \<noteq> []" "list_all is_digit ds"
  shows "find_response_head (short_response ds body) = Some (32 + length ds)"
    "parse_head (take (32 + length ds) (short_response ds body)) url =
      Inr \<lparr>rh_status = 200, rh_location = None, rh_content_length = parse_unsigned (2 ^ 64 - 1) ds, rh_chunked = False\<rparr>"
proof -
  have g: "list_all graphic ds" by (rule digits_graphic [OF assms(2)])
  have fresh: "CHR 0x0A \<notin> set ds" "CHR 0x0D \<notin> set ds" "CHR '':'' \<notin> set ds"
    using assms(2) by (auto simp: list_all_iff is_digit_def code_def)
  have "find_str (crlf @ crlf) (ds @ crlf @ crlf @ body) = Some (length ds)"
    using fresh by (induction ds) (auto simp: crlf_def)
  then show "find_response_head (short_response ds body) = Some (32 + length ds)"
    by (simp add: find_response_head_def short_response_def crlf_def)
  note t = short_response_parts(1) [of ds body]
  have "split_on (CHR 0x0A) (''HTTP/1.1 200 OK'' @ crlf @ ''content-length:'' @ ds) =
      [''HTTP/1.1 200 OK'' @ [CHR 0x0D], ''content-length:'' @ ds]"
    using fresh split_on_append_sep [of "CHR 0x0A" "''HTTP/1.1 200 OK'' @ [CHR 0x0D]" "''content-length:'' @ ds"]
      split_on_fresh [of "CHR 0x0A" "''content-length:'' @ ds"] by (simp add: crlf_def)
  moreover have "strip_suffix [CHR 0x0D] (''content-length:'' @ ds) = None"
  proof -
    have "last (''content-length:'' @ ds) = last ds" using assms(1) by (simp add: last_append)
    moreover have "last ds \<noteq> CHR 0x0D" using fresh assms(1) last_in_set by metis
    ultimately have "''content-length:'' @ ds \<noteq> u @ [CHR 0x0D]" for u by (metis last_snoc)
    then show ?thesis by (simp only: strip_suffix_def ends_with_iff) simp
  qed
  moreover have "strip_suffix [CHR 0x0D] (''HTTP/1.1 200 OK'' @ [CHR 0x0D]) = Some ''HTTP/1.1 200 OK''"
    by (simp add: strip_suffix_def ends_with_iff)
  ultimately have rows: "text_lines (''HTTP/1.1 200 OK'' @ crlf @ ''content-length:'' @ ds) = [''HTTP/1.1 200 OK'', ''content-length:'' @ ds]"
    unfolding text_lines_def by simp
  have "split_once (CHR '':'') (''content-length:'' @ ds) = Some (''content-length'', ds)" by (simp add: split_once_def)
  moreover have "trim ''content-length'' = ''content-length''" "trim ds = ds"
    using g by (simp_all add: trim_all_graphic graphic_def code_def)
  ultimately have "note_header h (''content-length:'' @ ds) = h\<lparr>rh_content_length := parse_unsigned (2 ^ 64 - 1) ds\<rparr>" for h
    by (simp add: note_header_def eq_ignore_case_def lowercase_def to_lower_def is_upper_def code_def)
  moreover have "ascii_words ''HTTP/1.1 200 OK'' = [''HTTP/1.1'', ''200'', ''OK'']" by (simp add: ascii_words_def ascii_space_def)
  moreover have "parse_unsigned 65535 ''200'' = Some 200" by (simp add: parse_unsigned_def is_digit_def code_def digits_val_def digit_val_def)
  ultimately show "parse_head (take (32 + length ds) (short_response ds body)) url =
      Inr \<lparr>rh_status = 200, rh_location = None, rh_content_length = parse_unsigned (2 ^ 64 - 1) ds, rh_chunked = False\<rparr>"
    unfolding t parse_head_def rows by simp
qed

text \<open>
  A body shorter than declared, the connection having ended, is taken as whole, and one that is longer
  is not cut.
\<close>

lemma declared_lengths_do_not_decide:
  assumes "ds \<noteq> []" "list_all is_digit ds"
  shows "fetch_answer (\<lambda>s. s) plain_target [Data (short_response ds body)] = Some (Inr (Answer_Body body))"
proof -
  let ?r = "short_response ds body"
  have head: "contains_head ?r" "\<not> contains_head []" using short_response_head(1) [OF assms]
    by (simp_all add: contains_head_def find_response_head_def crlf_def)
  have ne: "?r \<noteq> []" by (simp add: short_response_def)
  have "drop (36 + length ds) ?r = drop 4 (drop (32 + length ds) ?r)" by (simp add: add.commute)
  then have "drop (36 + length ds) ?r = body" unfolding short_response_parts by (simp add: crlf_def)
  moreover have "min (36 + length ds) (length ?r) = 36 + length ds" by (simp add: short_response_def crlf_def)
  ultimately have "drop (min (36 + length ds) (length ?r)) ?r = body" by simp
  moreover have "read_until u f ?r [] = Inr (?r, [])" for u f by simp
  ultimately show ?thesis
    using head ne short_response_head [OF assms]
    by (simp add: fetch_answer_def classify_answer_def split: option.split)
qed

text \<open>A chunk that ends inside a character, as the decoding leaves it, panics.\<close>

lemma split_character_panics: "dechunk (''1'' @ crlf @ [CHR 0xEF, CHR 0xBF, CHR 0xBD] @ crlf) = None"
proof -
  have "split_once (CHR 0x0A) (''1'' @ crlf @ [CHR 0xEF, CHR 0xBF, CHR 0xBD] @ crlf) =
      Some (''1'' @ [CHR 0x0D], [CHR 0xEF, CHR 0xBF, CHR 0xBD] @ crlf)" by (simp add: split_once_def crlf_def)
  moreover have "trim (''1'' @ [CHR 0x0D]) = ''1''" by (rule trim_return) (simp_all add: graphic_def code_def)
  moreover have "parse_hex ''1'' = Some 1" by (simp add: parse_hex_def strip_prefix_def starts_with_def radix_val_def is_digit_def code_def)
  ultimately show ?thesis by (subst dechunk.simps) (simp add: boundary_def code_def)
qed

end
