(* ===== verification/Manager_Files.thy ===== *)
theory Manager_Files
  imports Manager_Client "HOL-Library.Sublist"
begin

text \<open>
  The files of the desktop manager: the editing of the two configuration layers
  (\<open>config_manager.rs\<close>), its settings (\<open>settings.rs\<close>, \<open>app.rs\<close>) and what it reads of the server's metrics
  (\<open>metrics.rs\<close>). The directory is the table of its files, and every access to the disk may fail; the
  TOML library is a parameter that gives a document its tables.
\<close>

section \<open>Documents\<close>

datatype toml = T_Str string | T_Other string | T_Table "(string \<times> toml) list"

definition split_dotted :: "string \<Rightarrow> (string list \<times> string) option" where
  "split_dotted dotted =
     (let parts = filter (\<lambda>p. p \<noteq> []) (map trim (split_on (CHR ''.'') dotted)) in
      if parts = [] then None else Some (butlast parts, last parts))"

fun set_path :: "string list \<Rightarrow> string \<Rightarrow> toml \<Rightarrow> (string \<times> toml) list \<Rightarrow> (string \<times> toml) list option" where
  "set_path [] key v t = Some (put key v t)"
| "set_path (p # ps) key v t =
     (case map_of t p of
        None \<Rightarrow> map_option (\<lambda>sub. put p (T_Table sub) t) (set_path ps key v [])
      | Some (T_Table sub) \<Rightarrow> map_option (\<lambda>sub'. put p (T_Table sub') t) (set_path ps key v sub)
      | Some _ \<Rightarrow> None)"

fun get_path :: "string list \<Rightarrow> string \<Rightarrow> (string \<times> toml) list \<Rightarrow> toml option" where
  "get_path [] key t = map_of t key"
| "get_path (p # ps) key t = (case map_of t p of Some (T_Table sub) \<Rightarrow> get_path ps key sub | _ \<Rightarrow> None)"

text \<open>The TOML library: documents, single values, printing; the error has its text and its place.\<close>

record toml_crate =
  tc_parse :: "string \<Rightarrow> (string \<times> nat option, (string \<times> toml) list) result"
  tc_value :: "string \<Rightarrow> toml option"
  tc_print :: "(string \<times> toml) list \<Rightarrow> string"
  tc_item :: "toml \<Rightarrow> string"

definition set_dotted :: "string \<Rightarrow> toml \<Rightarrow> (string \<times> toml) list \<Rightarrow> (string, (string \<times> toml) list) result" where
  "set_dotted dotted v t =
     (case split_dotted dotted of
        None \<Rightarrow> Inl (''`'' @ dotted @ ''` is not a dotted key'')
      | Some (tables, key) \<Rightarrow> ok_or (set_path tables key v t) (''`'' @ dotted @ ''` crosses a value that is not a table''))"

definition to_toml_value :: "toml_crate \<Rightarrow> string \<Rightarrow> toml" where
  "to_toml_value tc raw = (case tc_value tc raw of Some v \<Rightarrow> v | None \<Rightarrow> T_Str raw)"

fun set_all :: "toml_crate \<Rightarrow> (string \<times> string) list \<Rightarrow> (string \<times> toml) list \<Rightarrow> (string, (string \<times> toml) list) result" where
  "set_all tc [] t = Inr t"
| "set_all tc ((dotted, v) # ps) t = and_then (set_dotted dotted (to_toml_value tc v) t) (set_all tc ps)"

lemma get_set_same: "set_path ps key v t = Some t' \<Longrightarrow> get_path ps key t' = Some v"
  by (induction ps key v t arbitrary: t' rule: set_path.induct) (auto split: option.splits toml.splits)

lemma get_set_other:
  "set_path ps key v t = Some t' \<Longrightarrow> \<not> prefix (ps @ [key]) (qs @ [m]) \<Longrightarrow> \<not> prefix (qs @ [m]) (ps @ [key]) \<Longrightarrow>
    get_path qs m t' = get_path qs m t"
proof (induction ps key v t arbitrary: t' qs rule: set_path.induct)
  case (1 key v t)
  then show ?case by (cases qs) auto
next
  case (2 p ps key v t)
  show ?case
  proof (cases qs)
    case Nil
    with 2 show ?thesis by (auto split: option.splits toml.splits)
  next
    case (Cons q qs')
    show ?thesis
    proof (cases "q = p")
      case True
      have empty: "get_path xs m [] = None" for xs by (cases xs) simp_all
      show ?thesis
      proof (cases "map_of t p")
        case None
        with 2(3) obtain sub where "set_path ps key v [] = Some sub" "t' = put p (T_Table sub) t" by auto
        with 2(1) [OF None, of sub qs'] 2(4,5) Cons True None empty show ?thesis by simp
      next
        case (Some x)
        with 2(3) obtain sub sub' where "x = T_Table sub" "set_path ps key v sub = Some sub'" "t' = put p (T_Table sub') t"
          by (cases x) auto
        with 2(2) [of x sub sub' qs'] 2(4,5) Cons True Some show ?thesis by simp
      qed
    next
      case False
      with 2(3) Cons show ?thesis by (auto split: option.splits toml.splits)
    qed
  qed
qed

text \<open>
  An edit of one dotted key of a configuration file is surgical: the key reads back as the value
  written, and every other key reads as before, unless one of the two keys lies under the other.
\<close>

theorem edits_are_surgical:
  assumes "set_dotted dotted v t = Inr t'" "split_dotted dotted = Some (tables, key)"
  shows "get_path tables key t' = Some v \<and>
    (\<forall>qs m. prefix (tables @ [key]) (qs @ [m]) \<or> prefix (qs @ [m]) (tables @ [key]) \<or> get_path qs m t' = get_path qs m t)"
proof -
  have "set_path tables key v t = Some t'" using assms by (auto simp: set_dotted_def ok_or_def split: option.splits)
  then show ?thesis using get_set_same get_set_other by blast
qed

theorem edits_are_surgical_witness:
  "get_path [''server''] ''port'' [(''server'', T_Table [(''port'', T_Other ''9000''), (''host'', T_Str ''h'')]), (''x'', T_Other ''1'')] = Some (T_Other ''9000'') \<and>
   get_path [] ''x'' [(''server'', T_Table [(''port'', T_Other ''9000''), (''host'', T_Str ''h'')]), (''x'', T_Other ''1'')] =
     get_path [] ''x'' [(''server'', T_Table [(''port'', T_Other ''8080''), (''host'', T_Str ''h'')]), (''x'', T_Other ''1'')]"
proof -
  have s: "split_dotted ''server.port'' = Some ([''server''], ''port'')"
    by (simp add: split_dotted_def trim_all_graphic graphic_def code_def)
  then have "set_dotted ''server.port'' (T_Other ''9000'') [(''server'', T_Table [(''port'', T_Other ''8080''), (''host'', T_Str ''h'')]), (''x'', T_Other ''1'')] =
      Inr [(''server'', T_Table [(''port'', T_Other ''9000''), (''host'', T_Str ''h'')]), (''x'', T_Other ''1'')]"
    by (simp add: set_dotted_def put_def)
  note edited = edits_are_surgical [OF this s]
  have "\<not> prefix ([''server''] @ [''port'']) ([] @ [''x''])" "\<not> prefix ([] @ [''x'']) ([''server''] @ [''port''])" by simp_all
  with edited show ?thesis by blast
qed

section \<open>The two layers\<close>

datatype layer = Base_Layer | Local_Layer

definition base_file :: string where "base_file = ''wallermax.toml''"
definition local_file :: string where "local_file = ''wallermax.local.toml''"

definition layer_of_name :: "string \<Rightarrow> (string, layer) result" where
  "layer_of_name name =
     (if name = ''base'' then Inr Base_Layer else if name = ''local'' then Inr Local_Layer
      else Inl (''unknown configuration file `'' @ name @ ''`; expected `base` or `local`''))"

definition layer_file :: "layer \<Rightarrow> string" where
  "layer_file which = (case which of Base_Layer \<Rightarrow> base_file | Local_Layer \<Rightarrow> local_file)"

text \<open>
  What the disk does during one call: whether the files can be read, whether the copy of the backup and
  the write of the temporary file succeed (a failure may leave any part behind), whether the rename
  does, and the two readings of the clock.
\<close>

record disk_luck =
  dl_readable :: bool
  dl_copy :: "string option"
  dl_write :: "string option"
  dl_rename :: bool
  dl_stamp :: nat
  dl_temp_stamp :: nat

type_synonym directory = "(string, string) table"

definition read_layer :: "disk_luck \<Rightarrow> directory \<Rightarrow> layer \<Rightarrow> (string, string) result" where
  "read_layer dl dir which =
     (case map_of dir (layer_file which) of
        None \<Rightarrow> Inr []
      | Some text \<Rightarrow> if dl_readable dl then Inr text else Inl (''could not read '' @ layer_file which))"

definition toml_syntax_error :: "toml_crate \<Rightarrow> string \<Rightarrow> string \<Rightarrow> string option" where
  "toml_syntax_error tc file text =
     (if trim text = [] then None
      else (case tc_parse tc text of
              Inr _ \<Rightarrow> None
            | Inl (message, place) \<Rightarrow>
                Some (case place of
                    Some start \<Rightarrow> file @ '': line '' @ show_nat (length (filter (\<lambda>c. c = CHR 0x0A) (take start text)) + 1) @ '': '' @ message
                  | None \<Rightarrow> file @ '': '' @ message)))"

text \<open>The validation of a pair, with the loader of the server.\<close>

record pair_loader =
  pl_toml :: toml_crate
  pl_nets :: net_crates
  pl_builder :: builder
  pl_show :: "config_error \<Rightarrow> string"

definition validate_pair :: "pair_loader \<Rightarrow> string \<Rightarrow> string \<Rightarrow> (string, unit) result" where
  "validate_pair pl layer1 layer2 =
     (case toml_syntax_error (pl_toml pl) base_file layer1 of
        Some e \<Rightarrow> Inl e
      | None \<Rightarrow>
          (case toml_syntax_error (pl_toml pl) local_file layer2 of
             Some e \<Rightarrow> Inl e
           | None \<Rightarrow>
               (case load_from_toml_layers (pl_nets pl) (pl_builder pl) (Some layer1) (Some layer2) of
                  Inl e \<Rightarrow> Inl (pl_show pl e)
                | Inr _ \<Rightarrow> Inr ())))"

definition backup_prefix :: "layer \<Rightarrow> string" where
  "backup_prefix which = layer_file which @ ''.bak-''"

text \<open>The first free name: one of as many candidates as there are files, and one more, is free.\<close>

definition backup_name :: "disk_luck \<Rightarrow> directory \<Rightarrow> layer \<Rightarrow> string" where
  "backup_name dl dir which =
     (let plain = backup_prefix which @ show_nat (dl_stamp dl);
          candidates = plain # map (\<lambda>n. plain @ ''-'' @ show_nat n) [2..<length dir + 3]
      in case find (\<lambda>c. map_of dir c = None) candidates of Some c \<Rightarrow> c | None \<Rightarrow> plain)"

definition backup :: "disk_luck \<Rightarrow> layer \<Rightarrow> directory \<Rightarrow> (string, string option) result \<times> directory" where
  "backup dl which dir =
     (case map_of dir (layer_file which) of
        None \<Rightarrow> (Inr None, dir)
      | Some text \<Rightarrow>
          (let name = backup_name dl dir which in
           case dl_copy dl of
             None \<Rightarrow> (Inr (Some name), put name text dir)
           | Some part \<Rightarrow> (Inl (''could not back up '' @ layer_file which), put name part dir)))"

text \<open>The temporary file is the layer with its extension replaced.\<close>

definition temp_name :: "disk_luck \<Rightarrow> layer \<Rightarrow> string" where
  "temp_name dl which =
     (case which of Base_Layer \<Rightarrow> ''wallermax'' | Local_Layer \<Rightarrow> ''wallermax.local'') @ ''.tmp-'' @ show_nat (dl_temp_stamp dl)"

definition write_atomically :: "disk_luck \<Rightarrow> layer \<Rightarrow> string \<Rightarrow> directory \<Rightarrow> (string, unit) result \<times> directory" where
  "write_atomically dl which content dir =
     (let temp = temp_name dl which in
      case dl_write dl of
        Some part \<Rightarrow> (Inl (''could not write '' @ temp), put temp part dir)
      | None \<Rightarrow>
          if dl_rename dl then (Inr (), put (layer_file which) content (drop_key temp dir))
          else (Inl (''could not replace '' @ layer_file which), put temp content dir))"

definition write_raw :: "pair_loader \<Rightarrow> disk_luck \<Rightarrow> layer \<Rightarrow> string \<Rightarrow> directory \<Rightarrow> (string, unit) result \<times> directory" where
  "write_raw pl dl which content dir =
     (case (read_layer dl dir Base_Layer, read_layer dl dir Local_Layer) of
        (Inr layer1, Inr layer2) \<Rightarrow>
          (case (case which of Base_Layer \<Rightarrow> validate_pair pl content layer2 | Local_Layer \<Rightarrow> validate_pair pl layer1 content) of
             Inl e \<Rightarrow> (Inl e, dir)
           | Inr _ \<Rightarrow>
               (case backup dl which dir of
                  (Inl e, dir') \<Rightarrow> (Inl e, dir')
                | (Inr _, dir') \<Rightarrow> write_atomically dl which content dir'))
      | (Inl e, _) \<Rightarrow> (Inl e, dir)
      | (_, Inl e) \<Rightarrow> (Inl e, dir))"

definition set_values :: "pair_loader \<Rightarrow> disk_luck \<Rightarrow> layer \<Rightarrow> (string \<times> string) list \<Rightarrow> directory \<Rightarrow> (string, unit) result \<times> directory" where
  "set_values pl dl which edits dir =
     (case read_layer dl dir which of
        Inl e \<Rightarrow> (Inl e, dir)
      | Inr text \<Rightarrow>
          (case tc_parse (pl_toml pl) text of
             Inl (message, _) \<Rightarrow> (Inl (layer_file which @ '': '' @ message), dir)
           | Inr document \<Rightarrow>
               (case set_all (pl_toml pl) edits document of
                  Inl e \<Rightarrow> (Inl e, dir)
                | Inr document' \<Rightarrow> write_raw pl dl which (tc_print (pl_toml pl) document') dir)))"

definition get_config_value :: "pair_loader \<Rightarrow> disk_luck \<Rightarrow> layer \<Rightarrow> string \<Rightarrow> directory \<Rightarrow> string option" where
  "get_config_value pl dl which dotted dir =
     (case read_layer dl dir which of
        Inl _ \<Rightarrow> None
      | Inr text \<Rightarrow>
          (case tc_parse (pl_toml pl) text of
             Inl _ \<Rightarrow> None
           | Inr document \<Rightarrow>
               Option.bind (split_dotted dotted) (\<lambda>(tables, key).
                 map_option (\<lambda>item. case item of T_Str s \<Rightarrow> s | _ \<Rightarrow> trim (tc_item (pl_toml pl) item)) (get_path tables key document))))"

definition backups :: "layer \<Rightarrow> directory \<Rightarrow> string list" where
  "backups which dir = rev (sort (filter (starts_with (backup_prefix which)) (map fst dir)))"

definition restore_backup :: "pair_loader \<Rightarrow> disk_luck \<Rightarrow> layer \<Rightarrow> string \<Rightarrow> directory \<Rightarrow> (string, unit) result \<times> directory" where
  "restore_backup pl dl which name dir =
     (if CHR ''/'' \<in> set name \<or> CHR 0x5C \<in> set name \<or> \<not> starts_with (backup_prefix which) name
      then (Inl (''`'' @ name @ ''` is not a backup of '' @ layer_file which), dir)
      else (case map_of dir name of
              Some content \<Rightarrow> if dl_readable dl then write_raw pl dl which content dir else (Inl (''could not read '' @ name), dir)
            | None \<Rightarrow> (Inl (''could not read '' @ name), dir)))"

section \<open>What the files keep\<close>

lemma file_names:
  "layer_file w = layer_file u \<longleftrightarrow> w = u"
  "layer_file w \<noteq> backup_prefix u @ x" "backup_prefix u @ x \<noteq> layer_file w"
  "layer_file w \<noteq> temp_name dl u" "temp_name dl u \<noteq> layer_file w"
  "temp_name dl w \<noteq> backup_prefix u @ x" "backup_prefix u @ x \<noteq> temp_name dl w"
  by (cases w; cases u; simp add: layer_file_def backup_prefix_def temp_name_def base_file_def local_file_def)+

lemma backup_name_fresh: "map_of dir (backup_name dl dir w) = None" "\<exists>x. backup_name dl dir w = backup_prefix w @ x"
proof -
  let ?plain = "backup_prefix w @ show_nat (dl_stamp dl)"
  let ?cs = "?plain # map (\<lambda>n. ?plain @ ''-'' @ show_nat n) [2..<length dir + 3]"
  have "inj_on (\<lambda>n. ?plain @ ''-'' @ show_nat n) (set [2..<length dir + 3])" by (auto simp: inj_on_def show_nat_inject)
  then have "distinct ?cs" by (auto simp: distinct_map)
  then have "card (set ?cs) = length dir + 2" using distinct_card by fastforce
  moreover have "card (fst ` set dir) \<le> length dir" by (metis card_image_le card_length finite_set le_trans)
  ultimately have "\<not> set ?cs \<subseteq> fst ` set dir" using card_mono [of "fst ` set dir" "set ?cs"] by auto
  then obtain c where "c \<in> set ?cs" "map_of dir c = None" by (auto simp: map_of_eq_None_iff)
  then obtain d where d: "find (\<lambda>c. map_of dir c = None) ?cs = Some d" by (metis (mono_tags, lifting) find_None_iff not_None_eq)
  then have name: "backup_name dl dir w = d" unfolding backup_name_def Let_def by simp
  have "map_of dir d = None \<and> d \<in> set ?cs" using d unfolding find_Some_iff by (metis nth_mem)
  then show "map_of dir (backup_name dl dir w) = None" "\<exists>x. backup_name dl dir w = backup_prefix w @ x"
    unfolding name by auto
qed

lemma map_of_drop: "map_of (drop_key k t) x = (if x = k then None else map_of t x)"
  by (induction t) (auto simp: drop_key_def)

lemma backup_outcome:
  assumes "backup dl w dir = (r, dir')"
  shows "map_of dir' (layer_file u) = map_of dir (layer_file u)"
    "map_of dir x \<noteq> None \<Longrightarrow> map_of dir' x = map_of dir x"
    "r = Inr name \<Longrightarrow> map_of dir (layer_file w) = Some old \<Longrightarrow>
      \<exists>b. map_of dir (backup_prefix w @ b) = None \<and> map_of dir' (backup_prefix w @ b) = Some old"
proof -
  obtain b where b: "backup_name dl dir w = backup_prefix w @ b" using backup_name_fresh(2) by blast
  have free: "map_of dir (backup_prefix w @ b) = None" using backup_name_fresh(1) [of dir dl w] b by simp
  have ne: "layer_file u \<noteq> backup_prefix w @ b" by (rule file_names(2))
  show "map_of dir' (layer_file u) = map_of dir (layer_file u)"
    using assms ne by (auto simp: backup_def Let_def b split: option.splits)
  show "map_of dir x \<noteq> None \<Longrightarrow> map_of dir' x = map_of dir x"
    using assms free by (auto simp: backup_def Let_def b split: option.splits)
  show "r = Inr name \<Longrightarrow> map_of dir (layer_file w) = Some old \<Longrightarrow>
      \<exists>b. map_of dir (backup_prefix w @ b) = None \<and> map_of dir' (backup_prefix w @ b) = Some old"
    using assms free by (intro exI [of _ b]) (auto simp: backup_def Let_def b split: option.splits)
qed

lemma written_outcome:
  assumes "write_atomically dl w content dir = (r, dir')"
  shows "map_of dir' (layer_file u) = (if r = Inr () \<and> u = w then Some content else map_of dir (layer_file u))"
    "map_of dir' (backup_prefix v @ b) = map_of dir (backup_prefix v @ b)"
    "x \<noteq> layer_file w \<Longrightarrow> x \<noteq> temp_name dl w \<Longrightarrow> map_of dir' x = map_of dir x"
  using assms by (auto simp: write_atomically_def Let_def map_of_drop file_names split: option.splits if_splits)

lemma write_raw_cases:
  assumes "write_raw pl dl w content dir = (r, dir')"
  shows "(\<exists>e. r = Inl e \<and> dir' = dir) \<or>
    (\<exists>layer1 layer2 q. read_layer dl dir Base_Layer = Inr layer1 \<and> read_layer dl dir Local_Layer = Inr layer2 \<and>
      (case w of Base_Layer \<Rightarrow> validate_pair pl content layer2 | Local_Layer \<Rightarrow> validate_pair pl layer1 content) = Inr () \<and>
      (backup dl w dir = (Inl q, dir') \<and> r = Inl q \<or>
       (\<exists>n dir1. backup dl w dir = (Inr n, dir1) \<and> write_atomically dl w content dir1 = (r, dir'))))"
proof (cases "read_layer dl dir Base_Layer")
  case layer1: (Inr layer1)
  show ?thesis
  proof (cases "read_layer dl dir Local_Layer")
    case layer2: (Inr layer2)
    let ?v = "case w of Base_Layer \<Rightarrow> validate_pair pl content layer2 | Local_Layer \<Rightarrow> validate_pair pl layer1 content"
    show ?thesis
    proof (cases ?v)
      case (Inl e)
      with assms have "r = Inl e \<and> dir' = dir" by (auto simp: write_raw_def layer1 layer2)
      then show ?thesis by blast
    next
      case (Inr u)
      obtain b dir1 where b: "backup dl w dir = (b, dir1)" by fastforce
      with Inr assms layer1 layer2 show ?thesis by (cases b) (auto simp: write_raw_def)
    qed
  qed (use assms layer1 in \<open>auto simp: write_raw_def\<close>)
qed (use assms in \<open>auto simp: write_raw_def split: sum.splits\<close>)

definition layer_text :: "directory \<Rightarrow> layer \<Rightarrow> string" where
  "layer_text dir w = (case map_of dir (layer_file w) of Some text \<Rightarrow> text | None \<Rightarrow> [])"

lemma read_layer_text: "read_layer dl dir w = Inr text \<Longrightarrow> text = layer_text dir w"
  by (auto simp: read_layer_def layer_text_def split: option.splits if_splits)

definition pair_loads :: "pair_loader \<Rightarrow> directory \<Rightarrow> bool" where
  "pair_loads pl dir \<longleftrightarrow> (\<exists>c. load_from_toml_layers (pl_nets pl) (pl_builder pl)
     (Some (layer_text dir Base_Layer)) (Some (layer_text dir Local_Layer)) = Inr c)"

lemma validate_pair_loads: "validate_pair pl a b = Inr () \<Longrightarrow> \<exists>c. load_from_toml_layers (pl_nets pl) (pl_builder pl) (Some a) (Some b) = Inr c"
  by (auto simp: validate_pair_def split: option.splits sum.splits)

lemma write_raw_layers:
  assumes "write_raw pl dl w content dir = (r, dir')"
  shows "layer_text dir' u = (if r = Inr () \<and> u = w then content else layer_text dir u)"
    "r = Inr () \<Longrightarrow> (\<exists>c. load_from_toml_layers (pl_nets pl) (pl_builder pl)
      (Some (if w = Base_Layer then content else layer_text dir Base_Layer))
      (Some (if w = Local_Layer then content else layer_text dir Local_Layer)) = Inr c)"
proof -
  from write_raw_cases [OF assms] show "layer_text dir' u = (if r = Inr () \<and> u = w then content else layer_text dir u)"
    by (auto simp: layer_text_def written_outcome(1) backup_outcome(1))
  assume "r = Inr ()"
  with write_raw_cases [OF assms] obtain layer1 layer2 where
    "read_layer dl dir Base_Layer = Inr layer1" "read_layer dl dir Local_Layer = Inr layer2"
    "(case w of Base_Layer \<Rightarrow> validate_pair pl content layer2 | Local_Layer \<Rightarrow> validate_pair pl layer1 content) = Inr ()" by auto
  then show "\<exists>c. load_from_toml_layers (pl_nets pl) (pl_builder pl)
      (Some (if w = Base_Layer then content else layer_text dir Base_Layer))
      (Some (if w = Local_Layer then content else layer_text dir Local_Layer)) = Inr c"
    using validate_pair_loads read_layer_text by (cases w) auto
qed

lemma write_raw_loads: "pair_loads pl dir \<Longrightarrow> pair_loads pl (snd (write_raw pl dl w content dir))"
proof -
  assume l: "pair_loads pl dir"
  obtain r dir' where w: "write_raw pl dl w content dir = (r, dir')" by (metis prod.exhaust)
  show ?thesis
  proof (cases "r = Inr ()")
    case True
    from write_raw_layers [OF w] True show ?thesis unfolding w pair_loads_def by (cases w) auto
  next
    case False
    with l write_raw_layers(1) [OF w] show ?thesis by (simp add: w pair_loads_def)
  qed
qed

datatype editor_call = Write_Layer layer string | Set_Values layer "(string \<times> string) list" | Restore_Backup layer string

fun editor_step :: "pair_loader \<Rightarrow> disk_luck \<times> editor_call \<Rightarrow> directory \<Rightarrow> directory" where
  "editor_step pl (dl, Write_Layer w content) dir = snd (write_raw pl dl w content dir)"
| "editor_step pl (dl, Set_Values w edits) dir = snd (set_values pl dl w edits dir)"
| "editor_step pl (dl, Restore_Backup w name) dir = snd (restore_backup pl dl w name dir)"

lemma editor_step_loads: "pair_loads pl dir \<Longrightarrow> pair_loads pl (editor_step pl call dir)"
  by (cases "(pl, call, dir)" rule: editor_step.cases)
    (auto simp: write_raw_loads set_values_def restore_backup_def split: sum.split option.split)

definition sample_loader :: pair_loader where
  "sample_loader = \<lparr>pl_toml = \<lparr>tc_parse = (\<lambda>_. Inr []), tc_value = (\<lambda>_. None), tc_print = (\<lambda>_. []), tc_item = (\<lambda>_. [])\<rparr>,
     pl_nets = sample_crates, pl_builder = plain_builder, pl_show = (\<lambda>_. [])\<rparr>"

definition calm_disk :: disk_luck where
  "calm_disk = \<lparr>dl_readable = True, dl_copy = None, dl_write = None, dl_rename = True, dl_stamp = 1, dl_temp_stamp = 2\<rparr>"

lemma empty_directory_loads: "pair_loads sample_loader []"
proof -
  have "normalize_config default_config = default_config" by (simp add: normalize_config_def default_config_def default_cms_def)
  moreover have "trim [] = []" by (rule trim_graphic) simp_all
  ultimately show ?thesis
    by (simp add: pair_loads_def sample_loader_def layer_text_def load_from_toml_layers_def toml_layer_def finish_load_def
        plain_builder_def default_config_valid)
qed

text \<open>
  C38: Whatever is written, edited and restored in the manager, and whichever accesses to the disk fail
  half way, the pair of configuration files on the disk stays one that the server loads.
\<close>

theorem layers_always_load:
  assumes "pair_loads pl dir"
  shows "pair_loads pl (fold (editor_step pl) calls dir)"
  using assms by (induction calls arbitrary: dir) (simp_all add: editor_step_loads)

theorem layers_always_load_witness:
  "pair_loads sample_loader (fold (editor_step sample_loader) [(calm_disk, Write_Layer Local_Layer ''x = 1''), (calm_disk, Set_Values Base_Layer [])] [])"
  by (rule layers_always_load [OF empty_directory_loads])

text \<open>
  A write that is answered with success has the new text in its layer and the old text in a backup
  of a new name; one that fails leaves the layer as it was. The other layer and every other file, the
  temporary one aside, stay.
\<close>

theorem writes_keep_the_old_text:
  assumes "write_raw pl dl w content dir = (r, dir')"
  shows "layer_text dir' w = (if r = Inr () then content else layer_text dir w) \<and>
    (\<forall>x t. map_of dir x = Some t \<and> x \<noteq> layer_file w \<and> x \<noteq> temp_name dl w \<longrightarrow> map_of dir' x = Some t) \<and>
    (\<forall>old. r = Inr () \<and> map_of dir (layer_file w) = Some old \<longrightarrow>
      (\<exists>b. map_of dir (backup_prefix w @ b) = None \<and> map_of dir' (backup_prefix w @ b) = Some old))"
proof (intro conjI allI impI)
  show "layer_text dir' w = (if r = Inr () then content else layer_text dir w)" using write_raw_layers(1) [OF assms, of w] by simp
next
  fix x t assume x: "map_of dir x = Some t \<and> x \<noteq> layer_file w \<and> x \<noteq> temp_name dl w"
  from write_raw_cases [OF assms] show "map_of dir' x = Some t"
    using x backup_outcome(2) [of dl w dir _ _ x] written_outcome(3) [of dl w content _ r dir' x] by (elim disjE exE conjE) auto
next
  fix old assume old: "r = Inr () \<and> map_of dir (layer_file w) = Some old"
  with write_raw_cases [OF assms] obtain n dir1 where d: "backup dl w dir = (Inr n, dir1)" "write_atomically dl w content dir1 = (r, dir')"
    by auto
  from backup_outcome(3) [OF d(1) refl] old obtain b where
    "map_of dir (backup_prefix w @ b) = None" "map_of dir1 (backup_prefix w @ b) = Some old" by blast
  with written_outcome(2) [OF d(2)] show "\<exists>b. map_of dir (backup_prefix w @ b) = None \<and> map_of dir' (backup_prefix w @ b) = Some old"
    by auto
qed

end
