(* ===== verification/Manager_Process.thy ===== *)
theory Manager_Process
  imports Session Proxy
begin

text \<open>
  The supervision of the server by the desktop manager (\<open>process_manager.rs\<close>, \<open>ports.rs\<close> and \<open>app.rs\<close>
  under \<open>src/manager/crates/wallermax-manager-core/src\<close>): the command line, the captured log with its
  cursor, the boot probe, the single supervised process, and the take-over of the port. Processes,
  signals, the clock and the system's tools are parameters or steps of the environment.
\<close>

section \<open>The command line\<close>

function split_cmd :: "bool \<Rightarrow> bool \<Rightarrow> string \<Rightarrow> string \<Rightarrow> string list option" where
  "split_cmd in_quotes started current s =
     (case s of
        [] \<Rightarrow> if in_quotes then None else Some (if started \<or> current \<noteq> [] then [rev current] else [])
      | c # s' \<Rightarrow>
          if c = CHR 0x22 then split_cmd (\<not> in_quotes) True current s'
          else if in_quotes then split_cmd in_quotes started (c # current) s'
          else if ws_len s = 0 then split_cmd in_quotes True (c # current) s'
          else if started \<or> current \<noteq> [] then map_option ((#) (rev current)) (split_cmd False False [] (drop (ws_len s - 1) s'))
          else split_cmd False started current (drop (ws_len s - 1) s'))"
  by pat_completeness auto
termination
  by (relation "measure (\<lambda>(q, st, cur, s). length s)") auto

declare split_cmd.simps [simp del]

definition split_command_line :: "string \<Rightarrow> (string, string list) result" where
  "split_command_line text =
     (case split_cmd False False [] text of
        None \<Rightarrow> Inl (''unbalanced quotes in command line: '' @ text)
      | Some [] \<Rightarrow> Inl ''the server command is empty''
      | Some tokens \<Rightarrow> Inr tokens)"

definition quoted_token :: "string \<Rightarrow> string" where
  "quoted_token t = CHR 0x22 # t @ [CHR 0x22]"

lemma split_cmd_steps:
  "split_cmd True started current (c # s) =
    (if c = CHR 0x22 then split_cmd False True current s else split_cmd True started (c # current) s)"
  "split_cmd False started current (CHR 0x22 # s) = split_cmd True True current s"
  "split_cmd False True current (CHR '' '' # s) = map_option ((#) (rev current)) (split_cmd False False [] s)"
  "split_cmd False True current [] = Some [rev current]"
  by (subst split_cmd.simps, simp add: ws_len_space)+

lemma split_cmd_quoted: "CHR 0x22 \<notin> set t \<Longrightarrow> split_cmd True started current (t @ s) = split_cmd True started (rev t @ current) s"
  by (induction t arbitrary: current) (auto simp: split_cmd_steps(1))

lemma split_cmd_token:
  assumes "CHR 0x22 \<notin> set t"
  shows "split_cmd False False [] (quoted_token t) = Some [t]"
    "split_cmd False False [] (quoted_token t @ CHR '' '' # s) = map_option ((#) t) (split_cmd False False [] s)"
  using assms by (simp_all add: quoted_token_def split_cmd_steps split_cmd_quoted)

lemma split_cmd_tokens:
  "ts \<noteq> [] \<Longrightarrow> \<forall>t \<in> set ts. CHR 0x22 \<notin> set t \<Longrightarrow> split_cmd False False [] (join_with '' '' (map quoted_token ts)) = Some ts"
proof (induction ts rule: induct_list012)
  case (3 t u ts)
  then show ?case by (simp add: split_cmd_token(2))
qed (simp_all add: split_cmd_token(1))

text \<open>
  A command whose program and arguments are written each between double quotes, with a blank
  between them, is started with exactly these, whatever blanks they hold and empty ones too.
\<close>

theorem quoted_command_is_kept:
  assumes "ts \<noteq> []" "\<forall>t \<in> set ts. CHR 0x22 \<notin> set t"
  shows "split_command_line (join_with '' '' (map quoted_token ts)) = Inr ts"
  using split_cmd_tokens [OF assms] assms(1) by (cases ts) (simp_all add: split_command_line_def)

theorem quoted_command_is_kept_witness:
  "split_command_line (join_with '' '' (map quoted_token [''C: server'', [], ''run''])) = Inr [''C: server'', [], ''run'']"
  by (rule quoted_command_is_kept) simp_all

section \<open>The captured log\<close>

datatype log_stream = Log_Out | Log_Err

record log_line =
  ll_seq :: nat
  ll_stream :: log_stream
  ll_text :: string

record log_buffer =
  lb_lines :: "log_line list"
  lb_written :: nat
  lb_capacity :: nat

definition log_capacity :: nat where "log_capacity = 10000"
definition log_line_max :: nat where "log_line_max = 8 * 1024"

definition new_log :: "nat \<Rightarrow> log_buffer" where
  "new_log capacity = \<lparr>lb_lines = [], lb_written = 0, lb_capacity = capacity\<rparr>"

text \<open>Characters of UTF-8: the bytes that continue one are not counted.\<close>

definition continues :: "char \<Rightarrow> bool" where
  "continues c \<longleftrightarrow> 128 \<le> code c \<and> code c < 192"

definition char_count :: "string \<Rightarrow> nat" where
  "char_count s = length (filter (\<lambda>c. \<not> continues c) s)"

fun log_chars :: "nat \<Rightarrow> string \<Rightarrow> string" where
  "log_chars n [] = []"
| "log_chars n (c # s) =
     (if continues c then c # log_chars n s
      else (case n of 0 \<Rightarrow> [] | Suc m \<Rightarrow> c # log_chars m s))"

definition cut_line :: "string \<Rightarrow> string" where
  "cut_line text =
     (if log_line_max < char_count text then log_chars log_line_max text @ [CHR 0xE2, CHR 0x80, CHR 0xA6] else text)"

definition push_line :: "log_stream \<Rightarrow> string \<Rightarrow> log_buffer \<Rightarrow> log_buffer" where
  "push_line which text b =
     (let lines = lb_lines b @ [\<lparr>ll_seq = lb_written b, ll_stream = which, ll_text = cut_line text\<rparr>]
      in b\<lparr>lb_lines := drop (length lines - lb_capacity b) lines, lb_written := lb_written b + 1\<rparr>)"

definition log_page :: "nat \<Rightarrow> nat \<Rightarrow> log_buffer \<Rightarrow> log_line list \<times> nat" where
  "log_page since bound b = (take bound (filter (\<lambda>l. since \<le> ll_seq l) (lb_lines b)), lb_written b)"

text \<open>A reader that follows the cursor, among the lines the process prints.\<close>

datatype log_event = Printed log_stream string | Polled nat

record reader =
  rd_buffer :: log_buffer
  rd_cursor :: nat
  rd_seen :: "log_line list"

definition new_reader :: "nat \<Rightarrow> reader" where
  "new_reader capacity = \<lparr>rd_buffer = new_log capacity, rd_cursor = 0, rd_seen = []\<rparr>"

fun read_step :: "log_event \<Rightarrow> reader \<Rightarrow> reader" where
  "read_step (Printed which text) r = r\<lparr>rd_buffer := push_line which text (rd_buffer r)\<rparr>"
| "read_step (Polled bound) r =
     (case log_page (rd_cursor r) bound (rd_buffer r) of
        (page, next_seq) \<Rightarrow> r\<lparr>rd_cursor := next_seq, rd_seen := rd_seen r @ page\<rparr>)"

text \<open>Every line the process printed, as it is numbered, and how many came since the last poll.\<close>

fun printed_lines :: "nat \<Rightarrow> log_event list \<Rightarrow> log_line list" where
  "printed_lines n [] = []"
| "printed_lines n (Printed which text # es) = \<lparr>ll_seq = n, ll_stream = which, ll_text = cut_line text\<rparr> # printed_lines (n + 1) es"
| "printed_lines n (Polled _ # es) = printed_lines n es"

fun calm_polls :: "nat \<Rightarrow> nat \<Rightarrow> log_event list \<Rightarrow> bool" where
  "calm_polls capacity pending [] = True"
| "calm_polls capacity pending (Printed _ _ # es) = calm_polls capacity (pending + 1) es"
| "calm_polls capacity pending (Polled bound # es) = (pending \<le> bound \<and> pending \<le> capacity \<and> calm_polls capacity 0 es)"

definition reader_ok :: "log_line list \<Rightarrow> nat \<Rightarrow> reader \<Rightarrow> bool" where
  "reader_ok all capacity r \<longleftrightarrow>
     lb_written (rd_buffer r) = length all \<and> lb_capacity (rd_buffer r) = capacity \<and> rd_cursor r \<le> length all \<and>
     map ll_seq all = [0..<length all] \<and> lb_lines (rd_buffer r) = drop (length all - capacity) all \<and> rd_seen r = take (rd_cursor r) all"

lemma reader_ok_printed:
  assumes "reader_ok all capacity r"
  shows "reader_ok (all @ [\<lparr>ll_seq = length all, ll_stream = which, ll_text = cut_line text\<rparr>]) capacity (read_step (Printed which text) r)"
proof -
  have "drop (length (drop k all @ [l]) - c) (drop k all @ [l]) = drop (Suc (length all) - c) (all @ [l])"
    if "k = length all - c" for k c and l :: log_line
    using that by (cases "length all < c") (simp_all add: Suc_diff_le)
  then show ?thesis using assms by (simp add: reader_ok_def push_line_def Let_def)
qed

lemma newer_lines:
  assumes "map ll_seq all = [0..<length all]" "k \<le> n" "n \<le> length all"
  shows "filter (\<lambda>l. n \<le> ll_seq l) (drop k all) = drop n all"
proof -
  have seq: "ll_seq (all ! i) = i" if "i < length all" for i
    using that assms(1) by (metis add_0 length_map nth_map nth_upt)
  have "drop k all = take (n - k) (drop k all) @ drop n all"
    using assms(2) by (metis append_take_drop_id drop_drop le_add_diff_inverse2)
  moreover have "filter (\<lambda>l. n \<le> ll_seq l) (take (n - k) (drop k all)) = []"
    using assms(2,3) seq by (auto simp: filter_empty_conv in_set_conv_nth)
  moreover have "filter (\<lambda>l. n \<le> ll_seq l) (drop n all) = drop n all"
    using seq by (auto simp: filter_id_conv in_set_conv_nth)
  ultimately show ?thesis by (metis append_Nil filter_append)
qed

lemma reader_ok_polled:
  assumes "reader_ok all capacity r" "length all - rd_cursor r \<le> bound" "length all - rd_cursor r \<le> capacity"
  shows "reader_ok all capacity (read_step (Polled bound) r)" "rd_cursor (read_step (Polled bound) r) = length all"
proof -
  have "filter (\<lambda>l. rd_cursor r \<le> ll_seq l) (lb_lines (rd_buffer r)) = drop (rd_cursor r) all"
    using assms newer_lines [of all "length all - capacity" "rd_cursor r"] by (simp add: reader_ok_def)
  with assms show "reader_ok all capacity (read_step (Polled bound) r)" "rd_cursor (read_step (Polled bound) r) = length all"
    by (simp_all add: reader_ok_def log_page_def)
qed

lemma calm_run_ok:
  "reader_ok all capacity r \<Longrightarrow> calm_polls capacity (length all - rd_cursor r) es \<Longrightarrow>
    reader_ok (all @ printed_lines (length all) es) capacity (fold read_step es r)"
proof (induction es arbitrary: all r)
  case (Cons e es)
  show ?case
  proof (cases e)
    case (Printed which words)
    let ?l = "\<lparr>ll_seq = length all, ll_stream = which, ll_text = cut_line words\<rparr>"
    have "calm_polls capacity (length (all @ [?l]) - rd_cursor (read_step e r)) es"
      using Cons.prems by (simp add: Printed reader_ok_def Suc_diff_le)
    with Cons.IH [OF reader_ok_printed [OF Cons.prems(1), of which words]] show ?thesis by (simp add: Printed)
  next
    case (Polled bound)
    with Cons.prems have "length all - rd_cursor r \<le> bound" "length all - rd_cursor r \<le> capacity" "calm_polls capacity 0 es" by simp_all
    with Cons.IH [OF reader_ok_polled(1)] reader_ok_polled(2) Cons.prems(1) show ?thesis by (simp add: Polled)
  qed
qed (simp add: reader_ok_def)

text \<open>
  A reader that polls with the cursor of the last page sees every line the process prints exactly
  once, in order and with its number, as long as no more lines came between two polls than it asks for
  and than the buffer holds.
\<close>

theorem calm_readers_see_every_line:
  assumes "calm_polls capacity 0 es"
  shows "\<exists>rest. printed_lines 0 es = rd_seen (fold read_step es (new_reader capacity)) @ rest \<and>
    map ll_seq (rd_seen (fold read_step es (new_reader capacity))) = [0..<rd_cursor (fold read_step es (new_reader capacity))]"
proof -
  have "reader_ok [] capacity (new_reader capacity)" by (simp add: reader_ok_def new_reader_def new_log_def)
  from calm_run_ok [OF this, of es] assms have ok: "reader_ok (printed_lines 0 es) capacity (fold read_step es (new_reader capacity))"
    by (simp add: new_reader_def)
  let ?n = "rd_cursor (fold read_step es (new_reader capacity))"
  have "map ll_seq (take ?n (printed_lines 0 es)) = [0..<?n]" using ok by (simp add: reader_ok_def take_map [symmetric])
  with ok show ?thesis
    by (intro exI [where x = "drop ?n (printed_lines 0 es)"]) (simp add: reader_ok_def)
qed

theorem calm_readers_see_every_line_witness:
  "map ll_seq (rd_seen (fold read_step [Printed Log_Out ''a'', Printed Log_Err ''b'', Polled 2, Printed Log_Out ''c'', Polled 1] (new_reader 2))) =
    [0..<rd_cursor (fold read_step [Printed Log_Out ''a'', Printed Log_Err ''b'', Polled 2, Printed Log_Out ''c'', Polled 1] (new_reader 2))]"
  using calm_readers_see_every_line [of 2 "[Printed Log_Out ''a'', Printed Log_Err ''b'', Polled 2, Printed Log_Out ''c'', Polled 1]"] by auto

text \<open>
  More lines than a poll asks for are lost for good: the cursor of the page is past the lines it left
  out. The dashboard polls every two seconds for 400 lines.
\<close>

lemma busy_readers_lose_lines:
  "map ll_text (rd_seen (fold read_step [Printed Log_Out ''a'', Printed Log_Out ''b'', Printed Log_Out ''c'', Polled 1, Polled 9, Polled 9]
     (new_reader log_capacity))) = [''a'']"
  by (simp add: new_reader_def new_log_def log_capacity_def push_line_def log_page_def cut_line_def log_line_max_def char_count_def)

section \<open>The boot probe\<close>

definition ready_marker :: string where "ready_marker = ''wallermax-server listening''"
definition probe_output_max :: nat where "probe_output_max = 8 * 1024"

record boot_probe =
  bp_booted :: bool
  bp_exit_code :: "int option"
  bp_output :: string

definition probe_line :: "string \<Rightarrow> log_line \<Rightarrow> string" where
  "probe_line out l = (if length out < probe_output_max then out @ ll_text l @ [CHR 0x0A] else out)"

text \<open>The lines of a page up to the marker: the output, and whether the marker came.\<close>

fun probe_lines :: "string \<Rightarrow> log_line list \<Rightarrow> string \<times> bool" where
  "probe_lines out [] = (out, False)"
| "probe_lines out (l # ls) =
     (if contains_str ready_marker (ll_text l) then (probe_line out l, True) else probe_lines (probe_line out l) ls)"

text \<open>
  A round of the probe: the buffer it looks at, what the reaper has recorded by then (with the buffer
  a heartbeat later), and whether the window has passed. The rounds go on until one decides.
\<close>

record probe_round =
  pr_logs :: log_buffer
  pr_exit :: "(int option \<times> log_buffer) option"
  pr_expired :: bool

fun probe_boot :: "nat \<Rightarrow> string \<Rightarrow> probe_round list \<Rightarrow> boot_probe option" where
  "probe_boot cursor out [] = None"
| "probe_boot cursor out (r # rs) =
     (case log_page cursor 128 (pr_logs r) of
        (page, next_seq) \<Rightarrow>
          (case probe_lines out page of
             (out', True) \<Rightarrow> Some \<lparr>bp_booted = True, bp_exit_code = None, bp_output = out'\<rparr>
           | (out', False) \<Rightarrow>
               (let cursor' = max next_seq cursor in
                case pr_exit r of
                  Some (c, later) \<Rightarrow>
                    Some \<lparr>bp_booted = False, bp_exit_code = c, bp_output = foldl probe_line out' (fst (log_page cursor' 128 later))\<rparr>
                | None \<Rightarrow>
                    if pr_expired r then Some \<lparr>bp_booted = True, bp_exit_code = None, bp_output = out'\<rparr>
                    else probe_boot cursor' out' rs)))"

section \<open>The supervised process\<close>

datatype server_state = Stopped | Running | Exited

record managed =
  mg_pid :: nat
  mg_started :: nat
  mg_exit :: "int option option"
  mg_logs :: log_buffer

record process_status =
  ps_state :: server_state
  ps_pid :: "nat option"
  ps_started_at :: "nat option"
  ps_exit_code :: "int option"

definition managed_alive :: "managed \<Rightarrow> bool" where
  "managed_alive m \<longleftrightarrow> mg_exit m = None"

definition process_status_of :: "managed option \<Rightarrow> process_status" where
  "process_status_of slot =
     (case slot of
        None \<Rightarrow> \<lparr>ps_state = Stopped, ps_pid = None, ps_started_at = None, ps_exit_code = None\<rparr>
      | Some m \<Rightarrow>
          if managed_alive m
          then \<lparr>ps_state = Running, ps_pid = Some (mg_pid m), ps_started_at = Some (mg_started m), ps_exit_code = None\<rparr>
          else \<lparr>ps_state = Exited, ps_pid = Some (mg_pid m), ps_started_at = Some (mg_started m),
                ps_exit_code = Option.bind (mg_exit m) id\<rparr>)"

definition server_logs :: "managed option \<Rightarrow> nat \<Rightarrow> nat \<Rightarrow> log_line list \<times> nat" where
  "server_logs slot since bound = (case slot of Some m \<Rightarrow> log_page since bound (mg_logs m) | None \<Rightarrow> ([], since))"

text \<open>What the start does under the lock: the refusals, then the answer of the system to the spawn.\<close>

datatype start_outcome = No_Directory | Already_Running nat | Not_Spawned | Spawned nat

definition start_locked :: "bool \<Rightarrow> nat option \<Rightarrow> nat \<Rightarrow> managed option \<Rightarrow> start_outcome \<times> managed option" where
  "start_locked cwd_exists spawned now slot =
     (if \<not> cwd_exists then (No_Directory, slot)
      else (case slot of
              Some m \<Rightarrow> if managed_alive m then (Already_Running (mg_pid m), slot)
                else (case spawned of None \<Rightarrow> (Not_Spawned, slot)
                      | Some pid \<Rightarrow> (Spawned pid, Some \<lparr>mg_pid = pid, mg_started = now, mg_exit = None, mg_logs = new_log log_capacity\<rparr>))
            | None \<Rightarrow> (case spawned of None \<Rightarrow> (Not_Spawned, slot)
                      | Some pid \<Rightarrow> (Spawned pid, Some \<lparr>mg_pid = pid, mg_started = now, mg_exit = None, mg_logs = new_log log_capacity\<rparr>))))"

text \<open>The stop on Unix: the signals, by whether the exit is recorded within the grace and within two seconds more.\<close>

datatype signal = Sig_Term | Sig_Kill

definition stop_server :: "bool \<Rightarrow> bool \<Rightarrow> managed option \<Rightarrow> (string, unit) result \<times> (nat \<times> signal) list" where
  "stop_server dies_of_term dies_of_kill slot =
     (case slot of
        None \<Rightarrow> (Inr (), [])
      | Some m \<Rightarrow>
          if \<not> managed_alive m then (Inr (), [])
          else if dies_of_term then (Inr (), [(mg_pid m, Sig_Term)])
          else if dies_of_kill then (Inr (), [(mg_pid m, Sig_Term), (mg_pid m, Sig_Kill)])
          else (Inl (''the server (pid '' @ show_nat (mg_pid m) @ '') did not exit after SIGKILL''),
                [(mg_pid m, Sig_Term), (mg_pid m, Sig_Kill)]))"

text \<open>
  The manager with the processes of the system that descend from its spawns: a spawn gives a process
  id no living process has, a process may end at any time, and the reaper records it afterwards. Where
  the reaper's wait fails it records an exit without a code, whatever the process does; \<open>su_lost\<close> is no
  state of the manager, it remembers of which processes this happened.
\<close>

record supervision =
  su_slot :: "managed option"
  su_living :: "nat list"
  su_lost :: "nat list"

inductive supervise :: "supervision \<Rightarrow> supervision \<Rightarrow> bool" where
  started: "start_locked True (Some pid) now (su_slot s) = (Spawned pid, slot) \<Longrightarrow> pid \<notin> set (su_living s) \<Longrightarrow>
    supervise s (s\<lparr>su_slot := slot, su_living := pid # su_living s, su_lost := removeAll pid (su_lost s)\<rparr>)"
| refused: "start_locked cwd None now (su_slot s) = (answer, slot) \<Longrightarrow> supervise s (s\<lparr>su_slot := slot\<rparr>)"
| ended: "supervise s (s\<lparr>su_living := removeAll pid (su_living s)\<rparr>)"
| reaped: "su_slot s = Some m \<Longrightarrow> mg_pid m \<notin> set (su_living s) \<Longrightarrow> mg_exit m = None \<Longrightarrow>
    supervise s (s\<lparr>su_slot := Some (m\<lparr>mg_exit := Some c\<rparr>)\<rparr>)"
| wait_failed: "su_slot s = Some m \<Longrightarrow> mg_exit m = None \<Longrightarrow>
    supervise s (s\<lparr>su_slot := Some (m\<lparr>mg_exit := Some None\<rparr>), su_lost := mg_pid m # su_lost s\<rparr>)"
| logged: "su_slot s = Some m \<Longrightarrow> supervise s (s\<lparr>su_slot := Some (m\<lparr>mg_logs := push_line which text (mg_logs m)\<rparr>)\<rparr>)"

definition idle_manager :: supervision where
  "idle_manager = \<lparr>su_slot = None, su_living = [], su_lost = []\<rparr>"

definition one_server :: "supervision \<Rightarrow> bool" where
  "one_server s \<longleftrightarrow> distinct (su_living s) \<and>
     (\<forall>pid \<in> set (su_living s). pid \<in> set (su_lost s) \<or> (\<exists>m. su_slot s = Some m \<and> mg_pid m = pid \<and> mg_exit m = None))"

lemma one_server_step: "supervise s t \<Longrightarrow> one_server s \<Longrightarrow> one_server t"
proof (induction rule: supervise.induct)
  case (started pid now s slot)
  then have "set (su_living s) \<subseteq> set (su_lost s)" and slot: "\<exists>m. slot = Some m \<and> mg_pid m = pid \<and> mg_exit m = None"
    by (auto simp: start_locked_def one_server_def managed_alive_def split: option.splits if_splits)
  with started show ?case by (auto simp: one_server_def)
next
  case (refused cwd now s answer slot)
  then have "slot = su_slot s" by (auto simp: start_locked_def split: option.splits if_splits)
  with refused show ?case by (simp add: one_server_def)
next
  case (ended s pid)
  then show ?case by (auto simp: one_server_def distinct_removeAll)
qed (auto simp: one_server_def)

text \<open>
  C39: However starts, ends, the reaper and the printed lines interleave, of the living servers the
  manager spawned all but at most one are such that the reaper's wait for them failed; that one is the
  server in its slot, and the status then says that it runs. Where no wait fails, at most one server
  lives at any time.
\<close>

theorem at_most_one_server:
  assumes "supervise\<^sup>*\<^sup>* idle_manager s"
  shows "length (filter (\<lambda>pid. pid \<notin> set (su_lost s)) (su_living s)) \<le> 1 \<and>
    (\<forall>pid \<in> set (su_living s). pid \<notin> set (su_lost s) \<longrightarrow>
       ps_state (process_status_of (su_slot s)) = Running \<and> ps_pid (process_status_of (su_slot s)) = Some pid) \<and>
    (su_lost s = [] \<longrightarrow> length (su_living s) \<le> 1)"
proof -
  let ?kept = "filter (\<lambda>pid. pid \<notin> set (su_lost s)) (su_living s)"
  have ok: "one_server s" using assms
    by (induction rule: rtranclp_induct) (auto simp: one_server_step, simp add: one_server_def idle_manager_def)
  then have "set ?kept \<subseteq> {pid. \<exists>m. su_slot s = Some m \<and> mg_pid m = pid}" by (auto simp: one_server_def)
  then have "card (set ?kept) \<le> 1" by (cases "su_slot s") (auto simp: card_le_Suc0_iff_eq)
  moreover have "distinct ?kept" using ok by (simp add: one_server_def)
  from distinct_card [OF this] have "length ?kept = card (set ?kept)" by (rule sym)
  ultimately have one: "length ?kept \<le> 1" by simp
  moreover have "length (su_living s) \<le> 1" if "su_lost s = []" using one that by simp
  ultimately show ?thesis using ok by (auto simp: one_server_def process_status_of_def managed_alive_def)
qed

definition server_seven :: managed where
  "server_seven = \<lparr>mg_pid = 7, mg_started = 0, mg_exit = None, mg_logs = new_log log_capacity\<rparr>"

lemma first_start: "supervise idle_manager \<lparr>su_slot = Some server_seven, su_living = [7], su_lost = []\<rparr>"
  using supervise.started [of 7 0 idle_manager "Some server_seven"] by (simp add: idle_manager_def start_locked_def server_seven_def)

theorem at_most_one_server_witness:
  "length (filter (\<lambda>pid. pid \<notin> set (su_lost \<lparr>su_slot = Some server_seven, su_living = [7], su_lost = []\<rparr>))
     (su_living \<lparr>su_slot = Some server_seven, su_living = [7], su_lost = []\<rparr>)) \<le> 1"
  using at_most_one_server [OF r_into_rtranclp [of supervise, OF first_start]] by blast

text \<open>
  The exception is real: after a failed wait the manager reports that the server has exited, a second
  start is accepted while the first server lives on, and a stop reaches only the second.
\<close>

lemma failed_wait_doubles_the_server:
  "\<exists>s. supervise\<^sup>*\<^sup>* idle_manager s \<and> su_living s = [8, 7] \<and> ps_pid (process_status_of (su_slot s)) = Some 8 \<and>
    snd (stop_server True True (su_slot s)) = [(8, Sig_Term)]"
proof -
  let ?one = "\<lparr>su_slot = Some server_seven, su_living = [7], su_lost = []\<rparr>"
  let ?lost = "\<lparr>su_slot = Some (server_seven\<lparr>mg_exit := Some None\<rparr>), su_living = [7], su_lost = [7]\<rparr>"
  let ?two = "\<lparr>su_slot = Some (server_seven\<lparr>mg_pid := 8\<rparr>), su_living = [8, 7], su_lost = [7]\<rparr>"
  have lost: "supervise ?one ?lost" using supervise.wait_failed [of ?one server_seven] by (simp add: server_seven_def)
  have two: "supervise ?lost ?two"
    using supervise.started [of 8 0 ?lost "Some (server_seven\<lparr>mg_pid := 8\<rparr>)"]
    by (simp add: start_locked_def server_seven_def managed_alive_def)
  have "supervise\<^sup>*\<^sup>* idle_manager ?two"
    by (rule rtranclp.rtrancl_into_rtrancl [OF rtranclp.rtrancl_into_rtrancl [OF r_into_rtranclp [of supervise, OF first_start] lost] two])
  then show ?thesis
    by (intro exI [of _ ?two]) (simp add: process_status_of_def stop_server_def managed_alive_def server_seven_def)
qed

section \<open>The port\<close>

record port_owner =
  po_pid :: nat
  po_image :: string

definition parse_netstat_listening :: "string \<Rightarrow> (nat \<times> nat) option" where
  "parse_netstat_listening row =
     (case split_whitespace row of
        [proto, local, remote, state, pid] \<Rightarrow>
          if proto = ''TCP'' \<and> state = ''LISTENING''
          then (case (parse_unsigned 65535 (last (split_on (CHR '':'') local)), parse_u32 pid) of
                  (Some port, Some p) \<Rightarrow> Some (port, p)
                | _ \<Rightarrow> None)
          else None
      | _ \<Rightarrow> None)"

fun csv_fields :: "bool \<Rightarrow> string \<Rightarrow> string \<Rightarrow> string list" where
  "csv_fields in_quotes current [] = [rev current]"
| "csv_fields in_quotes current (c # s) =
     (if c = CHR 0x22 then csv_fields (\<not> in_quotes) current s
      else if c = CHR '','' \<and> \<not> in_quotes then rev current # csv_fields in_quotes [] s
      else csv_fields in_quotes (c # current) s)"

definition parse_tasklist_row :: "string \<Rightarrow> (nat \<times> string) option" where
  "parse_tasklist_row row =
     (case csv_fields False [] row of
        name # pid # _ \<Rightarrow> map_option (\<lambda>p. (p, name)) (parse_u32 (trim pid))
      | _ \<Rightarrow> None)"

text \<open>The owners of a port from the two tables; a later row of the second replaces an earlier one.\<close>

definition listening_owners :: "string list \<Rightarrow> string list \<Rightarrow> nat \<Rightarrow> port_owner list" where
  "listening_owners netstat tasklist port =
     (let pids = remdups_adj (sort (map snd (filter (\<lambda>(l, _). l = port) (List.map_filter parse_netstat_listening netstat))));
          images = rev (List.map_filter parse_tasklist_row tasklist)
      in map (\<lambda>pid. \<lparr>po_pid = pid, po_image = (case map_of images pid of Some i \<Rightarrow> i | None \<Rightarrow> ''<unknown>'')\<rparr>) pids)"

definition image_name :: "string \<Rightarrow> string" where
  "image_name v = lowercase (rev (takeWhile (\<lambda>c. c \<noteq> CHR 0x5C \<and> c \<noteq> CHR ''/'') (rev v)))"

text \<open>\<open>trim_end_matches(".exe")\<close>, on the reversed name.\<close>

function trim_exe_rev :: "string \<Rightarrow> string" where
  "trim_exe_rev s = (if starts_with ''exe.'' s then trim_exe_rev (drop 4 s) else s)"
  by pat_completeness auto
termination
  by (relation "measure length") (auto simp: starts_with_iff)

declare trim_exe_rev.simps [simp del]

definition image_matches :: "string \<Rightarrow> string \<Rightarrow> bool" where
  "image_matches img program \<longleftrightarrow>
     (let i = image_name img; p = image_name program in i = p \<or> trim_exe_rev (rev i) = trim_exe_rev (rev p))"

definition configured_server_image :: "string \<Rightarrow> string option" where
  "configured_server_image command =
     (if trim command = [] then None
      else (case split_command_line (trim command) of Inr (program # _) \<Rightarrow> Some program | _ \<Rightarrow> None))"

text \<open>The address the server will bind: the environment, the personal layer, the base layer, the default.\<close>

definition first_set :: "string option list \<Rightarrow> string \<Rightarrow> string" where
  "first_set candidates d = (case List.map_filter id candidates of v # _ \<Rightarrow> v | [] \<Rightarrow> d)"

definition server_bind :: "string option list \<Rightarrow> string option list \<Rightarrow> (ip_addr \<times> nat) option" where
  "server_bind hosts ports =
     (case parse_unsigned 65535 (trim (first_set ports ''8080'')) of
        None \<Rightarrow> None
      | Some port \<Rightarrow>
          if port = 0 then None
          else map_option (\<lambda>ip. (ip, port)) (parse_ip (trim (first_set hosts ''127.0.0.1''))))"

definition probe_target :: "ip_addr \<times> nat \<Rightarrow> ip_addr \<times> nat" where
  "probe_target bind =
     (case bind of
        (V4 w, port) \<Rightarrow> (if w = 0 then V4 0x7F000001 else V4 w, port)
      | (V6 w, port) \<Rightarrow> (if w = 0 then V6 1 else V6 w, port))"

datatype takeover = Start_Server | No_Command | Refused_Owners "port_owner list" | Kill_Then_Start "nat list"

definition takeover_plan :: "(ip_addr \<times> nat) option \<Rightarrow> bool \<Rightarrow> string option \<Rightarrow> port_owner list \<Rightarrow> takeover" where
  "takeover_plan bind busy expected owners =
     (if bind = None \<or> \<not> busy then Start_Server
      else (case expected of
              None \<Rightarrow> No_Command
            | Some program \<Rightarrow>
                if owners = [] \<or> list_ex (\<lambda>o'. \<not> image_matches (po_image o') program) owners then Refused_Owners owners
                else Kill_Then_Start (map po_pid owners)))"

text \<open>What a take-over kills are owners of the port whose image is the configured program, and only when all are.\<close>

lemma takeover_spares_others:
  assumes "takeover_plan bind busy expected owners = Kill_Then_Start pids"
  shows "busy \<and> (\<exists>program. expected = Some program \<and>
    (\<forall>pid \<in> set pids. \<exists>w \<in> set owners. po_pid w = pid) \<and> (\<forall>w \<in> set owners. image_matches (po_image w) program))"
  using assms by (auto simp: takeover_plan_def list_ex_iff split: if_splits option.splits)

text \<open>A program that cannot be split has no image: then nothing is killed.\<close>

lemma blank_command_kills_nothing: "takeover_plan bind busy (configured_server_image []) owners \<noteq> Kill_Then_Start pids"
  by (simp add: takeover_plan_def configured_server_image_def trim_def trim_start_def trim_end_def)

section \<open>Starting\<close>

text \<open>What the facade does before the process manager: the command, the directory and the port.\<close>

datatype start_request = Rejected_Start string | Spawn_Spec string "string list" string

definition start_server :: "string \<Rightarrow> string \<Rightarrow> string \<Rightarrow> server_state \<Rightarrow> string option \<Rightarrow> start_request" where
  "start_server command working_dir config_dir current conflict =
     (if trim command = []
      then Rejected_Start (''no server command is configured '' @ [CHR 0xE2, CHR 0x80, CHR 0x94] @ '' set it in Settings (the path to the wallermax-server binary)'')
      else (case split_command_line (trim command) of
              Inl e \<Rightarrow> Rejected_Start e
            | Inr [] \<Rightarrow> Rejected_Start ''the server command is empty''
            | Inr (program # args) \<Rightarrow>
                (let cwd = (if trim working_dir = [] then config_dir else trim working_dir) in
                 (case (if current = Running then None else conflict) of
                    Some message \<Rightarrow> Rejected_Start message
                  | None \<Rightarrow> Spawn_Spec program args cwd))))"

end
