(* ===== verification/Manager_Dashboard.thy ===== *)
theory Manager_Dashboard
  imports Manager_Files Manager_Process Floats
begin

text \<open>
  The dashboard of the desktop manager: its settings and the addresses made of them (\<open>settings.rs\<close>,
  \<open>app.rs\<close>), the reading of the server's metrics (\<open>metrics.rs\<close>), and the flat answer that puts health,
  metrics and statistics together. JSON texts are read by a parameter; the numbers are those of
  \<open>Floats\<close>.
\<close>

section \<open>Settings\<close>

record settings =
  st_server_command :: string
  st_working_dir :: string
  st_config_dir :: string
  st_origin :: string
  st_site_url :: string
  st_health_path :: string
  st_metrics_path :: string
  st_stats_path :: string
  st_probe_window_ms :: nat
  st_stop_grace_ms :: nat

definition default_settings :: settings where
  "default_settings = \<lparr>st_server_command = [], st_working_dir = [], st_config_dir = [],
     st_origin = ''http://127.0.0.1:8080'', st_site_url = [], st_health_path = ''/health'', st_metrics_path = ''/metrics'',
     st_stats_path = ''/api/stats'', st_probe_window_ms = 4000, st_stop_grace_ms = 5000\<rparr>"

text \<open>The file as it is read: missing, not readable, or its text.\<close>

datatype file_read = File_Missing | File_Broken string | File_Text string

definition load_settings :: "(string \<Rightarrow> (string, settings) result) \<Rightarrow> string \<Rightarrow> file_read \<Rightarrow> (string, settings) result" where
  "load_settings parse path file =
     (case file of
        File_Missing \<Rightarrow> Inr default_settings
      | File_Broken e \<Rightarrow> Inl (''could not read the settings file '' @ path @ '': '' @ e)
      | File_Text raw \<Rightarrow>
          if trim raw = [] then Inr default_settings
          else (case parse raw of
                  Inl e \<Rightarrow> Inl (''the settings file '' @ path @ '' is not valid JSON: '' @ e)
                | Inr s \<Rightarrow> Inr s))"

definition settings_url :: "settings \<Rightarrow> string \<Rightarrow> string" where
  "settings_url s path =
     rev (dropWhile (\<lambda>c. c = CHR ''/'') (rev (st_origin s))) @ ''/'' @ dropWhile (\<lambda>c. c = CHR ''/'') path"

definition site_url :: "settings \<Rightarrow> string" where
  "site_url s =
     (let site = trim (st_site_url s); address = (if site = [] then st_origin s else site)
      in rev (dropWhile (\<lambda>c. c = CHR ''/'') (rev address)))"

definition speaks_http :: "string \<Rightarrow> bool" where
  "speaks_http url \<longleftrightarrow> starts_with ''http://'' url \<or> starts_with ''https://'' url"

definition settings_problem :: "settings \<Rightarrow> string option" where
  "settings_problem s =
     (if \<not> speaks_http (trim (st_origin s)) then Some (''the origin must be an `http://` or `https://` URL '' @ [CHR 0xE2, CHR 0x80, CHR 0x94] @
        '' the manager talks to the local server, and `https://` suits a server serving TLS; got `'' @ st_origin s @ ''`'')
      else if trim (st_site_url s) \<noteq> [] \<and> \<not> speaks_http (trim (st_site_url s))
      then Some (''the site URL must be an `http://` or `https://` URL (it opens in the browser); got `'' @ trim (st_site_url s) @ ''`'')
      else (case find (\<lambda>(name, path). \<not> starts_with ''/'' path)
                   [(''health'', st_health_path s), (''metrics'', st_metrics_path s), (''stats'', st_stats_path s)] of
              Some (name, path) \<Rightarrow> Some (''the '' @ name @ '' path must start with `/`: `'' @ path @ ''`'')
            | None \<Rightarrow>
                if st_probe_window_ms s = 0 \<or> st_stop_grace_ms s = 0
                then Some ''the probe window and the stop grace must be at least one millisecond'' else None))"

record manager_state =
  mg_settings :: settings
  mg_config_dir :: string
  mg_notice :: "string option"

text \<open>The save of the file may fail; then nothing in memory changes.\<close>

definition save_settings :: "settings \<Rightarrow> (string, unit) result \<Rightarrow> manager_state \<Rightarrow> (string, unit) result \<times> manager_state" where
  "save_settings incoming saved m =
     (case settings_problem incoming of
        Some e \<Rightarrow> (Inl e, m)
      | None \<Rightarrow>
          (case saved of
             Inl e \<Rightarrow> (Inl e, m)
           | Inr _ \<Rightarrow>
               (Inr (), (if trim (st_config_dir incoming) = [] then m
                         else m\<lparr>mg_config_dir := trim (st_config_dir incoming), mg_notice := None\<rparr>)\<lparr>mg_settings := incoming\<rparr>)))"

text \<open>The nearest ancestor with the base file; a path is the list of its names, the innermost first.\<close>

fun nearest_config :: "(string list \<Rightarrow> bool) \<Rightarrow> string list \<Rightarrow> string list option" where
  "nearest_config holds [] = (if holds [] then Some [] else None)"
| "nearest_config holds (name # up) = (if holds (name # up) then Some (name # up) else nearest_config holds up)"

definition discover_config_dir :: "(string list \<Rightarrow> bool) \<Rightarrow> string list \<Rightarrow> string list \<times> bool" where
  "discover_config_dir holds origin = (case nearest_config holds origin of Some d \<Rightarrow> (d, True) | None \<Rightarrow> (origin, False))"

definition discover :: "(string \<Rightarrow> (string, settings) result) \<Rightarrow> string \<Rightarrow> file_read \<Rightarrow> (string list \<Rightarrow> bool) \<Rightarrow> string list \<Rightarrow>
    (string list \<Rightarrow> string) \<Rightarrow> manager_state" where
  "discover parse path file holds here show_path =
     (let (s, n) = (case load_settings parse path file of Inr s \<Rightarrow> (s, None) | Inl e \<Rightarrow> (default_settings, Some e));
          (dir, found) = (if trim (st_config_dir s) \<noteq> [] then (trim (st_config_dir s), True)
                          else (let (d, f) = discover_config_dir holds here in (show_path d, f)));
          hint = ''no '' @ base_file @ '' was found near the working directory '' @ [CHR 0xE2, CHR 0x80, CHR 0x94] @
                 '' set the configuration directory in Settings''
      in \<lparr>mg_settings = s, mg_config_dir = dir,
          mg_notice = (if found then n else Some (case n of Some e \<Rightarrow> e @ ''. '' @ hint | None \<Rightarrow> hint))\<rparr>)"

section \<open>The message of a taken port\<close>

definition describe_conflict :: "string \<Rightarrow> port_owner list \<Rightarrow> string option \<Rightarrow> string" where
  "describe_conflict address owners expected =
     (let dash = [CHR 0xE2, CHR 0x80, CHR 0x94];
          taken = ''the server'' @ [CHR 0x27] @ ''s address '' @ address @ '' is already in use by '';
          who = join_with '', '' (map (\<lambda>w. ''pid '' @ show_nat (po_pid w) @ '' ('' @ po_image w @ '')'') owners)
      in case owners of
           [] \<Rightarrow> taken @ ''another process the OS could not name '' @ dash @
                 '' find it with `netstat -ano` (or `ss -ltnp`) and stop it, or change `server.port` in the configuration''
         | w # _ \<Rightarrow>
             (let kill = ''`taskkill /PID '' @ show_nat (po_pid w) @ '' /T /F`'' in
              if (case expected of Some name \<Rightarrow> list_all (\<lambda>o'. image_matches (po_image o') name) owners | None \<Rightarrow> False)
              then taken @ who @ '' '' @ dash @ '' a server left over from an earlier manager session (servers run without a console window). Take it over from the dashboard, or end it yourself: '' @ kill
              else taken @ who @ '' '' @ dash @ '' '' @
                   (case expected of
                      Some name \<Rightarrow> ''none of them is the configured server command (`'' @ name @ ''`)''
                    | None \<Rightarrow> ''no server command is configured to compare them against'') @
                   ''; stop whatever it is (Task Manager, or '' @ kill @ ''), or change `server.port` in the configuration''))"

text \<open>The diagnosis before a start, and what the dashboard shows of the port.\<close>

definition port_conflict :: "(ip_addr \<times> nat) option \<Rightarrow> (ip_addr \<times> nat \<Rightarrow> bool) \<Rightarrow> (ip_addr \<times> nat \<Rightarrow> string) \<Rightarrow> string option \<Rightarrow> port_owner list \<Rightarrow> string option" where
  "port_conflict bind busy show_address expected owners =
     (case bind of
        None \<Rightarrow> None
      | Some b \<Rightarrow>
          if busy (probe_target b) then Some (describe_conflict (show_address (probe_target b)) owners expected) else None)"

record port_status =
  pt_address :: "string option"
  pt_occupied :: bool
  pt_owners :: "port_owner list"
  pt_takeover_ready :: bool

definition port_status_of :: "(ip_addr \<times> nat) option \<Rightarrow> (ip_addr \<times> nat \<Rightarrow> bool) \<Rightarrow> (ip_addr \<times> nat \<Rightarrow> string) \<Rightarrow> string option \<Rightarrow> port_owner list \<Rightarrow> port_status" where
  "port_status_of bind busy show_address expected owners =
     (case bind of
        None \<Rightarrow> \<lparr>pt_address = None, pt_occupied = False, pt_owners = [], pt_takeover_ready = False\<rparr>
      | Some b \<Rightarrow>
          if \<not> busy (probe_target b)
          then \<lparr>pt_address = Some (show_address b), pt_occupied = False, pt_owners = [], pt_takeover_ready = False\<rparr>
          else \<lparr>pt_address = Some (show_address b), pt_occupied = True, pt_owners = owners,
                 pt_takeover_ready = (case expected of
                     Some program \<Rightarrow> owners \<noteq> [] \<and> list_all (\<lambda>w. image_matches (po_image w) program) owners
                   | None \<Rightarrow> False)\<rparr>)"

text \<open>The dashboard offers the take-over exactly when the take-over would kill the owners.\<close>

lemma takeover_as_offered:
  "pt_takeover_ready (port_status_of (Some b) busy show_address expected owners) \<longleftrightarrow>
    takeover_plan (Some b) (busy (probe_target b)) expected owners = Kill_Then_Start (map po_pid owners)"
  by (auto simp: port_status_of_def takeover_plan_def list_ex_iff list_all_iff split: option.split)

section \<open>The metrics\<close>

record sample =
  sa_labels :: "(string, string) table"
  sa_value :: float_text

record metric_family =
  mf_help :: "string option"
  mf_samples :: "sample list"

type_synonym snapshot = "(string, metric_family) table"

definition name_byte :: "bool \<Rightarrow> char \<Rightarrow> bool" where
  "name_byte first c \<longleftrightarrow> is_alpha c \<or> c = CHR ''_'' \<or> c = CHR '':'' \<or> \<not> first \<and> is_digit c"

text \<open>The block of labels, up to the brace outside the quotes; with what comes after it.\<close>

fun label_block :: "bool \<Rightarrow> bool \<Rightarrow> string \<Rightarrow> (string \<times> string) option" where
  "label_block in_quotes escaped [] = None"
| "label_block in_quotes escaped (c # s) =
     (if escaped then map_option (\<lambda>(l, r). (c # l, r)) (label_block in_quotes False s)
      else if c = CHR 0x5C \<and> in_quotes then map_option (\<lambda>(l, r). (c # l, r)) (label_block in_quotes True s)
      else if c = CHR 0x22 then map_option (\<lambda>(l, r). (c # l, r)) (label_block (\<not> in_quotes) False s)
      else if c = CHR 0x7D \<and> \<not> in_quotes then Some ([], s)
      else map_option (\<lambda>(l, r). (c # l, r)) (label_block in_quotes False s))"

definition split_sample :: "string \<Rightarrow> (string \<times> string option \<times> string) option" where
  "split_sample row =
     (case row of
        [] \<Rightarrow> None
      | c # _ \<Rightarrow>
          if \<not> name_byte True c then None
          else (let name = takeWhile (name_byte False) row; after = dropWhile (name_byte False) row in
                case (if starts_with [CHR 0x7B] after
                      then map_option (\<lambda>(l, r). (Some l, r)) (label_block False False (tl after))
                      else Some (None, after)) of
                  None \<Rightarrow> None
                | Some (block, after') \<Rightarrow>
                    (let rest = trim_start after' in
                     if rest = [] then None else Some (name, block, takeWhile (\<lambda>x. \<not> ascii_space x) rest))))"

fun unescape_label :: "string \<Rightarrow> string" where
  "unescape_label [] = []"
| "unescape_label (c # s) =
     (if c = CHR 0x5C
      then (case s of
              [] \<Rightarrow> [CHR 0x5C]
            | d # t \<Rightarrow> (if d = CHR ''n'' then CHR 0x0A else if d = CHR ''t'' then CHR 0x09 else d) # unescape_label t)
      else c # unescape_label s)"

definition parse_label :: "string \<Rightarrow> (string \<times> string) option" where
  "parse_label pair =
     (case split_once (CHR ''='') pair of
        None \<Rightarrow> None
      | Some (key, raw) \<Rightarrow>
          (case Option.bind (strip_prefix [CHR 0x22] (trim raw)) (strip_suffix [CHR 0x22]) of
             None \<Rightarrow> None
           | Some unquoted \<Rightarrow> Some (trim key, unescape_label unquoted)))"

definition parse_labels :: "string option \<Rightarrow> (string, string) table" where
  "parse_labels block =
     (case block of
        None \<Rightarrow> []
      | Some text \<Rightarrow> fold (\<lambda>(k, v). put k v) (List.map_filter parse_label (split_on (CHR '','') text)) [])"

definition family_of :: "string \<Rightarrow> snapshot \<Rightarrow> metric_family" where
  "family_of name snap = (case map_of snap name of Some f \<Rightarrow> f | None \<Rightarrow> \<lparr>mf_help = None, mf_samples = []\<rparr>)"

definition metric_line :: "string \<Rightarrow> snapshot \<Rightarrow> snapshot" where
  "metric_line raw snap =
     (let row = trim raw in
      if row = [] then snap
      else (case strip_prefix ''# '' row of
              Some rest \<Rightarrow>
                (case Option.bind (strip_prefix ''HELP '' rest) (split_once (CHR '' '')) of
                   Some (name, doc) \<Rightarrow> put name (family_of name snap\<lparr>mf_help := Some (trim doc)\<rparr>) snap
                 | None \<Rightarrow> snap)
            | None \<Rightarrow>
                (case split_sample row of
                   None \<Rightarrow> snap
                 | Some (name, block, raw_value) \<Rightarrow>
                     (case parse_float raw_value of
                        None \<Rightarrow> snap
                      | Some v \<Rightarrow>
                          put name (family_of name snap\<lparr>mf_samples := mf_samples (family_of name snap) @ [\<lparr>sa_labels = parse_labels block, sa_value = v\<rparr>]\<rparr>) snap))))"

definition parse_metrics :: "string \<Rightarrow> snapshot" where
  "parse_metrics text = fold metric_line (text_lines text) []"

definition metric_value :: "string \<Rightarrow> snapshot \<Rightarrow> float_text option" where
  "metric_value family snap =
     (case map_of snap family of
        None \<Rightarrow> None
      | Some f \<Rightarrow> (case mf_samples f of s # _ \<Rightarrow> if sa_labels s = [] then Some (sa_value s) else None | [] \<Rightarrow> None))"

definition metric_value_labeled :: "string \<Rightarrow> string \<Rightarrow> string \<Rightarrow> snapshot \<Rightarrow> float_text option" where
  "metric_value_labeled family label wanted snap =
     Option.bind (map_of snap family) (\<lambda>f. map_option sa_value (find (\<lambda>s. map_of (sa_labels s) label = Some wanted) (mf_samples f)))"

text \<open>The addition of IEEE numbers, without the rounding.\<close>

definition float_plus :: "float_text \<Rightarrow> float_text \<Rightarrow> float_text" where
  "float_plus x y =
     (case (x, y) of
        (Finite a, Finite b) \<Rightarrow> Finite (a + b)
      | (Infinite m, Infinite n) \<Rightarrow> if m = n then Infinite m else Not_A_Number
      | (Infinite m, Finite _) \<Rightarrow> Infinite m
      | (Finite _, Infinite n) \<Rightarrow> Infinite n
      | _ \<Rightarrow> Not_A_Number)"

definition metric_sum :: "string \<Rightarrow> snapshot \<Rightarrow> float_text option" where
  "metric_sum family snap =
     Option.bind (map_of snap family) (\<lambda>f.
       if mf_samples f = [] then None else Some (foldl (\<lambda>t s. float_plus t (sa_value s)) (Finite 0) (mf_samples f)))"

section \<open>The flat answer\<close>

record dashboard =
  db_reachable :: bool
  db_error :: "string option"
  db_uptime_seconds :: "float_text option"
  db_requests_total :: "float_text option"
  db_requests_per_second :: "float_text option"
  db_rate_limited_requests :: "float_text option"
  db_registered_users :: "float_text option"
  db_version :: "string option"

definition empty_dashboard :: dashboard where
  "empty_dashboard = \<lparr>db_reachable = False, db_error = None, db_uptime_seconds = None, db_requests_total = None,
     db_requests_per_second = None, db_rate_limited_requests = None, db_registered_users = None, db_version = None\<rparr>"

definition kept_or :: "'a option \<Rightarrow> 'a option \<Rightarrow> 'a option" where
  "kept_or a b = (case a of Some _ \<Rightarrow> a | None \<Rightarrow> b)"

definition fill_from_metrics :: "snapshot \<Rightarrow> dashboard \<Rightarrow> dashboard" where
  "fill_from_metrics parsed d =
     d\<lparr>db_uptime_seconds := metric_value ''wallermax_uptime_seconds'' parsed,
       db_requests_total := metric_sum ''wallermax_requests_total'' parsed,
       db_rate_limited_requests := metric_value ''wallermax_rate_limited_requests_total'' parsed,
       db_registered_users := kept_or (db_registered_users d) (metric_value ''wallermax_registered_users'' parsed)\<rparr>"

text \<open>The statistics, with the numbers and the texts of a JSON object as the parameter reads them.\<close>

record stats_document =
  sd_number :: "string \<Rightarrow> float_text option"
  sd_string :: "string \<Rightarrow> string option"

definition fill_from_stats :: "(string \<Rightarrow> stats_document option) \<Rightarrow> string \<Rightarrow> dashboard \<Rightarrow> dashboard" where
  "fill_from_stats parse text d =
     (case parse text of
        None \<Rightarrow> d
      | Some v \<Rightarrow>
          d\<lparr>db_uptime_seconds := kept_or (db_uptime_seconds d) (sd_number v ''uptime_seconds''),
            db_requests_total := kept_or (db_requests_total d) (sd_number v ''total_requests''),
            db_rate_limited_requests := kept_or (db_rate_limited_requests d) (sd_number v ''rate_limited_requests''),
            db_requests_per_second := sd_number v ''requests_per_second'',
            db_registered_users := kept_or (db_registered_users d) (sd_number v ''registered_users''),
            db_version := sd_string v ''version''\<rparr>)"

definition fetch_dashboard :: "(string \<Rightarrow> (string, string) result) \<Rightarrow> (string \<Rightarrow> stats_document option) \<Rightarrow> settings \<Rightarrow> dashboard" where
  "fetch_dashboard get parse s =
     (let d0 = (case get (settings_url s (st_health_path s)) of
                  Inr _ \<Rightarrow> empty_dashboard\<lparr>db_reachable := True\<rparr>
                | Inl e \<Rightarrow> empty_dashboard\<lparr>db_error := Some e\<rparr>);
          d1 = (case get (settings_url s (st_metrics_path s)) of
                  Inr t \<Rightarrow> fill_from_metrics (parse_metrics t) (d0\<lparr>db_reachable := True\<rparr>)
                | Inl _ \<Rightarrow> d0)
      in case get (settings_url s (st_stats_path s)) of
           Inr t \<Rightarrow> fill_from_stats parse t (d1\<lparr>db_reachable := True\<rparr>)
         | Inl _ \<Rightarrow> d1)"

section \<open>What reads back\<close>

text \<open>How the exposition format writes a sample: the backslash, the quote and the line break are escaped.\<close>

fun escape_label :: "string \<Rightarrow> string" where
  "escape_label [] = []"
| "escape_label (c # s) =
     (if c = CHR 0x5C \<or> c = CHR 0x22 then [CHR 0x5C, c] else if c = CHR 0x0A then [CHR 0x5C, CHR ''n''] else [c]) @ escape_label s"

definition label_text :: "string \<times> string \<Rightarrow> string" where
  "label_text kv = fst kv @ CHR ''='' # CHR 0x22 # escape_label (snd kv) @ [CHR 0x22]"

definition sample_text :: "string \<Rightarrow> (string \<times> string) list \<Rightarrow> string \<Rightarrow> string" where
  "sample_text name kvs value =
     name @ (if kvs = [] then [] else CHR 0x7B # join_with '','' (map label_text kvs) @ [CHR 0x7D]) @ CHR '' '' # value"

definition metric_name :: "string \<Rightarrow> bool" where
  "metric_name s \<longleftrightarrow> s \<noteq> [] \<and> name_byte True (hd s) \<and> list_all (name_byte False) s"

definition ahead :: "string \<Rightarrow> (string \<times> string) option \<Rightarrow> (string \<times> string) option" where
  "ahead p r = map_option (\<lambda>(l, s). (p @ l, s)) r"

lemma ahead_ahead [simp]: "ahead p (ahead q r) = ahead (p @ q) r" "ahead p (Some (l, s)) = Some (p @ l, s)"
  by (cases r; auto simp: ahead_def)+

lemma name_byte_plain:
  assumes "name_byte first c"
  shows "c \<noteq> CHR 0x22" "c \<noteq> CHR 0x7D" "c \<noteq> CHR 0x7B" "c \<noteq> CHR '',''" "c \<noteq> CHR ''=''" "c \<noteq> CHR ''#''" "c \<noteq> CHR 0x5C" "c \<noteq> CHR '' ''" "graphic c"
  using assms by (auto simp: name_byte_def is_alpha_def is_lower_def is_upper_def is_digit_def graphic_def code_def)

lemma unescape_escape: "unescape_label (escape_label v) = v"
  by (induction v) auto

lemma escape_keeps_commas: "CHR '','' \<in> set (escape_label v) \<longleftrightarrow> CHR '','' \<in> set v"
  by (induction v) auto

lemma label_block_plain:
  "c \<noteq> CHR 0x22 \<Longrightarrow> c \<noteq> CHR 0x7D \<Longrightarrow> label_block False False (c # s) = ahead [c] (label_block False False s)"
  by (simp add: ahead_def)

lemma label_block_name:
  "list_all (name_byte False) k \<Longrightarrow> label_block False False (k @ s) = ahead k (label_block False False s)"
proof (induction k)
  case Nil
  then show ?case by (cases "label_block False False s") (auto simp: ahead_def)
next
  case (Cons c k)
  then have "c \<noteq> CHR 0x22" "c \<noteq> CHR 0x7D" by (auto dest: name_byte_plain)
  with Cons show ?case by (simp add: label_block_plain del: label_block.simps)
qed

lemma label_block_value:
  "label_block True False (escape_label v @ CHR 0x22 # s) = ahead (escape_label v @ [CHR 0x22]) (label_block False False s)"
proof (induction v)
  case (Cons c v)
  then show ?case by (cases "label_block False False s") (auto simp: ahead_def)
qed (auto simp: ahead_def)

lemma label_block_label:
  assumes "list_all (name_byte False) (fst kv)"
  shows "label_block False False (label_text kv @ s) = ahead (label_text kv) (label_block False False s)"
proof -
  have "label_block False False (CHR 0x22 # t) = ahead [CHR 0x22] (label_block True False t)" for t by (simp add: ahead_def)
  then show ?thesis
    using assms by (simp add: label_text_def label_block_name label_block_plain label_block_value del: label_block.simps)
qed

lemma label_block_labels:
  "\<forall>kv \<in> set kvs. list_all (name_byte False) (fst kv) \<Longrightarrow>
    label_block False False (join_with '','' (map label_text kvs) @ CHR 0x7D # s) = Some (join_with '','' (map label_text kvs), s)"
proof (induction kvs rule: induct_list012)
  case (2 kv)
  have "label_block False False (CHR 0x7D # s) = Some ([], s)" by simp
  with 2 show ?case by (simp add: label_block_label del: label_block.simps)
next
  case (3 kv kw kvs)
  have "label_block False False (CHR '','' # t) = ahead '','' (label_block False False t)" for t by (simp add: ahead_def)
  with 3 show ?case by (simp add: label_block_label del: label_block.simps)
qed simp

lemma parse_label_text:
  assumes "list_all (name_byte False) k"
  shows "parse_label (label_text (k, v)) = Some (k, v)"
proof -
  let ?raw = "CHR 0x22 # escape_label v @ [CHR 0x22]"
  have "CHR ''='' \<notin> set k" "list_all graphic k" using assms by (auto simp: list_all_iff dest: name_byte_plain)
  moreover have "trim ?raw = ?raw" by (rule trim_graphic) (simp_all add: graphic_def code_def)
  moreover have "strip_suffix [CHR 0x22] (escape_label v @ [CHR 0x22]) = Some (escape_label v)" by (simp add: strip_suffix_def)
  moreover have "strip_prefix [CHR 0x22] ?raw = Some (escape_label v @ [CHR 0x22])" by (simp add: strip_prefix_def)
  ultimately show ?thesis
    by (simp add: parse_label_def label_text_def split_once_append unescape_escape trim_all_graphic)
qed

lemma fold_put: "map_of (fold (\<lambda>(k, v). put k v) kvs t) x = (case map_of (rev kvs) x of Some v \<Rightarrow> Some v | None \<Rightarrow> map_of t x)"
  by (induction kvs arbitrary: t) (auto simp: map_add_Some_iff map_add_def split: option.splits)

lemma map_of_rev_distinct: "distinct (map fst kvs) \<Longrightarrow> map_of (rev kvs) x = map_of kvs x"
proof -
  assume "distinct (map fst kvs)"
  then have "map_of (rev kvs) = map_of kvs" by (subst map_of_inject_set) (simp_all add: rev_map [symmetric])
  then show ?thesis by simp
qed

lemma parse_labels_text:
  assumes "kvs \<noteq> []" "\<forall>(k, v) \<in> set kvs. list_all (name_byte False) k \<and> CHR '','' \<notin> set v" "distinct (map fst kvs)"
  shows "map_of (parse_labels (Some (join_with '','' (map label_text kvs)))) = map_of kvs"
proof
  fix x
  have "\<forall>p \<in> set (map label_text kvs). CHR '','' \<notin> set p"
    using assms(2) by (fastforce simp: label_text_def escape_keeps_commas list_all_iff dest: name_byte_plain)
  then have "split_on (CHR '','') (join_with '','' (map label_text kvs)) = map label_text kvs"
    using assms(1) by (intro split_on_join_with) auto
  moreover have "List.map_filter parse_label (map label_text kvs) = kvs"
    using assms(2) by (induction kvs) (auto simp: List.map_filter_simps parse_label_text)
  ultimately show "map_of (parse_labels (Some (join_with '','' (map label_text kvs)))) x = map_of kvs x"
    using assms(3) by (simp add: parse_labels_def fold_put map_of_rev_distinct split: option.splits)
qed

lemma trim_start_space: "trim_start (CHR '' '' # s) = trim_start s"
  unfolding trim_start_def by (subst trim_start_by.simps) (simp add: ws_len_def head_len_def white_space_def starts_with_def)

lemma split_sample_name:
  assumes "metric_name name" "\<not> name_byte False x"
  shows "split_sample (name @ x # s) =
    (case (if x = CHR 0x7B then map_option (\<lambda>(l, r). (Some l, r)) (label_block False False s) else Some (None, x # s)) of
       None \<Rightarrow> None
     | Some (block, after') \<Rightarrow>
         (let rest = trim_start after' in if rest = [] then None else Some (name, block, takeWhile (\<lambda>x. \<not> ascii_space x) rest)))"
proof -
  have all: "list_all (name_byte False) name" and first: "name_byte True (hd name)" and ne: "name \<noteq> []"
    using assms(1) by (simp_all add: metric_name_def)
  have "takeWhile (name_byte False) (name @ x # s) = name" "dropWhile (name_byte False) (name @ x # s) = x # s"
    using all assms(2) by (simp_all add: list_all_iff takeWhile_append2 dropWhile_append2)
  moreover obtain cs where "name @ x # s = hd name # cs" using ne by (cases name) simp_all
  ultimately show ?thesis using first by (simp add: split_sample_def)
qed

lemma trim_start_graphic: "list_all graphic v \<Longrightarrow> trim_start v = v"
  by (cases v) (simp_all add: trim_start_def trim_start_by_id graphic_not_ws)

lemma split_sample_text:
  assumes name: "metric_name name" and keys: "\<forall>kv \<in> set kvs. list_all (name_byte False) (fst kv)"
    and val: "value' \<noteq> []" "list_all graphic value'"
  shows "split_sample (sample_text name kvs value') =
    Some (name, if kvs = [] then None else Some (join_with '','' (map label_text kvs)), value')"
proof -
  have stop: "\<not> name_byte False (CHR 0x7B)" "\<not> name_byte False (CHR '' '')" by (auto dest: name_byte_plain)
  have cut: "takeWhile (\<lambda>x. \<not> ascii_space x) value' = value'"
    using val(2) by (auto simp: takeWhile_eq_all_conv list_all_iff graphic_def code_def ascii_space_def)
  have rest: "trim_start (CHR '' '' # value') = value'"
    using trim_start_graphic [OF val(2)] by (simp add: trim_start_space)
  show ?thesis
    using split_sample_name [OF name stop(1)] split_sample_name [OF name stop(2)] label_block_labels [OF keys]
    by (simp add: sample_text_def rest cut val(1) del: label_block.simps)
qed

text \<open>
  A counter that the server exposes reads back: the line of a sample, with any labels whose values
  hold no comma, adds to its family exactly one sample, with these labels, whatever quotes, backslashes,
  braces and line breaks their values have, and with this number; no other family changes.
\<close>

theorem samples_read_back:
  assumes "metric_name name" "distinct (map fst kvs)"
    and "\<forall>(k, v) \<in> set kvs. list_all (name_byte False) k \<and> CHR '','' \<notin> set v"
  shows "\<exists>s. map_of (sa_labels s) = map_of kvs \<and> sa_value s = Finite (real n) \<and>
    metric_line (sample_text name kvs (show_nat n)) snap =
      put name (family_of name snap\<lparr>mf_samples := mf_samples (family_of name snap) @ [s]\<rparr>) snap"
proof -
  let ?row = "sample_text name kvs (show_nat n)"
  let ?block = "if kvs = [] then None else Some (join_with '','' (map label_text kvs))"
  obtain c cs where name: "name = c # cs" and c: "name_byte True c" using assms(1) by (cases name) (auto simp: metric_name_def)
  have g: "list_all graphic (show_nat n)"
    using show_nat_digits [of n] by (auto simp: list_all_iff is_digit_def graphic_def code_def)
  have ne: "show_nat n \<noteq> []" by (rule show_nat_nonempty)
  have row: "hd ?row = c" "last ?row = last (show_nat n)" "?row \<noteq> []" using ne by (simp_all add: sample_text_def name)
  have "trim ?row = ?row"
    using g ne row name_byte_plain(9) [OF c] by (intro trim_graphic) (simp_all add: list_all_iff)
  moreover have "strip_prefix ''# '' ?row = None"
    using name_byte_plain(6) [OF c] by (simp add: strip_prefix_def sample_text_def name)
  moreover have "split_sample ?row = Some (name, ?block, show_nat n)"
    by (rule split_sample_text [OF assms(1) _ ne g]) (use assms(3) in auto)
  ultimately have "metric_line ?row snap =
      put name (family_of name snap\<lparr>mf_samples := mf_samples (family_of name snap) @ [\<lparr>sa_labels = parse_labels ?block, sa_value = Finite (real n)\<rparr>]\<rparr>) snap"
    using row(3) by (simp add: metric_line_def parse_float_nat)
  moreover have "map_of (parse_labels ?block) = map_of kvs"
  proof (cases "kvs = []")
    case False
    from parse_labels_text [OF False assms(3,2)] False show ?thesis by simp
  qed (simp add: parse_labels_def)
  ultimately show ?thesis by (intro exI [of _ "\<lparr>sa_labels = parse_labels ?block, sa_value = Finite (real n)\<rparr>"]) simp
qed

theorem samples_read_back_witness:
  "\<exists>s. map_of (sa_labels s) ''path'' = Some ''a}b'' \<and> sa_value s = Finite 12 \<and>
     metric_line (sample_text ''hits'' [(''path'', ''a}b'')] (show_nat 12)) [] = [(''hits'', \<lparr>mf_help = None, mf_samples = [s]\<rparr>)]"
proof -
  have "metric_name ''hits''" "list_all (name_byte False) ''path''"
    by (simp_all add: metric_name_def name_byte_def is_alpha_def is_lower_def is_upper_def code_def)
  then have "\<exists>s. map_of (sa_labels s) = map_of [(''path'', ''a}b'')] \<and> sa_value s = Finite (real 12) \<and>
      metric_line (sample_text ''hits'' [(''path'', ''a}b'')] (show_nat 12)) [] =
        put ''hits'' (family_of ''hits'' []\<lparr>mf_samples := mf_samples (family_of ''hits'' []) @ [s]\<rparr>) []"
    by (intro samples_read_back) simp_all
  then show ?thesis by (auto simp: family_of_def put_def)
qed

text \<open>The separation of the labels does not look at the quotes: a comma in a value loses its label.\<close>

lemma commas_lose_labels: "parse_labels (Some (label_text (''code'', ''2,3''))) = []"
proof -
  have "trim [CHR 0x22, CHR ''2''] = [CHR 0x22, CHR ''2'']" by (rule trim_graphic) (simp_all add: graphic_def code_def)
  then show ?thesis
    by (simp add: parse_labels_def label_text_def List.map_filter_simps parse_label_def split_once_def strip_prefix_def
        strip_suffix_def ends_with_def)
qed

section \<open>What is saved and found\<close>

text \<open>The directory found is the innermost one with the base file.\<close>

lemma nearest_config_nearest:
  "nearest_config holds here = Some d \<Longrightarrow>
    holds d \<and> (\<exists>below. here = below @ d \<and> (\<forall>i < length below. \<not> holds (drop i here)))"
proof (induction here)
  case (Cons name up)
  show ?case
  proof (cases "holds (name # up)")
    case False
    with Cons obtain below where b: "holds d" "up = below @ d" "\<forall>i < length below. \<not> holds (drop i up)" by auto
    have "\<not> holds (drop i (name # up))" if "i < length (name # below)" for i
      using that False b(3) by (cases i) auto
    with b(1,2) show ?thesis by (intro conjI exI [of _ "name # below"]) simp_all
  qed (use Cons in auto)
qed (auto split: if_splits)

text \<open>An origin is checked without the space around it but used with it: it is saved, and no endpoint answers.\<close>

definition spaced_origin :: settings where
  "spaced_origin = default_settings\<lparr>st_origin := '' http://127.0.0.1:8080''\<rparr>"

lemma spaced_origins_are_saved:
  "fst (save_settings spaced_origin (Inr ()) m) = Inr () \<and> (\<exists>e. parse_url (settings_url spaced_origin path) = Inl e)"
proof -
  have "trim '' http://127.0.0.1:8080'' = ''http://127.0.0.1:8080''"
    using trim_graphic [of "''http://127.0.0.1:8080''"] by (simp add: trim_def trim_start_space graphic_def code_def)
  moreover have "trim [] = []" by (rule trim_graphic) simp_all
  ultimately have "fst (save_settings spaced_origin (Inr ()) m) = Inr ()"
    by (simp add: save_settings_def settings_problem_def spaced_origin_def default_settings_def speaks_http_def)
  then show ?thesis
    by (simp add: parse_url_def settings_url_def spaced_origin_def default_settings_def strip_prefix_def)
qed

end
