(* ===== verification/Spec2Isabelle.thy ===== *)
theory Spec2Isabelle
  imports Login_Rules Markdown Panel_Tenancy Panel_Users Media_Library External_Api Sidecar Middleware Manager_Dashboard
begin

text \<open>
  A verification library of wallermax-server, a multi-tenant web server with accounts, a CMS and a
  template engine, written in Rust under \<open>src/src\<close>.

  \<^bold>\<open>The program.\<close> A request passes the middleware (limits, client address, templates), is classified by its
  host, and reaches a handler of one organization (tenant). Handlers read and write a SQLite database
  through repositories. Accounts sign in with passwords, hold short access tokens and rotating refresh
  tokens; members of an organization edit its pages, menus and media in a panel; visitors see what is
  published.

  \<^bold>\<open>Conventions.\<close> Text is a list of bytes (\<open>string\<close>); a character of UTF-8 outside ASCII is
  its bytes. Row ids and times are \<open>int\<close>. A fallible operation answers a sum, \<open>Inl\<close> the error. A
  repository method takes the database and answers its result with the database it leaves; a handler
  answers a reply with the database it leaves, and takes the decoded form or the decoding error. A view
  is named with the globals its handler adds. The clock, the random bytes and the request facts are
  fields of \<open>request\<close>. A panic is a value of its own where the code can reach one.

  \<^bold>\<open>Theories.\<close>
  \<^item> \<open>Prelude\<close>, \<open>Rust_Text\<close>: results, collections of rules, and the string functions of the standard
    library the code uses.
  \<^item> \<open>Calendar\<close>, \<open>Util\<close> (\<open>util.rs\<close>): civil dates, timestamps, slugs, percent encoding, with the
    date conversions proved inverse.
  \<^item> \<open>Proxy\<close> (\<open>proxy.rs\<close>): networks and the resolution of the client address.
  \<^item> \<open>Rate_Limit\<close> (\<open>rate_limit.rs\<close>): the token buckets and the login throttle, with their bounds.
  \<^item> \<open>Vhosts\<close> (\<open>vhosts.rs\<close>), \<open>Session\<close> (\<open>session.rs\<close>): the class of a request's host; the session cookie.
  \<^item> \<open>Store\<close>, \<open>Schema\<close> (\<open>migrations\<close>, \<open>db.rs\<close>): tables with their invariant, and the rows.
  \<^item> \<open>Users\<close> (\<open>db.rs\<close>): accounts, memberships and refresh tokens.
  \<^item> \<open>Auth\<close> (\<open>auth.rs\<close>, \<open>extractors.rs\<close>, \<open>error.rs\<close>), \<open>Auth_Routes\<close> (\<open>routes/auth.rs\<close>),
    \<open>Auth_Protocol\<close> and \<open>Login_Rules\<close>: signing in and out, the refresh as a machine of single
    statements that interleaves with others, and what holds of them.
  \<^item> \<open>Tenancy\<close>: the interface between writes and organizations, a locale.
  \<^item> \<open>Pages\<close>, \<open>Menus\<close>, \<open>Media\<close> (\<open>db.rs\<close>): the content repositories with their invariants.
  \<^item> \<open>Markdown\<close> (\<open>markdown.rs\<close>): the filter on what the Markdown parser yields.
  \<^item> \<open>Panel\<close>, \<open>Panel_Pages\<close>, \<open>Panel_Menus\<close> (\<open>routes/cms.rs\<close>): the guards, forms and handlers of the
    panel; \<open>Page_Tree\<close> and \<open>Panel_Tenancy\<close>: what the handlers keep.
  \<^item> \<open>Template_Globals\<close> (\<open>middleware/templates.rs\<close>), \<open>Public_Site\<close> (\<open>routes/cms.rs\<close>,
    \<open>routes/search.rs\<close>): the globals of a render and what visitors get; \<open>Template_Dispatch\<close>
    (\<open>middleware/templates.rs\<close>): which file, page or view answers a request.
  \<^item> \<open>Organizations\<close> (\<open>db.rs\<close>): organizations, their hosts and members, the seeding of the start;
    the tables refine two maps, from keys to organizations and from hosts to the key of one.
  \<^item> \<open>Serving\<close> (\<open>state.rs\<close>, \<open>routes/mod.rs\<close>, \<open>routes/static_files.rs\<close>, \<open>server.rs\<close>): the live snapshot
    of the hosts and the tree of routes that serves a request; the refresh as a machine of the single
    statements of the handlers, which follows the maps where the last reader swaps last.
  \<^item> \<open>Tenants\<close> (\<open>routes/tenants.rs\<close>, \<open>routes/team.rs\<close>), \<open>Panel_Users\<close> (\<open>routes/cms.rs\<close>,
    \<open>routes/admin.rs\<close>): the pages on organizations, members and accounts, with the rule of the
    last administrator over all of them.
  \<^item> \<open>Media_Library\<close> (\<open>media.rs\<close>, \<open>routes/media.rs\<close>): uploads, the files on the disk and what is served.
  \<^item> \<open>Config\<close> (\<open>config.rs\<close>): the sections with their defaults, the validation and the order of the
    layers; what a loaded configuration is. \<open>External_Api\<close> (\<open>external_api.rs\<close>,
    \<open>routes/external_api.rs\<close>): the proxy to the configured upstreams, from which no client escapes, and what
    a loaded configuration makes of it.
  \<^item> \<open>Template_Compiler\<close> (\<open>template_engine/parser.rs\<close>, \<open>engine.rs\<close>): the passes from a template to a program,
    its includes and the cache of programs. \<open>Require\<close> (\<open>require_bridge.rs\<close>): which modules the calls of a render get.
    \<open>Sidecar\<close> (\<open>sidecar.rs\<close>, \<open>renderer.rs\<close>): the process that renders beside the engine, its supervisor, and
    the automatic backend as a machine of interleaving renders and attempts to respawn.
  \<^item> \<open>Floats\<close>: the grammar of floating-point numbers. \<open>Middleware\<close> (\<open>middleware/*.rs\<close>, \<open>error.rs\<close>, \<open>state.rs\<close>):
    the layers around the routes as functions on handlers, their order, the policy that is widened for
    the sign-in across hosts, and the shared error page, which nothing a client sends can mark up.
  \<^item> The desktop manager (\<open>src/manager/crates/wallermax-manager-core/src\<close>): \<open>Manager_Process\<close>
    (\<open>process_manager.rs\<close>, \<open>ports.rs\<close>), the server it supervises, as a machine in which the reaper's wait
    can fail, with the log and the port; \<open>Manager_Client\<close> (\<open>http.rs\<close>), the client of the endpoints; \<open>Manager_Files\<close>
    (\<open>config_manager.rs\<close>), the editor of the two configuration files, which always load;
    \<open>Manager_Dashboard\<close> (\<open>settings.rs\<close>, \<open>metrics.rs\<close>, \<open>app.rs\<close>), its settings and what it reads of the server.

  \<^bold>\<open>Bounds.\<close> A refresh takes at most six statements; the walk to the root of the page tree visits 128 pages
  at most, as in the code; the walk that flattens the tree has one more unit of fuel than there are
  pages, which is enough because a chain of parents without repetition is no longer than that. Includes are
  resolved over the eight levels that are left, as in the code; a render of the automatic backend takes at
  most two rounds.

  \<^bold>\<open>Parameters.\<close> Argon2, SHA-256, base64 and the JWT codec (\<open>crypto\<close>), the URL parser, the matching, the rank
  (over the whole index) and the snippets of the full-text index, the Markdown parser and HTML writer, the image decoder, the template engine,
  the reader of TOML and of the environment (\<open>builder\<close>), the grammar of header names, the HTTP client and the form encoding,
  the TOML library of the manager.

  \<^bold>\<open>Not modelled.\<close> The JavaScript engine, its sandbox and what the process beside it runs, sockets and TLS, the log
  records and the Prometheus registry, the layers of tower-http, the service of static files, the window of the
  manager with the processes and signals below it, views and assets.
\<close>

end
